(* ===== verification/ZB_Prelude.thy ===== *)
theory ZB_Prelude
  imports Main "HOL-Library.Word" "HOL-Library.Monad_Syntax"
begin

text \<open>
  Shared ground of the development: the machine integer types, the error codes of
  \<^verbatim>\<open>include/zb_errors.h\<close>, the primitive memory operations of C that the code uses on
  arrays, and the lemmas on options, lists and words that the component theories share.

  A run that a \<^verbatim>\<open>ZB_ASSERT\<close> stops, that dereferences a null pointer or that leaves
  the bounds of an array is the value \<open>None\<close>; every other run is \<open>Some\<close> of its result.
  A theorem that an operation returns \<open>Some\<close> is therefore a memory safety theorem.
\<close>

unbundle bit_operations_syntax

section \<open>Machine integers\<close>

type_synonym u4 = "4 word"
type_synonym u8 = "8 word"
type_synonym u16 = "16 word"
type_synonym u32 = "32 word"

section \<open>Lemma collections\<close>

named_theorems zb_config \<open>the constants of zb_config.h, unfolded\<close>
named_theorems zb_err \<open>the error codes, unfolded\<close>

section \<open>Error codes (zb_errors.h)\<close>

type_synonym zb_ret = int

definition GENERIC_ERROR_CODE :: "int \<Rightarrow> zb_ret" where
  "GENERIC_ERROR_CODE code = (if code \<noteq> 0 then - (0 * 10000 + code) else 0)"

definition RET_OK :: zb_ret where [zb_err]: "RET_OK = 0"
definition RET_ERROR :: zb_ret where [zb_err]: "RET_ERROR = GENERIC_ERROR_CODE 1"
definition RET_NO_MEMORY :: zb_ret where [zb_err]: "RET_NO_MEMORY = GENERIC_ERROR_CODE 22"
definition RET_ALREADY_EXISTS :: zb_ret where [zb_err]: "RET_ALREADY_EXISTS = GENERIC_ERROR_CODE 27"
definition RET_NOT_FOUND :: zb_ret where [zb_err]: "RET_NOT_FOUND = GENERIC_ERROR_CODE 28"
definition RET_OVERFLOW :: zb_ret where [zb_err]: "RET_OVERFLOW = GENERIC_ERROR_CODE 29"
definition RET_ILLEGAL_REQUEST :: zb_ret where [zb_err]: "RET_ILLEGAL_REQUEST = GENERIC_ERROR_CODE 62"
definition RET_INVALID_BINDING :: zb_ret where [zb_err]: "RET_INVALID_BINDING = GENERIC_ERROR_CODE 63"

lemmas [zb_err] = GENERIC_ERROR_CODE_def

lemma zb_ret_distinct [simp]:
  "RET_OK \<noteq> RET_ERROR" "RET_OK \<noteq> RET_NO_MEMORY" "RET_OK \<noteq> RET_ALREADY_EXISTS"
  "RET_OK \<noteq> RET_NOT_FOUND" "RET_OK \<noteq> RET_OVERFLOW" "RET_OK \<noteq> RET_ILLEGAL_REQUEST"
  "RET_OK \<noteq> RET_INVALID_BINDING" "RET_NOT_FOUND \<noteq> RET_OVERFLOW"
  "RET_ERROR \<noteq> RET_OK" "RET_NO_MEMORY \<noteq> RET_OK" "RET_ALREADY_EXISTS \<noteq> RET_OK"
  "RET_NOT_FOUND \<noteq> RET_OK" "RET_OVERFLOW \<noteq> RET_OK" "RET_ILLEGAL_REQUEST \<noteq> RET_OK"
  "RET_INVALID_BINDING \<noteq> RET_OK" "RET_OVERFLOW \<noteq> RET_NOT_FOUND" "RET_OVERFLOW \<noteq> RET_ERROR"
  "RET_ERROR \<noteq> RET_OVERFLOW"
  by (simp_all add: zb_err)

section \<open>Assertions, pointers and arrays\<close>

definition ZB_ASSERT :: "bool \<Rightarrow> unit option" where
  "ZB_ASSERT e = (if e then Some () else None)"

lemma ZB_ASSERT_simps [simp]: "ZB_ASSERT True = Some ()" "ZB_ASSERT False = None"
  by (simp_all add: ZB_ASSERT_def)

lemma ZB_ASSERT_Some [simp]: "ZB_ASSERT e = Some u \<longleftrightarrow> e"
  by (simp add: ZB_ASSERT_def)

text \<open>An array is a list of fixed length; an access out of its bounds is \<open>None\<close>.\<close>

definition arr_get :: "'a list \<Rightarrow> nat \<Rightarrow> 'a option" where
  "arr_get xs i = (if i < length xs then Some (xs ! i) else None)"

definition arr_set :: "'a list \<Rightarrow> nat \<Rightarrow> 'a \<Rightarrow> 'a list option" where
  "arr_set xs i v = (if i < length xs then Some (xs[i := v]) else None)"

lemma arr_get_in [simp]: "i < length xs \<Longrightarrow> arr_get xs i = Some (xs ! i)"
  by (simp add: arr_get_def)

lemma arr_get_Some: "arr_get xs i = Some v \<longleftrightarrow> i < length xs \<and> v = xs ! i"
  by (auto simp: arr_get_def)

lemma arr_set_in [simp]: "i < length xs \<Longrightarrow> arr_set xs i v = Some (xs[i := v])"
  by (simp add: arr_set_def)

lemma arr_set_Some: "arr_set xs i v = Some ys \<longleftrightarrow> i < length xs \<and> ys = xs[i := v]"
  by (auto simp: arr_set_def)

text \<open>
  \<^verbatim>\<open>memmove(&a[dst], &a[src], n)\<close> within one array: both ranges must lie inside it, and
  the source is read before the destination is written.
\<close>

definition arr_move :: "'a list \<Rightarrow> nat \<Rightarrow> nat \<Rightarrow> nat \<Rightarrow> 'a list option" where
  "arr_move xs dst src n =
     (if dst + n \<le> length xs \<and> src + n \<le> length xs
      then Some (take dst xs @ take n (drop src xs) @ drop (dst + n) xs) else None)"

lemma arr_move_in:
  "dst + n \<le> length xs \<Longrightarrow> src + n \<le> length xs \<Longrightarrow>
   arr_move xs dst src n = Some (take dst xs @ take n (drop src xs) @ drop (dst + n) xs)"
  by (simp add: arr_move_def)

lemma arr_move_length: "arr_move xs dst src n = Some ys \<Longrightarrow> length ys = length xs"
  by (auto simp: arr_move_def split: if_splits)

lemma arr_move_nth:
  assumes "arr_move xs dst src n = Some ys" and "i < length xs"
  shows "ys ! i = (if dst \<le> i \<and> i < dst + n then xs ! (src + (i - dst)) else xs ! i)"
proof -
  from assms(1) have b: "dst + n \<le> length xs" "src + n \<le> length xs"
    and ys: "ys = take dst xs @ take n (drop src xs) @ drop (dst + n) xs"
    by (auto simp: arr_move_def split: if_splits)
  consider "i < dst" | "dst \<le> i" "i < dst + n" | "dst + n \<le> i" by linarith
  then show ?thesis
    using b assms(2) by cases (auto simp: ys nth_append)
qed

section \<open>Words as bounded naturals\<close>

lemma unat_of_nat_lt [simp]: "n < 2 ^ LENGTH('a) \<Longrightarrow> unat (of_nat n :: 'a::len word) = n"
  by (simp add: unat_of_nat)

lemma unat_add_1_mod:
  fixes x :: "'a::len word"
  assumes "unat x < n" and "n < 2 ^ LENGTH('a)"
  shows "unat ((x + 1) mod of_nat n) = (unat x + 1) mod n"
proof -
  have "unat (x + 1) = unat x + 1"
    using assms by (simp add: unat_word_ariths(1))
  then show ?thesis
    using assms by (simp add: unat_mod)
qed

section \<open>Tables indexed by a byte\<close>

text \<open>The values of a byte in order: a table of 256 entries is the image of this list.\<close>

definition byte_values :: "'a::len word list" where
  "byte_values = [0, 1, 2, 3, 4, 5, 6, 7, 8, 9, 10, 11, 12, 13, 14, 15, 16, 17, 18, 19, 20, 21, 22, 23, 24, 25, 26, 27, 28, 29, 30, 31,
      32, 33, 34, 35, 36, 37, 38, 39, 40, 41, 42, 43, 44, 45, 46, 47, 48, 49, 50, 51, 52, 53, 54, 55, 56, 57, 58, 59, 60, 61, 62, 63,
      64, 65, 66, 67, 68, 69, 70, 71, 72, 73, 74, 75, 76, 77, 78, 79, 80, 81, 82, 83, 84, 85, 86, 87, 88, 89, 90, 91, 92, 93, 94, 95,
      96, 97, 98, 99, 100, 101, 102, 103, 104, 105, 106, 107, 108, 109, 110, 111, 112, 113, 114, 115, 116, 117, 118, 119, 120, 121, 122, 123, 124, 125, 126, 127,
      128, 129, 130, 131, 132, 133, 134, 135, 136, 137, 138, 139, 140, 141, 142, 143, 144, 145, 146, 147, 148, 149, 150, 151, 152, 153, 154, 155, 156, 157, 158, 159,
      160, 161, 162, 163, 164, 165, 166, 167, 168, 169, 170, 171, 172, 173, 174, 175, 176, 177, 178, 179, 180, 181, 182, 183, 184, 185, 186, 187, 188, 189, 190, 191,
      192, 193, 194, 195, 196, 197, 198, 199, 200, 201, 202, 203, 204, 205, 206, 207, 208, 209, 210, 211, 212, 213, 214, 215, 216, 217, 218, 219, 220, 221, 222, 223,
      224, 225, 226, 227, 228, 229, 230, 231, 232, 233, 234, 235, 236, 237, 238, 239, 240, 241, 242, 243, 244, 245, 246, 247, 248, 249, 250, 251, 252, 253, 254, 255]"

lemma byte_values_upt: "byte_values = map of_nat [0..<256]"
  by (simp add: byte_values_def upt_conv_Cons)

lemma byte_values_table: "i < 256 \<Longrightarrow> map f byte_values ! i = f (of_nat i)"
  by (simp add: byte_values_upt)

lemma byte_values_byte: "map f byte_values ! unat x = f (x :: u8)"
proof -
  have "unat x < 256" using unsigned_less [of x] by simp
  then show ?thesis by (simp add: byte_values_table)
qed

end
