(* ===== verification/Ring_Buffer.thy ===== *)
theory Ring_Buffer
  imports ZB_Prelude
begin

text \<open>
  The ring buffer macros of \<^verbatim>\<open>include/zb_ringbuffer.h\<close>: the record declared by
  \<^verbatim>\<open>ZB_RING_BUFFER_DECLARE\<close> and one definition per macro. A pointer to an entry is its
  index in \<^verbatim>\<open>ring_buf\<close>. The counters are \<^verbatim>\<open>zb_ushort_t\<close>, an \<^verbatim>\<open>unsigned int\<close> on the
  32-bit-word platforms, so they are 32-bit words and wrap.

  The locale \<open>bounded_fifo\<close> states what a client of a fixed-capacity queue relies on; the
  ring buffer is its interpretation.
\<close>

section \<open>The interface: a queue of bounded capacity\<close>

locale bounded_fifo =
  fixes inv :: "'q \<Rightarrow> bool"
    and contents :: "'q \<Rightarrow> 'a list"
    and capacity :: "'q \<Rightarrow> nat"
    and init :: "'q \<Rightarrow> 'q"
    and is_full :: "'q \<Rightarrow> bool"
    and is_empty :: "'q \<Rightarrow> bool"
    and put :: "'q \<Rightarrow> 'a \<Rightarrow> 'q option"
    and peek :: "'q \<Rightarrow> 'a option"
    and drop_front :: "'q \<Rightarrow> 'q"
  assumes init_inv: "inv q \<Longrightarrow> inv (init q)"
    and init_contents: "inv q \<Longrightarrow> contents (init q) = []"
    and bounded: "inv q \<Longrightarrow> length (contents q) \<le> capacity q"
    and full_iff: "inv q \<Longrightarrow> is_full q \<longleftrightarrow> length (contents q) = capacity q"
    and empty_iff: "inv q \<Longrightarrow> is_empty q \<longleftrightarrow> contents q = []"
    and put_spec: "inv q \<Longrightarrow> \<not> is_full q \<Longrightarrow>
      \<exists>q'. put q x = Some q' \<and> inv q' \<and> contents q' = contents q @ [x] \<and> capacity q' = capacity q"
    and peek_spec: "inv q \<Longrightarrow> peek q = (case contents q of [] \<Rightarrow> None | x # _ \<Rightarrow> Some x)"
    and drop_spec: "inv q \<Longrightarrow> \<not> is_empty q \<Longrightarrow>
      inv (drop_front q) \<and> contents (drop_front q) = tl (contents q) \<and> capacity (drop_front q) = capacity q"
begin

fun put_all :: "'q \<Rightarrow> 'a list \<Rightarrow> 'q option" where
  "put_all q [] = Some q"
| "put_all q (x # xs) = do { q' \<leftarrow> put q x; put_all q' xs }"

fun take_all :: "nat \<Rightarrow> 'q \<Rightarrow> 'a list \<times> 'q" where
  "take_all 0 q = ([], q)"
| "take_all (Suc n) q =
     (case peek q of None \<Rightarrow> ([], q)
      | Some x \<Rightarrow> (let (xs, q') = take_all n (drop_front q) in (x # xs, q')))"

lemma put_Some: "inv q \<Longrightarrow> length (contents q) < capacity q \<Longrightarrow>
    \<exists>q'. put q x = Some q' \<and> inv q' \<and> contents q' = contents q @ [x] \<and> capacity q' = capacity q"
  using put_spec full_iff by (metis less_irrefl)

lemma put_all_spec:
  "inv q \<Longrightarrow> length (contents q) + length xs \<le> capacity q \<Longrightarrow>
   \<exists>q'. put_all q xs = Some q' \<and> inv q' \<and> contents q' = contents q @ xs \<and> capacity q' = capacity q"
proof (induction xs arbitrary: q)
  case Nil
  then show ?case by simp
next
  case (Cons x xs)
  then obtain q1 where q1: "put q x = Some q1" "inv q1" "contents q1 = contents q @ [x]"
      "capacity q1 = capacity q"
    using put_Some [of q x] by auto
  with Cons.IH [of q1] Cons.prems show ?case by auto
qed

lemma take_all_spec:
  "inv q \<Longrightarrow> n \<le> length (contents q) \<Longrightarrow>
   fst (take_all n q) = take n (contents q) \<and> inv (snd (take_all n q))
   \<and> contents (snd (take_all n q)) = drop n (contents q)"
proof (induction n arbitrary: q)
  case 0
  then show ?case by simp
next
  case (Suc n)
  then obtain x xs where c: "contents q = x # xs" by (cases "contents q") auto
  with Suc.prems have d: "inv (drop_front q)" "contents (drop_front q) = xs"
    using drop_spec [of q] empty_iff [of q] by auto
  from Suc.IH [OF d(1)] Suc.prems c d show ?case
    by (auto simp: peek_spec split: prod.splits)
qed

lemma fifo_order:
  assumes "inv q" and "length xs \<le> capacity (init q)"
  shows "\<exists>q'. put_all (init q) xs = Some q' \<and> fst (take_all (length xs) q') = xs"
  using put_all_spec [of "init q" xs] take_all_spec [of _ "length xs"] init_inv init_contents assms
  by fastforce

end

section \<open>The ring buffer\<close>

record 'a ring_buffer =
  ring_buf :: "'a list"
  read_i :: u32
  write_i :: u32
  written :: u32

definition ZB_RING_BUFFER_INIT :: "'a ring_buffer \<Rightarrow> 'a ring_buffer" where
  "ZB_RING_BUFFER_INIT rb = rb\<lparr>read_i := 0, write_i := 0, written := 0\<rparr>"

definition ZB_RING_BUFFER_CAPACITY :: "'a ring_buffer \<Rightarrow> u32" where
  "ZB_RING_BUFFER_CAPACITY rb = of_nat (length (ring_buf rb))"

definition ZB_RING_BUFFER_IS_FULL :: "'a ring_buffer \<Rightarrow> bool" where
  "ZB_RING_BUFFER_IS_FULL rb \<longleftrightarrow> ZB_RING_BUFFER_CAPACITY rb \<le> written rb"

definition ZB_RING_BUFFER_IS_EMPTY :: "'a ring_buffer \<Rightarrow> bool" where
  "ZB_RING_BUFFER_IS_EMPTY rb \<longleftrightarrow> written rb = 0"

definition ZB_RING_BUFFER_PUT_RESERVE :: "'a ring_buffer \<Rightarrow> u32 option" where
  "ZB_RING_BUFFER_PUT_RESERVE rb =
     (if ZB_RING_BUFFER_IS_FULL rb then None else Some (write_i rb))"

definition ZB_RING_BUFFER_FLUSH_PUT :: "'a ring_buffer \<Rightarrow> 'a ring_buffer" where
  "ZB_RING_BUFFER_FLUSH_PUT rb =
     rb\<lparr>written := written rb + 1,
        write_i := (write_i rb + 1) mod ZB_RING_BUFFER_CAPACITY rb\<rparr>"

definition ZB_RING_BUFFER_PUT :: "'a ring_buffer \<Rightarrow> 'a \<Rightarrow> 'a ring_buffer option" where
  "ZB_RING_BUFFER_PUT rb v = do {
     buf \<leftarrow> arr_set (ring_buf rb) (unat (write_i rb)) v;
     Some (rb\<lparr>ring_buf := buf, written := written rb + 1,
              write_i := (write_i rb + 1) mod ZB_RING_BUFFER_CAPACITY rb\<rparr>) }"

definition ZB_RING_BUFFER_PEEK :: "'a ring_buffer \<Rightarrow> u32 option" where
  "ZB_RING_BUFFER_PEEK rb = (if ZB_RING_BUFFER_IS_EMPTY rb then None else Some (read_i rb))"

definition ZB_RING_BUFFER_GET :: "'a ring_buffer \<Rightarrow> u32" where
  "ZB_RING_BUFFER_GET rb = read_i rb"

definition ZB_RING_BUFFER_FLUSH_GET :: "'a ring_buffer \<Rightarrow> 'a ring_buffer" where
  "ZB_RING_BUFFER_FLUSH_GET rb =
     rb\<lparr>written := written rb - 1,
        read_i := (read_i rb + 1) mod ZB_RING_BUFFER_CAPACITY rb\<rparr>"

text \<open>The entry a pointer returned by \<open>ZB_RING_BUFFER_PEEK\<close> refers to.\<close>

definition rb_peek_ent :: "'a ring_buffer \<Rightarrow> 'a option" where
  "rb_peek_ent rb = do { i \<leftarrow> ZB_RING_BUFFER_PEEK rb; arr_get (ring_buf rb) (unat i) }"

section \<open>Contents and invariant\<close>

definition rb_contents :: "'a ring_buffer \<Rightarrow> 'a list" where
  "rb_contents rb =
     map (\<lambda>k. ring_buf rb ! ((unat (read_i rb) + k) mod length (ring_buf rb))) [0..<unat (written rb)]"

definition rb_inv :: "'a ring_buffer \<Rightarrow> bool" where
  "rb_inv rb \<longleftrightarrow>
     0 < length (ring_buf rb) \<and> length (ring_buf rb) < 2 ^ 31
     \<and> unat (read_i rb) < length (ring_buf rb)
     \<and> unat (written rb) \<le> length (ring_buf rb)
     \<and> unat (write_i rb) = (unat (read_i rb) + unat (written rb)) mod length (ring_buf rb)"

lemma rb_invD:
  assumes "rb_inv rb"
  shows "0 < length (ring_buf rb)" "length (ring_buf rb) < 2 ^ 32"
    "unat (read_i rb) < length (ring_buf rb)" "unat (written rb) \<le> length (ring_buf rb)"
    "unat (write_i rb) < length (ring_buf rb)"
    "unat (write_i rb) = (unat (read_i rb) + unat (written rb)) mod length (ring_buf rb)"
  using assms by (auto simp: rb_inv_def)

lemma length_rb_contents [simp]: "length (rb_contents rb) = unat (written rb)"
  by (simp add: rb_contents_def)

lemma rb_contents_nth:
  "k < unat (written rb) \<Longrightarrow>
   rb_contents rb ! k = ring_buf rb ! ((unat (read_i rb) + k) mod length (ring_buf rb))"
  by (simp add: rb_contents_def)

lemma unat_capacity: "rb_inv rb \<Longrightarrow> unat (ZB_RING_BUFFER_CAPACITY rb) = length (ring_buf rb)"
  by (simp add: ZB_RING_BUFFER_CAPACITY_def rb_inv_def)

lemma rb_full_iff: "rb_inv rb \<Longrightarrow> ZB_RING_BUFFER_IS_FULL rb \<longleftrightarrow> unat (written rb) = length (ring_buf rb)"
  by (auto simp: ZB_RING_BUFFER_IS_FULL_def word_le_nat_alt unat_capacity dest: rb_invD)

lemma rb_empty_iff: "ZB_RING_BUFFER_IS_EMPTY rb \<longleftrightarrow> rb_contents rb = []"
  by (simp add: ZB_RING_BUFFER_IS_EMPTY_def rb_contents_def unat_eq_zero)

lemma mod_add_neq:
  fixes r w n k :: nat
  assumes "w < n" and "k < w"
  shows "(r + w) mod n \<noteq> (r + k) mod n"
proof
  assume "(r + w) mod n = (r + k) mod n"
  then have "n dvd (r + w) - (r + k)" using assms by (intro mod_eq_dvd_iff_nat [THEN iffD1]) auto
  then have "n dvd w - k" by simp
  with assms show False by (auto dest: dvd_imp_le)
qed

section \<open>Each operation on the contents\<close>

lemma rb_init:
  assumes "rb_inv rb"
  shows "rb_inv (ZB_RING_BUFFER_INIT rb)" and "rb_contents (ZB_RING_BUFFER_INIT rb) = []"
  using assms by (auto simp: ZB_RING_BUFFER_INIT_def rb_inv_def rb_contents_def)

lemma unat_written_Suc:
  "rb_inv rb \<Longrightarrow> unat (written rb + 1) = Suc (unat (written rb))"
  by (simp add: unat_word_ariths(1) rb_inv_def)

lemma rb_write_next:
  assumes "rb_inv rb"
  shows "unat ((write_i rb + 1) mod ZB_RING_BUFFER_CAPACITY rb)
    = (unat (read_i rb) + Suc (unat (written rb))) mod length (ring_buf rb)"
proof -
  have "unat ((write_i rb + 1) mod ZB_RING_BUFFER_CAPACITY rb) = (unat (write_i rb) + 1) mod length (ring_buf rb)"
    unfolding ZB_RING_BUFFER_CAPACITY_def
    by (rule unat_add_1_mod) (use rb_invD [OF assms] in auto)
  then show ?thesis
    using rb_invD(6) [OF assms] by (simp add: mod_Suc_eq)
qed

lemma rb_put:
  assumes inv: "rb_inv rb" and nf: "\<not> ZB_RING_BUFFER_IS_FULL rb"
  shows "\<exists>rb'. ZB_RING_BUFFER_PUT rb x = Some rb' \<and> rb_inv rb'
    \<and> rb_contents rb' = rb_contents rb @ [x] \<and> length (ring_buf rb') = length (ring_buf rb)"
proof -
  let ?n = "length (ring_buf rb)" and ?w = "unat (written rb)" and ?r = "unat (read_i rb)"
  let ?rb = "rb\<lparr>ring_buf := (ring_buf rb)[unat (write_i rb) := x], written := written rb + 1,
               write_i := (write_i rb + 1) mod ZB_RING_BUFFER_CAPACITY rb\<rparr>"
  note I = rb_invD [OF inv]
  have w: "?w < ?n" using nf I by (auto simp: rb_full_iff inv)
  have "ZB_RING_BUFFER_PUT rb x = Some ?rb"
    using I by (simp add: ZB_RING_BUFFER_PUT_def)
  moreover have "rb_inv ?rb"
    using inv w by (auto simp: rb_inv_def rb_write_next [OF inv] unat_written_Suc [OF inv])
  moreover have "rb_contents ?rb = rb_contents rb @ [x]"
  proof (rule nth_equalityI)
    show "length (rb_contents ?rb) = length (rb_contents rb @ [x])"
      by (simp add: unat_written_Suc [OF inv])
    fix k assume "k < length (rb_contents ?rb)"
    then have k: "k < Suc ?w" by (simp add: unat_written_Suc [OF inv])
    have "rb_contents ?rb ! k = (ring_buf rb)[unat (write_i rb) := x] ! ((?r + k) mod ?n)"
      using k by (simp add: rb_contents_nth unat_written_Suc [OF inv])
    then show "rb_contents ?rb ! k = (rb_contents rb @ [x]) ! k"
      using k w I mod_add_neq [of ?w ?n k ?r]
      by (cases "k = ?w") (auto simp: nth_append rb_contents_nth)
  qed
  ultimately show ?thesis by auto
qed

lemma rb_reserve_flush_put:
  "ZB_RING_BUFFER_PUT rb x = do { buf \<leftarrow> arr_set (ring_buf rb) (unat (write_i rb)) x;
     Some (ZB_RING_BUFFER_FLUSH_PUT (rb\<lparr>ring_buf := buf\<rparr>)) }"
  by (auto simp: ZB_RING_BUFFER_PUT_def ZB_RING_BUFFER_FLUSH_PUT_def ZB_RING_BUFFER_CAPACITY_def
      arr_set_def)

lemma rb_peek:
  assumes "rb_inv rb"
  shows "rb_peek_ent rb = (case rb_contents rb of [] \<Rightarrow> None | x # _ \<Rightarrow> Some x)"
proof (cases "rb_contents rb")
  case Nil
  then show ?thesis
    using rb_empty_iff [of rb] by (simp add: rb_peek_ent_def ZB_RING_BUFFER_PEEK_def)
next
  case (Cons x xs)
  then have "0 < unat (written rb)" by (metis length_rb_contents length_greater_0_conv list.simps(3))
  with Cons have "x = ring_buf rb ! unat (read_i rb)"
    using rb_contents_nth [of 0 rb] rb_invD [OF assms] by simp
  with Cons show ?thesis
    using rb_empty_iff [of rb] rb_invD [OF assms] by (simp add: rb_peek_ent_def ZB_RING_BUFFER_PEEK_def)
qed

lemma rb_flush_get:
  assumes inv: "rb_inv rb" and ne: "\<not> ZB_RING_BUFFER_IS_EMPTY rb"
  shows "rb_inv (ZB_RING_BUFFER_FLUSH_GET rb)"
    and "rb_contents (ZB_RING_BUFFER_FLUSH_GET rb) = tl (rb_contents rb)"
proof -
  let ?n = "length (ring_buf rb)" and ?w = "unat (written rb)" and ?r = "unat (read_i rb)"
  note I = rb_invD [OF inv]
  have w: "0 < ?w" using ne by (simp add: ZB_RING_BUFFER_IS_EMPTY_def unat_gt_0)
  have w': "unat (written rb - 1) = ?w - 1"
    using w by (simp add: unat_sub word_le_nat_alt)
  have r': "unat ((read_i rb + 1) mod ZB_RING_BUFFER_CAPACITY rb) = (?r + 1) mod ?n"
    unfolding ZB_RING_BUFFER_CAPACITY_def by (rule unat_add_1_mod) (use I in auto)
  show "rb_inv (ZB_RING_BUFFER_FLUSH_GET rb)"
  proof -
    have "((?r + 1) mod ?n + (?w - 1)) mod ?n = (?r + 1 + (?w - 1)) mod ?n"
      by (rule mod_add_left_eq)
    also have "?r + 1 + (?w - 1) = ?r + ?w" using w by simp
    finally have "((?r + 1) mod ?n + (?w - 1)) mod ?n = (?r + ?w) mod ?n" .
    with I w show ?thesis
      using inv by (simp add: rb_inv_def ZB_RING_BUFFER_FLUSH_GET_def w' r')
  qed
  show "rb_contents (ZB_RING_BUFFER_FLUSH_GET rb) = tl (rb_contents rb)"
    by (rule nth_equalityI)
      (auto simp: rb_contents_def ZB_RING_BUFFER_FLUSH_GET_def w' r' nth_tl mod_add_left_eq)
qed

lemma flush_get_capacity [simp]:
  "length (ring_buf (ZB_RING_BUFFER_FLUSH_GET rb)) = length (ring_buf rb)"
  "ring_buf (ZB_RING_BUFFER_FLUSH_GET rb) = ring_buf rb"
  by (simp_all add: ZB_RING_BUFFER_FLUSH_GET_def)

interpretation rb: bounded_fifo rb_inv rb_contents "\<lambda>rb. length (ring_buf rb)" ZB_RING_BUFFER_INIT
    ZB_RING_BUFFER_IS_FULL ZB_RING_BUFFER_IS_EMPTY ZB_RING_BUFFER_PUT rb_peek_ent
    ZB_RING_BUFFER_FLUSH_GET
  by unfold_locales
    (auto simp: rb_init rb_full_iff rb_empty_iff rb_put rb_peek rb_flush_get dest: rb_invD)

end
