(* ===== verification/List_Macros.thy ===== *)
theory List_Macros
  imports ZB_Prelude
begin

text \<open>
  The intrusive list macros of \<^verbatim>\<open>include/zb_list_macros.h\<close>. The link fields that
  \<^verbatim>\<open>ZB_LIST_FIELD\<close> puts into every entry are an explicit store from entries to pointers
  (\<open>None\<close> is the null pointer), because the macros mutate entries that other lists and the
  free list reach through the same \<^verbatim>\<open>_next\<close> field. A macro that dereferences a null pointer
  is \<open>None\<close>, as is one whose \<^verbatim>\<open>ZB_LIST_CHECK_ENT\<close> assertion fails.

  The abstraction relations \<open>dl_rep\<close>, \<open>sl_rep\<close> and \<open>stk_rep\<close> say which list of entries a
  store and a head pointer represent, and one lemma per macro gives its effect on that list.
\<close>

section \<open>The link fields\<close>

record 'p links =
  lnext :: "'p \<Rightarrow> 'p option"
  lprev :: "'p \<Rightarrow> 'p option"

definition set_next :: "'p \<Rightarrow> 'p option \<Rightarrow> 'p links \<Rightarrow> 'p links" where
  "set_next p v h = h\<lparr>lnext := (lnext h)(p := v)\<rparr>"

definition set_prev :: "'p \<Rightarrow> 'p option \<Rightarrow> 'p links \<Rightarrow> 'p links" where
  "set_prev p v h = h\<lparr>lprev := (lprev h)(p := v)\<rparr>"

lemma set_links [simp]:
  "lnext (set_next p v h) = (lnext h)(p := v)" "lprev (set_next p v h) = lprev h"
  "lprev (set_prev p v h) = (lprev h)(p := v)" "lnext (set_prev p v h) = lnext h"
  by (simp_all add: set_next_def set_prev_def)

section \<open>Doubly linked lists: the head's prev is the tail\<close>

partial_function (option) ZB_LIST_CHECK_ENT :: "'p links \<Rightarrow> 'p option \<Rightarrow> 'p \<Rightarrow> unit option" where
  "ZB_LIST_CHECK_ENT h tmp ent =
     (case tmp of None \<Rightarrow> Some ()
      | Some t \<Rightarrow> if t \<noteq> ent then ZB_LIST_CHECK_ENT h (lnext h t) ent else None)"

definition ZB_LIST_GET_TAIL :: "'p links \<Rightarrow> 'p option \<Rightarrow> 'p option" where
  "ZB_LIST_GET_TAIL h l = (case l of None \<Rightarrow> None | Some p \<Rightarrow> lprev h p)"

definition ZB_LIST_ITEM_IN_LIST :: "'p links \<Rightarrow> 'p \<Rightarrow> bool" where
  "ZB_LIST_ITEM_IN_LIST h t \<longleftrightarrow> lprev h t \<noteq> None"

definition ZB_LIST_CUT_HEAD :: "'p links \<Rightarrow> 'p option \<Rightarrow> 'p links \<times> 'p option \<times> 'p option" where
  "ZB_LIST_CUT_HEAD h l =
     (case l of None \<Rightarrow> (h, l, l)
      | Some p \<Rightarrow>
          let h1 = (case lnext h p of None \<Rightarrow> h | Some q \<Rightarrow> set_prev q (lprev h p) h);
              h2 = set_prev p None h1
          in (h2, lnext h2 p, l))"

definition ZB_LIST_INSERT_HEAD :: "'p links \<Rightarrow> 'p option \<Rightarrow> 'p \<Rightarrow> ('p links \<times> 'p option) option" where
  "ZB_LIST_INSERT_HEAD h l ent = do {
     ZB_LIST_CHECK_ENT h l ent;
     let h1 = set_next ent l h;
     let h2 = (case l of Some p \<Rightarrow> set_prev p (Some ent) (set_prev ent (lprev h1 p) h1)
               | None \<Rightarrow> set_prev ent (Some ent) h1);
     Some (h2, Some ent) }"

definition ZB_LIST_INSERT_TAIL :: "'p links \<Rightarrow> 'p option \<Rightarrow> 'p \<Rightarrow> ('p links \<times> 'p option) option" where
  "ZB_LIST_INSERT_TAIL h l ent = do {
     ZB_LIST_CHECK_ENT h l ent;
     let h1 = set_next ent None h;
     (case l of
        Some p \<Rightarrow> do {
          let h2 = set_prev ent (lprev h1 p) h1;
          t \<leftarrow> lprev h2 p;
          let h3 = set_next t (Some ent) h2;
          Some (set_prev p (Some ent) h3, l) }
      | None \<Rightarrow> Some (set_prev ent (Some ent) h1, Some ent)) }"

definition ZB_LIST_INSERT_AFTER ::
  "'p links \<Rightarrow> 'p option \<Rightarrow> 'p option \<Rightarrow> 'p \<Rightarrow> ('p links \<times> 'p option) option" where
  "ZB_LIST_INSERT_AFTER h l ent new_ent = do {
     ZB_LIST_CHECK_ENT h l new_ent;
     (case ent of
        None \<Rightarrow> Some (h, l)
      | Some e \<Rightarrow>
          if ent = ZB_LIST_GET_TAIL h l then ZB_LIST_INSERT_TAIL h l new_ent
          else do {
            let h1 = set_next new_ent (lnext h e) h;
            let h2 = set_prev new_ent (Some e) h1;
            n \<leftarrow> lnext h2 e;
            let h3 = set_prev n (Some new_ent) h2;
            Some (set_next e (Some new_ent) h3, l) }) }"

definition ZB_LIST_REMOVE_HEAD :: "'p links \<Rightarrow> 'p option \<Rightarrow> 'p links \<times> 'p option" where
  "ZB_LIST_REMOVE_HEAD h l =
     (case l of None \<Rightarrow> (h, l)
      | Some p \<Rightarrow>
          let h1 = (case lnext h p of None \<Rightarrow> h | Some q \<Rightarrow> set_prev q (lprev h p) h);
              h2 = set_prev p None h1
          in (h2, lnext h2 p))"

definition ZB_LIST_REMOVE_TAIL :: "'p links \<Rightarrow> 'p option \<Rightarrow> ('p links \<times> 'p option) option" where
  "ZB_LIST_REMOVE_TAIL h l =
     (case l of None \<Rightarrow> Some (h, l)
      | Some p \<Rightarrow>
          if lprev h p = l then Some (set_prev p None h, None)
          else do {
            t \<leftarrow> lprev h p;
            tp \<leftarrow> lprev h t;
            let h1 = set_next tp None h;
            t1 \<leftarrow> lprev h1 p;
            let h2 = set_next t1 (lprev h1 t1) h1;
            t2 \<leftarrow> lprev h2 p;
            let h3 = set_prev t2 None h2;
            t3 \<leftarrow> lprev h3 p;
            Some (set_prev p (lnext h3 t3) h3, l) })"

definition ZB_LIST_REMOVE :: "'p links \<Rightarrow> 'p option \<Rightarrow> 'p \<Rightarrow> ('p links \<times> 'p option) option" where
  "ZB_LIST_REMOVE h l ent =
     (if lprev h ent \<noteq> None then do {
        h1 \<leftarrow> (case lnext h ent of
                Some n \<Rightarrow> Some (set_prev n (lprev h ent) h)
              | None \<Rightarrow> do { p \<leftarrow> l; Some (set_prev p (lprev h ent) h) });
        (h2, l2) \<leftarrow> (if Some ent = l then Some (h1, lnext h1 ent)
              else do { p \<leftarrow> lprev h1 ent; Some (set_next p (lnext h1 ent) h1, l) });
        Some (set_prev ent None h2, l2) }
      else Some (h, l))"

section \<open>Singly linked lists and stacks\<close>

definition ZB_SL_LIST_INSERT_HEAD ::
  "('p \<Rightarrow> 'p option) \<Rightarrow> 'p option \<Rightarrow> 'p option \<Rightarrow> 'p \<Rightarrow> ('p \<Rightarrow> 'p option) \<times> 'p option \<times> 'p option" where
  "ZB_SL_LIST_INSERT_HEAD nx head tail ent =
     (nx(ent := head), Some ent, if head = None then Some ent else tail)"

definition ZB_SL_LIST_INSERT_TAIL ::
  "('p \<Rightarrow> 'p option) \<Rightarrow> 'p option \<Rightarrow> 'p option \<Rightarrow> 'p \<Rightarrow> ('p \<Rightarrow> 'p option) \<times> 'p option \<times> 'p option" where
  "ZB_SL_LIST_INSERT_TAIL nx head tail ent =
     (let nx1 = nx(ent := None)
      in case tail of Some t \<Rightarrow> (nx1(t := Some ent), head, Some ent)
         | None \<Rightarrow> (nx1, Some ent, Some ent))"

definition ZB_SL_LIST_REMOVE_HEAD ::
  "('p \<Rightarrow> 'p option) \<Rightarrow> 'p option \<Rightarrow> 'p option \<Rightarrow> 'p option \<times> 'p option" where
  "ZB_SL_LIST_REMOVE_HEAD nx head tail =
     (case head of None \<Rightarrow> (head, tail)
      | Some p \<Rightarrow> (nx p, if nx p = None then None else tail))"

definition ZB_SL_LIST_CUT_HEAD ::
  "('p \<Rightarrow> 'p option) \<Rightarrow> 'p option \<Rightarrow> 'p option \<Rightarrow> 'p option \<times> 'p option \<times> 'p option" where
  "ZB_SL_LIST_CUT_HEAD nx head tail =
     (case head of None \<Rightarrow> (head, tail, None)
      | Some p \<Rightarrow> (nx p, if nx p = None then None else tail, Some p))"

definition ZB_STK_PUSH :: "('p \<Rightarrow> 'p option) \<Rightarrow> 'p option \<Rightarrow> 'p \<Rightarrow> ('p \<Rightarrow> 'p option) \<times> 'p option" where
  "ZB_STK_PUSH nx head ent = (nx(ent := head), Some ent)"

definition ZB_STK_POP :: "('p \<Rightarrow> 'p option) \<Rightarrow> 'p option \<Rightarrow> 'p option \<times> 'p option" where
  "ZB_STK_POP nx head = (case head of Some p \<Rightarrow> (nx p, Some p) | None \<Rightarrow> (head, None))"

text \<open>
  The loop of \<^verbatim>\<open>ZB_SL_LIST_REMOVE\<close> walks the chain with a trailing \<^verbatim>\<open>prev\<close> pointer.
\<close>

partial_function (option) sl_remove_loop ::
  "('p \<Rightarrow> 'p option) \<Rightarrow> 'p option \<Rightarrow> 'p option \<Rightarrow> 'p \<Rightarrow> 'p option \<Rightarrow> 'p option
   \<Rightarrow> (('p \<Rightarrow> 'p option) \<times> 'p option \<times> 'p option) option" where
  "sl_remove_loop nx head tail ent prev cur =
     (case cur of None \<Rightarrow> Some (nx, head, tail)
      | Some p \<Rightarrow>
          if p = ent then
            (let (nx1, head1, tail1) =
               (case prev of
                  Some q \<Rightarrow> (nx(q := nx p), head, if tail = Some ent then prev else tail)
                | None \<Rightarrow> (nx, nx p, tail))
             in Some (nx1, head1, if head1 = None then None else tail1))
          else sl_remove_loop nx head tail ent cur (nx p))"

definition ZB_SL_LIST_REMOVE ::
  "('p \<Rightarrow> 'p option) \<Rightarrow> 'p option \<Rightarrow> 'p option \<Rightarrow> 'p
   \<Rightarrow> (('p \<Rightarrow> 'p option) \<times> 'p option \<times> 'p option) option" where
  "ZB_SL_LIST_REMOVE nx head tail ent = sl_remove_loop nx head tail ent None head"

section \<open>Segments: what a chain of next pointers represents\<close>

fun lseg :: "('p \<Rightarrow> 'p option) \<Rightarrow> 'p option \<Rightarrow> 'p list \<Rightarrow> 'p option \<Rightarrow> bool" where
  "lseg nx a [] b \<longleftrightarrow> a = b"
| "lseg nx a (x # xs) b \<longleftrightarrow> a = Some x \<and> lseg nx (nx x) xs b"

text \<open>\<open>pseg pv q xs\<close>: the prev pointers along \<open>xs\<close>, where the first one's is \<open>q\<close>.\<close>

fun pseg :: "('p \<Rightarrow> 'p option) \<Rightarrow> 'p \<Rightarrow> 'p list \<Rightarrow> bool" where
  "pseg pv q [] \<longleftrightarrow> True"
| "pseg pv q (x # xs) \<longleftrightarrow> pv x = Some q \<and> pseg pv x xs"

lemma lseg_append: "lseg nx a (xs @ ys) b \<longleftrightarrow> (\<exists>m. lseg nx a xs m \<and> lseg nx m ys b)"
  by (induction xs arbitrary: a) auto

lemma lseg_upd [simp]: "p \<notin> set xs \<Longrightarrow> lseg (nx(p := v)) a xs b \<longleftrightarrow> lseg nx a xs b"
  by (induction xs arbitrary: a) auto

lemma pseg_upd [simp]: "p \<notin> set xs \<Longrightarrow> pseg (pv(p := v)) q xs \<longleftrightarrow> pseg pv q xs"
  by (induction xs arbitrary: q) auto

lemma pseg_append: "pseg pv q (xs @ ys) \<longleftrightarrow> pseg pv q xs \<and> pseg pv (last (q # xs)) ys"
  by (induction xs arbitrary: q) auto

lemma lseg_cong: "\<lbrakk>\<And>x. x \<in> set xs \<Longrightarrow> nx x = nx' x\<rbrakk> \<Longrightarrow> lseg nx a xs b = lseg nx' a xs b"
  by (induction xs arbitrary: a) auto

lemma lseg_hd: "lseg nx a xs None \<Longrightarrow> a = (case xs of [] \<Rightarrow> None | x # _ \<Rightarrow> Some x)"
  by (cases xs) auto

lemma lseg_None [simp]: "lseg nx None xs None \<longleftrightarrow> xs = []"
  by (cases xs) auto

lemma lseg_Some: "lseg nx (Some p) xs None \<longleftrightarrow> (\<exists>ys. xs = p # ys \<and> lseg nx (nx p) ys None)"
  by (cases xs) auto

definition dl_rep :: "'p links \<Rightarrow> 'p option \<Rightarrow> 'p list \<Rightarrow> bool" where
  "dl_rep h l xs \<longleftrightarrow>
     lseg (lnext h) l xs None \<and> distinct xs \<and> pseg (lprev h) (last xs) xs
     \<and> (\<forall>p. p \<notin> set xs \<longrightarrow> lprev h p = None)"

definition stk_rep :: "('p \<Rightarrow> 'p option) \<Rightarrow> 'p option \<Rightarrow> 'p list \<Rightarrow> bool" where
  "stk_rep nx head xs \<longleftrightarrow> lseg nx head xs None \<and> distinct xs"

definition sl_rep :: "('p \<Rightarrow> 'p option) \<Rightarrow> 'p option \<Rightarrow> 'p option \<Rightarrow> 'p list \<Rightarrow> bool" where
  "sl_rep nx head tail xs \<longleftrightarrow>
     lseg nx head xs None \<and> distinct xs \<and> tail = (if xs = [] then None else Some (last xs))"

lemma dl_rep_head: "dl_rep h l xs \<Longrightarrow> l = (case xs of [] \<Rightarrow> None | x # _ \<Rightarrow> Some x)"
  by (auto simp: dl_rep_def dest: lseg_hd)

lemma dl_rep_Nil [simp]: "dl_rep h None xs \<longleftrightarrow> xs = [] \<and> (\<forall>p. lprev h p = None)"
  by (auto simp: dl_rep_def)

lemma dl_rep_tail: "dl_rep h l xs \<Longrightarrow> ZB_LIST_GET_TAIL h l = (if xs = [] then None else Some (last xs))"
  by (cases xs) (auto simp: dl_rep_def ZB_LIST_GET_TAIL_def)

lemma pseg_member: "pseg pv q xs \<Longrightarrow> p \<in> set xs \<Longrightarrow> \<exists>r. pv p = Some r"
  by (induction xs arbitrary: q) auto

lemma dl_rep_item:
  assumes "dl_rep h l xs"
  shows "ZB_LIST_ITEM_IN_LIST h p \<longleftrightarrow> p \<in> set xs"
proof (cases "p \<in> set xs")
  case True
  with assms show ?thesis
    by (auto simp: dl_rep_def ZB_LIST_ITEM_IN_LIST_def dest: pseg_member)
next
  case False
  with assms show ?thesis by (simp add: dl_rep_def ZB_LIST_ITEM_IN_LIST_def)
qed

section \<open>Each macro on the list it represents\<close>

lemma check_ent: "lseg (lnext h) l xs None \<Longrightarrow> ent \<notin> set xs \<Longrightarrow> ZB_LIST_CHECK_ENT h l ent = Some ()"
proof (induction xs arbitrary: l)
  case Nil
  then show ?case by (simp add: ZB_LIST_CHECK_ENT.simps)
next
  case (Cons x xs)
  then show ?case by (auto simp: ZB_LIST_CHECK_ENT.simps [of h "Some x"])
qed

lemma dl_check_ent: "dl_rep h l xs \<Longrightarrow> ent \<notin> set xs \<Longrightarrow> ZB_LIST_CHECK_ENT h l ent = Some ()"
  by (auto simp: dl_rep_def intro: check_ent)

lemma check_ent_fails: "lseg (lnext h) l xs None \<Longrightarrow> ent \<in> set xs \<Longrightarrow> ZB_LIST_CHECK_ENT h l ent = None"
proof (induction xs arbitrary: l)
  case Nil
  then show ?case by simp
next
  case (Cons x xs)
  then show ?case by (auto simp: ZB_LIST_CHECK_ENT.simps [of h "Some x"])
qed

lemma dl_insert_head:
  assumes rep: "dl_rep h l xs" and new: "x \<notin> set xs"
  shows "\<exists>h'. ZB_LIST_INSERT_HEAD h l x = Some (h', Some x) \<and> dl_rep h' (Some x) (x # xs)
    \<and> lnext h' = (lnext h)(x := l)"
proof -
  note chk = dl_check_ent [OF rep new]
  show ?thesis
  proof (cases xs)
    case Nil
    with rep chk show ?thesis
      by (auto simp: ZB_LIST_INSERT_HEAD_def dl_rep_def)
  next
    case (Cons y ys)
    let ?h = "set_prev y (Some x) (set_prev x (lprev h y) (set_next x l h))"
    have l: "l = Some y" using rep Cons by (simp add: dl_rep_def)
    have "ZB_LIST_INSERT_HEAD h l x = Some (?h, Some x)"
      using chk l by (simp add: ZB_LIST_INSERT_HEAD_def)
    moreover have "dl_rep ?h (Some x) (x # xs)"
      using rep new Cons l by (auto simp: dl_rep_def)
    ultimately show ?thesis by auto
  qed
qed

lemma dl_cut_head:
  assumes rep: "dl_rep h l (x # xs)"
  shows "\<exists>h' l'. ZB_LIST_CUT_HEAD h l = (h', l', Some x) \<and> dl_rep h' l' xs \<and> lnext h' = lnext h"
proof (cases xs)
  case Nil
  with rep show ?thesis
    by (auto simp: ZB_LIST_CUT_HEAD_def dl_rep_def)
next
  case (Cons y ys)
  with rep show ?thesis
    by (auto simp: ZB_LIST_CUT_HEAD_def dl_rep_def)
qed

lemma remove_head_cut: "ZB_LIST_REMOVE_HEAD h l = (let (h', l', _) = ZB_LIST_CUT_HEAD h l in (h', l'))"
  by (auto simp: ZB_LIST_REMOVE_HEAD_def ZB_LIST_CUT_HEAD_def Let_def split: option.splits)

text \<open>A representation opened at one of its entries, and closed again.\<close>

lemma dl_rep_split:
  "dl_rep h l (ys @ p # zs) \<longleftrightarrow>
     lseg (lnext h) l ys (Some p) \<and> lseg (lnext h) (lnext h p) zs None
     \<and> distinct (ys @ p # zs)
     \<and> pseg (lprev h) (last (p # zs)) ys \<and> lprev h p = Some (last (last (p # zs) # ys)) \<and> pseg (lprev h) p zs
     \<and> (\<forall>q. q \<notin> set (ys @ p # zs) \<longrightarrow> lprev h q = None)"
  unfolding dl_rep_def by (auto simp: lseg_append pseg_append)

lemma dl_insert_tail:
  assumes rep: "dl_rep h l xs" and new: "x \<notin> set xs"
  shows "\<exists>h' l'. ZB_LIST_INSERT_TAIL h l x = Some (h', l') \<and> dl_rep h' l' (xs @ [x])
    \<and> (\<forall>p. p \<noteq> x \<longrightarrow> p \<notin> set xs \<longrightarrow> lnext h' p = lnext h p)"
proof -
  note chk = dl_check_ent [OF rep new]
  show ?thesis
  proof (cases xs rule: rev_cases)
    case Nil
    with rep chk show ?thesis
      by (auto simp: ZB_LIST_INSERT_TAIL_def dl_rep_def)
  next
    case (snoc ys z)
    define y where "y = hd xs"
    let ?h = "set_prev y (Some x) (set_next z (Some x) (set_prev x (Some z) (set_next x None h)))"
    have l: "l = Some y" and pv: "lprev h y = Some z" and xy: "x \<noteq> y" and xz: "x \<noteq> z"
      using rep snoc new unfolding y_def by (cases ys; auto simp: dl_rep_def)+
    have "ZB_LIST_INSERT_TAIL h l x = Some (?h, l)"
      using chk l pv xy by (simp add: ZB_LIST_INSERT_TAIL_def)
    moreover have "dl_rep ?h l (ys @ z # [x])"
      using rep new l xz unfolding y_def snoc dl_rep_split
      by (cases ys) auto
    moreover have "\<forall>p. p \<noteq> x \<longrightarrow> p \<notin> set xs \<longrightarrow> lnext ?h p = lnext h p"
      using snoc by auto
    ultimately show ?thesis using snoc by auto
  qed
qed

lemma dl_insert_after:
  assumes rep: "dl_rep h l (ys @ p # zs)" and new: "x \<notin> set (ys @ p # zs)"
  shows "\<exists>h' l'. ZB_LIST_INSERT_AFTER h l (Some p) x = Some (h', l') \<and> dl_rep h' l' (ys @ p # x # zs)
    \<and> (\<forall>q. q \<noteq> x \<longrightarrow> q \<notin> set (ys @ p # zs) \<longrightarrow> lnext h' q = lnext h q)"
proof -
  note chk = dl_check_ent [OF rep new]
  show ?thesis
  proof (cases zs)
    case Nil
    then have "ZB_LIST_GET_TAIL h l = Some p" using dl_rep_tail [OF rep] by simp
    with chk have "ZB_LIST_INSERT_AFTER h l (Some p) x = ZB_LIST_INSERT_TAIL h l x"
      by (simp add: ZB_LIST_INSERT_AFTER_def)
    with dl_insert_tail [OF rep new] Nil show ?thesis by auto
  next
    case (Cons z zs')
    let ?h = "set_next p (Some x) (set_prev z (Some x) (set_prev x (Some p) (set_next x (Some z) h)))"
    have nt: "Some p \<noteq> ZB_LIST_GET_TAIL h l"
      using dl_rep_tail [OF rep] rep Cons by (auto simp: dl_rep_def)
    have nx: "lnext h p = Some z" and ne: "p \<noteq> x"
      using rep Cons new by (auto simp: dl_rep_split)
    have "ZB_LIST_INSERT_AFTER h l (Some p) x = Some (?h, l)"
      using chk nt nx ne by (simp add: ZB_LIST_INSERT_AFTER_def)
    moreover have "dl_rep ?h l (ys @ p # x # zs)"
      using rep new Cons by (auto simp: dl_rep_split)
    moreover have "\<forall>q. q \<noteq> x \<longrightarrow> q \<notin> set (ys @ p # zs) \<longrightarrow> lnext ?h q = lnext h q" by auto
    ultimately show ?thesis by blast
  qed
qed

lemma dl_remove_absent: "dl_rep h l xs \<Longrightarrow> p \<notin> set xs \<Longrightarrow> ZB_LIST_REMOVE h l p = Some (h, l)"
  by (simp add: ZB_LIST_REMOVE_def dl_rep_def)

lemma dl_remove_head_ent:
  assumes rep: "dl_rep h l (p # zs)"
  shows "\<exists>h' l'. ZB_LIST_REMOVE h l p = Some (h', l') \<and> dl_rep h' l' zs \<and> lnext h' = lnext h"
proof (cases zs)
  case Nil
  with rep have f: "l = Some p" "lnext h p = None" "lprev h p = Some p" by (auto simp: dl_rep_def)
  then have "ZB_LIST_REMOVE h l p = Some (set_prev p None (set_prev p (Some p) h), None)"
    by (simp add: ZB_LIST_REMOVE_def)
  with rep Nil show ?thesis by (simp add: dl_rep_def)
next
  case (Cons z zs')
  with rep have f: "l = Some p" "lnext h p = Some z" "lprev h p = Some (last zs)" "p \<noteq> z"
    by (auto simp: dl_rep_def)
  then have "ZB_LIST_REMOVE h l p = Some (set_prev p None (set_prev z (Some (last zs)) h), Some z)"
    by (simp add: ZB_LIST_REMOVE_def)
  with rep Cons show ?thesis by (auto simp: dl_rep_def)
qed

lemma dl_remove_inner_ent:
  assumes rep: "dl_rep h l ((ys @ [y]) @ p # zs)"
  shows "\<exists>h' l'. ZB_LIST_REMOVE h l p = Some (h', l') \<and> dl_rep h' l' (ys @ y # zs)
    \<and> (\<forall>q. q \<noteq> y \<longrightarrow> lnext h' q = lnext h q)"
proof -
  obtain a where l: "l = Some a" and pa: "p \<noteq> a"
    and a: "a = hd (ys @ [y])"
    using rep unfolding dl_rep_split by (cases ys) auto
  have pp: "lprev h p = Some y" using rep unfolding dl_rep_split by simp
  show ?thesis
  proof (cases zs)
    case Nil
    let ?h = "set_prev p None (set_next y None (set_prev a (Some y) h))"
    have nx: "lnext h p = None" using rep Nil unfolding dl_rep_split by simp
    have "ZB_LIST_REMOVE h l p = Some (?h, l)"
      using l pa pp nx by (simp add: ZB_LIST_REMOVE_def)
    moreover have "dl_rep ?h l (ys @ y # zs)"
      using rep nx l Nil unfolding a dl_rep_split by (cases ys) (auto simp: lseg_append pseg_append)
    ultimately show ?thesis by auto
  next
    case (Cons z zs')
    let ?h = "set_prev p None (set_next y (Some z) (set_prev z (Some y) h))"
    have nx: "lnext h p = Some z" and pz: "p \<noteq> z" using rep Cons unfolding dl_rep_split by auto
    have "ZB_LIST_REMOVE h l p = Some (?h, l)"
      using l pa pp nx pz by (simp add: ZB_LIST_REMOVE_def)
    moreover have "dl_rep ?h l (ys @ y # zs)"
      using rep nx Cons unfolding dl_rep_split by (auto simp: lseg_append pseg_append)
    ultimately show ?thesis by auto
  qed
qed

lemma dl_remove:
  assumes rep: "dl_rep h l (ys @ p # zs)"
  shows "\<exists>h' l'. ZB_LIST_REMOVE h l p = Some (h', l') \<and> dl_rep h' l' (ys @ zs)
    \<and> (\<forall>q. q \<notin> set ys \<longrightarrow> lnext h' q = lnext h q)"
proof (cases ys rule: rev_cases)
  case Nil
  with rep dl_remove_head_ent [of h l p zs] show ?thesis by auto
next
  case (snoc ys' y)
  with rep dl_remove_inner_ent [of h l ys' y p zs] show ?thesis by auto
qed

lemma dl_remove_tail:
  assumes rep: "dl_rep h l (ys @ [p])"
  shows "\<exists>h' l'. ZB_LIST_REMOVE_TAIL h l = Some (h', l') \<and> dl_rep h' l' ys"
proof (cases ys rule: rev_cases)
  case Nil
  with rep have "l = Some p" "lprev h p = Some p" by (auto simp: dl_rep_def)
  then have "ZB_LIST_REMOVE_TAIL h l = Some (set_prev p None h, None)"
    by (simp add: ZB_LIST_REMOVE_TAIL_def)
  with rep Nil show ?thesis by (simp add: dl_rep_def)
next
  case (snoc zs y)
  obtain a where l: "l = Some a" and pa: "a \<noteq> p" and a: "a = hd ys"
    using rep snoc unfolding dl_rep_split by (cases zs) auto
  have pp: "lprev h p = Some y" "lprev h a = Some p" "y \<noteq> p"
    using rep snoc a unfolding dl_rep_split by (cases zs; auto)+
  let ?h = "set_prev a (Some y) (set_prev p None (set_next p (Some y) (set_next y None h)))"
  have "ZB_LIST_REMOVE_TAIL h l = Some (?h, l)"
    using l pa pp by (simp add: ZB_LIST_REMOVE_TAIL_def)
  moreover have "dl_rep ?h l (zs @ y # [])"
    using rep snoc l unfolding a dl_rep_split by (cases zs) (auto simp: lseg_append pseg_append)
  ultimately show ?thesis using snoc by auto
qed

section \<open>Singly linked lists and stacks on the list they represent\<close>

lemma sl_insert_head:
  assumes "sl_rep nx head tail xs" and "x \<notin> set xs"
  shows "case ZB_SL_LIST_INSERT_HEAD nx head tail x of (nx', head', tail') \<Rightarrow> sl_rep nx' head' tail' (x # xs)"
  using assms by (cases xs) (auto simp: ZB_SL_LIST_INSERT_HEAD_def sl_rep_def)

lemma sl_insert_tail:
  assumes "sl_rep nx head tail xs" and "x \<notin> set xs"
  shows "case ZB_SL_LIST_INSERT_TAIL nx head tail x of (nx', head', tail') \<Rightarrow>
      sl_rep nx' head' tail' (xs @ [x]) \<and> (\<forall>p. p \<noteq> x \<longrightarrow> p \<notin> set xs \<longrightarrow> nx' p = nx p)"
  using assms by (cases xs rule: rev_cases) (auto simp: ZB_SL_LIST_INSERT_TAIL_def sl_rep_def lseg_append)

lemma sl_cut_head:
  assumes "sl_rep nx head tail xs"
  shows "case ZB_SL_LIST_CUT_HEAD nx head tail of (head', tail', ent) \<Rightarrow>
      (case xs of [] \<Rightarrow> ent = None \<and> sl_rep nx head' tail' []
       | x # ys \<Rightarrow> ent = Some x \<and> sl_rep nx head' tail' ys)"
  using assms by (cases xs; cases "tl xs") (auto simp: ZB_SL_LIST_CUT_HEAD_def sl_rep_def)

lemma sl_remove_head_cut:
  "ZB_SL_LIST_REMOVE_HEAD nx head tail
   = (let (head', tail', _) = ZB_SL_LIST_CUT_HEAD nx head tail in (head', tail'))"
  by (auto simp: ZB_SL_LIST_REMOVE_HEAD_def ZB_SL_LIST_CUT_HEAD_def split: option.splits)

lemma sl_remove_loop_found:
  assumes "lseg nx cur (ys @ ent # zs) None" and "ent \<notin> set ys"
  shows "sl_remove_loop nx head tail ent prev cur =
    (let q = (if ys = [] then prev else Some (last ys));
         (nx1, head1, tail1) =
           (case q of Some r \<Rightarrow> (nx(r := nx ent), head, if tail = Some ent then q else tail)
            | None \<Rightarrow> (nx, nx ent, tail))
     in Some (nx1, head1, if head1 = None then None else tail1))"
  using assms
proof (induction ys arbitrary: cur prev)
  case Nil
  then show ?case by (simp add: sl_remove_loop.simps Let_def)
next
  case (Cons y ys)
  then have "cur = Some y" and "y \<noteq> ent" by auto
  with Cons.IH [of "nx y" "Some y"] Cons.prems show ?case
    by (subst sl_remove_loop.simps) (auto simp: Let_def)
qed

lemma sl_remove:
  assumes rep: "sl_rep nx head tail (ys @ ent # zs)"
  shows "\<exists>nx' head' tail'. ZB_SL_LIST_REMOVE nx head tail ent = Some (nx', head', tail')
    \<and> sl_rep nx' head' tail' (ys @ zs)"
proof -
  from rep have d: "ent \<notin> set ys" and L: "lseg nx head (ys @ ent # zs) None"
    by (auto simp: sl_rep_def)
  show ?thesis
  proof (cases ys rule: rev_cases)
    case Nil
    with rep have "head = Some ent" by (simp add: sl_rep_def)
    with Nil have "ZB_SL_LIST_REMOVE nx head tail ent
        = Some (nx, nx ent, if nx ent = None then None else tail)"
      by (simp add: ZB_SL_LIST_REMOVE_def sl_remove_loop.simps)
    with rep Nil show ?thesis by (cases zs) (auto simp: sl_rep_def)
  next
    case (snoc ys' y)
    with L have "head \<noteq> None" by (cases ys') auto
    with snoc have "ZB_SL_LIST_REMOVE nx head tail ent
        = Some (nx(y := nx ent), head, if tail = Some ent then Some y else tail)"
      by (auto simp: ZB_SL_LIST_REMOVE_def sl_remove_loop_found [OF L d] Let_def)
    with rep snoc show ?thesis by (cases zs) (auto simp: sl_rep_def lseg_append)
  qed
qed

lemma stk_push: "stk_rep nx head xs \<Longrightarrow> x \<notin> set xs \<Longrightarrow>
    case ZB_STK_PUSH nx head x of (nx', head') \<Rightarrow> stk_rep nx' head' (x # xs)"
  by (auto simp: ZB_STK_PUSH_def stk_rep_def)

lemma stk_pop: "stk_rep nx head xs \<Longrightarrow>
    case ZB_STK_POP nx head of (head', ent) \<Rightarrow>
      (case xs of [] \<Rightarrow> ent = None \<and> stk_rep nx head' []
       | x # ys \<Rightarrow> ent = Some x \<and> stk_rep nx head' ys)"
  by (cases xs) (auto simp: ZB_STK_POP_def stk_rep_def)

section \<open>The interface: a pool of free entries\<close>

text \<open>
  What the allocators of the stack rely on: popping hands out an entry of the pool and
  removes it, pushing returns it. The timer entries, the delayed-buffer entries and the
  packet buffers are all managed this way.
\<close>

locale free_pool =
  fixes rep :: "('p \<Rightarrow> 'p option) \<Rightarrow> 'p option \<Rightarrow> 'p list \<Rightarrow> bool"
    and push :: "('p \<Rightarrow> 'p option) \<Rightarrow> 'p option \<Rightarrow> 'p \<Rightarrow> ('p \<Rightarrow> 'p option) \<times> 'p option"
    and pop :: "('p \<Rightarrow> 'p option) \<Rightarrow> 'p option \<Rightarrow> 'p option \<times> 'p option"
  assumes rep_empty: "rep nx None []"
    and rep_distinct: "rep nx l xs \<Longrightarrow> distinct xs"
    and push_rep: "rep nx l xs \<Longrightarrow> x \<notin> set xs \<Longrightarrow> push nx l x = (nx', l') \<Longrightarrow> rep nx' l' (x # xs)"
    and pop_empty: "rep nx l [] \<Longrightarrow> pop nx l = (l', e) \<Longrightarrow> e = None \<and> rep nx l' []"
    and pop_rep: "rep nx l (x # xs) \<Longrightarrow> pop nx l = (l', e) \<Longrightarrow> e = Some x \<and> rep nx l' xs"
begin

fun push_all :: "('p \<Rightarrow> 'p option) \<Rightarrow> 'p option \<Rightarrow> 'p list \<Rightarrow> ('p \<Rightarrow> 'p option) \<times> 'p option" where
  "push_all nx l [] = (nx, l)"
| "push_all nx l (x # xs) = (case push nx l x of (nx', l') \<Rightarrow> push_all nx' l' xs)"

fun pop_n :: "nat \<Rightarrow> ('p \<Rightarrow> 'p option) \<Rightarrow> 'p option \<Rightarrow> 'p list \<times> 'p option" where
  "pop_n 0 nx l = ([], l)"
| "pop_n (Suc n) nx l =
     (case pop nx l of (l', None) \<Rightarrow> ([], l')
      | (l', Some x) \<Rightarrow> (case pop_n n nx l' of (xs, l'') \<Rightarrow> (x # xs, l'')))"

lemma push_all_rep:
  "rep nx l ys \<Longrightarrow> distinct xs \<Longrightarrow> set xs \<inter> set ys = {} \<Longrightarrow> push_all nx l xs = (nx', l') \<Longrightarrow>
   rep nx' l' (rev xs @ ys)"
proof (induction xs arbitrary: nx l ys)
  case Nil
  then show ?case by simp
next
  case (Cons x xs)
  obtain nx1 l1 where p: "push nx l x = (nx1, l1)" by fastforce
  with Cons.prems have r: "rep nx1 l1 (x # ys)" using push_rep [of nx l ys x] by simp
  have "rep nx' l' (rev xs @ x # ys)"
    by (rule Cons.IH [OF r]) (use Cons.prems p in auto)
  then show ?case by simp
qed

lemma pop_n_rep:
  "rep nx l xs \<Longrightarrow> pop_n n nx l = (es, l') \<Longrightarrow> es = take n xs \<and> rep nx l' (drop n xs)"
proof (induction n arbitrary: l xs es)
  case 0
  then show ?case by simp
next
  case (Suc n)
  obtain l1 e where p: "pop nx l = (l1, e)" by fastforce
  show ?case
  proof (cases xs)
    case Nil
    with Suc.prems p pop_empty [of nx l l1 e] show ?thesis by auto
  next
    case (Cons y ys)
    with Suc.prems p have "e = Some y" and r: "rep nx l1 ys" using pop_rep [of nx l y ys l1 e] by auto
    with Suc.prems p Cons Suc.IH [OF r] show ?thesis by (auto split: prod.splits)
  qed
qed

lemma pop_n_distinct: "rep nx l xs \<Longrightarrow> pop_n n nx l = (es, l') \<Longrightarrow> distinct es \<and> set es \<subseteq> set xs"
  using pop_n_rep [of nx l xs n es l'] rep_distinct [of nx l xs] by (auto dest: in_set_takeD)

end

interpretation stk: free_pool stk_rep ZB_STK_PUSH ZB_STK_POP
  by unfold_locales
    (auto simp: stk_rep_def ZB_STK_PUSH_def ZB_STK_POP_def)

end
