(* ===== verification/ZB_Time.thy ===== *)
theory ZB_Time
  imports ZB_Prelude
begin

text \<open>
  Time values of \<^verbatim>\<open>include/zb_time.h\<close> and the timer of \<^verbatim>\<open>common/zb_time.c\<close>: 16-bit beacon
  intervals that wrap, compared by the sign of their difference. The lemmas say when that
  comparison is the order of the instants the values stand for: whenever all of them lie in
  one window of \<open>ZB_HALF_MAX_TIME_VAL\<close> intervals. The hardware timer behind
  \<^verbatim>\<open>ZB_CHECK_TIMER_IS_ON\<close> is always on in the Linux build and has no state here.
\<close>

section \<open>Time arithmetic\<close>

type_synonym zb_time = u16

definition ZB_MAX_TIME_VAL :: zb_time where "ZB_MAX_TIME_VAL = 65535"

definition ZB_HALF_MAX_TIME_VAL :: zb_time where "ZB_HALF_MAX_TIME_VAL = ZB_MAX_TIME_VAL div 2"

definition ZB_TIME_ADD :: "zb_time \<Rightarrow> zb_time \<Rightarrow> zb_time" where
  "ZB_TIME_ADD a b = a + b"

definition ZB_TIME_SUBTRACT :: "zb_time \<Rightarrow> zb_time \<Rightarrow> zb_time" where
  "ZB_TIME_SUBTRACT a b = (if a - b < ZB_HALF_MAX_TIME_VAL then a - b else b - a)"

definition ZB_TIME_GE :: "zb_time \<Rightarrow> zb_time \<Rightarrow> bool" where
  "ZB_TIME_GE a b \<longleftrightarrow> a - b < ZB_HALF_MAX_TIME_VAL"

definition ZB_BEACON_INTERVAL_USEC :: int where "ZB_BEACON_INTERVAL_USEC = 15360"

definition ZB_MILLISECONDS_TO_BEACON_INTERVAL :: "int \<Rightarrow> int" where
  "ZB_MILLISECONDS_TO_BEACON_INTERVAL ms = (10 * ms + 3) div (ZB_BEACON_INTERVAL_USEC div 100)"

definition ZB_TIME_BEACON_INTERVAL_TO_MSEC :: "int \<Rightarrow> int" where
  "ZB_TIME_BEACON_INTERVAL_TO_MSEC t = (ZB_BEACON_INTERVAL_USEC div 100 * t) div 10"

definition ZB_TIME_ONE_SECOND :: int where
  "ZB_TIME_ONE_SECOND = ZB_MILLISECONDS_TO_BEACON_INTERVAL 1000"

lemma half_max [simp]: "ZB_HALF_MAX_TIME_VAL = 32767"
  by (simp add: ZB_HALF_MAX_TIME_VAL_def ZB_MAX_TIME_VAL_def)

section \<open>The comparison inside a window\<close>

text \<open>How long after the instant \<open>b\<close> the instant \<open>x\<close> comes.\<close>

definition after :: "zb_time \<Rightarrow> zb_time \<Rightarrow> nat" where
  "after b x = unat (x - b)"

definition in_window :: "zb_time \<Rightarrow> zb_time \<Rightarrow> bool" where
  "in_window b x \<longleftrightarrow> after b x < 32767"

lemma diff_small:
  fixes u v :: u16
  assumes "unat u < 32767" and "unat v < 32767"
  shows "unat (u - v) < 32767 \<longleftrightarrow> unat v \<le> unat u"
proof (cases "v \<le> u")
  case True
  with assms show ?thesis by (simp add: unat_sub word_le_nat_alt)
next
  case False
  then have "unat (u - v) = 65536 + unat u - unat v"
    by (simp add: unat_sub_if' word_le_nat_alt)
  with False assms show ?thesis by (simp add: word_le_nat_alt)
qed

lemma time_ge_window:
  assumes "in_window b x" and "in_window b y"
  shows "ZB_TIME_GE x y \<longleftrightarrow> after b y \<le> after b x"
proof -
  have "x - y = (x - b) - (y - b)" by simp
  then show ?thesis
    using diff_small [of "x - b" "y - b"] assms
    by (simp add: ZB_TIME_GE_def in_window_def after_def word_less_nat_alt)
qed

lemma time_subtract_window:
  assumes "in_window b x" and "in_window b y" and "after b y \<le> after b x"
  shows "unat (ZB_TIME_SUBTRACT x y) = after b x - after b y"
proof -
  have "x - y < ZB_HALF_MAX_TIME_VAL"
    using time_ge_window [OF assms(1,2)] assms(3) by (simp add: ZB_TIME_GE_def)
  then have "ZB_TIME_SUBTRACT x y = (x - b) - (y - b)"
    by (simp add: ZB_TIME_SUBTRACT_def)
  moreover have "unat ((x - b) - (y - b)) = after b x - after b y"
    using assms(3) unfolding after_def by (intro unat_sub) (simp add: word_le_nat_alt)
  ultimately show ?thesis by simp
qed

lemma after_add:
  assumes "after b t + unat d < 65536"
  shows "after b (ZB_TIME_ADD t d) = after b t + unat d"
proof -
  have "ZB_TIME_ADD t d - b = (t - b) + d" by (simp add: ZB_TIME_ADD_def)
  moreover have "unat ((t - b) + d) = unat (t - b) + unat d"
    using assms by (simp only: unat_word_ariths(1)) (simp add: after_def)
  ultimately show ?thesis unfolding after_def by presburger
qed

lemma after_self [simp]: "after b b = 0" "in_window b b"
  by (simp_all add: after_def in_window_def)

lemma after_inj: "after b x = after b y \<longleftrightarrow> x = y"
  unfolding after_def by (metis diff_add_cancel unsigned_word_eqI)

section \<open>The timer\<close>

record zb_timer =
  timer_stop :: zb_time
  timer :: zb_time
  started :: u8

definition zb_timer_start :: "zb_time \<Rightarrow> zb_timer \<Rightarrow> zb_timer" where
  "zb_timer_start timeout tm =
     (let t_cur = timer tm; t = ZB_TIME_ADD t_cur timeout
      in if started tm = 0 \<or> \<not> ZB_TIME_GE t (timer_stop tm) \<or> \<not> ZB_TIME_GE (timer_stop tm) t_cur
         then tm\<lparr>timer_stop := t, started := 1\<rparr> else tm)"

definition zb_timer_stop_async :: "zb_timer \<Rightarrow> zb_timer" where
  "zb_timer_stop_async tm = tm\<lparr>started := 0\<rparr>"

lemma timer_start_timer [simp]: "timer (zb_timer_start d tm) = timer tm"
  by (simp add: zb_timer_start_def Let_def)

lemma timer_start_running: "started (zb_timer_start d tm) \<noteq> 0"
  by (simp add: zb_timer_start_def Let_def)

lemma timer_start_earliest:
  assumes "unat d < 32767"
  shows "after (timer tm) (timer_stop (zb_timer_start d tm))
    = (if started tm \<noteq> 0 \<and> in_window (timer tm) (timer_stop tm)
       then min (after (timer tm) (timer_stop tm)) (unat d) else unat d)"
proof -
  let ?c = "timer tm" and ?s = "timer_stop tm"
  have d: "after ?c (ZB_TIME_ADD ?c d) = unat d"
    using after_add [of ?c ?c d] assms by simp
  then have w: "in_window ?c (ZB_TIME_ADD ?c d)" using assms by (simp add: in_window_def)
  have past: "\<not> ZB_TIME_GE ?s ?c \<longleftrightarrow> \<not> in_window ?c ?s"
    by (simp add: ZB_TIME_GE_def in_window_def after_def word_less_nat_alt)
  show ?thesis
    using d w past time_ge_window [of ?c "ZB_TIME_ADD ?c d" ?s]
    by (auto simp: zb_timer_start_def Let_def min_def)
qed

end
