(* ===== verification/Scheduler.thy ===== *)
theory Scheduler
  imports Ring_Buffer List_Macros ZB_Time "HOL-Library.Multiset"
begin

text \<open>
  The cooperative scheduler of \<^verbatim>\<open>common/zb_scheduler.c\<close> and \<^verbatim>\<open>common/zb_scheduler_init.c\<close>:
  the queue of immediate callbacks, the queue of MAC transmit callbacks, the timer queue with
  its free list, and the main loop. A callback function pointer is a value of the type \<open>'cb\<close>;
  what calling it does is a parameter of the main loop. An entry of \<^verbatim>\<open>tm_buffer\<close> or
  \<^verbatim>\<open>delayed_buf\<close> is named by its index, and the pointers of the queues are these indices.

  The state \<open>zb_g\<close> is the part of the globals the scheduler touches; the components that use
  the scheduler extend the record, so its operations leave their fields alone.
\<close>

section \<open>State\<close>

definition ZB_SCHEDULER_Q_SIZE :: nat where [zb_config]: "ZB_SCHEDULER_Q_SIZE = 16"
definition ZB_MAC_QUEUE_SIZE :: nat where [zb_config]: "ZB_MAC_QUEUE_SIZE = 4"
definition ZB_BUF_Q_SIZE :: nat where [zb_config]: "ZB_BUF_Q_SIZE = 16"
definition ZB_IOBUF_POOL_SIZE :: nat where [zb_config]: "ZB_IOBUF_POOL_SIZE = 16"

record 'cb cb_ent =
  func :: 'cb
  param :: u8

record 'cb tm_ent =
  tm_func :: 'cb
  tm_param :: u8
  run_time :: zb_time

record 'cb zb_sched =
  cb_q :: "'cb cb_ent ring_buffer"
  mac_tx_q :: "'cb cb_ent ring_buffer"
  tm_buffer :: "'cb tm_ent list"
  tm_links :: "nat links"
  delayed_buf :: "'cb list"
  buf_next :: "nat \<Rightarrow> nat option"
  tm_queue :: "nat option"
  tm_freelist :: "nat option"
  inbuf_head :: "nat option"
  inbuf_tail :: "nat option"
  outbuf_head :: "nat option"
  outbuf_tail :: "nat option"
  buf_freelist :: "nat option"

record 'cb zb_g =
  sched :: "'cb zb_sched"
  time :: zb_timer

definition zb_sched_init :: "('cb, 'w) zb_g_scheme \<Rightarrow> ('cb, 'w) zb_g_scheme" where
  "zb_sched_init g =
     (let s = sched g;
          (nx, fl) = fold (\<lambda>i (nx, l). ZB_STK_PUSH nx l i) [0..<ZB_SCHEDULER_Q_SIZE]
                       (lnext (tm_links s), tm_freelist s);
          (bx, bl) = fold (\<lambda>i (nx, l). ZB_STK_PUSH nx l i) [0..<ZB_BUF_Q_SIZE]
                       (buf_next s, buf_freelist s)
      in g\<lparr>sched := s\<lparr>tm_links := (tm_links s)\<lparr>lnext := nx\<rparr>, tm_freelist := fl,
                      buf_next := bx, buf_freelist := bl\<rparr>\<rparr>)"

section \<open>Immediate callbacks\<close>

definition rb_put_ent :: "'cb \<Rightarrow> u8 \<Rightarrow> 'cb cb_ent ring_buffer \<Rightarrow> u32 \<Rightarrow> 'cb cb_ent ring_buffer option" where
  "rb_put_ent f p q i = do {
     buf \<leftarrow> arr_set (ring_buf q) (unat i) \<lparr>func = f, param = p\<rparr>;
     Some (ZB_RING_BUFFER_FLUSH_PUT (q\<lparr>ring_buf := buf\<rparr>)) }"

definition zb_schedule_tx_cb ::
  "'cb \<Rightarrow> u8 \<Rightarrow> ('cb, 'w) zb_g_scheme \<Rightarrow> (zb_ret \<times> ('cb, 'w) zb_g_scheme) option" where
  "zb_schedule_tx_cb f p g =
     (case ZB_RING_BUFFER_PUT_RESERVE (mac_tx_q (sched g)) of
        Some i \<Rightarrow> do {
          q \<leftarrow> rb_put_ent f p (mac_tx_q (sched g)) i;
          ZB_ASSERT (unat p \<le> ZB_IOBUF_POOL_SIZE);
          Some (RET_OK, g\<lparr>sched := (sched g)\<lparr>mac_tx_q := q\<rparr>\<rparr>) }
      | None \<Rightarrow> Some (RET_OVERFLOW, g))"

definition zb_schedule_callback ::
  "'cb \<Rightarrow> u8 \<Rightarrow> ('cb, 'w) zb_g_scheme \<Rightarrow> (zb_ret \<times> ('cb, 'w) zb_g_scheme) option" where
  "zb_schedule_callback f p g =
     (case ZB_RING_BUFFER_PUT_RESERVE (cb_q (sched g)) of
        Some i \<Rightarrow> do {
          q \<leftarrow> rb_put_ent f p (cb_q (sched g)) i;
          ZB_ASSERT (unat p \<le> ZB_IOBUF_POOL_SIZE);
          Some (RET_OK, g\<lparr>sched := (sched g)\<lparr>cb_q := q\<rparr>\<rparr>) }
      | None \<Rightarrow> Some (RET_OVERFLOW, g))"

section \<open>Alarms\<close>

definition insert_tmq_head :: "nat \<Rightarrow> 'cb zb_sched \<Rightarrow> 'cb zb_sched option" where
  "insert_tmq_head nent s = do {
     (h, l) \<leftarrow> ZB_LIST_INSERT_HEAD (tm_links s) (tm_queue s) nent;
     Some (s\<lparr>tm_links := h, tm_queue := l\<rparr>) }"

text \<open>The search loop of \<^verbatim>\<open>zb_schedule_alarm\<close>: skip the entries the new one is not before.\<close>

partial_function (option) tmq_find ::
  "'cb tm_ent list \<Rightarrow> nat links \<Rightarrow> zb_time \<Rightarrow> nat option \<Rightarrow> nat option option" where
  "tmq_find buf h rt ent =
     (case ent of None \<Rightarrow> Some None
      | Some e \<Rightarrow> Option.bind (arr_get buf e)
          (\<lambda>te. if ZB_TIME_GE rt (run_time te) then tmq_find buf h rt (lnext h e) else Some (Some e)))"

definition tmq_insert :: "nat \<Rightarrow> zb_time \<Rightarrow> 'cb zb_sched \<Rightarrow> 'cb zb_sched option" where
  "tmq_insert nent rt s =
     (case tm_queue s of
        None \<Rightarrow> insert_tmq_head nent s
      | Some hd_ent \<Rightarrow> do {
          th \<leftarrow> arr_get (tm_buffer s) hd_ent;
          if ZB_TIME_GE (run_time th) rt then insert_tmq_head nent s
          else do {
            ent \<leftarrow> tmq_find (tm_buffer s) (tm_links s) rt (tm_queue s);
            (case ent of
               Some e \<Rightarrow>
                 (case lprev (tm_links s) e of
                    Some p \<Rightarrow> do {
                      (h, l) \<leftarrow> ZB_LIST_INSERT_AFTER (tm_links s) (tm_queue s) (Some p) nent;
                      Some (s\<lparr>tm_links := h, tm_queue := l\<rparr>) }
                  | None \<Rightarrow> insert_tmq_head nent s)
             | None \<Rightarrow> do {
                 (h, l) \<leftarrow> ZB_LIST_INSERT_TAIL (tm_links s) (tm_queue s) nent;
                 Some (s\<lparr>tm_links := h, tm_queue := l\<rparr>) }) } })"

definition zb_schedule_alarm ::
  "'cb \<Rightarrow> u8 \<Rightarrow> zb_time \<Rightarrow> ('cb, 'w) zb_g_scheme \<Rightarrow> (zb_ret \<times> ('cb, 'w) zb_g_scheme) option" where
  "zb_schedule_alarm f p run_after g =
     (let s = sched g in
      case ZB_STK_POP (lnext (tm_links s)) (tm_freelist s) of
        (fl, None) \<Rightarrow> Some (RET_OVERFLOW, g\<lparr>sched := s\<lparr>tm_freelist := fl\<rparr>\<rparr>)
      | (fl, Some nent) \<Rightarrow> do {
          let t = timer (time g);
          let rt = ZB_TIME_ADD t run_after;
          buf \<leftarrow> arr_set (tm_buffer s) nent \<lparr>tm_func = f, tm_param = p, run_time = rt\<rparr>;
          s1 \<leftarrow> tmq_insert nent rt (s\<lparr>tm_freelist := fl, tm_buffer := buf\<rparr>);
          ent \<leftarrow> tm_queue s1;
          te \<leftarrow> arr_get (tm_buffer s1) ent;
          let tm = (if run_time te \<noteq> t \<and> ZB_TIME_GE (run_time te) t
                    then zb_timer_start (ZB_TIME_SUBTRACT (run_time te) t) (time g) else time g);
          Some (RET_OK, g\<lparr>sched := s1, time := tm\<rparr>) })"

definition ZB_ALARM_ANY_PARAM :: u8 where "ZB_ALARM_ANY_PARAM = -1"
definition ZB_ALARM_ALL_CB :: u8 where "ZB_ALARM_ALL_CB = -2"

definition alarm_matches :: "'cb \<Rightarrow> u8 \<Rightarrow> 'cb tm_ent \<Rightarrow> bool" where
  "alarm_matches f p te \<longleftrightarrow>
     tm_func te = f \<and> (p = ZB_ALARM_ANY_PARAM \<or> p = ZB_ALARM_ALL_CB \<or> p = tm_param te)"

partial_function (option) alarm_cancel_loop ::
  "'cb \<Rightarrow> u8 \<Rightarrow> zb_ret \<Rightarrow> nat option \<Rightarrow> 'cb zb_sched \<Rightarrow> (zb_ret \<times> 'cb zb_sched) option" where
  "alarm_cancel_loop f p ret ent s =
     (case ent of None \<Rightarrow> Some (ret, s)
      | Some e \<Rightarrow>
          Option.bind (arr_get (tm_buffer s) e) (\<lambda>te.
            if alarm_matches f p te then
              Option.bind (ZB_LIST_REMOVE (tm_links s) (tm_queue s) e) (\<lambda>(h, l).
                let nxt = lnext (tm_links s) e;
                    (nx, fl) = ZB_STK_PUSH (lnext h) (tm_freelist s) e;
                    s' = s\<lparr>tm_links := h\<lparr>lnext := nx\<rparr>, tm_queue := l, tm_freelist := fl\<rparr>
                in if p \<noteq> ZB_ALARM_ALL_CB then Some (RET_OK, s')
                   else alarm_cancel_loop f p RET_OK nxt s')
            else alarm_cancel_loop f p ret (lnext (tm_links s) e) s))"

definition zb_schedule_alarm_cancel ::
  "'cb \<Rightarrow> u8 \<Rightarrow> ('cb, 'w) zb_g_scheme \<Rightarrow> (zb_ret \<times> ('cb, 'w) zb_g_scheme) option" where
  "zb_schedule_alarm_cancel f p g = do {
     (ret, s) \<leftarrow> alarm_cancel_loop f p RET_NOT_FOUND (tm_queue (sched g)) (sched g);
     Some (ret, g\<lparr>sched := s\<rparr>) }"

section \<open>What the timer queue holds\<close>

text \<open>
  \<open>tm_rep s F xs ys\<close>: the timer queue runs through the entries \<open>xs\<close>, the free list
  through \<open>ys\<close>, and \<open>F\<close> is the set of entries in neither, which the main loop holds while
  it runs their callback.
\<close>

definition tm_rep :: "'cb zb_sched \<Rightarrow> nat set \<Rightarrow> nat list \<Rightarrow> nat list \<Rightarrow> bool" where
  "tm_rep s F xs ys \<longleftrightarrow>
     length (tm_buffer s) = ZB_SCHEDULER_Q_SIZE
     \<and> dl_rep (tm_links s) (tm_queue s) xs
     \<and> stk_rep (lnext (tm_links s)) (tm_freelist s) ys
     \<and> set xs \<inter> set ys = {} \<and> F \<inter> (set xs \<union> set ys) = {}
     \<and> F \<union> set xs \<union> set ys = {..<ZB_SCHEDULER_Q_SIZE}"

definition alarms :: "'cb zb_sched \<Rightarrow> nat list \<Rightarrow> 'cb tm_ent list" where
  "alarms s xs = map (\<lambda>i. tm_buffer s ! i) xs"

text \<open>Where \<open>zb_schedule_alarm\<close> puts a new entry, on the list of the pending ones.\<close>

fun alarm_insert :: "'cb tm_ent \<Rightarrow> 'cb tm_ent list \<Rightarrow> 'cb tm_ent list" where
  "alarm_insert e [] = [e]"
| "alarm_insert e (a # es) =
     (if ZB_TIME_GE (run_time a) (run_time e) then e # a # es
      else let pre = takeWhile (\<lambda>x. ZB_TIME_GE (run_time e) (run_time x)) (a # es);
               post = dropWhile (\<lambda>x. ZB_TIME_GE (run_time e) (run_time x)) (a # es)
           in if pre = [] then a # es @ [e] else pre @ e # post)"

lemma tm_repD:
  assumes "tm_rep s F xs ys"
  shows "length (tm_buffer s) = ZB_SCHEDULER_Q_SIZE" "dl_rep (tm_links s) (tm_queue s) xs"
    "stk_rep (lnext (tm_links s)) (tm_freelist s) ys" "set xs \<inter> set ys = {}"
    "F \<inter> (set xs \<union> set ys) = {}" "F \<union> set xs \<union> set ys = {..<ZB_SCHEDULER_Q_SIZE}"
    "distinct xs" "distinct ys"
  using assms by (auto simp: tm_rep_def dl_rep_def stk_rep_def)

lemma tm_rep_bound: "tm_rep s F xs ys \<Longrightarrow> i \<in> set xs \<union> set ys \<Longrightarrow> i < length (tm_buffer s)"
  by (auto simp: tm_rep_def)

lemma stk_rep_cong: "stk_rep nx l ys \<Longrightarrow> (\<And>x. x \<in> set ys \<Longrightarrow> nx' x = nx x) \<Longrightarrow> stk_rep nx' l ys"
  unfolding stk_rep_def using lseg_cong [of ys nx nx' l None] by metis

lemma tmq_find_spec:
  "lseg (lnext h) cur xs None \<Longrightarrow> \<forall>i \<in> set xs. i < length buf \<Longrightarrow>
   tmq_find buf h rt cur =
     Some (case dropWhile (\<lambda>i. ZB_TIME_GE rt (run_time (buf ! i))) xs of [] \<Rightarrow> None | e # _ \<Rightarrow> Some e)"
proof (induction xs arbitrary: cur)
  case Nil
  then show ?case by (simp add: tmq_find.simps)
next
  case (Cons x xs)
  then show ?case by (subst tmq_find.simps) simp
qed

lemma insert_tmq_head_spec:
  assumes "dl_rep (tm_links s) (tm_queue s) xs" and "n \<notin> set xs"
  shows "\<exists>h l. insert_tmq_head n s = Some (s\<lparr>tm_links := h, tm_queue := l\<rparr>) \<and> dl_rep h l (n # xs)
    \<and> (\<forall>q. q \<noteq> n \<longrightarrow> q \<notin> set xs \<longrightarrow> lnext h q = lnext (tm_links s) q)"
proof -
  from dl_insert_head [OF assms] obtain h where
    "ZB_LIST_INSERT_HEAD (tm_links s) (tm_queue s) n = Some (h, Some n)"
    "dl_rep h (Some n) (n # xs)" "lnext h = (lnext (tm_links s))(n := tm_queue s)"
    by blast
  then show ?thesis
    by (intro exI [of _ h] exI [of _ "Some n"]) (simp add: insert_tmq_head_def)
qed

lemma takeWhile_split:
  "dropWhile P xs = e # ps \<Longrightarrow> xs = takeWhile P xs @ e # ps"
  by (metis takeWhile_dropWhile_id)

text \<open>The search and the insertion together: the queue is \<open>alarm_insert\<close> of what it was.\<close>

lemma tmq_insert_spec:
  assumes rep: "dl_rep (tm_links s) (tm_queue s) xs" and n: "n \<notin> set xs" "n < length (tm_buffer s)"
    and b: "\<forall>i \<in> set xs. i < length (tm_buffer s)" and rt: "run_time (tm_buffer s ! n) = rt"
  shows "\<exists>h l zs. tmq_insert n rt s = Some (s\<lparr>tm_links := h, tm_queue := l\<rparr>) \<and> dl_rep h l zs
    \<and> set zs = insert n (set xs)
    \<and> map (\<lambda>i. tm_buffer s ! i) zs = alarm_insert (tm_buffer s ! n) (map (\<lambda>i. tm_buffer s ! i) xs)
    \<and> (\<forall>q. q \<noteq> n \<longrightarrow> q \<notin> set xs \<longrightarrow> lnext h q = lnext (tm_links s) q)"
proof (cases xs)
  case Nil
  with rep have "tm_queue s = None" by (simp add: dl_rep_def)
  with insert_tmq_head_spec [OF rep n(1)] Nil show ?thesis by (fastforce simp: tmq_insert_def)
next
  case (Cons x xs')
  let ?B = "\<lambda>i. tm_buffer s ! i" and ?P = "\<lambda>i. ZB_TIME_GE rt (run_time (tm_buffer s ! i))"
  have q: "tm_queue s = Some x" using rep Cons by (simp add: dl_rep_def)
  have x: "x < length (tm_buffer s)" using b Cons by simp
  have tw: "takeWhile (\<lambda>y. ZB_TIME_GE rt (run_time y)) (map ?B xs) = map ?B (takeWhile ?P xs)"
    and dw: "dropWhile (\<lambda>y. ZB_TIME_GE rt (run_time y)) (map ?B xs) = map ?B (dropWhile ?P xs)"
    by (simp_all add: takeWhile_map dropWhile_map comp_def)
  show ?thesis
  proof (cases "ZB_TIME_GE (run_time (?B x)) rt")
    case True
    with insert_tmq_head_spec [OF rep n(1)] q x Cons rt show ?thesis
      by (fastforce simp: tmq_insert_def)
  next
    case False
    have find: "tmq_find (tm_buffer s) (tm_links s) rt (tm_queue s)
        = Some (case dropWhile ?P xs of [] \<Rightarrow> None | e # _ \<Rightarrow> Some e)"
      using rep b by (intro tmq_find_spec) (auto simp: dl_rep_def)
    have ins: "alarm_insert (?B n) (map ?B xs)
        = (if takeWhile ?P xs = [] then map ?B xs @ [?B n]
           else map ?B (takeWhile ?P xs) @ ?B n # map ?B (dropWhile ?P xs))"
      using False Cons rt tw dw by (simp add: Let_def)
    show ?thesis
    proof (cases "dropWhile ?P xs")
      case Nil
      then have "takeWhile ?P xs = xs" by (metis append_Nil2 takeWhile_dropWhile_id)
      with dl_insert_tail [OF rep n(1)] q x False find Nil ins Cons show ?thesis
        by (fastforce simp: tmq_insert_def)
    next
      case (Cons e ps)
      note sp = takeWhile_split [OF Cons]
      show ?thesis
      proof (cases "takeWhile ?P xs" rule: rev_cases)
        case Nil
        obtain as z where az: "xs = as @ [z]" and z: "z = last xs"
          using \<open>xs = x # xs'\<close> by (metis append_butlast_last_id list.distinct(1))
        have "xs = e # ps" using sp by (simp only: Nil append_Nil)
        then have e: "e = x" using \<open>xs = x # xs'\<close> by simp
        have pz: "lprev (tm_links s) x = Some z"
          using rep \<open>xs = x # xs'\<close> unfolding z by (simp add: dl_rep_def)
        from dl_insert_after [of "tm_links s" "tm_queue s" as z "[]" n] rep n az
        obtain h l where "ZB_LIST_INSERT_AFTER (tm_links s) (tm_queue s) (Some z) n = Some (h, l)"
            "dl_rep h l (xs @ [n])" "\<forall>q. q \<noteq> n \<longrightarrow> q \<notin> set xs \<longrightarrow> lnext h q = lnext (tm_links s) q"
          by auto
        with q x False find Cons e pz ins Nil show ?thesis
          by (fastforce simp: tmq_insert_def)
      next
        case (snoc as z)
        have pe: "lprev (tm_links s) e = Some z"
        proof -
          have "dl_rep (tm_links s) (tm_queue s) ((as @ [z]) @ e # ps)"
            using rep sp by (simp only: snoc)
          then show ?thesis unfolding dl_rep_split by simp
        qed
        from dl_insert_after [of "tm_links s" "tm_queue s" as z "e # ps" n] rep n sp snoc
        obtain h l where "ZB_LIST_INSERT_AFTER (tm_links s) (tm_queue s) (Some z) n = Some (h, l)"
            "dl_rep h l (as @ z # n # e # ps)"
            "\<forall>q. q \<noteq> n \<longrightarrow> q \<notin> set xs \<longrightarrow> lnext h q = lnext (tm_links s) q"
          by auto
        moreover have "set (as @ z # n # e # ps) = insert n (set xs)" using sp snoc by auto
        moreover have "tmq_insert n rt s = Some (s\<lparr>tm_links := h, tm_queue := l\<rparr>)"
          using q x False find Cons pe calculation(1) by (simp add: tmq_insert_def)
        moreover have "map ?B (as @ z # n # e # ps) = alarm_insert (?B n) (map ?B xs)"
          unfolding ins Cons using snoc by simp
        ultimately show ?thesis by blast
      qed
    qed
  qed
qed

section \<open>The operations on the pending alarms\<close>

lemma tm_rep_pop:
  assumes "tm_rep s F xs (n # ys)"
  shows "\<exists>fl. ZB_STK_POP (lnext (tm_links s)) (tm_freelist s) = (fl, Some n)
    \<and> stk_rep (lnext (tm_links s)) fl ys"
proof -
  obtain fl e where p: "ZB_STK_POP (lnext (tm_links s)) (tm_freelist s) = (fl, e)" by fastforce
  with stk.pop_rep [OF tm_repD(3) [OF assms] p] show ?thesis by simp
qed

lemma tm_rep_pop_Nil:
  assumes "tm_rep s F xs []"
  shows "ZB_STK_POP (lnext (tm_links s)) (tm_freelist s) = (None, None)"
  using tm_repD(3) [OF assms] by (auto simp: ZB_STK_POP_def stk_rep_def)

lemma alarm_insert_mset: "mset (alarm_insert e es) = add_mset e (mset es)"
proof (cases es)
  case (Cons a as)
  have "mset (takeWhile P xs) + mset (dropWhile P xs) = mset xs" for P and xs :: "'a tm_ent list"
    by (metis mset_append takeWhile_dropWhile_id)
  with Cons show ?thesis by (auto simp: Let_def)
qed simp

lemma schedule_alarm_full:
  assumes "tm_rep (sched g) F xs []"
  shows "zb_schedule_alarm f p d g = Some (RET_OVERFLOW, g\<lparr>sched := (sched g)\<lparr>tm_freelist := None\<rparr>\<rparr>)"
  using tm_rep_pop_Nil [OF assms] by (simp add: zb_schedule_alarm_def Let_def)

lemma alarm_insert_not_Nil [simp]: "alarm_insert e es \<noteq> []"
  by (cases es) (auto simp: Let_def)

lemma schedule_alarm_ok:
  assumes rep: "tm_rep (sched g) F xs (n # ys)"
  shows "\<exists>g' zs. zb_schedule_alarm f p d g = Some (RET_OK, g') \<and> tm_rep (sched g') F zs ys
    \<and> alarms (sched g') zs = alarm_insert \<lparr>tm_func = f, tm_param = p, run_time = ZB_TIME_ADD (timer (time g)) d\<rparr>
                              (alarms (sched g) xs)
    \<and> timer (time g') = timer (time g) \<and> cb_q (sched g') = cb_q (sched g)"
proof -
  let ?rt = "ZB_TIME_ADD (timer (time g)) d"
  let ?e = "\<lparr>tm_func = f, tm_param = p, run_time = ?rt\<rparr>"
  note D = tm_repD [OF rep]
  obtain fl where pop: "ZB_STK_POP (lnext (tm_links (sched g))) (tm_freelist (sched g)) = (fl, Some n)"
    and fl: "stk_rep (lnext (tm_links (sched g))) fl ys"
    using tm_rep_pop [OF rep] by blast
  let ?s = "(sched g)\<lparr>tm_freelist := fl, tm_buffer := (tm_buffer (sched g))[n := ?e]\<rparr>"
  have n: "n < length (tm_buffer (sched g))" using tm_rep_bound [OF rep] by simp
  have b: "\<forall>i \<in> set xs. i < length (tm_buffer (sched g))" using tm_rep_bound [OF rep] by blast
  have nx: "n \<notin> set xs" using D(4) by auto
  obtain h l zs where ins: "tmq_insert n ?rt ?s = Some (?s\<lparr>tm_links := h, tm_queue := l\<rparr>)"
    and dl: "dl_rep h l zs" and zs: "set zs = insert n (set xs)"
    and al: "map (\<lambda>i. tm_buffer ?s ! i) zs = alarm_insert (tm_buffer ?s ! n) (map (\<lambda>i. tm_buffer ?s ! i) xs)"
    and fr: "\<forall>q. q \<noteq> n \<longrightarrow> q \<notin> set xs \<longrightarrow> lnext h q = lnext (tm_links ?s) q"
    using tmq_insert_spec [of ?s xs n ?rt] D(2) nx n b by auto
  have same: "map (\<lambda>i. tm_buffer ?s ! i) xs = alarms (sched g) xs"
  proof -
    have "tm_buffer ?s ! x = tm_buffer (sched g) ! x" if "x \<in> set xs" for x
      using nx that by (cases "x = n") auto
    then show ?thesis by (simp add: alarms_def)
  qed
  have "zs \<noteq> []" using zs by auto
  then obtain z zs' where z: "zs = z # zs'" by (cases zs) auto
  have lz: "l = Some z" "z < length (tm_buffer (sched g))"
    using dl z zs n b by (auto simp: dl_rep_def)
  let ?s' = "?s\<lparr>tm_links := h, tm_queue := l\<rparr>"
  have "tm_rep ?s' F zs ys"
    unfolding tm_rep_def
  proof (intro conjI)
    show "stk_rep (lnext (tm_links ?s')) (tm_freelist ?s') ys"
      using fl fr D by (auto intro!: stk_rep_cong [OF fl])
    show "F \<union> set zs \<union> set ys = {..<ZB_SCHEDULER_Q_SIZE}" using D(6) zs by auto
    show "set zs \<inter> set ys = {}" using D zs by auto
  qed (use D zs dl in auto)
  moreover have "alarms ?s' zs = alarm_insert ?e (alarms (sched g) xs)"
    using al n unfolding same by (simp add: alarms_def)
  moreover obtain g' where "zb_schedule_alarm f p d g = Some (RET_OK, g')" "sched g' = ?s'"
      "timer (time g') = timer (time g)"
    using pop n ins lz by (fastforce simp: zb_schedule_alarm_def Let_def)
  ultimately show ?thesis by auto
qed

subsection \<open>The order of the queue\<close>

definition alarms_sorted :: "zb_time \<Rightarrow> 'cb tm_ent list \<Rightarrow> bool" where
  "alarms_sorted b es \<longleftrightarrow>
     sorted (map (\<lambda>e. after b (run_time e)) es) \<and> (\<forall>e \<in> set es. in_window b (run_time e))"

lemma alarms_sorted_Cons:
  "alarms_sorted b (a # es) \<longleftrightarrow>
     in_window b (run_time a) \<and> (\<forall>e \<in> set es. after b (run_time a) \<le> after b (run_time e))
     \<and> alarms_sorted b es"
  by (auto simp: alarms_sorted_def)

lemma alarms_sorted_split:
  assumes "alarms_sorted b es" and "in_window b (run_time e)"
  shows "alarms_sorted b (takeWhile (\<lambda>x. ZB_TIME_GE (run_time e) (run_time x)) es @ e
      # dropWhile (\<lambda>x. ZB_TIME_GE (run_time e) (run_time x)) es)"
  using assms
proof (induction es)
  case Nil
  then show ?case by (simp add: alarms_sorted_def)
next
  case (Cons a es)
  then have ge: "ZB_TIME_GE (run_time e) (run_time a) \<longleftrightarrow> after b (run_time a) \<le> after b (run_time e)"
    by (simp add: time_ge_window alarms_sorted_Cons)
  show ?case
  proof (cases "ZB_TIME_GE (run_time e) (run_time a)")
    case True
    with Cons ge show ?thesis
      by (auto simp: alarms_sorted_Cons dest: set_takeWhileD set_dropWhileD)
  next
    case False
    with Cons.prems ge show ?thesis by (force simp: alarms_sorted_Cons)
  qed
qed

lemma alarm_insert_sorted:
  assumes "alarms_sorted b es" and "in_window b (run_time e)"
  shows "alarms_sorted b (alarm_insert e es)"
proof (cases es)
  case Nil
  with assms show ?thesis by (simp add: alarms_sorted_def)
next
  case (Cons a as)
  with assms have w: "in_window b (run_time a)" by (simp add: alarms_sorted_Cons)
  show ?thesis
  proof (cases "ZB_TIME_GE (run_time a) (run_time e)")
    case True
    with time_ge_window [OF w assms(2)] assms Cons show ?thesis
      by (auto simp: alarms_sorted_Cons)
  next
    case False
    with time_ge_window [OF w assms(2)] have "ZB_TIME_GE (run_time e) (run_time a)"
      by (simp add: time_ge_window [OF assms(2) w])
    with False Cons alarms_sorted_split [OF assms] show ?thesis by (simp add: Let_def)
  qed
qed

subsection \<open>Cancelling\<close>

fun cancel_first :: "('a \<Rightarrow> bool) \<Rightarrow> 'a list \<Rightarrow> 'a list" where
  "cancel_first P [] = []"
| "cancel_first P (x # xs) = (if P x then xs else x # cancel_first P xs)"

lemma cancel_first_map: "cancel_first P (map f xs) = map f (cancel_first (\<lambda>x. P (f x)) xs)"
  by (induction xs) auto

lemma dl_rep_next_upd:
  "e \<notin> set xs \<Longrightarrow> dl_rep (h\<lparr>lnext := (lnext h)(e := v)\<rparr>) l xs \<longleftrightarrow> dl_rep h l xs"
  by (simp add: dl_rep_def)

lemma cancel_step:
  assumes rep: "tm_rep s F (ds @ e # rs) ys"
  shows "\<exists>h l. ZB_LIST_REMOVE (tm_links s) (tm_queue s) e = Some (h, l)
    \<and> tm_rep (s\<lparr>tm_links := h\<lparr>lnext := (lnext h)(e := tm_freelist s)\<rparr>, tm_queue := l, tm_freelist := Some e\<rparr>)
        F (ds @ rs) (e # ys)"
proof -
  note D = tm_repD [OF rep]
  obtain h l where rm: "ZB_LIST_REMOVE (tm_links s) (tm_queue s) e = Some (h, l)"
    and dl: "dl_rep h l (ds @ rs)" and fr: "\<forall>q. q \<notin> set ds \<longrightarrow> lnext h q = lnext (tm_links s) q"
    using dl_remove [OF D(2)] by blast
  have e: "e \<notin> set ys" "e \<notin> set (ds @ rs)" using D by auto
  have fl: "stk_rep (lnext h) (tm_freelist s) ys"
    by (rule stk_rep_cong [OF D(3)]) (use fr D(4) in auto)
  have "stk_rep ((lnext h)(e := tm_freelist s)) (Some e) (e # ys)"
    using stk.push_rep [OF fl e(1)] by (simp add: ZB_STK_PUSH_def)
  moreover have "dl_rep (h\<lparr>lnext := (lnext h)(e := tm_freelist s)\<rparr>) l (ds @ rs)"
    using dl_rep_next_upd [OF e(2), of h "tm_freelist s" l] dl by blast
  ultimately have "tm_rep (s\<lparr>tm_links := h\<lparr>lnext := (lnext h)(e := tm_freelist s)\<rparr>, tm_queue := l, tm_freelist := Some e\<rparr>)
        F (ds @ rs) (e # ys)"
    using D unfolding tm_rep_def by auto
  with rm show ?thesis by blast
qed

lemma cancel_loop_spec:
  assumes "tm_rep s F (ds @ rs) ys" and "ent = (case rs of [] \<Rightarrow> None | r # _ \<Rightarrow> Some r)"
  shows "\<exists>s' ys'. alarm_cancel_loop f p ret ent s
      = Some (if \<exists>i \<in> set rs. alarm_matches f p (tm_buffer s ! i) then RET_OK else ret, s')
    \<and> tm_rep s' F (ds @ (if p \<noteq> ZB_ALARM_ALL_CB then cancel_first (\<lambda>i. alarm_matches f p (tm_buffer s ! i)) rs
                        else filter (\<lambda>i. \<not> alarm_matches f p (tm_buffer s ! i)) rs)) ys'
    \<and> tm_buffer s' = tm_buffer s \<and> cb_q s' = cb_q s"
  using assms
proof (induction rs arbitrary: s ds ys ret ent)
  case Nil
  then show ?case by (auto simp: alarm_cancel_loop.simps)
next
  case (Cons e rs)
  note rep = Cons.prems(1)
  have e: "e < length (tm_buffer s)" "ent = Some e" using tm_rep_bound [OF rep] Cons.prems by auto
  have nxt: "lnext (tm_links s) e = (case rs of [] \<Rightarrow> None | r # _ \<Rightarrow> Some r)"
    using tm_repD(2) [OF rep] unfolding dl_rep_split by (auto dest!: lseg_hd)
  show ?case
  proof (cases "alarm_matches f p (tm_buffer s ! e)")
    case False
    from Cons.IH [of s "ds @ [e]" ys "lnext (tm_links s) e" ret] rep nxt
    obtain s' ys' where "alarm_cancel_loop f p ret (lnext (tm_links s) e) s
        = Some (if \<exists>i \<in> set rs. alarm_matches f p (tm_buffer s ! i) then RET_OK else ret, s')"
      "tm_rep s' F (ds @ e # (if p \<noteq> ZB_ALARM_ALL_CB then cancel_first (\<lambda>i. alarm_matches f p (tm_buffer s ! i)) rs
                        else filter (\<lambda>i. \<not> alarm_matches f p (tm_buffer s ! i)) rs)) ys'"
      "tm_buffer s' = tm_buffer s" "cb_q s' = cb_q s"
      by auto
    moreover have "alarm_cancel_loop f p ret ent s = alarm_cancel_loop f p ret (lnext (tm_links s) e) s"
      using e False by (subst alarm_cancel_loop.simps) simp
    ultimately show ?thesis
      using False by (intro exI [of _ s'] exI [of _ ys']) (cases "p = ZB_ALARM_ALL_CB"; simp)
  next
    case True
    obtain h l where rm: "ZB_LIST_REMOVE (tm_links s) (tm_queue s) e = Some (h, l)"
      and rep': "tm_rep (s\<lparr>tm_links := h\<lparr>lnext := (lnext h)(e := tm_freelist s)\<rparr>, tm_queue := l,
          tm_freelist := Some e\<rparr>) F (ds @ rs) (e # ys)" (is "tm_rep ?s _ _ _")
      using cancel_step [OF rep] by blast
    have step: "alarm_cancel_loop f p ret ent s = (if p \<noteq> ZB_ALARM_ALL_CB then Some (RET_OK, ?s)
        else alarm_cancel_loop f p RET_OK (lnext (tm_links s) e) ?s)"
      using e True rm by (subst alarm_cancel_loop.simps) (simp add: ZB_STK_PUSH_def Let_def)
    show ?thesis
    proof (cases "p = ZB_ALARM_ALL_CB")
      case False
      with True step rep' show ?thesis
        by (intro exI [of _ ?s] exI [of _ "e # ys"]) simp
    next
      case all: True
      from Cons.IH [of ?s ds "e # ys" "lnext (tm_links s) e" RET_OK, OF rep' nxt]
      obtain s' ys' where "alarm_cancel_loop f p RET_OK (lnext (tm_links s) e) ?s = Some (RET_OK, s')"
        "tm_rep s' F (ds @ filter (\<lambda>i. \<not> alarm_matches f p (tm_buffer s ! i)) rs) ys'"
        "tm_buffer s' = tm_buffer s" "cb_q s' = cb_q s"
        using all by auto
      with step True all show ?thesis
        by (intro exI [of _ s'] exI [of _ ys']) simp
    qed
  qed
qed

lemma alarm_cancel_spec:
  assumes rep: "tm_rep (sched g) F xs ys"
  shows "\<exists>g' zs ys'. zb_schedule_alarm_cancel f p g
      = Some (if \<exists>a \<in> set (alarms (sched g) xs). alarm_matches f p a then RET_OK else RET_NOT_FOUND, g')
    \<and> tm_rep (sched g') F zs ys'
    \<and> alarms (sched g') zs = (if p \<noteq> ZB_ALARM_ALL_CB then cancel_first (alarm_matches f p) (alarms (sched g) xs)
                             else filter (\<lambda>a. \<not> alarm_matches f p a) (alarms (sched g) xs))
    \<and> time g' = time g \<and> cb_q (sched g') = cb_q (sched g)"
proof -
  have q: "tm_queue (sched g) = (case xs of [] \<Rightarrow> None | r # _ \<Rightarrow> Some r)"
    using dl_rep_head [OF tm_repD(2) [OF rep]] .
  from cancel_loop_spec [of "sched g" F "[]" xs ys, OF _ q, of f p RET_NOT_FOUND] rep show ?thesis
    by (fastforce simp: zb_schedule_alarm_cancel_def alarms_def cancel_first_map filter_map comp_def)
qed

end
