(* ===== verification/Main_Loop.thy ===== *)
theory Main_Loop
  imports Scheduler
begin

text \<open>
  The callback queues as bounded queues, the initial state of the scheduler and the main loop
  of \<^verbatim>\<open>common/zb_scheduler.c\<close>. What calling a callback does, the MAC main loop, the test for
  a pending radio interrupt with a free input buffer and the I/O hook of the simulator build
  are parameters of the loop; \<open>loop_client\<close> says what the loop relies on of them.
\<close>

section \<open>Scheduling a callback\<close>

lemma rb_put_ent_PUT:
  "rb_put_ent f p q (write_i q) = ZB_RING_BUFFER_PUT q \<lparr>func = f, param = p\<rparr>"
  by (simp add: rb_put_ent_def rb_reserve_flush_put)

lemma schedule_callback_ok:
  assumes inv: "rb_inv (cb_q (sched g))" and nf: "\<not> ZB_RING_BUFFER_IS_FULL (cb_q (sched g))"
    and p: "unat p \<le> ZB_IOBUF_POOL_SIZE"
  shows "\<exists>q. zb_schedule_callback f p g = Some (RET_OK, g\<lparr>sched := (sched g)\<lparr>cb_q := q\<rparr>\<rparr>)
    \<and> rb_inv q \<and> rb_contents q = rb_contents (cb_q (sched g)) @ [\<lparr>func = f, param = p\<rparr>]
    \<and> length (ring_buf q) = length (ring_buf (cb_q (sched g)))"
  using rb_put [OF inv nf, of "\<lparr>func = f, param = p\<rparr>"] nf p
  by (auto simp: zb_schedule_callback_def ZB_RING_BUFFER_PUT_RESERVE_def rb_put_ent_PUT)

lemma schedule_tx_cb_ok:
  assumes inv: "rb_inv (mac_tx_q (sched g))" and nf: "\<not> ZB_RING_BUFFER_IS_FULL (mac_tx_q (sched g))"
    and p: "unat p \<le> ZB_IOBUF_POOL_SIZE"
  shows "\<exists>q. zb_schedule_tx_cb f p g = Some (RET_OK, g\<lparr>sched := (sched g)\<lparr>mac_tx_q := q\<rparr>\<rparr>)
    \<and> rb_inv q \<and> rb_contents q = rb_contents (mac_tx_q (sched g)) @ [\<lparr>func = f, param = p\<rparr>]
    \<and> length (ring_buf q) = length (ring_buf (mac_tx_q (sched g)))"
  using rb_put [OF inv nf, of "\<lparr>func = f, param = p\<rparr>"] nf p
  by (auto simp: zb_schedule_tx_cb_def ZB_RING_BUFFER_PUT_RESERVE_def rb_put_ent_PUT)

lemma schedule_callback_full:
  "ZB_RING_BUFFER_IS_FULL (cb_q (sched g)) \<Longrightarrow> zb_schedule_callback f p g = Some (RET_OVERFLOW, g)"
  by (simp add: zb_schedule_callback_def ZB_RING_BUFFER_PUT_RESERVE_def)

lemma schedule_callback_assert:
  assumes "rb_inv (cb_q (sched g))" and "\<not> ZB_RING_BUFFER_IS_FULL (cb_q (sched g))"
    and "ZB_IOBUF_POOL_SIZE < unat p"
  shows "zb_schedule_callback f p g = None"
  using rb_put [OF assms(1,2), of "\<lparr>func = f, param = p\<rparr>"] assms
  by (auto simp: zb_schedule_callback_def ZB_RING_BUFFER_PUT_RESERVE_def rb_put_ent_PUT)

section \<open>The initial state\<close>

lemma fold_push: "fold (\<lambda>i (nx, l). ZB_STK_PUSH nx l i) xs (nx, l) = stk.push_all nx l xs"
  by (induction xs arbitrary: nx l) (auto simp: ZB_STK_PUSH_def)

text \<open>From cleared globals, \<open>zb_sched_init\<close> frees every timer entry and every delayed-buffer entry.\<close>

lemma sched_init_spec:
  assumes len: "length (tm_buffer (sched g)) = ZB_SCHEDULER_Q_SIZE"
    and clear: "tm_freelist (sched g) = None" "buf_freelist (sched g) = None" "tm_queue (sched g) = None"
      "lprev (tm_links (sched g)) = (\<lambda>_. None)"
  shows "tm_rep (sched (zb_sched_init g)) {} [] (rev [0..<ZB_SCHEDULER_Q_SIZE])"
    and "stk_rep (buf_next (sched (zb_sched_init g))) (buf_freelist (sched (zb_sched_init g)))
           (rev [0..<ZB_BUF_Q_SIZE])"
    and "cb_q (sched (zb_sched_init g)) = cb_q (sched g)"
proof -
  let ?s = "sched g"
  obtain nx fl bx bl
    where t: "stk.push_all (lnext (tm_links ?s)) (tm_freelist ?s) [0..<ZB_SCHEDULER_Q_SIZE] = (nx, fl)"
      and b: "stk.push_all (buf_next ?s) (buf_freelist ?s) [0..<ZB_BUF_Q_SIZE] = (bx, bl)"
    by fastforce
  have init: "zb_sched_init g = g\<lparr>sched := ?s\<lparr>tm_links := (tm_links ?s)\<lparr>lnext := nx\<rparr>,
      tm_freelist := fl, buf_next := bx, buf_freelist := bl\<rparr>\<rparr>"
    by (simp add: zb_sched_init_def fold_push t b Let_def)
  have T: "stk_rep nx fl (rev [0..<ZB_SCHEDULER_Q_SIZE] @ [])"
    by (rule stk.push_all_rep [OF _ _ _ t]) (use clear in \<open>auto simp: stk.rep_empty\<close>)
  have B: "stk_rep bx bl (rev [0..<ZB_BUF_Q_SIZE] @ [])"
    by (rule stk.push_all_rep [OF _ _ _ b]) (use clear in \<open>auto simp: stk.rep_empty\<close>)
  show "tm_rep (sched (zb_sched_init g)) {} [] (rev [0..<ZB_SCHEDULER_Q_SIZE])"
    using T len clear by (auto simp: tm_rep_def init)
  show "stk_rep (buf_next (sched (zb_sched_init g))) (buf_freelist (sched (zb_sched_init g)))
           (rev [0..<ZB_BUF_Q_SIZE])"
    using B by (simp add: init)
  show "cb_q (sched (zb_sched_init g)) = cb_q ?s" by (simp add: init)
qed

section \<open>The main loop\<close>

text \<open>The loop over the immediate callbacks: the entry stays in the queue while its callback runs.\<close>

partial_function (option) run_cb_q ::
  "('cb \<Rightarrow> u8 \<Rightarrow> ('cb, 'w) zb_g_scheme \<Rightarrow> ('cb, 'w) zb_g_scheme option) \<Rightarrow> (('cb, 'w) zb_g_scheme \<Rightarrow> bool)
   \<Rightarrow> bool \<Rightarrow> ('cb, 'w) zb_g_scheme \<Rightarrow> (bool \<times> ('cb, 'w) zb_g_scheme) option" where
  "run_cb_q call intr did g =
     (case ZB_RING_BUFFER_PEEK (cb_q (sched g)) of
        None \<Rightarrow> Some (did, g)
      | Some i \<Rightarrow>
          if intr g then Some (True, g)
          else Option.bind (arr_get (ring_buf (cb_q (sched g))) (unat i)) (\<lambda>ent.
            Option.bind (call (func ent) (param ent) g) (\<lambda>g'.
              run_cb_q call intr True
                (g'\<lparr>sched := (sched g')\<lparr>cb_q := ZB_RING_BUFFER_FLUSH_GET (cb_q (sched g'))\<rparr>\<rparr>))))"

text \<open>The loop over the alarms due at the instant \<open>t\<close>: the entry is in no list while its callback runs.\<close>

partial_function (option) run_alarms ::
  "('cb \<Rightarrow> u8 \<Rightarrow> ('cb, 'w) zb_g_scheme \<Rightarrow> ('cb, 'w) zb_g_scheme option) \<Rightarrow> (('cb, 'w) zb_g_scheme \<Rightarrow> bool)
   \<Rightarrow> zb_time \<Rightarrow> bool \<Rightarrow> ('cb, 'w) zb_g_scheme \<Rightarrow> (bool \<times> ('cb, 'w) zb_g_scheme) option" where
  "run_alarms call intr t did g =
     (case tm_queue (sched g) of
        None \<Rightarrow> Some (did, g)
      | Some e \<Rightarrow> Option.bind (arr_get (tm_buffer (sched g)) e) (\<lambda>te.
          if \<not> ZB_TIME_GE t (run_time te) then Some (did, g)
          else if intr g then Some (True, g)
          else
            let (h, l, _) = ZB_LIST_CUT_HEAD (tm_links (sched g)) (tm_queue (sched g))
            in Option.bind (call (tm_func te) (tm_param te) (g\<lparr>sched := (sched g)\<lparr>tm_links := h, tm_queue := l\<rparr>\<rparr>))
                 (\<lambda>g'. let (nx, fl) = ZB_STK_PUSH (lnext (tm_links (sched g'))) (tm_freelist (sched g')) e
                       in run_alarms call intr t True
                            (g'\<lparr>sched := (sched g')\<lparr>tm_links := (tm_links (sched g'))\<lparr>lnext := nx\<rparr>,
                                                   tm_freelist := fl\<rparr>\<rparr>))))"

text \<open>Starting the timer for the first alarm, or stopping it.\<close>

definition restart_timer :: "zb_time \<Rightarrow> ('cb, 'w) zb_g_scheme \<Rightarrow> ('cb, 'w) zb_g_scheme option" where
  "restart_timer t g =
     (case tm_queue (sched g) of
        Some e \<Rightarrow> do {
          te \<leftarrow> arr_get (tm_buffer (sched g)) e;
          Some (g\<lparr>time := zb_timer_start (ZB_TIME_SUBTRACT (run_time te) t) (time g)\<rparr>) }
      | None \<Rightarrow> Some (g\<lparr>time := zb_timer_stop_async (time g)\<rparr>))"

text \<open>The body of the \<^verbatim>\<open>do ... while (did_something)\<close> loop.\<close>

definition sched_pass ::
  "('cb \<Rightarrow> u8 \<Rightarrow> ('cb, 'w) zb_g_scheme \<Rightarrow> ('cb, 'w) zb_g_scheme option) \<Rightarrow> (('cb, 'w) zb_g_scheme \<Rightarrow> bool)
   \<Rightarrow> (('cb, 'w) zb_g_scheme \<Rightarrow> ('cb, 'w) zb_g_scheme option) \<Rightarrow> ('cb, 'w) zb_g_scheme
   \<Rightarrow> (bool \<times> ('cb, 'w) zb_g_scheme) option" where
  "sched_pass call intr mac_main_loop g = do {
     g1 \<leftarrow> mac_main_loop g;
     (did, g2) \<leftarrow> run_cb_q call intr False g1;
     (t, did, g3) \<leftarrow>
       (if tm_queue (sched g2) \<noteq> None then do {
          let t = timer (time g2);
          (did, g3) \<leftarrow> run_alarms call intr t did g2;
          Some (t, did, g3) }
        else Some (0, did, g2));
     g4 \<leftarrow> restart_timer t g3;
     Some (did, g4) }"

partial_function (option) sched_loop ::
  "('cb \<Rightarrow> u8 \<Rightarrow> ('cb, 'w) zb_g_scheme \<Rightarrow> ('cb, 'w) zb_g_scheme option) \<Rightarrow> (('cb, 'w) zb_g_scheme \<Rightarrow> bool)
   \<Rightarrow> (('cb, 'w) zb_g_scheme \<Rightarrow> ('cb, 'w) zb_g_scheme option) \<Rightarrow> ('cb, 'w) zb_g_scheme
   \<Rightarrow> ('cb, 'w) zb_g_scheme option" where
  "sched_loop call intr mac_main_loop g =
     Option.bind (sched_pass call intr mac_main_loop g)
       (\<lambda>(did, g'). if did then sched_loop call intr mac_main_loop g' else Some g')"

definition zb_sched_loop_iteration ::
  "('cb \<Rightarrow> u8 \<Rightarrow> ('cb, 'w) zb_g_scheme \<Rightarrow> ('cb, 'w) zb_g_scheme option) \<Rightarrow> (('cb, 'w) zb_g_scheme \<Rightarrow> bool)
   \<Rightarrow> (('cb, 'w) zb_g_scheme \<Rightarrow> ('cb, 'w) zb_g_scheme option)
   \<Rightarrow> (('cb, 'w) zb_g_scheme \<Rightarrow> ('cb, 'w) zb_g_scheme option) \<Rightarrow> ('cb, 'w) zb_g_scheme
   \<Rightarrow> ('cb, 'w) zb_g_scheme option" where
  "zb_sched_loop_iteration call intr mac_main_loop try_io g = do {
     g' \<leftarrow> sched_loop call intr mac_main_loop g;
     try_io g' }"

section \<open>What callbacks may do\<close>

text \<open>
  Callbacks, and the work of the MAC at the beginning of a pass, are arbitrary functions on the state that return and
  keep the queues in order: they may put callbacks at the end of the queue, set alarms and cancel them. To say what has run, a part
  of the state that only the proofs know keeps a tally: the calls in their order, the callbacks that were queued, the alarms
  that were set and cancelled, and a bound on how many more will be queued or set.
\<close>

record 'cb tally =
  ran :: "('cb \<times> u8) list"
  sent :: "'cb cb_ent list"
  armed :: "'cb tm_ent multiset"
  cancelled :: "'cb tm_ent multiset"
  budget :: nat

abbreviation queued :: "('cb, 'w) zb_g_scheme \<Rightarrow> 'cb cb_ent list" where
  "queued g \<equiv> rb_contents (cb_q (sched g))"

definition queues_ok :: "nat set \<Rightarrow> nat list \<Rightarrow> ('cb, 'w) zb_g_scheme \<Rightarrow> bool" where
  "queues_ok F xs g \<longleftrightarrow> rb_inv (cb_q (sched g)) \<and> (\<exists>ys. tm_rep (sched g) F xs ys)"

definition may_do :: "('w \<Rightarrow> 'cb tally) \<Rightarrow> nat set \<Rightarrow> nat list \<Rightarrow> ('cb, 'w) zb_g_scheme
    \<Rightarrow> ('cb \<times> u8) list \<Rightarrow> nat list \<Rightarrow> ('cb, 'w) zb_g_scheme \<Rightarrow> bool" where
  "may_do T F xs g r xs' g' \<longleftrightarrow> queues_ok F xs' g' \<and> timer (time g') = timer (time g)
     \<and> (\<exists>new N D. queued g' = queued g @ new
          \<and> mset (alarms (sched g') xs') + D = mset (alarms (sched g) xs) + N
          \<and> (N = {#} \<longrightarrow> D = {#} \<longrightarrow> alarms (sched g') xs' = alarms (sched g) xs)
          \<and> ran (T (zb_g.more g')) = ran (T (zb_g.more g)) @ r
          \<and> sent (T (zb_g.more g')) = sent (T (zb_g.more g)) @ new
          \<and> armed (T (zb_g.more g')) = armed (T (zb_g.more g)) + N
          \<and> cancelled (T (zb_g.more g')) = cancelled (T (zb_g.more g)) + D
          \<and> budget (T (zb_g.more g')) + length new + size N \<le> budget (T (zb_g.more g)))"

text \<open>The work that is left, an upper bound: what is queued, what is set, and what may still be.\<close>

definition work :: "('w \<Rightarrow> 'cb tally) \<Rightarrow> nat list \<Rightarrow> ('cb, 'w) zb_g_scheme \<Rightarrow> nat" where
  "work T xs g = budget (T (zb_g.more g)) + length (queued g) + length xs"

text \<open>What the loop itself does around a call.\<close>

definition flush_cb :: "('cb, 'w) zb_g_scheme \<Rightarrow> ('cb, 'w) zb_g_scheme" where
  "flush_cb g = g\<lparr>sched := (sched g)\<lparr>cb_q := ZB_RING_BUFFER_FLUSH_GET (cb_q (sched g))\<rparr>\<rparr>"

definition cut_alarm :: "('cb, 'w) zb_g_scheme \<Rightarrow> ('cb, 'w) zb_g_scheme" where
  "cut_alarm g = (let (h, l, _) = ZB_LIST_CUT_HEAD (tm_links (sched g)) (tm_queue (sched g))
     in g\<lparr>sched := (sched g)\<lparr>tm_links := h, tm_queue := l\<rparr>\<rparr>)"

definition free_alarm :: "nat \<Rightarrow> ('cb, 'w) zb_g_scheme \<Rightarrow> ('cb, 'w) zb_g_scheme" where
  "free_alarm e g = (let (nx, fl) = ZB_STK_PUSH (lnext (tm_links (sched g))) (tm_freelist (sched g)) e
     in g\<lparr>sched := (sched g)\<lparr>tm_links := (tm_links (sched g))\<lparr>lnext := nx\<rparr>, tm_freelist := fl\<rparr>\<rparr>)"

definition cb_call :: "'cb cb_ent \<Rightarrow> 'cb \<times> u8" where "cb_call e = (func e, param e)"
definition tm_call :: "'cb tm_ent \<Rightarrow> 'cb \<times> u8" where "tm_call a = (tm_func a, tm_param a)"

text \<open>
  What the loop relies on. \<open>I\<close> is an invariant of the whole state between two calls, such as that every queued callback
  has its buffer. The callback at the head of the queue runs while its entry is still there, the first alarm while its
  entry is in no list. A radio interrupt for which there is a free input buffer (\<open>irq\<close>) makes the loop break off, and then the work
  of the MAC uses up work. The clock stands still: in this build only the input and output after the loop advances it.
\<close>

definition loop_client :: "(('cb, 'w) zb_g_scheme \<Rightarrow> bool) \<Rightarrow> ('w \<Rightarrow> 'cb tally) \<Rightarrow> ('w \<Rightarrow> bool)
    \<Rightarrow> ('cb \<Rightarrow> u8 \<Rightarrow> ('cb, 'w) zb_g_scheme \<Rightarrow> ('cb, 'w) zb_g_scheme option)
    \<Rightarrow> (('cb, 'w) zb_g_scheme \<Rightarrow> ('cb, 'w) zb_g_scheme option) \<Rightarrow> bool" where
  "loop_client I T irq call mac \<longleftrightarrow>
     (\<forall>g t. I g \<longrightarrow> I (g\<lparr>time := t\<rparr>))
     \<and> (\<forall>xs g x rest. I g \<longrightarrow> queues_ok {} xs g \<longrightarrow> queued g = x # rest \<longrightarrow>
          (\<exists>xs' g'. call (func x) (param x) g = Some g' \<and> may_do T {} xs g [cb_call x] xs' g' \<and> I (flush_cb g')))
     \<and> (\<forall>x xs g. I g \<longrightarrow> queues_ok {} (x # xs) g \<longrightarrow>
          (\<exists>xs' g'. call (tm_func (tm_buffer (sched g) ! x)) (tm_param (tm_buffer (sched g) ! x)) (cut_alarm g) = Some g'
             \<and> may_do T {x} xs (cut_alarm g) [tm_call (tm_buffer (sched g) ! x)] xs' g' \<and> I (free_alarm x g')))
     \<and> (\<forall>xs g. I g \<longrightarrow> queues_ok {} xs g \<longrightarrow>
          (\<exists>xs' g'. mac g = Some g' \<and> may_do T {} xs g [] xs' g' \<and> I g'
             \<and> (irq (zb_g.more g) \<longrightarrow> work T xs' g' < work T xs g)))"

abbreviation sched_ok :: "(('cb, 'w) zb_g_scheme \<Rightarrow> bool) \<Rightarrow> nat list \<Rightarrow> ('cb, 'w) zb_g_scheme \<Rightarrow> bool" where
  "sched_ok I xs g \<equiv> I g \<and> queues_ok {} xs g"

lemma loop_clientD:
  assumes "loop_client I T irq call mac"
  shows "I g \<Longrightarrow> I (g\<lparr>time := t\<rparr>)"
    "sched_ok I xs g \<Longrightarrow> queued g = x # rest \<Longrightarrow>
       \<exists>xs' g'. call (func x) (param x) g = Some g' \<and> may_do T {} xs g [cb_call x] xs' g' \<and> I (flush_cb g')"
    "sched_ok I (e # xs) g \<Longrightarrow>
       \<exists>xs' g'. call (tm_func (tm_buffer (sched g) ! e)) (tm_param (tm_buffer (sched g) ! e)) (cut_alarm g) = Some g'
         \<and> may_do T {e} xs (cut_alarm g) [tm_call (tm_buffer (sched g) ! e)] xs' g' \<and> I (free_alarm e g')"
    "sched_ok I xs g \<Longrightarrow> \<exists>xs' g'. mac g = Some g' \<and> may_do T {} xs g [] xs' g' \<and> I g'
       \<and> (irq (zb_g.more g) \<longrightarrow> work T xs' g' < work T xs g)"
  using assms unfolding loop_client_def by (fast, fast, fast, fast)

subsection \<open>What a part of the loop has done\<close>

text \<open>
  From \<open>g\<close> to \<open>g'\<close> exactly the callbacks \<open>cbs\<close> and the alarms \<open>als\<close> have been taken from the queues and called: the queue is a
  fifo, no alarm is lost, and every alarm was due.
\<close>

definition progress :: "('w \<Rightarrow> 'cb tally) \<Rightarrow> nat list \<Rightarrow> ('cb, 'w) zb_g_scheme \<Rightarrow> 'cb cb_ent list \<Rightarrow> 'cb tm_ent list
    \<Rightarrow> nat list \<Rightarrow> ('cb, 'w) zb_g_scheme \<Rightarrow> bool" where
  "progress T xs g cbs als xs' g' \<longleftrightarrow> timer (time g') = timer (time g)
     \<and> (\<forall>a \<in> set als. ZB_TIME_GE (timer (time g)) (run_time a))
     \<and> (\<exists>r new N D. cbs @ queued g' = queued g @ new
          \<and> mset als + mset (alarms (sched g') xs') + D = mset (alarms (sched g) xs) + N
          \<and> (N = {#} \<longrightarrow> D = {#} \<longrightarrow> als @ alarms (sched g') xs' = alarms (sched g) xs)
          \<and> r \<in> shuffles (map cb_call cbs) (map tm_call als)
          \<and> ran (T (zb_g.more g')) = ran (T (zb_g.more g)) @ r
          \<and> sent (T (zb_g.more g')) = sent (T (zb_g.more g)) @ new
          \<and> armed (T (zb_g.more g')) = armed (T (zb_g.more g)) + N
          \<and> cancelled (T (zb_g.more g')) = cancelled (T (zb_g.more g)) + D)
     \<and> work T xs' g' + length cbs + length als \<le> work T xs g"

lemma shuffles_append:
  "a \<in> shuffles xs ys \<Longrightarrow> b \<in> shuffles xs' ys' \<Longrightarrow> a @ b \<in> shuffles (xs @ xs') (ys @ ys')"
proof (induction a arbitrary: xs ys)
  case (Cons z zs)
  then consider "xs \<noteq> []" "hd xs = z" "zs \<in> shuffles (tl xs) ys" | "ys \<noteq> []" "hd ys = z" "zs \<in> shuffles xs (tl ys)"
    by (auto simp: Cons_in_shuffles_iff)
  then show ?case
  proof cases
    case 1
    with Cons.IH [OF 1(3) Cons.prems(2)] show ?thesis by (cases xs) (simp_all add: Cons_in_shuffles_iff)
  next
    case 2
    with Cons.IH [OF 2(3) Cons.prems(2)] show ?thesis by (cases ys) (simp_all add: Cons_in_shuffles_iff)
  qed
qed simp

lemma progress_trans:
  assumes "progress T xs g c1 a1 xs1 g1" and "progress T xs1 g1 c2 a2 xs2 g2"
  shows "progress T xs g (c1 @ c2) (a1 @ a2) xs2 g2"
proof -
  obtain r1 n1 N1 D1 where 1: "c1 @ queued g1 = queued g @ n1"
      "mset a1 + mset (alarms (sched g1) xs1) + D1 = mset (alarms (sched g) xs) + N1"
      "N1 = {#} \<longrightarrow> D1 = {#} \<longrightarrow> a1 @ alarms (sched g1) xs1 = alarms (sched g) xs"
      "r1 \<in> shuffles (map cb_call c1) (map tm_call a1)" "ran (T (zb_g.more g1)) = ran (T (zb_g.more g)) @ r1"
      "sent (T (zb_g.more g1)) = sent (T (zb_g.more g)) @ n1" "armed (T (zb_g.more g1)) = armed (T (zb_g.more g)) + N1"
      "cancelled (T (zb_g.more g1)) = cancelled (T (zb_g.more g)) + D1"
    using assms(1) unfolding progress_def by blast
  obtain r2 n2 N2 D2 where 2: "c2 @ queued g2 = queued g1 @ n2"
      "mset a2 + mset (alarms (sched g2) xs2) + D2 = mset (alarms (sched g1) xs1) + N2"
      "N2 = {#} \<longrightarrow> D2 = {#} \<longrightarrow> a2 @ alarms (sched g2) xs2 = alarms (sched g1) xs1"
      "r2 \<in> shuffles (map cb_call c2) (map tm_call a2)" "ran (T (zb_g.more g2)) = ran (T (zb_g.more g1)) @ r2"
      "sent (T (zb_g.more g2)) = sent (T (zb_g.more g1)) @ n2" "armed (T (zb_g.more g2)) = armed (T (zb_g.more g1)) + N2"
      "cancelled (T (zb_g.more g2)) = cancelled (T (zb_g.more g1)) + D2"
    using assms(2) unfolding progress_def by blast
  have "(c1 @ c2) @ queued g2 = queued g @ (n1 @ n2)" using 1(1) 2(1) by (metis append_assoc)
  moreover have "mset (a1 @ a2) + mset (alarms (sched g2) xs2) + (D1 + D2) = mset (alarms (sched g) xs) + (N1 + N2)"
  proof -
    have "mset (a1 @ a2) + mset (alarms (sched g2) xs2) + (D1 + D2)
        = mset a1 + (mset a2 + mset (alarms (sched g2) xs2) + D2) + D1" by (simp add: ac_simps)
    also have "\<dots> = (mset a1 + mset (alarms (sched g1) xs1) + D1) + N2" unfolding 2(2) by (simp add: ac_simps)
    also have "\<dots> = mset (alarms (sched g) xs) + (N1 + N2)" unfolding 1(2) by (simp add: ac_simps)
    finally show ?thesis .
  qed
  moreover have "N1 + N2 = {#} \<longrightarrow> D1 + D2 = {#} \<longrightarrow> (a1 @ a2) @ alarms (sched g2) xs2 = alarms (sched g) xs"
    using 1(3) 2(3) by simp
  moreover have "r1 @ r2 \<in> shuffles (map cb_call (c1 @ c2)) (map tm_call (a1 @ a2))"
    using shuffles_append [OF 1(4) 2(4)] by simp
  ultimately have "\<exists>r new N D. (c1 @ c2) @ queued g2 = queued g @ new
          \<and> mset (a1 @ a2) + mset (alarms (sched g2) xs2) + D = mset (alarms (sched g) xs) + N
          \<and> (N = {#} \<longrightarrow> D = {#} \<longrightarrow> (a1 @ a2) @ alarms (sched g2) xs2 = alarms (sched g) xs)
          \<and> r \<in> shuffles (map cb_call (c1 @ c2)) (map tm_call (a1 @ a2))
          \<and> ran (T (zb_g.more g2)) = ran (T (zb_g.more g)) @ r
          \<and> sent (T (zb_g.more g2)) = sent (T (zb_g.more g)) @ new
          \<and> armed (T (zb_g.more g2)) = armed (T (zb_g.more g)) + N
          \<and> cancelled (T (zb_g.more g2)) = cancelled (T (zb_g.more g)) + D"
    using 1(5-8) 2(5-8)
    by (intro exI [of _ "r1 @ r2"] exI [of _ "n1 @ n2"] exI [of _ "N1 + N2"] exI [of _ "D1 + D2"]) (simp add: ac_simps)
  then show ?thesis using assms unfolding progress_def by auto
qed

lemma progress_refl: "progress T xs g [] [] xs g"
  unfolding progress_def by (auto intro: exI [of _ "{#}"])

lemma length_alarms [simp]: "length (alarms s xs) = length xs"
  by (simp add: alarms_def)

lemma restart_timer_ok:
  assumes "tm_rep (sched g) F xs ys"
  shows "\<exists>tm. restart_timer t g = Some (g\<lparr>time := tm\<rparr>) \<and> timer tm = timer (time g)
    \<and> (started tm \<noteq> 0 \<longleftrightarrow> xs \<noteq> [])"
proof (cases xs)
  case Nil
  with tm_repD(2) [OF assms] have "tm_queue (sched g) = None" by (simp add: dl_rep_def)
  with Nil show ?thesis
    by (intro exI [of _ "zb_timer_stop_async (time g)"]) (simp add: restart_timer_def zb_timer_stop_async_def)
next
  case (Cons x xs')
  with dl_rep_head [OF tm_repD(2) [OF assms]] have q: "tm_queue (sched g) = Some x" by simp
  have x: "x < length (tm_buffer (sched g))" using tm_rep_bound [OF assms] Cons by simp
  show ?thesis
    by (intro exI [of _ "zb_timer_start (ZB_TIME_SUBTRACT (run_time (tm_buffer (sched g) ! x)) t) (time g)"])
      (simp add: restart_timer_def q x Cons timer_start_running)
qed

subsection \<open>The loops\<close>

lemma may_do_progress:
  assumes "may_do T {} xs g [] xs' g'"
  shows "queues_ok {} xs' g' \<and> progress T xs g [] [] xs' g'"
proof -
  obtain new N D where d: "queued g' = queued g @ new" "mset (alarms (sched g') xs') + D = mset (alarms (sched g) xs) + N"
      "N = {#} \<longrightarrow> D = {#} \<longrightarrow> alarms (sched g') xs' = alarms (sched g) xs"
      "ran (T (zb_g.more g')) = ran (T (zb_g.more g)) @ []" "sent (T (zb_g.more g')) = sent (T (zb_g.more g)) @ new"
      "armed (T (zb_g.more g')) = armed (T (zb_g.more g)) + N" "cancelled (T (zb_g.more g')) = cancelled (T (zb_g.more g)) + D"
      "budget (T (zb_g.more g')) + length new + size N \<le> budget (T (zb_g.more g))"
    using assms unfolding may_do_def by blast
  have "size (mset (alarms (sched g') xs') + D) = size (mset (alarms (sched g) xs) + N)" by (simp only: d(2))
  then have "length xs' + size D = length xs + size N" by simp
  with d(1,8) have "work T xs' g' \<le> work T xs g" by (simp add: work_def)
  moreover have "queues_ok {} xs' g'" "timer (time g') = timer (time g)" using assms by (simp_all add: may_do_def)
  ultimately show ?thesis using d unfolding progress_def by auto
qed

text \<open>One callback: it runs while its entry is at the head of the queue.\<close>

lemma cb_step:
  assumes C: "loop_client I T irq call mac" and ok: "sched_ok I xs g" and q: "queued g = x # rest"
  shows "\<exists>xs' g1. call (func x) (param x) g = Some g1 \<and> sched_ok I xs' (flush_cb g1) \<and> progress T xs g [x] [] xs' (flush_cb g1)"
proof -
  obtain xs' g1 where g1: "call (func x) (param x) g = Some g1" "may_do T {} xs g [cb_call x] xs' g1" "I (flush_cb g1)"
    using loop_clientD(2) [OF C ok q] by blast
  then obtain new N D where d: "queued g1 = x # rest @ new" "mset (alarms (sched g1) xs') + D = mset (alarms (sched g) xs) + N"
      "N = {#} \<longrightarrow> D = {#} \<longrightarrow> alarms (sched g1) xs' = alarms (sched g) xs"
      "ran (T (zb_g.more g1)) = ran (T (zb_g.more g)) @ [cb_call x]" "sent (T (zb_g.more g1)) = sent (T (zb_g.more g)) @ new"
      "armed (T (zb_g.more g1)) = armed (T (zb_g.more g)) + N" "cancelled (T (zb_g.more g1)) = cancelled (T (zb_g.more g)) + D"
      "budget (T (zb_g.more g1)) + length new + size N \<le> budget (T (zb_g.more g))"
    unfolding may_do_def q by auto
  have g: "rb_inv (cb_q (sched g1))" "timer (time g1) = timer (time g)" "\<exists>ys. tm_rep (sched g1) {} xs' ys"
    using g1(2) by (simp_all add: may_do_def queues_ok_def)
  have ne: "\<not> ZB_RING_BUFFER_IS_EMPTY (cb_q (sched g1))" using d(1) rb_empty_iff [of "cb_q (sched g1)"] by auto
  note fg = rb_flush_get [OF g(1) ne]
  have ok': "queues_ok {} xs' (flush_cb g1)"
    using g fg by (simp add: queues_ok_def tm_rep_def flush_cb_def)
  have f: "queued (flush_cb g1) = rest @ new" "alarms (sched (flush_cb g1)) xs' = alarms (sched g1) xs'"
      "time (flush_cb g1) = time g1" "zb_g.more (flush_cb g1) = zb_g.more g1"
    using fg d(1) by (simp_all add: flush_cb_def alarms_def)
  have "size (mset (alarms (sched g1) xs') + D) = size (mset (alarms (sched g) xs) + N)" by (simp only: d(2))
  then have "length xs' + size D = length xs + size N" by simp
  with d(8) have "work T xs' (flush_cb g1) + 1 \<le> work T xs g" unfolding work_def f q by simp
  then have "progress T xs g [x] [] xs' (flush_cb g1)"
    using d(2-7) g(2) unfolding progress_def f q
    by (auto intro!: exI [of _ "[cb_call x]"] exI [of _ new] exI [of _ N] exI [of _ D])
  with g1(1,3) ok' show ?thesis by blast
qed

lemma run_cb_q_client:
  assumes C: "loop_client I T irq call mac"
  shows "sched_ok I xs g \<Longrightarrow> \<exists>xs' g' cbs. run_cb_q call (\<lambda>g. irq (zb_g.more g)) did g = Some (did \<or> queued g \<noteq> [], g')
    \<and> sched_ok I xs' g' \<and> progress T xs g cbs [] xs' g' \<and> (queued g' = [] \<or> irq (zb_g.more g'))
    \<and> (cbs = [] \<longrightarrow> g' = g \<and> xs' = xs) \<and> (queued g = [] \<longrightarrow> cbs = [])"
proof (induction "work T xs g" arbitrary: xs g did rule: less_induct)
  case less
  have rb: "rb_inv (cb_q (sched g))" using less.prems by (simp add: queues_ok_def)
  show ?case
  proof (cases "queued g")
    case Nil
    then have "ZB_RING_BUFFER_PEEK (cb_q (sched g)) = None"
      using rb_empty_iff by (metis ZB_RING_BUFFER_PEEK_def)
    with Nil less.prems show ?thesis
      by (intro exI [of _ xs] exI [of _ g] exI [of _ "[]"]) (simp add: run_cb_q.simps progress_refl)
  next
    case (Cons x rest)
    let ?q = "cb_q (sched g)"
    have ne: "\<not> ZB_RING_BUFFER_IS_EMPTY ?q" using Cons rb_empty_iff [of ?q] by auto
    have pk: "ZB_RING_BUFFER_PEEK ?q = Some (read_i ?q)" using ne by (simp add: ZB_RING_BUFFER_PEEK_def)
    have "rb_peek_ent ?q = Some x" using rb_peek [OF rb] Cons by simp
    with pk have x: "arr_get (ring_buf ?q) (unat (read_i ?q)) = Some x" by (simp add: rb_peek_ent_def)
    show ?thesis
    proof (cases "irq (zb_g.more g)")
      case True
      with Cons less.prems pk show ?thesis
        by (intro exI [of _ xs] exI [of _ g] exI [of _ "[]"]) (simp add: run_cb_q.simps progress_refl)
    next
      case False
      obtain xs1 g1 where s: "call (func x) (param x) g = Some g1" and
        s1: "sched_ok I xs1 (flush_cb g1)" "progress T xs g [x] [] xs1 (flush_cb g1)"
        using cb_step [OF C less.prems Cons] by blast
      define g2 where "g2 = flush_cb g1"
      note s1 = s1 [folded g2_def]
      have "work T xs1 g2 < work T xs g" using s1(2) by (simp add: progress_def)
      from less.hyps [OF this s1(1), of True] obtain xs' g' cbs where
        r: "run_cb_q call (\<lambda>g. irq (zb_g.more g)) True g2 = Some (True, g')" "sched_ok I xs' g'"
          "progress T xs1 g2 cbs [] xs' g'" "queued g' = [] \<or> irq (zb_g.more g')" by auto
      have "run_cb_q call (\<lambda>g. irq (zb_g.more g)) did g = Some (True, g')"
        using r(1) s False unfolding g2_def flush_cb_def by (subst run_cb_q.simps) (simp add: pk x)
      with r progress_trans [OF s1(2) r(3)] Cons show ?thesis
        by (intro exI [of _ xs'] exI [of _ g'] exI [of _ "x # cbs"]) simp
    qed
  qed
qed

text \<open>One alarm: its entry is taken from the queue, its callback is run, and the entry is free.\<close>

lemma alarm_step:
  assumes C: "loop_client I T irq call mac" and ok: "sched_ok I (x # xs) g"
    and due: "ZB_TIME_GE (timer (time g)) (run_time (tm_buffer (sched g) ! x))"
  shows "\<exists>xs' g1. call (tm_func (tm_buffer (sched g) ! x)) (tm_param (tm_buffer (sched g) ! x)) (cut_alarm g) = Some g1
    \<and> sched_ok I xs' (free_alarm x g1) \<and> progress T (x # xs) g [] [tm_buffer (sched g) ! x] xs' (free_alarm x g1)"
proof -
  let ?s = "sched g" and ?a = "tm_buffer (sched g) ! x"
  obtain xs' g1 where g1: "call (tm_func ?a) (tm_param ?a) (cut_alarm g) = Some g1"
      "may_do T {x} xs (cut_alarm g) [tm_call ?a] xs' g1" "I (free_alarm x g1)"
    using loop_clientD(3) [OF C ok] by blast
  have c: "queued (cut_alarm g) = queued g" "alarms (sched (cut_alarm g)) = alarms ?s" "zb_g.more (cut_alarm g) = zb_g.more g"
      "time (cut_alarm g) = time g"
    by (simp_all add: cut_alarm_def alarms_def fun_eq_iff split: prod.split)
  obtain new N D where d: "queued g1 = queued g @ new" "mset (alarms (sched g1) xs') + D = mset (alarms ?s xs) + N"
      "N = {#} \<longrightarrow> D = {#} \<longrightarrow> alarms (sched g1) xs' = alarms ?s xs"
      "ran (T (zb_g.more g1)) = ran (T (zb_g.more g)) @ [tm_call ?a]"
      "sent (T (zb_g.more g1)) = sent (T (zb_g.more g)) @ new"
      "armed (T (zb_g.more g1)) = armed (T (zb_g.more g)) + N" "cancelled (T (zb_g.more g1)) = cancelled (T (zb_g.more g)) + D"
      "budget (T (zb_g.more g1)) + length new + size N \<le> budget (T (zb_g.more g))"
    using g1(2) unfolding may_do_def c by blast
  obtain ys' where g: "rb_inv (cb_q (sched g1))" "timer (time g1) = timer (time g)" "tm_rep (sched g1) {x} xs' ys'"
    using g1(2) by (auto simp: may_do_def queues_ok_def c)
  note E = tm_repD [OF g(3)]
  let ?nx = "(lnext (tm_links (sched g1)))(x := tm_freelist (sched g1))"
  have f: "free_alarm x g1 = g1\<lparr>sched := (sched g1)\<lparr>tm_links := (tm_links (sched g1))\<lparr>lnext := ?nx\<rparr>, tm_freelist := Some x\<rparr>\<rparr>"
    by (simp add: free_alarm_def ZB_STK_PUSH_def)
  have xn: "x \<notin> set xs'" "x \<notin> set ys'" using E by auto
  have "stk_rep ?nx (Some x) (x # ys')" using stk.push_rep [OF E(3) xn(2)] by (simp add: ZB_STK_PUSH_def)
  moreover have "dl_rep ((tm_links (sched g1))\<lparr>lnext := ?nx\<rparr>) (tm_queue (sched g1)) xs'"
    using dl_rep_next_upd [OF xn(1), of "tm_links (sched g1)" "tm_freelist (sched g1)" "tm_queue (sched g1)"] E(2) by blast
  ultimately have "tm_rep (sched (free_alarm x g1)) {} xs' (x # ys')" using E xn unfolding tm_rep_def f by auto
  then have ok': "queues_ok {} xs' (free_alarm x g1)" using g(1) by (auto simp: queues_ok_def f)
  have k: "queued (free_alarm x g1) = queued g1" "alarms (sched (free_alarm x g1)) xs' = alarms (sched g1) xs'"
      "time (free_alarm x g1) = time g1" "zb_g.more (free_alarm x g1) = zb_g.more g1" "alarms ?s (x # xs) = ?a # alarms ?s xs"
    by (simp_all add: f alarms_def)
  have "size (mset (alarms (sched g1) xs') + D) = size (mset (alarms ?s xs) + N)" by (simp only: d(2))
  then have "length xs' + size D = length xs + size N" by simp
  with d(1,8) have "work T xs' (free_alarm x g1) + 1 \<le> work T (x # xs) g" unfolding work_def k by simp
  then have "progress T (x # xs) g [] [?a] xs' (free_alarm x g1)"
    unfolding progress_def k using d(1-7) g(2) due
    by (auto intro!: exI [of _ "[tm_call ?a]"] exI [of _ new] exI [of _ N] exI [of _ D])
  with g1(1,3) ok' show ?thesis by blast
qed

definition head_due :: "nat list \<Rightarrow> ('cb, 'w) zb_g_scheme \<Rightarrow> bool" where
  "head_due xs g \<longleftrightarrow> (case alarms (sched g) xs of [] \<Rightarrow> False | a # _ \<Rightarrow> ZB_TIME_GE (timer (time g)) (run_time a))"

lemma run_alarms_client:
  assumes C: "loop_client I T irq call mac"
  shows "sched_ok I xs g \<Longrightarrow> \<exists>xs' g' als. run_alarms call (\<lambda>g. irq (zb_g.more g)) (timer (time g)) did g
      = Some (did \<or> head_due xs g, g')
    \<and> sched_ok I xs' g' \<and> progress T xs g [] als xs' g' \<and> (\<not> head_due xs' g' \<or> irq (zb_g.more g'))
    \<and> (als = [] \<longrightarrow> g' = g \<and> xs' = xs) \<and> (\<not> head_due xs g \<longrightarrow> als = [])"
proof (induction "work T xs g" arbitrary: xs g did rule: less_induct)
  case less
  let ?t = "timer (time g)"
  obtain ys where rep: "tm_rep (sched g) {} xs ys" using less.prems by (auto simp: queues_ok_def)
  note D = tm_repD [OF rep]
  show ?case
  proof (cases xs)
    case Nil
    then have "tm_queue (sched g) = None" using D(2) by (simp add: dl_rep_def)
    with Nil less.prems show ?thesis
      by (intro exI [of _ xs] exI [of _ g] exI [of _ "[]"]) (simp add: run_alarms.simps progress_refl head_due_def alarms_def)
  next
    case (Cons x zs)
    let ?a = "tm_buffer (sched g) ! x"
    have q: "tm_queue (sched g) = Some x" using dl_rep_head [OF D(2)] Cons by simp
    have x: "x < length (tm_buffer (sched g))" using tm_rep_bound [OF rep] Cons by simp
    have hd: "head_due xs g \<longleftrightarrow> ZB_TIME_GE ?t (run_time ?a)" by (simp add: head_due_def alarms_def Cons)
    show ?thesis
    proof (cases "ZB_TIME_GE ?t (run_time ?a) \<and> \<not> irq (zb_g.more g)")
      case False
      with q x less.prems hd show ?thesis
        by (intro exI [of _ xs] exI [of _ g] exI [of _ "[]"]) (auto simp: run_alarms.simps progress_refl)
    next
      case True
      obtain xs1 g1 where c: "call (tm_func ?a) (tm_param ?a) (cut_alarm g) = Some g1"
        and st: "sched_ok I xs1 (free_alarm x g1)" "progress T (x # zs) g [] [?a] xs1 (free_alarm x g1)"
        using alarm_step [OF C less.prems [unfolded Cons]] True by blast
      define g2 where "g2 = free_alarm x g1"
      note s1 = st [folded Cons g2_def]
      have w: "work T xs1 g2 < work T xs g" and tm: "timer (time g2) = ?t" using s1(2) by (simp_all add: progress_def)
      from less.hyps [OF w s1(1), of True] obtain xs' g' als where
        r: "run_alarms call (\<lambda>g. irq (zb_g.more g)) ?t True g2 = Some (True, g')" "sched_ok I xs' g'"
          "progress T xs1 g2 [] als xs' g'" "\<not> head_due xs' g' \<or> irq (zb_g.more g')" by (auto simp: tm)
      have "run_alarms call (\<lambda>g. irq (zb_g.more g)) ?t did g = Some (True, g')"
        using r(1) c True unfolding g2_def cut_alarm_def free_alarm_def
        by (subst run_alarms.simps) (simp add: q x Let_def case_prod_unfold)
      with r progress_trans [OF s1(2) r(3)] hd True show ?thesis
        by (intro exI [of _ xs'] exI [of _ g'] exI [of _ "?a # als"]) simp
    qed
  qed
qed

text \<open>One pass. A pass that has done something leaves less to do, or an interrupt that the next one begins with.\<close>

definition loop_rank :: "('w \<Rightarrow> 'cb tally) \<Rightarrow> ('w \<Rightarrow> bool) \<Rightarrow> nat list \<Rightarrow> ('cb, 'w) zb_g_scheme \<Rightarrow> nat" where
  "loop_rank T irq xs g = 2 * work T xs g + (if irq (zb_g.more g) then 0 else 1)"

lemma head_due_Nil [simp]: "\<not> head_due [] g"
  by (simp add: head_due_def alarms_def)

lemma sched_pass_alarms:
  assumes C: "loop_client I T irq call mac" and ok: "sched_ok I xs g"
  shows "\<exists>t xs' g' als. (if tm_queue (sched g) \<noteq> None then do {
          let t = timer (time g);
          (did, g3) \<leftarrow> run_alarms call (\<lambda>g. irq (zb_g.more g)) t did g;
          Some (t, did, g3) }
        else Some (0, did, g)) = Some (t, did \<or> head_due xs g, g')
    \<and> sched_ok I xs' g' \<and> progress T xs g [] als xs' g' \<and> (\<not> head_due xs' g' \<or> irq (zb_g.more g'))
    \<and> (als = [] \<longrightarrow> g' = g \<and> xs' = xs) \<and> (\<not> head_due xs g \<longrightarrow> als = [])"
proof (cases "tm_queue (sched g)")
  case None
  obtain ys where "tm_rep (sched g) {} xs ys" using ok by (auto simp: queues_ok_def)
  from dl_rep_head [OF tm_repD(2) [OF this]] None have "xs = []" by (auto split: list.split_asm)
  with None ok show ?thesis
    by (intro exI [of _ 0] exI [of _ xs] exI [of _ g] exI [of _ "[]"]) (simp add: progress_refl)
next
  case (Some e)
  from run_alarms_client [OF C ok, of did] obtain xs' g' als where
    "run_alarms call (\<lambda>g. irq (zb_g.more g)) (timer (time g)) did g = Some (did \<or> head_due xs g, g')"
    "sched_ok I xs' g'" "progress T xs g [] als xs' g'" "\<not> head_due xs' g' \<or> irq (zb_g.more g')"
    "als = [] \<longrightarrow> g' = g \<and> xs' = xs" "\<not> head_due xs g \<longrightarrow> als = []" by blast
  with Some show ?thesis
    by (intro exI [of _ "timer (time g)"] exI [of _ xs'] exI [of _ g'] exI [of _ als]) (simp add: Let_def)
qed

lemma sched_pass_client:
  assumes C: "loop_client I T irq call mac" and ok: "sched_ok I xs g"
  shows "\<exists>did xs' g' cbs als. sched_pass call (\<lambda>g. irq (zb_g.more g)) mac g = Some (did, g')
    \<and> sched_ok I xs' g' \<and> progress T xs g cbs als xs' g' \<and> (started (time g') \<noteq> 0 \<longleftrightarrow> xs' \<noteq> [])
    \<and> (if did then loop_rank T irq xs' g' < loop_rank T irq xs g else queued g' = [] \<and> \<not> head_due xs' g')"
proof -
  obtain xs1 g1 where m: "mac g = Some g1" "may_do T {} xs g [] xs1 g1" "I g1" "irq (zb_g.more g) \<longrightarrow> work T xs1 g1 < work T xs g"
    using loop_clientD(4) [OF C ok] by blast
  note p1 = may_do_progress [OF m(2)]
  have ok1: "sched_ok I xs1 g1" using m(3) p1 by simp
  from run_cb_q_client [OF C ok1, of False] obtain xs2 g2 cbs where
    r: "run_cb_q call (\<lambda>g. irq (zb_g.more g)) False g1 = Some (queued g1 \<noteq> [], g2)" "sched_ok I xs2 g2"
      "progress T xs1 g1 cbs [] xs2 g2" "queued g2 = [] \<or> irq (zb_g.more g2)" "cbs = [] \<longrightarrow> g2 = g1 \<and> xs2 = xs1"
      "queued g1 = [] \<longrightarrow> cbs = []" by auto
  from sched_pass_alarms [OF C r(2), of "queued g1 \<noteq> []"] obtain t xs3 g3 als where
    a: "(if tm_queue (sched g2) \<noteq> None then do {
          let t = timer (time g2);
          (did, g3) \<leftarrow> run_alarms call (\<lambda>g. irq (zb_g.more g)) t (queued g1 \<noteq> []) g2;
          Some (t, did, g3) }
        else Some (0, queued g1 \<noteq> [], g2)) = Some (t, queued g1 \<noteq> [] \<or> head_due xs2 g2, g3)"
      "sched_ok I xs3 g3" "progress T xs2 g2 [] als xs3 g3" "\<not> head_due xs3 g3 \<or> irq (zb_g.more g3)"
      "als = [] \<longrightarrow> g3 = g2 \<and> xs3 = xs2" "\<not> head_due xs2 g2 \<longrightarrow> als = []" by blast
  obtain ys where rep: "tm_rep (sched g3) {} xs3 ys" using a(2) by (auto simp: queues_ok_def)
  obtain tm where tm: "restart_timer t g3 = Some (g3\<lparr>time := tm\<rparr>)" "timer tm = timer (time g3)" "started tm \<noteq> 0 \<longleftrightarrow> xs3 \<noteq> []"
    using restart_timer_ok [OF rep] by blast
  let ?g4 = "g3\<lparr>time := tm\<rparr>" and ?did = "queued g1 \<noteq> [] \<or> head_due xs2 g2"
  have run: "sched_pass call (\<lambda>g. irq (zb_g.more g)) mac g = Some (?did, ?g4)"
    unfolding sched_pass_def m(1) bind.bind_lunit r(1) prod.case a(1) using tm(1) by simp
  have p: "progress T xs g cbs als xs3 g3"
    using progress_trans [OF conjunct2 [OF p1] progress_trans [OF r(3) a(3)]] by simp
  have w: "work T xs3 g3 + length cbs + length als \<le> work T xs1 g1" "work T xs1 g1 \<le> work T xs g"
    using progress_trans [OF r(3) a(3)] p1 by (simp_all add: progress_def)
  have "loop_rank T irq xs3 g3 < loop_rank T irq xs g" if ?did
  proof (cases "cbs = [] \<and> als = []")
    case True
    with r(5) a(5) have "g3 = g1" "g2 = g1" "xs3 = xs2" by simp_all
    with that r(4) a(4) have "irq (zb_g.more g3)" by auto
    with w m(4) show ?thesis by (auto simp: loop_rank_def)
  next
    case False
    then have "0 < length cbs + length als" by auto
    with w have "work T xs3 g3 < work T xs g" by linarith
    then show ?thesis by (simp add: loop_rank_def)
  qed
  moreover have "queued g3 = [] \<and> \<not> head_due xs3 g3" if "\<not> ?did"
    using that r(5,6) a(5,6) by auto
  moreover have "sched_ok I xs3 ?g4" using a(2) loop_clientD(1) [OF C] by (simp add: queues_ok_def)
  moreover have "progress T xs g cbs als xs3 ?g4" using p tm(2) by (simp add: progress_def work_def)
  moreover have "loop_rank T irq xs3 ?g4 = loop_rank T irq xs3 g3" by (simp add: loop_rank_def work_def)
  moreover have "head_due xs3 ?g4 = head_due xs3 g3" using tm(2) by (simp add: head_due_def split: list.split)
  ultimately show ?thesis using run tm(3)
    by (intro exI [of _ ?did] exI [of _ xs3] exI [of _ ?g4] exI [of _ cbs] exI [of _ als]) simp
qed

lemma sched_loop_client:
  assumes C: "loop_client I T irq call mac"
  shows "sched_ok I xs g \<Longrightarrow> \<exists>xs' g' cbs als. sched_loop call (\<lambda>g. irq (zb_g.more g)) mac g = Some g'
    \<and> sched_ok I xs' g' \<and> progress T xs g cbs als xs' g' \<and> (started (time g') \<noteq> 0 \<longleftrightarrow> xs' \<noteq> [])
    \<and> queued g' = [] \<and> \<not> head_due xs' g'"
proof (induction "loop_rank T irq xs g" arbitrary: xs g rule: less_induct)
  case less
  from sched_pass_client [OF C less.prems] obtain did xs1 g1 c1 a1 where
    p: "sched_pass call (\<lambda>g. irq (zb_g.more g)) mac g = Some (did, g1)" "sched_ok I xs1 g1" "progress T xs g c1 a1 xs1 g1"
      "started (time g1) \<noteq> 0 \<longleftrightarrow> xs1 \<noteq> []"
      "if did then loop_rank T irq xs1 g1 < loop_rank T irq xs g else queued g1 = [] \<and> \<not> head_due xs1 g1" by blast
  show ?case
  proof (cases did)
    case False
    with p have "sched_loop call (\<lambda>g. irq (zb_g.more g)) mac g = Some g1"
      by (subst sched_loop.simps) simp
    with p False show ?thesis by auto
  next
    case True
    with p(5) have "loop_rank T irq xs1 g1 < loop_rank T irq xs g" by simp
    from less.hyps [OF this p(2)] obtain xs' g' c2 a2 where
      r: "sched_loop call (\<lambda>g. irq (zb_g.more g)) mac g1 = Some g'" "sched_ok I xs' g'" "progress T xs1 g1 c2 a2 xs' g'"
        "started (time g') \<noteq> 0 \<longleftrightarrow> xs' \<noteq> []" "queued g' = [] \<and> \<not> head_due xs' g'" by blast
    have "sched_loop call (\<lambda>g. irq (zb_g.more g)) mac g = Some g'"
      using p(1) r(1) True by (subst sched_loop.simps) simp
    with r progress_trans [OF p(3) r(3)] show ?thesis by blast
  qed
qed

text \<open>The alarms at the head of the queue that are due at an instant; in a sorted queue these are all.\<close>

definition due :: "zb_time \<Rightarrow> 'cb tm_ent list \<Rightarrow> 'cb tm_ent list" where
  "due t = takeWhile (\<lambda>a. ZB_TIME_GE t (run_time a))"

lemma due_filter:
  assumes "alarms_sorted b as" and "in_window b t"
  shows "due t as = filter (\<lambda>a. ZB_TIME_GE t (run_time a)) as"
    and "dropWhile (\<lambda>a. ZB_TIME_GE t (run_time a)) as = filter (\<lambda>a. \<not> ZB_TIME_GE t (run_time a)) as"
proof -
  have "takeWhile (\<lambda>a. ZB_TIME_GE t (run_time a)) as = filter (\<lambda>a. ZB_TIME_GE t (run_time a)) as
    \<and> dropWhile (\<lambda>a. ZB_TIME_GE t (run_time a)) as = filter (\<lambda>a. \<not> ZB_TIME_GE t (run_time a)) as"
    using assms(1)
  proof (induction as)
    case (Cons a as)
    then have w: "in_window b (run_time a)" "alarms_sorted b as"
      and le: "\<forall>e \<in> set as. in_window b (run_time e) \<and> after b (run_time a) \<le> after b (run_time e)"
      by (auto simp: alarms_sorted_Cons) (simp add: alarms_sorted_def)
    show ?case
    proof (cases "ZB_TIME_GE t (run_time a)")
      case True
      with Cons.IH w show ?thesis by simp
    next
      case False
      with time_ge_window [OF assms(2) w(1)] have "\<not> after b (run_time a) \<le> after b t" by simp
      with le time_ge_window [OF assms(2)] have "\<forall>e \<in> set as. \<not> ZB_TIME_GE t (run_time e)" by fastforce
      with False show ?thesis by (simp add: filter_id_conv filter_empty_conv)
    qed
  qed simp
  then show "due t as = filter (\<lambda>a. ZB_TIME_GE t (run_time a)) as"
    and "dropWhile (\<lambda>a. ZB_TIME_GE t (run_time a)) as = filter (\<lambda>a. \<not> ZB_TIME_GE t (run_time a)) as"
    by (simp_all add: due_def)
qed

lemma none_due:
  assumes "\<not> head_due xs g" and "alarms_sorted b (alarms (sched g) xs)" and "in_window b (timer (time g))"
  shows "\<forall>a \<in> set (alarms (sched g) xs). \<not> ZB_TIME_GE (timer (time g)) (run_time a)"
proof -
  have "due (timer (time g)) (alarms (sched g) xs) = []"
    using assms(1) by (simp add: due_def head_due_def split: list.split_asm)
  then show ?thesis using due_filter(1) [OF assms(2,3)] by (simp add: filter_empty_conv)
qed

section \<open>A client of the loop\<close>

text \<open>A cleared scheduler, as the zero-initialised globals hold it, for the concrete runs below.\<close>

definition sched_cleared :: "nat zb_g" where
  "sched_cleared =
     \<lparr>sched =
        \<lparr>cb_q = \<lparr>ring_buf = replicate ZB_SCHEDULER_Q_SIZE \<lparr>func = 0, param = 0\<rparr>, read_i = 0, write_i = 0, written = 0\<rparr>,
         mac_tx_q = \<lparr>ring_buf = replicate ZB_MAC_QUEUE_SIZE \<lparr>func = 0, param = 0\<rparr>, read_i = 0, write_i = 0, written = 0\<rparr>,
         tm_buffer = replicate ZB_SCHEDULER_Q_SIZE \<lparr>tm_func = 0, tm_param = 0, run_time = 0\<rparr>,
         tm_links = \<lparr>lnext = \<lambda>_. None, lprev = \<lambda>_. None\<rparr>,
         delayed_buf = replicate ZB_BUF_Q_SIZE 0, buf_next = \<lambda>_. None,
         tm_queue = None, tm_freelist = None, inbuf_head = None, inbuf_tail = None,
         outbuf_head = None, outbuf_tail = None, buf_freelist = None\<rparr>,
      time = \<lparr>timer_stop = 0, timer = 100, started = 0\<rparr>\<rparr>"

lemma cleared_init: "tm_rep (sched (zb_sched_init sched_cleared)) {} [] (rev [0..<ZB_SCHEDULER_Q_SIZE])"
  by (rule sched_init_spec) (simp_all add: sched_cleared_def)

lemma cleared_cb_q:
  "rb_inv (cb_q (sched (zb_sched_init sched_cleared)))"
  "\<not> ZB_RING_BUFFER_IS_FULL (cb_q (sched (zb_sched_init sched_cleared)))"
proof -
  have q: "cb_q (sched (zb_sched_init sched_cleared)) = cb_q (sched sched_cleared)"
    by (rule sched_init_spec) (simp_all add: sched_cleared_def)
  show "rb_inv (cb_q (sched (zb_sched_init sched_cleared)))"
    unfolding q by (simp add: sched_cleared_def rb_inv_def ZB_SCHEDULER_Q_SIZE_def)
  show "\<not> ZB_RING_BUFFER_IS_FULL (cb_q (sched (zb_sched_init sched_cleared)))"
    unfolding q by (simp add: sched_cleared_def ZB_RING_BUFFER_IS_FULL_def ZB_RING_BUFFER_CAPACITY_def
        ZB_SCHEDULER_Q_SIZE_def)
qed

lemma rev_upt_16: "rev [0..<ZB_SCHEDULER_Q_SIZE] = 15 # rev [0..<15]"
  using upt_Suc_append [of 0 15] by (simp add: ZB_SCHEDULER_Q_SIZE_def)

text \<open>
  Callbacks that queue and set others and write the tally: \<open>1\<close> queues the callback \<open>2\<close>, which sets the alarm \<open>3\<close>, which
  is due at once; all others do nothing. There is an interrupt whenever the budget is odd, and the MAC spends one on it.
\<close>

type_synonym example_g = "(nat, nat tally) zb_g_scheme"

definition log_call :: "nat \<Rightarrow> u8 \<Rightarrow> example_g \<Rightarrow> example_g" where
  "log_call f p = zb_g.more_update (\<lambda>w. w\<lparr>ran := ran w @ [(f, p)]\<rparr>)"

definition logged_callback :: "nat \<Rightarrow> u8 \<Rightarrow> example_g \<Rightarrow> example_g option" where
  "logged_callback f p g = (if budget (zb_g.more g) = 0 then Some g else do {
     (ret, g) \<leftarrow> zb_schedule_callback f p g;
     Some (if ret = RET_OK then zb_g.more_update (\<lambda>w. w\<lparr>sent := sent w @ [\<lparr>func = f, param = p\<rparr>], budget := budget w - 1\<rparr>) g
           else g) })"

definition logged_alarm :: "nat \<Rightarrow> u8 \<Rightarrow> zb_time \<Rightarrow> example_g \<Rightarrow> example_g option" where
  "logged_alarm f p d g = (if budget (zb_g.more g) = 0 then Some g else do {
     (ret, g) \<leftarrow> zb_schedule_alarm f p d g;
     Some (if ret = RET_OK then zb_g.more_update (\<lambda>w. w\<lparr>armed := add_mset
               \<lparr>tm_func = f, tm_param = p, run_time = ZB_TIME_ADD (timer (time g)) d\<rparr> (armed w), budget := budget w - 1\<rparr>) g
           else g) })"

definition example_call :: "nat \<Rightarrow> u8 \<Rightarrow> example_g \<Rightarrow> example_g option" where
  "example_call f p g =
     (let g = log_call f p g
      in if f = 1 then logged_callback 2 0 g else if f = 2 then logged_alarm 3 0 0 g else Some g)"

definition example_irq :: "nat tally \<Rightarrow> bool" where "example_irq w \<longleftrightarrow> odd (budget w)"

definition example_mac :: "example_g \<Rightarrow> example_g option" where
  "example_mac g = Some (if example_irq (zb_g.more g) then zb_g.more_update (\<lambda>w. w\<lparr>budget := budget w - 1\<rparr>) g else g)"

lemma zb_g_more_update [simp]:
  "sched (zb_g.more_update k g) = sched g" "time (zb_g.more_update k g) = time g"
  "zb_g.more (zb_g.more_update k g) = k (zb_g.more g)"
  by (cases g; simp)+

lemma may_do_same: "queues_ok F xs g \<Longrightarrow> may_do T F xs g [] xs g"
  unfolding may_do_def by (auto intro!: exI [of _ "{#}"])

lemma may_do_trans:
  assumes "may_do T F xs g r1 xs1 g1" and "may_do T F xs1 g1 r2 xs2 g2"
  shows "may_do T F xs g (r1 @ r2) xs2 g2"
proof -
  obtain n1 N1 D1 where 1: "queued g1 = queued g @ n1"
      "mset (alarms (sched g1) xs1) + D1 = mset (alarms (sched g) xs) + N1"
      "N1 = {#} \<longrightarrow> D1 = {#} \<longrightarrow> alarms (sched g1) xs1 = alarms (sched g) xs" "ran (T (zb_g.more g1)) = ran (T (zb_g.more g)) @ r1"
      "sent (T (zb_g.more g1)) = sent (T (zb_g.more g)) @ n1" "armed (T (zb_g.more g1)) = armed (T (zb_g.more g)) + N1"
      "cancelled (T (zb_g.more g1)) = cancelled (T (zb_g.more g)) + D1"
      "budget (T (zb_g.more g1)) + length n1 + size N1 \<le> budget (T (zb_g.more g))"
    using assms(1) unfolding may_do_def by blast
  obtain n2 N2 D2 where 2: "queued g2 = queued g1 @ n2"
      "mset (alarms (sched g2) xs2) + D2 = mset (alarms (sched g1) xs1) + N2"
      "N2 = {#} \<longrightarrow> D2 = {#} \<longrightarrow> alarms (sched g2) xs2 = alarms (sched g1) xs1" "ran (T (zb_g.more g2)) = ran (T (zb_g.more g1)) @ r2"
      "sent (T (zb_g.more g2)) = sent (T (zb_g.more g1)) @ n2" "armed (T (zb_g.more g2)) = armed (T (zb_g.more g1)) + N2"
      "cancelled (T (zb_g.more g2)) = cancelled (T (zb_g.more g1)) + D2"
      "budget (T (zb_g.more g2)) + length n2 + size N2 \<le> budget (T (zb_g.more g1))"
    using assms(2) unfolding may_do_def by blast
  have "mset (alarms (sched g2) xs2) + (D1 + D2) = mset (alarms (sched g1) xs1) + N2 + D1"
    unfolding 2(2) [symmetric] by (simp add: ac_simps)
  also have "\<dots> = mset (alarms (sched g1) xs1) + D1 + N2" by (simp add: ac_simps)
  also have "\<dots> = mset (alarms (sched g) xs) + (N1 + N2)" unfolding 1(2) by (simp add: ac_simps)
  finally have m: "mset (alarms (sched g2) xs2) + (D1 + D2) = mset (alarms (sched g) xs) + (N1 + N2)" .
  show ?thesis
    using assms 1 2 m unfolding may_do_def
    by (auto intro!: exI [of _ "n1 @ n2"] exI [of _ "N1 + N2"] exI [of _ "D1 + D2"])
qed

lemma log_call_ok: "queues_ok F xs g \<Longrightarrow> may_do id F xs g [(f, p)] xs (log_call f p g)"
  unfolding may_do_def log_call_def queues_ok_def by (auto intro!: exI [of _ "{#}"])

lemma logged_callback_ok:
  assumes ok: "queues_ok F xs g" and p: "unat p \<le> ZB_IOBUF_POOL_SIZE"
  shows "\<exists>g'. logged_callback f p g = Some g' \<and> may_do id F xs g [] xs g'"
proof (cases "budget (zb_g.more g) = 0 \<or> ZB_RING_BUFFER_IS_FULL (cb_q (sched g))")
  case True
  then have "logged_callback f p g = Some g"
    by (auto simp: logged_callback_def schedule_callback_full RET_OVERFLOW_def RET_OK_def GENERIC_ERROR_CODE_def)
  with may_do_same [OF ok] show ?thesis by blast
next
  case False
  obtain q where q: "zb_schedule_callback f p g = Some (RET_OK, g\<lparr>sched := (sched g)\<lparr>cb_q := q\<rparr>\<rparr>)" "rb_inv q"
      "rb_contents q = queued g @ [\<lparr>func = f, param = p\<rparr>]"
    using schedule_callback_ok [of g p f] ok False p by (auto simp: queues_ok_def)
  let ?g = "zb_g.more_update (\<lambda>w. w\<lparr>sent := sent w @ [\<lparr>func = f, param = p\<rparr>], budget := budget w - 1\<rparr>)
      (g\<lparr>sched := (sched g)\<lparr>cb_q := q\<rparr>\<rparr>)"
  have m: "zb_g.more (g\<lparr>sched := (sched g)\<lparr>cb_q := q\<rparr>\<rparr>) = zb_g.more g" by (cases g) simp
  have "logged_callback f p g = Some ?g" using q False by (simp add: logged_callback_def)
  moreover have "queues_ok F xs ?g" using ok q by (simp add: queues_ok_def tm_rep_def)
  then have "may_do id F xs g [] xs ?g"
    unfolding may_do_def using q False
    by (auto simp: alarms_def m intro!: exI [of _ "{#}"])
  ultimately show ?thesis by blast
qed

lemma logged_alarm_ok:
  assumes ok: "queues_ok F xs g"
  shows "\<exists>xs' g'. logged_alarm f p d g = Some g' \<and> may_do id F xs g [] xs' g'"
proof (cases "budget (zb_g.more g) = 0")
  case True
  then show ?thesis using may_do_same [OF ok] by (auto simp: logged_alarm_def)
next
  case False
  obtain ys where rep: "tm_rep (sched g) F xs ys" and rb: "rb_inv (cb_q (sched g))" using ok by (auto simp: queues_ok_def)
  show ?thesis
  proof (cases ys)
    case Nil
    let ?g = "g\<lparr>sched := (sched g)\<lparr>tm_freelist := None\<rparr>\<rparr>"
    have "logged_alarm f p d g = Some ?g"
      using schedule_alarm_full [OF rep [unfolded Nil], of f p d] False by (simp add: logged_alarm_def RET_OVERFLOW_def RET_OK_def GENERIC_ERROR_CODE_def)
    moreover have "queues_ok F xs ?g" using rep rb Nil by (auto simp: queues_ok_def tm_rep_def stk_rep_def)
    then have "may_do id F xs g [] xs ?g"
      unfolding may_do_def by (cases g) (auto simp: alarms_def intro!: exI [of _ "{#}"])
    ultimately show ?thesis by blast
  next
    case (Cons n zs)
    let ?e = "\<lparr>tm_func = f, tm_param = p, run_time = ZB_TIME_ADD (timer (time g)) d\<rparr>"
    obtain g1 xs' where g1: "zb_schedule_alarm f p d g = Some (RET_OK, g1)" "tm_rep (sched g1) F xs' zs"
        "alarms (sched g1) xs' = alarm_insert ?e (alarms (sched g) xs)" "timer (time g1) = timer (time g)"
        "cb_q (sched g1) = cb_q (sched g)"
      using schedule_alarm_ok [OF rep [unfolded Cons], of f p d] by blast
    have m: "zb_g.more g1 = zb_g.more g"
      using g1(1) by (cases g) (auto simp: zb_schedule_alarm_def Let_def bind_eq_Some_conv split: prod.splits option.splits if_splits)
    let ?g = "zb_g.more_update (\<lambda>w. w\<lparr>armed := add_mset ?e (armed w), budget := budget w - 1\<rparr>) g1"
    have "logged_alarm f p d g = Some ?g" using g1(1,4) False by (simp add: logged_alarm_def)
    moreover have "may_do id F xs g [] xs' ?g"
      unfolding may_do_def queues_ok_def using g1(2-5) rb False
      by (auto simp: m alarm_insert_mset intro!: exI [of _ "{#?e#}"])
    ultimately show ?thesis by blast
  qed
qed

lemma example_call_ok:
  assumes "queues_ok F xs g"
  shows "\<exists>xs' g'. example_call f p g = Some g' \<and> may_do id F xs g [(f, p)] xs' g'"
proof -
  note l = log_call_ok [OF assms, of f p]
  then have ok: "queues_ok F xs (log_call f p g)" by (simp add: may_do_def)
  have "\<exists>xs' g'. example_call f p g = Some g' \<and> may_do id F xs (log_call f p g) [] xs' g'"
    using logged_callback_ok [OF ok, of 0 2] logged_alarm_ok [OF ok, of 3 0 0] may_do_same [OF ok]
    by (simp add: example_call_def Let_def) blast
  with may_do_trans [OF l] show ?thesis by fastforce
qed

lemma example_client: "loop_client (\<lambda>_. True) id example_irq example_call example_mac"
proof -
  have cut: "queues_ok {x} xs (cut_alarm g)" if q: "queues_ok {} (x # xs) g" for x xs and g :: example_g
  proof -
    obtain ys where rep: "tm_rep (sched g) {} (x # xs) ys" and rb: "rb_inv (cb_q (sched g))" using q by (auto simp: queues_ok_def)
    note D = tm_repD [OF rep]
    obtain h l where "ZB_LIST_CUT_HEAD (tm_links (sched g)) (tm_queue (sched g)) = (h, l, Some x)" "dl_rep h l xs"
        "lnext h = lnext (tm_links (sched g))"
      using dl_cut_head [OF D(2)] by blast
    with D rb show ?thesis by (auto simp: queues_ok_def cut_alarm_def tm_rep_def)
  qed
  have mac: "\<exists>xs' g'. example_mac g = Some g' \<and> may_do id {} xs g [] xs' g'
      \<and> (example_irq (zb_g.more g) \<longrightarrow> work id xs' g' < work id xs g)" if "queues_ok {} xs g" for xs and g :: example_g
  proof (cases "example_irq (zb_g.more g)")
    case True
    then have "0 < budget (zb_g.more g)" by (auto simp: example_irq_def intro: odd_pos)
    with True that show ?thesis
      by (intro exI [of _ xs] exI [of _ "zb_g.more_update (\<lambda>w. w\<lparr>budget := budget w - 1\<rparr>) g"])
        (auto simp: example_mac_def may_do_def queues_ok_def work_def intro!: exI [of _ "{#}"])
  next
    case False
    with that may_do_same [OF that, of id] show ?thesis by (auto simp: example_mac_def)
  qed
  show ?thesis
    unfolding loop_client_def cb_call_def tm_call_def
    using example_call_ok [of "{}"] example_call_ok [OF cut] mac by simp
qed

text \<open>The callback \<open>1\<close> is queued; the alarm \<open>4\<close> is due and \<open>5\<close> is not. Three passes do something, two of them are broken off.\<close>

definition example_start :: example_g where
  "example_start = the (do {
     let g = zb_sched_init (zb_g.extend sched_cleared \<lparr>ran = [], sent = [], armed = {#}, cancelled = {#}, budget = 5\<rparr>);
     (_, g) \<leftarrow> zb_schedule_callback 1 3 g;
     (_, g) \<leftarrow> zb_schedule_alarm 4 0 0 g;
     (_, g) \<leftarrow> zb_schedule_alarm 5 0 20 g;
     Some g })"

lemma example_start_ok:
  "\<exists>xs. queues_ok {} xs example_start \<and> alarms (sched example_start) xs =
     [\<lparr>tm_func = 4, tm_param = 0, run_time = 100\<rparr>, \<lparr>tm_func = 5, tm_param = 0, run_time = 120\<rparr>]"
  "queued example_start = [\<lparr>func = 1, param = 3\<rparr>]"
proof -
  let ?s = "zb_g.extend sched_cleared \<lparr>ran = [], sent = [], armed = {#}, cancelled = {#}, budget = 5\<rparr> :: example_g"
  let ?g = "zb_sched_init ?s"
  have s0: "sched ?s = sched sched_cleared" by (simp add: zb_g.defs)
  have len: "length (tm_buffer (sched ?s)) = ZB_SCHEDULER_Q_SIZE"
    and clear: "tm_freelist (sched ?s) = None" "buf_freelist (sched ?s) = None" "tm_queue (sched ?s) = None"
      "lprev (tm_links (sched ?s)) = (\<lambda>_. None)"
    unfolding s0 by (simp_all add: sched_cleared_def)
  note init = sched_init_spec [OF len clear]
  have "rev [0..<15] = 14 # rev [0..<14]" using upt_Suc_append [of 0 14] by simp
  then have rep: "tm_rep (sched ?g) {} [] (15 # 14 # rev [0..<14])"
    using init(1) unfolding rev_upt_16 by (simp only:)
  have q: "cb_q (sched ?g) = cb_q (sched sched_cleared)"
    by (rule trans [OF init(3)]) (simp only: s0)
  have rb: "rb_inv (cb_q (sched ?g))" "\<not> ZB_RING_BUFFER_IS_FULL (cb_q (sched ?g))" "queued ?g = []"
    unfolding q by (simp_all add: sched_cleared_def rb_inv_def ZB_SCHEDULER_Q_SIZE_def rb_contents_def
        ZB_RING_BUFFER_IS_FULL_def ZB_RING_BUFFER_CAPACITY_def)
  have t: "timer (time ?g) = 100"
    by (simp add: zb_sched_init_def Let_def split: prod.split) (simp add: zb_g.defs sched_cleared_def)
  obtain c where c: "zb_schedule_callback 1 3 ?g = Some (RET_OK, ?g\<lparr>sched := (sched ?g)\<lparr>cb_q := c\<rparr>\<rparr>)" "rb_inv c"
      "rb_contents c = [\<lparr>func = 1, param = 3\<rparr>]"
    using schedule_callback_ok [OF rb(1,2), of 3 1] rb(3) by (auto simp: ZB_IOBUF_POOL_SIZE_def)
  let ?h = "?g\<lparr>sched := (sched ?g)\<lparr>cb_q := c\<rparr>\<rparr>"
  have rep1: "tm_rep (sched ?h) {} [] (15 # 14 # rev [0..<14])"
    using rep by (simp add: tm_rep_def)
  obtain g2 zs where g2: "zb_schedule_alarm 4 0 0 ?h = Some (RET_OK, g2)" "tm_rep (sched g2) {} zs (14 # rev [0..<14])"
      "alarms (sched g2) zs = [\<lparr>tm_func = 4, tm_param = 0, run_time = 100\<rparr>]" "timer (time g2) = 100" "cb_q (sched g2) = c"
    using schedule_alarm_ok [OF rep1, of 4 0 0] t by (auto simp: alarms_def ZB_TIME_ADD_def)
  obtain g3 xs where g3: "zb_schedule_alarm 5 0 20 g2 = Some (RET_OK, g3)" "tm_rep (sched g3) {} xs (rev [0..<14])"
      "alarms (sched g3) xs = [\<lparr>tm_func = 4, tm_param = 0, run_time = 100\<rparr>, \<lparr>tm_func = 5, tm_param = 0, run_time = 120\<rparr>]"
      "cb_q (sched g3) = c"
    using schedule_alarm_ok [OF g2(2), of 5 0 20] g2(3-5) by (auto simp: ZB_TIME_ADD_def ZB_TIME_GE_def ZB_TIME_SUBTRACT_def)
  have "example_start = g3" 
    unfolding example_start_def Let_def c(1) bind.bind_lunit prod.case g2(1) g3(1) option.sel ..
  with g3 c show "\<exists>xs. queues_ok {} xs example_start \<and> alarms (sched example_start) xs =
      [\<lparr>tm_func = 4, tm_param = 0, run_time = 100\<rparr>, \<lparr>tm_func = 5, tm_param = 0, run_time = 120\<rparr>]"
    "queued example_start = [\<lparr>func = 1, param = 3\<rparr>]"
    by (auto simp: queues_ok_def)
qed

lemmas [code] = run_cb_q.simps run_alarms.simps sched_loop.simps tmq_find.simps ZB_LIST_CHECK_ENT.simps

section \<open>Properties\<close>

text \<open>
  C29. One call of the main loop returns and runs everything that is due, once. The callbacks may queue further callbacks, set
  alarms and cancel them, and the MAC may do so between the passes; a pass may be broken off by a radio interrupt. It is
  required that they return, keep the queues in order, use up a bound on what they queue and set, and do not move the clock
  (\<open>loop_client\<close>). Then what has been called (\<open>r\<close>) is an interleaving of callbacks and alarms: the callbacks are those that
  were queued at the beginning followed by those queued meanwhile, in this order, and none is left; each alarm that was pending or
  set meanwhile has been called when it was due, or is still pending, or was cancelled, and only one of these. What is left
  is not due; the timer runs exactly when alarms are left. If no alarm was set or cancelled meanwhile, they were called in the
  order of their queue, so earliest first.
\<close>

theorem sched_loop_runs_all_due:
  assumes "loop_client I T irq call mac" and "I g" and "queues_ok {} xs g"
  shows "\<exists>g' xs' cbs als r new N D.
      zb_sched_loop_iteration call (\<lambda>g. irq (zb_g.more g)) mac try_io g = try_io g'
    \<and> I g' \<and> queues_ok {} xs' g'
    \<and> ran (T (zb_g.more g')) = ran (T (zb_g.more g)) @ r \<and> r \<in> shuffles (map cb_call cbs) (map tm_call als)
    \<and> queued g' = [] \<and> cbs = queued g @ new \<and> sent (T (zb_g.more g')) = sent (T (zb_g.more g)) @ new
    \<and> mset als + mset (alarms (sched g') xs') + D = mset (alarms (sched g) xs) + N
    \<and> armed (T (zb_g.more g')) = armed (T (zb_g.more g)) + N \<and> cancelled (T (zb_g.more g')) = cancelled (T (zb_g.more g)) + D
    \<and> (N = {#} \<longrightarrow> D = {#} \<longrightarrow> als @ alarms (sched g') xs' = alarms (sched g) xs)
    \<and> (\<forall>a \<in> set als. ZB_TIME_GE (timer (time g)) (run_time a))
    \<and> \<not> head_due xs' g'
    \<and> (\<forall>b. alarms_sorted b (alarms (sched g') xs') \<longrightarrow> in_window b (timer (time g)) \<longrightarrow>
         (\<forall>a \<in> set (alarms (sched g') xs'). \<not> ZB_TIME_GE (timer (time g)) (run_time a)))
    \<and> timer (time g') = timer (time g) \<and> (started (time g') \<noteq> 0 \<longleftrightarrow> xs' \<noteq> [])"
proof -
  obtain xs' g' cbs als where l: "sched_loop call (\<lambda>g. irq (zb_g.more g)) mac g = Some g'" "sched_ok I xs' g'"
      "progress T xs g cbs als xs' g'" "started (time g') \<noteq> 0 \<longleftrightarrow> xs' \<noteq> []" "queued g' = []" "\<not> head_due xs' g'"
    using sched_loop_client [OF assms(1) conjI [OF assms(2,3)]] by blast
  from l(3) obtain r new N D where p: "timer (time g') = timer (time g)" "\<forall>a \<in> set als. ZB_TIME_GE (timer (time g)) (run_time a)"
      "cbs = queued g @ new" "mset als + mset (alarms (sched g') xs') + D = mset (alarms (sched g) xs) + N"
      "N = {#} \<longrightarrow> D = {#} \<longrightarrow> als @ alarms (sched g') xs' = alarms (sched g) xs"
      "r \<in> shuffles (map cb_call cbs) (map tm_call als)" "ran (T (zb_g.more g')) = ran (T (zb_g.more g)) @ r"
      "sent (T (zb_g.more g')) = sent (T (zb_g.more g)) @ new"
      "armed (T (zb_g.more g')) = armed (T (zb_g.more g)) + N" "cancelled (T (zb_g.more g')) = cancelled (T (zb_g.more g)) + D"
    unfolding progress_def l(5) by auto
  have run: "zb_sched_loop_iteration call (\<lambda>g. irq (zb_g.more g)) mac try_io g = try_io g'"
    by (simp add: zb_sched_loop_iteration_def l(1))
  have nd: "\<forall>b. alarms_sorted b (alarms (sched g') xs') \<longrightarrow> in_window b (timer (time g)) \<longrightarrow>
      (\<forall>a \<in> set (alarms (sched g') xs'). \<not> ZB_TIME_GE (timer (time g)) (run_time a))"
    using none_due [OF l(6)] unfolding p(1) by blast
  show ?thesis
    by (intro exI [of _ g'] exI [of _ xs'] exI [of _ cbs] exI [of _ als] exI [of _ r] exI [of _ new] exI [of _ N] exI [of _ D]
        conjI run conjunct1 [OF l(2)] conjunct2 [OF l(2)] p l(4-6) nd)
qed

theorem sched_loop_runs_all_due_witness:
  "\<exists>xs g' xs'. queued example_start = [\<lparr>func = 1, param = 3\<rparr>]
    \<and> alarms (sched example_start) xs =
        [\<lparr>tm_func = 4, tm_param = 0, run_time = 100\<rparr>, \<lparr>tm_func = 5, tm_param = 0, run_time = 120\<rparr>]
    \<and> zb_sched_loop_iteration example_call (\<lambda>g. example_irq (zb_g.more g)) example_mac Some example_start = Some g'
    \<and> ran (zb_g.more g') = [(1, 3), (2, 0), (3, 0), (4, 0)]
    \<and> queued g' = [] \<and> queues_ok {} xs' g' \<and> \<not> head_due xs' g' \<and> (started (time g') \<noteq> 0 \<longleftrightarrow> xs' \<noteq> [])"
proof -
  obtain xs where xs: "queues_ok {} xs example_start" "alarms (sched example_start) xs =
      [\<lparr>tm_func = 4, tm_param = 0, run_time = 100\<rparr>, \<lparr>tm_func = 5, tm_param = 0, run_time = 120\<rparr>]"
    using example_start_ok(1) by blast
  obtain g' xs' where g': "zb_sched_loop_iteration example_call (\<lambda>g. example_irq (zb_g.more g)) example_mac Some example_start = Some g'"
      "queued g' = []" "queues_ok {} xs' g'" "\<not> head_due xs' g'" "started (time g') \<noteq> 0 \<longleftrightarrow> xs' \<noteq> []"
    using sched_loop_runs_all_due [OF example_client _ xs(1), of Some] by blast
  have "map_option (\<lambda>g. ran (zb_g.more g))
      (zb_sched_loop_iteration example_call (\<lambda>g. example_irq (zb_g.more g)) example_mac Some example_start)
      = Some [(1, 3), (2, 0), (3, 0), (4, 0)]"
    by code_simp
  with g' xs(2) example_start_ok(2) show ?thesis by auto
qed

text \<open>
  C30. Scheduling an alarm while the timer queue has a free entry succeeds without leaving the
  queue's memory, adds exactly the new alarm, takes exactly one entry from the free list, and
  keeps the queue sorted by time across the wrap of the 16-bit clock, as long as all the
  instants lie in one window of half the clock range.
\<close>

theorem schedule_alarm_keeps_order:
  assumes "tm_rep (sched g) F xs (n # ys)" and "alarms_sorted b (alarms (sched g) xs)"
    and "in_window b (ZB_TIME_ADD (timer (time g)) d)"
  shows "\<exists>g' zs. zb_schedule_alarm f p d g = Some (RET_OK, g') \<and> tm_rep (sched g') F zs ys
    \<and> alarms_sorted b (alarms (sched g') zs)
    \<and> mset (alarms (sched g') zs) = add_mset \<lparr>tm_func = f, tm_param = p, run_time = ZB_TIME_ADD (timer (time g)) d\<rparr>
        (mset (alarms (sched g) xs))"
  using schedule_alarm_ok [OF assms(1), of f p d] alarm_insert_sorted [OF assms(2)] assms(3)
  by (metis alarm_insert_mset tm_ent.select_convs(3))

theorem schedule_alarm_keeps_order_witness:
  "\<exists>g' zs. zb_schedule_alarm 7 1 20 (zb_sched_init sched_cleared) = Some (RET_OK, g')
    \<and> tm_rep (sched g') {} zs (rev [0..<15]) \<and> alarms_sorted 100 (alarms (sched g') zs)"
proof -
  have "alarms_sorted 100 (alarms (sched (zb_sched_init sched_cleared)) [])"
    by (simp add: alarms_sorted_def alarms_def)
  moreover have "in_window 100 (ZB_TIME_ADD (timer (time (zb_sched_init sched_cleared))) 20)"
    by (simp add: sched_cleared_def zb_sched_init_def Let_def ZB_TIME_ADD_def in_window_def after_def split: prod.splits)
  ultimately show ?thesis
    using schedule_alarm_keeps_order [OF cleared_init [unfolded rev_upt_16], of 100 20 7 1] by blast
qed

text \<open>
  Cancelling an alarm: with a parameter or \<^verbatim>\<open>ZB_ALARM_ANY_PARAM\<close> the first matching
  alarm is removed, with \<^verbatim>\<open>ZB_ALARM_ALL_CB\<close> all of them, the others stay in their order,
  the removed entries return to the free list, and the result is \<open>RET_NOT_FOUND\<close> exactly
  when nothing matched.
\<close>

theorem alarm_cancel_removes:
  assumes "tm_rep (sched g) F xs ys"
  shows "\<exists>g' zs ws. zb_schedule_alarm_cancel f p g
      = Some (if \<exists>a \<in> set (alarms (sched g) xs). alarm_matches f p a then RET_OK else RET_NOT_FOUND, g')
    \<and> tm_rep (sched g') F zs ws
    \<and> alarms (sched g') zs = (if p \<noteq> ZB_ALARM_ALL_CB then cancel_first (alarm_matches f p) (alarms (sched g) xs)
                             else filter (\<lambda>a. \<not> alarm_matches f p a) (alarms (sched g) xs))"
  using alarm_cancel_spec [OF assms, of f p] by blast

theorem alarm_cancel_removes_witness:
  "\<exists>g' zs ws. zb_schedule_alarm_cancel 7 1 (zb_sched_init sched_cleared) = Some (RET_NOT_FOUND, g')
    \<and> tm_rep (sched g') {} zs ws"
  using alarm_cancel_removes [OF cleared_init, of 7 1] by (auto simp: alarms_def)

text \<open>
  \<^verbatim>\<open>zb_schedule_callback\<close> on every branch: a full queue is refused with
  \<open>RET_OVERFLOW\<close> and left unchanged; a parameter above the number of buffers is stopped by
  the assertion; otherwise the callback is appended at the end of the queue.
\<close>

theorem schedule_callback_branches:
  assumes "rb_inv (cb_q (sched g))"
  shows "if ZB_RING_BUFFER_IS_FULL (cb_q (sched g)) then zb_schedule_callback f p g = Some (RET_OVERFLOW, g)
    else if ZB_IOBUF_POOL_SIZE < unat p then zb_schedule_callback f p g = None
    else \<exists>q. zb_schedule_callback f p g = Some (RET_OK, g\<lparr>sched := (sched g)\<lparr>cb_q := q\<rparr>\<rparr>) \<and> rb_inv q
      \<and> rb_contents q = rb_contents (cb_q (sched g)) @ [\<lparr>func = f, param = p\<rparr>]"
  using schedule_callback_full [of g f p] schedule_callback_assert [OF assms, of p f]
    schedule_callback_ok [OF assms, of p f] by fastforce

theorem schedule_callback_branches_witness:
  "\<exists>q. zb_schedule_callback 7 1 (zb_sched_init sched_cleared)
      = Some (RET_OK, (zb_sched_init sched_cleared)\<lparr>sched := (sched (zb_sched_init sched_cleared))\<lparr>cb_q := q\<rparr>\<rparr>) \<and> rb_inv q"
  using schedule_callback_branches [OF cleared_cb_q(1), of 7 1] cleared_cb_q(2)
  by (auto simp: ZB_IOBUF_POOL_SIZE_def)

end
