(* ===== verification/Bufpool.thy ===== *)
theory Bufpool
  imports Main_Loop
begin

text \<open>
  The packet buffers of \<^verbatim>\<open>common/zb_bufpool.c\<close>, \<^verbatim>\<open>common/zb_bufpool_init.c\<close> and
  \<^verbatim>\<open>include/zb_bufpool.h\<close>: a fixed pool with a free list, a limit of half the pool for each
  direction, callbacks that wait for a buffer, and the operations that reserve and cut space
  at both ends of a packet.

  A buffer is named by its index in the pool, which is also the reference the scheduler
  passes to callbacks. The free-list pointer shares its bytes with the first four bytes of the
  header (a union); the header fields it overlays are cleared by \<^verbatim>\<open>zb_get_buf\<close> before the buffer
  is used again, and the model keeps the pointer beside the header. On a 32-bit platform
  \<^verbatim>\<open>is_in_buf\<close>, which \<^verbatim>\<open>zb_free_buf\<close> reads after it has written the pointer, is not overlaid.
\<close>

section \<open>State\<close>

definition ZB_IO_BUF_SIZE :: nat where [zb_config]: "ZB_IO_BUF_SIZE = 148"
definition ZB_BUFS_LIMIT :: nat where [zb_config]: "ZB_BUFS_LIMIT = ZB_IOBUF_POOL_SIZE div 2"

lemma bufs_limit [simp]: "ZB_BUFS_LIMIT = 8"
  by (simp add: ZB_BUFS_LIMIT_def ZB_IOBUF_POOL_SIZE_def)

record zb_buf_hdr_t =
  hdr_len :: u8
  data_offset :: u8
  handle :: u8
  mac_hdr_offset :: u8
  hdr_status :: u16
  is_in_buf :: "1 word"
  encrypt_type :: "2 word"
  use_same_key :: "1 word"
  zdo_cmd_no_resp :: "1 word"
  mhr_len :: u8

record zb_buf_t =
  hdr :: zb_buf_hdr_t
  data_buf :: "u8 list"

definition hdr_zero :: zb_buf_hdr_t where
  "hdr_zero = \<lparr>hdr_len = 0, data_offset = 0, handle = 0, mac_hdr_offset = 0, hdr_status = 0,
     is_in_buf = 0, encrypt_type = 0, use_same_key = 0, zdo_cmd_no_resp = 0, mhr_len = 0\<rparr>"

record zb_buf_pool =
  pool :: "zb_buf_t list"
  pool_next :: "nat \<Rightarrow> nat option"
  pool_head :: "nat option"
  bufs_allocated :: "u8 list"

record 'cb bp_g = "'cb zb_g" +
  bpool :: zb_buf_pool
  rx_need_buf :: u8

definition ZB_IN_BUF_AVAILABLE :: "('cb, 'w) bp_g_scheme \<Rightarrow> bool" where
  "ZB_IN_BUF_AVAILABLE g \<longleftrightarrow> unat (bufs_allocated (bpool g) ! 1) < ZB_IOBUF_POOL_SIZE div 2"

definition ZB_OUT_BUF_AVAILABLE :: "('cb, 'w) bp_g_scheme \<Rightarrow> bool" where
  "ZB_OUT_BUF_AVAILABLE g \<longleftrightarrow> unat (bufs_allocated (bpool g) ! 0) < ZB_IOBUF_POOL_SIZE div 2"

section \<open>The pool\<close>

definition zb_init_buffers :: "('cb, 'w) bp_g_scheme \<Rightarrow> ('cb, 'w) bp_g_scheme" where
  "zb_init_buffers g =
     (if pool_head (bpool g) \<noteq> None then g
      else
        let nx = fold (\<lambda>i nx. nx(i := Some (Suc i))) [0..<ZB_IOBUF_POOL_SIZE - 1] (pool_next (bpool g))
        in g\<lparr>bpool := (bpool g)\<lparr>pool_head := Some 0, pool_next := nx(ZB_IOBUF_POOL_SIZE - 1 := None)\<rparr>\<rparr>)"

definition zb_get_buf :: "nat \<Rightarrow> ('cb, 'w) bp_g_scheme \<Rightarrow> (nat option \<times> ('cb, 'w) bp_g_scheme) option" where
  "zb_get_buf is_in g = do {
     let bp = bpool g;
     n0 \<leftarrow> arr_get (bufs_allocated bp) 0;
     n1 \<leftarrow> arr_get (bufs_allocated bp) 1;
     ZB_ASSERT (pool_head bp \<noteq> None \<or> n0 \<noteq> 0 \<or> n1 \<noteq> 0);
     n \<leftarrow> arr_get (bufs_allocated bp) is_in;
     if n < of_nat ZB_BUFS_LIMIT then
       (case pool_head bp of
          None \<Rightarrow> Some (None, g)
        | Some b \<Rightarrow> do {
            buf \<leftarrow> arr_get (pool bp) b;
            al \<leftarrow> arr_set (bufs_allocated bp) is_in (n + 1);
            ZB_ASSERT (n + 1 \<le> of_nat ZB_BUFS_LIMIT);
            pl \<leftarrow> arr_set (pool bp) b (buf\<lparr>hdr := hdr_zero\<lparr>is_in_buf := of_nat is_in\<rparr>\<rparr>);
            Some (Some b, g\<lparr>bpool := bp\<lparr>pool := pl, pool_next := (pool_next bp)(b := None),
                                         pool_head := pool_next bp b, bufs_allocated := al\<rparr>\<rparr>) })
     else Some (None, g) }"

definition zb_get_in_buf :: "('cb, 'w) bp_g_scheme \<Rightarrow> (nat option \<times> ('cb, 'w) bp_g_scheme) option" where
  "zb_get_in_buf g = zb_get_buf 1 g"

definition zb_get_out_buf :: "('cb, 'w) bp_g_scheme \<Rightarrow> (nat option \<times> ('cb, 'w) bp_g_scheme) option" where
  "zb_get_out_buf g = zb_get_buf 0 g"

definition zb_get_buf_delayed ::
  "'cb \<Rightarrow> nat \<Rightarrow> ('cb, 'w) bp_g_scheme \<Rightarrow> (zb_ret \<times> ('cb, 'w) bp_g_scheme) option" where
  "zb_get_buf_delayed callback is_in g = do {
     (b, g) \<leftarrow> zb_get_buf is_in g;
     (case b of
        Some i \<Rightarrow> zb_schedule_callback callback (of_nat i) g
      | None \<Rightarrow>
          (let s = sched g in
           case ZB_STK_POP (buf_next s) (buf_freelist s) of
             (fl, None) \<Rightarrow> Some (RET_ERROR, g\<lparr>sched := s\<lparr>buf_freelist := fl\<rparr>\<rparr>)
           | (fl, Some ent) \<Rightarrow> do {
               db \<leftarrow> arr_set (delayed_buf s) ent callback;
               let s = s\<lparr>buf_freelist := fl, delayed_buf := db\<rparr>;
               Some (RET_OK, g\<lparr>sched :=
                 (if is_in \<noteq> 0 then
                    (let (nx, h, t) = ZB_SL_LIST_INSERT_TAIL (buf_next s) (inbuf_head s) (inbuf_tail s) ent
                     in s\<lparr>buf_next := nx, inbuf_head := h, inbuf_tail := t\<rparr>)
                  else
                    (let (nx, h, t) = ZB_SL_LIST_INSERT_TAIL (buf_next s) (outbuf_head s) (outbuf_tail s) ent
                     in s\<lparr>buf_next := nx, outbuf_head := h, outbuf_tail := t\<rparr>))\<rparr>) })) }"

definition zb_get_in_buf_delayed :: "'cb \<Rightarrow> ('cb, 'w) bp_g_scheme \<Rightarrow> (zb_ret \<times> ('cb, 'w) bp_g_scheme) option" where
  "zb_get_in_buf_delayed callback g = zb_get_buf_delayed callback 1 g"

definition zb_get_out_buf_delayed :: "'cb \<Rightarrow> ('cb, 'w) bp_g_scheme \<Rightarrow> (zb_ret \<times> ('cb, 'w) bp_g_scheme) option" where
  "zb_get_out_buf_delayed callback g = zb_get_buf_delayed callback 0 g"

text \<open>The first half of \<^verbatim>\<open>zb_free_buf\<close>: the buffer goes back to the free list.\<close>

definition free_to_pool :: "nat \<Rightarrow> ('cb, 'w) bp_g_scheme \<Rightarrow> ('cb, 'w) bp_g_scheme option" where
  "free_to_pool b g = do {
     let bp = bpool g;
     n0 \<leftarrow> arr_get (bufs_allocated bp) 0;
     n1 \<leftarrow> arr_get (bufs_allocated bp) 1;
     ZB_ASSERT (pool_head bp \<noteq> None \<or> n0 \<noteq> 0 \<or> n1 \<noteq> 0);
     buf \<leftarrow> arr_get (pool bp) b;
     let d = unat (is_in_buf (hdr buf));
     n \<leftarrow> arr_get (bufs_allocated bp) d;
     ZB_ASSERT (n > 0);
     al \<leftarrow> arr_set (bufs_allocated bp) d (n - 1);
     Some (g\<lparr>bpool := bp\<lparr>pool_next := (pool_next bp)(b := pool_head bp), pool_head := Some b,
                          bufs_allocated := al\<rparr>\<rparr>) }"

text \<open>What \<^verbatim>\<open>zb_free_buf\<close> does with a waiting entry \<open>q\<close> once the buffer is back in the pool.\<close>

definition hand_over :: "'cb zb_sched \<Rightarrow> nat \<Rightarrow> nat \<Rightarrow> ('cb, 'w) bp_g_scheme \<Rightarrow> ('cb, 'w) bp_g_scheme option" where
  "hand_over s q d g = do {
     cb \<leftarrow> arr_get (delayed_buf s) q;
     (r, g) \<leftarrow> zb_get_buf d (g\<lparr>sched := s\<rparr>);
     i \<leftarrow> r;
     (ret, g) \<leftarrow> zb_schedule_callback cb (of_nat i) g;
     let (nx, fl) = ZB_STK_PUSH (buf_next (sched g)) (buf_freelist (sched g)) q;
     Some (g\<lparr>sched := (sched g)\<lparr>buf_next := nx, buf_freelist := fl\<rparr>\<rparr>) }"

text \<open>
  \<^verbatim>\<open>zb_free_buf\<close>: a callback that waits for a buffer of that direction is scheduled with a
  newly allocated one. The result of scheduling it is not looked at, and a null result of
  \<^verbatim>\<open>zb_get_buf\<close> would be made a reference unchecked (no value here).
\<close>

definition zb_free_buf :: "nat \<Rightarrow> ('cb, 'w) bp_g_scheme \<Rightarrow> ('cb, 'w) bp_g_scheme option" where
  "zb_free_buf b g = do {
     g \<leftarrow> free_to_pool b g;
     buf \<leftarrow> arr_get (pool (bpool g)) b;
     let s = sched g;
     let (s, ent) =
       (if is_in_buf (hdr buf) \<noteq> 0 then
          (if rx_need_buf g = 0 then
             (let (h, t, ent) = ZB_SL_LIST_CUT_HEAD (buf_next s) (inbuf_head s) (inbuf_tail s)
              in (s\<lparr>inbuf_head := h, inbuf_tail := t\<rparr>, ent))
           else (s, None))
        else
          (let (h, t, ent) = ZB_SL_LIST_CUT_HEAD (buf_next s) (outbuf_head s) (outbuf_tail s)
           in (s\<lparr>outbuf_head := h, outbuf_tail := t\<rparr>, ent)));
     (case ent of
        None \<Rightarrow> Some (g\<lparr>sched := s\<rparr>)
      | Some e \<Rightarrow> hand_over s e (unat (is_in_buf (hdr buf))) g) }"

section \<open>Space inside a buffer\<close>

text \<open>A pointer into a buffer is an offset into its bytes.\<close>

definition ZB_BUF_BEGIN :: "zb_buf_t \<Rightarrow> nat" where
  "ZB_BUF_BEGIN b = unat (data_offset (hdr b))"

definition ZB_BUF_LEN :: "zb_buf_t \<Rightarrow> nat" where
  "ZB_BUF_LEN b = unat (hdr_len (hdr b))"

definition zb_buf_initial_alloc :: "zb_buf_t \<Rightarrow> u8 \<Rightarrow> (zb_buf_t \<times> nat) option" where
  "zb_buf_initial_alloc b sz = do {
     ZB_ASSERT (unat sz < ZB_IO_BUF_SIZE);
     let b = b\<lparr>hdr := hdr_zero\<lparr>is_in_buf := is_in_buf (hdr b), hdr_len := sz,
                 data_offset := of_nat ((ZB_IO_BUF_SIZE - unat sz) div 2)\<rparr>\<rparr>;
     Some (b, ZB_BUF_BEGIN b) }"

definition zb_buf_smart_alloc_left :: "zb_buf_t \<Rightarrow> u8 \<Rightarrow> (zb_buf_t \<times> nat) option" where
  "zb_buf_smart_alloc_left b sz = do {
     ZB_ASSERT (unat sz + ZB_BUF_LEN b < ZB_IO_BUF_SIZE);
     b \<leftarrow> (if data_offset (hdr b) < sz then do {
              let p = ZB_BUF_BEGIN b;
              d \<leftarrow> arr_move (data_buf b) (p + (unat sz - p)) p (ZB_BUF_LEN b);
              Some (b\<lparr>data_buf := d, hdr := (hdr b)\<lparr>data_offset := sz\<rparr>\<rparr>) }
            else Some b);
     let b = b\<lparr>hdr := (hdr b)\<lparr>hdr_len := hdr_len (hdr b) + sz, data_offset := data_offset (hdr b) - sz\<rparr>\<rparr>;
     Some (b, ZB_BUF_BEGIN b) }"

definition zb_buf_smart_alloc_right :: "zb_buf_t \<Rightarrow> u8 \<Rightarrow> (zb_buf_t \<times> nat) option" where
  "zb_buf_smart_alloc_right b sz = do {
     ZB_ASSERT (unat sz + ZB_BUF_LEN b < ZB_IO_BUF_SIZE);
     let ptr = ZB_BUF_BEGIN b + ZB_BUF_LEN b;
     Some (b\<lparr>hdr := (hdr b)\<lparr>hdr_len := hdr_len (hdr b) + sz\<rparr>\<rparr>, ptr) }"

definition zb_get_buf_tail :: "zb_buf_t \<Rightarrow> u8 \<Rightarrow> nat option" where
  "zb_get_buf_tail b sz = do {
     ZB_ASSERT (ZB_BUF_LEN b + ZB_BUF_BEGIN b + unat sz \<le> ZB_IO_BUF_SIZE);
     Some (ZB_IO_BUF_SIZE - unat sz) }"

text \<open>\<^verbatim>\<open>ZB_MEMCPY\<close> of \<open>bs\<close> to the place \<open>i\<close> of an array.\<close>

definition arr_copy :: "'a list \<Rightarrow> nat \<Rightarrow> 'a list \<Rightarrow> 'a list option" where
  "arr_copy xs i bs = (if i + length bs \<le> length xs then Some (take i xs @ bs @ drop (i + length bs) xs) else None)"

text \<open>Reading \<open>n\<close> bytes of a buffer from an offset.\<close>

definition buf_read :: "u8 list \<Rightarrow> nat \<Rightarrow> nat \<Rightarrow> u8 list option" where
  "buf_read d i n = (if i + n \<le> length d then Some (take n (drop i d)) else None)"

definition zb_buf_assign_param :: "zb_buf_t \<Rightarrow> u8 list \<Rightarrow> u8 \<Rightarrow> zb_buf_t option" where
  "zb_buf_assign_param b ps sz = do {
     ZB_ASSERT (ZB_BUF_LEN b + unat sz \<le> ZB_IO_BUF_SIZE);
     let room = int ZB_IO_BUF_SIZE - int (ZB_BUF_BEGIN b + ZB_BUF_LEN b);
     b \<leftarrow> (if room < int (unat sz) then do {
              let delta = (word_of_int (int (unat sz) - room) :: u32);
              let p = ZB_BUF_BEGIN b;
              ZB_ASSERT (unat delta \<le> p);
              d \<leftarrow> arr_move (data_buf b) (p - unat delta) p (ZB_BUF_LEN b);
              Some (b\<lparr>hdr := (hdr b)\<lparr>data_offset := data_offset (hdr b) - ucast delta\<rparr>, data_buf := d\<rparr>) }
            else Some b);
     t \<leftarrow> zb_get_buf_tail b sz;
     d \<leftarrow> arr_copy (data_buf b) t (take (unat sz) ps);
     Some (b\<lparr>data_buf := d\<rparr>) }"

definition zb_buf_cut_left :: "zb_buf_t \<Rightarrow> u8 \<Rightarrow> (zb_buf_t \<times> nat) option" where
  "zb_buf_cut_left b sz = do {
     ZB_ASSERT (ZB_BUF_LEN b \<ge> unat sz);
     let b = b\<lparr>hdr := (hdr b)\<lparr>hdr_len := hdr_len (hdr b) - sz, data_offset := data_offset (hdr b) + sz\<rparr>\<rparr>;
     Some (b, ZB_BUF_BEGIN b) }"

definition zb_buf_cut_right :: "zb_buf_t \<Rightarrow> u8 \<Rightarrow> zb_buf_t option" where
  "zb_buf_cut_right b sz = do {
     ZB_ASSERT (ZB_BUF_LEN b \<ge> unat sz);
     Some (b\<lparr>hdr := (hdr b)\<lparr>hdr_len := hdr_len (hdr b) - sz\<rparr>\<rparr>) }"

definition zb_buf_reuse :: "zb_buf_t \<Rightarrow> zb_buf_t" where
  "zb_buf_reuse b = b\<lparr>hdr := hdr_zero\<lparr>is_in_buf := is_in_buf (hdr b)\<rparr>\<rparr>"

definition ZB_BUF_COPY :: "zb_buf_t \<Rightarrow> zb_buf_t \<Rightarrow> zb_buf_t" where
  "ZB_BUF_COPY dst src = src\<lparr>hdr := (hdr src)\<lparr>is_in_buf := is_in_buf (hdr dst)\<rparr>\<rparr>"

text \<open>The packet a buffer holds, and the invariant that it lies inside the buffer.\<close>

definition buf_wf :: "zb_buf_t \<Rightarrow> bool" where
  "buf_wf b \<longleftrightarrow> length (data_buf b) = ZB_IO_BUF_SIZE \<and> ZB_BUF_BEGIN b + ZB_BUF_LEN b \<le> ZB_IO_BUF_SIZE"

definition payload :: "zb_buf_t \<Rightarrow> u8 list" where
  "payload b = take (ZB_BUF_LEN b) (drop (ZB_BUF_BEGIN b) (data_buf b))"

lemma length_payload [simp]: "buf_wf b \<Longrightarrow> length (payload b) = ZB_BUF_LEN b"
  by (auto simp: buf_wf_def payload_def min_def)

lemma buf_wfD: "buf_wf b \<Longrightarrow> length (data_buf b) = 148" "buf_wf b \<Longrightarrow> ZB_BUF_BEGIN b + ZB_BUF_LEN b \<le> 148"
  by (simp_all add: buf_wf_def ZB_IO_BUF_SIZE_def)

lemma initial_alloc_ok:
  assumes "buf_wf b" and "unat sz < ZB_IO_BUF_SIZE"
  shows "\<exists>b' p. zb_buf_initial_alloc b sz = Some (b', p) \<and> buf_wf b' \<and> ZB_BUF_LEN b' = unat sz
    \<and> p = ZB_BUF_BEGIN b' \<and> is_in_buf (hdr b') = is_in_buf (hdr b) \<and> data_buf b' = data_buf b"
proof -
  have o: "unat (of_nat ((148 - unat sz) div 2) :: u8) = (148 - unat sz) div 2"
    by (rule unat_of_nat_lt) simp
  show ?thesis
    using assms by (simp add: zb_buf_initial_alloc_def Let_def buf_wf_def ZB_BUF_BEGIN_def ZB_BUF_LEN_def
        ZB_IO_BUF_SIZE_def o)
qed

lemma unat_add_8: "unat (x :: u8) + unat y < 256 \<Longrightarrow> unat (x + y) = unat x + unat y"
  by (simp add: unat_word_ariths(1))

lemma unat_sub_8: "unat (y :: u8) \<le> unat x \<Longrightarrow> unat (x - y) = unat x - unat y"
  by (simp add: unat_sub word_le_nat_alt)

lemma alloc_left_ok:
  assumes wf: "buf_wf b" and s: "unat sz + ZB_BUF_LEN b < ZB_IO_BUF_SIZE"
  shows "\<exists>b' p. zb_buf_smart_alloc_left b sz = Some (b', p) \<and> buf_wf b'
    \<and> p = ZB_BUF_BEGIN b' \<and> ZB_BUF_LEN b' = ZB_BUF_LEN b + unat sz \<and> drop (unat sz) (payload b') = payload b"
proof (cases "data_offset (hdr b) < sz")
  case False
  let ?b = "b\<lparr>hdr := (hdr b)\<lparr>hdr_len := hdr_len (hdr b) + sz, data_offset := data_offset (hdr b) - sz\<rparr>\<rparr>"
  have le: "unat sz \<le> ZB_BUF_BEGIN b" using False by (simp add: ZB_BUF_BEGIN_def word_le_nat_alt not_less)
  have B: "ZB_BUF_BEGIN ?b = ZB_BUF_BEGIN b - unat sz" and L: "ZB_BUF_LEN ?b = ZB_BUF_LEN b + unat sz"
    using le s by (simp_all add: ZB_BUF_BEGIN_def ZB_BUF_LEN_def unat_sub_8 unat_add_8 ZB_IO_BUF_SIZE_def)
  have "zb_buf_smart_alloc_left b sz = Some (?b, ZB_BUF_BEGIN ?b)"
    using False s by (simp add: zb_buf_smart_alloc_left_def Let_def)
  moreover have "buf_wf ?b" using wf le unfolding buf_wf_def B L by simp
  moreover have "drop (unat sz) (payload ?b) = payload b"
    unfolding payload_def B L using le by (simp add: drop_take)
  ultimately show ?thesis using L by blast
next
  case True
  let ?p = "ZB_BUF_BEGIN b" and ?n = "ZB_BUF_LEN b" and ?s = "unat sz"
  let ?d = "take ?s (data_buf b) @ take ?n (drop ?p (data_buf b)) @ drop (?s + ?n) (data_buf b)"
  let ?b = "b\<lparr>data_buf := ?d, hdr := (hdr b)\<lparr>hdr_len := hdr_len (hdr b) + sz, data_offset := 0\<rparr>\<rparr>"
  have ps: "?p < ?s" using True by (simp add: ZB_BUF_BEGIN_def word_less_nat_alt)
  have mv: "arr_move (data_buf b) ?s ?p ?n = Some ?d"
    using buf_wfD [OF wf] s ps by (intro arr_move_in) (simp_all add: ZB_IO_BUF_SIZE_def)
  have B: "ZB_BUF_BEGIN ?b = 0" and L: "ZB_BUF_LEN ?b = ?n + ?s"
    using s by (simp_all add: ZB_BUF_BEGIN_def ZB_BUF_LEN_def unat_add_8 ZB_IO_BUF_SIZE_def)
  have "?p + (?s - ?p) = ?s" using ps by simp
  then have "zb_buf_smart_alloc_left b sz = Some (?b, 0)"
    using True s mv B by (simp add: zb_buf_smart_alloc_left_def Let_def ZB_BUF_BEGIN_def)
  moreover have "length ?d = 148" using arr_move_length [OF mv] buf_wfD [OF wf] by simp
  then have "buf_wf ?b"
    unfolding buf_wf_def B L using s by (simp add: ZB_IO_BUF_SIZE_def)
  moreover have "drop ?s (payload ?b) = payload b"
    unfolding payload_def B L using buf_wfD [OF wf] s ps
    by (auto simp: ZB_IO_BUF_SIZE_def drop_take min_def)
  ultimately show ?thesis using L B by fastforce
qed

lemma alloc_right_ok:
  assumes wf: "buf_wf b" and s: "ZB_BUF_BEGIN b + ZB_BUF_LEN b + unat sz \<le> ZB_IO_BUF_SIZE"
    "unat sz + ZB_BUF_LEN b < ZB_IO_BUF_SIZE"
  shows "\<exists>b' p. zb_buf_smart_alloc_right b sz = Some (b', p) \<and> buf_wf b'
    \<and> p + unat sz = ZB_BUF_BEGIN b' + ZB_BUF_LEN b' \<and> take (ZB_BUF_LEN b) (payload b') = payload b"
proof -
  let ?b = "b\<lparr>hdr := (hdr b)\<lparr>hdr_len := hdr_len (hdr b) + sz\<rparr>\<rparr>"
  have L: "ZB_BUF_LEN ?b = ZB_BUF_LEN b + unat sz" and B: "ZB_BUF_BEGIN ?b = ZB_BUF_BEGIN b"
    using s by (simp_all add: ZB_BUF_LEN_def ZB_BUF_BEGIN_def unat_add_8 ZB_IO_BUF_SIZE_def)
  have "zb_buf_smart_alloc_right b sz = Some (?b, ZB_BUF_BEGIN b + ZB_BUF_LEN b)"
    using s by (simp add: zb_buf_smart_alloc_right_def Let_def)
  moreover have "buf_wf ?b" using wf s unfolding buf_wf_def B L by simp
  moreover have "take (ZB_BUF_LEN b) (payload ?b) = payload b"
    unfolding payload_def B L by simp
  ultimately show ?thesis unfolding B [symmetric] using L by (intro exI) (auto simp: B)
qed

text \<open>The assertion of \<^verbatim>\<open>zb_buf_smart_alloc_right\<close> does not look at the offset of the packet.\<close>

lemma alloc_right_outside:
  assumes "ZB_IO_BUF_SIZE < ZB_BUF_BEGIN b + ZB_BUF_LEN b + unat sz" and "unat sz + ZB_BUF_LEN b < ZB_IO_BUF_SIZE"
  shows "\<exists>b' p. zb_buf_smart_alloc_right b sz = Some (b', p) \<and> \<not> buf_wf b'"
  using assms by (simp add: zb_buf_smart_alloc_right_def Let_def buf_wf_def ZB_BUF_LEN_def
      ZB_BUF_BEGIN_def unat_add_8 ZB_IO_BUF_SIZE_def)

lemma cut_left_ok:
  assumes wf: "buf_wf b" and s: "unat sz \<le> ZB_BUF_LEN b"
  shows "\<exists>b' p. zb_buf_cut_left b sz = Some (b', p) \<and> buf_wf b' \<and> payload b' = drop (unat sz) (payload b)"
proof -
  let ?b = "b\<lparr>hdr := (hdr b)\<lparr>hdr_len := hdr_len (hdr b) - sz, data_offset := data_offset (hdr b) + sz\<rparr>\<rparr>"
  have "ZB_BUF_BEGIN b + unat sz < 256" using buf_wfD [OF wf] s by simp
  then have L: "ZB_BUF_LEN ?b = ZB_BUF_LEN b - unat sz" and B: "ZB_BUF_BEGIN ?b = ZB_BUF_BEGIN b + unat sz"
    using s by (simp_all add: ZB_BUF_LEN_def ZB_BUF_BEGIN_def unat_add_8 unat_sub_8)
  have "zb_buf_cut_left b sz = Some (?b, ZB_BUF_BEGIN ?b)"
    using s by (simp add: zb_buf_cut_left_def Let_def)
  moreover have "buf_wf ?b" using wf s unfolding buf_wf_def B L by simp
  moreover have "payload ?b = drop (unat sz) (payload b)"
    unfolding payload_def B L by (simp add: drop_take add.commute)
  ultimately show ?thesis by blast
qed

lemma cut_right_ok:
  assumes wf: "buf_wf b" and s: "unat sz \<le> ZB_BUF_LEN b"
  shows "\<exists>b'. zb_buf_cut_right b sz = Some b' \<and> buf_wf b' \<and> payload b' = take (ZB_BUF_LEN b - unat sz) (payload b)"
proof -
  let ?b = "b\<lparr>hdr := (hdr b)\<lparr>hdr_len := hdr_len (hdr b) - sz\<rparr>\<rparr>"
  have L: "ZB_BUF_LEN ?b = ZB_BUF_LEN b - unat sz" and B: "ZB_BUF_BEGIN ?b = ZB_BUF_BEGIN b"
    using s by (simp_all add: ZB_BUF_LEN_def ZB_BUF_BEGIN_def unat_sub_8)
  have "zb_buf_cut_right b sz = Some ?b" using s by (simp add: zb_buf_cut_right_def)
  moreover have "buf_wf ?b" using wf s unfolding buf_wf_def B L by auto
  moreover have "payload ?b = take (ZB_BUF_LEN b - unat sz) (payload b)"
    unfolding payload_def B L by (simp add: min_def)
  ultimately show ?thesis by blast
qed

text \<open>
  Putting parameters at the end of the buffer: the packet is moved towards the front when the
  room behind it is too small, and is unchanged.
\<close>

lemma arr_copy_tail:
  "length bs \<le> length xs \<Longrightarrow> arr_copy xs (length xs - length bs) bs = Some (take (length xs - length bs) xs @ bs)"
  by (simp add: arr_copy_def)

lemma assign_tail:
  assumes wf: "buf_wf b" and s: "ZB_BUF_LEN b + ZB_BUF_BEGIN b + length ps \<le> ZB_IO_BUF_SIZE"
  shows "\<exists>d. arr_copy (data_buf b) (ZB_IO_BUF_SIZE - length ps) ps = Some d \<and> buf_wf (b\<lparr>data_buf := d\<rparr>)
    \<and> payload (b\<lparr>data_buf := d\<rparr>) = payload b \<and> drop (ZB_IO_BUF_SIZE - length ps) d = ps"
proof -
  let ?d = "take (148 - length ps) (data_buf b) @ ps"
  note W = buf_wfD [OF wf]
  have l: "length ps \<le> 148" using s by (simp add: ZB_IO_BUF_SIZE_def)
  have "arr_copy (data_buf b) (ZB_IO_BUF_SIZE - length ps) ps = Some ?d"
    using arr_copy_tail [of ps "data_buf b"] W l by (simp add: ZB_IO_BUF_SIZE_def)
  moreover have "buf_wf (b\<lparr>data_buf := ?d\<rparr>)"
    using wf W l by (simp add: buf_wf_def ZB_BUF_BEGIN_def ZB_BUF_LEN_def ZB_IO_BUF_SIZE_def)
  moreover have "payload (b\<lparr>data_buf := ?d\<rparr>) = payload b"
    using s W l by (auto simp: payload_def ZB_BUF_BEGIN_def ZB_BUF_LEN_def ZB_IO_BUF_SIZE_def drop_take min_def)
  moreover have "drop (ZB_IO_BUF_SIZE - length ps) ?d = ps" using W l by (simp add: ZB_IO_BUF_SIZE_def)
  ultimately show ?thesis by blast
qed

lemma assign_param_ok:
  assumes wf: "buf_wf b" and s: "ZB_BUF_LEN b + unat sz \<le> ZB_IO_BUF_SIZE" and ps: "length ps = unat sz"
  shows "\<exists>b'. zb_buf_assign_param b ps sz = Some b' \<and> buf_wf b' \<and> payload b' = payload b
    \<and> drop (ZB_IO_BUF_SIZE - unat sz) (data_buf b') = ps"
proof (cases "ZB_BUF_LEN b + ZB_BUF_BEGIN b + length ps \<le> ZB_IO_BUF_SIZE")
  case True
  then have "\<not> (int ZB_IO_BUF_SIZE - int (ZB_BUF_BEGIN b + ZB_BUF_LEN b) < int (unat sz))"
    unfolding ps by linarith
  moreover have "ZB_BUF_LEN b + ZB_BUF_BEGIN b + unat sz \<le> ZB_IO_BUF_SIZE" using True ps by simp
  moreover obtain d where "arr_copy (data_buf b) (ZB_IO_BUF_SIZE - unat sz) ps = Some d"
      "buf_wf (b\<lparr>data_buf := d\<rparr>)" "payload (b\<lparr>data_buf := d\<rparr>) = payload b" "drop (ZB_IO_BUF_SIZE - unat sz) d = ps"
    using assign_tail [OF wf True] unfolding ps by blast
  ultimately show ?thesis
    using s ps by (intro exI [of _ "b\<lparr>data_buf := d\<rparr>"])
      (simp add: zb_buf_assign_param_def zb_get_buf_tail_def Let_def)
next
  case False
  let ?p = "ZB_BUF_BEGIN b" and ?n = "ZB_BUF_LEN b" and ?s = "unat sz"
  let ?q = "148 - ?s - ?n"
  let ?room = "int ZB_IO_BUF_SIZE - int (?p + ?n)"
  let ?delta = "word_of_int (int ?s - ?room) :: u32"
  let ?d = "take ?q (data_buf b) @ take ?n (drop ?p (data_buf b)) @ drop (?q + ?n) (data_buf b)"
  let ?b = "b\<lparr>hdr := (hdr b)\<lparr>data_offset := data_offset (hdr b) - ucast ?delta\<rparr>, data_buf := ?d\<rparr>"
  note W = buf_wfD [OF wf]
  have e: "int ?s - ?room = int (?p - ?q)" using False s ps by (simp add: ZB_IO_BUF_SIZE_def of_nat_diff)
  have lt: "?p - ?q < 256" using W by simp
  have "unat (of_nat (?p - ?q) :: u32) = ?p - ?q" by (rule unat_of_nat_lt) (use lt in simp)
  then have dl1: "unat ?delta = ?p - ?q" unfolding e of_int_of_nat_eq .
  moreover have "?q \<le> ?p" using False s ps by (simp add: ZB_IO_BUF_SIZE_def)
  ultimately have dl: "unat ?delta = ?p - ?q" "?q \<le> ?p" by blast+
  have "unat (ucast ?delta :: u8) = ?p - ?q" using dl(1) lt by (simp add: unsigned_ucast_eq take_bit_nat_eq_self)
  then have B: "ZB_BUF_BEGIN ?b = ?q"
    using dl by (simp add: ZB_BUF_BEGIN_def unat_sub_8)
  have L: "ZB_BUF_LEN ?b = ?n" by (simp add: ZB_BUF_LEN_def)
  have r: "?room < int ?s" using False unfolding ps by linarith
  have pq: "?p - (?p - ?q) = ?q" using dl(2) by simp
  have mv: "arr_move (data_buf b) ?q ?p ?n = Some ?d"
    using W s by (intro arr_move_in) (simp_all add: ZB_IO_BUF_SIZE_def)
  have ld: "length ?d = 148" using arr_move_length [OF mv] W by simp
  have wf': "buf_wf ?b"
    unfolding buf_wf_def B L using ld s by (simp add: ZB_IO_BUF_SIZE_def)
  have s': "ZB_BUF_LEN ?b + ZB_BUF_BEGIN ?b + length ps \<le> ZB_IO_BUF_SIZE"
    unfolding B L using ps s by (simp add: ZB_IO_BUF_SIZE_def)
  have pl: "payload ?b = payload b"
    unfolding payload_def B L using W s by (auto simp: ZB_IO_BUF_SIZE_def min_def)
  have "zb_buf_assign_param b ps sz = do { d \<leftarrow> arr_copy (data_buf ?b) (ZB_IO_BUF_SIZE - ?s) ps; Some (?b\<lparr>data_buf := d\<rparr>) }"
    using r False s ps mv dl pq s' by (simp add: zb_buf_assign_param_def zb_get_buf_tail_def Let_def)
  with assign_tail [OF wf' s'] pl ps show ?thesis by auto
qed

section \<open>The pool invariant\<close>

text \<open>
  \<open>bp_inv bp fs\<close>: the free list runs through the buffers \<open>fs\<close>; each counter is the number of
  buffers of its direction that are not free, and none exceeds its half of the pool.
\<close>

definition dir_of :: "zb_buf_t \<Rightarrow> nat" where
  "dir_of b = unat (is_in_buf (hdr b))"

definition taken :: "zb_buf_pool \<Rightarrow> nat list \<Rightarrow> nat \<Rightarrow> nat set" where
  "taken bp fs d = {i. i < ZB_IOBUF_POOL_SIZE \<and> i \<notin> set fs \<and> dir_of (pool bp ! i) = d}"

definition bp_inv :: "zb_buf_pool \<Rightarrow> nat list \<Rightarrow> bool" where
  "bp_inv bp fs \<longleftrightarrow>
     length (pool bp) = ZB_IOBUF_POOL_SIZE \<and> length (bufs_allocated bp) = 2
     \<and> stk_rep (pool_next bp) (pool_head bp) fs \<and> set fs \<subseteq> {..<ZB_IOBUF_POOL_SIZE}
     \<and> (\<forall>d < 2. unat (bufs_allocated bp ! d) = card (taken bp fs d) \<and> card (taken bp fs d) \<le> ZB_BUFS_LIMIT)"

lemma bp_invD:
  assumes "bp_inv bp fs"
  shows "length (pool bp) = 16" "length (bufs_allocated bp) = 2"
    "stk_rep (pool_next bp) (pool_head bp) fs" "set fs \<subseteq> {..<16}" "distinct fs"
    "d < 2 \<Longrightarrow> unat (bufs_allocated bp ! d) = card (taken bp fs d)" "d < 2 \<Longrightarrow> card (taken bp fs d) \<le> 8"
  using assms by (auto simp: bp_inv_def stk_rep_def ZB_IOBUF_POOL_SIZE_def)

lemma dir_of_lt: "dir_of b < 2"
  using unsigned_less [of "is_in_buf (hdr b)"] by (simp add: dir_of_def)

lemma finite_taken [simp]: "finite (taken bp fs d)"
  by (simp add: taken_def)

lemma taken_all: "{..<16} - set fs = taken bp fs 0 \<union> taken bp fs 1"
proof -
  have "dir_of (pool bp ! i) = 0 \<or> dir_of (pool bp ! i) = 1" for i using dir_of_lt [of "pool bp ! i"] by linarith
  then show ?thesis by (auto simp: taken_def ZB_IOBUF_POOL_SIZE_def)
qed

text \<open>Because the limits add up to the pool, a direction below its limit always finds a free buffer.\<close>

lemma free_nonempty:
  assumes inv: "bp_inv bp fs" and d: "d < 2" and lt: "card (taken bp fs d) < 8"
  shows "fs \<noteq> []"
proof
  assume e: "fs = []"
  have "card ({..<16} - set fs) = card (taken bp fs 0) + card (taken bp fs 1)"
    unfolding taken_all [of fs bp] by (rule card_Un_disjoint) (auto simp: taken_def)
  moreover have "d = 0 \<or> d = 1" using d by linarith
  ultimately show False using bp_invD(7) [OF inv, of 0] bp_invD(7) [OF inv, of 1] lt e by auto
qed

lemma get_buf_ok:
  assumes inv: "bp_inv (bpool g) (b # fs)" and d: "d < 2" and lt: "card (taken (bpool g) (b # fs) d) < 8"
  shows "\<exists>bp. zb_get_buf d g = Some (Some b, g\<lparr>bpool := bp\<rparr>) \<and> bp_inv bp fs
    \<and> taken bp fs d = insert b (taken (bpool g) (b # fs) d)
    \<and> hdr (pool bp ! b) = hdr_zero\<lparr>is_in_buf := of_nat d\<rparr>
    \<and> (\<forall>i. i \<noteq> b \<longrightarrow> pool bp ! i = pool (bpool g) ! i)
    \<and> data_buf (pool bp ! b) = data_buf (pool (bpool g) ! b)"
proof -
  let ?bp = "bpool g"
  note I = bp_invD [OF inv]
  let ?n = "bufs_allocated ?bp ! d"
  let ?buf = "(pool ?bp ! b)\<lparr>hdr := hdr_zero\<lparr>is_in_buf := of_nat d\<rparr>\<rparr>"
  let ?bp' = "?bp\<lparr>pool := (pool ?bp)[b := ?buf], pool_next := (pool_next ?bp)(b := None),
      pool_head := pool_next ?bp b, bufs_allocated := (bufs_allocated ?bp)[d := ?n + 1]\<rparr>"
  have h: "pool_head ?bp = Some b" and b: "b < 16" "b \<notin> set fs" using I by (auto simp: stk_rep_def)
  have n: "unat ?n = card (taken ?bp (b # fs) d)" using I(6) [OF d] .
  have n1: "unat (?n + 1) = unat ?n + 1" using n lt by (simp add: unat_word_ariths(1))
  have dd: "unat (of_nat d :: 1 word) = d" using d by simp
  have other: "dir_of (pool ?bp' ! i) = (if i = b then d else dir_of (pool ?bp ! i))" for i
    using b I(1) dd by (auto simp: dir_of_def)
  have tk: "taken ?bp' fs e = (if e = d then insert b (taken ?bp (b # fs) d) else taken ?bp (b # fs) e)" for e
    using b unfolding taken_def other by (auto simp: ZB_IOBUF_POOL_SIZE_def)
  have "b \<notin> taken ?bp (b # fs) d" by (simp add: taken_def)
  then have cd: "card (taken ?bp' fs d) = unat (?n + 1)" using tk n n1 by simp
  have "stk_rep (pool_next ?bp') (pool_head ?bp') fs"
    using I(3) b by (auto simp: stk_rep_def)
  moreover have "unat (bufs_allocated ?bp' ! e) = card (taken ?bp' fs e) \<and> card (taken ?bp' fs e) \<le> 8" if "e < 2" for e
  proof (cases "e = d")
    case True
    with cd n n1 lt I(2) d show ?thesis by simp
  next
    case False
    with tk I(6,7) [OF that] show ?thesis by simp
  qed
  ultimately have inv': "bp_inv ?bp' fs"
    using I by (auto simp: bp_inv_def ZB_IOBUF_POOL_SIZE_def)
  have lim: "?n < 8" "?n + 1 \<le> 8"
    using n n1 lt by (simp_all add: word_less_nat_alt word_le_nat_alt)
  have run: "zb_get_buf d g = Some (Some b, g\<lparr>bpool := ?bp'\<rparr>)"
    using I(1,2) h b d lim by (simp add: zb_get_buf_def Let_def)
  show ?thesis
    by (intro exI [of _ ?bp'] conjI) (use run inv' tk [of d] b I(1) in auto)
qed

lemma get_buf_limit:
  assumes inv: "bp_inv (bpool g) fs" and d: "d < 2" and full: "card (taken (bpool g) fs d) = 8"
  shows "zb_get_buf d g = Some (None, g)"
proof -
  note I = bp_invD [OF inv]
  have n: "unat (bufs_allocated (bpool g) ! d) = 8" using I(6) [OF d] full by simp
  then have ne: "bufs_allocated (bpool g) ! d \<noteq> 0" "\<not> bufs_allocated (bpool g) ! d < 8"
    by (auto simp: word_less_nat_alt)
  have "d = 0 \<or> d = 1" using d by linarith
  with ne have "bufs_allocated (bpool g) ! 0 \<noteq> 0 \<or> bufs_allocated (bpool g) ! 1 \<noteq> 0" by auto
  with ne I(2) d show ?thesis by (auto simp: zb_get_buf_def Let_def)
qed

lemma free_to_pool_ok:
  assumes inv: "bp_inv (bpool g) fs" and b: "b < 16" "b \<notin> set fs"
  shows "\<exists>bp. free_to_pool b g = Some (g\<lparr>bpool := bp\<rparr>) \<and> bp_inv bp (b # fs) \<and> pool bp = pool (bpool g)
    \<and> card (taken bp (b # fs) (dir_of (pool (bpool g) ! b))) < 8"
proof -
  let ?bp = "bpool g"
  note I = bp_invD [OF inv]
  let ?d = "dir_of (pool ?bp ! b)"
  let ?n = "bufs_allocated ?bp ! ?d"
  let ?bp' = "?bp\<lparr>pool_next := (pool_next ?bp)(b := pool_head ?bp), pool_head := Some b,
      bufs_allocated := (bufs_allocated ?bp)[?d := ?n - 1]\<rparr>"
  have d: "?d < 2" by (rule dir_of_lt)
  have in_t: "b \<in> taken ?bp fs ?d" using b by (simp add: taken_def ZB_IOBUF_POOL_SIZE_def)
  then have pos: "0 < card (taken ?bp fs ?d)" by (auto simp: card_gt_0_iff)
  have n: "unat ?n = card (taken ?bp fs ?d)" using I(6) [OF d] .
  have n0: "0 < ?n" "?n \<noteq> 0" using n pos by (auto simp: word_less_nat_alt)
  have n1: "unat (?n - 1) = card (taken ?bp fs ?d) - 1"
    using n pos by (simp add: unat_sub_8)
  have tk: "taken ?bp' (b # fs) e = taken ?bp fs e - {b}" for e by (auto simp: taken_def)
  have same: "e \<noteq> ?d \<Longrightarrow> taken ?bp fs e - {b} = taken ?bp fs e" for e by (auto simp: taken_def)
  have "stk_rep (pool_next ?bp') (pool_head ?bp') (b # fs)"
    using I(3) b by (auto simp: stk_rep_def)
  moreover have "unat (bufs_allocated ?bp' ! e) = card (taken ?bp' (b # fs) e) \<and> card (taken ?bp' (b # fs) e) \<le> 8"
    if "e < 2" for e
  proof (cases "e = ?d")
    case True
    with n1 in_t I(2) I(7) [of e] that show ?thesis by (simp add: tk)
  next
    case False
    with same [OF False] I(6,7) [OF that] show ?thesis by (simp add: tk)
  qed
  ultimately have inv': "bp_inv ?bp' (b # fs)"
    using I b by (auto simp: bp_inv_def ZB_IOBUF_POOL_SIZE_def)
  have "d' < 2 \<Longrightarrow> d' = 0 \<or> d' = 1" for d' :: nat by linarith
  with d have "?d = 0 \<or> ?d = 1" by blast
  with n0 have nz: "bufs_allocated ?bp ! 0 \<noteq> 0 \<or> bufs_allocated ?bp ! 1 \<noteq> 0" by auto
  have "free_to_pool b g = Some (g\<lparr>bpool := ?bp'\<rparr>)"
    using I(1,2) b d n0 nz by (auto simp: free_to_pool_def Let_def dir_of_def [symmetric])
  moreover have "card (taken ?bp' (b # fs) ?d) < 8"
    using in_t pos I(7) [OF d] by (simp add: tk)
  ultimately show ?thesis using inv' by (intro exI [of _ ?bp']) simp
qed

lemma lseg_chain:
  "k < n \<Longrightarrow> (\<forall>i. k \<le> i \<longrightarrow> Suc i < n \<longrightarrow> nx i = Some (Suc i)) \<Longrightarrow> nx (n - 1) = None \<Longrightarrow>
   lseg nx (Some k) [k..<n] None"
proof (induction "n - k" arbitrary: k)
  case (Suc m)
  show ?case
  proof (cases "Suc k < n")
    case True
    with Suc.hyps(1) [of "Suc k"] Suc.hyps(2) Suc.prems have "lseg nx (Some (Suc k)) [Suc k..<n] None" by simp
    with Suc.prems True show ?thesis by (simp add: upt_conv_Cons)
  next
    case False
    then have "k = n - 1" using Suc.prems(1) by simp
    with Suc.prems show ?thesis by (simp add: upt_conv_Cons)
  qed
qed simp

lemma fold_chain: "fold (\<lambda>i nx. nx(i := Some (Suc i))) [0..<n] nx i = (if i < n then Some (Suc i) else nx i)"
  by (induction n) auto

lemma init_buffers_ok:
  assumes clear: "pool_head (bpool g) = None" "bufs_allocated (bpool g) = [0, 0]"
    and len: "length (pool (bpool g)) = ZB_IOBUF_POOL_SIZE"
  shows "bp_inv (bpool (zb_init_buffers g)) [0..<ZB_IOBUF_POOL_SIZE]"
    and "\<And>h. pool_head (bpool g) = None \<Longrightarrow> sched (zb_init_buffers g) = sched g"
proof -
  let ?nx = "(fold (\<lambda>i nx. nx(i := Some (Suc i))) [0..<ZB_IOBUF_POOL_SIZE - 1] (pool_next (bpool g)))
      (ZB_IOBUF_POOL_SIZE - 1 := None)"
  have init: "zb_init_buffers g = g\<lparr>bpool := (bpool g)\<lparr>pool_head := Some 0, pool_next := ?nx\<rparr>\<rparr>"
    using clear by (simp add: zb_init_buffers_def Let_def)
  have "lseg ?nx (Some 0) [0..<ZB_IOBUF_POOL_SIZE] None"
    by (rule lseg_chain) (auto simp: fold_chain ZB_IOBUF_POOL_SIZE_def simp del: upt_rec_numeral)
  moreover have "taken bp [0..<ZB_IOBUF_POOL_SIZE] d = {}" for bp d by (auto simp: taken_def)
  ultimately show "bp_inv (bpool (zb_init_buffers g)) [0..<ZB_IOBUF_POOL_SIZE]"
    using clear len by (auto simp: bp_inv_def init stk_rep_def less_2_cases_iff simp del: upt_rec_numeral)
  show "sched (zb_init_buffers g) = sched g" using init by simp
qed

section \<open>Callbacks that wait for a buffer\<close>

text \<open>\<open>ws\<close> and \<open>vs\<close> wait for an input and an output buffer, \<open>fr\<close> are the unused entries.\<close>

definition dq_rep :: "'cb zb_sched \<Rightarrow> nat list \<Rightarrow> nat list \<Rightarrow> nat list \<Rightarrow> bool" where
  "dq_rep s ws vs fr \<longleftrightarrow>
     sl_rep (buf_next s) (inbuf_head s) (inbuf_tail s) ws
     \<and> sl_rep (buf_next s) (outbuf_head s) (outbuf_tail s) vs
     \<and> stk_rep (buf_next s) (buf_freelist s) fr
     \<and> set ws \<inter> set vs = {} \<and> set ws \<inter> set fr = {} \<and> set vs \<inter> set fr = {}
     \<and> set ws \<union> set vs \<union> set fr = {..<ZB_BUF_Q_SIZE} \<and> length (delayed_buf s) = ZB_BUF_Q_SIZE"

lemma sl_rep_cong: "sl_rep nx h t xs \<Longrightarrow> (\<And>p. p \<in> set xs \<Longrightarrow> nx' p = nx p) \<Longrightarrow> sl_rep nx' h t xs"
  unfolding sl_rep_def using lseg_cong [of xs nx nx' h None] by metis

lemma sl_rep_upd: "p \<notin> set xs \<Longrightarrow> sl_rep nx h t xs \<Longrightarrow> sl_rep (nx(p := v)) h t xs"
  by (erule sl_rep_cong) auto

lemma wake_in:
  assumes "dq_rep s (q # ws) vs fr"
  shows "\<exists>h t. ZB_SL_LIST_CUT_HEAD (buf_next s) (inbuf_head s) (inbuf_tail s) = (h, t, Some q)
    \<and> dq_rep (s\<lparr>inbuf_head := h, inbuf_tail := t, cb_q := cq, buf_next := (buf_next s)(q := buf_freelist s),
               buf_freelist := Some q\<rparr>) ws vs (q # fr)
    \<and> q < length (delayed_buf s)"
proof -
  from assms have r: "sl_rep (buf_next s) (inbuf_head s) (inbuf_tail s) (q # ws)"
    and d: "q \<notin> set vs" "q \<notin> set fr" "q \<notin> set ws" and l: "q < ZB_BUF_Q_SIZE"
    by (auto simp: dq_rep_def sl_rep_def)
  obtain h t where c: "ZB_SL_LIST_CUT_HEAD (buf_next s) (inbuf_head s) (inbuf_tail s) = (h, t, Some q)"
    and w: "sl_rep (buf_next s) h t ws"
    using sl_cut_head [OF r] by (auto split: prod.splits)
  have "stk_rep ((buf_next s)(q := buf_freelist s)) (Some q) (q # fr)"
    using assms d stk.push_rep [of "buf_next s" "buf_freelist s" fr q] by (simp add: dq_rep_def ZB_STK_PUSH_def)
  with assms w d c l show ?thesis
    by (intro exI [of _ h] exI [of _ t]) (auto simp: dq_rep_def sl_rep_upd)
qed

lemma wake_out:
  assumes "dq_rep s ws (q # vs) fr"
  shows "\<exists>h t. ZB_SL_LIST_CUT_HEAD (buf_next s) (outbuf_head s) (outbuf_tail s) = (h, t, Some q)
    \<and> dq_rep (s\<lparr>outbuf_head := h, outbuf_tail := t, cb_q := cq, buf_next := (buf_next s)(q := buf_freelist s),
               buf_freelist := Some q\<rparr>) ws vs (q # fr)
    \<and> q < length (delayed_buf s)"
proof -
  from assms have r: "sl_rep (buf_next s) (outbuf_head s) (outbuf_tail s) (q # vs)"
    and d: "q \<notin> set vs" "q \<notin> set fr" "q \<notin> set ws" and l: "q < ZB_BUF_Q_SIZE"
    by (auto simp: dq_rep_def sl_rep_def)
  obtain h t where c: "ZB_SL_LIST_CUT_HEAD (buf_next s) (outbuf_head s) (outbuf_tail s) = (h, t, Some q)"
    and w: "sl_rep (buf_next s) h t vs"
    using sl_cut_head [OF r] by (auto split: prod.splits)
  have "stk_rep ((buf_next s)(q := buf_freelist s)) (Some q) (q # fr)"
    using assms d stk.push_rep [of "buf_next s" "buf_freelist s" fr q] by (simp add: dq_rep_def ZB_STK_PUSH_def)
  with assms w d c l show ?thesis
    by (intro exI [of _ h] exI [of _ t]) (auto simp: dq_rep_def sl_rep_upd)
qed

lemma is_in_dir: "is_in_buf (hdr b) \<noteq> 0 \<longleftrightarrow> dir_of b = 1" "is_in_buf (hdr b) = 0 \<longleftrightarrow> dir_of b = 0"
proof -
  have "is_in_buf (hdr b) = 0 \<longleftrightarrow> dir_of b = 0" by (simp add: dir_of_def unat_eq_zero)
  then show "is_in_buf (hdr b) \<noteq> 0 \<longleftrightarrow> dir_of b = 1" "is_in_buf (hdr b) = 0 \<longleftrightarrow> dir_of b = 0"
    using dir_of_lt [of b] by linarith+
qed

text \<open>Freed buffer, no waiter: the buffer is free again.\<close>

lemma free_buf_idle:
  assumes inv: "bp_inv (bpool g) fs" and b: "b < 16" "b \<notin> set fs" and dq: "dq_rep (sched g) ws vs fr"
    and no: "if dir_of (pool (bpool g) ! b) = 1 then rx_need_buf g \<noteq> 0 \<or> ws = [] else vs = []"
  shows "\<exists>bp. zb_free_buf b g = Some (g\<lparr>bpool := bp\<rparr>) \<and> bp_inv bp (b # fs) \<and> pool bp = pool (bpool g)"
proof -
  obtain bp where f: "free_to_pool b g = Some (g\<lparr>bpool := bp\<rparr>)" and bp: "bp_inv bp (b # fs)"
      and pl: "pool bp = pool (bpool g)"
    using free_to_pool_ok [OF inv b] by blast
  have lb: "b < length (pool bp)" using bp_invD(1) [OF bp] b by simp
  have e: "sl_rep nx h t [] \<Longrightarrow> ZB_SL_LIST_CUT_HEAD nx h t = (h, t, None)" for nx h and t :: "nat option"
    by (simp add: sl_rep_def ZB_SL_LIST_CUT_HEAD_def)
  have "zb_free_buf b g = Some (g\<lparr>bpool := bp\<rparr>)"
  proof (cases "dir_of (pool (bpool g) ! b) = 1")
    case True
    with no dq have "rx_need_buf g = 0 \<Longrightarrow> sl_rep (buf_next (sched g)) (inbuf_head (sched g)) (inbuf_tail (sched g)) []"
      by (auto simp: dq_rep_def)
    with f lb True e pl show ?thesis
      by (cases "rx_need_buf g = 0") (simp_all add: zb_free_buf_def Let_def is_in_dir)
  next
    case False
    with no dq have "sl_rep (buf_next (sched g)) (outbuf_head (sched g)) (outbuf_tail (sched g)) []"
      by (auto simp: dq_rep_def)
    moreover have "dir_of (pool (bpool g) ! b) = 0" using False dir_of_lt [of "pool (bpool g) ! b"] by linarith
    ultimately show ?thesis
      using f lb e pl by (simp add: zb_free_buf_def Let_def is_in_dir)
  qed
  with bp pl show ?thesis by blast
qed

lemma hand_over_ok:
  assumes inv: "bp_inv (bpool g) (b # fs)" and d: "d < 2" and lt: "card (taken (bpool g) (b # fs) d) < 8"
    and q: "q < length (delayed_buf s)" and rb: "rb_inv (cb_q s)"
  shows "\<exists>bp cq. hand_over s q d g = Some (g\<lparr>bpool := bp, sched := s\<lparr>cb_q := cq,
      buf_next := (buf_next s)(q := buf_freelist s), buf_freelist := Some q\<rparr>\<rparr>)
    \<and> bp_inv bp fs \<and> rb_inv cq \<and> hdr (pool bp ! b) = hdr_zero\<lparr>is_in_buf := of_nat d\<rparr>
    \<and> rb_contents cq = (if ZB_RING_BUFFER_IS_FULL (cb_q s) then rb_contents (cb_q s)
        else rb_contents (cb_q s) @ [\<lparr>func = delayed_buf s ! q, param = of_nat b\<rparr>])"
proof -
  have b: "b < 16" using bp_invD(4) [OF inv] by simp
  obtain bp where g: "zb_get_buf d (g\<lparr>sched := s\<rparr>) = Some (Some b, (g\<lparr>sched := s\<rparr>)\<lparr>bpool := bp\<rparr>)"
      and bp: "bp_inv bp fs" "hdr (pool bp ! b) = hdr_zero\<lparr>is_in_buf := of_nat d\<rparr>"
    using get_buf_ok [of "g\<lparr>sched := s\<rparr>" b fs d] inv d lt by auto
  let ?g = "(g\<lparr>sched := s\<rparr>)\<lparr>bpool := bp\<rparr>"
  have sg: "sched ?g = s" by simp
  have p: "unat (of_nat b :: u8) \<le> ZB_IOBUF_POOL_SIZE" using b by (simp add: ZB_IOBUF_POOL_SIZE_def)
  show ?thesis
  proof (cases "ZB_RING_BUFFER_IS_FULL (cb_q s)")
    case True
    then have "zb_schedule_callback (delayed_buf s ! q) (of_nat b) ?g = Some (RET_OVERFLOW, ?g)"
      by (intro schedule_callback_full) simp
    with True g q bp rb show ?thesis
      by (intro exI [of _ bp] exI [of _ "cb_q s"]) (simp add: hand_over_def ZB_STK_PUSH_def Let_def)
  next
    case False
    obtain cq where "zb_schedule_callback (delayed_buf s ! q) (of_nat b) ?g
        = Some (RET_OK, ?g\<lparr>sched := (sched ?g)\<lparr>cb_q := cq\<rparr>\<rparr>)"
      "rb_inv cq" "rb_contents cq = rb_contents (cb_q s) @ [\<lparr>func = delayed_buf s ! q, param = of_nat b\<rparr>]"
      using schedule_callback_ok [of ?g "of_nat b" "delayed_buf s ! q", unfolded sg, OF rb False p] by auto
    with False g q bp show ?thesis
      by (intro exI [of _ bp] exI [of _ cq]) (simp add: hand_over_def ZB_STK_PUSH_def Let_def)
  qed
qed

lemma free_buf_wakes_in:
  assumes inv: "bp_inv (bpool g) fs" and b: "b < 16" "b \<notin> set fs" and dq: "dq_rep (sched g) (q # ws) vs fr"
    and d: "dir_of (pool (bpool g) ! b) = 1" "rx_need_buf g = 0" and rb: "rb_inv (cb_q (sched g))"
  shows "\<exists>g'. zb_free_buf b g = Some g' \<and> bp_inv (bpool g') fs \<and> dq_rep (sched g') ws vs (q # fr)
    \<and> hdr (pool (bpool g') ! b) = hdr_zero\<lparr>is_in_buf := 1\<rparr>
    \<and> rb_inv (cb_q (sched g')) \<and> rb_contents (cb_q (sched g')) =
        (if ZB_RING_BUFFER_IS_FULL (cb_q (sched g)) then rb_contents (cb_q (sched g))
         else rb_contents (cb_q (sched g)) @ [\<lparr>func = delayed_buf (sched g) ! q, param = of_nat b\<rparr>])"
proof -
  let ?s = "sched g"
  obtain bp where f: "free_to_pool b g = Some (g\<lparr>bpool := bp\<rparr>)" and bp: "bp_inv bp (b # fs)"
      and pl: "pool bp = pool (bpool g)" and lt: "card (taken bp (b # fs) 1) < 8"
    using free_to_pool_ok [OF inv b] d by auto
  obtain h t where c: "ZB_SL_LIST_CUT_HEAD (buf_next ?s) (inbuf_head ?s) (inbuf_tail ?s) = (h, t, Some q)"
    using wake_in [OF dq] by blast
  let ?s1 = "?s\<lparr>inbuf_head := h, inbuf_tail := t\<rparr>"
  have dq': "dq_rep (?s1\<lparr>cb_q := cq, buf_next := (buf_next ?s)(q := buf_freelist ?s), buf_freelist := Some q\<rparr>) ws vs (q # fr)"
    and q: "q < length (delayed_buf ?s1)" for cq
    using wake_in [OF dq, of cq] c by auto
  obtain bp' cq where ho: "hand_over ?s1 q 1 (g\<lparr>bpool := bp\<rparr>) = Some (g\<lparr>bpool := bp', sched := ?s1\<lparr>cb_q := cq,
      buf_next := (buf_next ?s)(q := buf_freelist ?s), buf_freelist := Some q\<rparr>\<rparr>)"
    and r: "bp_inv bp' fs" "rb_inv cq" "hdr (pool bp' ! b) = hdr_zero\<lparr>is_in_buf := 1\<rparr>" "rb_contents cq = (if ZB_RING_BUFFER_IS_FULL (cb_q ?s) then rb_contents (cb_q ?s)
        else rb_contents (cb_q ?s) @ [\<lparr>func = delayed_buf ?s ! q, param = of_nat b\<rparr>])"
    using hand_over_ok [of "g\<lparr>bpool := bp\<rparr>" b fs 1 q ?s1] bp lt q rb by auto
  have lb: "b < length (pool bp)" using bp_invD(1) [OF bp] b by simp
  have dd: "unat (is_in_buf (hdr (pool bp ! b))) = 1" using d pl by (simp add: dir_of_def)
  have "zb_free_buf b g = hand_over ?s1 q 1 (g\<lparr>bpool := bp\<rparr>)"
    using f lb pl d c dd by (simp add: zb_free_buf_def Let_def is_in_dir)
  with ho r dq' [of cq] show ?thesis
    by (intro exI [of _ "g\<lparr>bpool := bp', sched := ?s1\<lparr>cb_q := cq,
      buf_next := (buf_next ?s)(q := buf_freelist ?s), buf_freelist := Some q\<rparr>\<rparr>"]) simp
qed

lemma free_buf_wakes_out:
  assumes inv: "bp_inv (bpool g) fs" and b: "b < 16" "b \<notin> set fs" and dq: "dq_rep (sched g) ws (q # vs) fr"
    and d: "dir_of (pool (bpool g) ! b) = 0" and rb: "rb_inv (cb_q (sched g))"
  shows "\<exists>g'. zb_free_buf b g = Some g' \<and> bp_inv (bpool g') fs \<and> dq_rep (sched g') ws vs (q # fr)
    \<and> hdr (pool (bpool g') ! b) = hdr_zero\<lparr>is_in_buf := 0\<rparr>
    \<and> rb_inv (cb_q (sched g')) \<and> rb_contents (cb_q (sched g')) =
        (if ZB_RING_BUFFER_IS_FULL (cb_q (sched g)) then rb_contents (cb_q (sched g))
         else rb_contents (cb_q (sched g)) @ [\<lparr>func = delayed_buf (sched g) ! q, param = of_nat b\<rparr>])"
proof -
  let ?s = "sched g"
  obtain bp where f: "free_to_pool b g = Some (g\<lparr>bpool := bp\<rparr>)" and bp: "bp_inv bp (b # fs)"
      and pl: "pool bp = pool (bpool g)" and lt: "card (taken bp (b # fs) 0) < 8"
    using free_to_pool_ok [OF inv b] d by auto
  obtain h t where c: "ZB_SL_LIST_CUT_HEAD (buf_next ?s) (outbuf_head ?s) (outbuf_tail ?s) = (h, t, Some q)"
    using wake_out [OF dq] by blast
  let ?s1 = "?s\<lparr>outbuf_head := h, outbuf_tail := t\<rparr>"
  have dq': "dq_rep (?s1\<lparr>cb_q := cq, buf_next := (buf_next ?s)(q := buf_freelist ?s), buf_freelist := Some q\<rparr>) ws vs (q # fr)"
    and q: "q < length (delayed_buf ?s1)" for cq
    using wake_out [OF dq, of cq] c by auto
  obtain bp' cq where ho: "hand_over ?s1 q 0 (g\<lparr>bpool := bp\<rparr>) = Some (g\<lparr>bpool := bp', sched := ?s1\<lparr>cb_q := cq,
      buf_next := (buf_next ?s)(q := buf_freelist ?s), buf_freelist := Some q\<rparr>\<rparr>)"
    and r: "bp_inv bp' fs" "rb_inv cq" "hdr (pool bp' ! b) = hdr_zero\<lparr>is_in_buf := 0\<rparr>" "rb_contents cq = (if ZB_RING_BUFFER_IS_FULL (cb_q ?s) then rb_contents (cb_q ?s)
        else rb_contents (cb_q ?s) @ [\<lparr>func = delayed_buf ?s ! q, param = of_nat b\<rparr>])"
    using hand_over_ok [of "g\<lparr>bpool := bp\<rparr>" b fs 0 q ?s1] bp lt q rb by auto
  have lb: "b < length (pool bp)" using bp_invD(1) [OF bp] b by simp
  have dd: "unat (is_in_buf (hdr (pool bp ! b))) = 0" using d pl by (simp add: dir_of_def)
  have "zb_free_buf b g = hand_over ?s1 q 0 (g\<lparr>bpool := bp\<rparr>)"
    using f lb pl d c dd by (simp add: zb_free_buf_def Let_def is_in_dir)
  with ho r dq' [of cq] show ?thesis
    by (intro exI [of _ "g\<lparr>bpool := bp', sched := ?s1\<lparr>cb_q := cq,
      buf_next := (buf_next ?s)(q := buf_freelist ?s), buf_freelist := Some q\<rparr>\<rparr>"]) simp
qed

lemma is_in_of_dir: "dir_of b = d \<Longrightarrow> is_in_buf (hdr b) = of_nat d"
  by (auto simp: dir_of_def)

lemma free_buf_spec:
  assumes inv: "bp_inv (bpool g) fs" and b: "b < 16" "b \<notin> set fs" and dq: "dq_rep (sched g) ws vs fr"
    and rb: "rb_inv (cb_q (sched g))"
  shows "case (if dir_of (pool (bpool g) ! b) = 0 then vs else if rx_need_buf g = 0 then ws else []) of
      [] \<Rightarrow> \<exists>bp. zb_free_buf b g = Some (g\<lparr>bpool := bp\<rparr>) \<and> bp_inv bp (b # fs) \<and> pool bp = pool (bpool g)
    | q # rest \<Rightarrow> \<exists>g'. zb_free_buf b g = Some g' \<and> bp_inv (bpool g') fs
        \<and> hdr (pool (bpool g') ! b) = hdr_zero\<lparr>is_in_buf := is_in_buf (hdr (pool (bpool g) ! b))\<rparr>
        \<and> (if dir_of (pool (bpool g) ! b) = 0 then dq_rep (sched g') ws rest (q # fr) else dq_rep (sched g') rest vs (q # fr))
        \<and> rb_contents (cb_q (sched g')) =
            (if ZB_RING_BUFFER_IS_FULL (cb_q (sched g)) then rb_contents (cb_q (sched g))
             else rb_contents (cb_q (sched g)) @ [\<lparr>func = delayed_buf (sched g) ! q, param = of_nat b\<rparr>])"
proof -
  let ?w = "if dir_of (pool (bpool g) ! b) = 0 then vs else if rx_need_buf g = 0 then ws else []"
  have d1: "dir_of (pool (bpool g) ! b) \<noteq> 0 \<Longrightarrow> dir_of (pool (bpool g) ! b) = 1"
    using dir_of_lt [of "pool (bpool g) ! b"] by linarith
  show ?thesis
  proof (cases ?w)
    case Nil
    with d1 have "if dir_of (pool (bpool g) ! b) = 1 then rx_need_buf g \<noteq> 0 \<or> ws = [] else vs = []"
      by (auto split: if_split_asm)
    from free_buf_idle [OF inv b dq this] Nil show ?thesis by simp
  next
    case (Cons q rest)
    show ?thesis
    proof (cases "dir_of (pool (bpool g) ! b) = 0")
      case True
      with Cons free_buf_wakes_out [OF inv b, of ws q rest fr] dq rb is_in_of_dir [OF True] show ?thesis by auto
    next
      case False
      with Cons have w: "rx_need_buf g = 0" "ws = q # rest" by (auto split: if_split_asm)
      from free_buf_wakes_in [OF inv b _ d1 [OF False] w(1) rb, of q rest vs fr] dq w is_in_of_dir [OF d1 [OF False]] False
      show ?thesis by auto
    qed
  qed
qed

text \<open>
  What the main loop relies on when a callback frees a buffer: the call returns, at most one callback is put at the end of the
  queue, and the alarms and the clock are left alone.
\<close>

definition same_alarms :: "('cb, 'w) zb_g_scheme \<Rightarrow> ('cb, 'v) zb_g_scheme \<Rightarrow> bool" where
  "same_alarms g g' \<longleftrightarrow> time g' = time g \<and> tm_buffer (sched g') = tm_buffer (sched g) \<and> tm_links (sched g') = tm_links (sched g)
     \<and> tm_queue (sched g') = tm_queue (sched g) \<and> tm_freelist (sched g') = tm_freelist (sched g)"

lemma schedule_callback_alarms: "zb_schedule_callback f p g = Some (r, g') \<Longrightarrow> same_alarms g g'"
  by (auto simp: same_alarms_def zb_schedule_callback_def bind_eq_Some_conv split: option.splits)

lemma get_buf_alarms:
  assumes "zb_get_buf d g = Some (r, g')"
  shows "same_alarms g g'"
proof -
  from assms have "g' = g \<or> (\<exists>bp. g' = g\<lparr>bpool := bp\<rparr>)"
    unfolding zb_get_buf_def Let_def
    by (elim bind_eq_Some_conv [THEN iffD1, elim_format] exE conjE)
      (auto simp: bind_eq_Some_conv split: option.split_asm if_split_asm)
  then show ?thesis by (auto simp: same_alarms_def)
qed

lemma hand_over_alarms:
  assumes "hand_over s q d g = Some g'"
  shows "same_alarms (g\<lparr>sched := s\<rparr>) g'"
proof -
  from assms obtain cb r g1 i ret g2 where "zb_get_buf d (g\<lparr>sched := s\<rparr>) = Some (r, g1)" "zb_schedule_callback cb i g1 = Some (ret, g2)"
      "same_alarms g2 g'"
    by (auto simp: hand_over_def bind_eq_Some_conv same_alarms_def ZB_STK_PUSH_def)
  with get_buf_alarms schedule_callback_alarms show ?thesis unfolding same_alarms_def by metis
qed

lemma free_to_pool_form: "free_to_pool b g = Some g1 \<Longrightarrow> \<exists>bp. g1 = g\<lparr>bpool := bp\<rparr>"
  by (auto simp: free_to_pool_def Let_def bind_eq_Some_conv)

lemma free_buf_alarms:
  assumes "zb_free_buf b g = Some g'"
  shows "same_alarms g g'"
proof -
  obtain bp where f: "free_to_pool b g = Some (g\<lparr>bpool := bp\<rparr>)"
    using assms free_to_pool_form by (fastforce simp: zb_free_buf_def bind_eq_Some_conv)
  obtain h1 t1 e1 where c1: "ZB_SL_LIST_CUT_HEAD (buf_next (sched g)) (inbuf_head (sched g)) (inbuf_tail (sched g)) = (h1, t1, e1)"
    by (metis prod.collapse)
  obtain h2 t2 e2 where c2: "ZB_SL_LIST_CUT_HEAD (buf_next (sched g)) (outbuf_head (sched g)) (outbuf_tail (sched g)) = (h2, t2, e2)"
    by (metis prod.collapse)
  define P where "P s \<longleftrightarrow> g' = g\<lparr>bpool := bp, sched := s\<rparr> \<or> (\<exists>e d. hand_over s e d (g\<lparr>bpool := bp\<rparr>) = Some g')" for s
  have "P (sched g) \<or> P ((sched g)\<lparr>inbuf_head := h1, inbuf_tail := t1\<rparr>) \<or> P ((sched g)\<lparr>outbuf_head := h2, outbuf_tail := t2\<rparr>)"
    using assms unfolding zb_free_buf_def f
    by (auto simp: Let_def c1 c2 P_def bind_eq_Some_conv split: if_split_asm option.split_asm)
  then obtain s where "P s" and s: "same_alarms g (g\<lparr>bpool := bp, sched := s\<rparr>)" by (fastforce simp: same_alarms_def)
  then show ?thesis
    using hand_over_alarms [of s _ _ "g\<lparr>bpool := bp\<rparr>" g'] by (auto simp: P_def same_alarms_def)
qed

lemma free_buf_in_loop:
  assumes inv: "bp_inv (bpool g) fs" and b: "b < 16" "b \<notin> set fs" and dq: "dq_rep (sched g) ws vs fr" and q: "queues_ok F xs g"
  shows "\<exists>g' new. zb_free_buf b g = Some g' \<and> queues_ok F xs g' \<and> alarms (sched g') xs = alarms (sched g) xs
    \<and> time g' = time g \<and> queued g' = queued g @ new \<and> length new \<le> 1"
proof -
  have rb: "rb_inv (cb_q (sched g))" using q by (simp add: queues_ok_def)
  obtain g' new where g': "zb_free_buf b g = Some g'" "rb_inv (cb_q (sched g'))" "queued g' = queued g @ new" "length new \<le> 1"
  proof -
    consider "dir_of (pool (bpool g) ! b) = 0" | "dir_of (pool (bpool g) ! b) = 1"
      using dir_of_lt [of "pool (bpool g) ! b"] by linarith
    then show ?thesis
    proof cases
      case 1
      show ?thesis
      proof (cases vs)
        case Nil
        with 1 obtain bp where "zb_free_buf b g = Some (g\<lparr>bpool := bp\<rparr>)" using free_buf_idle [OF inv b dq] by auto
        with rb that [of _ "[]"] show ?thesis by simp
      next
        case (Cons q rest)
        from free_buf_wakes_out [OF inv b dq [unfolded Cons] 1 rb] that show ?thesis by (auto split: if_split_asm)
      qed
    next
      case 2
      show ?thesis
      proof (cases "rx_need_buf g \<noteq> 0 \<or> ws = []")
        case True
        with 2 obtain bp where "zb_free_buf b g = Some (g\<lparr>bpool := bp\<rparr>)" using free_buf_idle [OF inv b dq] by auto
        with rb that [of _ "[]"] show ?thesis by simp
      next
        case False
        then obtain q rest where w: "ws = q # rest" "rx_need_buf g = 0" by (cases ws) auto
        from free_buf_wakes_in [OF inv b dq [unfolded w(1)] 2 w(2) rb] that show ?thesis by (auto split: if_split_asm)
      qed
    qed
  qed
  note k = free_buf_alarms [OF g'(1), unfolded same_alarms_def]
  have "queues_ok F xs g'" using q g'(2) k by (simp add: queues_ok_def tm_rep_def)
  moreover have "alarms (sched g') xs = alarms (sched g) xs" using k by (simp add: alarms_def)
  ultimately show ?thesis using g' k by blast
qed

text \<open>Waiting: at the limit of its direction a callback is put at the end of that direction's queue.\<close>

lemma get_delayed_waits:
  assumes lim: "zb_get_buf 1 g = Some (None, g)" and dq: "dq_rep (sched g) ws vs (e # fr)"
  shows "\<exists>s. zb_get_in_buf_delayed cb g = Some (RET_OK, g\<lparr>sched := s\<rparr>) \<and> dq_rep s (ws @ [e]) vs fr
    \<and> delayed_buf s = (delayed_buf (sched g))[e := cb]"
proof -
  let ?s = "sched g"
  have d: "e \<notin> set ws" "e \<notin> set vs" "e \<notin> set fr" and l: "e < length (delayed_buf ?s)"
    using dq by (auto simp: dq_rep_def stk_rep_def)
  obtain fl p where pop: "ZB_STK_POP (buf_next ?s) (buf_freelist ?s) = (fl, p)" by fastforce
  have fl: "p = Some e" "stk_rep (buf_next ?s) fl fr"
    using dq stk.pop_rep [OF _ pop, of e fr] by (auto simp: dq_rep_def)
  obtain nx h t where ins: "ZB_SL_LIST_INSERT_TAIL (buf_next ?s) (inbuf_head ?s) (inbuf_tail ?s) e = (nx, h, t)"
    by (metis prod_cases3)
  have w: "sl_rep nx h t (ws @ [e])" and fr: "\<forall>p. p \<noteq> e \<longrightarrow> p \<notin> set ws \<longrightarrow> nx p = buf_next ?s p"
    using sl_insert_tail [of "buf_next ?s" "inbuf_head ?s" "inbuf_tail ?s" ws e] dq d ins by (auto simp: dq_rep_def)
  let ?s' = "?s\<lparr>buf_freelist := fl, delayed_buf := (delayed_buf ?s)[e := cb], buf_next := nx,
      inbuf_head := h, inbuf_tail := t\<rparr>"
  have "zb_get_in_buf_delayed cb g = Some (RET_OK, g\<lparr>sched := ?s'\<rparr>)"
    using lim pop fl l ins by (simp add: zb_get_in_buf_delayed_def zb_get_buf_delayed_def Let_def)
  moreover have "sl_rep nx (outbuf_head ?s) (outbuf_tail ?s) vs"
    by (rule sl_rep_cong [of "buf_next ?s"]) (use dq fr d in \<open>auto simp: dq_rep_def\<close>)
  moreover have "stk_rep nx fl fr"
    by (rule stk_rep_cong [OF fl(2)]) (use dq fr d in \<open>auto simp: dq_rep_def\<close>)
  ultimately show ?thesis
    using w dq d by (intro exI [of _ ?s']) (auto simp: dq_rep_def)
qed

section \<open>Properties\<close>

text \<open>
  Concrete states: the buffers after \<^verbatim>\<open>zb_init_buffers\<close>, and a scheduler with one callback,
  at the entry 15, waiting for an input buffer.
\<close>

definition bufs_init :: "nat bp_g" where
  "bufs_init = zb_init_buffers
     \<lparr>sched = sched sched_cleared, time = time sched_cleared,
      bpool = \<lparr>pool = replicate ZB_IOBUF_POOL_SIZE \<lparr>hdr = hdr_zero, data_buf = replicate ZB_IO_BUF_SIZE 0\<rparr>,
               pool_next = \<lambda>_. None, pool_head = None, bufs_allocated = [0, 0]\<rparr>,
      rx_need_buf = 0\<rparr>"

definition sched_one_waiting :: "nat zb_sched" where
  "sched_one_waiting = (sched sched_cleared)
     \<lparr>delayed_buf := (replicate 15 0) @ [77],
      buf_next := (\<lambda>i. if i = 15 \<or> i = 0 then None else Some (i - 1)),
      inbuf_head := Some 15, inbuf_tail := Some 15, buf_freelist := Some 14\<rparr>"

lemma bufs_init_inv: "bp_inv (bpool bufs_init) [0..<ZB_IOBUF_POOL_SIZE]" "sched bufs_init = sched sched_cleared"
  unfolding bufs_init_def by (intro init_buffers_ok; simp)
    (subst init_buffers_ok(2); simp)

lemma one_waiting: "dq_rep sched_one_waiting [15] [] [14, 13, 12, 11, 10, 9, 8, 7, 6, 5, 4, 3, 2, 1, 0]"
proof -
  have "rev [0..<16] = [15, 14, 13, 12, 11, 10, 9, 8, 7, 6, 5, 4, 3, 2, 1, 0]" by code_simp
  then have "set (rev [0..<16]) = {15, 14, 13, 12, 11, 10, 9, 8, 7, 6, 5, 4, 3, 2, 1, 0}" by (simp only: list.set)
  then have "{..<16} = {15, 14, 13, 12, 11, 10, 9, 8, 7, 6, 5, 4, 3, 2, 1, 0 :: nat}"
    by (simp only: set_rev set_upt atLeast0LessThan)
  then show ?thesis
    by (auto simp: dq_rep_def sched_one_waiting_def sched_cleared_def sl_rep_def stk_rep_def ZB_BUF_Q_SIZE_def)
qed

text \<open>
  A request for a buffer succeeds exactly while its direction holds fewer than eight: then
  it hands out a buffer that nobody holds, with a cleared header that records the direction;
  otherwise it returns null and changes nothing. The pool never runs dry below the limits.
\<close>

theorem get_buf_half_pool:
  assumes "bp_inv (bpool g) fs" and "d < 2"
  shows "if card (taken (bpool g) fs d) < 8
    then \<exists>b fs' bp. fs = b # fs' \<and> zb_get_buf d g = Some (Some b, g\<lparr>bpool := bp\<rparr>) \<and> bp_inv bp fs'
      \<and> taken bp fs' d = insert b (taken (bpool g) fs d) \<and> b \<notin> taken (bpool g) fs d
      \<and> hdr (pool bp ! b) = hdr_zero\<lparr>is_in_buf := of_nat d\<rparr>
    else zb_get_buf d g = Some (None, g)"
proof (cases "card (taken (bpool g) fs d) < 8")
  case True
  then obtain b fs' where fs: "fs = b # fs'" using free_nonempty [OF assms] by (cases fs) auto
  moreover have "b \<notin> taken (bpool g) fs d" unfolding fs by (simp add: taken_def)
  ultimately show ?thesis using get_buf_ok [of g b fs' d] assms True by auto
next
  case False
  then have "card (taken (bpool g) fs d) = 8" using bp_invD(7) [OF assms] by simp
  with get_buf_limit [OF assms] show ?thesis by simp
qed

theorem get_buf_half_pool_witness:
  "\<exists>bp. zb_get_buf 1 bufs_init = Some (Some 0, bufs_init\<lparr>bpool := bp\<rparr>) \<and> bp_inv bp [1..<16]
    \<and> hdr (pool bp ! 0) = hdr_zero\<lparr>is_in_buf := 1\<rparr>"
proof -
  have "taken (bpool bufs_init) [0..<ZB_IOBUF_POOL_SIZE] 1 = {}" by (auto simp: taken_def)
  moreover have "[0..<ZB_IOBUF_POOL_SIZE] = 0 # [1..<16]" by (simp add: ZB_IOBUF_POOL_SIZE_def upt_conv_Cons)
  ultimately show ?thesis using get_buf_half_pool [OF bufs_init_inv(1), of 1] by fastforce
qed

text \<open>
  C31. Freeing a buffer that is taken. It is handed over to the first callback that waits for its direction:
  an output buffer to the first waiter for an output buffer, an input buffer to the first waiter for an input
  buffer, unless the MAC itself needs the next one (\<^verbatim>\<open>rx_need_buf\<close>). The waiter is put at the end of the
  callback queue with that very buffer, which is taken again in its direction with a cleared header, and the entry
  of the waiter is free again; the other direction keeps its waiters. Only when the callback queue is
  full the waiter is dropped. Without a waiter, or with \<^verbatim>\<open>rx_need_buf\<close> set, the buffer is free and nothing is
  scheduled.
\<close>

theorem free_buf_serves_first_waiter:
  assumes "bp_inv (bpool g) fs" and "b < 16" and "b \<notin> set fs" and "dq_rep (sched g) ws vs fr" and "rb_inv (cb_q (sched g))"
  shows "case (if dir_of (pool (bpool g) ! b) = 0 then vs else if rx_need_buf g = 0 then ws else []) of
      [] \<Rightarrow> \<exists>bp. zb_free_buf b g = Some (g\<lparr>bpool := bp\<rparr>) \<and> bp_inv bp (b # fs) \<and> pool bp = pool (bpool g)
    | q # rest \<Rightarrow> \<exists>g'. zb_free_buf b g = Some g' \<and> bp_inv (bpool g') fs
        \<and> hdr (pool (bpool g') ! b) = hdr_zero\<lparr>is_in_buf := is_in_buf (hdr (pool (bpool g) ! b))\<rparr>
        \<and> (if dir_of (pool (bpool g) ! b) = 0 then dq_rep (sched g') ws rest (q # fr) else dq_rep (sched g') rest vs (q # fr))
        \<and> rb_contents (cb_q (sched g')) =
            (if ZB_RING_BUFFER_IS_FULL (cb_q (sched g)) then rb_contents (cb_q (sched g))
             else rb_contents (cb_q (sched g)) @ [\<lparr>func = delayed_buf (sched g) ! q, param = of_nat b\<rparr>])"
  using assms by (rule free_buf_spec)

lemma one_taken:
  "\<exists>bp. bp_inv bp [1..<16] \<and> dir_of (pool bp ! 0) = 1"
proof -
  have "taken (bpool bufs_init) [0..<ZB_IOBUF_POOL_SIZE] 1 = {}" by (auto simp: taken_def)
  moreover have "[0..<ZB_IOBUF_POOL_SIZE] = 0 # [1..<16]" by (simp add: ZB_IOBUF_POOL_SIZE_def upt_conv_Cons)
  ultimately have "\<exists>bp. bp_inv bp [1..<16] \<and> hdr (pool bp ! 0) = hdr_zero\<lparr>is_in_buf := of_nat 1\<rparr>"
    using get_buf_ok [of bufs_init 0 "[1..<16]" 1] bufs_init_inv(1) by auto
  then show ?thesis by (auto simp: dir_of_def)
qed

lemma waiting_cb_q:
  "rb_inv (cb_q sched_one_waiting)" "\<not> ZB_RING_BUFFER_IS_FULL (cb_q sched_one_waiting)"
  "rb_contents (cb_q sched_one_waiting) = []" "delayed_buf sched_one_waiting ! 15 = 77"
  by (simp_all add: sched_one_waiting_def sched_cleared_def rb_inv_def ZB_SCHEDULER_Q_SIZE_def rb_contents_def
      ZB_RING_BUFFER_IS_FULL_def ZB_RING_BUFFER_CAPACITY_def nth_append)

theorem free_buf_serves_first_waiter_witness:
  "\<exists>g g' h'. dq_rep (sched g) [15] [] [14, 13, 12, 11, 10, 9, 8, 7, 6, 5, 4, 3, 2, 1, 0]
    \<and> zb_free_buf 0 g = Some (g' :: nat bp_g) \<and> rb_contents (cb_q (sched g')) = [\<lparr>func = 77, param = 0\<rparr>]
    \<and> zb_free_buf 0 (g\<lparr>rx_need_buf := 1\<rparr>) = Some h' \<and> sched h' = sched g"
proof -
  obtain bp where bp: "bp_inv bp [1..<16]" "dir_of (pool bp ! 0) = 1" using one_taken by blast
  let ?g = "bufs_init\<lparr>sched := sched_one_waiting, bpool := bp, rx_need_buf := 0\<rparr>"
  let ?h = "?g\<lparr>rx_need_buf := 1\<rparr>"
  have c: "bp_inv (bpool ?g) [1..<16]" "(0 :: nat) \<notin> set [1..<16]" "bp_inv (bpool ?h) [1..<16]"
      "dq_rep (sched ?g) [15] [] [14, 13, 12, 11, 10, 9, 8, 7, 6, 5, 4, 3, 2, 1, 0]"
      "dq_rep (sched ?h) [15] [] [14, 13, 12, 11, 10, 9, 8, 7, 6, 5, 4, 3, 2, 1, 0]"
      "rb_inv (cb_q (sched ?g))" "rb_inv (cb_q (sched ?h))"
    using bp one_waiting waiting_cb_q by simp_all
  obtain g' where "zb_free_buf 0 ?g = Some g'" "rb_contents (cb_q (sched g')) = [\<lparr>func = 77, param = 0\<rparr>]"
    using free_buf_serves_first_waiter [OF c(1) _ c(2,4,6)] bp(2) waiting_cb_q by auto
  moreover obtain h' where "zb_free_buf 0 ?h = Some h'" "sched h' = sched ?g"
    using free_buf_serves_first_waiter [OF c(3) _ c(2,5,7)] bp(2) by auto
  ultimately show ?thesis
    using one_waiting by (intro exI [of _ ?g] exI [of _ g'] exI [of _ h']) simp
qed

text \<open>
  When the callback queue is full, freeing a buffer with a waiter loses both: the waiter
  is dropped without being called, and the buffer stays allocated with nobody holding it,
  because the result of scheduling is ignored.
\<close>

theorem free_buf_full_queue_loses_buffer:
  assumes "bp_inv (bpool g) fs" and "b < 16" and "b \<notin> set fs" and "dq_rep (sched g) (q # ws) vs fr"
    and "dir_of (pool (bpool g) ! b) = 1" and "rx_need_buf g = 0"
    and "rb_inv (cb_q (sched g))" and "ZB_RING_BUFFER_IS_FULL (cb_q (sched g))"
  shows "\<exists>g'. zb_free_buf b g = Some g' \<and> bp_inv (bpool g') fs \<and> b \<notin> set fs \<and> dq_rep (sched g') ws vs (q # fr)
    \<and> rb_contents (cb_q (sched g')) = rb_contents (cb_q (sched g))"
  using free_buf_wakes_in [OF assms(1-7)] assms(3,8) by auto

theorem free_buf_full_queue_loses_buffer_witness:
  "\<exists>g g'. dq_rep (sched g) [15] [] [14, 13, 12, 11, 10, 9, 8, 7, 6, 5, 4, 3, 2, 1, 0]
    \<and> zb_free_buf 0 g = Some (g' :: nat bp_g) \<and> bp_inv (bpool g') [1..<16]
    \<and> rb_contents (cb_q (sched g')) = rb_contents (cb_q (sched g))"
proof -
  obtain bp where bp: "bp_inv bp [1..<16]" "dir_of (pool bp ! 0) = 1" using one_taken by blast
  let ?q = "\<lparr>ring_buf = replicate 16 \<lparr>func = 5 :: nat, param = 1\<rparr>, read_i = 0, write_i = 0, written = 16\<rparr>"
  let ?g = "bufs_init\<lparr>sched := sched_one_waiting\<lparr>cb_q := ?q\<rparr>, bpool := bp, rx_need_buf := 0\<rparr>"
  have full: "rb_inv ?q" "ZB_RING_BUFFER_IS_FULL ?q"
    by (simp_all add: rb_inv_def ZB_RING_BUFFER_IS_FULL_def ZB_RING_BUFFER_CAPACITY_def)
  have dq: "dq_rep (sched ?g) [15] [] [14, 13, 12, 11, 10, 9, 8, 7, 6, 5, 4, 3, 2, 1, 0]"
    using one_waiting by (simp add: dq_rep_def)
  have "\<exists>g'. zb_free_buf 0 ?g = Some g' \<and> bp_inv (bpool g') [1..<16] \<and> (0 :: nat) \<notin> set [1..<16]
      \<and> dq_rep (sched g') [] [] (15 # [14, 13, 12, 11, 10, 9, 8, 7, 6, 5, 4, 3, 2, 1, 0])
      \<and> rb_contents (cb_q (sched g')) = rb_contents (cb_q (sched ?g))"
    by (rule free_buf_full_queue_loses_buffer) (use bp dq full in simp_all)
  then obtain g' where "zb_free_buf 0 ?g = Some g'" "bp_inv (bpool g') [1..<16]"
      "rb_contents (cb_q (sched g')) = rb_contents (cb_q (sched ?g))"
    by blast
  with dq show ?thesis by blast
qed

text \<open>
  Reserving header space in front of a packet always stays inside the buffer, also when
  the packet has to be moved to make room, and leaves the packet's bytes as they were behind
  the new space.
\<close>

theorem alloc_left_keeps_packet:
  assumes "buf_wf b" and "unat sz + ZB_BUF_LEN b < ZB_IO_BUF_SIZE"
  shows "\<exists>b' p. zb_buf_smart_alloc_left b sz = Some (b', p) \<and> buf_wf b' \<and> p = ZB_BUF_BEGIN b'
    \<and> ZB_BUF_LEN b' = ZB_BUF_LEN b + unat sz \<and> drop (unat sz) (payload b') = payload b"
  by (rule alloc_left_ok [OF assms])

theorem alloc_left_keeps_packet_witness:
  "\<exists>b' p. zb_buf_smart_alloc_left
       \<lparr>hdr = hdr_zero\<lparr>hdr_len := 3, data_offset := 2\<rparr>, data_buf = [0, 0, 10, 20, 30] @ replicate 143 0\<rparr> 9 = Some (b', p)
    \<and> drop 9 (payload b') = [10, 20, 30]"
proof -
  let ?b = "\<lparr>hdr = hdr_zero\<lparr>hdr_len := 3, data_offset := 2\<rparr>, data_buf = [0, 0, 10, 20, 30] @ replicate 143 0\<rparr> :: zb_buf_t"
  have "buf_wf ?b" "unat (9 :: u8) + ZB_BUF_LEN ?b < ZB_IO_BUF_SIZE" "payload ?b = [10, 20, 30]"
    by (simp_all add: buf_wf_def ZB_BUF_BEGIN_def ZB_BUF_LEN_def ZB_IO_BUF_SIZE_def payload_def)
  then show ?thesis using alloc_left_keeps_packet [of ?b 9] by auto
qed

text \<open>
  Storing parameters at the end of a buffer never touches the packet's bytes: the packet is
  moved towards the front when the room behind it is too small, and the last bytes of the buffer
  are then exactly the parameters.
\<close>

theorem assign_param_keeps_packet:
  assumes "buf_wf b" and "ZB_BUF_LEN b + unat sz \<le> ZB_IO_BUF_SIZE" and "length ps = unat sz"
  shows "\<exists>b'. zb_buf_assign_param b ps sz = Some b' \<and> buf_wf b' \<and> payload b' = payload b
    \<and> drop (ZB_IO_BUF_SIZE - unat sz) (data_buf b') = ps"
  by (rule assign_param_ok [OF assms])

theorem assign_param_keeps_packet_witness:
  "\<exists>b'. zb_buf_assign_param
       \<lparr>hdr = hdr_zero\<lparr>hdr_len := 3, data_offset := 145\<rparr>, data_buf = replicate 145 0 @ [10, 20, 30]\<rparr> [7, 8] 2 = Some b'
    \<and> payload b' = [10, 20, 30] \<and> drop 146 (data_buf b') = [7, 8]"
proof -
  let ?b = "\<lparr>hdr = hdr_zero\<lparr>hdr_len := 3, data_offset := 145\<rparr>, data_buf = replicate 145 0 @ [10, 20, 30]\<rparr> :: zb_buf_t"
  have "buf_wf ?b" "ZB_BUF_LEN ?b + unat (2 :: u8) \<le> ZB_IO_BUF_SIZE" "payload ?b = [10, 20, 30]"
    by (simp_all add: buf_wf_def ZB_BUF_BEGIN_def ZB_BUF_LEN_def ZB_IO_BUF_SIZE_def payload_def)
  then show ?thesis using assign_param_keeps_packet [of ?b 2 "[7, 8]"] by (auto simp: ZB_IO_BUF_SIZE_def)
qed

text \<open>
  Reserving space behind a packet checks only the sum of the lengths: when the offset of
  the packet leaves less room than requested, the call still succeeds, and the packet it leaves
  extends past the end of the buffer.
\<close>

theorem alloc_right_overruns_buffer:
  assumes "ZB_IO_BUF_SIZE < ZB_BUF_BEGIN b + ZB_BUF_LEN b + unat sz" and "unat sz + ZB_BUF_LEN b < ZB_IO_BUF_SIZE"
  shows "\<exists>b' p. zb_buf_smart_alloc_right b sz = Some (b', p) \<and> ZB_IO_BUF_SIZE < ZB_BUF_BEGIN b' + ZB_BUF_LEN b'"
  using assms by (simp add: zb_buf_smart_alloc_right_def Let_def ZB_BUF_LEN_def ZB_BUF_BEGIN_def unat_add_8
      ZB_IO_BUF_SIZE_def)

theorem alloc_right_overruns_buffer_witness:
  "\<exists>b0 p0 b' p. zb_buf_initial_alloc \<lparr>hdr = hdr_zero, data_buf = replicate 148 0\<rparr> 10 = Some (b0, p0) \<and> buf_wf b0
    \<and> zb_buf_smart_alloc_right b0 100 = Some (b', p) \<and> ZB_IO_BUF_SIZE < ZB_BUF_BEGIN b' + ZB_BUF_LEN b'"
proof -
  let ?b = "\<lparr>hdr = hdr_zero\<lparr>hdr_len := 10, data_offset := 69\<rparr>, data_buf = replicate 148 0\<rparr> :: zb_buf_t"
  have "zb_buf_initial_alloc \<lparr>hdr = hdr_zero, data_buf = replicate 148 0\<rparr> 10 = Some (?b, 69)" "buf_wf ?b"
    by (simp_all add: zb_buf_initial_alloc_def Let_def ZB_BUF_BEGIN_def ZB_BUF_LEN_def ZB_IO_BUF_SIZE_def
        hdr_zero_def buf_wf_def)
  moreover have "ZB_IO_BUF_SIZE < ZB_BUF_BEGIN ?b + ZB_BUF_LEN ?b + unat (100 :: u8)"
    "unat (100 :: u8) + ZB_BUF_LEN ?b < ZB_IO_BUF_SIZE"
    by (simp_all add: ZB_BUF_BEGIN_def ZB_BUF_LEN_def ZB_IO_BUF_SIZE_def)
  ultimately show ?thesis using alloc_right_overruns_buffer [of ?b 100] by blast
qed

end
