(* ===== verification/Address.thy ===== *)
theory Address
  imports ZB_Prelude
begin

text \<open>
  The address tables of \<^verbatim>\<open>common/zb_address.c\<close>: the open-addressing hash of extended PAN ids,
  the table of manufacturer prefixes that compresses a 64-bit address to six bytes, the
  64-bit/16-bit address map, the array of references sorted by short address, the lock counters
  and the clock algorithm. The state is \<^verbatim>\<open>ZG->addr\<close> of \<^verbatim>\<open>include/zb_addr_globals.h\<close>; a reference
  is an index into the address map. The full-feature variants are modelled (neither
  \<^verbatim>\<open>ZB_LIMITED_FEATURES\<close> nor \<^verbatim>\<open>ZB_LIMITED_FEATURES2\<close>).
\<close>

section \<open>State\<close>

definition ZB_IEEE_ADDR_TABLE_SIZE :: nat where [zb_config]: "ZB_IEEE_ADDR_TABLE_SIZE = 101"
definition ZB_PANID_TABLE_SIZE :: nat where [zb_config]: "ZB_PANID_TABLE_SIZE = 8"
definition ZB_DEV_MANUFACTORER_TABLE_SIZE :: nat where [zb_config]: "ZB_DEV_MANUFACTORER_TABLE_SIZE = 16"

type_synonym zb_ieee_addr = "u8 list"

record zb_ieee_addr_compressed =
  c_manufacturer :: u8
  c_device_id :: "u8 list"

record zb_address_map =
  am_ieee :: zb_ieee_addr_compressed
  am_addr :: u16
  am_aps_dup_counter :: u8
  am_used :: bool
  am_lock_cnt :: u4
  am_clock :: bool
  am_aps_dup_clock :: "2 word"

record zb_addr_globals =
  used_manufacturer :: "u8 list"
  manufacturers :: "u8 list list"
  pan_map :: "(zb_ieee_addr \<times> u16) list"
  used_pan_addr :: "u8 list"
  addr_map :: "zb_address_map list"
  short_sorted :: "u8 list"
  n_elements :: u32
  n_sorted_elements :: u32
  clock_i :: u32

section \<open>Bit vectors and hashing\<close>

definition zb_check_bit_in_bit_vector :: "u8 list \<Rightarrow> nat \<Rightarrow> bool option" where
  "zb_check_bit_in_bit_vector v b = do { x \<leftarrow> arr_get v (b div 8); Some (x AND push_bit (b mod 8) 1 \<noteq> 0) }"

definition zb_set_bit_in_bit_vector :: "u8 list \<Rightarrow> nat \<Rightarrow> u8 list option" where
  "zb_set_bit_in_bit_vector v b = do { x \<leftarrow> arr_get v (b div 8); arr_set v (b div 8) (x OR push_bit (b mod 8) 1) }"

definition magic_bitcount8 :: "u8 \<Rightarrow> u8" where
  "magic_bitcount8 b =
     (let b = (b AND 0x55) + (drop_bit 1 b AND 0x55);
          b = (b AND 0x33) + (drop_bit 2 b AND 0x33)
      in (b AND 0x0f) + (drop_bit 4 b AND 0x0f))"

definition ZB_HASH_FUNC_STEP :: "u32 \<Rightarrow> u32 \<Rightarrow> u32" where
  "ZB_HASH_FUNC_STEP h v = (push_bit 5 h + h) + v"

definition ZB_4INT_HASH_FUNC :: "u32 \<Rightarrow> u32 \<Rightarrow> u32 \<Rightarrow> u32 \<Rightarrow> u32" where
  "ZB_4INT_HASH_FUNC v1 v2 v3 v4 =
     ZB_HASH_FUNC_STEP (ZB_HASH_FUNC_STEP (ZB_HASH_FUNC_STEP (ZB_HASH_FUNC_STEP 5381 v1) v2) v3) v4 AND 0x7fffffff"

text \<open>
  A walk around a table of \<open>n\<close> entries from \<open>h\<close>, the shape of the probing loops
  \<^verbatim>\<open>do ... while ((i = (i + 1) % n) != h)\<close>: the body stops it with \<open>Inl\<close> or goes on with \<open>Inr\<close>.
\<close>

partial_function (option) ring_walk ::
  "nat \<Rightarrow> nat \<Rightarrow> (nat \<Rightarrow> 's \<Rightarrow> ('r + 's) option) \<Rightarrow> nat \<Rightarrow> 's \<Rightarrow> ('r + 's) option" where
  "ring_walk n h body i s =
     Option.bind (body i s) (\<lambda>x. case x of
         Inl r \<Rightarrow> Some (Inl r)
       | Inr s' \<Rightarrow> if (i + 1) mod n \<noteq> h then ring_walk n h body ((i + 1) mod n) s' else Some (Inr s'))"

section \<open>PAN ids\<close>

definition ZB_ADDRESS_PAN_ID_HASH :: "zb_ieee_addr \<Rightarrow> nat" where
  "ZB_ADDRESS_PAN_ID_HASH p =
     unat (ZB_4INT_HASH_FUNC (ucast (p ! 0)) (ucast (p ! 2)) (ucast (p ! 4)) (ucast (p ! 6))) mod ZB_PANID_TABLE_SIZE"

definition set_pan_id_step ::
  "zb_ieee_addr \<Rightarrow> zb_addr_globals \<Rightarrow> nat \<Rightarrow> nat option \<Rightarrow> (nat + nat option) option" where
  "set_pan_id_step pan_id z i free_i = do {
     u \<leftarrow> zb_check_bit_in_bit_vector (used_pan_addr z) i;
     if u then do {
       (long, _) \<leftarrow> arr_get (pan_map z) i;
       Some (if long = pan_id then Inl i else Inr free_i) }
     else Some (Inr (Some i)) }"

definition zb_address_set_pan_id ::
  "u16 \<Rightarrow> zb_ieee_addr \<Rightarrow> zb_addr_globals \<Rightarrow> (zb_ret \<times> nat option \<times> zb_addr_globals) option" where
  "zb_address_set_pan_id short_pan_id pan_id z =
     (let h_i = ZB_ADDRESS_PAN_ID_HASH pan_id in
      do {
        r \<leftarrow> ring_walk ZB_PANID_TABLE_SIZE h_i (set_pan_id_step pan_id z) h_i None;
        (case r of
           Inl i \<Rightarrow> Some (RET_ALREADY_EXISTS, Some i, z)
         | Inr (Some free_i) \<Rightarrow> do {
             m \<leftarrow> arr_set (pan_map z) free_i (pan_id, short_pan_id);
             v \<leftarrow> zb_set_bit_in_bit_vector (used_pan_addr z) free_i;
             Some (RET_OK, Some free_i, z\<lparr>pan_map := m, used_pan_addr := v\<rparr>) }
         | Inr None \<Rightarrow> Some (RET_OVERFLOW, None, z)) })"

definition pan_map_entry :: "nat \<Rightarrow> zb_addr_globals \<Rightarrow> (zb_ieee_addr \<times> u16) option" where
  "pan_map_entry r z = do {
     ZB_ASSERT (r < ZB_PANID_TABLE_SIZE);
     u \<leftarrow> zb_check_bit_in_bit_vector (used_pan_addr z) r;
     ZB_ASSERT u;
     arr_get (pan_map z) r }"

definition zb_address_get_pan_id :: "nat \<Rightarrow> zb_addr_globals \<Rightarrow> zb_ieee_addr option" where
  "zb_address_get_pan_id r z = do { (long, _) \<leftarrow> pan_map_entry r z; Some long }"

definition zb_address_get_short_pan_id :: "nat \<Rightarrow> zb_addr_globals \<Rightarrow> u16 option" where
  "zb_address_get_short_pan_id r z = do { (_, short) \<leftarrow> pan_map_entry r z; Some short }"

definition zb_address_cmp_pan_id_by_ref :: "nat \<Rightarrow> zb_ieee_addr \<Rightarrow> zb_addr_globals \<Rightarrow> bool option" where
  "zb_address_cmp_pan_id_by_ref r pan_id z = do { (long, _) \<leftarrow> pan_map_entry r z; Some (pan_id = long) }"

definition get_pan_id_ref_step :: "zb_ieee_addr \<Rightarrow> zb_addr_globals \<Rightarrow> nat \<Rightarrow> unit \<Rightarrow> (nat + unit) option" where
  "get_pan_id_ref_step pan_id z i _ = do {
     u \<leftarrow> zb_check_bit_in_bit_vector (used_pan_addr z) i;
     if u then do {
       (long, _) \<leftarrow> arr_get (pan_map z) i;
       Some (if long = pan_id then Inl i else Inr ()) }
     else Some (Inr ()) }"

definition zb_address_get_pan_id_ref :: "zb_ieee_addr \<Rightarrow> zb_addr_globals \<Rightarrow> (zb_ret \<times> nat option) option" where
  "zb_address_get_pan_id_ref pan_id z =
     (let h_i = ZB_ADDRESS_PAN_ID_HASH pan_id in
      do {
        r \<leftarrow> ring_walk ZB_PANID_TABLE_SIZE h_i (get_pan_id_ref_step pan_id z) h_i ();
        (case r of Inl i \<Rightarrow> Some (RET_OK, Some i) | Inr _ \<Rightarrow> Some (RET_NOT_FOUND, None)) })"

section \<open>Compressing 64-bit addresses\<close>

text \<open>The loop of \<^verbatim>\<open>zb_ieee_addr_compress\<close> over the entries \<open>is\<close>: the matching entry, and the last free one.\<close>

fun manufacturer_search :: "zb_addr_globals \<Rightarrow> u8 list \<Rightarrow> nat list \<Rightarrow> nat \<Rightarrow> (nat \<times> nat) option" where
  "manufacturer_search z m [] free_i = Some (ZB_DEV_MANUFACTORER_TABLE_SIZE, free_i)"
| "manufacturer_search z m (i # js) free_i = do {
     u \<leftarrow> zb_check_bit_in_bit_vector (used_manufacturer z) i;
     if u then do {
       e \<leftarrow> arr_get (manufacturers z) i;
       if e = m then Some (i, free_i) else manufacturer_search z m js free_i }
     else manufacturer_search z m js i }"

definition zb_ieee_addr_compress ::
  "zb_ieee_addr \<Rightarrow> zb_addr_globals \<Rightarrow> (zb_ieee_addr_compressed \<times> zb_addr_globals) option" where
  "zb_ieee_addr_compress address z = do {
     (i, free_i) \<leftarrow> manufacturer_search z (take 3 address) [0..<ZB_DEV_MANUFACTORER_TABLE_SIZE]
                     ZB_DEV_MANUFACTORER_TABLE_SIZE;
     let i = (if i = ZB_DEV_MANUFACTORER_TABLE_SIZE then free_i else i);
     ZB_ASSERT (i \<noteq> ZB_DEV_MANUFACTORER_TABLE_SIZE);
     v \<leftarrow> zb_set_bit_in_bit_vector (used_manufacturer z) i;
     m \<leftarrow> arr_set (manufacturers z) i (take 3 address);
     Some (\<lparr>c_manufacturer = of_nat i, c_device_id = take 5 (drop 3 address)\<rparr>,
           z\<lparr>used_manufacturer := v, manufacturers := m\<rparr>) }"

definition ZB_ADDRESS_DECOMPRESS :: "zb_ieee_addr_compressed \<Rightarrow> zb_addr_globals \<Rightarrow> zb_ieee_addr option" where
  "ZB_ADDRESS_DECOMPRESS c z = do { m \<leftarrow> arr_get (manufacturers z) (unat (c_manufacturer c)); Some (m @ c_device_id c) }"

definition zb_ieee_addr_decompress :: "zb_ieee_addr_compressed \<Rightarrow> zb_addr_globals \<Rightarrow> zb_ieee_addr option" where
  "zb_ieee_addr_decompress c z = ZB_ADDRESS_DECOMPRESS c z"

definition zb_address_compressed_cmp :: "zb_ieee_addr_compressed \<Rightarrow> zb_ieee_addr_compressed \<Rightarrow> bool" where
  "zb_address_compressed_cmp one two \<longleftrightarrow>
     c_manufacturer one = c_manufacturer two \<and> c_device_id one = c_device_id two"

definition zb_address_compressed_ieee_hash :: "zb_ieee_addr_compressed \<Rightarrow> nat" where
  "zb_address_compressed_ieee_hash c =
     (let d = c_device_id c in
      unat (ZB_4INT_HASH_FUNC (ucast (d ! 0)) (ucast (d ! 2)) (ucast (d ! 3)) (ucast (d ! 4)))
        mod ZB_IEEE_ADDR_TABLE_SIZE)"

section \<open>The array sorted by short address\<close>

definition sorted_addr :: "zb_addr_globals \<Rightarrow> nat \<Rightarrow> u16 option" where
  "sorted_addr z i = do {
     r \<leftarrow> arr_get (short_sorted z) i;
     e \<leftarrow> arr_get (addr_map z) (unat r);
     Some (am_addr e) }"

function short_search_loop :: "zb_addr_globals \<Rightarrow> u16 \<Rightarrow> nat \<Rightarrow> nat \<Rightarrow> nat option" where
  "short_search_loop z short_addr l r =
     (if l < r then
        let i = l + (r - l) div 2
        in case sorted_addr z i of None \<Rightarrow> None
           | Some a \<Rightarrow> if a < short_addr then short_search_loop z short_addr (i + 1) r
                       else short_search_loop z short_addr l i
      else Some l)"
  by pat_completeness auto

termination short_search_loop
  by (relation "measure (\<lambda>(z, a, l, r). r - l)") auto

declare short_search_loop.simps [simp del]

definition short_search :: "u16 \<Rightarrow> zb_addr_globals \<Rightarrow> nat option option" where
  "short_search short_addr z =
     (let n = unat (n_sorted_elements z) in
      do {
        l \<leftarrow> (if n > 1 then short_search_loop z short_addr 0 n else Some 0);
        if n > 0 \<and> l < n then do {
          a \<leftarrow> sorted_addr z l;
          if short_addr = a then do { r \<leftarrow> arr_get (short_sorted z) l; Some (Some (unat r)) }
          else Some None }
        else Some None })"

function add_sorted_loop :: "zb_addr_globals \<Rightarrow> u16 \<Rightarrow> nat \<Rightarrow> nat \<Rightarrow> nat option" where
  "add_sorted_loop z short_addr l r =
     (if l < r then
        let i = l + (r - l) div 2
        in case sorted_addr z i of None \<Rightarrow> None
           | Some a \<Rightarrow> if a \<le> short_addr then add_sorted_loop z short_addr (i + 1) r
                       else add_sorted_loop z short_addr l i
      else Some l)"
  by pat_completeness auto

termination add_sorted_loop
  by (relation "measure (\<lambda>(z, a, l, r). r - l)") auto

declare add_sorted_loop.simps [simp del]

definition add_short_sorted :: "nat \<Rightarrow> u16 \<Rightarrow> zb_addr_globals \<Rightarrow> zb_addr_globals option" where
  "add_short_sorted ref short_addr z =
     (let n = unat (n_sorted_elements z) in
      do {
        l \<leftarrow> (if n > 1 then add_sorted_loop z short_addr 0 n else Some 0);
        l \<leftarrow> (if n > 0 \<and> l < n then do {
                 a \<leftarrow> sorted_addr z l; Some (if a < short_addr then l + 1 else l) }
               else Some l);
        s \<leftarrow> (if l < n then arr_move (short_sorted z) (l + 1) l (n - l) else Some (short_sorted z));
        s \<leftarrow> arr_set s l (of_nat ref);
        Some (z\<lparr>short_sorted := s, n_sorted_elements := n_sorted_elements z + 1\<rparr>) })"

text \<open>The loop of \<^verbatim>\<open>del_short_sorted\<close>: the array, and how many entries it has dropped.\<close>

function del_sorted_loop :: "nat \<Rightarrow> nat \<Rightarrow> nat \<Rightarrow> u8 list \<Rightarrow> nat \<Rightarrow> (u8 list \<times> nat) option" where
  "del_sorted_loop ref n i s dec =
     (if i < n then
        case arr_get s i of None \<Rightarrow> None
        | Some e \<Rightarrow>
            if unat e = ref then
              if i \<noteq> n - 1 then
                case arr_move s i (i + 1) (n - i) of None \<Rightarrow> None
                | Some s' \<Rightarrow> del_sorted_loop ref n (i + 1) s' (dec + 1)
              else del_sorted_loop ref n (i + 1) s (dec + 1)
            else del_sorted_loop ref n (i + 1) s dec
      else Some (s, dec))"
  by pat_completeness auto

termination del_sorted_loop
  by (relation "measure (\<lambda>(ref, n, i, s, dec). n - i)") auto

declare del_sorted_loop.simps [simp del]

definition del_short_sorted :: "nat \<Rightarrow> zb_addr_globals \<Rightarrow> zb_addr_globals option" where
  "del_short_sorted ref z = do {
     (s, dec) \<leftarrow> del_sorted_loop ref (unat (n_sorted_elements z)) 0 (short_sorted z) 0;
     Some (z\<lparr>short_sorted := s, n_sorted_elements := n_sorted_elements z - of_nat dec\<rparr>) }"

section \<open>The address map\<close>

fun ieee_search_loop :: "zb_addr_globals \<Rightarrow> zb_ieee_addr_compressed \<Rightarrow> nat \<Rightarrow> nat \<Rightarrow> nat option option" where
  "ieee_search_loop z c i 0 = Some None"
| "ieee_search_loop z c i (Suc k) = do {
     e \<leftarrow> arr_get (addr_map z) i;
     if am_used e \<and> zb_address_compressed_cmp (am_ieee e) c then Some (Some i)
     else ieee_search_loop z c ((i + 1) mod ZB_IEEE_ADDR_TABLE_SIZE) k }"

definition ieee_search :: "zb_ieee_addr_compressed \<Rightarrow> zb_addr_globals \<Rightarrow> nat option option" where
  "ieee_search c z = ieee_search_loop z c (zb_address_compressed_ieee_hash c) ZB_IEEE_ADDR_TABLE_SIZE"

text \<open>One of the two loops of \<^verbatim>\<open>clock_tick\<close>; the flag says that it stopped at an unlocked entry.\<close>

function clock_loop :: "u32 \<Rightarrow> nat \<Rightarrow> zb_addr_globals \<Rightarrow> (bool \<times> nat \<times> zb_addr_globals) option" where
  "clock_loop bound cnt z =
     (if clock_i z < bound \<and> cnt < unat (n_elements z) then
        case arr_get (addr_map z) (unat (clock_i z)) of None \<Rightarrow> None
        | Some e \<Rightarrow>
           (let i = unat (clock_i z); z1 = z\<lparr>clock_i := clock_i z + 1\<rparr> in
            if am_used e then
              if am_lock_cnt e = 0
              then Some (True, cnt + 1, z1\<lparr>addr_map := (addr_map z)[i := e\<lparr>am_clock := False\<rparr>]\<rparr>)
              else clock_loop bound (cnt + 1) z1
            else clock_loop bound cnt z1)
      else Some (False, cnt, z))"
  by pat_completeness auto

lemma unat_Suc_less: "(x :: u32) < b \<Longrightarrow> unat (x + 1) = Suc (unat x)"
proof -
  assume "x < b"
  moreover have "unat b < 2 ^ 32" using unsigned_less [of b] by simp
  ultimately show ?thesis by (simp add: unat_word_ariths(1) word_less_nat_alt)
qed

termination clock_loop
  by (relation "measure (\<lambda>(b, c, z). unat b - unat (clock_i z))")
    (auto simp: unat_Suc_less word_less_nat_alt)

declare clock_loop.simps [simp del]

text \<open>The ageing step: clear the clock bit of the next entry in use and not locked.\<close>

definition clock_tick :: "zb_addr_globals \<Rightarrow> zb_addr_globals option" where
  "clock_tick z = do {
     let limit = clock_i z;
     (found, cnt, z) \<leftarrow> clock_loop (of_nat ZB_IEEE_ADDR_TABLE_SIZE) 0 z;
     if \<not> found \<and> cnt < unat (n_elements z) then do {
       (_, _, z) \<leftarrow> clock_loop limit cnt (z\<lparr>clock_i := 0\<rparr>);
       Some z }
     else Some z }"

definition ieee_zero :: zb_ieee_addr_compressed where
  "ieee_zero = \<lparr>c_manufacturer = 0, c_device_id = replicate 5 0\<rparr>"

text \<open>The loop of \<^verbatim>\<open>addr_add\<close> looks for an entry not in use.\<close>

definition addr_add_step :: "zb_addr_globals \<Rightarrow> nat \<Rightarrow> unit \<Rightarrow> (nat + unit) option" where
  "addr_add_step z i _ = do { e \<leftarrow> arr_get (addr_map z) i; Some (if am_used e then Inr () else Inl i) }"

text \<open>The fields the new entry gets; \<open>None\<close> is the null \<^verbatim>\<open>ieee_compressed\<close>.\<close>

definition addr_ent_init :: "zb_ieee_addr_compressed option \<Rightarrow> u16 \<Rightarrow> zb_address_map \<Rightarrow> zb_address_map" where
  "addr_ent_init c short_addr e =
     e\<lparr>am_addr := short_addr, am_clock := True, am_ieee := (case c of Some c \<Rightarrow> c | None \<Rightarrow> ieee_zero)\<rparr>"

definition addr_add ::
  "zb_ieee_addr_compressed option \<Rightarrow> u16 \<Rightarrow> zb_addr_globals \<Rightarrow> (zb_ret \<times> nat option \<times> zb_addr_globals) option" where
  "addr_add c short_addr z =
     (let i = (case c of Some c \<Rightarrow> zb_address_compressed_ieee_hash c | None \<Rightarrow> 0) in
      do {
        r \<leftarrow> ring_walk ZB_IEEE_ADDR_TABLE_SIZE i (addr_add_step z) i ();
        (case r of
           Inr _ \<Rightarrow> Some (RET_OVERFLOW, None, z)
         | Inl i \<Rightarrow> do {
             z \<leftarrow> clock_tick z;
             e \<leftarrow> arr_get (addr_map z) i;
             m \<leftarrow> arr_set (addr_map z) i (addr_ent_init c short_addr e);
             let z = z\<lparr>addr_map := m\<rparr>;
             z \<leftarrow> (if short_addr \<noteq> 0xffff then do {
                      z \<leftarrow> (if am_used e then del_short_sorted i z else Some z);
                      add_short_sorted i short_addr z }
                    else Some z);
             m \<leftarrow> arr_set (addr_map z) i ((addr_map z ! i)\<lparr>am_used := True\<rparr>);
             Some (RET_OK, Some i,
                   z\<lparr>n_elements := n_elements z + (if am_used e then 0 else 1), addr_map := m\<rparr>) }) })"

definition zb_address_delete :: "nat \<Rightarrow> zb_addr_globals \<Rightarrow> zb_addr_globals option" where
  "zb_address_delete ref z = do {
     z \<leftarrow> del_short_sorted ref z;
     e \<leftarrow> arr_get (addr_map z) ref;
     m \<leftarrow> arr_set (addr_map z) ref (e\<lparr>am_used := False\<rparr>);
     Some (z\<lparr>addr_map := m, n_elements := n_elements z - 1\<rparr>) }"

definition zb_address_lock :: "nat \<Rightarrow> zb_addr_globals \<Rightarrow> zb_addr_globals option" where
  "zb_address_lock ref z = do {
     e \<leftarrow> arr_get (addr_map z) ref;
     let e = e\<lparr>am_lock_cnt := am_lock_cnt e + 1\<rparr>;
     ZB_ASSERT (am_lock_cnt e \<noteq> 0);
     m \<leftarrow> arr_set (addr_map z) ref (e\<lparr>am_clock := True\<rparr>);
     Some (z\<lparr>addr_map := m\<rparr>) }"

definition zb_address_unlock :: "nat \<Rightarrow> zb_addr_globals \<Rightarrow> zb_addr_globals option" where
  "zb_address_unlock ref z = do {
     e \<leftarrow> arr_get (addr_map z) ref;
     ZB_ASSERT (am_lock_cnt e \<noteq> 0);
     m \<leftarrow> arr_set (addr_map z) ref (e\<lparr>am_lock_cnt := am_lock_cnt e - 1\<rparr>);
     Some (z\<lparr>addr_map := m\<rparr>) }"

definition set_clock :: "nat \<Rightarrow> zb_addr_globals \<Rightarrow> zb_addr_globals option" where
  "set_clock ref z = do {
     e \<leftarrow> arr_get (addr_map z) ref;
     m \<leftarrow> arr_set (addr_map z) ref (e\<lparr>am_clock := True\<rparr>);
     Some (z\<lparr>addr_map := m\<rparr>) }"

section \<open>Lookup and creation\<close>

definition lock_if :: "bool \<Rightarrow> zb_ret \<times> nat option \<times> zb_addr_globals \<Rightarrow> (zb_ret \<times> nat option \<times> zb_addr_globals) option" where
  "lock_if lock = (\<lambda>(ret, ref, z).
     if lock \<and> ret = RET_OK then do { r \<leftarrow> ref; z \<leftarrow> zb_address_lock r z; Some (ret, ref, z) }
     else Some (ret, ref, z))"

definition zb_address_by_ieee ::
  "zb_ieee_addr \<Rightarrow> bool \<Rightarrow> bool \<Rightarrow> zb_addr_globals \<Rightarrow> (zb_ret \<times> nat option \<times> zb_addr_globals) option" where
  "zb_address_by_ieee ieee create lock z = do {
     (c, z) \<leftarrow> zb_ieee_addr_compress ieee z;
     s \<leftarrow> ieee_search c z;
     r \<leftarrow> (case s of
             Some ref \<Rightarrow> do { z \<leftarrow> set_clock ref z; Some (RET_OK, Some ref, z) }
           | None \<Rightarrow> if create then addr_add (Some c) 0xffff z else Some (RET_NOT_FOUND, None, z));
     lock_if lock r }"

definition zb_address_by_short ::
  "u16 \<Rightarrow> bool \<Rightarrow> bool \<Rightarrow> zb_addr_globals \<Rightarrow> (zb_ret \<times> nat option \<times> zb_addr_globals) option" where
  "zb_address_by_short short_address create lock z = do {
     s \<leftarrow> short_search short_address z;
     r \<leftarrow> (case s of
             Some ref \<Rightarrow> do { z \<leftarrow> set_clock ref z; Some (RET_OK, Some ref, z) }
           | None \<Rightarrow> if create then addr_add None short_address z else Some (RET_NOT_FOUND, None, z));
     lock_if lock r }"

text \<open>The reference \<^verbatim>\<open>zb_address_update\<close> goes on with, after removing a conflicting entry.\<close>

definition update_conflict ::
  "nat option \<Rightarrow> nat option \<Rightarrow> zb_addr_globals \<Rightarrow> (nat option \<times> zb_addr_globals) option" where
  "update_conflict found_short found_long z =
     (case (found_short, found_long) of
        (Some ref, Some ref_long) \<Rightarrow>
          if ref \<noteq> ref_long then do {
            e \<leftarrow> arr_get (addr_map z) ref;
            el \<leftarrow> arr_get (addr_map z) ref_long;
            if am_lock_cnt e = 0 then do { z \<leftarrow> zb_address_delete ref z; Some (Some ref_long, z) }
            else if am_lock_cnt el = 0 then do { z \<leftarrow> zb_address_delete ref_long z; Some (Some ref, z) }
            else None }
          else Some (Some ref, z)
      | (Some ref, None) \<Rightarrow> Some (Some ref, z)
      | (None, r) \<Rightarrow> Some (r, z))"

definition update_entry ::
  "nat \<Rightarrow> zb_ieee_addr_compressed \<Rightarrow> u16 \<Rightarrow> zb_addr_globals \<Rightarrow> zb_addr_globals option" where
  "update_entry ref c short_address z = do {
     e \<leftarrow> arr_get (addr_map z) ref;
     let z = z\<lparr>addr_map := (addr_map z)[ref := e\<lparr>am_ieee := c\<rparr>]\<rparr>;
     z \<leftarrow> (if am_addr e \<noteq> short_address then do {
              z \<leftarrow> (if am_addr e \<noteq> 0xffff then del_short_sorted ref z else Some z);
              let z = z\<lparr>addr_map := (addr_map z)[ref := (addr_map z ! ref)\<lparr>am_addr := short_address\<rparr>]\<rparr>;
              add_short_sorted ref short_address z }
            else Some z);
     set_clock ref z }"

definition zb_address_update ::
  "zb_ieee_addr \<Rightarrow> u16 \<Rightarrow> bool \<Rightarrow> zb_addr_globals \<Rightarrow> (zb_ret \<times> nat option \<times> zb_addr_globals) option" where
  "zb_address_update ieee short_address lock z = do {
     (c, z) \<leftarrow> zb_ieee_addr_compress ieee z;
     found_short \<leftarrow> short_search short_address z;
     found_long \<leftarrow> ieee_search c z;
     (r, z) \<leftarrow> update_conflict found_short found_long z;
     r \<leftarrow> (case r of
             Some ref \<Rightarrow> do { z \<leftarrow> update_entry ref c short_address z; Some (RET_OK, Some ref, z) }
           | None \<Rightarrow> addr_add (Some c) short_address z);
     lock_if lock r }"

definition zb_address_ieee_by_ref :: "nat \<Rightarrow> zb_addr_globals \<Rightarrow> zb_ieee_addr option" where
  "zb_address_ieee_by_ref ref z = do { e \<leftarrow> arr_get (addr_map z) ref; ZB_ADDRESS_DECOMPRESS (am_ieee e) z }"

definition zb_address_short_by_ref :: "nat \<Rightarrow> zb_addr_globals \<Rightarrow> u16 option" where
  "zb_address_short_by_ref ref z = do { e \<leftarrow> arr_get (addr_map z) ref; Some (am_addr e) }"

definition zb_address_by_ref :: "nat \<Rightarrow> zb_addr_globals \<Rightarrow> (zb_ieee_addr \<times> u16) option" where
  "zb_address_by_ref ref z = do {
     short \<leftarrow> zb_address_short_by_ref ref z;
     long \<leftarrow> zb_address_ieee_by_ref ref z;
     Some (long, short) }"

definition zb_address_short_by_ieee :: "zb_ieee_addr \<Rightarrow> zb_addr_globals \<Rightarrow> (u16 \<times> zb_addr_globals) option" where
  "zb_address_short_by_ieee ieee z = do {
     (ret, ref, z) \<leftarrow> zb_address_by_ieee ieee False False z;
     if ret = RET_OK then do { r \<leftarrow> ref; a \<leftarrow> zb_address_short_by_ref r z; Some (a, z) }
     else Some (0xffff, z) }"

definition zb_address_ieee_by_short :: "u16 \<Rightarrow> zb_addr_globals \<Rightarrow> (zb_ret \<times> zb_ieee_addr option \<times> zb_addr_globals) option" where
  "zb_address_ieee_by_short short z = do {
     (ret, ref, z) \<leftarrow> zb_address_by_short short False False z;
     if ret = RET_OK then do { r \<leftarrow> ref; a \<leftarrow> zb_address_ieee_by_ref r z; Some (RET_OK, Some a, z) }
     else Some (RET_NOT_FOUND, None, z) }"

end
