(* ===== verification/Address_Lemmas.thy ===== *)
theory Address_Lemmas
  imports Address
begin

text \<open>
  The lemmas and properties of the address tables: what a probing walk finds, the binary
  searches over the sorted array, insertion and deletion in it, the ageing step, compression,
  PAN ids, and lookup after insertion.
\<close>

section \<open>Probing walks\<close>

fun walk_list :: "(nat \<Rightarrow> 's \<Rightarrow> ('r + 's) option) \<Rightarrow> 's \<Rightarrow> nat list \<Rightarrow> ('r + 's) option" where
  "walk_list body s [] = Some (Inr s)"
| "walk_list body s (i # js) =
     Option.bind (body i s) (\<lambda>x. case x of Inl r \<Rightarrow> Some (Inl r) | Inr s' \<Rightarrow> walk_list body s' js)"

definition ring_from :: "nat \<Rightarrow> nat \<Rightarrow> nat list" where
  "ring_from n h = map (\<lambda>j. (h + j) mod n) [0..<n]"

lemma ring_walk_steps:
  "h < n \<Longrightarrow> k < n \<Longrightarrow>
   ring_walk n h body ((h + k) mod n) s = walk_list body s (map (\<lambda>j. (h + j) mod n) [k..<n])"
proof (induction "n - k" arbitrary: k s)
  case 0
  then show ?case by simp
next
  case (Suc m)
  have nxt: "((h + k) mod n + 1) mod n = (h + Suc k) mod n" by (simp add: mod_Suc_eq)
  have last: "(h + Suc k) mod n = h \<longleftrightarrow> Suc k = n"
  proof
    assume e: "(h + Suc k) mod n = h"
    have "(h + Suc k) mod n = (if h + Suc k < n then h + Suc k else h + Suc k - n)"
      using Suc.prems by (simp add: mod_if)
    with e Suc.prems show "Suc k = n" by (auto split: if_splits)
  qed (use Suc.prems in simp)
  have up: "[k..<n] = k # [Suc k..<n]" using Suc.prems by (simp add: upt_conv_Cons)
  show ?case
  proof (cases "Suc k = n")
    case True
    have "((h + k) mod n + 1) mod n = h" unfolding nxt using last True by simp
    with True show ?thesis by (subst ring_walk.simps) (simp add: upt_conv_Cons)
  next
    case False
    then have "ring_walk n h body ((h + Suc k) mod n) s' = walk_list body s' (map (\<lambda>j. (h + j) mod n) [Suc k..<n])" for s'
      using Suc.hyps(1) [of "Suc k" s'] Suc.hyps(2) Suc.prems by (simp del: add_Suc_right)
    moreover have "(h + Suc k) mod n \<noteq> h" using last False by simp
    moreover have "ring_walk n h body ((h + k) mod n) s = Option.bind (body ((h + k) mod n) s) (\<lambda>x. case x of
         Inl r \<Rightarrow> Some (Inl r)
       | Inr s' \<Rightarrow> if (h + Suc k) mod n \<noteq> h then ring_walk n h body ((h + Suc k) mod n) s' else Some (Inr s'))"
      by (subst ring_walk.simps) (simp only: nxt)
    ultimately show ?thesis
      unfolding up list.map walk_list.simps by (simp only: not_False_eq_True if_True)
  qed
qed

lemma ring_walk_eq: "h < n \<Longrightarrow> ring_walk n h body h s = walk_list body s (ring_from n h)"
  using ring_walk_steps [of h n 0 body s] by (simp add: ring_from_def)

lemma set_ring_from [simp]: "h < n \<Longrightarrow> set (ring_from n h) = {..<n}"
proof (rule set_eqI)
  fix i assume h: "h < n"
  show "i \<in> set (ring_from n h) \<longleftrightarrow> i \<in> {..<n}"
  proof
    assume "i \<in> {..<n}"
    then have i: "i < n" by simp
    define j where "j = (if h \<le> i then i - h else n + i - h)"
    have "j < n" "(h + j) mod n = i" using h i by (auto simp: j_def)
    then have "\<exists>j < n. (h + j) mod n = i" by blast
    then show "i \<in> set (ring_from n h)" by (auto simp: ring_from_def)
  qed (use h in \<open>auto simp: ring_from_def\<close>)
qed

text \<open>A walk whose body stops at the first entry satisfying \<open>P\<close>.\<close>

lemma walk_list_find:
  assumes "\<forall>i \<in> set js. body i () = Some (if P i then Inl i else Inr ())"
  shows "walk_list body () js = Some (case find P js of Some i \<Rightarrow> Inl i | None \<Rightarrow> Inr ())"
  using assms by (induction js) auto

lemma find_some_set: "find P js = Some i \<Longrightarrow> P i \<and> i \<in> set js"
  by (auto simp: find_Some_iff)

lemma find_none_set: "find P js = None \<longleftrightarrow> (\<forall>i \<in> set js. \<not> P i)"
  by (auto simp: find_None_iff)

lemma find_unique: "i \<in> set js \<Longrightarrow> P i \<Longrightarrow> (\<forall>j \<in> set js. P j \<longrightarrow> j = i) \<Longrightarrow> find P js = Some i"
  using find_some_set [of P js] find_none_set [of P js] by (cases "find P js") blast+

section \<open>The binary searches\<close>

definition addr_at :: "zb_addr_globals \<Rightarrow> nat \<Rightarrow> u16" where
  "addr_at z i = am_addr (addr_map z ! unat (short_sorted z ! i))"

definition sorted_refs_ok :: "zb_addr_globals \<Rightarrow> nat \<Rightarrow> bool" where
  "sorted_refs_ok z n \<longleftrightarrow> n \<le> length (short_sorted z) \<and> (\<forall>i < n. unat (short_sorted z ! i) < length (addr_map z))"

lemma sorted_addr_at: "sorted_refs_ok z n \<Longrightarrow> i < n \<Longrightarrow> sorted_addr z i = Some (addr_at z i)"
  by (simp add: sorted_addr_def sorted_refs_ok_def addr_at_def)

lemma short_search_loop_spec:
  assumes "sorted_refs_ok z n" and "\<forall>i j. i \<le> j \<longrightarrow> j < n \<longrightarrow> addr_at z i \<le> addr_at z j"
  shows "l \<le> r \<Longrightarrow> r \<le> n \<Longrightarrow> \<forall>i < l. addr_at z i < a \<Longrightarrow> \<forall>i. r \<le> i \<longrightarrow> i < n \<longrightarrow> a \<le> addr_at z i \<Longrightarrow>
    \<exists>k \<le> n. short_search_loop z a l r = Some k \<and> (\<forall>i < k. addr_at z i < a) \<and> (\<forall>i. k \<le> i \<longrightarrow> i < n \<longrightarrow> a \<le> addr_at z i)"
proof (induction "r - l" arbitrary: l r rule: less_induct)
  case less
  show ?case
  proof (cases "l < r")
    case False
    then have "short_search_loop z a l r = Some l" by (subst short_search_loop.simps) simp
    moreover have "r = l" using False less.prems(1) by simp
    ultimately have "short_search_loop z a l r = Some l" "r = l" by blast+
    with less.prems show ?thesis by blast
  next
    case True
    let ?i = "l + (r - l) div 2"
    have i: "l \<le> ?i" "?i < r" "?i < n" using True less.prems(2) by auto
    have s: "sorted_addr z ?i = Some (addr_at z ?i)" using sorted_addr_at [OF assms(1) i(3)] .
    show ?thesis
    proof (cases "addr_at z ?i < a")
      case lt: True
      have "\<forall>j < ?i + 1. addr_at z j < a"
      proof (intro allI impI)
        fix j assume "j < ?i + 1"
        then have "addr_at z j \<le> addr_at z ?i" using assms(2) i by simp
        with lt show "addr_at z j < a" by simp
      qed
      then have "\<exists>k \<le> n. short_search_loop z a (?i + 1) r = Some k \<and> (\<forall>i < k. addr_at z i < a)
          \<and> (\<forall>i. k \<le> i \<longrightarrow> i < n \<longrightarrow> a \<le> addr_at z i)"
        by (intro less.hyps less.prems) (use i True in simp_all)
      then obtain k where "k \<le> n" "short_search_loop z a (?i + 1) r = Some k" "\<forall>i < k. addr_at z i < a"
        "\<forall>i. k \<le> i \<longrightarrow> i < n \<longrightarrow> a \<le> addr_at z i"
        by blast
      with True s lt show ?thesis
        by (intro exI [of _ k]) (subst short_search_loop.simps, simp add: Let_def)
    next
      case ge: False
      have "\<forall>j. ?i \<le> j \<longrightarrow> j < n \<longrightarrow> a \<le> addr_at z j"
      proof (intro allI impI)
        fix j assume "?i \<le> j" "j < n"
        then have "addr_at z ?i \<le> addr_at z j" using assms(2) by blast
        with ge show "a \<le> addr_at z j" by simp
      qed
      then have "\<exists>k \<le> n. short_search_loop z a l ?i = Some k \<and> (\<forall>i < k. addr_at z i < a)
          \<and> (\<forall>i. k \<le> i \<longrightarrow> i < n \<longrightarrow> a \<le> addr_at z i)"
        by (intro less.hyps less.prems) (use i True in simp_all)
      then obtain k where "k \<le> n" "short_search_loop z a l ?i = Some k" "\<forall>i < k. addr_at z i < a"
        "\<forall>i. k \<le> i \<longrightarrow> i < n \<longrightarrow> a \<le> addr_at z i"
        by blast
      with True s ge show ?thesis
        by (intro exI [of _ k]) (subst short_search_loop.simps, simp add: Let_def)
    qed
  qed
qed

lemma add_sorted_loop_spec:
  assumes "sorted_refs_ok z n" and "\<forall>i j. i \<le> j \<longrightarrow> j < n \<longrightarrow> addr_at z i \<le> addr_at z j"
  shows "l \<le> r \<Longrightarrow> r \<le> n \<Longrightarrow> \<forall>i < l. addr_at z i \<le> a \<Longrightarrow> \<forall>i. r \<le> i \<longrightarrow> i < n \<longrightarrow> a < addr_at z i \<Longrightarrow>
    \<exists>k \<le> n. add_sorted_loop z a l r = Some k \<and> (\<forall>i < k. addr_at z i \<le> a) \<and> (\<forall>i. k \<le> i \<longrightarrow> i < n \<longrightarrow> a < addr_at z i)"
proof (induction "r - l" arbitrary: l r rule: less_induct)
  case less
  show ?case
  proof (cases "l < r")
    case False
    then have "add_sorted_loop z a l r = Some l" by (subst add_sorted_loop.simps) simp
    moreover have "r = l" using False less.prems(1) by simp
    ultimately have "add_sorted_loop z a l r = Some l" "r = l" by blast+
    with less.prems show ?thesis by blast
  next
    case True
    let ?i = "l + (r - l) div 2"
    have i: "l \<le> ?i" "?i < r" "?i < n" using True less.prems(2) by auto
    have s: "sorted_addr z ?i = Some (addr_at z ?i)" using sorted_addr_at [OF assms(1) i(3)] .
    show ?thesis
    proof (cases "addr_at z ?i \<le> a")
      case le: True
      have "\<forall>j < ?i + 1. addr_at z j \<le> a"
      proof (intro allI impI)
        fix j assume "j < ?i + 1"
        then have "addr_at z j \<le> addr_at z ?i" using assms(2) i by simp
        with le show "addr_at z j \<le> a" by simp
      qed
      then have "\<exists>k \<le> n. add_sorted_loop z a (?i + 1) r = Some k \<and> (\<forall>i < k. addr_at z i \<le> a)
          \<and> (\<forall>i. k \<le> i \<longrightarrow> i < n \<longrightarrow> a < addr_at z i)"
        by (intro less.hyps less.prems) (use i True in simp_all)
      then obtain k where "k \<le> n" "add_sorted_loop z a (?i + 1) r = Some k" "\<forall>i < k. addr_at z i \<le> a"
        "\<forall>i. k \<le> i \<longrightarrow> i < n \<longrightarrow> a < addr_at z i"
        by blast
      with True s le show ?thesis
        by (intro exI [of _ k]) (subst add_sorted_loop.simps, simp add: Let_def)
    next
      case gt: False
      have "\<forall>j. ?i \<le> j \<longrightarrow> j < n \<longrightarrow> a < addr_at z j"
      proof (intro allI impI)
        fix j assume "?i \<le> j" "j < n"
        then have "addr_at z ?i \<le> addr_at z j" using assms(2) by blast
        with gt show "a < addr_at z j" by simp
      qed
      then have "\<exists>k \<le> n. add_sorted_loop z a l ?i = Some k \<and> (\<forall>i < k. addr_at z i \<le> a)
          \<and> (\<forall>i. k \<le> i \<longrightarrow> i < n \<longrightarrow> a < addr_at z i)"
        by (intro less.hyps less.prems) (use i True in simp_all)
      then obtain k where "k \<le> n" "add_sorted_loop z a l ?i = Some k" "\<forall>i < k. addr_at z i \<le> a"
        "\<forall>i. k \<le> i \<longrightarrow> i < n \<longrightarrow> a < addr_at z i"
        by blast
      with True s gt show ?thesis
        by (intro exI [of _ k]) (subst add_sorted_loop.simps, simp add: Let_def)
    qed
  qed
qed


section \<open>The invariant of the sorted array\<close>

definition refs :: "zb_addr_globals \<Rightarrow> nat list" where
  "refs z = map unat (take (unat (n_sorted_elements z)) (short_sorted z))"

text \<open>
  The sorted prefix lists distinct references, strictly increasing by short address. The rest
  of the array holds whatever earlier operations left there.
\<close>

definition sorted_inv :: "zb_addr_globals \<Rightarrow> bool" where
  "sorted_inv z \<longleftrightarrow>
     length (short_sorted z) = 101 \<and> length (addr_map z) = 101 \<and> unat (n_sorted_elements z) \<le> 101
     \<and> (\<forall>r \<in> set (refs z). r < 101)
     \<and> sorted_wrt (<) (map (\<lambda>r. am_addr (addr_map z ! r)) (refs z))"

lemma length_refs: "sorted_inv z \<Longrightarrow> length (refs z) = unat (n_sorted_elements z)"
  by (simp add: refs_def sorted_inv_def)

lemma refs_nth: "sorted_inv z \<Longrightarrow> i < unat (n_sorted_elements z) \<Longrightarrow> refs z ! i = unat (short_sorted z ! i)"
  by (simp add: refs_def sorted_inv_def)

lemma addr_at_refs:
  "sorted_inv z \<Longrightarrow> i < unat (n_sorted_elements z) \<Longrightarrow> addr_at z i = am_addr (addr_map z ! (refs z ! i))"
  by (simp add: addr_at_def refs_nth)

lemma addr_at_less:
  assumes "sorted_inv z" and "i < j" and "j < unat (n_sorted_elements z)"
  shows "addr_at z i < addr_at z j"
proof -
  have "map (\<lambda>r. am_addr (addr_map z ! r)) (refs z) ! i < map (\<lambda>r. am_addr (addr_map z ! r)) (refs z) ! j"
    using assms length_refs [OF assms(1)] unfolding sorted_inv_def sorted_wrt_iff_nth_less by simp
  with assms show ?thesis by (simp add: addr_at_refs length_refs)
qed

lemma sorted_inv_search:
  assumes "sorted_inv z"
  shows "sorted_refs_ok z (unat (n_sorted_elements z))"
    "\<forall>i j. i \<le> j \<longrightarrow> j < unat (n_sorted_elements z) \<longrightarrow> addr_at z i \<le> addr_at z j"
proof -
  have "unat (short_sorted z ! i) < 101" if "i < unat (n_sorted_elements z)" for i
    using assms refs_nth [OF assms that] length_refs [OF assms] that
    by (metis nth_mem sorted_inv_def)
  with assms show "sorted_refs_ok z (unat (n_sorted_elements z))"
    by (simp add: sorted_refs_ok_def sorted_inv_def)
  show "\<forall>i j. i \<le> j \<longrightarrow> j < unat (n_sorted_elements z) \<longrightarrow> addr_at z i \<le> addr_at z j"
    using addr_at_less [OF assms] by (metis le_neq_implies_less less_imp_le order_refl)
qed

lemma sorted_inv_distinct: "sorted_inv z \<Longrightarrow> distinct (refs z)"
  by (auto simp: sorted_inv_def strict_sorted_iff distinct_map)

text \<open>The binary search finds the entry with the address exactly when there is one.\<close>

lemma short_search_found:
  assumes inv: "sorted_inv z" and r: "r \<in> set (refs z)"
  shows "short_search (am_addr (addr_map z ! r)) z = Some (Some r)"
proof -
  let ?n = "unat (n_sorted_elements z)" and ?a = "am_addr (addr_map z ! r)"
  obtain p where p: "p < ?n" "refs z ! p = r"
    using r length_refs [OF inv] by (auto simp: in_set_conv_nth)
  have ap: "addr_at z p = ?a" using addr_at_refs [OF inv p(1)] p(2) by simp
  obtain k where k: "k \<le> ?n" "short_search_loop z ?a 0 ?n = Some k" "\<forall>i < k. addr_at z i < ?a"
    "\<forall>i. k \<le> i \<longrightarrow> i < ?n \<longrightarrow> ?a \<le> addr_at z i"
    using short_search_loop_spec [OF sorted_inv_search [OF inv], of 0 ?n ?a] by auto
  have "k = p"
  proof -
    have "k \<le> p" using k(3) ap by (metis less_irrefl not_less)
    moreover have "\<not> k < p" using addr_at_less [OF inv, of k p] k(4) p(1) ap by (metis leD less_trans order_refl)
    ultimately show ?thesis by simp
  qed
  then have l: "(if ?n > 1 then short_search_loop z ?a 0 ?n else Some 0) = Some p"
    using k(2) p(1) by auto
  have "sorted_addr z p = Some ?a" using sorted_addr_at [OF sorted_inv_search(1) [OF inv] p(1)] ap by simp
  moreover have "arr_get (short_sorted z) p = Some (short_sorted z ! p)" "unat (short_sorted z ! p) = r"
    using p inv refs_nth [OF inv p(1)] by (simp_all add: sorted_inv_def)
  ultimately show ?thesis
    unfolding short_search_def Let_def l using p(1) by simp
qed

lemma short_search_absent:
  assumes inv: "sorted_inv z" and no: "\<forall>r \<in> set (refs z). am_addr (addr_map z ! r) \<noteq> a"
  shows "short_search a z = Some None"
proof -
  let ?n = "unat (n_sorted_elements z)"
  obtain k where k: "k \<le> ?n" "short_search_loop z a 0 ?n = Some k"
    using short_search_loop_spec [OF sorted_inv_search [OF inv], of 0 ?n a] by auto
  obtain l where l: "(if ?n > 1 then short_search_loop z a 0 ?n else Some 0) = Some l" using k by (cases "?n > 1") auto
  have "sorted_addr z l = Some (addr_at z l)" "addr_at z l \<noteq> a" if "l < ?n"
  proof -
    show "sorted_addr z l = Some (addr_at z l)" using sorted_addr_at [OF sorted_inv_search(1) [OF inv] that] .
    have "refs z ! l \<in> set (refs z)" using that length_refs [OF inv] by simp
    with no addr_at_refs [OF inv that] show "addr_at z l \<noteq> a" by simp
  qed
  then show ?thesis unfolding short_search_def Let_def l by auto
qed

text \<open>Insertion into the sorted array.\<close>

definition put_at :: "nat \<Rightarrow> 'a \<Rightarrow> 'a list \<Rightarrow> 'a list" where
  "put_at l x xs = take l xs @ x # drop l xs"

lemma set_put_at [simp]: "set (put_at l x xs) = insert x (set xs)"
  unfolding put_at_def by (metis Un_insert_right append_take_drop_id list.simps(15) set_append)

lemma array_insert:
  assumes "l \<le> n" and "n < length s"
  shows "\<exists>s' s''. (if l < n then arr_move s (l + 1) l (n - l) else Some s) = Some s'
    \<and> arr_set s' l v = Some s'' \<and> length s'' = length s \<and> take (n + 1) s'' = put_at l v (take n s)"
proof -
  let ?s' = "if l < n then take (l + 1) s @ take (n - l) (drop l s) @ drop (n + 1) s else s"
  have m: "(if l < n then arr_move s (l + 1) l (n - l) else Some s) = Some ?s'"
    using assms arr_move_in [of "l + 1" "n - l" s l] by auto
  have len: "length ?s' = length s" using assms by auto
  have "take (n + 1) (?s'[l := v]) = put_at l v (take n s)"
  proof (rule nth_equalityI)
    show "length (take (n + 1) (?s'[l := v])) = length (put_at l v (take n s))"
      using len assms by (auto simp: put_at_def)
    fix i assume "i < length (take (n + 1) (?s'[l := v]))"
    then have i: "i < n + 1" using len assms by auto
    show "take (n + 1) (?s'[l := v]) ! i = put_at l v (take n s) ! i"
      using i assms by (cases "i = l"; cases "i < l") (auto simp: put_at_def nth_append nth_Cons' min_def)
  qed
  with m len assms show ?thesis
    by (intro exI [of _ ?s'] exI [of _ "?s'[l := v]"]) simp
qed

lemma sorted_put_at:
  fixes xs :: "'a::linorder list"
  assumes "sorted_wrt (<) xs" and "\<forall>x \<in> set (take l xs). x < v" and "\<forall>x \<in> set (drop l xs). v < x"
  shows "sorted_wrt (<) (put_at l v xs)"
proof -
  have "sorted_wrt (<) (take l xs @ drop l xs)" using assms(1) by simp
  then show ?thesis
    unfolding put_at_def sorted_wrt_append using assms(2,3) by (auto intro: less_trans)
qed

lemma map_put_at: "map f (put_at l v xs) = put_at l (f v) (map f xs)"
  by (simp add: put_at_def take_map drop_map)

lemma add_short_sorted_ok:
  assumes inv: "sorted_inv z" and r: "ref < 101" "ref \<notin> set (refs z)"
    and new: "\<forall>r \<in> set (refs z). am_addr (addr_map z ! r) \<noteq> am_addr (addr_map z ! ref)"
  shows "\<exists>s. add_short_sorted ref (am_addr (addr_map z ! ref)) z
      = Some (z\<lparr>short_sorted := s, n_sorted_elements := n_sorted_elements z + 1\<rparr>)
    \<and> sorted_inv (z\<lparr>short_sorted := s, n_sorted_elements := n_sorted_elements z + 1\<rparr>)
    \<and> set (refs (z\<lparr>short_sorted := s, n_sorted_elements := n_sorted_elements z + 1\<rparr>)) = insert ref (set (refs z))"
proof -
  let ?n = "unat (n_sorted_elements z)" and ?a = "am_addr (addr_map z ! ref)"
  note I = inv [unfolded sorted_inv_def]
  have lr: "length (refs z) = ?n" using length_refs [OF inv] .
  have n: "?n < 101"
  proof -
    have "card (insert ref (set (refs z))) \<le> card {..<101::nat}"
      using I r by (intro card_mono) auto
    moreover have "card (insert ref (set (refs z))) = Suc ?n"
      using r(2) distinct_card [OF sorted_inv_distinct [OF inv]] lr by simp
    ultimately show ?thesis by simp
  qed
  have ne: "addr_at z i \<noteq> ?a" if "i < ?n" for i
  proof -
    have "refs z ! i \<in> set (refs z)" using that lr by simp
    with new addr_at_refs [OF inv that] show ?thesis by simp
  qed
  note S = sorted_inv_search [OF inv]
  obtain k where k: "k \<le> ?n" "add_sorted_loop z ?a 0 ?n = Some k" "\<forall>i < k. addr_at z i \<le> ?a"
    "\<forall>i. k \<le> i \<longrightarrow> i < ?n \<longrightarrow> ?a < addr_at z i"
    using add_sorted_loop_spec [OF S, of 0 ?n ?a] by auto
  obtain l0 where l0: "(if ?n > 1 then add_sorted_loop z ?a 0 ?n else Some 0) = Some l0"
      and l0n: "l0 \<le> ?n" and l0k: "?n > 1 \<Longrightarrow> l0 = k" "\<not> ?n > 1 \<Longrightarrow> l0 = 0"
    using k by (cases "?n > 1") auto
  define l where "l = (if ?n > 0 \<and> l0 < ?n \<and> addr_at z l0 < ?a then l0 + 1 else l0)"
  have sa: "l0 < ?n \<Longrightarrow> sorted_addr z l0 = Some (addr_at z l0)" using sorted_addr_at [OF S(1)] by blast
  have l1: "(if ?n > 0 \<and> l0 < ?n then do { a \<leftarrow> sorted_addr z l0; Some (if a < ?a then l0 + 1 else l0) }
      else Some l0) = Some l"
    using sa by (auto simp: l_def)
  have ln: "l \<le> ?n" using l0n by (auto simp: l_def)
  have lo: "\<forall>i < l. addr_at z i < ?a" and hi: "\<forall>i. l \<le> i \<longrightarrow> i < ?n \<longrightarrow> ?a < addr_at z i"
  proof -
    have "(\<forall>i < l. addr_at z i < ?a) \<and> (\<forall>i. l \<le> i \<longrightarrow> i < ?n \<longrightarrow> ?a < addr_at z i)"
    proof (cases "?n > 1")
      case True
      then have "l0 = k" by (rule l0k)
      moreover have "\<not> (k < ?n \<and> addr_at z k < ?a)" using k(4) by (meson less_asym order_refl)
      ultimately have "l = k" by (auto simp: l_def)
      moreover have "\<forall>i < k. addr_at z i < ?a" using k(1,3) ne by (meson le_neq_trans less_le_trans)
      ultimately show ?thesis using k(4) by blast
    next
      case False
      then have l0z: "l0 = 0" by (rule l0k)
      show ?thesis
      proof (cases "?n = 0")
        case True
        with l0z show ?thesis by (simp add: l_def)
      next
        case n0: False
        with False have n1: "?n = 1" by simp
        show ?thesis
        proof (cases "addr_at z 0 < ?a")
          case True
          with n1 l0z have "l = 1" by (simp add: l_def)
          with True n1 show ?thesis by auto
        next
          case False
          with n1 l0z ne [of 0] have "l = 0" "?a < addr_at z 0" by (simp_all add: l_def)
          with n1 show ?thesis by auto
        qed
      qed
    qed
    then show "\<forall>i < l. addr_at z i < ?a" and "\<forall>i. l \<le> i \<longrightarrow> i < ?n \<longrightarrow> ?a < addr_at z i" by blast+
  qed
  obtain s' s where mv: "(if l < ?n then arr_move (short_sorted z) (l + 1) l (?n - l) else Some (short_sorted z)) = Some s'"
    and st: "arr_set s' l (of_nat ref) = Some s" and ls: "length s = length (short_sorted z)"
    and tk: "take (?n + 1) s = put_at l (of_nat ref) (take ?n (short_sorted z))"
    using array_insert [OF ln, of "short_sorted z" "of_nat ref"] n I by auto
  let ?z = "z\<lparr>short_sorted := s, n_sorted_elements := n_sorted_elements z + 1\<rparr>"
  have run: "add_short_sorted ref ?a z = Some ?z"
    unfolding add_short_sorted_def Let_def l0 using l1 mv st by simp
  have n1: "unat (n_sorted_elements z + 1) = ?n + 1" using n by (simp add: unat_word_ariths(1))
  have ur: "unat (of_nat ref :: u8) = ref" using r(1) by simp
  have rf: "refs ?z = put_at l ref (refs z)"
    unfolding refs_def using tk n1 ur by (simp add: map_put_at)
  have "sorted_wrt (<) (put_at l ?a (map (\<lambda>r. am_addr (addr_map z ! r)) (refs z)))"
  proof (rule sorted_put_at)
    show "sorted_wrt (<) (map (\<lambda>r. am_addr (addr_map z ! r)) (refs z))" using I by blast
    show "\<forall>x \<in> set (take l (map (\<lambda>r. am_addr (addr_map z ! r)) (refs z))). x < ?a"
      using lo ln addr_at_refs [OF inv] lr by (auto simp: in_set_conv_nth)
    show "\<forall>x \<in> set (drop l (map (\<lambda>r. am_addr (addr_map z ! r)) (refs z))). ?a < x"
      using hi ln addr_at_refs [OF inv] lr by (auto simp: in_set_conv_nth)
  qed
  then have "sorted_inv ?z"
    unfolding sorted_inv_def rf map_put_at using I ls n1 n r(1) by simp
  with run rf show ?thesis by (intro exI [of _ s]) simp
qed

section \<open>Deletion from the sorted array\<close>

lemma del_loop_end: "\<not> i < n \<Longrightarrow> del_sorted_loop ref n i s dec = Some (s, dec)"
  by (subst del_sorted_loop.simps) simp

lemma del_loop_skip:
  "i < n \<Longrightarrow> n \<le> length s \<Longrightarrow> unat (s ! i) \<noteq> ref \<Longrightarrow>
   del_sorted_loop ref n i s dec = del_sorted_loop ref n (i + 1) s dec"
  by (subst del_sorted_loop.simps) simp

lemma del_loop_skips:
  "i \<le> k \<Longrightarrow> k \<le> n \<Longrightarrow> n \<le> length s \<Longrightarrow> \<forall>j. i \<le> j \<longrightarrow> j < k \<longrightarrow> unat (s ! j) \<noteq> ref \<Longrightarrow>
   del_sorted_loop ref n i s dec = del_sorted_loop ref n k s dec"
proof (induction "k - i" arbitrary: i)
  case (Suc m)
  then have "del_sorted_loop ref n i s dec = del_sorted_loop ref n (i + 1) s dec"
    by (intro del_loop_skip) auto
  also have "\<dots> = del_sorted_loop ref n k s dec" using Suc by (intro Suc.hyps(1)) auto
  finally show ?case .
qed simp

text \<open>
  Deleting the reference at position \<open>p\<close>. Unless it is the last one, the byte after the sorted
  prefix is moved into it, and the loop then looks at that byte as well.
\<close>

lemma del_loop_at:
  assumes p: "p < n" "n < length s" "unat (s ! p) = ref"
    and only: "\<forall>j < n. j \<noteq> p \<longrightarrow> unat (s ! j) \<noteq> ref"
  shows "\<exists>s'. del_sorted_loop ref n 0 s 0 = Some (s', if p \<noteq> n - 1 \<and> unat (s ! n) = ref then 2 else 1)
    \<and> length s' = length s \<and> take (n - 1) s' = take p s @ take (n - 1 - p) (drop (p + 1) s)"
proof -
  have to_p: "del_sorted_loop ref n 0 s 0 = del_sorted_loop ref n p s 0"
    using p only by (intro del_loop_skips) auto
  show ?thesis
  proof (cases "p = n - 1")
    case True
    then have "del_sorted_loop ref n p s 0 = del_sorted_loop ref n (p + 1) s 1"
      using p by (subst del_sorted_loop.simps) simp
    also have "\<dots> = Some (s, 1)" using True p by (intro del_loop_end) simp
    finally show ?thesis using to_p True by simp
  next
    case False
    obtain s1 where mv: "arr_move s p (p + 1) (n - p) = Some s1" and len: "length s1 = length s"
      using p arr_move_in [of p "n - p" s "p + 1"] arr_move_length [of s p "p + 1" "n - p"] by auto
    have nth: "s1 ! j = (if p \<le> j \<and> j < n then s ! (j + 1) else s ! j)" if "j < length s" for j
      using arr_move_nth [OF mv that] p by auto
    have "del_sorted_loop ref n p s 0 = del_sorted_loop ref n (p + 1) s1 1"
      using p mv False by (subst del_sorted_loop.simps) simp
    also have "\<dots> = del_sorted_loop ref n (n - 1) s1 1"
      using p False len nth only by (intro del_loop_skips) auto
    also have "\<dots> = Some (s1, if unat (s ! n) = ref then 2 else 1)"
    proof -
      have "n - 1 + 1 = n" "p \<le> n - 1" "n - 1 < n" "n - 1 < length s" using p by auto
      then have last: "s1 ! (n - 1) = s ! n" using nth [of "n - 1"] by simp
      have "del_sorted_loop ref n (n - 1) s1 1
          = del_sorted_loop ref n n s1 (if unat (s ! n) = ref then 2 else 1)"
        using p False len last by (subst del_sorted_loop.simps) (simp add: numeral_2_eq_2)
      then show ?thesis by (simp add: del_loop_end)
    qed
    finally have run: "del_sorted_loop ref n 0 s 0 = Some (s1, if unat (s ! n) = ref then 2 else 1)"
      using to_p by simp
    have "take (n - 1) s1 = take p s @ take (n - 1 - p) (drop (p + 1) s)"
    proof (rule nth_equalityI)
      show "length (take (n - 1) s1) = length (take p s @ take (n - 1 - p) (drop (p + 1) s))"
        using p len by auto
      fix j assume "j < length (take (n - 1) s1)"
      then have j: "j < n - 1" "j < length s" using len by auto
      with nth [OF j(2)] p show "take (n - 1) s1 ! j = (take p s @ take (n - 1 - p) (drop (p + 1) s)) ! j"
        by (auto simp: nth_append)
    qed
    with run len False show ?thesis by (intro exI [of _ s1]) simp
  qed
qed

lemma take_drop_map: "map f (take k (drop j xs)) = take k (drop j (map f xs))"
  by (simp add: take_map drop_map)

lemma del_short_sorted_at:
  assumes inv: "sorted_inv z" and n: "unat (n_sorted_elements z) < 101" and split: "refs z = as @ ref # bs"
    and stale: "bs = [] \<or> unat (short_sorted z ! unat (n_sorted_elements z)) \<noteq> ref"
  shows "\<exists>s. del_short_sorted ref z = Some (z\<lparr>short_sorted := s, n_sorted_elements := n_sorted_elements z - 1\<rparr>)
    \<and> sorted_inv (z\<lparr>short_sorted := s, n_sorted_elements := n_sorted_elements z - 1\<rparr>)
    \<and> refs (z\<lparr>short_sorted := s, n_sorted_elements := n_sorted_elements z - 1\<rparr>) = as @ bs"
proof -
  let ?n = "unat (n_sorted_elements z)" and ?p = "length as"
  note I = inv [unfolded sorted_inv_def]
  have len: "?n = length as + 1 + length bs" using length_refs [OF inv] split by simp
  have at: "unat (short_sorted z ! i) = refs z ! i" if "i < ?n" for i using refs_nth [OF inv that] by simp
  have only: "\<forall>j < ?n. j \<noteq> ?p \<longrightarrow> unat (short_sorted z ! j) \<noteq> ref"
  proof (intro allI impI)
    fix j assume j: "j < ?n" "j \<noteq> ?p"
    have "refs z ! ?p = ref" using split by simp
    with sorted_inv_distinct [OF inv] j len split have "refs z ! j \<noteq> ref"
      by (metis length_refs [OF inv] nth_eq_iff_index_eq less_add_Suc1 add.commute add.left_commute plus_1_eq_Suc trans_less_add1 lessI)
    with at [OF j(1)] show "unat (short_sorted z ! j) \<noteq> ref" by simp
  qed
  have pn: "?p < ?n" using len by simp
  have "unat (short_sorted z ! ?p) = ref" using at [OF pn] split by simp
  from del_loop_at [OF pn _ this only] n I obtain s where
    run: "del_sorted_loop ref ?n 0 (short_sorted z) 0
        = Some (s, if ?p \<noteq> ?n - 1 \<and> unat (short_sorted z ! ?n) = ref then 2 else 1)"
    and ls: "length s = 101"
    and tk: "take (?n - 1) s = take ?p (short_sorted z) @ take (?n - 1 - ?p) (drop (?p + 1) (short_sorted z))"
    by auto
  have one: "\<not> (?p \<noteq> ?n - 1 \<and> unat (short_sorted z ! ?n) = ref)" using stale len by auto
  let ?z = "z\<lparr>short_sorted := s, n_sorted_elements := n_sorted_elements z - 1\<rparr>"
  have go: "del_short_sorted ref z = Some ?z" using run one by (simp add: del_short_sorted_def)
  have n1: "unat (n_sorted_elements z - 1) = ?n - 1" using len by (simp add: unat_sub word_le_nat_alt)
  have rf: "refs ?z = as @ bs"
  proof -
    have "map unat (take (?n - 1) s) = take ?p (map unat (take ?n (short_sorted z)))
        @ drop (?p + 1) (map unat (take ?n (short_sorted z)))"
      unfolding tk using len by (simp add: take_map drop_map drop_take min_def)
    then show ?thesis using split n1 by (simp add: refs_def)
  qed
  have "sorted_inv ?z"
    unfolding sorted_inv_def rf using I ls n1 split by (auto simp: sorted_wrt_append)
  with go rf show ?thesis by blast
qed

lemma del_short_sorted_absent:
  assumes inv: "sorted_inv z" and no: "ref \<notin> set (refs z)"
  shows "del_short_sorted ref z = Some z"
proof -
  let ?n = "unat (n_sorted_elements z)"
  have "\<forall>j. 0 \<le> j \<longrightarrow> j < ?n \<longrightarrow> unat (short_sorted z ! j) \<noteq> ref"
    using no refs_nth [OF inv] length_refs [OF inv] by (metis nth_mem)
  then have "del_sorted_loop ref ?n 0 (short_sorted z) 0 = del_sorted_loop ref ?n ?n (short_sorted z) 0"
    using inv by (intro del_loop_skips) (auto simp: sorted_inv_def)
  then show ?thesis by (simp add: del_short_sorted_def del_loop_end)
qed

text \<open>The loss: a stale copy of the reference just behind the prefix makes the deletion drop two entries.\<close>

lemma del_short_sorted_loses:
  assumes inv: "sorted_inv z" and n: "unat (n_sorted_elements z) < 101" and split: "refs z = as @ ref # bs @ [b]"
    and stale: "unat (short_sorted z ! unat (n_sorted_elements z)) = ref"
  shows "\<exists>z'. del_short_sorted ref z = Some z' \<and> refs z' = as @ bs"
proof -
  let ?n = "unat (n_sorted_elements z)" and ?p = "length as"
  note I = inv [unfolded sorted_inv_def]
  have len: "?n = length as + 2 + length bs" using length_refs [OF inv] split by simp
  have at: "unat (short_sorted z ! i) = refs z ! i" if "i < ?n" for i using refs_nth [OF inv that] by simp
  have only: "\<forall>j < ?n. j \<noteq> ?p \<longrightarrow> unat (short_sorted z ! j) \<noteq> ref"
  proof (intro allI impI)
    fix j assume j: "j < ?n" "j \<noteq> ?p"
    have "refs z ! ?p = ref" "?p < length (refs z)" "j < length (refs z)"
      using split len j length_refs [OF inv] by simp_all
    with sorted_inv_distinct [OF inv] j have "refs z ! j \<noteq> ref" by (metis nth_eq_iff_index_eq)
    with at [OF j(1)] show "unat (short_sorted z ! j) \<noteq> ref" by simp
  qed
  have pn: "?p < ?n" using len by simp
  have "unat (short_sorted z ! ?p) = ref" using at [OF pn] split by simp
  from del_loop_at [OF pn _ this only] n I obtain s where
    run: "del_sorted_loop ref ?n 0 (short_sorted z) 0
        = Some (s, if ?p \<noteq> ?n - 1 \<and> unat (short_sorted z ! ?n) = ref then 2 else 1)"
    and tk: "take (?n - 1) s = take ?p (short_sorted z) @ take (?n - 1 - ?p) (drop (?p + 1) (short_sorted z))"
    by auto
  let ?z = "z\<lparr>short_sorted := s, n_sorted_elements := n_sorted_elements z - 2\<rparr>"
  have go: "del_short_sorted ref z = Some ?z" using run stale len by (simp add: del_short_sorted_def)
  have n2: "unat (n_sorted_elements z - 2) = ?n - 2" using len by (simp add: unat_sub word_le_nat_alt)
  have "map unat (take (?n - 1) s) = take ?p (map unat (take ?n (short_sorted z)))
        @ drop (?p + 1) (map unat (take ?n (short_sorted z)))"
    unfolding tk using len by (simp add: take_map drop_map drop_take min_def)
  then have m: "map unat (take (?n - 1) s) = as @ bs @ [b]" using split by (simp add: refs_def)
  have "map unat (take (?n - 2) s) = take (?n - 2) (map unat (take (?n - 1) s))"
    by (simp add: take_map min_def)
  then have "refs ?z = take (?n - 2) (as @ bs @ [b])"
    unfolding m refs_def using n2 by simp
  also have "\<dots> = as @ bs" using len by simp
  finally show ?thesis using go by blast
qed

section \<open>Ageing\<close>

text \<open>One entry that is in use and not locked has lost its clock bit, or nothing has.\<close>

definition aged :: "zb_address_map list \<Rightarrow> zb_address_map list \<Rightarrow> bool" where
  "aged m m' \<longleftrightarrow> m' = m \<or> (\<exists>i < length m. am_used (m ! i) \<and> am_lock_cnt (m ! i) = 0
     \<and> m' = m[i := (m ! i)\<lparr>am_clock := False\<rparr>])"

lemma clock_loop_ok:
  "length (addr_map z) = 101 \<Longrightarrow> bound \<le> 101 \<Longrightarrow> clock_i z \<le> 101 \<Longrightarrow>
   \<exists>f c m k. clock_loop bound cnt z = Some (f, c, z\<lparr>addr_map := m, clock_i := k\<rparr>) \<and> k \<le> 101
     \<and> aged (addr_map z) m \<and> (\<not> f \<longrightarrow> m = addr_map z)"
proof (induction bound cnt z rule: clock_loop.induct)
  case (1 bound cnt z)
  show ?case
  proof (cases "clock_i z < bound \<and> cnt < unat (n_elements z)")
    case False
    then have "clock_loop bound cnt z = Some (False, cnt, z\<lparr>addr_map := addr_map z, clock_i := clock_i z\<rparr>)"
      by (subst clock_loop.simps) auto
    with 1 show ?thesis unfolding aged_def by blast
  next
    case True
    let ?i = "unat (clock_i z)" and ?z = "z\<lparr>clock_i := clock_i z + 1\<rparr>"
    let ?e = "addr_map z ! ?i"
    have c: "clock_i z < 101" using True 1(4) by (meson order_less_le_trans)
    then have i: "?i < 101" by (simp add: word_less_nat_alt)
    have k: "clock_i z + 1 \<le> 101"
      using c unat_Suc_less [OF c] by (simp add: word_less_nat_alt word_le_nat_alt)
    have e: "arr_get (addr_map z) ?i = Some ?e" using i 1(3) by simp
    show ?thesis
    proof (cases "am_used ?e \<and> am_lock_cnt ?e = 0")
      case hit: True
      let ?m = "(addr_map z)[?i := ?e\<lparr>am_clock := False\<rparr>]"
      have "clock_loop bound cnt z = Some (True, cnt + 1, z\<lparr>addr_map := ?m, clock_i := clock_i z + 1\<rparr>)"
        using True e hit by (subst clock_loop.simps) (simp add: Let_def)
      moreover have "aged (addr_map z) ?m" using hit i 1(3) unfolding aged_def by auto
      ultimately show ?thesis using k by blast
    next
      case miss: False
      obtain c' where step: "clock_loop bound cnt z = clock_loop bound c' ?z"
        and IH: "\<exists>f c m k. clock_loop bound c' ?z = Some (f, c, ?z\<lparr>addr_map := m, clock_i := k\<rparr>) \<and> k \<le> 101
          \<and> aged (addr_map ?z) m \<and> (\<not> f \<longrightarrow> m = addr_map ?z)"
      proof (cases "am_used ?e")
        case u: True
        have "clock_loop bound cnt z = clock_loop bound (cnt + 1) ?z"
          using True e miss u by (subst clock_loop.simps) (simp add: Let_def)
        moreover have "\<exists>f c m k. clock_loop bound (cnt + 1) ?z = Some (f, c, ?z\<lparr>addr_map := m, clock_i := k\<rparr>) \<and> k \<le> 101
            \<and> aged (addr_map ?z) m \<and> (\<not> f \<longrightarrow> m = addr_map ?z)"
          using 1(1) [OF True e refl refl u] miss u 1(3,4) k by simp
        ultimately show ?thesis by (rule that)
      next
        case u: False
        have "clock_loop bound cnt z = clock_loop bound cnt ?z"
          using True e u by (subst clock_loop.simps) (simp add: Let_def)
        moreover have "\<exists>f c m k. clock_loop bound cnt ?z = Some (f, c, ?z\<lparr>addr_map := m, clock_i := k\<rparr>) \<and> k \<le> 101
            \<and> aged (addr_map ?z) m \<and> (\<not> f \<longrightarrow> m = addr_map ?z)"
          using 1(2) [OF True e refl refl u] 1(3,4) k by simp
        ultimately show ?thesis by (rule that)
      qed
      from IH obtain f c2 m k2 where "clock_loop bound c' ?z = Some (f, c2, ?z\<lparr>addr_map := m, clock_i := k2\<rparr>)"
        "k2 \<le> 101" "aged (addr_map z) m" "\<not> f \<longrightarrow> m = addr_map z" by auto
      with step show ?thesis by (intro exI [of _ f] exI [of _ c2] exI [of _ m] exI [of _ k2]) simp
    qed
  qed
qed

lemma clock_tick_ok:
  assumes "length (addr_map z) = 101" and "clock_i z \<le> 101"
  shows "\<exists>m k. clock_tick z = Some (z\<lparr>addr_map := m, clock_i := k\<rparr>) \<and> k \<le> 101 \<and> aged (addr_map z) m"
proof -
  obtain f c m k where r: "clock_loop 101 0 z = Some (f, c, z\<lparr>addr_map := m, clock_i := k\<rparr>)" "k \<le> 101"
      "aged (addr_map z) m" "\<not> f \<longrightarrow> m = addr_map z"
    using clock_loop_ok [OF assms(1) _ assms(2), of 101 0] by auto
  have lim: "of_nat ZB_IEEE_ADDR_TABLE_SIZE = (101 :: u32)" by (simp add: ZB_IEEE_ADDR_TABLE_SIZE_def)
  show ?thesis
  proof (cases "\<not> f \<and> c < unat (n_elements z)")
    case False
    with r show ?thesis unfolding clock_tick_def lim Let_def by auto
  next
    case True
    let ?z = "z\<lparr>addr_map := m, clock_i := 0\<rparr>"
    obtain f' c' m' k' where r': "clock_loop (clock_i z) c ?z = Some (f', c', ?z\<lparr>addr_map := m', clock_i := k'\<rparr>)"
        "k' \<le> 101" "aged (addr_map ?z) m'"
      using clock_loop_ok [of ?z "clock_i z" c] r True assms by auto
    with r True show ?thesis
      unfolding clock_tick_def lim Let_def by (intro exI [of _ m'] exI [of _ k']) simp
  qed
qed

section \<open>The invariant of the address table\<close>

definition used_refs :: "zb_address_map list \<Rightarrow> nat set" where
  "used_refs m = {r. r < 101 \<and> am_used (m ! r)}"

definition addr_inv :: "zb_addr_globals \<Rightarrow> bool" where
  "addr_inv z \<longleftrightarrow> sorted_inv z \<and> clock_i z \<le> 101
     \<and> set (refs z) = {r \<in> used_refs (addr_map z). am_addr (addr_map z ! r) \<noteq> 0xffff}
     \<and> unat (n_elements z) = card (used_refs (addr_map z))"

lemma finite_used [simp]: "finite (used_refs m)"
  by (simp add: used_refs_def)

lemma aged_props:
  assumes "aged m m'"
  shows "length m' = length m" "am_addr (m' ! r) = am_addr (m ! r)" "am_used (m' ! r) = am_used (m ! r)"
    "am_ieee (m' ! r) = am_ieee (m ! r)" "am_lock_cnt (m' ! r) = am_lock_cnt (m ! r)"
  using assms by (auto simp: aged_def nth_list_update split: if_splits)

lemma addr_inv_cong:
  assumes "addr_inv z" and "length m = length (addr_map z)"
    and "\<And>r. r < 101 \<Longrightarrow> am_addr (m ! r) = am_addr (addr_map z ! r) \<and> am_used (m ! r) = am_used (addr_map z ! r)"
    and "k \<le> 101"
  shows "addr_inv (z\<lparr>addr_map := m, clock_i := k\<rparr>)"
proof -
  have r: "refs (z\<lparr>addr_map := m, clock_i := k\<rparr>) = refs z" by (simp add: refs_def)
  have eq: "map (\<lambda>r. am_addr (m ! r)) (refs z) = map (\<lambda>r. am_addr (addr_map z ! r)) (refs z)"
    using assms(1,3) by (auto simp: addr_inv_def sorted_inv_def)
  have "sorted_wrt (<) (map (\<lambda>r. am_addr (m ! r)) (refs z))"
    unfolding eq using assms(1) by (simp add: addr_inv_def sorted_inv_def)
  moreover have "used_refs m = used_refs (addr_map z)" using assms(3) by (auto simp: used_refs_def)
  moreover have "{r \<in> used_refs (addr_map z). am_addr (m ! r) \<noteq> 0xffff}
      = {r \<in> used_refs (addr_map z). am_addr (addr_map z ! r) \<noteq> 0xffff}"
    using assms(3) by (auto simp: used_refs_def)
  ultimately show ?thesis using assms unfolding addr_inv_def sorted_inv_def r by simp
qed

lemma hash_lt: "zb_address_compressed_ieee_hash c < 101"
  by (simp add: zb_address_compressed_ieee_hash_def Let_def ZB_IEEE_ADDR_TABLE_SIZE_def)

lemma addr_add_probe:
  assumes "length (addr_map z) = 101" and "h < 101"
  shows "ring_walk ZB_IEEE_ADDR_TABLE_SIZE h (addr_add_step z) h ()
    = Some (case find (\<lambda>i. \<not> am_used (addr_map z ! i)) (ring_from 101 h) of Some i \<Rightarrow> Inl i | None \<Rightarrow> Inr ())"
proof -
  have "walk_list (addr_add_step z) () (ring_from 101 h)
      = Some (case find (\<lambda>i. \<not> am_used (addr_map z ! i)) (ring_from 101 h) of Some i \<Rightarrow> Inl i | None \<Rightarrow> Inr ())"
    by (rule walk_list_find) (use assms in \<open>auto simp: addr_add_step_def\<close>)
  then show ?thesis unfolding ZB_IEEE_ADDR_TABLE_SIZE_def ring_walk_eq [OF assms(2)] .
qed

text \<open>The probing loop as a recursion over the table, for evaluation.\<close>

lemma addr_add_eval [code]:
  "addr_add c a z =
     (let i = (case c of Some c \<Rightarrow> zb_address_compressed_ieee_hash c | None \<Rightarrow> 0) in
      do {
        r \<leftarrow> walk_list (addr_add_step z) () (ring_from 101 i);
        (case r of
           Inr _ \<Rightarrow> Some (RET_OVERFLOW, None, z)
         | Inl i \<Rightarrow> do {
             z \<leftarrow> clock_tick z;
             e \<leftarrow> arr_get (addr_map z) i;
             m \<leftarrow> arr_set (addr_map z) i (addr_ent_init c a e);
             let z = z\<lparr>addr_map := m\<rparr>;
             z \<leftarrow> (if a \<noteq> 0xffff then do {
                      z \<leftarrow> (if am_used e then del_short_sorted i z else Some z);
                      add_short_sorted i a z }
                    else Some z);
             m \<leftarrow> arr_set (addr_map z) i ((addr_map z ! i)\<lparr>am_used := True\<rparr>);
             Some (RET_OK, Some i,
                   z\<lparr>n_elements := n_elements z + (if am_used e then 0 else 1), addr_map := m\<rparr>) }) })"
proof -
  have "ring_walk ZB_IEEE_ADDR_TABLE_SIZE i b i () = walk_list b () (ring_from 101 i)"
    if "i = (case c of Some c \<Rightarrow> zb_address_compressed_ieee_hash c | None \<Rightarrow> 0)"
    for i and b :: "nat \<Rightarrow> unit \<Rightarrow> (nat + unit) option"
    unfolding ZB_IEEE_ADDR_TABLE_SIZE_def by (rule ring_walk_eq) (use that hash_lt in \<open>simp split: option.splits\<close>)
  then show ?thesis unfolding addr_add_def by (simp only: Let_def)
qed

lemma addr_add_full:
  assumes inv: "addr_inv z" and full: "used_refs (addr_map z) = {..<101}"
  shows "addr_add c a z = Some (RET_OVERFLOW, None, z)"
proof -
  let ?h = "case c of Some c \<Rightarrow> zb_address_compressed_ieee_hash c | None \<Rightarrow> 0"
  have h: "?h < 101" by (cases c) (simp_all add: hash_lt)
  have u: "\<forall>i < 101. am_used (addr_map z ! i)" using full by (auto simp: used_refs_def)
  have "find (\<lambda>i. \<not> am_used (addr_map z ! i)) (ring_from 101 ?h) = None"
    unfolding find_none_set using u h by simp
  with addr_add_probe [OF _ h] inv show ?thesis
    by (simp add: addr_add_def Let_def addr_inv_def sorted_inv_def)
qed

text \<open>Adding an entry for a short address no entry has yet, or for none.\<close>

lemma addr_add_ok:
  assumes inv: "addr_inv z" and room: "used_refs (addr_map z) \<noteq> {..<101}"
    and new: "a \<noteq> 0xffff \<longrightarrow> (\<forall>r \<in> used_refs (addr_map z). am_addr (addr_map z ! r) \<noteq> a)"
  shows "\<exists>i z'. addr_add c a z = Some (RET_OK, Some i, z') \<and> i < 101 \<and> i \<notin> used_refs (addr_map z)
    \<and> addr_inv z' \<and> used_refs (addr_map z') = insert i (used_refs (addr_map z))
    \<and> am_addr (addr_map z' ! i) = a \<and> am_ieee (addr_map z' ! i) = (case c of Some c \<Rightarrow> c | None \<Rightarrow> ieee_zero)
    \<and> am_lock_cnt (addr_map z' ! i) = am_lock_cnt (addr_map z ! i)
    \<and> (\<forall>r. r \<noteq> i \<longrightarrow> am_addr (addr_map z' ! r) = am_addr (addr_map z ! r)
          \<and> am_ieee (addr_map z' ! r) = am_ieee (addr_map z ! r)
          \<and> am_lock_cnt (addr_map z' ! r) = am_lock_cnt (addr_map z ! r))
    \<and> manufacturers z' = manufacturers z \<and> used_manufacturer z' = used_manufacturer z"
proof -
  let ?h = "case c of Some c \<Rightarrow> zb_address_compressed_ieee_hash c | None \<Rightarrow> 0"
  have h: "?h < 101" by (cases c) (simp_all add: hash_lt)
  have len: "length (addr_map z) = 101" and ci: "clock_i z \<le> 101"
    using inv by (simp_all add: addr_inv_def sorted_inv_def)
  have "used_refs (addr_map z) \<subseteq> {..<101}" by (auto simp: used_refs_def)
  with room obtain u where "u < 101" "\<not> am_used (addr_map z ! u)" by (auto simp: used_refs_def)
  then have "find (\<lambda>i. \<not> am_used (addr_map z ! i)) (ring_from 101 ?h) \<noteq> None"
    unfolding find_none_set using h by auto
  then obtain i where fi: "find (\<lambda>i. \<not> am_used (addr_map z ! i)) (ring_from 101 ?h) = Some i" by blast
  then have i: "i < 101" "\<not> am_used (addr_map z ! i)" using find_some_set [OF fi] h by auto
  have probe: "ring_walk ZB_IEEE_ADDR_TABLE_SIZE ?h (addr_add_step z) ?h () = Some (Inl i)"
    using addr_add_probe [OF len h] fi by simp
  obtain m k where tick: "clock_tick z = Some (z\<lparr>addr_map := m, clock_i := k\<rparr>)" and k: "k \<le> 101"
      and ag: "aged (addr_map z) m"
    using clock_tick_ok [OF len ci] by blast
  note A = aged_props [OF ag]
  let ?z1 = "z\<lparr>addr_map := m, clock_i := k\<rparr>"
  have inv1: "addr_inv ?z1" using addr_inv_cong [OF inv _ _ k, of m] A by simp
  let ?e = "addr_ent_init c a (m ! i)"
  let ?m2 = "m[i := ?e]"
  let ?z2 = "z\<lparr>clock_i := k, addr_map := ?m2\<rparr>"
  have lm: "length m = 101" using A len by simp
  have rz: "refs ?z2 = refs z" by (simp add: refs_def)
  have inr: "i \<notin> set (refs z)" using inv i by (auto simp: addr_inv_def used_refs_def)
  have e2: "am_addr (?m2 ! i) = a" using i lm by (simp add: addr_ent_init_def)
  have old: "r \<noteq> i \<Longrightarrow> ?m2 ! r = m ! r" for r by simp
  have sinv2: "sorted_inv ?z2"
  proof -
    have eq: "map (\<lambda>r. am_addr (?m2 ! r)) (refs z) = map (\<lambda>r. am_addr (addr_map z ! r)) (refs z)"
    proof (rule map_cong [OF refl])
      fix r assume "r \<in> set (refs z)"
      with inr have "r \<noteq> i" by auto
      with old A show "am_addr (?m2 ! r) = am_addr (addr_map z ! r)" by simp
    qed
    have "sorted_wrt (<) (map (\<lambda>r. am_addr (?m2 ! r)) (refs z))"
      unfolding eq using inv by (simp add: addr_inv_def sorted_inv_def)
    with inv lm show ?thesis unfolding addr_inv_def sorted_inv_def rz by simp
  qed
  have used3: "used_refs (m'[i := (m' ! i)\<lparr>am_used := True\<rparr>]) = insert i (used_refs (addr_map z))"
    if "length m' = 101" "\<And>r. r < 101 \<Longrightarrow> r \<noteq> i \<Longrightarrow> am_used (m' ! r) = am_used (addr_map z ! r)" for m'
    using that i by (auto simp: used_refs_def nth_list_update)
  obtain s n where ss: "(if a \<noteq> 0xffff then add_short_sorted i a ?z2 else Some ?z2)
        = Some (?z2\<lparr>short_sorted := s, n_sorted_elements := n\<rparr>)"
    and sinv3: "sorted_inv (?z2\<lparr>short_sorted := s, n_sorted_elements := n\<rparr>)"
    and rf3: "set (refs (?z2\<lparr>short_sorted := s, n_sorted_elements := n\<rparr>))
        = (if a \<noteq> 0xffff then insert i (set (refs z)) else set (refs z))"
  proof (cases "a = 0xffff")
    case True
    show ?thesis by (rule that [where s = "short_sorted z" and n = "n_sorted_elements z"]) (use True sinv2 rz in simp_all)
  next
    case False
    have "\<forall>r \<in> set (refs ?z2). am_addr (addr_map ?z2 ! r) \<noteq> am_addr (addr_map ?z2 ! i)"
    proof
      fix r assume r: "r \<in> set (refs ?z2)"
      then have "r \<in> used_refs (addr_map z)" "r \<noteq> i" using inv inr unfolding rz by (auto simp: addr_inv_def)
      with new False old A e2 show "am_addr (addr_map ?z2 ! r) \<noteq> am_addr (addr_map ?z2 ! i)" by simp
    qed
    from add_short_sorted_ok [OF sinv2 i(1) _ this] inr rz e2 obtain s where
      "add_short_sorted i a ?z2 = Some (?z2\<lparr>short_sorted := s, n_sorted_elements := n_sorted_elements z + 1\<rparr>)"
      "sorted_inv (?z2\<lparr>short_sorted := s, n_sorted_elements := n_sorted_elements z + 1\<rparr>)"
      "set (refs (?z2\<lparr>short_sorted := s, n_sorted_elements := n_sorted_elements z + 1\<rparr>)) = insert i (set (refs z))"
      by auto
    with False show ?thesis by (intro that [where s = s and n = "n_sorted_elements z + 1"]) simp_all
  qed
  let ?m4 = "?m2[i := (?m2 ! i)\<lparr>am_used := True\<rparr>]"
  let ?z4 = "?z2\<lparr>short_sorted := s, n_sorted_elements := n, n_elements := n_elements z + 1, addr_map := ?m4\<rparr>"
  have run: "addr_add c a z = Some (RET_OK, Some i, ?z4)"
    unfolding addr_add_def Let_def probe
    by (cases "a = 0xffff") (use tick i lm ss A(3) in \<open>simp_all add: Let_def\<close>)
  have u4: "used_refs ?m4 = insert i (used_refs (addr_map z))"
    by (rule used3) (use lm A in simp_all)
  have r4: "refs ?z4 = refs (?z2\<lparr>short_sorted := s, n_sorted_elements := n\<rparr>)" by (simp add: refs_def)
  have a4: "am_addr (?m4 ! r) = (if r = i then a else am_addr (addr_map z ! r))" for r
    using i lm e2 A by (simp add: nth_list_update addr_ent_init_def)
  have "sorted_inv ?z4"
  proof -
    have eq: "map (\<lambda>r. am_addr (?m4 ! r)) xs = map (\<lambda>r. am_addr (?m2 ! r)) xs" for xs
      using i lm by (auto simp: nth_list_update)
    have "sorted_wrt (<) (map (\<lambda>r. am_addr (?m4 ! r)) (refs (?z2\<lparr>short_sorted := s, n_sorted_elements := n\<rparr>)))"
      unfolding eq using sinv3 by (simp add: sorted_inv_def)
    with sinv3 show ?thesis unfolding sorted_inv_def r4 by simp
  qed
  moreover have "set (refs ?z4) = {r \<in> used_refs ?m4. am_addr (?m4 ! r) \<noteq> 0xffff}"
    unfolding r4 rf3 u4 using inv i a4 by (auto simp: addr_inv_def used_refs_def)
  moreover have "unat (n_elements z + 1) = card (used_refs ?m4)"
  proof -
    have "card (insert i (used_refs (addr_map z))) \<le> card {..<101::nat}"
      using i by (intro card_mono) (auto simp: used_refs_def)
    moreover have "card (insert i (used_refs (addr_map z))) = Suc (unat (n_elements z))"
      using inv i by (simp add: addr_inv_def used_refs_def)
    ultimately show ?thesis unfolding u4 by (simp add: unat_word_ariths(1))
  qed
  ultimately have inv4: "addr_inv ?z4" using k unfolding addr_inv_def by simp
  show ?thesis
    by (intro exI [of _ i] exI [of _ ?z4] conjI)
      (use run i inv4 u4 a4 A lm in \<open>auto simp: used_refs_def nth_list_update addr_ent_init_def\<close>)
qed

section \<open>Bit vectors\<close>

lemma ball_below:
  "(\<forall>j \<in> {..<n :: nat}. P j) \<longleftrightarrow> (\<forall>j < n. P j)" "(\<exists>j \<in> {..<n :: nat}. P j) \<longleftrightarrow> (\<exists>j < n. P j)"
  "(\<forall>j \<in> set [0..<n]. P j) \<longleftrightarrow> (\<forall>j < n. P j)" "(\<exists>j \<in> set [0..<n]. P j) \<longleftrightarrow> (\<exists>j < n. P j)"
  "i \<in> set [0..<n] \<longleftrightarrow> i < n"
  by auto

definition vec_bit :: "u8 list \<Rightarrow> nat \<Rightarrow> bool" where
  "vec_bit v b \<longleftrightarrow> bit (v ! (b div 8)) (b mod 8)"

lemma check_bit: "b < 8 * length v \<Longrightarrow> zb_check_bit_in_bit_vector v b = Some (vec_bit v b)"
  by (simp add: zb_check_bit_in_bit_vector_def vec_bit_def less_mult_imp_div_less mult.commute push_bit_of_1
      and_exp_eq_0_iff_not_bit)

lemma set_bit_vec:
  assumes "b < 8 * length v"
  shows "\<exists>v'. zb_set_bit_in_bit_vector v b = Some v' \<and> length v' = length v
    \<and> (\<forall>c < 8 * length v. vec_bit v' c \<longleftrightarrow> c = b \<or> vec_bit v c)"
proof -
  let ?v = "v[b div 8 := v ! (b div 8) OR push_bit (b mod 8) 1]"
  have d: "b div 8 < length v" using assms by (simp add: less_mult_imp_div_less mult.commute)
  have "vec_bit ?v c \<longleftrightarrow> c = b \<or> vec_bit v c" if "c < 8 * length v" for c
  proof (cases "c div 8 = b div 8")
    case True
    have "bit (x OR push_bit m 1) n \<longleftrightarrow> n = m \<or> bit x n" if "n < 8" "m < 8" for x :: u8 and m n
      using that by (auto simp: bit_simps)
    moreover have "c mod 8 = b mod 8 \<longleftrightarrow> c = b" using True by (metis div_mult_mod_eq)
    ultimately show ?thesis using True d by (simp add: vec_bit_def)
  next
    case False
    then show ?thesis by (auto simp: vec_bit_def)
  qed
  with d show ?thesis by (intro exI [of _ ?v]) (simp add: zb_set_bit_in_bit_vector_def)
qed

section \<open>Compressing and decompressing\<close>

definition man_inv :: "zb_addr_globals \<Rightarrow> bool" where
  "man_inv z \<longleftrightarrow> length (used_manufacturer z) = 3 \<and> length (manufacturers z) = 16
     \<and> (\<forall>m \<in> set (manufacturers z). length m = 3)"

definition man_match :: "zb_addr_globals \<Rightarrow> u8 list \<Rightarrow> nat \<Rightarrow> bool" where
  "man_match z m i \<longleftrightarrow> vec_bit (used_manufacturer z) i \<and> manufacturers z ! i = m"

lemma manufacturer_search_spec:
  assumes "man_inv z"
  shows "\<forall>i \<in> set js. i < 16 \<Longrightarrow>
    \<exists>i f'. manufacturer_search z m js f = Some (i, f')
      \<and> (i \<in> set js \<and> man_match z m i
         \<or> i = 16 \<and> (\<forall>j \<in> set js. \<not> man_match z m j)
           \<and> (if \<exists>j \<in> set js. \<not> vec_bit (used_manufacturer z) j
              then f' < 16 \<and> \<not> vec_bit (used_manufacturer z) f' else f' = f))"
proof (induction js arbitrary: f)
  case Nil
  then show ?case by (simp add: ZB_DEV_MANUFACTORER_TABLE_SIZE_def)
next
  case (Cons j js)
  have j: "zb_check_bit_in_bit_vector (used_manufacturer z) j = Some (vec_bit (used_manufacturer z) j)"
    "arr_get (manufacturers z) j = Some (manufacturers z ! j)"
    using Cons.prems assms by (simp_all add: check_bit man_inv_def)
  show ?case
  proof (cases "vec_bit (used_manufacturer z) j")
    case u: True
    show ?thesis
    proof (cases "manufacturers z ! j = m")
      case True
      with u j show ?thesis by (intro exI [of _ j] exI [of _ f]) (simp add: man_match_def)
    next
      case False
      with u j have "manufacturer_search z m (j # js) f = manufacturer_search z m js f" by simp
      moreover from Cons.IH [of f] Cons.prems obtain i f' where "manufacturer_search z m js f = Some (i, f')"
        and "i \<in> set js \<and> man_match z m i
         \<or> i = 16 \<and> (\<forall>j \<in> set js. \<not> man_match z m j)
           \<and> (if \<exists>j \<in> set js. \<not> vec_bit (used_manufacturer z) j
              then f' < 16 \<and> \<not> vec_bit (used_manufacturer z) f' else f' = f)"
        by auto
      moreover have "\<not> man_match z m j" using False by (simp add: man_match_def)
      ultimately show ?thesis using u by (intro exI [of _ i] exI [of _ f']) (auto split: if_splits)
    qed
  next
    case u: False
    with j have e: "manufacturer_search z m (j # js) f = manufacturer_search z m js j" by simp
    from Cons.IH [of j] Cons.prems obtain i f' where r: "manufacturer_search z m js j = Some (i, f')"
      and c: "i \<in> set js \<and> man_match z m i
         \<or> i = 16 \<and> (\<forall>j \<in> set js. \<not> man_match z m j)
           \<and> (if \<exists>j \<in> set js. \<not> vec_bit (used_manufacturer z) j
              then f' < 16 \<and> \<not> vec_bit (used_manufacturer z) f' else f' = j)"
      by auto
    have "\<not> man_match z m j" using u by (simp add: man_match_def)
    with e r c u Cons.prems show ?thesis
      by (intro exI [of _ i] exI [of _ f']) (auto split: if_splits)
  qed
qed

lemma compress_ok:
  assumes inv: "man_inv z" and a: "length a = 8"
    and room: "(\<exists>i < 16. man_match z (take 3 a) i) \<or> (\<exists>i < 16. \<not> vec_bit (used_manufacturer z) i)"
  shows "\<exists>c v m. zb_ieee_addr_compress a z = Some (c, z\<lparr>used_manufacturer := v, manufacturers := m\<rparr>)
    \<and> man_inv (z\<lparr>used_manufacturer := v, manufacturers := m\<rparr>)
    \<and> ZB_ADDRESS_DECOMPRESS c (z\<lparr>used_manufacturer := v, manufacturers := m\<rparr>) = Some a
    \<and> (\<forall>i < 16. vec_bit (used_manufacturer z) i \<longrightarrow> vec_bit v i \<and> m ! i = manufacturers z ! i)"
proof -
  obtain i0 f where s: "manufacturer_search z (take 3 a) [0..<16] 16 = Some (i0, f)"
    and c: "i0 < 16 \<and> man_match z (take 3 a) i0
         \<or> i0 = 16 \<and> (\<forall>j < 16. \<not> man_match z (take 3 a) j)
           \<and> (if \<exists>j < 16. \<not> vec_bit (used_manufacturer z) j
              then f < 16 \<and> \<not> vec_bit (used_manufacturer z) f else f = 16)"
    using manufacturer_search_spec [OF inv, of "[0..<16]" "take 3 a" 16] unfolding ball_below by blast
  define i where "i = (if i0 = 16 then f else i0)"
  have i: "i < 16" "vec_bit (used_manufacturer z) i \<longrightarrow> manufacturers z ! i = take 3 a"
  proof -
    have "i < 16 \<and> (vec_bit (used_manufacturer z) i \<longrightarrow> manufacturers z ! i = take 3 a)"
    proof (cases "i0 = 16")
      case False
      with c show ?thesis by (auto simp: i_def man_match_def)
    next
      case True
      with c room have "\<exists>j < 16. \<not> vec_bit (used_manufacturer z) j" by auto
      with c True have "f < 16" "\<not> vec_bit (used_manufacturer z) f" by (auto split: if_splits)
      with True show ?thesis by (simp add: i_def)
    qed
    then show "i < 16" "vec_bit (used_manufacturer z) i \<longrightarrow> manufacturers z ! i = take 3 a" by blast+
  qed
  obtain v where v: "zb_set_bit_in_bit_vector (used_manufacturer z) i = Some v" "length v = 3"
      "\<forall>c < 24. vec_bit v c \<longleftrightarrow> c = i \<or> vec_bit (used_manufacturer z) c"
    using set_bit_vec [of i "used_manufacturer z"] i inv by (auto simp: man_inv_def)
  let ?m = "(manufacturers z)[i := take 3 a]"
  let ?c = "\<lparr>c_manufacturer = of_nat i, c_device_id = take 5 (drop 3 a)\<rparr>"
  let ?z = "z\<lparr>used_manufacturer := v, manufacturers := ?m\<rparr>"
  have lm: "length (manufacturers z) = 16" using inv by (simp add: man_inv_def)
  have "zb_ieee_addr_compress a z = Some (?c, ?z)"
    unfolding zb_ieee_addr_compress_def ZB_DEV_MANUFACTORER_TABLE_SIZE_def s
    using v i lm by (simp add: i_def [symmetric] Let_def)
  moreover have "man_inv ?z"
    using inv v a by (auto simp: man_inv_def dest!: set_update_subset_insert [THEN subsetD])
  moreover have "ZB_ADDRESS_DECOMPRESS ?c ?z = Some a"
  proof -
    have "unat (of_nat i :: u8) = i" using i by simp
    moreover have "take 3 a @ take 5 (drop 3 a) = a" using a by simp
    ultimately show ?thesis using i lm by (simp add: ZB_ADDRESS_DECOMPRESS_def)
  qed
  moreover have "\<forall>j < 16. vec_bit (used_manufacturer z) j \<longrightarrow> vec_bit v j \<and> ?m ! j = manufacturers z ! j"
    using v(3) i lm by (auto simp: nth_list_update)
  ultimately show ?thesis by blast
qed

section \<open>PAN ids\<close>

definition pan_inv :: "zb_addr_globals \<Rightarrow> bool" where
  "pan_inv z \<longleftrightarrow> length (pan_map z) = 8 \<and> length (used_pan_addr z) = 2"

definition pan_match :: "zb_addr_globals \<Rightarrow> zb_ieee_addr \<Rightarrow> nat \<Rightarrow> bool" where
  "pan_match z p i \<longleftrightarrow> vec_bit (used_pan_addr z) i \<and> fst (pan_map z ! i) = p"

lemma pan_hash_lt: "ZB_ADDRESS_PAN_ID_HASH p < 8"
  by (simp add: ZB_ADDRESS_PAN_ID_HASH_def ZB_PANID_TABLE_SIZE_def)

lemma set_pan_step:
  "pan_inv z \<Longrightarrow> i < 8 \<Longrightarrow>
   set_pan_id_step p z i f = Some (if pan_match z p i then Inl i
     else if vec_bit (used_pan_addr z) i then Inr f else Inr (Some i))"
  by (simp add: set_pan_id_step_def pan_inv_def check_bit pan_match_def split_def)

lemma set_pan_walk:
  "pan_inv z \<Longrightarrow> \<forall>i \<in> set js. i < 8 \<Longrightarrow>
   \<exists>r. walk_list (set_pan_id_step p z) f js = Some r
     \<and> (case r of Inl i \<Rightarrow> i \<in> set js \<and> pan_match z p i
        | Inr f' \<Rightarrow> (\<forall>j \<in> set js. \<not> pan_match z p j)
            \<and> (if \<exists>j \<in> set js. \<not> vec_bit (used_pan_addr z) j
               then \<exists>k. f' = Some k \<and> k < 8 \<and> \<not> vec_bit (used_pan_addr z) k else f' = f))"
proof (induction js arbitrary: f)
  case (Cons j js)
  show ?case
  proof (cases "pan_match z p j")
    case True
    with Cons.prems show ?thesis by (intro exI [of _ "Inl j"]) (simp add: set_pan_step)
  next
    case False
    let ?f = "if vec_bit (used_pan_addr z) j then f else Some j"
    have e: "walk_list (set_pan_id_step p z) f (j # js) = walk_list (set_pan_id_step p z) ?f js"
      using Cons.prems False by (simp add: set_pan_step)
    from Cons.IH [of ?f] Cons.prems obtain r where "walk_list (set_pan_id_step p z) ?f js = Some r"
      "case r of Inl i \<Rightarrow> i \<in> set js \<and> pan_match z p i
        | Inr f' \<Rightarrow> (\<forall>j \<in> set js. \<not> pan_match z p j)
            \<and> (if \<exists>j \<in> set js. \<not> vec_bit (used_pan_addr z) j
               then \<exists>k. f' = Some k \<and> k < 8 \<and> \<not> vec_bit (used_pan_addr z) k else f' = ?f)"
      by auto
    with e False Cons.prems show ?thesis by (intro exI [of _ r]) (auto split: sum.splits if_splits)
  qed
qed simp

lemma get_pan_ref_eq:
  assumes "pan_inv z"
  shows "zb_address_get_pan_id_ref p z =
    Some (case find (pan_match z p) (ring_from 8 (ZB_ADDRESS_PAN_ID_HASH p)) of
            Some i \<Rightarrow> (RET_OK, Some i) | None \<Rightarrow> (RET_NOT_FOUND, None))"
proof -
  let ?h = "ZB_ADDRESS_PAN_ID_HASH p"
  have "walk_list (get_pan_id_ref_step p z) () (ring_from 8 ?h)
      = Some (case find (pan_match z p) (ring_from 8 ?h) of Some i \<Rightarrow> Inl i | None \<Rightarrow> Inr ())"
    by (rule walk_list_find)
      (use assms pan_hash_lt in \<open>auto simp: get_pan_id_ref_step_def pan_inv_def check_bit pan_match_def split_def\<close>)
  then show ?thesis
    unfolding zb_address_get_pan_id_ref_def Let_def ZB_PANID_TABLE_SIZE_def ring_walk_eq [OF pan_hash_lt]
    by (simp split: option.splits)
qed

lemma set_pan_id_ok:
  assumes inv: "pan_inv z"
  shows "(\<exists>i < 8. pan_match z p i \<and> zb_address_set_pan_id sp p z = Some (RET_ALREADY_EXISTS, Some i, z))
    \<or> (\<forall>i < 8. \<not> pan_match z p i) \<and> (\<forall>i < 8. vec_bit (used_pan_addr z) i)
        \<and> zb_address_set_pan_id sp p z = Some (RET_OVERFLOW, None, z)
    \<or> (\<forall>i < 8. \<not> pan_match z p i) \<and>
      (\<exists>k v m. k < 8 \<and> \<not> vec_bit (used_pan_addr z) k
         \<and> zb_address_set_pan_id sp p z = Some (RET_OK, Some k, z\<lparr>pan_map := m, used_pan_addr := v\<rparr>)
         \<and> pan_inv (z\<lparr>pan_map := m, used_pan_addr := v\<rparr>) \<and> m = (pan_map z)[k := (p, sp)]
         \<and> (\<forall>i < 8. vec_bit v i \<longleftrightarrow> i = k \<or> vec_bit (used_pan_addr z) i))"
proof -
  let ?h = "ZB_ADDRESS_PAN_ID_HASH p"
  obtain r where w: "walk_list (set_pan_id_step p z) None (ring_from 8 ?h) = Some r"
    and r: "case r of Inl i \<Rightarrow> i < 8 \<and> pan_match z p i
        | Inr f' \<Rightarrow> (\<forall>j < 8. \<not> pan_match z p j)
            \<and> (if \<exists>j < 8. \<not> vec_bit (used_pan_addr z) j
               then \<exists>k. f' = Some k \<and> k < 8 \<and> \<not> vec_bit (used_pan_addr z) k else f' = None)"
    using set_pan_walk [OF inv, of "ring_from 8 ?h" p None]
    unfolding set_ring_from [OF pan_hash_lt] ball_below lessThan_iff by blast
  have run: "zb_address_set_pan_id sp p z = (case r of
           Inl i \<Rightarrow> Some (RET_ALREADY_EXISTS, Some i, z)
         | Inr (Some free_i) \<Rightarrow> do {
             m \<leftarrow> arr_set (pan_map z) free_i (p, sp);
             v \<leftarrow> zb_set_bit_in_bit_vector (used_pan_addr z) free_i;
             Some (RET_OK, Some free_i, z\<lparr>pan_map := m, used_pan_addr := v\<rparr>) }
         | Inr None \<Rightarrow> Some (RET_OVERFLOW, None, z))"
    unfolding zb_address_set_pan_id_def Let_def ZB_PANID_TABLE_SIZE_def ring_walk_eq [OF pan_hash_lt] w by simp
  show ?thesis
  proof (cases r)
    case (Inl i)
    with r run show ?thesis by auto
  next
    case (Inr f)
    show ?thesis
    proof (cases f)
      case None
      with Inr r run show ?thesis by (auto split: if_splits)
    next
      case (Some k)
      with Inr r have k: "k < 8" "\<not> vec_bit (used_pan_addr z) k" "\<forall>j < 8. \<not> pan_match z p j"
        by (auto split: if_splits)
      obtain v where "zb_set_bit_in_bit_vector (used_pan_addr z) k = Some v" "length v = 2"
          "\<forall>c < 16. vec_bit v c \<longleftrightarrow> c = k \<or> vec_bit (used_pan_addr z) c"
        using set_bit_vec [of k "used_pan_addr z"] k inv by (auto simp: pan_inv_def)
      with Inr Some run k inv show ?thesis by (auto simp: pan_inv_def)
    qed
  qed
qed

section \<open>Lookup\<close>

lemma ieee_search_steps:
  assumes "length (addr_map z) = 101"
  shows "h < 101 \<Longrightarrow> ieee_search_loop z c ((h + k) mod 101) m
    = Some (find (\<lambda>i. am_used (addr_map z ! i) \<and> zb_address_compressed_cmp (am_ieee (addr_map z ! i)) c)
        (map (\<lambda>j. (h + j) mod 101) [k..<k + m]))"
proof (induction m arbitrary: k)
  case (Suc m)
  have "[k..<k + Suc m] = k # [Suc k..<Suc k + m]" by (simp add: upt_conv_Cons del: upt_Suc)
  moreover have "((h + k) mod 101 + 1) mod 101 = (h + Suc k) mod 101" by (simp add: mod_Suc_eq)
  ultimately show ?case
    using Suc.IH [of "Suc k"] Suc.prems assms by (simp add: ZB_IEEE_ADDR_TABLE_SIZE_def del: upt_Suc)
qed simp

lemma compressed_cmp_eq: "zb_address_compressed_cmp one two \<longleftrightarrow> one = two"
  by (cases one; cases two) (simp add: zb_address_compressed_cmp_def)

text \<open>The probe of the whole table: any entry in use with that address is found.\<close>

lemma ieee_search_eq:
  assumes "length (addr_map z) = 101"
  shows "ieee_search c z
    = Some (find (\<lambda>i. am_used (addr_map z ! i) \<and> am_ieee (addr_map z ! i) = c) (ring_from 101 (zb_address_compressed_ieee_hash c)))"
  using ieee_search_steps [OF assms hash_lt, of c c 0 101] hash_lt [of c]
  by (simp add: ieee_search_def ring_from_def ZB_IEEE_ADDR_TABLE_SIZE_def compressed_cmp_eq del: upt_rec_numeral)

lemma set_clock_ok:
  assumes "addr_inv z" and "r < 101"
  shows "\<exists>m. set_clock r z = Some (z\<lparr>addr_map := m\<rparr>) \<and> addr_inv (z\<lparr>addr_map := m\<rparr>)
    \<and> m = (addr_map z)[r := (addr_map z ! r)\<lparr>am_clock := True\<rparr>]"
proof -
  let ?m = "(addr_map z)[r := (addr_map z ! r)\<lparr>am_clock := True\<rparr>]"
  have len: "length (addr_map z) = 101" and k: "clock_i z \<le> 101"
    using assms(1) by (simp_all add: addr_inv_def sorted_inv_def)
  have "addr_inv (z\<lparr>addr_map := ?m, clock_i := clock_i z\<rparr>)"
    by (rule addr_inv_cong [OF assms(1) _ _ k]) (use assms len in \<open>auto simp: nth_list_update\<close>)
  with len assms(2) show ?thesis by (simp add: set_clock_def)
qed

lemma addr_short_search:
  assumes "addr_inv z" and "a \<noteq> 0xffff"
  shows "r \<in> used_refs (addr_map z) \<Longrightarrow> am_addr (addr_map z ! r) = a \<Longrightarrow> short_search a z = Some (Some r)"
    and "\<forall>r \<in> used_refs (addr_map z). am_addr (addr_map z ! r) \<noteq> a \<Longrightarrow> short_search a z = Some None"
proof -
  have s: "sorted_inv z" and rf: "set (refs z) = {r \<in> used_refs (addr_map z). am_addr (addr_map z ! r) \<noteq> 0xffff}"
    using assms(1) by (simp_all add: addr_inv_def)
  show "short_search a z = Some (Some r)" if "r \<in> used_refs (addr_map z)" "am_addr (addr_map z ! r) = a"
    using short_search_found [OF s, of r] that assms(2) rf by auto
  show "short_search a z = Some None" if "\<forall>r \<in> used_refs (addr_map z). am_addr (addr_map z ! r) \<noteq> a"
    by (rule short_search_absent [OF s]) (use that rf in auto)
qed

text \<open>\<^verbatim>\<open>zb_address_by_short\<close> with creation: the entry exists afterwards, under the reference returned.\<close>

lemma by_short_create:
  assumes inv: "addr_inv z" and a: "a \<noteq> 0xffff" and room: "used_refs (addr_map z) \<noteq> {..<101}"
  shows "\<exists>r z'. zb_address_by_short a True False z = Some (RET_OK, Some r, z') \<and> addr_inv z'
    \<and> short_search a z' = Some (Some r) \<and> zb_address_short_by_ref r z' = Some a
    \<and> used_refs (addr_map z) \<subseteq> used_refs (addr_map z')
    \<and> (\<forall>q \<in> used_refs (addr_map z). am_addr (addr_map z' ! q) = am_addr (addr_map z ! q)
          \<and> am_ieee (addr_map z' ! q) = am_ieee (addr_map z ! q))"
proof (cases "\<exists>r \<in> used_refs (addr_map z). am_addr (addr_map z ! r) = a")
  case True
  then obtain r where r: "r \<in> used_refs (addr_map z)" "am_addr (addr_map z ! r) = a" by blast
  then have r1: "r < 101" by (simp add: used_refs_def)
  let ?m = "(addr_map z)[r := (addr_map z ! r)\<lparr>am_clock := True\<rparr>]"
  obtain sc: "set_clock r z = Some (z\<lparr>addr_map := ?m\<rparr>)" and inv': "addr_inv (z\<lparr>addr_map := ?m\<rparr>)"
    using set_clock_ok [OF inv r1] by blast
  have len: "length (addr_map z) = 101" using inv by (simp add: addr_inv_def sorted_inv_def)
  have ur: "used_refs ?m = used_refs (addr_map z)" using len r1 by (auto simp: used_refs_def nth_list_update split: if_splits)
  have am: "am_addr (?m ! q) = am_addr (addr_map z ! q)" "am_ieee (?m ! q) = am_ieee (addr_map z ! q)" for q
    using len r1 by (auto simp: nth_list_update)
  have run: "zb_address_by_short a True False z = Some (RET_OK, Some r, z\<lparr>addr_map := ?m\<rparr>)"
    using addr_short_search(1) [OF inv a r] sc by (simp add: zb_address_by_short_def lock_if_def)
  have "short_search a (z\<lparr>addr_map := ?m\<rparr>) = Some (Some r)"
    using addr_short_search(1) [OF inv' a, of r] ur am r by simp
  then show ?thesis
    using run inv' ur am r r1 len by (intro exI [of _ r] exI [of _ "z\<lparr>addr_map := ?m\<rparr>"]) (simp add: zb_address_short_by_ref_def)
next
  case False
  then have new: "a \<noteq> 0xffff \<longrightarrow> (\<forall>r \<in> used_refs (addr_map z). am_addr (addr_map z ! r) \<noteq> a)" by blast
  obtain i z' where run: "addr_add None a z = Some (RET_OK, Some i, z')" and i: "i < 101" "i \<notin> used_refs (addr_map z)"
    and inv': "addr_inv z'" and u: "used_refs (addr_map z') = insert i (used_refs (addr_map z))"
    and ai: "am_addr (addr_map z' ! i) = a"
    and other: "\<forall>r. r \<noteq> i \<longrightarrow> am_addr (addr_map z' ! r) = am_addr (addr_map z ! r)
          \<and> am_ieee (addr_map z' ! r) = am_ieee (addr_map z ! r)"
    using addr_add_ok [OF inv room new, of None] by blast
  have "zb_address_by_short a True False z = Some (RET_OK, Some i, z')"
    using addr_short_search(2) [OF inv a] False run by (simp add: zb_address_by_short_def lock_if_def)
  moreover have "short_search a z' = Some (Some i)" using addr_short_search(1) [OF inv' a, of i] u ai by simp
  moreover have "zb_address_short_by_ref i z' = Some a"
    using i inv' ai by (simp add: zb_address_short_by_ref_def addr_inv_def sorted_inv_def)
  ultimately show ?thesis using inv' u other i by (intro exI [of _ i] exI [of _ z']) auto
qed

lemma lock_unlock:
  assumes "r < length (addr_map z)"
  shows "zb_address_lock r z = (if am_lock_cnt (addr_map z ! r) = 15 then None
      else Some (z\<lparr>addr_map := (addr_map z)[r := (addr_map z ! r)\<lparr>am_lock_cnt := am_lock_cnt (addr_map z ! r) + 1,
                                                                 am_clock := True\<rparr>]\<rparr>))"
proof -
  have "x + 1 = 0 \<longleftrightarrow> x = 15" for x :: u4
  proof -
    have "x + 1 = 0 \<longleftrightarrow> x = - 1" by (simp add: add_eq_0_iff2)
    moreover have "(- 1 :: u4) = 15" by simp
    ultimately show ?thesis by simp
  qed
  with assms show ?thesis by (auto simp: zb_address_lock_def Let_def)
qed

lemma delete_ok:
  assumes inv: "addr_inv z" and r: "ref \<in> used_refs (addr_map z)" and n: "unat (n_sorted_elements z) < 101"
    and ok: "am_addr (addr_map z ! ref) = 0xffff \<or> last (refs z) = ref
      \<or> unat (short_sorted z ! unat (n_sorted_elements z)) \<noteq> ref"
  shows "\<exists>z'. zb_address_delete ref z = Some z' \<and> addr_inv z'
    \<and> used_refs (addr_map z') = used_refs (addr_map z) - {ref}
    \<and> (\<forall>q. q \<noteq> ref \<longrightarrow> addr_map z' ! q = addr_map z ! q)"
proof -
  note I = inv [unfolded addr_inv_def]
  have s: "sorted_inv z" using I by blast
  have len: "length (addr_map z) = 101" and r1: "ref < 101" using s r by (simp_all add: sorted_inv_def used_refs_def)
  obtain ss k where del: "del_short_sorted ref z = Some (z\<lparr>short_sorted := ss, n_sorted_elements := k\<rparr>)"
    and s': "sorted_inv (z\<lparr>short_sorted := ss, n_sorted_elements := k\<rparr>)"
    and rf: "set (refs (z\<lparr>short_sorted := ss, n_sorted_elements := k\<rparr>)) = set (refs z) - {ref}"
  proof (cases "am_addr (addr_map z ! ref) = 0xffff")
    case True
    with I have "ref \<notin> set (refs z)" by simp
    with del_short_sorted_absent [OF s] s show ?thesis
      by (intro that [where ss = "short_sorted z" and k = "n_sorted_elements z"]) simp_all
  next
    case False
    with I r have "ref \<in> set (refs z)" by simp
    then obtain as bs where split: "refs z = as @ ref # bs" by (meson split_list)
    have d: "ref \<notin> set as" "ref \<notin> set bs" using sorted_inv_distinct [OF s] split by auto
    have "bs = [] \<or> unat (short_sorted z ! unat (n_sorted_elements z)) \<noteq> ref"
    proof (cases "bs = []")
      case nb: False
      then have "last (refs z) \<in> set bs" using split by simp
      with d ok False show ?thesis by auto
    qed simp
    from del_short_sorted_at [OF s n split this] obtain ss where
      "del_short_sorted ref z = Some (z\<lparr>short_sorted := ss, n_sorted_elements := n_sorted_elements z - 1\<rparr>)"
      "sorted_inv (z\<lparr>short_sorted := ss, n_sorted_elements := n_sorted_elements z - 1\<rparr>)"
      "refs (z\<lparr>short_sorted := ss, n_sorted_elements := n_sorted_elements z - 1\<rparr>) = as @ bs"
      by blast
    with split d show ?thesis by (intro that [where ss = ss and k = "n_sorted_elements z - 1"]) auto
  qed
  let ?m = "(addr_map z)[ref := (addr_map z ! ref)\<lparr>am_used := False\<rparr>]"
  let ?z = "z\<lparr>short_sorted := ss, n_sorted_elements := k, addr_map := ?m, n_elements := n_elements z - 1\<rparr>"
  have run: "zb_address_delete ref z = Some ?z" using del r1 len by (simp add: zb_address_delete_def)
  have am: "am_addr (?m ! q) = am_addr (addr_map z ! q)" for q using len r1 by (auto simp: nth_list_update)
  have u: "used_refs ?m = used_refs (addr_map z) - {ref}" using len r1 by (auto simp: used_refs_def nth_list_update)
  have rr: "refs ?z = refs (z\<lparr>short_sorted := ss, n_sorted_elements := k\<rparr>)" by (simp add: refs_def)
  have "sorted_inv ?z" using s' len unfolding sorted_inv_def rr by (simp add: am)
  moreover have "set (refs ?z) = {r \<in> used_refs ?m. am_addr (?m ! r) \<noteq> 0xffff}"
    unfolding rr rf u am using I by auto
  moreover have "unat (n_elements z - 1) = card (used_refs ?m)"
  proof -
    have "0 < card (used_refs (addr_map z))" using r by (auto simp: card_gt_0_iff)
    then have "unat (n_elements z - 1) = unat (n_elements z) - 1" using I by (simp add: unat_sub word_le_nat_alt)
    then show ?thesis unfolding u using I r by simp
  qed
  ultimately have "addr_inv ?z" using I unfolding addr_inv_def by simp
  with run u show ?thesis by (intro exI [of _ ?z]) simp
qed

section \<open>Properties\<close>

text \<open>The cleared tables the program starts with.\<close>

definition addr_cleared :: zb_addr_globals where
  "addr_cleared =
     \<lparr>used_manufacturer = [0, 0, 0], manufacturers = replicate 16 [0, 0, 0],
      pan_map = replicate 8 (replicate 8 0, 0), used_pan_addr = [0, 0],
      addr_map = replicate 101 \<lparr>am_ieee = ieee_zero, am_addr = 0, am_aps_dup_counter = 0, am_used = False,
                               am_lock_cnt = 0, am_clock = False, am_aps_dup_clock = 0\<rparr>,
      short_sorted = replicate 101 0, n_elements = 0, n_sorted_elements = 0, clock_i = 0\<rparr>"

lemma addr_cleared_inv: "addr_inv addr_cleared" "man_inv addr_cleared" "pan_inv addr_cleared"
  "used_refs (addr_map addr_cleared) = {}"
  by (auto simp: addr_inv_def sorted_inv_def refs_def used_refs_def addr_cleared_def man_inv_def pan_inv_def)

text \<open>
  C1. Looking up a short address with creation while the table has room always succeeds and
  keeps the invariant of the table; afterwards the address is found under the reference that
  was returned, and every other entry keeps its addresses.
\<close>

theorem by_short_creates:
  assumes "addr_inv z" and "a \<noteq> 0xffff" and "used_refs (addr_map z) \<noteq> {..<101}"
  shows "\<exists>r z'. zb_address_by_short a True False z = Some (RET_OK, Some r, z') \<and> addr_inv z'
    \<and> short_search a z' = Some (Some r) \<and> zb_address_short_by_ref r z' = Some a
    \<and> (\<forall>q \<in> used_refs (addr_map z). am_addr (addr_map z' ! q) = am_addr (addr_map z ! q)
          \<and> am_ieee (addr_map z' ! q) = am_ieee (addr_map z ! q))"
  using by_short_create [OF assms] by blast

theorem by_short_creates_witness:
  "\<exists>r z'. zb_address_by_short 0x1234 True False addr_cleared = Some (RET_OK, Some r, z') \<and> addr_inv z'
    \<and> short_search 0x1234 z' = Some (Some r)"
proof -
  have "(0 :: nat) \<in> {..<101}" by simp
  then have "used_refs (addr_map addr_cleared) \<noteq> {..<101}" unfolding addr_cleared_inv(4) by blast
  with by_short_creates [OF addr_cleared_inv(1), of "0x1234"] show ?thesis by auto
qed

text \<open>
  C33. Compressing a 64-bit address: when its manufacturer is known or a manufacturer slot is
  free, decompressing gives the address back, and every address compressed before still
  decompresses to what it did.
\<close>

theorem compress_decompress:
  assumes "man_inv z" and "length a = 8"
    and "(\<exists>i < 16. man_match z (take 3 a) i) \<or> (\<exists>i < 16. \<not> vec_bit (used_manufacturer z) i)"
  shows "\<exists>c z'. zb_ieee_addr_compress a z = Some (c, z') \<and> man_inv z' \<and> zb_ieee_addr_decompress c z' = Some a
    \<and> (\<forall>d. unat (c_manufacturer d) < 16 \<longrightarrow> vec_bit (used_manufacturer z) (unat (c_manufacturer d)) \<longrightarrow>
          zb_ieee_addr_decompress d z' = zb_ieee_addr_decompress d z)"
proof -
  obtain c v m where c: "zb_ieee_addr_compress a z = Some (c, z\<lparr>used_manufacturer := v, manufacturers := m\<rparr>)"
    "man_inv (z\<lparr>used_manufacturer := v, manufacturers := m\<rparr>)"
    "ZB_ADDRESS_DECOMPRESS c (z\<lparr>used_manufacturer := v, manufacturers := m\<rparr>) = Some a"
    and old: "\<forall>i < 16. vec_bit (used_manufacturer z) i \<longrightarrow> vec_bit v i \<and> m ! i = manufacturers z ! i"
    using compress_ok [OF assms] by blast
  have "length m = 16" "length (manufacturers z) = 16" using c(2) assms(1) by (simp_all add: man_inv_def)
  with c old show ?thesis
    by (intro exI [of _ c] exI [of _ "z\<lparr>used_manufacturer := v, manufacturers := m\<rparr>"])
      (simp add: zb_ieee_addr_decompress_def ZB_ADDRESS_DECOMPRESS_def)
qed

theorem compress_decompress_witness:
  "\<exists>c z'. zb_ieee_addr_compress [1, 2, 3, 4, 5, 6, 7, 8] addr_cleared = Some (c, z')
    \<and> zb_ieee_addr_decompress c z' = Some [1, 2, 3, 4, 5, 6, 7, 8]"
proof -
  have "\<not> vec_bit (used_manufacturer addr_cleared) 0" by (simp add: vec_bit_def addr_cleared_def)
  then have "\<exists>i < 16. \<not> vec_bit (used_manufacturer addr_cleared) i" by (intro exI [of _ 0]) simp
  with compress_decompress [OF addr_cleared_inv(2), of "[1, 2, 3, 4, 5, 6, 7, 8]"] show ?thesis by auto
qed

text \<open>
  Registering an extended PAN id: a known id gives its reference; a new one takes a free
  slot if there is one and is then found under that reference with its short id; only a full
  table is refused.
\<close>

theorem set_pan_id_then_found:
  assumes "pan_inv z" and "\<exists>i < 8. \<not> vec_bit (used_pan_addr z) i"
  shows "\<exists>ret k z'. zb_address_set_pan_id sp p z = Some (ret, Some k, z') \<and> pan_inv z'
    \<and> zb_address_get_pan_id k z' = Some p
    \<and> (if \<exists>i < 8. pan_match z p i then ret = RET_ALREADY_EXISTS \<and> z' = z
       else ret = RET_OK \<and> zb_address_get_pan_id_ref p z' = Some (RET_OK, Some k)
         \<and> zb_address_get_short_pan_id k z' = Some sp)"
proof (cases "\<exists>i < 8. pan_match z p i")
  case True
  then obtain i where i: "i < 8" "pan_match z p i" "zb_address_set_pan_id sp p z = Some (RET_ALREADY_EXISTS, Some i, z)"
    using set_pan_id_ok [OF assms(1), of p sp] by blast
  then have "zb_address_get_pan_id i z = Some p"
    using assms(1) by (simp add: zb_address_get_pan_id_def pan_map_entry_def ZB_PANID_TABLE_SIZE_def pan_inv_def
        check_bit pan_match_def split_def)
  with i True assms show ?thesis by auto
next
  case False
  then obtain k v m where k: "k < 8" "\<not> vec_bit (used_pan_addr z) k"
    "zb_address_set_pan_id sp p z = Some (RET_OK, Some k, z\<lparr>pan_map := m, used_pan_addr := v\<rparr>)"
    "pan_inv (z\<lparr>pan_map := m, used_pan_addr := v\<rparr>)" and m: "m = (pan_map z)[k := (p, sp)]"
    and v: "\<forall>i < 8. vec_bit v i \<longleftrightarrow> i = k \<or> vec_bit (used_pan_addr z) i"
    using set_pan_id_ok [OF assms(1), of p sp] assms(2) by blast
  let ?z = "z\<lparr>pan_map := m, used_pan_addr := v\<rparr>"
  have len: "length (pan_map z) = 8" "length v = 2" using assms(1) k(4) by (simp_all add: pan_inv_def)
  have match: "pan_match ?z p j \<longleftrightarrow> j = k" if "j < 8" for j
    using that False v k(1) len m by (auto simp: pan_match_def nth_list_update)
  have "find (pan_match ?z p) (ring_from 8 (ZB_ADDRESS_PAN_ID_HASH p)) = Some k"
    by (rule find_unique) (use k(1) match pan_hash_lt in auto)
  then have "zb_address_get_pan_id_ref p ?z = Some (RET_OK, Some k)" using get_pan_ref_eq [OF k(4), of p] by simp
  moreover have "pan_map_entry k ?z = Some (p, sp)"
    using k(1) v len m by (simp add: pan_map_entry_def ZB_PANID_TABLE_SIZE_def check_bit)
  ultimately show ?thesis
    using False k by (simp add: zb_address_get_pan_id_def zb_address_get_short_pan_id_def)
qed

theorem set_pan_id_then_found_witness:
  "\<exists>ret k z'. zb_address_set_pan_id 0x1aaa [1, 0, 0, 0, 0, 0, 0, 0] addr_cleared = Some (ret, Some k, z')
    \<and> zb_address_get_pan_id k z' = Some [1, 0, 0, 0, 0, 0, 0, 0]"
proof -
  have "\<not> vec_bit (used_pan_addr addr_cleared) 0" by (simp add: vec_bit_def addr_cleared_def)
  then have "\<exists>i < 8. \<not> vec_bit (used_pan_addr addr_cleared) i" by (intro exI [of _ 0]) simp
  from set_pan_id_then_found [OF addr_cleared_inv(3) this, of "0x1aaa" "[1, 0, 0, 0, 0, 0, 0, 0]"]
  show ?thesis by blast
qed

text \<open>
  C32. Deleting an address keeps the invariant of the table and all other entries, provided
  the byte behind the sorted prefix is not a stale copy of the deleted reference (or the entry
  has no short address, or is the last of the prefix).
\<close>

theorem delete_keeps_table:
  assumes "addr_inv z" and "ref \<in> used_refs (addr_map z)" and "unat (n_sorted_elements z) < 101"
    and "am_addr (addr_map z ! ref) = 0xffff \<or> last (refs z) = ref
      \<or> unat (short_sorted z ! unat (n_sorted_elements z)) \<noteq> ref"
  shows "\<exists>z'. zb_address_delete ref z = Some z' \<and> addr_inv z'
    \<and> used_refs (addr_map z') = used_refs (addr_map z) - {ref}
    \<and> (\<forall>q. q \<noteq> ref \<longrightarrow> addr_map z' ! q = addr_map z ! q)"
  by (rule delete_ok [OF assms])

text \<open>A table with one device, short address 0x1234 at the reference 5.\<close>

definition addr_one :: zb_addr_globals where
  "addr_one = addr_cleared
     \<lparr>addr_map := (addr_map addr_cleared)[5 := (addr_map addr_cleared ! 5)\<lparr>am_used := True, am_addr := 0x1234\<rparr>],
      short_sorted := (short_sorted addr_cleared)[0 := 5], n_elements := 1, n_sorted_elements := 1\<rparr>"

lemma addr_one_inv: "addr_inv addr_one" "used_refs (addr_map addr_one) = {5}" "refs addr_one = [5]"
proof -
  show u: "used_refs (addr_map addr_one) = {5}"
    by (auto simp: used_refs_def addr_one_def addr_cleared_def nth_list_update split: if_splits)
  show r: "refs addr_one = [5]" by (simp add: refs_def addr_one_def addr_cleared_def take_update_swap)
  show "addr_inv addr_one"
    unfolding addr_inv_def sorted_inv_def u r by (auto simp: addr_one_def addr_cleared_def)
qed

theorem delete_keeps_table_witness:
  "\<exists>z'. zb_address_delete 5 addr_one = Some z' \<and> addr_inv z' \<and> used_refs (addr_map z') = {}"
proof -
  have "\<exists>z'. zb_address_delete 5 addr_one = Some z' \<and> addr_inv z'
    \<and> used_refs (addr_map z') = used_refs (addr_map addr_one) - {5}
    \<and> (\<forall>q. q \<noteq> 5 \<longrightarrow> addr_map z' ! q = addr_map addr_one ! q)"
    by (rule delete_keeps_table) (simp_all add: addr_one_inv, simp add: addr_one_def)
  then show ?thesis using addr_one_inv(2) by auto
qed

text \<open>
  The deletion loses an entry it should keep: in a fresh table, after creating 0x1111
  (reference 0) and 0x2222 (reference 1) and deleting the reference 0, the device 0x2222 is
  still in the table and in use but can no longer be found by its short address.
\<close>

theorem delete_first_loses_second:
  "(do { (_, r1, z) \<leftarrow> zb_address_by_short 0x1111 True False addr_cleared;
         (_, r2, z) \<leftarrow> zb_address_by_short 0x2222 True False z;
         z \<leftarrow> zb_address_delete 0 z;
         (ret, _, _) \<leftarrow> zb_address_by_short 0x2222 False False z;
         Some (r1, r2, ret, am_used (addr_map z ! 1), am_addr (addr_map z ! 1)) })
   = Some (Some 0, Some 1, RET_NOT_FOUND, True, 0x2222)"
  by code_simp

text \<open>
  A full address table refuses a new address with \<open>RET_OVERFLOW\<close>, for either kind of
  address, and is left as it was.
\<close>

theorem full_table_refuses:
  assumes "addr_inv z" and "used_refs (addr_map z) = {..<101}"
  shows "addr_add c a z = Some (RET_OVERFLOW, None, z)"
  by (rule addr_add_full [OF assms])

text \<open>A table whose entries are all in use, none with a short address.\<close>

definition addr_full :: zb_addr_globals where
  "addr_full = addr_cleared
     \<lparr>addr_map := replicate 101 ((addr_map addr_cleared ! 0)\<lparr>am_used := True, am_addr := 0xffff\<rparr>), n_elements := 101\<rparr>"

theorem full_table_refuses_witness:
  "addr_add None 0x1234 addr_full = Some (RET_OVERFLOW, None, addr_full)"
proof -
  have u: "used_refs (addr_map addr_full) = {..<101}" by (auto simp: used_refs_def addr_full_def)
  have "refs addr_full = []" by (simp add: refs_def addr_full_def addr_cleared_def)
  then have "addr_inv addr_full"
    unfolding addr_inv_def sorted_inv_def u by (auto simp: addr_full_def addr_cleared_def)
  then show ?thesis using full_table_refuses u by blast
qed

end
