(* ===== verification/Address_Ieee.thy ===== *)
theory Address_Ieee
  imports Address_Lemmas
begin

text \<open>
  Looking up a 64-bit address with creation, \<^verbatim>\<open>zb_address_by_ieee\<close>: compressing the address, the
  probe of the address map and the new entry together. A known address is found again under its
  reference, whatever the two tables hold besides.
\<close>

section \<open>Compressing an address again\<close>

lemma manufacturer_search_cong:
  "used_manufacturer z' = used_manufacturer z \<Longrightarrow> manufacturers z' = manufacturers z
    \<Longrightarrow> manufacturer_search z' m js f = manufacturer_search z m js f"
  by (induction js arbitrary: f) (simp_all cong: if_cong)

lemma or_bit_same: "bit x n \<Longrightarrow> x OR push_bit n 1 = (x :: u8)"
  by (rule bit_eqI) (auto simp: bit_simps)

lemma set_bit_same:
  assumes "b < 8 * length v" and "vec_bit v b"
  shows "zb_set_bit_in_bit_vector v b = Some v"
proof -
  have "b div 8 < length v" using assms(1) by (simp add: less_mult_imp_div_less mult.commute)
  moreover have "v ! (b div 8) OR push_bit (b mod 8) 1 = v ! (b div 8)"
    using assms(2) unfolding vec_bit_def by (rule or_bit_same)
  ultimately show ?thesis unfolding zb_set_bit_in_bit_vector_def by (simp del: push_bit_of_1)
qed

lemma man_update_eq:
  "z\<lparr>used_manufacturer := y, manufacturers := x\<rparr> = z\<lparr>used_manufacturer := v, manufacturers := m\<rparr> \<longleftrightarrow> y = v \<and> x = m"
  by (cases z) simp

lemma compress_match:
  assumes inv: "man_inv z" and some: "\<exists>i < 16. man_match z (take 3 a) i"
  shows "\<exists>i < 16. man_match z (take 3 a) i
    \<and> zb_ieee_addr_compress a z = Some (\<lparr>c_manufacturer = of_nat i, c_device_id = take 5 (drop 3 a)\<rparr>, z)"
proof -
  obtain i f where s: "manufacturer_search z (take 3 a) [0..<16] 16 = Some (i, f)"
    and c: "i < 16 \<and> man_match z (take 3 a) i \<or> i = 16 \<and> (\<forall>j < 16. \<not> man_match z (take 3 a) j)"
    using manufacturer_search_spec [OF inv, of "[0..<16]" "take 3 a" 16] unfolding ball_below by blast
  from c some have i: "i < 16" "man_match z (take 3 a) i" by auto
  then have u: "vec_bit (used_manufacturer z) i" and m: "manufacturers z ! i = take 3 a" by (simp_all add: man_match_def)
  have "zb_set_bit_in_bit_vector (used_manufacturer z) i = Some (used_manufacturer z)"
    using set_bit_same [OF _ u] i inv by (simp add: man_inv_def)
  moreover have "(manufacturers z)[i := take 3 a] = manufacturers z" using m by (metis list_update_id)
  ultimately have "zb_ieee_addr_compress a z = Some (\<lparr>c_manufacturer = of_nat i, c_device_id = take 5 (drop 3 a)\<rparr>, z)"
    unfolding zb_ieee_addr_compress_def ZB_DEV_MANUFACTORER_TABLE_SIZE_def s
    using i inv by (simp add: man_inv_def)
  with i show ?thesis by blast
qed

text \<open>The result of compressing an address is stable: the second time nothing changes.\<close>

lemma compress_again:
  assumes inv: "man_inv z" and a: "length a = 8"
    and room: "(\<exists>i < 16. man_match z (take 3 a) i) \<or> (\<exists>i < 16. \<not> vec_bit (used_manufacturer z) i)"
  shows "\<exists>c v m. zb_ieee_addr_compress a z = Some (c, z\<lparr>used_manufacturer := v, manufacturers := m\<rparr>)
    \<and> man_inv (z\<lparr>used_manufacturer := v, manufacturers := m\<rparr>)
    \<and> ZB_ADDRESS_DECOMPRESS c (z\<lparr>used_manufacturer := v, manufacturers := m\<rparr>) = Some a
    \<and> (\<forall>z'. used_manufacturer z' = v \<longrightarrow> manufacturers z' = m \<longrightarrow> zb_ieee_addr_compress a z' = Some (c, z'))"
proof (cases "\<exists>i < 16. man_match z (take 3 a) i")
  case True
  obtain i where i: "i < 16" "man_match z (take 3 a) i" and
    run: "zb_ieee_addr_compress a z = Some (\<lparr>c_manufacturer = of_nat i, c_device_id = take 5 (drop 3 a)\<rparr>, z)"
    using compress_match [OF inv True] by blast
  let ?c = "\<lparr>c_manufacturer = of_nat i, c_device_id = take 5 (drop 3 a)\<rparr>"
  have "zb_ieee_addr_compress a z' = Some (?c, z')"
    if e: "used_manufacturer z' = used_manufacturer z" "manufacturers z' = manufacturers z" for z'
  proof -
    have "zb_ieee_addr_compress a z' = map_option (\<lambda>(c, _). (c, z')) (zb_ieee_addr_compress a z)"
    proof -
      have inv': "man_inv z'" and some': "\<exists>i < 16. man_match z' (take 3 a) i"
        using inv True e by (simp_all add: man_inv_def man_match_def)
      obtain i' where i': "zb_ieee_addr_compress a z' = Some (\<lparr>c_manufacturer = of_nat i', c_device_id = take 5 (drop 3 a)\<rparr>, z')"
        "i' < 16" using compress_match [OF inv' some'] by blast
      have "map_option fst (zb_ieee_addr_compress a z') = map_option fst (zb_ieee_addr_compress a z)"
        unfolding zb_ieee_addr_compress_def manufacturer_search_cong [OF e] e
        by (auto simp: Let_def split: option.splits bind_splits)
      with i' run show ?thesis by simp
    qed
    with run show ?thesis by simp
  qed
  moreover have "ZB_ADDRESS_DECOMPRESS ?c z = Some a"
  proof -
    have "unat (of_nat i :: u8) = i" using i by simp
    moreover have "take 3 a @ take 5 (drop 3 a) = a" using a by simp
    ultimately show ?thesis using i inv by (simp add: ZB_ADDRESS_DECOMPRESS_def man_inv_def man_match_def)
  qed
  ultimately show ?thesis
    using run inv by (intro exI [of _ ?c] exI [of _ "used_manufacturer z"] exI [of _ "manufacturers z"]) simp
next
  case False
  obtain c v m where run: "zb_ieee_addr_compress a z = Some (c, z\<lparr>used_manufacturer := v, manufacturers := m\<rparr>)"
    and inv1: "man_inv (z\<lparr>used_manufacturer := v, manufacturers := m\<rparr>)"
    and dec: "ZB_ADDRESS_DECOMPRESS c (z\<lparr>used_manufacturer := v, manufacturers := m\<rparr>) = Some a"
    using compress_ok [OF inv a room] by blast
  have c: "\<exists>i < 16. c = \<lparr>c_manufacturer = of_nat i, c_device_id = take 5 (drop 3 a)\<rparr>
    \<and> zb_set_bit_in_bit_vector (used_manufacturer z) i = Some v \<and> m = (manufacturers z)[i := take 3 a]"
    using run inv unfolding zb_ieee_addr_compress_def
    by (clarsimp simp: bind_eq_Some_conv Let_def arr_set_Some man_inv_def man_update_eq split: if_splits) metis
  then obtain i where i: "i < 16" "c = \<lparr>c_manufacturer = of_nat i, c_device_id = take 5 (drop 3 a)\<rparr>"
    and v: "zb_set_bit_in_bit_vector (used_manufacturer z) i = Some v" and m: "m = (manufacturers z)[i := take 3 a]"
    by blast
  have bits: "vec_bit v j \<longleftrightarrow> j = i \<or> vec_bit (used_manufacturer z) j" if "j < 16" for j
    using set_bit_vec [of i "used_manufacturer z"] v i inv that by (auto simp: man_inv_def)
  have "zb_ieee_addr_compress a z' = Some (c, z')" if e: "used_manufacturer z' = v" "manufacturers z' = m" for z'
  proof -
    have only: "man_match z' (take 3 a) j \<longleftrightarrow> j = i" if "j < 16" for j
      using False that bits [OF that] e i(1) m inv by (auto simp: man_match_def nth_list_update man_inv_def)
    have "man_inv z'" using inv1 e by (simp add: man_inv_def)
    from compress_match [OF this, of a] only i(1) show ?thesis unfolding i(2) by blast
  qed
  with run inv1 dec show ?thesis by blast
qed


section \<open>Known addresses\<close>

definition compresses_to :: "zb_ieee_addr \<Rightarrow> zb_ieee_addr_compressed \<Rightarrow> u8 list \<Rightarrow> u8 list list \<Rightarrow> bool" where
  "compresses_to a c v m \<longleftrightarrow>
     (\<forall>z. used_manufacturer z = v \<longrightarrow> manufacturers z = m \<longrightarrow> zb_ieee_addr_compress a z = Some (c, z))"

text \<open>The address \<open>a\<close> has the reference \<open>r\<close>: it compresses without a change, and the probe finds it.\<close>

definition known_ieee :: "zb_ieee_addr \<Rightarrow> nat \<Rightarrow> zb_addr_globals \<Rightarrow> bool" where
  "known_ieee a r z \<longleftrightarrow> addr_inv z \<and> man_inv z \<and> r \<in> used_refs (addr_map z)
     \<and> (\<exists>c. compresses_to a c (used_manufacturer z) (manufacturers z) \<and> ieee_search c z = Some (Some r)
          \<and> am_ieee (addr_map z ! r) = c \<and> ZB_ADDRESS_DECOMPRESS c z = Some a)"

definition touch :: "nat \<Rightarrow> zb_addr_globals \<Rightarrow> zb_addr_globals" where
  "touch r z = z\<lparr>addr_map := (addr_map z)[r := (addr_map z ! r)\<lparr>am_clock := True\<rparr>]\<rparr>"

lemma touch_props:
  assumes "addr_inv z" and "r < 101"
  shows "set_clock r z = Some (touch r z)" "addr_inv (touch r z)"
    "used_refs (addr_map (touch r z)) = used_refs (addr_map z)"
    "am_ieee (addr_map (touch r z) ! q) = am_ieee (addr_map z ! q)"
    "am_addr (addr_map (touch r z) ! q) = am_addr (addr_map z ! q)"
    "am_used (addr_map (touch r z) ! q) = am_used (addr_map z ! q)"
    "used_manufacturer (touch r z) = used_manufacturer z" "manufacturers (touch r z) = manufacturers z"
    "length (addr_map (touch r z)) = 101" "length (addr_map z) = 101"
proof -
  have len: "length (addr_map z) = 101" using assms(1) by (simp add: addr_inv_def sorted_inv_def)
  show "set_clock r z = Some (touch r z)" "addr_inv (touch r z)"
    using set_clock_ok [OF assms] unfolding touch_def by blast+
  show "used_refs (addr_map (touch r z)) = used_refs (addr_map z)"
    using len assms(2) by (auto simp: touch_def used_refs_def nth_list_update split: if_splits)
qed (use assms in \<open>auto simp: touch_def nth_list_update addr_inv_def sorted_inv_def\<close>)

lemma ieee_search_cong:
  assumes "length (addr_map z) = 101" and "length (addr_map z') = 101"
    and "\<And>q. q < 101 \<Longrightarrow> am_used (addr_map z' ! q) = am_used (addr_map z ! q)"
    and "\<And>q. q < 101 \<Longrightarrow> am_ieee (addr_map z' ! q) = am_ieee (addr_map z ! q)"
  shows "ieee_search c z' = ieee_search c z"
  unfolding ieee_search_eq [OF assms(1)] ieee_search_eq [OF assms(2)]
  by (intro arg_cong [of _ _ Some] find_cong refl) (use assms hash_lt [of c] in auto)

lemma decompress_cong: "manufacturers z' = manufacturers z \<Longrightarrow> ZB_ADDRESS_DECOMPRESS c z' = ZB_ADDRESS_DECOMPRESS c z"
  by (simp add: ZB_ADDRESS_DECOMPRESS_def)

lemma man_inv_cong:
  "used_manufacturer z' = used_manufacturer z \<Longrightarrow> manufacturers z' = manufacturers z \<Longrightarrow> man_inv z' = man_inv z"
  by (simp add: man_inv_def)

lemma known_by_ieee:
  assumes "known_ieee a r z"
  shows "zb_address_by_ieee a create False z = Some (RET_OK, Some r, touch r z)" "known_ieee a r (touch r z)"
proof -
  from assms obtain c where c: "compresses_to a c (used_manufacturer z) (manufacturers z)" "ieee_search c z = Some (Some r)"
    "am_ieee (addr_map z ! r) = c" "ZB_ADDRESS_DECOMPRESS c z = Some a"
    and k: "addr_inv z" "man_inv z" "r \<in> used_refs (addr_map z)" unfolding known_ieee_def by blast
  from k(3) have "r < 101" by (simp add: used_refs_def)
  note t = touch_props [OF k(1) this]
  show "zb_address_by_ieee a create False z = Some (RET_OK, Some r, touch r z)"
    using c t(1) by (simp add: zb_address_by_ieee_def lock_if_def compresses_to_def)
  have "ieee_search c (touch r z) = Some (Some r)"
    using c(2) ieee_search_cong [OF t(10,9)] t(4,6) by simp
  then show "known_ieee a r (touch r z)"
    using k c t man_inv_cong [OF t(7,8)] decompress_cong [OF t(8)]
    unfolding known_ieee_def by auto
qed

lemma by_ieee_create:
  assumes inv: "addr_inv z" and man: "man_inv z" and len: "length a = 8"
    and mroom: "(\<exists>i < 16. man_match z (take 3 a) i) \<or> (\<exists>i < 16. \<not> vec_bit (used_manufacturer z) i)"
    and room: "used_refs (addr_map z) \<noteq> {..<101}"
  shows "\<exists>r z1. zb_address_by_ieee a True False z = Some (RET_OK, Some r, z1) \<and> known_ieee a r z1
    \<and> zb_address_ieee_by_ref r z1 = Some a
    \<and> (\<exists>z2. zb_address_by_ieee a False False z1 = Some (RET_OK, Some r, z2) \<and> known_ieee a r z2)
    \<and> (\<forall>q \<in> used_refs (addr_map z). am_addr (addr_map z1 ! q) = am_addr (addr_map z ! q)
          \<and> am_ieee (addr_map z1 ! q) = am_ieee (addr_map z ! q))"
proof -
  obtain c v m where c: "zb_ieee_addr_compress a z = Some (c, z\<lparr>used_manufacturer := v, manufacturers := m\<rparr>)"
    and man1: "man_inv (z\<lparr>used_manufacturer := v, manufacturers := m\<rparr>)"
    and dec: "ZB_ADDRESS_DECOMPRESS c (z\<lparr>used_manufacturer := v, manufacturers := m\<rparr>) = Some a"
    and again: "compresses_to a c v m"
    using compress_again [OF man len mroom] unfolding compresses_to_def by blast
  let ?y = "z\<lparr>used_manufacturer := v, manufacturers := m\<rparr>"
  have len1: "length (addr_map ?y) = 101" using inv by (simp add: addr_inv_def sorted_inv_def)
  have "refs ?y = refs z" by (simp add: refs_def)
  then have inv1: "addr_inv ?y" using inv unfolding addr_inv_def sorted_inv_def by simp
  obtain r z1 where run: "zb_address_by_ieee a True False z = Some (RET_OK, Some r, z1)" and kn: "known_ieee a r z1"
    and rest: "\<forall>q \<in> used_refs (addr_map z). am_addr (addr_map z1 ! q) = am_addr (addr_map z ! q)
          \<and> am_ieee (addr_map z1 ! q) = am_ieee (addr_map z ! q)"
  proof (cases "ieee_search c ?y")
    case None
    with ieee_search_eq [OF len1] show ?thesis by simp
  next
    case s: (Some found)
    show ?thesis
    proof (cases found)
      case (Some r)
      have "am_used (addr_map ?y ! r) \<and> am_ieee (addr_map ?y ! r) = c \<and> r < 101"
        using s ieee_search_eq [OF len1, of c] hash_lt [of c] unfolding Some by (auto dest: find_some_set)
      then have k: "known_ieee a r ?y"
        using s again inv1 man1 dec by (auto simp: known_ieee_def used_refs_def Some)
      then have "zb_address_by_ieee a True False z = Some (RET_OK, Some r, touch r ?y)"
        using c s touch_props(1) [OF inv1, of r] by (simp add: zb_address_by_ieee_def Some lock_if_def known_ieee_def used_refs_def)
      moreover have "r < 101" using k by (simp add: known_ieee_def used_refs_def)
      ultimately show ?thesis using known_by_ieee(2) [OF k] touch_props(4,5) [OF inv1]
        by (intro that [of r "touch r ?y"]) simp_all
    next
      case None
      obtain i z1 where add: "addr_add (Some c) 0xffff ?y = Some (RET_OK, Some i, z1)" "i < 101" "i \<notin> used_refs (addr_map ?y)"
        "addr_inv z1" "used_refs (addr_map z1) = insert i (used_refs (addr_map ?y))" "am_ieee (addr_map z1 ! i) = c"
        "\<forall>r. r \<noteq> i \<longrightarrow> am_addr (addr_map z1 ! r) = am_addr (addr_map ?y ! r) \<and> am_ieee (addr_map z1 ! r) = am_ieee (addr_map ?y ! r)"
        "manufacturers z1 = m" "used_manufacturer z1 = v"
      proof -
        have room1: "used_refs (addr_map ?y) \<noteq> {..<101}" using room by simp
        have new: "(0xffff :: u16) \<noteq> 0xffff \<longrightarrow> (\<forall>r \<in> used_refs (addr_map ?y). am_addr (addr_map ?y ! r) \<noteq> 0xffff)" by blast
        from addr_add_ok [OF inv1 room1 new, of "Some c"] show ?thesis
          by (elim exE conjE) (rule that, assumption, simp_all)
      qed
      have len2: "length (addr_map z1) = 101" using add(4) by (simp add: addr_inv_def sorted_inv_def)
      have q: "am_used (addr_map z1 ! q) \<and> am_ieee (addr_map z1 ! q) = c
        \<longleftrightarrow> q = i \<or> am_used (addr_map ?y ! q) \<and> am_ieee (addr_map ?y ! q) = c" if "q < 101" for q
        using add(5,6,7) that by (auto simp: used_refs_def set_eq_iff)
      have "find (\<lambda>q. am_used (addr_map ?y ! q) \<and> am_ieee (addr_map ?y ! q) = c) (ring_from 101 (zb_address_compressed_ieee_hash c)) = None"
        using s ieee_search_eq [OF len1, of c] None by simp
      then have "find (\<lambda>q. am_used (addr_map z1 ! q) \<and> am_ieee (addr_map z1 ! q) = c) (ring_from 101 (zb_address_compressed_ieee_hash c)) = Some i"
        using add(2) q hash_lt [of c] by (intro find_unique) (auto simp: find_none_set)
      then have "ieee_search c z1 = Some (Some i)" using ieee_search_eq [OF len2, of c] by simp
      moreover have "man_inv z1" using man1 add(8,9) by (simp add: man_inv_def)
      moreover have "ZB_ADDRESS_DECOMPRESS c z1 = Some a" using dec add(8) by (simp add: ZB_ADDRESS_DECOMPRESS_def)
      ultimately have "known_ieee a i z1" using add again by (auto simp: known_ieee_def)
      moreover have "zb_address_by_ieee a True False z = Some (RET_OK, Some i, z1)"
        using c s add(1) by (simp add: zb_address_by_ieee_def None lock_if_def)
      moreover have "\<forall>q \<in> used_refs (addr_map z). am_addr (addr_map z1 ! q) = am_addr (addr_map z ! q)
          \<and> am_ieee (addr_map z1 ! q) = am_ieee (addr_map z ! q)" using add(3,7) by auto
      ultimately show ?thesis using that by blast
    qed
  qed
  have "zb_address_ieee_by_ref r z1 = Some a"
    using kn by (auto simp: known_ieee_def zb_address_ieee_by_ref_def used_refs_def addr_inv_def sorted_inv_def)
  with run kn rest known_by_ieee(1) [OF kn, of False] known_by_ieee(2) [OF kn] show ?thesis by blast
qed

text \<open>
  Entering a device that is unknown by either address: a fresh reference, locked once, that leads to
  both addresses.
\<close>

lemma update_new:
  assumes inv: "addr_inv z" and man: "man_inv z" and len: "length dev = 8"
    and mroom: "(\<exists>i < 16. man_match z (take 3 dev) i) \<or> (\<exists>i < 16. \<not> vec_bit (used_manufacturer z) i)"
    and room: "used_refs (addr_map z) \<noteq> {..<101}"
    and absent: "zb_address_by_ieee dev False False z = Some (RET_NOT_FOUND, None, z1)"
    and a: "a \<noteq> 0xffff" "\<forall>r \<in> used_refs (addr_map z). am_addr (addr_map z ! r) \<noteq> a"
    and locks: "\<forall>r < 101. r \<notin> used_refs (addr_map z) \<longrightarrow> am_lock_cnt (addr_map z ! r) \<noteq> 15"
  shows "\<exists>r z2. zb_address_update dev a True z1 = Some (RET_OK, Some r, z2)
    \<and> r < 101 \<and> r \<notin> used_refs (addr_map z) \<and> addr_inv z2 \<and> used_refs (addr_map z2) = insert r (used_refs (addr_map z))
    \<and> am_addr (addr_map z2 ! r) = a \<and> zb_address_ieee_by_ref r z2 = Some dev
    \<and> am_lock_cnt (addr_map z2 ! r) = am_lock_cnt (addr_map z ! r) + 1
    \<and> (\<forall>q. q \<noteq> r \<longrightarrow> am_addr (addr_map z2 ! q) = am_addr (addr_map z ! q) \<and> am_ieee (addr_map z2 ! q) = am_ieee (addr_map z ! q))"
proof -
  obtain c v m where c: "zb_ieee_addr_compress dev z = Some (c, z\<lparr>used_manufacturer := v, manufacturers := m\<rparr>)"
    and man1: "man_inv (z\<lparr>used_manufacturer := v, manufacturers := m\<rparr>)"
    and dec: "ZB_ADDRESS_DECOMPRESS c (z\<lparr>used_manufacturer := v, manufacturers := m\<rparr>) = Some dev"
    and again: "compresses_to dev c v m"
    using compress_again [OF man len mroom] unfolding compresses_to_def by blast
  let ?y = "z\<lparr>used_manufacturer := v, manufacturers := m\<rparr>"
  have len1: "length (addr_map ?y) = 101" using inv by (simp add: addr_inv_def sorted_inv_def)
  have "refs ?y = refs z" by (simp add: refs_def)
  then have inv1: "addr_inv ?y" using inv unfolding addr_inv_def sorted_inv_def by simp
  have s: "ieee_search c ?y = Some None" and z1: "z1 = ?y"
  proof -
    obtain found where f: "ieee_search c ?y = Some found" using ieee_search_eq [OF len1] by blast
    have "found = None \<and> z1 = ?y"
    proof (cases found)
      case (Some r)
      have "r < 101"
        using f ieee_search_eq [OF len1, of c] hash_lt [of c] unfolding Some by (auto dest: find_some_set)
      from touch_props(1) [OF inv1 this] absent c f show ?thesis
        by (simp add: zb_address_by_ieee_def Some lock_if_def)
    next
      case None
      with absent c f show ?thesis by (simp add: zb_address_by_ieee_def lock_if_def)
    qed
    with f show "ieee_search c ?y = Some None" "z1 = ?y" by simp_all
  qed
  have ss: "short_search a ?y = Some None" by (rule addr_short_search(2) [OF inv1 a(1)]) (use a(2) in simp)
  have room1: "used_refs (addr_map ?y) \<noteq> {..<101}" using room by simp
  have new: "a \<noteq> 0xffff \<longrightarrow> (\<forall>r \<in> used_refs (addr_map ?y). am_addr (addr_map ?y ! r) \<noteq> a)" using a by simp
  obtain i w where add: "addr_add (Some c) a ?y = Some (RET_OK, Some i, w)" "i < 101" "i \<notin> used_refs (addr_map z)"
    "addr_inv w" "used_refs (addr_map w) = insert i (used_refs (addr_map z))" "am_addr (addr_map w ! i) = a"
    "am_ieee (addr_map w ! i) = c" "am_lock_cnt (addr_map w ! i) = am_lock_cnt (addr_map z ! i)"
    "\<forall>r. r \<noteq> i \<longrightarrow> am_addr (addr_map w ! r) = am_addr (addr_map z ! r) \<and> am_ieee (addr_map w ! r) = am_ieee (addr_map z ! r)"
    "manufacturers w = m"
    using addr_add_ok [OF inv1 room1 new, of "Some c"] by (elim exE conjE) (rule that, assumption, simp_all)
  have lenw: "length (addr_map w) = 101" using add(4) by (simp add: addr_inv_def sorted_inv_def)
  let ?w = "w\<lparr>addr_map := (addr_map w)[i := (addr_map w ! i)\<lparr>am_lock_cnt := am_lock_cnt (addr_map w ! i) + 1, am_clock := True\<rparr>]\<rparr>"
  have "zb_address_lock i w = Some ?w" using lock_unlock [of i w] lenw add(2,3,8) locks by auto
  then have run: "zb_address_update dev a True z1 = Some (RET_OK, Some i, ?w)"
    using again ss s add(1) unfolding z1
    by (simp add: zb_address_update_def update_conflict_def lock_if_def compresses_to_def)
  have wk: "clock_i w \<le> 101" using add(4) by (simp add: addr_inv_def)
  have "addr_inv (w\<lparr>addr_map := addr_map ?w, clock_i := clock_i w\<rparr>)"
    by (rule addr_inv_cong [OF add(4) _ _ wk]) (use lenw add(2) in \<open>auto simp: nth_list_update\<close>)
  then have "addr_inv ?w" by simp
  moreover have "used_refs (addr_map ?w) = insert i (used_refs (addr_map z))"
    using add(5) lenw add(2) by (auto simp: used_refs_def nth_list_update split: if_splits)
  moreover have "zb_address_ieee_by_ref i ?w = Some dev"
    using dec add(2,7,10) lenw by (simp add: zb_address_ieee_by_ref_def ZB_ADDRESS_DECOMPRESS_def)
  ultimately show ?thesis
    using run add lenw by (intro exI [of _ i] exI [of _ ?w]) (simp add: nth_list_update)
qed

lemma addr_cleared_room:
  "(\<exists>i < 16. man_match addr_cleared m i) \<or> (\<exists>i < 16. \<not> vec_bit (used_manufacturer addr_cleared) i)"
  "used_refs (addr_map addr_cleared) \<noteq> {..<101}"
proof -
  have "\<not> vec_bit (used_manufacturer addr_cleared) 0" by (simp add: vec_bit_def addr_cleared_def)
  then have "\<exists>i < 16. \<not> vec_bit (used_manufacturer addr_cleared) i" by (intro exI [of _ 0]) simp
  then show "(\<exists>i < 16. man_match addr_cleared m i) \<or> (\<exists>i < 16. \<not> vec_bit (used_manufacturer addr_cleared) i)" ..
  have "(0 :: nat) \<in> {..<101}" by simp
  then show "used_refs (addr_map addr_cleared) \<noteq> {..<101}" unfolding addr_cleared_inv(4) by blast
qed

text \<open>
  Looking up a 64-bit address with creation, while the address map has room and the
  manufacturer of the address is known or has room, succeeds: afterwards the address is known under
  the reference returned, a further lookup finds it there, the reference leads back to the address,
  and the entries in use keep their addresses.
\<close>

theorem by_ieee_creates:
  assumes inv: "addr_inv z" and man: "man_inv z" and len: "length a = 8"
    and mroom: "(\<exists>i < 16. man_match z (take 3 a) i) \<or> (\<exists>i < 16. \<not> vec_bit (used_manufacturer z) i)"
    and room: "used_refs (addr_map z) \<noteq> {..<101}"
  shows "\<exists>r z1. zb_address_by_ieee a True False z = Some (RET_OK, Some r, z1) \<and> known_ieee a r z1
    \<and> zb_address_ieee_by_ref r z1 = Some a
    \<and> (\<exists>z2. zb_address_by_ieee a False False z1 = Some (RET_OK, Some r, z2) \<and> known_ieee a r z2)
    \<and> (\<forall>q \<in> used_refs (addr_map z). am_addr (addr_map z1 ! q) = am_addr (addr_map z ! q)
          \<and> am_ieee (addr_map z1 ! q) = am_ieee (addr_map z ! q))"
  by (rule by_ieee_create [OF assms])

theorem by_ieee_creates_witness:
  "\<exists>r z1. zb_address_by_ieee [8, 7, 6, 5, 4, 3, 2, 1] True False addr_cleared = Some (RET_OK, Some r, z1)
    \<and> known_ieee [8, 7, 6, 5, 4, 3, 2, 1] r z1"
  using by_ieee_creates [OF addr_cleared_inv(1,2) _ addr_cleared_room, of "[8, 7, 6, 5, 4, 3, 2, 1]"] by auto

text \<open>An address table in which the address 8, 7, ..., 1 is known.\<close>

lemma known_exists: "\<exists>r z. known_ieee [8, 7, 6, 5, 4, 3, 2, 1] r z"
  using by_ieee_create [OF addr_cleared_inv(1,2) _ addr_cleared_room, of "[8, 7, 6, 5, 4, 3, 2, 1]"] by auto

end
