(* ===== verification/Neighbor.thy ===== *)
theory Neighbor
  imports Address
begin

text \<open>
  The neighbor tables of \<^verbatim>\<open>nwk/nwk_neighbor.c\<close> for a router or coordinator: the base table of the
  running device, the map from address references to its entries, and the extended table the
  network discovery keeps in memory cut from the end of the base table. The state is
  \<^verbatim>\<open>ZG->nwk.neighbor\<close> of \<^verbatim>\<open>include/zb_nwk_neighbor.h\<close>; entries of either table are named by their index.

  The extended entries in use are the list \<open>ext_neighbor\<close>, so \<^verbatim>\<open>ext_neighbor_used\<close> is its length, and
  \<open>ext_off\<close> is the byte of the base table at which \<^verbatim>\<open>ext_neighbor\<close> points. The memory behind the base
  entries in use is shared: what base entries the bytes of the extended table read as when it is
  given back is the argument \<open>stale\<close> of \<open>zb_nwk_exneighbor_stop\<close>, and an extended entry written over
  a base entry that is still part of the base table leaves the model.
\<close>

section \<open>State\<close>

definition ZB_NEIGHBOR_TABLE_SIZE :: nat where [zb_config]: "ZB_NEIGHBOR_TABLE_SIZE = 32"

definition ZB_NWK_DEVICE_TYPE_ED :: "2 word" where [zb_config]: "ZB_NWK_DEVICE_TYPE_ED = 0"
definition ZB_NWK_DEVICE_TYPE_ROUTER :: "2 word" where [zb_config]: "ZB_NWK_DEVICE_TYPE_ROUTER = 1"
definition ZB_NWK_DEVICE_TYPE_COORDINATOR :: "2 word" where [zb_config]: "ZB_NWK_DEVICE_TYPE_COORDINATOR = 2"
definition ZB_NWK_DEVICE_TYPE_NONE :: "2 word" where [zb_config]: "ZB_NWK_DEVICE_TYPE_NONE = 3"

definition ZB_NWK_RELATIONSHIP_PARENT :: "3 word" where [zb_config]: "ZB_NWK_RELATIONSHIP_PARENT = 0"
definition ZB_NWK_RELATIONSHIP_CHILD :: "3 word" where [zb_config]: "ZB_NWK_RELATIONSHIP_CHILD = 1"
definition ZB_NWK_RELATIONSHIP_NONE_OF_THE_ABOVE :: "3 word" where
  [zb_config]: "ZB_NWK_RELATIONSHIP_NONE_OF_THE_ABOVE = 3"
definition ZB_NWK_RELATIONSHIP_UNAUTHENTICATED_CHILD :: "3 word" where
  [zb_config]: "ZB_NWK_RELATIONSHIP_UNAUTHENTICATED_CHILD = 5"

record zb_ext_neighbor_tbl_ent =
  x_short_addr :: u16
  x_long_addr :: zb_ieee_addr_compressed
  x_lqi :: u8
  x_update_id :: u8
  x_logical_channel :: "5 word"
  x_panid_ref :: "3 word"
  x_beacon_order :: u4
  x_depth :: u4
  x_stack_profile :: u4
  x_superframe_order :: u4
  x_permit_joining :: bool
  x_device_type :: "2 word"
  x_router_capacity :: bool
  x_end_device_capacity :: bool
  x_potential_parent :: bool

record zb_neighbor_tbl_ent =
  addr_ref :: nat
  permit_joining :: "2 word"
  device_type :: "2 word"
  depth :: u4
  n_used :: bool
  rx_on_when_idle :: bool
  relationship :: "3 word"
  transmit_failure :: u8
  lqi :: u8
  incoming_frame_counter :: u32
  key_seq_number :: u8

record zb_neighbor_tbl =
  base_neighbor :: "zb_neighbor_tbl_ent list"
  addr_to_neighbor :: "u8 list"
  base_neighbor_size :: u32
  base_neighbor_used :: u32
  ext_neighbor :: "zb_ext_neighbor_tbl_ent list"
  ext_off :: nat
  ext_neighbor_size :: u32
  frame_counter_clock :: u32

text \<open>The packed sizes of the two entries, with a 32-bit address reference and security compiled in.\<close>

definition sizeof_neighbor_ent :: nat where [zb_config]: "sizeof_neighbor_ent = 13"
definition sizeof_ext_neighbor_ent :: nat where [zb_config]: "sizeof_ext_neighbor_ent = 14"

text \<open>Entries after \<^verbatim>\<open>ZB_BZERO\<close>.\<close>

definition neighbor_ent_zero :: zb_neighbor_tbl_ent where
  "neighbor_ent_zero = \<lparr>addr_ref = 0, permit_joining = 0, device_type = 0, depth = 0, n_used = False,
     rx_on_when_idle = False, relationship = 0, transmit_failure = 0, lqi = 0, incoming_frame_counter = 0,
     key_seq_number = 0\<rparr>"

definition ext_neighbor_ent_zero :: zb_ext_neighbor_tbl_ent where
  "ext_neighbor_ent_zero = \<lparr>x_short_addr = 0, x_long_addr = ieee_zero, x_lqi = 0, x_update_id = 0,
     x_logical_channel = 0, x_panid_ref = 0, x_beacon_order = 0, x_depth = 0, x_stack_profile = 0,
     x_superframe_order = 0, x_permit_joining = False, x_device_type = 0, x_router_capacity = False,
     x_end_device_capacity = False, x_potential_parent = False\<rparr>"

definition zb_nwk_neighbor_init :: "zb_neighbor_tbl \<Rightarrow> zb_neighbor_tbl" where
  "zb_nwk_neighbor_init nb =
     nb\<lparr>addr_to_neighbor := replicate ZB_IEEE_ADDR_TABLE_SIZE 0xff,
        base_neighbor_size := of_nat ZB_NEIGHBOR_TABLE_SIZE\<rparr>"

definition neighbor_tbl_zero :: zb_neighbor_tbl where
  "neighbor_tbl_zero = \<lparr>base_neighbor = replicate ZB_NEIGHBOR_TABLE_SIZE neighbor_ent_zero,
     addr_to_neighbor = replicate ZB_IEEE_ADDR_TABLE_SIZE 0, base_neighbor_size = 0, base_neighbor_used = 0,
     ext_neighbor = [], ext_off = 0, ext_neighbor_size = 0, frame_counter_clock = 0\<rparr>"

definition zb_nwk_neighbor_clear :: zb_neighbor_tbl where
  "zb_nwk_neighbor_clear = zb_nwk_neighbor_init neighbor_tbl_zero"

section \<open>The base table\<close>

definition zb_nwk_neighbor_delete :: "nat \<Rightarrow> zb_neighbor_tbl \<Rightarrow> (zb_ret \<times> zb_neighbor_tbl) option" where
  "zb_nwk_neighbor_delete ieee_ref nb = do {
     n \<leftarrow> arr_get (addr_to_neighbor nb) ieee_ref;
     if n \<noteq> 0xff then do {
       a \<leftarrow> arr_set (addr_to_neighbor nb) ieee_ref 0xff;
       e \<leftarrow> arr_get (base_neighbor nb) (unat n);
       b \<leftarrow> arr_set (base_neighbor nb) (unat n) (e\<lparr>n_used := False\<rparr>);
       Some (RET_OK, nb\<lparr>base_neighbor := b, addr_to_neighbor := a\<rparr>) }
     else Some (RET_NOT_FOUND, nb) }"

text \<open>The entry a new neighbor gets; \<open>nib_depth\<close> is \<^verbatim>\<open>ZG->nwk.nib.depth\<close>.\<close>

definition new_neighbor_ent :: "nat \<Rightarrow> u4 \<Rightarrow> zb_neighbor_tbl_ent" where
  "new_neighbor_ent ref nib_depth =
     neighbor_ent_zero\<lparr>addr_ref := ref, permit_joining := 2, depth := nib_depth, n_used := True,
       relationship := ZB_NWK_RELATIONSHIP_NONE_OF_THE_ABOVE\<rparr>"

definition zb_nwk_neighbor_get ::
  "u4 \<Rightarrow> nat \<Rightarrow> bool \<Rightarrow> zb_neighbor_tbl \<Rightarrow> zb_addr_globals
     \<Rightarrow> (zb_ret \<times> nat option \<times> zb_neighbor_tbl \<times> zb_addr_globals) option" where
  "zb_nwk_neighbor_get nib_depth ref create_if_absent nb z = do {
     n \<leftarrow> arr_get (addr_to_neighbor nb) ref;
     if n = 0xff then
       if create_if_absent then
         if base_neighbor_used nb = base_neighbor_size nb - 1 then Some (RET_NO_MEMORY, None, nb, z)
         else do {
           z \<leftarrow> zb_address_lock ref z;
           let n = (ucast (base_neighbor_used nb) :: u8);
           a \<leftarrow> arr_set (addr_to_neighbor nb) ref n;
           b \<leftarrow> arr_set (base_neighbor nb) (unat n) (new_neighbor_ent ref nib_depth);
           Some (RET_OK, Some (unat n),
                 nb\<lparr>base_neighbor := b, addr_to_neighbor := a, base_neighbor_used := base_neighbor_used nb + 1\<rparr>, z) }
       else Some (RET_NOT_FOUND, None, nb, z)
     else Some (RET_OK, Some (unat n), nb, z) }"

definition ZB_NWK_NEIGHBOR_GET_EXISTING :: "nat \<Rightarrow> zb_neighbor_tbl \<Rightarrow> nat option option" where
  "ZB_NWK_NEIGHBOR_GET_EXISTING ref nb = do {
     n \<leftarrow> arr_get (addr_to_neighbor nb) ref;
     Some (if n = 0xff then None else Some (unat n)) }"

definition zb_nwk_neighbor_ext_to_base_tmp ::
  "zb_ext_neighbor_tbl_ent \<Rightarrow> zb_neighbor_tbl \<Rightarrow> zb_addr_globals
     \<Rightarrow> (zb_ret \<times> zb_neighbor_tbl \<times> zb_addr_globals) option" where
  "zb_nwk_neighbor_ext_to_base_tmp x nb z =
     (if base_neighbor_size nb \<le> base_neighbor_used nb then Some (RET_NO_MEMORY, nb, z)
      else do {
        long \<leftarrow> ZB_ADDRESS_DECOMPRESS (x_long_addr x) z;
        (_, ref, z) \<leftarrow> zb_address_by_ieee long True False z;
        ref \<leftarrow> ref;
        a \<leftarrow> arr_set (addr_to_neighbor nb) ref (ucast (base_neighbor_used nb));
        b \<leftarrow> arr_set (base_neighbor nb) (unat (base_neighbor_used nb))
               (neighbor_ent_zero\<lparr>addr_ref := ref, device_type := x_device_type x, n_used := True,
                  rx_on_when_idle := (x_device_type x \<noteq> ZB_NWK_DEVICE_TYPE_ED),
                  relationship := ZB_NWK_RELATIONSHIP_NONE_OF_THE_ABOVE, lqi := x_lqi x\<rparr>);
        Some (RET_OK, nb\<lparr>base_neighbor := b, addr_to_neighbor := a,
                         base_neighbor_used := base_neighbor_used nb + 1\<rparr>, z) })"

definition zb_nwk_neighbor_get_by_short ::
  "u4 \<Rightarrow> u16 \<Rightarrow> zb_neighbor_tbl \<Rightarrow> zb_addr_globals \<Rightarrow> (zb_ret \<times> nat option \<times> zb_addr_globals) option" where
  "zb_nwk_neighbor_get_by_short nib_depth short_addr nb z = do {
     (ret, ref, z) \<leftarrow> zb_address_by_short short_addr False False z;
     if ret = RET_OK then do {
       ref \<leftarrow> ref;
       (ret, n, _, z) \<leftarrow> zb_nwk_neighbor_get nib_depth ref False nb z;
       Some (if ret = RET_OK then (RET_OK, n, z) else (RET_NOT_FOUND, None, z)) }
     else Some (RET_NOT_FOUND, None, z) }"

definition zb_nwk_neighbor_get_by_ieee ::
  "u4 \<Rightarrow> zb_ieee_addr \<Rightarrow> zb_neighbor_tbl \<Rightarrow> zb_addr_globals \<Rightarrow> (zb_ret \<times> nat option \<times> zb_addr_globals) option" where
  "zb_nwk_neighbor_get_by_ieee nib_depth long_addr nb z = do {
     (ret, ref, z) \<leftarrow> zb_address_by_ieee long_addr False False z;
     if ret = RET_OK then do {
       ref \<leftarrow> ref;
       (ret, n, _, z) \<leftarrow> zb_nwk_neighbor_get nib_depth ref False nb z;
       Some (if ret = RET_OK then (RET_OK, n, z) else (RET_NOT_FOUND, None, z)) }
     else Some (RET_NOT_FOUND, None, z) }"

text \<open>
  Expiry of the stored frame counter of one entry; the difference of the key numbers is taken
  in 16 bits and made positive when the number has wrapped.
\<close>

definition zb_nwk_neighbor_incoming_frame_counter_clock :: "u8 \<Rightarrow> zb_neighbor_tbl \<Rightarrow> zb_neighbor_tbl option" where
  "zb_nwk_neighbor_incoming_frame_counter_clock key_seq nb =
     (if base_neighbor_size nb \<noteq> 0 then do {
        let i = (frame_counter_clock nb + 1) mod base_neighbor_size nb;
        e \<leftarrow> arr_get (base_neighbor nb) (unat i);
        let diff = uint key_seq - uint (key_seq_number e);
        let diff = (if diff < 0 then 256 + diff else diff);
        b \<leftarrow> arr_set (base_neighbor nb) (unat i)
               (if 3 < diff then e\<lparr>incoming_frame_counter := 0, key_seq_number := key_seq\<rparr> else e);
        Some (nb\<lparr>base_neighbor := b, frame_counter_clock := i\<rparr>) }
      else Some nb)"

text \<open>The search loops of the three iterators, from the entry \<open>i\<close>; all ones when there is none.\<close>

function next_neighbor_i :: "(zb_neighbor_tbl_ent \<Rightarrow> bool) \<Rightarrow> zb_neighbor_tbl \<Rightarrow> nat \<Rightarrow> u32 option" where
  "next_neighbor_i P nb i =
     (if i < unat (base_neighbor_used nb) then do {
        e \<leftarrow> arr_get (base_neighbor nb) i;
        if P e then Some (of_nat i) else next_neighbor_i P nb (i + 1) }
      else Some 0xffffffff)"
  by pat_completeness auto

termination next_neighbor_i
  by (relation "measure (\<lambda>(P, nb, i). unat (base_neighbor_used nb) - i)") auto

declare next_neighbor_i.simps [simp del]

definition zb_nwk_neighbor_next_rx_on_i :: "nat \<Rightarrow> zb_neighbor_tbl \<Rightarrow> u32 option" where
  "zb_nwk_neighbor_next_rx_on_i i nb = next_neighbor_i (\<lambda>e. n_used e \<and> rx_on_when_idle e) nb i"

definition is_child :: "zb_neighbor_tbl_ent \<Rightarrow> bool" where
  "is_child e \<longleftrightarrow> relationship e = ZB_NWK_RELATIONSHIP_CHILD \<or> relationship e = ZB_NWK_RELATIONSHIP_UNAUTHENTICATED_CHILD"

definition ZB_NWK_BROADCAST_ALL_DEVICES :: u16 where [zb_config]: "ZB_NWK_BROADCAST_ALL_DEVICES = 0xffff"
definition ZB_NWK_BROADCAST_RX_ON_WHEN_IDLE :: u16 where [zb_config]: "ZB_NWK_BROADCAST_RX_ON_WHEN_IDLE = 0xfffd"

definition zb_nwk_neighbor_next_ze_children_i :: "u16 \<Rightarrow> nat \<Rightarrow> zb_neighbor_tbl \<Rightarrow> u32 option" where
  "zb_nwk_neighbor_next_ze_children_i adr i nb =
     next_neighbor_i (\<lambda>e. n_used e \<and> is_child e \<and> device_type e = ZB_NWK_DEVICE_TYPE_ED
        \<and> (adr = ZB_NWK_BROADCAST_ALL_DEVICES \<or> (adr = ZB_NWK_BROADCAST_RX_ON_WHEN_IDLE \<and> rx_on_when_idle e))) nb i"

definition zb_nwk_neighbor_next_ze_children_rx_off_i :: "nat \<Rightarrow> zb_neighbor_tbl \<Rightarrow> u32 option" where
  "zb_nwk_neighbor_next_ze_children_rx_off_i i nb =
     next_neighbor_i (\<lambda>e. n_used e \<and> is_child e \<and> \<not> rx_on_when_idle e) nb i"

definition ZB_NWK_GET_PASSIVE_ACK_DEV_NUM :: "zb_neighbor_tbl \<Rightarrow> nat" where
  "ZB_NWK_GET_PASSIVE_ACK_DEV_NUM nb =
     length (filter (\<lambda>e. n_used e \<and> (device_type e = ZB_NWK_DEVICE_TYPE_ROUTER \<or> device_type e = ZB_NWK_DEVICE_TYPE_COORDINATOR))
       (take (unat (base_neighbor_size nb)) (base_neighbor nb)))"

section \<open>Cutting space for the extended table\<close>

text \<open>
  The loop that moves entries into holes. An entry moved leaves its place free, and \<open>hole\<close> is
  decremented as the code does it.
\<close>

function compact_loop :: "nat \<Rightarrow> nat \<Rightarrow> nat \<Rightarrow> zb_neighbor_tbl \<Rightarrow> zb_neighbor_tbl option" where
  "compact_loop i used hole nb =
     (if i < unat (base_neighbor_size nb) \<and> used < unat (base_neighbor_used nb) then do {
        e \<leftarrow> arr_get (base_neighbor nb) i;
        if n_used e then
          if hole \<noteq> 0 then do {
            b \<leftarrow> arr_set (base_neighbor nb) (i - hole) e;
            a \<leftarrow> arr_set (addr_to_neighbor nb) (addr_ref e) (of_nat (i - hole));
            b \<leftarrow> arr_set b i (e\<lparr>n_used := False\<rparr>);
            compact_loop (i + 1) (used + 1) (hole - 1) (nb\<lparr>base_neighbor := b, addr_to_neighbor := a\<rparr>) }
          else compact_loop (i + 1) (used + 1) hole nb
        else compact_loop (i + 1) used (hole + 1) nb }
      else Some nb)"
  by pat_completeness auto

termination compact_loop
  by (relation "measure (\<lambda>(i, used, hole, nb). unat (base_neighbor_size nb) - i)") auto

declare compact_loop.simps [simp del]

definition MAGIC_ROUND_TO_4 :: "u32 \<Rightarrow> u32" where
  "MAGIC_ROUND_TO_4 a = (a + 3) AND - 4"

text \<open>
  The geometry of the cut: the entries cut, the new size of the base table, the offset and the
  number of entries of the extended table. \<^verbatim>\<open>cut\<close> and \<^verbatim>\<open>off\<close> are bytes.
\<close>

definition exneighbor_cut :: "u32 \<Rightarrow> u32 \<Rightarrow> u32 \<times> u8 \<times> u8" where
  "exneighbor_cut bsize used =
     (let cut = ucast (bsize div 2) :: u8;
          cut = (if bsize - ucast cut < used then ucast (bsize - used) else cut);
          bsize = bsize - ucast cut;
          off = ucast (MAGIC_ROUND_TO_4 (bsize * of_nat sizeof_neighbor_ent)) :: u8;
          cut = ucast (ucast cut * of_nat sizeof_neighbor_ent - (ucast off - bsize * of_nat sizeof_neighbor_ent)) :: u8
      in (bsize, off, cut div of_nat sizeof_ext_neighbor_ent))"

text \<open>\<^verbatim>\<open>base_neighbor_cleanup\<close> has an empty body, so the test after it repeats the one before.\<close>

definition zb_nwk_exneighbor_start :: "zb_neighbor_tbl \<Rightarrow> zb_neighbor_tbl option" where
  "zb_nwk_exneighbor_start nb =
     (if ext_neighbor_size nb \<noteq> 0 then Some nb
      else do {
        nb \<leftarrow> (if base_neighbor_used nb \<noteq> 0 then compact_loop 0 0 0 nb else Some nb);
        let (bsize, off, n) = exneighbor_cut (base_neighbor_size nb) (base_neighbor_used nb);
        ZB_ASSERT (0 < n);
        Some (nb\<lparr>base_neighbor_size := bsize, ext_neighbor := [], ext_off := unat off, ext_neighbor_size := ucast n\<rparr>) })"

text \<open>A new extended entry; its bytes must lie behind the base table.\<close>

definition alloc_new_extneiboard ::
  "nat \<Rightarrow> u16 \<Rightarrow> zb_neighbor_tbl \<Rightarrow> (zb_ret \<times> nat option \<times> zb_neighbor_tbl) option" where
  "alloc_new_extneiboard panid_ref short_addr nb =
     (let k = length (ext_neighbor nb) in
      if k = unat (ext_neighbor_size nb) then Some (RET_NO_MEMORY, None, nb)
      else do {
        ZB_ASSERT (unat (base_neighbor_size nb) * sizeof_neighbor_ent \<le> ext_off nb + k * sizeof_ext_neighbor_ent
          \<and> ext_off nb + (k + 1) * sizeof_ext_neighbor_ent \<le> ZB_NEIGHBOR_TABLE_SIZE * sizeof_neighbor_ent);
        Some (RET_OK, Some k, nb\<lparr>ext_neighbor := ext_neighbor nb @
          [ext_neighbor_ent_zero\<lparr>x_short_addr := short_addr, x_panid_ref := of_nat panid_ref\<rparr>]\<rparr>) })"

fun find_index :: "('a \<Rightarrow> bool) \<Rightarrow> nat \<Rightarrow> 'a list \<Rightarrow> nat option" where
  "find_index P i [] = None"
| "find_index P i (x # xs) = (if P x then Some i else find_index P (i + 1) xs)"

lemma find_index_Some:
  "find_index P i xs = Some j \<Longrightarrow> i \<le> j \<and> j < i + length xs \<and> P (xs ! (j - i)) \<and> (\<forall>k < j - i. \<not> P (xs ! k))"
proof (induction P i xs rule: find_index.induct)
  case (2 P i x xs)
  show ?case
  proof (cases "P x")
    case False
    then have j: "Suc i \<le> j" "j < i + length (x # xs)" "P (xs ! (j - Suc i))" "\<forall>k < j - Suc i. \<not> P (xs ! k)"
      using 2 by auto
    then have "j - i = Suc (j - Suc i)" by simp
    with j False show ?thesis by (auto simp: less_Suc_eq_0_disj)
  qed (use 2 in simp)
qed simp

lemma find_index_None: "find_index P i xs = None \<longleftrightarrow> (\<forall>x \<in> set xs. \<not> P x)"
  by (induction P i xs rule: find_index.induct) auto

definition zb_nwk_exneighbor_by_short ::
  "nat \<Rightarrow> u16 \<Rightarrow> zb_neighbor_tbl \<Rightarrow> (zb_ret \<times> nat option \<times> zb_neighbor_tbl) option" where
  "zb_nwk_exneighbor_by_short panid_ref short_addr nb =
     (case find_index (\<lambda>x. x_short_addr x = short_addr \<and> unat (x_panid_ref x) = panid_ref) 0 (ext_neighbor nb) of
        Some i \<Rightarrow> Some (RET_OK, Some i, nb)
      | None \<Rightarrow> alloc_new_extneiboard panid_ref short_addr nb)"

text \<open>The loop of the search by long address has no break: the last match is returned.\<close>

fun find_last_index :: "('a \<Rightarrow> bool) \<Rightarrow> nat \<Rightarrow> nat option \<Rightarrow> 'a list \<Rightarrow> nat option" where
  "find_last_index P i r [] = r"
| "find_last_index P i r (x # xs) = find_last_index P (i + 1) (if P x then Some i else r) xs"

definition zb_nwk_exneighbor_by_ieee ::
  "nat \<Rightarrow> zb_ieee_addr \<Rightarrow> zb_neighbor_tbl \<Rightarrow> zb_addr_globals
     \<Rightarrow> (zb_ret \<times> nat option \<times> zb_neighbor_tbl \<times> zb_addr_globals) option" where
  "zb_nwk_exneighbor_by_ieee panid_ref long_addr nb z = do {
     (c, z) \<leftarrow> zb_ieee_addr_compress long_addr z;
     (case find_last_index (\<lambda>x. unat (x_panid_ref x) = panid_ref \<and> zb_address_compressed_cmp (x_long_addr x) c)
             0 None (ext_neighbor nb) of
        Some i \<Rightarrow> Some (RET_OK, Some i, nb, z)
      | None \<Rightarrow> do {
          (ret, i, nb) \<leftarrow> alloc_new_extneiboard panid_ref 0xffff nb;
          if ret = RET_OK then do {
            i \<leftarrow> i;
            (c, z) \<leftarrow> zb_ieee_addr_compress long_addr z;
            x \<leftarrow> arr_get (ext_neighbor nb) i;
            xs \<leftarrow> arr_set (ext_neighbor nb) i (x\<lparr>x_long_addr := c\<rparr>);
            Some (RET_OK, Some i, nb\<lparr>ext_neighbor := xs\<rparr>, z) }
          else Some (ret, None, nb, z) }) }"

section \<open>Giving the space back\<close>

text \<open>The address reference of an extended entry, by its long or its short address.\<close>

definition ext_address ::
  "zb_ext_neighbor_tbl_ent \<Rightarrow> zb_addr_globals \<Rightarrow> (zb_ret \<times> nat option \<times> zb_addr_globals) option" where
  "ext_address x z =
     (if x_short_addr x \<noteq> 0xffff then
        if x_long_addr x \<noteq> ieee_zero then do {
          long \<leftarrow> zb_ieee_addr_decompress (x_long_addr x) z;
          zb_address_update long (x_short_addr x) False z }
        else zb_address_by_short (x_short_addr x) True False z
      else do {
        long \<leftarrow> zb_ieee_addr_decompress (x_long_addr x) z;
        zb_address_by_ieee long True False z })"

text \<open>The base entry an extended entry is moved to, when there is one.\<close>

definition ext_to_base :: "zb_ext_neighbor_tbl_ent \<Rightarrow> nat \<Rightarrow> zb_neighbor_tbl \<Rightarrow> zb_neighbor_tbl option" where
  "ext_to_base x ref nb = do {
     n \<leftarrow> arr_get (addr_to_neighbor nb) ref;
     if n \<noteq> 0xff then do {
       e \<leftarrow> arr_get (base_neighbor nb) (unat n);
       ZB_ASSERT (n_used e);
       let e = (if device_type e = ZB_NWK_DEVICE_TYPE_NONE then e\<lparr>device_type := x_device_type x\<rparr> else e);
       Some (nb\<lparr>base_neighbor := (base_neighbor nb)[unat n := e\<lparr>addr_ref := ref, n_used := True, lqi := x_lqi x\<rparr>]\<rparr>) }
     else if base_neighbor_used nb < base_neighbor_size nb then do {
       a \<leftarrow> arr_set (addr_to_neighbor nb) ref (ucast (base_neighbor_used nb));
       b \<leftarrow> arr_set (base_neighbor nb) (unat (base_neighbor_used nb))
              (neighbor_ent_zero\<lparr>addr_ref := ref, permit_joining := (if x_permit_joining x then 1 else 0),
                 device_type := x_device_type x, depth := x_depth x, n_used := True,
                 rx_on_when_idle := (x_device_type x \<noteq> ZB_NWK_DEVICE_TYPE_ED),
                 relationship := ZB_NWK_RELATIONSHIP_NONE_OF_THE_ABOVE, lqi := x_lqi x\<rparr>);
       Some (nb\<lparr>base_neighbor := b, addr_to_neighbor := a, base_neighbor_used := base_neighbor_used nb + 1\<rparr>) }
     else Some nb }"

fun exneighbor_stop_loop ::
  "nat option \<Rightarrow> u8 \<Rightarrow> zb_ext_neighbor_tbl_ent list \<Rightarrow> zb_neighbor_tbl \<Rightarrow> zb_addr_globals
     \<Rightarrow> (zb_neighbor_tbl \<times> zb_addr_globals) option" where
  "exneighbor_stop_loop my free_size [] nb z = Some (nb, z)"
| "exneighbor_stop_loop my free_size (x # xs) nb z = do {
     my_panid_ref \<leftarrow> my;
     (nb, z) \<leftarrow> (if unat (x_panid_ref x) = my_panid_ref then do {
                   (ret, ref, z) \<leftarrow> ext_address x z;
                   if ret = RET_OK then do { ref \<leftarrow> ref; nb \<leftarrow> ext_to_base x ref nb; Some (nb, z) }
                   else Some (nb, z) }
                 else Some (nb, z));
     let free_size = free_size + of_nat sizeof_ext_neighbor_ent;
     let nb = nb\<lparr>base_neighbor_size := base_neighbor_size nb + ucast (free_size div of_nat sizeof_neighbor_ent)\<rparr>;
     let free_size = free_size - free_size div of_nat sizeof_neighbor_ent * of_nat sizeof_neighbor_ent;
     ZB_ASSERT (base_neighbor_size nb \<le> of_nat ZB_NEIGHBOR_TABLE_SIZE);
     exneighbor_stop_loop my free_size xs nb z }"

definition zb_nwk_exneighbor_stop ::
  "(nat \<Rightarrow> zb_neighbor_tbl_ent) \<Rightarrow> bool \<Rightarrow> zb_ieee_addr \<Rightarrow> zb_neighbor_tbl \<Rightarrow> zb_addr_globals
     \<Rightarrow> (zb_neighbor_tbl \<times> zb_addr_globals) option" where
  "zb_nwk_exneighbor_stop stale joined ext_pan_id nb z = do {
     let xs = ext_neighbor nb;
     let nb = (if xs = [] then nb else
       nb\<lparr>base_neighbor := map (\<lambda>i. if i < unat (base_neighbor_size nb) then base_neighbor nb ! i else stale i)
                              [0..<length (base_neighbor nb)]\<rparr>);
     (nb, z) \<leftarrow> (if joined then do {
                   (_, my) \<leftarrow> zb_address_get_pan_id_ref ext_pan_id z;
                   exneighbor_stop_loop my 0 xs nb z }
                 else Some (nb, z));
     Some (nb\<lparr>base_neighbor_size := of_nat ZB_NEIGHBOR_TABLE_SIZE, ext_neighbor := [], ext_off := 0,
              ext_neighbor_size := 0\<rparr>, z) }"

end
