(* ===== verification/Neighbor_Lemmas.thy ===== *)
theory Neighbor_Lemmas
  imports Neighbor Address_Lemmas
begin

text \<open>
  The lemmas and properties of the neighbor tables. The base table is read as a map from address
  references to entries, \<open>neighbor_of\<close>; lookup, creation, deletion and the compaction before a
  network discovery are operations on that map.
\<close>

section \<open>The invariant and the abstract map\<close>

definition nb_inv :: "zb_neighbor_tbl \<Rightarrow> bool" where
  "nb_inv nb \<longleftrightarrow> length (base_neighbor nb) = 32 \<and> length (addr_to_neighbor nb) = 101
     \<and> unat (base_neighbor_size nb) \<le> 32 \<and> unat (base_neighbor_used nb) \<le> unat (base_neighbor_size nb)
     \<and> (\<forall>r < 101. addr_to_neighbor nb ! r \<noteq> 0xff \<longrightarrow>
          unat (addr_to_neighbor nb ! r) < unat (base_neighbor_used nb)
          \<and> n_used (base_neighbor nb ! unat (addr_to_neighbor nb ! r))
          \<and> addr_ref (base_neighbor nb ! unat (addr_to_neighbor nb ! r)) = r)
     \<and> (\<forall>i < unat (base_neighbor_used nb). n_used (base_neighbor nb ! i) \<longrightarrow>
          addr_ref (base_neighbor nb ! i) < 101
          \<and> unat (addr_to_neighbor nb ! addr_ref (base_neighbor nb ! i)) = i)"

text \<open>No entry behind those in use is marked used, as after the initialisation.\<close>

definition nb_clean :: "zb_neighbor_tbl \<Rightarrow> bool" where
  "nb_clean nb \<longleftrightarrow> (\<forall>i < 32. unat (base_neighbor_used nb) \<le> i \<longrightarrow> \<not> n_used (base_neighbor nb ! i))"

definition neighbor_of :: "zb_neighbor_tbl \<Rightarrow> nat \<Rightarrow> zb_neighbor_tbl_ent option" where
  "neighbor_of nb r =
     (if r < 101 \<and> addr_to_neighbor nb ! r \<noteq> 0xff then Some (base_neighbor nb ! unat (addr_to_neighbor nb ! r)) else None)"

lemma nb_invD:
  assumes "nb_inv nb"
  shows "length (base_neighbor nb) = 32" "length (addr_to_neighbor nb) = 101"
    "unat (base_neighbor_size nb) \<le> 32" "unat (base_neighbor_used nb) \<le> unat (base_neighbor_size nb)"
    "unat (base_neighbor_used nb) \<le> 32"
  using assms by (auto simp: nb_inv_def)

lemma nb_inv_ref:
  assumes "nb_inv nb" and "r < 101" and "addr_to_neighbor nb ! r \<noteq> 0xff"
  shows "unat (addr_to_neighbor nb ! r) < unat (base_neighbor_used nb)"
    "n_used (base_neighbor nb ! unat (addr_to_neighbor nb ! r))"
    "addr_ref (base_neighbor nb ! unat (addr_to_neighbor nb ! r)) = r"
  using assms by (auto simp: nb_inv_def)

lemma nb_inv_ent:
  assumes "nb_inv nb" and "i < unat (base_neighbor_used nb)" and "n_used (base_neighbor nb ! i)"
  shows "addr_ref (base_neighbor nb ! i) < 101" "unat (addr_to_neighbor nb ! addr_ref (base_neighbor nb ! i)) = i"
  using assms by (auto simp: nb_inv_def)

lemma byte_of_nat: "i < 255 \<Longrightarrow> unat (of_nat i :: u8) = i" "i < 255 \<Longrightarrow> (of_nat i :: u8) \<noteq> 0xff"
proof -
  show "unat (of_nat i :: u8) = i" if "i < 255" using that by (intro unat_of_nat_lt) simp
  then show "(of_nat i :: u8) \<noteq> 0xff" if "i < 255" using that by fastforce
qed

text \<open>Putting an entry for a reference with none at a free place.\<close>

definition nb_place :: "zb_neighbor_tbl \<Rightarrow> nat \<Rightarrow> nat \<Rightarrow> u32 \<Rightarrow> u32 \<Rightarrow> zb_neighbor_tbl_ent \<Rightarrow> bool" where
  "nb_place nb r k u s e \<longleftrightarrow> nb_inv nb \<and> r < 101 \<and> addr_to_neighbor nb ! r = 0xff
     \<and> k < 32 \<and> k < unat u \<and> unat u \<le> unat s \<and> unat s \<le> 32
     \<and> (k < unat (base_neighbor_used nb) \<longrightarrow> \<not> n_used (base_neighbor nb ! k))
     \<and> (u = base_neighbor_used nb \<or> unat u = Suc (unat (base_neighbor_used nb)) \<and> k = unat (base_neighbor_used nb))
     \<and> n_used e \<and> addr_ref e = r"

abbreviation nb_put :: "zb_neighbor_tbl \<Rightarrow> nat \<Rightarrow> nat \<Rightarrow> u32 \<Rightarrow> u32 \<Rightarrow> zb_neighbor_tbl_ent \<Rightarrow> zb_neighbor_tbl" where
  "nb_put nb r k u s e \<equiv> nb\<lparr>base_neighbor := (base_neighbor nb)[k := e],
     addr_to_neighbor := (addr_to_neighbor nb)[r := of_nat k], base_neighbor_size := s, base_neighbor_used := u\<rparr>"

lemma nb_placeD:
  assumes "nb_place nb r k u s e"
  shows "nb_inv nb" "r < 101" "addr_to_neighbor nb ! r = 0xff" "k < 32" "k < unat u" "unat u \<le> unat s" "unat s \<le> 32"
    "n_used e" "addr_ref e = r" "unat (of_nat k :: u8) = k" "(of_nat k :: u8) \<noteq> 0xff"
    "unat (base_neighbor_used nb) \<le> unat u"
    "length (base_neighbor nb) = 32" "length (addr_to_neighbor nb) = 101"
  using assms nb_invD byte_of_nat [of k] by (auto simp: nb_place_def)

lemma nb_place_ref:
  assumes "nb_place nb r k u s e" and "q \<noteq> r" and "q < 101" and "addr_to_neighbor nb ! q \<noteq> 0xff"
  shows "unat (addr_to_neighbor nb ! q) \<noteq> k"
  using nb_inv_ref [OF nb_placeD(1) [OF assms(1)] assms(3,4)] assms by (auto simp: nb_place_def)

lemma nb_place_ent:
  assumes "nb_place nb r k u s e" and "i < unat (base_neighbor_used nb)" and "n_used (base_neighbor nb ! i)"
  shows "addr_ref (base_neighbor nb ! i) \<noteq> r"
proof
  note P = nb_placeD [OF assms(1)]
  assume "addr_ref (base_neighbor nb ! i) = r"
  with nb_inv_ent [OF P(1) assms(2,3)] P(3) have "i = 255" by simp
  with assms(2) nb_invD [OF P(1)] show False by simp
qed

lemma nb_put_ref:
  assumes "nb_place nb r k u s e" and "q < 101" and "addr_to_neighbor (nb_put nb r k u s e) ! q \<noteq> 0xff"
  shows "unat (addr_to_neighbor (nb_put nb r k u s e) ! q) < unat u"
    "n_used (base_neighbor (nb_put nb r k u s e) ! unat (addr_to_neighbor (nb_put nb r k u s e) ! q))"
    "addr_ref (base_neighbor (nb_put nb r k u s e) ! unat (addr_to_neighbor (nb_put nb r k u s e) ! q)) = q"
  using assms nb_placeD [OF assms(1)] nb_inv_ref [of nb q] nb_place_ref [OF assms(1), of q]
  by (auto simp: nth_list_update split: if_splits)

lemma nb_put_ent:
  assumes P: "nb_place nb r k u s e" and "i < unat u" and "n_used (base_neighbor (nb_put nb r k u s e) ! i)"
  shows "addr_ref (base_neighbor (nb_put nb r k u s e) ! i) < 101
    \<and> unat (addr_to_neighbor (nb_put nb r k u s e) ! addr_ref (base_neighbor (nb_put nb r k u s e) ! i)) = i"
proof (cases "i = k")
  case False
  then have i: "i < unat (base_neighbor_used nb)" "n_used (base_neighbor nb ! i)"
    using assms by (auto simp: nb_place_def)
  show ?thesis
    using False nb_inv_ent [OF nb_placeD(1) [OF P] i] nb_place_ent [OF P i] by simp
qed (use nb_placeD [OF P] in simp)

lemma nb_put_inv: "nb_place nb r k u s e \<Longrightarrow> nb_inv (nb_put nb r k u s e)"
  unfolding nb_inv_def [of "nb_put nb r k u s e"]
  using nb_put_ref [of nb r k u s e] nb_put_ent [of nb r k u s e] nb_placeD [of nb r k u s e] by simp

lemma nb_put_neighbor:
  assumes "nb_place nb r k u s e"
  shows "neighbor_of (nb_put nb r k u s e) = (neighbor_of nb)(r \<mapsto> e)"
proof
  fix q
  show "neighbor_of (nb_put nb r k u s e) q = ((neighbor_of nb)(r \<mapsto> e)) q"
    using nb_place_ref [OF assms, of q] nb_placeD [OF assms] by (auto simp: neighbor_of_def)
qed

text \<open>Taking the entry of a reference out.\<close>

lemma nb_delete_ok:
  assumes inv: "nb_inv nb" and r: "r < 101" "addr_to_neighbor nb ! r \<noteq> 0xff"
  defines "n \<equiv> unat (addr_to_neighbor nb ! r)"
  defines "nb' \<equiv> nb\<lparr>base_neighbor := (base_neighbor nb)[n := (base_neighbor nb ! n)\<lparr>n_used := False\<rparr>],
                    addr_to_neighbor := (addr_to_neighbor nb)[r := 0xff]\<rparr>"
  shows "zb_nwk_neighbor_delete r nb = Some (RET_OK, nb')" "nb_inv nb'"
    "neighbor_of nb' = (neighbor_of nb)(r := None)" "nb_clean nb \<Longrightarrow> nb_clean nb'"
proof -
  note D = nb_invD [OF inv]
  have n: "n < unat (base_neighbor_used nb)" "n_used (base_neighbor nb ! n)" "addr_ref (base_neighbor nb ! n) = r"
    unfolding n_def using nb_inv_ref [OF inv r] by auto
  show "zb_nwk_neighbor_delete r nb = Some (RET_OK, nb')"
    using D r n unfolding zb_nwk_neighbor_delete_def nb'_def n_def by simp
  have other: "unat (addr_to_neighbor nb ! q) \<noteq> n" if "q \<noteq> r" "q < 101" "addr_to_neighbor nb ! q \<noteq> 0xff" for q
    using nb_inv_ref [OF inv that(2,3)] n that(1) by auto
  have ent: "i \<noteq> n \<Longrightarrow> addr_ref (base_neighbor nb ! i) \<noteq> r"
    if "i < unat (base_neighbor_used nb)" "n_used (base_neighbor nb ! i)" for i
    using nb_inv_ent [OF inv that] by (auto simp: n_def)
  show "nb_inv nb'"
    unfolding nb_inv_def
  proof (intro conjI allI impI)
    fix q assume "q < 101" "addr_to_neighbor nb' ! q \<noteq> 0xff"
    then have q: "q \<noteq> r" "addr_to_neighbor nb ! q \<noteq> 0xff" "q < 101"
      using r D by (auto simp: nb'_def nth_list_update split: if_splits)
    then show "unat (addr_to_neighbor nb' ! q) < unat (base_neighbor_used nb')"
      "n_used (base_neighbor nb' ! unat (addr_to_neighbor nb' ! q))"
      "addr_ref (base_neighbor nb' ! unat (addr_to_neighbor nb' ! q)) = q"
      using nb_inv_ref [OF inv q(3,2)] other [of q] by (auto simp: nb'_def)
  next
    fix i assume "i < unat (base_neighbor_used nb')" "n_used (base_neighbor nb' ! i)"
    then have i: "i \<noteq> n" "i < unat (base_neighbor_used nb)" "n_used (base_neighbor nb ! i)"
      using D n by (auto simp: nb'_def nth_list_update split: if_splits)
    then show "addr_ref (base_neighbor nb' ! i) < 101"
      "unat (addr_to_neighbor nb' ! addr_ref (base_neighbor nb' ! i)) = i"
      using nb_inv_ent [OF inv i(2,3)] ent [OF i(2,3)] by (auto simp: nb'_def)
  qed (use D in \<open>auto simp: nb'_def\<close>)
  show "neighbor_of nb' = (neighbor_of nb)(r := None)"
    using other [symmetric] r D by (auto simp: neighbor_of_def nb'_def fun_eq_iff)
  show "nb_clean nb'" if "nb_clean nb"
    using that D n by (auto simp: nb_clean_def nb'_def nth_list_update)
qed

section \<open>Lookup and creation\<close>

lemma neighbor_get_found:
  assumes "nb_inv nb" and "neighbor_of nb r = Some e"
  shows "zb_nwk_neighbor_get d r c nb z = Some (RET_OK, Some (unat (addr_to_neighbor nb ! r)), nb, z)"
    and "base_neighbor nb ! unat (addr_to_neighbor nb ! r) = e"
  using assms nb_invD [OF assms(1)]
  by (auto simp: zb_nwk_neighbor_get_def neighbor_of_def split: if_splits)

lemma neighbor_get_absent:
  assumes "nb_inv nb" and "neighbor_of nb r = None" and "r < 101"
  shows "zb_nwk_neighbor_get d r False nb z = Some (RET_NOT_FOUND, None, nb, z)"
  using assms nb_invD [OF assms(1)]
  by (auto simp: zb_nwk_neighbor_get_def neighbor_of_def split: if_splits)

lemma u32_Suc:
  assumes "unat (x :: u32) < 32"
  shows "unat (x + 1) = Suc (unat x)"
  using assms by (simp add: unat_word_ariths(1))

lemma ucast_byte: "unat (x :: u32) < 256 \<Longrightarrow> unat (ucast x :: u8) = unat x"
  by (simp add: unsigned_ucast_eq take_bit_nat_eq_self)

lemma neighbor_get_new:
  assumes inv: "nb_inv nb" and r: "r < 101" "neighbor_of nb r = None"
    and room: "unat (base_neighbor_used nb) + 1 < unat (base_neighbor_size nb)"
    and z: "length (addr_map z) = 101" "am_lock_cnt (addr_map z ! r) \<noteq> 15"
  shows "\<exists>n nb' z'. zb_nwk_neighbor_get d r True nb z = Some (RET_OK, Some n, nb', z')
    \<and> nb_inv nb' \<and> neighbor_of nb' = (neighbor_of nb)(r \<mapsto> new_neighbor_ent r d)
    \<and> base_neighbor_used nb' = base_neighbor_used nb + 1 \<and> base_neighbor_size nb' = base_neighbor_size nb
    \<and> n = unat (base_neighbor_used nb) \<and> addr_to_neighbor nb' ! r = of_nat n
    \<and> (nb_clean nb \<longrightarrow> nb_clean nb')
    \<and> z' = z\<lparr>addr_map := (addr_map z)[r := (addr_map z ! r)\<lparr>am_lock_cnt := am_lock_cnt (addr_map z ! r) + 1,
                                                               am_clock := True\<rparr>]\<rparr>"
proof -
  let ?u = "base_neighbor_used nb"
  note D = nb_invD [OF inv]
  have a: "addr_to_neighbor nb ! r = 0xff" using r by (auto simp: neighbor_of_def split: if_splits)
  have u1: "unat (?u + 1) = Suc (unat ?u)" using room D by (intro u32_Suc) simp
  have P: "nb_place nb r (unat ?u) (?u + 1) (base_neighbor_size nb) (new_neighbor_ent r d)"
    using inv r a u1 room D by (simp add: nb_place_def new_neighbor_ent_def)
  let ?nb = "nb_put nb r (unat ?u) (?u + 1) (base_neighbor_size nb) (new_neighbor_ent r d)"
  have "?u \<noteq> base_neighbor_size nb - 1"
  proof
    assume "?u = base_neighbor_size nb - 1"
    then have "?u + 1 = base_neighbor_size nb" by simp
    then show False using u1 room by simp
  qed
  moreover have "unat (ucast ?u :: u8) = unat ?u" using room D by (intro ucast_byte) simp
  ultimately have "zb_nwk_neighbor_get d r True nb z = Some (RET_OK, Some (unat ?u), ?nb,
      z\<lparr>addr_map := (addr_map z)[r := (addr_map z ! r)\<lparr>am_lock_cnt := am_lock_cnt (addr_map z ! r) + 1, am_clock := True\<rparr>]\<rparr>)"
    using a r z D room lock_unlock [of r z] by (simp add: zb_nwk_neighbor_get_def)
  moreover have "nb_clean nb \<longrightarrow> nb_clean ?nb" using u1 by (auto simp: nb_clean_def nth_list_update)
  moreover have "addr_to_neighbor ?nb ! r = of_nat (unat ?u)" "base_neighbor_used ?nb = ?u + 1"
    "base_neighbor_size ?nb = base_neighbor_size nb" using r D by simp_all
  ultimately show ?thesis using nb_put_inv [OF P] nb_put_neighbor [OF P] by blast
qed

section \<open>Compaction\<close>

text \<open>A move is a deletion and a new placement of the same entry.\<close>

lemma nb_move_ok:
  assumes inv: "nb_inv nb" and cl: "nb_clean nb" and k: "k < i" "\<not> n_used (base_neighbor nb ! k)"
    and i: "i < 32" "n_used (base_neighbor nb ! i)"
  defines "e \<equiv> base_neighbor nb ! i"
  defines "nb' \<equiv> nb\<lparr>base_neighbor := (base_neighbor nb)[k := e, i := e\<lparr>n_used := False\<rparr>],
                    addr_to_neighbor := (addr_to_neighbor nb)[addr_ref e := of_nat k]\<rparr>"
  shows "nb_inv nb'" "nb_clean nb'" "neighbor_of nb' = neighbor_of nb" "addr_ref e < 101"
proof -
  note D = nb_invD [OF inv]
  have iu: "i < unat (base_neighbor_used nb)" using cl i unfolding nb_clean_def by (meson not_le_imp_less)
  have r: "addr_ref e < 101" "unat (addr_to_neighbor nb ! addr_ref e) = i"
    unfolding e_def using nb_inv_ent [OF inv iu i(2)] by auto
  then have ff: "addr_to_neighbor nb ! addr_ref e \<noteq> 0xff" using i by auto
  let ?d = "nb\<lparr>base_neighbor := (base_neighbor nb)[i := e\<lparr>n_used := False\<rparr>],
               addr_to_neighbor := (addr_to_neighbor nb)[addr_ref e := 0xff]\<rparr>"
  have del: "nb_inv ?d" "neighbor_of ?d = (neighbor_of nb)(addr_ref e := None)" "nb_clean ?d"
    using nb_delete_ok [OF inv r(1) ff, unfolded r(2), folded e_def] cl by blast+
  have P: "nb_place ?d (addr_ref e) k (base_neighbor_used nb) (base_neighbor_size nb) e"
    using del k i iu r D by (simp add: nb_place_def e_def)
  have eq: "nb_put ?d (addr_ref e) k (base_neighbor_used nb) (base_neighbor_size nb) e = nb'"
    using k by (simp add: nb'_def list_update_swap)
  show "nb_inv nb'" using nb_put_inv [OF P] unfolding eq .
  have "neighbor_of nb (addr_ref e) = Some e" using r ff by (simp add: neighbor_of_def e_def)
  then show "neighbor_of nb' = neighbor_of nb"
    using nb_put_neighbor [OF P] unfolding eq del(2) by (simp add: fun_upd_idem)
  show "nb_clean nb'" using cl k i iu D by (auto simp: nb_clean_def nb'_def nth_list_update)
  show "addr_ref e < 101" by (rule r(1))
qed

lemma compact_loop_ok:
  "nb_inv nb \<Longrightarrow> nb_clean nb \<Longrightarrow> hole \<le> i \<Longrightarrow> (\<forall>j. i - hole \<le> j \<and> j < i \<longrightarrow> \<not> n_used (base_neighbor nb ! j))
   \<Longrightarrow> \<exists>b a. compact_loop i used hole nb = Some (nb\<lparr>base_neighbor := b, addr_to_neighbor := a\<rparr>)
     \<and> nb_inv (nb\<lparr>base_neighbor := b, addr_to_neighbor := a\<rparr>)
     \<and> nb_clean (nb\<lparr>base_neighbor := b, addr_to_neighbor := a\<rparr>)
     \<and> neighbor_of (nb\<lparr>base_neighbor := b, addr_to_neighbor := a\<rparr>) = neighbor_of nb"
proof (induction i used hole nb rule: compact_loop.induct)
  case (1 i used hole nb)
  note D = nb_invD [OF "1.prems"(1)]
  show ?case
  proof (cases "i < unat (base_neighbor_size nb) \<and> used < unat (base_neighbor_used nb)")
    case False
    then have "compact_loop i used hole nb = Some (nb\<lparr>base_neighbor := base_neighbor nb, addr_to_neighbor := addr_to_neighbor nb\<rparr>)"
      by (subst compact_loop.simps, subst if_not_P [OF False]) simp
    with "1.prems" show ?thesis
      by (intro exI [of _ "base_neighbor nb"] exI [of _ "addr_to_neighbor nb"]) simp
  next
    case True
    then have i: "i < 32" "arr_get (base_neighbor nb) i = Some (base_neighbor nb ! i)" using D by simp_all
    consider "n_used (base_neighbor nb ! i)" "hole \<noteq> 0" | "n_used (base_neighbor nb ! i)" "hole = 0"
      | "\<not> n_used (base_neighbor nb ! i)" by blast
    then show ?thesis
    proof cases
      case 1
      let ?e = "base_neighbor nb ! i" and ?k = "i - hole"
      let ?nb = "nb\<lparr>base_neighbor := (base_neighbor nb)[?k := ?e, i := ?e\<lparr>n_used := False\<rparr>],
                    addr_to_neighbor := (addr_to_neighbor nb)[addr_ref ?e := of_nat ?k]\<rparr>"
      have k: "?k < i" "\<not> n_used (base_neighbor nb ! ?k)" using "1.prems"(3,4) 1 by auto
      note M = nb_move_ok [OF "1.prems"(1,2) k i(1) 1(1)]
      have sets: "arr_set (base_neighbor nb) ?k ?e = Some ((base_neighbor nb)[?k := ?e])"
        "arr_set (addr_to_neighbor nb) (addr_ref ?e) (of_nat ?k) = Some ((addr_to_neighbor nb)[addr_ref ?e := of_nat ?k])"
        "arr_set ((base_neighbor nb)[?k := ?e]) i (?e\<lparr>n_used := False\<rparr>)
          = Some ((base_neighbor nb)[?k := ?e, i := ?e\<lparr>n_used := False\<rparr>])"
        using D M(4) k i by (simp_all only: arr_set_in length_list_update)
      have step: "compact_loop i used hole nb = compact_loop (i + 1) (used + 1) (hole - 1) ?nb"
        using 1 by (subst compact_loop.simps) (simp only: True i(2) sets Option.bind.simps if_True simp_thms)
      have free: "\<forall>j. i + 1 - (hole - 1) \<le> j \<and> j < i + 1 \<longrightarrow> \<not> n_used (base_neighbor ?nb ! j)"
        using "1.prems"(3,4) 1 D i by (auto simp: nth_list_update)
      have "\<exists>b a. compact_loop (i + 1) (used + 1) (hole - 1) ?nb = Some (?nb\<lparr>base_neighbor := b, addr_to_neighbor := a\<rparr>)
         \<and> nb_inv (?nb\<lparr>base_neighbor := b, addr_to_neighbor := a\<rparr>)
         \<and> nb_clean (?nb\<lparr>base_neighbor := b, addr_to_neighbor := a\<rparr>)
         \<and> neighbor_of (?nb\<lparr>base_neighbor := b, addr_to_neighbor := a\<rparr>) = neighbor_of ?nb"
        by (rule "1.IH"(1) [OF True i(2) 1 sets M(1,2) _ free]) (use "1.prems"(3) 1 in simp)
      then show ?thesis using step M(3) by simp
    next
      case 2
      have step: "compact_loop i used hole nb = compact_loop (i + 1) (used + 1) hole nb"
        using True i 2 by (subst compact_loop.simps) simp
      show ?thesis unfolding step by (rule "1.IH"(2) [OF True i(2) 2(1)]) (use 2 "1.prems" in simp_all)
    next
      case 3
      have step: "compact_loop i used hole nb = compact_loop (i + 1) used (hole + 1) nb"
        using True i 3 by (subst compact_loop.simps) simp
      show ?thesis unfolding step
        by (rule "1.IH"(3) [OF True i(2) 3]) (use 3 "1.prems" in \<open>auto simp: less_Suc_eq\<close>)
    qed
  qed
qed

section \<open>The extended table\<close>

text \<open>The extended table lies behind the base table and inside the memory of both.\<close>

definition ext_inv :: "zb_neighbor_tbl \<Rightarrow> bool" where
  "ext_inv nb \<longleftrightarrow> unat (base_neighbor_size nb) * 13 \<le> ext_off nb \<and> ext_off nb + unat (ext_neighbor_size nb) * 14 \<le> 416
     \<and> length (ext_neighbor nb) \<le> unat (ext_neighbor_size nb)"

lemma exneighbor_cut_table:
  "list_all (\<lambda>u. case exneighbor_cut 32 (of_nat u) of (s, off, n) \<Rightarrow>
      (unat s * 13 \<le> unat off \<and> unat off + unat n * 14 \<le> 416 \<and> 0 < n) = (u < 20)
      \<and> max 16 u \<le> unat s \<and> unat s \<le> 32) [0..<33]"
  by code_simp

lemma exneighbor_cut_ok:
  assumes "u \<le> 32" and "exneighbor_cut 32 (of_nat u) = (s, off, n)"
  shows "(unat s * 13 \<le> unat off \<and> unat off + unat n * 14 \<le> 416 \<and> 0 < n) = (u < 20)"
    "u \<le> unat s" "unat s \<le> 32" "16 \<le> unat s"
  using exneighbor_cut_table assms unfolding list_all_iff by (auto dest!: bspec [of _ _ u])

lemma nb_inv_frame:
  assumes "nb_inv nb" and "unat (base_neighbor_used nb) \<le> unat s" and "unat s \<le> 32"
  shows "nb_inv (nb\<lparr>base_neighbor_size := s, ext_neighbor := x, ext_off := off, ext_neighbor_size := n\<rparr>)"
  using assms unfolding nb_inv_def by simp

lemma neighbor_of_frame [simp]:
  "neighbor_of (nb\<lparr>base_neighbor_size := s, ext_neighbor := x, ext_off := off, ext_neighbor_size := n\<rparr>) = neighbor_of nb"
  "neighbor_of (nb\<lparr>ext_neighbor := x\<rparr>) = neighbor_of nb"
  by (simp_all add: neighbor_of_def fun_eq_iff)

lemma unat_byte_32: "unat (ucast (n :: u8) :: u32) = unat n"
proof -
  have "unat n < 2 ^ 32" by (rule less_trans [OF unsigned_less]) simp
  then show ?thesis by (simp add: unsigned_ucast_eq take_bit_nat_eq_self)
qed

lemma exneighbor_start_ok:
  assumes inv: "nb_inv nb" "nb_clean nb" and size: "base_neighbor_size nb = 32" "ext_neighbor_size nb = 0"
    and used: "unat (base_neighbor_used nb) < 20"
  shows "\<exists>nb'. zb_nwk_exneighbor_start nb = Some nb' \<and> nb_inv nb' \<and> ext_inv nb' \<and> ext_neighbor nb' = []
    \<and> 0 < ext_neighbor_size nb' \<and> neighbor_of nb' = neighbor_of nb \<and> base_neighbor_used nb' = base_neighbor_used nb
    \<and> 16 \<le> unat (base_neighbor_size nb')"
proof -
  obtain b a where c: "(if base_neighbor_used nb \<noteq> 0 then compact_loop 0 0 0 nb else Some nb)
      = Some (nb\<lparr>base_neighbor := b, addr_to_neighbor := a\<rparr>)"
    and nb1: "nb_inv (nb\<lparr>base_neighbor := b, addr_to_neighbor := a\<rparr>)"
      "neighbor_of (nb\<lparr>base_neighbor := b, addr_to_neighbor := a\<rparr>) = neighbor_of nb"
  proof (cases "base_neighbor_used nb = 0")
    case True
    have "nb = nb\<lparr>base_neighbor := base_neighbor nb, addr_to_neighbor := addr_to_neighbor nb\<rparr>" by simp
    with True inv that show ?thesis by metis
  next
    case False
    with compact_loop_ok [OF inv, of 0 0 0] that show ?thesis by auto
  qed
  obtain s off n where cut: "exneighbor_cut 32 (base_neighbor_used nb) = (s, off, n)" by (metis prod_cases3)
  have "exneighbor_cut 32 (of_nat (unat (base_neighbor_used nb))) = (s, off, n)" using cut by simp
  from exneighbor_cut_ok [OF _ this] used
  have g: "unat s * 13 \<le> unat off" "unat off + unat n * 14 \<le> 416" "0 < n" "unat (base_neighbor_used nb) \<le> unat s" "unat s \<le> 32"
    "16 \<le> unat s" by simp_all
  let ?nb = "nb\<lparr>base_neighbor := b, addr_to_neighbor := a\<rparr>
    \<lparr>base_neighbor_size := s, ext_neighbor := [], ext_off := unat off, ext_neighbor_size := ucast n\<rparr>"
  have "zb_nwk_exneighbor_start nb = Some ?nb"
    unfolding zb_nwk_exneighbor_start_def c using size cut g(3) by simp
  moreover have "nb_inv ?nb" by (rule nb_inv_frame [OF nb1(1)]) (use g in simp_all)
  moreover have "neighbor_of ?nb = neighbor_of nb" unfolding neighbor_of_frame nb1(2) ..
  moreover have n: "unat (ucast n :: u32) = unat n" by (rule unat_byte_32)
  moreover have "0 < (ucast n :: u32)" using g(3) n by (simp add: word_less_nat_alt)
  ultimately show ?thesis using g by (intro exI [of _ ?nb]) (simp add: ext_inv_def)
qed

lemma alloc_ext_ok:
  assumes "ext_inv nb" and "length (ext_neighbor nb) < unat (ext_neighbor_size nb)"
  shows "alloc_new_extneiboard p a nb = Some (RET_OK, Some (length (ext_neighbor nb)),
     nb\<lparr>ext_neighbor := ext_neighbor nb @ [ext_neighbor_ent_zero\<lparr>x_short_addr := a, x_panid_ref := of_nat p\<rparr>]\<rparr>)"
  using assms by (auto simp: alloc_new_extneiboard_def Let_def zb_config ext_inv_def)

lemma alloc_ext_full:
  "length (ext_neighbor nb) = unat (ext_neighbor_size nb) \<Longrightarrow> alloc_new_extneiboard p a nb = Some (RET_NO_MEMORY, None, nb)"
  by (simp add: alloc_new_extneiboard_def)

lemma find_index_snoc:
  "find_index P i (xs @ [x]) = (case find_index P i xs of Some j \<Rightarrow> Some j | None \<Rightarrow> if P x then Some (i + length xs) else None)"
  by (induction P i xs rule: find_index.induct) (auto split: option.splits)

section \<open>Iterators\<close>

lemma next_neighbor_spec:
  "nb_inv nb \<Longrightarrow> next_neighbor_i P nb i = Some (case find (\<lambda>k. P (base_neighbor nb ! k)) [i..<unat (base_neighbor_used nb)] of
     Some k \<Rightarrow> of_nat k | None \<Rightarrow> 0xffffffff)"
proof (induction P nb i rule: next_neighbor_i.induct)
  case (1 P nb i)
  show ?case
  proof (cases "i < unat (base_neighbor_used nb)")
    case True
    then have "arr_get (base_neighbor nb) i = Some (base_neighbor nb ! i)" "[i..<unat (base_neighbor_used nb)]
        = i # [i + 1..<unat (base_neighbor_used nb)]"
      using nb_invD [OF "1.prems"] by (simp_all add: upt_conv_Cons)
    with 1 True show ?thesis by (subst next_neighbor_i.simps) simp
  qed (subst next_neighbor_i.simps, simp)
qed

text \<open>Free entries are only counted; the first entry in use behind them is moved.\<close>

lemma compact_loop_stale:
  "k < unat (base_neighbor_size nb) \<Longrightarrow> unat (base_neighbor_size nb) \<le> length (base_neighbor nb) \<Longrightarrow> 0 < base_neighbor_used nb
   \<Longrightarrow> \<forall>j < k. \<not> n_used (base_neighbor nb ! j) \<Longrightarrow> n_used (base_neighbor nb ! k)
   \<Longrightarrow> length (addr_to_neighbor nb) \<le> addr_ref (base_neighbor nb ! k) \<Longrightarrow> 0 < k \<Longrightarrow> i \<le> k
   \<Longrightarrow> compact_loop i 0 i nb = None"
proof (induction "k - i" arbitrary: i)
  case 0
  then have "i = k" by simp
  moreover have "arr_set (addr_to_neighbor nb) (addr_ref (base_neighbor nb ! k)) v = None" for v
    using 0 by (simp add: arr_set_def)
  ultimately show ?case using 0 by (subst compact_loop.simps) (simp add: word_less_nat_alt)
next
  case (Suc d)
  then have "compact_loop (i + 1) 0 (i + 1) nb = None" by (intro Suc.hyps(1)) simp_all
  then show ?case using Suc by (subst compact_loop.simps) (simp add: word_less_nat_alt)
qed

section \<open>Moving extended entries back\<close>

lemma by_short_total:
  assumes inv: "addr_inv z" and a: "a \<noteq> 0xffff"
  shows "\<exists>ret ref z'. zb_address_by_short a True False z = Some (ret, ref, z') \<and> addr_inv z'
    \<and> (ret = RET_OK \<longrightarrow> (\<exists>r < 101. ref = Some r))"
proof (cases "used_refs (addr_map z) = {..<101} \<and> (\<forall>r \<in> used_refs (addr_map z). am_addr (addr_map z ! r) \<noteq> a)")
  case True
  then have "zb_address_by_short a True False z = Some (RET_OVERFLOW, None, z)"
    using addr_short_search(2) [OF inv a] addr_add_full [OF inv, of None a]
    by (simp add: zb_address_by_short_def lock_if_def)
  with inv show ?thesis by simp
next
  case False
  show ?thesis
  proof (cases "used_refs (addr_map z) = {..<101}")
    case True
    with False obtain r where r: "r \<in> used_refs (addr_map z)" "am_addr (addr_map z ! r) = a" by blast
    then have "r < 101" by (simp add: used_refs_def)
    with addr_short_search(1) [OF inv a r] set_clock_ok [OF inv this] show ?thesis
      by (auto simp: zb_address_by_short_def lock_if_def)
  next
    case False
    then obtain r z' where c: "zb_address_by_short a True False z = Some (RET_OK, Some r, z')" "addr_inv z'"
      "zb_address_short_by_ref r z' = Some a"
      using by_short_create [OF inv a] by blast
    have "r < 101"
    proof (rule ccontr)
      assume "\<not> r < 101"
      with c(2) have "arr_get (addr_map z') r = None" by (simp add: arr_get_def addr_inv_def sorted_inv_def)
      with c(3) show False by (simp add: zb_address_short_by_ref_def)
    qed
    with c show ?thesis by simp
  qed
qed

text \<open>What a move keeps of an entry that is there already: all but its device type and link quality.\<close>

definition ent_kept :: "zb_neighbor_tbl_ent \<Rightarrow> zb_neighbor_tbl_ent \<Rightarrow> bool" where
  "ent_kept e e' \<longleftrightarrow> (\<exists>t l. e' = e\<lparr>device_type := t, lqi := l\<rparr>)"

definition nb_kept :: "zb_neighbor_tbl \<Rightarrow> zb_neighbor_tbl \<Rightarrow> bool" where
  "nb_kept nb nb' \<longleftrightarrow> (\<forall>r e. neighbor_of nb r = Some e \<longrightarrow> (\<exists>e'. neighbor_of nb' r = Some e' \<and> ent_kept e e'))"

lemma ent_kept_refl: "ent_kept e e"
  unfolding ent_kept_def by (intro exI [of _ "device_type e"] exI [of _ "lqi e"]) simp

lemma ent_kept_trans: "ent_kept e e' \<Longrightarrow> ent_kept e' e'' \<Longrightarrow> ent_kept e e''"
  unfolding ent_kept_def by (elim exE) (simp, blast)

lemma ent_same:
  assumes "addr_ref e = r" and "n_used e"
  shows "e\<lparr>device_type := t, addr_ref := r, n_used := True, lqi := l\<rparr> = e\<lparr>device_type := t, lqi := l\<rparr>"
    "e\<lparr>addr_ref := r, n_used := True, lqi := l\<rparr> = e\<lparr>lqi := l\<rparr>"
  using assms by (cases e; simp)+

lemma nb_kept_eq: "neighbor_of nb' = neighbor_of nb \<Longrightarrow> nb_kept nb nb'"
  by (auto simp: nb_kept_def intro: ent_kept_refl)

lemma nb_kept_trans: "nb_kept nb nb' \<Longrightarrow> nb_kept nb' nb'' \<Longrightarrow> nb_kept nb nb''"
  unfolding nb_kept_def by (meson ent_kept_trans)

lemma nb_inv_update:
  assumes inv: "nb_inv nb" and n: "n < unat (base_neighbor_used nb)" "n_used e" "addr_ref e = addr_ref (base_neighbor nb ! n)"
    "n_used (base_neighbor nb ! n)"
  shows "nb_inv (nb\<lparr>base_neighbor := (base_neighbor nb)[n := e]\<rparr>)"
proof -
  note D = nb_invD [OF inv]
  have eq: "addr_ref ((base_neighbor nb)[n := e] ! i) = addr_ref (base_neighbor nb ! i)"
    "n_used ((base_neighbor nb)[n := e] ! i) = n_used (base_neighbor nb ! i)" for i
    using n D by (auto simp: nth_list_update)
  show ?thesis using inv unfolding nb_inv_def by (simp add: eq)
qed

text \<open>The base entry of a moved entry: the old one with what was learned, or a new one.\<close>

definition moved_ent :: "zb_ext_neighbor_tbl_ent \<Rightarrow> nat \<Rightarrow> zb_neighbor_tbl_ent option \<Rightarrow> zb_neighbor_tbl_ent" where
  "moved_ent x r old = (case old of
     Some e \<Rightarrow> e\<lparr>device_type := (if device_type e = ZB_NWK_DEVICE_TYPE_NONE then x_device_type x else device_type e), lqi := x_lqi x\<rparr>
   | None \<Rightarrow> neighbor_ent_zero\<lparr>addr_ref := r, permit_joining := (if x_permit_joining x then 1 else 0),
       device_type := x_device_type x, depth := x_depth x, n_used := True,
       rx_on_when_idle := (x_device_type x \<noteq> ZB_NWK_DEVICE_TYPE_ED),
       relationship := ZB_NWK_RELATIONSHIP_NONE_OF_THE_ABOVE, lqi := x_lqi x\<rparr>)"

definition move :: "zb_ext_neighbor_tbl_ent \<times> nat \<Rightarrow> (nat \<Rightarrow> zb_neighbor_tbl_ent option) \<Rightarrow> nat \<Rightarrow> zb_neighbor_tbl_ent option" where
  "move = (\<lambda>(x, r) m. m(r \<mapsto> moved_ent x r (m r)))"

lemma ext_to_base_ok:
  assumes inv: "nb_inv nb" and r: "r < 101"
  shows "\<exists>nb'. ext_to_base x r nb = Some nb' \<and> nb_inv nb' \<and> base_neighbor_size nb' = base_neighbor_size nb
    \<and> unat (base_neighbor_used nb) \<le> unat (base_neighbor_used nb')
    \<and> unat (base_neighbor_used nb') \<le> Suc (unat (base_neighbor_used nb))
    \<and> (neighbor_of nb' = move (x, r) (neighbor_of nb)
       \<or> neighbor_of nb' = neighbor_of nb \<and> neighbor_of nb r = None
         \<and> unat (base_neighbor_size nb) \<le> unat (base_neighbor_used nb))"
proof -
  note D = nb_invD [OF inv]
  have get: "arr_get (addr_to_neighbor nb) r = Some (addr_to_neighbor nb ! r)" using D r by simp
  let ?n = "unat (addr_to_neighbor nb ! r)" and ?u = "base_neighbor_used nb"
  consider "addr_to_neighbor nb ! r \<noteq> 0xff" | "addr_to_neighbor nb ! r = 0xff" "?u < base_neighbor_size nb"
    | "addr_to_neighbor nb ! r = 0xff" "\<not> ?u < base_neighbor_size nb" by blast
  then show ?thesis
  proof cases
    case 1
    note R = nb_inv_ref [OF inv r 1]
    let ?e = "base_neighbor nb ! ?n"
    let ?t = "if device_type ?e = ZB_NWK_DEVICE_TYPE_NONE then x_device_type x else device_type ?e"
    let ?e' = "?e\<lparr>device_type := ?t, lqi := x_lqi x\<rparr>"
    let ?nb = "nb\<lparr>base_neighbor := (base_neighbor nb)[?n := ?e']\<rparr>"
    have run: "ext_to_base x r nb = Some ?nb" using get 1 R D by (simp add: ext_to_base_def ent_same)
    have inv': "nb_inv ?nb" by (rule nb_inv_update [OF inv]) (use R in simp_all)
    have n32: "?n < length (base_neighbor nb)" using R(1) D(1,5) by linarith
    have nof: "neighbor_of ?nb = move (x, r) (neighbor_of nb)"
    proof
      fix q
      show "neighbor_of ?nb q = move (x, r) (neighbor_of nb) q"
      proof (cases "q = r")
        case True
        with r 1 n32 show ?thesis by (simp add: neighbor_of_def move_def moved_ent_def)
      next
        case False
        have "unat (addr_to_neighbor nb ! q) \<noteq> ?n" if "q < 101" "addr_to_neighbor nb ! q \<noteq> 0xff"
          using nb_inv_ref(3) [OF inv that] R(3) False by metis
        with False show ?thesis by (auto simp: neighbor_of_def move_def)
      qed
    qed
    show ?thesis by (intro exI [of _ ?nb] conjI) (use run inv' nof in simp_all)
  next
    case 2
    have u: "unat ?u < unat (base_neighbor_size nb)" using 2 by (simp add: word_less_nat_alt)
    have u1: "unat (?u + 1) = Suc (unat ?u)" by (rule u32_Suc) (use u D in simp)
    let ?e = "neighbor_ent_zero\<lparr>addr_ref := r, permit_joining := (if x_permit_joining x then 1 else 0),
                 device_type := x_device_type x, depth := x_depth x, n_used := True,
                 rx_on_when_idle := (x_device_type x \<noteq> ZB_NWK_DEVICE_TYPE_ED),
                 relationship := ZB_NWK_RELATIONSHIP_NONE_OF_THE_ABOVE, lqi := x_lqi x\<rparr>"
    have P: "nb_place nb r (unat ?u) (?u + 1) (base_neighbor_size nb) ?e"
      using inv r 2 u u1 D by (simp add: nb_place_def)
    let ?nb = "nb_put nb r (unat ?u) (?u + 1) (base_neighbor_size nb) ?e"
    have "ext_to_base x r nb = Some ?nb" using get 2 u r D by (simp add: ext_to_base_def)
    moreover have "neighbor_of nb r = None" using 2 by (simp add: neighbor_of_def)
    then have "neighbor_of ?nb = move (x, r) (neighbor_of nb)"
      unfolding nb_put_neighbor [OF P] by (simp add: move_def moved_ent_def)
    ultimately show ?thesis using nb_put_inv [OF P] u1 by (intro exI [of _ ?nb]) simp
  next
    case 3
    then show ?thesis using get inv r by (simp add: ext_to_base_def neighbor_of_def word_less_nat_alt)
  qed
qed

lemma ent_kept_moved: "ent_kept e (moved_ent x r (Some e))"
  unfolding ent_kept_def moved_ent_def by (simp only: option.case) blast

lemma move_kept: "neighbor_of nb' = move (x, r) (neighbor_of nb) \<Longrightarrow> nb_kept nb nb'"
  using ent_kept_moved ent_kept_refl by (auto simp: nb_kept_def move_def)

text \<open>
  The entries of the PAN \<open>my\<close> with the references the address table gives them, in the order of the table, and the
  address table afterwards.
\<close>

fun ext_refs :: "nat \<Rightarrow> zb_ext_neighbor_tbl_ent list \<Rightarrow> zb_addr_globals
     \<Rightarrow> ((zb_ext_neighbor_tbl_ent \<times> nat) list \<times> zb_addr_globals) option" where
  "ext_refs my [] z = Some ([], z)"
| "ext_refs my (x # xs) z =
     (if unat (x_panid_ref x) = my then do {
        (ret, ref, z) \<leftarrow> ext_address x z;
        if ret = RET_OK then do { r \<leftarrow> ref; (rs, z) \<leftarrow> ext_refs my xs z; Some ((x, r) # rs, z) }
        else ext_refs my xs z }
      else ext_refs my xs z)"

text \<open>An entry as beacons with a short source address leave it, and what the address table makes of it.\<close>

definition beacon_ent :: "zb_ext_neighbor_tbl_ent \<Rightarrow> bool" where
  "beacon_ent x \<longleftrightarrow> x_short_addr x \<noteq> 0xffff \<and> x_long_addr x = ieee_zero"

lemma beacon_refs:
  "addr_inv z \<Longrightarrow> \<forall>x \<in> set xs. beacon_ent x
   \<Longrightarrow> \<exists>rs z'. ext_refs my xs z = Some (rs, z') \<and> addr_inv z' \<and> (\<forall>(x, r) \<in> set rs. r < 101)"
proof (induction xs arbitrary: z)
  case (Cons x xs)
  obtain ret ref z1 where a: "ext_address x z = Some (ret, ref, z1)" "addr_inv z1" "ret = RET_OK \<longrightarrow> (\<exists>r < 101. ref = Some r)"
    using by_short_total [OF Cons.prems(1), of "x_short_addr x"] Cons.prems(2) by (auto simp: beacon_ent_def ext_address_def)
  from Cons.IH [OF a(2)] Cons.prems(2) obtain rs z' where b: "ext_refs my xs z1 = Some (rs, z')" "addr_inv z'"
    "\<forall>(x, r) \<in> set rs. r < 101" by auto
  from Cons.IH [OF Cons.prems(1)] Cons.prems(2) obtain qs z2 where c: "ext_refs my xs z = Some (qs, z2)" "addr_inv z2"
    "\<forall>(x, r) \<in> set qs. r < 101" by auto
  show ?case
  proof (cases "unat (x_panid_ref x) = my")
    case True
    with a b show ?thesis by (cases "ret = RET_OK") auto
  next
    case False
    with c show ?thesis by simp
  qed
qed simp

text \<open>After \<open>k\<close> entries of fourteen bytes the free bytes make \<open>14 k div 13\<close> entries, \<open>14 k mod 13\<close> left over.\<close>

lemma stop_size:
  assumes "unat f < 13" and "unat (s :: u32) \<le> 32" and "unat s * 13 + unat f + 14 * Suc n \<le> 416"
  defines "g \<equiv> f + 14" and "t \<equiv> s + ucast ((f + 14) div 13 :: u8)"
  shows "unat (g - g div 13 * 13) < 13" "unat t * 13 + unat (g - g div 13 * 13) + 14 * n \<le> 416"
    "unat s \<le> unat t" "unat t \<le> 32" "t \<le> of_nat ZB_NEIGHBOR_TABLE_SIZE"
proof -
  have g: "unat g = unat f + 14" unfolding g_def using assms(1) by (intro unat_add_lem [THEN iffD1, of f 14, simplified]) simp
  have q: "unat (g div 13) = (unat f + 14) div 13" using g by (simp add: unat_div)
  have "g - g div 13 * 13 = g mod 13" by (simp add: minus_div_mult_eq_mod)
  then have r: "unat (g - g div 13 * 13) = (unat f + 14) mod 13" using g by (simp add: unat_mod)
  have us: "unat t = unat s + (unat f + 14) div 13"
    using assms(1,2) unat_byte_32 [of "g div 13"] q unfolding t_def g_def [symmetric] by (simp add: unat_word_ariths(1))
  have d: "(unat f + 14) div 13 * 13 + (unat f + 14) mod 13 = unat f + 14" by (rule div_mult_mod_eq)
  show le: "unat t * 13 + unat (g - g div 13 * 13) + 14 * n \<le> 416"
    using assms(3) d unfolding us r by (simp add: algebra_simps)
  show "unat (g - g div 13 * 13) < 13" "unat s \<le> unat t" using r us by simp_all
  show "unat t \<le> 32" "t \<le> of_nat ZB_NEIGHBOR_TABLE_SIZE" using le by (simp_all add: word_le_nat_alt zb_config)
qed

lemma fold_move_other: "r \<notin> snd ` set rs \<Longrightarrow> fold move rs m r = m r"
  by (induction rs arbitrary: m) (auto simp: move_def)

lemma nb_kept_some: "nb_kept nb nb' \<Longrightarrow> neighbor_of nb r \<noteq> None \<Longrightarrow> neighbor_of nb' r \<noteq> None"
  by (auto simp: nb_kept_def)

text \<open>
  \<open>moved rs nb nb'\<close>: the entries \<open>rs\<close> have been moved from the table \<open>nb\<close> on. The known entries are kept, those without a
  moved entry as they were; a moved entry is missing only when every place is taken; and with room for all of them
  the table is the old one with all of them put in.
\<close>

definition moved :: "(zb_ext_neighbor_tbl_ent \<times> nat) list \<Rightarrow> zb_neighbor_tbl \<Rightarrow> zb_neighbor_tbl \<Rightarrow> bool" where
  "moved rs nb nb' \<longleftrightarrow> nb_kept nb nb'
     \<and> (\<forall>r. r \<notin> snd ` set rs \<longrightarrow> neighbor_of nb' r = neighbor_of nb r)
     \<and> (\<forall>(x, r) \<in> set rs. neighbor_of nb' r \<noteq> None \<or> unat (base_neighbor_size nb) \<le> unat (base_neighbor_used nb'))
     \<and> (unat (base_neighbor_used nb) + length rs \<le> unat (base_neighbor_size nb) \<longrightarrow>
          neighbor_of nb' = fold move rs (neighbor_of nb))"

lemma moved_nil: "moved [] nb nb"
  by (simp add: moved_def nb_kept_eq)

lemma moved_frame:
  assumes "moved rs nb1 nb'" and "neighbor_of nb1 = neighbor_of nb" and "base_neighbor_used nb1 = base_neighbor_used nb"
    and "unat (base_neighbor_size nb) \<le> unat (base_neighbor_size nb1)"
  shows "moved rs nb nb'"
  using assms by (fastforce simp: moved_def nb_kept_def)

lemma moved_step:
  assumes m: "neighbor_of nb1 = move (x, r) (neighbor_of nb)
       \<or> neighbor_of nb1 = neighbor_of nb \<and> neighbor_of nb r = None
         \<and> unat (base_neighbor_size nb) \<le> unat (base_neighbor_used nb)"
    and u: "unat (base_neighbor_used nb) \<le> unat (base_neighbor_used nb1)"
      "unat (base_neighbor_used nb1) \<le> Suc (unat (base_neighbor_used nb))"
      "unat (base_neighbor_size nb) \<le> unat (base_neighbor_size nb1)" "unat (base_neighbor_used nb1) \<le> unat (base_neighbor_used nb')"
    and rs: "moved rs nb1 nb'"
  shows "moved ((x, r) # rs) nb nb'"
proof -
  have "nb_kept nb nb1" using m move_kept nb_kept_eq by blast
  then have k: "nb_kept nb nb'" using rs nb_kept_trans by (auto simp: moved_def)
  have o: "neighbor_of nb' q = neighbor_of nb q" if "q \<notin> snd ` set ((x, r) # rs)" for q
    using that rs m by (auto simp: moved_def move_def)
  have p: "neighbor_of nb' r \<noteq> None \<or> unat (base_neighbor_size nb) \<le> unat (base_neighbor_used nb')"
  proof (cases "neighbor_of nb1 r = None")
    case True
    then have "unat (base_neighbor_size nb) \<le> unat (base_neighbor_used nb)" using m by (auto simp: move_def)
    with u show ?thesis by simp
  next
    case False
    with rs have "neighbor_of nb' r \<noteq> None" using nb_kept_some [of nb1 nb' r] unfolding moved_def by blast
    then show ?thesis ..
  qed
  have f: "neighbor_of nb' = fold move ((x, r) # rs) (neighbor_of nb)"
    if "unat (base_neighbor_used nb) + length ((x, r) # rs) \<le> unat (base_neighbor_size nb)"
    using that rs m u by (auto simp: moved_def)
  show ?thesis using k o p f rs u unfolding moved_def by fastforce
qed

lemma stop_step_ok:
  assumes inv: "nb_inv nb" and r: "ext_refs my (x # xs) z = Some (rs, z')" "\<forall>(x, r) \<in> set rs. r < 101"
  shows "\<exists>nb' z1 qs rs'. (if unat (x_panid_ref x) = my then do {
                   (ret, ref, z) \<leftarrow> ext_address x z;
                   if ret = RET_OK then do { ref \<leftarrow> ref; nb \<leftarrow> ext_to_base x ref nb; Some (nb, z) }
                   else Some (nb, z) }
                 else Some (nb, z)) = Some (nb', z1) \<and> nb_inv nb' \<and> base_neighbor_size nb' = base_neighbor_size nb
    \<and> ext_refs my xs z1 = Some (rs', z') \<and> rs = qs @ rs'
    \<and> (qs = [] \<and> nb' = nb \<or> (\<exists>r. qs = [(x, r)]
         \<and> unat (base_neighbor_used nb) \<le> unat (base_neighbor_used nb')
         \<and> unat (base_neighbor_used nb') \<le> Suc (unat (base_neighbor_used nb))
         \<and> (neighbor_of nb' = move (x, r) (neighbor_of nb)
           \<or> neighbor_of nb' = neighbor_of nb \<and> neighbor_of nb r = None
             \<and> unat (base_neighbor_size nb) \<le> unat (base_neighbor_used nb))))"
proof (cases "unat (x_panid_ref x) = my")
  case True
  with r obtain ret ref z1 where a: "ext_address x z = Some (ret, ref, z1)" by (auto simp: bind_eq_Some_conv)
  show ?thesis
  proof (cases "ret = RET_OK")
    case ok: True
    with True r a obtain q rs' where q: "ref = Some q" "ext_refs my xs z1 = Some (rs', z')" "rs = (x, q) # rs'"
      by (auto simp: bind_eq_Some_conv)
    with r have "q < 101" by simp
    from ext_to_base_ok [OF inv this, of x] obtain nb' where "ext_to_base x q nb = Some nb'" "nb_inv nb'"
      "base_neighbor_size nb' = base_neighbor_size nb" "unat (base_neighbor_used nb) \<le> unat (base_neighbor_used nb')"
      "unat (base_neighbor_used nb') \<le> Suc (unat (base_neighbor_used nb))"
      "neighbor_of nb' = move (x, q) (neighbor_of nb) \<or> neighbor_of nb' = neighbor_of nb \<and> neighbor_of nb q = None
         \<and> unat (base_neighbor_size nb) \<le> unat (base_neighbor_used nb)" by blast
    with True ok a q show ?thesis
      by (intro exI [of _ nb'] exI [of _ z1] exI [of _ "[(x, q)]"] exI [of _ rs']) simp
  next
    case False
    with True r a inv show ?thesis
      by (intro exI [of _ nb] exI [of _ z1] exI [of _ "[]"] exI [of _ rs]) simp
  qed
next
  case False
  with r inv show ?thesis by (intro exI [of _ nb] exI [of _ z] exI [of _ "[]"] exI [of _ rs]) simp
qed

lemma stop_loop_ok:
  "nb_inv nb \<Longrightarrow> ext_refs my xs z = Some (rs, z') \<Longrightarrow> \<forall>(x, r) \<in> set rs. r < 101 \<Longrightarrow> unat f < 13
   \<Longrightarrow> unat (base_neighbor_size nb) * 13 + unat f + 14 * length xs \<le> 416
   \<Longrightarrow> \<exists>nb'. exneighbor_stop_loop (Some my) f xs nb z = Some (nb', z') \<and> nb_inv nb' \<and> moved rs nb nb'
      \<and> unat (base_neighbor_used nb) \<le> unat (base_neighbor_used nb')"
proof (induction xs arbitrary: f nb z rs)
  case Nil
  then show ?case using moved_nil [of nb] by simp
next
  case (Cons x xs)
  obtain nb1 z1 qs rs' where s: "(if unat (x_panid_ref x) = my then do {
                   (ret, ref, z) \<leftarrow> ext_address x z;
                   if ret = RET_OK then do { ref \<leftarrow> ref; nb \<leftarrow> ext_to_base x ref nb; Some (nb, z) }
                   else Some (nb, z) }
                 else Some (nb, z)) = Some (nb1, z1)"
    and n1: "nb_inv nb1" "base_neighbor_size nb1 = base_neighbor_size nb" "ext_refs my xs z1 = Some (rs', z')" "rs = qs @ rs'"
    and q: "qs = [] \<and> nb1 = nb \<or> (\<exists>r. qs = [(x, r)]
         \<and> unat (base_neighbor_used nb) \<le> unat (base_neighbor_used nb1)
         \<and> unat (base_neighbor_used nb1) \<le> Suc (unat (base_neighbor_used nb))
         \<and> (neighbor_of nb1 = move (x, r) (neighbor_of nb)
           \<or> neighbor_of nb1 = neighbor_of nb \<and> neighbor_of nb r = None
             \<and> unat (base_neighbor_size nb) \<le> unat (base_neighbor_used nb)))"
    using stop_step_ok [OF Cons.prems(1-3)] by blast
  let ?g = "f + 14" and ?s = "base_neighbor_size nb1 + ucast ((f + 14) div 13 :: u8)"
  note S = stop_size [OF Cons.prems(4) nb_invD(3) [OF n1(1)], of "length xs"]
  have le: "unat (base_neighbor_size nb1) * 13 + unat f + 14 * Suc (length xs) \<le> 416" using Cons.prems(5) n1(2) by simp
  note S = S [OF le]
  let ?nb = "nb1\<lparr>base_neighbor_size := ?s\<rparr>"
  have nof: "neighbor_of ?nb = neighbor_of nb1" by (simp add: neighbor_of_def fun_eq_iff)
  have inv: "nb_inv ?nb"
    using n1(1) S(3,4) nb_invD(4) [OF n1(1)] unfolding nb_inv_def by simp
  obtain nb' where l: "exneighbor_stop_loop (Some my) (?g - ?g div 13 * 13) xs ?nb z1 = Some (nb', z')" "nb_inv nb'"
      "moved rs' ?nb nb'" "unat (base_neighbor_used nb1) \<le> unat (base_neighbor_used nb')"
    using Cons.IH [OF inv n1(3), of "?g - ?g div 13 * 13"] Cons.prems(3) n1(4) S(1,2) by auto
  have "moved rs' nb1 nb'" using moved_frame [OF l(3) nof] S(3) by simp
  then have "moved rs nb nb'" "unat (base_neighbor_used nb) \<le> unat (base_neighbor_used nb')"
    using q l(4) n1(2,4) moved_step [of nb1 x _ nb nb' rs'] by auto
  moreover have "exneighbor_stop_loop (Some my) f (x # xs) nb z = Some (nb', z')"
    using s S(5) l(1) unfolding sizeof_neighbor_ent_def sizeof_ext_neighbor_ent_def by (simp add: Let_def zb_config)
  ultimately show ?case using l(2) by blast
qed

text \<open>The base table keeps its entries when the memory behind it is given back.\<close>

lemma stop_base:
  fixes stale :: "nat \<Rightarrow> zb_neighbor_tbl_ent"
  assumes "nb_inv nb"
  defines "b \<equiv> map (\<lambda>i. if i < unat (base_neighbor_size nb) then base_neighbor nb ! i else stale i) [0..<length (base_neighbor nb)]"
  shows "nb_inv (nb\<lparr>base_neighbor := b\<rparr>)" "neighbor_of (nb\<lparr>base_neighbor := b\<rparr>) = neighbor_of nb"
proof -
  note D = nb_invD [OF assms(1)]
  have b: "b ! i = base_neighbor nb ! i" if "i < unat (base_neighbor_used nb)" for i
    using that D by (simp add: b_def)
  show "nb_inv (nb\<lparr>base_neighbor := b\<rparr>)" using assms(1) b D by (auto simp: nb_inv_def b_def)
  show "neighbor_of (nb\<lparr>base_neighbor := b\<rparr>) = neighbor_of nb"
    using b nb_inv_ref [OF assms(1)] by (auto simp: neighbor_of_def fun_eq_iff)
qed

lemma exneighbor_stop_spec:
  assumes inv: "nb_inv nb" and ext: "ext_inv nb" and my: "zb_address_get_pan_id_ref p z = Some (RET_OK, Some my)"
    and rs: "ext_refs my (ext_neighbor nb) z = Some (rs, z')" "\<forall>(x, r) \<in> set rs. r < 101"
  shows "\<exists>nb'. zb_nwk_exneighbor_stop stale True p nb z = Some (nb', z') \<and> nb_inv nb' \<and> moved rs nb nb'
    \<and> base_neighbor_size nb' = 32 \<and> ext_neighbor nb' = [] \<and> ext_neighbor_size nb' = 0"
proof -
  let ?b = "map (\<lambda>i. if i < unat (base_neighbor_size nb) then base_neighbor nb ! i else stale i) [0..<length (base_neighbor nb)]"
  let ?nb = "if ext_neighbor nb = [] then nb else nb\<lparr>base_neighbor := ?b\<rparr>"
  have nb: "nb_inv ?nb" "neighbor_of ?nb = neighbor_of nb" "base_neighbor_size ?nb = base_neighbor_size nb"
      "base_neighbor_used ?nb = base_neighbor_used nb"
    using stop_base [OF inv, of stale] inv by simp_all
  have "unat (base_neighbor_size ?nb) * 13 + unat (0 :: u8) + 14 * length (ext_neighbor nb) \<le> 416"
    using ext by (auto simp: ext_inv_def)
  from stop_loop_ok [OF nb(1) rs _ this] obtain nb1 where
    l: "exneighbor_stop_loop (Some my) 0 (ext_neighbor nb) ?nb z = Some (nb1, z')" "nb_inv nb1" "moved rs ?nb nb1"
    by auto
  let ?nb1 = "nb1\<lparr>base_neighbor_size := 32, ext_neighbor := [], ext_off := 0, ext_neighbor_size := 0\<rparr>"
  have "zb_nwk_exneighbor_stop stale True p nb z = Some (?nb1, z')"
    using l(1) my unfolding zb_nwk_exneighbor_stop_def Let_def by (simp add: zb_config)
  moreover have "nb_inv ?nb1" by (rule nb_inv_frame [OF l(2)]) (use nb_invD [OF l(2)] in simp_all)
  moreover have "moved rs nb ?nb1" using l(3) nb(2-4) by (simp add: moved_def nb_kept_def)
  ultimately show ?thesis by (intro exI [of _ ?nb1]) simp
qed

lemma exneighbor_stop_idle:
  assumes "nb_inv nb"
  shows "\<exists>nb'. zb_nwk_exneighbor_stop stale False p nb z = Some (nb', z) \<and> nb_inv nb' \<and> neighbor_of nb' = neighbor_of nb
    \<and> base_neighbor_size nb' = 32 \<and> ext_neighbor nb' = [] \<and> ext_neighbor_size nb' = 0"
proof -
  let ?b = "map (\<lambda>i. if i < unat (base_neighbor_size nb) then base_neighbor nb ! i else stale i) [0..<length (base_neighbor nb)]"
  let ?nb = "if ext_neighbor nb = [] then nb else nb\<lparr>base_neighbor := ?b\<rparr>"
  have nb: "nb_inv ?nb" "neighbor_of ?nb = neighbor_of nb"
    using stop_base [OF assms, of stale] assms by simp_all
  let ?nb1 = "?nb\<lparr>base_neighbor_size := 32, ext_neighbor := [], ext_off := 0, ext_neighbor_size := 0\<rparr>"
  have "zb_nwk_exneighbor_stop stale False p nb z = Some (?nb1, z)"
    unfolding zb_nwk_exneighbor_stop_def Let_def by (simp add: zb_config)
  moreover have "nb_inv ?nb1" by (rule nb_inv_frame [OF nb(1)]) (use nb_invD [OF nb(1)] in simp_all)
  ultimately show ?thesis using nb(2) by (intro exI [of _ ?nb1]) simp
qed

section \<open>Properties\<close>

text \<open>The tables after \<^verbatim>\<open>zb_nwk_neighbor_clear\<close>.\<close>

lemma neighbor_cleared: "nb_inv zb_nwk_neighbor_clear" "nb_clean zb_nwk_neighbor_clear" "neighbor_of zb_nwk_neighbor_clear r = None"
  "base_neighbor_size zb_nwk_neighbor_clear = 32" "base_neighbor_used zb_nwk_neighbor_clear = 0"
  "ext_neighbor_size zb_nwk_neighbor_clear = 0"
  by (simp_all add: zb_nwk_neighbor_clear_def zb_nwk_neighbor_init_def neighbor_tbl_zero_def zb_config
      nb_inv_def nb_clean_def neighbor_of_def neighbor_ent_zero_def)

text \<open>
  C37. The base neighbor table is a map from address references to entries: looking up with creation
  a device that has no entry adds exactly its new entry, at the returned place, and locks its
  address; a device that has one is returned and nothing changes.
\<close>

theorem neighbor_get_refines_map:
  assumes "nb_inv nb" and "r < 101" and "unat (base_neighbor_used nb) + 1 < unat (base_neighbor_size nb)"
    and "length (addr_map z) = 101" and "am_lock_cnt (addr_map z ! r) \<noteq> 15"
  shows "\<exists>n nb' z'. zb_nwk_neighbor_get d r True nb z = Some (RET_OK, Some n, nb', z') \<and> nb_inv nb'
    \<and> neighbor_of nb' r = Some (base_neighbor nb' ! n)
    \<and> neighbor_of nb' = (case neighbor_of nb r of Some _ \<Rightarrow> neighbor_of nb | None \<Rightarrow> (neighbor_of nb)(r \<mapsto> new_neighbor_ent r d))
    \<and> am_lock_cnt (addr_map z' ! r) = am_lock_cnt (addr_map z ! r) + (case neighbor_of nb r of Some _ \<Rightarrow> 0 | None \<Rightarrow> 1)"
proof (cases "neighbor_of nb r")
  case None
  obtain n nb' z' where g: "zb_nwk_neighbor_get d r True nb z = Some (RET_OK, Some n, nb', z')" "nb_inv nb'"
    "neighbor_of nb' = (neighbor_of nb)(r \<mapsto> new_neighbor_ent r d)" "addr_to_neighbor nb' ! r = of_nat n"
    "n = unat (base_neighbor_used nb)"
    and z': "z' = z\<lparr>addr_map := (addr_map z)[r := (addr_map z ! r)\<lparr>am_lock_cnt := am_lock_cnt (addr_map z ! r) + 1, am_clock := True\<rparr>]\<rparr>"
    using neighbor_get_new [OF assms(1,2) None assms(3-5), of d] by blast
  have "n < 255" using g(5) nb_invD [OF assms(1)] by simp
  then have "neighbor_of nb' r = Some (base_neighbor nb' ! n)"
    using byte_of_nat [of n] assms(2) g(4) by (simp add: neighbor_of_def)
  with g None assms show ?thesis by (intro exI conjI) (assumption | simp add: z')+
next
  case (Some e)
  note f = neighbor_get_found [OF assms(1) Some]
  show ?thesis by (intro exI conjI, rule f(1)) (use f(2) assms(1) Some in simp_all)
qed

theorem neighbor_get_refines_map_witness:
  "\<exists>n nb' z'. zb_nwk_neighbor_get 1 5 True zb_nwk_neighbor_clear addr_cleared = Some (RET_OK, Some n, nb', z') \<and> nb_inv nb'
    \<and> neighbor_of nb' = (neighbor_of zb_nwk_neighbor_clear)(5 \<mapsto> new_neighbor_ent 5 1)"
  using neighbor_get_refines_map [OF neighbor_cleared(1), of 5 addr_cleared 1]
  by (fastforce simp: neighbor_cleared addr_cleared_def)

text \<open>
  Deleting a neighbor removes exactly its entry from the map, but gives no place back and leaves
  the address locked: a device that joins and leaves costs one of the places of the table.
\<close>

theorem join_leave_loses_place:
  assumes "nb_inv nb" and "r < 101" and "neighbor_of nb r = None"
    and "unat (base_neighbor_used nb) + 1 < unat (base_neighbor_size nb)"
    and "length (addr_map z) = 101" and "am_lock_cnt (addr_map z ! r) \<noteq> 15"
  shows "\<exists>n nb1 nb2 z'. zb_nwk_neighbor_get d r True nb z = Some (RET_OK, Some n, nb1, z')
    \<and> zb_nwk_neighbor_delete r nb1 = Some (RET_OK, nb2) \<and> nb_inv nb2 \<and> neighbor_of nb2 = neighbor_of nb
    \<and> base_neighbor_used nb2 = base_neighbor_used nb + 1
    \<and> am_lock_cnt (addr_map z' ! r) = am_lock_cnt (addr_map z ! r) + 1"
proof -
  obtain n nb1 z' where g: "zb_nwk_neighbor_get d r True nb z = Some (RET_OK, Some n, nb1, z')" "nb_inv nb1"
    "neighbor_of nb1 = (neighbor_of nb)(r \<mapsto> new_neighbor_ent r d)" "base_neighbor_used nb1 = base_neighbor_used nb + 1"
    and z': "z' = z\<lparr>addr_map := (addr_map z)[r := (addr_map z ! r)\<lparr>am_lock_cnt := am_lock_cnt (addr_map z ! r) + 1, am_clock := True\<rparr>]\<rparr>"
    using neighbor_get_new [OF assms(1-6), of d] by blast
  have ff: "addr_to_neighbor nb1 ! r \<noteq> 0xff" using arg_cong [OF g(3), of "\<lambda>m. m r"] by (auto simp: neighbor_of_def split: if_splits)
  note d = nb_delete_ok [OF g(2) assms(2) ff]
  have "neighbor_of nb r = None" by (rule assms(3))
  then have "((neighbor_of nb)(r \<mapsto> new_neighbor_ent r d))(r := None) = neighbor_of nb" by auto
  note undo = this
  show ?thesis
    by (intro exI conjI, rule g(1), rule d(1), rule d(2)) (use undo g assms(2,5) in \<open>simp_all add: d(3) z'\<close>)
qed

theorem join_leave_loses_place_witness:
  "\<exists>n nb1 nb2 z'. zb_nwk_neighbor_get 1 5 True zb_nwk_neighbor_clear addr_cleared = Some (RET_OK, Some n, nb1, z')
    \<and> zb_nwk_neighbor_delete 5 nb1 = Some (RET_OK, nb2) \<and> base_neighbor_used nb2 = 1"
  using join_leave_loses_place [OF neighbor_cleared(1) _ neighbor_cleared(3), of 5 addr_cleared 1]
  by (auto simp: neighbor_cleared addr_cleared_def)

text \<open>
  Starting the extended table on a table with fewer than twenty entries in use compacts the
  base table without losing, changing or inventing a neighbor, and leaves room for at least one
  extended entry between the end of the base table and the end of its memory.
\<close>

theorem exneighbor_start_keeps_neighbors:
  assumes "nb_inv nb" and "nb_clean nb" and "base_neighbor_size nb = 32" and "ext_neighbor_size nb = 0"
    and "unat (base_neighbor_used nb) < 20"
  shows "\<exists>nb'. zb_nwk_exneighbor_start nb = Some nb' \<and> nb_inv nb' \<and> ext_inv nb' \<and> 0 < ext_neighbor_size nb'
    \<and> neighbor_of nb' = neighbor_of nb"
  using exneighbor_start_ok [OF assms] by blast

theorem exneighbor_start_keeps_neighbors_witness:
  "\<exists>nb'. zb_nwk_exneighbor_start zb_nwk_neighbor_clear = Some nb' \<and> nb_inv nb' \<and> ext_inv nb' \<and> 0 < ext_neighbor_size nb'
    \<and> neighbor_of nb' = neighbor_of zb_nwk_neighbor_clear"
  using exneighbor_start_keeps_neighbors [OF neighbor_cleared(1,2,4,6)] neighbor_cleared(5) by simp

text \<open>
  The byte offset of the extended table is computed in eight bits: the table lies behind the
  base table, inside the memory and not empty exactly while fewer than twenty entries are in use.
\<close>

theorem exneighbor_cut_overlaps:
  assumes "u \<le> 32" and "exneighbor_cut 32 (of_nat u) = (s, off, n)"
  shows "(unat s * 13 \<le> unat off \<and> unat off + unat n * 14 \<le> 32 * 13 \<and> 0 < n) \<longleftrightarrow> u < 20"
  using exneighbor_cut_ok(1) [OF assms] by simp

theorem exneighbor_cut_overlaps_witness:
  "exneighbor_cut 32 (of_nat 20) = (20, 4, 11)
    \<and> ((unat (20 :: u32) * 13 \<le> unat (4 :: u8) \<and> unat (4 :: u8) + unat (11 :: u8) * 14 \<le> 32 * 13 \<and> 0 < (11 :: u8)) \<longleftrightarrow> 20 < (20 :: nat))"
proof -
  have e: "exneighbor_cut 32 (of_nat 20) = (20, 4, 11)" by code_simp
  show ?thesis using e exneighbor_cut_overlaps [OF _ e] by simp
qed

text \<open>
  Looking up an extended neighbor by PAN and short address returns the entry with that key, an
  old one or a new one behind the others, changes no other entry, and finds the same entry again.
\<close>

theorem exneighbor_by_short_finds:
  assumes "ext_inv nb" and "p < 8" and "length (ext_neighbor nb) < unat (ext_neighbor_size nb)"
  shows "\<exists>i nb'. zb_nwk_exneighbor_by_short p a nb = Some (RET_OK, Some i, nb') \<and> i < length (ext_neighbor nb')
    \<and> x_short_addr (ext_neighbor nb' ! i) = a \<and> unat (x_panid_ref (ext_neighbor nb' ! i)) = p
    \<and> take (length (ext_neighbor nb)) (ext_neighbor nb') = ext_neighbor nb \<and> ext_inv nb'
    \<and> zb_nwk_exneighbor_by_short p a nb' = Some (RET_OK, Some i, nb')"
proof -
  let ?P = "\<lambda>x. x_short_addr x = a \<and> unat (x_panid_ref x) = p"
  show ?thesis
  proof (cases "find_index ?P 0 (ext_neighbor nb)")
    case (Some i)
    with find_index_Some [OF this] assms show ?thesis by (simp add: zb_nwk_exneighbor_by_short_def)
  next
    case None
    let ?x = "ext_neighbor_ent_zero\<lparr>x_short_addr := a, x_panid_ref := of_nat p\<rparr>"
    have x: "?P ?x" using assms(2) by simp
    have "find_index ?P 0 (ext_neighbor nb @ [?x]) = Some (length (ext_neighbor nb))"
      using None x by (simp add: find_index_snoc)
    with None x assms show ?thesis
      by (simp add: zb_nwk_exneighbor_by_short_def alloc_ext_ok nth_append ext_inv_def)
  qed
qed

theorem exneighbor_by_short_finds_witness:
  "\<exists>nb1 i nb'. zb_nwk_exneighbor_start zb_nwk_neighbor_clear = Some nb1
    \<and> zb_nwk_exneighbor_by_short 3 0x1234 nb1 = Some (RET_OK, Some i, nb')
    \<and> zb_nwk_exneighbor_by_short 3 0x1234 nb' = Some (RET_OK, Some i, nb')"
proof -
  obtain nb1 where n: "zb_nwk_exneighbor_start zb_nwk_neighbor_clear = Some nb1" "ext_inv nb1" "ext_neighbor nb1 = []"
    "0 < ext_neighbor_size nb1"
    using exneighbor_start_ok [OF neighbor_cleared(1,2,4,6)] neighbor_cleared(5) by auto
  then have "length (ext_neighbor nb1) < unat (ext_neighbor_size nb1)" by (simp add: word_less_nat_alt)
  with exneighbor_by_short_finds [OF n(2), of 3 "0x1234"] n(1) show ?thesis by auto
qed

text \<open>
  The iterator over the receivers that are on returns the first such entry in use from the
  given index, and all ones when there is none.
\<close>

theorem next_rx_on_finds:
  assumes "nb_inv nb"
  shows "\<exists>j. zb_nwk_neighbor_next_rx_on_i i nb = Some j
    \<and> (if \<exists>k \<ge> i. k < unat (base_neighbor_used nb) \<and> n_used (base_neighbor nb ! k) \<and> rx_on_when_idle (base_neighbor nb ! k)
       then unat j = (LEAST k. i \<le> k \<and> k < unat (base_neighbor_used nb) \<and> n_used (base_neighbor nb ! k) \<and> rx_on_when_idle (base_neighbor nb ! k))
       else j = 0xffffffff)"
proof -
  let ?P = "\<lambda>e. n_used e \<and> rx_on_when_idle e" and ?u = "unat (base_neighbor_used nb)"
  note S = next_neighbor_spec [OF assms, of ?P i]
  show ?thesis
  proof (cases "find (\<lambda>k. ?P (base_neighbor nb ! k)) [i..<?u]")
    case None
    then have "\<not> (\<exists>k \<ge> i. k < ?u \<and> ?P (base_neighbor nb ! k))" by (auto simp: find_None_iff)
    with S None show ?thesis
      by (intro exI [of _ "0xffffffff"]) (simp only: zb_nwk_neighbor_next_rx_on_i_def option.case if_False simp_thms)
  next
    case (Some k)
    then obtain m where m: "m < ?u - i" "?P (base_neighbor nb ! (i + m))" "k = i + m"
      "\<forall>j < m. \<not> ?P (base_neighbor nb ! (i + j))"
      by (auto simp: find_Some_iff)
    have "(LEAST k. i \<le> k \<and> k < ?u \<and> ?P (base_neighbor nb ! k)) = k"
    proof (rule Least_equality)
      show "i \<le> k \<and> k < ?u \<and> ?P (base_neighbor nb ! k)" using m by auto
      fix y assume "i \<le> y \<and> y < ?u \<and> ?P (base_neighbor nb ! y)"
      then show "k \<le> y" using m(3,4) by (metis le_add_diff_inverse nat_add_left_cancel_less not_le_imp_less)
    qed
    moreover have "\<exists>k \<ge> i. k < ?u \<and> ?P (base_neighbor nb ! k)" using m by (intro exI [of _ k]) auto
    moreover have "k < 32" using m nb_invD [OF assms] by simp
    then have "unat (of_nat k :: u32) = k" by (intro unat_of_nat_lt) simp
    ultimately show ?thesis using S Some by (simp add: zb_nwk_neighbor_next_rx_on_i_def)
  qed
qed

theorem next_rx_on_finds_witness: "zb_nwk_neighbor_next_rx_on_i 0 zb_nwk_neighbor_clear = Some 0xffffffff"
  using next_rx_on_finds [OF neighbor_cleared(1), of 0] by (simp add: neighbor_cleared)

text \<open>
  C38. Stopping the extended table of a device that has joined and knows its PAN moves the entries of that PAN. Take
  those entries with the references the address table gives them (\<open>ext_refs\<close>: by short address, by long address or by
  both; an entry without one is passed over; \<open>beacon_refs\<close>: beacons always have them). With room for all of them the base table is afterwards the old one with
  every one of them put in, in their order: a new entry with the device type, depth, permission to join
  and link quality that was heard, or the known entry with its link quality, and a device type that was
  not known. Without that room an entry is left out only when every place is taken. The entries of other PANs
  are not moved, no known neighbor is lost, and the whole memory goes back to the base table. A device that
  has not joined only gives the memory back.
\<close>

theorem exneighbor_stop_moves_entries:
  assumes "nb_inv nb" and "ext_inv nb" and "zb_address_get_pan_id_ref p z = Some (RET_OK, Some my)"
    and "ext_refs my (ext_neighbor nb) z = Some (rs, z')" and "\<forall>(x, r) \<in> set rs. r < 101"
  shows "(\<exists>nb'. zb_nwk_exneighbor_stop stale True p nb z = Some (nb', z') \<and> nb_inv nb' \<and> nb_kept nb nb'
      \<and> (unat (base_neighbor_used nb) + length rs \<le> unat (base_neighbor_size nb) \<longrightarrow>
           neighbor_of nb' = fold (\<lambda>(x, r) m. m(r \<mapsto> moved_ent x r (m r))) rs (neighbor_of nb))
      \<and> (\<forall>(x, r) \<in> set rs. neighbor_of nb' r \<noteq> None \<or> unat (base_neighbor_size nb) \<le> unat (base_neighbor_used nb'))
      \<and> (\<forall>r. r \<notin> snd ` set rs \<longrightarrow> neighbor_of nb' r = neighbor_of nb r)
      \<and> base_neighbor_size nb' = 32 \<and> ext_neighbor nb' = [] \<and> ext_neighbor_size nb' = 0)
    \<and> (\<exists>nb'. zb_nwk_exneighbor_stop stale False p nb z = Some (nb', z) \<and> nb_inv nb' \<and> neighbor_of nb' = neighbor_of nb
      \<and> base_neighbor_size nb' = 32 \<and> ext_neighbor nb' = [] \<and> ext_neighbor_size nb' = 0)"
  using exneighbor_stop_spec [OF assms, of stale] exneighbor_stop_idle [OF assms(1), of stale p z]
  unfolding moved_def move_def by blast

text \<open>A router of the own PAN that was heard while looking for networks, and that is in the base table afterwards.\<close>

theorem exneighbor_stop_moves_entries_witness:
  "\<exists>my nb1 nb2 r e nb' z'. zb_nwk_exneighbor_start zb_nwk_neighbor_clear = Some nb1
    \<and> zb_nwk_exneighbor_by_short my 0x1234 nb1 = Some (RET_OK, Some 0, nb2)
    \<and> zb_nwk_exneighbor_stop (\<lambda>_. neighbor_ent_zero) True (replicate 8 0)
        (nb2\<lparr>ext_neighbor := map (\<lambda>x. x\<lparr>x_device_type := ZB_NWK_DEVICE_TYPE_ROUTER, x_depth := 1, x_lqi := 200\<rparr>) (ext_neighbor nb2)\<rparr>)
        (addr_cleared\<lparr>used_pan_addr := [255, 255]\<rparr>) = Some (nb', z')
    \<and> zb_address_short_by_ref r z' = Some 0x1234 \<and> neighbor_of nb' r = Some e
    \<and> device_type e = ZB_NWK_DEVICE_TYPE_ROUTER \<and> depth e = 1 \<and> lqi e = 200 \<and> n_used e"
proof -
  let ?z = "addr_cleared\<lparr>used_pan_addr := [255, 255]\<rparr>"
  have p: "pan_inv ?z" using addr_cleared_inv(3) by (simp add: pan_inv_def)
  have m: "pan_match ?z (replicate 8 0) (ZB_ADDRESS_PAN_ID_HASH (replicate 8 0))"
    unfolding ZB_ADDRESS_PAN_ID_HASH_def by (simp add: pan_match_def vec_bit_def addr_cleared_def zb_config
        ZB_4INT_HASH_FUNC_def ZB_HASH_FUNC_STEP_def ZB_PANID_TABLE_SIZE_def)
  obtain my where my: "zb_address_get_pan_id_ref (replicate 8 0) ?z = Some (RET_OK, Some my)" and my8: "my < 8"
    using get_pan_ref_eq [OF p, of "replicate 8 0"] m pan_hash_lt [of "replicate 8 0"]
    by (cases "find (pan_match ?z (replicate 8 0)) (ring_from 8 (ZB_ADDRESS_PAN_ID_HASH (replicate 8 0)))")
      (auto simp: find_none_set dest: find_some_set)
  obtain nb1 where n: "zb_nwk_exneighbor_start zb_nwk_neighbor_clear = Some nb1" "ext_inv nb1" "nb_inv nb1" "ext_neighbor nb1 = []"
    "0 < ext_neighbor_size nb1" "base_neighbor_used nb1 = 0" "16 \<le> unat (base_neighbor_size nb1)" "neighbor_of nb1 = (\<lambda>_. None)"
    using exneighbor_start_ok [OF neighbor_cleared(1,2,4,6)] neighbor_cleared(3,5) by (fastforce simp: fun_eq_iff)
  let ?x = "ext_neighbor_ent_zero\<lparr>x_short_addr := 0x1234, x_panid_ref := of_nat my\<rparr>"
  let ?y = "?x\<lparr>x_device_type := ZB_NWK_DEVICE_TYPE_ROUTER, x_depth := 1, x_lqi := 200\<rparr>"
  let ?nb2 = "nb1\<lparr>ext_neighbor := [?x]\<rparr>" and ?nb3 = "nb1\<lparr>ext_neighbor := [?y]\<rparr>"
  have room: "length (ext_neighbor nb1) < unat (ext_neighbor_size nb1)" using n by (simp add: word_less_nat_alt)
  have found: "zb_nwk_exneighbor_by_short my 0x1234 nb1 = Some (RET_OK, Some 0, ?nb2)"
    using alloc_ext_ok [OF n(2) room, of my "0x1234"] n(4) by (simp add: zb_nwk_exneighbor_by_short_def)
  have inv3: "nb_inv ?nb3" "ext_inv ?nb3" using n room by (simp_all add: nb_inv_def ext_inv_def)
  have az: "addr_inv ?z" using addr_cleared_inv(1,4) by (simp add: addr_inv_def sorted_inv_def refs_def)
  have "(0 :: nat) \<in> {..<101}" by simp
  then have full: "used_refs (addr_map addr_cleared) \<noteq> {..<101}" unfolding addr_cleared_inv(4) by blast
  have "addr_map ?z = addr_map addr_cleared" by simp
  then have "used_refs (addr_map ?z) \<noteq> {..<101}" using full by argo
  from by_short_create [OF az _ this, of "0x1234"] obtain r z' where
    r: "zb_address_by_short 0x1234 True False ?z = Some (RET_OK, Some r, z')" "zb_address_short_by_ref r z' = Some 0x1234" by auto
  have r1: "r < 101" using by_short_total [OF az, of "0x1234"] r(1) by auto
  have e: "ext_refs my [?y] ?z = Some ([(?y, r)], z')"
    using r(1) my8 by (simp add: ext_address_def ext_neighbor_ent_zero_def unat_of_nat_lt)
  have "unat (base_neighbor_used ?nb3) + length [(?y, r)] \<le> unat (base_neighbor_size ?nb3)"
    using n(6,7) by simp
  then obtain nb' where "zb_nwk_exneighbor_stop (\<lambda>_. neighbor_ent_zero) True (replicate 8 0) ?nb3 ?z = Some (nb', z')"
      "neighbor_of nb' = (neighbor_of ?nb3)(r \<mapsto> moved_ent ?y r (neighbor_of ?nb3 r))"
    using exneighbor_stop_moves_entries [OF inv3 my, of "[(?y, r)]" z' "\<lambda>_. neighbor_ent_zero"] e r1 by auto
  moreover have "neighbor_of ?nb3 = (\<lambda>_. None)" using n(8) by simp
  ultimately show ?thesis using n(1) found r(2)
    by (intro exI [of _ my] exI [of _ nb1] exI [of _ ?nb2] exI [of _ r] exI [of _ "moved_ent ?y r None"] exI [of _ nb'] exI [of _ z'])
      (simp add: moved_ent_def)
qed

text \<open>
  Creation on a table with all but one place in use is refused; but with every place in use, as
  the end of a network discovery can leave the table, it writes behind the end of the array.
\<close>

theorem neighbor_get_full:
  assumes "nb_inv nb" and "base_neighbor_size nb = 32" and "r < 101" and "neighbor_of nb r = None"
  shows "if base_neighbor_used nb = 31 then zb_nwk_neighbor_get d r True nb z = Some (RET_NO_MEMORY, None, nb, z)
    else if base_neighbor_used nb = 32 then zb_nwk_neighbor_get d r True nb z = None
    else unat (base_neighbor_used nb) < 31"
proof -
  note D = nb_invD [OF assms(1)]
  have a: "arr_get (addr_to_neighbor nb) r = Some 0xff" using assms(3,4) D by (auto simp: neighbor_of_def split: if_splits)
  have o: "arr_set (base_neighbor nb) (unat (ucast (32 :: u32) :: u8)) e = None" for e using D by (simp add: arr_set_def)
  have "zb_nwk_neighbor_get d r True nb z = None" if u: "base_neighbor_used nb = 32"
    unfolding zb_nwk_neighbor_get_def a Option.bind.bind_lunit u assms(2) Let_def o by simp
  moreover have "unat (base_neighbor_used nb) < 31" if "base_neighbor_used nb \<noteq> 31" "base_neighbor_used nb \<noteq> 32"
  proof -
    have "unat (base_neighbor_used nb) \<le> 32" using D by simp
    moreover have "unat (base_neighbor_used nb) \<noteq> 31" "unat (base_neighbor_used nb) \<noteq> 32"
      using that word_unat_eq_iff [of "base_neighbor_used nb" 31] word_unat_eq_iff [of "base_neighbor_used nb" 32] by simp_all
    ultimately show ?thesis by simp
  qed
  ultimately show ?thesis using a assms(2) by (simp add: zb_nwk_neighbor_get_def)
qed

theorem neighbor_get_full_witness:
  "zb_nwk_neighbor_get 0 50 True
     (zb_nwk_neighbor_clear\<lparr>base_neighbor := map (\<lambda>i. new_neighbor_ent i 0) [0..<32],
        addr_to_neighbor := map of_nat [0..<32] @ replicate 69 0xff, base_neighbor_used := 32\<rparr>) addr_cleared = None"
proof -
  let ?nb = "zb_nwk_neighbor_clear\<lparr>base_neighbor := map (\<lambda>i. new_neighbor_ent i 0) [0..<32],
        addr_to_neighbor := map of_nat [0..<32] @ replicate 69 0xff, base_neighbor_used := 32\<rparr>"
  have a: "addr_to_neighbor ?nb ! r = (if r < 32 then of_nat r else 0xff)" if "r < 101" for r
    using that by (simp add: nth_append)
  have w: "unat (of_nat r :: u8) = r" if "r < 32" for r using that by (intro unat_of_nat_lt) simp
  have "nb_inv ?nb"
    unfolding nb_inv_def using a w by (auto simp: neighbor_cleared new_neighbor_ent_def split: if_splits)
  moreover have "neighbor_of ?nb 50 = None" using a [of 50] by (simp add: neighbor_of_def)
  ultimately show ?thesis using neighbor_get_full [of ?nb 50 0 addr_cleared] by (simp add: neighbor_cleared)
qed

text \<open>
  A device joins, a discovery hears a device by its long address and ends without a network, the
  device leaves: no neighbor is left. When the bytes the extended table has left behind read as an
  entry in use, the next discovery moves that entry and stores through its address reference, which
  is not one of the table.
\<close>

theorem restart_follows_stale_entry:
  assumes "n_used (stale 16)" and "101 \<le> addr_ref (stale 16)"
  shows "\<exists>nb1 nb2 nb3 z. do {
       (_, _, nb, z) \<leftarrow> zb_nwk_neighbor_get 0 3 True zb_nwk_neighbor_clear addr_cleared;
       nb \<leftarrow> zb_nwk_exneighbor_start nb;
       (_, _, nb, z) \<leftarrow> zb_nwk_exneighbor_by_ieee 0 [0xa, 0xb, 0xc, 1, 2, 3, 4, 5] nb z;
       Some (nb, z) } = Some (nb1, z)
    \<and> zb_nwk_exneighbor_stop stale False p nb1 z = Some (nb2, z)
    \<and> zb_nwk_neighbor_delete 3 nb2 = Some (RET_OK, nb3)
    \<and> (\<forall>r. neighbor_of nb3 r = None) \<and> zb_nwk_exneighbor_start nb3 = None"
proof -
  let ?s = "do {
       (_, _, nb, z) \<leftarrow> zb_nwk_neighbor_get 0 3 True zb_nwk_neighbor_clear addr_cleared;
       nb \<leftarrow> zb_nwk_exneighbor_start nb;
       (_, _, nb, z) \<leftarrow> zb_nwk_exneighbor_by_ieee 0 [0xa, 0xb, 0xc, 1, 2, 3, 4, 5] nb z;
       Some (nb, z) }"
  have "map_option (\<lambda>(nb, z). base_neighbor_size nb = 16 \<and> base_neighbor_used nb = 1 \<and> ext_neighbor nb \<noteq> []
      \<and> length (base_neighbor nb) = 32 \<and> list_all (\<lambda>i. n_used (base_neighbor nb ! i) = (i = 0)) [0..<16]
      \<and> length (addr_to_neighbor nb) = 101 \<and> list_all (\<lambda>r. addr_to_neighbor nb ! r = (if r = 3 then 0 else 0xff)) [0..<101]) ?s
    = Some True"
    by code_simp
  then obtain nb1 z where s: "?s = Some (nb1, z)" and n: "base_neighbor_size nb1 = 16" "base_neighbor_used nb1 = 1"
    "ext_neighbor nb1 \<noteq> []" "length (base_neighbor nb1) = 32" "length (addr_to_neighbor nb1) = 101"
    and u: "\<forall>i < 16. n_used (base_neighbor nb1 ! i) = (i = 0)"
    and a: "\<forall>r < 101. addr_to_neighbor nb1 ! r = (if r = 3 then 0 else 0xff)"
    unfolding list_all_iff by (auto simp del: bind_eq_Some_conv)
  let ?b = "map (\<lambda>i. if i < 16 then base_neighbor nb1 ! i else stale i) [0..<32]"
  let ?nb2 = "nb1\<lparr>base_neighbor := ?b, base_neighbor_size := 32, ext_neighbor := [], ext_off := 0, ext_neighbor_size := 0\<rparr>"
  let ?nb3 = "?nb2\<lparr>base_neighbor := ?b[0 := (base_neighbor nb1 ! 0)\<lparr>n_used := False\<rparr>],
                   addr_to_neighbor := (addr_to_neighbor nb1)[3 := 0xff]\<rparr>"
  have stop: "zb_nwk_exneighbor_stop stale False p nb1 z = Some (?nb2, z)"
    using n by (simp add: zb_nwk_exneighbor_stop_def zb_config)
  have del: "zb_nwk_neighbor_delete 3 ?nb2 = Some (RET_OK, ?nb3)"
    using n a by (simp add: zb_nwk_neighbor_delete_def)
  have none: "neighbor_of ?nb3 r = None" for r
    using n a by (auto simp: neighbor_of_def nth_list_update)
  have "\<forall>j < 16. \<not> n_used (base_neighbor ?nb3 ! j)" using u n by (auto simp: nth_list_update)
  then have "compact_loop 0 0 0 ?nb3 = None"
    using compact_loop_stale [of 16 ?nb3 0] assms n by simp
  then have "zb_nwk_exneighbor_start ?nb3 = None"
    using n unfolding zb_nwk_exneighbor_start_def by simp
  with s stop del none show ?thesis by blast
qed

text \<open>The bytes that are left: the short address 0xffff, the manufacturer and the device number.\<close>

theorem restart_follows_stale_entry_witness:
  "\<exists>nb1 nb2 nb3 z. zb_nwk_exneighbor_stop (\<lambda>i. if i = 16 then neighbor_ent_zero\<lparr>addr_ref := 0x0100ffff, permit_joining := 2,
         n_used := True, rx_on_when_idle := True, transmit_failure := 4, lqi := 5\<rparr> else neighbor_ent_zero)
       False (replicate 8 0) nb1 z = Some (nb2, z)
    \<and> zb_nwk_neighbor_delete 3 nb2 = Some (RET_OK, nb3) \<and> zb_nwk_exneighbor_start nb3 = None"
  using restart_follows_stale_entry [of "\<lambda>i. if i = 16 then neighbor_ent_zero\<lparr>addr_ref := 0x0100ffff, permit_joining := 2,
         n_used := True, rx_on_when_idle := True, transmit_failure := 4, lqi := 5\<rparr> else neighbor_ent_zero" "replicate 8 0"]
  by (simp del: bind_eq_Some_conv) blast

end
