(* ===== verification/Fcs.thy ===== *)
theory Fcs
  imports Bufpool
begin

text \<open>
  The frame check sequence of \<^verbatim>\<open>mac/mac_fcs.c\<close>, a table-driven CRC appended to the frame in
  the simulator build. The reference is the bitwise CRC with the reflected polynomial 0x8408;
  the table is shown to be its byte step, and a receiver that runs the CRC over the frame with
  its check sequence gets zero.
\<close>

section \<open>The code\<close>

definition fcs_table :: "u16 list" where
  "fcs_table =
    [
     0x0000, 0x1189, 0x2312, 0x329b, 0x4624, 0x57ad, 0x6536, 0x74bf, 0x8c48, 0x9dc1, 0xaf5a, 0xbed3,
     0xca6c, 0xdbe5, 0xe97e, 0xf8f7, 0x1081, 0x0108, 0x3393, 0x221a, 0x56a5, 0x472c, 0x75b7, 0x643e,
     0x9cc9, 0x8d40, 0xbfdb, 0xae52, 0xdaed, 0xcb64, 0xf9ff, 0xe876, 0x2102, 0x308b, 0x0210, 0x1399,
     0x6726, 0x76af, 0x4434, 0x55bd, 0xad4a, 0xbcc3, 0x8e58, 0x9fd1, 0xeb6e, 0xfae7, 0xc87c, 0xd9f5,
     0x3183, 0x200a, 0x1291, 0x0318, 0x77a7, 0x662e, 0x54b5, 0x453c, 0xbdcb, 0xac42, 0x9ed9, 0x8f50,
     0xfbef, 0xea66, 0xd8fd, 0xc974, 0x4204, 0x538d, 0x6116, 0x709f, 0x0420, 0x15a9, 0x2732, 0x36bb,
     0xce4c, 0xdfc5, 0xed5e, 0xfcd7, 0x8868, 0x99e1, 0xab7a, 0xbaf3, 0x5285, 0x430c, 0x7197, 0x601e,
     0x14a1, 0x0528, 0x37b3, 0x263a, 0xdecd, 0xcf44, 0xfddf, 0xec56, 0x98e9, 0x8960, 0xbbfb, 0xaa72,
     0x6306, 0x728f, 0x4014, 0x519d, 0x2522, 0x34ab, 0x0630, 0x17b9, 0xef4e, 0xfec7, 0xcc5c, 0xddd5,
     0xa96a, 0xb8e3, 0x8a78, 0x9bf1, 0x7387, 0x620e, 0x5095, 0x411c, 0x35a3, 0x242a, 0x16b1, 0x0738,
     0xffcf, 0xee46, 0xdcdd, 0xcd54, 0xb9eb, 0xa862, 0x9af9, 0x8b70, 0x8408, 0x9581, 0xa71a, 0xb693,
     0xc22c, 0xd3a5, 0xe13e, 0xf0b7, 0x0840, 0x19c9, 0x2b52, 0x3adb, 0x4e64, 0x5fed, 0x6d76, 0x7cff,
     0x9489, 0x8500, 0xb79b, 0xa612, 0xd2ad, 0xc324, 0xf1bf, 0xe036, 0x18c1, 0x0948, 0x3bd3, 0x2a5a,
     0x5ee5, 0x4f6c, 0x7df7, 0x6c7e, 0xa50a, 0xb483, 0x8618, 0x9791, 0xe32e, 0xf2a7, 0xc03c, 0xd1b5,
     0x2942, 0x38cb, 0x0a50, 0x1bd9, 0x6f66, 0x7eef, 0x4c74, 0x5dfd, 0xb58b, 0xa402, 0x9699, 0x8710,
     0xf3af, 0xe226, 0xd0bd, 0xc134, 0x39c3, 0x284a, 0x1ad1, 0x0b58, 0x7fe7, 0x6e6e, 0x5cf5, 0x4d7c,
     0xc60c, 0xd785, 0xe51e, 0xf497, 0x8028, 0x91a1, 0xa33a, 0xb2b3, 0x4a44, 0x5bcd, 0x6956, 0x78df,
     0x0c60, 0x1de9, 0x2f72, 0x3efb, 0xd68d, 0xc704, 0xf59f, 0xe416, 0x90a9, 0x8120, 0xb3bb, 0xa232,
     0x5ac5, 0x4b4c, 0x79d7, 0x685e, 0x1ce1, 0x0d68, 0x3ff3, 0x2e7a, 0xe70e, 0xf687, 0xc41c, 0xd595,
     0xa12a, 0xb0a3, 0x8238, 0x93b1, 0x6b46, 0x7acf, 0x4854, 0x59dd, 0x2d62, 0x3ceb, 0x0e70, 0x1ff9,
     0xf78f, 0xe606, 0xd49d, 0xc514, 0xb1ab, 0xa022, 0x92b9, 0x8330, 0x7bc7, 0x6a4e, 0x58d5, 0x495c,
     0x3de3, 0x2c6a, 0x1ef1, 0x0f78
    ]"

definition fcs_step :: "u16 \<Rightarrow> u8 \<Rightarrow> u16" where
  "fcs_step crc x = fcs_table ! unat ((crc XOR ucast x) AND 0xff) XOR drop_bit 8 crc"

definition fcs_crc :: "u8 list \<Rightarrow> u16" where
  "fcs_crc xs = foldl fcs_step 0 xs"

definition ZB_HTOLE16 :: "u16 \<Rightarrow> u8 list" where
  "ZB_HTOLE16 v = [ucast v, ucast (drop_bit 8 v)]"

definition zb_mac_fcs_add :: "zb_buf_t \<Rightarrow> zb_buf_t option" where
  "zb_mac_fcs_add b = do {
     bytes \<leftarrow> buf_read (data_buf b) (ZB_BUF_BEGIN b) (ZB_BUF_LEN b);
     let crc = fcs_crc bytes;
     (b, p) \<leftarrow> zb_buf_smart_alloc_right b 2;
     d \<leftarrow> arr_copy (data_buf b) p (ZB_HTOLE16 crc);
     Some (b\<lparr>data_buf := d\<rparr>) }"

section \<open>The bitwise reference\<close>

definition crc_bit :: "u16 \<Rightarrow> u16" where
  "crc_bit c = drop_bit 1 c XOR (if bit c 0 then 0x8408 else 0)"

definition crc_byte :: "u16 \<Rightarrow> u8 \<Rightarrow> u16" where
  "crc_byte c x = (crc_bit ^^ 8) (c XOR ucast x)"

lemma crc_bit_xor: "crc_bit (x XOR y) = crc_bit x XOR crc_bit y"
  by (simp add: crc_bit_def drop_bit_xor bit_xor_iff ac_simps xor.left_commute)

lemma crc_bits_xor: "(crc_bit ^^ n) (x XOR y) = (crc_bit ^^ n) x XOR (crc_bit ^^ n) y"
  by (induction n) (simp_all add: crc_bit_xor)

lemma crc_bits_high:
  "\<forall>i < n. \<not> bit x i \<Longrightarrow> (crc_bit ^^ n) x = drop_bit n x"
proof (induction n)
  case (Suc n)
  then have "(crc_bit ^^ n) x = drop_bit n x" and "\<not> bit x n" by simp_all
  then have "(crc_bit ^^ Suc n) x = crc_bit (drop_bit n x)" by simp
  also have "\<dots> = drop_bit (Suc n) x" using \<open>\<not> bit x n\<close> by (simp add: crc_bit_def bit_drop_bit_eq)
  finally show ?case .
qed simp

definition crc8 :: "u16 \<Rightarrow> u16" where
  "crc8 c = crc_bit (crc_bit (crc_bit (crc_bit (crc_bit (crc_bit (crc_bit (crc_bit c)))))))"

lemma crc8_eq: "(crc_bit ^^ 8) c = crc8 c"
  by (simp add: crc8_def eval_nat_numeral)

lemma table_bytes: "map crc8 byte_values = fcs_table"
  by (simp add: byte_values_def crc8_def crc_bit_def fcs_table_def)

lemma fcs_table_nth: "i < 256 \<Longrightarrow> fcs_table ! i = (crc_bit ^^ 8) (of_nat i)"
  unfolding table_bytes [symmetric] by (simp add: byte_values_table crc8_eq)

text \<open>One step of the table is eight steps of the bitwise CRC.\<close>

lemma low_byte: "(0xff :: u16) = mask 8"
  by (simp add: mask_eq_exp_minus_1)

lemma fcs_step_byte: "fcs_step c x = crc_byte c x"
proof -
  let ?d = "c XOR ucast x :: u16"
  let ?l = "?d AND 0xff" and ?h = "push_bit 8 (drop_bit 8 c)"
  have split: "?d = ?l XOR ?h"
    unfolding low_byte by (rule bit_word_eqI) (auto simp: bit_simps dest: bit_imp_le_length)
  have l: "unat ?l < 256" unfolding low_byte using and_mask_less' [of 8 ?d] by (simp add: word_less_nat_alt)
  have h: "(crc_bit ^^ 8) ?h = drop_bit 8 c"
  proof -
    have "(crc_bit ^^ 8) ?h = drop_bit 8 ?h" by (rule crc_bits_high) (simp add: bit_simps)
    also have "\<dots> = drop_bit 8 c" by (rule bit_word_eqI) (auto simp: bit_simps dest: bit_imp_le_length)
    finally show ?thesis .
  qed
  have "crc_byte c x = (crc_bit ^^ 8) ?l XOR (crc_bit ^^ 8) ?h"
    unfolding crc_byte_def by (subst split) (rule crc_bits_xor)
  also have "\<dots> = fcs_step c x"
    unfolding h fcs_step_def using fcs_table_nth [OF l] by simp
  finally show ?thesis ..
qed

lemma fcs_crc_bitwise: "fcs_crc xs = foldl crc_byte 0 xs"
proof -
  have "fcs_step = crc_byte" by (intro ext) (rule fcs_step_byte)
  then show ?thesis by (simp add: fcs_crc_def)
qed

text \<open>The check sequence, appended low byte first, takes the CRC back to zero.\<close>

lemma fcs_residue: "fcs_crc (xs @ ZB_HTOLE16 (fcs_crc xs)) = 0"
proof -
  let ?c = "fcs_crc xs"
  have t0: "fcs_table ! 0 = 0" by (simp add: fcs_table_def)
  have "(?c XOR ucast (ucast ?c :: u8)) AND 0xff = 0"
    unfolding low_byte by (rule bit_word_eqI) (auto simp: bit_simps)
  then have lo: "fcs_step ?c (ucast ?c) = drop_bit 8 ?c" unfolding fcs_step_def by (simp add: t0)
  have "drop_bit 8 ?c XOR ucast (ucast (drop_bit 8 ?c) :: u8) = 0"
    by (rule bit_word_eqI) (auto simp: bit_simps dest: bit_imp_le_length)
  moreover have "drop_bit 8 (drop_bit 8 ?c) = 0" by (rule bit_word_eqI) (auto simp: bit_simps)
  ultimately have "fcs_step (drop_bit 8 ?c) (ucast (drop_bit 8 ?c)) = 0"
    unfolding fcs_step_def by (simp add: t0)
  with lo show ?thesis by (simp add: fcs_crc_def ZB_HTOLE16_def)
qed

section \<open>Properties\<close>

text \<open>
  C36. Adding the frame check sequence to a frame with room for it appends exactly the two bytes
  of the bitwise CRC with polynomial 0x8408 of the frame, low byte first, leaves the frame in
  front of them, and makes the CRC over the whole frame zero, which is what a receiver checks.
\<close>

theorem fcs_add_correct:
  assumes "buf_wf b" and "ZB_BUF_BEGIN b + ZB_BUF_LEN b + 2 \<le> ZB_IO_BUF_SIZE" and "2 + ZB_BUF_LEN b < ZB_IO_BUF_SIZE"
  shows "\<exists>b'. zb_mac_fcs_add b = Some b' \<and> buf_wf b'
    \<and> payload b' = payload b @ ZB_HTOLE16 (foldl crc_byte 0 (payload b))
    \<and> foldl crc_byte 0 (payload b') = 0"
proof -
  let ?n = "ZB_BUF_LEN b" and ?p = "ZB_BUF_BEGIN b"
  note W = buf_wfD [OF assms(1)]
  have rd: "buf_read (data_buf b) ?p ?n = Some (payload b)"
    using W by (simp add: buf_read_def payload_def)
  let ?b = "b\<lparr>hdr := (hdr b)\<lparr>hdr_len := hdr_len (hdr b) + 2\<rparr>\<rparr>"
  have al: "zb_buf_smart_alloc_right b 2 = Some (?b, ?p + ?n)"
    using assms(3) by (simp add: zb_buf_smart_alloc_right_def Let_def)
  have L: "ZB_BUF_LEN ?b = ?n + 2"
    using assms(3) unat_add_8 [of "hdr_len (hdr b)" 2] by (simp add: ZB_BUF_LEN_def ZB_IO_BUF_SIZE_def)
  have B: "ZB_BUF_BEGIN ?b = ?p" by (simp add: ZB_BUF_BEGIN_def)
  define f where "f = ZB_HTOLE16 (fcs_crc (payload b))"
  let ?d = "take (?p + ?n) (data_buf b) @ f @ drop (?p + ?n + 2) (data_buf b)"
  have lf: "length f = 2" by (simp add: f_def ZB_HTOLE16_def)
  have cp: "arr_copy (data_buf b) (?p + ?n) f = Some ?d"
    using assms(2) W lf by (simp add: arr_copy_def ZB_IO_BUF_SIZE_def)
  let ?b' = "?b\<lparr>data_buf := ?d\<rparr>"
  have B': "ZB_BUF_BEGIN ?b' = ?p" "ZB_BUF_LEN ?b' = ?n + 2" using B L by (simp_all add: ZB_BUF_BEGIN_def ZB_BUF_LEN_def)
  have run: "zb_mac_fcs_add b = Some ?b'"
    using rd al cp by (simp add: zb_mac_fcs_add_def Let_def flip: f_def)
  have "length ?d = 148" using W lf assms(2) by (simp add: ZB_IO_BUF_SIZE_def)
  then have wf': "buf_wf ?b'" unfolding buf_wf_def B' using assms(2) by (simp add: ZB_IO_BUF_SIZE_def)
  have "payload ?b' = take (?n + 2) (drop ?p ?d)" unfolding payload_def [of ?b'] B' by simp
  also have "\<dots> = payload b @ f" using W lf by (simp add: payload_def drop_take)
  finally have pl: "payload ?b' = payload b @ f" .
  have f: "f = ZB_HTOLE16 (foldl crc_byte 0 (payload b))" by (simp add: f_def fcs_crc_bitwise)
  have "foldl crc_byte 0 (payload b @ f) = 0"
    using fcs_residue [of "payload b"] unfolding f fcs_crc_bitwise .
  with run wf' pl f show ?thesis by (intro exI [of _ ?b']) simp
qed

theorem fcs_add_correct_witness:
  "\<exists>b'. zb_mac_fcs_add \<lparr>hdr = hdr_zero\<lparr>hdr_len := 3\<rparr>, data_buf = [1, 2, 3] @ replicate 145 0\<rparr> = Some b'
    \<and> foldl crc_byte 0 (payload b') = 0"
proof -
  let ?b = "\<lparr>hdr = hdr_zero\<lparr>hdr_len := 3\<rparr>, data_buf = [1, 2, 3] @ replicate 145 0\<rparr> :: zb_buf_t"
  have "ZB_BUF_LEN ?b = 3" "ZB_BUF_BEGIN ?b = 0" by (simp_all add: ZB_BUF_LEN_def ZB_BUF_BEGIN_def hdr_zero_def)
  moreover from this have "buf_wf ?b" by (simp add: buf_wf_def ZB_IO_BUF_SIZE_def)
  ultimately show ?thesis using fcs_add_correct [of ?b] by (auto simp: ZB_IO_BUF_SIZE_def)
qed

end
