(* ===== verification/Ccm.thy ===== *)
theory Ccm
  imports Bufpool
begin

text \<open>
  The CCM* transformations of \<^verbatim>\<open>secur/secur_ccm.c\<close> and the AES-128 block cipher they use, for the
  fixed parameters of \<^verbatim>\<open>include/zb_config.h\<close>: a length field of two bytes, a nonce of 13 bytes
  and an authentication tag of four. Byte arrays are lists; the length argument of a pointer is
  the length of its list. The local array of the decryption has the size of a packet buffer, and
  both transformations write sixteen bytes where the tag needs four.
\<close>

section \<open>AES-128\<close>

definition shift_rows_table :: "nat list" where
  "shift_rows_table = [
     0, 5, 10, 15, 4, 9, 14, 3, 8, 13, 2, 7, 12, 1, 6, 11]"

definition lookup_rcon :: "u8 list" where
  "lookup_rcon = [
     0x8d, 0x01, 0x02, 0x04, 0x08, 0x10, 0x20, 0x40, 0x80, 0x1b, 0x36, 0x6c, 0xd8, 0xab, 0x4d, 0x9a]"

definition lookup_sbox :: "u8 list" where
  "lookup_sbox = [
     0x63, 0x7c, 0x77, 0x7b, 0xf2, 0x6b, 0x6f, 0xc5, 0x30, 0x01, 0x67, 0x2b, 0xfe, 0xd7, 0xab, 0x76,
     0xca, 0x82, 0xc9, 0x7d, 0xfa, 0x59, 0x47, 0xf0, 0xad, 0xd4, 0xa2, 0xaf, 0x9c, 0xa4, 0x72, 0xc0,
     0xb7, 0xfd, 0x93, 0x26, 0x36, 0x3f, 0xf7, 0xcc, 0x34, 0xa5, 0xe5, 0xf1, 0x71, 0xd8, 0x31, 0x15,
     0x04, 0xc7, 0x23, 0xc3, 0x18, 0x96, 0x05, 0x9a, 0x07, 0x12, 0x80, 0xe2, 0xeb, 0x27, 0xb2, 0x75,
     0x09, 0x83, 0x2c, 0x1a, 0x1b, 0x6e, 0x5a, 0xa0, 0x52, 0x3b, 0xd6, 0xb3, 0x29, 0xe3, 0x2f, 0x84,
     0x53, 0xd1, 0x00, 0xed, 0x20, 0xfc, 0xb1, 0x5b, 0x6a, 0xcb, 0xbe, 0x39, 0x4a, 0x4c, 0x58, 0xcf,
     0xd0, 0xef, 0xaa, 0xfb, 0x43, 0x4d, 0x33, 0x85, 0x45, 0xf9, 0x02, 0x7f, 0x50, 0x3c, 0x9f, 0xa8,
     0x51, 0xa3, 0x40, 0x8f, 0x92, 0x9d, 0x38, 0xf5, 0xbc, 0xb6, 0xda, 0x21, 0x10, 0xff, 0xf3, 0xd2,
     0xcd, 0x0c, 0x13, 0xec, 0x5f, 0x97, 0x44, 0x17, 0xc4, 0xa7, 0x7e, 0x3d, 0x64, 0x5d, 0x19, 0x73,
     0x60, 0x81, 0x4f, 0xdc, 0x22, 0x2a, 0x90, 0x88, 0x46, 0xee, 0xb8, 0x14, 0xde, 0x5e, 0x0b, 0xdb,
     0xe0, 0x32, 0x3a, 0x0a, 0x49, 0x06, 0x24, 0x5c, 0xc2, 0xd3, 0xac, 0x62, 0x91, 0x95, 0xe4, 0x79,
     0xe7, 0xc8, 0x37, 0x6d, 0x8d, 0xd5, 0x4e, 0xa9, 0x6c, 0x56, 0xf4, 0xea, 0x65, 0x7a, 0xae, 0x08,
     0xba, 0x78, 0x25, 0x2e, 0x1c, 0xa6, 0xb4, 0xc6, 0xe8, 0xdd, 0x74, 0x1f, 0x4b, 0xbd, 0x8b, 0x8a,
     0x70, 0x3e, 0xb5, 0x66, 0x48, 0x03, 0xf6, 0x0e, 0x61, 0x35, 0x57, 0xb9, 0x86, 0xc1, 0x1d, 0x9e,
     0xe1, 0xf8, 0x98, 0x11, 0x69, 0xd9, 0x8e, 0x94, 0x9b, 0x1e, 0x87, 0xe9, 0xce, 0x55, 0x28, 0xdf,
     0x8c, 0xa1, 0x89, 0x0d, 0xbf, 0xe6, 0x42, 0x68, 0x41, 0x99, 0x2d, 0x0f, 0xb0, 0x54, 0xbb, 0x16]"

definition lookup_g2 :: "u8 list" where
  "lookup_g2 = [
     0x00, 0x02, 0x04, 0x06, 0x08, 0x0a, 0x0c, 0x0e, 0x10, 0x12, 0x14, 0x16, 0x18, 0x1a, 0x1c, 0x1e,
     0x20, 0x22, 0x24, 0x26, 0x28, 0x2a, 0x2c, 0x2e, 0x30, 0x32, 0x34, 0x36, 0x38, 0x3a, 0x3c, 0x3e,
     0x40, 0x42, 0x44, 0x46, 0x48, 0x4a, 0x4c, 0x4e, 0x50, 0x52, 0x54, 0x56, 0x58, 0x5a, 0x5c, 0x5e,
     0x60, 0x62, 0x64, 0x66, 0x68, 0x6a, 0x6c, 0x6e, 0x70, 0x72, 0x74, 0x76, 0x78, 0x7a, 0x7c, 0x7e,
     0x80, 0x82, 0x84, 0x86, 0x88, 0x8a, 0x8c, 0x8e, 0x90, 0x92, 0x94, 0x96, 0x98, 0x9a, 0x9c, 0x9e,
     0xa0, 0xa2, 0xa4, 0xa6, 0xa8, 0xaa, 0xac, 0xae, 0xb0, 0xb2, 0xb4, 0xb6, 0xb8, 0xba, 0xbc, 0xbe,
     0xc0, 0xc2, 0xc4, 0xc6, 0xc8, 0xca, 0xcc, 0xce, 0xd0, 0xd2, 0xd4, 0xd6, 0xd8, 0xda, 0xdc, 0xde,
     0xe0, 0xe2, 0xe4, 0xe6, 0xe8, 0xea, 0xec, 0xee, 0xf0, 0xf2, 0xf4, 0xf6, 0xf8, 0xfa, 0xfc, 0xfe,
     0x1b, 0x19, 0x1f, 0x1d, 0x13, 0x11, 0x17, 0x15, 0x0b, 0x09, 0x0f, 0x0d, 0x03, 0x01, 0x07, 0x05,
     0x3b, 0x39, 0x3f, 0x3d, 0x33, 0x31, 0x37, 0x35, 0x2b, 0x29, 0x2f, 0x2d, 0x23, 0x21, 0x27, 0x25,
     0x5b, 0x59, 0x5f, 0x5d, 0x53, 0x51, 0x57, 0x55, 0x4b, 0x49, 0x4f, 0x4d, 0x43, 0x41, 0x47, 0x45,
     0x7b, 0x79, 0x7f, 0x7d, 0x73, 0x71, 0x77, 0x75, 0x6b, 0x69, 0x6f, 0x6d, 0x63, 0x61, 0x67, 0x65,
     0x9b, 0x99, 0x9f, 0x9d, 0x93, 0x91, 0x97, 0x95, 0x8b, 0x89, 0x8f, 0x8d, 0x83, 0x81, 0x87, 0x85,
     0xbb, 0xb9, 0xbf, 0xbd, 0xb3, 0xb1, 0xb7, 0xb5, 0xab, 0xa9, 0xaf, 0xad, 0xa3, 0xa1, 0xa7, 0xa5,
     0xdb, 0xd9, 0xdf, 0xdd, 0xd3, 0xd1, 0xd7, 0xd5, 0xcb, 0xc9, 0xcf, 0xcd, 0xc3, 0xc1, 0xc7, 0xc5,
     0xfb, 0xf9, 0xff, 0xfd, 0xf3, 0xf1, 0xf7, 0xf5, 0xeb, 0xe9, 0xef, 0xed, 0xe3, 0xe1, 0xe7, 0xe5]"

definition lookup_g3 :: "u8 list" where
  "lookup_g3 = [
     0x00, 0x03, 0x06, 0x05, 0x0c, 0x0f, 0x0a, 0x09, 0x18, 0x1b, 0x1e, 0x1d, 0x14, 0x17, 0x12, 0x11,
     0x30, 0x33, 0x36, 0x35, 0x3c, 0x3f, 0x3a, 0x39, 0x28, 0x2b, 0x2e, 0x2d, 0x24, 0x27, 0x22, 0x21,
     0x60, 0x63, 0x66, 0x65, 0x6c, 0x6f, 0x6a, 0x69, 0x78, 0x7b, 0x7e, 0x7d, 0x74, 0x77, 0x72, 0x71,
     0x50, 0x53, 0x56, 0x55, 0x5c, 0x5f, 0x5a, 0x59, 0x48, 0x4b, 0x4e, 0x4d, 0x44, 0x47, 0x42, 0x41,
     0xc0, 0xc3, 0xc6, 0xc5, 0xcc, 0xcf, 0xca, 0xc9, 0xd8, 0xdb, 0xde, 0xdd, 0xd4, 0xd7, 0xd2, 0xd1,
     0xf0, 0xf3, 0xf6, 0xf5, 0xfc, 0xff, 0xfa, 0xf9, 0xe8, 0xeb, 0xee, 0xed, 0xe4, 0xe7, 0xe2, 0xe1,
     0xa0, 0xa3, 0xa6, 0xa5, 0xac, 0xaf, 0xaa, 0xa9, 0xb8, 0xbb, 0xbe, 0xbd, 0xb4, 0xb7, 0xb2, 0xb1,
     0x90, 0x93, 0x96, 0x95, 0x9c, 0x9f, 0x9a, 0x99, 0x88, 0x8b, 0x8e, 0x8d, 0x84, 0x87, 0x82, 0x81,
     0x9b, 0x98, 0x9d, 0x9e, 0x97, 0x94, 0x91, 0x92, 0x83, 0x80, 0x85, 0x86, 0x8f, 0x8c, 0x89, 0x8a,
     0xab, 0xa8, 0xad, 0xae, 0xa7, 0xa4, 0xa1, 0xa2, 0xb3, 0xb0, 0xb5, 0xb6, 0xbf, 0xbc, 0xb9, 0xba,
     0xfb, 0xf8, 0xfd, 0xfe, 0xf7, 0xf4, 0xf1, 0xf2, 0xe3, 0xe0, 0xe5, 0xe6, 0xef, 0xec, 0xe9, 0xea,
     0xcb, 0xc8, 0xcd, 0xce, 0xc7, 0xc4, 0xc1, 0xc2, 0xd3, 0xd0, 0xd5, 0xd6, 0xdf, 0xdc, 0xd9, 0xda,
     0x5b, 0x58, 0x5d, 0x5e, 0x57, 0x54, 0x51, 0x52, 0x43, 0x40, 0x45, 0x46, 0x4f, 0x4c, 0x49, 0x4a,
     0x6b, 0x68, 0x6d, 0x6e, 0x67, 0x64, 0x61, 0x62, 0x73, 0x70, 0x75, 0x76, 0x7f, 0x7c, 0x79, 0x7a,
     0x3b, 0x38, 0x3d, 0x3e, 0x37, 0x34, 0x31, 0x32, 0x23, 0x20, 0x25, 0x26, 0x2f, 0x2c, 0x29, 0x2a,
     0x0b, 0x08, 0x0d, 0x0e, 0x07, 0x04, 0x01, 0x02, 0x13, 0x10, 0x15, 0x16, 0x1f, 0x1c, 0x19, 0x1a]"

text \<open>\<^verbatim>\<open>xor\<close>: the bytes of \<open>b\<close> into those of \<open>a\<close>.\<close>

definition xor_bytes :: "u8 list \<Rightarrow> u8 list \<Rightarrow> u8 list" where
  "xor_bytes a b = map2 (XOR) a b"

definition xor16 :: "u8 list \<Rightarrow> u8 list \<Rightarrow> u8 list" where
  "xor16 v1 v2 = map2 (XOR) (take 16 v1) (take 16 v2)"

definition xor_round_key :: "u8 list \<Rightarrow> u8 list \<Rightarrow> nat \<Rightarrow> u8 list" where
  "xor_round_key state keys rnd = xor_bytes state (take 16 (drop (rnd * 16) keys))"

definition sub_bytes :: "u8 list \<Rightarrow> u8 list" where
  "sub_bytes a = map (\<lambda>v. lookup_sbox ! unat v) a"

fun key_schedule_core :: "u8 list \<Rightarrow> nat \<Rightarrow> u8 list" where
  "key_schedule_core [a0, a1, a2, a3] i =
     (case sub_bytes [a1, a2, a3, a0] of b # bs \<Rightarrow> (b XOR lookup_rcon ! i) # bs | [] \<Rightarrow> [])"
| "key_schedule_core a i = a"

text \<open>One word of the key schedule appended to \<open>keys\<close>: \<open>t\<close> and the word four words back.\<close>

definition expand_word :: "u8 list \<Rightarrow> u8 list \<Rightarrow> u8 list" where
  "expand_word keys t = keys @ xor_bytes t (take 4 (drop (length keys - 16) keys))"

definition last_word :: "u8 list \<Rightarrow> u8 list" where
  "last_word keys = drop (length keys - 4) keys"

fun expand_key_loop :: "nat \<Rightarrow> nat \<Rightarrow> u8 list \<Rightarrow> u8 list" where
  "expand_key_loop 0 i keys = keys"
| "expand_key_loop (Suc n) i keys =
     (let keys = expand_word keys (key_schedule_core (last_word keys) i);
          keys = expand_word keys (last_word keys);
          keys = expand_word keys (last_word keys);
          keys = expand_word keys (last_word keys)
      in expand_key_loop n (i + 1) keys)"

text \<open>The loop runs while there are fewer than 176 bytes, from 16 in steps of 16: ten times.\<close>

definition expand_key :: "u8 list \<Rightarrow> u8 list" where
  "expand_key key = expand_key_loop 10 1 (take 16 key)"

definition shift_rows :: "u8 list \<Rightarrow> u8 list" where
  "shift_rows state = map (\<lambda>j. state ! j) shift_rows_table"

definition mix_col :: "u8 list \<Rightarrow> u8 list" where
  "mix_col s =
     (let a0 = s ! 0; a1 = s ! 1; a2 = s ! 2; a3 = s ! 3
      in [lookup_g2 ! unat a0 XOR lookup_g3 ! unat a1 XOR a2 XOR a3,
          lookup_g2 ! unat a1 XOR lookup_g3 ! unat a2 XOR a3 XOR a0,
          lookup_g2 ! unat a2 XOR lookup_g3 ! unat a3 XOR a0 XOR a1,
          lookup_g2 ! unat a3 XOR lookup_g3 ! unat a0 XOR a1 XOR a2])"

definition mix_cols :: "u8 list \<Rightarrow> u8 list" where
  "mix_cols s = mix_col (take 4 s) @ mix_col (take 4 (drop 4 s)) @ mix_col (take 4 (drop 8 s)) @ mix_col (drop 12 s)"

fun aes_rounds :: "nat \<Rightarrow> nat \<Rightarrow> u8 list \<Rightarrow> u8 list \<Rightarrow> u8 list" where
  "aes_rounds 0 i keys c = c"
| "aes_rounds (Suc n) i keys c =
     aes_rounds n (i + 1) keys (xor_round_key (mix_cols (shift_rows (sub_bytes c))) keys (i + 1))"

definition aes128 :: "u8 list \<Rightarrow> u8 list \<Rightarrow> u8 list" where
  "aes128 key msg =
     (let keys = expand_key key;
          c = xor_round_key (take 16 msg) keys 0;
          c = aes_rounds 9 0 keys c
      in xor_round_key (shift_rows (sub_bytes c)) keys 10)"

section \<open>CCM*\<close>

definition ZB_CCM_L :: nat where [zb_config]: "ZB_CCM_L = 2"
definition ZB_CCM_NONCE_LEN :: nat where [zb_config]: "ZB_CCM_NONCE_LEN = 13"
definition ZB_CCM_M :: nat where [zb_config]: "ZB_CCM_M = 4"

definition ZB_HTOBE16 :: "u16 \<Rightarrow> u8 list" where
  "ZB_HTOBE16 v = [ucast (drop_bit 8 v), ucast v]"

text \<open>Padding with zeros to sixteen bytes: \<^verbatim>\<open>ZB_MEMSET\<close> and \<^verbatim>\<open>ZB_MEMCPY\<close> of a part of a block.\<close>

definition pad16 :: "u8 list \<Rightarrow> u8 list" where
  "pad16 xs = xs @ replicate (16 - length xs) 0"

text \<open>The loop over the blocks of a string and its last, padded block.\<close>

function auth_blocks :: "u8 list \<Rightarrow> u8 list \<Rightarrow> u8 list \<Rightarrow> u8 list" where
  "auth_blocks key t p =
     (if 16 \<le> length p then auth_blocks key (aes128 key (xor16 t p)) (drop 16 p)
      else if p \<noteq> [] then aes128 key (xor16 t (pad16 p))
      else t)"
  by pat_completeness auto

termination auth_blocks
  by (relation "measure (\<lambda>(k, t, p). length p)") auto

declare auth_blocks.simps [simp del]

definition auth_trans :: "nat \<Rightarrow> u8 list \<Rightarrow> u8 list \<Rightarrow> u8 list \<Rightarrow> u8 list \<Rightarrow> u8 list" where
  "auth_trans ccm_m key nonce string_a string_m =
     (let b0 = (push_bit 6 1 OR of_nat (ZB_CCM_L - 1) OR push_bit 3 (of_nat ((ccm_m - 2) div 2)) :: u8);
          t = aes128 key ((b0 # take ZB_CCM_NONCE_LEN nonce) @ ZB_HTOBE16 (of_nat (length string_m)));
          tmp = pad16 (ZB_HTOBE16 (of_nat (length string_a)) @ take 14 string_a);
          t = aes128 key (xor16 t tmp);
          t = auth_blocks key t (drop 14 string_a)
      in auth_blocks key t string_m)"

definition ccm_counter :: "u8 list \<Rightarrow> u16 \<Rightarrow> u8 list" where
  "ccm_counter nonce i = (of_nat (ZB_CCM_L - 1) # take ZB_CCM_NONCE_LEN nonce) @ ZB_HTOBE16 i"

text \<open>The bytes the loop of \<^verbatim>\<open>encrypt_trans\<close> leaves for a string, from the counter \<open>i\<close>.\<close>

function encrypt_blocks :: "u8 list \<Rightarrow> u8 list \<Rightarrow> u16 \<Rightarrow> u8 list \<Rightarrow> u8 list" where
  "encrypt_blocks key nonce i p =
     (let eai = aes128 key (ccm_counter nonce i) in
      if 16 \<le> length p then xor16 eai p @ encrypt_blocks key nonce (i + 1) (drop 16 p)
      else if p \<noteq> [] then take (length p) (xor16 eai (pad16 p))
      else [])"
  by pat_completeness auto

termination encrypt_blocks
  by (relation "measure (\<lambda>(k, n, i, p). length p)") auto

declare encrypt_blocks.simps [simp del]

text \<open>What \<^verbatim>\<open>encrypt_trans\<close> writes: the text, and sixteen bytes of which the first \<open>ccm_m\<close> are the tag.\<close>

definition encrypt_trans :: "nat \<Rightarrow> u8 list \<Rightarrow> u8 list \<Rightarrow> u8 list \<Rightarrow> u8 list \<Rightarrow> u8 list" where
  "encrypt_trans ccm_m key nonce string_m t =
     encrypt_blocks key nonce 1 string_m @ xor16 (aes128 key (ccm_counter nonce 0)) (pad16 (take ccm_m t))"

definition zb_ccm_encrypt_n_auth ::
  "u8 list \<Rightarrow> u8 list \<Rightarrow> u8 list \<Rightarrow> u8 list \<Rightarrow> zb_buf_t \<Rightarrow> (zb_ret \<times> zb_buf_t) option" where
  "zb_ccm_encrypt_n_auth key nonce string_a string_m crypted_text = do {
     let t = auth_trans ZB_CCM_M key nonce string_a string_m;
     (b, c_text) \<leftarrow> zb_buf_initial_alloc crypted_text (of_nat (length string_a + length string_m + ZB_CCM_M));
     d \<leftarrow> arr_copy (data_buf b) (c_text + length string_a) (encrypt_trans ZB_CCM_M key nonce string_m t);
     d \<leftarrow> arr_copy d (ZB_BUF_BEGIN b) string_a;
     Some (RET_OK, b\<lparr>data_buf := d\<rparr>) }"

definition zb_ccm_decrypt_n_auth ::
  "u8 list \<Rightarrow> u8 list \<Rightarrow> zb_buf_t \<Rightarrow> nat \<Rightarrow> nat \<Rightarrow> (zb_ret \<times> zb_buf_t) option" where
  "zb_ccm_decrypt_n_auth key nonce b string_a_len string_c_len = do {
     let n = unat (ucast (of_nat string_c_len - of_nat ZB_CCM_M :: u32) :: u16);
     c \<leftarrow> buf_read (data_buf b) (ZB_BUF_BEGIN b + string_a_len) n;
     u \<leftarrow> buf_read (data_buf b) (ZB_BUF_BEGIN b + string_a_len + string_c_len - ZB_CCM_M) ZB_CCM_M;
     let dec = encrypt_trans ZB_CCM_M key nonce c u;
     ZB_ASSERT (length dec \<le> ZB_IO_BUF_SIZE);
     a \<leftarrow> buf_read (data_buf b) (ZB_BUF_BEGIN b) string_a_len;
     let t = auth_trans ZB_CCM_M key nonce a (take n dec);
     let b = b\<lparr>hdr := (hdr b)\<lparr>hdr_len := hdr_len (hdr b) - of_nat ZB_CCM_M\<rparr>\<rparr>;
     if take ZB_CCM_M (drop n dec) = take ZB_CCM_M t then do {
       d \<leftarrow> arr_copy (data_buf b) (ZB_BUF_BEGIN b + string_a_len) (take n dec);
       Some (RET_OK, b\<lparr>data_buf := d\<rparr>) }
     else do {
       d \<leftarrow> arr_copy (data_buf b) (ZB_BUF_BEGIN b + string_a_len) (replicate n 0xeb);
       Some (RET_ERROR, b\<lparr>data_buf := d\<rparr>) } }"

definition zb_ccm_decrypt_n_auth_stdsecur ::
  "u8 list \<Rightarrow> u8 list \<Rightarrow> zb_buf_t \<Rightarrow> nat \<Rightarrow> nat \<Rightarrow> (zb_ret \<times> zb_buf_t) option" where
  "zb_ccm_decrypt_n_auth_stdsecur key nonce b string_a_len string_m_len =
     zb_ccm_decrypt_n_auth key nonce b string_a_len string_m_len"

section \<open>The tables of the cipher\<close>

text \<open>Doubling in the field of AES, the polynomial 0x11b.\<close>

definition xtime :: "u8 \<Rightarrow> u8" where
  "xtime x = push_bit 1 x XOR (if bit x 7 then 0x1b else 0)"

lemma g2_bytes: "map xtime byte_values = lookup_g2"
  by (simp add: byte_values_def xtime_def lookup_g2_def)

lemma g3_bytes: "map (\<lambda>x. xtime x XOR x) byte_values = lookup_g3"
  by (simp add: byte_values_def xtime_def lookup_g3_def)

lemma g2_xtime: "lookup_g2 ! unat x = xtime x" and g3_xtime: "lookup_g3 ! unat x = xtime x XOR x"
  unfolding g2_bytes [symmetric] g3_bytes [symmetric] by (rule byte_values_byte)+

section \<open>Lengths\<close>

lemma length_core: "length t = 4 \<Longrightarrow> length (key_schedule_core t i) = 4"
  by (cases "(t, i)" rule: key_schedule_core.cases) (auto simp: sub_bytes_def)

lemma length_expand_word:
  "length t = 4 \<Longrightarrow> 16 \<le> length keys \<Longrightarrow> length (expand_word keys t) = length keys + 4"
  by (simp add: expand_word_def xor_bytes_def)

lemma length_last_word: "16 \<le> length keys \<Longrightarrow> length (last_word keys) = 4"
  by (simp add: last_word_def)

lemma length_expand_loop: "16 \<le> length keys \<Longrightarrow> length (expand_key_loop n i keys) = length keys + 16 * n"
  by (induction n i keys rule: expand_key_loop.induct)
    (simp_all add: Let_def length_expand_word length_last_word length_core)

lemma length_aes [simp]: "length key = 16 \<Longrightarrow> length (aes128 key msg) = 16"
  by (simp add: aes128_def Let_def xor_round_key_def xor_bytes_def shift_rows_def shift_rows_table_def
      expand_key_def length_expand_loop)

lemma length_xor16 [simp]: "length (xor16 a b) = min (min 16 (length a)) (min 16 (length b))"
  by (simp add: xor16_def)

lemma length_pad16 [simp]: "length (pad16 xs) = max 16 (length xs)"
  by (simp add: pad16_def)

lemma length_encrypt_blocks [simp]: "length key = 16 \<Longrightarrow> length (encrypt_blocks key nonce i p) = length p"
proof (induction key nonce i p rule: encrypt_blocks.induct)
  case (1 key nonce i p)
  show ?case
    by (subst encrypt_blocks.simps) (use 1 in \<open>auto simp: Let_def min_def max_def\<close>)
qed

lemma length_auth_blocks: "length key = 16 \<Longrightarrow> length t = 16 \<Longrightarrow> length (auth_blocks key t p) = 16"
proof (induction key t p rule: auth_blocks.induct)
  case (1 key t p)
  show ?case by (subst auth_blocks.simps) (use 1 in auto)
qed

lemma length_auth_trans [simp]: "length key = 16 \<Longrightarrow> length (auth_trans m key nonce a s) = 16"
  by (simp add: auth_trans_def Let_def length_auth_blocks)

section \<open>Decryption undoes encryption\<close>

lemma xor16_nth: "i < 16 \<Longrightarrow> i < length a \<Longrightarrow> i < length b \<Longrightarrow> xor16 a b ! i = a ! i XOR b ! i"
  by (simp add: xor16_def)

lemma xor_twice: "x XOR (x XOR y) = (y :: u8)"
  by (simp flip: xor.assoc)

lemma xor16_twice:
  assumes "length e = 16" and "length p = 16"
  shows "xor16 e (xor16 e p @ q) = p"
proof (rule nth_equalityI)
  show "length (xor16 e (xor16 e p @ q)) = length p" using assms by simp
  fix i assume "i < length (xor16 e (xor16 e p @ q))"
  then have "i < 16" using assms by simp
  then show "xor16 e (xor16 e p @ q) ! i = p ! i"
    using assms by (simp add: xor16_nth nth_append xor_twice)
qed

lemma xor16_take [simp]: "xor16 e (take 16 p) = xor16 e p"
  by (simp add: xor16_def)

lemma xor16_part_twice:
  assumes "length e = 16" and "n \<le> 16" and "length p = n"
  shows "take n (xor16 e (pad16 (take n (xor16 e (pad16 p))))) = p"
proof (rule nth_equalityI)
  show "length (take n (xor16 e (pad16 (take n (xor16 e (pad16 p)))))) = length p" using assms by simp
  fix i assume "i < length (take n (xor16 e (pad16 (take n (xor16 e (pad16 p))))))"
  then have i: "i < n" using assms by simp
  have pad: "i < length xs \<Longrightarrow> pad16 xs ! i = xs ! i" for xs by (simp add: pad16_def nth_append)
  from i assms pad show "take n (xor16 e (pad16 (take n (xor16 e (pad16 p))))) ! i = p ! i"
    by (simp add: xor16_nth xor_twice)
qed

lemma encrypt_blocks_twice:
  "length key = 16 \<Longrightarrow> encrypt_blocks key nonce i (encrypt_blocks key nonce i p) = p"
proof (induction key nonce i p rule: encrypt_blocks.induct)
  case (1 key nonce i p)
  let ?e = "aes128 key (ccm_counter nonce i)"
  have e: "length ?e = 16" using 1 by simp
  show ?case
  proof (cases "16 \<le> length p")
    case True
    let ?r = "encrypt_blocks key nonce (i + 1) (drop 16 p)"
    have enc: "encrypt_blocks key nonce i p = xor16 ?e p @ ?r"
      using True by (subst encrypt_blocks.simps) (simp add: Let_def)
    have l: "length (xor16 ?e p) = 16" using True e by simp
    have "encrypt_blocks key nonce i (xor16 ?e p @ ?r)
        = xor16 ?e (xor16 ?e p @ ?r) @ encrypt_blocks key nonce (i + 1) (drop 16 (xor16 ?e p @ ?r))"
      using l by (subst encrypt_blocks.simps) (simp add: Let_def)
    also have "drop 16 (xor16 ?e p @ ?r) = ?r" using l by simp
    also have "encrypt_blocks key nonce (i + 1) ?r = drop 16 p" using 1 True by blast
    also have "xor16 ?e (xor16 ?e p @ ?r) = take 16 p"
      using xor16_twice [OF e, of "take 16 p" ?r] True by simp
    finally show ?thesis unfolding enc by simp
  next
    case False
    show ?thesis
    proof (cases "p = []")
      case True
      then show ?thesis by (simp add: encrypt_blocks.simps [of _ _ _ "[]"])
    next
      case ne: False
      have enc: "encrypt_blocks key nonce i p = take (length p) (xor16 ?e (pad16 p))"
        using False ne by (subst encrypt_blocks.simps) (simp add: Let_def)
      let ?c = "take (length p) (xor16 ?e (pad16 p))"
      have lc: "length ?c = length p" using e False by simp
      then have "?c \<noteq> []" using ne by (metis length_0_conv)
      then have "encrypt_blocks key nonce i ?c = take (length ?c) (xor16 ?e (pad16 ?c))"
        using False lc by (subst encrypt_blocks.simps) (simp add: Let_def)
      also have "\<dots> = p" using xor16_part_twice [OF e, of "length p" p] False lc by simp
      finally show ?thesis unfolding enc .
    qed
  qed
qed

section \<open>Through the buffers\<close>

lemma arr_copy_Some: "i + length bs \<le> length xs \<Longrightarrow>
    arr_copy xs i bs = Some (take i xs @ bs @ drop (i + length bs) xs)"
  by (simp add: arr_copy_def)

lemma encrypt_trans_length: "length key = 16 \<Longrightarrow> length (encrypt_trans m key nonce s t) = length s + 16"
  by (simp add: encrypt_trans_def)

text \<open>What the encryption leaves in the buffer.\<close>

lemma ccm_encrypt_run:
  assumes key: "length key = 16" and wf: "buf_wf b" and size: "length a + length m + 4 \<le> 125"
  shows "\<exists>b' pre post. zb_ccm_encrypt_n_auth key nonce a m b = Some (RET_OK, b') \<and> buf_wf b'
    \<and> ZB_BUF_BEGIN b' = length pre \<and> ZB_BUF_LEN b' = length a + length m + 4
    \<and> data_buf b' = pre @ a @ encrypt_blocks key nonce 1 m
        @ xor16 (aes128 key (ccm_counter nonce 0)) (pad16 (take 4 (auth_trans 4 key nonce a m))) @ post"
proof -
  let ?sz = "of_nat (length a + length m + 4) :: u8"
  let ?t = "auth_trans 4 key nonce a m"
  let ?e = "encrypt_trans 4 key nonce m ?t"
  have sz: "unat ?sz = length a + length m + 4" using size by (intro unat_of_nat_lt) simp
  have lt: "unat ?sz < ZB_IO_BUF_SIZE" using sz size by (simp add: ZB_IO_BUF_SIZE_def)
  let ?b = "b\<lparr>hdr := hdr_zero\<lparr>is_in_buf := is_in_buf (hdr b), hdr_len := ?sz,
      data_offset := of_nat ((ZB_IO_BUF_SIZE - unat ?sz) div 2)\<rparr>\<rparr>"
  let ?p = "(148 - (length a + length m + 4)) div 2"
  have o: "unat (of_nat ?p :: u8) = ?p" by (rule unat_of_nat_lt) simp
  have B: "ZB_BUF_BEGIN ?b = ?p"
    unfolding ZB_BUF_BEGIN_def sz ZB_IO_BUF_SIZE_def using o by simp
  have L: "ZB_BUF_LEN ?b = length a + length m + 4"
    unfolding ZB_BUF_LEN_def using sz by simp
  have al: "zb_buf_initial_alloc b ?sz = Some (?b, ZB_BUF_BEGIN ?b)"
    using lt by (simp add: zb_buf_initial_alloc_def Let_def)
  note W = buf_wfD [OF wf]
  have le: "length ?e = length m + 16" using encrypt_trans_length [OF key] .
  have fit: "?p + length a + (length m + 16) \<le> 148" using size by linarith
  let ?d1 = "take (?p + length a) (data_buf b) @ ?e @ drop (?p + length a + length ?e) (data_buf b)"
  have c1: "arr_copy (data_buf b) (?p + length a) ?e = Some ?d1"
    by (rule arr_copy_Some) (use fit W le in simp)
  let ?d2 = "take ?p (data_buf b) @ a @ ?e @ drop (?p + length a + length ?e) (data_buf b)"
  have l1: "length ?d1 = 148" using fit W le by simp
  have c2: "arr_copy ?d1 ?p a = Some ?d2"
  proof -
    have "arr_copy ?d1 ?p a = Some (take ?p ?d1 @ a @ drop (?p + length a) ?d1)"
      by (rule arr_copy_Some) (use l1 fit in linarith)
    moreover have "take ?p ?d1 = take ?p (data_buf b)" using fit W by simp
    moreover have "drop (?p + length a) ?d1 = ?e @ drop (?p + length a + length ?e) (data_buf b)"
      using fit W by simp
    ultimately show ?thesis by simp
  qed
  let ?b' = "?b\<lparr>data_buf := ?d2\<rparr>"
  have B': "ZB_BUF_BEGIN ?b' = ?p" and L': "ZB_BUF_LEN ?b' = length a + length m + 4"
    using B L by (simp_all add: ZB_BUF_BEGIN_def ZB_BUF_LEN_def)
  have run: "zb_ccm_encrypt_n_auth key nonce a m b = Some (RET_OK, ?b')"
    unfolding zb_ccm_encrypt_n_auth_def ZB_CCM_M_def Let_def using al c1 c2 B by simp
  have l2: "length ?d2 = 148" using fit W le by simp
  have wf': "buf_wf ?b'"
    unfolding buf_wf_def B' L' using fit l2 by (simp add: ZB_IO_BUF_SIZE_def)
  have Bp: "ZB_BUF_BEGIN ?b' = length (take ?p (data_buf b))" unfolding B' using W by simp
  have D: "data_buf ?b' = take ?p (data_buf b) @ a @ encrypt_blocks key nonce 1 m
        @ xor16 (aes128 key (ccm_counter nonce 0)) (pad16 (take 4 ?t)) @ drop (?p + length a + length ?e) (data_buf b)"
    by (simp add: encrypt_trans_def)
  show ?thesis
    by (intro exI conjI) (rule run wf' Bp L' D)+
qed

lemma buf_read_at: "buf_read (pre @ xs @ post) (length pre) (length xs) = Some xs"
  by (simp add: buf_read_def)

lemma clen_minus:
  assumes "n < 65532"
  shows "unat (ucast (of_nat (n + 4) - of_nat 4 :: u32) :: u16) = n"
proof -
  have "of_nat (n + 4) - of_nat 4 = (of_nat n :: u32)" by simp
  moreover have "unat (ucast (of_nat n :: u32) :: u16) = n"
    using assms by (simp add: unsigned_ucast_eq take_bit_nat_eq_self)
  ultimately show ?thesis by simp
qed

text \<open>Decryption of any buffer: the tag decides between the plain text and the wiped text.\<close>

lemma ccm_decrypt_run:
  assumes key: "length key = 16" and d: "data_buf b = pre @ a @ c @ u @ post" and u: "length u = 4"
    and wf: "buf_wf b" and pre: "ZB_BUF_BEGIN b = length pre" and len: "ZB_BUF_LEN b = length a + length c + 4"
    and fit: "length c + 16 \<le> 148"
  shows "\<exists>b'. zb_ccm_decrypt_n_auth key nonce b (length a) (length c + 4) =
      Some (if take 4 (xor16 (aes128 key (ccm_counter nonce 0)) (pad16 u))
               = take 4 (auth_trans 4 key nonce a (encrypt_blocks key nonce 1 c)) then RET_OK else RET_ERROR, b')
    \<and> buf_wf b' \<and> payload b' = a @
        (if take 4 (xor16 (aes128 key (ccm_counter nonce 0)) (pad16 u))
            = take 4 (auth_trans 4 key nonce a (encrypt_blocks key nonce 1 c))
         then encrypt_blocks key nonce 1 c else replicate (length c) 0xeb)
    \<and> ZB_BUF_BEGIN b' = ZB_BUF_BEGIN b"
proof -
  let ?n = "length c" and ?p = "length pre"
  let ?P = "encrypt_blocks key nonce 1 c"
  let ?T = "xor16 (aes128 key (ccm_counter nonce 0)) (pad16 u)"
  note W = buf_wfD [OF wf]
  have n: "unat (ucast (of_nat (?n + 4) - of_nat 4 :: u32) :: u16) = ?n"
    by (rule clen_minus) (use fit in simp)
  have rc: "buf_read (data_buf b) (?p + length a) ?n = Some c"
    using buf_read_at [of "pre @ a" c "u @ post"] d by simp
  have ru: "buf_read (data_buf b) (?p + length a + (?n + 4) - 4) 4 = Some u"
    using buf_read_at [of "pre @ a @ c" u post] d u by (simp add: add.assoc)
  have ra: "buf_read (data_buf b) ?p (length a) = Some a"
    using buf_read_at [of pre a "c @ u @ post"] d by simp
  have dec: "encrypt_trans 4 key nonce c u = ?P @ ?T"
    using u by (simp add: encrypt_trans_def)
  have lP: "length ?P = ?n" using key by simp
  have lT: "length ?T = 16" using key u by simp
  have dl: "length (?P @ ?T) \<le> ZB_IO_BUF_SIZE" using lP lT fit by (simp add: ZB_IO_BUF_SIZE_def)
  have tk: "take ?n (?P @ ?T) = ?P" "drop ?n (?P @ ?T) = ?T" using lP by simp_all
  let ?b = "b\<lparr>hdr := (hdr b)\<lparr>hdr_len := hdr_len (hdr b) - 4\<rparr>\<rparr>"
  have L: "ZB_BUF_LEN ?b = length a + ?n"
    using len unat_sub_8 [of 4 "hdr_len (hdr b)"] by (simp add: ZB_BUF_LEN_def)
  have B: "ZB_BUF_BEGIN ?b = ?p" using pre by (simp add: ZB_BUF_BEGIN_def)
  have cp: "arr_copy (data_buf b) (?p + length a) x = Some (pre @ a @ x @ u @ post)" if "length x = ?n" for x
    using arr_copy_Some [of "?p + length a" x "data_buf b"] that d by simp
  let ?ok = "take 4 ?T = take 4 (auth_trans 4 key nonce a ?P)"
  let ?x = "if ?ok then ?P else replicate ?n 0xeb"
  let ?b' = "?b\<lparr>data_buf := pre @ a @ ?x @ u @ post\<rparr>"
  have lx: "length ?x = ?n" using lP by simp
  have "zb_ccm_decrypt_n_auth key nonce b (length a) (?n + 4) = Some (RET_OK, ?b')" if ok: ?ok
    unfolding zb_ccm_decrypt_n_auth_def ZB_CCM_M_def n Let_def pre rc ru ra dec
    using dl cp [OF lP] B ok key u by (simp add: tk dec)
  moreover have "zb_ccm_decrypt_n_auth key nonce b (length a) (?n + 4) = Some (RET_ERROR, ?b')" if ok: "\<not> ?ok"
    unfolding zb_ccm_decrypt_n_auth_def ZB_CCM_M_def n Let_def pre rc ru ra dec
    using dl cp [of "replicate ?n 0xeb"] B ok key u by (simp add: tk dec)
  ultimately have run: "zb_ccm_decrypt_n_auth key nonce b (length a) (?n + 4)
      = Some (if ?ok then RET_OK else RET_ERROR, ?b')"
    by simp
  have L': "ZB_BUF_LEN ?b' = length a + ?n" and B': "ZB_BUF_BEGIN ?b' = ?p"
    using L B by (simp_all add: ZB_BUF_LEN_def ZB_BUF_BEGIN_def)
  have "length (data_buf ?b') = 148" using W d lx by simp
  then have wf': "buf_wf ?b'" unfolding buf_wf_def L' B' using W pre len by (simp add: ZB_IO_BUF_SIZE_def)
  have "payload ?b' = take (length a + ?n) (drop ?p (pre @ a @ ?x @ u @ post))"
    unfolding payload_def [of ?b'] L' B' by simp
  also have "\<dots> = a @ ?x" using lx by simp
  finally show ?thesis using run wf' B' pre by (intro exI [of _ ?b']) simp
qed

section \<open>Properties\<close>

lemma take_drop_post: "take n x @ drop n x @ post = x @ post"
  by (metis append_assoc append_take_drop_id)

text \<open>
  C34. Encryption followed by decryption with the same key and nonce succeeds and leaves the
  authenticated string and the message, for every pair of them that fits in a buffer.
\<close>

theorem ccm_roundtrip:
  assumes "length key = 16" and "buf_wf b" and "length a + length m + 4 \<le> 125"
  shows "\<exists>b1 b2. zb_ccm_encrypt_n_auth key nonce a m b = Some (RET_OK, b1)
    \<and> ZB_BUF_LEN b1 = length a + length m + 4
    \<and> zb_ccm_decrypt_n_auth_stdsecur key nonce b1 (length a) (length m + 4) = Some (RET_OK, b2)
    \<and> payload b2 = a @ m \<and> buf_wf b2"
proof -
  let ?E = "aes128 key (ccm_counter nonce 0)" and ?t = "auth_trans 4 key nonce a m"
  let ?u = "take 4 (xor16 ?E (pad16 (take 4 ?t)))" and ?v = "drop 4 (xor16 ?E (pad16 (take 4 ?t)))"
  obtain b1 pre post where e: "zb_ccm_encrypt_n_auth key nonce a m b = Some (RET_OK, b1)" "buf_wf b1"
    "ZB_BUF_BEGIN b1 = length pre" "ZB_BUF_LEN b1 = length a + length m + 4"
    and d: "data_buf b1 = pre @ a @ encrypt_blocks key nonce 1 m @ xor16 ?E (pad16 (take 4 ?t)) @ post"
    using ccm_encrypt_run [OF assms, of nonce] by blast
  have d': "data_buf b1 = pre @ a @ encrypt_blocks key nonce 1 m @ ?u @ (?v @ post)"
    unfolding d by (simp only: take_drop_post)
  have tag: "take 4 (xor16 ?E (pad16 ?u)) = take 4 ?t"
    using xor16_part_twice [of ?E 4 "take 4 ?t"] assms(1) by simp
  have "length ?u = 4" using assms(1) by simp
  note u4 = this
  let ?C = "encrypt_blocks key nonce 1 m"
  have C: "length ?C = length m" by (rule length_encrypt_blocks [OF assms(1)])
  have len: "ZB_BUF_LEN b1 = length a + length ?C + 4" and fit: "length ?C + 16 \<le> 148"
    using e(4) assms(3) unfolding C by simp_all
  obtain b2 where "zb_ccm_decrypt_n_auth key nonce b1 (length a) (length m + 4) = Some (RET_OK, b2)"
    "buf_wf b2" "payload b2 = a @ m"
    using ccm_decrypt_run [OF assms(1) d' u4 e(2,3) len fit, of nonce]
    by (simp only: C tag encrypt_blocks_twice [OF assms(1)] if_True refl) blast
  with e show ?thesis unfolding zb_ccm_decrypt_n_auth_stdsecur_def by blast
qed

theorem ccm_roundtrip_witness:
  "\<exists>b1 b2. zb_ccm_encrypt_n_auth (replicate 16 7) (replicate 13 1) [1, 2] [3, 4, 5]
      \<lparr>hdr = hdr_zero, data_buf = replicate 148 0\<rparr> = Some (RET_OK, b1)
    \<and> ZB_BUF_LEN b1 = length [1, 2 :: u8] + length [3, 4, 5 :: u8] + 4
    \<and> zb_ccm_decrypt_n_auth_stdsecur (replicate 16 7) (replicate 13 1) b1 (length [1, 2 :: u8]) (length [3, 4, 5 :: u8] + 4)
        = Some (RET_OK, b2)
    \<and> payload b2 = [1, 2] @ [3, 4, 5] \<and> buf_wf b2"
  by (rule ccm_roundtrip) (simp_all add: buf_wf_def ZB_BUF_BEGIN_def ZB_BUF_LEN_def ZB_IO_BUF_SIZE_def hdr_zero_def)

text \<open>
  C35. Decryption of any received buffer: the text is released, with \<open>RET_OK\<close>, exactly when the tag
  it carries is the encryption of the tag recomputed from the decrypted text; otherwise the result is
  \<open>RET_ERROR\<close>, the text is overwritten with \<open>0xeb\<close> and only the authenticated string stays.
\<close>

theorem ccm_decrypt_checks_tag:
  assumes "length key = 16" and "buf_wf b" and "payload b = a @ c @ u" and "length u = 4"
    and "length c \<le> 132"
  shows "\<exists>ok b'. zb_ccm_decrypt_n_auth_stdsecur key nonce b (length a) (length c + 4)
        = Some (if ok then RET_OK else RET_ERROR, b')
    \<and> (ok \<longleftrightarrow> u = take 4 (xor16 (aes128 key (ccm_counter nonce 0))
                  (pad16 (take 4 (auth_trans 4 key nonce a (encrypt_blocks key nonce 1 c))))))
    \<and> payload b' = a @ (if ok then encrypt_blocks key nonce 1 c else replicate (length c) 0xeb)"
proof -
  let ?E = "aes128 key (ccm_counter nonce 0)"
  let ?t = "take 4 (auth_trans 4 key nonce a (encrypt_blocks key nonce 1 c))"
  note W = buf_wfD [OF assms(2)]
  let ?p = "ZB_BUF_BEGIN b" and ?l = "ZB_BUF_LEN b"
  have len: "?l = length a + length c + 4"
    using arg_cong [OF assms(3), of length] assms(4) W by (simp add: payload_def)
  have "data_buf b = take ?p (data_buf b) @ payload b @ drop ?l (drop ?p (data_buf b))"
    unfolding payload_def by (simp only: append_take_drop_id)
  then have d: "data_buf b = take ?p (data_buf b) @ a @ c @ u @ drop ?l (drop ?p (data_buf b))"
    unfolding assms(3) by simp
  have p: "?p = length (take ?p (data_buf b))" using W by simp
  have key: "length ?E = 16" "length ?t = 4" using assms(1) by simp_all
  have tag: "take 4 (xor16 ?E (pad16 u)) = ?t \<longleftrightarrow> u = take 4 (xor16 ?E (pad16 ?t))"
    using xor16_part_twice [OF key(1), of 4 u] xor16_part_twice [OF key(1), of 4 ?t] key assms(4) by auto
  from ccm_decrypt_run [OF assms(1) d assms(4,2) p len, of nonce] assms(5)
  show ?thesis unfolding tag zb_ccm_decrypt_n_auth_stdsecur_def by auto
qed

theorem ccm_decrypt_checks_tag_witness:
  "\<exists>ok b'. zb_ccm_decrypt_n_auth_stdsecur (replicate 16 7) (replicate 13 1)
          \<lparr>hdr = hdr_zero\<lparr>hdr_len := 7\<rparr>, data_buf = [5, 5, 5, 5, 5, 5, 5] @ replicate 141 5\<rparr> (length [5, 5 :: u8]) (length [5 :: u8] + 4)
        = Some (if ok then RET_OK else RET_ERROR, b')
    \<and> (ok \<longleftrightarrow> [5, 5, 5, 5] = take 4 (xor16 (aes128 (replicate 16 7) (ccm_counter (replicate 13 1) 0))
                  (pad16 (take 4 (auth_trans 4 (replicate 16 7) (replicate 13 1) [5, 5]
                    (encrypt_blocks (replicate 16 7) (replicate 13 1) 1 [5]))))))
    \<and> payload b' = [5, 5] @ (if ok then encrypt_blocks (replicate 16 7) (replicate 13 1) 1 [5]
          else replicate (length [5 :: u8]) 0xeb)"
  by (rule ccm_decrypt_checks_tag)
    (simp_all add: buf_wf_def payload_def ZB_BUF_BEGIN_def ZB_BUF_LEN_def ZB_IO_BUF_SIZE_def hdr_zero_def)

text \<open>
  Encryption stays inside its buffer exactly for the strings of at most 125 bytes with the
  tag: beyond that the sixteen bytes written for the four of the tag pass the end of the array.
\<close>

theorem ccm_encrypt_fits:
  assumes "length key = 16" and "buf_wf b" and "length a + length m + 4 < ZB_IO_BUF_SIZE"
  shows "zb_ccm_encrypt_n_auth key nonce a m b \<noteq> None \<longleftrightarrow> length a + length m + 4 \<le> 125"
proof (cases "length a + length m + 4 \<le> 125")
  case True
  then show ?thesis using ccm_encrypt_run [OF assms(1,2) True, of nonce] by auto
next
  case False
  let ?n = "length a + length m + 4"
  let ?sz = "of_nat ?n :: u8" and ?p = "(148 - (length a + length m + 4)) div 2"
  let ?e = "encrypt_trans 4 key nonce m (auth_trans 4 key nonce a m)"
  have n: "?n < 148" using assms(3) by (simp add: ZB_IO_BUF_SIZE_def)
  then have sz: "unat ?sz = ?n" by (intro unat_of_nat_lt) simp
  have o: "unat (of_nat ?p :: u8) = ?p" by (rule unat_of_nat_lt) simp
  let ?b = "b\<lparr>hdr := hdr_zero\<lparr>is_in_buf := is_in_buf (hdr b), hdr_len := ?sz,
      data_offset := of_nat ((ZB_IO_BUF_SIZE - unat ?sz) div 2)\<rparr>\<rparr>"
  have B: "ZB_BUF_BEGIN ?b = ?p" unfolding ZB_BUF_BEGIN_def sz ZB_IO_BUF_SIZE_def using o by simp
  have "unat ?sz < ZB_IO_BUF_SIZE" using sz assms(3) by simp
  then have al: "zb_buf_initial_alloc b ?sz = Some (?b, ?p)"
    unfolding B [symmetric] by (simp add: zb_buf_initial_alloc_def Let_def)
  have "length ?e = length m + 16" by (rule encrypt_trans_length [OF assms(1)])
  then have "148 < ?p + length a + length ?e" using False n by linarith
  then have "arr_copy (data_buf b) (?p + length a) ?e = None"
    using buf_wfD [OF assms(2)] by (simp add: arr_copy_def)
  then have "zb_ccm_encrypt_n_auth key nonce a m b = None"
    unfolding zb_ccm_encrypt_n_auth_def ZB_CCM_M_def Let_def using al by simp
  then show ?thesis using False by simp
qed

theorem ccm_encrypt_fits_witness:
  "zb_ccm_encrypt_n_auth (replicate 16 7) (replicate 13 1) [] (replicate 122 0)
      \<lparr>hdr = hdr_zero, data_buf = replicate 148 0\<rparr> \<noteq> None
    \<longleftrightarrow> length ([] :: u8 list) + length (replicate 122 (0 :: u8)) + 4 \<le> 125"
  by (rule ccm_encrypt_fits)
    (simp_all add: buf_wf_def ZB_BUF_BEGIN_def ZB_BUF_LEN_def ZB_IO_BUF_SIZE_def hdr_zero_def)

text \<open>
  The table-driven column step of the cipher is the multiplication by the matrix of the
  standard over the field of 256 elements, on every column.
\<close>

theorem mix_col_field:
  "mix_col [a, b, c, d] =
     [xtime a XOR (xtime b XOR b) XOR c XOR d, xtime b XOR (xtime c XOR c) XOR d XOR a,
      xtime c XOR (xtime d XOR d) XOR a XOR b, xtime d XOR (xtime a XOR a) XOR b XOR c]"
  by (simp add: mix_col_def Let_def g2_xtime g3_xtime)

end
