(* ===== verification/Aps_Dups.thy ===== *)
theory Aps_Dups
  imports Main_Loop Address_Lemmas
begin

text \<open>
  Rejection of duplicate packets, \<^verbatim>\<open>aps/aps_dups.c\<close>: the last packet counter of a device and a
  clock of two bits are kept in its entry of the address map, and an alarm counts the clocks down.
  The state is the scheduler, the address tables and the flag \<^verbatim>\<open>ZG->aps.dups_alarm_running\<close>.
\<close>

record 'cb aps_g = "'cb zb_g" +
  addr :: zb_addr_globals
  dups_alarm_running :: bool

definition ZB_APS_DUP_CHECK_TIMEOUT :: zb_time where
  "ZB_APS_DUP_CHECK_TIMEOUT = of_int (ZB_MILLISECONDS_TO_BEACON_INTERVAL 1000)"

definition aps_check_dups :: "'cb \<Rightarrow> u16 \<Rightarrow> u8 \<Rightarrow> 'cb aps_g \<Rightarrow> (bool \<times> 'cb aps_g) option" where
  "aps_check_dups timer_cb src_addr aps_counter g = do {
     (ret, ref, z) \<leftarrow> zb_address_by_short src_addr True False (addr g);
     if ret = RET_OK then do {
       ref \<leftarrow> ref;
       e \<leftarrow> arr_get (addr_map z) ref;
       let is_dup = (am_aps_dup_clock e \<noteq> 0 \<and> am_aps_dup_counter e = aps_counter);
       m \<leftarrow> arr_set (addr_map z) ref (e\<lparr>am_aps_dup_counter := aps_counter, am_aps_dup_clock := 3\<rparr>);
       let g = g\<lparr>addr := z\<lparr>addr_map := m\<rparr>\<rparr>;
       g \<leftarrow> (if \<not> dups_alarm_running g then do {
                (_, g) \<leftarrow> zb_schedule_alarm timer_cb 0 ZB_APS_DUP_CHECK_TIMEOUT (g\<lparr>dups_alarm_running := True\<rparr>);
                Some g }
              else Some g);
       Some (is_dup, g) }
     else Some (False, g\<lparr>addr := z\<rparr>) }"

text \<open>The loop over the entries in use; \<open>n\<close> of them have been met before the entry \<open>i\<close>.\<close>

function check_dups_loop ::
  "nat \<Rightarrow> nat \<Rightarrow> nat \<Rightarrow> bool \<Rightarrow> zb_address_map list \<Rightarrow> (bool \<times> zb_address_map list) option" where
  "check_dups_loop limit i n running m =
     (if n < limit then do {
        e \<leftarrow> arr_get m i;
        if am_used e then
          if am_aps_dup_clock e \<noteq> 0 then do {
            let e = e\<lparr>am_aps_dup_clock := am_aps_dup_clock e - 1\<rparr>;
            check_dups_loop limit (i + 1) (n + 1) (running \<or> am_aps_dup_clock e \<noteq> 0) (m[i := e]) }
          else check_dups_loop limit (i + 1) (n + 1) running m
        else check_dups_loop limit (i + 1) n running m }
      else Some (running, m))"
  by pat_completeness auto

termination check_dups_loop
  by (relation "measure (\<lambda>(k, i, n, r, m). length m - i)") (auto simp: arr_get_Some)

declare check_dups_loop.simps [simp del]

definition zb_aps_check_timer_cb :: "'cb \<Rightarrow> 'cb aps_g \<Rightarrow> 'cb aps_g option" where
  "zb_aps_check_timer_cb timer_cb g = do {
     (running, m) \<leftarrow> check_dups_loop (unat (n_elements (addr g))) 0 0 False (addr_map (addr g));
     let g = g\<lparr>addr := (addr g)\<lparr>addr_map := m\<rparr>, dups_alarm_running := running\<rparr>;
     if running then do {
       (_, g) \<leftarrow> zb_schedule_alarm timer_cb 0 ZB_APS_DUP_CHECK_TIMEOUT g;
       Some g }
     else Some g }"

section \<open>Counting down\<close>

definition dup_tick :: "zb_address_map \<Rightarrow> zb_address_map" where
  "dup_tick e = (if am_used e \<and> am_aps_dup_clock e \<noteq> 0 then e\<lparr>am_aps_dup_clock := am_aps_dup_clock e - 1\<rparr> else e)"

definition dup_live :: "zb_address_map \<Rightarrow> bool" where
  "dup_live e \<longleftrightarrow> am_used e \<and> am_aps_dup_clock e \<noteq> 0"

lemma dup_tick_unused: "\<not> am_used e \<Longrightarrow> dup_tick e = e"
  by (simp add: dup_tick_def)

lemma check_dups_loop_ok:
  assumes "n = length (filter am_used (take i m0))" and "i \<le> length m0"
  shows "check_dups_loop (length (filter am_used m0)) i n running (map dup_tick (take i m0) @ drop i m0)
    = Some (running \<or> (\<exists>e \<in> set (drop i m0). dup_live (dup_tick e)), map dup_tick m0)"
  using assms
proof (induction "length m0 - i" arbitrary: i n running)
  case 0
  then show ?case by (subst check_dups_loop.simps) simp
next
  case (Suc k)
  then have i: "i < length m0" by simp
  let ?e = "m0 ! i" and ?m = "map dup_tick (take i m0) @ drop i m0"
  have split: "drop i m0 = ?e # drop (Suc i) m0" "take (Suc i) m0 = take i m0 @ [?e]"
    using i by (simp_all add: Cons_nth_drop_Suc take_Suc_conv_app_nth)
  have all: "length (filter am_used m0) = n + length (filter am_used (drop i m0))"
    using Suc.prems(1) by (metis append_take_drop_id filter_append length_append)
  have get: "arr_get ?m i = Some ?e" using i by (simp add: nth_append)
  let ?r = "running \<or> dup_live (dup_tick ?e)" and ?n = "if am_used ?e then n + 1 else n"
  have IH: "check_dups_loop (length (filter am_used m0)) (Suc i) ?n ?r (map dup_tick (take i m0) @ dup_tick ?e # drop (Suc i) m0)
      = Some (?r \<or> (\<exists>e \<in> set (drop (Suc i) m0). dup_live (dup_tick e)), map dup_tick m0)"
  proof -
    have "k = length m0 - Suc i" "Suc i \<le> length m0" using Suc.hyps(2) i by simp_all
    moreover have "?n = length (filter am_used (take (Suc i) m0))" unfolding split(2) using Suc.prems(1) by simp
    ultimately have "check_dups_loop (length (filter am_used m0)) (Suc i) ?n ?r (map dup_tick (take (Suc i) m0) @ drop (Suc i) m0)
      = Some (?r \<or> (\<exists>e \<in> set (drop (Suc i) m0). dup_live (dup_tick e)), map dup_tick m0)"
      using Suc.hyps(1) [of "Suc i" ?n ?r] by blast
    then show ?thesis by (simp only: split(2) map_append list.map append_assoc append_Cons append_Nil)
  qed
  show ?case
  proof (cases "n < length (filter am_used m0)")
    case False
    then have none: "\<forall>e \<in> set (drop i m0). \<not> am_used e" using all by (simp add: filter_empty_conv)
    then have "map dup_tick (drop i m0) = drop i m0" by (intro map_idI) (simp add: dup_tick_unused)
    then have "?m = map dup_tick m0" by (metis append_take_drop_id map_append)
    moreover have "\<not> (\<exists>e \<in> set (drop i m0). dup_live (dup_tick e))"
      using none by (auto simp: dup_live_def dup_tick_def)
    ultimately show ?thesis using False by (subst check_dups_loop.simps) simp
  next
    case True
    have upd: "?m[i := x] = map dup_tick (take i m0) @ x # drop (Suc i) m0" for x
      using i by (simp add: list_update_append split)
    have same: "?m = map dup_tick (take i m0) @ ?e # drop (Suc i) m0" using split by simp
    have "check_dups_loop (length (filter am_used m0)) i n running ?m
        = check_dups_loop (length (filter am_used m0)) (Suc i) ?n ?r (map dup_tick (take i m0) @ dup_tick ?e # drop (Suc i) m0)"
      by (subst check_dups_loop.simps)
        (simp only: True get Option.bind.bind_lunit upd Let_def if_True dup_tick_def dup_live_def, simp add: same)
    with IH show ?thesis by (simp add: split(1) disj_assoc)
  qed
qed

section \<open>The alarm\<close>

lemma schedule_alarm_frame:
  assumes "zb_schedule_alarm f p d g = Some (ret, g')"
  shows "\<exists>s t. g' = g\<lparr>sched := s, time := t\<rparr>"
proof -
  have eq: "\<exists>s' t. g\<lparr>sched := s\<rparr> = g\<lparr>sched := s', time := t\<rparr>" for s
    by (intro exI [of _ s] exI [of _ "time g"]) simp
  from assms show ?thesis
    by (auto simp: zb_schedule_alarm_def Let_def bind_eq_Some_conv eq split: prod.splits option.splits)
qed

lemma schedule_alarm_total:
  assumes rep: "tm_rep (sched g) F xs ys"
  shows "\<exists>ret g' xs' ys'. zb_schedule_alarm f p d g = Some (ret, g') \<and> tm_rep (sched g') F xs' ys'
    \<and> (\<exists>s t. g' = g\<lparr>sched := s, time := t\<rparr>)"
proof (cases ys)
  case Nil
  have "tm_freelist (sched g) = None"
    using tm_repD(3) [OF rep] Nil by (simp add: stk_rep_def)
  then have eq: "(sched g)\<lparr>tm_freelist := None\<rparr> = sched g" by (cases "sched g") simp
  note r = schedule_alarm_full [OF rep [unfolded Nil], of f p d, unfolded eq]
  have "tm_rep (sched (g\<lparr>sched := sched g\<rparr>)) F xs ys" using rep by simp
  with r schedule_alarm_frame [OF r] show ?thesis by blast
next
  case (Cons y zs)
  obtain g' xs' where s: "zb_schedule_alarm f p d g = Some (RET_OK, g')" "tm_rep (sched g') F xs' zs"
    using schedule_alarm_ok [OF rep [unfolded Cons], of f p d] by blast
  show ?thesis using s schedule_alarm_frame [OF s(1)] by blast
qed

section \<open>Recording a counter\<close>

lemma addr_inv_length: "addr_inv z \<Longrightarrow> length (addr_map z) = 101"
  by (simp add: addr_inv_def sorted_inv_def)

lemma used_refs_lt: "r \<in> used_refs m \<Longrightarrow> r < 101"
  by (simp add: used_refs_def)

lemma by_short_known:
  assumes inv: "addr_inv z" and a: "a \<noteq> 0xffff" and r: "r \<in> used_refs (addr_map z)" "am_addr (addr_map z ! r) = a"
  shows "zb_address_by_short a True False z
    = Some (RET_OK, Some r, z\<lparr>addr_map := (addr_map z)[r := (addr_map z ! r)\<lparr>am_clock := True\<rparr>]\<rparr>)"
proof -
  have "r < 101" using r by (simp add: used_refs_def)
  with set_clock_ok [OF inv this] addr_short_search(1) [OF inv a r] show ?thesis
    by (auto simp: zb_address_by_short_def lock_if_def)
qed

text \<open>Changes of fields that the invariant of the address table does not read.\<close>

lemma addr_inv_entry:
  assumes inv: "addr_inv z" and r: "r < 101" and e: "am_addr e = am_addr (addr_map z ! r)" "am_used e = am_used (addr_map z ! r)"
  shows "addr_inv (z\<lparr>addr_map := (addr_map z)[r := e]\<rparr>)"
proof -
  have D: "length (addr_map z) = 101" "clock_i z \<le> 101" using inv by (simp_all add: addr_inv_def sorted_inv_def)
  have "addr_inv (z\<lparr>addr_map := (addr_map z)[r := e], clock_i := clock_i z\<rparr>)"
    by (rule addr_inv_cong [OF inv _ _ D(2)]) (use r e D in \<open>auto simp: nth_list_update\<close>)
  then show ?thesis by simp
qed

definition dup_recorded :: "u16 \<Rightarrow> u8 \<Rightarrow> 'cb aps_g \<Rightarrow> bool" where
  "dup_recorded a c g \<longleftrightarrow> (\<exists>r \<in> used_refs (addr_map (addr g)). am_addr (addr_map (addr g) ! r) = a
     \<and> am_aps_dup_counter (addr_map (addr g) ! r) = c \<and> am_aps_dup_clock (addr_map (addr g) ! r) \<noteq> 0)"

text \<open>What the second half of \<^verbatim>\<open>aps_check_dups\<close> does, once the address is found.\<close>

lemma check_dups_tail:
  assumes z: "zb_address_by_short a True False (addr g) = Some (RET_OK, Some r, z)" and inv: "addr_inv z"
    and r: "r \<in> used_refs (addr_map z)" "am_addr (addr_map z ! r) = a" and tm: "tm_rep (sched g) F xs ys"
  shows "\<exists>g1 xs' ys'. aps_check_dups cb a c g
      = Some (am_aps_dup_clock (addr_map z ! r) \<noteq> 0 \<and> am_aps_dup_counter (addr_map z ! r) = c, g1)
    \<and> addr_inv (addr g1) \<and> dups_alarm_running g1 \<and> tm_rep (sched g1) F xs' ys'
    \<and> addr g1 = z\<lparr>addr_map := (addr_map z)[r := (addr_map z ! r)\<lparr>am_aps_dup_counter := c, am_aps_dup_clock := 3\<rparr>]\<rparr>"
proof -
  let ?z = "z\<lparr>addr_map := (addr_map z)[r := (addr_map z ! r)\<lparr>am_aps_dup_counter := c, am_aps_dup_clock := 3\<rparr>]\<rparr>"
  have len: "length (addr_map z) = 101" and r1: "r < 101"
    by (rule addr_inv_length [OF inv], rule used_refs_lt [OF r(1)])
  have inv': "addr_inv ?z" by (rule addr_inv_entry [OF inv r1]) simp_all
  show ?thesis
  proof (cases "dups_alarm_running g")
    case True
    then show ?thesis using z len r1 inv' tm
      by (intro exI [of _ "g\<lparr>addr := ?z\<rparr>"] exI [of _ xs] exI [of _ ys]) (simp add: aps_check_dups_def)
  next
    case False
    let ?g = "g\<lparr>addr := ?z, dups_alarm_running := True\<rparr>"
    have "tm_rep (sched ?g) F xs ys" using tm by simp
    then obtain ret g1 xs' ys' where s: "zb_schedule_alarm cb 0 ZB_APS_DUP_CHECK_TIMEOUT ?g = Some (ret, g1)"
      "tm_rep (sched g1) F xs' ys'" "\<exists>s t. g1 = ?g\<lparr>sched := s, time := t\<rparr>"
      using schedule_alarm_total [of ?g F xs ys cb 0 ZB_APS_DUP_CHECK_TIMEOUT] by blast
    then have "addr g1 = ?z" "dups_alarm_running g1" by auto
    moreover have "aps_check_dups cb a c g
      = Some (am_aps_dup_clock (addr_map z ! r) \<noteq> 0 \<and> am_aps_dup_counter (addr_map z ! r) = c, g1)"
      using z len r1 False s(1) by (simp add: aps_check_dups_def)
    ultimately show ?thesis using s(2) inv' by auto
  qed
qed

section \<open>Ageing\<close>

lemma n_elements_count:
  assumes "addr_inv z"
  shows "unat (n_elements z) = length (filter am_used (addr_map z))"
proof -
  have "used_refs (addr_map z) = {i. i < length (addr_map z) \<and> am_used (addr_map z ! i)}"
    using addr_inv_length [OF assms] by (auto simp: used_refs_def)
  then show ?thesis using assms by (simp add: addr_inv_def length_filter_conv_card)
qed

lemma dup_tick_props: "am_used (dup_tick e) = am_used e" "am_addr (dup_tick e) = am_addr e"
  by (simp_all add: dup_tick_def)

lemma addr_inv_map:
  assumes inv: "addr_inv z" and f: "\<And>e. am_used (f e) = am_used e" "\<And>e. am_addr (f e) = am_addr e"
  shows "addr_inv (z\<lparr>addr_map := map f (addr_map z)\<rparr>)"
proof -
  have ci: "clock_i z \<le> 101" using inv by (simp add: addr_inv_def)
  have "addr_inv (z\<lparr>addr_map := map f (addr_map z), clock_i := clock_i z\<rparr>)"
    by (rule addr_inv_cong [OF inv _ _ ci]) (use addr_inv_length [OF inv] f in auto)
  then show ?thesis by simp
qed

lemma check_timer_ok:
  assumes inv: "addr_inv (addr g)" and tm: "tm_rep (sched g) F xs ys"
  shows "\<exists>g' xs' ys'. zb_aps_check_timer_cb cb g = Some g' \<and> addr_inv (addr g') \<and> tm_rep (sched g') F xs' ys'
    \<and> addr g' = (addr g)\<lparr>addr_map := map dup_tick (addr_map (addr g))\<rparr>
    \<and> (dups_alarm_running g' \<longleftrightarrow> (\<exists>e \<in> set (addr_map (addr g')). dup_live e))"
proof -
  let ?m = "map dup_tick (addr_map (addr g))" and ?r = "\<exists>e \<in> set (addr_map (addr g)). dup_live (dup_tick e)"
  have l: "check_dups_loop (unat (n_elements (addr g))) 0 0 False (addr_map (addr g)) = Some (?r, ?m)"
    unfolding n_elements_count [OF inv]
    using check_dups_loop_ok [of 0 0 "addr_map (addr g)" False] by simp
  let ?g = "g\<lparr>addr := (addr g)\<lparr>addr_map := ?m\<rparr>, dups_alarm_running := ?r\<rparr>"
  have inv': "addr_inv ((addr g)\<lparr>addr_map := ?m\<rparr>)" by (rule addr_inv_map [OF inv]) (simp_all add: dup_tick_props)
  show ?thesis
  proof (cases ?r)
    case False
    then have "zb_aps_check_timer_cb cb g = Some ?g" unfolding zb_aps_check_timer_cb_def l by simp
    then show ?thesis using inv' tm False
      by (intro exI [of _ ?g] exI [of _ xs] exI [of _ ys]) simp
  next
    case True
    have "tm_rep (sched ?g) F xs ys" using tm by simp
    then obtain ret g1 xs' ys' where s: "zb_schedule_alarm cb 0 ZB_APS_DUP_CHECK_TIMEOUT ?g = Some (ret, g1)"
      "tm_rep (sched g1) F xs' ys'" "\<exists>s t. g1 = ?g\<lparr>sched := s, time := t\<rparr>"
      using schedule_alarm_total [of ?g F xs ys cb 0 ZB_APS_DUP_CHECK_TIMEOUT] by blast
    then have "addr g1 = (addr g)\<lparr>addr_map := ?m\<rparr>" "dups_alarm_running g1 = ?r" by auto
    moreover have "zb_aps_check_timer_cb cb g = Some g1"
      unfolding zb_aps_check_timer_cb_def l using s(1) True by simp
    ultimately show ?thesis using s(2) inv' by auto
  qed
qed

lemma dup_tick3: "\<not> dup_live (dup_tick (dup_tick (dup_tick e)))"
proof -
  have "unat (am_aps_dup_clock e) < 4" using unsigned_less [of "am_aps_dup_clock e"] by simp
  then consider "unat (am_aps_dup_clock e) = 0" | "unat (am_aps_dup_clock e) = 1"
    | "unat (am_aps_dup_clock e) = 2" | "unat (am_aps_dup_clock e) = 3" by linarith
  then consider "am_aps_dup_clock e = 0" | "am_aps_dup_clock e = 1" | "am_aps_dup_clock e = 2" | "am_aps_dup_clock e = 3"
    by cases (simp_all add: word_unat_eq_iff)
  then show ?thesis by cases (simp_all add: dup_live_def dup_tick_def)
qed

section \<open>Properties\<close>

text \<open>
  After a packet has been checked its counter is recorded for its source: the next packet from
  there is a duplicate exactly when it carries the same counter, and the alarm that ages the record
  is marked as running.
\<close>

theorem check_dups_detects:
  assumes "addr_inv (addr g)" and "tm_rep (sched g) F xs ys" and "a \<noteq> 0xffff"
    and "used_refs (addr_map (addr g)) \<noteq> {..<101}"
  shows "\<exists>d g1. aps_check_dups cb a c g = Some (d, g1) \<and> dups_alarm_running g1 \<and> addr_inv (addr g1)
    \<and> (\<forall>c'. \<exists>g2. aps_check_dups cb a c' g1 = Some (c' = c, g2))"
proof -
  obtain r z where z: "zb_address_by_short a True False (addr g) = Some (RET_OK, Some r, z)" "addr_inv z"
    "short_search a z = Some (Some r)"
    using by_short_create [OF assms(1,3,4)] by blast
  have r: "r \<in> used_refs (addr_map z) \<and> am_addr (addr_map z ! r) = a"
  proof (rule ccontr)
    assume n: "\<not> ?thesis"
    show False
    proof (cases "\<exists>q \<in> used_refs (addr_map z). am_addr (addr_map z ! q) = a")
      case True
      then obtain q where "q \<in> used_refs (addr_map z)" "am_addr (addr_map z ! q) = a" by blast
      with addr_short_search(1) [OF z(2) assms(3) this] z(3) n show False by simp
    next
      case False
      with addr_short_search(2) [OF z(2) assms(3)] z(3) show False by simp
    qed
  qed
  obtain d g1 xs1 ys1 where c1: "aps_check_dups cb a c g = Some (d, g1)" "addr_inv (addr g1)" "dups_alarm_running g1"
    "tm_rep (sched g1) F xs1 ys1"
    and g1: "addr g1 = z\<lparr>addr_map := (addr_map z)[r := (addr_map z ! r)\<lparr>am_aps_dup_counter := c, am_aps_dup_clock := 3\<rparr>]\<rparr>"
    using check_dups_tail [OF z(1,2) _ _ assms(2), of cb c] r by blast
  have len: "length (addr_map z) = 101" "r < 101"
    by (rule addr_inv_length [OF z(2)], rule used_refs_lt) (use r in blast)
  have r1: "r \<in> used_refs (addr_map (addr g1))" "am_addr (addr_map (addr g1) ! r) = a"
    using r g1 len by (auto simp: used_refs_def)
  note k = by_short_known [OF c1(2) assms(3) r1]
  let ?z = "(addr g1)\<lparr>addr_map := (addr_map (addr g1))[r := (addr_map (addr g1) ! r)\<lparr>am_clock := True\<rparr>]\<rparr>"
  have i2: "addr_inv ?z" by (rule addr_inv_entry [OF c1(2) len(2)]) simp_all
  have r2: "r \<in> used_refs (addr_map ?z)" "am_addr (addr_map ?z ! r) = a" using r1 g1 len by (auto simp: used_refs_def)
  have "am_aps_dup_clock (addr_map ?z ! r) \<noteq> 0" "am_aps_dup_counter (addr_map ?z ! r) = c" using g1 len by simp_all
  then have eq: "(am_aps_dup_clock (addr_map ?z ! r) \<noteq> 0 \<and> am_aps_dup_counter (addr_map ?z ! r) = c') = (c' = c)" for c'
    by auto
  have "\<exists>g2. aps_check_dups cb a c' g1 = Some (c' = c, g2)" for c'
    using check_dups_tail [OF k i2 r2 c1(4), of cb c'] unfolding eq by blast
  with c1 show ?thesis by blast
qed

text \<open>The scheduler and the address tables after start-up.\<close>

definition aps_start :: "nat aps_g" where
  "aps_start = zb_g.extend (zb_sched_init sched_cleared) (aps_g.fields addr_cleared False)"

lemma aps_start_simps: "sched aps_start = sched (zb_sched_init sched_cleared)" "addr aps_start = addr_cleared"
  "dups_alarm_running aps_start = False"
  by (simp_all add: aps_start_def zb_g.defs aps_g.defs)

lemma aps_start_ok: "addr_inv (addr aps_start)" "tm_rep (sched aps_start) {} [] (rev [0..<ZB_SCHEDULER_Q_SIZE])"
  "used_refs (addr_map (addr aps_start)) \<noteq> {..<101}"
proof -
  have "(0 :: nat) \<in> {..<101}" by simp
  then show "used_refs (addr_map (addr aps_start)) \<noteq> {..<101}"
    unfolding aps_start_simps addr_cleared_inv(4) by blast
qed (simp_all add: aps_start_simps addr_cleared_inv cleared_init)

theorem check_dups_detects_witness:
  "\<exists>d g1. aps_check_dups 7 0x1234 5 aps_start = Some (d, g1)
    \<and> (\<exists>g2. aps_check_dups 7 0x1234 5 g1 = Some (True, g2)) \<and> (\<exists>g2. aps_check_dups 7 0x1234 6 g1 = Some (False, g2))"
proof -
  obtain d g1 where "aps_check_dups 7 0x1234 5 aps_start = Some (d, g1)"
    "\<forall>c'. \<exists>g2. aps_check_dups 7 0x1234 c' g1 = Some (c' = 5, g2)"
    using check_dups_detects [OF aps_start_ok(1,2) _ aps_start_ok(3), of "0x1234" 7 5] by auto
  then show ?thesis by (auto dest: spec [of _ 5] spec [of _ 6])
qed

text \<open>
  Three runs of the alarm callback clear every record of a packet counter, keep the address table
  otherwise, and the alarm is then no longer running.
\<close>

theorem dup_records_expire:
  assumes "addr_inv (addr g)" and "tm_rep (sched g) F xs ys"
  shows "\<exists>g1 g2 g3. zb_aps_check_timer_cb cb g = Some g1 \<and> zb_aps_check_timer_cb cb g1 = Some g2
    \<and> zb_aps_check_timer_cb cb g2 = Some g3 \<and> addr_inv (addr g3) \<and> \<not> dups_alarm_running g3
    \<and> (\<forall>r \<in> used_refs (addr_map (addr g3)). am_aps_dup_clock (addr_map (addr g3) ! r) = 0)
    \<and> used_refs (addr_map (addr g3)) = used_refs (addr_map (addr g))"
proof -
  obtain g1 xs1 ys1 where 1: "zb_aps_check_timer_cb cb g = Some g1" "addr_inv (addr g1)" "tm_rep (sched g1) F xs1 ys1"
    "addr g1 = (addr g)\<lparr>addr_map := map dup_tick (addr_map (addr g))\<rparr>"
    using check_timer_ok [OF assms, of cb] by blast
  obtain g2 xs2 ys2 where 2: "zb_aps_check_timer_cb cb g1 = Some g2" "addr_inv (addr g2)" "tm_rep (sched g2) F xs2 ys2"
    "addr g2 = (addr g1)\<lparr>addr_map := map dup_tick (addr_map (addr g1))\<rparr>"
    using check_timer_ok [OF 1(2,3), of cb] by blast
  obtain g3 xs3 ys3 where 3: "zb_aps_check_timer_cb cb g2 = Some g3" "addr_inv (addr g3)" "tm_rep (sched g3) F xs3 ys3"
    "addr g3 = (addr g2)\<lparr>addr_map := map dup_tick (addr_map (addr g2))\<rparr>"
    "dups_alarm_running g3 = (\<exists>e \<in> set (addr_map (addr g3)). dup_live e)"
    using check_timer_ok [OF 2(2,3), of cb] by blast
  let ?m = "addr_map (addr g)" and ?f = "\<lambda>e. dup_tick (dup_tick (dup_tick e))"
  have m: "addr_map (addr g3) = map ?f ?m" using 1(4) 2(4) 3(4) by simp
  have dead: "\<not> dup_live e" if "e \<in> set (addr_map (addr g3))" for e using that unfolding m by (auto simp: dup_tick3)
  have len: "length ?m = 101" by (rule addr_inv_length [OF assms(1)])
  have "am_aps_dup_clock (addr_map (addr g3) ! r) = 0" if "r \<in> used_refs (addr_map (addr g3))" for r
    using dead [of "addr_map (addr g3) ! r"] that addr_inv_length [OF 3(2)] by (auto simp: used_refs_def dup_live_def)
  moreover have "used_refs (addr_map (addr g3)) = used_refs ?m"
    unfolding m using len by (auto simp: used_refs_def dup_tick_props)
  ultimately show ?thesis using 1(1) 2(1) 3(1,2,5) dead by blast
qed

theorem dup_records_expire_witness:
  "\<exists>g1 g2 g3. zb_aps_check_timer_cb 7 aps_start = Some g1 \<and> zb_aps_check_timer_cb 7 g1 = Some g2
    \<and> zb_aps_check_timer_cb 7 g2 = Some g3 \<and> \<not> dups_alarm_running g3"
  using dup_records_expire [OF aps_start_ok(1,2), of 7] by blast

text \<open>
  When the timer queue is full the alarm is not scheduled but marked as running all the same: no
  callback will ever age the records, and no later packet schedules it.
\<close>

theorem check_dups_loses_alarm:
  assumes "addr_inv (addr g)" and "tm_rep (sched g) F xs []" and "a \<noteq> 0xffff"
    and "used_refs (addr_map (addr g)) \<noteq> {..<101}" and "\<not> dups_alarm_running g"
  shows "\<exists>d g1. aps_check_dups cb a c g = Some (d, g1) \<and> dups_alarm_running g1
    \<and> tm_rep (sched g1) F xs [] \<and> alarms (sched g1) xs = alarms (sched g) xs"
proof -
  obtain r z where z: "zb_address_by_short a True False (addr g) = Some (RET_OK, Some r, z)" "addr_inv z"
    "zb_address_short_by_ref r z = Some a"
    using by_short_create [OF assms(1,3,4)] by blast
  have r: "r < length (addr_map z)"
    using z(3) by (auto simp: zb_address_short_by_ref_def arr_get_def split: if_splits)
  have eq: "(sched g)\<lparr>tm_freelist := None\<rparr> = sched g"
    using tm_repD(3) [OF assms(2)] by (cases "sched g") (simp add: stk_rep_def)
  let ?g = "g\<lparr>addr := z\<lparr>addr_map := (addr_map z)[r := (addr_map z ! r)\<lparr>am_aps_dup_counter := c, am_aps_dup_clock := 3\<rparr>]\<rparr>,
              dups_alarm_running := True\<rparr>"
  have "tm_rep (sched ?g) F xs []" using assms(2) by simp
  note s = schedule_alarm_full [OF this, of cb 0 ZB_APS_DUP_CHECK_TIMEOUT]
  have "sched ?g = sched g" by simp
  with s eq have s': "zb_schedule_alarm cb 0 ZB_APS_DUP_CHECK_TIMEOUT ?g = Some (RET_OVERFLOW, ?g\<lparr>sched := sched g\<rparr>)" by simp
  have "aps_check_dups cb a c g = Some (am_aps_dup_clock (addr_map z ! r) \<noteq> 0 \<and> am_aps_dup_counter (addr_map z ! r) = c,
      ?g\<lparr>sched := sched g\<rparr>)"
    using z(1) r assms(5) s' by (simp add: aps_check_dups_def)
  then show ?thesis using assms(2) by simp
qed

theorem check_dups_loses_alarm_witness:
  "\<exists>d g1. aps_check_dups 7 0x1234 5 (aps_start\<lparr>sched := (sched aps_start)\<lparr>tm_freelist := None\<rparr>\<rparr>) = Some (d, g1)
    \<and> dups_alarm_running g1"
proof -
  let ?g = "aps_start\<lparr>sched := (sched aps_start)\<lparr>tm_freelist := None\<rparr>\<rparr>"
  have "tm_rep (sched ?g) {..<ZB_SCHEDULER_Q_SIZE} [] []"
    using aps_start_ok(2) by (simp add: tm_rep_def stk_rep_def)
  with check_dups_loses_alarm [of ?g _ "[]" "0x1234" 7 5] aps_start_ok show ?thesis by (simp add: aps_start_simps) blast
qed

end
