(* ===== verification/Aps_Bind.thy ===== *)
theory Aps_Bind
  imports Address_Lemmas
begin

text \<open>
  The binding table and the group table of \<^verbatim>\<open>aps/aps_bind.c\<close>. The state is \<^verbatim>\<open>ZG->aps.binding\<close> and
  \<^verbatim>\<open>ZG->aps.group\<close>; a request is the record passed in the parameter area of its buffer, and the
  status the code stores in the buffer header is returned. A source entry is named by its index, and
  a destination entry refers to its source by it. All loops are the code's do-while loops, which look
  at the first entry of an empty table too.
\<close>

section \<open>State\<close>

definition ZB_APS_SRC_BINDING_TABLE_SIZE :: nat where [zb_config]: "ZB_APS_SRC_BINDING_TABLE_SIZE = 32"
definition ZB_APS_DST_BINDING_TABLE_SIZE :: nat where [zb_config]: "ZB_APS_DST_BINDING_TABLE_SIZE = 32"
definition ZB_APS_GROUP_TABLE_SIZE :: nat where [zb_config]: "ZB_APS_GROUP_TABLE_SIZE = 16"
definition ZB_APS_ENDPOINTS_IN_GROUP_TABLE :: nat where [zb_config]: "ZB_APS_ENDPOINTS_IN_GROUP_TABLE = 8"

definition ZB_APS_ADDR_MODE_16_GROUP_ENDP_NOT_PRESENT :: u8 where
  [zb_config]: "ZB_APS_ADDR_MODE_16_GROUP_ENDP_NOT_PRESENT = 1"
definition ZB_APS_ADDR_MODE_64_ENDP_PRESENT :: u8 where [zb_config]: "ZB_APS_ADDR_MODE_64_ENDP_PRESENT = 3"
definition ZB_ZDP_STATUS_TABLE_FULL :: zb_ret where [zb_err]: "ZB_ZDP_STATUS_TABLE_FULL = 0x8c"
definition ZB_APS_STATUS_TABLE_FULL :: u8 where "ZB_APS_STATUS_TABLE_FULL = 0xae"

record zb_aps_bind_src =
  src_addr :: nat
  src_end :: u8
  cluster_id :: u16

text \<open>The union of \<^verbatim>\<open>zb_aps_bind_dst_table_t\<close> with its mode.\<close>

datatype bind_dst = Dst_group u16 | Dst_long nat u8

record zb_aps_bind_dst =
  dst :: bind_dst
  src_table_index :: u8

record zb_aps_binding_table =
  src_table :: "zb_aps_bind_src list"
  dst_table :: "zb_aps_bind_dst list"
  src_n_elements :: u8
  dst_n_elements :: u8

record zb_apsme_binding_req =
  req_src_addr :: zb_ieee_addr
  req_src_endpoint :: u8
  req_clusterid :: u16
  req_addr_mode :: u8
  req_dst_short :: u16
  req_dst_long :: zb_ieee_addr
  req_dst_endpoint :: u8

section \<open>Binding\<close>

function find_src_loop :: "nat \<Rightarrow> nat \<Rightarrow> u8 \<Rightarrow> u16 \<Rightarrow> zb_aps_binding_table \<Rightarrow> u8 option" where
  "find_src_loop l ref ep cl b = do {
     e \<leftarrow> arr_get (src_table b) l;
     if src_addr e = ref \<and> src_end e = ep \<and> cluster_id e = cl then Some (of_nat l)
     else if l + 1 < unat (src_n_elements b) then find_src_loop (l + 1) ref ep cl b
     else Some 0xff }"
  by pat_completeness auto

termination find_src_loop
  by (relation "measure (\<lambda>(l, r, e, c, b). unat (src_n_elements b) - l)") auto

declare find_src_loop.simps [simp del]

definition aps_find_src_ref :: "nat \<Rightarrow> u8 \<Rightarrow> u16 \<Rightarrow> zb_aps_binding_table \<Rightarrow> u8 option" where
  "aps_find_src_ref ref ep cl b = find_src_loop 0 ref ep cl b"

text \<open>
  The destination of a request, resolved with the address tables; the reference of a long address is
  created when it is not known.
\<close>

definition req_destination ::
  "zb_apsme_binding_req \<Rightarrow> zb_addr_globals \<Rightarrow> (zb_ret \<times> bind_dst option \<times> zb_addr_globals) option" where
  "req_destination r z =
     (if req_addr_mode r = ZB_APS_ADDR_MODE_64_ENDP_PRESENT then do {
        (ret, ref, z) \<leftarrow> zb_address_by_ieee (req_dst_long r) True False z;
        Some (ret, map_option (\<lambda>q. Dst_long q (req_dst_endpoint r)) ref, z) }
      else if req_addr_mode r = ZB_APS_ADDR_MODE_16_GROUP_ENDP_NOT_PRESENT then
        Some (RET_OK, Some (Dst_group (req_dst_short r)), z)
      else Some (RET_INVALID_BINDING, None, z))"

definition zb_apsme_bind_request ::
  "zb_apsme_binding_req \<Rightarrow> zb_aps_binding_table \<Rightarrow> zb_addr_globals
     \<Rightarrow> (zb_ret \<times> zb_aps_binding_table \<times> zb_addr_globals) option" where
  "zb_apsme_bind_request r b z = do {
     (status, src_ref, z) \<leftarrow> zb_address_by_ieee (req_src_addr r) True False z;
     if status = RET_OK then do {
       ref \<leftarrow> src_ref;
       s \<leftarrow> aps_find_src_ref ref (req_src_endpoint r) (req_clusterid r) b;
       let s = (if s = 0xff then src_n_elements b else s);
       let d = dst_n_elements b;
       if unat s < ZB_APS_SRC_BINDING_TABLE_SIZE \<and> unat d < ZB_APS_DST_BINDING_TABLE_SIZE then do {
         (status, to, z) \<leftarrow> req_destination r z;
         if status = RET_OK then do {
           b \<leftarrow> (if s = src_n_elements b then do {
                    t \<leftarrow> arr_set (src_table b) (unat s)
                           \<lparr>src_addr = ref, src_end = req_src_endpoint r, cluster_id = req_clusterid r\<rparr>;
                    Some (b\<lparr>src_table := t, src_n_elements := src_n_elements b + 1\<rparr>) }
                  else Some b);
           to \<leftarrow> to;
           t \<leftarrow> arr_set (dst_table b) (unat d) \<lparr>dst = to, src_table_index = s\<rparr>;
           Some (status, b\<lparr>dst_table := t, dst_n_elements := dst_n_elements b + 1\<rparr>, z) }
         else Some (status, b, z) }
       else Some (ZB_ZDP_STATUS_TABLE_FULL, b, z) }
     else Some (status, b, z) }"

section \<open>Unbinding\<close>

text \<open>One pass of the first loop: the entry \<open>d\<close> is taken out, or passed over.\<close>

definition unbind_dst_step ::
  "bind_dst \<Rightarrow> u8 \<Rightarrow> nat \<Rightarrow> bool \<Rightarrow> zb_aps_binding_table \<Rightarrow> (nat \<times> bool \<times> zb_aps_binding_table) option" where
  "unbind_dst_step to s d found b = do {
     e \<leftarrow> arr_get (dst_table b) d;
     if src_table_index e = s \<and> dst e = to then do {
       let n = dst_n_elements b - 1;
       t \<leftarrow> arr_move (dst_table b) d (d + 1) (unat n - d);
       Some (d, found, b\<lparr>dst_table := t, dst_n_elements := n\<rparr>) }
     else Some (d + 1, found \<or> src_table_index e = s, b) }"

lemma unbind_dst_step_less:
  assumes "unbind_dst_step to s d found b = Some (d', found', b')" and "d' < unat (dst_n_elements b')"
  shows "(if d' < unat (dst_n_elements b') then unat (dst_n_elements b') - d' else 256)
    < (if d < unat (dst_n_elements b) then unat (dst_n_elements b) - d else 256)"
proof -
  have lt: "unat (dst_n_elements b') < 256" using unsigned_less [of "dst_n_elements b'"] by simp
  have one: "unat (dst_n_elements b - 1) = unat (dst_n_elements b) - 1" if "0 < unat (dst_n_elements b)"
    using that by (metis unat_minus_one unat_gt_0)
  show ?thesis
    using assms lt one by (auto simp: unbind_dst_step_def Let_def bind_eq_Some_conv split: if_splits)
qed

function unbind_dst_loop ::
  "bind_dst \<Rightarrow> u8 \<Rightarrow> nat \<Rightarrow> bool \<Rightarrow> zb_aps_binding_table \<Rightarrow> (bool \<times> zb_aps_binding_table) option" where
  "unbind_dst_loop to s d found b =
     (case unbind_dst_step to s d found b of
        None \<Rightarrow> None
      | Some (d', found', b') \<Rightarrow>
          if d' < unat (dst_n_elements b') then unbind_dst_loop to s d' found' b' else Some (found', b'))"
  by pat_completeness auto

termination unbind_dst_loop
  by (relation "measure (\<lambda>(to, s, d, f, b). if d < unat (dst_n_elements b) then unat (dst_n_elements b) - d else 256)")
    (auto dest: unbind_dst_step_less)

declare unbind_dst_loop.simps [simp del]

text \<open>The second loop: the sources behind the one taken out have moved down.\<close>

function dec_index_loop :: "u8 \<Rightarrow> nat \<Rightarrow> zb_aps_binding_table \<Rightarrow> zb_aps_binding_table option" where
  "dec_index_loop s d b = do {
     e \<leftarrow> arr_get (dst_table b) d;
     let e = (if s < src_table_index e then e\<lparr>src_table_index := src_table_index e - 1\<rparr> else e);
     t \<leftarrow> arr_set (dst_table b) d e;
     let b = b\<lparr>dst_table := t\<rparr>;
     if d + 1 < unat (dst_n_elements b) then dec_index_loop s (d + 1) b else Some b }"
  by pat_completeness auto

termination dec_index_loop
  by (relation "measure (\<lambda>(s, d, b). unat (dst_n_elements b) - d)") auto

declare dec_index_loop.simps [simp del]

definition remove_src :: "u8 \<Rightarrow> zb_aps_binding_table \<Rightarrow> zb_aps_binding_table option" where
  "remove_src s b = do {
     let n = src_n_elements b - 1;
     t \<leftarrow> arr_move (src_table b) (unat s) (unat s + 1) (unat n - unat s);
     dec_index_loop s 0 (b\<lparr>src_table := t, src_n_elements := n\<rparr>) }"

definition zb_apsme_unbind_request ::
  "zb_apsme_binding_req \<Rightarrow> zb_aps_binding_table \<Rightarrow> zb_addr_globals
     \<Rightarrow> (zb_ret \<times> zb_aps_binding_table \<times> zb_addr_globals) option" where
  "zb_apsme_unbind_request r b z = do {
     (status, src_ref, z) \<leftarrow> zb_address_by_ieee (req_src_addr r) False False z;
     if status = RET_OK then do {
       ref \<leftarrow> src_ref;
       s \<leftarrow> aps_find_src_ref ref (req_src_endpoint r) (req_clusterid r) b;
       if s = 0xff then Some (RET_INVALID_BINDING, b, z)
       else do {
         (status, to, z) \<leftarrow> req_destination r z;
         if status = RET_OK then do {
           to \<leftarrow> to;
           (found, b) \<leftarrow> unbind_dst_loop to s 0 False b;
           b \<leftarrow> (if \<not> found then remove_src s b else Some b);
           Some (status, b, z) }
         else Some (status, b, z) } }
     else Some (RET_ILLEGAL_REQUEST, b, z) }"

section \<open>Groups\<close>

record zb_aps_group_table_ent =
  group_addr :: u16
  endpoints :: "u8 list"
  n_endpoints :: nat

record zb_aps_group_table =
  groups :: "zb_aps_group_table_ent list"
  n_groups :: nat

record zb_apsme_add_group_conf =
  conf_group_address :: u16
  conf_endpoint :: u8
  conf_status :: u8

text \<open>The loops over the groups and over the endpoints of one: the index they stop at.\<close>

fun find_group :: "nat \<Rightarrow> nat \<Rightarrow> u16 \<Rightarrow> zb_aps_group_table \<Rightarrow> nat option" where
  "find_group 0 i ga t = Some i"
| "find_group (Suc k) i ga t = do {
     e \<leftarrow> arr_get (groups t) i;
     if group_addr e = ga then Some i else find_group k (i + 1) ga t }"

fun find_endpoint :: "nat \<Rightarrow> nat \<Rightarrow> u8 \<Rightarrow> u8 list \<Rightarrow> nat option" where
  "find_endpoint 0 j ep es = Some j"
| "find_endpoint (Suc k) j ep es = do {
     x \<leftarrow> arr_get es j;
     if x = ep then Some j else find_endpoint k (j + 1) ep es }"

definition zb_apsme_add_group_request ::
  "u16 \<Rightarrow> u8 \<Rightarrow> zb_aps_group_table \<Rightarrow> (zb_apsme_add_group_conf \<times> zb_aps_group_table) option" where
  "zb_apsme_add_group_request ga ep t = do {
     i \<leftarrow> find_group (n_groups t) 0 ga t;
     (status, t) \<leftarrow> (if i < n_groups t then do {
         e \<leftarrow> arr_get (groups t) i;
         j \<leftarrow> find_endpoint (n_endpoints e) 0 ep (endpoints e);
         if j < n_endpoints e then Some (0, t)
         else if j < ZB_APS_ENDPOINTS_IN_GROUP_TABLE then do {
           es \<leftarrow> arr_set (endpoints e) j ep;
           gs \<leftarrow> arr_set (groups t) i (e\<lparr>endpoints := es, n_endpoints := n_endpoints e + 1\<rparr>);
           Some (0, t\<lparr>groups := gs\<rparr>) }
         else Some (ZB_APS_STATUS_TABLE_FULL, t) }
       else if i < ZB_APS_GROUP_TABLE_SIZE then do {
         e \<leftarrow> arr_get (groups t) i;
         es \<leftarrow> arr_set (endpoints e) 0 ep;
         gs \<leftarrow> arr_set (groups t) i (e\<lparr>group_addr := ga, endpoints := es, n_endpoints := 1\<rparr>);
         Some (0, t\<lparr>groups := gs, n_groups := n_groups t + 1\<rparr>) }
       else Some (ZB_APS_STATUS_TABLE_FULL, t));
     Some (\<lparr>conf_group_address = ga, conf_endpoint = ep, conf_status = status\<rparr>, t) }"

end
