(* ===== verification/Aps_Bind_Lemmas.thy ===== *)
theory Aps_Bind_Lemmas
  imports Aps_Bind Address_Ieee
begin

text \<open>
  The lemmas and properties of the binding and group tables. The binding table is read as the list
  of its bindings, pairs of a source and a destination; binding appends to it, unbinding filters it.
\<close>

section \<open>The invariant and the list of bindings\<close>

definition srcs :: "zb_aps_binding_table \<Rightarrow> zb_aps_bind_src list" where
  "srcs b = take (unat (src_n_elements b)) (src_table b)"

definition dsts :: "zb_aps_binding_table \<Rightarrow> zb_aps_bind_dst list" where
  "dsts b = take (unat (dst_n_elements b)) (dst_table b)"

definition idx :: "zb_aps_bind_dst \<Rightarrow> nat" where
  "idx e = unat (src_table_index e)"

definition bindings :: "zb_aps_binding_table \<Rightarrow> (zb_aps_bind_src \<times> bind_dst) list" where
  "bindings b = map (\<lambda>e. (srcs b ! idx e, dst e)) (dsts b)"

text \<open>Sources are distinct, every destination has a source and every source a destination.\<close>

definition bind_inv :: "zb_aps_binding_table \<Rightarrow> bool" where
  "bind_inv b \<longleftrightarrow> length (src_table b) = 32 \<and> length (dst_table b) = 32
     \<and> unat (src_n_elements b) \<le> 32 \<and> unat (dst_n_elements b) \<le> 32
     \<and> distinct (srcs b) \<and> idx ` set (dsts b) = {..<unat (src_n_elements b)}"

lemma bind_invD:
  assumes "bind_inv b"
  shows "length (src_table b) = 32" "length (dst_table b) = 32" "unat (src_n_elements b) \<le> 32"
    "unat (dst_n_elements b) \<le> 32" "distinct (srcs b)" "idx ` set (dsts b) = {..<unat (src_n_elements b)}"
    "length (srcs b) = unat (src_n_elements b)" "length (dsts b) = unat (dst_n_elements b)"
    "\<And>e. e \<in> set (dsts b) \<Longrightarrow> idx e < unat (src_n_elements b)"
  using assms by (auto simp: bind_inv_def srcs_def dsts_def)

lemma byte_le_32: "i \<le> 32 \<Longrightarrow> unat (of_nat i :: u8) = i" "i \<le> 32 \<Longrightarrow> (of_nat i :: u8) \<noteq> 0xff"
proof -
  show e: "unat (of_nat i :: u8) = i" if "i \<le> 32" using that by (intro unat_of_nat_lt) simp
  show "(of_nat i :: u8) \<noteq> 0xff" if "i \<le> 32"
  proof
    assume "(of_nat i :: u8) = 0xff"
    then have "unat (of_nat i :: u8) = 255" by simp
    with e [OF that] that show False by simp
  qed
qed

lemma byte_Suc: "unat (n :: u8) \<le> 32 \<Longrightarrow> unat (n + 1) = Suc (unat n)"
  by (simp add: unat_word_ariths(1))

lemma byte_pred: "0 < unat (n :: u8) \<Longrightarrow> unat (n - 1) = unat n - 1"
  by (metis unat_minus_one unat_gt_0)

lemma take_Suc_upd: "n < length xs \<Longrightarrow> take (Suc n) (xs[n := x]) = take n xs @ [x]"
  by (simp add: take_Suc_conv_app_nth)

section \<open>Finding a source\<close>

abbreviation source :: "nat \<Rightarrow> u8 \<Rightarrow> u16 \<Rightarrow> zb_aps_bind_src" where
  "source ref ep cl \<equiv> \<lparr>src_addr = ref, src_end = ep, cluster_id = cl\<rparr>"

lemma source_eq: "(src_addr e = ref \<and> src_end e = ep \<and> cluster_id e = cl) \<longleftrightarrow> e = source ref ep cl"
  by (cases e) auto

lemma find_src_loop_ok:
  assumes "length (src_table b) = 32" and "unat (src_n_elements b) \<le> 32"
  shows "l < unat (src_n_elements b) \<Longrightarrow> find_src_loop l ref ep cl b
    = Some (case find (\<lambda>i. src_table b ! i = source ref ep cl) [l..<unat (src_n_elements b)] of
        Some i \<Rightarrow> of_nat i | None \<Rightarrow> 0xff)"
proof (induction "unat (src_n_elements b) - l" arbitrary: l)
  case (Suc k)
  have get: "arr_get (src_table b) l = Some (src_table b ! l)" using Suc.prems assms by simp
  have upt: "[l..<unat (src_n_elements b)] = l # [l + 1..<unat (src_n_elements b)]"
    using Suc.prems by (simp add: upt_conv_Cons)
  show ?case
  proof (cases "l + 1 < unat (src_n_elements b)")
    case True
    then have "find_src_loop (l + 1) ref ep cl b
      = Some (case find (\<lambda>i. src_table b ! i = source ref ep cl) [l + 1..<unat (src_n_elements b)] of
        Some i \<Rightarrow> of_nat i | None \<Rightarrow> 0xff)" using Suc.hyps by (intro Suc.hyps(1)) auto
    then show ?thesis using True get upt by (subst find_src_loop.simps) (simp add: source_eq)
  next
    case False
    then have "[l + 1..<unat (src_n_elements b)] = []" by simp
    then show ?thesis using False get upt by (subst find_src_loop.simps) (simp add: source_eq)
  qed
qed simp

lemma find_src_found:
  assumes inv: "bind_inv b" and i: "i < unat (src_n_elements b)" "srcs b ! i = source ref ep cl"
  shows "aps_find_src_ref ref ep cl b = Some (of_nat i)"
proof -
  note D = bind_invD [OF inv]
  have at: "srcs b ! j = src_table b ! j" if "j < unat (src_n_elements b)" for j using that by (simp add: srcs_def)
  have "find (\<lambda>j. src_table b ! j = source ref ep cl) [0..<unat (src_n_elements b)] = Some i"
    unfolding find_Some_iff
  proof (intro exI [of _ i] conjI allI impI)
    show "src_table b ! ([0..<unat (src_n_elements b)] ! i) = source ref ep cl" using i at [OF i(1)] by simp
    fix j assume "j < i"
    then show "src_table b ! ([0..<unat (src_n_elements b)] ! j) \<noteq> source ref ep cl"
      using i at [of j] nth_eq_iff_index_eq [OF D(5), of j i] D(7) by auto
  qed (use i in simp_all)
  then show ?thesis unfolding aps_find_src_ref_def
    using find_src_loop_ok [OF D(1,3), of 0 ref ep cl] i by simp
qed

lemma find_src_absent:
  assumes inv: "bind_inv b" and no: "source ref ep cl \<notin> set (srcs b)"
  shows "aps_find_src_ref ref ep cl b = Some 0xff \<or> src_n_elements b = 0 \<and> aps_find_src_ref ref ep cl b = Some 0"
proof (cases "src_n_elements b = 0")
  case True
  with bind_invD(1) [OF inv] show ?thesis
    unfolding aps_find_src_ref_def by (simp add: find_src_loop.simps [of 0])
next
  case False
  note D = bind_invD [OF inv]
  have "find (\<lambda>j. src_table b ! j = source ref ep cl) [0..<unat (src_n_elements b)] = None"
    using no D(1,3) by (auto simp: find_None_iff srcs_def in_set_conv_nth)
  then show ?thesis unfolding aps_find_src_ref_def
    using find_src_loop_ok [OF D(1,3), of 0 ref ep cl] False by (simp add: unat_gt_0)
qed

text \<open>The place \<open>zb_apsme_bind_request\<close> uses for a source: its own, or the next one.\<close>

lemma find_src_place:
  assumes inv: "bind_inv b"
  shows "\<exists>s. aps_find_src_ref ref ep cl b = Some s
    \<and> (if source ref ep cl \<in> set (srcs b)
       then s \<noteq> 0xff \<and> unat s < unat (src_n_elements b) \<and> srcs b ! unat s = source ref ep cl
       else (if s = 0xff then src_n_elements b else s) = src_n_elements b)"
proof (cases "source ref ep cl \<in> set (srcs b)")
  case True
  note D = bind_invD [OF inv]
  from True obtain i where i: "i < unat (src_n_elements b)" "srcs b ! i = source ref ep cl"
    using D(7) by (auto simp: in_set_conv_nth)
  with byte_le_32 [of i] D(3) find_src_found [OF inv i] True show ?thesis
    by (intro exI [of _ "of_nat i"]) simp
next
  case False
  with find_src_absent [OF inv False] show ?thesis
    by (elim disjE) (rule exI [of _ "0xff"], simp, rule exI [of _ 0], simp)
qed

section \<open>Binding\<close>

lemma bind_ok:
  assumes inv: "bind_inv b"
    and src: "zb_address_by_ieee (req_src_addr r) True False z = Some (RET_OK, Some ref, z1)"
    and to: "req_destination r z1 = Some (RET_OK, Some to, z2)"
    and room: "unat (dst_n_elements b) < 32"
      "source ref (req_src_endpoint r) (req_clusterid r) \<in> set (srcs b) \<or> unat (src_n_elements b) < 32"
  shows "\<exists>b'. zb_apsme_bind_request r b z = Some (RET_OK, b', z2) \<and> bind_inv b'
    \<and> bindings b' = bindings b @ [(source ref (req_src_endpoint r) (req_clusterid r), to)]"
proof -
  note D = bind_invD [OF inv]
  let ?src = "source ref (req_src_endpoint r) (req_clusterid r)"
  obtain s where f: "aps_find_src_ref ref (req_src_endpoint r) (req_clusterid r) b = Some s"
    and s: "if ?src \<in> set (srcs b) then s \<noteq> 0xff \<and> unat s < unat (src_n_elements b) \<and> srcs b ! unat s = ?src
       else (if s = 0xff then src_n_elements b else s) = src_n_elements b"
    using find_src_place [OF inv] by blast
  have d1: "unat (dst_n_elements b + 1) = Suc (unat (dst_n_elements b))" using D(4) by (rule byte_Suc)
  show ?thesis
  proof (cases "?src \<in> set (srcs b)")
    case True
    then have s': "s \<noteq> 0xff" "unat s < unat (src_n_elements b)" "srcs b ! unat s = ?src" "s \<noteq> src_n_elements b"
      using s by auto
    let ?b = "b\<lparr>dst_table := (dst_table b)[unat (dst_n_elements b) := \<lparr>dst = to, src_table_index = s\<rparr>],
                dst_n_elements := dst_n_elements b + 1\<rparr>"
    have run: "zb_apsme_bind_request r b z = Some (RET_OK, ?b, z2)"
      using src f to room s' D by (simp add: zb_apsme_bind_request_def Let_def zb_config)
    have ds: "dsts ?b = dsts b @ [\<lparr>dst = to, src_table_index = s\<rparr>]"
      using room D d1 by (simp add: dsts_def take_Suc_upd)
    have ss: "srcs ?b = srcs b" by (simp add: srcs_def)
    have "bind_inv ?b"
      using D room d1 s'(2) unfolding bind_inv_def ds ss by (auto simp: idx_def)
    moreover have "bindings ?b = bindings b @ [(?src, to)]"
      unfolding bindings_def ds ss using s' by (simp add: idx_def)
    ultimately show ?thesis using run by blast
  next
    case False
    then have s': "(if s = 0xff then src_n_elements b else s) = src_n_elements b" and n: "unat (src_n_elements b) < 32"
      using s room by auto
    have s1: "unat (src_n_elements b + 1) = Suc (unat (src_n_elements b))" using D(3) by (rule byte_Suc)
    let ?b = "b\<lparr>src_table := (src_table b)[unat (src_n_elements b) := ?src], src_n_elements := src_n_elements b + 1,
                dst_table := (dst_table b)[unat (dst_n_elements b) := \<lparr>dst = to, src_table_index = src_n_elements b\<rparr>],
                dst_n_elements := dst_n_elements b + 1\<rparr>"
    have run: "zb_apsme_bind_request r b z = Some (RET_OK, ?b, z2)"
      using src f to room n D unfolding zb_apsme_bind_request_def Let_def
      by (simp add: zb_config s')
    have ds: "dsts ?b = dsts b @ [\<lparr>dst = to, src_table_index = src_n_elements b\<rparr>]"
      using room D d1 by (simp add: dsts_def take_Suc_upd)
    have ss: "srcs ?b = srcs b @ [?src]" using n D s1 by (simp add: srcs_def take_Suc_upd)
    have "bind_inv ?b"
      using D room d1 s1 n False unfolding bind_inv_def ds ss by (auto simp: idx_def lessThan_Suc)
    moreover have "bindings ?b = bindings b @ [(?src, to)]"
      unfolding bindings_def ds ss using D(7,9) by (auto simp: idx_def nth_append)
    ultimately show ?thesis using run by blast
  qed
qed

section \<open>Unbinding\<close>

definition bound :: "bind_dst \<Rightarrow> u8 \<Rightarrow> zb_aps_bind_dst \<Rightarrow> bool" where
  "bound to s e \<longleftrightarrow> src_table_index e = s \<and> dst e = to"

lemma arr_move_out:
  assumes "length xs = 32" and "d < n" and "n \<le> 32"
  shows "\<exists>t. arr_move xs d (d + 1) (n - 1 - d) = Some t \<and> length t = 32
    \<and> take (n - 1) t = take d xs @ drop (d + 1) (take n xs)"
proof -
  let ?t = "take d xs @ take (n - 1 - d) (drop (d + 1) xs) @ drop (d + (n - 1 - d)) xs"
  have "arr_move xs d (d + 1) (n - 1 - d) = Some ?t" by (rule arr_move_in) (use assms in simp_all)
  moreover have "take (n - 1 - d) (drop (d + 1) xs) = drop (d + 1) (take n xs)"
    using assms by (simp add: drop_take)
  moreover have "length ?t = 32" using assms by simp
  moreover have "take (n - 1) ?t = take d xs @ take (n - 1 - d) (drop (d + 1) xs)"
  proof -
    have "length (take d xs) = d" "length (take (n - 1 - d) (drop (d + 1) xs)) = n - 1 - d" using assms by simp_all
    moreover have "d + (n - 1 - d) = n - 1" using assms by simp
    ultimately show ?thesis by (simp del: length_take)
  qed
  ultimately show ?thesis by auto
qed

lemma unbind_dst_loop_ok:
  assumes "length (dst_table b) = 32" and "unat (dst_n_elements b) \<le> 32" and "d < unat (dst_n_elements b)"
  shows "\<exists>t k. unbind_dst_loop to s d found b
      = Some (found \<or> (\<exists>e \<in> set (drop d (dsts b)). src_table_index e = s \<and> dst e \<noteq> to),
              b\<lparr>dst_table := t, dst_n_elements := k\<rparr>)
    \<and> length t = 32 \<and> unat k \<le> 32
    \<and> take (unat k) t = take d (dsts b) @ filter (\<lambda>e. \<not> bound to s e) (drop d (dsts b))"
  using assms
proof (induction "unat (dst_n_elements b) - d" arbitrary: d found b)
  case (Suc m)
  let ?n = "unat (dst_n_elements b)" and ?e = "dst_table b ! d"
  have at: "drop d (dsts b) = ?e # drop (d + 1) (dsts b)" "take (d + 1) (dsts b) = take d (dsts b) @ [?e]"
    using Suc.prems by (simp_all add: dsts_def Cons_nth_drop_Suc [symmetric] take_Suc_conv_app_nth)
  have td: "take d (dsts b) = take d (dst_table b)" using Suc.prems by (simp add: dsts_def min_def)
  have get: "arr_get (dst_table b) d = Some ?e" using Suc.prems by simp
  show ?case
  proof (cases "bound to s ?e")
    case True
    have n1: "unat (dst_n_elements b - 1) = ?n - 1" using Suc.prems by (intro byte_pred) simp
    obtain t where t: "arr_move (dst_table b) d (d + 1) (?n - 1 - d) = Some t" "length t = 32"
      "take (?n - 1) t = take d (dst_table b) @ drop (d + 1) (take ?n (dst_table b))"
      using arr_move_out [OF Suc.prems(1,3,2)] by blast
    let ?b = "b\<lparr>dst_table := t, dst_n_elements := dst_n_elements b - 1\<rparr>"
    have ds: "dsts ?b = take d (dsts b) @ drop (d + 1) (dsts b)" unfolding td using t(3) n1 by (simp add: dsts_def)
    have step: "unbind_dst_step to s d found b = Some (d, found, ?b)"
      using get True t(1) n1 by (simp add: unbind_dst_step_def bound_def Let_def)
    have lt: "length (take d (dsts b)) = d" using Suc.prems by (simp add: dsts_def)
    have dr: "drop d (dsts ?b) = drop (d + 1) (dsts b)" "take d (dsts ?b) = take d (dsts b)" using lt by (simp_all add: ds)
    show ?thesis
    proof (cases "d < ?n - 1")
      case True': True
      have "\<exists>t' k. unbind_dst_loop to s d found ?b
        = Some (found \<or> (\<exists>e \<in> set (drop d (dsts ?b)). src_table_index e = s \<and> dst e \<noteq> to),
              ?b\<lparr>dst_table := t', dst_n_elements := k\<rparr>)
        \<and> length t' = 32 \<and> unat k \<le> 32
        \<and> take (unat k) t' = take d (dsts ?b) @ filter (\<lambda>e. \<not> bound to s e) (drop d (dsts ?b))"
        by (rule Suc.hyps(1)) (use Suc.hyps(2) Suc.prems n1 t(2) True' in simp_all)
      then show ?thesis
        unfolding unbind_dst_loop.simps [of to s d found b] step option.case prod.case dr at
        using True True' n1 by (simp add: bound_def)
    next
      case False
      then have "drop (d + 1) (dsts b) = []" using Suc.prems by (simp add: dsts_def)
      moreover have "take (?n - 1) t = dsts ?b" using n1 by (simp add: dsts_def)
      ultimately show ?thesis
        unfolding unbind_dst_loop.simps [of to s d found b] step option.case prod.case at
        using True False n1 t(2) Suc.prems ds
        by (intro exI [of _ t] exI [of _ "dst_n_elements b - 1"]) (simp add: bound_def)
    qed
  next
    case False
    have step: "unbind_dst_step to s d found b = Some (d + 1, found \<or> src_table_index ?e = s, b)"
      using get False by (auto simp: unbind_dst_step_def bound_def)
    show ?thesis
    proof (cases "d + 1 < ?n")
      case True
      obtain t' k where "unbind_dst_loop to s (d + 1) (found \<or> src_table_index ?e = s) b
        = Some ((found \<or> src_table_index ?e = s) \<or> (\<exists>e \<in> set (drop (d + 1) (dsts b)). src_table_index e = s \<and> dst e \<noteq> to),
              b\<lparr>dst_table := t', dst_n_elements := k\<rparr>)"
        and k: "length t' = 32" "unat k \<le> 32"
        "take (unat k) t' = take (d + 1) (dsts b) @ filter (\<lambda>e. \<not> bound to s e) (drop (d + 1) (dsts b))"
        using Suc.hyps(1) [where d = "d + 1" and b = b and found = "found \<or> src_table_index ?e = s"]
          Suc.hyps(2) Suc.prems True by (elim meta_impE) (simp, simp, simp, simp, blast)
      then show ?thesis
        unfolding unbind_dst_loop.simps [of to s d found b] step option.case prod.case at
        using True False by (intro exI [of _ t'] exI [of _ k]) (auto simp: bound_def)
    next
      case False': False
      then have "drop (d + 1) (dsts b) = []" using Suc.prems by (simp add: dsts_def)
      moreover have "take ?n (dst_table b) = take d (dsts b) @ [?e]"
      proof -
        have "?n = Suc d" using False' Suc.prems by simp
        then show ?thesis using Suc.prems by (simp add: dsts_def take_Suc_conv_app_nth)
      qed
      moreover have "b = b\<lparr>dst_table := dst_table b, dst_n_elements := dst_n_elements b\<rparr>" by simp
      ultimately show ?thesis
        unfolding unbind_dst_loop.simps [of to s d found b] step option.case prod.case at
        using False False' Suc.prems
        by (intro exI [of _ "dst_table b"] exI [of _ "dst_n_elements b"]) (auto simp: bound_def)
    qed
  qed
qed simp

definition dec_index :: "u8 \<Rightarrow> zb_aps_bind_dst \<Rightarrow> zb_aps_bind_dst" where
  "dec_index s e = (if s < src_table_index e then e\<lparr>src_table_index := src_table_index e - 1\<rparr> else e)"

lemma dec_index_loop_ok:
  assumes "length (dst_table b) = 32" and "unat (dst_n_elements b) \<le> 32" and "d < 32"
  shows "\<exists>t. dec_index_loop s d b = Some (b\<lparr>dst_table := t\<rparr>) \<and> length t = 32
    \<and> (d \<le> unat (dst_n_elements b) \<longrightarrow>
        take (unat (dst_n_elements b)) t = take d (dsts b) @ map (dec_index s) (drop d (dsts b)))"
  using assms
proof (induction "32 - d" arbitrary: d b)
  case (Suc m)
  let ?n = "unat (dst_n_elements b)"
  let ?b = "b\<lparr>dst_table := (dst_table b)[d := dec_index s (dst_table b ! d)]\<rparr>"
  have step: "dec_index_loop s d b = (if d + 1 < ?n then dec_index_loop s (d + 1) ?b else Some ?b)"
    using Suc.prems by (subst dec_index_loop.simps) (simp add: dec_index_def Let_def)
  have dsb: "dsts ?b = (if d < ?n then (dsts b)[d := dec_index s (dst_table b ! d)] else dsts b)"
    by (simp add: dsts_def take_update_swap list_update_beyond)
  show ?case
  proof (cases "d + 1 < ?n")
    case True
    have nth: "dsts b ! d = dst_table b ! d" "d < length (dsts b)" using True Suc.prems by (simp_all add: dsts_def)
    obtain t where t: "dec_index_loop s (d + 1) ?b = Some (?b\<lparr>dst_table := t\<rparr>)" "length t = 32"
      "take ?n t = take (d + 1) (dsts ?b) @ map (dec_index s) (drop (d + 1) (dsts ?b))"
    proof -
      have "\<exists>t. dec_index_loop s (d + 1) ?b = Some (?b\<lparr>dst_table := t\<rparr>) \<and> length t = 32
        \<and> (d + 1 \<le> unat (dst_n_elements ?b) \<longrightarrow> take (unat (dst_n_elements ?b)) t
           = take (d + 1) (dsts ?b) @ map (dec_index s) (drop (d + 1) (dsts ?b)))"
        by (rule Suc.hyps(1)) (use Suc.hyps(2) Suc.prems True in simp_all)
      moreover have "dst_n_elements ?b = dst_n_elements b" by simp
      ultimately show ?thesis using that True by (metis less_imp_le)
    qed
    have "take (d + 1) (dsts ?b) = take d (dsts b) @ [dec_index s (dst_table b ! d)]"
      "drop (d + 1) (dsts ?b) = drop (d + 1) (dsts b)"
      using True nth by (simp_all add: dsb take_Suc_upd)
    moreover have "drop d (dsts b) = dst_table b ! d # drop (d + 1) (dsts b)"
      using nth Cons_nth_drop_Suc [of d "dsts b"] by simp
    ultimately show ?thesis using step True t by (intro exI [of _ t]) simp
  next
    case False
    have "take ?n ((dst_table b)[d := dec_index s (dst_table b ! d)]) = take d (dsts b) @ map (dec_index s) (drop d (dsts b))"
      if "d \<le> ?n"
    proof (cases "d = ?n")
      case False': False
      then have n: "?n = Suc d" using False that by simp
      then have "drop d (dsts b) = [dst_table b ! d]" using Suc.prems
        by (simp add: dsts_def take_Suc_conv_app_nth)
      then show ?thesis using n Suc.prems by (simp add: dsts_def take_Suc_upd)
    qed (simp add: dsts_def)
    then show ?thesis using step False Suc.prems
      by (intro exI [of _ "(dst_table b)[d := dec_index s (dst_table b ! d)]"]) simp
  qed
qed simp


lemma remove_src_ok:
  assumes "length (src_table b) = 32" and "length (dst_table b) = 32" and "unat s < unat (src_n_elements b)"
    and "unat (src_n_elements b) \<le> 32" and "unat (dst_n_elements b) \<le> 32"
  shows "\<exists>b'. remove_src s b = Some b' \<and> length (src_table b') = 32 \<and> length (dst_table b') = 32
    \<and> unat (src_n_elements b') = unat (src_n_elements b) - 1 \<and> dst_n_elements b' = dst_n_elements b
    \<and> srcs b' = take (unat s) (srcs b) @ drop (unat s + 1) (srcs b)
    \<and> dsts b' = map (dec_index s) (dsts b)"
proof -
  let ?n = "unat (src_n_elements b)"
  have n1: "unat (src_n_elements b - 1) = ?n - 1" using assms(3) by (intro byte_pred) simp
  obtain t where t: "arr_move (src_table b) (unat s) (unat s + 1) (?n - 1 - unat s) = Some t" "length t = 32"
    "take (?n - 1) t = take (unat s) (src_table b) @ drop (unat s + 1) (take ?n (src_table b))"
    using arr_move_out [OF assms(1,3,4)] by blast
  let ?b = "b\<lparr>src_table := t, src_n_elements := src_n_elements b - 1\<rparr>"
  have dl: "length (dst_table ?b) = 32" "unat (dst_n_elements ?b) \<le> 32" "(0::nat) < 32" using assms by simp_all
  obtain t' where t': "dec_index_loop s 0 ?b = Some (?b\<lparr>dst_table := t'\<rparr>)" "length t' = 32"
    "take (unat (dst_n_elements ?b)) t' = map (dec_index s) (dsts ?b)"
    using dec_index_loop_ok [OF dl, of s] by auto
  have "remove_src s b = Some (?b\<lparr>dst_table := t'\<rparr>)"
    using t(1) t'(1) n1 by (simp add: remove_src_def Let_def)
  moreover have "take (unat s) (src_table b) = take (unat s) (srcs b)"
    using assms(3) by (simp add: srcs_def min_def)
  ultimately show ?thesis using t t' n1 by (auto simp: srcs_def dsts_def)
qed

lemma nth_take_drop_Suc:
  "i < length xs \<Longrightarrow> i \<noteq> s \<Longrightarrow> s < length xs
    \<Longrightarrow> (take s xs @ drop (s + 1) xs) ! (if s < i then i - 1 else i) = xs ! i"
  by (auto simp: nth_append)

lemma distinct_without_nth:
  assumes "distinct xs"
  shows "distinct (take s xs @ drop (s + 1) xs)"
  using assms set_take_disj_set_drop_if_distinct [OF assms, of s "s + 1"] by auto

lemma idx_dec_index:
  assumes "idx e \<noteq> unat s"
  shows "idx (dec_index s e) = (if unat s < idx e then idx e - 1 else idx e)"
  using assms by (auto simp: idx_def dec_index_def word_less_nat_alt byte_pred)

lemma dst_dec_index [simp]: "dst (dec_index s e) = dst e"
  by (simp add: dec_index_def)

text \<open>Taking \<open>s\<close> out of the indices below \<open>n\<close> leaves those below \<open>n - 1\<close>.\<close>

lemma image_shift_down:
  assumes "s < (n::nat)" and "A = {..<n} - {s}"
  shows "(\<lambda>i. if s < i then i - 1 else i) ` A = {..<n - 1}"
proof
  show "(\<lambda>i. if s < i then i - 1 else i) ` A \<subseteq> {..<n - 1}" using assms by auto
  show "{..<n - 1} \<subseteq> (\<lambda>i. if s < i then i - 1 else i) ` A"
  proof
    fix j assume "j \<in> {..<n - 1}"
    then have "(if j < s then j else j + 1) \<in> A" "j = (\<lambda>i. if s < i then i - 1 else i) (if j < s then j else j + 1)"
      using assms by auto
    then show "j \<in> (\<lambda>i. if s < i then i - 1 else i) ` A" by (rule rev_image_eqI)
  qed
qed


lemma idx_eq: "idx e = unat s \<longleftrightarrow> src_table_index e = s"
  by (auto simp: idx_def intro: word_eq_iff_unsigned [THEN iffD2])

lemma bound_iff:
  assumes inv: "bind_inv b" and e: "e \<in> set (dsts b)"
    and s: "unat s < unat (src_n_elements b)" "srcs b ! unat s = src"
  shows "bound to s e \<longleftrightarrow> (srcs b ! idx e, dst e) = (src, to)"
proof -
  note D = bind_invD [OF inv]
  have "src_table_index e = s \<longleftrightarrow> idx e = unat s" by (simp add: idx_eq)
  also have "\<dots> \<longleftrightarrow> srcs b ! idx e = src"
    using nth_eq_iff_index_eq [OF D(5), of "idx e" "unat s"] D(7) D(9) [OF e] s by auto
  finally show ?thesis by (simp add: bound_def)
qed

lemma map_filter_bound:
  assumes inv: "bind_inv b" and s: "unat s < unat (src_n_elements b)" "srcs b ! unat s = src"
  shows "map (\<lambda>e. (srcs b ! idx e, dst e)) (filter (\<lambda>e. \<not> bound to s e) (dsts b))
    = filter (\<lambda>p. p \<noteq> (src, to)) (bindings b)"
  unfolding bindings_def filter_map comp_def
  by (intro arg_cong [of _ _ "map _"] filter_cong refl) (use bound_iff [OF inv _ s] in blast)

text \<open>The loop alone is enough while the source has another destination.\<close>

lemma unbind_keeps_src:
  assumes inv: "bind_inv b" and s: "unat s < unat (src_n_elements b)" "srcs b ! unat s = src"
    and b1: "src_table b1 = src_table b" "src_n_elements b1 = src_n_elements b"
      "length (dst_table b1) = 32" "unat (dst_n_elements b1) \<le> 32"
      "dsts b1 = filter (\<lambda>e. \<not> bound to s e) (dsts b)"
    and other: "\<exists>e \<in> set (dsts b). src_table_index e = s \<and> dst e \<noteq> to"
  shows "bind_inv b1 \<and> bindings b1 = filter (\<lambda>p. p \<noteq> (src, to)) (bindings b)"
proof
  note D = bind_invD [OF inv]
  have ss: "srcs b1 = srcs b" using b1 by (simp add: srcs_def)
  have "idx ` set (dsts b1) = idx ` set (dsts b)"
  proof
    show "idx ` set (dsts b1) \<subseteq> idx ` set (dsts b)" unfolding b1(5) by auto
    show "idx ` set (dsts b) \<subseteq> idx ` set (dsts b1)"
    proof
      fix j assume "j \<in> idx ` set (dsts b)"
      then obtain e where e: "e \<in> set (dsts b)" "j = idx e" by blast
      obtain e' where e': "e' \<in> set (dsts b)" "src_table_index e' = s" "dst e' \<noteq> to" using other by blast
      show "j \<in> idx ` set (dsts b1)"
        unfolding b1(5) using e e' by (cases "src_table_index e = s") (auto simp: bound_def idx_def)
    qed
  qed
  then show "bind_inv b1" using D b1 ss by (simp add: bind_inv_def)
  show "bindings b1 = filter (\<lambda>p. p \<noteq> (src, to)) (bindings b)"
    using map_filter_bound [OF inv s] ss b1(5) by (simp add: bindings_def)
qed

text \<open>Otherwise the source goes too, and the sources behind it move down.\<close>

lemma unbind_drops_src:
  assumes inv: "bind_inv b" and s: "unat s < unat (src_n_elements b)" "srcs b ! unat s = src"
    and b1: "src_table b1 = src_table b" "src_n_elements b1 = src_n_elements b"
      "length (dst_table b1) = 32" "unat (dst_n_elements b1) \<le> 32"
      "dsts b1 = filter (\<lambda>e. \<not> bound to s e) (dsts b)"
    and last_one: "\<not> (\<exists>e \<in> set (dsts b). src_table_index e = s \<and> dst e \<noteq> to)"
  shows "\<exists>b2. remove_src s b1 = Some b2 \<and> bind_inv b2 \<and> bindings b2 = filter (\<lambda>p. p \<noteq> (src, to)) (bindings b)"
proof -
  note D = bind_invD [OF inv]
  let ?n = "unat (src_n_elements b)" and ?shift = "\<lambda>i. if unat s < i then i - 1 else i"
  have ss: "srcs b1 = srcs b" using b1 by (simp add: srcs_def)
  obtain b2 where b2: "remove_src s b1 = Some b2" "length (src_table b2) = 32" "length (dst_table b2) = 32"
    "unat (src_n_elements b2) = ?n - 1" "dst_n_elements b2 = dst_n_elements b1"
    "srcs b2 = take (unat s) (srcs b) @ drop (unat s + 1) (srcs b)" "dsts b2 = map (dec_index s) (dsts b1)"
    using remove_src_ok [of b1 s] D b1 s ss by auto
  have sub: "e \<in> set (dsts b) \<and> idx e \<noteq> unat s" if "e \<in> set (dsts b1)" for e
    using that last_one unfolding b1(5) by (auto simp: bound_def idx_eq)
  have "set (dsts b1) = {e \<in> set (dsts b). idx e \<noteq> unat s}"
    using last_one by (auto simp: b1(5) bound_def idx_eq)
  then have "idx ` set (dsts b1) = idx ` set (dsts b) - {unat s}" by auto
  then have img: "idx ` set (dsts b1) = {..<?n} - {unat s}" using D(6) by simp
  have "idx ` set (dsts b2) = ?shift ` idx ` set (dsts b1)"
    unfolding b2(7) set_map image_image by (rule image_cong) (use sub idx_dec_index in auto)
  also have "\<dots> = {..<?n - 1}" using s(1) img by (rule image_shift_down)
  finally have "bind_inv b2"
    using D(3) b2 b1(4) distinct_without_nth [OF D(5)] by (simp add: bind_inv_def)
  moreover have "bindings b2 = map (\<lambda>e. (srcs b ! idx e, dst e)) (dsts b1)"
    unfolding bindings_def b2(7) map_map comp_def
  proof (rule map_cong [OF refl])
    fix e assume "e \<in> set (dsts b1)"
    with sub have e: "e \<in> set (dsts b)" "idx e \<noteq> unat s" by blast+
    then show "(srcs b2 ! idx (dec_index s e), dst (dec_index s e)) = (srcs b ! idx e, dst e)"
      using nth_take_drop_Suc [of "idx e" "srcs b" "unat s"] idx_dec_index [OF e(2)] D(7,9) s(1) b2(6) by simp
  qed
  ultimately show ?thesis using b2(1) map_filter_bound [OF inv s] b1(5) by auto
qed

lemma unbind_ok:
  assumes inv: "bind_inv b"
    and src: "zb_address_by_ieee (req_src_addr r) False False z = Some (RET_OK, Some ref, z1)"
    and to: "req_destination r z1 = Some (RET_OK, Some to, z2)"
    and known: "source ref (req_src_endpoint r) (req_clusterid r) \<in> set (srcs b)"
  shows "\<exists>b'. zb_apsme_unbind_request r b z = Some (RET_OK, b', z2) \<and> bind_inv b'
    \<and> bindings b' = filter (\<lambda>p. p \<noteq> (source ref (req_src_endpoint r) (req_clusterid r), to)) (bindings b)"
proof -
  note D = bind_invD [OF inv]
  let ?src = "source ref (req_src_endpoint r) (req_clusterid r)"
  obtain s where f: "aps_find_src_ref ref (req_src_endpoint r) (req_clusterid r) b = Some s"
    and s: "s \<noteq> 0xff" "unat s < unat (src_n_elements b)" "srcs b ! unat s = ?src"
    using find_src_place [OF inv] known by metis
  have n: "0 < unat (dst_n_elements b)" using D(6,8) s(2) by (cases "dsts b") auto
  let ?found = "\<exists>e \<in> set (dsts b). src_table_index e = s \<and> dst e \<noteq> to"
  obtain t k where loop: "unbind_dst_loop to s 0 False b = Some (?found, b\<lparr>dst_table := t, dst_n_elements := k\<rparr>)"
    and t: "length t = 32" "unat k \<le> 32" "take (unat k) t = filter (\<lambda>e. \<not> bound to s e) (dsts b)"
    using unbind_dst_loop_ok [OF D(2,4) n, of to s False] by auto
  let ?b1 = "b\<lparr>dst_table := t, dst_n_elements := k\<rparr>"
  have b1: "src_table ?b1 = src_table b" "src_n_elements ?b1 = src_n_elements b" "length (dst_table ?b1) = 32"
    "unat (dst_n_elements ?b1) \<le> 32" "dsts ?b1 = filter (\<lambda>e. \<not> bound to s e) (dsts b)"
    using t by (simp_all add: dsts_def)
  have run: "zb_apsme_unbind_request r b z
    = (if ?found then Some (RET_OK, ?b1, z2) else do { b2 \<leftarrow> remove_src s ?b1; Some (RET_OK, b2, z2) })"
  proof -
    have "zb_apsme_unbind_request r b z = Some (RET_OK, ?b1, z2)" if ?found
    proof -
      from that loop have "unbind_dst_loop to s 0 False b = Some (True, ?b1)" by simp
      then show ?thesis using src f s(1) to by (simp add: zb_apsme_unbind_request_def)
    qed
    moreover have "zb_apsme_unbind_request r b z = do { b2 \<leftarrow> remove_src s ?b1; Some (RET_OK, b2, z2) }" if "\<not> ?found"
    proof -
      from that loop have "unbind_dst_loop to s 0 False b = Some (False, ?b1)" by simp
      then show ?thesis using src f s(1) to by (simp add: zb_apsme_unbind_request_def)
    qed
    ultimately show ?thesis by (simp only: if_split) blast
  qed
  show ?thesis
  proof (cases ?found)
    case True
    with run unbind_keeps_src [OF inv s(2,3) b1 True] show ?thesis by auto
  next
    case False
    with run unbind_drops_src [OF inv s(2,3) b1 False] show ?thesis by auto
  qed
qed


section \<open>Full tables and a concrete run\<close>

lemma bind_full:
  assumes inv: "bind_inv b"
    and src: "zb_address_by_ieee (req_src_addr r) True False z = Some (RET_OK, Some ref, z1)"
    and full: "unat (dst_n_elements b) = 32
      \<or> source ref (req_src_endpoint r) (req_clusterid r) \<notin> set (srcs b) \<and> unat (src_n_elements b) = 32"
  shows "zb_apsme_bind_request r b z = Some (ZB_ZDP_STATUS_TABLE_FULL, b, z1)"
proof -
  let ?src = "source ref (req_src_endpoint r) (req_clusterid r)"
  obtain s where f: "aps_find_src_ref ref (req_src_endpoint r) (req_clusterid r) b = Some s"
    and s: "if ?src \<in> set (srcs b) then s \<noteq> 0xff \<and> unat s < unat (src_n_elements b) \<and> srcs b ! unat s = ?src
       else (if s = 0xff then src_n_elements b else s) = src_n_elements b"
    using find_src_place [OF inv] by blast
  have no: "\<not> (unat (if s = 0xff then src_n_elements b else s) < 32 \<and> unat (dst_n_elements b) < 32)"
    using full s by (auto split: if_splits)
  show ?thesis
    by (simp only: zb_apsme_bind_request_def Let_def zb_config src f no Option.bind.simps prod.case refl if_True if_False)
qed

definition binding_cleared :: zb_aps_binding_table where
  "binding_cleared =
     \<lparr>src_table = replicate 32 \<lparr>src_addr = 0, src_end = 0, cluster_id = 0\<rparr>,
      dst_table = replicate 32 \<lparr>dst = Dst_group 0, src_table_index = 0\<rparr>,
      src_n_elements = 0, dst_n_elements = 0\<rparr>"

definition lamp_req :: "u16 \<Rightarrow> zb_apsme_binding_req" where
  "lamp_req g = \<lparr>req_src_addr = [8, 7, 6, 5, 4, 3, 2, 1], req_src_endpoint = 1, req_clusterid = 6,
     req_addr_mode = ZB_APS_ADDR_MODE_16_GROUP_ENDP_NOT_PRESENT, req_dst_short = g,
     req_dst_long = [], req_dst_endpoint = 0\<rparr>"

lemma binding_cleared_inv: "bind_inv binding_cleared" "srcs binding_cleared = []" "bindings binding_cleared = []"
  by (simp_all add: bind_inv_def binding_cleared_def srcs_def dsts_def bindings_def)

lemma req_group:
  "req_destination (lamp_req g) z = Some (RET_OK, Some (Dst_group g), z)"
  by (simp add: req_destination_def lamp_req_def ZB_APS_ADDR_MODE_16_GROUP_ENDP_NOT_PRESENT_def
      ZB_APS_ADDR_MODE_64_ENDP_PRESENT_def)

abbreviation lamp :: zb_ieee_addr where
  "lamp \<equiv> [8, 7, 6, 5, 4, 3, 2, 1]"

lemma lamp_req_sel [simp]:
  "req_src_addr (lamp_req g) = lamp" "req_src_endpoint (lamp_req g) = 1" "req_clusterid (lamp_req g) = 6"
  by (simp_all add: lamp_req_def)

section \<open>Properties of binding\<close>

text \<open>
  Binding with room in the tables succeeds and appends the one pair of source and destination to
  the list of bindings; a source that is already there is shared, a new one takes the next place.
\<close>

theorem bind_appends:
  assumes inv: "bind_inv b"
    and src: "zb_address_by_ieee (req_src_addr r) True False z = Some (RET_OK, Some ref, z1)"
    and to: "req_destination r z1 = Some (RET_OK, Some to, z2)"
    and room: "unat (dst_n_elements b) < 32"
      "source ref (req_src_endpoint r) (req_clusterid r) \<in> set (srcs b) \<or> unat (src_n_elements b) < 32"
  shows "\<exists>b'. zb_apsme_bind_request r b z = Some (RET_OK, b', z2) \<and> bind_inv b'
    \<and> bindings b' = bindings b @ [(source ref (req_src_endpoint r) (req_clusterid r), to)]"
  by (rule bind_ok [OF assms])

theorem bind_appends_witness:
  "\<exists>r z b. zb_apsme_bind_request (lamp_req 5) binding_cleared z = Some (RET_OK, b, touch r z)
    \<and> bindings b = [(source r 1 6, Dst_group 5)]"
proof -
  obtain r z where k: "known_ieee lamp r z" using known_exists by blast
  show ?thesis
    using bind_appends [OF binding_cleared_inv(1), of "lamp_req 5" z r "touch r z" "Dst_group 5" "touch r z"]
      known_by_ieee(1) [OF k, of True] req_group binding_cleared_inv(3)
    by (simp add: binding_cleared_def) blast
qed

text \<open>
  C39. Unbinding succeeds for a source that has bindings: the binding disappears from the list of
  bindings and nothing else does; a source left without destinations is removed, and the indices of
  the other destinations are corrected.
\<close>

theorem unbind_removes:
  assumes inv: "bind_inv b"
    and src: "zb_address_by_ieee (req_src_addr r) False False z = Some (RET_OK, Some ref, z1)"
    and to: "req_destination r z1 = Some (RET_OK, Some to, z2)"
    and known: "source ref (req_src_endpoint r) (req_clusterid r) \<in> set (srcs b)"
  shows "\<exists>b'. zb_apsme_unbind_request r b z = Some (RET_OK, b', z2) \<and> bind_inv b'
    \<and> bindings b' = filter (\<lambda>p. p \<noteq> (source ref (req_src_endpoint r) (req_clusterid r), to)) (bindings b)"
  by (rule unbind_ok [OF assms])

lemma bindings_src: "bind_inv b \<Longrightarrow> (s, to) \<in> set (bindings b) \<Longrightarrow> s \<in> set (srcs b)"
  using bind_invD(7,9) [of b] by (auto simp: bindings_def)

theorem unbind_removes_witness:
  "\<exists>r z b b'. zb_apsme_bind_request (lamp_req 5) binding_cleared z = Some (RET_OK, b, touch r z)
    \<and> zb_apsme_unbind_request (lamp_req 5) b (touch r z) = Some (RET_OK, b', touch r (touch r z)) \<and> bindings b' = []"
proof -
  obtain r z where k: "known_ieee lamp r z" using known_exists by blast
  note k2 = known_by_ieee(2) [OF k]
  obtain b where b: "zb_apsme_bind_request (lamp_req 5) binding_cleared z = Some (RET_OK, b, touch r z)"
    "bind_inv b" "bindings b = [(source r 1 6, Dst_group 5)]"
    using bind_ok [OF binding_cleared_inv(1), of "lamp_req 5" z r "touch r z" "Dst_group 5" "touch r z"]
      known_by_ieee(1) [OF k, of True] req_group binding_cleared_inv(3)
    by (simp add: binding_cleared_def) blast
  have "source r 1 6 \<in> set (srcs b)" using bindings_src [OF b(2)] b(3) by auto
  then show ?thesis
    using unbind_removes [OF b(2), of "lamp_req 5" "touch r z" r "touch r (touch r z)" "Dst_group 5" "touch r (touch r z)"]
      known_by_ieee(1) [OF k2, of False] req_group b by auto
qed

text \<open>
  The loops look at the first entry of an empty table too. After a binding has been removed, its
  source and destination are still in the first places of the two tables, now empty: unbinding it
  once more finds them, takes the number of destinations from 0 to 255 and moves memory beyond
  the end of the table.
\<close>

theorem unbind_again_overruns:
  assumes "known_ieee lamp r z"
  shows "do { (s1, b, z) \<leftarrow> zb_apsme_bind_request (lamp_req 5) binding_cleared z;
              (s2, b, z) \<leftarrow> zb_apsme_unbind_request (lamp_req 5) b z;
              Some (s1, s2, unat (dst_n_elements b), zb_apsme_unbind_request (lamp_req 5) b z = None) }
    = Some (RET_OK, RET_OK, 0, True)"
proof -
  let ?b1 = "\<lparr>src_table = (replicate 32 (source 0 0 0))[0 := source r 1 6],
     dst_table = (replicate 32 \<lparr>dst = Dst_group 0, src_table_index = 0\<rparr>)[0 := \<lparr>dst = Dst_group 5, src_table_index = 0\<rparr>],
     src_n_elements = 1, dst_n_elements = 1\<rparr>"
  let ?b2 = "?b1\<lparr>src_n_elements := 0, dst_n_elements := 0\<rparr>"
  note k1 = known_by_ieee(2) [OF assms]
  note k2 = known_by_ieee(2) [OF k1]
  note eval = aps_find_src_ref_def find_src_loop.simps [of 0] unbind_dst_loop.simps [of _ _ 0] unbind_dst_step_def
    dec_index_loop.simps [of _ 0] remove_src_def arr_move_def Let_def
  have "zb_apsme_bind_request (lamp_req 5) binding_cleared z = Some (RET_OK, ?b1, touch r z)"
    using known_by_ieee(1) [OF assms, of True] req_group
    by (simp add: zb_apsme_bind_request_def binding_cleared_def zb_config eval)
  moreover have "zb_apsme_unbind_request (lamp_req 5) ?b1 (touch r z) = Some (RET_OK, ?b2, touch r (touch r z))"
    using known_by_ieee(1) [OF k1, of False] req_group
    by (simp add: zb_apsme_unbind_request_def eval)
  moreover have "zb_apsme_unbind_request (lamp_req 5) ?b2 (touch r (touch r z)) = None"
  proof -
    have "(- 1 :: u8) = 255" and "unat (255 :: u8) = 255" by simp_all
    then have "unat (- 1 :: u8) = 255" by metis
    then show ?thesis using known_by_ieee(1) [OF k2, of False] req_group
      by (simp add: zb_apsme_unbind_request_def eval)
  qed
  ultimately show ?thesis by simp
qed

theorem unbind_again_overruns_witness:
  "\<exists>z. do { (s1, b, z) \<leftarrow> zb_apsme_bind_request (lamp_req 5) binding_cleared z;
              (s2, b, z) \<leftarrow> zb_apsme_unbind_request (lamp_req 5) b z;
              Some (s1, s2, unat (dst_n_elements b), zb_apsme_unbind_request (lamp_req 5) b z = None) }
    = Some (RET_OK, RET_OK, 0, True)"
proof -
  obtain r z where "known_ieee lamp r z" using known_exists by blast
  from unbind_again_overruns [OF this] show ?thesis by blast
qed

section \<open>Groups\<close>

text \<open>The group table as the set of its memberships.\<close>

definition ent_members :: "zb_aps_group_table_ent \<Rightarrow> (u16 \<times> u8) set" where
  "ent_members e = (\<lambda>j. (group_addr e, endpoints e ! j)) ` {..<n_endpoints e}"

definition members :: "zb_aps_group_table \<Rightarrow> (u16 \<times> u8) set" where
  "members t = (\<Union>i<n_groups t. ent_members (groups t ! i))"

definition group_inv :: "zb_aps_group_table \<Rightarrow> bool" where
  "group_inv t \<longleftrightarrow> length (groups t) = 16 \<and> n_groups t \<le> 16
     \<and> (\<forall>i < 16. length (endpoints (groups t ! i)) = 8)
     \<and> (\<forall>i < n_groups t. n_endpoints (groups t ! i) \<le> 8)
     \<and> inj_on (\<lambda>i. group_addr (groups t ! i)) {..<n_groups t}"

lemma find_group_spec:
  "i + k \<le> length (groups t) \<Longrightarrow> \<exists>j. find_group k i ga t = Some j \<and> i \<le> j \<and> j \<le> i + k
    \<and> (\<forall>q. i \<le> q \<longrightarrow> q < j \<longrightarrow> group_addr (groups t ! q) \<noteq> ga)
    \<and> (j < i + k \<longrightarrow> group_addr (groups t ! j) = ga)"
proof (induction k i ga t rule: find_group.induct)
  case (2 k i ga t)
  show ?case
  proof (cases "group_addr (groups t ! i) = ga")
    case False
    from False "2.prems" have step: "find_group (Suc k) i ga t = find_group k (i + 1) ga t" by simp
    have "\<exists>j. find_group k (i + 1) ga t = Some j \<and> i + 1 \<le> j \<and> j \<le> i + 1 + k
      \<and> (\<forall>q. i + 1 \<le> q \<longrightarrow> q < j \<longrightarrow> group_addr (groups t ! q) \<noteq> ga)
      \<and> (j < i + 1 + k \<longrightarrow> group_addr (groups t ! j) = ga)"
      by (rule "2.IH") (use "2.prems" False in \<open>auto simp: arr_get_def\<close>)
    then obtain j where j: "find_group k (i + 1) ga t = Some j" "i + 1 \<le> j" "j \<le> i + 1 + k"
      "\<forall>q. i + 1 \<le> q \<longrightarrow> q < j \<longrightarrow> group_addr (groups t ! q) \<noteq> ga"
      "j < i + 1 + k \<longrightarrow> group_addr (groups t ! j) = ga" by blast
    have "group_addr (groups t ! q) \<noteq> ga" if "i \<le> q" "q < j" for q
      using that False j(4) by (cases "q = i") simp_all
    with step j show ?thesis by (intro exI [of _ j]) simp
  qed (use "2.prems" in auto)
qed simp

lemma find_endpoint_spec:
  "j + k \<le> length es \<Longrightarrow> \<exists>l. find_endpoint k j ep es = Some l \<and> j \<le> l \<and> l \<le> j + k
    \<and> (\<forall>q. j \<le> q \<longrightarrow> q < l \<longrightarrow> es ! q \<noteq> ep) \<and> (l < j + k \<longrightarrow> es ! l = ep)"
proof (induction k j ep es rule: find_endpoint.induct)
  case (2 k j ep es)
  show ?case
  proof (cases "es ! j = ep")
    case False
    from False "2.prems" have step: "find_endpoint (Suc k) j ep es = find_endpoint k (j + 1) ep es" by simp
    have "\<exists>l. find_endpoint k (j + 1) ep es = Some l \<and> j + 1 \<le> l \<and> l \<le> j + 1 + k
      \<and> (\<forall>q. j + 1 \<le> q \<longrightarrow> q < l \<longrightarrow> es ! q \<noteq> ep) \<and> (l < j + 1 + k \<longrightarrow> es ! l = ep)"
      by (rule "2.IH") (use "2.prems" False in \<open>auto simp: arr_get_def\<close>)
    then obtain l where l: "find_endpoint k (j + 1) ep es = Some l" "j + 1 \<le> l" "l \<le> j + 1 + k"
      "\<forall>q. j + 1 \<le> q \<longrightarrow> q < l \<longrightarrow> es ! q \<noteq> ep" "l < j + 1 + k \<longrightarrow> es ! l = ep" by blast
    have "es ! q \<noteq> ep" if "j \<le> q" "q < l" for q
      using that False l(4) by (cases "q = j") simp_all
    with step l show ?thesis by (intro exI [of _ l]) simp
  qed (use "2.prems" in auto)
qed simp

lemma members_iff: "(ga, ep) \<in> members t \<longleftrightarrow>
    (\<exists>i < n_groups t. group_addr (groups t ! i) = ga \<and> (\<exists>j < n_endpoints (groups t ! i). endpoints (groups t ! i) ! j = ep))"
  by (auto simp: members_def ent_members_def)

lemma members_update:
  assumes "i < n_groups t" and "n_groups t \<le> length (groups t)"
    and "ent_members e = insert x (ent_members (groups t ! i))"
  shows "members (t\<lparr>groups := (groups t)[i := e]\<rparr>) = insert x (members t)"
proof -
  have "ent_members ((groups t)[i := e] ! q) = (if q = i then insert x (ent_members (groups t ! q)) else ent_members (groups t ! q))"
    if "q < n_groups t" for q using that assms by (auto simp: nth_list_update)
  then have "members (t\<lparr>groups := (groups t)[i := e]\<rparr>)
    = (\<Union>q<n_groups t. if q = i then insert x (ent_members (groups t ! q)) else ent_members (groups t ! q))"
    by (simp add: members_def)
  also have "\<dots> = insert x (members t)" using assms(1) by (auto simp: members_def split: if_splits)
  finally show ?thesis .
qed

text \<open>The two places a new member can go to.\<close>

lemma join_group:
  assumes inv: "group_inv t" and i: "i < n_groups t" "group_addr (groups t ! i) = ga"
    and n: "n_endpoints (groups t ! i) < 8"
  defines "e \<equiv> groups t ! i"
  shows "let t' = t\<lparr>groups := (groups t)[i := e\<lparr>endpoints := (endpoints e)[n_endpoints e := ep], n_endpoints := n_endpoints e + 1\<rparr>]\<rparr>
    in group_inv t' \<and> members t' = insert (ga, ep) (members t)"
proof -
  let ?e = "e\<lparr>endpoints := (endpoints e)[n_endpoints e := ep], n_endpoints := n_endpoints e + 1\<rparr>"
  have D: "length (groups t) = 16" "n_groups t \<le> 16" "length (endpoints e) = 8"
    using inv i by (auto simp: group_inv_def e_def)
  have "ent_members ?e = insert (ga, ep) (ent_members e)"
  proof -
    have "((endpoints e)[n_endpoints e := ep]) ! j = (if j = n_endpoints e then ep else endpoints e ! j)" for j
      using n D by (auto simp: e_def nth_list_update)
    then show ?thesis using i(2) by (auto simp: ent_members_def lessThan_Suc e_def)
  qed
  then have "members (t\<lparr>groups := (groups t)[i := ?e]\<rparr>) = insert (ga, ep) (members t)"
    using i(1) D by (intro members_update) (simp_all add: e_def)
  moreover have "group_inv (t\<lparr>groups := (groups t)[i := ?e]\<rparr>)"
  proof -
    have at: "(groups t)[i := ?e] ! q = (if q = i then ?e else groups t ! q)" for q using i D by (auto simp: nth_list_update)
    have "\<forall>q < 16. length (endpoints ((groups t)[i := ?e] ! q)) = 8"
      using inv D unfolding group_inv_def at by simp
    moreover have "\<forall>q < n_groups t. n_endpoints ((groups t)[i := ?e] ! q) \<le> 8"
      using inv n unfolding group_inv_def at by (simp add: e_def)
    moreover have "(\<lambda>q. group_addr ((groups t)[i := ?e] ! q)) = (\<lambda>q. group_addr (groups t ! q))"
      unfolding at by (rule ext) (simp add: e_def)
    ultimately show ?thesis using inv by (simp add: group_inv_def)
  qed
  ultimately show ?thesis by simp
qed

lemma new_group:
  assumes inv: "group_inv t" and n: "n_groups t < 16" and new: "\<forall>i < n_groups t. group_addr (groups t ! i) \<noteq> ga"
  defines "e \<equiv> groups t ! n_groups t"
  shows "let t' = t\<lparr>groups := (groups t)[n_groups t := e\<lparr>group_addr := ga, endpoints := (endpoints e)[0 := ep], n_endpoints := 1\<rparr>],
                    n_groups := n_groups t + 1\<rparr>
    in group_inv t' \<and> members t' = insert (ga, ep) (members t)"
proof -
  let ?e = "e\<lparr>group_addr := ga, endpoints := (endpoints e)[0 := ep], n_endpoints := 1\<rparr>"
  have D: "length (groups t) = 16" "length (endpoints e) = 8" using inv n by (auto simp: group_inv_def e_def)
  have at: "(groups t)[n_groups t := ?e] ! q = (if q = n_groups t then ?e else groups t ! q)" for q
    using n D by (auto simp: nth_list_update)
  let ?gs = "(groups t)[n_groups t := ?e]"
  have old: "?gs ! q = groups t ! q" if "q < n_groups t" for q using that by simp
  have last_one: "?gs ! n_groups t = ?e" using n D by simp
  have "members (t\<lparr>groups := ?gs, n_groups := n_groups t + 1\<rparr>)
    = ent_members (?gs ! n_groups t) \<union> (\<Union>q<n_groups t. ent_members (?gs ! q))"
    by (simp add: members_def lessThan_Suc del: nth_list_update_eq)
  also have "(\<Union>q<n_groups t. ent_members (?gs ! q)) = members t"
    unfolding members_def by (rule SUP_cong) (simp_all add: old)
  also have "ent_members (?gs ! n_groups t) = {(ga, ep)}"
    unfolding last_one using D by (auto simp: ent_members_def)
  finally have "members (t\<lparr>groups := ?gs, n_groups := n_groups t + 1\<rparr>) = insert (ga, ep) (members t)" by simp
  moreover have "group_inv (t\<lparr>groups := ?gs, n_groups := n_groups t + 1\<rparr>)"
  proof -
    have "\<forall>q < 16. length (endpoints (?gs ! q)) = 8"
      using inv D unfolding group_inv_def at by (simp add: e_def n)
    moreover have "\<forall>q < n_groups t + 1. n_endpoints (?gs ! q) \<le> 8"
      using inv unfolding group_inv_def at by simp
    moreover have "inj_on (\<lambda>q. group_addr (?gs ! q)) (insert (n_groups t) {..<n_groups t})"
    proof (subst inj_on_insert, rule conjI)
      show "inj_on (\<lambda>q. group_addr (?gs ! q)) {..<n_groups t}"
        using inv unfolding group_inv_def inj_on_def by simp
      show "group_addr (?gs ! n_groups t) \<notin> (\<lambda>q. group_addr (?gs ! q)) ` ({..<n_groups t} - {n_groups t})"
        unfolding last_one using new by auto
    qed
    moreover have "{..<n_groups t + 1} = insert (n_groups t) {..<n_groups t}" by auto
    ultimately show ?thesis using D n by (simp add: group_inv_def)
  qed
  ultimately show ?thesis by simp
qed

text \<open>
  Adding an endpoint to a group always ends with a confirmation for the request and keeps the
  table well formed: with status 0 the endpoint is a member afterwards, and no other membership
  has changed; with the status of a full table nothing has changed, and either the
  group has all its 8 endpoints, or there are 16 other groups.
\<close>

theorem add_group_joins:
  assumes inv: "group_inv t"
  shows "\<exists>c t'. zb_apsme_add_group_request ga ep t = Some (c, t') \<and> group_inv t'
    \<and> conf_group_address c = ga \<and> conf_endpoint c = ep
    \<and> (conf_status c = 0 \<and> members t' = insert (ga, ep) (members t)
       \<or> conf_status c = ZB_APS_STATUS_TABLE_FULL \<and> t' = t \<and> (ga, ep) \<notin> members t
         \<and> ((\<exists>i < n_groups t. group_addr (groups t ! i) = ga \<and> n_endpoints (groups t ! i) = 8)
            \<or> n_groups t = 16 \<and> (\<forall>i < 16. group_addr (groups t ! i) \<noteq> ga)))"
proof -
  have D: "length (groups t) = 16" "n_groups t \<le> 16" using inv by (auto simp: group_inv_def)
  obtain i where i: "find_group (n_groups t) 0 ga t = Some i" "i \<le> n_groups t"
    "\<forall>q < i. group_addr (groups t ! q) \<noteq> ga" "i < n_groups t \<longrightarrow> group_addr (groups t ! i) = ga"
    using find_group_spec [of 0 "n_groups t" t ga] D by auto
  consider (known) "i < n_groups t" | (new) "i = n_groups t" "n_groups t < 16" | (full) "i = n_groups t" "n_groups t = 16"
    using i(2) D(2) by linarith
  then show ?thesis
  proof cases
    case known
    let ?e = "groups t ! i"
    have E: "length (endpoints ?e) = 8" "n_endpoints ?e \<le> 8" "group_addr ?e = ga"
      using inv known D i(4) by (auto simp: group_inv_def)
    have only: "q = i" if "q < n_groups t" "group_addr (groups t ! q) = ga" for q
      using inv that known E(3) unfolding group_inv_def by (auto dest: inj_onD)
    obtain j where j: "find_endpoint (n_endpoints ?e) 0 ep (endpoints ?e) = Some j" "j \<le> n_endpoints ?e"
      "\<forall>q < j. endpoints ?e ! q \<noteq> ep" "j < n_endpoints ?e \<longrightarrow> endpoints ?e ! j = ep"
      using find_endpoint_spec [of 0 "n_endpoints ?e" "endpoints ?e" ep] E by auto
    consider (there) "j < n_endpoints ?e" | (room) "j = n_endpoints ?e" "j < 8" | (no) "j = n_endpoints ?e" "j = 8"
      using j(2) E(2) by linarith
    then show ?thesis
    proof cases
      case there
      then have "(ga, ep) \<in> members t" using known E(3) j(4) unfolding members_iff by blast
      then show ?thesis using i(1) j(1) known D there inv
        by (auto simp: zb_apsme_add_group_request_def insert_absorb)
    next
      case room
      with join_group [OF inv known E(3), of ep] i(1) j(1) known D E show ?thesis
        by (simp add: zb_apsme_add_group_request_def zb_config Let_def)
    next
      case no
      have "(ga, ep) \<notin> members t"
      proof
        assume "(ga, ep) \<in> members t"
        then obtain q l where "q < n_groups t" "group_addr (groups t ! q) = ga" "l < n_endpoints (groups t ! q)"
          "endpoints (groups t ! q) ! l = ep" unfolding members_iff by blast
        with only no j(3) show False by auto
      qed
      then show ?thesis using i(1) j(1) known D no inv E(3)
        by (auto simp: zb_apsme_add_group_request_def zb_config)
    qed
  next
    case new
    have E: "length (endpoints (groups t ! i)) = 8" using inv new by (simp add: group_inv_def)
    have "\<forall>q < n_groups t. group_addr (groups t ! q) \<noteq> ga" using i(3) new(1) by simp
    from new_group [OF inv new(2) this, of ep] new i(1) D E show ?thesis
      by (simp add: zb_apsme_add_group_request_def zb_config Let_def)
  next
    case full
    have "(ga, ep) \<notin> members t" using i(3) full unfolding members_iff by auto
    then show ?thesis using i(1,3) full inv
      by (auto simp: zb_apsme_add_group_request_def zb_config)
  qed
qed

definition group_cleared :: zb_aps_group_table where
  "group_cleared = \<lparr>groups = replicate 16 \<lparr>group_addr = 0, endpoints = replicate 8 0, n_endpoints = 0\<rparr>, n_groups = 0\<rparr>"

theorem add_group_joins_witness:
  "\<exists>c t. zb_apsme_add_group_request 0x10 3 group_cleared = Some (c, t) \<and> members t = {(0x10, 3)} \<and> conf_status c = 0"
proof -
  have "group_inv group_cleared" "members group_cleared = {}" "n_groups group_cleared = 0"
    by (auto simp: group_inv_def group_cleared_def members_def)
  then show ?thesis using add_group_joins [of group_cleared "0x10" 3] by auto
qed

end
