(* ===== verification/Tree_Addr.thy ===== *)
theory Tree_Addr
  imports Neighbor Main_Loop "HOL-Library.Signed_Division"
begin

text \<open>
  Distributed address assignment and tree routing, \<^verbatim>\<open>nwk/nwk_address_assign.c\<close>,
  \<^verbatim>\<open>nwk/nwk_cr_tree_routing.c\<close>, the acceptance of a child by a router in \<^verbatim>\<open>nwk/nwk_cr_join.c\<close>, the
  beacon payload of \<^verbatim>\<open>nwk/nwk_cr_formation.c\<close> and the joining permit of \<^verbatim>\<open>nwk/nwk_cr_permit_join.c\<close>.
  The state is the part of \<^verbatim>\<open>ZG->nwk\<close> and of the MAC information base these functions use, with the
  neighbor and address tables. The integers of the C expressions are 32 bits wide, and every result
  is cut to the 16 bits of an address.
\<close>

section \<open>State\<close>

definition ZB_STACK_PROFILE :: u4 where [zb_config]: "ZB_STACK_PROFILE = 1"
definition ZB_PROTOCOL_VERSION :: u4 where [zb_config]: "ZB_PROTOCOL_VERSION = 2"
definition ZB_NWK_MAX_DEPTH :: u8 where [zb_config]: "ZB_NWK_MAX_DEPTH = 5"
definition ZB_NWK_MAX_ROUTERS :: u8 where [zb_config]: "ZB_NWK_MAX_ROUTERS = 4"
definition ZB_DEFAULT_MAX_CHILDREN :: u8 where [zb_config]: "ZB_DEFAULT_MAX_CHILDREN = 32"
definition ZB_NWK_STATUS_SUCCESS :: u8 where "ZB_NWK_STATUS_SUCCESS = 0"
definition ZB_NWK_STATUS_INVALID_REQUEST :: u8 where "ZB_NWK_STATUS_INVALID_REQUEST = 0xc2"
definition MAC_SUCCESS :: u8 where "MAC_SUCCESS = 0"
definition MAC_OUT_OF_CAP :: u8 where "MAC_OUT_OF_CAP = 0xed"

record zb_mac_beacon_payload =
  protocol_id :: u8
  stack_profile :: u4
  protocol_version :: u4
  reserved :: "2 word"
  router_capacity :: bool
  device_depth :: u4
  end_device_capacity :: bool
  extended_panid :: "u8 list"
  txoffset :: "u8 list"
  nwk_update_id :: u8

record zb_nwk =
  max_depth :: u8
  max_children :: u8
  max_routers :: u8
  router_child_num :: u8
  ed_child_num :: u8
  cskip :: u16
  nib_depth :: u8
  security_level :: u4
  extended_pan_id :: "u8 list"
  update_id :: u8
  nwk_parent :: nat
  neighbor :: zb_neighbor_tbl
  addr_tbl :: zb_addr_globals
  mac_short_address :: u16
  mac_association_permit :: bool
  mac_beacon_payload :: zb_mac_beacon_payload
  mac_beacon_payload_length :: u8

section \<open>Address blocks\<close>

text \<open>The loop of \<^verbatim>\<open>zb_nwk_daa_calc_cskip\<close>: the power of the number of routers, in 16 bits.\<close>

fun cskip_pow :: "nat \<Rightarrow> u8 \<Rightarrow> u16" where
  "cskip_pow 0 r = 1"
| "cskip_pow (Suc i) r = cskip_pow i r * ucast r"

definition zb_nwk_daa_calc_cskip :: "u8 \<Rightarrow> 'a zb_nwk_scheme \<Rightarrow> u16" where
  "zb_nwk_daa_calc_cskip d g =
     (let c = uint (max_children g); r = uint (max_routers g); k = uint (max_depth g) - uint d - 1 in
      if r = 1 then of_int (1 + c * k)
      else let tmp = cskip_pow (nat k) (max_routers g);
               num = 1 + c - r - c * uint tmp;
               den = 1 - r
           in of_int (num sdiv den))"

definition ZB_NWK_ROUTER_ADDRESS_ASSIGN :: "'a zb_nwk_scheme \<Rightarrow> u16" where
  "ZB_NWK_ROUTER_ADDRESS_ASSIGN g = mac_short_address g + ucast (router_child_num g) * cskip g + 1"

definition ZB_NWK_ED_ADDRESS_ASSIGN :: "'a zb_nwk_scheme \<Rightarrow> u16" where
  "ZB_NWK_ED_ADDRESS_ASSIGN g =
     mac_short_address g + ucast (max_routers g) * cskip g + ucast (ed_child_num g) + 1"

section \<open>The beacon payload\<close>

definition zb_nwk_update_beacon_payload :: "'a zb_nwk_scheme \<Rightarrow> 'a zb_nwk_scheme" where
  "zb_nwk_update_beacon_payload g =
     (let room = (nib_depth g < ZB_NWK_MAX_DEPTH);
          permit = (room \<and> mac_association_permit g)
      in g\<lparr>mac_association_permit := permit,
           mac_beacon_payload :=
             \<lparr>protocol_id = 0, stack_profile = ZB_STACK_PROFILE, protocol_version = ZB_PROTOCOL_VERSION, reserved = 0,
              router_capacity = permit, device_depth = ucast (nib_depth g), end_device_capacity = permit,
              extended_panid = extended_pan_id g, txoffset = [0xff, 0xff, 0xff], nwk_update_id = update_id g\<rparr>,
           mac_beacon_payload_length := 15\<rparr>)"

section \<open>Accepting a child\<close>

definition ZB_MAC_CAP_GET_DEVICE_TYPE :: "u8 \<Rightarrow> bool" where "ZB_MAC_CAP_GET_DEVICE_TYPE cap = bit cap 1"
definition ZB_MAC_CAP_GET_RX_ON_WHEN_IDLE :: "u8 \<Rightarrow> bool" where "ZB_MAC_CAP_GET_RX_ON_WHEN_IDLE cap = bit cap 3"
definition ZB_MAC_CAP_GET_ALLOCATE_ADDRESS :: "u8 \<Rightarrow> bool" where "ZB_MAC_CAP_GET_ALLOCATE_ADDRESS cap = bit cap 7"

text \<open>Is there a place for a child of this type, with which address, and the counters afterwards.\<close>

definition assign_address :: "u8 \<Rightarrow> 'a zb_nwk_scheme \<Rightarrow> bool \<times> u16 \<times> 'a zb_nwk_scheme" where
  "assign_address cap g =
     (if unat (ed_child_num g) + unat (router_child_num g) < unat (max_children g) \<and> nib_depth g < max_depth g then
        if ZB_MAC_CAP_GET_DEVICE_TYPE cap then
          if router_child_num g < max_routers g then
            (True, if ZB_MAC_CAP_GET_ALLOCATE_ADDRESS cap then ZB_NWK_ROUTER_ADDRESS_ASSIGN g else 0xfffe,
             g\<lparr>router_child_num := router_child_num g + 1\<rparr>)
          else (False, 0xfffe, g)
        else (True, if ZB_MAC_CAP_GET_ALLOCATE_ADDRESS cap then ZB_NWK_ED_ADDRESS_ASSIGN g else 0xfffe,
              g\<lparr>ed_child_num := ed_child_num g + 1\<rparr>)
      else (False, 0xfffe, g))"

text \<open>The device when it is a neighbor already: with the same capabilities it keeps its place.\<close>

definition child_known ::
  "zb_ieee_addr \<Rightarrow> u8 \<Rightarrow> 'a zb_nwk_scheme \<Rightarrow> (nat option \<times> u16 \<times> 'a zb_nwk_scheme) option" where
  "child_known dev cap g = do {
     (ret, n, z) \<leftarrow> zb_nwk_neighbor_get_by_ieee (ucast (nib_depth g)) dev (neighbor g) (addr_tbl g);
     let g = g\<lparr>addr_tbl := z\<rparr>;
     if ret = RET_OK then do {
       i \<leftarrow> n;
       e \<leftarrow> arr_get (base_neighbor (neighbor g)) i;
       if (device_type e = ZB_NWK_DEVICE_TYPE_ROUTER) = ZB_MAC_CAP_GET_DEVICE_TYPE cap
          \<and> ZB_MAC_CAP_GET_RX_ON_WHEN_IDLE cap = rx_on_when_idle e
       then do { a \<leftarrow> zb_address_short_by_ref (addr_ref e) z; Some (Some i, a, g) }
       else do { (_, nb) \<leftarrow> zb_nwk_neighbor_delete (addr_ref e) (neighbor g);
                 Some (None, 0xfffe, g\<lparr>neighbor := nb\<rparr>) } }
     else Some (None, 0xfffe, g) }"

text \<open>A device that is not: an address, an entry of the address tables, and one of the neighbor table.\<close>

definition child_new ::
  "zb_ieee_addr \<Rightarrow> u8 \<Rightarrow> 'a zb_nwk_scheme \<Rightarrow> (u8 \<times> nat option \<times> u16 \<times> 'a zb_nwk_scheme) option" where
  "child_new dev cap g =
     (let (ok, a, g) = assign_address cap g in
      if ok then do {
        (ret, ref, z) \<leftarrow> zb_address_update dev a True (addr_tbl g);
        if ret = RET_OK then do {
          ref \<leftarrow> ref;
          (ret, n, nb, z) \<leftarrow> zb_nwk_neighbor_get (ucast (nib_depth g)) ref True (neighbor g) z;
          if ret \<noteq> RET_OK then do {
            z \<leftarrow> zb_address_unlock ref z;
            Some (MAC_OUT_OF_CAP, None, a, g\<lparr>neighbor := nb, addr_tbl := z\<rparr>) }
          else Some (MAC_SUCCESS, n, a, g\<lparr>neighbor := nb, addr_tbl := z\<rparr>) }
        else Some (MAC_OUT_OF_CAP, None, a, g\<lparr>addr_tbl := z\<rparr>) }
      else Some (MAC_OUT_OF_CAP, None, a, g))"

text \<open>No further child is permitted when all places are taken.\<close>

definition stop_association :: "'a zb_nwk_scheme \<Rightarrow> 'a zb_nwk_scheme" where
  "stop_association g =
     (if mac_association_permit g \<and> unat (max_children g) \<le> unat (router_child_num g) + unat (ed_child_num g)
      then zb_nwk_update_beacon_payload (g\<lparr>mac_association_permit := False\<rparr>) else g)"

text \<open>What the entry of an accepted child is set to.\<close>

definition child_ent :: "u8 \<Rightarrow> u8 \<Rightarrow> 'a zb_nwk_scheme \<Rightarrow> zb_neighbor_tbl_ent \<Rightarrow> zb_neighbor_tbl_ent" where
  "child_ent cap q g e =
     (let router = ZB_MAC_CAP_GET_DEVICE_TYPE cap in
      e\<lparr>device_type := (if router then ZB_NWK_DEVICE_TYPE_ROUTER else ZB_NWK_DEVICE_TYPE_ED),
        rx_on_when_idle := ZB_MAC_CAP_GET_RX_ON_WHEN_IDLE cap,
        relationship := (if security_level g \<noteq> 0 then ZB_NWK_RELATIONSHIP_UNAUTHENTICATED_CHILD
                         else ZB_NWK_RELATIONSHIP_CHILD),
        depth := ucast (nib_depth g) + (if nib_depth g < max_depth g then 1 else 0),
        permit_joining := (if router then permit_joining e else 0),
        lqi := q\<rparr>)"

definition zb_nwk_accept_child ::
  "zb_ieee_addr \<Rightarrow> u8 \<Rightarrow> u8 \<Rightarrow> 'a zb_nwk_scheme \<Rightarrow> (u8 \<times> u16 option \<times> 'a zb_nwk_scheme) option" where
  "zb_nwk_accept_child dev cap q g = do {
     (ent, a, g) \<leftarrow> child_known dev cap g;
     (status, ent, a, g) \<leftarrow> (case ent of Some i \<Rightarrow> Some (MAC_SUCCESS, Some i, a, g) | None \<Rightarrow> child_new dev cap g);
     let g = stop_association g;
     if status = MAC_SUCCESS then do {
       i \<leftarrow> ent;
       e \<leftarrow> arr_get (base_neighbor (neighbor g)) i;
       b \<leftarrow> arr_set (base_neighbor (neighbor g)) i (child_ent cap q g e);
       Some (status, Some a, g\<lparr>neighbor := (neighbor g)\<lparr>base_neighbor := b\<rparr>\<rparr>) }
     else Some (status, None, g) }"

section \<open>Tree routing\<close>

definition zb_nwk_tree_routing_init :: "'a zb_nwk_scheme \<Rightarrow> 'a zb_nwk_scheme" where
  "zb_nwk_tree_routing_init g = g\<lparr>cskip := 0xffff\<rparr>"

text \<open>The neighbor with a short address, \<open>None\<close> inside for the null pointer.\<close>

definition routing_neighbor :: "u16 \<Rightarrow> 'a zb_nwk_scheme \<Rightarrow> (nat option \<times> 'a zb_nwk_scheme) option" where
  "routing_neighbor a g = do {
     (ret, ref, z) \<leftarrow> zb_address_by_short a False False (addr_tbl g);
     let g = g\<lparr>addr_tbl := z\<rparr>;
     if ret = RET_OK then do {
       ref \<leftarrow> ref;
       n \<leftarrow> arr_get (addr_to_neighbor (neighbor g)) ref;
       Some (if n \<noteq> 0xff then Some (unat n) else None, g) }
     else Some (None, g) }"

fun find_router_loop :: "nat \<Rightarrow> nat \<Rightarrow> u16 \<Rightarrow> 'a zb_nwk_scheme \<Rightarrow> (nat option \<times> 'a zb_nwk_scheme) option" where
  "find_router_loop 0 i dest g = Some (None, g)"
| "find_router_loop (Suc k) i dest g =
     (let lower = cskip g * of_nat i + 1; upper = lower + cskip g in
      if lower < dest \<and> dest < upper then routing_neighbor lower g
      else find_router_loop k (i + 1) dest g)"

definition zb_nwk_tree_routing_find_router :: "u16 \<Rightarrow> 'a zb_nwk_scheme \<Rightarrow> (nat option \<times> 'a zb_nwk_scheme) option" where
  "zb_nwk_tree_routing_find_router dest g = do {
     (n, g) \<leftarrow> routing_neighbor dest g;
     (case n of Some n \<Rightarrow> Some (Some n, g) | None \<Rightarrow> find_router_loop (unat (max_routers g)) 0 dest g) }"

definition zb_nwk_tree_routing_route :: "u16 \<Rightarrow> 'a zb_nwk_scheme \<Rightarrow> (nat option \<times> 'a zb_nwk_scheme) option" where
  "zb_nwk_tree_routing_route dest g =
     (let skip = (if nib_depth g \<noteq> 0 then zb_nwk_daa_calc_cskip (nib_depth g - 1) g else 0);
          down = (mac_short_address g < dest \<and> uint dest < uint (mac_short_address g) + uint skip)
      in if mac_short_address g = 0 \<or> down then zb_nwk_tree_routing_find_router dest g
         else do {
           (_, n, nb, z) \<leftarrow> zb_nwk_neighbor_get (ucast (nib_depth g)) (nwk_parent g) False (neighbor g) (addr_tbl g);
           Some (n, g\<lparr>neighbor := nb, addr_tbl := z\<rparr>) })"

section \<open>Becoming part of the tree\<close>

text \<open>
  The tree position of a device: the coordinator at formation, and a router that joins a
  parent of depth \<open>d\<close> under the address \<open>a\<close> it was assigned.
\<close>

definition formation_position :: "'a zb_nwk_scheme \<Rightarrow> 'a zb_nwk_scheme" where
  "formation_position g = (let g = g\<lparr>nib_depth := 0\<rparr> in g\<lparr>cskip := zb_nwk_daa_calc_cskip (nib_depth g) g\<rparr>)"

definition join_position :: "u4 \<Rightarrow> 'a zb_nwk_scheme \<Rightarrow> 'a zb_nwk_scheme" where
  "join_position d g =
     (let g = g\<lparr>nib_depth := (if (ucast d :: u8) \<noteq> 0xf then ucast d + 1 else ucast d)\<rparr>
      in g\<lparr>cskip := zb_nwk_daa_calc_cskip (nib_depth g) g\<rparr>)"

section \<open>Permission to join\<close>

record 'cb nwk_g = "'cb zb_g" +
  nwk :: zb_nwk
  permit_join :: bool
  nib_device_type :: "2 word"

definition nwk_permit_timeout :: "'cb nwk_g \<Rightarrow> 'cb nwk_g" where
  "nwk_permit_timeout g = g\<lparr>nwk := (nwk g)\<lparr>mac_association_permit := False\<rparr>, permit_join := False\<rparr>"

text \<open>
  \<^verbatim>\<open>zb_nlme_permit_joining_request\<close> for a duration, with the buffer \<open>buf\<close> and the callbacks
  \<open>timeout\<close> and \<open>confirm\<close>; the status it stores in the header of the buffer is returned.
\<close>

definition zb_nlme_permit_joining_request ::
  "'cb \<Rightarrow> 'cb \<Rightarrow> u8 \<Rightarrow> u8 \<Rightarrow> 'cb nwk_g \<Rightarrow> (u8 \<times> 'cb nwk_g) option" where
  "zb_nlme_permit_joining_request timeout confirm duration buf g = do {
     g \<leftarrow> (if permit_join g then do {
              (_, g) \<leftarrow> zb_schedule_alarm_cancel timeout ZB_ALARM_ANY_PARAM g;
              Some (g\<lparr>permit_join := False\<rparr>) }
            else Some g);
     (status, g) \<leftarrow>
       (if nib_device_type g = ZB_NWK_DEVICE_TYPE_COORDINATOR \<or> nib_device_type g = ZB_NWK_DEVICE_TYPE_ROUTER then do {
          g \<leftarrow> (if duration = 0 then Some (g\<lparr>nwk := (nwk g)\<lparr>mac_association_permit := False\<rparr>\<rparr>)
                else if duration = 0xff then Some (g\<lparr>nwk := (nwk g)\<lparr>mac_association_permit := True\<rparr>\<rparr>)
                else do {
                  (_, g) \<leftarrow> zb_schedule_alarm timeout 0 (of_int (uint duration * ZB_TIME_ONE_SECOND))
                              (g\<lparr>permit_join := True, nwk := (nwk g)\<lparr>mac_association_permit := True\<rparr>\<rparr>);
                  Some g });
          Some (ZB_NWK_STATUS_SUCCESS, g\<lparr>nwk := zb_nwk_update_beacon_payload (nwk g)\<rparr>) }
        else Some (ZB_NWK_STATUS_INVALID_REQUEST, g));
     (_, g) \<leftarrow> zb_schedule_callback confirm buf g;
     Some (status, g) }"

end
