(* ===== verification/Tree_Addr_Lemmas.thy ===== *)
theory Tree_Addr_Lemmas
  imports Tree_Addr Neighbor_Lemmas Address_Ieee
begin

text \<open>
  The lemmas and properties of distributed address assignment: the size of an address block against
  its recursive definition, uniqueness of the addresses of a tree that grows by accepting
  children, routing down the tree, and the acceptance of a child with all its tables.
\<close>

section \<open>The size of a block\<close>

text \<open>
  The addresses a router with \<open>k\<close> levels below it needs: its own, one block for each of \<open>R\<close> routers and
  one address for each of the other \<open>C - R\<close> children.
\<close>

fun block :: "nat \<Rightarrow> nat \<Rightarrow> nat \<Rightarrow> nat" where
  "block c r 0 = 1"
| "block c r (Suc k) = 1 + r * block c r k + (c - r)"

lemma block_pos: "0 < block c r k"
  by (cases k) simp_all

lemma block_pow: "r ^ k \<le> block c r k"
proof (induction k)
  case (Suc k)
  then have "r * r ^ k \<le> r * block c r k" by (rule mult_le_mono2)
  then show ?case unfolding power_Suc block.simps by linarith
qed simp

lemma block_mono: "block c r k \<le> block c r (Suc k)"
  by (cases r; cases k) simp_all

lemma block_one: "1 \<le> c \<Longrightarrow> block c 1 k = 1 + c * k"
  by (induction k) (simp_all add: algebra_simps)

lemma block_geometric: "r \<le> c \<Longrightarrow> (1 - int r) * int (block c r k) = 1 + int c - int r - int c * int r ^ k"
proof (induction k)
  case (Suc k)
  have "int (block c r (Suc k)) = 1 + int r * int (block c r k) + (int c - int r)"
    using Suc.prems by (simp add: of_nat_diff)
  then have "(1 - int r) * int (block c r (Suc k))
    = (1 - int r) * (1 + int c - int r) + int r * ((1 - int r) * int (block c r k))"
    by (simp only:) (simp add: algebra_simps)
  also have "\<dots> = (1 - int r) * (1 + int c - int r) + int r * (1 + int c - int r - int c * int r ^ k)"
    by (simp only: Suc.IH [OF Suc.prems])
  also have "\<dots> = 1 + int c - int r - int c * int r ^ Suc k" by (simp add: algebra_simps)
  finally show ?case .
qed simp

lemma sdiv_exact: "(a :: int) \<noteq> 0 \<Longrightarrow> (a * b) sdiv a = b"
  by (simp add: signed_divide_int_def sgn_mult abs_mult sgn_mult_abs mult.commute [of "sgn b"] mult.assoc)

lemma unat_byte_16: "unat (ucast (x :: u8) :: u16) = unat x"
  by (simp add: unsigned_ucast_eq take_bit_nat_eq_self order.strict_trans [OF unsigned_less])

lemma unat_of_int_16: "n < 65536 \<Longrightarrow> unat (of_int (int n) :: u16) = n"
  unfolding of_int_of_nat_eq by (rule unat_of_nat_lt) simp

lemma cskip_pow_eq: "unat r ^ k < 65536 \<Longrightarrow> unat (cskip_pow k r) = unat r ^ k"
proof (induction k)
  case (Suc k)
  show ?case
  proof (cases "r = 0")
    case False
    then have "1 \<le> unat r" by (metis One_nat_def Suc_leI unat_gt_0)
    then have "unat r ^ k \<le> unat r ^ Suc k" by simp
    with Suc have "unat (cskip_pow k r) = unat r ^ k" by simp
    with Suc.prems show ?thesis by (simp add: unat_word_ariths(2) unat_byte_16 mult.commute)
  qed simp
qed simp

lemma cskip_eq:
  assumes "max_routers g \<le> max_children g" and "d < max_depth g"
    and "block (unat (max_children g)) (unat (max_routers g)) (unat (max_depth g) - unat d - 1) < 65536"
  shows "unat (zb_nwk_daa_calc_cskip d g)
    = block (unat (max_children g)) (unat (max_routers g)) (unat (max_depth g) - unat d - 1)"
proof -
  let ?c = "unat (max_children g)" and ?r = "unat (max_routers g)" and ?k = "unat (max_depth g) - unat d - 1"
  have rc: "?r \<le> ?c" using assms(1) by (simp add: word_le_nat_alt)
  have k: "uint (max_depth g) - uint d - 1 = int ?k"
  proof -
    have "unat d < unat (max_depth g)" using assms(2) by (simp add: word_less_nat_alt)
    then have "int ?k = int (unat (max_depth g)) - int (unat d) - 1" by linarith
    then show ?thesis by simp
  qed
  have i: "uint (max_children g) = int ?c" "uint (max_routers g) = int ?r" by simp_all
  note out = unat_of_int_16
  show ?thesis
  proof (cases "?r = 1")
    case True
    then have "block ?c ?r ?k = 1 + ?c * ?k" using rc block_one by metis
    then have "1 + int ?c * int ?k = int (block ?c ?r ?k)" by (simp only: of_nat_add of_nat_mult of_nat_1)
    then have "zb_nwk_daa_calc_cskip d g = of_int (int (block ?c ?r ?k))"
      unfolding zb_nwk_daa_calc_cskip_def Let_def k i using True by simp
    then show ?thesis using out [OF assms(3)] by simp
  next
    case False
    then have ne: "int ?r \<noteq> 1" by linarith
    have "?r ^ ?k < 65536" using block_pow [of ?r ?k ?c] assms(3) by (rule le_less_trans)
    then have "uint (cskip_pow ?k (max_routers g)) = int (?r ^ ?k)"
      using cskip_pow_eq [of "max_routers g" ?k] by (metis uint_nat)
    moreover have "(1 + int ?c - int ?r - int ?c * int ?r ^ ?k) sdiv (1 - int ?r) = int (block ?c ?r ?k)"
      unfolding block_geometric [OF rc, symmetric] by (rule sdiv_exact) (use ne in linarith)
    ultimately have "zb_nwk_daa_calc_cskip d g = of_int (int (block ?c ?r ?k))"
      unfolding zb_nwk_daa_calc_cskip_def Let_def k i using ne by simp
    then show ?thesis using out [OF assms(3)] by simp
  qed
qed


section \<open>A growing tree\<close>

text \<open>
  The routers of a tree by their short address, and the addresses of its end devices. The tree grows
  by one accepted child at a time; the new router takes the position below its parent. An end
  device is accepted only while its parent keeps the places of the routers free.
\<close>

record tree_net =
  routers :: "u16 \<Rightarrow> zb_nwk option"
  eds :: "u16 set"

definition tree_cfg :: "zb_nwk \<Rightarrow> u8 \<times> u8 \<times> u8" where
  "tree_cfg g = (max_children g, max_routers g, max_depth g)"

definition childless :: "zb_nwk \<Rightarrow> bool" where
  "childless g \<longleftrightarrow> router_child_num g = 0 \<and> ed_child_num g = 0"

definition used_addr :: "tree_net \<Rightarrow> u16 set" where
  "used_addr t = dom (routers t) \<union> eds t"

inductive tree_reach :: "zb_nwk \<Rightarrow> tree_net \<Rightarrow> bool" for root where
  form: "tree_reach root \<lparr>routers = [0 \<mapsto> formation_position (root\<lparr>mac_short_address := 0\<rparr>)], eds = {}\<rparr>"
| join_router: "tree_reach root t \<Longrightarrow> routers t p = Some g \<Longrightarrow> assign_address cap g = (True, a, g')
    \<Longrightarrow> ZB_MAC_CAP_GET_DEVICE_TYPE cap \<Longrightarrow> ZB_MAC_CAP_GET_ALLOCATE_ADDRESS cap
    \<Longrightarrow> tree_cfg c = tree_cfg root \<Longrightarrow> childless c
    \<Longrightarrow> tree_reach root (t\<lparr>routers := (routers t)(p \<mapsto> g',
          a \<mapsto> join_position (ucast (nib_depth g)) (c\<lparr>mac_short_address := a\<rparr>))\<rparr>)"
| join_ed: "tree_reach root t \<Longrightarrow> routers t p = Some g \<Longrightarrow> assign_address cap g = (True, a, g')
    \<Longrightarrow> \<not> ZB_MAC_CAP_GET_DEVICE_TYPE cap \<Longrightarrow> ZB_MAC_CAP_GET_ALLOCATE_ADDRESS cap
    \<Longrightarrow> unat (ed_child_num g) < unat (max_children g) - unat (max_routers g)
    \<Longrightarrow> tree_reach root (t\<lparr>routers := (routers t)(p \<mapsto> g'), eds := insert a (eds t)\<rparr>)"

text \<open>The levels below a router, the size of its block, and the part of the block not yet given away.\<close>

definition levels :: "zb_nwk \<Rightarrow> nat" where
  "levels g = unat (max_depth g) - unat (nib_depth g)"

definition blk :: "zb_nwk \<Rightarrow> nat \<Rightarrow> nat" where
  "blk g k = block (unat (max_children g)) (unat (max_routers g)) k"

definition free_addr :: "zb_nwk \<Rightarrow> nat set" where
  "free_addr g =
     (if levels g = 0 then {}
      else let s = blk g (levels g - 1); at = unat (mac_short_address g); r = unat (max_routers g) in
        {at + unat (router_child_num g) * s + 1 ..< at + r * s + 1}
        \<union> {at + r * s + unat (ed_child_num g) + 1 ..< at + blk g (levels g)})"

definition node_ok :: "zb_nwk \<Rightarrow> bool" where
  "node_ok g \<longleftrightarrow> max_routers g \<le> max_children g \<and> unat (max_depth g) \<le> 15 \<and> nib_depth g \<le> max_depth g
     \<and> unat (mac_short_address g) + blk g (levels g) < 65536
     \<and> router_child_num g \<le> max_routers g
     \<and> unat (ed_child_num g) \<le> unat (max_children g) - unat (max_routers g)
     \<and> (levels g \<noteq> 0 \<longrightarrow> unat (cskip g) = blk g (levels g - 1))"

lemma blk_Suc: "0 < levels g \<Longrightarrow> blk g (levels g)
    = 1 + unat (max_routers g) * blk g (levels g - 1) + (unat (max_children g) - unat (max_routers g))"
  by (cases "levels g") (simp_all add: blk_def)

lemma addr_arith:
  fixes x d :: u16 and n :: u8
  assumes "unat x + unat n * unat d + m < 65536"
  shows "unat (x + ucast n * d + of_nat m) = unat x + unat n * unat d + m"
proof -
  have e: "x + ucast n * d + of_nat m = (of_nat (unat x + unat n * unat d + m) :: u16)" by simp
  show ?thesis unfolding e by (rule unat_of_nat_lt) (use assms in simp)
qed

lemma router_addr_eq:
  assumes "node_ok g" and "0 < levels g" and "router_child_num g < max_routers g"
  defines "s \<equiv> blk g (levels g - 1)"
  shows "unat (ZB_NWK_ROUTER_ADDRESS_ASSIGN g) = unat (mac_short_address g) + unat (router_child_num g) * s + 1"
    and "(unat (router_child_num g) + 1) * s \<le> unat (max_routers g) * s"
proof -
  have lt: "unat (router_child_num g) + 1 \<le> unat (max_routers g)" using assms(3) by (simp add: word_less_nat_alt)
  then show le: "(unat (router_child_num g) + 1) * s \<le> unat (max_routers g) * s" by (rule mult_le_mono1)
  have "unat (mac_short_address g) + unat (router_child_num g) * s + 1 < 65536"
    using assms(1) blk_Suc [OF assms(2)] le unfolding node_ok_def s_def by (simp add: algebra_simps)
  moreover have c: "unat (cskip g) = s" using assms(1,2) by (simp add: node_ok_def s_def)
  ultimately show "unat (ZB_NWK_ROUTER_ADDRESS_ASSIGN g) = unat (mac_short_address g) + unat (router_child_num g) * s + 1"
    using addr_arith [of "mac_short_address g" "router_child_num g" "cskip g" 1]
    unfolding ZB_NWK_ROUTER_ADDRESS_ASSIGN_def c by simp
qed


lemma ed_addr_eq:
  assumes "node_ok g" and "0 < levels g" and "unat (ed_child_num g) < unat (max_children g) - unat (max_routers g)"
  defines "s \<equiv> blk g (levels g - 1)"
  shows "unat (ZB_NWK_ED_ADDRESS_ASSIGN g)
    = unat (mac_short_address g) + unat (max_routers g) * s + unat (ed_child_num g) + 1"
proof -
  have "unat (mac_short_address g) + unat (max_routers g) * s + (unat (ed_child_num g) + 1) < 65536"
    using assms(1,3) blk_Suc [OF assms(2)] unfolding node_ok_def s_def by linarith
  moreover have c: "unat (cskip g) = s" using assms(1,2) by (simp add: node_ok_def s_def)
  moreover have "ZB_NWK_ED_ADDRESS_ASSIGN g
    = mac_short_address g + ucast (max_routers g) * cskip g + of_nat (unat (ed_child_num g) + 1)"
    by (simp add: ZB_NWK_ED_ADDRESS_ASSIGN_def)
  ultimately show ?thesis
    using addr_arith [of "mac_short_address g" "max_routers g" "cskip g" "unat (ed_child_num g) + 1"] by simp
qed

text \<open>What one acceptance does to the free part of a block.\<close>

lemma assign_cases:
  assumes "assign_address cap g = (True, a, g')" and "ZB_MAC_CAP_GET_ALLOCATE_ADDRESS cap"
  shows "0 < levels g" "unat (ed_child_num g) + unat (router_child_num g) < unat (max_children g)"
    "ZB_MAC_CAP_GET_DEVICE_TYPE cap \<Longrightarrow> router_child_num g < max_routers g \<and> a = ZB_NWK_ROUTER_ADDRESS_ASSIGN g
       \<and> g' = g\<lparr>router_child_num := router_child_num g + 1\<rparr>"
    "\<not> ZB_MAC_CAP_GET_DEVICE_TYPE cap \<Longrightarrow> a = ZB_NWK_ED_ADDRESS_ASSIGN g \<and> g' = g\<lparr>ed_child_num := ed_child_num g + 1\<rparr>"
  using assms by (auto simp: assign_address_def levels_def word_less_nat_alt split: if_splits)

lemma unat_inc_byte: "(x :: u8) < y \<Longrightarrow> unat (x + 1) = unat x + 1"
proof -
  assume "x < y"
  moreover have "unat y < 256" using unsigned_less [of y] by simp
  ultimately show ?thesis by (simp add: unat_word_ariths(1) word_less_nat_alt)
qed

text \<open>The free part of a router, spelt out for a router with children.\<close>

lemma in_free: "n \<in> free_addr g \<longleftrightarrow> 0 < levels g
    \<and> (unat (mac_short_address g) + unat (router_child_num g) * blk g (levels g - 1) + 1 \<le> n
         \<and> n < unat (mac_short_address g) + unat (max_routers g) * blk g (levels g - 1) + 1
       \<or> unat (mac_short_address g) + unat (max_routers g) * blk g (levels g - 1) + unat (ed_child_num g) + 1 \<le> n
         \<and> n < unat (mac_short_address g) + blk g (levels g))"
  by (auto simp: free_addr_def Let_def)

lemma free_bounds:
  assumes "node_ok g" and "n \<in> free_addr g"
  shows "unat (mac_short_address g) < n" "n < unat (mac_short_address g) + blk g (levels g)"
proof -
  have "0 < levels g" using assms(2) by (simp add: in_free)
  then show "unat (mac_short_address g) < n" "n < unat (mac_short_address g) + blk g (levels g)"
    using assms(2) blk_Suc [of g] unfolding in_free by linarith+
qed

definition taken :: "u16 \<Rightarrow> nat \<Rightarrow> nat set" where
  "taken a s = {unat a ..< unat a + s}"

lemma child_depth:
  assumes "node_ok g" and "0 < levels g"
  shows "ucast (ucast (nib_depth g) :: u4) = nib_depth g" "nib_depth g \<noteq> 0xf"
    "unat (nib_depth g + 1) = unat (nib_depth g) + 1"
proof -
  have d: "unat (nib_depth g) < unat (max_depth g)" "unat (max_depth g) \<le> 15"
    using assms by (simp_all add: levels_def node_ok_def)
  have "unat (ucast (ucast (nib_depth g) :: u4) :: u8) = unat (nib_depth g)"
    using d by (simp add: unsigned_ucast_eq unsigned_take_bit_eq take_bit_nat_eq_self)
  then show "ucast (ucast (nib_depth g) :: u4) = nib_depth g" by (rule word_eq_iff_unsigned [THEN iffD2])
  show "nib_depth g \<noteq> 0xf" using d by auto
  show "unat (nib_depth g + 1) = unat (nib_depth g) + 1"
    using d by (intro unat_inc_byte [of _ "max_depth g"]) (simp add: word_less_nat_alt)
qed

lemma accept_router:
  assumes ok: "node_ok g" and as: "assign_address cap g = (True, a, g')"
    and cap: "ZB_MAC_CAP_GET_DEVICE_TYPE cap" "ZB_MAC_CAP_GET_ALLOCATE_ADDRESS cap"
    and c: "tree_cfg c = tree_cfg g" "childless c"
  defines "c' \<equiv> join_position (ucast (nib_depth g)) (c\<lparr>mac_short_address := a\<rparr>)"
  defines "b \<equiv> taken a (blk g (levels g - 1))"
  shows "node_ok g'" "mac_short_address g' = mac_short_address g" "tree_cfg g' = tree_cfg g" "nib_depth g' = nib_depth g"
    "b \<subseteq> free_addr g" "unat a \<in> b" "free_addr g' \<subseteq> free_addr g - b"
    "node_ok c'" "mac_short_address c' = a" "tree_cfg c' = tree_cfg g" "free_addr c' \<subseteq> b - {unat a}"
proof -
  note A = assign_cases [OF as cap(2)]
  note R = A(3) [OF cap(1)]
  let ?s = "blk g (levels g - 1)"
  let ?at = "unat (mac_short_address g)" and ?rc = "unat (router_child_num g)" and ?r = "unat (max_routers g)"
  have a: "unat a = ?at + ?rc * ?s + 1" and le: "(?rc + 1) * ?s \<le> ?r * ?s"
    using router_addr_eq [OF ok A(1)] R by simp_all
  have g': "levels g' = levels g" "blk g' = blk g" "unat (router_child_num g') = ?rc + 1"
    using R unat_inc_byte [of "router_child_num g" "max_routers g"] by (auto simp: levels_def blk_def fun_eq_iff)
  show "mac_short_address g' = mac_short_address g" "tree_cfg g' = tree_cfg g" "nib_depth g' = nib_depth g"
    using R by (auto simp: tree_cfg_def)
  show "node_ok g'" using ok R g' unfolding node_ok_def by (auto simp: word_le_nat_alt word_less_nat_alt)
  show "unat a \<in> b" using block_pos by (simp add: b_def taken_def blk_def)
  show "b \<subseteq> free_addr g"
    unfolding b_def taken_def using a le A(1) by (auto simp: in_free algebra_simps)
  show "free_addr g' \<subseteq> free_addr g - b"
  proof
    fix n assume "n \<in> free_addr g'"
    then have "?at + (?rc + 1) * ?s + 1 \<le> n \<and> n < ?at + ?r * ?s + 1
      \<or> ?at + ?r * ?s + unat (ed_child_num g) + 1 \<le> n \<and> n < ?at + blk g (levels g)"
      using R g' by (simp add: in_free)
    then show "n \<in> free_addr g - b"
      using a le A(1) by (auto simp: in_free b_def taken_def algebra_simps)
  qed
  have cfg: "max_children c = max_children g" "max_routers c = max_routers g" "max_depth c = max_depth g"
    using c(1) by (simp_all add: tree_cfg_def)
  have d: "unat (nib_depth g) < unat (max_depth g)" "unat (max_depth g) \<le> 15"
    using A(1) ok by (simp_all add: levels_def node_ok_def)
  note e = child_depth(1) [OF ok A(1)] and ne = child_depth(2) [OF ok A(1)]
  have c': "nib_depth c' = nib_depth g + 1" "max_children c' = max_children g" "max_routers c' = max_routers g"
    "max_depth c' = max_depth g" "router_child_num c' = 0" "ed_child_num c' = 0"
    using cfg c(2) e ne by (simp_all add: c'_def join_position_def Let_def childless_def)
  show ca: "mac_short_address c' = a" by (simp add: c'_def join_position_def Let_def)
  show "tree_cfg c' = tree_cfg g" using c' by (simp add: tree_cfg_def)
  note nd = child_depth(3) [OF ok A(1)]
  have lv: "levels c' = levels g - 1" using c' nd by (simp add: levels_def)
  have bl: "blk c' = blk g" using c' by (simp add: blk_def fun_eq_iff)
  have top: "unat a + ?s \<le> ?at + blk g (levels g)" using a le blk_Suc [OF A(1)] by (simp add: algebra_simps)
  have sk: "unat (cskip c') = blk g (levels c' - 1)" if "levels c' \<noteq> 0"
  proof -
    have lt: "blk g (levels c' - 1) \<le> blk g (levels c')" using that block_mono by (cases "levels c'") (simp_all add: blk_def del: block.simps)
    also have "blk g (levels c') = ?s" using lv by simp
    also have "?s < 65536" using top ok by (simp add: node_ok_def)
    finally have "blk g (levels c' - 1) < 65536" .
    moreover have "cskip c' = zb_nwk_daa_calc_cskip (nib_depth g + 1) g"
      using e ne cfg by (simp add: c'_def join_position_def Let_def zb_nwk_daa_calc_cskip_def)
    ultimately show ?thesis
      using cskip_eq [of g "nib_depth g + 1"] that ok nd lv c'(1,4) unfolding node_ok_def
      by (simp add: blk_def levels_def word_less_nat_alt)
  qed
  show "node_ok c'"
    using ok c' ca lv bl top sk nd d unfolding node_ok_def by (auto simp: word_le_nat_alt)
  show "free_addr c' \<subseteq> b - {unat a}"
  proof
    fix n assume n: "n \<in> free_addr c'"
    from free_bounds [OF \<open>node_ok c'\<close> n] ca lv bl show "n \<in> b - {unat a}" by (auto simp: b_def taken_def)
  qed
qed


lemma accept_ed:
  assumes ok: "node_ok g" and as: "assign_address cap g = (True, a, g')"
    and cap: "\<not> ZB_MAC_CAP_GET_DEVICE_TYPE cap" "ZB_MAC_CAP_GET_ALLOCATE_ADDRESS cap"
    and room: "unat (ed_child_num g) < unat (max_children g) - unat (max_routers g)"
  shows "node_ok g'" "mac_short_address g' = mac_short_address g" "tree_cfg g' = tree_cfg g"
    "{unat a} \<subseteq> free_addr g" "free_addr g' \<subseteq> free_addr g - {unat a}"
proof -
  note A = assign_cases [OF as cap(2)]
  note R = A(4) [OF cap(1)]
  let ?s = "blk g (levels g - 1)" and ?e = "unat (ed_child_num g)"
  let ?at = "unat (mac_short_address g)" and ?r = "unat (max_routers g)"
  have a: "unat a = ?at + ?r * ?s + ?e + 1" using ed_addr_eq [OF ok A(1) room] R by simp
  have "unat (ed_child_num g + 1) = ?e + 1" using room by (intro unat_inc_byte [of _ "max_children g"]) (simp add: word_less_nat_alt)
  then have g': "levels g' = levels g" "blk g' = blk g" "unat (ed_child_num g') = ?e + 1"
    using R by (auto simp: levels_def blk_def fun_eq_iff)
  show "mac_short_address g' = mac_short_address g" "tree_cfg g' = tree_cfg g" using R by (auto simp: tree_cfg_def)
  show "node_ok g'" using ok R g' room unfolding node_ok_def by auto
  have top: "?r * ?s + ?e + 1 < blk g (levels g)" using room blk_Suc [OF A(1)] by linarith
  show "{unat a} \<subseteq> free_addr g" using a top A(1) by (auto simp: in_free)
  have rc: "unat (router_child_num g) * ?s \<le> ?r * ?s"
    using ok by (intro mult_le_mono1) (simp add: node_ok_def word_le_nat_alt)
  show "free_addr g' \<subseteq> free_addr g - {unat a}"
  proof
    fix n assume "n \<in> free_addr g'"
    then have "?at + unat (router_child_num g) * ?s + 1 \<le> n \<and> n < ?at + ?r * ?s + 1
      \<or> ?at + ?r * ?s + (?e + 1) + 1 \<le> n \<and> n < ?at + blk g (levels g)"
      using R g' by (simp add: in_free)
    then show "n \<in> free_addr g - {unat a}" using a A(1) by (auto simp: in_free)
  qed
qed

section \<open>The addresses of a tree are unique\<close>

definition net_inv :: "zb_nwk \<Rightarrow> tree_net \<Rightarrow> bool" where
  "net_inv root t \<longleftrightarrow>
     (\<forall>p g. routers t p = Some g \<longrightarrow>
        mac_short_address g = p \<and> node_ok g \<and> tree_cfg g = tree_cfg root
        \<and> (\<forall>q \<in> used_addr t. unat q \<notin> free_addr g)
        \<and> (\<forall>q h. routers t q = Some h \<longrightarrow> p \<noteq> q \<longrightarrow> free_addr g \<inter> free_addr h = {}))"

lemma net_invD:
  assumes "net_inv root t" and "routers t p = Some g"
  shows "mac_short_address g = p" "node_ok g" "tree_cfg g = tree_cfg root"
    "\<And>q. q \<in> used_addr t \<Longrightarrow> unat q \<notin> free_addr g"
    "\<And>q h. routers t q = Some h \<Longrightarrow> p \<noteq> q \<Longrightarrow> free_addr g \<inter> free_addr h = {}"
  using assms unfolding net_inv_def by blast+

text \<open>Giving away the addresses \<open>b\<close> of one router, to an end device or to a new router.\<close>

lemma net_inv_ed:
  assumes inv: "net_inv root t" and g: "routers t p = Some g"
    and g': "node_ok g'" "mac_short_address g' = mac_short_address g" "tree_cfg g' = tree_cfg g"
    and b: "b \<subseteq> free_addr g" "unat a \<in> b" "free_addr g' \<subseteq> free_addr g - b"
  shows "a \<notin> used_addr t" "net_inv root (t\<lparr>routers := (routers t)(p \<mapsto> g'), eds := insert a (eds t)\<rparr>)"
proof -
  note D = net_invD [OF inv]
  show "a \<notin> used_addr t" using D(4) [OF g] b(1,2) by blast
  let ?t = "t\<lparr>routers := (routers t)(p \<mapsto> g'), eds := insert a (eds t)\<rparr>"
  have used: "used_addr ?t = insert a (used_addr t)" using g by (auto simp: used_addr_def)
  have sub: "free_addr h' \<subseteq> free_addr h - b" if "routers ?t q = Some h'" "routers t q = Some h" for q h h'
  proof (cases "q = p")
    case True
    with that g b(3) show ?thesis by simp
  next
    case False
    with that have "h' = h" by simp
    moreover have "free_addr h \<inter> free_addr g = {}" using D(5) [OF that(2) g] False by simp
    ultimately show ?thesis using b(1) by blast
  qed
  show "net_inv root ?t"
    unfolding net_inv_def used
  proof (intro allI impI)
    fix q h' assume h': "routers ?t q = Some h'"
    obtain h where h: "routers t q = Some h" using h' g by (cases "q = p") auto
    note s = sub [OF h' h]
    have "mac_short_address h' = q \<and> node_ok h' \<and> tree_cfg h' = tree_cfg root"
      using h' h g g' D(1-3) [OF h] D(1-3) [OF g] by (cases "q = p") auto
    moreover have "\<forall>x \<in> insert a (used_addr t). unat x \<notin> free_addr h'" using s D(4) [OF h] b(2) by blast
    moreover have "\<forall>x k'. routers ?t x = Some k' \<longrightarrow> q \<noteq> x \<longrightarrow> free_addr h' \<inter> free_addr k' = {}"
    proof (intro allI impI)
      fix x k' assume k': "routers ?t x = Some k'" and n: "q \<noteq> x"
      obtain k where k: "routers t x = Some k" using k' g by (cases "x = p") auto
      show "free_addr h' \<inter> free_addr k' = {}" using s sub [OF k' k] D(5) [OF h k n] by blast
    qed
    ultimately show "mac_short_address h' = q \<and> node_ok h' \<and> tree_cfg h' = tree_cfg root
        \<and> (\<forall>x \<in> insert a (used_addr t). unat x \<notin> free_addr h')
        \<and> (\<forall>x k'. routers ?t x = Some k' \<longrightarrow> q \<noteq> x \<longrightarrow> free_addr h' \<inter> free_addr k' = {})" by blast
  qed
qed

lemma net_inv_router:
  assumes inv: "net_inv root t" and g: "routers t p = Some g"
    and g': "node_ok g'" "mac_short_address g' = mac_short_address g" "tree_cfg g' = tree_cfg g"
    and b: "b \<subseteq> free_addr g" "unat a \<in> b" "free_addr g' \<subseteq> free_addr g - b"
    and c: "node_ok c" "mac_short_address c = a" "tree_cfg c = tree_cfg g" "free_addr c \<subseteq> b - {unat a}"
  shows "a \<notin> used_addr t" "net_inv root (t\<lparr>routers := (routers t)(p \<mapsto> g', a \<mapsto> c)\<rparr>)"
proof -
  note E = net_inv_ed [OF inv g g' b]
  show new: "a \<notin> used_addr t" by (rule E(1))
  let ?e = "t\<lparr>routers := (routers t)(p \<mapsto> g'), eds := insert a (eds t)\<rparr>"
  let ?t = "t\<lparr>routers := (routers t)(p \<mapsto> g', a \<mapsto> c)\<rparr>"
  note D = net_invD [OF E(2)]
  have used: "used_addr ?t = used_addr ?e" using g by (auto simp: used_addr_def)
  have old: "routers ?e q = Some h" if "routers ?t q = Some h" "q \<noteq> a" for q h using that by simp
  have away: "free_addr h \<inter> b = {}" if "routers ?e q = Some h" for q h
  proof (cases "q = p")
    case True
    with that b(3) show ?thesis by auto
  next
    case False
    with that have "routers t q = Some h" by simp
    from net_invD(5) [OF inv this g False] b(1) show ?thesis by blast
  qed
  show "net_inv root ?t"
    unfolding net_inv_def used
  proof (intro allI impI)
    fix q h assume h: "routers ?t q = Some h"
    show "mac_short_address h = q \<and> node_ok h \<and> tree_cfg h = tree_cfg root
        \<and> (\<forall>x \<in> used_addr ?e. unat x \<notin> free_addr h)
        \<and> (\<forall>x k. routers ?t x = Some k \<longrightarrow> q \<noteq> x \<longrightarrow> free_addr h \<inter> free_addr k = {})"
    proof (cases "q = a")
      case True
      then have hc: "h = c" using h by simp
      have "unat x \<notin> free_addr c" if "x \<in> used_addr ?e" for x
      proof
        assume x: "unat x \<in> free_addr c"
        then have "unat x \<in> free_addr g" "x \<noteq> a" using c(4) b(1) by auto
        moreover have "x \<in> used_addr t" using that \<open>x \<noteq> a\<close> g by (auto simp: used_addr_def split: if_splits)
        ultimately show False using net_invD(4) [OF inv g] by blast
      qed
      moreover have "free_addr c \<inter> free_addr k = {}" if "routers ?t x = Some k" "a \<noteq> x" for x k
        using away [OF old [OF that(1)]] that(2) c(4) by blast
      ultimately show ?thesis using True hc c(1-3) net_invD(3) [OF inv g] by auto
    next
      case False
      note h' = old [OF h False]
      have "free_addr h \<inter> free_addr k = {}" if "routers ?t x = Some k" "q \<noteq> x" for x k
      proof (cases "x = a")
        case True
        then have "k = c" using that(1) by simp
        then show ?thesis using away [OF h'] c(4) by blast
      next
        case xn: False
        show ?thesis by (rule D(5) [OF h' old [OF that(1) xn] that(2)])
      qed
      then show ?thesis using D(1-4) [OF h'] by blast
    qed
  qed
qed


definition tree_root :: "zb_nwk \<Rightarrow> bool" where
  "tree_root root \<longleftrightarrow> childless root \<and> max_routers root \<le> max_children root \<and> unat (max_depth root) \<le> 15
     \<and> blk root (unat (max_depth root)) < 65536"

lemma form_ok:
  assumes "tree_root root"
  defines "g \<equiv> formation_position (root\<lparr>mac_short_address := 0\<rparr>)"
  shows "node_ok g" "mac_short_address g = 0" "tree_cfg g = tree_cfg root"
proof -
  have g: "max_children g = max_children root" "max_routers g = max_routers root" "max_depth g = max_depth root"
    "router_child_num g = 0" "ed_child_num g = 0" "nib_depth g = 0" "mac_short_address g = 0"
    "cskip g = zb_nwk_daa_calc_cskip 0 g"
    using assms(1) by (simp_all add: g_def formation_position_def Let_def tree_root_def childless_def zb_nwk_daa_calc_cskip_def)
  show "mac_short_address g = 0" "tree_cfg g = tree_cfg root" using g by (simp_all add: tree_cfg_def)
  have lv: "levels g = unat (max_depth root)" and bl: "blk g = blk root" using g by (simp_all add: levels_def blk_def fun_eq_iff)
  have "unat (cskip g) = blk g (levels g - 1)" if "levels g \<noteq> 0"
  proof -
    have "blk g (levels g - 1) \<le> blk g (levels g)"
      using that block_mono by (cases "levels g") (simp_all add: blk_def del: block.simps)
    then have "blk g (levels g - 1) < 65536" using assms(1) lv bl by (simp add: tree_root_def)
    then show ?thesis
      using cskip_eq [of g 0] that assms(1) g lv by (simp add: blk_def levels_def tree_root_def word_less_nat_alt)
  qed
  then show "node_ok g" using assms(1) g lv bl by (simp add: node_ok_def tree_root_def)
qed

lemma tree_inv:
  assumes "tree_reach root t" and "tree_root root"
  shows "net_inv root t"
  using assms
proof (induction rule: tree_reach.induct)
  case form
  note f = form_ok [OF form]
  have "0 \<notin> free_addr (formation_position (root\<lparr>mac_short_address := 0\<rparr>))"
    using free_bounds(1) [OF f(1)] f(2) by fastforce
  then show ?case using f by (auto simp: net_inv_def used_addr_def split: if_splits)
next
  case (join_router t p g cap a g' c)
  note D = net_invD [OF join_router.IH [OF join_router.prems] join_router.hyps(2)]
  have c: "tree_cfg c = tree_cfg g" using join_router.hyps(6) D(3) by simp
  note R = accept_router [OF D(2) join_router.hyps(3,4,5) c join_router.hyps(7)]
  show ?case by (rule net_inv_router(2) [OF join_router.IH [OF join_router.prems] join_router.hyps(2)
      R(1-3) R(5,6,7) R(8,9,10,11)])
next
  case (join_ed t p g cap a g')
  note D = net_invD [OF join_ed.IH [OF join_ed.prems] join_ed.hyps(2)]
  note R = accept_ed [OF D(2) join_ed.hyps(3,4,5,6)]
  show ?case by (rule net_inv_ed(2) [OF join_ed.IH [OF join_ed.prems] join_ed.hyps(2) R(1-4) _ R(5)]) simp
qed

text \<open>
  C2. Addresses are unique: in every tree that grows from a coordinator by accepted children, as long
  as the parents keep the places of routers from end devices, the address assigned to the next child is
  one that no device of the tree has, and it is larger than the address of the parent.
\<close>

theorem tree_addresses_unique:
  assumes "tree_reach root t" and "tree_root root" and "routers t p = Some g"
    and "assign_address cap g = (True, a, g')" and "ZB_MAC_CAP_GET_ALLOCATE_ADDRESS cap"
    and "ZB_MAC_CAP_GET_DEVICE_TYPE cap \<or> unat (ed_child_num g) < unat (max_children g) - unat (max_routers g)"
  shows "a \<notin> used_addr t \<and> p < a"
proof -
  note D = net_invD [OF tree_inv [OF assms(1,2)] assms(3)]
  have "unat a \<in> free_addr g"
  proof (cases "ZB_MAC_CAP_GET_DEVICE_TYPE cap")
    case True
    have "childless (g\<lparr>router_child_num := 0, ed_child_num := 0\<rparr>)" "tree_cfg (g\<lparr>router_child_num := 0, ed_child_num := 0\<rparr>) = tree_cfg g"
      by (simp_all add: childless_def tree_cfg_def)
    from accept_router(5,6) [OF D(2) assms(4) True assms(5) this(2,1)] show ?thesis by blast
  next
    case False
    then show ?thesis using accept_ed(4) [OF D(2) assms(4) False assms(5)] assms(6) by blast
  qed
  then show ?thesis using D(1,4) free_bounds(1) [OF D(2)] by (auto simp: word_less_nat_alt)
qed


definition nwk_default :: zb_nwk where
  "nwk_default =
     \<lparr>max_depth = ZB_NWK_MAX_DEPTH, max_children = ZB_DEFAULT_MAX_CHILDREN, max_routers = ZB_NWK_MAX_ROUTERS,
      router_child_num = 0, ed_child_num = 0, cskip = 0xffff, nib_depth = 0, security_level = 5,
      extended_pan_id = replicate 8 0, update_id = 0, nwk_parent = 0, neighbor = zb_nwk_neighbor_clear,
      addr_tbl = addr_cleared, mac_short_address = 0, mac_association_permit = True,
      mac_beacon_payload =
        \<lparr>protocol_id = 0, stack_profile = 0, protocol_version = 0, reserved = 0, router_capacity = False, device_depth = 0,
         end_device_capacity = False, extended_panid = replicate 8 0, txoffset = [0, 0, 0], nwk_update_id = 0\<rparr>,
      mac_beacon_payload_length = 0\<rparr>"

lemma nwk_default_root: "tree_root nwk_default" "blk nwk_default 5 = 10913"
proof -
  have u: "unat (max_children nwk_default) = 32" "unat (max_routers nwk_default) = 4" "unat (max_depth nwk_default) = 5"
    by (simp_all add: nwk_default_def zb_config)
  have five: "5 = Suc (Suc (Suc (Suc (Suc 0))))" by simp
  show b: "blk nwk_default 5 = 10913" unfolding blk_def u five by simp
  show "tree_root nwk_default"
    using b u by (simp add: tree_root_def childless_def nwk_default_def zb_config)
qed

theorem tree_addresses_unique_witness:
  "\<exists>a g'. assign_address 0x8e (formation_position (nwk_default\<lparr>mac_short_address := 0\<rparr>)) = (True, a, g') \<and> a \<noteq> 0"
proof -
  let ?g = "formation_position (nwk_default\<lparr>mac_short_address := 0\<rparr>)"
  have cap: "ZB_MAC_CAP_GET_ALLOCATE_ADDRESS 0x8e" "ZB_MAC_CAP_GET_DEVICE_TYPE 0x8e"
    by (simp_all add: ZB_MAC_CAP_GET_ALLOCATE_ADDRESS_def ZB_MAC_CAP_GET_DEVICE_TYPE_def)
  obtain a g' where run: "assign_address 0x8e ?g = (True, a, g')"
    using cap by (simp add: assign_address_def formation_position_def nwk_default_def zb_config Let_def)
  let ?t = "\<lparr>routers = [0 \<mapsto> ?g], eds = {}\<rparr>"
  have "tree_reach nwk_default ?t" by (rule tree_reach.form)
  from tree_addresses_unique [OF this nwk_default_root(1) _ run cap(1) disjI1 [OF cap(2)], of 0] run
  show ?thesis by (auto simp: used_addr_def)
qed

text \<open>
  Without that restriction they are not: the code counts end devices only against the number of
  all children. When a router that is not full of routers has as many end devices as fit behind its
  routers, the next end device gets the address its parent gives to the next router.
\<close>

theorem ed_takes_sibling_address:
  assumes "node_ok h" and "assign_address cr h = (True, a1, h1)" and "assign_address cr h1 = (True, a2, h2)"
    and "ZB_MAC_CAP_GET_DEVICE_TYPE cr" "ZB_MAC_CAP_GET_ALLOCATE_ADDRESS cr"
    and "tree_cfg c = tree_cfg h" "childless c" and "1 < levels h"
    and "\<not> ZB_MAC_CAP_GET_DEVICE_TYPE ce" "ZB_MAC_CAP_GET_ALLOCATE_ADDRESS ce"
  shows "\<exists>g'. assign_address ce ((join_position (ucast (nib_depth h)) (c\<lparr>mac_short_address := a1\<rparr>))
      \<lparr>ed_child_num := max_children h - max_routers h\<rparr>) = (True, a2, g')"
proof -
  let ?c = "join_position (ucast (nib_depth h)) (c\<lparr>mac_short_address := a1\<rparr>)"
  let ?g = "?c\<lparr>ed_child_num := max_children h - max_routers h\<rparr>"
  note R = accept_router [OF assms(1,2,4,5,6,7)]
  note A1 = assign_cases [OF assms(2,5)] and A2 = assign_cases [OF assms(3,5)]
  let ?s = "blk h (levels h - 1)"
  have cfg: "max_children ?c = max_children h" "max_routers ?c = max_routers h" "max_depth ?c = max_depth h"
    using R(10) by (simp_all add: tree_cfg_def)
  have le: "max_routers h \<le> max_children h" using assms(1) by (simp add: node_ok_def)
  have h1: "levels h1 = levels h" "blk h1 = blk h" "unat (router_child_num h1) = unat (router_child_num h) + 1"
    using A1(3) [OF assms(4)] unat_inc_byte [of "router_child_num h" "max_routers h"]
    by (auto simp: levels_def blk_def fun_eq_iff)
  have a2: "unat a2 = unat (mac_short_address h) + (unat (router_child_num h) + 1) * ?s + 1"
    using router_addr_eq(1) [OF R(1) A2(1)] A2(3) [OF assms(4)] R(2) h1 by simp
  have a1: "unat a1 = unat (mac_short_address h) + unat (router_child_num h) * ?s + 1"
    using router_addr_eq(1) [OF assms(1) A1(1)] A1(3) [OF assms(4)] by simp
  have a12: "unat a2 = unat a1 + ?s" using a1 a2 by (simp add: algebra_simps)
  have nd: "nib_depth ?c = nib_depth h + 1" "unat (nib_depth h + 1) = unat (nib_depth h) + 1"
    "router_child_num ?c = 0"
    using child_depth [OF assms(1) A1(1)] assms(7) by (simp_all add: join_position_def Let_def childless_def)
  have lv: "levels ?c = levels h - 1" "0 < levels ?c" using nd cfg assms(8) by (simp_all add: levels_def)
  have bl: "blk ?c = blk h" using cfg by (simp add: blk_def fun_eq_iff)
  have sub: "unat (max_children h - max_routers h) = unat (max_children h) - unat (max_routers h)"
    using le by (simp add: unat_sub word_le_nat_alt)
  have s: "?s = 1 + unat (max_routers h) * blk h (levels h - 1 - 1) + (unat (max_children h) - unat (max_routers h))"
    using blk_Suc [of ?c] lv bl cfg by simp
  have sk: "unat (cskip ?c) = blk h (levels h - 1 - 1)" using R(8) lv bl by (simp add: node_ok_def)
  have "ZB_NWK_ED_ADDRESS_ASSIGN ?g = a1 + ucast (max_routers h) * cskip ?c
      + of_nat (unat (max_children h - max_routers h) + 1)"
    using R(9) cfg by (simp add: ZB_NWK_ED_ADDRESS_ASSIGN_def)
  moreover have "unat a1 + unat (max_routers h) * unat (cskip ?c) + (unat (max_children h - max_routers h) + 1) = unat a2"
    using a12 s sk sub by simp
  moreover have "unat a2 < 65536" using unsigned_less [of a2] by simp
  ultimately have "unat (ZB_NWK_ED_ADDRESS_ASSIGN ?g) = unat a2"
    using addr_arith [of a1 "max_routers h" "cskip ?c" "unat (max_children h - max_routers h) + 1"] by simp
  then have "ZB_NWK_ED_ADDRESS_ASSIGN ?g = a2" by (rule word_eq_iff_unsigned [THEN iffD2])
  moreover have "unat (ed_child_num ?g) + unat (router_child_num ?g) < unat (max_children ?g)"
    using nd(3) cfg sub A1(3) [OF assms(4)] le by (simp add: word_less_nat_alt word_le_nat_alt)
  moreover have "nib_depth ?g < max_depth ?g" using lv(2) by (simp add: levels_def word_less_nat_alt)
  ultimately show ?thesis using assms(9,10) by (simp add: assign_address_def)
qed


lemma caps: "ZB_MAC_CAP_GET_ALLOCATE_ADDRESS 0x8e" "ZB_MAC_CAP_GET_DEVICE_TYPE 0x8e"
  "ZB_MAC_CAP_GET_ALLOCATE_ADDRESS 0x80" "\<not> ZB_MAC_CAP_GET_DEVICE_TYPE 0x80"
  by (simp_all add: ZB_MAC_CAP_GET_ALLOCATE_ADDRESS_def ZB_MAC_CAP_GET_DEVICE_TYPE_def)

theorem ed_takes_sibling_address_witness:
  "\<exists>(h :: zb_nwk) a1 h1 a2 h2 g'. assign_address 0x8e h = (True, a1, h1) \<and> assign_address 0x8e h1 = (True, a2, h2)
    \<and> assign_address 0x80 ((join_position (ucast (nib_depth h)) (nwk_default\<lparr>mac_short_address := a1\<rparr>))
        \<lparr>ed_child_num := max_children h - max_routers h\<rparr>) = (True, a2, g')"
proof -
  let ?h = "formation_position (nwk_default\<lparr>mac_short_address := 0\<rparr>)"
  note f = form_ok [OF nwk_default_root(1)]
  have d: "nib_depth ?h = 0" "max_depth ?h = 5" "max_children ?h = 32" "max_routers ?h = 4"
    "router_child_num ?h = 0" "ed_child_num ?h = 0"
    by (simp_all add: formation_position_def nwk_default_def zb_config Let_def)
  obtain a1 where r1: "assign_address 0x8e ?h = (True, a1, ?h\<lparr>router_child_num := router_child_num ?h + 1\<rparr>)"
    using caps d by (simp add: assign_address_def)
  obtain a2 h2 where r2: "assign_address 0x8e (?h\<lparr>router_child_num := router_child_num ?h + 1\<rparr>) = (True, a2, h2)"
    using caps d by (simp add: assign_address_def)
  have c: "tree_cfg nwk_default = tree_cfg ?h" "childless nwk_default"
    using f(3) nwk_default_root(1) by (simp_all add: tree_root_def)
  have "1 < levels ?h" using d by (simp add: levels_def)
  from ed_takes_sibling_address [OF f(1) r1 r2 caps(2,1) c this caps(4,3)]
  obtain g' where "assign_address 0x80 ((join_position (ucast (nib_depth ?h)) (nwk_default\<lparr>mac_short_address := a1\<rparr>))
        \<lparr>ed_child_num := max_children ?h - max_routers ?h\<rparr>) = (True, a2, g')" by blast
  note g = this
  show ?thesis by (intro exI conjI) (rule r1, rule r2, rule g)
qed

text \<open>
  The size of the address block of a child router is the one of the recursive definition: an
  address for the child itself, a block for each of its routers, and an address for each of its other
  children; as long as the block fits into 16 bits, no step of the 16-bit computation loses anything.
\<close>

theorem cskip_is_block:
  assumes "max_routers g \<le> max_children g" and "d < max_depth g"
    and "block (unat (max_children g)) (unat (max_routers g)) (unat (max_depth g) - unat d - 1) < 65536"
  shows "unat (zb_nwk_daa_calc_cskip d g)
    = block (unat (max_children g)) (unat (max_routers g)) (unat (max_depth g) - unat d - 1)"
  by (rule cskip_eq [OF assms])

theorem cskip_is_block_witness: "unat (zb_nwk_daa_calc_cskip 3 nwk_default) = 33"
proof -
  have u: "unat (max_children nwk_default) = 32" "unat (max_routers nwk_default) = 4" "unat (max_depth nwk_default) = 5"
    by (simp_all add: nwk_default_def zb_config)
  have b: "block 32 4 (5 - unat (3 :: u8) - 1) = 33" 
  proof -
    have "5 - unat (3 :: u8) - 1 = Suc 0" by simp
    then show ?thesis by (simp only: block.simps)
  qed
  have "max_routers nwk_default \<le> max_children nwk_default" "3 < max_depth nwk_default"
    by (simp_all add: nwk_default_def zb_config)
  from cskip_is_block [OF this] show ?thesis unfolding u b by simp
qed

section \<open>Routing down the tree\<close>

lemma routing_neighbor_ok:
  assumes "addr_inv (addr_tbl g)" and "length (addr_to_neighbor (neighbor g)) = 101" and "a \<noteq> 0xffff"
  shows "\<exists>z'. routing_neighbor a g
      = Some (if \<exists>r \<in> used_refs (addr_map (addr_tbl g)). am_addr (addr_map (addr_tbl g) ! r) = a
                \<and> addr_to_neighbor (neighbor g) ! r \<noteq> 0xff
              then Some (unat (addr_to_neighbor (neighbor g)
                ! (THE r. r \<in> used_refs (addr_map (addr_tbl g)) \<and> am_addr (addr_map (addr_tbl g) ! r) = a)))
              else None, g\<lparr>addr_tbl := z'\<rparr>)
    \<and> addr_inv z' \<and> used_refs (addr_map z') = used_refs (addr_map (addr_tbl g))
    \<and> (\<forall>r. am_addr (addr_map z' ! r) = am_addr (addr_map (addr_tbl g) ! r))"
proof (cases "\<exists>r \<in> used_refs (addr_map (addr_tbl g)). am_addr (addr_map (addr_tbl g) ! r) = a")
  case True
  then obtain r where r: "r \<in> used_refs (addr_map (addr_tbl g))" "am_addr (addr_map (addr_tbl g) ! r) = a" by blast
  note S = addr_short_search(1) [OF assms(1,3)]
  have only: "q = r" if "q \<in> used_refs (addr_map (addr_tbl g))" "am_addr (addr_map (addr_tbl g) ! q) = a" for q
    using S [OF that] S [OF r] by simp
  have the: "(THE q. q \<in> used_refs (addr_map (addr_tbl g)) \<and> am_addr (addr_map (addr_tbl g) ! q) = a) = r"
    by (rule the_equality) (use r only in blast)+
  have r1: "r < 101" using r(1) by (simp add: used_refs_def)
  note T = touch_props [OF assms(1) r1]
  have "zb_address_by_short a False False (addr_tbl g) = Some (RET_OK, Some r, touch r (addr_tbl g))"
    using S [OF r] T(1) by (simp add: zb_address_by_short_def lock_if_def)
  then have "routing_neighbor a g = Some (if addr_to_neighbor (neighbor g) ! r \<noteq> 0xff
      then Some (unat (addr_to_neighbor (neighbor g) ! r)) else None, g\<lparr>addr_tbl := touch r (addr_tbl g)\<rparr>)"
    using assms(2) r1 by (simp add: routing_neighbor_def Let_def)
  moreover have "(\<exists>q \<in> used_refs (addr_map (addr_tbl g)). am_addr (addr_map (addr_tbl g) ! q) = a
      \<and> addr_to_neighbor (neighbor g) ! q \<noteq> 0xff) \<longleftrightarrow> addr_to_neighbor (neighbor g) ! r \<noteq> 0xff"
    using r only by blast
  ultimately show ?thesis unfolding the using T by (intro exI [of _ "touch r (addr_tbl g)"]) simp
next
  case False
  then have "zb_address_by_short a False False (addr_tbl g) = Some (RET_NOT_FOUND, None, addr_tbl g)"
    using addr_short_search(2) [OF assms(1,3)] by (simp add: zb_address_by_short_def lock_if_def)
  then have "routing_neighbor a g = Some (None, g\<lparr>addr_tbl := addr_tbl g\<rparr>)" by (simp add: routing_neighbor_def Let_def)
  moreover have "\<not> (\<exists>q \<in> used_refs (addr_map (addr_tbl g)). am_addr (addr_map (addr_tbl g) ! q) = a
      \<and> addr_to_neighbor (neighbor g) ! q \<noteq> 0xff)" using False by blast
  ultimately show ?thesis using assms(1) by (intro exI [of _ "addr_tbl g"]) simp
qed

text \<open>The neighbor an address leads to.\<close>

definition neighbor_with :: "u16 \<Rightarrow> zb_nwk \<Rightarrow> nat \<Rightarrow> bool" where
  "neighbor_with a g r \<longleftrightarrow> r \<in> used_refs (addr_map (addr_tbl g)) \<and> am_addr (addr_map (addr_tbl g) ! r) = a
     \<and> addr_to_neighbor (neighbor g) ! r \<noteq> 0xff"

definition same_addrs :: "zb_addr_globals \<Rightarrow> zb_addr_globals \<Rightarrow> bool" where
  "same_addrs z z' \<longleftrightarrow> addr_inv z' \<and> used_refs (addr_map z') = used_refs (addr_map z)
     \<and> (\<forall>r. am_addr (addr_map z' ! r) = am_addr (addr_map z ! r))"

lemma routing_neighbor_some:
  assumes inv: "addr_inv (addr_tbl g)" "length (addr_to_neighbor (neighbor g)) = 101" "a \<noteq> 0xffff"
    and r: "neighbor_with a g r"
  shows "\<exists>z'. routing_neighbor a g = Some (Some (unat (addr_to_neighbor (neighbor g) ! r)), g\<lparr>addr_tbl := z'\<rparr>)
    \<and> same_addrs (addr_tbl g) z'"
proof -
  note S = addr_short_search(1) [OF inv(1,3)]
  have u: "r \<in> used_refs (addr_map (addr_tbl g))" "am_addr (addr_map (addr_tbl g) ! r) = a"
    "addr_to_neighbor (neighbor g) ! r \<noteq> 0xff" using r by (simp_all add: neighbor_with_def)
  have the: "(THE q. q \<in> used_refs (addr_map (addr_tbl g)) \<and> am_addr (addr_map (addr_tbl g) ! q) = a) = r"
    by (rule the_equality) (use u S [OF u(1,2)] S in fastforce)+
  have "\<exists>r \<in> used_refs (addr_map (addr_tbl g)). am_addr (addr_map (addr_tbl g) ! r) = a
                \<and> addr_to_neighbor (neighbor g) ! r \<noteq> 0xff" using u by blast
  with routing_neighbor_ok [OF inv] show ?thesis unfolding the same_addrs_def by auto
qed

lemma routing_neighbor_none:
  assumes "addr_inv (addr_tbl g)" "length (addr_to_neighbor (neighbor g)) = 101" "a \<noteq> 0xffff"
    and "\<not> (\<exists>r. neighbor_with a g r)"
  shows "\<exists>z'. routing_neighbor a g = Some (None, g\<lparr>addr_tbl := z'\<rparr>) \<and> same_addrs (addr_tbl g) z'"
proof -
  have "\<not> (\<exists>r \<in> used_refs (addr_map (addr_tbl g)). am_addr (addr_map (addr_tbl g) ! r) = a
                \<and> addr_to_neighbor (neighbor g) ! r \<noteq> 0xff)" using assms(4) by (auto simp: neighbor_with_def)
  with routing_neighbor_ok [OF assms(1-3)] show ?thesis unfolding same_addrs_def by auto
qed


lemma lower_eq:
  assumes "node_ok g" and "0 < levels g" and "i < unat (max_routers g)"
  defines "s \<equiv> blk g (levels g - 1)"
  shows "unat (cskip g * of_nat i + 1) = i * s + 1" "unat (cskip g * of_nat i + 1 + cskip g) = (i + 1) * s + 1"
    "(i + 1) * s \<le> unat (max_routers g) * s"
proof -
  have c: "unat (cskip g) = s" using assms(1,2) by (simp add: node_ok_def s_def)
  show le: "(i + 1) * s \<le> unat (max_routers g) * s" by (rule mult_le_mono1) (use assms(3) in simp)
  have "unat (max_routers g) * s + 1 \<le> blk g (levels g)" using blk_Suc [OF assms(2)] unfolding s_def by linarith
  then have top: "(i + 1) * s + 1 < 65536" using le assms(1) by (simp add: node_ok_def)
  have "cskip g * of_nat i + 1 = (of_nat (i * unat (cskip g) + 1) :: u16)" by simp
  moreover have "i * s + 1 < 65536" using top by (simp add: algebra_simps)
  ultimately show "unat (cskip g * of_nat i + 1) = i * s + 1" unfolding c by (simp only:) (rule unat_of_nat_lt, simp)
  have "cskip g * of_nat i + 1 + cskip g = (of_nat ((i + 1) * unat (cskip g) + 1) :: u16)" by (simp add: algebra_simps)
  then show "unat (cskip g * of_nat i + 1 + cskip g) = (i + 1) * s + 1"
    using top unfolding c by (simp only:) (rule unat_of_nat_lt, simp)
qed

lemma find_router_skip:
  assumes "node_ok g" and "0 < levels g"
  shows "j + k = unat (max_routers g) \<Longrightarrow>
    (\<forall>i. j \<le> i \<longrightarrow> i < j + k \<longrightarrow> \<not> (cskip g * of_nat i + 1 < dest \<and> dest < cskip g * of_nat i + 1 + cskip g))
    \<Longrightarrow> find_router_loop k j dest g = Some (None, g)"
proof (induction k arbitrary: j)
  case (Suc k)
  have no: "\<not> (cskip g * of_nat j + 1 < dest \<and> dest < cskip g * of_nat j + 1 + cskip g)" using Suc.prems(2) by simp
  have "find_router_loop k (j + 1) dest g = Some (None, g)"
    by (rule Suc.IH) (use Suc.prems in auto)
  then show ?case unfolding find_router_loop.simps Let_def if_not_P [OF no] .
qed simp

lemma find_router_hit:
  assumes ok: "node_ok g" "0 < levels g" and i: "i < unat (max_routers g)"
    and dest: "i * blk g (levels g - 1) + 1 < unat dest" "unat dest \<le> (i + 1) * blk g (levels g - 1)"
  shows "j \<le> i \<Longrightarrow> j + k = unat (max_routers g)
    \<Longrightarrow> find_router_loop k j dest g = routing_neighbor (cskip g * of_nat i + 1) g"
proof (induction k arbitrary: j)
  case 0
  with i show ?case by simp
next
  case (Suc k)
  let ?s = "blk g (levels g - 1)"
  have j: "j < unat (max_routers g)" using Suc.prems by simp
  have hit: "(cskip g * of_nat j + 1 < dest \<and> dest < cskip g * of_nat j + 1 + cskip g) \<longleftrightarrow> j = i"
  proof
    assume "cskip g * of_nat j + 1 < dest \<and> dest < cskip g * of_nat j + 1 + cskip g"
    then have "unat dest < (j + 1) * ?s + 1" using lower_eq [OF ok j] by (simp add: word_less_nat_alt)
    moreover have "(j + 1) * ?s \<le> i * ?s" if "j < i" by (rule mult_le_mono1) (use that in simp)
    ultimately show "j = i" using Suc.prems(1) dest by (cases "j < i") auto
  next
    assume "j = i"
    then show "cskip g * of_nat j + 1 < dest \<and> dest < cskip g * of_nat j + 1 + cskip g"
      using lower_eq [OF ok i] dest by (simp add: word_less_nat_alt)
  qed
  show ?case
  proof (cases "j = i")
    case True
    then show ?thesis using hit unfolding find_router_loop.simps Let_def by simp
  next
    case False
    have "find_router_loop k (j + 1) dest g = routing_neighbor (cskip g * of_nat i + 1) g"
      by (rule Suc.IH) (use Suc.prems False in auto)
    moreover from hit False have no: "\<not> (cskip g * of_nat j + 1 < dest \<and> dest < cskip g * of_nat j + 1 + cskip g)" by blast
    ultimately show ?thesis unfolding find_router_loop.simps Let_def if_not_P [OF no] by blast
  qed
qed

lemma frame_addr_tbl [simp]:
  "node_ok (g\<lparr>addr_tbl := z\<rparr>) = node_ok g" "levels (g\<lparr>addr_tbl := z\<rparr>) = levels g" "blk (g\<lparr>addr_tbl := z\<rparr>) = blk g"
  by (simp_all add: node_ok_def levels_def blk_def fun_eq_iff)

lemma not_broadcast:
  assumes "node_ok g" and "0 < levels g" and "unat a < unat (mac_short_address g) + blk g (levels g)"
  shows "a \<noteq> (0xffff :: u16)"
proof
  assume "a = 0xffff"
  then have "unat a = 65535" by simp
  with assms show False by (simp add: node_ok_def)
qed

text \<open>
  The coordinator routes a packet for an address inside the block of its child number \<open>i\<close> to that
  child, when the child is a neighbor and the destination itself is not; the tables keep their
  addresses.
\<close>

theorem coordinator_routes_down:
  assumes "node_ok g" and "0 < levels g" and "mac_short_address g = 0"
    and "addr_inv (addr_tbl g)" and "length (addr_to_neighbor (neighbor g)) = 101"
    and "i < unat (max_routers g)"
    and "i * blk g (levels g - 1) + 1 < unat dest" and "unat dest \<le> (i + 1) * blk g (levels g - 1)"
    and "neighbor_with (cskip g * of_nat i + 1) g r" and "\<not> (\<exists>q. neighbor_with dest g q)"
  shows "\<exists>z'. zb_nwk_tree_routing_route dest g
      = Some (Some (unat (addr_to_neighbor (neighbor g) ! r)), g\<lparr>addr_tbl := z'\<rparr>)
    \<and> same_addrs (addr_tbl g) z'"
proof -
  note L = lower_eq [OF assms(1,2,6)]
  have "unat (max_routers g) * blk g (levels g - 1) + 1 \<le> blk g (levels g)" using blk_Suc [OF assms(2)] by linarith
  then have "unat dest < unat (mac_short_address g) + blk g (levels g)"
    "unat (cskip g * of_nat i + 1) < unat (mac_short_address g) + blk g (levels g)"
    using L assms(7,8) by simp_all
  then have nb: "dest \<noteq> 0xffff" "cskip g * of_nat i + 1 \<noteq> 0xffff" using not_broadcast [OF assms(1,2)] by blast+
  obtain z1 where z1: "routing_neighbor dest g = Some (None, g\<lparr>addr_tbl := z1\<rparr>)" "same_addrs (addr_tbl g) z1"
    using routing_neighbor_none [OF assms(4,5) nb(1) assms(10)] by blast
  let ?g = "g\<lparr>addr_tbl := z1\<rparr>"
  have "neighbor_with (cskip g * of_nat i + 1) ?g r" using assms(9) z1(2) by (simp add: neighbor_with_def same_addrs_def)
  then obtain z2 where z2: "routing_neighbor (cskip g * of_nat i + 1) ?g
      = Some (Some (unat (addr_to_neighbor (neighbor g) ! r)), ?g\<lparr>addr_tbl := z2\<rparr>)" "same_addrs z1 z2"
  proof -
    have "addr_inv (addr_tbl ?g)" "length (addr_to_neighbor (neighbor ?g)) = 101" using assms(5) z1(2) by (simp_all add: same_addrs_def)
    from routing_neighbor_some [OF this nb(2) \<open>neighbor_with _ ?g r\<close>] that show ?thesis by auto
  qed
  have "find_router_loop (unat (max_routers g)) 0 dest ?g = routing_neighbor (cskip ?g * of_nat i + 1) ?g"
    by (rule find_router_hit) (use assms in simp_all)
  then have "zb_nwk_tree_routing_find_router dest g
      = Some (Some (unat (addr_to_neighbor (neighbor g) ! r)), g\<lparr>addr_tbl := z2\<rparr>)"
    using z1(1) z2(1) by (simp add: zb_nwk_tree_routing_find_router_def)
  moreover have "same_addrs (addr_tbl g) z2" using z1(2) z2(2) by (simp add: same_addrs_def)
  ultimately show ?thesis using assms(3)
    by (intro exI [of _ z2]) (simp add: zb_nwk_tree_routing_route_def Let_def)
qed

text \<open>An address table with one entry, the short address \<open>a\<close> under the reference 5.\<close>

definition addr_with :: "u16 \<Rightarrow> zb_addr_globals" where
  "addr_with a = addr_cleared
     \<lparr>addr_map := (addr_map addr_cleared)[5 := (addr_map addr_cleared ! 5)\<lparr>am_used := True, am_addr := a\<rparr>],
      short_sorted := (short_sorted addr_cleared)[0 := 5], n_elements := 1, n_sorted_elements := 1\<rparr>"

lemma addr_with_inv:
  "a \<noteq> 0xffff \<Longrightarrow> addr_inv (addr_with a)" "used_refs (addr_map (addr_with a)) = {5}"
  "am_addr (addr_map (addr_with a) ! 5) = a"
proof -
  have r: "refs (addr_with a) = [5]" by (simp add: refs_def addr_with_def addr_cleared_def take_update_swap)
  show u: "used_refs (addr_map (addr_with a)) = {5}"
    by (auto simp: used_refs_def addr_with_def addr_cleared_def nth_list_update split: if_splits)
  show m: "am_addr (addr_map (addr_with a) ! 5) = a" by (simp add: addr_with_def addr_cleared_def)
  show "addr_inv (addr_with a)" if "a \<noteq> 0xffff"
    unfolding addr_inv_def sorted_inv_def r u using that m by (auto simp: addr_with_def addr_cleared_def)
qed

lemma blk_default: "blk nwk_default 3 = 673" "blk nwk_default 4 = 2721"
proof -
  have u: "unat (max_children nwk_default) = 32" "unat (max_routers nwk_default) = 4"
    by (simp_all add: nwk_default_def zb_config)
  have n: "3 = Suc (Suc (Suc 0))" "4 = Suc (Suc (Suc (Suc 0)))" by simp_all
  show "blk nwk_default 3 = 673" unfolding blk_def u n(1) by simp
  show "blk nwk_default 4 = 2721" unfolding blk_def u n(2) by simp
qed

theorem coordinator_routes_down_witness:
  "\<exists>(g :: zb_nwk) z'. mac_short_address g = 0 \<and> zb_nwk_tree_routing_route 3 g = Some (Some 0, g\<lparr>addr_tbl := z'\<rparr>)"
proof -
  let ?f = "formation_position (nwk_default\<lparr>mac_short_address := 0\<rparr>)"
  let ?nb = "zb_nwk_neighbor_clear\<lparr>addr_to_neighbor := (addr_to_neighbor zb_nwk_neighbor_clear)[5 := 0]\<rparr>"
  let ?g = "?f\<lparr>addr_tbl := addr_with 1, neighbor := ?nb\<rparr>"
  note f = form_ok [OF nwk_default_root(1)]
  have d: "nib_depth ?g = 0" "max_depth ?g = 5" "max_children ?g = 32" "max_routers ?g = 4"
    by (simp_all add: formation_position_def nwk_default_def zb_config Let_def)
  have lv: "levels ?g = 5" using d by (simp add: levels_def)
  have bl: "blk ?g = blk nwk_default" using d by (simp add: blk_def nwk_default_def zb_config fun_eq_iff)
  have ok: "node_ok ?g" using f(1) by (simp add: node_ok_def levels_def blk_def)
  have len: "length (addr_to_neighbor zb_nwk_neighbor_clear) = 101"
    using nb_invD(2) [OF neighbor_cleared(1)] .
  have at: "addr_to_neighbor (neighbor ?g) ! 5 = 0" using len by simp
  have "neighbor_with (cskip ?g * of_nat 0 + 1) ?g 5"
    using addr_with_inv(2,3) [of 1] at by (simp add: neighbor_with_def)
  moreover have "\<not> (\<exists>q. neighbor_with 3 ?g q)"
    using addr_with_inv(2,3) [of 1] by (auto simp: neighbor_with_def)
  ultimately obtain z' where "zb_nwk_tree_routing_route 3 ?g
      = Some (Some (unat (addr_to_neighbor (neighbor ?g) ! 5)), ?g\<lparr>addr_tbl := z'\<rparr>)"
    using coordinator_routes_down [of ?g 0 3 5, OF ok] lv bl blk_default f(2) addr_with_inv(1) [of 1] len d by auto
  then have "mac_short_address ?g = 0 \<and> zb_nwk_tree_routing_route 3 ?g = Some (Some 0, ?g\<lparr>addr_tbl := z'\<rparr>)"
    using f(2) at by simp
  then show ?thesis by blast
qed

text \<open>
  The search for the child does not add the own address to the blocks: a router whose own address
  is not below the sum of the blocks of its routers finds no way down to any address that
  is not itself a neighbor, although the address lies in its own block and the packet is to go down.
\<close>

theorem router_misses_down:
  assumes "node_ok g" and "0 < levels g" and "nib_depth g \<noteq> 0"
    and "addr_inv (addr_tbl g)" and "length (addr_to_neighbor (neighbor g)) = 101"
    and "unat (max_routers g) * blk g (levels g - 1) < unat (mac_short_address g)"
    and "mac_short_address g < dest" and "unat dest < unat (mac_short_address g) + blk g (levels g)"
    and "\<not> (\<exists>q. neighbor_with dest g q)"
  shows "\<exists>z'. zb_nwk_tree_routing_route dest g = Some (None, g\<lparr>addr_tbl := z'\<rparr>) \<and> same_addrs (addr_tbl g) z'"
proof -
  have nb: "dest \<noteq> 0xffff" using not_broadcast [OF assms(1,2,8)] .
  obtain z1 where z1: "routing_neighbor dest g = Some (None, g\<lparr>addr_tbl := z1\<rparr>)" "same_addrs (addr_tbl g) z1"
    using routing_neighbor_none [OF assms(4,5) nb assms(9)] by blast
  let ?g = "g\<lparr>addr_tbl := z1\<rparr>"
  have d: "unat (nib_depth g - 1) = unat (nib_depth g) - 1" "0 < unat (nib_depth g)"
    using assms(3) by (simp_all add: unat_minus_one unat_gt_0)
  have le: "unat (nib_depth g) \<le> unat (max_depth g)" using assms(1) by (simp add: node_ok_def word_le_nat_alt)
  have lv: "unat (max_depth g) - unat (nib_depth g - 1) - 1 = levels g" using d le by (simp add: levels_def)
  have "unat (zb_nwk_daa_calc_cskip (nib_depth g - 1) g)
      = block (unat (max_children g)) (unat (max_routers g)) (unat (max_depth g) - unat (nib_depth g - 1) - 1)"
    by (rule cskip_eq) (use assms(1) d le lv in \<open>simp_all add: node_ok_def blk_def word_less_nat_alt\<close>)
  then have skip: "unat (zb_nwk_daa_calc_cskip (nib_depth g - 1) g) = blk g (levels g)" unfolding lv by (simp add: blk_def)
  have down: "uint dest < uint (mac_short_address g) + uint (zb_nwk_daa_calc_cskip (nib_depth g - 1) g)"
  proof -
    have "int (unat dest) < int (unat (mac_short_address g)) + int (unat (zb_nwk_daa_calc_cskip (nib_depth g - 1) g))"
      using assms(8) skip by linarith
    then show ?thesis by simp
  qed
  have "find_router_loop (unat (max_routers ?g)) 0 dest ?g = Some (None, ?g)"
  proof (rule find_router_skip)
    show "\<forall>i. 0 \<le> i \<longrightarrow> i < 0 + unat (max_routers ?g) \<longrightarrow>
      \<not> (cskip ?g * of_nat i + 1 < dest \<and> dest < cskip ?g * of_nat i + 1 + cskip ?g)"
    proof (intro allI impI)
      fix i assume "i < 0 + unat (max_routers ?g)"
      then have "i < unat (max_routers g)" by simp
      note L = lower_eq [OF assms(1,2) this]
      have "unat (cskip g * of_nat i + 1 + cskip g) \<le> unat dest"
        using L(2,3) assms(6,7) by (simp add: word_less_nat_alt)
      then show "\<not> (cskip ?g * of_nat i + 1 < dest \<and> dest < cskip ?g * of_nat i + 1 + cskip ?g)"
        by (simp add: word_less_nat_alt)
    qed
  qed (use assms in simp_all)
  then have "zb_nwk_tree_routing_find_router dest g = Some (None, ?g)"
    using z1(1) by (simp add: zb_nwk_tree_routing_find_router_def)
  then show ?thesis using z1(2) assms(3,7) down
    by (intro exI [of _ z1]) (simp add: zb_nwk_tree_routing_route_def Let_def)
qed


theorem router_misses_down_witness:
  "\<exists>(g :: zb_nwk) z'. unat (mac_short_address g) = 2722 \<and> nib_depth g = 1
    \<and> zb_nwk_tree_routing_route 2800 g = Some (None, g\<lparr>addr_tbl := z'\<rparr>)"
proof -
  let ?h = "formation_position (nwk_default\<lparr>mac_short_address := 0\<rparr>)"
  let ?h1 = "?h\<lparr>router_child_num := router_child_num ?h + 1\<rparr>"
  note f = form_ok [OF nwk_default_root(1)]
  have d: "nib_depth ?h = 0" "max_depth ?h = 5" "max_children ?h = 32" "max_routers ?h = 4"
    "router_child_num ?h = 0" "ed_child_num ?h = 0" "addr_tbl ?h = addr_cleared" "neighbor ?h = zb_nwk_neighbor_clear"
    by (simp_all add: formation_position_def nwk_default_def zb_config Let_def)
  obtain a1 where r1: "assign_address 0x8e ?h = (True, a1, ?h1)" using caps d by (simp add: assign_address_def)
  obtain a2 h2 where r2: "assign_address 0x8e ?h1 = (True, a2, h2)" using caps d by (simp add: assign_address_def)
  have c: "tree_cfg nwk_default = tree_cfg ?h" "childless nwk_default"
    using f(3) nwk_default_root(1) by (simp_all add: tree_root_def)
  note R1 = accept_router [OF f(1) r1 caps(2,1) c]
  have c1: "tree_cfg nwk_default = tree_cfg ?h1" using c(1) R1(3) by simp
  note R = accept_router [OF R1(1) r2 caps(2,1) c1 c(2)]
  let ?g = "join_position (ucast (nib_depth ?h1)) (nwk_default\<lparr>mac_short_address := a2\<rparr>)"
  have g: "nib_depth ?g = 1" "max_depth ?g = 5" "max_routers ?g = 4" "max_children ?g = 32"
    "addr_tbl ?g = addr_cleared" "neighbor ?g = zb_nwk_neighbor_clear"
    using d by (simp_all add: join_position_def Let_def nwk_default_def zb_config)
  have bl: "blk ?g = blk nwk_default" "blk ?h1 = blk nwk_default"
    using d g by (simp_all add: blk_def nwk_default_def zb_config fun_eq_iff)
  have lv: "levels ?h1 = 5" "levels ?g = 4" using d g by (simp_all add: levels_def)
  have lt: "router_child_num ?h1 < max_routers ?h1" using d by simp
  have "unat (ZB_NWK_ROUTER_ADDRESS_ASSIGN ?h1) = 2722"
    using router_addr_eq(1) [OF R1(1) _ lt] lv bl blk_default f(2) d by simp
  then have a2: "unat a2 = 2722" using assign_cases(3) [OF r2 caps(1) caps(2)] by simp
  then have m: "unat (mac_short_address ?g) = 2722" using R(9) by simp
  have "\<not> (\<exists>q. neighbor_with 2800 ?g q)" using g(5) addr_cleared_inv(4) by (simp add: neighbor_with_def)
  moreover have "mac_short_address ?g < 2800" using m by (simp add: word_less_nat_alt)
  ultimately obtain z' where "zb_nwk_tree_routing_route 2800 ?g = Some (None, ?g\<lparr>addr_tbl := z'\<rparr>)"
    using router_misses_down [of ?g 2800, OF R(8)] lv bl blk_default g addr_cleared_inv(1) m
      nb_invD(2) [OF neighbor_cleared(1)] by auto
  with m g(1) show ?thesis by blast
qed

end
