(* ===== verification/Tree_Join.thy ===== *)
theory Tree_Join
  imports Tree_Addr_Lemmas
begin

text \<open>
  The acceptance of a child, \<^verbatim>\<open>zb_nwk_accept_child\<close>, with the address tables and the neighbor table it
  works on: a device that is new gets an address, an entry under both its addresses and an entry
  as a child; and what is left behind when there is no place for it in the neighbor table.
\<close>

section \<open>Frames\<close>

lemma assign_frame:
  "assign_address cap (g\<lparr>addr_tbl := z\<rparr>)
    = (let (ok, a, g1) = assign_address cap g in (ok, a, g1\<lparr>addr_tbl := z\<rparr>))"
  by (simp add: assign_address_def ZB_NWK_ROUTER_ADDRESS_ASSIGN_def ZB_NWK_ED_ADDRESS_ASSIGN_def)

lemma assign_fields:
  assumes "assign_address cap g = (ok, a, g1)"
  shows "neighbor g1 = neighbor g" "addr_tbl g1 = addr_tbl g" "nib_depth g1 = nib_depth g" "max_depth g1 = max_depth g"
    "security_level g1 = security_level g" "max_children g1 = max_children g"
  using assms by (auto simp: assign_address_def split: if_splits)

lemma beacon_fields [simp]:
  "neighbor (zb_nwk_update_beacon_payload g) = neighbor g" "addr_tbl (zb_nwk_update_beacon_payload g) = addr_tbl g"
  "nib_depth (zb_nwk_update_beacon_payload g) = nib_depth g" "max_depth (zb_nwk_update_beacon_payload g) = max_depth g"
  "security_level (zb_nwk_update_beacon_payload g) = security_level g"
  "max_children (zb_nwk_update_beacon_payload g) = max_children g"
  "router_child_num (zb_nwk_update_beacon_payload g) = router_child_num g"
  "ed_child_num (zb_nwk_update_beacon_payload g) = ed_child_num g"
  "mac_association_permit (zb_nwk_update_beacon_payload g) = (nib_depth g < ZB_NWK_MAX_DEPTH \<and> mac_association_permit g)"
  by (simp_all add: zb_nwk_update_beacon_payload_def Let_def)

lemma child_ent_cong:
  "nib_depth g' = nib_depth g \<Longrightarrow> max_depth g' = max_depth g \<Longrightarrow> security_level g' = security_level g
    \<Longrightarrow> child_ent cap q g' e = child_ent cap q g e"
  by (simp add: child_ent_def)

lemma child_ent_sel [simp]: "n_used (child_ent cap q g e) = n_used e" "addr_ref (child_ent cap q g e) = addr_ref e"
  by (simp_all add: child_ent_def Let_def)

section \<open>A new child\<close>

text \<open>The tables of a router that can take the device \<open>dev\<close>, unknown so far, under the address \<open>a\<close>.\<close>

definition can_take :: "zb_ieee_addr \<Rightarrow> u16 \<Rightarrow> zb_nwk \<Rightarrow> zb_addr_globals \<Rightarrow> bool" where
  "can_take dev a g z1 \<longleftrightarrow> nb_inv (neighbor g) \<and> addr_inv (addr_tbl g) \<and> man_inv (addr_tbl g) \<and> length dev = 8
     \<and> ((\<exists>i < 16. man_match (addr_tbl g) (take 3 dev) i) \<or> (\<exists>i < 16. \<not> vec_bit (used_manufacturer (addr_tbl g)) i))
     \<and> used_refs (addr_map (addr_tbl g)) \<noteq> {..<101}
     \<and> (\<forall>r < 101. r \<notin> used_refs (addr_map (addr_tbl g)) \<longrightarrow>
          unat (am_lock_cnt (addr_map (addr_tbl g) ! r)) < 14 \<and> neighbor_of (neighbor g) r = None)
     \<and> zb_address_by_ieee dev False False (addr_tbl g) = Some (RET_NOT_FOUND, None, z1)
     \<and> a \<noteq> 0xffff \<and> (\<forall>r \<in> used_refs (addr_map (addr_tbl g)). am_addr (addr_map (addr_tbl g) ! r) \<noteq> a)"

lemma child_absent:
  assumes "can_take dev a g z1"
  shows "child_known dev cap g = Some (None, 0xfffe, g\<lparr>addr_tbl := z1\<rparr>)"
  using assms by (simp add: child_known_def zb_nwk_neighbor_get_by_ieee_def can_take_def)

lemma take_address:
  assumes "can_take dev a g z1"
  shows "\<exists>r z2. zb_address_update dev a True z1 = Some (RET_OK, Some r, z2)
    \<and> r < 101 \<and> r \<notin> used_refs (addr_map (addr_tbl g)) \<and> neighbor_of (neighbor g) r = None \<and> addr_inv z2
    \<and> used_refs (addr_map z2) = insert r (used_refs (addr_map (addr_tbl g)))
    \<and> am_addr (addr_map z2 ! r) = a \<and> zb_address_ieee_by_ref r z2 = Some dev
    \<and> am_lock_cnt (addr_map z2 ! r) \<noteq> 15 \<and> am_lock_cnt (addr_map z2 ! r) \<noteq> 0"
proof -
  note C = assms [unfolded can_take_def]
  have "am_lock_cnt (addr_map (addr_tbl g) ! r) \<noteq> 15" if "unat (am_lock_cnt (addr_map (addr_tbl g) ! r)) < 14" for r
    using that by auto
  then have locks: "\<forall>r < 101. r \<notin> used_refs (addr_map (addr_tbl g)) \<longrightarrow> am_lock_cnt (addr_map (addr_tbl g) ! r) \<noteq> 15"
    using C by blast
  obtain r z2 where u: "zb_address_update dev a True z1 = Some (RET_OK, Some r, z2)" "r < 101"
    "r \<notin> used_refs (addr_map (addr_tbl g))" "addr_inv z2"
    "used_refs (addr_map z2) = insert r (used_refs (addr_map (addr_tbl g)))" "am_addr (addr_map z2 ! r) = a"
    "zb_address_ieee_by_ref r z2 = Some dev"
    "am_lock_cnt (addr_map z2 ! r) = am_lock_cnt (addr_map (addr_tbl g) ! r) + 1"
    using update_new [of "addr_tbl g" dev z1 a] C locks by blast
  have "unat (am_lock_cnt (addr_map (addr_tbl g) ! r)) < 14" using C u(2,3) by blast
  then have "unat (am_lock_cnt (addr_map z2 ! r)) = unat (am_lock_cnt (addr_map (addr_tbl g) ! r)) + 1"
    unfolding u(8) by (simp add: unat_word_ariths(1))
  then have "unat (am_lock_cnt (addr_map z2 ! r)) \<noteq> 15" "unat (am_lock_cnt (addr_map z2 ! r)) \<noteq> 0"
    using \<open>unat (am_lock_cnt (addr_map (addr_tbl g) ! r)) < 14\<close> by simp_all
  then have "am_lock_cnt (addr_map z2 ! r) \<noteq> 15" "am_lock_cnt (addr_map z2 ! r) \<noteq> 0" by auto
  with u C show ?thesis by blast
qed

text \<open>Rewriting the entry that was added last.\<close>

lemma rewrite_newest:
  assumes inv: "nb_inv nb" and r: "r < 101" "addr_to_neighbor nb ! r = of_nat n" and n: "n < 255" "n < length (base_neighbor nb)"
      "n < unat (base_neighbor_used nb)"
    and old: "n_used (base_neighbor nb ! n)" "addr_ref (base_neighbor nb ! n) = r" and e: "n_used e" "addr_ref e = r"
  shows "nb_inv (nb\<lparr>base_neighbor := (base_neighbor nb)[n := e]\<rparr>)"
    and "neighbor_of (nb\<lparr>base_neighbor := (base_neighbor nb)[n := e]\<rparr>) = (neighbor_of nb)(r \<mapsto> e)"
proof -
  show "nb_inv (nb\<lparr>base_neighbor := (base_neighbor nb)[n := e]\<rparr>)"
    by (rule nb_inv_update [OF inv]) (use n old e in simp_all)
  have other: "unat (addr_to_neighbor nb ! x) \<noteq> n" if "x \<noteq> r" "x < 101" "addr_to_neighbor nb ! x \<noteq> 0xff" for x
    using nb_inv_ref(3) [OF inv that(2,3)] that(1) old by auto
  show "neighbor_of (nb\<lparr>base_neighbor := (base_neighbor nb)[n := e]\<rparr>) = (neighbor_of nb)(r \<mapsto> e)"
  proof
    fix x
    show "neighbor_of (nb\<lparr>base_neighbor := (base_neighbor nb)[n := e]\<rparr>) x = ((neighbor_of nb)(r \<mapsto> e)) x"
      using other [of x] r byte_of_nat [OF n(1)] n(2) by (auto simp: neighbor_of_def)
  qed
qed

lemma relock_keeps_addr:
  assumes "addr_inv z" "length (addr_map z) = 101" "r < 101"
  shows "addr_inv (z\<lparr>addr_map := (addr_map z)[r := (addr_map z ! r)\<lparr>am_lock_cnt := l, am_clock := c\<rparr>]\<rparr>)"
proof -
  have "addr_inv (z\<lparr>addr_map := (addr_map z)[r := (addr_map z ! r)\<lparr>am_lock_cnt := l, am_clock := c\<rparr>], clock_i := clock_i z\<rparr>)"
    by (rule addr_inv_cong [OF assms(1)]) (use assms in \<open>auto simp: nth_list_update addr_inv_def\<close>)
  then show ?thesis by simp
qed

text \<open>
  C40. A router with room in its tables accepts a new device: it is given the assigned address, both
  its addresses lead to one fresh reference, and the neighbor table gains exactly its
  entry as a child; no further association is permitted when this was the last child.
\<close>

theorem accept_child_joins:
  assumes can: "can_take dev a g z1" and as: "assign_address cap g = (True, a, g1)"
    and room: "unat (base_neighbor_used (neighbor g)) + 1 < unat (base_neighbor_size (neighbor g))"
  shows "\<exists>r g'. zb_nwk_accept_child dev cap q g = Some (MAC_SUCCESS, Some a, g')
    \<and> addr_inv (addr_tbl g') \<and> nb_inv (neighbor g') \<and> r \<notin> used_refs (addr_map (addr_tbl g))
    \<and> zb_address_short_by_ref r (addr_tbl g') = Some a \<and> zb_address_ieee_by_ref r (addr_tbl g') = Some dev
    \<and> neighbor_of (neighbor g')
        = (neighbor_of (neighbor g))(r \<mapsto> child_ent cap q g (new_neighbor_ent r (ucast (nib_depth g))))
    \<and> router_child_num g' = router_child_num g1 \<and> ed_child_num g' = ed_child_num g1
    \<and> (mac_association_permit g' \<longrightarrow> unat (router_child_num g') + unat (ed_child_num g') < unat (max_children g'))"
proof -
  note C = can [unfolded can_take_def]
  note F = assign_fields [OF as]
  obtain r z2 where u: "zb_address_update dev a True z1 = Some (RET_OK, Some r, z2)" "r < 101"
    "r \<notin> used_refs (addr_map (addr_tbl g))" "neighbor_of (neighbor g) r = None" "addr_inv z2" "am_addr (addr_map z2 ! r) = a"
    "zb_address_ieee_by_ref r z2 = Some dev" "am_lock_cnt (addr_map z2 ! r) \<noteq> 15"
    using take_address [OF can] by blast
  have len: "length (addr_map z2) = 101" using u(5) by (simp add: addr_inv_def sorted_inv_def)
  have nbi: "nb_inv (neighbor g)" using C by blast
  obtain n nb' z3 where n: "zb_nwk_neighbor_get (ucast (nib_depth g)) r True (neighbor g) z2 = Some (RET_OK, Some n, nb', z3)"
    "nb_inv nb'" "neighbor_of nb' = (neighbor_of (neighbor g))(r \<mapsto> new_neighbor_ent r (ucast (nib_depth g)))"
    "base_neighbor_used nb' = base_neighbor_used (neighbor g) + 1" "n = unat (base_neighbor_used (neighbor g))"
    "addr_to_neighbor nb' ! r = of_nat n"
    and z3: "z3 = z2\<lparr>addr_map := (addr_map z2)[r := (addr_map z2 ! r)\<lparr>am_lock_cnt := am_lock_cnt (addr_map z2 ! r) + 1,
                                                               am_clock := True\<rparr>]\<rparr>"
    using neighbor_get_new [OF nbi u(2,4) room len u(8), of "ucast (nib_depth g)"] by blast
  have n1: "unat (base_neighbor_used (neighbor g) + 1) = Suc n" "n < 255"
    using room nb_invD [OF nbi] u32_Suc [of "base_neighbor_used (neighbor g)"] n(5) by simp_all
  have new: "base_neighbor nb' ! n = new_neighbor_ent r (ucast (nib_depth g))"
    using arg_cong [OF n(3), of "\<lambda>f. f r"] u(2) n(6) byte_of_nat [OF n1(2)] by (simp add: neighbor_of_def)
  let ?g2 = "g1\<lparr>neighbor := nb', addr_tbl := z3\<rparr>"
  define g3 where "g3 = stop_association ?g2"
  have g3: "neighbor g3 = nb'" "addr_tbl g3 = z3" "router_child_num g3 = router_child_num g1" "ed_child_num g3 = ed_child_num g1"
    "nib_depth g3 = nib_depth g" "max_depth g3 = max_depth g" "security_level g3 = security_level g" "max_children g3 = max_children g"
    "mac_association_permit g3 \<longrightarrow> unat (router_child_num g3) + unat (ed_child_num g3) < unat (max_children g3)"
    using F by (auto simp: g3_def stop_association_def)
  let ?e = "child_ent cap q g (new_neighbor_ent r (ucast (nib_depth g)))"
  let ?b = "(base_neighbor nb')[n := ?e]"
  let ?g' = "g3\<lparr>neighbor := nb'\<lparr>base_neighbor := ?b\<rparr>\<rparr>"
  have len': "n < length (base_neighbor nb')" using nb_invD [OF n(2)] n(4) n1 by simp
  have new_sel: "n_used (new_neighbor_ent r d)" "addr_ref (new_neighbor_ent r d) = r" for d by (simp_all add: new_neighbor_ent_def)
  have "nb_inv (nb'\<lparr>base_neighbor := ?b\<rparr>)" "neighbor_of (nb'\<lparr>base_neighbor := ?b\<rparr>) = (neighbor_of nb')(r \<mapsto> ?e)"
    by (rule rewrite_newest [OF n(2) u(2) n(6) n1(2) len']; use n(4) n1 new new_sel in simp)+
  note inv' = this(1) and nbof = this(2) [unfolded n(3) fun_upd_upd]
  have "child_new dev cap (g\<lparr>addr_tbl := z1\<rparr>) = Some (MAC_SUCCESS, Some n, a, ?g2)"
    using u(1) n(1) F by (simp add: child_new_def assign_frame as)
  then have "zb_nwk_accept_child dev cap q g = Some (MAC_SUCCESS, Some a, ?g')"
    using child_absent [OF can, of cap] len' new child_ent_cong [OF g3(5,6,7), of cap q]
    by (simp add: zb_nwk_accept_child_def g3_def [symmetric] g3(1))
  moreover have "addr_inv z3" unfolding z3 by (rule relock_keeps_addr [OF u(5) len u(2)])
  moreover have "zb_address_short_by_ref r z3 = Some a" using u(2,6) len by (simp add: zb_address_short_by_ref_def z3)
  moreover have "zb_address_ieee_by_ref r z3 = Some dev"
    using u(2,7) len by (simp add: zb_address_ieee_by_ref_def ZB_ADDRESS_DECOMPRESS_def z3)
  ultimately show ?thesis using u(3) inv' nbof g3 by (intro exI [of _ r] exI [of _ ?g']) simp
qed


text \<open>A default router, or coordinator, takes any device with an address of eight bytes.\<close>

lemma default_takes: "\<exists>z1. can_take [8, 7, 6, 5, 4, 3, 2, 1] 1 nwk_default z1"
proof -
  have d: "neighbor nwk_default = zb_nwk_neighbor_clear" "addr_tbl nwk_default = addr_cleared"
    by (simp_all add: nwk_default_def)
  obtain c v m where c: "zb_ieee_addr_compress [8, 7, 6, 5, 4, 3, 2, 1] addr_cleared
      = Some (c, addr_cleared\<lparr>used_manufacturer := v, manufacturers := m\<rparr>)"
    using compress_again [OF addr_cleared_inv(2) _ addr_cleared_room(1), of "[8, 7, 6, 5, 4, 3, 2, 1]"] by auto
  let ?y = "addr_cleared\<lparr>used_manufacturer := v, manufacturers := m\<rparr>"
  have "length (addr_map ?y) = 101" by (simp add: addr_cleared_def)
  moreover have "\<not> am_used (addr_map ?y ! i)" if "i < 101" for i using that by (simp add: addr_cleared_def)
  ultimately have "ieee_search c ?y = Some None"
    using ieee_search_eq [of ?y c] hash_lt [of c] by (auto simp: find_none_set)
  with c have "zb_address_by_ieee [8, 7, 6, 5, 4, 3, 2, 1] False False addr_cleared = Some (RET_NOT_FOUND, None, ?y)"
    by (simp add: zb_address_by_ieee_def lock_if_def)
  moreover have "am_lock_cnt (addr_map addr_cleared ! r) = 0" if "r < 101" for r using that by (simp add: addr_cleared_def)
  ultimately have "can_take [8, 7, 6, 5, 4, 3, 2, 1] 1 nwk_default ?y"
    using addr_cleared_inv addr_cleared_room neighbor_cleared(1,3) unfolding can_take_def d by simp
  then show ?thesis by blast
qed

theorem accept_child_joins_witness:
  "\<exists>r g'. zb_nwk_accept_child [8, 7, 6, 5, 4, 3, 2, 1] 0x8e 100 nwk_default = Some (MAC_SUCCESS, Some 1, g')
    \<and> router_child_num g' = 1 \<and> zb_address_short_by_ref r (addr_tbl g') = Some 1"
proof -
  obtain z1 where can: "can_take [8, 7, 6, 5, 4, 3, 2, 1] 1 nwk_default z1" using default_takes by blast
  have as: "assign_address 0x8e nwk_default = (True, 1, nwk_default\<lparr>router_child_num := 1\<rparr>)"
    using caps by (simp add: assign_address_def ZB_NWK_ROUTER_ADDRESS_ASSIGN_def nwk_default_def zb_config)
  have "unat (base_neighbor_used (neighbor nwk_default)) + 1 < unat (base_neighbor_size (neighbor nwk_default))"
    by (simp add: nwk_default_def zb_nwk_neighbor_clear_def zb_nwk_neighbor_init_def neighbor_tbl_zero_def zb_config)
  from accept_child_joins [OF can as this, of 100] show ?thesis by fastforce
qed

text \<open>
  When the neighbor table has no place for a new device it is refused, but its address stays in
  the address tables, and it is counted as a child all the same: each such refusal takes away one of
  the places and one of the addresses of the router.
\<close>

theorem refused_child_is_counted:
  assumes can: "can_take dev a g z1" and as: "assign_address cap g = (True, a, g1)"
    and full: "base_neighbor_used (neighbor g) = base_neighbor_size (neighbor g) - 1"
  shows "\<exists>r g'. zb_nwk_accept_child dev cap q g = Some (MAC_OUT_OF_CAP, None, g')
    \<and> neighbor g' = neighbor g
    \<and> router_child_num g' = router_child_num g1 \<and> ed_child_num g' = ed_child_num g1
    \<and> used_refs (addr_map (addr_tbl g')) = insert r (used_refs (addr_map (addr_tbl g)))
    \<and> r \<notin> used_refs (addr_map (addr_tbl g))"
proof -
  note C = can [unfolded can_take_def]
  note F = assign_fields [OF as]
  obtain r z2 where u: "zb_address_update dev a True z1 = Some (RET_OK, Some r, z2)" "r < 101"
    "r \<notin> used_refs (addr_map (addr_tbl g))" "neighbor_of (neighbor g) r = None" "addr_inv z2"
    "used_refs (addr_map z2) = insert r (used_refs (addr_map (addr_tbl g)))" "am_lock_cnt (addr_map z2 ! r) \<noteq> 0"
    using take_address [OF can] by blast
  have len: "length (addr_map z2) = 101" using u(5) by (simp add: addr_inv_def sorted_inv_def)
  have nbi: "nb_inv (neighbor g)" using C by blast
  have "addr_to_neighbor (neighbor g) ! r = 0xff" using u(2,4) by (auto simp: neighbor_of_def split: if_splits)
  then have n: "zb_nwk_neighbor_get (ucast (nib_depth g)) r True (neighbor g) z2 = Some (RET_NO_MEMORY, None, neighbor g, z2)"
    using full u(2) nb_invD(2) [OF nbi] by (simp add: zb_nwk_neighbor_get_def)
  let ?z = "z2\<lparr>addr_map := (addr_map z2)[r := (addr_map z2 ! r)\<lparr>am_lock_cnt := am_lock_cnt (addr_map z2 ! r) - 1\<rparr>]\<rparr>"
  have ul: "zb_address_unlock r z2 = Some ?z" using u(2,7) len by (simp add: zb_address_unlock_def)
  let ?g2 = "g1\<lparr>neighbor := neighbor g, addr_tbl := ?z\<rparr>"
  have "child_new dev cap (g\<lparr>addr_tbl := z1\<rparr>) = Some (MAC_OUT_OF_CAP, None, a, ?g2)"
    using u(1) n ul F by (simp add: child_new_def assign_frame as)
  then have run: "zb_nwk_accept_child dev cap q g = Some (MAC_OUT_OF_CAP, None, stop_association ?g2)"
    using child_absent [OF can, of cap] by (simp add: zb_nwk_accept_child_def MAC_OUT_OF_CAP_def MAC_SUCCESS_def Let_def)
  have "used_refs (addr_map ?z) = used_refs (addr_map z2)"
    using u(2) len by (auto simp: used_refs_def nth_list_update split: if_splits)
  moreover have "neighbor (stop_association ?g2) = neighbor g" "addr_tbl (stop_association ?g2) = ?z"
    "router_child_num (stop_association ?g2) = router_child_num g1" "ed_child_num (stop_association ?g2) = ed_child_num g1"
    by (simp_all add: stop_association_def)
  ultimately show ?thesis using run u(3,6) by (intro exI [of _ r] exI [of _ "stop_association ?g2"]) simp
qed

text \<open>A router whose neighbor table has one place left, which the code never uses.\<close>

theorem refused_child_is_counted_witness:
  "\<exists>(g :: zb_nwk) g'. base_neighbor_used (neighbor g) = 31
    \<and> zb_nwk_accept_child [8, 7, 6, 5, 4, 3, 2, 1] 0x8e 100 g = Some (MAC_OUT_OF_CAP, None, g') \<and> router_child_num g' = 1"
proof -
  let ?nb = "zb_nwk_neighbor_clear\<lparr>base_neighbor_used := 31\<rparr>"
  let ?g = "nwk_default\<lparr>neighbor := ?nb\<rparr>"
  obtain z1 where can: "can_take [8, 7, 6, 5, 4, 3, 2, 1] 1 nwk_default z1" using default_takes by blast
  have unused: "\<not> n_used (base_neighbor zb_nwk_neighbor_clear ! i)" if "i < 32" for i
    using that by (simp add: zb_nwk_neighbor_clear_def zb_nwk_neighbor_init_def neighbor_tbl_zero_def neighbor_ent_zero_def zb_config)
  have a: "addr_to_neighbor zb_nwk_neighbor_clear = replicate 101 0xff" "length (base_neighbor zb_nwk_neighbor_clear) = 32"
    "base_neighbor_size zb_nwk_neighbor_clear = 32"
    by (simp_all add: zb_nwk_neighbor_clear_def zb_nwk_neighbor_init_def neighbor_tbl_zero_def zb_config)
  have "nb_inv ?nb" unfolding nb_inv_def using a unused by simp
  moreover have "neighbor_of ?nb r = None" for r using a by (simp add: neighbor_of_def)
  moreover have "addr_tbl ?g = addr_tbl nwk_default" by simp
  ultimately have can': "can_take [8, 7, 6, 5, 4, 3, 2, 1] 1 ?g z1" using can unfolding can_take_def by simp
  have as: "assign_address 0x8e ?g = (True, 1, ?g\<lparr>router_child_num := 1\<rparr>)"
    using caps by (simp add: assign_address_def ZB_NWK_ROUTER_ADDRESS_ASSIGN_def nwk_default_def zb_config)
  have "base_neighbor_used (neighbor ?g) = base_neighbor_size (neighbor ?g) - 1" using a by simp
  from refused_child_is_counted [OF can' as this, of 100] obtain g' where
    "zb_nwk_accept_child [8, 7, 6, 5, 4, 3, 2, 1] 0x8e 100 ?g = Some (MAC_OUT_OF_CAP, None, g')" "router_child_num g' = 1" by auto
  moreover have "base_neighbor_used (neighbor ?g) = 31" by simp
  ultimately show ?thesis by blast
qed

end
