(* ===== verification/Mac_Hdr.thy ===== *)
theory Mac_Hdr
  imports Fcs Address
begin

text \<open>
  The header of a MAC frame: the frame control macros of \<^verbatim>\<open>include/zb_mac.h\<close>, filling and measuring a
  header in \<^verbatim>\<open>mac/mac.c\<close>, and parsing it in \<^verbatim>\<open>mac/mac_common.c\<close>. A header lies in the bytes of a buffer
  at an offset. The frame control field is its two bytes in the order they are sent, and the union
  \<^verbatim>\<open>zb_addr_u\<close> is its eight bytes. MAC security is not compiled in, so there is no auxiliary header.
\<close>

section \<open>Addresses and byte order\<close>

type_synonym zb_addr_u = "u8 list"

definition ZB_LETOH16 :: "u8 list \<Rightarrow> u16" where
  "ZB_LETOH16 bs = ucast (bs ! 0) OR push_bit 8 (ucast (bs ! 1))"

definition addr_short :: "zb_addr_u \<Rightarrow> u16" where
  "addr_short u = ZB_LETOH16 u"

definition set_addr_short :: "u16 \<Rightarrow> zb_addr_u \<Rightarrow> zb_addr_u" where
  "set_addr_short v u = ZB_HTOLE16 v @ drop 2 u"

definition addr_zero :: zb_addr_u where
  "addr_zero = replicate 8 0"

text \<open>The pointer that moves with each value read or written is returned with it.\<close>

definition zb_get_next_letoh16 :: "u8 list \<Rightarrow> nat \<Rightarrow> (u16 \<times> nat) option" where
  "zb_get_next_letoh16 d p = do { bs \<leftarrow> buf_read d p 2; Some (ZB_LETOH16 bs, p + 2) }"

definition zb_put_next_htole16 :: "u8 list \<Rightarrow> nat \<Rightarrow> u16 \<Rightarrow> (u8 list \<times> nat) option" where
  "zb_put_next_htole16 d p v = do { d \<leftarrow> arr_copy d p (ZB_HTOLE16 v); Some (d, p + 2) }"

section \<open>The frame control field\<close>

definition ZB_ADDR_NO_ADDR :: u8 where [zb_config]: "ZB_ADDR_NO_ADDR = 0"
definition ZB_ADDR_16BIT_DEV_OR_BROADCAST :: u8 where [zb_config]: "ZB_ADDR_16BIT_DEV_OR_BROADCAST = 2"
definition ZB_ADDR_64BIT_DEV :: u8 where [zb_config]: "ZB_ADDR_64BIT_DEV = 3"
definition MAC_FRAME_RESERVED1 :: u8 where [zb_config]: "MAC_FRAME_RESERVED1 = 4"
definition MAC_FRAME_IEEE_802_15_4 :: u8 where [zb_config]: "MAC_FRAME_IEEE_802_15_4 = 1"

definition ZB_FCF_GET_FRAME_TYPE :: "u8 list \<Rightarrow> u8" where "ZB_FCF_GET_FRAME_TYPE fc = fc ! 0 AND 0x07"
definition ZB_FCF_GET_SECURITY_BIT :: "u8 list \<Rightarrow> u8" where "ZB_FCF_GET_SECURITY_BIT fc = fc ! 0 AND 0x08"
definition ZB_FCF_GET_FRAME_PENDING_BIT :: "u8 list \<Rightarrow> u8" where "ZB_FCF_GET_FRAME_PENDING_BIT fc = fc ! 0 AND 0x10"
definition ZB_FCF_GET_ACK_REQUEST_BIT :: "u8 list \<Rightarrow> u8" where "ZB_FCF_GET_ACK_REQUEST_BIT fc = fc ! 0 AND 0x20"
definition ZB_FCF_GET_PANID_COMPRESSION_BIT :: "u8 list \<Rightarrow> u8" where "ZB_FCF_GET_PANID_COMPRESSION_BIT fc = fc ! 0 AND 0x40"
definition ZB_FCF_GET_FRAME_VERSION :: "u8 list \<Rightarrow> u8" where "ZB_FCF_GET_FRAME_VERSION fc = drop_bit 4 (fc ! 1 AND 0x30)"
definition ZB_FCF_GET_SRC_ADDRESSING_MODE :: "u8 list \<Rightarrow> u8" where
  "ZB_FCF_GET_SRC_ADDRESSING_MODE fc = drop_bit 6 (fc ! 1 AND 0xC0)"
definition ZB_FCF_GET_DST_ADDRESSING_MODE :: "u8 list \<Rightarrow> u8" where
  "ZB_FCF_GET_DST_ADDRESSING_MODE fc = drop_bit 2 (fc ! 1 AND 0x0C)"

definition ZB_FCF_SET_FRAME_TYPE :: "u8 \<Rightarrow> u8 list \<Rightarrow> u8 list option" where
  "ZB_FCF_SET_FRAME_TYPE t fc = do {
     ZB_ASSERT (t < MAC_FRAME_RESERVED1); Some (fc[0 := (fc ! 0 AND 0xf8) OR t]) }"

definition ZB_FCF_SET_SECURITY_BIT :: "u8 \<Rightarrow> u8 list \<Rightarrow> u8 list option" where
  "ZB_FCF_SET_SECURITY_BIT b fc = do {
     ZB_ASSERT (b = 0 \<or> b = 1); Some (fc[0 := (fc ! 0 AND 0xF7) OR push_bit 3 b]) }"

definition ZB_FCF_SET_FRAME_PENDING_BIT :: "u8 \<Rightarrow> u8 list \<Rightarrow> u8 list option" where
  "ZB_FCF_SET_FRAME_PENDING_BIT b fc = do {
     ZB_ASSERT (b = 0 \<or> b = 1); Some (fc[0 := (fc ! 0 AND 0xEF) OR push_bit 4 b]) }"

definition ZB_FCF_SET_ACK_REQUEST_BIT :: "u8 \<Rightarrow> u8 list \<Rightarrow> u8 list option" where
  "ZB_FCF_SET_ACK_REQUEST_BIT b fc = do {
     ZB_ASSERT (b = 0 \<or> b = 1); Some (fc[0 := (fc ! 0 AND 0xDF) OR push_bit 5 b]) }"

definition ZB_FCF_SET_PANID_COMPRESSION_BIT :: "u8 \<Rightarrow> u8 list \<Rightarrow> u8 list option" where
  "ZB_FCF_SET_PANID_COMPRESSION_BIT b fc = do {
     ZB_ASSERT (b = 0 \<or> b = 1); Some (fc[0 := (fc ! 0 AND 0xBF) OR push_bit 6 b]) }"

definition ZB_FCF_SET_FRAME_VERSION :: "u8 \<Rightarrow> u8 list \<Rightarrow> u8 list option" where
  "ZB_FCF_SET_FRAME_VERSION v fc = do {
     ZB_ASSERT (v = 0 \<or> v = 1); Some (fc[1 := (fc ! 1 AND 0xCF) OR push_bit 4 v]) }"

definition zb_fcf_set_src_addressing_mode :: "u8 \<Rightarrow> u8 list \<Rightarrow> u8 list option" where
  "zb_fcf_set_src_addressing_mode m fc = do {
     ZB_ASSERT (m = 0 \<or> m = 1 \<or> m = 2 \<or> m = 3); Some (fc[1 := (fc ! 1 AND 0x3F) OR push_bit 6 m]) }"

definition zb_fcf_set_dst_addressing_mode :: "u8 \<Rightarrow> u8 list \<Rightarrow> u8 list option" where
  "zb_fcf_set_dst_addressing_mode m fc = do {
     ZB_ASSERT (m = 0 \<or> m = 1 \<or> m = 2 \<or> m = 3); Some (fc[1 := (fc ! 1 AND 0xF3) OR push_bit 2 m]) }"

section \<open>Parsing and filling a header\<close>

record zb_mac_mhr =
  frame_control :: "u8 list"
  seq_number :: u8
  dst_pan_id :: u16
  dst_addr :: zb_addr_u
  src_pan_id :: u16
  src_addr :: zb_addr_u

definition mhr_zero :: zb_mac_mhr where
  "mhr_zero = \<lparr>frame_control = [0, 0], seq_number = 0, dst_pan_id = 0, dst_addr = addr_zero,
     src_pan_id = 0, src_addr = addr_zero\<rparr>"

text \<open>An address field of the addressing mode \<open>val\<close>: two bytes, or eight for every other mode.\<close>

definition get_mhr_addr :: "u8 \<Rightarrow> u8 list \<Rightarrow> nat \<Rightarrow> zb_addr_u \<Rightarrow> (zb_addr_u \<times> nat) option" where
  "get_mhr_addr val d p u =
     (if val = ZB_ADDR_16BIT_DEV_OR_BROADCAST then do {
        (v, p) \<leftarrow> zb_get_next_letoh16 d p;
        Some (set_addr_short v u, p) }
      else do { bs \<leftarrow> buf_read d p 8; Some (bs, p + 8) })"

definition put_mhr_addr :: "u8 \<Rightarrow> u8 list \<Rightarrow> nat \<Rightarrow> zb_addr_u \<Rightarrow> (u8 list \<times> nat) option" where
  "put_mhr_addr val d p u =
     (if val = ZB_ADDR_16BIT_DEV_OR_BROADCAST then zb_put_next_htole16 d p (addr_short u)
      else do { d \<leftarrow> arr_copy d p (take 8 u); Some (d, p + 8) })"

definition zb_parse_mhr :: "u8 list \<Rightarrow> nat \<Rightarrow> (zb_mac_mhr \<times> u8) option" where
  "zb_parse_mhr d ptr = do {
     fc \<leftarrow> buf_read d ptr 2;
     sn \<leftarrow> arr_get d (ptr + 2);
     let mhr = mhr_zero\<lparr>frame_control := fc, seq_number := sn\<rparr>;
     let p = ptr + 3;
     let val = ZB_FCF_GET_DST_ADDRESSING_MODE fc;
     (mhr, p) \<leftarrow> (if val \<noteq> 0 then do {
         (pan, p) \<leftarrow> zb_get_next_letoh16 d p;
         (a, p) \<leftarrow> get_mhr_addr val d p (dst_addr mhr);
         Some (mhr\<lparr>dst_pan_id := pan, dst_addr := a\<rparr>, p) }
       else Some (mhr, p));
     let val = ZB_FCF_GET_SRC_ADDRESSING_MODE fc;
     (mhr, p) \<leftarrow> (if val \<noteq> 0 then do {
         (pan, p) \<leftarrow> (if ZB_FCF_GET_PANID_COMPRESSION_BIT fc = 0 then zb_get_next_letoh16 d p
                      else Some (dst_pan_id mhr, p));
         (a, p) \<leftarrow> get_mhr_addr val d p (src_addr mhr);
         Some (mhr\<lparr>src_pan_id := pan, src_addr := a\<rparr>, p) }
       else Some (mhr, p));
     Some (mhr, of_nat (p - ptr)) }"

definition zb_mac_fill_mhr :: "u8 list \<Rightarrow> nat \<Rightarrow> zb_mac_mhr \<Rightarrow> u8 list option" where
  "zb_mac_fill_mhr d ptr mhr = do {
     let fc = frame_control mhr;
     d \<leftarrow> arr_copy d ptr (take 2 fc);
     d \<leftarrow> arr_set d (ptr + 2) (seq_number mhr);
     let p = ptr + 3;
     let val = ZB_FCF_GET_DST_ADDRESSING_MODE fc;
     (d, p) \<leftarrow> (if val \<noteq> 0 then do {
         (d, p) \<leftarrow> zb_put_next_htole16 d p (dst_pan_id mhr);
         put_mhr_addr val d p (dst_addr mhr) }
       else Some (d, p));
     let val = ZB_FCF_GET_SRC_ADDRESSING_MODE fc;
     (d, p) \<leftarrow> (if val \<noteq> 0 then do {
         (d, p) \<leftarrow> (if ZB_FCF_GET_PANID_COMPRESSION_BIT fc = 0 then zb_put_next_htole16 d p (src_pan_id mhr)
                    else Some (d, p));
         put_mhr_addr val d p (src_addr mhr) }
       else Some (d, p));
     Some d }"

definition zb_mac_calculate_mhr_length :: "u8 \<Rightarrow> u8 \<Rightarrow> u8 \<Rightarrow> u8 option" where
  "zb_mac_calculate_mhr_length src_mode dst_mode panid_compression = do {
     let len = (3 :: u8);
     len \<leftarrow> (if src_mode \<noteq> ZB_ADDR_NO_ADDR then do {
         ZB_ASSERT (src_mode = ZB_ADDR_16BIT_DEV_OR_BROADCAST \<or> src_mode = ZB_ADDR_64BIT_DEV);
         Some (len + (if panid_compression = 0 then 2 else 0) + 2 + (if src_mode = ZB_ADDR_64BIT_DEV then 6 else 0)) }
       else Some len);
     if dst_mode \<noteq> ZB_ADDR_NO_ADDR then do {
       ZB_ASSERT (dst_mode = ZB_ADDR_16BIT_DEV_OR_BROADCAST \<or> dst_mode = ZB_ADDR_64BIT_DEV);
       Some (len + 4 + (if dst_mode = ZB_ADDR_64BIT_DEV then 6 else 0)) }
     else Some len }"

section \<open>Accepting a frame\<close>

text \<open>
  Broadcasts are not for a device whose receiver sleeps: the test reads the first two bytes of the
  destination, whatever its addressing mode.
\<close>

definition can_accept_frame :: "bool \<Rightarrow> zb_mac_mhr \<Rightarrow> bool" where
  "can_accept_frame rx_on_when_idle mhr =
     (if \<not> rx_on_when_idle \<and> addr_short (dst_addr mhr) = 0xffff then False
      else if ZB_FCF_GET_SECURITY_BIT (frame_control mhr) \<noteq> 0
              \<and> ZB_FCF_GET_FRAME_VERSION (frame_control mhr) < MAC_FRAME_IEEE_802_15_4 then False
      else True)"

definition check_frame_dst_addr :: "u16 \<Rightarrow> zb_ieee_addr \<Rightarrow> zb_mac_mhr \<Rightarrow> bool" where
  "check_frame_dst_addr mac_short_address mac_extended_address mhr =
     (if ZB_FCF_GET_DST_ADDRESSING_MODE (frame_control mhr) = ZB_ADDR_16BIT_DEV_OR_BROADCAST
      then addr_short (dst_addr mhr) = mac_short_address
      else take 8 (dst_addr mhr) = take 8 mac_extended_address)"

section \<open>Bytes at a place\<close>

definition holds :: "'a list \<Rightarrow> nat \<Rightarrow> 'a list \<Rightarrow> bool" where
  "holds d p bs \<longleftrightarrow> p + length bs \<le> length d \<and> take (length bs) (drop p d) = bs"

lemma holds_append: "holds d p (xs @ ys) \<longleftrightarrow> holds d p xs \<and> holds d (p + length xs) ys"
proof -
  have "take (length (xs @ ys)) (drop p d) = take (length xs) (drop p d) @ take (length ys) (drop (p + length xs) d)"
    by (simp add: take_add add.commute)
  then show ?thesis by (auto simp: holds_def)
qed

lemma holds_Cons: "holds d p (x # xs) \<longleftrightarrow> holds d p [x] \<and> holds d (p + 1) xs"
  using holds_append [of d p "[x]" xs] by simp

lemma holds_Nil [simp]: "holds d p [] \<longleftrightarrow> p \<le> length d"
  by (simp add: holds_def)

lemma buf_read_holds: "holds d p bs \<Longrightarrow> n = length bs \<Longrightarrow> buf_read d p n = Some bs"
  by (simp add: holds_def buf_read_def)

lemma arr_get_holds: "holds d p [x] \<Longrightarrow> arr_get d p = Some x"
proof -
  assume h: "holds d p [x]"
  then have p: "p < length d" by (simp add: holds_def)
  then have "take 1 (drop p d) = [d ! p]" by (simp flip: Cons_nth_drop_Suc)
  with h p show "arr_get d p = Some x" by (simp add: holds_def)
qed

lemma arr_copy_holds: "arr_copy d p bs = Some d' \<Longrightarrow> holds d' p bs"
  by (auto simp: arr_copy_def holds_def split: if_splits)

lemma arr_copy_parts: "Option.bind (arr_copy d p xs) (\<lambda>d. arr_copy d (p + length xs) ys) = arr_copy d p (xs @ ys)"
proof (cases "p + length xs + length ys \<le> length d")
  case True
  then show ?thesis by (simp add: arr_copy_def ac_simps)
next
  case False
  then show ?thesis by (cases "p + length xs \<le> length d") (simp_all add: arr_copy_def)
qed

lemma arr_set_copy: "arr_set d p x = arr_copy d p [x]"
  by (auto simp: arr_set_def arr_copy_def upd_conv_take_nth_drop)

text \<open>A write elsewhere leaves the bytes alone.\<close>

lemma arr_copy_other:
  assumes "arr_copy d p bs = Some d'" and "q + n \<le> p \<or> p + length bs \<le> q"
  shows "take n (drop q d') = take n (drop q d)" "length d' = length d"
proof -
  have len: "p + length bs \<le> length d" and d': "d' = take p d @ bs @ drop (p + length bs) d"
    using assms(1) by (auto simp: arr_copy_def split: if_splits)
  show l: "length d' = length d" using len d' by simp
  show "take n (drop q d') = take n (drop q d)"
  proof (rule nth_equalityI)
    show "length (take n (drop q d')) = length (take n (drop q d))" using l by simp
    fix i assume "i < length (take n (drop q d'))"
    then have "i < n" "q + i < length d" using l by (auto simp: less_diff_conv add.commute)
    with assms(2) len show "take n (drop q d') ! i = take n (drop q d) ! i"
      by (auto simp: d' nth_append)
  qed
qed

lemma le16_roundtrip [simp]: "ZB_LETOH16 (ZB_HTOLE16 v @ xs) = v"
  unfolding ZB_LETOH16_def ZB_HTOLE16_def
  by (rule bit_eqI) (auto simp: bit_simps)

lemma le16_bytes: "2 \<le> length u \<Longrightarrow> ZB_HTOLE16 (ZB_LETOH16 u) = take 2 u"
proof -
  assume "2 \<le> length u"
  then obtain a b r where u: "u = a # b # r" by (cases u; cases "tl u") auto
  have "ucast (ucast a OR push_bit 8 (ucast b) :: u16) = a" "ucast (drop_bit 8 (ucast a OR push_bit 8 (ucast b) :: u16)) = b"
    for a b :: u8
    by (rule bit_eqI; auto simp: bit_simps dest: bit_imp_le_length)+
  then show ?thesis by (simp add: u ZB_LETOH16_def ZB_HTOLE16_def)
qed

lemma length_htole16 [simp]: "length (ZB_HTOLE16 v) = 2"
  by (simp add: ZB_HTOLE16_def)

end
