(* ===== verification/Nwk_Secur.thy ===== *)
theory Nwk_Secur
  imports Mac_Hdr Ccm Tree_Addr
begin

text \<open>
  Security of network frames: the network keys and their switching in \<^verbatim>\<open>secur/zdo_secur.c\<close>, securing
  and unsecuring a frame in \<^verbatim>\<open>secur/nwk_secur.c\<close>, and the frame control macros of \<^verbatim>\<open>include/zb_nwk.h\<close>
  that locate the auxiliary header. The state is the security part of \<^verbatim>\<open>ZG->nwk.nib\<close>, the flags
  \<^verbatim>\<open>ZG->nwk.handle.is_tc\<close> and \<^verbatim>\<open>ZG->aps.authenticated\<close> and the own 64-bit address, with the scheduler,
  the buffers and the tables of the network layer.

  The auxiliary header is 14 bytes: the security control, the frame counter, the source address and
  the number of the key. The random bytes of a generated key are an argument.
\<close>

section \<open>State\<close>

definition ZB_SECUR_N_SECUR_MATERIAL :: nat where [zb_config]: "ZB_SECUR_N_SECUR_MATERIAL = 3"
definition ZB_CCM_KEY_SIZE :: nat where [zb_config]: "ZB_CCM_KEY_SIZE = 16"
definition ZB_SECUR_NWK_COUNTER_LIMIT :: u32 where "ZB_SECUR_NWK_COUNTER_LIMIT = - 1 - 128"
definition ZB_NWK_STD_SECUR_CONTROL :: u8 where "ZB_NWK_STD_SECUR_CONTROL = 5 OR push_bit 3 1 OR push_bit 5 1"
definition ZB_NWK_STD_SECUR_CONTROL_ZEROED_LEVEL :: u8 where
  "ZB_NWK_STD_SECUR_CONTROL_ZEROED_LEVEL = 0 OR push_bit 3 1 OR push_bit 5 1"
definition ZB_NWK_COMMAND_STATUS_BAD_FRAME_COUNTER :: u8 where "ZB_NWK_COMMAND_STATUS_BAD_FRAME_COUNTER = 0x11"
definition ZB_NWK_COMMAND_STATUS_BAD_KEY_SEQUENCE_NUMBER :: u8 where "ZB_NWK_COMMAND_STATUS_BAD_KEY_SEQUENCE_NUMBER = 0x12"
definition ZB_NWK_COMMAND_STATUS_FRAME_SECURITY_FAILED :: u8 where
  "ZB_NWK_COMMAND_STATUS_FRAME_SECURITY_FAILED = ZB_NWK_COMMAND_STATUS_BAD_KEY_SEQUENCE_NUMBER"

record zb_secur_material_set =
  ms_key :: "u8 list"
  ms_key_seq_number :: u8

record 'cb sec_g = "'cb bp_g" +
  snwk :: zb_nwk
  secur_material_set :: "zb_secur_material_set list"
  active_secur_material_i :: "2 word"
  active_key_seq_number :: u8
  outgoing_frame_counter :: u32
  prev_outgoing_frame_counter :: u32
  is_tc :: bool
  authenticated :: bool
  mac_extended_address :: zb_ieee_addr

section \<open>Network keys\<close>

text \<open>The search of \<^verbatim>\<open>secur_nwk_key_by_seq\<close> with \<open>k\<close> entries left, from the entry \<open>i\<close>; a pointer to a key is its index.\<close>

fun key_by_seq_loop :: "nat \<Rightarrow> nat \<Rightarrow> u8 \<Rightarrow> zb_secur_material_set list \<Rightarrow> nat option option" where
  "key_by_seq_loop 0 i sn sets = Some None"
| "key_by_seq_loop (Suc k) i sn sets = do {
     m \<leftarrow> arr_get sets i;
     if ms_key_seq_number m \<noteq> sn then key_by_seq_loop k ((i + 1) mod ZB_SECUR_N_SECUR_MATERIAL) sn sets
     else Some (Some i) }"

definition secur_nwk_key_by_seq :: "u8 \<Rightarrow> ('cb, 'w) sec_g_scheme \<Rightarrow> nat option option" where
  "secur_nwk_key_by_seq sn g =
     key_by_seq_loop ZB_SECUR_N_SECUR_MATERIAL (unat (active_secur_material_i g)) sn (secur_material_set g)"

definition secur_generate_key :: "u8 list \<Rightarrow> nat \<Rightarrow> u8 \<Rightarrow> ('cb, 'w) sec_g_scheme \<Rightarrow> ('cb, 'w) sec_g_scheme option" where
  "secur_generate_key rnd i sn g = do {
     s \<leftarrow> arr_set (secur_material_set g) i \<lparr>ms_key = take ZB_CCM_KEY_SIZE rnd, ms_key_seq_number = sn\<rparr>;
     Some (g\<lparr>secur_material_set := s\<rparr>) }"

fun generate_keys_loop :: "u8 list list \<Rightarrow> nat \<Rightarrow> ('cb, 'w) sec_g_scheme \<Rightarrow> ('cb, 'w) sec_g_scheme option" where
  "generate_keys_loop [] i g = Some g"
| "generate_keys_loop (r # rs) i g = Option.bind (secur_generate_key r i (of_nat i) g) (generate_keys_loop rs (i + 1))"

definition secur_generate_keys :: "u8 list \<Rightarrow> u8 list \<Rightarrow> u8 list \<Rightarrow> ('cb, 'w) sec_g_scheme \<Rightarrow> ('cb, 'w) sec_g_scheme option" where
  "secur_generate_keys r0 r1 r2 g = generate_keys_loop [r0, r1, r2] 0 g"

text \<open>The loop of \<^verbatim>\<open>secur_nwk_key_switch\<close> from \<open>i\<close> with \<open>k\<close> entries left: it goes on while the numbers are equal.\<close>

fun key_switch_loop :: "nat \<Rightarrow> nat \<Rightarrow> nat \<Rightarrow> u8 \<Rightarrow> zb_secur_material_set list \<Rightarrow> nat option" where
  "key_switch_loop 0 i shift sn sets = Some i"
| "key_switch_loop (Suc k) i shift sn sets = do {
     m \<leftarrow> arr_get sets ((i + shift) mod ZB_SECUR_N_SECUR_MATERIAL);
     if ms_key_seq_number m = sn then key_switch_loop k (i + 1) shift sn sets else Some i }"

definition secur_nwk_key_switch :: "u8 list \<Rightarrow> u8 \<Rightarrow> ('cb, 'w) sec_g_scheme \<Rightarrow> ('cb, 'w) sec_g_scheme option" where
  "secur_nwk_key_switch rnd key_number g = do {
     let shift = (unat (active_secur_material_i g) + 1) mod ZB_SECUR_N_SECUR_MATERIAL;
     i \<leftarrow> key_switch_loop ZB_SECUR_N_SECUR_MATERIAL 0 shift key_number (secur_material_set g);
     (i, g) \<leftarrow> (if i = ZB_SECUR_N_SECUR_MATERIAL \<and> is_tc g then do {
                  g \<leftarrow> secur_generate_key rnd shift key_number g;
                  Some (shift, g) }
                else Some (i, g));
     if i \<noteq> ZB_SECUR_N_SECUR_MATERIAL then
       Some (g\<lparr>active_secur_material_i := of_nat i, active_key_seq_number := key_number,
               prev_outgoing_frame_counter := outgoing_frame_counter g, outgoing_frame_counter := 0\<rparr>)
     else Some g }"

text \<open>The key \<^verbatim>\<open>secur_authenticate_child\<close> of the trust center sends to a device that joins, with its number.\<close>

definition key_for_child :: "('cb, 'w) sec_g_scheme \<Rightarrow> (u8 list \<times> u8) option" where
  "key_for_child g = do {
     m \<leftarrow> arr_get (secur_material_set g) (unat (active_secur_material_i g));
     Some (ms_key m, active_key_seq_number g) }"

definition secur_nwk_key_is_empty :: "u8 list \<Rightarrow> bool" where
  "secur_nwk_key_is_empty key \<longleftrightarrow> length (takeWhile (\<lambda>x. x = 0) (take ZB_CCM_KEY_SIZE key)) = ZB_CCM_KEY_SIZE"

definition secur_has_preconfigured_key :: "('cb, 'w) sec_g_scheme \<Rightarrow> bool option" where
  "secur_has_preconfigured_key g = do {
     m \<leftarrow> arr_get (secur_material_set g) 0; Some (\<not> secur_nwk_key_is_empty (ms_key m)) }"

definition zb_secur_setup_preconfigured_key :: "u8 list \<Rightarrow> u8 \<Rightarrow> ('cb, 'w) sec_g_scheme \<Rightarrow> ('cb, 'w) sec_g_scheme option" where
  "zb_secur_setup_preconfigured_key key i g =
     (if ZB_SECUR_N_SECUR_MATERIAL \<le> unat i then Some g
      else do {
        s \<leftarrow> arr_set (secur_material_set g) (unat i) \<lparr>ms_key = take ZB_CCM_KEY_SIZE key, ms_key_seq_number = i\<rparr>;
        Some (g\<lparr>secur_material_set := s\<rparr>) })"

definition secur_clear_preconfigured_key :: "('cb, 'w) sec_g_scheme \<Rightarrow> ('cb, 'w) sec_g_scheme option" where
  "secur_clear_preconfigured_key g = do {
     m \<leftarrow> arr_get (secur_material_set g) 0;
     s \<leftarrow> arr_set (secur_material_set g) 0 (m\<lparr>ms_key := replicate ZB_CCM_KEY_SIZE 0\<rparr>);
     Some (g\<lparr>secur_material_set := s\<rparr>) }"

section \<open>The header of a network frame\<close>

definition ZB_NWK_FRAMECTL_GET_FRAME_TYPE :: "u8 list \<Rightarrow> u8" where "ZB_NWK_FRAMECTL_GET_FRAME_TYPE fc = fc ! 0 AND 3"
definition ZB_NWK_FRAMECTL_GET_MULTICAST_FLAG :: "u8 list \<Rightarrow> u8" where "ZB_NWK_FRAMECTL_GET_MULTICAST_FLAG fc = fc ! 1 AND 1"
definition ZB_NWK_FRAMECTL_GET_SECURITY :: "u8 list \<Rightarrow> u8" where "ZB_NWK_FRAMECTL_GET_SECURITY fc = drop_bit 1 (fc ! 1) AND 1"
definition ZB_NWK_FRAMECTL_GET_DESTINATION_IEEE :: "u8 list \<Rightarrow> u8" where
  "ZB_NWK_FRAMECTL_GET_DESTINATION_IEEE fc = drop_bit 3 (fc ! 1) AND 1"
definition ZB_NWK_FRAMECTL_GET_SOURCE_IEEE :: "u8 list \<Rightarrow> u8" where
  "ZB_NWK_FRAMECTL_GET_SOURCE_IEEE fc = drop_bit 4 (fc ! 1) AND 1"

definition ZB_NWK_SHORT_HDR_SIZE :: "u8 \<Rightarrow> nat" where
  "ZB_NWK_SHORT_HDR_SIZE is_multicast = 8 + (if is_multicast \<noteq> 0 then 1 else 0)"

definition sizeof_aux_hdr :: nat where "sizeof_aux_hdr = 14"

definition zb_nwk_hdr_size :: "u8 list \<Rightarrow> nat" where
  "zb_nwk_hdr_size fctl =
     ZB_NWK_SHORT_HDR_SIZE (ZB_NWK_FRAMECTL_GET_MULTICAST_FLAG fctl)
     + (if ZB_NWK_FRAMECTL_GET_SECURITY fctl \<noteq> 0 then sizeof_aux_hdr else 0)
     + (unat (ZB_NWK_FRAMECTL_GET_DESTINATION_IEEE fctl) + unat (ZB_NWK_FRAMECTL_GET_SOURCE_IEEE fctl)) * 8"

definition ZB_HTOLE32 :: "u32 \<Rightarrow> u8 list" where
  "ZB_HTOLE32 v = [ucast v, ucast (drop_bit 8 v), ucast (drop_bit 16 v), ucast (drop_bit 24 v)]"

definition ZB_LETOH32 :: "u8 list \<Rightarrow> u32" where
  "ZB_LETOH32 bs = ucast (bs ! 0) OR push_bit 8 (ucast (bs ! 1)) OR push_bit 16 (ucast (bs ! 2)) OR push_bit 24 (ucast (bs ! 3))"

text \<open>The auxiliary header ends with the header; one that would begin before the buffer is no place.\<close>

definition aux_place :: "nat \<Rightarrow> nat \<Rightarrow> nat option" where
  "aux_place nwhdr hdr_size = do { ZB_ASSERT (sizeof_aux_hdr \<le> nwhdr + hdr_size); Some (nwhdr + hdr_size - sizeof_aux_hdr) }"

definition ccm_nonce :: "zb_ieee_addr \<Rightarrow> u8 list \<Rightarrow> u8 \<Rightarrow> u8 list" where
  "ccm_nonce source frame_counter secur_control = source @ frame_counter @ [secur_control]"

section \<open>Securing a frame\<close>

text \<open>
  The counter, the number of the key and the state after taking them: a frame that asks for the same
  key again and carries the number of another one uses the previous counter.
\<close>

definition secure_counter :: "zb_buf_t \<Rightarrow> u8 \<Rightarrow> ('cb, 'w) sec_g_scheme \<Rightarrow> u32 \<times> u8 \<times> ('cb, 'w) sec_g_scheme" where
  "secure_counter src sn g =
     (if use_same_key (hdr src) \<noteq> 0 \<and> sn \<noteq> active_key_seq_number g then
        (prev_outgoing_frame_counter g, sn, g\<lparr>prev_outgoing_frame_counter := prev_outgoing_frame_counter g + 1\<rparr>)
      else
        (outgoing_frame_counter g, active_key_seq_number g, g\<lparr>outgoing_frame_counter := outgoing_frame_counter g + 1\<rparr>))"

text \<open>
  \<^verbatim>\<open>zb_nwk_secure_frame\<close> from the buffer \<open>src\<close>, whose network header follows a MAC header of \<open>n\<close> bytes, into
  \<open>dst\<close>. Both buffers are returned; \<open>switch_cb\<close> is the callback that starts a switch of the key.
\<close>

definition zb_nwk_secure_frame ::
  "'cb \<Rightarrow> zb_buf_t \<Rightarrow> nat \<Rightarrow> zb_buf_t \<Rightarrow> ('cb, 'w) sec_g_scheme
     \<Rightarrow> (zb_ret \<times> zb_buf_t \<times> zb_buf_t \<times> ('cb, 'w) sec_g_scheme) option" where
  "zb_nwk_secure_frame switch_cb src n dst g = do {
     let nwhdr = ZB_BUF_BEGIN src + n;
     fc \<leftarrow> buf_read (data_buf src) nwhdr 2;
     let hs = zb_nwk_hdr_size fc;
     aux \<leftarrow> aux_place nwhdr hs;
     d \<leftarrow> arr_set (data_buf src) aux ZB_NWK_STD_SECUR_CONTROL;
     sn \<leftarrow> arr_get d (aux + 13);
     let (c, sn, g) = secure_counter src sn g;
     d \<leftarrow> arr_copy d (aux + 1) (ZB_HTOLE32 c);
     d \<leftarrow> arr_set d (aux + 13) sn;
     d \<leftarrow> arr_copy d (aux + 5) (take 8 (mac_extended_address g));
     let src = src\<lparr>data_buf := d\<rparr>;
     let nonce = ccm_nonce (take 8 (mac_extended_address g)) (ZB_HTOLE32 c) ZB_NWK_STD_SECUR_CONTROL;
     key \<leftarrow> secur_nwk_key_by_seq sn g;
     (case key of
        None \<Rightarrow> Some (RET_ERROR, src, dst, g)
      | Some i \<Rightarrow> do {
          m \<leftarrow> arr_get (secur_material_set g) i;
          string_a \<leftarrow> buf_read d nwhdr hs;
          ZB_ASSERT (hs + n \<le> ZB_BUF_LEN src);
          string_m \<leftarrow> buf_read d (nwhdr + hs) (ZB_BUF_LEN src - hs - n);
          (ret, dst) \<leftarrow> zb_ccm_encrypt_n_auth (ms_key m) nonce string_a string_m dst;
          if ret = RET_OK then do {
            (dst, dp) \<leftarrow> zb_buf_smart_alloc_left dst (of_nat n);
            mh \<leftarrow> buf_read d (ZB_BUF_BEGIN src) n;
            dd \<leftarrow> arr_copy (data_buf dst) dp mh;
            dd \<leftarrow> arr_set dd (ZB_BUF_BEGIN dst + (aux - ZB_BUF_BEGIN src)) ZB_NWK_STD_SECUR_CONTROL_ZEROED_LEVEL;
            (_, g) \<leftarrow> (if is_tc g \<and> outgoing_frame_counter g = ZB_SECUR_NWK_COUNTER_LIMIT
                       then zb_get_out_buf_delayed switch_cb g else Some (RET_OK, g));
            Some (ret, src, dst\<lparr>data_buf := dd\<rparr>, g) }
          else Some (ret, src, dst, g) }) }"

section \<open>Unsecuring a frame\<close>

definition put_buf :: "nat \<Rightarrow> zb_buf_t \<Rightarrow> ('cb, 'w) bp_g_scheme \<Rightarrow> ('cb, 'w) bp_g_scheme option" where
  "put_buf i b g = do { p \<leftarrow> arr_set (pool (bpool g)) i b; Some (g\<lparr>bpool := (bpool g)\<lparr>pool := p\<rparr>\<rparr>) }"

text \<open>The status indication in the tail of the buffer, a status of four bytes and the address.\<close>

definition zb_secur_nwk_status ::
  "'cb \<Rightarrow> nat \<Rightarrow> u16 \<Rightarrow> u8 \<Rightarrow> ('cb, 'w) bp_g_scheme \<Rightarrow> ('cb, 'w) bp_g_scheme option" where
  "zb_secur_nwk_status status_cb i short st g = do {
     b \<leftarrow> arr_get (pool (bpool g)) i;
     t \<leftarrow> zb_get_buf_tail b 6;
     d \<leftarrow> arr_copy (data_buf b) t ([st, 0, 0, 0] @ ZB_HTOLE16 short);
     g \<leftarrow> put_buf i (b\<lparr>data_buf := d\<rparr>) g;
     (_, g) \<leftarrow> zb_schedule_callback status_cb (of_nat i) g;
     Some g }"

text \<open>
  The neighbor a frame came from: its 64-bit address is in the auxiliary header and its short one in the
  MAC header. Without a short address there the code goes on with an uninitialised reference.
\<close>

definition unsecure_sender ::
  "u8 list \<Rightarrow> nat \<Rightarrow> nat \<Rightarrow> zb_mac_mhr \<Rightarrow> zb_nwk \<Rightarrow> (zb_ret \<times> nat option \<times> zb_nwk) option" where
  "unsecure_sender d nwhdr aux mhr w = do {
     ZB_ASSERT (ZB_FCF_GET_SRC_ADDRESSING_MODE (frame_control mhr) = ZB_ADDR_16BIT_DEV_OR_BROADCAST);
     ieee \<leftarrow> buf_read d (aux + 5) 8;
     (ret, ref, z) \<leftarrow> zb_address_update ieee (addr_short (src_addr mhr)) False (addr_tbl w);
     let w = w\<lparr>addr_tbl := z\<rparr>;
     if ret = RET_OK then do {
       ref \<leftarrow> ref;
       s \<leftarrow> buf_read d (nwhdr + 4) 2;
       (ret, nbe, nb, z) \<leftarrow> zb_nwk_neighbor_get (ucast (nib_depth w)) ref
                              (ZB_LETOH16 s = addr_short (src_addr mhr)) (neighbor w) (addr_tbl w);
       Some (ret, nbe, w\<lparr>neighbor := nb, addr_tbl := z\<rparr>) }
     else Some (ret, None, w) }"

text \<open>
  What the entry of the neighbor becomes for a frame with the key number \<open>sn\<close> and the counter \<open>c\<close>, and the
  status with which the frame is refused.
\<close>

definition check_frame_counter :: "bool \<Rightarrow> u8 \<Rightarrow> u32 \<Rightarrow> zb_neighbor_tbl_ent \<Rightarrow> u8 option \<times> zb_neighbor_tbl_ent" where
  "check_frame_counter has_key sn c e =
     (let e = (if relationship e = ZB_NWK_RELATIONSHIP_CHILD
               then e\<lparr>relationship := ZB_NWK_RELATIONSHIP_UNAUTHENTICATED_CHILD\<rparr> else e);
          e = (if key_seq_number e \<noteq> sn then e\<lparr>incoming_frame_counter := 0, key_seq_number := sn\<rparr> else e)
      in if \<not> has_key then (Some ZB_NWK_COMMAND_STATUS_BAD_KEY_SEQUENCE_NUMBER, e)
         else if c < incoming_frame_counter e \<or> incoming_frame_counter e = - 1
              then (Some ZB_NWK_COMMAND_STATUS_BAD_FRAME_COUNTER, e)
         else (None, e\<lparr>incoming_frame_counter := c\<rparr>))"

definition set_neighbor :: "nat \<Rightarrow> zb_neighbor_tbl_ent \<Rightarrow> zb_nwk \<Rightarrow> zb_nwk option" where
  "set_neighbor i e w = do {
     b \<leftarrow> arr_set (base_neighbor (neighbor w)) i e; Some (w\<lparr>neighbor := (neighbor w)\<lparr>base_neighbor := b\<rparr>\<rparr>) }"

text \<open>The size of what follows the header, in an unsigned integer of 32 bits.\<close>

definition payload_size :: "zb_buf_t \<Rightarrow> nat \<Rightarrow> u32" where
  "payload_size b hs = of_nat (ZB_BUF_LEN b) - of_nat hs"

text \<open>Decryption in place, and the MAC header written back in front of the frame.\<close>

definition unsecure_decrypt ::
  "nat \<Rightarrow> nat \<Rightarrow> u8 list \<Rightarrow> zb_mac_mhr \<Rightarrow> u8 \<Rightarrow> zb_buf_t \<Rightarrow> (zb_ret \<times> zb_buf_t) option" where
  "unsecure_decrypt hs aux key mhr mhr_length b = do {
     d \<leftarrow> arr_set (data_buf b) aux ZB_NWK_STD_SECUR_CONTROL;
     ieee \<leftarrow> buf_read d (aux + 5) 8;
     fcnt \<leftarrow> buf_read d (aux + 1) 4;
     (ret, b) \<leftarrow> zb_ccm_decrypt_n_auth_stdsecur key (ccm_nonce ieee fcnt ZB_NWK_STD_SECUR_CONTROL)
                  (b\<lparr>data_buf := d\<rparr>) hs (unat (payload_size b hs));
     if ret = RET_OK then do {
       (b, p) \<leftarrow> zb_buf_smart_alloc_left b (mhr_length + 1);
       d \<leftarrow> zb_mac_fill_mhr (data_buf b) (p + 1) mhr;
       let b = b\<lparr>data_buf := d, hdr := (hdr b)\<lparr>mac_hdr_offset := data_offset (hdr b) + 1\<rparr>\<rparr>;
       (b, _) \<leftarrow> zb_buf_cut_left b (mhr_length + 1);
       Some (RET_OK, b) }
     else Some (ret, b) }"

text \<open>A frame with a newer key makes the device switch to that key.\<close>

definition implicit_switch :: "u8 list \<Rightarrow> u8 \<Rightarrow> ('cb, 'w) sec_g_scheme \<Rightarrow> ('cb, 'w) sec_g_scheme option" where
  "implicit_switch rnd sn g =
     (if sn - active_key_seq_number g \<noteq> 0 \<and> sn - active_key_seq_number g < 127
      then secur_nwk_key_switch rnd sn g else Some g)"

text \<open>
  A frame too short for a tag is indicated twice: once where its size is tested, and once more where
  the result of the decryption, which is left out, is looked at.
\<close>

definition zb_nwk_unsecure_frame ::
  "'cb \<Rightarrow> u8 list \<Rightarrow> nat \<Rightarrow> zb_mac_mhr \<Rightarrow> u8 \<Rightarrow> ('cb, 'w) sec_g_scheme \<Rightarrow> (zb_ret \<times> ('cb, 'w) sec_g_scheme) option" where
  "zb_nwk_unsecure_frame status_cb rnd i mhr mhr_length g =
     (if \<not> authenticated g then do { g \<leftarrow> zb_free_buf i g; Some (RET_ERROR, g) }
      else do {
        b \<leftarrow> arr_get (pool (bpool g)) i;
        let nwhdr = ZB_BUF_BEGIN b;
        let short = addr_short (src_addr mhr);
        fc \<leftarrow> buf_read (data_buf b) nwhdr 2;
        let hs = zb_nwk_hdr_size fc;
        aux \<leftarrow> aux_place nwhdr hs;
        (ret, nbe, w) \<leftarrow> unsecure_sender (data_buf b) nwhdr aux mhr (snwk g);
        let g = g\<lparr>snwk := w\<rparr>;
        if ret \<noteq> RET_OK then do {
          g \<leftarrow> zb_secur_nwk_status status_cb i short ZB_NWK_COMMAND_STATUS_FRAME_SECURITY_FAILED g;
          Some (ret, g) }
        else do {
          nbe \<leftarrow> nbe;
          sn \<leftarrow> arr_get (data_buf b) (aux + 13);
          key \<leftarrow> secur_nwk_key_by_seq sn g;
          e \<leftarrow> arr_get (base_neighbor (neighbor (snwk g))) nbe;
          fcnt \<leftarrow> buf_read (data_buf b) (aux + 1) 4;
          let (refused, e) = check_frame_counter (key \<noteq> None) sn (ZB_LETOH32 fcnt) e;
          w \<leftarrow> set_neighbor nbe e (snwk g);
          let g = g\<lparr>snwk := w\<rparr>;
          (case (refused, key) of
             (None, Some k) \<Rightarrow> do {
               m \<leftarrow> arr_get (secur_material_set g) k;
               if payload_size b hs < of_nat ZB_CCM_M then do {
                 g \<leftarrow> zb_secur_nwk_status status_cb i short ZB_NWK_COMMAND_STATUS_FRAME_SECURITY_FAILED g;
                 g \<leftarrow> zb_secur_nwk_status status_cb i short ZB_NWK_COMMAND_STATUS_FRAME_SECURITY_FAILED g;
                 Some (RET_ERROR, g) }
               else do {
               (ret, b) \<leftarrow> unsecure_decrypt hs aux (ms_key m) mhr mhr_length b;
               g \<leftarrow> put_buf i b g;
               if ret = RET_OK then do {
                 w \<leftarrow> (if relationship e = ZB_NWK_RELATIONSHIP_UNAUTHENTICATED_CHILD
                       then set_neighbor nbe (e\<lparr>relationship := ZB_NWK_RELATIONSHIP_CHILD\<rparr>) (snwk g) else Some (snwk g));
                 sn \<leftarrow> arr_get (data_buf b) (aux + 13);
                 g \<leftarrow> implicit_switch rnd sn (g\<lparr>snwk := w\<rparr>);
                 Some (RET_OK, g) }
               else do {
                 g \<leftarrow> zb_secur_nwk_status status_cb i short ZB_NWK_COMMAND_STATUS_FRAME_SECURITY_FAILED g;
                 Some (ret, g) } } }
           | (Some st, _) \<Rightarrow> do {
               g \<leftarrow> zb_secur_nwk_status status_cb i short st g;
               Some (RET_ERROR, g) }
           | _ \<Rightarrow> None) } })"

end
