(* ===== verification/Mac_Hdr_Lemmas.thy ===== *)
theory Mac_Hdr_Lemmas
  imports Mac_Hdr
begin

text \<open>
  The lemmas and properties of the MAC header: filling one writes a definite list of bytes, and
  parsing that list gives the header back, up to the fields the addressing modes leave out.
\<close>

section \<open>The bytes of a header\<close>

definition addr_bytes :: "u8 \<Rightarrow> zb_addr_u \<Rightarrow> u8 list" where
  "addr_bytes val u = (if val = 2 then ZB_HTOLE16 (addr_short u) else take 8 u)"

definition dst_bytes :: "zb_mac_mhr \<Rightarrow> u8 list" where
  "dst_bytes m = (let v = ZB_FCF_GET_DST_ADDRESSING_MODE (frame_control m) in
     if v \<noteq> 0 then ZB_HTOLE16 (dst_pan_id m) @ addr_bytes v (dst_addr m) else [])"

definition src_bytes :: "zb_mac_mhr \<Rightarrow> u8 list" where
  "src_bytes m = (let v = ZB_FCF_GET_SRC_ADDRESSING_MODE (frame_control m) in
     if v \<noteq> 0 then (if ZB_FCF_GET_PANID_COMPRESSION_BIT (frame_control m) = 0 then ZB_HTOLE16 (src_pan_id m) else [])
       @ addr_bytes v (src_addr m) else [])"

definition mhr_bytes :: "zb_mac_mhr \<Rightarrow> u8 list" where
  "mhr_bytes m = (frame_control m @ [seq_number m]) @ dst_bytes m @ src_bytes m"

definition mhr_wf :: "zb_mac_mhr \<Rightarrow> bool" where
  "mhr_wf m \<longleftrightarrow> length (frame_control m) = 2 \<and> length (dst_addr m) = 8 \<and> length (src_addr m) = 8"

text \<open>What is left of a header on the air: a field that is not sent reads as zero.\<close>

definition sent_addr :: "u8 \<Rightarrow> zb_addr_u \<Rightarrow> zb_addr_u" where
  "sent_addr v u = (if v = 0 then addr_zero else if v = 2 then take 2 u @ replicate 6 0 else u)"

definition sent_mhr :: "zb_mac_mhr \<Rightarrow> zb_mac_mhr" where
  "sent_mhr m =
     (let fc = frame_control m; dv = ZB_FCF_GET_DST_ADDRESSING_MODE fc; sv = ZB_FCF_GET_SRC_ADDRESSING_MODE fc;
          pan = (if dv = 0 then 0 else dst_pan_id m)
      in m\<lparr>dst_pan_id := pan, dst_addr := sent_addr dv (dst_addr m),
           src_pan_id := (if sv = 0 then 0 else if ZB_FCF_GET_PANID_COMPRESSION_BIT fc = 0 then src_pan_id m else pan),
           src_addr := sent_addr sv (src_addr m)\<rparr>)"

text \<open>Writing bytes where there is room for them.\<close>

definition write_at :: "'a list \<Rightarrow> nat \<Rightarrow> 'a list \<Rightarrow> 'a list" where
  "write_at d p bs = take p d @ bs @ drop (p + length bs) d"

lemma arr_copy_write: "p + length bs \<le> length d \<Longrightarrow> arr_copy d p bs = Some (write_at d p bs)"
  by (simp add: arr_copy_def write_at_def)

lemma length_write [simp]: "p + length bs \<le> length d \<Longrightarrow> length (write_at d p bs) = length d"
  by (simp add: write_at_def)

lemma write_Nil [simp]: "write_at d p [] = d"
  by (simp add: write_at_def)

lemma write_write:
  "p + length xs + length ys \<le> length d \<Longrightarrow> write_at (write_at d p xs) (p + length xs) ys = write_at d p (xs @ ys)"
  by (simp add: write_at_def ac_simps)

lemma write_write_at:
  "q = p + length xs \<Longrightarrow> q + length ys \<le> length d \<Longrightarrow> write_at (write_at d p xs) q ys = write_at d p (xs @ ys)"
  using write_write by blast

lemma write_holds: "p + length bs \<le> length d \<Longrightarrow> holds (write_at d p bs) p bs"
  by (rule arr_copy_holds [of d]) (simp add: arr_copy_write)

lemma length_addr_bytes [simp]: "length u = 8 \<Longrightarrow> length (addr_bytes v u) = (if v = 2 then 2 else 8)"
  by (simp add: addr_bytes_def)

lemma put_next: "p + 2 \<le> length d \<Longrightarrow> zb_put_next_htole16 d p v = Some (write_at d p (ZB_HTOLE16 v), p + 2)"
  by (simp add: zb_put_next_htole16_def arr_copy_write)

lemma put_addr: "length u = 8 \<Longrightarrow> p + length (addr_bytes v u) \<le> length d
    \<Longrightarrow> put_mhr_addr v d p u = Some (write_at d p (addr_bytes v u), p + length (addr_bytes v u))"
  by (auto simp: put_mhr_addr_def put_next addr_bytes_def arr_copy_write zb_config)

lemma fill_bytes:
  assumes wf: "mhr_wf m" and room: "ptr + length (mhr_bytes m) \<le> length d"
  shows "zb_mac_fill_mhr d ptr m = Some (write_at d ptr (mhr_bytes m))"
proof -
  let ?fc = "frame_control m"
  let ?d1 = "write_at d ptr (?fc @ [seq_number m])"
  have l: "length ?fc = 2" "length (dst_addr m) = 8" "length (src_addr m) = 8" using wf by (simp_all add: mhr_wf_def)
  have len: "length (mhr_bytes m) = 3 + length (dst_bytes m) + length (src_bytes m)" using l by (simp add: mhr_bytes_def)
  have l1: "length ?d1 = length d" using room l len by simp
  have start: "Option.bind (arr_copy d ptr (take 2 ?fc)) (\<lambda>d. arr_set d (ptr + 2) (seq_number m)) = Some ?d1"
    using arr_copy_parts [of d ptr "take 2 ?fc" "[seq_number m]"] l room len
    by (simp add: arr_set_copy arr_copy_write)
  let ?d2 = "write_at ?d1 (ptr + 3) (dst_bytes m)"
  have room2: "ptr + 3 + length (dst_bytes m) \<le> length d" using room len by simp
  have dst: "(if ZB_FCF_GET_DST_ADDRESSING_MODE ?fc \<noteq> 0 then
        Option.bind (zb_put_next_htole16 ?d1 (ptr + 3) (dst_pan_id m))
          (\<lambda>(d, p). put_mhr_addr (ZB_FCF_GET_DST_ADDRESSING_MODE ?fc) d p (dst_addr m))
      else Some (?d1, ptr + 3)) = Some (?d2, ptr + 3 + length (dst_bytes m))"
    using room2 l1 l(2) by (simp add: dst_bytes_def Let_def put_next put_addr write_write_at split: if_splits)
  have l2: "length ?d2 = length d" using room2 l1 by simp
  let ?p = "ptr + 3 + length (dst_bytes m)"
  let ?d3 = "write_at ?d2 ?p (src_bytes m)"
  have room3: "?p + length (src_bytes m) \<le> length d" using room len by simp
  have src: "(if ZB_FCF_GET_SRC_ADDRESSING_MODE ?fc \<noteq> 0 then
        Option.bind (if ZB_FCF_GET_PANID_COMPRESSION_BIT ?fc = 0 then zb_put_next_htole16 ?d2 ?p (src_pan_id m) else Some (?d2, ?p))
          (\<lambda>(d, p). put_mhr_addr (ZB_FCF_GET_SRC_ADDRESSING_MODE ?fc) d p (src_addr m))
      else Some (?d2, ?p)) = Some (?d3, ?p + length (src_bytes m))"
    using room3 l2 l(3) by (simp add: src_bytes_def Let_def put_next put_addr write_write_at split: if_splits)
  have "?d3 = write_at d ptr (mhr_bytes m)"
    using room2 room3 l l1 by (simp add: write_write_at mhr_bytes_def)
  moreover have "zb_mac_fill_mhr d ptr m = Some ?d3"
    unfolding zb_mac_fill_mhr_def Let_def bind_assoc [symmetric] start using dst src by simp
  ultimately show ?thesis by simp
qed

section \<open>Parsing those bytes\<close>

lemma get_next_holds: "holds d p (ZB_HTOLE16 v) \<Longrightarrow> zb_get_next_letoh16 d p = Some (v, p + 2)"
  using le16_roundtrip [of v "[]"] by (simp add: zb_get_next_letoh16_def buf_read_holds)

lemma set_addr_short_zero: "length u = 8 \<Longrightarrow> set_addr_short (addr_short u) addr_zero = take 2 u @ replicate 6 0"
  by (simp add: set_addr_short_def addr_short_def le16_bytes addr_zero_def)

lemma get_addr_holds:
  assumes "length u = 8" and "v \<noteq> 0" and "holds d p (addr_bytes v u)"
  shows "get_mhr_addr v d p addr_zero = Some (sent_addr v u, p + length (addr_bytes v u))"
proof (cases "v = 2")
  case True
  then show ?thesis
    using assms get_next_holds [of d p "addr_short u"] set_addr_short_zero [OF assms(1)]
    by (simp add: get_mhr_addr_def addr_bytes_def sent_addr_def zb_config)
next
  case False
  then have "buf_read d p 8 = Some u" using assms by (intro buf_read_holds) (simp_all add: addr_bytes_def)
  then show ?thesis using False assms by (simp add: get_mhr_addr_def addr_bytes_def sent_addr_def zb_config)
qed

lemma parse_bytes:
  assumes wf: "mhr_wf m" and h: "holds d ptr (mhr_bytes m)"
  shows "zb_parse_mhr d ptr = Some (sent_mhr m, of_nat (length (mhr_bytes m)))"
proof -
  let ?fc = "frame_control m"
  let ?dv = "ZB_FCF_GET_DST_ADDRESSING_MODE ?fc" and ?sv = "ZB_FCF_GET_SRC_ADDRESSING_MODE ?fc"
  have l: "length ?fc = 2" "length (dst_addr m) = 8" "length (src_addr m) = 8" using wf by (simp_all add: mhr_wf_def)
  have hh: "holds d ptr ?fc" "holds d (ptr + 2) [seq_number m]" "holds d (ptr + 3) (dst_bytes m)"
    "holds d (ptr + 3 + length (dst_bytes m)) (src_bytes m)"
    using h l holds_Cons [of d "Suc (Suc ptr)" "seq_number m" "dst_bytes m @ src_bytes m"]
    by (simp_all add: mhr_bytes_def holds_append numeral_3_eq_3 ac_simps)
  let ?m0 = "mhr_zero\<lparr>frame_control := ?fc, seq_number := seq_number m\<rparr>"
  let ?m1 = "?m0\<lparr>dst_pan_id := (if ?dv = 0 then 0 else dst_pan_id m), dst_addr := sent_addr ?dv (dst_addr m)\<rparr>"
  let ?p = "ptr + 3 + length (dst_bytes m)"
  have start: "buf_read d ptr 2 = Some ?fc" "arr_get d (ptr + 2) = Some (seq_number m)"
    using hh(1,2) l by (simp_all add: buf_read_holds arr_get_holds)
  have dst: "(if ?dv \<noteq> 0 then Option.bind (zb_get_next_letoh16 d (ptr + 3)) (\<lambda>(pan, p).
        Option.bind (get_mhr_addr ?dv d p (dst_addr ?m0)) (\<lambda>(a, p). Some (?m0\<lparr>dst_pan_id := pan, dst_addr := a\<rparr>, p)))
      else Some (?m0, ptr + 3)) = Some (?m1, ?p)"
  proof (cases "?dv = 0")
    case True
    then show ?thesis by (simp add: dst_bytes_def sent_addr_def mhr_zero_def)
  next
    case False
    then have "holds d (ptr + 3) (ZB_HTOLE16 (dst_pan_id m))" "holds d (ptr + 3 + 2) (addr_bytes ?dv (dst_addr m))"
      using hh(3) by (simp_all add: dst_bytes_def holds_append)
    from get_next_holds [OF this(1)] get_addr_holds [OF l(2) False this(2)] False show ?thesis
      by (simp add: dst_bytes_def mhr_zero_def)
  qed
  have src: "(if ?sv \<noteq> 0 then Option.bind (if ZB_FCF_GET_PANID_COMPRESSION_BIT ?fc = 0 then zb_get_next_letoh16 d ?p
          else Some (dst_pan_id ?m1, ?p)) (\<lambda>(pan, p).
        Option.bind (get_mhr_addr ?sv d p (src_addr ?m1)) (\<lambda>(a, p). Some (?m1\<lparr>src_pan_id := pan, src_addr := a\<rparr>, p)))
      else Some (?m1, ?p)) = Some (sent_mhr m, ?p + length (src_bytes m))"
  proof (cases "?sv = 0")
    case True
    then show ?thesis by (cases m) (simp add: src_bytes_def sent_addr_def mhr_zero_def sent_mhr_def Let_def)
  next
    case False
    let ?q = "?p + (if ZB_FCF_GET_PANID_COMPRESSION_BIT ?fc = 0 then 2 else 0)"
    have "holds d ?q (addr_bytes ?sv (src_addr m))"
      "ZB_FCF_GET_PANID_COMPRESSION_BIT ?fc = 0 \<Longrightarrow> holds d ?p (ZB_HTOLE16 (src_pan_id m))"
      using hh(4) False by (simp_all add: src_bytes_def holds_append split: if_splits)
    note a = get_addr_holds [OF l(3) False this(1)] and n = get_next_holds [OF this(2)]
    show ?thesis
    proof (cases "ZB_FCF_GET_PANID_COMPRESSION_BIT ?fc = 0")
      case True
      with a n False show ?thesis by (cases m) (simp add: src_bytes_def mhr_zero_def sent_mhr_def Let_def ac_simps)
    next
      case C: False
      with a False show ?thesis by (cases m) (simp add: src_bytes_def mhr_zero_def sent_mhr_def Let_def ac_simps)
    qed
  qed
  have "length (mhr_bytes m) = 3 + length (dst_bytes m) + length (src_bytes m)" using l by (simp add: mhr_bytes_def)
  then show ?thesis using start dst src by (simp add: zb_parse_mhr_def Let_def)
qed

lemma modes_length:
  assumes "mhr_wf m" and "ZB_FCF_GET_DST_ADDRESSING_MODE (frame_control m) \<in> {0, 2, 3}"
    and "ZB_FCF_GET_SRC_ADDRESSING_MODE (frame_control m) \<in> {0, 2, 3}"
  shows "zb_mac_calculate_mhr_length (ZB_FCF_GET_SRC_ADDRESSING_MODE (frame_control m))
      (ZB_FCF_GET_DST_ADDRESSING_MODE (frame_control m)) (ZB_FCF_GET_PANID_COMPRESSION_BIT (frame_control m))
    = Some (of_nat (length (mhr_bytes m)))"
  using assms
  by (auto simp: zb_mac_calculate_mhr_length_def mhr_bytes_def dst_bytes_def src_bytes_def mhr_wf_def zb_config)

section \<open>Properties\<close>

text \<open>
  C28. A header that is filled into a buffer is read back by the parser: every field the addressing
  modes send has its value and the others are zero, with the source PAN taken from the
  destination under compression. The parser returns the number of bytes written, which is the
  length \<open>zb_mac_calculate_mhr_length\<close> gives for the modes of the standard, and the bytes around the
  header stay as they are.
\<close>

theorem mhr_roundtrip:
  assumes "mhr_wf m" and "ptr + length (mhr_bytes m) \<le> length d"
  shows "\<exists>d'. zb_mac_fill_mhr d ptr m = Some d'
    \<and> zb_parse_mhr d' ptr = Some (sent_mhr m, of_nat (length (mhr_bytes m)))
    \<and> (ZB_FCF_GET_DST_ADDRESSING_MODE (frame_control m) \<in> {0, 2, 3}
        \<and> ZB_FCF_GET_SRC_ADDRESSING_MODE (frame_control m) \<in> {0, 2, 3} \<longrightarrow>
        zb_mac_calculate_mhr_length (ZB_FCF_GET_SRC_ADDRESSING_MODE (frame_control m))
          (ZB_FCF_GET_DST_ADDRESSING_MODE (frame_control m)) (ZB_FCF_GET_PANID_COMPRESSION_BIT (frame_control m))
        = Some (of_nat (length (mhr_bytes m))))
    \<and> length d' = length d \<and> take ptr d' = take ptr d
    \<and> drop (ptr + length (mhr_bytes m)) d' = drop (ptr + length (mhr_bytes m)) d"
  using fill_bytes [OF assms] parse_bytes [OF assms(1) write_holds [OF assms(2)]] modes_length [OF assms(1)] assms(2)
  by (simp add: write_at_def)

text \<open>A data frame from a short to a long address within one PAN.\<close>

theorem mhr_roundtrip_witness:
  "\<exists>d'. zb_mac_fill_mhr (replicate 148 0) 10
      \<lparr>frame_control = [0x41, 0x8c], seq_number = 7, dst_pan_id = 0x1aaa, dst_addr = [1, 2, 3, 4, 5, 6, 7, 8],
       src_pan_id = 0x1aaa, src_addr = [0x34, 0x12, 0, 0, 0, 0, 0, 0]\<rparr> = Some d'
    \<and> zb_parse_mhr d' 10 = Some (\<lparr>frame_control = [0x41, 0x8c], seq_number = 7, dst_pan_id = 0x1aaa,
       dst_addr = [1, 2, 3, 4, 5, 6, 7, 8], src_pan_id = 0x1aaa, src_addr = [0x34, 0x12, 0, 0, 0, 0, 0, 0]\<rparr>, 15)"
proof -
  let ?m = "\<lparr>frame_control = [0x41, 0x8c], seq_number = 7, dst_pan_id = 0x1aaa, dst_addr = [1, 2, 3, 4, 5, 6, 7, 8],
       src_pan_id = 0x1aaa, src_addr = [0x34, 0x12, 0, 0, 0, 0, 0, 0]\<rparr>"
  have modes: "ZB_FCF_GET_DST_ADDRESSING_MODE [0x41, 0x8c] = 3" "ZB_FCF_GET_SRC_ADDRESSING_MODE [0x41, 0x8c] = 2"
    "ZB_FCF_GET_PANID_COMPRESSION_BIT [0x41, 0x8c] = 0x40"
    by (simp_all add: ZB_FCF_GET_DST_ADDRESSING_MODE_def ZB_FCF_GET_SRC_ADDRESSING_MODE_def ZB_FCF_GET_PANID_COMPRESSION_BIT_def)
  have len: "length (mhr_bytes ?m) = 15"
    by (simp add: mhr_bytes_def dst_bytes_def src_bytes_def modes addr_bytes_def)
  have "replicate 6 (0 :: u8) = [0, 0, 0, 0, 0, 0]" by (simp add: numeral_eq_Suc)
  then have sent: "sent_mhr ?m = ?m" by (simp add: sent_mhr_def Let_def modes sent_addr_def)
  have "mhr_wf ?m" by (simp add: mhr_wf_def)
  from mhr_roundtrip [OF this, of 10 "replicate 148 0"] show ?thesis by (auto simp: len sent)
qed

text \<open>
  The filter that keeps broadcasts from a sleeping device looks at the first two bytes of the
  destination even when it is a 64-bit address: a frame sent to exactly this device, by an address
  that begins with \<open>0xff 0xff\<close>, is dropped.
\<close>

theorem sleepy_device_deaf:
  assumes wf: "mhr_wf m" and h: "holds d ptr (mhr_bytes m)"
    and mode: "ZB_FCF_GET_DST_ADDRESSING_MODE (frame_control m) = ZB_ADDR_64BIT_DEV"
    and adr: "dst_addr m = own" "take 2 own = [0xff, 0xff]"
  shows "\<exists>m' n. zb_parse_mhr d ptr = Some (m', n) \<and> check_frame_dst_addr short own m' \<and> \<not> can_accept_frame False m'"
proof -
  obtain r where own: "own = 0xff # 0xff # r"
    using adr(2) by (cases own; cases "tl own") auto
  have d: "dst_addr (sent_mhr m) = own" "frame_control (sent_mhr m) = frame_control m"
    using adr(1) mode by (simp_all add: sent_mhr_def Let_def sent_addr_def zb_config)
  have ff: "addr_short own = 0xffff" by (simp add: addr_short_def ZB_LETOH16_def own)
  show ?thesis
    using parse_bytes [OF wf h] d mode ff
    by (simp add: check_frame_dst_addr_def can_accept_frame_def zb_config)
qed

theorem sleepy_device_deaf_witness:
  "\<exists>d m' n. zb_parse_mhr d 0 = Some (m', n) \<and> check_frame_dst_addr 1 [0xff, 0xff, 3, 4, 5, 6, 7, 8] m'
    \<and> \<not> can_accept_frame False m'"
proof -
  let ?m = "mhr_zero\<lparr>frame_control := [0x41, 0x0c], dst_addr := [0xff, 0xff, 3, 4, 5, 6, 7, 8]\<rparr>"
  have wf: "mhr_wf ?m" by (simp add: mhr_wf_def mhr_zero_def addr_zero_def)
  have h: "holds (mhr_bytes ?m) 0 (mhr_bytes ?m)" by (simp add: holds_def)
  have "ZB_FCF_GET_DST_ADDRESSING_MODE (frame_control ?m) = ZB_ADDR_64BIT_DEV"
    by (simp add: ZB_FCF_GET_DST_ADDRESSING_MODE_def zb_config)
  from sleepy_device_deaf [OF wf h this, of "[0xff, 0xff, 3, 4, 5, 6, 7, 8]" 1] show ?thesis by auto
qed

end
