(* ===== verification/Nwk_Secur_Lemmas.thy ===== *)
theory Nwk_Secur_Lemmas
  imports Nwk_Secur Mac_Hdr_Lemmas Tree_Addr_Lemmas
begin

text \<open>
  The lemmas and properties of network security: the search for a key, the counters of outgoing frames
  and the switching of keys, securing a frame, and what a received frame does to the entry of its
  sender.
\<close>

section \<open>Keys\<close>

definition keys_inv :: "('cb, 'w) sec_g_scheme \<Rightarrow> bool" where
  "keys_inv g \<longleftrightarrow> length (secur_material_set g) = 3 \<and> unat (active_secur_material_i g) < 3
     \<and> (\<forall>m \<in> set (secur_material_set g). length (ms_key m) = 16)"

lemma key_loop_find:
  "length sets = 3 \<Longrightarrow> i < 3 \<Longrightarrow> key_by_seq_loop k i sn sets
    = Some (find (\<lambda>j. ms_key_seq_number (sets ! j) = sn) (map (\<lambda>j. (i + j) mod 3) [0..<k]))"
proof (induction k arbitrary: i)
  case (Suc k)
  have e: "map (\<lambda>j. (i + j) mod 3) [0..<Suc k] = i # map (\<lambda>j. (Suc i mod 3 + j) mod 3) [0..<k]"
    using Suc.prems(2) by (simp add: map_upt_Suc mod_add_left_eq del: upt_Suc)
  show ?case
    unfolding e using Suc.prems Suc.IH [of "Suc i mod 3"] by (simp add: ZB_SECUR_N_SECUR_MATERIAL_def)
qed simp

text \<open>The search finds a key with the number exactly when there is one.\<close>

lemma key_by_seq_ok:
  assumes "keys_inv g"
  shows "\<exists>r. secur_nwk_key_by_seq sn g = Some r
    \<and> (r = None \<longleftrightarrow> (\<forall>j < 3. ms_key_seq_number (secur_material_set g ! j) \<noteq> sn))
    \<and> (\<forall>i. r = Some i \<longrightarrow> i < 3 \<and> ms_key_seq_number (secur_material_set g ! i) = sn \<and> length (ms_key (secur_material_set g ! i)) = 16)"
proof -
  let ?i = "unat (active_secur_material_i g)"
  have i: "length (secur_material_set g) = 3" "?i < 3" using assms by (simp_all add: keys_inv_def)
  let ?js = "map (\<lambda>j. (?i + j) mod 3) [0..<3]"
  have js: "set ?js = {..<3}"
    using set_ring_from [OF i(2)] by (simp add: ring_from_def)
  let ?P = "\<lambda>j. ms_key_seq_number (secur_material_set g ! j) = sn"
  have run: "secur_nwk_key_by_seq sn g = Some (find ?P ?js)"
    using key_loop_find [OF i, of 3 sn] by (simp add: secur_nwk_key_by_seq_def ZB_SECUR_N_SECUR_MATERIAL_def)
  have k16: "length (ms_key (secur_material_set g ! j)) = 16" if "j < 3" for j
    using assms that by (simp add: keys_inv_def)
  show ?thesis
  proof (cases "find ?P ?js")
    case None
    then have "\<forall>j < 3. \<not> ?P j" unfolding find_none_set js by blast
    with run None show ?thesis by simp
  next
    case (Some i)
    from find_some_set [OF this] have "?P i" "i < 3" unfolding js by simp_all
    with run Some k16 show ?thesis by (intro exI [of _ "Some i"]) auto
  qed
qed

lemma key_by_seq_cong:
  "secur_material_set g' = secur_material_set g \<Longrightarrow> active_secur_material_i g' = active_secur_material_i g
    \<Longrightarrow> secur_nwk_key_by_seq sn g' = secur_nwk_key_by_seq sn g"
  by (simp add: secur_nwk_key_by_seq_def)

section \<open>Switching keys\<close>

lemma switch_loop_ok:
  "length sets = 3 \<Longrightarrow> i + k = 3 \<Longrightarrow> \<exists>j. key_switch_loop k i shift sn sets = Some j \<and> j \<le> 3"
  by (induction k arbitrary: i) (auto simp: ZB_SECUR_N_SECUR_MATERIAL_def)

lemma key_switch_ok:
  assumes "keys_inv g" and "16 \<le> length rnd"
  shows "\<exists>g'. secur_nwk_key_switch rnd sn g = Some g' \<and> keys_inv g' \<and> snwk g' = snwk g \<and> bpool g' = bpool g
    \<and> sched g' = sched g \<and> authenticated g' = authenticated g \<and> mac_extended_address g' = mac_extended_address g"
proof -
  let ?sh = "(unat (active_secur_material_i g) + 1) mod 3"
  have l: "length (secur_material_set g) = 3" using assms by (simp add: keys_inv_def)
  obtain j where j: "key_switch_loop 3 0 ?sh sn (secur_material_set g) = Some j" "j \<le> 3"
    using switch_loop_ok [OF l, of 0 3] by auto
  have small: "unat (of_nat n :: 2 word) = n" if "n < 3" for n using that by (intro unat_of_nat_lt) simp
  have "\<forall>m \<in> set ((secur_material_set g)[?sh := \<lparr>ms_key = take 16 rnd, ms_key_seq_number = sn\<rparr>]). length (ms_key m) = 16"
    using assms by (auto simp: keys_inv_def dest!: set_update_subset_insert [THEN subsetD])
  with j l small assms show ?thesis
    by (auto simp: secur_nwk_key_switch_def secur_generate_key_def Let_def keys_inv_def ZB_SECUR_N_SECUR_MATERIAL_def
        ZB_CCM_KEY_SIZE_def)
qed

text \<open>Three keys with the numbers 0, 1, 2, of which the first is active, as the trust center generates them.\<close>

definition three_keys :: "u8 list \<Rightarrow> u8 list \<Rightarrow> u8 list \<Rightarrow> ('cb, 'w) sec_g_scheme \<Rightarrow> bool" where
  "three_keys k0 k1 k2 g \<longleftrightarrow>
     secur_material_set g = [\<lparr>ms_key = k0, ms_key_seq_number = 0\<rparr>, \<lparr>ms_key = k1, ms_key_seq_number = 1\<rparr>,
       \<lparr>ms_key = k2, ms_key_seq_number = 2\<rparr>]
     \<and> active_secur_material_i g = 0 \<and> active_key_seq_number g = 0"

lemma generated_keys:
  assumes "length (secur_material_set g) = 3" and "active_secur_material_i g = 0" and "active_key_seq_number g = 0"
  shows "\<exists>g'. secur_generate_keys r0 r1 r2 g = Some g' \<and> three_keys (take 16 r0) (take 16 r1) (take 16 r2) g'"
proof -
  obtain a b c where "secur_material_set g = [a, b, c]" using assms(1) by (auto simp: length_Suc_conv numeral_3_eq_3)
  then show ?thesis
    using assms by (simp add: secur_generate_keys_def secur_generate_key_def three_keys_def ZB_CCM_KEY_SIZE_def numeral_2_eq_2)
qed

text \<open>No frame is secured with a number that no key has.\<close>

lemma secure_needs_key:
  assumes "secur_nwk_key_by_seq (active_key_seq_number g) g = Some None" and "use_same_key (hdr src) = 0"
  shows "zb_nwk_secure_frame cb src n dst g = Some (ret, src', dst', g') \<Longrightarrow> ret = RET_ERROR \<and> dst' = dst"
  using assms
  by (auto simp: zb_nwk_secure_frame_def Let_def bind_eq_Some_conv secure_counter_def secur_nwk_key_by_seq_def)

lemma three_Suc: "key_switch_loop 3 = key_switch_loop (Suc (Suc (Suc 0)))" "key_by_seq_loop 3 = key_by_seq_loop (Suc (Suc (Suc 0)))"
  by (simp_all add: numeral_3_eq_3)

lemma switch_run:
  assumes "secur_material_set g = [a, b, c]" and "ms_key_seq_number ([a, b, c] ! ((unat (active_secur_material_i g) + 1) mod 3)) \<noteq> sn"
  shows "secur_nwk_key_switch rnd sn g = Some (g\<lparr>active_secur_material_i := 0, active_key_seq_number := sn,
    prev_outgoing_frame_counter := outgoing_frame_counter g, outgoing_frame_counter := 0\<rparr>)"
  using assms by (simp add: secur_nwk_key_switch_def Let_def ZB_SECUR_N_SECUR_MATERIAL_def three_Suc)

text \<open>When the next key has the number and the one behind it has not, the code takes the index 1.\<close>

lemma switch_run_next:
  assumes "secur_material_set g = [a, b, c]" and "ms_key_seq_number ([a, b, c] ! ((unat (active_secur_material_i g) + 1) mod 3)) = sn"
    and "ms_key_seq_number ([a, b, c] ! ((unat (active_secur_material_i g) + 2) mod 3)) \<noteq> sn"
  shows "secur_nwk_key_switch rnd sn g = Some (g\<lparr>active_secur_material_i := 1, active_key_seq_number := sn,
    prev_outgoing_frame_counter := outgoing_frame_counter g, outgoing_frame_counter := 0\<rparr>)"
proof -
  have "Suc (Suc (unat (active_secur_material_i g)) mod 3) mod 3 = Suc (Suc (unat (active_secur_material_i g))) mod 3"
    by (simp add: mod_Suc_eq)
  with assms show ?thesis
    by (simp add: secur_nwk_key_switch_def Let_def ZB_SECUR_N_SECUR_MATERIAL_def three_Suc)
qed

text \<open>
  Three switches of the network key at a trust center with its generated keys 0, 1 and 2. After the
  first everything agrees. After the second, devices that join are sent the key 1 under the number 2,
  because the loop stops at the first key with another number and takes its offset for an index.
  After the third there is no key with the active number, and no frame is secured any more.
\<close>

theorem key_switch_goes_astray:
  assumes "three_keys k0 k1 k2 g"
  shows "\<exists>g1 g2 g3. secur_nwk_key_switch rnd 1 g = Some g1 \<and> key_for_child g1 = Some (k1, 1)
    \<and> secur_nwk_key_switch rnd 2 g1 = Some g2 \<and> key_for_child g2 = Some (k1, 2)
    \<and> secur_nwk_key_by_seq 2 g2 = Some (Some 2) \<and> ms_key (secur_material_set g2 ! 2) = k2
    \<and> secur_nwk_key_switch rnd 3 g2 = Some g3
    \<and> (\<forall>src n dst ret src' dst' g'. use_same_key (hdr src) = 0
          \<and> zb_nwk_secure_frame cb src n dst g3 = Some (ret, src', dst', g') \<longrightarrow> ret = RET_ERROR)"
proof -
  let ?a = "\<lparr>ms_key = k0, ms_key_seq_number = 0\<rparr>" and ?b = "\<lparr>ms_key = k1, ms_key_seq_number = 1\<rparr>"
    and ?c = "\<lparr>ms_key = k2, ms_key_seq_number = 2\<rparr>"
  have g: "secur_material_set g = [?a, ?b, ?c]" "active_secur_material_i g = 0"
    using assms by (simp_all add: three_keys_def)
  let ?g1 = "g\<lparr>active_secur_material_i := 1, active_key_seq_number := 1,
    prev_outgoing_frame_counter := outgoing_frame_counter g, outgoing_frame_counter := 0\<rparr>"
  let ?g2 = "?g1\<lparr>active_key_seq_number := 2, prev_outgoing_frame_counter := 0\<rparr>"
  let ?g3 = "?g2\<lparr>active_secur_material_i := 0, active_key_seq_number := 3\<rparr>"
  have 1: "secur_nwk_key_switch rnd 1 g = Some ?g1" using g by (subst switch_run_next [OF g(1)]) simp_all
  have 2: "secur_nwk_key_switch rnd 2 ?g1 = Some ?g2" using g by (subst switch_run_next [of _ ?a ?b ?c]) simp_all
  have 3: "secur_nwk_key_switch rnd 3 ?g2 = Some ?g3" using g by (subst switch_run [of _ ?a ?b ?c]) simp_all
  have "key_for_child ?g1 = Some (k1, 1)" "key_for_child ?g2 = Some (k1, 2)" "secur_nwk_key_by_seq 2 ?g2 = Some (Some 2)"
    "ms_key (secur_material_set ?g2 ! 2) = k2"
    using g by (simp_all add: key_for_child_def secur_nwk_key_by_seq_def ZB_SECUR_N_SECUR_MATERIAL_def three_Suc)
  moreover have "secur_nwk_key_by_seq (active_key_seq_number ?g3) ?g3 = Some None"
    using g by (simp add: secur_nwk_key_by_seq_def ZB_SECUR_N_SECUR_MATERIAL_def three_Suc)
  note secure_needs_key [OF this]
  ultimately show ?thesis using 1 2 3 by (intro exI [of _ ?g1] exI [of _ ?g2] exI [of _ ?g3]) blast
qed

section \<open>Editing the packet of a buffer\<close>

lemma payload_holds: "buf_wf b \<Longrightarrow> holds (data_buf b) (ZB_BUF_BEGIN b) (payload b)"
  using length_payload [of b] by (simp add: holds_def buf_wf_def) (simp add: payload_def)

lemma take_drop_copy:
  assumes "p + n \<le> length d" and "k + length xs \<le> n"
  shows "take n (drop p (take (p + k) d @ xs @ drop (p + k + length xs) d))
    = take k (take n (drop p d)) @ xs @ drop (k + length xs) (take n (drop p d))"
proof (rule nth_equalityI)
  show "length (take n (drop p (take (p + k) d @ xs @ drop (p + k + length xs) d)))
    = length (take k (take n (drop p d)) @ xs @ drop (k + length xs) (take n (drop p d)))"
    using assms by simp
next
  fix i assume "i < length (take n (drop p (take (p + k) d @ xs @ drop (p + k + length xs) d)))"
  then have "i < n" by (simp only: length_take min_less_iff_conj)
  moreover have "drop (k + length xs) (take n (drop p d)) ! (i - (k + length xs)) = d ! (p + i)"
    if "k + length xs \<le> i" "i < n"
    using assms that by (subst nth_drop) simp_all
  ultimately show "take n (drop p (take (p + k) d @ xs @ drop (p + k + length xs) d)) ! i
    = (take k (take n (drop p d)) @ xs @ drop (k + length xs) (take n (drop p d))) ! i"
    using assms by (auto simp: nth_append min_def)
qed

text \<open>Bytes written into the packet, in front of the place \<open>k + length xs\<close> of it.\<close>

lemma payload_copy:
  assumes wf: "buf_wf b" and k: "k + length xs \<le> ZB_BUF_LEN b"
  shows "\<exists>d. arr_copy (data_buf b) (ZB_BUF_BEGIN b + k) xs = Some d \<and> buf_wf (b\<lparr>data_buf := d\<rparr>)
    \<and> payload (b\<lparr>data_buf := d\<rparr>) = take k (payload b) @ xs @ drop (k + length xs) (payload b)"
proof -
  let ?p = "ZB_BUF_BEGIN b" and ?n = "ZB_BUF_LEN b"
  let ?d = "take (?p + k) (data_buf b) @ xs @ drop (?p + k + length xs) (data_buf b)"
  have fit: "?p + ?n \<le> length (data_buf b)" using wf by (simp add: buf_wf_def)
  have c: "arr_copy (data_buf b) (?p + k) xs = Some ?d" using fit k by (simp add: arr_copy_def)
  have B: "ZB_BUF_BEGIN (b\<lparr>data_buf := ?d\<rparr>) = ?p" "ZB_BUF_LEN (b\<lparr>data_buf := ?d\<rparr>) = ?n"
    by (simp_all add: ZB_BUF_BEGIN_def ZB_BUF_LEN_def)
  have "length ?d = length (data_buf b)" using fit k by simp
  then have "buf_wf (b\<lparr>data_buf := ?d\<rparr>)" using wf unfolding buf_wf_def B by simp
  moreover have "payload (b\<lparr>data_buf := ?d\<rparr>) = take k (payload b) @ xs @ drop (k + length xs) (payload b)"
    unfolding payload_def B using take_drop_copy [OF fit k] by simp
  ultimately show ?thesis using c by blast
qed

lemma payload_put:
  assumes wf: "buf_wf b" and p: "payload b = u @ v @ w" and len: "length xs = length v" and k: "k = ZB_BUF_BEGIN b + length u"
  shows "\<exists>d. arr_copy (data_buf b) k xs = Some d \<and> buf_wf (b\<lparr>data_buf := d\<rparr>) \<and> payload (b\<lparr>data_buf := d\<rparr>) = u @ xs @ w"
proof -
  have "length u + length xs \<le> ZB_BUF_LEN b" using length_payload [OF wf] p len by simp
  from payload_copy [OF wf this] show ?thesis using p len k by auto
qed

lemma payload_read:
  assumes wf: "buf_wf b" and p: "payload b = u @ v @ w" and n: "n = length v" and k: "k = ZB_BUF_BEGIN b + length u"
  shows "buf_read (data_buf b) k n = Some v"
  using payload_holds [OF wf] n k unfolding p by (simp add: holds_append buf_read_holds)

lemma payload_get:
  assumes wf: "buf_wf b" and p: "payload b = u @ [x] @ w" and k: "k = ZB_BUF_BEGIN b + length u"
  shows "arr_get (data_buf b) k = Some x"
  using payload_holds [OF wf] k unfolding p holds_append by (intro arr_get_holds) simp

lemma begin_len_data [simp]: "ZB_BUF_BEGIN (b\<lparr>data_buf := d\<rparr>) = ZB_BUF_BEGIN b" "ZB_BUF_LEN (b\<lparr>data_buf := d\<rparr>) = ZB_BUF_LEN b"
  by (simp_all add: ZB_BUF_BEGIN_def ZB_BUF_LEN_def)

section \<open>The layout of a secured frame\<close>

text \<open>Header, auxiliary header and body.\<close>

definition aux_bytes :: "u8 \<Rightarrow> u8 list \<Rightarrow> zb_ieee_addr \<Rightarrow> u8 \<Rightarrow> u8 list" where
  "aux_bytes sc ctr ieee sn = [sc] @ ctr @ ieee @ [sn]"

definition hdr_wf :: "u8 list \<Rightarrow> bool" where
  "hdr_wf h \<longleftrightarrow> 8 \<le> length h \<and> zb_nwk_hdr_size (take 2 h) = length h + 14"

lemma length_aux [simp]: "length ctr = 4 \<Longrightarrow> length ieee = 8 \<Longrightarrow> length (aux_bytes sc ctr ieee sn) = 14"
  by (simp add: aux_bytes_def)

lemma length_htole32 [simp]: "length (ZB_HTOLE32 c) = 4"
  by (simp add: ZB_HTOLE32_def)

lemma le32_roundtrip [simp]: "ZB_LETOH32 (ZB_HTOLE32 v) = v"
proof (rule bit_eqI)
  fix n assume "possible_bit TYPE(32 word) n"
  then have n: "n < 32" by simp
  consider "n < 8" | "8 \<le> n" "n < 16" | "16 \<le> n" "n < 24" | "24 \<le> n" by linarith
  then show "bit (ZB_LETOH32 (ZB_HTOLE32 v)) n \<longleftrightarrow> bit v n"
    using n unfolding ZB_LETOH32_def ZB_HTOLE32_def by cases (auto simp: bit_simps)
qed

lemma aux_place_at: "zb_nwk_hdr_size fc = k + 14 \<Longrightarrow> aux_place p (zb_nwk_hdr_size fc) = Some (p + k)"
  by (simp add: aux_place_def sizeof_aux_hdr_def)

section \<open>Securing\<close>

text \<open>The body of a secured frame: the encrypted text and its tag.\<close>

definition sealed :: "u8 list \<Rightarrow> u8 list \<Rightarrow> u8 list \<Rightarrow> u8 list \<Rightarrow> u8 list" where
  "sealed key nonce a m = encrypt_blocks key nonce 1 m
     @ take 4 (xor16 (aes128 key (ccm_counter nonce 0)) (pad16 (take 4 (auth_trans 4 key nonce a m))))"

lemma length_sealed [simp]: "length key = 16 \<Longrightarrow> length (sealed key nonce a m) = length m + 4"
  by (simp add: sealed_def)

lemma ccm_encrypt_payload:
  assumes "length key = 16" and "buf_wf b" and "length a + length m + 4 \<le> 125"
  shows "\<exists>b'. zb_ccm_encrypt_n_auth key nonce a m b = Some (RET_OK, b') \<and> buf_wf b' \<and> payload b' = a @ sealed key nonce a m"
proof -
  obtain b' pre post where e: "zb_ccm_encrypt_n_auth key nonce a m b = Some (RET_OK, b')" "buf_wf b'"
    "ZB_BUF_BEGIN b' = length pre" "ZB_BUF_LEN b' = length a + length m + 4"
    and d: "data_buf b' = pre @ a @ encrypt_blocks key nonce 1 m
      @ xor16 (aes128 key (ccm_counter nonce 0)) (pad16 (take 4 (auth_trans 4 key nonce a m))) @ post"
    using ccm_encrypt_run [OF assms, of nonce] by blast
  have "payload b' = a @ sealed key nonce a m"
    using e(3,4) assms(1) unfolding payload_def d sealed_def by simp
  with e show ?thesis by blast
qed

definition aux_in :: "'cb sec_g \<Rightarrow> u8 list" where
  "aux_in g = aux_bytes ZB_NWK_STD_SECUR_CONTROL (ZB_HTOLE32 (outgoing_frame_counter g)) (mac_extended_address g)
     (active_key_seq_number g)"

definition own_nonce :: "'cb sec_g \<Rightarrow> u8 list" where
  "own_nonce g = ccm_nonce (mac_extended_address g) (ZB_HTOLE32 (outgoing_frame_counter g)) ZB_NWK_STD_SECUR_CONTROL"

text \<open>The auxiliary header filled in before the frame is encrypted.\<close>

lemma secure_fill:
  assumes wf: "buf_wf src" and p: "payload src = mh @ (h @ aux_bytes sc ctr ieee sn) @ m"
    and l: "length ctr = 4" "length ieee = 8" "length ext = 8" and h: "hdr_wf h"
  shows "\<exists>d1 d2 d3 d4. arr_set (data_buf src) (ZB_BUF_BEGIN src + length mh + length h) ZB_NWK_STD_SECUR_CONTROL = Some d1
    \<and> arr_get d1 (ZB_BUF_BEGIN src + length mh + length h + 13) = Some sn
    \<and> arr_copy d1 (ZB_BUF_BEGIN src + length mh + length h + 1) (ZB_HTOLE32 c) = Some d2
    \<and> arr_set d2 (ZB_BUF_BEGIN src + length mh + length h + 13) sn' = Some d3
    \<and> arr_copy d3 (ZB_BUF_BEGIN src + length mh + length h + 5) ext = Some d4
    \<and> buf_wf (src\<lparr>data_buf := d4\<rparr>)
    \<and> payload (src\<lparr>data_buf := d4\<rparr>) = mh @ (h @ aux_bytes ZB_NWK_STD_SECUR_CONTROL (ZB_HTOLE32 c) ext sn') @ m"
proof -
  let ?B = "ZB_BUF_BEGIN src + length mh + length h"
  have p0: "payload src = (mh @ h) @ [sc] @ (ctr @ ieee @ [sn] @ m)" using p by (simp add: aux_bytes_def)
  obtain d1 where d1: "arr_copy (data_buf src) ?B [ZB_NWK_STD_SECUR_CONTROL] = Some d1" and w1: "buf_wf (src\<lparr>data_buf := d1\<rparr>)"
    and p1: "payload (src\<lparr>data_buf := d1\<rparr>) = (mh @ h) @ [ZB_NWK_STD_SECUR_CONTROL] @ (ctr @ ieee @ [sn] @ m)"
    using payload_put [OF wf p0, of "[ZB_NWK_STD_SECUR_CONTROL]" ?B] by auto
  have g1: "arr_get d1 (?B + 13) = Some sn"
    using payload_get [OF w1, of "mh @ h @ [ZB_NWK_STD_SECUR_CONTROL] @ ctr @ ieee" sn m "?B + 13"] p1 l by simp
  have p1': "payload (src\<lparr>data_buf := d1\<rparr>) = (mh @ h @ [ZB_NWK_STD_SECUR_CONTROL]) @ ctr @ (ieee @ [sn] @ m)" using p1 by simp
  obtain d2 where d2: "arr_copy d1 (?B + 1) (ZB_HTOLE32 c) = Some d2" and w2: "buf_wf (src\<lparr>data_buf := d2\<rparr>)"
    and p2: "payload (src\<lparr>data_buf := d2\<rparr>) = (mh @ h @ [ZB_NWK_STD_SECUR_CONTROL]) @ ZB_HTOLE32 c @ (ieee @ [sn] @ m)"
    using payload_put [OF w1 p1', of "ZB_HTOLE32 c" "?B + 1"] l by auto
  have p2': "payload (src\<lparr>data_buf := d2\<rparr>) = (mh @ h @ [ZB_NWK_STD_SECUR_CONTROL] @ ZB_HTOLE32 c @ ieee) @ [sn] @ m"
    using p2 by simp
  obtain d3 where d3: "arr_copy d2 (?B + 13) [sn'] = Some d3" and w3: "buf_wf (src\<lparr>data_buf := d3\<rparr>)"
    and p3: "payload (src\<lparr>data_buf := d3\<rparr>) = (mh @ h @ [ZB_NWK_STD_SECUR_CONTROL] @ ZB_HTOLE32 c @ ieee) @ [sn'] @ m"
    using payload_put [OF w2 p2', of "[sn']" "?B + 13"] l by auto
  have p3': "payload (src\<lparr>data_buf := d3\<rparr>) = (mh @ h @ [ZB_NWK_STD_SECUR_CONTROL] @ ZB_HTOLE32 c) @ ieee @ ([sn'] @ m)"
    using p3 by simp
  obtain d4 where d4: "arr_copy d3 (?B + 5) ext = Some d4" and w4: "buf_wf (src\<lparr>data_buf := d4\<rparr>)"
    and p4: "payload (src\<lparr>data_buf := d4\<rparr>) = (mh @ h @ [ZB_NWK_STD_SECUR_CONTROL] @ ZB_HTOLE32 c) @ ext @ ([sn'] @ m)"
    using payload_put [OF w3 p3', of ext "?B + 5"] l by auto
  have "payload (src\<lparr>data_buf := d4\<rparr>) = mh @ (h @ aux_bytes ZB_NWK_STD_SECUR_CONTROL (ZB_HTOLE32 c) ext sn') @ m"
    using p4 by (simp add: aux_bytes_def)
  with d1 g1 d2 d3 d4 w4 show ?thesis by (intro exI [of _ d1] exI [of _ d2] exI [of _ d3] exI [of _ d4]) (simp add: arr_set_copy)
qed

lemma begin_hdr [simp]: "ZB_BUF_BEGIN (b\<lparr>data_buf := d\<rparr>) = ZB_BUF_BEGIN b"
  by (simp add: ZB_BUF_BEGIN_def)

text \<open>The MAC header copied in front of the encrypted frame, and the level of security cleared.\<close>

lemma secure_wrap:
  assumes wf: "buf_wf b" and p: "payload b = (h @ aux_bytes sc ctr ieee sn) @ body" and l: "length ctr = 4" "length ieee = 8"
    and n: "length mh + ZB_BUF_LEN b < ZB_IO_BUF_SIZE"
  shows "\<exists>b1 d1 d2. zb_buf_smart_alloc_left b (of_nat (length mh)) = Some (b1, ZB_BUF_BEGIN b1)
    \<and> arr_copy (data_buf b1) (ZB_BUF_BEGIN b1) mh = Some d1
    \<and> arr_set d1 (ZB_BUF_BEGIN b1 + (length mh + length h)) v = Some d2
    \<and> buf_wf (b1\<lparr>data_buf := d2\<rparr>) \<and> payload (b1\<lparr>data_buf := d2\<rparr>) = mh @ (h @ aux_bytes v ctr ieee sn) @ body"
proof -
  have u: "unat (of_nat (length mh) :: u8) = length mh"
    by (rule unat_of_nat_lt) (use n in \<open>simp add: ZB_IO_BUF_SIZE_def\<close>)
  obtain b1 where b1: "zb_buf_smart_alloc_left b (of_nat (length mh)) = Some (b1, ZB_BUF_BEGIN b1)" "buf_wf b1"
    "ZB_BUF_LEN b1 = ZB_BUF_LEN b + length mh" "drop (length mh) (payload b1) = payload b"
    using alloc_left_ok [OF wf, of "of_nat (length mh)"] n u by auto
  have p1: "payload b1 = [] @ take (length mh) (payload b1) @ payload b" using append_take_drop_id [of "length mh" "payload b1"] b1(4) by simp
  have l1: "length (take (length mh) (payload b1)) = length mh" using b1(2,3) by simp
  obtain d1 where d1: "arr_copy (data_buf b1) (ZB_BUF_BEGIN b1) mh = Some d1" and w1: "buf_wf (b1\<lparr>data_buf := d1\<rparr>)"
    and q1: "payload (b1\<lparr>data_buf := d1\<rparr>) = mh @ payload b"
    using payload_put [OF b1(2) p1, of mh] l1 by auto
  have q1': "payload (b1\<lparr>data_buf := d1\<rparr>) = (mh @ h) @ [sc] @ (ctr @ ieee @ [sn] @ body)"
    using q1 p by (simp add: aux_bytes_def)
  obtain d2 where d2: "arr_copy d1 (ZB_BUF_BEGIN b1 + (length mh + length h)) [v] = Some d2" and w2: "buf_wf (b1\<lparr>data_buf := d2\<rparr>)"
    and q2: "payload (b1\<lparr>data_buf := d2\<rparr>) = (mh @ h) @ [v] @ (ctr @ ieee @ [sn] @ body)"
    using payload_put [OF w1 q1', of "[v]" "ZB_BUF_BEGIN b1 + (length mh + length h)"] by auto
  have "payload (b1\<lparr>data_buf := d2\<rparr>) = mh @ (h @ aux_bytes v ctr ieee sn) @ body"
    using q2 by (simp add: aux_bytes_def)
  with b1 d1 d2 w2 show ?thesis by (intro exI [of _ b1] exI [of _ d1] exI [of _ d2]) (simp add: arr_set_copy)
qed

text \<open>Securing a frame whose size leaves room for the tag, with an active key.\<close>

lemma secure_ok:
  fixes g :: "'cb sec_g"
  assumes keys: "keys_inv g" "secur_nwk_key_by_seq (active_key_seq_number g) g = Some (Some k)"
    and own: "length (mac_extended_address g) = 8"
    and src: "buf_wf src" "payload src = mh @ (h @ aux_bytes sc ctr ieee sn) @ m" "use_same_key (hdr src) = 0"
    and l: "length ctr = 4" "length ieee = 8" and h: "hdr_wf h"
    and dst: "buf_wf dst" and size: "length h + 14 + length m + 4 \<le> 125" "length mh + length h + 18 + length m < ZB_IO_BUF_SIZE"
    and sw: "\<not> (is_tc g \<and> outgoing_frame_counter g + 1 = ZB_SECUR_NWK_COUNTER_LIMIT)"
  shows "\<exists>src' dst'. zb_nwk_secure_frame cb src (length mh) dst g
      = Some (RET_OK, src', dst', g\<lparr>outgoing_frame_counter := outgoing_frame_counter g + 1\<rparr>)
    \<and> buf_wf dst' \<and> payload dst' = mh
        @ (h @ aux_bytes ZB_NWK_STD_SECUR_CONTROL_ZEROED_LEVEL (ZB_HTOLE32 (outgoing_frame_counter g)) (mac_extended_address g)
                (active_key_seq_number g))
        @ sealed (ms_key (secur_material_set g ! k)) (own_nonce g) (h @ aux_in g) m"
proof -
  let ?c = "outgoing_frame_counter g" and ?sn = "active_key_seq_number g" and ?ext = "mac_extended_address g"
  let ?g = "g\<lparr>outgoing_frame_counter := ?c + 1\<rparr>"
  let ?B = "ZB_BUF_BEGIN src + length mh + length h"
  let ?a = "h @ aux_bytes ZB_NWK_STD_SECUR_CONTROL (ZB_HTOLE32 ?c) ?ext ?sn"
  let ?key = "ms_key (secur_material_set g ! k)"
  have k: "k < 3" "length ?key = 16" "length (secur_material_set g) = 3"
    using key_by_seq_ok [OF keys(1), of ?sn] keys by (auto simp: keys_inv_def)
  obtain d1 d2 d3 d4 where fill: "arr_set (data_buf src) ?B ZB_NWK_STD_SECUR_CONTROL = Some d1" "arr_get d1 (?B + 13) = Some sn"
    "arr_copy d1 (?B + 1) (ZB_HTOLE32 ?c) = Some d2" "arr_set d2 (?B + 13) ?sn = Some d3" "arr_copy d3 (?B + 5) ?ext = Some d4"
    and w: "buf_wf (src\<lparr>data_buf := d4\<rparr>)" and p: "payload (src\<lparr>data_buf := d4\<rparr>) = mh @ ?a @ m"
    using secure_fill [OF src(1,2) l own h, of ?c ?sn] by (elim exE conjE) (rule that)
  let ?s = "src\<lparr>data_buf := d4\<rparr>"
  have la: "length ?a = length h + 14" using own by simp
  have hs: "zb_nwk_hdr_size (take 2 h) = length h + 14" "2 \<le> length h" using h by (simp_all add: hdr_wf_def)
  have "payload src = mh @ take 2 h @ (drop 2 h @ aux_bytes sc ctr ieee sn @ m)" using src(2) by simp
  then have fc: "buf_read (data_buf src) (ZB_BUF_BEGIN src + length mh) 2 = Some (take 2 h)"
    by (rule payload_read [OF src(1)]) (use hs in simp_all)
  have len: "ZB_BUF_LEN src = length mh + (length h + 14) + length m"
    using length_payload [OF src(1)] src(2) l by simp
  have ra: "buf_read d4 (ZB_BUF_BEGIN src + length mh) (length h + 14) = Some ?a"
    using payload_read [OF w p] la by simp
  have rm: "buf_read d4 (ZB_BUF_BEGIN src + length mh + (length h + 14)) (length m) = Some m"
    using payload_read [OF w, of "mh @ ?a" m "[]"] p la by (simp add: add.assoc)
  have rh: "buf_read d4 (ZB_BUF_BEGIN src) (length mh) = Some mh"
    using payload_read [OF w, of "[]" mh "?a @ m"] p by simp
  obtain e where e: "zb_ccm_encrypt_n_auth ?key (own_nonce g) ?a m dst = Some (RET_OK, e)" "buf_wf e"
    "payload e = ?a @ sealed ?key (own_nonce g) ?a m"
    using ccm_encrypt_payload [OF k(2) dst, of ?a m "own_nonce g"] size(1) la by auto
  have le: "length mh + ZB_BUF_LEN e < ZB_IO_BUF_SIZE"
    using length_payload [OF e(2)] e(3) la k(2) size(2) by simp
  obtain b1 d5 d6 where wr: "zb_buf_smart_alloc_left e (of_nat (length mh)) = Some (b1, ZB_BUF_BEGIN b1)"
    "arr_copy (data_buf b1) (ZB_BUF_BEGIN b1) mh = Some d5"
    "arr_set d5 (ZB_BUF_BEGIN b1 + (length mh + length h)) ZB_NWK_STD_SECUR_CONTROL_ZEROED_LEVEL = Some d6"
    "buf_wf (b1\<lparr>data_buf := d6\<rparr>)"
    "payload (b1\<lparr>data_buf := d6\<rparr>) = mh @ (h @ aux_bytes ZB_NWK_STD_SECUR_CONTROL_ZEROED_LEVEL (ZB_HTOLE32 ?c) ?ext ?sn)
       @ sealed ?key (own_nonce g) ?a m"
    using secure_wrap [OF e(2,3) length_htole32 own le, of ZB_NWK_STD_SECUR_CONTROL_ZEROED_LEVEL] by (elim exE conjE) (rule that)
  have B: "aux_place (ZB_BUF_BEGIN src + length mh) (length h + 14) = Some ?B"
    using aux_place_at [of "take 2 h" "length h"] hs by simp
  have kk: "secur_nwk_key_by_seq ?sn ?g = Some (Some k)" using keys(2) key_by_seq_cong [of ?g g] by simp
  have own_n: "ccm_nonce (take 8 ?ext) (ZB_HTOLE32 ?c) ZB_NWK_STD_SECUR_CONTROL = own_nonce g" using own by (simp add: own_nonce_def)
  have "zb_nwk_secure_frame cb src (length mh) dst g = Some (RET_OK, ?s, b1\<lparr>data_buf := d6\<rparr>, ?g)"
    unfolding zb_nwk_secure_frame_def Let_def
    using fc hs(1) B fill own kk k ra rm rh e(1) wr(1-3) len sw own_n src(3)
    by (auto simp: secure_counter_def)
  with wr(4,5) show ?thesis unfolding aux_in_def by blast
qed

section \<open>Nonces\<close>

text \<open>The security state a buffer operation leaves alone.\<close>

definition same_sec :: "('cb, 'w) sec_g_scheme \<Rightarrow> ('cb, 'w) sec_g_scheme \<Rightarrow> bool" where
  "same_sec g g' \<longleftrightarrow> secur_material_set g' = secur_material_set g \<and> active_secur_material_i g' = active_secur_material_i g
     \<and> active_key_seq_number g' = active_key_seq_number g \<and> outgoing_frame_counter g' = outgoing_frame_counter g
     \<and> mac_extended_address g' = mac_extended_address g \<and> is_tc g' = is_tc g \<and> snwk g' = snwk g
     \<and> authenticated g' = authenticated g"

lemma get_buf_sec: "zb_get_buf d g = Some (r, g') \<Longrightarrow> same_sec g g'"
  by (auto simp: zb_get_buf_def Let_def bind_eq_Some_conv same_sec_def split: if_splits option.splits)

lemma schedule_callback_sec: "zb_schedule_callback f p g = Some (r, g') \<Longrightarrow> same_sec g g' \<and> bpool g' = bpool g"
  by (auto simp: zb_schedule_callback_def bind_eq_Some_conv same_sec_def split: option.splits)

lemma same_sec_refl [simp]: "same_sec g g"
  by (simp add: same_sec_def)

lemma same_sec_trans: "same_sec g g' \<Longrightarrow> same_sec g' g'' \<Longrightarrow> same_sec g g''"
  by (simp add: same_sec_def)

lemma get_delayed_sec:
  assumes "zb_get_out_buf_delayed cb g = Some (r, g')"
  shows "same_sec g g'"
proof -
  obtain b g1 where g1: "zb_get_buf 0 g = Some (b, g1)"
    using assms by (cases "zb_get_buf 0 g") (auto simp: zb_get_out_buf_delayed_def zb_get_buf_delayed_def)
  have "same_sec g1 g'"
  proof (cases b)
    case (Some i)
    then show ?thesis using assms g1 schedule_callback_sec
      by (fastforce simp: zb_get_out_buf_delayed_def zb_get_buf_delayed_def)
  next
    case None
    then show ?thesis using assms g1
      by (auto simp: zb_get_out_buf_delayed_def zb_get_buf_delayed_def Let_def same_sec_def bind_eq_Some_conv
          case_prod_unfold split: option.split_asm)
  qed
  with get_buf_sec [OF g1] same_sec_trans show ?thesis by blast
qed

text \<open>A frame with a MAC header of \<open>n\<close> bytes that is to be secured with the active key.\<close>

definition nwk_src :: "zb_buf_t \<Rightarrow> nat \<Rightarrow> bool" where
  "nwk_src b n \<longleftrightarrow> buf_wf b \<and> use_same_key (hdr b) = 0
     \<and> (\<exists>mh h sc ctr ieee sn m. payload b = mh @ (h @ aux_bytes sc ctr ieee sn) @ m \<and> length mh = n
          \<and> length ctr = 4 \<and> length ieee = 8 \<and> hdr_wf h)"

text \<open>The nonce a frame is secured with, read from its auxiliary header as the receiver does.\<close>

definition sent_nonce :: "zb_buf_t \<Rightarrow> nat \<Rightarrow> u8 list option" where
  "sent_nonce b n = do {
     fc \<leftarrow> buf_read (data_buf b) (ZB_BUF_BEGIN b + n) 2;
     aux \<leftarrow> aux_place (ZB_BUF_BEGIN b + n) (zb_nwk_hdr_size fc);
     ieee \<leftarrow> buf_read (data_buf b) (aux + 5) 8;
     c \<leftarrow> buf_read (data_buf b) (aux + 1) 4;
     Some (ccm_nonce ieee c ZB_NWK_STD_SECUR_CONTROL) }"

lemma sent_nonce_at:
  assumes wf: "buf_wf b" and p: "payload b = mh @ (h @ aux_bytes sc ctr ieee sn) @ m"
    and l: "length ctr = 4" "length ieee = 8" and h: "hdr_wf h"
  shows "sent_nonce b (length mh) = Some (ccm_nonce ieee ctr ZB_NWK_STD_SECUR_CONTROL)"
proof -
  have hs: "zb_nwk_hdr_size (take 2 h) = length h + 14" "2 \<le> length h" using h by (simp_all add: hdr_wf_def)
  have "payload b = mh @ take 2 h @ (drop 2 h @ aux_bytes sc ctr ieee sn @ m)" using p by simp
  then have fc: "buf_read (data_buf b) (ZB_BUF_BEGIN b + length mh) 2 = Some (take 2 h)"
    by (rule payload_read [OF wf]) (use hs in simp_all)
  let ?B = "ZB_BUF_BEGIN b + length mh + length h"
  have "payload b = (mh @ h @ [sc] @ ctr) @ ieee @ ([sn] @ m)" using p by (simp add: aux_bytes_def)
  then have "buf_read (data_buf b) (?B + 5) 8 = Some ieee" by (rule payload_read [OF wf]) (use l in simp_all)
  moreover have "payload b = (mh @ h @ [sc]) @ ctr @ (ieee @ [sn] @ m)" using p by (simp add: aux_bytes_def)
  then have "buf_read (data_buf b) (?B + 1) 4 = Some ctr" by (rule payload_read [OF wf]) (use l in simp_all)
  moreover have "aux_place (ZB_BUF_BEGIN b + length mh) (length h + 14) = Some ?B"
    using aux_place_at [of "take 2 h" "length h"] hs by simp
  ultimately show ?thesis using fc hs by (simp add: sent_nonce_def)
qed

lemma secure_step:
  assumes src: "nwk_src src n" and own: "length (mac_extended_address g) = 8"
    and run: "zb_nwk_secure_frame cb src n dst g = Some (ret, src', dst', g')"
  shows "sent_nonce src' n = Some (own_nonce g) \<and> outgoing_frame_counter g' = outgoing_frame_counter g + 1
    \<and> mac_extended_address g' = mac_extended_address g \<and> secur_material_set g' = secur_material_set g
    \<and> active_key_seq_number g' = active_key_seq_number g \<and> active_secur_material_i g' = active_secur_material_i g"
proof -
  obtain mh h sc ctr ieee sn m where wf: "buf_wf src" and s: "use_same_key (hdr src) = 0"
    and p: "payload src = mh @ (h @ aux_bytes sc ctr ieee sn) @ m" and n: "n = length mh"
    and l: "length ctr = 4" "length ieee = 8" and h: "hdr_wf h"
    using src unfolding nwk_src_def by blast
  let ?B = "ZB_BUF_BEGIN src + length mh + length h" and ?c = "outgoing_frame_counter g"
  obtain d1 d2 d3 d4 where fill: "arr_set (data_buf src) ?B ZB_NWK_STD_SECUR_CONTROL = Some d1" "arr_get d1 (?B + 13) = Some sn"
    "arr_copy d1 (?B + 1) (ZB_HTOLE32 ?c) = Some d2" "arr_set d2 (?B + 13) (active_key_seq_number g) = Some d3"
    "arr_copy d3 (?B + 5) (mac_extended_address g) = Some d4"
    and w: "buf_wf (src\<lparr>data_buf := d4\<rparr>)"
    and q: "payload (src\<lparr>data_buf := d4\<rparr>) = mh @ (h @ aux_bytes ZB_NWK_STD_SECUR_CONTROL (ZB_HTOLE32 ?c)
              (mac_extended_address g) (active_key_seq_number g)) @ m"
    using secure_fill [OF wf p l own h, of ?c "active_key_seq_number g"] by (elim exE conjE) (rule that)
  have hs: "zb_nwk_hdr_size (take 2 h) = length h + 14" "2 \<le> length h" using h by (simp_all add: hdr_wf_def)
  have "payload src = mh @ take 2 h @ (drop 2 h @ aux_bytes sc ctr ieee sn @ m)" using p by simp
  then have fc: "buf_read (data_buf src) (ZB_BUF_BEGIN src + length mh) 2 = Some (take 2 h)"
    by (rule payload_read [OF wf]) (use hs in simp_all)
  have B: "aux_place (ZB_BUF_BEGIN src + length mh) (length h + 14) = Some ?B"
    using aux_place_at [of "take 2 h" "length h"] hs by simp
  let ?g = "g\<lparr>outgoing_frame_counter := ?c + 1\<rparr>"
  have "src' = src\<lparr>data_buf := d4\<rparr> \<and> same_sec ?g g'"
    using run fc hs(1) B fill s own unfolding n zb_nwk_secure_frame_def Let_def
    by (auto simp: secure_counter_def bind_eq_Some_conv dest!: get_delayed_sec split: option.split_asm if_split_asm)
  then show ?thesis
    using sent_nonce_at [OF w q length_htole32 own h] unfolding n by (simp add: same_sec_def own_nonce_def)
qed

text \<open>A sequence of frames secured one after the other, with the nonce of each.\<close>

fun secure_all :: "'cb \<Rightarrow> (zb_buf_t \<times> nat \<times> zb_buf_t) list \<Rightarrow> 'cb sec_g \<Rightarrow> (u8 list list \<times> 'cb sec_g) option" where
  "secure_all cb [] g = Some ([], g)"
| "secure_all cb ((src, n, dst) # fs) g = do {
     (ret, src', dst', g) \<leftarrow> zb_nwk_secure_frame cb src n dst g;
     nonce \<leftarrow> sent_nonce src' n;
     (ns, g) \<leftarrow> secure_all cb fs g;
     Some (nonce # ns, g) }"

lemma secure_all_nonces:
  "secure_all cb fs g = Some (ns, g') \<Longrightarrow> \<forall>(src, n, dst) \<in> set fs. nwk_src src n \<Longrightarrow> length (mac_extended_address g) = 8
    \<Longrightarrow> ns = map (\<lambda>i. ccm_nonce (mac_extended_address g) (ZB_HTOLE32 (outgoing_frame_counter g + of_nat i)) ZB_NWK_STD_SECUR_CONTROL)
          [0..<length fs] \<and> secur_material_set g' = secur_material_set g \<and> active_key_seq_number g' = active_key_seq_number g
        \<and> active_secur_material_i g' = active_secur_material_i g \<and> mac_extended_address g' = mac_extended_address g"
proof (induction fs arbitrary: g ns)
  case (Cons f fs)
  obtain src n dst where f: "f = (src, n, dst)" by (cases f)
  obtain ret src' dst' g1 nonce ns1 where run: "zb_nwk_secure_frame cb src n dst g = Some (ret, src', dst', g1)"
    "sent_nonce src' n = Some nonce" "secure_all cb fs g1 = Some (ns1, g')" and ns: "ns = nonce # ns1"
    using Cons.prems(1) unfolding f by (auto simp: bind_eq_Some_conv)
  have "nwk_src src n" using Cons.prems(2) f by simp
  note s = secure_step [OF this Cons.prems(3) run(1)]
  have "map (\<lambda>i. ccm_nonce e (ZB_HTOLE32 (c + of_nat i)) x) [0..<Suc k]
      = ccm_nonce e (ZB_HTOLE32 c) x # map (\<lambda>i. ccm_nonce e (ZB_HTOLE32 (c + 1 + of_nat i)) x) [0..<k]" for e c x k
    by (simp add: map_upt_Suc add.assoc del: upt_Suc)
  with s Cons.IH [OF run(3)] Cons.prems(2,3) run(2) ns show ?case by (simp add: own_nonce_def del: upt_Suc)
qed simp

section \<open>Concrete states\<close>

text \<open>A buffer that holds given bytes, and a device with three keys.\<close>

definition buf_of :: "u8 list \<Rightarrow> zb_buf_t" where
  "buf_of xs = \<lparr>hdr = hdr_zero\<lparr>hdr_len := of_nat (length xs), data_offset := 20\<rparr>,
     data_buf = replicate 20 0 @ xs @ replicate (128 - length xs) 0\<rparr>"

lemma buf_of_ok:
  assumes "length xs \<le> 128"
  shows "buf_wf (buf_of xs)" "payload (buf_of xs) = xs" "use_same_key (hdr (buf_of xs)) = 0"
    "ZB_BUF_BEGIN (buf_of xs) = 20" "ZB_BUF_LEN (buf_of xs) = length xs"
proof -
  have "unat (of_nat (length xs) :: u8) = length xs" by (rule unat_of_nat_lt) (use assms in simp)
  then show "ZB_BUF_BEGIN (buf_of xs) = 20" "ZB_BUF_LEN (buf_of xs) = length xs"
    by (simp_all add: buf_of_def ZB_BUF_BEGIN_def ZB_BUF_LEN_def)
  with assms show "buf_wf (buf_of xs)" "payload (buf_of xs) = xs"
    by (simp_all add: buf_wf_def payload_def ZB_IO_BUF_SIZE_def) (simp_all add: buf_of_def)
  show "use_same_key (hdr (buf_of xs)) = 0" by (simp add: buf_of_def hdr_zero_def)
qed

definition sec_default :: "nat sec_g" where
  "sec_default = \<lparr>sched = sched sched_cleared, time = time sched_cleared, bpool = bpool bufs_init, rx_need_buf = 0,
     snwk = nwk_default,
     secur_material_set = [\<lparr>ms_key = replicate 16 1, ms_key_seq_number = 0\<rparr>, \<lparr>ms_key = replicate 16 2, ms_key_seq_number = 1\<rparr>,
       \<lparr>ms_key = replicate 16 3, ms_key_seq_number = 2\<rparr>],
     active_secur_material_i = 0, active_key_seq_number = 0, outgoing_frame_counter = 0, prev_outgoing_frame_counter = 0,
     is_tc = True, authenticated = True, mac_extended_address = [8, 7, 6, 5, 4, 3, 2, 1]\<rparr>"

lemma sec_default_keys:
  "keys_inv sec_default" "three_keys (replicate 16 1) (replicate 16 2) (replicate 16 3) sec_default"
  "length (mac_extended_address sec_default) = 8"
  by (simp_all add: keys_inv_def three_keys_def sec_default_def)

lemma three_keys_zero: "three_keys k0 k1 k2 g \<Longrightarrow> secur_nwk_key_by_seq 0 g = Some (Some 0)"
  by (simp add: three_keys_def secur_nwk_key_by_seq_def ZB_SECUR_N_SECUR_MATERIAL_def three_Suc)

text \<open>A data frame with an empty auxiliary header and three bytes of data.\<close>

definition plain_hdr :: "u8 list" where
  "plain_hdr = [0x08, 0x02, 0x34, 0x12, 1, 0, 1, 7]"

definition plain_frame :: zb_buf_t where
  "plain_frame = buf_of ([] @ (plain_hdr @ aux_bytes 0 [0, 0, 0, 0] (replicate 8 0) 0) @ [1, 2, 3])"

lemma plain_hdr_wf: "hdr_wf plain_hdr"
  by (simp add: hdr_wf_def plain_hdr_def zb_nwk_hdr_size_def ZB_NWK_SHORT_HDR_SIZE_def sizeof_aux_hdr_def
      ZB_NWK_FRAMECTL_GET_MULTICAST_FLAG_def ZB_NWK_FRAMECTL_GET_SECURITY_def ZB_NWK_FRAMECTL_GET_DESTINATION_IEEE_def
      ZB_NWK_FRAMECTL_GET_SOURCE_IEEE_def)

lemma nwk_srcI:
  assumes "payload b = mh @ (h @ aux_bytes sc ctr ieee sn) @ m" and "buf_wf b" and "use_same_key (hdr b) = 0"
    and "length ctr = 4" and "length ieee = 8" and "hdr_wf h"
  shows "nwk_src b (length mh)"
  using assms unfolding nwk_src_def by blast

lemma plain_frame_src: "nwk_src plain_frame 0"
proof -
  let ?p = "[] @ (plain_hdr @ aux_bytes 0 [0, 0, 0, 0] (replicate 8 0) 0) @ [1, 2, 3]"
  have "length ?p \<le> 128" by (simp add: plain_hdr_def)
  note b = buf_of_ok [OF this, folded plain_frame_def]
  have "nwk_src plain_frame (length ([] :: u8 list))"
    by (rule nwk_srcI [OF b(2,1,3)]) (simp_all add: plain_hdr_wf)
  then show ?thesis by simp
qed

lemma secure_plain:
  fixes g :: "'cb sec_g"
  assumes "three_keys (replicate 16 1) (replicate 16 2) (replicate 16 3) g" and "length (mac_extended_address g) = 8"
    and "outgoing_frame_counter g + 1 \<noteq> ZB_SECUR_NWK_COUNTER_LIMIT"
  shows "\<exists>src' dst'. zb_nwk_secure_frame cb plain_frame 0 plain_frame g
    = Some (RET_OK, src', dst', g\<lparr>outgoing_frame_counter := outgoing_frame_counter g + 1\<rparr>)"
proof -
  let ?p = "[] @ (plain_hdr @ aux_bytes 0 [0, 0, 0, 0] (replicate 8 0) 0) @ [1, 2, 3]"
  have "length ?p \<le> 128" by (simp add: plain_hdr_def)
  note b = buf_of_ok [OF this, folded plain_frame_def]
  have inv: "keys_inv g" "secur_nwk_key_by_seq (active_key_seq_number g) g = Some (Some 0)"
    using assms(1) three_keys_zero [OF assms(1)] by (auto simp: three_keys_def keys_inv_def)
  have sz: "length plain_hdr + 14 + length [1, 2, 3 :: u8] + 4 \<le> 125"
    "length ([] :: u8 list) + length plain_hdr + 18 + length [1, 2, 3 :: u8] < ZB_IO_BUF_SIZE"
    by (simp_all add: plain_hdr_def ZB_IO_BUF_SIZE_def)
  show ?thesis
    using secure_ok [OF inv assms(2) b(1,2,3) _ _ plain_hdr_wf b(1) sz, of cb] assms(3) by auto
qed

lemma secure_plain_twice:
  "\<exists>ns g'. secure_all 0 [(plain_frame, 0, plain_frame), (plain_frame, 0, plain_frame)] sec_default = Some (ns, g')"
proof -
  let ?g1 = "sec_default\<lparr>outgoing_frame_counter := outgoing_frame_counter sec_default + 1\<rparr>"
  obtain s1 d1 where 1: "zb_nwk_secure_frame 0 plain_frame 0 plain_frame sec_default = Some (RET_OK, s1, d1, ?g1)"
    using secure_plain [OF sec_default_keys(2,3), of 0] by (auto simp: sec_default_def ZB_SECUR_NWK_COUNTER_LIMIT_def)
  have "three_keys (replicate 16 1) (replicate 16 2) (replicate 16 3) ?g1" "length (mac_extended_address ?g1) = 8"
    "outgoing_frame_counter ?g1 + 1 \<noteq> ZB_SECUR_NWK_COUNTER_LIMIT"
    using sec_default_keys by (simp_all add: three_keys_def) (simp add: sec_default_def ZB_SECUR_NWK_COUNTER_LIMIT_def)
  from secure_plain [OF this, of 0] obtain s2 d2 g2
    where 2: "zb_nwk_secure_frame 0 plain_frame 0 plain_frame ?g1 = Some (RET_OK, s2, d2, g2)" by blast
  show ?thesis
    using 1 2 secure_step [OF plain_frame_src sec_default_keys(3) 1] secure_step [OF plain_frame_src _ 2] sec_default_keys(3)
    by simp
qed

section \<open>Nonces of outgoing frames\<close>

text \<open>
  C5. At most \<open>2 ^ 32\<close> frames secured one after the other with the active key, whatever the results, carry
  pairwise different nonces, and the key and its number stay the same over all of them.
\<close>

theorem nonces_distinct:
  assumes "secure_all cb fs g = Some (ns, g')" and "\<forall>(src, n, dst) \<in> set fs. nwk_src src n"
    and "length (mac_extended_address g) = 8" and "length fs \<le> 2 ^ 32"
  shows "length ns = length fs \<and> distinct ns
    \<and> secur_material_set g' = secur_material_set g \<and> active_key_seq_number g' = active_key_seq_number g"
proof -
  let ?f = "\<lambda>i. ccm_nonce (mac_extended_address g) (ZB_HTOLE32 (outgoing_frame_counter g + of_nat i)) ZB_NWK_STD_SECUR_CONTROL"
  note s = secure_all_nonces [OF assms(1-3)]
  have "i = j" if "i < 2 ^ 32" "j < 2 ^ 32" "?f i = ?f j" for i j
  proof -
    have "ZB_HTOLE32 (outgoing_frame_counter g + of_nat i) = ZB_HTOLE32 (outgoing_frame_counter g + of_nat j)"
      using that(3) by (simp add: ccm_nonce_def)
    from arg_cong [OF this, of ZB_LETOH32] have "of_nat i = (of_nat j :: u32)" by simp
    from arg_cong [OF this, of unat] that(1,2) show ?thesis by (simp add: unat_of_nat)
  qed
  with assms(4) have "inj_on ?f {0..<length fs}" by (intro inj_onI) force
  then have "distinct (map ?f [0..<length fs])" by (simp add: distinct_map)
  with s show ?thesis by simp
qed

text \<open>Two copies of a frame, secured one after the other by the device of the example.\<close>

theorem nonces_distinct_witness:
  "\<exists>ns g'. secure_all 0 [(plain_frame, 0, plain_frame), (plain_frame, 0, plain_frame)] sec_default = Some (ns, g')
    \<and> length ns = 2 \<and> distinct ns"
proof -
  obtain ns g' where run: "secure_all 0 [(plain_frame, 0, plain_frame), (plain_frame, 0, plain_frame)] sec_default = Some (ns, g')"
    using secure_plain_twice by blast
  show ?thesis using nonces_distinct [OF run _ sec_default_keys(3)] run plain_frame_src by auto
qed

text \<open>
  C7. Switching to the number that is already active restarts the counter under the same key: after
  any run of secured frames and such a switch, the next frame is secured with the very nonce of the
  first one.
\<close>

theorem key_switch_reuses_nonce:
  assumes "three_keys k0 k1 k2 g" and "outgoing_frame_counter g = 0" and "length (mac_extended_address g) = 8"
    and "secure_all cb fs g = Some (ns, g1)" and "\<forall>(src, n, dst) \<in> set fs. nwk_src src n" and "fs \<noteq> []"
  shows "\<exists>g2. secur_nwk_key_switch rnd 0 g1 = Some g2 \<and> three_keys k0 k1 k2 g2
    \<and> (\<forall>src n dst ret src' dst' g3. nwk_src src n \<and> zb_nwk_secure_frame cb src n dst g2 = Some (ret, src', dst', g3)
          \<longrightarrow> sent_nonce src' n = Some (hd ns))"
proof -
  note s = secure_all_nonces [OF assms(4,5,3)]
  let ?g2 = "g1\<lparr>active_secur_material_i := 0, active_key_seq_number := 0,
    prev_outgoing_frame_counter := outgoing_frame_counter g1, outgoing_frame_counter := 0\<rparr>"
  have k: "secur_material_set g1 = [\<lparr>ms_key = k0, ms_key_seq_number = 0\<rparr>, \<lparr>ms_key = k1, ms_key_seq_number = 1\<rparr>,
      \<lparr>ms_key = k2, ms_key_seq_number = 2\<rparr>]" "active_secur_material_i g1 = 0"
    using s assms(1) by (simp_all add: three_keys_def)
  have "secur_nwk_key_switch rnd 0 g1 = Some ?g2" using k by (subst switch_run [OF k(1)]) simp_all
  moreover have "three_keys k0 k1 k2 ?g2" using k by (simp add: three_keys_def)
  moreover have "hd ns = own_nonce ?g2" using s assms(2,6) by (simp add: own_nonce_def hd_map upt_rec [of 0])
  moreover have "length (mac_extended_address ?g2) = 8" using s assms(3) by simp
  note secure_step [OF _ this]
  ultimately show ?thesis by (intro exI [of _ ?g2]) auto
qed

theorem key_switch_reuses_nonce_witness:
  "\<exists>ns g1 g2. secure_all 0 [(plain_frame, 0, plain_frame), (plain_frame, 0, plain_frame)] sec_default = Some (ns, g1)
    \<and> secur_nwk_key_switch [] 0 g1 = Some g2
    \<and> (\<forall>ret src' dst' g3. zb_nwk_secure_frame 0 plain_frame 0 plain_frame g2 = Some (ret, src', dst', g3)
          \<longrightarrow> sent_nonce src' 0 = Some (hd ns))"
proof -
  obtain ns g1 where run: "secure_all 0 [(plain_frame, 0, plain_frame), (plain_frame, 0, plain_frame)] sec_default = Some (ns, g1)"
    using secure_plain_twice by blast
  have "outgoing_frame_counter sec_default = 0" by (simp add: sec_default_def)
  from key_switch_reuses_nonce [OF sec_default_keys(2) this sec_default_keys(3) run, of "[]"] run plain_frame_src
  show ?thesis by auto
qed

text \<open>The three switches at the device of the example.\<close>

theorem key_switch_goes_astray_witness:
  "\<exists>g1 g2 g3. secur_nwk_key_switch [] 1 sec_default = Some g1 \<and> secur_nwk_key_switch [] 2 g1 = Some g2
    \<and> key_for_child g2 = Some (replicate 16 2, 2) \<and> secur_nwk_key_switch [] 3 g2 = Some g3"
  using key_switch_goes_astray [OF sec_default_keys(2), of "[]" 0] by blast

end
