(* ===== verification/Nwk_Unsecure_Lemmas.thy ===== *)
theory Nwk_Unsecure_Lemmas
  imports Nwk_Secur_Lemmas Tree_Join
begin

text \<open>
  What \<open>zb_nwk_unsecure_frame\<close> does with a received frame: which frames it accepts, what it writes into
  the entry of the neighbor they came from, and how both meet \<open>zb_nwk_secure_frame\<close> at the sender.
\<close>

section \<open>Decryption\<close>

text \<open>A body passes the check of its tag exactly when it is the sealing of the decrypted text.\<close>

lemma sealed_check:
  assumes "length key = 16" and "length u = 4"
  shows "take 4 (xor16 (aes128 key (ccm_counter nonce 0)) (pad16 u)) = take 4 (auth_trans 4 key nonce a (encrypt_blocks key nonce 1 c))
    \<longleftrightarrow> c @ u = sealed key nonce a (encrypt_blocks key nonce 1 c)"
proof -
  let ?E = "aes128 key (ccm_counter nonce 0)"
  let ?t = "take 4 (auth_trans 4 key nonce a (encrypt_blocks key nonce 1 c))"
  have k: "length ?E = 16" "length ?t = 4" using assms(1) by simp_all
  show ?thesis
    using xor16_part_twice [OF k(1), of 4 u] xor16_part_twice [OF k(1), of 4 ?t] k assms encrypt_blocks_twice [OF assms(1), of nonce 1 c]
    by (auto simp: sealed_def)
qed

lemma sealed_text:
  assumes "length key = 16" and "length u = 4" and "c @ u = sealed key nonce a m"
  shows "encrypt_blocks key nonce 1 c = m"
proof -
  have "c = encrypt_blocks key nonce 1 m" using assms by (simp add: sealed_def append_eq_append_conv)
  then show ?thesis using encrypt_blocks_twice [OF assms(1)] by simp
qed

lemma decrypt_payload:
  assumes key: "length key = 16" and wf: "buf_wf b" and p: "payload b = a @ c @ u" and u: "length u = 4" and c: "length c \<le> 132"
  shows "\<exists>b'. zb_ccm_decrypt_n_auth_stdsecur key nonce b (length a) (length c + 4)
      = Some (if c @ u = sealed key nonce a (encrypt_blocks key nonce 1 c) then RET_OK else RET_ERROR, b')
    \<and> buf_wf b' \<and> ZB_BUF_BEGIN b' = ZB_BUF_BEGIN b
    \<and> ZB_BUF_LEN b' = ZB_BUF_LEN b - 4
    \<and> (c @ u = sealed key nonce a (encrypt_blocks key nonce 1 c) \<longrightarrow> payload b' = a @ encrypt_blocks key nonce 1 c)"
proof -
  let ?p = "ZB_BUF_BEGIN b" and ?l = "ZB_BUF_LEN b"
  note W = buf_wfD [OF wf]
  have len: "?l = length a + length c + 4" using length_payload [OF wf] p u by simp
  have "data_buf b = take ?p (data_buf b) @ payload b @ drop ?l (drop ?p (data_buf b))"
    unfolding payload_def by (simp only: append_take_drop_id)
  then have d: "data_buf b = take ?p (data_buf b) @ a @ c @ u @ drop ?l (drop ?p (data_buf b))" unfolding p by simp
  have q: "?p = length (take ?p (data_buf b))" using W by simp
  have fit: "length c + 16 \<le> 148" using c by simp
  obtain b' where r: "zb_ccm_decrypt_n_auth key nonce b (length a) (length c + 4)
      = Some (if c @ u = sealed key nonce a (encrypt_blocks key nonce 1 c) then RET_OK else RET_ERROR, b')"
    "buf_wf b'" "payload b' = a @ (if c @ u = sealed key nonce a (encrypt_blocks key nonce 1 c)
       then encrypt_blocks key nonce 1 c else replicate (length c) 0xeb)" "ZB_BUF_BEGIN b' = ZB_BUF_BEGIN b"
    using ccm_decrypt_run [OF key d u wf q len fit, of nonce] unfolding sealed_check [OF key u] by blast
  have "ZB_BUF_LEN b' = ?l - 4" using length_payload [OF r(2)] r(3) len key by (simp split: if_splits)
  with r show ?thesis unfolding zb_ccm_decrypt_n_auth_stdsecur_def by auto
qed

text \<open>The MAC header written back in front of the packet, which it does not touch.\<close>

lemma put_back_mhr:
  assumes wf: "buf_wf b" and m: "mhr_wf mhr" "length (mhr_bytes mhr) = unat n"
    and room: "unat n + 1 \<le> ZB_BUF_BEGIN b" "unat n + 1 + ZB_BUF_LEN b < ZB_IO_BUF_SIZE"
  shows "\<exists>b1 p d b2 q. zb_buf_smart_alloc_left b (n + 1) = Some (b1, p) \<and> zb_mac_fill_mhr (data_buf b1) (p + 1) mhr = Some d
    \<and> zb_buf_cut_left (b1\<lparr>data_buf := d, hdr := (hdr b1)\<lparr>mac_hdr_offset := data_offset (hdr b1) + 1\<rparr>\<rparr>) (n + 1) = Some (b2, q)
    \<and> buf_wf b2 \<and> payload b2 = payload b \<and> ZB_BUF_BEGIN b2 = ZB_BUF_BEGIN b"
proof -
  note W = buf_wfD [OF wf]
  let ?s = "n + 1"
  have s: "unat ?s = unat n + 1" using room(1) W by (simp add: unat_add_8)
  let ?b1 = "b\<lparr>hdr := (hdr b)\<lparr>hdr_len := hdr_len (hdr b) + ?s, data_offset := data_offset (hdr b) - ?s\<rparr>\<rparr>"
  have nl: "\<not> data_offset (hdr b) < ?s" using room(1) s by (simp add: word_less_nat_alt ZB_BUF_BEGIN_def)
  have B: "ZB_BUF_BEGIN ?b1 = ZB_BUF_BEGIN b - unat ?s" and L: "ZB_BUF_LEN ?b1 = ZB_BUF_LEN b + unat ?s"
    using room s by (simp_all add: ZB_BUF_BEGIN_def ZB_BUF_LEN_def unat_sub_8 unat_add_8 ZB_IO_BUF_SIZE_def)
  have al: "zb_buf_smart_alloc_left b ?s = Some (?b1, ZB_BUF_BEGIN ?b1)"
    using nl room(2) s by (simp add: zb_buf_smart_alloc_left_def Let_def)
  let ?p = "ZB_BUF_BEGIN ?b1" and ?d = "write_at (data_buf b) (ZB_BUF_BEGIN ?b1 + 1) (mhr_bytes mhr)"
  have fit: "?p + 1 + length (mhr_bytes mhr) = ZB_BUF_BEGIN b" using room(1) m(2) s B by simp
  then have fits: "?p + 1 + length (mhr_bytes mhr) \<le> length (data_buf b)" using W by simp
  have fl: "zb_mac_fill_mhr (data_buf ?b1) (?p + 1) mhr = Some ?d" using fill_bytes [OF m(1) fits] by simp
  have keep: "drop (ZB_BUF_BEGIN b) ?d = drop (ZB_BUF_BEGIN b) (data_buf b)" "length ?d = length (data_buf b)"
    using fit fits by (simp_all add: write_at_def)
  let ?b2 = "?b1\<lparr>data_buf := ?d, hdr := (hdr b)\<lparr>hdr_len := hdr_len (hdr b), data_offset := data_offset (hdr b),
      mac_hdr_offset := data_offset (hdr ?b1) + 1\<rparr>\<rparr>"
  have L2: "ZB_BUF_BEGIN ?b2 = ZB_BUF_BEGIN b" "ZB_BUF_LEN ?b2 = ZB_BUF_LEN b" by (simp_all add: ZB_BUF_BEGIN_def ZB_BUF_LEN_def)
  have ge: "unat ?s \<le> ZB_BUF_LEN (?b1\<lparr>data_buf := ?d, hdr := (hdr ?b1)\<lparr>mac_hdr_offset := data_offset (hdr ?b1) + 1\<rparr>\<rparr>)"
    using L by (simp add: ZB_BUF_LEN_def)
  have ct: "zb_buf_cut_left (?b1\<lparr>data_buf := ?d, hdr := (hdr ?b1)\<lparr>mac_hdr_offset := data_offset (hdr ?b1) + 1\<rparr>\<rparr>) ?s
      = Some (?b2, ZB_BUF_BEGIN ?b2)"
    using ge by (simp add: zb_buf_cut_left_def Let_def)
  have "buf_wf ?b2" using wf keep(2) unfolding buf_wf_def L2 by simp
  moreover have "payload ?b2 = payload b" using keep(1) unfolding payload_def L2 by simp
  ultimately show ?thesis
    using al fl ct L2(1) by (intro exI [of _ ?b1] exI [of _ ?p] exI [of _ ?d] exI [of _ ?b2] exI [of _ "ZB_BUF_BEGIN ?b2"] conjI)
qed

text \<open>
  Decryption in place of a frame with the body \<open>body\<close>: it succeeds exactly when the body is the sealing
  of some text, which is then the packet behind the header.
\<close>

lemma unsecure_decrypt_run:
  assumes key: "length key = 16" and wf: "buf_wf b" and p: "payload b = (h @ aux_bytes sc ctr ieee sn) @ body"
    and l: "length ctr = 4" "length ieee = 8" and body: "4 \<le> length body" "length body \<le> 136"
    and mh: "mhr_wf mhr" "length (mhr_bytes mhr) = unat n"
    and room: "unat n + 1 \<le> ZB_BUF_BEGIN b" "unat n + 1 + ZB_BUF_LEN b < ZB_IO_BUF_SIZE"
  defines "nonce \<equiv> ccm_nonce ieee ctr ZB_NWK_STD_SECUR_CONTROL" and "a \<equiv> h @ aux_bytes ZB_NWK_STD_SECUR_CONTROL ctr ieee sn"
  shows "\<exists>ret b'. unsecure_decrypt (length h + 14) (ZB_BUF_BEGIN b + length h) key mhr n b = Some (ret, b')
    \<and> ret = (if \<exists>t. body = sealed key nonce a t then RET_OK else RET_ERROR)
    \<and> buf_wf b' \<and> ZB_BUF_BEGIN b' = ZB_BUF_BEGIN b
    \<and> (\<forall>t. body = sealed key nonce a t \<longrightarrow> payload b' = a @ t) \<and> ZB_BUF_LEN b' = ZB_BUF_LEN b - 4"
proof -
  let ?B = "ZB_BUF_BEGIN b + length h"
  let ?c = "take (length body - 4) body" and ?u = "drop (length body - 4) body"
  have cu: "?c @ ?u = body" "length ?u = 4" "length ?c \<le> 132" "length ?c + 4 = length body" using body by simp_all
  have len: "ZB_BUF_LEN b = length h + 14 + length body" using length_payload [OF wf] p l by simp
  have size: "payload_size b (length h + 14) = of_nat (length body)" unfolding len payload_size_def by simp
  have nb: "unat (of_nat (length body) :: u32) = length body" using body by (intro unat_of_nat_lt) simp
  have "payload b = h @ [sc] @ (ctr @ ieee @ [sn] @ body)" using p by (simp add: aux_bytes_def)
  from payload_put [OF wf this, of "[ZB_NWK_STD_SECUR_CONTROL]" ?B]
  obtain d where d: "arr_set (data_buf b) ?B ZB_NWK_STD_SECUR_CONTROL = Some d" "buf_wf (b\<lparr>data_buf := d\<rparr>)"
    and q: "payload (b\<lparr>data_buf := d\<rparr>) = h @ [ZB_NWK_STD_SECUR_CONTROL] @ ctr @ ieee @ [sn] @ body"
    by (auto simp: arr_set_copy)
  have ri: "buf_read d (?B + 5) 8 = Some ieee"
    using payload_read [OF d(2), of "h @ [ZB_NWK_STD_SECUR_CONTROL] @ ctr" ieee "[sn] @ body"] q l by (simp add: add.assoc)
  have rc: "buf_read d (?B + 1) 4 = Some ctr"
    using payload_read [OF d(2), of "h @ [ZB_NWK_STD_SECUR_CONTROL]" ctr "ieee @ [sn] @ body"] q l by simp
  define m where "m = encrypt_blocks key nonce 1 ?c"
  have "payload (b\<lparr>data_buf := d\<rparr>) = a @ ?c @ ?u" using q unfolding cu(1) a_def aux_bytes_def by simp
  from decrypt_payload [OF key d(2) this cu(2,3), of nonce] l
  obtain b1 where b1: "zb_ccm_decrypt_n_auth_stdsecur key nonce (b\<lparr>data_buf := d\<rparr>) (length h + 14) (length body)
        = Some (if body = sealed key nonce a m then RET_OK else RET_ERROR, b1)"
    "buf_wf b1" "ZB_BUF_BEGIN b1 = ZB_BUF_BEGIN b" "ZB_BUF_LEN b1 = ZB_BUF_LEN b - 4"
    "body = sealed key nonce a m \<longrightarrow> payload b1 = a @ m"
    unfolding cu(1,4) a_def m_def by (auto simp: add.commute)
  have eq: "body = sealed key nonce a t \<Longrightarrow> t = m" for t
    using sealed_text [OF key cu(2), of ?c nonce a t] unfolding cu(1) m_def by simp
  have room': "unat n + 1 \<le> ZB_BUF_BEGIN b1" "unat n + 1 + ZB_BUF_LEN b1 < ZB_IO_BUF_SIZE" using b1(3,4) room by simp_all
  obtain b2 p1 d1 b3 q1 where pb: "zb_buf_smart_alloc_left b1 (n + 1) = Some (b2, p1)"
    "zb_mac_fill_mhr (data_buf b2) (p1 + 1) mhr = Some d1"
    "zb_buf_cut_left (b2\<lparr>data_buf := d1, hdr := (hdr b2)\<lparr>mac_hdr_offset := data_offset (hdr b2) + 1\<rparr>\<rparr>) (n + 1) = Some (b3, q1)"
    "buf_wf b3" "payload b3 = payload b1" "ZB_BUF_BEGIN b3 = ZB_BUF_BEGIN b1"
    using put_back_mhr [OF b1(2) mh room'] by (elim exE conjE) (rule that)
  have l3: "ZB_BUF_LEN b3 = ZB_BUF_LEN b1"
    using arg_cong [OF pb(5), of length] length_payload pb(4) b1(2) by simp
  have run: "unsecure_decrypt (length h + 14) ?B key mhr n b
      = (if body = sealed key nonce a m then Some (RET_OK, b3) else Some (RET_ERROR, b1))"
    unfolding unsecure_decrypt_def Let_def size using d(1) ri rc b1(1) pb(1-3) by (simp add: nb nonce_def)
  let ?ok = "body = sealed key nonce a m"
  have ex: "(\<exists>t. body = sealed key nonce a t) \<longleftrightarrow> ?ok" using eq by blast
  have l4: "ZB_BUF_LEN b3 = ZB_BUF_LEN b - 4" "ZB_BUF_BEGIN b3 = ZB_BUF_BEGIN b" using l3 pb(6) b1(3,4) by simp_all
  show ?thesis
  proof (cases ?ok)
    case True
    have "payload b3 = a @ t" if "body = sealed key nonce a t" for t
      unfolding eq [OF that] by (rule trans [OF pb(5) b1(5) [rule_format, OF True]])
    then show ?thesis
      unfolding run ex if_P [OF True] using pb(4) l4 by (intro exI [of _ RET_OK] exI [of _ b3]) blast
  next
    case False
    with eq have "body \<noteq> sealed key nonce a t" for t by blast
    then show ?thesis
      unfolding run ex if_not_P [OF False] using b1(2-4) by (intro exI [of _ RET_ERROR] exI [of _ b1]) blast
  qed
qed

section \<open>The status indication\<close>

lemma schedule_callback_total:
  assumes "rb_inv (cb_q (sched g))" and "unat p \<le> ZB_IOBUF_POOL_SIZE"
  shows "\<exists>r g'. zb_schedule_callback f p g = Some (r, g')"
  using schedule_callback_full [of g f p] schedule_callback_ok [OF assms(1) _ assms(2), of f] by blast

lemma status_run:
  assumes "arr_get (pool (bpool g)) i = Some b" and "buf_wf b" and "ZB_BUF_LEN b + ZB_BUF_BEGIN b + 6 \<le> ZB_IO_BUF_SIZE"
    and "rb_inv (cb_q (sched g))" and "i \<le> ZB_IOBUF_POOL_SIZE"
  shows "\<exists>g'. zb_secur_nwk_status cb i short st g = Some g' \<and> same_sec g g'"
proof -
  have b: "arr_copy (data_buf b) (ZB_IO_BUF_SIZE - 6) ([st, 0, 0, 0] @ ZB_HTOLE16 short)
      = Some (write_at (data_buf b) (ZB_IO_BUF_SIZE - 6) ([st, 0, 0, 0] @ ZB_HTOLE16 short))"
    using assms(2) by (intro arr_copy_write) (simp add: buf_wf_def ZB_IO_BUF_SIZE_def)
  let ?g = "g\<lparr>bpool := (bpool g)\<lparr>pool := (pool (bpool g))[i := b\<lparr>data_buf :=
    write_at (data_buf b) (ZB_IO_BUF_SIZE - 6) ([st, 0, 0, 0] @ ZB_HTOLE16 short)\<rparr>]\<rparr>\<rparr>"
  have u: "unat (of_nat i :: u8) \<le> ZB_IOBUF_POOL_SIZE"
    using assms(5) by (simp add: unat_of_nat zb_config)
  obtain r g' where s: "zb_schedule_callback cb (of_nat i) ?g = Some (r, g')"
    using schedule_callback_total [of ?g "of_nat i" cb] assms(4) u by auto
  have "same_sec g ?g" by (simp add: same_sec_def)
  from same_sec_trans [OF this] schedule_callback_sec [OF s] have "same_sec g g'" by blast
  then show ?thesis
    using assms(1,3) b s by (simp add: zb_secur_nwk_status_def zb_get_buf_tail_def put_buf_def arr_set_def arr_get_def split: if_splits)
qed

section \<open>A received frame\<close>

text \<open>
  The frame in the buffer \<open>i\<close> of an authenticated device, from a sender whose entry \<open>nbe\<close> in the neighbor
  table is found: its header \<open>h\<close>, the counter, address and key number of its auxiliary header, its
  body, and the room the code asks for in front of the packet and behind it.
\<close>

definition received ::
  "nat \<Rightarrow> zb_mac_mhr \<Rightarrow> u8 \<Rightarrow> ('cb, 'w) sec_g_scheme \<Rightarrow> u8 list \<Rightarrow> u8 list \<Rightarrow> u8 list \<Rightarrow> u8 \<Rightarrow> u8 list
     \<Rightarrow> nat \<Rightarrow> zb_nwk \<Rightarrow> zb_neighbor_tbl_ent \<Rightarrow> bool" where
  "received i mhr n g h ctr ieee sn body nbe w e \<longleftrightarrow>
     authenticated g \<and> keys_inv g \<and> rb_inv (cb_q (sched g)) \<and> i \<le> ZB_IOBUF_POOL_SIZE
     \<and> mhr_wf mhr \<and> length (mhr_bytes mhr) = unat n
     \<and> length ctr = 4 \<and> length ieee = 8 \<and> hdr_wf h \<and> 4 \<le> length body
     \<and> (\<exists>b sc. arr_get (pool (bpool g)) i = Some b \<and> buf_wf b \<and> payload b = (h @ aux_bytes sc ctr ieee sn) @ body
          \<and> unat n + 1 \<le> ZB_BUF_BEGIN b \<and> unat n + 1 + ZB_BUF_LEN b < ZB_IO_BUF_SIZE
          \<and> ZB_BUF_LEN b + ZB_BUF_BEGIN b + 6 \<le> ZB_IO_BUF_SIZE
          \<and> unsecure_sender (data_buf b) (ZB_BUF_BEGIN b) (ZB_BUF_BEGIN b + length h) mhr (snwk g) = Some (RET_OK, Some nbe, w))
     \<and> arr_get (base_neighbor (neighbor w)) nbe = Some e"

definition upd_neighbor :: "nat \<Rightarrow> zb_neighbor_tbl_ent \<Rightarrow> zb_nwk \<Rightarrow> zb_nwk" where
  "upd_neighbor i e w = w\<lparr>neighbor := (neighbor w)\<lparr>base_neighbor := (base_neighbor (neighbor w))[i := e]\<rparr>\<rparr>"

lemma set_upd: "arr_get (base_neighbor (neighbor w)) i = Some e \<Longrightarrow> set_neighbor i e' w = Some (upd_neighbor i e' w)"
  by (simp add: set_neighbor_def upd_neighbor_def arr_get_def arr_set_def split: if_splits)

lemma get_upd:
  "arr_get (base_neighbor (neighbor w)) i = Some e \<Longrightarrow> arr_get (base_neighbor (neighbor (upd_neighbor i e' w))) i = Some e'"
  by (simp add: upd_neighbor_def arr_get_def split: if_splits)

lemma upd_upd [simp]: "upd_neighbor i e' (upd_neighbor i e w) = upd_neighbor i e' w"
  by (simp add: upd_neighbor_def)

text \<open>The parts of the frame the code reads.\<close>

lemma frame_reads:
  assumes wf: "buf_wf b" and p: "payload b = (h @ aux_bytes sc ctr ieee sn) @ body"
    and l: "length ctr = 4" "length ieee = 8" and h: "hdr_wf h"
  shows "buf_read (data_buf b) (ZB_BUF_BEGIN b) 2 = Some (take 2 h)" and "zb_nwk_hdr_size (take 2 h) = length h + 14"
    and "aux_place (ZB_BUF_BEGIN b) (length h + 14) = Some (ZB_BUF_BEGIN b + length h)"
    and "arr_get (data_buf b) (ZB_BUF_BEGIN b + length h + 13) = Some sn"
    and "buf_read (data_buf b) (ZB_BUF_BEGIN b + length h + 1) 4 = Some ctr"
proof -
  show hs: "zb_nwk_hdr_size (take 2 h) = length h + 14" using h by (simp add: hdr_wf_def)
  have "payload b = [] @ take 2 h @ (drop 2 h @ aux_bytes sc ctr ieee sn @ body)" using p by simp
  then show "buf_read (data_buf b) (ZB_BUF_BEGIN b) 2 = Some (take 2 h)"
    by (rule payload_read [OF wf]) (use h in \<open>simp_all add: hdr_wf_def\<close>)
  show "aux_place (ZB_BUF_BEGIN b) (length h + 14) = Some (ZB_BUF_BEGIN b + length h)"
    using aux_place_at [of "take 2 h" "length h"] hs by simp
  have "payload b = (h @ [sc] @ ctr @ ieee) @ [sn] @ body" using p by (simp add: aux_bytes_def)
  then show "arr_get (data_buf b) (ZB_BUF_BEGIN b + length h + 13) = Some sn"
    by (rule payload_get [OF wf]) (use l in simp)
  have "payload b = (h @ [sc]) @ ctr @ (ieee @ [sn] @ body)" using p by (simp add: aux_bytes_def)
  then show "buf_read (data_buf b) (ZB_BUF_BEGIN b + length h + 1) 4 = Some ctr"
    by (rule payload_read [OF wf]) (use l in simp_all)
qed

text \<open>A frame refused for its key number or its counter leaves the entry \<open>check_frame_counter\<close> gives.\<close>

lemma unsecure_refused:
  assumes rec: "received i mhr n g h ctr ieee sn body nbe w e" and key: "secur_nwk_key_by_seq sn g = Some key"
    and chk: "check_frame_counter (key \<noteq> None) sn (ZB_LETOH32 ctr) e = (Some st, e')"
  shows "\<exists>g'. zb_nwk_unsecure_frame cb rnd i mhr n g = Some (RET_ERROR, g') \<and> same_sec (g\<lparr>snwk := upd_neighbor nbe e' w\<rparr>) g'"
proof -
  obtain b sc where b: "arr_get (pool (bpool g)) i = Some b" "buf_wf b" and p: "payload b = (h @ aux_bytes sc ctr ieee sn) @ body"
    and tail: "ZB_BUF_LEN b + ZB_BUF_BEGIN b + 6 \<le> ZB_IO_BUF_SIZE"
    and snd: "unsecure_sender (data_buf b) (ZB_BUF_BEGIN b) (ZB_BUF_BEGIN b + length h) mhr (snwk g) = Some (RET_OK, Some nbe, w)"
    and e: "arr_get (base_neighbor (neighbor w)) nbe = Some e" and l: "length ctr = 4" "length ieee = 8" "hdr_wf h"
    and au: "authenticated g" and rb: "rb_inv (cb_q (sched g))" "i \<le> ZB_IOBUF_POOL_SIZE"
    using rec unfolding received_def by blast
  note R = frame_reads [OF b(2) p l]
  let ?g = "g\<lparr>snwk := upd_neighbor nbe e' w\<rparr>"
  obtain g' where s: "zb_secur_nwk_status cb i (addr_short (src_addr mhr)) st ?g = Some g'" "same_sec ?g g'"
    using status_run [of ?g i b cb "addr_short (src_addr mhr)" st] b tail rb by auto
  have k: "secur_nwk_key_by_seq sn (g\<lparr>snwk := w\<rparr>) = Some key" using key key_by_seq_cong [of "g\<lparr>snwk := w\<rparr>" g] by simp
  have "zb_nwk_unsecure_frame cb rnd i mhr n g = Some (RET_ERROR, g')"
    unfolding zb_nwk_unsecure_frame_def Let_def using R b snd e k au s(1) chk set_upd [OF e, of e'] by simp
  with s(2) show ?thesis by blast
qed

lemma check_passes:
  assumes "check_frame_counter True sn c e = (None, e')"
  shows "key_seq_number e' = sn" "incoming_frame_counter e' = c"
  using assms by (auto simp: check_frame_counter_def Let_def split: if_splits)

lemma implicit_switch_ok:
  assumes "keys_inv g" and "16 \<le> length rnd"
  shows "\<exists>g'. implicit_switch rnd sn g = Some g' \<and> keys_inv g' \<and> snwk g' = snwk g \<and> bpool g' = bpool g"
  using key_switch_ok [OF assms, of sn] assms(1) by (auto simp: implicit_switch_def)

text \<open>A frame that passes is decrypted; the entry keeps its counter even when the tag is wrong.\<close>

lemma unsecure_decrypted:
  assumes rec: "received i mhr n g h ctr ieee sn body nbe w e" and key: "secur_nwk_key_by_seq sn g = Some (Some k)"
    and chk: "check_frame_counter True sn (ZB_LETOH32 ctr) e = (None, e')" and rnd: "16 \<le> length rnd"
  defines "opens \<equiv> \<lambda>t. body = sealed (ms_key (secur_material_set g ! k)) (ccm_nonce ieee ctr ZB_NWK_STD_SECUR_CONTROL)
      (h @ aux_bytes ZB_NWK_STD_SECUR_CONTROL ctr ieee sn) t"
  shows "\<exists>ret g'. zb_nwk_unsecure_frame cb rnd i mhr n g = Some (ret, g')
    \<and> ret = (if \<exists>t. opens t then RET_OK else RET_ERROR)
    \<and> (\<exists>e''. arr_get (base_neighbor (neighbor (snwk g'))) nbe = Some e''
          \<and> key_seq_number e'' = sn \<and> incoming_frame_counter e'' = ZB_LETOH32 ctr)
    \<and> (\<forall>t. opens t \<longrightarrow> (\<exists>b'. arr_get (pool (bpool g')) i = Some b' \<and> buf_wf b'
          \<and> payload b' = (h @ aux_bytes ZB_NWK_STD_SECUR_CONTROL ctr ieee sn) @ t))
    \<and> keys_inv g'"
proof -
  obtain b sc where b: "arr_get (pool (bpool g)) i = Some b" "buf_wf b" and p: "payload b = (h @ aux_bytes sc ctr ieee sn) @ body"
    and room: "unat n + 1 \<le> ZB_BUF_BEGIN b" "unat n + 1 + ZB_BUF_LEN b < ZB_IO_BUF_SIZE"
    and tail: "ZB_BUF_LEN b + ZB_BUF_BEGIN b + 6 \<le> ZB_IO_BUF_SIZE"
    and snd: "unsecure_sender (data_buf b) (ZB_BUF_BEGIN b) (ZB_BUF_BEGIN b + length h) mhr (snwk g) = Some (RET_OK, Some nbe, w)"
    and e: "arr_get (base_neighbor (neighbor w)) nbe = Some e" and l: "length ctr = 4" "length ieee = 8" "hdr_wf h"
    and au: "authenticated g" and rb: "rb_inv (cb_q (sched g))" "i \<le> ZB_IOBUF_POOL_SIZE" and ki: "keys_inv g"
    and m: "mhr_wf mhr" "length (mhr_bytes mhr) = unat n" and body: "4 \<le> length body"
    using rec unfolding received_def by blast
  note R = frame_reads [OF b(2) p l]
  have len: "ZB_BUF_LEN b = length h + 14 + length body" using length_payload [OF b(2)] p l by simp
  then have body': "length body \<le> 136" using tail by (simp add: ZB_IO_BUF_SIZE_def)
  have "unat (of_nat (length body) :: u32) = length body" using body' by (intro unat_of_nat_lt) simp
  then have big: "\<not> payload_size b (length h + 14) < of_nat ZB_CCM_M"
    using body unfolding payload_size_def len by (simp add: word_less_nat_alt zb_config)
  have k: "k < 3" "length (ms_key (secur_material_set g ! k)) = 16" using key_by_seq_ok [OF ki, of sn] key by auto
  have km: "arr_get (secur_material_set g) k = Some (secur_material_set g ! k)"
    using k ki by (simp add: arr_get_def keys_inv_def)
  let ?B = "ZB_BUF_BEGIN b + length h" and ?key = "ms_key (secur_material_set g ! k)"
  obtain ret b' where d: "unsecure_decrypt (length h + 14) ?B ?key mhr n b = Some (ret, b')"
    "ret = (if \<exists>t. opens t then RET_OK else RET_ERROR)" "buf_wf b'" "ZB_BUF_BEGIN b' = ZB_BUF_BEGIN b"
    "\<forall>t. opens t \<longrightarrow> payload b' = (h @ aux_bytes ZB_NWK_STD_SECUR_CONTROL ctr ieee sn) @ t" "ZB_BUF_LEN b' = ZB_BUF_LEN b - 4"
    using unsecure_decrypt_run [OF k(2) b(2) p l(1,2) body body' m room]
    by (elim exE conjE) (rule that, assumption, unfold opens_def, assumption+)
  let ?w = "upd_neighbor nbe e' w" and ?bp = "(bpool g)\<lparr>pool := (pool (bpool g))[i := b']\<rparr>"
  let ?g = "g\<lparr>snwk := ?w, bpool := ?bp\<rparr>"
  have pb: "put_buf i b' (g\<lparr>snwk := ?w\<rparr>) = Some ?g" and gb: "arr_get (pool ?bp) i = Some b'"
    using b(1) by (simp_all add: put_buf_def arr_get_def arr_set_def split: if_splits)
  have kk: "secur_nwk_key_by_seq sn (g\<lparr>snwk := w\<rparr>) = Some (Some k)" using key key_by_seq_cong [of "g\<lparr>snwk := w\<rparr>" g] by simp
  note W = set_upd [OF e, of e'] get_upd [OF e, of e']
  let ?run = "zb_nwk_unsecure_frame cb rnd i mhr n g"
  show ?thesis
  proof (cases "\<exists>t. opens t")
    case False
    have tail': "ZB_BUF_LEN b' + ZB_BUF_BEGIN b' + 6 \<le> ZB_IO_BUF_SIZE" using d(4,6) tail by simp
    obtain g' where s: "zb_secur_nwk_status cb i (addr_short (src_addr mhr)) ZB_NWK_COMMAND_STATUS_FRAME_SECURITY_FAILED ?g = Some g'"
      "same_sec ?g g'"
      using status_run [of ?g i b' cb "addr_short (src_addr mhr)" ZB_NWK_COMMAND_STATUS_FRAME_SECURITY_FAILED] gb d(3) tail' rb
      by auto
    have "?run = Some (RET_ERROR, g')"
      unfolding zb_nwk_unsecure_frame_def Let_def using R b(1) snd e kk au chk W(1) km big d(1,2) False pb s(1) by simp
    with s(2) W(2) check_passes [OF chk] False ki show ?thesis
      by (intro exI [of _ RET_ERROR] exI [of _ g']) (simp add: same_sec_def keys_inv_def)
  next
    case True
    let ?e = "if relationship e' = ZB_NWK_RELATIONSHIP_UNAUTHENTICATED_CHILD then e'\<lparr>relationship := ZB_NWK_RELATIONSHIP_CHILD\<rparr> else e'"
    let ?w' = "upd_neighbor nbe ?e w"
    let ?g' = "?g\<lparr>snwk := ?w'\<rparr>"
    have ki': "keys_inv ?g'" using ki by (simp add: keys_inv_def)
    obtain g' where sw: "implicit_switch rnd sn ?g' = Some g'" "keys_inv g'" "snwk g' = ?w'" "bpool g' = ?bp"
      using implicit_switch_ok [OF ki' rnd, of sn] by auto
    have com: "g\<lparr>snwk := x, bpool := y\<rparr> = g\<lparr>bpool := y, snwk := x\<rparr>" for x y by simp
    have we: "set_neighbor nbe x ?w = Some (upd_neighbor nbe x w)" for x using set_upd [OF W(2)] by simp
    obtain t where t: "opens t" using True by blast
    have p': "payload b' = (h @ aux_bytes ZB_NWK_STD_SECUR_CONTROL ctr ieee sn) @ t" using d(5) t by blast
    note sn = frame_reads(4) [OF d(3) p' l, unfolded d(4)]
    have "?run = Some (RET_OK, g')"
      unfolding zb_nwk_unsecure_frame_def Let_def using R b(1) snd e kk au chk W(1) km big d(1,2) True pb we sn sw(1)
      by (cases "relationship e' = ZB_NWK_RELATIONSHIP_UNAUTHENTICATED_CHILD") (simp_all add: com)
    moreover have "arr_get (base_neighbor (neighbor ?w')) nbe = Some ?e" by (rule get_upd [OF e])
    moreover have "key_seq_number ?e = sn" "incoming_frame_counter ?e = ZB_LETOH32 ctr" using check_passes [OF chk] by simp_all
    ultimately show ?thesis
      using True sw gb d(3,5) by (intro exI [of _ RET_OK] exI [of _ g']) auto
  qed
qed

section \<open>A receiver to run\<close>

text \<open>
  The device of the examples, which knows nobody yet, with a frame in its first buffer that its
  originator, the short address 1, sent directly.
\<close>

definition rx_mhr :: zb_mac_mhr where
  "rx_mhr = mhr_zero\<lparr>frame_control := [0x41, 0x88], src_addr := [1, 0, 0, 0, 0, 0, 0, 0]\<rparr>"

definition rx_ieee :: zb_ieee_addr where
  "rx_ieee = [8, 7, 6, 5, 4, 3, 2, 1]"

definition rx_state :: "zb_addr_globals \<Rightarrow> u8 list \<Rightarrow> nat sec_g" where
  "rx_state z frame = sec_default\<lparr>snwk := nwk_default\<lparr>addr_tbl := z\<rparr>,
     bpool := (bpool sec_default)\<lparr>pool := (pool (bpool sec_default))[0 := buf_of frame]\<rparr>\<rparr>"

lemma update_unlocked:
  assumes "zb_address_update dev a True z1 = Some (RET_OK, Some r, z2)"
  shows "\<exists>z. zb_address_update dev a False z1 = Some (RET_OK, Some r, z) \<and> zb_address_lock r z = Some z2"
  using assms by (auto simp: zb_address_update_def bind_eq_Some_conv lock_if_def case_prod_unfold split: if_split_asm
      intro!: exI)

lemma rx_mhr_ok: "mhr_wf rx_mhr" "length (mhr_bytes rx_mhr) = unat (9 :: u8)" "addr_short (src_addr rx_mhr) = 1"
  "ZB_FCF_GET_SRC_ADDRESSING_MODE (frame_control rx_mhr) = ZB_ADDR_16BIT_DEV_OR_BROADCAST"
proof -
  have modes: "ZB_FCF_GET_DST_ADDRESSING_MODE [0x41, 0x88] = 2" "ZB_FCF_GET_SRC_ADDRESSING_MODE [0x41, 0x88] = 2"
    "ZB_FCF_GET_PANID_COMPRESSION_BIT [0x41, 0x88] = 0x40"
    by (simp_all add: ZB_FCF_GET_DST_ADDRESSING_MODE_def ZB_FCF_GET_SRC_ADDRESSING_MODE_def ZB_FCF_GET_PANID_COMPRESSION_BIT_def)
  show "mhr_wf rx_mhr" by (simp add: mhr_wf_def rx_mhr_def mhr_zero_def addr_zero_def)
  show "length (mhr_bytes rx_mhr) = unat (9 :: u8)"
    by (simp add: rx_mhr_def mhr_zero_def mhr_bytes_def dst_bytes_def src_bytes_def modes addr_bytes_def)
  show "addr_short (src_addr rx_mhr) = 1" by (simp add: rx_mhr_def addr_short_def ZB_LETOH16_def)
  show "ZB_FCF_GET_SRC_ADDRESSING_MODE (frame_control rx_mhr) = ZB_ADDR_16BIT_DEV_OR_BROADCAST"
    by (simp add: rx_mhr_def modes zb_config)
qed

lemma sched_init_cb_q: "cb_q (sched (zb_sched_init sched_cleared)) = cb_q (sched sched_cleared)"
  by (simp add: zb_sched_init_def Let_def split: prod.split)

lemma received_example:
  assumes ctr: "length ctr = 4" and body: "4 \<le> length body" "length body \<le> 60"
  shows "\<exists>z nbe w e. received 0 rx_mhr 9 (rx_state z (plain_hdr @ aux_bytes 0 ctr rx_ieee sn @ body)) plain_hdr ctr rx_ieee sn body nbe w e
    \<and> key_seq_number e = 0 \<and> incoming_frame_counter e = 0"
proof -
  obtain z1 where can: "can_take rx_ieee 1 nwk_default z1" using default_takes unfolding rx_ieee_def by blast
  obtain r z2 where u: "zb_address_update rx_ieee 1 True z1 = Some (RET_OK, Some r, z2)" "r < 101"
    "neighbor_of (neighbor nwk_default) r = None" "addr_inv z2"
    using take_address [OF can] by blast
  obtain z where z: "zb_address_update rx_ieee 1 False z1 = Some (RET_OK, Some r, z)" "zb_address_lock r z = Some z2"
    using update_unlocked [OF u(1)] by blast
  have rz: "r < length (addr_map z)" "length (addr_map z2) = length (addr_map z)"
    using z(2) by (auto simp: zb_address_lock_def arr_get_def arr_set_def bind_eq_Some_conv split: if_splits)
  have lz: "length (addr_map z) = 101" "am_lock_cnt (addr_map z ! r) \<noteq> 15"
    using rz u(4) lock_unlock [OF rz(1)] z(2) by (auto simp: addr_inv_def sorted_inv_def)
  have room: "unat (base_neighbor_used (neighbor nwk_default)) + 1 < unat (base_neighbor_size (neighbor nwk_default))"
    by (simp add: nwk_default_def zb_nwk_neighbor_clear_def zb_nwk_neighbor_init_def neighbor_tbl_zero_def zb_config)
  have nbi: "nb_inv (neighbor nwk_default)" using can unfolding can_take_def by blast
  obtain n nb' z3 where nb: "zb_nwk_neighbor_get (ucast (nib_depth nwk_default)) r True (neighbor nwk_default) z = Some (RET_OK, Some n, nb', z3)"
    "nb_inv nb'" "neighbor_of nb' = (neighbor_of (neighbor nwk_default))(r \<mapsto> new_neighbor_ent r (ucast (nib_depth nwk_default)))"
    "n = unat (base_neighbor_used (neighbor nwk_default))" "addr_to_neighbor nb' ! r = of_nat n"
    using neighbor_get_new [OF nbi u(2,3) room lz, of "ucast (nib_depth nwk_default)"] by blast
  have "n < 255" using room nb_invD [OF nbi] nb(4) by simp
  then have new: "base_neighbor nb' ! n = new_neighbor_ent r (ucast (nib_depth nwk_default))"
    using arg_cong [OF nb(3), of "\<lambda>f. f r"] u(2) nb(5) byte_of_nat [of n] by (simp add: neighbor_of_def)
  have nl: "n < length (base_neighbor nb')" using room nb(4) nb_invD [OF nbi] nb_invD [OF nb(2)] by simp
  let ?frame = "plain_hdr @ aux_bytes 0 ctr rx_ieee sn @ body" and ?b = "buf_of (plain_hdr @ aux_bytes 0 ctr rx_ieee sn @ body)"
  let ?g = "rx_state z1 ?frame" and ?w = "nwk_default\<lparr>neighbor := nb', addr_tbl := z3\<rparr>"
  have l: "length rx_ieee = 8" "length plain_hdr = 8" by (simp_all add: rx_ieee_def plain_hdr_def)
  have fl: "length ?frame = 22 + length body" using ctr l by simp
  have "length ?frame \<le> 128" using fl body by simp
  note B = buf_of_ok [OF this]
  have pl: "payload ?b = (plain_hdr @ aux_bytes 0 ctr rx_ieee sn) @ body" using B(2) by simp
  have "payload ?b = (plain_hdr @ [0] @ ctr) @ rx_ieee @ ([sn] @ body)" using pl by (simp add: aux_bytes_def)
  from payload_read [OF B(1) this] l ctr B(4) have ri: "buf_read (data_buf ?b) 33 8 = Some rx_ieee" by simp
  have "payload ?b = take 4 plain_hdr @ [1, 0] @ ([1, 7] @ aux_bytes 0 ctr rx_ieee sn @ body)" using pl by (simp add: plain_hdr_def)
  then have rs: "buf_read (data_buf ?b) 24 2 = Some [1, 0]"
    by (rule payload_read [OF B(1)]) (simp_all add: B(4) l)
  have "unsecure_sender (data_buf ?b) 20 28 rx_mhr (snwk ?g) = Some (RET_OK, Some n, ?w)"
    using rx_mhr_ok(3,4) ri rs z(1) nb(1)
    by (simp add: unsecure_sender_def rx_state_def ZB_LETOH16_def nwk_default_def)
  moreover have "arr_get (pool (bpool ?g)) 0 = Some ?b"
    using bufs_init_inv(1) by (simp add: rx_state_def sec_default_def arr_get_def bp_inv_def zb_config)
  moreover have "rb_inv (cb_q (sched ?g))"
    using cleared_cb_q(1) unfolding sched_init_cb_q by (simp add: rx_state_def sec_default_def)
  moreover have "keys_inv ?g" "authenticated ?g" using sec_default_keys(1) by (simp_all add: rx_state_def keys_inv_def sec_default_def)
  moreover have "arr_get (base_neighbor (neighbor ?w)) n = Some (new_neighbor_ent r (ucast (nib_depth nwk_default)))"
    using new nl by (simp add: arr_get_def)
  ultimately have "received 0 rx_mhr 9 ?g plain_hdr ctr rx_ieee sn body n ?w (new_neighbor_ent r (ucast (nib_depth nwk_default)))"
    unfolding received_def using rx_mhr_ok(1,2) ctr body l plain_hdr_wf pl B(1,4,5) fl
    by (auto simp: ZB_IO_BUF_SIZE_def)
  then show ?thesis
    by (intro exI [of _ z1] exI [of _ n] exI [of _ ?w] exI) (auto simp: new_neighbor_ent_def neighbor_ent_zero_def)
qed

section \<open>Which frames are accepted\<close>

text \<open>The counter \<open>c\<close> under the key number \<open>sn\<close> is not below the last one remembered for that number.\<close>

definition fresh_counter :: "u8 \<Rightarrow> u32 \<Rightarrow> zb_neighbor_tbl_ent \<Rightarrow> bool" where
  "fresh_counter sn c e \<longleftrightarrow>
     (let seen = (if key_seq_number e = sn then incoming_frame_counter e else 0) in seen \<le> c \<and> seen \<noteq> - 1)"

definition opens :: "u8 list \<Rightarrow> u8 list \<Rightarrow> u8 list \<Rightarrow> u8 list \<Rightarrow> u8 \<Rightarrow> u8 list \<Rightarrow> u8 list \<Rightarrow> bool" where
  "opens key h ctr ieee sn body t \<longleftrightarrow>
     body = sealed key (ccm_nonce ieee ctr ZB_NWK_STD_SECUR_CONTROL) (h @ aux_bytes ZB_NWK_STD_SECUR_CONTROL ctr ieee sn) t"

lemma check_fresh:
  "(\<exists>e'. check_frame_counter True sn c e = (None, e')) \<longleftrightarrow> fresh_counter sn c e"
  "\<exists>st e'. check_frame_counter False sn c e = (Some st, e')"
  "\<not> fresh_counter sn c e \<Longrightarrow> \<exists>st e'. check_frame_counter True sn c e = (Some st, e')"
  by (auto simp: check_frame_counter_def fresh_counter_def Let_def not_less not_le split: if_splits)

lemma opens_sealed: "opens key h ctr ieee sn (sealed key (ccm_nonce ieee ctr ZB_NWK_STD_SECUR_CONTROL)
    (h @ aux_bytes ZB_NWK_STD_SECUR_CONTROL ctr ieee sn) t) t"
  by (simp add: opens_def)

lemma unsecure_decides:
  assumes rec: "received i mhr n g h ctr ieee sn body nbe w e" and rnd: "16 \<le> length rnd"
  shows "\<exists>ret g'. zb_nwk_unsecure_frame cb rnd i mhr n g = Some (ret, g')
    \<and> (ret = RET_OK \<longleftrightarrow> fresh_counter sn (ZB_LETOH32 ctr) e
         \<and> (\<exists>k t. secur_nwk_key_by_seq sn g = Some (Some k) \<and> opens (ms_key (secur_material_set g ! k)) h ctr ieee sn body t))
    \<and> (\<forall>k t. ret = RET_OK \<and> secur_nwk_key_by_seq sn g = Some (Some k) \<and> opens (ms_key (secur_material_set g ! k)) h ctr ieee sn body t
          \<longrightarrow> (\<exists>b' e'. arr_get (pool (bpool g')) i = Some b'
                \<and> payload b' = (h @ aux_bytes ZB_NWK_STD_SECUR_CONTROL ctr ieee sn) @ t
                \<and> arr_get (base_neighbor (neighbor (snwk g'))) nbe = Some e'
                \<and> key_seq_number e' = sn \<and> incoming_frame_counter e' = ZB_LETOH32 ctr))"
proof -
  have ki: "keys_inv g" using rec by (simp add: received_def)
  obtain key where key: "secur_nwk_key_by_seq sn g = Some key" using key_by_seq_ok [OF ki, of sn] by blast
  have refused: ?thesis if "check_frame_counter (key \<noteq> None) sn (ZB_LETOH32 ctr) e = (Some st, e')"
    "key = None \<or> \<not> fresh_counter sn (ZB_LETOH32 ctr) e" for st e'
    using unsecure_refused [OF rec key that(1), of cb rnd] that(2) key by auto
  show ?thesis
  proof (cases "key = None \<or> \<not> fresh_counter sn (ZB_LETOH32 ctr) e")
    case True
    then obtain st e' where "check_frame_counter (key \<noteq> None) sn (ZB_LETOH32 ctr) e = (Some st, e')"
      using check_fresh(2,3) [of sn "ZB_LETOH32 ctr" e] by (cases key) auto
    with refused True show ?thesis by blast
  next
    case False
    then obtain k e' where k: "key = Some k" and c: "check_frame_counter True sn (ZB_LETOH32 ctr) e = (None, e')"
      using check_fresh(1) [of sn "ZB_LETOH32 ctr" e] by (cases key) auto
    note d = unsecure_decrypted [OF rec key [unfolded k] c rnd, of cb, folded opens_def]
    then obtain ret g' where run: "zb_nwk_unsecure_frame cb rnd i mhr n g = Some (ret, g')"
      "ret = (if \<exists>t. opens (ms_key (secur_material_set g ! k)) h ctr ieee sn body t then RET_OK else RET_ERROR)"
      "\<exists>e''. arr_get (base_neighbor (neighbor (snwk g'))) nbe = Some e''
          \<and> key_seq_number e'' = sn \<and> incoming_frame_counter e'' = ZB_LETOH32 ctr"
      "\<forall>t. opens (ms_key (secur_material_set g ! k)) h ctr ieee sn body t \<longrightarrow> (\<exists>b'. arr_get (pool (bpool g')) i = Some b' \<and> buf_wf b'
          \<and> payload b' = (h @ aux_bytes ZB_NWK_STD_SECUR_CONTROL ctr ieee sn) @ t)"
      by blast
    have "ret = RET_OK \<longleftrightarrow> (\<exists>t. opens (ms_key (secur_material_set g ! k)) h ctr ieee sn body t)" using run(2) by simp
    with run(1,3,4) False key k show ?thesis by (intro exI [of _ ret] exI [of _ g']) auto
  qed
qed

text \<open>
  C3. The whole decision about a received frame whose sender is in the neighbor table. It is accepted
  exactly when its key number is known, its counter is not below the last one remembered for that
  number (an equal one passes), and its body is the sealing of some text under that key, with the
  nonce from its auxiliary header and its header authenticated. Then the packet is the header with
  that text, and the entry of the sender remembers the counter.
\<close>

theorem unsecure_frame_decides:
  assumes "received i mhr n g h ctr ieee sn body nbe w e" and "16 \<le> length rnd"
  shows "\<exists>ret g'. zb_nwk_unsecure_frame cb rnd i mhr n g = Some (ret, g')
    \<and> (ret = RET_OK \<longleftrightarrow> fresh_counter sn (ZB_LETOH32 ctr) e
         \<and> (\<exists>k t. secur_nwk_key_by_seq sn g = Some (Some k) \<and> opens (ms_key (secur_material_set g ! k)) h ctr ieee sn body t))
    \<and> (\<forall>k t. ret = RET_OK \<and> secur_nwk_key_by_seq sn g = Some (Some k) \<and> opens (ms_key (secur_material_set g ! k)) h ctr ieee sn body t
          \<longrightarrow> (\<exists>b' e'. arr_get (pool (bpool g')) i = Some b'
                \<and> payload b' = (h @ aux_bytes ZB_NWK_STD_SECUR_CONTROL ctr ieee sn) @ t
                \<and> arr_get (base_neighbor (neighbor (snwk g'))) nbe = Some e'
                \<and> key_seq_number e' = sn \<and> incoming_frame_counter e' = ZB_LETOH32 ctr))"
  by (rule unsecure_decides [OF assms])

lemma rx_state_keys:
  "secur_material_set (rx_state z f) = secur_material_set sec_default"
  "active_secur_material_i (rx_state z f) = active_secur_material_i sec_default"
  by (simp_all add: rx_state_def)

text \<open>Seven bytes sealed with the key 0 and the counter 5, received by the device of the example.\<close>

theorem unsecure_frame_decides_witness:
  "\<exists>z body g'. zb_nwk_unsecure_frame 9 (replicate 16 0) 0 rx_mhr 9
      (rx_state z (plain_hdr @ aux_bytes 0 [5, 0, 0, 0] rx_ieee 0 @ body)) = Some (RET_OK, g')
    \<and> (\<exists>b'. arr_get (pool (bpool g')) 0 = Some b'
          \<and> payload b' = (plain_hdr @ aux_bytes ZB_NWK_STD_SECUR_CONTROL [5, 0, 0, 0] rx_ieee 0) @ [1, 2, 3, 4, 5, 6, 7])"
proof -
  let ?body = "sealed (replicate 16 1) (ccm_nonce rx_ieee [5, 0, 0, 0] ZB_NWK_STD_SECUR_CONTROL)
      (plain_hdr @ aux_bytes ZB_NWK_STD_SECUR_CONTROL [5, 0, 0, 0] rx_ieee 0) [1, 2, 3, 4, 5, 6, 7]"
  have "length ?body = 11" by simp
  then have l: "length [5, 0, 0, 0 :: u8] = 4" "4 \<le> length ?body" "length ?body \<le> 60" by simp_all
  obtain z nbe w e where rec: "received 0 rx_mhr 9 (rx_state z (plain_hdr @ aux_bytes 0 [5, 0, 0, 0] rx_ieee 0 @ ?body)) plain_hdr
      [5, 0, 0, 0] rx_ieee 0 ?body nbe w e" and e: "key_seq_number e = 0" "incoming_frame_counter e = 0"
    using received_example [OF l, of 0] by blast
  let ?g = "rx_state z (plain_hdr @ aux_bytes 0 [5, 0, 0, 0] rx_ieee 0 @ ?body)"
  have fresh: "fresh_counter 0 (ZB_LETOH32 [5, 0, 0, 0]) e" using e by (simp add: fresh_counter_def)
  have key: "secur_nwk_key_by_seq 0 ?g = Some (Some 0)" "ms_key (secur_material_set ?g ! 0) = replicate 16 1"
    using three_keys_zero [OF sec_default_keys(2)] key_by_seq_cong [OF rx_state_keys] sec_default_keys(2)
    by (simp_all add: rx_state_keys three_keys_def)
  have op: "opens (ms_key (secur_material_set ?g ! 0)) plain_hdr [5, 0, 0, 0] rx_ieee 0 ?body [1, 2, 3, 4, 5, 6, 7]"
    unfolding key(2) by (rule opens_sealed)
  have rnd: "16 \<le> length (replicate 16 (0 :: u8))" by simp
  from unsecure_frame_decides [OF rec rnd, of 9] obtain ret g' where
    run: "zb_nwk_unsecure_frame 9 (replicate 16 0) 0 rx_mhr 9 ?g = Some (ret, g')" and
    iff: "ret = RET_OK \<longleftrightarrow> fresh_counter 0 (ZB_LETOH32 [5, 0, 0, 0]) e \<and> (\<exists>k t. secur_nwk_key_by_seq 0 ?g = Some (Some k)
      \<and> opens (ms_key (secur_material_set ?g ! k)) plain_hdr [5, 0, 0, 0] rx_ieee 0 ?body t)" and
    pk: "\<forall>k t. ret = RET_OK \<and> secur_nwk_key_by_seq 0 ?g = Some (Some k)
      \<and> opens (ms_key (secur_material_set ?g ! k)) plain_hdr [5, 0, 0, 0] rx_ieee 0 ?body t
          \<longrightarrow> (\<exists>b' e'. arr_get (pool (bpool g')) 0 = Some b'
                \<and> payload b' = (plain_hdr @ aux_bytes ZB_NWK_STD_SECUR_CONTROL [5, 0, 0, 0] rx_ieee 0) @ t
                \<and> arr_get (base_neighbor (neighbor (snwk g'))) nbe = Some e'
                \<and> key_seq_number e' = 0 \<and> incoming_frame_counter e' = ZB_LETOH32 [5, 0, 0, 0])"
    by (elim exE conjE) (rule that)
  have "ret = RET_OK" unfolding iff using fresh key(1) op by blast
  with run pk key(1) op show ?thesis by blast
qed

text \<open>
  One frame anybody can send, with a key number the device does not know and no valid tag, clears
  the memory of counters: it is refused, but afterwards every counter passes for the key in use
  before, so that each recorded frame of that neighbor is accepted once more.
\<close>

theorem forged_frame_clears_counter:
  assumes "received i mhr n g h ctr ieee sn body nbe w e" and "secur_nwk_key_by_seq sn g = Some None" and "key_seq_number e \<noteq> sn"
  shows "\<exists>g' e'. zb_nwk_unsecure_frame cb rnd i mhr n g = Some (RET_ERROR, g')
    \<and> arr_get (base_neighbor (neighbor (snwk g'))) nbe = Some e'
    \<and> incoming_frame_counter e' = 0 \<and> key_seq_number e' = sn \<and> (\<forall>c. fresh_counter (key_seq_number e) c e')"
proof -
  obtain st e' where c: "check_frame_counter (None \<noteq> (None :: nat option)) sn (ZB_LETOH32 ctr) e = (Some st, e')"
    using check_fresh(2) [of sn "ZB_LETOH32 ctr" e] by auto
  then have e': "incoming_frame_counter e' = 0" "key_seq_number e' = sn"
    using assms(3) by (auto simp: check_frame_counter_def Let_def split: if_splits)
  obtain g' where run: "zb_nwk_unsecure_frame cb rnd i mhr n g = Some (RET_ERROR, g')"
    "same_sec (g\<lparr>snwk := upd_neighbor nbe e' w\<rparr>) g'"
    using unsecure_refused [OF assms(1,2) c, of cb rnd] by blast
  have "arr_get (base_neighbor (neighbor w)) nbe = Some e" using assms(1) by (simp add: received_def)
  from get_upd [OF this] run(2) have "arr_get (base_neighbor (neighbor (snwk g'))) nbe = Some e'" by (simp add: same_sec_def)
  with run(1) e' assms(3) show ?thesis by (intro exI [of _ g'] exI [of _ e']) (simp add: fresh_counter_def)
qed

theorem forged_frame_clears_counter_witness:
  "\<exists>z nbe g' e'. zb_nwk_unsecure_frame 9 [] 0 rx_mhr 9 (rx_state z (plain_hdr @ aux_bytes 0 [0, 0, 0, 0] rx_ieee 7 @ [0, 0, 0, 0]))
      = Some (RET_ERROR, g')
    \<and> arr_get (base_neighbor (neighbor (snwk g'))) nbe = Some e' \<and> key_seq_number e' = 7 \<and> (\<forall>c. fresh_counter 0 c e')"
proof -
  have l: "length [0, 0, 0, 0 :: u8] = 4" "4 \<le> length [0, 0, 0, 0 :: u8]" "length [0, 0, 0, 0 :: u8] \<le> 60" by simp_all
  obtain z nbe w e where rec: "received 0 rx_mhr 9 (rx_state z (plain_hdr @ aux_bytes 0 [0, 0, 0, 0] rx_ieee 7 @ [0, 0, 0, 0]))
      plain_hdr [0, 0, 0, 0] rx_ieee 7 [0, 0, 0, 0] nbe w e" and e: "key_seq_number e = 0"
    using received_example [OF l, of 7] by blast
  let ?g = "rx_state z (plain_hdr @ aux_bytes 0 [0, 0, 0, 0] rx_ieee 7 @ [0, 0, 0, 0])"
  have "secur_nwk_key_by_seq 7 ?g = Some None"
    using sec_default_keys(2)
    by (simp add: rx_state_keys three_keys_def secur_nwk_key_by_seq_def ZB_SECUR_N_SECUR_MATERIAL_def three_Suc)
  moreover have "key_seq_number e \<noteq> 7" using e by simp
  ultimately show ?thesis
    using forged_frame_clears_counter [OF rec, of 9 "[]"] unfolding e by blast
qed

section \<open>From the sender to the receiver\<close>

text \<open>
  C4. What one device secures the next one accepts: a frame secured with the active key, carried into a
  buffer of a device that has the same key under the same number and has seen no later counter of
  the sender, is accepted, and the packet is the header and the text it was made of.
\<close>

theorem secured_frame_is_accepted:
  fixes gs :: "'cb sec_g"
  assumes keys: "keys_inv gs" "secur_nwk_key_by_seq (active_key_seq_number gs) gs = Some (Some j)"
    and own: "length (mac_extended_address gs) = 8"
    and src: "buf_wf src" "payload src = mh @ (h @ aux_bytes sc ctr ieee sn) @ m" "use_same_key (hdr src) = 0"
    and l: "length ctr = 4" "length ieee = 8" "hdr_wf h"
    and dst: "buf_wf dst" and size: "length h + 14 + length m + 4 \<le> 125" "length mh + length h + 18 + length m < ZB_IO_BUF_SIZE"
    and sw: "\<not> (is_tc gs \<and> outgoing_frame_counter gs + 1 = ZB_SECUR_NWK_COUNTER_LIMIT)"
    and rnd: "16 \<le> length rnd"
  shows "\<exists>src' dst' gs' body. zb_nwk_secure_frame cb src (length mh) dst gs = Some (RET_OK, src', dst', gs')
    \<and> payload dst' = mh @ (h @ aux_bytes ZB_NWK_STD_SECUR_CONTROL_ZEROED_LEVEL (ZB_HTOLE32 (outgoing_frame_counter gs))
        (mac_extended_address gs) (active_key_seq_number gs)) @ body \<and> length body = length m + 4
    \<and> (\<forall>g i mhr n nbe w e k. received i mhr n (g :: 'cb sec_g) h (ZB_HTOLE32 (outgoing_frame_counter gs))
            (mac_extended_address gs) (active_key_seq_number gs) body nbe w e
          \<and> secur_nwk_key_by_seq (active_key_seq_number gs) g = Some (Some k)
          \<and> ms_key (secur_material_set g ! k) = ms_key (secur_material_set gs ! j)
          \<and> fresh_counter (active_key_seq_number gs) (outgoing_frame_counter gs) e
        \<longrightarrow> (\<exists>g' b'. zb_nwk_unsecure_frame cb rnd i mhr n g = Some (RET_OK, g') \<and> arr_get (pool (bpool g')) i = Some b'
              \<and> payload b' = (h @ aux_in gs) @ m))"
proof -
  let ?c = "ZB_HTOLE32 (outgoing_frame_counter gs)" and ?x = "mac_extended_address gs" and ?sn = "active_key_seq_number gs"
  let ?body = "sealed (ms_key (secur_material_set gs ! j)) (own_nonce gs) (h @ aux_in gs) m"
  obtain src' dst' where s: "zb_nwk_secure_frame cb src (length mh) dst gs
      = Some (RET_OK, src', dst', gs\<lparr>outgoing_frame_counter := outgoing_frame_counter gs + 1\<rparr>)"
    "payload dst' = mh @ (h @ aux_bytes ZB_NWK_STD_SECUR_CONTROL_ZEROED_LEVEL ?c ?x ?sn) @ ?body"
    using secure_ok [OF keys own src l dst size sw, of cb] by blast
  have "length (ms_key (secur_material_set gs ! j)) = 16" using key_by_seq_ok [OF keys(1), of ?sn] keys(2) by auto
  then have lb: "length ?body = length m + 4" by simp
  have op: "opens (ms_key (secur_material_set gs ! j)) h ?c ?x ?sn ?body m"
    by (simp add: opens_def own_nonce_def aux_in_def)
  have acc: "\<exists>g' b'. zb_nwk_unsecure_frame cb rnd i mhr n g = Some (RET_OK, g') \<and> arr_get (pool (bpool g')) i = Some b'
      \<and> payload b' = (h @ aux_in gs) @ m"
    if rec: "received i mhr n g h ?c ?x ?sn ?body nbe w e" and k: "secur_nwk_key_by_seq ?sn g = Some (Some k)"
      "ms_key (secur_material_set g ! k) = ms_key (secur_material_set gs ! j)"
      and fr: "fresh_counter ?sn (outgoing_frame_counter gs) e" for i mhr n and g :: "'cb sec_g" and nbe w e k
  proof -
    have f: "fresh_counter ?sn (ZB_LETOH32 ?c) e" using fr by simp
    have o: "opens (ms_key (secur_material_set g ! k)) h ?c ?x ?sn ?body m" unfolding k(2) by (rule op)
    obtain ret g' where r: "zb_nwk_unsecure_frame cb rnd i mhr n g = Some (ret, g')" "ret = RET_OK"
      "\<exists>b' e'. arr_get (pool (bpool g')) i = Some b' \<and> payload b' = (h @ aux_bytes ZB_NWK_STD_SECUR_CONTROL ?c ?x ?sn) @ m
        \<and> arr_get (base_neighbor (neighbor (snwk g'))) nbe = Some e' \<and> key_seq_number e' = ?sn
        \<and> incoming_frame_counter e' = ZB_LETOH32 ?c"
      using unsecure_decides [OF rec rnd, of cb] f k(1) o by blast
    from r show ?thesis unfolding aux_in_def by blast
  qed
  show ?thesis
    by (intro exI [of _ src'] exI [of _ dst'] exI [of _ "gs\<lparr>outgoing_frame_counter := outgoing_frame_counter gs + 1\<rparr>"] exI [of _ ?body]
        conjI s lb) (use acc in blast)
qed

text \<open>The frame of the example goes from the device \<open>rx_ieee\<close> to the receiver of the example.\<close>

theorem secured_frame_is_accepted_witness:
  "\<exists>src' dst' gs' z body g' b'. zb_nwk_secure_frame 9 plain_frame 0 plain_frame sec_default = Some (RET_OK, src', dst', gs')
    \<and> payload dst' = plain_hdr @ aux_bytes ZB_NWK_STD_SECUR_CONTROL_ZEROED_LEVEL (ZB_HTOLE32 0) rx_ieee 0 @ body
    \<and> zb_nwk_unsecure_frame 9 (replicate 16 0) 0 rx_mhr 9 (rx_state z (plain_hdr @ aux_bytes 0 (ZB_HTOLE32 0) rx_ieee 0 @ body))
        = Some (RET_OK, g')
    \<and> arr_get (pool (bpool g')) 0 = Some b' \<and> payload b' = (plain_hdr @ aux_in sec_default) @ [1, 2, 3]"
proof -
  let ?p = "[] @ (plain_hdr @ aux_bytes 0 [0, 0, 0, 0] (replicate 8 0) 0) @ [1, 2, 3]"
  have "length ?p \<le> 128" by (simp add: plain_hdr_def)
  note b = buf_of_ok [OF this, folded plain_frame_def]
  have d: "active_key_seq_number sec_default = 0" "outgoing_frame_counter sec_default = 0" "mac_extended_address sec_default = rx_ieee"
    by (simp_all add: sec_default_def rx_ieee_def)
  have key: "secur_nwk_key_by_seq (active_key_seq_number sec_default) sec_default = Some (Some 0)"
    using three_keys_zero [OF sec_default_keys(2)] by (simp add: d)
  have sz: "length plain_hdr + 14 + length [1, 2, 3 :: u8] + 4 \<le> 125"
    "length ([] :: u8 list) + length plain_hdr + 18 + length [1, 2, 3 :: u8] < ZB_IO_BUF_SIZE"
    by (simp_all add: plain_hdr_def ZB_IO_BUF_SIZE_def)
  have l: "length [0, 0, 0, 0 :: u8] = 4" "length (replicate 8 (0 :: u8)) = 8" by simp_all
  have sw: "\<not> (is_tc sec_default \<and> outgoing_frame_counter sec_default + 1 = ZB_SECUR_NWK_COUNTER_LIMIT)"
    by (simp add: d ZB_SECUR_NWK_COUNTER_LIMIT_def)
  have rnd: "16 \<le> length (replicate 16 (0 :: u8))" by simp
  obtain src' dst' gs' body where s: "zb_nwk_secure_frame 9 plain_frame (length ([] :: u8 list)) plain_frame sec_default = Some (RET_OK, src', dst', gs')"
    "payload dst' = [] @ (plain_hdr @ aux_bytes ZB_NWK_STD_SECUR_CONTROL_ZEROED_LEVEL (ZB_HTOLE32 0) rx_ieee 0) @ body"
    "length body = length [1, 2, 3 :: u8] + 4"
    and acc: "\<forall>g i mhr n nbe w e k. received i mhr n (g :: nat sec_g) plain_hdr (ZB_HTOLE32 0) rx_ieee 0 body nbe w e
          \<and> secur_nwk_key_by_seq 0 g = Some (Some k)
          \<and> ms_key (secur_material_set g ! k) = ms_key (secur_material_set sec_default ! 0)
          \<and> fresh_counter 0 0 e
        \<longrightarrow> (\<exists>g' b'. zb_nwk_unsecure_frame 9 (replicate 16 0) i mhr n g = Some (RET_OK, g') \<and> arr_get (pool (bpool g')) i = Some b'
              \<and> payload b' = (plain_hdr @ aux_in sec_default) @ [1, 2, 3])"
    using secured_frame_is_accepted [OF sec_default_keys(1) key sec_default_keys(3) b(1,2,3) l plain_hdr_wf b(1) sz sw rnd, of 9]
    unfolding d by (elim exE conjE) (rule that)
  have lb: "4 \<le> length body" "length body \<le> 60" using s(3) by simp_all
  obtain z nbe w e where rec: "received 0 rx_mhr 9 (rx_state z (plain_hdr @ aux_bytes 0 (ZB_HTOLE32 0) rx_ieee 0 @ body)) plain_hdr
      (ZB_HTOLE32 0) rx_ieee 0 body nbe w e" and e: "key_seq_number e = 0" "incoming_frame_counter e = 0"
    using received_example [OF length_htole32 lb, of 0 0] by blast
  have k: "secur_nwk_key_by_seq 0 (rx_state z f) = Some (Some 0)" for f
    using key key_by_seq_cong [OF rx_state_keys] by (simp add: d)
  have "fresh_counter 0 0 e" using e by (simp add: fresh_counter_def)
  moreover have "ms_key (secur_material_set (rx_state z f) ! 0) = ms_key (secur_material_set sec_default ! 0)" for f
    by (simp add: rx_state_keys)
  ultimately obtain g' b' where "zb_nwk_unsecure_frame 9 (replicate 16 0) 0 rx_mhr 9
      (rx_state z (plain_hdr @ aux_bytes 0 (ZB_HTOLE32 0) rx_ieee 0 @ body)) = Some (RET_OK, g')"
    "arr_get (pool (bpool g')) 0 = Some b'" "payload b' = (plain_hdr @ aux_in sec_default) @ [1, 2, 3]"
    using acc rec k by blast
  with s show ?thesis by (intro exI conjI) (assumption | simp)+
qed

section \<open>Short frames\<close>

lemma mod_wraps: "- m \<le> k \<Longrightarrow> k < 0 \<Longrightarrow> k mod m = k + m" for k m :: int
  using mod_add_self2 [of k m] mod_pos_pos_trivial [of "k + m" m] by simp

lemma short_length_wraps:
  assumes "l < hs" and "hs \<le> 148"
  defines "x \<equiv> of_nat l - of_nat hs :: u32"
  shows "\<not> x < 4" and "148 < unat (ucast (of_nat (unat x) - 4 :: u32) :: u16)"
proof -
  let ?k = "int l - int hs"
  have k: "?k < 0" "- 148 \<le> ?k" using assms(1,2) by simp_all
  have "uint x = ?k mod 2 ^ 32"
    unfolding x_def using assms(1,2) by (simp add: uint_word_ariths unsigned_of_nat take_bit_eq_mod mod_simps)
  then have x: "uint x = ?k + 2 ^ 32" using k by (simp add: mod_wraps)
  then show "\<not> x < 4" using k by (simp add: word_less_def)
  have "uint (of_nat (unat x) - 4 :: u32) = ?k + 2 ^ 32 - 4" using x k by (simp add: uint_sub_if')
  also have "\<dots> = ?k - 4 + 2 ^ 16 * 2 ^ 16" by simp
  finally have y: "uint (of_nat (unat x) - 4 :: u32) = ?k - 4 + 2 ^ 16 * 2 ^ 16" .
  have "uint (ucast y :: u16) = uint y mod 2 ^ 16" for y :: u32
    by (simp add: unsigned_ucast_eq take_bit_eq_mod)
  from this [of "of_nat (unat x) - 4"]
  have "uint (ucast (of_nat (unat x) - 4 :: u32) :: u16) = (?k - 4 + 2 ^ 16 * 2 ^ 16) mod 2 ^ 16" unfolding y .
  also have "\<dots> = (?k - 4) mod 2 ^ 16" by (rule mod_mult_self2)
  also have "\<dots> = ?k - 4 + 2 ^ 16" using k by (intro mod_wraps) simp_all
  finally have "148 < uint (ucast (of_nat (unat x) - 4 :: u32) :: u16)" using k by simp
  then show "148 < unat (ucast (of_nat (unat x) - 4 :: u32) :: u16)"
    by (simp flip: nat_uint_eq)
qed

text \<open>Decryption of a frame that is shorter than its header leaves the buffer.\<close>

lemma short_decrypt:
  assumes "ZB_BUF_LEN b < hs" and "hs \<le> 148" and "length (data_buf b) = 148"
  shows "\<not> payload_size b hs < of_nat ZB_CCM_M" and "unsecure_decrypt hs aux key mhr n b = None"
proof -
  note w = short_length_wraps [OF assms(1,2), folded payload_size_def]
  show "\<not> payload_size b hs < of_nat ZB_CCM_M" using w(1) by (simp add: zb_config)
  have "zb_ccm_decrypt_n_auth_stdsecur key nonce (b\<lparr>data_buf := d\<rparr>) hs (unat (payload_size b hs)) = None"
    if "length d = 148" for d nonce
    using w(2) that by (simp add: zb_ccm_decrypt_n_auth_stdsecur_def zb_ccm_decrypt_n_auth_def buf_read_def zb_config Let_def)
  moreover have "length d = 148" if "arr_set (data_buf b) aux v = Some d" for d v
    using that assms(3) by (auto simp: arr_set_def split: if_splits)
  ultimately show "unsecure_decrypt hs aux key mhr n b = None"
    by (cases "arr_set (data_buf b) aux ZB_NWK_STD_SECUR_CONTROL") (auto simp: unsecure_decrypt_def Let_def bind_eq_None_conv)
qed

text \<open>
  C6. A frame whose length field is smaller than the header its own frame control announces passes the
  test for a too short frame, because the size of the payload wraps around in an unsigned integer,
  and the decryption then reads and writes outside of the buffer. The frame needs no valid tag, only
  a key number the device knows and a counter it has not seen.
\<close>

theorem short_frame_overreads:
  assumes au: "authenticated g" and b: "arr_get (pool (bpool g)) i = Some b" "length (data_buf b) = ZB_IO_BUF_SIZE"
    and h: "holds (data_buf b) (ZB_BUF_BEGIN b) (h @ aux_bytes sc ctr ieee sn)" "hdr_wf h" "length ctr = 4" "length ieee = 8"
    and len: "ZB_BUF_LEN b < length h + 14"
    and snd: "unsecure_sender (data_buf b) (ZB_BUF_BEGIN b) (ZB_BUF_BEGIN b + length h) mhr (snwk g) = Some (RET_OK, Some nbe, w)"
    and e: "arr_get (base_neighbor (neighbor w)) nbe = Some e"
    and key: "secur_nwk_key_by_seq sn g = Some (Some k)" and fresh: "fresh_counter sn (ZB_LETOH32 ctr) e"
  shows "zb_nwk_unsecure_frame cb rnd i mhr n g = None"
proof -
  have hs: "zb_nwk_hdr_size (take 2 h) = length h + 14" "2 \<le> length h" using h(2) by (simp_all add: hdr_wf_def)
  have fit: "length h + 14 \<le> 148" using h(1,3,4) b(2) by (simp add: holds_def ZB_IO_BUF_SIZE_def aux_bytes_def)
  have "take 2 h @ drop 2 h @ aux_bytes sc ctr ieee sn = h @ aux_bytes sc ctr ieee sn" by simp
  from h(1) [folded this] have "holds (data_buf b) (ZB_BUF_BEGIN b) (take 2 h)" unfolding holds_append by blast
  then have r1: "buf_read (data_buf b) (ZB_BUF_BEGIN b) 2 = Some (take 2 h)" by (rule buf_read_holds) (use hs in simp)
  have r2: "aux_place (ZB_BUF_BEGIN b) (length h + 14) = Some (ZB_BUF_BEGIN b + length h)"
    using aux_place_at [of "take 2 h" "length h"] hs by simp
  have "holds (data_buf b) (ZB_BUF_BEGIN b + length h) ([sc] @ ctr @ ieee @ [sn])"
    using h(1) unfolding holds_append [of _ _ h] aux_bytes_def by blast
  from this [unfolded holds_append]
  have "holds (data_buf b) (ZB_BUF_BEGIN b + length h + 1) ctr" "holds (data_buf b) (ZB_BUF_BEGIN b + length h + 13) [sn]"
    using h(3,4) by (simp_all add: add.commute [of 13])
  then have r3: "buf_read (data_buf b) (ZB_BUF_BEGIN b + length h + 1) 4 = Some ctr"
    "arr_get (data_buf b) (ZB_BUF_BEGIN b + length h + 13) = Some sn"
    using h(3) by (simp_all add: buf_read_holds arr_get_holds)
  obtain e' where c: "check_frame_counter True sn (ZB_LETOH32 ctr) e = (None, e')" using check_fresh(1) fresh by blast
  have kk: "secur_nwk_key_by_seq sn (g\<lparr>snwk := w\<rparr>) = Some (Some k)" using key key_by_seq_cong [of "g\<lparr>snwk := w\<rparr>" g] by simp
  have "length (data_buf b) = 148" using b(2) by (simp add: ZB_IO_BUF_SIZE_def)
  note short_decrypt [OF len fit this]
  with r1 hs r2 r3 au b(1) snd e kk c set_upd [OF e, of e'] show ?thesis
    unfolding zb_nwk_unsecure_frame_def Let_def by (simp add: bind_eq_None_conv)
qed

text \<open>The frame of the example with its length cut to ten bytes.\<close>

theorem short_frame_overreads_witness:
  "\<exists>z. zb_nwk_unsecure_frame 9 [] 0 rx_mhr 9
     (let g = rx_state z (plain_hdr @ aux_bytes 0 [0, 0, 0, 0] rx_ieee 0 @ [0, 0, 0, 0]);
          b = pool (bpool g) ! 0
      in g\<lparr>bpool := (bpool g)\<lparr>pool := (pool (bpool g))[0 := b\<lparr>hdr := (hdr b)\<lparr>hdr_len := 10\<rparr>\<rparr>]\<rparr>\<rparr>) = None"
proof -
  have l: "length [0, 0, 0, 0 :: u8] = 4" "4 \<le> length [0, 0, 0, 0 :: u8]" "length [0, 0, 0, 0 :: u8] \<le> 60" by simp_all
  obtain z nbe w e where rec: "received 0 rx_mhr 9 (rx_state z (plain_hdr @ aux_bytes 0 [0, 0, 0, 0] rx_ieee 0 @ [0, 0, 0, 0]))
      plain_hdr [0, 0, 0, 0] rx_ieee 0 [0, 0, 0, 0] nbe w e" and e: "key_seq_number e = 0" "incoming_frame_counter e = 0"
    using received_example [OF l, of 0] by blast
  let ?g = "rx_state z (plain_hdr @ aux_bytes 0 [0, 0, 0, 0] rx_ieee 0 @ [0, 0, 0, 0])"
  obtain b sc where b: "arr_get (pool (bpool ?g)) 0 = Some b" "buf_wf b"
      "payload b = (plain_hdr @ aux_bytes sc [0, 0, 0, 0] rx_ieee 0) @ [0, 0, 0, 0]"
    and sd: "unsecure_sender (data_buf b) (ZB_BUF_BEGIN b) (ZB_BUF_BEGIN b + length plain_hdr) rx_mhr (snwk ?g) = Some (RET_OK, Some nbe, w)"
    and en: "arr_get (base_neighbor (neighbor w)) nbe = Some e" and au: "authenticated ?g"
    using rec unfolding received_def by blast
  let ?b = "b\<lparr>hdr := (hdr b)\<lparr>hdr_len := 10\<rparr>\<rparr>"
  let ?h = "?g\<lparr>bpool := (bpool ?g)\<lparr>pool := (pool (bpool ?g))[0 := ?b]\<rparr>\<rparr>"
  have B: "ZB_BUF_BEGIN ?b = ZB_BUF_BEGIN b" "ZB_BUF_LEN ?b = 10" "data_buf ?b = data_buf b"
    by (simp_all add: ZB_BUF_BEGIN_def ZB_BUF_LEN_def)
  have g0: "arr_get (pool (bpool ?h)) 0 = Some ?b" "pool (bpool ?g) ! 0 = b" using b(1) by (auto simp: arr_get_def split: if_splits)
  have "holds (data_buf b) (ZB_BUF_BEGIN b) (payload b)" by (rule payload_holds [OF b(2)])
  then have "holds (data_buf b) (ZB_BUF_BEGIN b) (plain_hdr @ aux_bytes sc [0, 0, 0, 0] rx_ieee 0)"
    unfolding b(3) holds_append [of _ _ "plain_hdr @ aux_bytes sc [0, 0, 0, 0] rx_ieee 0"] by blast
  then have ho: "holds (data_buf ?b) (ZB_BUF_BEGIN ?b) (plain_hdr @ aux_bytes sc [0, 0, 0, 0] rx_ieee 0)" unfolding B .
  have sd': "unsecure_sender (data_buf ?b) (ZB_BUF_BEGIN ?b) (ZB_BUF_BEGIN ?b + length plain_hdr) rx_mhr (snwk ?h) = Some (RET_OK, Some nbe, w)"
    using sd unfolding B by simp
  have key: "secur_nwk_key_by_seq 0 ?h = Some (Some 0)"
    using three_keys_zero [OF sec_default_keys(2)] key_by_seq_cong [of ?h sec_default] by (simp add: rx_state_keys)
  have fr: "fresh_counter 0 (ZB_LETOH32 [0, 0, 0, 0]) e" using e by (simp add: fresh_counter_def)
  have "length (data_buf ?b) = ZB_IO_BUF_SIZE" "authenticated ?h" "length rx_ieee = 8" "ZB_BUF_LEN ?b < length plain_hdr + 14"
    using b(2) au B(2) by (simp_all add: buf_wf_def rx_ieee_def plain_hdr_def)
  from short_frame_overreads [OF this(2) g0(1) this(1) ho plain_hdr_wf l(1) this(3,4) sd' en key fr]
  show ?thesis unfolding Let_def g0(2) by (intro exI [of _ z]) (simp add: g0(2))
qed

end
