(* ===== verification/Nwk_Mesh.thy ===== *)
theory Nwk_Mesh
  imports Nwk_Secur
begin

text \<open>
  Mesh routing, \<^verbatim>\<open>nwk/nwk_cr_mesh_routing.c\<close>, the request of the higher layer in
  \<^verbatim>\<open>nwk/nwk_cr_route_discovery.c\<close>, the choice of the next hop and the construction of command frames
  in \<^verbatim>\<open>nwk/nwk_main.c\<close>, and the table macros of \<^verbatim>\<open>nwk/nwk_internal.h\<close>. The state is the routing part of
  \<^verbatim>\<open>ZG->nwk.nib\<close>: the routing table, the route discovery table and the table of packets that wait for a
  route, each with the number of its used entries.

  A pointer to an entry is its index, a buffer is its index in the pool. The functions that are
  scheduled by name are the fields of a record of callbacks. The fields of a received command are
  read before the buffer that holds it is written, and are passed as values.
\<close>

section \<open>State\<close>

definition ZB_NWK_ROUTING_TABLE_SIZE :: nat where [zb_config]: "ZB_NWK_ROUTING_TABLE_SIZE = 5"
definition ZB_NWK_ROUTE_DISCOVERY_TABLE_SIZE :: nat where [zb_config]: "ZB_NWK_ROUTE_DISCOVERY_TABLE_SIZE = 5"
definition ZB_NWK_PENDING_TABLE_SIZE :: nat where [zb_config]: "ZB_NWK_PENDING_TABLE_SIZE = 5"
definition ZB_NWK_ROUTE_DISCOVERY_EXPIRY :: u16 where [zb_config]: "ZB_NWK_ROUTE_DISCOVERY_EXPIRY = 10"
definition ZB_NWK_PENDING_ENTRY_EXPIRY :: "6 word" where [zb_config]: "ZB_NWK_PENDING_ENTRY_EXPIRY = 20"
definition ZB_NWK_STATIC_PATH_COST :: u8 where [zb_config]: "ZB_NWK_STATIC_PATH_COST = 7"
definition ZB_NWK_EXPIRY_ROUTE_DISCOVERY :: zb_time where "ZB_NWK_EXPIRY_ROUTE_DISCOVERY = of_int (2 * ZB_TIME_ONE_SECOND)"
definition ZB_NWK_EXPIRY_PENDING :: zb_time where "ZB_NWK_EXPIRY_PENDING = of_int (5 * ZB_TIME_ONE_SECOND)"
definition ZB_NWK_INTERNAL_NSDU_HANDLE :: u8 where "ZB_NWK_INTERNAL_NSDU_HANDLE = 0xff"
definition ZB_NWK_BROADCAST_ROUTER_COORDINATOR :: u16 where "ZB_NWK_BROADCAST_ROUTER_COORDINATOR = 0xfffc"
definition ZB_NWK_CMD_ROUTE_REQUEST :: u8 where "ZB_NWK_CMD_ROUTE_REQUEST = 1"
definition ZB_NWK_CMD_ROUTE_REPLY :: u8 where "ZB_NWK_CMD_ROUTE_REPLY = 2"
definition ZB_NWK_FRAME_TYPE_DATA :: u8 where "ZB_NWK_FRAME_TYPE_DATA = 0"
definition ZB_NWK_FRAME_TYPE_COMMAND :: u8 where "ZB_NWK_FRAME_TYPE_COMMAND = 1"
definition ZB_NWK_STATUS_ROUTE_ERROR :: u8 where "ZB_NWK_STATUS_ROUTE_ERROR = 0xd1"
definition ZB_NWK_COMMAND_STATUS_NO_ROUTE_AVAILABLE :: u8 where "ZB_NWK_COMMAND_STATUS_NO_ROUTE_AVAILABLE = 0"
definition ZB_NWK_COMMAND_STATUS_TREE_LINK_FAILURE :: u8 where "ZB_NWK_COMMAND_STATUS_TREE_LINK_FAILURE = 1"
definition ZB_NWK_COMMAND_STATUS_NO_ROUTING_CAPACITY :: u8 where "ZB_NWK_COMMAND_STATUS_NO_ROUTING_CAPACITY = 4"
definition RET_BUSY :: zb_ret where [zb_err]: "RET_BUSY = GENERIC_ERROR_CODE 4"

definition ZB_SECUR_NO_ENCR :: "2 word" where "ZB_SECUR_NO_ENCR = 0"
definition ZB_SECUR_NWK_ENCR :: "2 word" where "ZB_SECUR_NWK_ENCR = 1"

definition ZB_NWK_ROUTE_STATE_ACTIVE :: "3 word" where [zb_config]: "ZB_NWK_ROUTE_STATE_ACTIVE = 0"
definition ZB_NWK_ROUTE_STATE_DISCOVERY_UNDERWAY :: "3 word" where [zb_config]: "ZB_NWK_ROUTE_STATE_DISCOVERY_UNDERWAY = 1"
definition ZB_NWK_ROUTE_STATE_DISCOVERY_FAILED :: "3 word" where [zb_config]: "ZB_NWK_ROUTE_STATE_DISCOVERY_FAILED = 2"
definition ZB_NWK_ROUTE_STATE_DISCOVERY_INACTIVE :: "3 word" where [zb_config]: "ZB_NWK_ROUTE_STATE_DISCOVERY_INACTIVE = 3"
definition ZB_NWK_ROUTE_STATE_VALIDATION_UNDERWAY :: "3 word" where [zb_config]: "ZB_NWK_ROUTE_STATE_VALIDATION_UNDERWAY = 4"

datatype zb_nlme_state =
    ZB_NLME_STATE_IDLE
  | ZB_NLME_STATE_DISC
  | ZB_NLME_STATE_FORMATION_ED_SCAN
  | ZB_NLME_STATE_FORMATION_ACTIVE_SCAN
  | ZB_NLME_STATE_FORMATION
  | ZB_NLME_STATE_ROUTER
  | ZB_NLME_STATE_ED_SCAN
  | ZB_NLME_STATE_REJOIN
  | ZB_NLME_STATE_ORPHAN_SCAN
  | ZB_NLME_STATE_RESET
  | ZB_NLME_STATE_PANID_CONFLICT_RESOLUTION

record zb_nwk_routing =
  rt_used :: bool
  rt_status :: "3 word"
  rt_no_route_cache :: bool
  rt_many_to_one :: bool
  rt_route_record_required :: bool
  rt_group_id_flag :: bool
  rt_dest_addr :: u16
  rt_next_hop_addr :: u16

record zb_nwk_route_discovery =
  rd_used :: bool
  rd_request_id :: u8
  rd_source_addr :: u16
  rd_sender_addr :: u16
  rd_dest_addr :: u16
  rd_forward_cost :: u8
  rd_residual_cost :: u8
  rd_expiration_time :: u16

record zb_nwk_pend =
  pd_used :: bool
  pd_buf :: "nat option"
  pd_handle :: u8
  pd_dest_addr :: u16
  pd_expiry :: "6 word"
  pd_waiting_buf :: bool

record 'cb mesh_g = "'cb sec_g" +
  nib_sequence_number :: u8
  mesh_device_type :: "2 word"
  routing_table :: "zb_nwk_routing list"
  routing_table_cnt :: u8
  route_disc_table :: "zb_nwk_route_discovery list"
  route_disc_table_cnt :: u8
  nib_rreq_id :: u8
  pending_table :: "zb_nwk_pend list"
  pending_table_cnt :: u8
  aps_rreq_addr :: u16
  use_tree_routing :: bool
  secure_all_frames :: bool
  nwk_report_constant_cost :: bool
  status_ind_addr :: u16
  nlme_state :: zb_nlme_state

record 'cb mesh_cbs =
  cb_nwk_forward :: 'cb
  cb_route_discovery_confirm :: 'cb
  cb_status_indication :: 'cb
  cb_initiate_route_discovery :: 'cb
  cb_route_disc_failed :: 'cb
  cb_expiry_route_disc :: 'cb
  cb_expiry_pending :: 'cb

text \<open>The fields of a network header the handlers read, and the two commands.\<close>

record zb_nwk_hdr =
  nh_dst_addr :: u16
  nh_src_addr :: u16
  nh_radius :: u8
  nh_seq_num :: u8

record zb_nwk_cmd_rreq =
  rreq_id :: u8
  rreq_dest_addr :: u16
  rreq_path_cost :: u8

record zb_nwk_cmd_rrep =
  rrep_rreq_id :: u8
  rrep_originator :: u16
  rrep_responder :: u16
  rrep_path_cost :: u8

definition network_address :: "('cb, 'w) sec_g_scheme \<Rightarrow> u16" where "network_address g = mac_short_address (snwk g)"

definition ZB_NWK_IS_ADDRESS_BROADCAST :: "u16 \<Rightarrow> bool" where "ZB_NWK_IS_ADDRESS_BROADCAST a \<longleftrightarrow> a AND 0xfff0 = 0xfff0"

section \<open>Tables with a count of used entries\<close>

text \<open>The macros over an array, with the selector of the used bit and its update.\<close>

definition NWK_ARRAY_FIND_ENT :: "('e \<Rightarrow> bool) \<Rightarrow> 'e list \<Rightarrow> ('e \<Rightarrow> bool) \<Rightarrow> nat option" where
  "NWK_ARRAY_FIND_ENT used a P = find_index (\<lambda>e. used e \<and> P e) 0 a"

definition NWK_ARRAY_GET_ENT ::
  "('e \<Rightarrow> bool) \<Rightarrow> (bool \<Rightarrow> 'e \<Rightarrow> 'e) \<Rightarrow> 'e list \<times> u8 \<Rightarrow> nat option \<times> 'e list \<times> u8" where
  "NWK_ARRAY_GET_ENT used set_used = (\<lambda>(a, cnt).
     case find_index (\<lambda>e. \<not> used e) 0 a of
       None \<Rightarrow> (None, a, cnt)
     | Some i \<Rightarrow> (Some i, a[i := set_used True (a ! i)], cnt + 1))"

definition NWK_ARRAY_PUT_ENT :: "(bool \<Rightarrow> 'e \<Rightarrow> 'e) \<Rightarrow> nat option \<Rightarrow> 'e list \<times> u8 \<Rightarrow> ('e list \<times> u8) option" where
  "NWK_ARRAY_PUT_ENT set_used ent = (\<lambda>(a, cnt).
     case ent of
       None \<Rightarrow> Some (a, cnt)
     | Some i \<Rightarrow> do { e \<leftarrow> arr_get a i; a \<leftarrow> arr_set a i (set_used False e); Some (a, cnt - 1) })"

definition NWK_ARRAY_CLEAR :: "(bool \<Rightarrow> 'e \<Rightarrow> 'e) \<Rightarrow> 'e list \<times> u8 \<Rightarrow> 'e list \<times> u8" where
  "NWK_ARRAY_CLEAR set_used = (\<lambda>(a, cnt). (map (set_used False) a, 0))"

definition set_rt_used :: "bool \<Rightarrow> zb_nwk_routing \<Rightarrow> zb_nwk_routing" where "set_rt_used u e = e\<lparr>rt_used := u\<rparr>"
definition set_rd_used :: "bool \<Rightarrow> zb_nwk_route_discovery \<Rightarrow> zb_nwk_route_discovery" where "set_rd_used u e = e\<lparr>rd_used := u\<rparr>"
definition set_pd_used :: "bool \<Rightarrow> zb_nwk_pend \<Rightarrow> zb_nwk_pend" where "set_pd_used u e = e\<lparr>pd_used := u\<rparr>"

text \<open>The three tables in the state.\<close>

definition put_routing :: "nat option \<Rightarrow> ('cb, 'w) mesh_g_scheme \<Rightarrow> ('cb, 'w) mesh_g_scheme option" where
  "put_routing ent g = do {
     (a, n) \<leftarrow> NWK_ARRAY_PUT_ENT set_rt_used ent (routing_table g, routing_table_cnt g);
     Some (g\<lparr>routing_table := a, routing_table_cnt := n\<rparr>) }"

definition put_route_disc :: "nat option \<Rightarrow> ('cb, 'w) mesh_g_scheme \<Rightarrow> ('cb, 'w) mesh_g_scheme option" where
  "put_route_disc ent g = do {
     (a, n) \<leftarrow> NWK_ARRAY_PUT_ENT set_rd_used ent (route_disc_table g, route_disc_table_cnt g);
     Some (g\<lparr>route_disc_table := a, route_disc_table_cnt := n\<rparr>) }"

definition put_pending :: "nat option \<Rightarrow> ('cb, 'w) mesh_g_scheme \<Rightarrow> ('cb, 'w) mesh_g_scheme option" where
  "put_pending ent g = do {
     (a, n) \<leftarrow> NWK_ARRAY_PUT_ENT set_pd_used ent (pending_table g, pending_table_cnt g);
     Some (g\<lparr>pending_table := a, pending_table_cnt := n\<rparr>) }"

section \<open>Path cost\<close>

text \<open>The neighbor with a short address, and the cost of a link from its quality indicator.\<close>

definition neighbor_by_short :: "u16 \<Rightarrow> ('cb, 'w) mesh_g_scheme \<Rightarrow> (nat option \<times> ('cb, 'w) mesh_g_scheme) option" where
  "neighbor_by_short a g = do {
     (ret, n, z) \<leftarrow> zb_nwk_neighbor_get_by_short (ucast (nib_depth (snwk g))) a (neighbor (snwk g)) (addr_tbl (snwk g));
     Some (if ret = RET_OK then n else None, g\<lparr>snwk := (snwk g)\<lparr>addr_tbl := z\<rparr>\<rparr>) }"

function lqi_loop :: "u8 \<Rightarrow> u8 \<Rightarrow> u8" where
  "lqi_loop i q = (if 32 * (uint i + 1) < uint q then lqi_loop (i + 1) q else i)"
  by pat_completeness auto

lemma lqi_loop_step: "32 * (uint i + 1) < uint q \<Longrightarrow> uint i < 7 \<and> uint (i + 1) = uint i + 1" for i q :: u8
proof -
  assume a: "32 * (uint i + 1) < uint q"
  have q: "uint q < 256" using unsigned_less [of q] by simp
  have "uint i < 7" using a q by (simp add: distrib_left)
  then show ?thesis by (simp add: uint_word_ariths)
qed

termination lqi_loop
  using lqi_loop_step by (relation "measure (\<lambda>(i, q). nat (256 - uint i))") fastforce+

declare lqi_loop.simps [simp del]

definition link_cost :: "u8 \<Rightarrow> u8" where
  "link_cost q = (let i = lqi_loop 0 q in if 7 - uint i \<noteq> 0 then of_int (7 - uint i) else 1)"

definition NWK_CALC_PATH_COST :: "u16 \<Rightarrow> ('cb, 'w) mesh_g_scheme \<Rightarrow> (u8 \<times> ('cb, 'w) mesh_g_scheme) option" where
  "NWK_CALC_PATH_COST src g =
     (if \<not> nwk_report_constant_cost g then do {
        (n, g) \<leftarrow> neighbor_by_short src g;
        (case n of
           Some k \<Rightarrow> do { e \<leftarrow> arr_get (base_neighbor (neighbor (snwk g))) k; Some (link_cost (lqi e), g) }
         | None \<Rightarrow> Some (if src = network_address g then 0 else ZB_NWK_STATIC_PATH_COST, g)) }
      else Some (ZB_NWK_STATIC_PATH_COST, g))"

section \<open>Command frames\<close>

definition nwk_get_mac_source_addr :: "zb_buf_t \<Rightarrow> ('cb, 'w) sec_g_scheme \<Rightarrow> u16 option" where
  "nwk_get_mac_source_addr b g =
     (if mac_hdr_offset (hdr b) \<noteq> 0 then do {
        (mhr, _) \<leftarrow> zb_parse_mhr (data_buf b) (unat (mac_hdr_offset (hdr b)));
        Some (addr_short (src_addr mhr)) }
      else Some (network_address g))"

definition nwk_hdr_room :: "bool \<Rightarrow> bool \<Rightarrow> bool \<Rightarrow> bool \<Rightarrow> nat" where
  "nwk_hdr_room src_ieee dst_ieee mcast secured =
     (if src_ieee \<and> dst_ieee then 24 else if src_ieee \<or> dst_ieee then 16 else 8) + (if mcast then 1 else 0)
     + (if secured then sizeof_aux_hdr else 0)"

definition nwk_frame_control :: "bool \<Rightarrow> bool \<Rightarrow> bool \<Rightarrow> bool \<Rightarrow> u8 list" where
  "nwk_frame_control src_ieee dst_ieee secured cmd =
     [(if cmd then ZB_NWK_FRAME_TYPE_COMMAND else ZB_NWK_FRAME_TYPE_DATA) OR push_bit 2 (ucast ZB_PROTOCOL_VERSION),
      push_bit 3 (if dst_ieee then 1 else 0) OR push_bit 4 (if src_ieee then 1 else 0) OR push_bit 1 (if secured then 1 else 0)]"

text \<open>The buffer with the header at its begin, the place of the header and the state with the next sequence number.\<close>

definition nwk_alloc_and_fill_hdr ::
  "zb_buf_t \<Rightarrow> u16 \<Rightarrow> zb_ieee_addr option \<Rightarrow> zb_ieee_addr option \<Rightarrow> bool \<Rightarrow> bool \<Rightarrow> bool \<Rightarrow> ('cb, 'w) mesh_g_scheme
     \<Rightarrow> (zb_buf_t \<times> nat \<times> ('cb, 'w) mesh_g_scheme) option" where
  "nwk_alloc_and_fill_hdr b dst src_ieee dst_ieee mcast secured cmd g = do {
     let sz = of_nat (nwk_hdr_room (src_ieee \<noteq> None) (dst_ieee \<noteq> None) mcast secured);
     (b, p) \<leftarrow> (if cmd then zb_buf_initial_alloc b sz else zb_buf_smart_alloc_left b sz);
     d \<leftarrow> arr_copy (data_buf b) p
            (nwk_frame_control (src_ieee \<noteq> None) (dst_ieee \<noteq> None) secured cmd
             @ ZB_HTOLE16 dst @ ZB_HTOLE16 (network_address g) @ [1, nib_sequence_number g]);
     d \<leftarrow> (case (src_ieee, dst_ieee) of
             (Some s, Some e) \<Rightarrow> arr_copy d (p + 8) (take 8 e @ take 8 s)
           | (None, Some e) \<Rightarrow> arr_copy d (p + 8) (take 8 e)
           | (Some s, None) \<Rightarrow> arr_copy d (p + 8) (take 8 s)
           | (None, None) \<Rightarrow> Some d);
     Some (b\<lparr>data_buf := d, hdr := (hdr b)\<lparr>encrypt_type := (if secured then ZB_SECUR_NWK_ENCR else ZB_SECUR_NO_ENCR)\<rparr>\<rparr>,
           p, g\<lparr>nib_sequence_number := nib_sequence_number g + 1\<rparr>) }"

text \<open>The command byte behind the packet; the place of the \<open>sz\<close> bytes of the command is returned.\<close>

definition nwk_alloc_and_fill_cmd :: "zb_buf_t \<Rightarrow> u8 \<Rightarrow> u8 \<Rightarrow> (zb_buf_t \<times> nat) option" where
  "nwk_alloc_and_fill_cmd b cmd sz = do {
     (b, p) \<leftarrow> zb_buf_smart_alloc_right b (1 + sz);
     d \<leftarrow> arr_set (data_buf b) p cmd;
     Some (b\<lparr>data_buf := d\<rparr>, p + 1) }"

definition set_handle_param :: "zb_buf_t \<Rightarrow> u8 \<Rightarrow> zb_buf_t option" where
  "set_handle_param b h = do {
     t \<leftarrow> zb_get_buf_tail b 1;
     d \<leftarrow> arr_set (data_buf b) t h;
     Some (b\<lparr>data_buf := d\<rparr>) }"

text \<open>The buffer \<open>i\<close> with the contents \<open>b\<close> goes to \<^verbatim>\<open>zb_nwk_forward\<close> with a handle.\<close>

definition forward_buf :: "'cb mesh_cbs \<Rightarrow> nat \<Rightarrow> zb_buf_t \<Rightarrow> u8 \<Rightarrow> ('cb, 'w) mesh_g_scheme \<Rightarrow> ('cb, 'w) mesh_g_scheme option" where
  "forward_buf cbs i b h g = do {
     b \<leftarrow> set_handle_param b h;
     g \<leftarrow> put_buf i b g;
     (_, g) \<leftarrow> zb_schedule_callback (cb_nwk_forward cbs) (of_nat i) g;
     Some g }"

definition NWK_ROUTE_DISCOVERY_CONFIRM :: "'cb mesh_cbs \<Rightarrow> nat \<Rightarrow> u8 \<Rightarrow> u8 \<Rightarrow> ('cb, 'w) mesh_g_scheme \<Rightarrow> ('cb, 'w) mesh_g_scheme option" where
  "NWK_ROUTE_DISCOVERY_CONFIRM cbs i s ns g = do {
     b \<leftarrow> arr_get (pool (bpool g)) i;
     (b, p) \<leftarrow> zb_buf_initial_alloc b 1;
     d \<leftarrow> arr_set (data_buf b) p ns;
     g \<leftarrow> put_buf i (b\<lparr>data_buf := d, hdr := (hdr b)\<lparr>hdr_status := ucast s\<rparr>\<rparr>) g;
     (_, g) \<leftarrow> zb_schedule_callback (cb_route_discovery_confirm cbs) (of_nat i) g;
     Some g }"

definition secure_cmd :: "('cb, 'w) mesh_g_scheme \<Rightarrow> bool" where
  "secure_cmd g \<longleftrightarrow> authenticated g \<and> secure_all_frames g \<and> security_level (snwk g) \<noteq> 0"

definition zb_nwk_mesh_send_rreq ::
  "'cb mesh_cbs \<Rightarrow> nat \<Rightarrow> zb_nwk_cmd_rreq \<Rightarrow> u16 \<Rightarrow> u8 \<Rightarrow> u8 \<Rightarrow> u8 \<Rightarrow> ('cb, 'w) mesh_g_scheme \<Rightarrow> ('cb, 'w) mesh_g_scheme option" where
  "zb_nwk_mesh_send_rreq cbs i cmd src seq path_cost radius g = do {
     b \<leftarrow> arr_get (pool (bpool g)) i;
     (b, p, g) \<leftarrow> nwk_alloc_and_fill_hdr b ZB_NWK_BROADCAST_ROUTER_COORDINATOR None None False (secure_cmd g) True g;
     (b, c) \<leftarrow> nwk_alloc_and_fill_cmd b ZB_NWK_CMD_ROUTE_REQUEST 5;
     d \<leftarrow> arr_copy (data_buf b) c ([0, rreq_id cmd] @ ZB_HTOLE16 (rreq_dest_addr cmd) @ [path_cost]);
     d \<leftarrow> arr_set d (p + 6) radius;
     d \<leftarrow> arr_copy d (p + 4) (ZB_HTOLE16 src);
     d \<leftarrow> (if src \<noteq> network_address g then arr_set d (p + 7) seq else Some d);
     forward_buf cbs i (b\<lparr>data_buf := d\<rparr>) ZB_NWK_INTERNAL_NSDU_HANDLE g }"

definition zb_nwk_mesh_send_rrep ::
  "'cb mesh_cbs \<Rightarrow> nat \<Rightarrow> u8 \<Rightarrow> u16 \<Rightarrow> u16 \<Rightarrow> u8 \<Rightarrow> u16 \<Rightarrow> ('cb, 'w) mesh_g_scheme \<Rightarrow> ('cb, 'w) mesh_g_scheme option" where
  "zb_nwk_mesh_send_rrep cbs i rid originator responder path_cost sender g = do {
     b \<leftarrow> arr_get (pool (bpool g)) i;
     (b, p, g) \<leftarrow> nwk_alloc_and_fill_hdr b sender None None False (secure_cmd g) True g;
     (b, c) \<leftarrow> nwk_alloc_and_fill_cmd b ZB_NWK_CMD_ROUTE_REPLY 7;
     d \<leftarrow> arr_copy (data_buf b) c ([0, rid] @ ZB_HTOLE16 originator @ ZB_HTOLE16 responder @ [path_cost]);
     d \<leftarrow> arr_set d (p + 6) (push_bit 1 (max_depth (snwk g)));
     forward_buf cbs i (b\<lparr>data_buf := d\<rparr>) ZB_NWK_INTERNAL_NSDU_HANDLE g }"

section \<open>Route requests\<close>

text \<open>The entry of the routing table for the destination; \<open>None\<close> when there is no room for one.\<close>

definition rreq_route :: "u16 \<Rightarrow> ('cb, 'w) mesh_g_scheme \<Rightarrow> (nat option \<times> ('cb, 'w) mesh_g_scheme) option" where
  "rreq_route dest g =
     (case NWK_ARRAY_FIND_ENT rt_used (routing_table g) (\<lambda>e. rt_dest_addr e = dest) of
        Some r \<Rightarrow> do {
          e \<leftarrow> arr_get (routing_table g) r;
          a \<leftarrow> arr_set (routing_table g) r
                 (if rt_status e \<noteq> ZB_NWK_ROUTE_STATE_ACTIVE \<and> rt_status e \<noteq> ZB_NWK_ROUTE_STATE_VALIDATION_UNDERWAY
                  then e\<lparr>rt_status := ZB_NWK_ROUTE_STATE_DISCOVERY_UNDERWAY\<rparr> else e);
          Some (Some r, g\<lparr>routing_table := a\<rparr>) }
      | None \<Rightarrow>
         (case NWK_ARRAY_GET_ENT rt_used set_rt_used (routing_table g, routing_table_cnt g) of
            (None, _, _) \<Rightarrow> Some (None, g)
          | (Some r, a, n) \<Rightarrow> do {
              e \<leftarrow> arr_get a r;
              a \<leftarrow> arr_set a r (e\<lparr>rt_dest_addr := dest, rt_status := ZB_NWK_ROUTE_STATE_DISCOVERY_UNDERWAY\<rparr>);
              Some (Some r, g\<lparr>routing_table := a, routing_table_cnt := n\<rparr>) }))"

datatype rreq_disc_result = Disc_updated | Disc_better_known | Disc_no_room

definition disc_key :: "u8 \<Rightarrow> u16 \<Rightarrow> zb_nwk_route_discovery \<Rightarrow> bool" where
  "disc_key rid src e \<longleftrightarrow> rd_request_id e = rid \<and> rd_source_addr e = src"

text \<open>The entry of the discovery table for the request; \<open>path_cost\<close> is the cost of the whole path so far.\<close>

definition rreq_disc ::
  "nat \<Rightarrow> u16 \<Rightarrow> zb_nwk_cmd_rreq \<Rightarrow> u8 \<Rightarrow> ('cb, 'w) mesh_g_scheme \<Rightarrow> (rreq_disc_result \<times> ('cb, 'w) mesh_g_scheme) option" where
  "rreq_disc i src cmd path_cost g =
     (case NWK_ARRAY_FIND_ENT rd_used (route_disc_table g) (disc_key (rreq_id cmd) src) of
        Some k \<Rightarrow> do {
          e \<leftarrow> arr_get (route_disc_table g) k;
          if path_cost < rd_forward_cost e then do {
            b \<leftarrow> arr_get (pool (bpool g)) i;
            s \<leftarrow> nwk_get_mac_source_addr b g;
            a \<leftarrow> arr_set (route_disc_table g) k (e\<lparr>rd_sender_addr := s, rd_forward_cost := path_cost\<rparr>);
            Some (Disc_updated, g\<lparr>route_disc_table := a\<rparr>) }
          else Some (Disc_better_known, g) }
      | None \<Rightarrow>
         (case NWK_ARRAY_GET_ENT rd_used set_rd_used (route_disc_table g, route_disc_table_cnt g) of
            (None, _, _) \<Rightarrow> Some (Disc_no_room, g)
          | (Some k, a, n) \<Rightarrow> do {
              b \<leftarrow> arr_get (pool (bpool g)) i;
              s \<leftarrow> nwk_get_mac_source_addr b g;
              e \<leftarrow> arr_get a k;
              a \<leftarrow> arr_set a k
                     (e\<lparr>rd_request_id := rreq_id cmd, rd_source_addr := src, rd_sender_addr := s,
                        rd_dest_addr := rreq_dest_addr cmd, rd_forward_cost := path_cost,
                        rd_residual_cost := 0xff, rd_expiration_time := ZB_NWK_ROUTE_DISCOVERY_EXPIRY\<rparr>);
              Some (Disc_updated, g\<lparr>route_disc_table := a, route_disc_table_cnt := n\<rparr>) }))"

text \<open>The request is answered when the destination is this device or a neighbor, and passed on otherwise.\<close>

definition rreq_answer ::
  "'cb mesh_cbs \<Rightarrow> nat \<Rightarrow> zb_nwk_hdr \<Rightarrow> zb_nwk_cmd_rreq \<Rightarrow> u8 \<Rightarrow> ('cb, 'w) mesh_g_scheme \<Rightarrow> ('cb, 'w) mesh_g_scheme option" where
  "rreq_answer cbs i h cmd path_cost g = do {
     (for_us, g) \<leftarrow> (if rreq_dest_addr cmd = network_address g then Some (True, g)
                     else do { (n, g) \<leftarrow> neighbor_by_short (rreq_dest_addr cmd) g; Some (n \<noteq> None, g) });
     if for_us then do {
       b \<leftarrow> arr_get (pool (bpool g)) i;
       s \<leftarrow> nwk_get_mac_source_addr b g;
       zb_nwk_mesh_send_rrep cbs i (rreq_id cmd) (nh_src_addr h) (rreq_dest_addr cmd) path_cost s g }
     else zb_nwk_mesh_send_rreq cbs i cmd (nh_src_addr h) (nh_seq_num h) path_cost (nh_radius h) g }"

text \<open>No room: the entry of the routing table is given up, and the higher layer is told when it asked for this address.\<close>

definition rreq_failed :: "'cb mesh_cbs \<Rightarrow> nat \<Rightarrow> u16 \<Rightarrow> nat option \<Rightarrow> ('cb, 'w) mesh_g_scheme \<Rightarrow> ('cb, 'w) mesh_g_scheme option" where
  "rreq_failed cbs i dest r g = do {
     g \<leftarrow> put_route_disc None g;
     g \<leftarrow> put_routing r g;
     if aps_rreq_addr g \<noteq> 0 \<and> aps_rreq_addr g = dest
     then NWK_ROUTE_DISCOVERY_CONFIRM cbs i ZB_NWK_STATUS_ROUTE_ERROR ZB_NWK_COMMAND_STATUS_NO_ROUTE_AVAILABLE g
     else zb_free_buf i g }"

definition zb_nwk_mesh_rreq_handler ::
  "'cb mesh_cbs \<Rightarrow> nat \<Rightarrow> zb_nwk_hdr \<Rightarrow> zb_nwk_cmd_rreq \<Rightarrow> ('cb, 'w) mesh_g_scheme \<Rightarrow> ('cb, 'w) mesh_g_scheme option" where
  "zb_nwk_mesh_rreq_handler cbs i h cmd g = do {
     (c, g) \<leftarrow> NWK_CALC_PATH_COST (nh_src_addr h) g;
     let path_cost = c + rreq_path_cost cmd;
     (r, g) \<leftarrow> rreq_route (rreq_dest_addr cmd) g;
     (case r of
        None \<Rightarrow> rreq_failed cbs i (rreq_dest_addr cmd) None g
      | Some r \<Rightarrow> do {
          (res, g) \<leftarrow> rreq_disc i (nh_src_addr h) cmd path_cost g;
          (case res of
             Disc_updated \<Rightarrow> rreq_answer cbs i h cmd path_cost g
           | Disc_better_known \<Rightarrow> zb_free_buf i g
           | Disc_no_room \<Rightarrow> rreq_failed cbs i (rreq_dest_addr cmd) (Some r) g) }) }"

section \<open>Starting a discovery\<close>

definition nwk_hdr_at :: "u8 list \<Rightarrow> nat \<Rightarrow> zb_nwk_hdr option" where
  "nwk_hdr_at d p = do {
     bs \<leftarrow> buf_read d p 8;
     Some \<lparr>nh_dst_addr = ZB_LETOH16 (take 2 (drop 2 bs)), nh_src_addr = ZB_LETOH16 (take 2 (drop 4 bs)),
           nh_radius = bs ! 6, nh_seq_num = bs ! 7\<rparr> }"

definition cmd_rreq_at :: "u8 list \<Rightarrow> nat \<Rightarrow> zb_nwk_cmd_rreq option" where
  "cmd_rreq_at d p = do {
     bs \<leftarrow> buf_read d p 5;
     Some \<lparr>rreq_id = bs ! 1, rreq_dest_addr = ZB_LETOH16 (take 2 (drop 2 bs)), rreq_path_cost = bs ! 4\<rparr> }"

text \<open>Without a buffer one is asked for, and the discovery goes on in \<^verbatim>\<open>zb_nwk_mesh_initiate_route_discovery\<close>.\<close>

definition zb_nwk_mesh_route_discovery ::
  "'cb mesh_cbs \<Rightarrow> nat option \<Rightarrow> u16 \<Rightarrow> u8 \<Rightarrow> ('cb, 'w) mesh_g_scheme \<Rightarrow> ('cb, 'w) mesh_g_scheme option" where
  "zb_nwk_mesh_route_discovery cbs cbuf dest radius g =
     (case cbuf of
        Some i \<Rightarrow> do {
          b \<leftarrow> arr_get (pool (bpool g)) i;
          (b, p) \<leftarrow> zb_buf_initial_alloc b (of_nat (ZB_NWK_SHORT_HDR_SIZE 0));
          (b, c) \<leftarrow> zb_buf_smart_alloc_right b 5;
          let g = g\<lparr>nib_rreq_id := nib_rreq_id g + 1\<rparr>;
          d \<leftarrow> arr_copy (data_buf b) c ([0, nib_rreq_id g] @ ZB_HTOLE16 dest @ [0]);
          d \<leftarrow> arr_set d (p + 6) (if radius \<noteq> 0 then radius else push_bit 1 (max_depth (snwk g)));
          d \<leftarrow> arr_copy d (p + 4) (ZB_HTOLE16 (network_address g));
          g \<leftarrow> put_buf i (b\<lparr>data_buf := d\<rparr>) g;
          h \<leftarrow> nwk_hdr_at d p;
          cmd \<leftarrow> cmd_rreq_at d c;
          zb_nwk_mesh_rreq_handler cbs i h cmd g }
      | None \<Rightarrow> do { (_, g) \<leftarrow> zb_get_out_buf_delayed (cb_initiate_route_discovery cbs) g; Some g })"

text \<open>The new buffer serves a waiting packet; without one the assertion fails.\<close>

definition zb_nwk_mesh_initiate_route_discovery :: "'cb mesh_cbs \<Rightarrow> nat \<Rightarrow> ('cb, 'w) mesh_g_scheme \<Rightarrow> ('cb, 'w) mesh_g_scheme option" where
  "zb_nwk_mesh_initiate_route_discovery cbs i g =
     (case NWK_ARRAY_FIND_ENT pd_used (pending_table g) pd_waiting_buf of
        Some k \<Rightarrow> do {
          e \<leftarrow> arr_get (pending_table g) k;
          pb \<leftarrow> pd_buf e;
          b \<leftarrow> arr_get (pool (bpool g)) pb;
          h \<leftarrow> nwk_hdr_at (data_buf b) (ZB_BUF_BEGIN b);
          g \<leftarrow> zb_nwk_mesh_route_discovery cbs (Some i) (nh_dst_addr h) 0 g;
          e \<leftarrow> arr_get (pending_table g) k;
          a \<leftarrow> arr_set (pending_table g) k (e\<lparr>pd_waiting_buf := False\<rparr>);
          Some (g\<lparr>pending_table := a\<rparr>) }
      | None \<Rightarrow> do { g \<leftarrow> zb_free_buf i g; ZB_ASSERT False; Some g })"

text \<open>The request of the higher layer: its parameters are the last nine bytes of the buffer.\<close>

definition zb_nlme_route_discovery_request :: "'cb mesh_cbs \<Rightarrow> nat \<Rightarrow> ('cb, 'w) mesh_g_scheme \<Rightarrow> ('cb, 'w) mesh_g_scheme option" where
  "zb_nlme_route_discovery_request cbs i g = do {
     b \<leftarrow> arr_get (pool (bpool g)) i;
     t \<leftarrow> zb_get_buf_tail b 9;
     ps \<leftarrow> buf_read (data_buf b) t 9;
     let mode = ps ! 0;
     let addr = ZB_LETOH16 (take 2 (drop 1 ps));
     if \<not> (mesh_device_type g = ZB_NWK_DEVICE_TYPE_COORDINATOR \<or> mesh_device_type g = ZB_NWK_DEVICE_TYPE_ROUTER) then
       NWK_ROUTE_DISCOVERY_CONFIRM cbs i ZB_NWK_STATUS_INVALID_REQUEST ZB_NWK_COMMAND_STATUS_NO_ROUTE_AVAILABLE g
     else if mode \<noteq> 0 \<and> ZB_NWK_IS_ADDRESS_BROADCAST addr then
       NWK_ROUTE_DISCOVERY_CONFIRM cbs i ZB_NWK_STATUS_INVALID_REQUEST ZB_NWK_COMMAND_STATUS_NO_ROUTE_AVAILABLE g
     else if mode = ZB_ADDR_16BIT_DEV_OR_BROADCAST \<and> addr = network_address g then
       NWK_ROUTE_DISCOVERY_CONFIRM cbs i ZB_NWK_STATUS_SUCCESS 0xff g
     else do {
       (n, g) \<leftarrow> neighbor_by_short addr g;
       if n \<noteq> None then NWK_ROUTE_DISCOVERY_CONFIRM cbs i ZB_NWK_STATUS_SUCCESS 0xff g
       else if mode = ZB_ADDR_16BIT_DEV_OR_BROADCAST then
         zb_nwk_mesh_route_discovery cbs (Some i) addr (ps ! 3) (g\<lparr>aps_rreq_addr := addr\<rparr>)
       else NWK_ROUTE_DISCOVERY_CONFIRM cbs i ZB_NWK_STATUS_INVALID_REQUEST ZB_NWK_COMMAND_STATUS_NO_ROUTE_AVAILABLE g } }"

section \<open>Route replies\<close>

text \<open>The packets that wait for the destination are sent.\<close>

fun send_pending_loop :: "'cb mesh_cbs \<Rightarrow> u16 \<Rightarrow> nat list \<Rightarrow> ('cb, 'w) mesh_g_scheme \<Rightarrow> ('cb, 'w) mesh_g_scheme option" where
  "send_pending_loop cbs dest [] g = Some g"
| "send_pending_loop cbs dest (k # ks) g = do {
     e \<leftarrow> arr_get (pending_table g) k;
     g \<leftarrow> (if pd_used e \<and> pd_dest_addr e = dest then do {
              i \<leftarrow> pd_buf e;
              b \<leftarrow> arr_get (pool (bpool g)) i;
              g \<leftarrow> forward_buf cbs i b (pd_handle e) g;
              put_pending (Some k) g }
            else Some g);
     send_pending_loop cbs dest ks g }"

text \<open>An accepted reply: the new cost in the discovery entry \<open>k\<close> and the next hop \<open>s\<close> in the route \<open>r\<close>.\<close>

definition rrep_update :: "nat \<Rightarrow> nat \<Rightarrow> u8 \<Rightarrow> u16 \<Rightarrow> ('cb, 'w) mesh_g_scheme \<Rightarrow> ('cb, 'w) mesh_g_scheme option" where
  "rrep_update k r path_cost s g = do {
     d \<leftarrow> arr_get (route_disc_table g) k;
     a \<leftarrow> arr_set (route_disc_table g) k
            (d\<lparr>rd_residual_cost := path_cost, rd_expiration_time := ZB_NWK_ROUTE_DISCOVERY_EXPIRY\<rparr>);
     e \<leftarrow> arr_get (routing_table g) r;
     t \<leftarrow> arr_set (routing_table g) r
            (e\<lparr>rt_next_hop_addr := s,
               rt_status := (if rt_status e = ZB_NWK_ROUTE_STATE_DISCOVERY_UNDERWAY
                             then ZB_NWK_ROUTE_STATE_VALIDATION_UNDERWAY else rt_status e)\<rparr>);
     Some (g\<lparr>route_disc_table := a, routing_table := t\<rparr>) }"

text \<open>
  The reply has arrived where the request came from, or goes on to the sender of the request. In
  the first case the buffer is freed after it may have been handed to the confirm.
\<close>

definition rrep_deliver ::
  "'cb mesh_cbs \<Rightarrow> nat \<Rightarrow> zb_nwk_cmd_rrep \<Rightarrow> nat \<Rightarrow> nat \<Rightarrow> u8 \<Rightarrow> ('cb, 'w) mesh_g_scheme \<Rightarrow> ('cb, 'w) mesh_g_scheme option" where
  "rrep_deliver cbs i cmd k r path_cost g = do {
     e \<leftarrow> arr_get (routing_table g) r;
     d \<leftarrow> arr_get (route_disc_table g) k;
     if rrep_originator cmd = network_address g then do {
       g \<leftarrow> send_pending_loop cbs (rt_dest_addr e) [0..<ZB_NWK_PENDING_TABLE_SIZE] g;
       g \<leftarrow> (if aps_rreq_addr g = rt_dest_addr e then do {
                g \<leftarrow> NWK_ROUTE_DISCOVERY_CONFIRM cbs i ZB_NWK_STATUS_SUCCESS 0xff g;
                Some (g\<lparr>aps_rreq_addr := - 1\<rparr>) }
              else Some g);
       zb_free_buf i g }
     else zb_nwk_mesh_send_rrep cbs i (rrep_rreq_id cmd) (rrep_originator cmd) (rrep_responder cmd) path_cost
            (rd_sender_addr d) g }"

definition zb_nwk_mesh_rrep_handler ::
  "'cb mesh_cbs \<Rightarrow> nat \<Rightarrow> zb_nwk_hdr \<Rightarrow> zb_nwk_cmd_rrep \<Rightarrow> ('cb, 'w) mesh_g_scheme \<Rightarrow> ('cb, 'w) mesh_g_scheme option" where
  "zb_nwk_mesh_rrep_handler cbs i h cmd g = do {
     b \<leftarrow> arr_get (pool (bpool g)) i;
     s \<leftarrow> nwk_get_mac_source_addr b g;
     (c, g) \<leftarrow> NWK_CALC_PATH_COST (nh_src_addr h) g;
     let path_cost = c + rrep_path_cost cmd;
     let disc = NWK_ARRAY_FIND_ENT rd_used (route_disc_table g) (disc_key (rrep_rreq_id cmd) (rrep_originator cmd));
     let route = NWK_ARRAY_FIND_ENT rt_used (routing_table g) (\<lambda>e. rt_dest_addr e = rrep_responder cmd);
     (case (disc, route) of
        (Some k, Some r) \<Rightarrow> do {
          d \<leftarrow> arr_get (route_disc_table g) k;
          if rd_residual_cost d < path_cost then zb_free_buf i g
          else do {
            g \<leftarrow> rrep_update k r path_cost s g;
            rrep_deliver cbs i cmd k r path_cost g } }
      | _ \<Rightarrow> do {
          g \<leftarrow> put_route_disc disc g;
          g \<leftarrow> put_routing route g;
          zb_free_buf i g }) }"

section \<open>Expiry\<close>

definition nwk_route_disc_failed :: "'cb mesh_cbs \<Rightarrow> nat \<Rightarrow> ('cb, 'w) mesh_g_scheme \<Rightarrow> ('cb, 'w) mesh_g_scheme option" where
  "nwk_route_disc_failed cbs i g = do {
     b \<leftarrow> arr_get (pool (bpool g)) i;
     t \<leftarrow> zb_get_buf_tail b 6;
     d \<leftarrow> arr_copy (data_buf b) t
            ([ZB_NWK_COMMAND_STATUS_NO_ROUTE_AVAILABLE, 0, 0, 0] @ ZB_HTOLE16 (status_ind_addr g));
     g \<leftarrow> put_buf i (b\<lparr>data_buf := d\<rparr>) g;
     (_, g) \<leftarrow> zb_schedule_callback (cb_status_indication cbs) (of_nat i) g;
     (_, g) \<leftarrow> zb_schedule_alarm_cancel (cb_expiry_route_disc cbs) 0 g;
     (_, g) \<leftarrow> zb_schedule_alarm (cb_expiry_route_disc cbs) 0 ZB_NWK_EXPIRY_ROUTE_DISCOVERY g;
     Some g }"

text \<open>
  The route for an expired discovery entry. The condition given to the search names the entry
  by \<open>i\<close>, which inside the macro is the macro's own counter: the route at a place is compared with
  the discovery entry at the same place, whichever entry has expired.
\<close>

definition expired_route :: "('cb, 'w) mesh_g_scheme \<Rightarrow> nat option" where
  "expired_route g =
     find_index (\<lambda>(e, d). rt_used e \<and> rt_dest_addr e = rd_dest_addr d \<and> rt_status e \<noteq> ZB_NWK_ROUTE_STATE_ACTIVE)
       0 (zip (routing_table g) (route_disc_table g))"

text \<open>The loop over the discovery table; the flag says that it stopped at a route it gave up.\<close>

fun expiry_route_disc_loop :: "'cb mesh_cbs \<Rightarrow> nat list \<Rightarrow> ('cb, 'w) mesh_g_scheme \<Rightarrow> (bool \<times> ('cb, 'w) mesh_g_scheme) option" where
  "expiry_route_disc_loop cbs [] g = Some (False, g)"
| "expiry_route_disc_loop cbs (k # ks) g = do {
     d \<leftarrow> arr_get (route_disc_table g) k;
     if \<not> rd_used d then expiry_route_disc_loop cbs ks g
     else if rd_expiration_time d \<noteq> 0 then do {
       a \<leftarrow> arr_set (route_disc_table g) k (d\<lparr>rd_expiration_time := rd_expiration_time d - 1\<rparr>);
       expiry_route_disc_loop cbs ks (g\<lparr>route_disc_table := a\<rparr>) }
     else do {
       let r = expired_route g;
       g \<leftarrow> put_route_disc (Some k) g;
       (case r of
          None \<Rightarrow> expiry_route_disc_loop cbs ks g
        | Some r \<Rightarrow> do {
            e \<leftarrow> arr_get (routing_table g) r;
            (_, g) \<leftarrow> zb_get_out_buf_delayed (cb_route_disc_failed cbs) (g\<lparr>status_ind_addr := rt_dest_addr e\<rparr>);
            g \<leftarrow> put_routing (Some r) g;
            Some (True, g) }) } }"

definition zb_nwk_mesh_expiry_route_disc :: "'cb mesh_cbs \<Rightarrow> ('cb, 'w) mesh_g_scheme \<Rightarrow> ('cb, 'w) mesh_g_scheme option" where
  "zb_nwk_mesh_expiry_route_disc cbs g = do {
     (stopped, g) \<leftarrow> (if route_disc_table_cnt g \<noteq> 0
                      then expiry_route_disc_loop cbs [0..<ZB_NWK_ROUTE_DISCOVERY_TABLE_SIZE] g else Some (False, g));
     if stopped then Some g
     else do {
       (_, g) \<leftarrow> zb_schedule_alarm (cb_expiry_route_disc cbs) 0 ZB_NWK_EXPIRY_ROUTE_DISCOVERY g;
       Some g } }"

fun expiry_pending_loop :: "nat list \<Rightarrow> ('cb, 'w) mesh_g_scheme \<Rightarrow> ('cb, 'w) mesh_g_scheme option" where
  "expiry_pending_loop [] g = Some g"
| "expiry_pending_loop (k # ks) g = do {
     e \<leftarrow> arr_get (pending_table g) k;
     g \<leftarrow> (if pd_used e then
              if pd_expiry e = 0 then do { i \<leftarrow> pd_buf e; g \<leftarrow> zb_free_buf i g; put_pending (Some k) g }
              else do {
                a \<leftarrow> arr_set (pending_table g) k (e\<lparr>pd_expiry := pd_expiry e - 1\<rparr>);
                Some (g\<lparr>pending_table := a\<rparr>) }
            else Some g);
     expiry_pending_loop ks g }"

definition zb_nwk_mesh_expiry_pending :: "'cb mesh_cbs \<Rightarrow> ('cb, 'w) mesh_g_scheme \<Rightarrow> ('cb, 'w) mesh_g_scheme option" where
  "zb_nwk_mesh_expiry_pending cbs g = do {
     g \<leftarrow> (if pending_table_cnt g \<noteq> 0 then expiry_pending_loop [0..<ZB_NWK_PENDING_TABLE_SIZE] g else Some g);
     (_, g) \<leftarrow> zb_schedule_alarm (cb_expiry_pending cbs) 0 ZB_NWK_EXPIRY_PENDING g;
     Some g }"

text \<open>
  The calls that start the two alarms are arguments of trace messages: they are made only when the
  trace is compiled in and enabled for the layer.
\<close>

definition zb_nwk_mesh_routing_init :: "bool \<Rightarrow> 'cb mesh_cbs \<Rightarrow> ('cb, 'w) mesh_g_scheme \<Rightarrow> ('cb, 'w) mesh_g_scheme option" where
  "zb_nwk_mesh_routing_init traced cbs g =
     (if traced then do {
        (_, g) \<leftarrow> zb_schedule_alarm (cb_expiry_route_disc cbs) 0 ZB_NWK_EXPIRY_ROUTE_DISCOVERY g;
        (_, g) \<leftarrow> zb_schedule_alarm (cb_expiry_pending cbs) 0 ZB_NWK_EXPIRY_PENDING g;
        Some g }
      else Some g)"

definition zb_nwk_mesh_routing_deinit :: "'cb mesh_cbs \<Rightarrow> ('cb, 'w) mesh_g_scheme \<Rightarrow> ('cb, 'w) mesh_g_scheme option" where
  "zb_nwk_mesh_routing_deinit cbs g = do {
     (_, g) \<leftarrow> zb_schedule_alarm_cancel (cb_expiry_pending cbs) ZB_ALARM_ANY_PARAM g;
     (_, g) \<leftarrow> zb_schedule_alarm_cancel (cb_expiry_route_disc cbs) ZB_ALARM_ANY_PARAM g;
     Some g }"

section \<open>Using the tables\<close>

definition zb_nwk_mesh_find_route :: "u16 \<Rightarrow> ('cb, 'w) mesh_g_scheme \<Rightarrow> nat option" where
  "zb_nwk_mesh_find_route dest g = NWK_ARRAY_FIND_ENT rt_used (routing_table g) (\<lambda>e. rt_dest_addr e = dest)"

definition zb_nwk_mesh_find_route_discovery_entry :: "u16 \<Rightarrow> ('cb, 'w) mesh_g_scheme \<Rightarrow> nat option" where
  "zb_nwk_mesh_find_route_discovery_entry dest g =
     NWK_ARRAY_FIND_ENT rd_used (route_disc_table g) (\<lambda>e. rd_dest_addr e = dest)"

definition zb_nwk_mesh_add_buf_to_pending :: "nat \<Rightarrow> u8 \<Rightarrow> ('cb, 'w) mesh_g_scheme \<Rightarrow> (zb_ret \<times> ('cb, 'w) mesh_g_scheme) option" where
  "zb_nwk_mesh_add_buf_to_pending i h g = do {
     b \<leftarrow> arr_get (pool (bpool g)) i;
     (case NWK_ARRAY_GET_ENT pd_used set_pd_used (pending_table g, pending_table_cnt g) of
        (None, _, _) \<Rightarrow> Some (RET_NO_MEMORY, g)
      | (Some k, a, n) \<Rightarrow> do {
          nh \<leftarrow> nwk_hdr_at (data_buf b) (ZB_BUF_BEGIN b);
          e \<leftarrow> arr_get a k;
          a \<leftarrow> arr_set a k (e\<lparr>pd_buf := Some i, pd_handle := h, pd_dest_addr := nh_dst_addr nh,
                             pd_expiry := ZB_NWK_PENDING_ENTRY_EXPIRY, pd_waiting_buf := True\<rparr>);
          Some (RET_OK, g\<lparr>pending_table := a, pending_table_cnt := n\<rparr>) }) }"

definition ZB_NWK_FRAMECTL_GET_DISCOVER_ROUTE :: "u8 list \<Rightarrow> u8" where
  "ZB_NWK_FRAMECTL_GET_DISCOVER_ROUTE fc = drop_bit 5 (fc ! 0) AND 3"

text \<open>The entry of the neighbor table for the destination of a frame, by the address its header has.\<close>

definition dest_neighbor :: "u8 list \<Rightarrow> nat \<Rightarrow> u8 list \<Rightarrow> u16 \<Rightarrow> ('cb, 'w) mesh_g_scheme \<Rightarrow> (nat option \<times> ('cb, 'w) mesh_g_scheme) option" where
  "dest_neighbor d p fc dst g = do {
     (ret, ref, z) \<leftarrow> (if ZB_NWK_FRAMECTL_GET_DESTINATION_IEEE fc = 0
                       then zb_address_by_short dst False False (addr_tbl (snwk g))
                       else do { ieee \<leftarrow> buf_read d (p + 8) 8; zb_address_by_ieee ieee False False (addr_tbl (snwk g)) });
     let g = g\<lparr>snwk := (snwk g)\<lparr>addr_tbl := z\<rparr>\<rparr>;
     if ret = RET_OK then do {
       ref \<leftarrow> ref;
       (ret, n, nb, z) \<leftarrow> zb_nwk_neighbor_get (ucast (nib_depth (snwk g))) ref False (neighbor (snwk g)) (addr_tbl (snwk g));
       Some (if ret = RET_OK then n else None, g\<lparr>snwk := (snwk g)\<lparr>neighbor := nb, addr_tbl := z\<rparr>\<rparr>) }
     else Some (None, g) }"

text \<open>
  The packet waits for a route; a discovery is started unless one of this device is under way when
  \<open>known\<close> says that a route entry exists.
\<close>

definition wait_for_route ::
  "'cb mesh_cbs \<Rightarrow> bool \<Rightarrow> nat \<Rightarrow> u8 \<Rightarrow> u16 \<Rightarrow> ('cb, 'w) mesh_g_scheme \<Rightarrow> (zb_ret \<times> u8 option \<times> ('cb, 'w) mesh_g_scheme) option" where
  "wait_for_route cbs known i h dst g = do {
     (ret, g) \<leftarrow> zb_nwk_mesh_add_buf_to_pending i h g;
     if ret = RET_OK then do {
       start \<leftarrow> (if known then
                   (case zb_nwk_mesh_find_route_discovery_entry dst g of
                      None \<Rightarrow> Some True
                    | Some k \<Rightarrow> do { d \<leftarrow> arr_get (route_disc_table g) k; Some (rd_source_addr d \<noteq> network_address g) })
                 else Some True);
       g \<leftarrow> (if start then zb_nwk_mesh_route_discovery cbs None dst 0 g else Some g);
       Some (RET_BUSY, None, g) }
     else Some (ret, Some ZB_NWK_COMMAND_STATUS_NO_ROUTE_AVAILABLE, g) }"

text \<open>The part of the destination calculation for a destination that is not a neighbor.\<close>

definition route_destination ::
  "'cb mesh_cbs \<Rightarrow> nat \<Rightarrow> u8 \<Rightarrow> u8 list \<Rightarrow> u16 \<Rightarrow> ('cb, 'w) mesh_g_scheme \<Rightarrow> (zb_ret \<times> u16 \<times> u8 option \<times> ('cb, 'w) mesh_g_scheme) option" where
  "route_destination cbs i h fc dst g =
     (if ZB_NWK_FRAMECTL_GET_DISCOVER_ROUTE fc = 0 then Some (RET_ERROR, dst, Some ZB_NWK_COMMAND_STATUS_NO_ROUTING_CAPACITY, g)
      else
        (case zb_nwk_mesh_find_route dst g of
           None \<Rightarrow> do { (ret, st, g) \<leftarrow> wait_for_route cbs False i h dst g; Some (ret, dst, st, g) }
         | Some r \<Rightarrow> do {
             e \<leftarrow> arr_get (routing_table g) r;
             if rt_status e = ZB_NWK_ROUTE_STATE_ACTIVE \<or> rt_status e = ZB_NWK_ROUTE_STATE_VALIDATION_UNDERWAY then do {
               a \<leftarrow> arr_set (routing_table g) r (e\<lparr>rt_status := ZB_NWK_ROUTE_STATE_ACTIVE\<rparr>);
               Some (RET_OK, rt_next_hop_addr e, None, g\<lparr>routing_table := a\<rparr>) }
             else if rt_status e = ZB_NWK_ROUTE_STATE_DISCOVERY_UNDERWAY then do {
               (ret, st, g) \<leftarrow> wait_for_route cbs True i h dst g; Some (ret, dst, st, g) }
             else if use_tree_routing g then do {
               (n, w) \<leftarrow> zb_nwk_tree_routing_route dst (snwk g);
               let g = g\<lparr>snwk := w\<rparr>;
               (case n of
                  Some k \<Rightarrow> do {
                    nb \<leftarrow> arr_get (base_neighbor (neighbor w)) k;
                    a \<leftarrow> zb_address_short_by_ref (addr_ref nb) (addr_tbl w);
                    Some (RET_OK, a, None, g) }
                | None \<Rightarrow> Some (RET_ERROR, dst, Some ZB_NWK_COMMAND_STATUS_TREE_LINK_FAILURE, g)) }
             else Some (RET_ERROR, dst, Some ZB_NWK_COMMAND_STATUS_NO_ROUTING_CAPACITY, g) }))"

text \<open>The result is the MAC destination, whether the frame is sent indirectly, and the status of a failure.\<close>

definition nwk_calc_destination ::
  "'cb mesh_cbs \<Rightarrow> nat \<Rightarrow> u8 \<Rightarrow> ('cb, 'w) mesh_g_scheme \<Rightarrow> (zb_ret \<times> u16 \<times> bool \<times> u8 option \<times> ('cb, 'w) mesh_g_scheme) option" where
  "nwk_calc_destination cbs i h g = do {
     b \<leftarrow> arr_get (pool (bpool g)) i;
     let p = ZB_BUF_BEGIN b;
     fc \<leftarrow> buf_read (data_buf b) p 2;
     nh \<leftarrow> nwk_hdr_at (data_buf b) p;
     let dst = nh_dst_addr nh;
     if mesh_device_type g = ZB_NWK_DEVICE_TYPE_ED then do {
       a \<leftarrow> (if nlme_state g \<noteq> ZB_NLME_STATE_REJOIN then zb_address_short_by_ref (nwk_parent (snwk g)) (addr_tbl (snwk g)) else Some dst);
       Some (RET_OK, a, False, None, g) }
     else if ZB_NWK_IS_ADDRESS_BROADCAST dst then Some (RET_OK, ZB_NWK_BROADCAST_ALL_DEVICES, False, None, g)
     else do {
       (n, g) \<leftarrow> dest_neighbor (data_buf b) p fc dst g;
       (case n of
          Some k \<Rightarrow> do {
            nb \<leftarrow> arr_get (base_neighbor (neighbor (snwk g))) k;
            Some (RET_OK, dst, \<not> rx_on_when_idle nb, None, g) }
        | None \<Rightarrow> do {
            (ret, a, st, g) \<leftarrow> route_destination cbs i h fc dst g;
            Some (ret, a, False, st, g) }) } }"

text \<open>What a warm reset does to the routes, \<^verbatim>\<open>zb_nlme_reset_request\<close>.\<close>

definition clear_routes :: "('cb, 'w) mesh_g_scheme \<Rightarrow> ('cb, 'w) mesh_g_scheme" where
  "clear_routes g =
     (let (rt, n) = NWK_ARRAY_CLEAR set_rt_used (routing_table g, routing_table_cnt g);
          (rd, m) = NWK_ARRAY_CLEAR set_rd_used (route_disc_table g, route_disc_table_cnt g)
      in g\<lparr>routing_table := rt, routing_table_cnt := n, route_disc_table := rd, route_disc_table_cnt := m\<rparr>)"

end
