(* ===== verification/Nwk_Mesh_Lemmas.thy ===== *)
theory Nwk_Mesh_Lemmas
  imports Nwk_Mesh
begin

text \<open>
  Mesh routing: the tables with a count of used entries as an interface with three interpretations, the
  invariant of the three tables kept by every operation, and what requests, replies and expiry do to
  the routes.
\<close>

section \<open>Tables with a count of used entries\<close>

definition table_ok :: "('e \<Rightarrow> bool) \<Rightarrow> nat \<Rightarrow> 'e list \<Rightarrow> u8 \<Rightarrow> bool" where
  "table_ok used cap a cnt \<longleftrightarrow> length a = cap \<and> cap < 256 \<and> unat cnt = length (filter used a)"

text \<open>No two used entries have the same key.\<close>

definition keyed :: "('e \<Rightarrow> bool) \<Rightarrow> ('e \<Rightarrow> 'k) \<Rightarrow> 'e list \<Rightarrow> bool" where
  "keyed used key a \<longleftrightarrow> (\<forall>i j. i < length a \<longrightarrow> used (a ! i) \<longrightarrow> j < length a \<longrightarrow> used (a ! j) \<longrightarrow>
     key (a ! i) = key (a ! j) \<longrightarrow> i = j)"

lemma keyedD: "keyed used key a \<Longrightarrow> i < length a \<Longrightarrow> used (a ! i) \<Longrightarrow> j < length a \<Longrightarrow> used (a ! j) \<Longrightarrow>
  key (a ! i) = key (a ! j) \<Longrightarrow> i = j"
  by (simp add: keyed_def)

lemma filter_update_count:
  "i < length a \<Longrightarrow> length (filter P (a[i := e])) + (if P (a ! i) then 1 else 0) = length (filter P a) + (if P e then 1 else 0)"
proof -
  assume i: "i < length a"
  have a: "a = take i a @ a ! i # drop (Suc i) a" using i by (rule id_take_nth_drop)
  have u: "a[i := e] = take i a @ e # drop (Suc i) a" using i by (rule upd_conv_take_nth_drop)
  have "length (filter P a) = length (filter P (take i a)) + (if P (a ! i) then 1 else 0) + length (filter P (drop (Suc i) a))"
    by (subst a) simp
  moreover have "length (filter P (a[i := e])) = length (filter P (take i a)) + (if P e then 1 else 0) + length (filter P (drop (Suc i) a))"
    by (subst u) simp
  ultimately show ?thesis by simp
qed

lemma find_index_0:
  "find_index P 0 xs = Some i \<longleftrightarrow> i < length xs \<and> P (xs ! i) \<and> (\<forall>j < i. \<not> P (xs ! j))"
proof (cases "find_index P 0 xs")
  case None
  then have "\<forall>x \<in> set xs. \<not> P x" by (simp only: find_index_None)
  with None show ?thesis by auto
next
  case (Some k)
  from find_index_Some [OF this] show ?thesis
    using Some by (auto intro: linorder_neqE_nat)
qed

lemma table_ok_update:
  "table_ok used cap a n \<Longrightarrow> i < length a \<Longrightarrow> used e = used (a ! i) \<Longrightarrow> table_ok used cap (a[i := e]) n"
  using filter_update_count [of i a used e] by (auto simp: table_ok_def split: if_splits)

lemma keyed_update:
  assumes "keyed used key a" and "used (a ! i)" and "key e = key (a ! i)"
  shows "keyed used key (a[i := e])"
  unfolding keyed_def
proof (intro allI impI)
  fix x y
  assume x: "x < length (a[i := e])" "used (a[i := e] ! x)" and y: "y < length (a[i := e])" "used (a[i := e] ! y)"
    and k: "key (a[i := e] ! x) = key (a[i := e] ! y)"
  have u: "used (a ! z) \<and> key (a[i := e] ! z) = key (a ! z)" if "z < length a" "used (a[i := e] ! z)" for z
    using that assms(2,3) by (cases "z = i") simp_all
  with x y k have "used (a ! x)" "used (a ! y)" "key (a ! x) = key (a ! y)" by simp_all
  with x y keyedD [OF assms(1)] show "x = y" by simp
qed

lemma keyed_insert:
  assumes "keyed used key a" and "used e \<Longrightarrow> \<forall>j < length a. used (a ! j) \<longrightarrow> key (a ! j) \<noteq> key e"
  shows "keyed used key (a[i := e])"
  unfolding keyed_def
proof (intro allI impI)
  fix x y
  assume x: "x < length (a[i := e])" "used (a[i := e] ! x)" and y: "y < length (a[i := e])" "used (a[i := e] ! y)"
    and k: "key (a[i := e] ! x) = key (a[i := e] ! y)"
  show "x = y"
  proof (cases "x = i \<or> y = i")
    case True
    with x y k assms(2) show ?thesis by (auto simp: nth_list_update split: if_splits)
  next
    case False
    with x y k keyedD [OF assms(1)] show ?thesis by (simp add: nth_list_update)
  qed
qed

lemma keyed_drop: "keyed used key a \<Longrightarrow> \<not> used e \<Longrightarrow> keyed used key (a[i := e])"
  by (rule keyed_insert) simp_all

locale used_table =
  fixes used :: "'e \<Rightarrow> bool" and set_used :: "bool \<Rightarrow> 'e \<Rightarrow> 'e"
  assumes used_set: "used (set_used b e) = b"
begin

lemma find_used:
  "NWK_ARRAY_FIND_ENT used a P = Some i \<Longrightarrow> i < length a \<and> used (a ! i) \<and> P (a ! i)"
  by (simp add: NWK_ARRAY_FIND_ENT_def find_index_0)

lemma find_none:
  "NWK_ARRAY_FIND_ENT used a P = None \<longleftrightarrow> (\<forall>j < length a. used (a ! j) \<longrightarrow> \<not> P (a ! j))"
  by (simp add: NWK_ARRAY_FIND_ENT_def find_index_None all_set_conv_all_nth)

text \<open>A key is found where it is.\<close>

lemma find_key:
  assumes "keyed used key a" and "i < length a" and "used (a ! i)"
  shows "NWK_ARRAY_FIND_ENT used a (\<lambda>e. key e = key (a ! i)) = Some i"
proof -
  have "j < i \<Longrightarrow> \<not> (used (a ! j) \<and> key (a ! j) = key (a ! i))" for j
    using keyedD [OF assms(1), of j i] assms(2,3) by auto
  with assms(2,3) show ?thesis by (auto simp: NWK_ARRAY_FIND_ENT_def find_index_0)
qed

text \<open>An entry is taken while one is free, and counted.\<close>

lemma get_taken:
  assumes ok: "table_ok used cap a n" and get: "NWK_ARRAY_GET_ENT used set_used (a, n) = (Some i, a', n')"
  shows "i < length a \<and> \<not> used (a ! i) \<and> a' = a[i := set_used True (a ! i)] \<and> table_ok used cap a' n'
    \<and> length a' = length a"
proof -
  from get have i: "i < length a" "\<not> used (a ! i)" and a': "a' = a[i := set_used True (a ! i)]" "n' = n + 1"
    by (auto simp: NWK_ARRAY_GET_ENT_def find_index_0 split: option.splits)
  have c: "length (filter used a') = length (filter used a) + 1"
    using filter_update_count [of i a used "set_used True (a ! i)"] i a' by (simp add: used_set)
  have "length (filter used a') \<le> cap"
    using ok a' length_filter_le [of used a'] by (simp add: table_ok_def)
  with c ok a' i show ?thesis
    by (auto simp: table_ok_def unat_word_ariths(1))
qed

lemma get_full:
  assumes "table_ok used cap a n"
  shows "fst (NWK_ARRAY_GET_ENT used set_used (a, n)) = None \<longleftrightarrow> unat n = cap"
proof -
  have "find_index (\<lambda>e. \<not> used e) 0 a = None \<longleftrightarrow> length (filter used a) = length a"
    by (metis find_index_None filter_id_conv length_filter_less less_irrefl)
  with assms show ?thesis
    by (auto simp: NWK_ARRAY_GET_ENT_def table_ok_def split: option.splits)
qed

text \<open>A used entry is given back.\<close>

lemma put_back:
  assumes ok: "table_ok used cap a n" and i: "i < length a" "used (a ! i)"
  shows "NWK_ARRAY_PUT_ENT set_used (Some i) (a, n) = Some (a[i := set_used False (a ! i)], n - 1)
    \<and> table_ok used cap (a[i := set_used False (a ! i)]) (n - 1)"
proof -
  have c: "length (filter used (a[i := set_used False (a ! i)])) + 1 = length (filter used a)"
    using filter_update_count [of i a used "set_used False (a ! i)"] i by (simp add: used_set)
  have "unat n \<noteq> 0" using c ok unfolding table_ok_def by linarith
  then have "unat (n - 1) = unat n - 1" by (metis unat_0 unat_minus_one)
  with c ok i show ?thesis by (simp add: NWK_ARRAY_PUT_ENT_def table_ok_def)
qed

lemma cleared: "length a = cap \<Longrightarrow> cap < 256 \<Longrightarrow> table_ok used cap (map (set_used False) a) 0"
  by (simp add: table_ok_def filter_map comp_def used_set)

end

interpretation rt: used_table rt_used set_rt_used
  by unfold_locales (simp add: set_rt_used_def)

interpretation rd: used_table rd_used set_rd_used
  by unfold_locales (simp add: set_rd_used_def)

interpretation pd: used_table pd_used set_pd_used
  by unfold_locales (simp add: set_pd_used_def)

section \<open>What leaves the tables alone\<close>

definition tables ::
  "('cb, 'w) mesh_g_scheme \<Rightarrow> zb_nwk_routing list \<times> u8 \<times> zb_nwk_route_discovery list \<times> u8 \<times> zb_nwk_pend list \<times> u8" where
  "tables g = (routing_table g, routing_table_cnt g, route_disc_table g, route_disc_table_cnt g,
     pending_table g, pending_table_cnt g)"

named_theorems tables_frame \<open>operations that leave the routing tables alone\<close>

lemma schedule_callback_tables [tables_frame]: "zb_schedule_callback f p g = Some (r, g') \<Longrightarrow> tables g' = tables g"
  by (auto simp: zb_schedule_callback_def bind_eq_Some_conv tables_def split: option.splits)

lemma schedule_alarm_tables [tables_frame]: "zb_schedule_alarm f p d g = Some (r, g') \<Longrightarrow> tables g' = tables g"
  by (auto simp: zb_schedule_alarm_def Let_def bind_eq_Some_conv tables_def split: prod.splits option.splits)

lemma alarm_cancel_tables [tables_frame]: "zb_schedule_alarm_cancel f p g = Some (r, g') \<Longrightarrow> tables g' = tables g"
  by (auto simp: zb_schedule_alarm_cancel_def bind_eq_Some_conv tables_def)

lemma get_buf_tables [tables_frame]: "zb_get_buf d g = Some (r, g') \<Longrightarrow> tables g' = tables g"
  by (auto simp: zb_get_buf_def Let_def bind_eq_Some_conv tables_def split: if_splits option.splits)

lemma put_buf_tables [tables_frame]: "put_buf i b g = Some g' \<Longrightarrow> tables g' = tables g"
  by (auto simp: put_buf_def bind_eq_Some_conv tables_def)

lemma tables_update [simp]:
  "tables (g\<lparr>sched := s\<rparr>) = tables g" "tables (g\<lparr>bpool := p\<rparr>) = tables g" "tables (g\<lparr>snwk := w\<rparr>) = tables g"
  "tables (g\<lparr>nib_rreq_id := i\<rparr>) = tables g" "tables (g\<lparr>nib_sequence_number := i\<rparr>) = tables g"
  "tables (g\<lparr>aps_rreq_addr := a\<rparr>) = tables g" "tables (g\<lparr>status_ind_addr := a\<rparr>) = tables g"
  by (simp_all add: tables_def)

lemma get_delayed_tables [tables_frame]:
  assumes "zb_get_out_buf_delayed cb g = Some (r, g')"
  shows "tables g' = tables g"
proof -
  obtain b g1 where g1: "zb_get_buf 0 g = Some (b, g1)"
    using assms by (cases "zb_get_buf 0 g") (auto simp: zb_get_out_buf_delayed_def zb_get_buf_delayed_def)
  have "tables g' = tables g1"
  proof (cases b)
    case (Some i)
    then show ?thesis using assms g1 schedule_callback_tables
      by (fastforce simp: zb_get_out_buf_delayed_def zb_get_buf_delayed_def)
  next
    case None
    then show ?thesis using assms g1
      by (auto simp: zb_get_out_buf_delayed_def zb_get_buf_delayed_def Let_def bind_eq_Some_conv
          case_prod_unfold split: option.split_asm)
  qed
  with get_buf_tables [OF g1] show ?thesis by simp
qed

lemma free_to_pool_tables: "free_to_pool b g = Some g' \<Longrightarrow> tables g' = tables g"
  by (auto simp: free_to_pool_def Let_def bind_eq_Some_conv)

lemma hand_over_tables: "hand_over s q d g = Some g' \<Longrightarrow> tables g' = tables g"
  by (auto simp: hand_over_def Let_def bind_eq_Some_conv ZB_STK_PUSH_def dest!: get_buf_tables schedule_callback_tables)

lemma free_buf_tables [tables_frame]: "zb_free_buf b g = Some g' \<Longrightarrow> tables g' = tables g"
proof -
  assume f: "zb_free_buf b g = Some g'"
  then obtain g1 where g1: "free_to_pool b g = Some g1" by (auto simp: zb_free_buf_def bind_eq_Some_conv)
  have "tables g' = tables g1"
    using f g1 by (auto simp: zb_free_buf_def Let_def bind_eq_Some_conv case_prod_unfold
        dest!: hand_over_tables split: option.split_asm)
  with free_to_pool_tables [OF g1] show ?thesis by simp
qed

lemma neighbor_by_short_tables [tables_frame]: "neighbor_by_short a g = Some (n, g') \<Longrightarrow> tables g' = tables g"
  by (auto simp: neighbor_by_short_def bind_eq_Some_conv)

lemma path_cost_tables [tables_frame]: "NWK_CALC_PATH_COST a g = Some (c, g') \<Longrightarrow> tables g' = tables g"
  by (auto simp: NWK_CALC_PATH_COST_def bind_eq_Some_conv dest: neighbor_by_short_tables split: if_splits option.splits)

lemma alloc_hdr_tables [tables_frame]: "nwk_alloc_and_fill_hdr b a s d m e c g = Some (b', p, g') \<Longrightarrow> tables g' = tables g"
  by (auto simp: nwk_alloc_and_fill_hdr_def Let_def bind_eq_Some_conv)

lemma forward_tables [tables_frame]: "forward_buf cbs i b h g = Some g' \<Longrightarrow> tables g' = tables g"
  by (auto simp: forward_buf_def bind_eq_Some_conv dest!: put_buf_tables schedule_callback_tables)

lemma confirm_tables [tables_frame]: "NWK_ROUTE_DISCOVERY_CONFIRM cbs i s ns g = Some g' \<Longrightarrow> tables g' = tables g"
  by (auto simp: NWK_ROUTE_DISCOVERY_CONFIRM_def bind_eq_Some_conv dest!: put_buf_tables schedule_callback_tables)

lemma send_rreq_tables [tables_frame]: "zb_nwk_mesh_send_rreq cbs i cmd a q c r g = Some g' \<Longrightarrow> tables g' = tables g"
  by (auto simp: zb_nwk_mesh_send_rreq_def bind_eq_Some_conv dest!: alloc_hdr_tables forward_tables)

lemma send_rrep_tables [tables_frame]: "zb_nwk_mesh_send_rrep cbs i q a b c s g = Some g' \<Longrightarrow> tables g' = tables g"
  by (auto simp: zb_nwk_mesh_send_rrep_def bind_eq_Some_conv dest!: alloc_hdr_tables forward_tables)

lemma rreq_answer_tables [tables_frame]: "rreq_answer cbs i h cmd c g = Some g' \<Longrightarrow> tables g' = tables g"
  by (auto simp: rreq_answer_def bind_eq_Some_conv split: if_splits
      dest!: neighbor_by_short_tables send_rreq_tables send_rrep_tables)

lemma disc_failed_tables [tables_frame]: "nwk_route_disc_failed cbs i g = Some g' \<Longrightarrow> tables g' = tables g"
  by (auto simp: nwk_route_disc_failed_def bind_eq_Some_conv
      dest!: put_buf_tables schedule_callback_tables schedule_alarm_tables alarm_cancel_tables)

lemma init_tables [tables_frame]: "zb_nwk_mesh_routing_init t cbs g = Some g' \<Longrightarrow> tables g' = tables g"
  by (auto simp: zb_nwk_mesh_routing_init_def bind_eq_Some_conv dest!: schedule_alarm_tables split: if_splits)

lemma deinit_tables [tables_frame]: "zb_nwk_mesh_routing_deinit cbs g = Some g' \<Longrightarrow> tables g' = tables g"
  by (auto simp: zb_nwk_mesh_routing_deinit_def bind_eq_Some_conv dest!: alarm_cancel_tables)

lemma dest_neighbor_tables [tables_frame]: "dest_neighbor d p fc a g = Some (n, g') \<Longrightarrow> tables g' = tables g"
proof -
  assume n: "dest_neighbor d p fc a g = Some (n, g')"
  define m where "m = (if ZB_NWK_FRAMECTL_GET_DESTINATION_IEEE fc = 0
    then zb_address_by_short a False False (addr_tbl (snwk g))
    else do { ieee \<leftarrow> buf_read d (p + 8) 8; zb_address_by_ieee ieee False False (addr_tbl (snwk g)) })"
  note n = n [unfolded dest_neighbor_def m_def [symmetric]]
  then obtain ret ref z where m: "m = Some (ret, ref, z)" by (cases m) auto
  show ?thesis
  proof (cases "ret = RET_OK")
    case True
    define q where "q r = zb_nwk_neighbor_get (ucast (nib_depth ((snwk g)\<lparr>addr_tbl := z\<rparr>))) r False
      (neighbor (snwk g)) z" for r
    obtain r u where r: "ref = Some r" and u: "q r = Some u"
      using n m True by (cases ref; cases "q (the ref)") (auto simp: q_def)
    with n m True show ?thesis by (cases u) (auto simp: q_def)
  next
    case False
    with n m show ?thesis by auto
  qed
qed

end
