(* ===== verification/Nwk_Mesh_Inv.thy ===== *)
theory Nwk_Mesh_Inv
  imports Nwk_Mesh_Lemmas Nwk_Secur_Lemmas
begin

text \<open>
  The invariant of the routing tables: every count is the number of used entries, no destination has
  two routes, no request is recorded twice, and every waiting packet has a buffer. Every operation
  keeps it, so it holds in every state that is reached from cleared tables.
\<close>

section \<open>The invariant\<close>

definition rd_key :: "zb_nwk_route_discovery \<Rightarrow> u8 \<times> u16" where "rd_key e = (rd_request_id e, rd_source_addr e)"

definition mesh_ok :: "('cb, 'w) mesh_g_scheme \<Rightarrow> bool" where
  "mesh_ok g \<longleftrightarrow>
     table_ok rt_used ZB_NWK_ROUTING_TABLE_SIZE (routing_table g) (routing_table_cnt g)
     \<and> table_ok rd_used ZB_NWK_ROUTE_DISCOVERY_TABLE_SIZE (route_disc_table g) (route_disc_table_cnt g)
     \<and> table_ok pd_used ZB_NWK_PENDING_TABLE_SIZE (pending_table g) (pending_table_cnt g)
     \<and> keyed rt_used rt_dest_addr (routing_table g) \<and> keyed rd_used rd_key (route_disc_table g)
     \<and> (\<forall>k < length (pending_table g). pd_used (pending_table g ! k) \<longrightarrow> pd_buf (pending_table g ! k) \<noteq> None)"

lemma mesh_ok_frame: "mesh_ok g \<Longrightarrow> tables g' = tables g \<Longrightarrow> mesh_ok g'"
  by (simp add: mesh_ok_def tables_def)

lemma mesh_ok_update [simp]:
  "mesh_ok (g\<lparr>sched := s\<rparr>) = mesh_ok g" "mesh_ok (g\<lparr>bpool := p\<rparr>) = mesh_ok g" "mesh_ok (g\<lparr>snwk := w\<rparr>) = mesh_ok g"
  "mesh_ok (g\<lparr>nib_rreq_id := i\<rparr>) = mesh_ok g" "mesh_ok (g\<lparr>aps_rreq_addr := a\<rparr>) = mesh_ok g"
  "mesh_ok (g\<lparr>status_ind_addr := a\<rparr>) = mesh_ok g"
  by (simp_all add: mesh_ok_def)

lemma mesh_okD:
  assumes "mesh_ok g"
  shows "table_ok rt_used 5 (routing_table g) (routing_table_cnt g)" "table_ok rd_used 5 (route_disc_table g) (route_disc_table_cnt g)"
    "table_ok pd_used 5 (pending_table g) (pending_table_cnt g)" "keyed rt_used rt_dest_addr (routing_table g)"
    "keyed rd_used rd_key (route_disc_table g)" "length (routing_table g) = 5" "length (route_disc_table g) = 5"
    "length (pending_table g) = 5"
    "k < length (pending_table g) \<Longrightarrow> pd_used (pending_table g ! k) \<Longrightarrow> pd_buf (pending_table g ! k) \<noteq> None"
  using assms by (auto simp: mesh_ok_def table_ok_def zb_config)

section \<open>Giving entries back\<close>

lemma put_routing_ok:
  assumes "mesh_ok g" and "k < 5" and "rt_used (routing_table g ! k)"
  shows "put_routing (Some k) g = Some (g\<lparr>routing_table := (routing_table g)[k := set_rt_used False (routing_table g ! k)],
      routing_table_cnt := routing_table_cnt g - 1\<rparr>)"
    and "mesh_ok (g\<lparr>routing_table := (routing_table g)[k := set_rt_used False (routing_table g ! k)],
      routing_table_cnt := routing_table_cnt g - 1\<rparr>)"
  using rt.put_back [of 5 "routing_table g" "routing_table_cnt g" k] mesh_okD [OF assms(1)] assms
  by (simp_all add: put_routing_def mesh_ok_def zb_config keyed_drop set_rt_used_def)

lemma put_route_disc_ok:
  assumes "mesh_ok g" and "k < 5" and "rd_used (route_disc_table g ! k)"
  shows "put_route_disc (Some k) g = Some (g\<lparr>route_disc_table := (route_disc_table g)[k := set_rd_used False (route_disc_table g ! k)],
      route_disc_table_cnt := route_disc_table_cnt g - 1\<rparr>)"
    and "mesh_ok (g\<lparr>route_disc_table := (route_disc_table g)[k := set_rd_used False (route_disc_table g ! k)],
      route_disc_table_cnt := route_disc_table_cnt g - 1\<rparr>)"
  using rd.put_back [of 5 "route_disc_table g" "route_disc_table_cnt g" k] mesh_okD [OF assms(1)] assms
  by (simp_all add: put_route_disc_def mesh_ok_def zb_config keyed_drop set_rd_used_def)

lemma put_pending_ok:
  assumes "mesh_ok g" and "k < 5" and "pd_used (pending_table g ! k)"
  shows "put_pending (Some k) g = Some (g\<lparr>pending_table := (pending_table g)[k := set_pd_used False (pending_table g ! k)],
      pending_table_cnt := pending_table_cnt g - 1\<rparr>)"
    and "mesh_ok (g\<lparr>pending_table := (pending_table g)[k := set_pd_used False (pending_table g ! k)],
      pending_table_cnt := pending_table_cnt g - 1\<rparr>)"
  using pd.put_back [of 5 "pending_table g" "pending_table_cnt g" k] mesh_okD [OF assms(1)] assms
  by (auto simp: put_pending_def mesh_ok_def zb_config set_pd_used_def nth_list_update)

lemma put_none [simp]: "put_routing None g = Some g" "put_route_disc None g = Some g"
  by (simp_all add: put_routing_def put_route_disc_def NWK_ARRAY_PUT_ENT_def)

section \<open>Route requests\<close>

lemma rreq_route_ok:
  assumes ok: "mesh_ok g" and run: "rreq_route dest g = Some (r, g')"
  shows "mesh_ok g' \<and> route_disc_table g' = route_disc_table g \<and> pending_table g' = pending_table g
    \<and> (r = None \<longrightarrow> g' = g)
    \<and> (\<forall>k. r = Some k \<longrightarrow> k < 5 \<and> rt_used (routing_table g' ! k) \<and> rt_dest_addr (routing_table g' ! k) = dest)"
proof (cases "NWK_ARRAY_FIND_ENT rt_used (routing_table g) (\<lambda>e. rt_dest_addr e = dest)")
  case (Some k)
  note f = rt.find_used [OF this] and D = mesh_okD [OF ok]
  let ?e = "routing_table g ! k"
  define e where "e = (if rt_status ?e \<noteq> ZB_NWK_ROUTE_STATE_ACTIVE \<and> rt_status ?e \<noteq> ZB_NWK_ROUTE_STATE_VALIDATION_UNDERWAY
    then ?e\<lparr>rt_status := ZB_NWK_ROUTE_STATE_DISCOVERY_UNDERWAY\<rparr> else ?e)"
  have e: "rt_used e = rt_used ?e" "rt_dest_addr e = rt_dest_addr ?e" by (simp_all add: e_def)
  have r: "r = Some k" "g' = g\<lparr>routing_table := (routing_table g)[k := e]\<rparr>"
    using run Some f by (simp_all add: rreq_route_def e_def)
  have "mesh_ok g'"
    using ok f D e by (simp add: r mesh_ok_def table_ok_update keyed_update)
  with r f e D show ?thesis by simp
next
  case None
  note D = mesh_okD [OF ok]
  obtain i a n where get: "NWK_ARRAY_GET_ENT rt_used set_rt_used (routing_table g, routing_table_cnt g) = (i, a, n)"
    by (rule prod_cases3)
  show ?thesis
  proof (cases i)
    case None2: None
    with run None get ok show ?thesis by (simp add: rreq_route_def)
  next
    case (Some k)
    note t = rt.get_taken [OF D(1) get [unfolded Some]]
    define e where "e = (a ! k)\<lparr>rt_dest_addr := dest, rt_status := ZB_NWK_ROUTE_STATE_DISCOVERY_UNDERWAY\<rparr>"
    have r: "r = Some k" "g' = g\<lparr>routing_table := a[k := e], routing_table_cnt := n\<rparr>"
      using run None get Some t by (simp_all add: rreq_route_def e_def)
    have e: "rt_used e" "rt_dest_addr e = dest" "rt_used (a ! k)"
      using t by (simp_all add: e_def set_rt_used_def)
    have "a[k := e] = (routing_table g)[k := e]" using t by simp
    moreover have "keyed rt_used rt_dest_addr ((routing_table g)[k := e])"
      using D(4) None e by (intro keyed_insert) (simp_all add: rt.find_none)
    moreover have "table_ok rt_used 5 (a[k := e]) n"
      using table_ok_update [of rt_used 5 a n k e] conjunct1 [OF t] e t by (metis (no_types))
    ultimately have "mesh_ok g'"
      using ok by (simp add: r mesh_ok_def zb_config)
    with r e t D show ?thesis by simp
  qed
qed

lemma rreq_disc_ok:
  assumes ok: "mesh_ok g" and run: "rreq_disc i src cmd c g = Some (res, g')"
  shows "mesh_ok g' \<and> routing_table g' = routing_table g \<and> pending_table g' = pending_table g
    \<and> (res \<noteq> Disc_updated \<longrightarrow> g' = g)"
proof (cases "NWK_ARRAY_FIND_ENT rd_used (route_disc_table g) (disc_key (rreq_id cmd) src)")
  case (Some k)
  note f = rd.find_used [OF this] and D = mesh_okD [OF ok]
  show ?thesis
  proof (cases "c < rd_forward_cost (route_disc_table g ! k)")
    case True
    then obtain s where r: "res = Disc_updated"
        "g' = g\<lparr>route_disc_table := (route_disc_table g)[k := (route_disc_table g ! k)\<lparr>rd_sender_addr := s, rd_forward_cost := c\<rparr>]\<rparr>"
      using run Some f by (auto simp: rreq_disc_def bind_eq_Some_conv)
    have "mesh_ok g'"
      using ok f D by (simp add: r mesh_ok_def table_ok_update keyed_update rd_key_def)
    with r show ?thesis by simp
  next
    case False
    with run Some f ok show ?thesis by (simp add: rreq_disc_def)
  qed
next
  case None
  note D = mesh_okD [OF ok]
  obtain j a n where get: "NWK_ARRAY_GET_ENT rd_used set_rd_used (route_disc_table g, route_disc_table_cnt g) = (j, a, n)"
    by (rule prod_cases3)
  show ?thesis
  proof (cases j)
    case None2: None
    with run None get ok show ?thesis by (simp add: rreq_disc_def)
  next
    case (Some k)
    note t = rd.get_taken [OF D(2) get [unfolded Some]]
    obtain s where r: "res = Disc_updated" "g' = g\<lparr>route_disc_table := a[k := (a ! k)\<lparr>rd_request_id := rreq_id cmd, rd_source_addr := src,
        rd_sender_addr := s, rd_dest_addr := rreq_dest_addr cmd, rd_forward_cost := c,
        rd_residual_cost := 0xff, rd_expiration_time := ZB_NWK_ROUTE_DISCOVERY_EXPIRY\<rparr>], route_disc_table_cnt := n\<rparr>"
      using run None get Some t by (auto simp: rreq_disc_def bind_eq_Some_conv)
    define e where "e = (a ! k)\<lparr>rd_request_id := rreq_id cmd, rd_source_addr := src,
        rd_sender_addr := s, rd_dest_addr := rreq_dest_addr cmd, rd_forward_cost := c,
        rd_residual_cost := 0xff, rd_expiration_time := ZB_NWK_ROUTE_DISCOVERY_EXPIRY\<rparr>"
    have e: "rd_used e" "rd_key e = (rreq_id cmd, src)" "rd_used (a ! k)"
      using t by (simp_all add: e_def set_rd_used_def rd_key_def)
    have "a[k := e] = (route_disc_table g)[k := e]" using t by simp
    moreover have "keyed rd_used rd_key ((route_disc_table g)[k := e])"
      using D(5) None e by (intro keyed_insert) (simp_all add: rd.find_none disc_key_def rd_key_def)
    moreover have "table_ok rd_used 5 (a[k := e]) n"
      using table_ok_update [of rd_used 5 a n k e] conjunct1 [OF t] e t by (metis (no_types))
    ultimately have "mesh_ok g'"
      using ok by (simp add: r [folded e_def] mesh_ok_def ZB_NWK_ROUTING_TABLE_SIZE_def ZB_NWK_ROUTE_DISCOVERY_TABLE_SIZE_def)
    with r show ?thesis by simp
  qed
qed

lemma rreq_failed_ok:
  assumes ok: "mesh_ok g" and r: "\<And>k. r = Some k \<Longrightarrow> k < 5 \<and> rt_used (routing_table g ! k)"
    and run: "rreq_failed cbs i dest r g = Some g'"
  shows "mesh_ok g'"
proof -
  obtain g1 where g1: "put_routing r g = Some g1" using run by (auto simp: rreq_failed_def bind_eq_Some_conv)
  have "mesh_ok g1"
  proof (cases r)
    case (Some k)
    with put_routing_ok [OF ok, of k] r g1 show ?thesis by simp
  qed (use g1 ok in simp)
  moreover have "tables g' = tables g1"
    using run g1 by (auto simp: rreq_failed_def dest: confirm_tables free_buf_tables split: if_split_asm)
  ultimately show ?thesis by (rule mesh_ok_frame)
qed

text \<open>The ways through the handler of a request.\<close>

lemma rreq_handler_run:
  assumes run: "zb_nwk_mesh_rreq_handler cbs i h cmd g = Some g'"
  obtains (full) c g1 g2 where "NWK_CALC_PATH_COST (nh_src_addr h) g = Some (c, g1)"
      "rreq_route (rreq_dest_addr cmd) g1 = Some (None, g2)" "rreq_failed cbs i (rreq_dest_addr cmd) None g2 = Some g'"
  | (room) c g1 k g2 res g3 where "NWK_CALC_PATH_COST (nh_src_addr h) g = Some (c, g1)"
      "rreq_route (rreq_dest_addr cmd) g1 = Some (Some k, g2)"
      "rreq_disc i (nh_src_addr h) cmd (c + rreq_path_cost cmd) g2 = Some (res, g3)"
      "(case res of Disc_updated \<Rightarrow> rreq_answer cbs i h cmd (c + rreq_path_cost cmd) g3
        | Disc_better_known \<Rightarrow> zb_free_buf i g3
        | Disc_no_room \<Rightarrow> rreq_failed cbs i (rreq_dest_addr cmd) (Some k) g3) = Some g'"
proof -
  obtain c g1 where c: "NWK_CALC_PATH_COST (nh_src_addr h) g = Some (c, g1)"
    using run by (auto simp: zb_nwk_mesh_rreq_handler_def bind_eq_Some_conv)
  note run = run [unfolded zb_nwk_mesh_rreq_handler_def c Let_def Option.bind.bind_lunit prod.case]
  then obtain r g2 where r: "rreq_route (rreq_dest_addr cmd) g1 = Some (r, g2)"
    by (auto simp: bind_eq_Some_conv)
  show ?thesis
  proof (cases r)
    case None
    with run r have "rreq_failed cbs i (rreq_dest_addr cmd) None g2 = Some g'" by simp
    from full [OF c r [unfolded None] this] show ?thesis .
  next
    case (Some k)
    note run = run [unfolded r Some Option.bind.bind_lunit prod.case option.case]
    then obtain res g3 where d: "rreq_disc i (nh_src_addr h) cmd (c + rreq_path_cost cmd) g2 = Some (res, g3)"
      by (auto simp: bind_eq_Some_conv)
    from room [OF c r [unfolded Some] d] run show ?thesis by (simp add: d)
  qed
qed

lemma rreq_handler_ok:
  assumes ok: "mesh_ok g" and run: "zb_nwk_mesh_rreq_handler cbs i h cmd g = Some g'"
  shows "mesh_ok g'"
  using run
proof (cases rule: rreq_handler_run)
  case (full c g1 g2)
  have "mesh_ok g1" using ok path_cost_tables [OF full(1)] by (rule mesh_ok_frame)
  note R = rreq_route_ok [OF this full(2)]
  show ?thesis using rreq_failed_ok [OF conjunct1 [OF R] _ full(3)] by simp
next
  case (room c g1 k g2 res g3)
  have "mesh_ok g1" using ok path_cost_tables [OF room(1)] by (rule mesh_ok_frame)
  note R = rreq_route_ok [OF this room(2)]
  then have D: "mesh_ok g3" "k < 5" "rt_used (routing_table g3 ! k)"
    using rreq_disc_ok [OF _ room(3)] by simp_all
  show ?thesis
  proof (cases res)
    case Disc_updated
    with room(4) D(1) show ?thesis by (auto dest!: rreq_answer_tables intro: mesh_ok_frame)
  next
    case Disc_better_known
    with room(4) D(1) show ?thesis by (auto dest!: free_buf_tables intro: mesh_ok_frame)
  next
    case Disc_no_room
    with room(4) rreq_failed_ok [OF D(1), of "Some k"] D(2,3) show ?thesis by auto
  qed
qed

section \<open>Discovery\<close>

lemma route_discovery_ok:
  assumes ok: "mesh_ok g" and run: "zb_nwk_mesh_route_discovery cbs cbuf dest radius g = Some g'"
  shows "mesh_ok g'"
proof (cases cbuf)
  case None
  with run have "tables g' = tables g"
    by (auto simp: zb_nwk_mesh_route_discovery_def bind_eq_Some_conv dest!: get_delayed_tables)
  with ok show ?thesis by (rule mesh_ok_frame)
next
  case (Some i)
  with run obtain g1 b h cmd where g1: "put_buf i b (g\<lparr>nib_rreq_id := nib_rreq_id g + 1\<rparr>) = Some g1"
      and h: "zb_nwk_mesh_rreq_handler cbs i h cmd g1 = Some g'"
    by (auto simp: zb_nwk_mesh_route_discovery_def Let_def bind_eq_Some_conv)
  have "mesh_ok g1" using put_buf_tables [OF g1] ok mesh_ok_frame [of g g1] by simp
  from rreq_handler_ok [OF this h] show ?thesis .
qed

text \<open>A discovery leaves the waiting packets alone.\<close>

lemma rreq_handler_pending:
  assumes ok: "mesh_ok g" and run: "zb_nwk_mesh_rreq_handler cbs i h cmd g = Some g'"
  shows "pending_table g' = pending_table g"
  using run
proof (cases rule: rreq_handler_run)
  case (full c g1 g2)
  note t = path_cost_tables [OF full(1)]
  have "mesh_ok g1" using ok t by (rule mesh_ok_frame)
  note R = rreq_route_ok [OF this full(2)]
  have "tables g' = tables g2"
    using full(3) by (auto simp: rreq_failed_def dest: confirm_tables free_buf_tables split: if_split_asm)
  with R t show ?thesis by (simp add: tables_def)
next
  case (room c g1 k g2 res g3)
  note t = path_cost_tables [OF room(1)]
  have "mesh_ok g1" using ok t by (rule mesh_ok_frame)
  note R = rreq_route_ok [OF this room(2)]
  then have D: "mesh_ok g3" "pending_table g3 = pending_table g2" "k < 5" "rt_used (routing_table g3 ! k)"
    using rreq_disc_ok [OF _ room(3)] by simp_all
  have "pending_table g' = pending_table g3"
  proof (cases res)
    case Disc_updated
    with room(4) show ?thesis by (auto dest!: rreq_answer_tables simp: tables_def)
  next
    case Disc_better_known
    with room(4) show ?thesis by (auto dest!: free_buf_tables simp: tables_def)
  next
    case Disc_no_room
    with room(4) put_routing_ok(1) [OF D(1,3,4)] show ?thesis
      by (auto simp: rreq_failed_def tables_def dest!: confirm_tables free_buf_tables split: if_split_asm)
  qed
  with R D t show ?thesis by (simp add: tables_def)
qed

lemma route_discovery_pending:
  assumes ok: "mesh_ok g" and run: "zb_nwk_mesh_route_discovery cbs cbuf dest radius g = Some g'"
  shows "pending_table g' = pending_table g"
proof (cases cbuf)
  case None
  with run show ?thesis
    by (auto simp: zb_nwk_mesh_route_discovery_def bind_eq_Some_conv tables_def dest!: get_delayed_tables)
next
  case (Some i)
  with run obtain g1 b h cmd where g1: "put_buf i b (g\<lparr>nib_rreq_id := nib_rreq_id g + 1\<rparr>) = Some g1"
      and h: "zb_nwk_mesh_rreq_handler cbs i h cmd g1 = Some g'"
    by (auto simp: zb_nwk_mesh_route_discovery_def Let_def bind_eq_Some_conv)
  have t: "tables g1 = tables g" using put_buf_tables [OF g1] by simp
  with rreq_handler_pending [OF mesh_ok_frame [OF ok t] h] show ?thesis by (simp add: tables_def)
qed

lemma pending_update_ok:
  assumes "mesh_ok g" and "k < 5" and "pd_used e = pd_used (pending_table g ! k)" and "pd_used e \<Longrightarrow> pd_buf e \<noteq> None"
  shows "mesh_ok (g\<lparr>pending_table := (pending_table g)[k := e]\<rparr>)"
  using assms mesh_okD [OF assms(1)] by (auto simp: mesh_ok_def table_ok_update nth_list_update)

lemma initiate_ok:
  assumes ok: "mesh_ok g" and run: "zb_nwk_mesh_initiate_route_discovery cbs i g = Some g'"
  shows "mesh_ok g'"
proof -
  obtain k where k: "NWK_ARRAY_FIND_ENT pd_used (pending_table g) pd_waiting_buf = Some k"
    using run by (auto simp: zb_nwk_mesh_initiate_route_discovery_def bind_eq_Some_conv split: option.split_asm)
  note f = pd.find_used [OF k]
  obtain d g1 where g1: "zb_nwk_mesh_route_discovery cbs (Some i) d 0 g = Some g1"
    and g': "g' = g1\<lparr>pending_table := (pending_table g1)[k := (pending_table g1 ! k)\<lparr>pd_waiting_buf := False\<rparr>]\<rparr>"
    using run k by (auto simp: zb_nwk_mesh_initiate_route_discovery_def bind_eq_Some_conv arr_set_Some arr_get_Some)
  note ok1 = route_discovery_ok [OF ok g1] and p = route_discovery_pending [OF ok g1]
  show ?thesis unfolding g'
    using mesh_okD(8,9) [OF ok] f p by (intro pending_update_ok [OF ok1]) simp_all
qed

lemma route_request_ok:
  assumes ok: "mesh_ok g" and run: "zb_nlme_route_discovery_request cbs i g = Some g'"
  shows "mesh_ok g'"
proof -
  consider "tables g' = tables g"
    | a g1 r where "tables g1 = tables g"
        "zb_nwk_mesh_route_discovery cbs (Some i) a r (g1\<lparr>aps_rreq_addr := a\<rparr>) = Some g'"
  proof -
    assume c: "tables g' = tables g \<Longrightarrow> thesis"
      "\<And>g1 a r. tables g1 = tables g \<Longrightarrow>
        zb_nwk_mesh_route_discovery cbs (Some i) a r (g1\<lparr>aps_rreq_addr := a\<rparr>) = Some g' \<Longrightarrow> thesis"
    show thesis
      using run c by (auto simp: zb_nlme_route_discovery_request_def Let_def bind_eq_Some_conv
          dest!: confirm_tables neighbor_by_short_tables split: if_split_asm)
  qed
  then show ?thesis
  proof cases
    case 1
    with ok show ?thesis by (rule mesh_ok_frame)
  next
    case (2 a g1 r)
    have "mesh_ok (g1\<lparr>aps_rreq_addr := a\<rparr>)" using mesh_ok_frame [OF ok 2(1)] by simp
    from route_discovery_ok [OF this 2(2)] show ?thesis .
  qed
qed

section \<open>Route replies\<close>

lemma send_pending_ok:
  "mesh_ok g \<Longrightarrow> set ks \<subseteq> {..<5} \<Longrightarrow> send_pending_loop cbs dest ks g = Some g' \<Longrightarrow>
   mesh_ok g' \<and> routing_table g' = routing_table g \<and> route_disc_table g' = route_disc_table g
     \<and> routing_table_cnt g' = routing_table_cnt g \<and> route_disc_table_cnt g' = route_disc_table_cnt g"
proof (induction ks arbitrary: g)
  case (Cons k ks)
  have k: "k < length (pending_table g)" using Cons.prems(2) mesh_okD(8) [OF Cons.prems(1)] by simp
  show ?case
  proof (cases "pd_used (pending_table g ! k) \<and> pd_dest_addr (pending_table g ! k) = dest")
    case True
    with Cons.prems(3) k obtain i b g1 g2 where g1: "forward_buf cbs i b (pd_handle (pending_table g ! k)) g = Some g1"
        and g2: "put_pending (Some k) g1 = Some g2" and r: "send_pending_loop cbs dest ks g2 = Some g'"
      by (auto simp: bind_eq_Some_conv)
    note t = forward_tables [OF g1]
    have p: "k < 5" "pd_used (pending_table g1 ! k)" using Cons.prems(2) t True by (simp_all add: tables_def)
    have "mesh_ok g2" "g2 = g1\<lparr>pending_table := (pending_table g1)[k := set_pd_used False (pending_table g1 ! k)],
        pending_table_cnt := pending_table_cnt g1 - 1\<rparr>"
      using put_pending_ok [OF mesh_ok_frame [OF Cons.prems(1) t] p] g2 by simp_all
    with Cons.IH [OF _ _ r] Cons.prems(2) t show ?thesis by (simp add: tables_def)
  next
    case False
    with Cons k show ?thesis by (simp split: if_split_asm)
  qed
qed simp

lemma rrep_update_ok:
  assumes ok: "mesh_ok g" and k: "k < 5" "rd_used (route_disc_table g ! k)" and r: "r < 5" "rt_used (routing_table g ! r)"
    and run: "rrep_update k r c s g = Some g'"
  shows "mesh_ok g'"
proof -
  note D = mesh_okD [OF ok]
  from run k r D show ?thesis
    by (auto simp: rrep_update_def mesh_ok_def table_ok_update keyed_update rd_key_def zb_config)
qed

lemma rrep_deliver_ok:
  assumes ok: "mesh_ok g" and run: "rrep_deliver cbs i cmd k r c g = Some g'"
  shows "mesh_ok g'"
proof -
  obtain e d where e: "arr_get (routing_table g) r = Some e" "arr_get (route_disc_table g) k = Some d"
    using run by (auto simp: rrep_deliver_def bind_eq_Some_conv)
  show ?thesis
  proof (cases "rrep_originator cmd = network_address g")
    case True
    with run e obtain g1 g2 where g1: "send_pending_loop cbs (rt_dest_addr e) [0..<ZB_NWK_PENDING_TABLE_SIZE] g = Some g1"
      and m: "(if aps_rreq_addr g1 = rt_dest_addr e then do {
                g \<leftarrow> NWK_ROUTE_DISCOVERY_CONFIRM cbs i ZB_NWK_STATUS_SUCCESS 0xff g1;
                Some (g\<lparr>aps_rreq_addr := - 1\<rparr>) } else Some g1) = Some g2"
      and f: "zb_free_buf i g2 = Some g'"
      by (auto simp: rrep_deliver_def bind_eq_Some_conv)
    have g2: "tables g2 = tables g1"
      using m by (auto simp: bind_eq_Some_conv dest: confirm_tables split: if_split_asm)
    have "set [0..<ZB_NWK_PENDING_TABLE_SIZE] \<subseteq> {..<5}" by (auto simp: zb_config)
    from send_pending_ok [OF ok this g1] have "mesh_ok g1" by simp
    from mesh_ok_frame [OF mesh_ok_frame [OF this g2] free_buf_tables [OF f]] show ?thesis .
  next
    case False
    with run e have "tables g' = tables g"
      by (auto simp: rrep_deliver_def dest: send_rrep_tables)
    with ok show ?thesis by (rule mesh_ok_frame)
  qed
qed

text \<open>The entries a reply is for, and the ways through its handler.\<close>

definition rrep_disc :: "zb_nwk_cmd_rrep \<Rightarrow> ('cb, 'w) mesh_g_scheme \<Rightarrow> nat option" where
  "rrep_disc cmd g = NWK_ARRAY_FIND_ENT rd_used (route_disc_table g) (disc_key (rrep_rreq_id cmd) (rrep_originator cmd))"

definition rrep_route :: "zb_nwk_cmd_rrep \<Rightarrow> ('cb, 'w) mesh_g_scheme \<Rightarrow> nat option" where
  "rrep_route cmd g = NWK_ARRAY_FIND_ENT rt_used (routing_table g) (\<lambda>e. rt_dest_addr e = rrep_responder cmd)"

lemma rrep_handler_run:
  assumes run: "zb_nwk_mesh_rrep_handler cbs i h cmd g = Some g'"
  obtains (absent) c g1 g2 g3 where "NWK_CALC_PATH_COST (nh_src_addr h) g = Some (c, g1)"
      "rrep_disc cmd g1 = None \<or> rrep_route cmd g1 = None" "put_route_disc (rrep_disc cmd g1) g1 = Some g2"
      "put_routing (rrep_route cmd g1) g2 = Some g3" "zb_free_buf i g3 = Some g'"
  | (longer) c g1 k r d where "NWK_CALC_PATH_COST (nh_src_addr h) g = Some (c, g1)"
      "rrep_disc cmd g1 = Some k" "rrep_route cmd g1 = Some r" "arr_get (route_disc_table g1) k = Some d"
      "rd_residual_cost d < c + rrep_path_cost cmd" "zb_free_buf i g1 = Some g'"
  | (accepted) b s c g1 k r d g2 where "arr_get (pool (bpool g)) i = Some b" "nwk_get_mac_source_addr b g = Some s"
      "NWK_CALC_PATH_COST (nh_src_addr h) g = Some (c, g1)"
      "rrep_disc cmd g1 = Some k" "rrep_route cmd g1 = Some r" "arr_get (route_disc_table g1) k = Some d"
      "c + rrep_path_cost cmd \<le> rd_residual_cost d" "rrep_update k r (c + rrep_path_cost cmd) s g1 = Some g2"
      "rrep_deliver cbs i cmd k r (c + rrep_path_cost cmd) g2 = Some g'"
proof -
  obtain b s c g1 where b: "arr_get (pool (bpool g)) i = Some b" and s: "nwk_get_mac_source_addr b g = Some s"
    and c: "NWK_CALC_PATH_COST (nh_src_addr h) g = Some (c, g1)"
    using run by (auto simp: zb_nwk_mesh_rrep_handler_def bind_eq_Some_conv)
  note run = run [unfolded zb_nwk_mesh_rrep_handler_def b s c Let_def Option.bind.bind_lunit prod.case,
    folded rrep_disc_def rrep_route_def]
  show ?thesis
  proof (cases "rrep_disc cmd g1 = None \<or> rrep_route cmd g1 = None")
    case True
    then obtain g2 g3 where p: "put_route_disc (rrep_disc cmd g1) g1 = Some g2"
        "put_routing (rrep_route cmd g1) g2 = Some g3" "zb_free_buf i g3 = Some g'"
      using run by (cases "rrep_disc cmd g1"; cases "rrep_route cmd g1") (auto simp: bind_eq_Some_conv)
    show ?thesis by (rule absent [OF c True p])
  next
    case False
    then obtain k r where kr: "rrep_disc cmd g1 = Some k" "rrep_route cmd g1 = Some r" by auto
    note run = run [unfolded kr option.case]
    then obtain d where d: "arr_get (route_disc_table g1) k = Some d" by (auto simp: bind_eq_Some_conv)
    show ?thesis
    proof (cases "rd_residual_cost d < c + rrep_path_cost cmd")
      case True
      with run d have "zb_free_buf i g1 = Some g'" by simp
      from longer [OF c kr d True this] show ?thesis .
    next
      case False
      with run d obtain g2 where u: "rrep_update k r (c + rrep_path_cost cmd) s g1 = Some g2"
           "rrep_deliver cbs i cmd k r (c + rrep_path_cost cmd) g2 = Some g'"
        by (auto simp: bind_eq_Some_conv)
      from False have "c + rrep_path_cost cmd \<le> rd_residual_cost d" by simp
      from accepted [OF b s c kr d this u] show ?thesis .
    qed
  qed
qed

lemma rrep_disc_used: "mesh_ok g \<Longrightarrow> rrep_disc cmd g = Some k \<Longrightarrow> k < 5 \<and> rd_used (route_disc_table g ! k)"
  using rd.find_used mesh_okD(7) by (fastforce simp: rrep_disc_def)

lemma rrep_route_used: "mesh_ok g \<Longrightarrow> rrep_route cmd g = Some k \<Longrightarrow> k < 5 \<and> rt_used (routing_table g ! k)"
  using rt.find_used mesh_okD(6) by (fastforce simp: rrep_route_def)

lemma rrep_handler_ok:
  assumes ok: "mesh_ok g" and run: "zb_nwk_mesh_rrep_handler cbs i h cmd g = Some g'"
  shows "mesh_ok g'"
  using run
proof (cases rule: rrep_handler_run)
  case (absent c g1 g2 g3)
  have ok1: "mesh_ok g1" using ok path_cost_tables [OF absent(1)] by (rule mesh_ok_frame)
  have "mesh_ok g2 \<and> routing_table g2 = routing_table g1"
    using put_route_disc_ok [OF ok1] absent(3) rrep_disc_used [OF ok1, of cmd] ok1 by (cases "rrep_disc cmd g1") auto
  then have "mesh_ok g3"
    using put_routing_ok [of g2] absent(4) rrep_route_used [OF ok1, of cmd] by (cases "rrep_route cmd g1") auto
  from mesh_ok_frame [OF this free_buf_tables [OF absent(5)]] show ?thesis .
next
  case (longer c g1 k r d)
  have "mesh_ok g1" using ok path_cost_tables [OF longer(1)] by (rule mesh_ok_frame)
  from mesh_ok_frame [OF this free_buf_tables [OF longer(6)]] show ?thesis .
next
  case (accepted b s c g1 k r d g2)
  have ok1: "mesh_ok g1" using ok path_cost_tables [OF accepted(3)] by (rule mesh_ok_frame)
  have "mesh_ok g2"
    using rrep_update_ok [OF ok1 _ _ _ _ accepted(8)] rrep_disc_used [OF ok1 accepted(4)] rrep_route_used [OF ok1 accepted(5)]
    by simp
  from rrep_deliver_ok [OF this accepted(9)] show ?thesis .
qed

section \<open>Expiry\<close>

lemma expired_route_used: "expired_route g = Some r \<Longrightarrow> r < length (routing_table g) \<and> rt_used (routing_table g ! r)"
  by (auto simp: expired_route_def find_index_0)

lemma disc_update_ok:
  assumes "mesh_ok g" and "k < 5" and "rd_used (route_disc_table g ! k)"
    and "rd_used e = rd_used (route_disc_table g ! k)" and "rd_key e = rd_key (route_disc_table g ! k)"
  shows "mesh_ok (g\<lparr>route_disc_table := (route_disc_table g)[k := e]\<rparr>)"
  using assms mesh_okD [OF assms(1)] by (auto simp: mesh_ok_def table_ok_update keyed_update)

lemma expiry_route_disc_loop_ok:
  "mesh_ok g \<Longrightarrow> set ks \<subseteq> {..<5} \<Longrightarrow> expiry_route_disc_loop cbs ks g = Some (st, g') \<Longrightarrow> mesh_ok g'"
proof (induction ks arbitrary: g)
  case (Cons k ks)
  let ?d = "route_disc_table g ! k"
  have k: "k < 5" "k < length (route_disc_table g)" using Cons.prems(2) mesh_okD(7) [OF Cons.prems(1)] by simp_all
  consider "\<not> rd_used ?d" | "rd_used ?d" "rd_expiration_time ?d \<noteq> 0" | "rd_used ?d" "rd_expiration_time ?d = 0"
    by blast
  then show ?case
  proof cases
    case 1
    with Cons k show ?thesis by simp
  next
    case 2
    have "mesh_ok (g\<lparr>route_disc_table := (route_disc_table g)[k := ?d\<lparr>rd_expiration_time := rd_expiration_time ?d - 1\<rparr>]\<rparr>)"
      using disc_update_ok [OF Cons.prems(1) k(1) 2(1)] 2(1) by (simp add: rd_key_def)
    from Cons.IH [OF this] Cons.prems(2,3) 2 k(2) show ?thesis by simp
  next
    case 3
    note p = put_route_disc_ok [OF Cons.prems(1) k(1) 3(1)]
    define g1 where "g1 = g\<lparr>route_disc_table := (route_disc_table g)[k := set_rd_used False ?d],
        route_disc_table_cnt := route_disc_table_cnt g - 1\<rparr>"
    have g1: "put_route_disc (Some k) g = Some g1" "mesh_ok g1" "routing_table g1 = routing_table g"
      using p by (simp_all add: g1_def)
    show ?thesis
    proof (cases "expired_route g")
      case None
      with Cons.IH [OF g1(2)] Cons.prems(2,3) 3 k(2) g1(1) show ?thesis by simp
    next
      case (Some r)
      note u = expired_route_used [OF Some]
      from Cons.prems(3) 3 k(2) g1(1) Some obtain x q g2 where
        g2: "zb_get_out_buf_delayed (cb_route_disc_failed cbs) (g1\<lparr>status_ind_addr := x\<rparr>) = Some (q, g2)"
        and g3: "put_routing (Some r) g2 = Some g'"
        by (auto simp: bind_eq_Some_conv)
      have t: "tables g2 = tables g1" using get_delayed_tables [OF g2] by simp
      have "r < 5" "rt_used (routing_table g2 ! r)"
        using u t g1(3) mesh_okD(6) [OF Cons.prems(1)] by (simp_all add: tables_def)
      from put_routing_ok [OF mesh_ok_frame [OF g1(2) t] this] g3 show ?thesis by simp
    qed
  qed
qed simp

lemma expiry_route_disc_ok:
  assumes ok: "mesh_ok g" and run: "zb_nwk_mesh_expiry_route_disc cbs g = Some g'"
  shows "mesh_ok g'"
proof -
  obtain st g1 where g1: "(if route_disc_table_cnt g \<noteq> 0
      then expiry_route_disc_loop cbs [0..<ZB_NWK_ROUTE_DISCOVERY_TABLE_SIZE] g else Some (False, g)) = Some (st, g1)"
      "tables g' = tables g1"
    using run unfolding zb_nwk_mesh_expiry_route_disc_def
    by (auto simp: bind_eq_Some_conv dest!: schedule_alarm_tables split: if_split_asm)
  have "set [0..<ZB_NWK_ROUTE_DISCOVERY_TABLE_SIZE] \<subseteq> {..<5}" by (auto simp: zb_config)
  from g1(1) expiry_route_disc_loop_ok [OF ok this, of cbs st g1] ok have "mesh_ok g1" by (auto split: if_split_asm)
  from mesh_ok_frame [OF this g1(2)] show ?thesis .
qed

lemma expiry_pending_loop_ok:
  "mesh_ok g \<Longrightarrow> set ks \<subseteq> {..<5} \<Longrightarrow> expiry_pending_loop ks g = Some g' \<Longrightarrow> mesh_ok g'"
proof (induction ks arbitrary: g)
  case (Cons k ks)
  let ?e = "pending_table g ! k"
  have k: "k < 5" "k < length (pending_table g)" using Cons.prems(2) mesh_okD(8) [OF Cons.prems(1)] by simp_all
  consider "\<not> pd_used ?e" | "pd_used ?e" "pd_expiry ?e \<noteq> 0" | "pd_used ?e" "pd_expiry ?e = 0"
    by blast
  then show ?case
  proof cases
    case 1
    with Cons k show ?thesis by simp
  next
    case 2
    have "mesh_ok (g\<lparr>pending_table := (pending_table g)[k := ?e\<lparr>pd_expiry := pd_expiry ?e - 1\<rparr>]\<rparr>)"
      using pending_update_ok [OF Cons.prems(1) k(1)] mesh_okD(9) [OF Cons.prems(1) k(2)] by simp
    from Cons.IH [OF this] Cons.prems(2,3) 2 k(2) show ?thesis by simp
  next
    case 3
    with Cons.prems(3) k(2) obtain i g1 g2 where g1: "zb_free_buf i g = Some g1" "put_pending (Some k) g1 = Some g2"
        and r: "expiry_pending_loop ks g2 = Some g'"
      by (auto simp: bind_eq_Some_conv)
    note t = free_buf_tables [OF g1(1)]
    have "pd_used (pending_table g1 ! k)" using t 3(1) by (simp add: tables_def)
    from put_pending_ok [OF mesh_ok_frame [OF Cons.prems(1) t] k(1) this] g1(2) have "mesh_ok g2" by simp
    from Cons.IH [OF this _ r] Cons.prems(2) show ?thesis by simp
  qed
qed simp

lemma expiry_pending_ok:
  assumes ok: "mesh_ok g" and run: "zb_nwk_mesh_expiry_pending cbs g = Some g'"
  shows "mesh_ok g'"
proof -
  obtain g1 where g1: "(if pending_table_cnt g \<noteq> 0 then expiry_pending_loop [0..<ZB_NWK_PENDING_TABLE_SIZE] g else Some g) = Some g1"
      "tables g' = tables g1"
    using run unfolding zb_nwk_mesh_expiry_pending_def
    by (auto simp: bind_eq_Some_conv dest!: schedule_alarm_tables)
  have "set [0..<ZB_NWK_PENDING_TABLE_SIZE] \<subseteq> {..<5}" by (auto simp: zb_config)
  from g1(1) expiry_pending_loop_ok [OF ok this, of g1] ok have "mesh_ok g1" by (auto split: if_split_asm)
  from mesh_ok_frame [OF this g1(2)] show ?thesis .
qed

section \<open>The next hop\<close>

lemma add_buf_to_pending_ok:
  assumes ok: "mesh_ok g" and run: "zb_nwk_mesh_add_buf_to_pending i h g = Some (ret, g')"
  shows "mesh_ok g'"
proof -
  note D = mesh_okD [OF ok]
  obtain j a n where get: "NWK_ARRAY_GET_ENT pd_used set_pd_used (pending_table g, pending_table_cnt g) = (j, a, n)"
    by (rule prod_cases3)
  show ?thesis
  proof (cases j)
    case None
    with run get ok show ?thesis by (auto simp: zb_nwk_mesh_add_buf_to_pending_def bind_eq_Some_conv)
  next
    case (Some k)
    note t = pd.get_taken [OF D(3) get [unfolded Some]]
    have a: "table_ok pd_used 5 a n" "k < length a" "pd_used (a ! k)" using t by (auto simp: set_pd_used_def)
    obtain x where g0: "g' = g\<lparr>pending_table := a[k := (a ! k)\<lparr>pd_buf := Some i, pd_handle := h, pd_dest_addr := x,
        pd_expiry := ZB_NWK_PENDING_ENTRY_EXPIRY, pd_waiting_buf := True\<rparr>], pending_table_cnt := n\<rparr>"
      using run get Some a(2) by (auto simp: zb_nwk_mesh_add_buf_to_pending_def bind_eq_Some_conv)
    define e where "e = (a ! k)\<lparr>pd_buf := Some i, pd_handle := h, pd_dest_addr := x,
        pd_expiry := ZB_NWK_PENDING_ENTRY_EXPIRY, pd_waiting_buf := True\<rparr>"
    have e: "pd_used e = pd_used (a ! k)" "pd_buf e = Some i" by (simp_all add: e_def)
    note g' = g0 [folded e_def]
    have "table_ok pd_used 5 (a[k := e]) n" by (rule table_ok_update [OF a(1,2) e(1)])
    moreover have "pd_buf (a[k := e] ! q) \<noteq> None" if q: "q < length (a[k := e])" "pd_used (a[k := e] ! q)" for q
      using q t D(9) [of q] e by (cases "q = k") simp_all
    ultimately show ?thesis
      using ok by (simp add: g' mesh_ok_def ZB_NWK_PENDING_TABLE_SIZE_def)
  qed
qed

lemma wait_for_route_ok:
  assumes ok: "mesh_ok g" and run: "wait_for_route cbs known i h dst g = Some (ret, st, g')"
  shows "mesh_ok g'"
proof -
  obtain r g1 where g1: "zb_nwk_mesh_add_buf_to_pending i h g = Some (r, g1)"
    using run by (auto simp: wait_for_route_def bind_eq_Some_conv)
  note ok1 = add_buf_to_pending_ok [OF ok g1]
  from run g1 have "g' = g1 \<or> zb_nwk_mesh_route_discovery cbs None dst 0 g1 = Some g'"
    by (cases "r = RET_OK") (auto simp: wait_for_route_def bind_eq_Some_conv split: if_split_asm option.split_asm)
  with ok1 route_discovery_ok [OF ok1] show ?thesis by blast
qed

lemma route_destination_ok:
  assumes ok: "mesh_ok g" and run: "route_destination cbs i h fc dst g = Some (ret, a, st, g')"
  shows "mesh_ok g'"
proof (cases "zb_nwk_mesh_find_route dst g")
  case None
  with run ok wait_for_route_ok [OF ok] show ?thesis
    by (auto simp: route_destination_def bind_eq_Some_conv split: if_split_asm)
next
  case (Some r)
  note f = rt.find_used [OF Some [unfolded zb_nwk_mesh_find_route_def]] and D = mesh_okD [OF ok]
  have "mesh_ok (g\<lparr>routing_table := (routing_table g)[r := (routing_table g ! r)\<lparr>rt_status := x\<rparr>]\<rparr>)" for x
    using ok f D by (simp add: mesh_ok_def table_ok_update keyed_update)
  with run Some f ok wait_for_route_ok [OF ok] show ?thesis
    by (auto simp: route_destination_def bind_eq_Some_conv Let_def split: if_split_asm option.split_asm)
qed

lemma calc_destination_ok:
  assumes ok: "mesh_ok g" and run: "nwk_calc_destination cbs i h g = Some (ret, a, ind, st, g')"
  shows "mesh_ok g'"
proof -
  obtain b fc nh where b: "arr_get (pool (bpool g)) i = Some b" "buf_read (data_buf b) (ZB_BUF_BEGIN b) 2 = Some fc"
      "nwk_hdr_at (data_buf b) (ZB_BUF_BEGIN b) = Some nh"
    using run by (auto simp: nwk_calc_destination_def Let_def bind_eq_Some_conv)
  note run = run [unfolded nwk_calc_destination_def Let_def b Option.bind.bind_lunit]
  show ?thesis
  proof (cases "mesh_device_type g = ZB_NWK_DEVICE_TYPE_ED \<or> ZB_NWK_IS_ADDRESS_BROADCAST (nh_dst_addr nh)")
    case True
    with run ok show ?thesis by (auto simp: bind_eq_Some_conv split: if_split_asm)
  next
    case False
    with run obtain n g1 where n: "dest_neighbor (data_buf b) (ZB_BUF_BEGIN b) fc (nh_dst_addr nh) g = Some (n, g1)"
      by (auto simp: bind_eq_Some_conv)
    have ok1: "mesh_ok g1" using ok dest_neighbor_tables [OF n] by (rule mesh_ok_frame)
    show ?thesis
    proof (cases n)
      case None
      with run n False show ?thesis by (auto simp: bind_eq_Some_conv dest: route_destination_ok [OF ok1])
    next
      case (Some k)
      with run n False ok1 show ?thesis by (auto simp: bind_eq_Some_conv)
    qed
  qed
qed

section \<open>Reachable states\<close>

text \<open>
  A step is a run of one of the functions of mesh routing, the warm reset, which clears the routes and the
  discoveries, or anything else in the stack, which leaves the three tables alone. The tables start cleared.
\<close>

inductive mesh_step :: "'cb mesh_cbs \<Rightarrow> ('cb, 'w) mesh_g_scheme \<Rightarrow> ('cb, 'w) mesh_g_scheme \<Rightarrow> bool" for cbs where
  rreq: "zb_nwk_mesh_rreq_handler cbs i h cmd g = Some g' \<Longrightarrow> mesh_step cbs g g'"
| rrep: "zb_nwk_mesh_rrep_handler cbs i h rep g = Some g' \<Longrightarrow> mesh_step cbs g g'"
| discovery: "zb_nwk_mesh_route_discovery cbs cbuf dest radius g = Some g' \<Longrightarrow> mesh_step cbs g g'"
| initiate: "zb_nwk_mesh_initiate_route_discovery cbs i g = Some g' \<Longrightarrow> mesh_step cbs g g'"
| request: "zb_nlme_route_discovery_request cbs i g = Some g' \<Longrightarrow> mesh_step cbs g g'"
| calc: "nwk_calc_destination cbs i n g = Some (ret, a, ind, st, g') \<Longrightarrow> mesh_step cbs g g'"
| expiry_disc: "zb_nwk_mesh_expiry_route_disc cbs g = Some g' \<Longrightarrow> mesh_step cbs g g'"
| expiry_pend: "zb_nwk_mesh_expiry_pending cbs g = Some g' \<Longrightarrow> mesh_step cbs g g'"
| disc_failed: "nwk_route_disc_failed cbs i g = Some g' \<Longrightarrow> mesh_step cbs g g'"
| init: "zb_nwk_mesh_routing_init traced cbs g = Some g' \<Longrightarrow> mesh_step cbs g g'"
| deinit: "zb_nwk_mesh_routing_deinit cbs g = Some g' \<Longrightarrow> mesh_step cbs g g'"
| warm_reset: "tables g' = tables (clear_routes g) \<Longrightarrow> mesh_step cbs g g'"
| other: "tables g' = tables g \<Longrightarrow> mesh_step cbs g g'"

definition mesh_cleared :: "('cb, 'w) mesh_g_scheme \<Rightarrow> bool" where
  "mesh_cleared g \<longleftrightarrow> length (routing_table g) = ZB_NWK_ROUTING_TABLE_SIZE
     \<and> length (route_disc_table g) = ZB_NWK_ROUTE_DISCOVERY_TABLE_SIZE \<and> length (pending_table g) = ZB_NWK_PENDING_TABLE_SIZE
     \<and> (\<forall>e \<in> set (routing_table g). \<not> rt_used e) \<and> (\<forall>e \<in> set (route_disc_table g). \<not> rd_used e)
     \<and> (\<forall>e \<in> set (pending_table g). \<not> pd_used e)
     \<and> routing_table_cnt g = 0 \<and> route_disc_table_cnt g = 0 \<and> pending_table_cnt g = 0"

inductive mesh_reach :: "'cb mesh_cbs \<Rightarrow> ('cb, 'w) mesh_g_scheme \<Rightarrow> bool" for cbs where
  cleared: "mesh_cleared g \<Longrightarrow> mesh_reach cbs g"
| step: "mesh_reach cbs g \<Longrightarrow> mesh_step cbs g g' \<Longrightarrow> mesh_reach cbs g'"

lemma mesh_cleared_ok: "mesh_cleared g \<Longrightarrow> mesh_ok g"
  by (simp add: mesh_cleared_def mesh_ok_def table_ok_def keyed_def zb_config filter_empty_conv)

lemma clear_routes_ok:
  assumes "mesh_ok g"
  shows "mesh_ok (clear_routes g)"
  using assms rt.cleared [of "routing_table g"] rd.cleared [of "route_disc_table g"]
  by (auto simp: mesh_ok_def clear_routes_def NWK_ARRAY_CLEAR_def table_ok_def keyed_def set_rt_used_def set_rd_used_def)

lemma mesh_step_ok:
  assumes ok: "mesh_ok g" and step: "mesh_step cbs g g'"
  shows "mesh_ok g'"
  using step
proof cases
  case disc_failed
  from mesh_ok_frame [OF ok disc_failed_tables [OF this]] show ?thesis .
next
  case init
  from mesh_ok_frame [OF ok init_tables [OF this]] show ?thesis .
next
  case deinit
  from mesh_ok_frame [OF ok deinit_tables [OF this]] show ?thesis .
next
  case warm_reset
  from mesh_ok_frame [OF clear_routes_ok [OF ok] this] show ?thesis .
next
  case other
  from mesh_ok_frame [OF ok this] show ?thesis .
qed (fact rreq_handler_ok [OF ok] rrep_handler_ok [OF ok] route_discovery_ok [OF ok] initiate_ok [OF ok]
    route_request_ok [OF ok] calc_destination_ok [OF ok] expiry_route_disc_ok [OF ok] expiry_pending_ok [OF ok])+

lemma mesh_reach_ok: "mesh_reach cbs g \<Longrightarrow> mesh_ok g"
  by (induction rule: mesh_reach.induct) (blast intro: mesh_cleared_ok mesh_step_ok)+

text \<open>A coordinator with cleared tables that holds one input buffer.\<close>

definition mesh_example :: "nat mesh_g" where
  "mesh_example = \<lparr>sched = sched (zb_sched_init sched_cleared), time = time sched_cleared,
     bpool = bpool (snd (the (zb_get_buf 1 bufs_init))), rx_need_buf = 0, snwk = nwk_default,
     secur_material_set = [], active_secur_material_i = 0, active_key_seq_number = 0, outgoing_frame_counter = 0,
     prev_outgoing_frame_counter = 0, is_tc = True, authenticated = True, mac_extended_address = [8, 7, 6, 5, 4, 3, 2, 1],
     nib_sequence_number = 0, mesh_device_type = ZB_NWK_DEVICE_TYPE_COORDINATOR,
     routing_table = replicate 5 \<lparr>rt_used = False, rt_status = 0, rt_no_route_cache = False, rt_many_to_one = False,
       rt_route_record_required = False, rt_group_id_flag = False, rt_dest_addr = 0, rt_next_hop_addr = 0\<rparr>,
     routing_table_cnt = 0,
     route_disc_table = replicate 5 \<lparr>rd_used = False, rd_request_id = 0, rd_source_addr = 0, rd_sender_addr = 0,
       rd_dest_addr = 0, rd_forward_cost = 0, rd_residual_cost = 0, rd_expiration_time = 0\<rparr>,
     route_disc_table_cnt = 0, nib_rreq_id = 0,
     pending_table = replicate 5 \<lparr>pd_used = False, pd_buf = None, pd_handle = 0, pd_dest_addr = 0, pd_expiry = 0,
       pd_waiting_buf = False\<rparr>,
     pending_table_cnt = 0, aps_rreq_addr = - 1, use_tree_routing = True, secure_all_frames = True,
     nwk_report_constant_cost = True, status_ind_addr = 0, nlme_state = ZB_NLME_STATE_IDLE\<rparr>"

definition mesh_example_cbs :: "nat mesh_cbs" where
  "mesh_example_cbs = \<lparr>cb_nwk_forward = 1, cb_route_discovery_confirm = 2, cb_status_indication = 3,
     cb_initiate_route_discovery = 4, cb_route_disc_failed = 5, cb_expiry_route_disc = 6, cb_expiry_pending = 7\<rparr>"

lemma mesh_example_cleared: "mesh_cleared mesh_example"
  by (simp add: mesh_cleared_def mesh_example_def zb_config)

end
