(* ===== verification/Nwk_Mesh_Props.thy ===== *)
theory Nwk_Mesh_Props
  imports Nwk_Mesh_Inv
begin

text \<open>
  What requests, replies and expiry do to the routing tables, over the abstraction of the discovery
  table to the cheapest path recorded for each request.
\<close>

section \<open>A table as a map\<close>

text \<open>Where no two used entries have the same key, a table is a map from keys to entries.\<close>

definition table_map :: "('e \<Rightarrow> bool) \<Rightarrow> ('e \<Rightarrow> 'k) \<Rightarrow> 'e list \<Rightarrow> 'k \<Rightarrow> 'e option" where
  "table_map used key a q = map_option (\<lambda>i. a ! i) (NWK_ARRAY_FIND_ENT used a (\<lambda>e. key e = q))"

lemma option_ext: "(\<And>v. x = Some v \<longleftrightarrow> y = Some v) \<Longrightarrow> x = y"
  by (cases x; cases y) auto

context used_table
begin

lemma find_iff:
  assumes "keyed used key a"
  shows "NWK_ARRAY_FIND_ENT used a (\<lambda>e. key e = q) = Some k \<longleftrightarrow> k < length a \<and> used (a ! k) \<and> key (a ! k) = q"
  using find_used [of a "\<lambda>e. key e = q" k] find_key [OF assms, of k] by blast

lemma map_iff:
  assumes "keyed used key a"
  shows "table_map used key a q = Some e \<longleftrightarrow> (\<exists>k < length a. used (a ! k) \<and> key (a ! k) = q \<and> a ! k = e)"
  using find_iff [OF assms, of q] by (auto simp: table_map_def)

lemma map_None: "table_map used key a q = None \<longleftrightarrow> (\<forall>k < length a. used (a ! k) \<longrightarrow> key (a ! k) \<noteq> q)"
  by (simp add: table_map_def find_none)

lemma map_write:
  assumes a: "keyed used key a" and b: "keyed used key (a[k := e])" and k: "k < length a" and e: "used e"
    and old: "used (a ! k) \<Longrightarrow> key (a ! k) = key e"
  shows "table_map used key (a[k := e]) = (table_map used key a)(key e \<mapsto> e)"
proof (intro ext option_ext)
  fix q v
  show "table_map used key (a[k := e]) q = Some v \<longleftrightarrow> ((table_map used key a)(key e \<mapsto> e)) q = Some v"
  proof (cases "q = key e")
    case True
    have "table_map used key (a[k := e]) q = Some e" using k e True by (auto simp: map_iff [OF b] intro!: exI [of _ k])
    with True show ?thesis by auto
  next
    case False
    have "(j < length (a[k := e]) \<and> used (a[k := e] ! j) \<and> key (a[k := e] ! j) = q \<and> a[k := e] ! j = v)
        \<longleftrightarrow> (j < length a \<and> used (a ! j) \<and> key (a ! j) = q \<and> a ! j = v)" for j
      using False k old by (cases "j = k") auto
    with False show ?thesis by (simp add: map_iff [OF a] map_iff [OF b])
  qed
qed

lemma map_drop:
  assumes a: "keyed used key a" and k: "k < length a" "used (a ! k)"
  shows "table_map used key (a[k := set_used False (a ! k)]) = (table_map used key a)(key (a ! k) := None)"
proof (intro ext option_ext)
  fix q v
  let ?a = "a[k := set_used False (a ! k)]"
  have b: "keyed used key ?a" by (rule keyed_drop [OF a]) (simp add: used_set)
  have j: "(j < length ?a \<and> used (?a ! j) \<and> key (?a ! j) = q \<and> ?a ! j = v)
      \<longleftrightarrow> (q \<noteq> key (a ! k) \<and> j < length a \<and> used (a ! j) \<and> key (a ! j) = q \<and> a ! j = v)" for j
    using k keyedD [OF a, of j k] by (cases "j = k") (auto simp: used_set)
  show "table_map used key ?a q = Some v \<longleftrightarrow> ((table_map used key a)(key (a ! k) := None)) q = Some v"
    unfolding map_iff [OF b] j by (simp add: map_iff [OF a])
qed

lemma map_count:
  assumes "table_ok used cap a n"
  shows "unat n \<le> cap"
  using assms length_filter_le [of used a] by (simp add: table_ok_def)

end

text \<open>The routes by destination, and the recorded requests by number and originator.\<close>

definition routes :: "('cb, 'w) mesh_g_scheme \<Rightarrow> u16 \<Rightarrow> zb_nwk_routing option" where
  "routes g = table_map rt_used rt_dest_addr (routing_table g)"

definition requests :: "('cb, 'w) mesh_g_scheme \<Rightarrow> u8 \<times> u16 \<Rightarrow> zb_nwk_route_discovery option" where
  "requests g = table_map rd_used rd_key (route_disc_table g)"

lemma find_route_routes: "zb_nwk_mesh_find_route dest g = None \<longleftrightarrow> routes g dest = None"
  by (simp add: zb_nwk_mesh_find_route_def routes_def table_map_def)

lemma disc_key_rd_key: "disc_key rid src = (\<lambda>e. rd_key e = (rid, src))"
  by (simp add: disc_key_def rd_key_def fun_eq_iff)

lemma maps_frame: "tables g' = tables g \<Longrightarrow> routes g' = routes g \<and> requests g' = requests g"
  by (simp add: tables_def routes_def requests_def)

section \<open>The cheapest path of a request\<close>

definition disc_costs :: "('cb, 'w) mesh_g_scheme \<Rightarrow> u8 \<times> u16 \<Rightarrow> u8 option" where
  "disc_costs g q = map_option rd_forward_cost (requests g q)"

definition cheaper :: "u8 \<Rightarrow> u8 option \<Rightarrow> u8" where
  "cheaper c m = (case m of None \<Rightarrow> c | Some m \<Rightarrow> min m c)"

lemma rreq_disc_costs:
  assumes ok: "mesh_ok g" and run: "rreq_disc i src cmd c g = Some (res, g')"
  shows "disc_costs g' =
     (if disc_costs g (rreq_id cmd, src) \<noteq> None \<or> unat (route_disc_table_cnt g) < 5
      then (disc_costs g)((rreq_id cmd, src) \<mapsto> cheaper c (disc_costs g (rreq_id cmd, src))) else disc_costs g)
    \<and> (res = Disc_no_room \<longleftrightarrow> disc_costs g (rreq_id cmd, src) = None \<and> unat (route_disc_table_cnt g) = 5)"
proof -
  note D = mesh_okD [OF ok] and key = disc_key_rd_key [of "rreq_id cmd" src]
  let ?q = "(rreq_id cmd, src)"
  have upd: "disc_costs h = (disc_costs g)(?q \<mapsto> rd_forward_cost e)"
    if "requests h = (requests g)(?q \<mapsto> e)" for h :: "('a, 'w) mesh_g_scheme" and e
    using that by (auto simp: disc_costs_def [abs_def])
  show ?thesis
  proof (cases "NWK_ARRAY_FIND_ENT rd_used (route_disc_table g) (disc_key (rreq_id cmd) src)")
    case (Some k)
    let ?d = "route_disc_table g ! k"
    have f: "k < length (route_disc_table g)" "rd_used ?d" "rd_key ?d = ?q"
      using rd.find_used [OF Some] by (simp_all add: key)
    have m: "disc_costs g ?q = Some (rd_forward_cost ?d)"
      using Some by (simp add: disc_costs_def requests_def table_map_def key)
    show ?thesis
    proof (cases "c < rd_forward_cost ?d")
      case True
      then obtain s where r: "res = Disc_updated"
          "g' = g\<lparr>route_disc_table := (route_disc_table g)[k := ?d\<lparr>rd_sender_addr := s, rd_forward_cost := c\<rparr>]\<rparr>"
        using run Some f by (auto simp: rreq_disc_def bind_eq_Some_conv)
      define e where "e = ?d\<lparr>rd_sender_addr := s, rd_forward_cost := c\<rparr>"
      have e: "rd_used e" "rd_key e = ?q" "rd_forward_cost e = c"
        using f by (simp_all add: e_def rd_key_def)
      have "keyed rd_used rd_key ((route_disc_table g)[k := e])" using D(5) f e by (intro keyed_update) simp_all
      from rd.map_write [OF D(5) this f(1) e(1)] e f have "requests g' = (requests g)(?q \<mapsto> e)"
        by (simp add: requests_def r(2) [folded e_def])
      from upd [OF this] m e r True show ?thesis by (simp add: cheaper_def min_absorb2)
    next
      case False
      with run Some f have r: "g' = g" "res = Disc_better_known" by (simp_all add: rreq_disc_def)
      have "(disc_costs g)(?q \<mapsto> rd_forward_cost ?d) = disc_costs g" using m by (rule fun_upd_idem)
      with m False r show ?thesis by (simp add: cheaper_def min_absorb1)
    qed
  next
    case None
    have m: "disc_costs g ?q = None" using None by (simp add: disc_costs_def requests_def table_map_def key)
    obtain j a n where get: "NWK_ARRAY_GET_ENT rd_used set_rd_used (route_disc_table g, route_disc_table_cnt g) = (j, a, n)"
      by (rule prod_cases3)
    have full: "j = None \<longleftrightarrow> unat (route_disc_table_cnt g) = 5" using rd.get_full [OF D(2)] get by simp
    note le = rd.map_count [OF D(2)]
    show ?thesis
    proof (cases j)
      case None2: None
      with run None get full m show ?thesis by (auto simp: rreq_disc_def)
    next
      case (Some k)
      note t = rd.get_taken [OF D(2) get [unfolded Some]]
      obtain s where r: "res = Disc_updated" "g' = g\<lparr>route_disc_table := a[k := (a ! k)\<lparr>rd_request_id := rreq_id cmd, rd_source_addr := src,
          rd_sender_addr := s, rd_dest_addr := rreq_dest_addr cmd, rd_forward_cost := c,
          rd_residual_cost := 0xff, rd_expiration_time := ZB_NWK_ROUTE_DISCOVERY_EXPIRY\<rparr>], route_disc_table_cnt := n\<rparr>"
        using run None get Some t by (auto simp: rreq_disc_def bind_eq_Some_conv)
      define e where "e = (a ! k)\<lparr>rd_request_id := rreq_id cmd, rd_source_addr := src,
          rd_sender_addr := s, rd_dest_addr := rreq_dest_addr cmd, rd_forward_cost := c,
          rd_residual_cost := 0xff, rd_expiration_time := ZB_NWK_ROUTE_DISCOVERY_EXPIRY\<rparr>"
      have e: "rd_used e" "rd_key e = ?q" "rd_forward_cost e = c"
        using t by (simp_all add: e_def set_rd_used_def rd_key_def)
      have ky: "keyed rd_used rd_key ((route_disc_table g)[k := e])"
        using D(5) None e by (intro keyed_insert) (simp_all add: rd.find_none key)
      have u: "k < length (route_disc_table g)" "\<not> rd_used (route_disc_table g ! k)" "a[k := e] = (route_disc_table g)[k := e]"
        using t by simp_all
      from rd.map_write [OF D(5) ky u(1) e(1)] u e have "requests g' = (requests g)(?q \<mapsto> e)"
        by (simp add: requests_def r(2) [folded e_def])
      from upd [OF this] m e r(1) Some full le show ?thesis by (auto simp: cheaper_def)
    qed
  qed
qed

section \<open>Room for a route\<close>

lemma rreq_route_room:
  assumes ok: "mesh_ok g" and run: "rreq_route dest g = Some (r, g')"
  shows "r = None \<longleftrightarrow> routes g dest = None \<and> unat (routing_table_cnt g) = 5"
    and "d \<noteq> dest \<Longrightarrow> routes g' d = routes g d"
    and "requests g' = requests g" and "route_disc_table_cnt g' = route_disc_table_cnt g"
proof -
  note D = mesh_okD [OF ok]
  have "(r = None \<longleftrightarrow> routes g dest = None \<and> unat (routing_table_cnt g) = 5) \<and> (d \<noteq> dest \<longrightarrow> routes g' d = routes g d)
    \<and> requests g' = requests g \<and> route_disc_table_cnt g' = route_disc_table_cnt g"
  proof (cases "NWK_ARRAY_FIND_ENT rt_used (routing_table g) (\<lambda>e. rt_dest_addr e = dest)")
    case (Some k)
    let ?e = "routing_table g ! k"
    note f = rt.find_used [OF Some]
    define e where "e = (if rt_status ?e \<noteq> ZB_NWK_ROUTE_STATE_ACTIVE \<and> rt_status ?e \<noteq> ZB_NWK_ROUTE_STATE_VALIDATION_UNDERWAY
      then ?e\<lparr>rt_status := ZB_NWK_ROUTE_STATE_DISCOVERY_UNDERWAY\<rparr> else ?e)"
    have r: "r = Some k" "g' = g\<lparr>routing_table := (routing_table g)[k := e]\<rparr>"
      using run Some f by (simp_all add: rreq_route_def e_def)
    have e: "rt_used e" "rt_dest_addr e = dest" using f by (simp_all add: e_def)
    have ky: "keyed rt_used rt_dest_addr ((routing_table g)[k := e])" using D(4) f e by (intro keyed_update) simp_all
    have "routes g' = (routes g)(dest \<mapsto> e)"
      using rt.map_write [OF D(4) ky _ e(1)] f e by (simp add: routes_def r)
    moreover have "routes g dest \<noteq> None" using Some by (simp add: routes_def table_map_def)
    ultimately show ?thesis using r by (simp add: requests_def)
  next
    case None
    obtain j a n where get: "NWK_ARRAY_GET_ENT rt_used set_rt_used (routing_table g, routing_table_cnt g) = (j, a, n)"
      by (rule prod_cases3)
    have full: "j = None \<longleftrightarrow> unat (routing_table_cnt g) = 5" using rt.get_full [OF D(1)] get by simp
    have none: "routes g dest = None" using None by (simp add: routes_def table_map_def)
    show ?thesis
    proof (cases j)
      case None2: None
      with run None get full none show ?thesis by (auto simp: rreq_route_def)
    next
      case (Some k)
      note t = rt.get_taken [OF D(1) get [unfolded Some]]
      define e where "e = (a ! k)\<lparr>rt_dest_addr := dest, rt_status := ZB_NWK_ROUTE_STATE_DISCOVERY_UNDERWAY\<rparr>"
      have r: "r = Some k" "g' = g\<lparr>routing_table := a[k := e], routing_table_cnt := n\<rparr>"
        using run None get Some t by (simp_all add: rreq_route_def e_def)
      have e: "rt_used e" "rt_dest_addr e = dest" using t by (simp_all add: e_def set_rt_used_def)
      have ky: "keyed rt_used rt_dest_addr ((routing_table g)[k := e])"
        using D(4) None e by (intro keyed_insert) (simp_all add: rt.find_none)
      have u: "k < length (routing_table g)" "\<not> rt_used (routing_table g ! k)" "a[k := e] = (routing_table g)[k := e]"
        using t by simp_all
      have "routes g' = (routes g)(dest \<mapsto> e)"
        using rt.map_write [OF D(4) ky u(1) e(1)] u e by (simp add: routes_def r)
      with r full Some none show ?thesis by (simp add: requests_def)
    qed
  qed
  then show "r = None \<longleftrightarrow> routes g dest = None \<and> unat (routing_table_cnt g) = 5"
    "d \<noteq> dest \<Longrightarrow> routes g' d = routes g d" "requests g' = requests g" "route_disc_table_cnt g' = route_disc_table_cnt g"
    by blast+
qed

lemma rreq_failed_run:
  assumes ok: "mesh_ok g" and r: "\<And>k. r = Some k \<Longrightarrow> k < 5 \<and> rt_used (routing_table g ! k)"
    and run: "rreq_failed cbs i dest r g = Some g'"
  shows "requests g' = requests g
    \<and> routes g' = (case r of None \<Rightarrow> routes g | Some k \<Rightarrow> (routes g)(rt_dest_addr (routing_table g ! k) := None))"
proof -
  obtain g1 where g1: "put_routing r g = Some g1" using run by (auto simp: rreq_failed_def bind_eq_Some_conv)
  have t: "tables g' = tables g1"
    using run g1 by (auto simp: rreq_failed_def dest: confirm_tables free_buf_tables split: if_split_asm)
  show ?thesis
  proof (cases r)
    case None
    with g1 maps_frame [OF t] show ?thesis by simp
  next
    case (Some k)
    note D = mesh_okD [OF ok] and k = r [OF Some]
    have e: "g1 = g\<lparr>routing_table := (routing_table g)[k := set_rt_used False (routing_table g ! k)],
        routing_table_cnt := routing_table_cnt g - 1\<rparr>"
      using put_routing_ok(1) [OF ok, of k] k g1 Some by simp
    have "routes g1 = (routes g)(rt_dest_addr (routing_table g ! k) := None)"
      using rt.map_drop [OF D(4), of k] k D(6) by (simp add: routes_def e)
    with maps_frame [OF t] Some show ?thesis by (simp add: requests_def e)
  qed
qed

section \<open>A request as a whole\<close>

lemma rreq_handler_maps:
  assumes ok: "mesh_ok g" and run: "zb_nwk_mesh_rreq_handler cbs i h cmd g = Some g'"
  shows "(\<exists>c g1. NWK_CALC_PATH_COST (nh_src_addr h) g = Some (c, g1)
      \<and> disc_costs g' =
          (if (routes g (rreq_dest_addr cmd) \<noteq> None \<or> unat (routing_table_cnt g) < 5)
              \<and> (disc_costs g (rreq_id cmd, nh_src_addr h) \<noteq> None \<or> unat (route_disc_table_cnt g) < 5)
           then (disc_costs g)((rreq_id cmd, nh_src_addr h) \<mapsto>
                  cheaper (c + rreq_path_cost cmd) (disc_costs g (rreq_id cmd, nh_src_addr h)))
           else disc_costs g))
    \<and> (\<forall>d. d \<noteq> rreq_dest_addr cmd \<longrightarrow> routes g' d = routes g d)
    \<and> (disc_costs g (rreq_id cmd, nh_src_addr h) = None \<and> unat (route_disc_table_cnt g) = 5
        \<longrightarrow> routes g' (rreq_dest_addr cmd) = None)"
  using run
proof (cases rule: rreq_handler_run)
  case (full c g1 g2)
  note t = path_cost_tables [OF full(1)]
  have ok1: "mesh_ok g1" using ok t by (rule mesh_ok_frame)
  have s: "routes g1 = routes g" "requests g1 = requests g" "routing_table_cnt g1 = routing_table_cnt g"
    using maps_frame [OF t] t by (simp_all add: tables_def)
  note R = rreq_route_ok [OF ok1 full(2)] and M = rreq_route_room [OF ok1 full(2)]
  have F: "requests g' = requests g2 \<and> routes g' = routes g2"
    using rreq_failed_run [OF conjunct1 [OF R] _ full(3)] by simp
  have e: "g2 = g1" using R by simp
  from M(1) s have n: "routes g (rreq_dest_addr cmd) = None" "unat (routing_table_cnt g) = 5" by simp_all
  have "disc_costs g' = disc_costs g" using F e s by (simp add: disc_costs_def [abs_def])
  with full(1) F e s n show ?thesis by auto
next
  case (room c g1 k g2 res g3)
  note t = path_cost_tables [OF room(1)]
  have ok1: "mesh_ok g1" using ok t by (rule mesh_ok_frame)
  have s: "routes g1 = routes g" "requests g1 = requests g" "routing_table_cnt g1 = routing_table_cnt g"
      "route_disc_table_cnt g1 = route_disc_table_cnt g"
    using maps_frame [OF t] t by (simp_all add: tables_def)
  note R = rreq_route_ok [OF ok1 room(2)] and M = rreq_route_room [OF ok1 room(2)]
  have ok2: "mesh_ok g2" using R by blast
  note D = rreq_disc_ok [OF ok2 room(3)] and C = rreq_disc_costs [OF ok2 room(3)]
  have dc: "disc_costs g2 = disc_costs g" using M(3) s by (simp add: disc_costs_def [abs_def])
  have avail: "routes g (rreq_dest_addr cmd) \<noteq> None \<or> unat (routing_table_cnt g) < 5"
    using M(1) s rt.map_count [OF mesh_okD(1) [OF ok]] by auto
  have rt3: "routes g3 = routes g2" using D by (simp add: routes_def)
  have k: "k < 5" "rt_used (routing_table g3 ! k)" "rt_dest_addr (routing_table g3 ! k) = rreq_dest_addr cmd"
    using R D by simp_all
  have out: "requests g' = requests g3
    \<and> routes g' = (if res = Disc_no_room then (routes g3)(rreq_dest_addr cmd := None) else routes g3)"
  proof (cases res)
    case Disc_updated
    with room(4) have "tables g' = tables g3" by (auto dest: rreq_answer_tables)
    from maps_frame [OF this] Disc_updated show ?thesis by simp
  next
    case Disc_better_known
    with room(4) have "tables g' = tables g3" by (auto dest: free_buf_tables)
    from maps_frame [OF this] Disc_better_known show ?thesis by simp
  next
    case Disc_no_room
    with room(4) have "rreq_failed cbs i (rreq_dest_addr cmd) (Some k) g3 = Some g'" by simp
    from rreq_failed_run [OF conjunct1 [OF D] _ this] k Disc_no_room show ?thesis by simp
  qed
  have "disc_costs g' = disc_costs g3" using out by (simp add: disc_costs_def [abs_def])
  then have 1: "disc_costs g' =
          (if disc_costs g (rreq_id cmd, nh_src_addr h) \<noteq> None \<or> unat (route_disc_table_cnt g) < 5
           then (disc_costs g)((rreq_id cmd, nh_src_addr h) \<mapsto>
                  cheaper (c + rreq_path_cost cmd) (disc_costs g (rreq_id cmd, nh_src_addr h)))
           else disc_costs g)"
    using C dc M(4) s by simp
  have 2: "d \<noteq> rreq_dest_addr cmd \<Longrightarrow> routes g' d = routes g d" for d
    using out rt3 M(2) s by simp
  have 3: "routes g' (rreq_dest_addr cmd) = None"
    if "disc_costs g (rreq_id cmd, nh_src_addr h) = None \<and> unat (route_disc_table_cnt g) = 5"
    using that out C dc M(4) s by simp
  show ?thesis
    by (intro conjI exI [of _ c] exI [of _ g1] allI impI) (use room(1) 1 2 3 avail in simp_all)
qed

section \<open>A reply as a whole\<close>

lemma rrep_deliver_maps:
  assumes ok: "mesh_ok g" and run: "rrep_deliver cbs i cmd k r c g = Some g'"
  shows "routes g' = routes g \<and> requests g' = requests g"
proof -
  obtain e d where e: "arr_get (routing_table g) r = Some e" "arr_get (route_disc_table g) k = Some d"
    using run by (auto simp: rrep_deliver_def bind_eq_Some_conv)
  show ?thesis
  proof (cases "rrep_originator cmd = network_address g")
    case True
    with run e obtain g1 g2 where g1: "send_pending_loop cbs (rt_dest_addr e) [0..<ZB_NWK_PENDING_TABLE_SIZE] g = Some g1"
      and m: "(if aps_rreq_addr g1 = rt_dest_addr e then do {
                g \<leftarrow> NWK_ROUTE_DISCOVERY_CONFIRM cbs i ZB_NWK_STATUS_SUCCESS 0xff g1;
                Some (g\<lparr>aps_rreq_addr := - 1\<rparr>) } else Some g1) = Some g2"
      and f: "zb_free_buf i g2 = Some g'"
      by (auto simp: rrep_deliver_def bind_eq_Some_conv)
    have "set [0..<ZB_NWK_PENDING_TABLE_SIZE] \<subseteq> {..<5}" by (auto simp: zb_config)
    from send_pending_ok [OF ok this g1] have "routes g1 = routes g" "requests g1 = requests g"
      by (simp_all add: routes_def requests_def)
    moreover have "tables g2 = tables g1"
      using m by (auto simp: bind_eq_Some_conv dest: confirm_tables split: if_split_asm)
    ultimately show ?thesis using maps_frame free_buf_tables [OF f] by metis
  next
    case False
    with run e have "tables g' = tables g"
      by (auto simp: rrep_deliver_def dest: send_rrep_tables)
    then show ?thesis by (rule maps_frame)
  qed
qed

text \<open>The entries after a reply of cost \<open>c\<close> that came from the device \<open>s\<close> was accepted.\<close>

definition rrep_disc_ent :: "u8 \<Rightarrow> zb_nwk_route_discovery \<Rightarrow> zb_nwk_route_discovery" where
  "rrep_disc_ent c d = d\<lparr>rd_residual_cost := c, rd_expiration_time := ZB_NWK_ROUTE_DISCOVERY_EXPIRY\<rparr>"

definition rrep_route_ent :: "u16 \<Rightarrow> zb_nwk_routing \<Rightarrow> zb_nwk_routing" where
  "rrep_route_ent s e = e\<lparr>rt_next_hop_addr := s,
     rt_status := (if rt_status e = ZB_NWK_ROUTE_STATE_DISCOVERY_UNDERWAY then ZB_NWK_ROUTE_STATE_VALIDATION_UNDERWAY
                   else rt_status e)\<rparr>"

lemma rrep_update_maps:
  assumes ok: "mesh_ok g" and k: "k < 5" "rd_used (route_disc_table g ! k)" and r: "r < 5" "rt_used (routing_table g ! r)"
    and run: "rrep_update k r c s g = Some g'"
  shows "requests g' = (requests g)(rd_key (route_disc_table g ! k) \<mapsto> rrep_disc_ent c (route_disc_table g ! k))"
    and "routes g' = (routes g)(rt_dest_addr (routing_table g ! r) \<mapsto> rrep_route_ent s (routing_table g ! r))"
proof -
  note D = mesh_okD [OF ok]
  have g': "g' = g\<lparr>route_disc_table := (route_disc_table g)[k := rrep_disc_ent c (route_disc_table g ! k)],
      routing_table := (routing_table g)[r := rrep_route_ent s (routing_table g ! r)]\<rparr>"
    using run k r D(6,7) by (simp add: rrep_update_def rrep_disc_ent_def rrep_route_ent_def)
  have d: "rd_used (rrep_disc_ent c d) = rd_used d" "rd_key (rrep_disc_ent c d) = rd_key d" for d
    by (simp_all add: rrep_disc_ent_def rd_key_def)
  have e: "rt_used (rrep_route_ent s e) = rt_used e" "rt_dest_addr (rrep_route_ent s e) = rt_dest_addr e" for e
    by (simp_all add: rrep_route_ent_def)
  have "keyed rd_used rd_key ((route_disc_table g)[k := rrep_disc_ent c (route_disc_table g ! k)])"
    by (rule keyed_update [OF D(5) k(2) d(2)])
  from rd.map_write [OF D(5) this] k D(7) d
  show "requests g' = (requests g)(rd_key (route_disc_table g ! k) \<mapsto> rrep_disc_ent c (route_disc_table g ! k))"
    by (simp add: requests_def g')
  have "keyed rt_used rt_dest_addr ((routing_table g)[r := rrep_route_ent s (routing_table g ! r)])"
    by (rule keyed_update [OF D(4) r(2) e(2)])
  from rt.map_write [OF D(4) this] r D(6) e
  show "routes g' = (routes g)(rt_dest_addr (routing_table g ! r) \<mapsto> rrep_route_ent s (routing_table g ! r))"
    by (simp add: routes_def g')
qed

lemma rrep_disc_map: "rrep_disc cmd g = Some k \<Longrightarrow> requests g (rrep_rreq_id cmd, rrep_originator cmd) = Some (route_disc_table g ! k)
    \<and> rd_key (route_disc_table g ! k) = (rrep_rreq_id cmd, rrep_originator cmd)"
  using rd.find_used [of "route_disc_table g" "disc_key (rrep_rreq_id cmd) (rrep_originator cmd)" k]
  by (simp add: rrep_disc_def requests_def table_map_def disc_key_rd_key)

lemma rrep_route_map: "rrep_route cmd g = Some r \<Longrightarrow> routes g (rrep_responder cmd) = Some (routing_table g ! r)
    \<and> rt_dest_addr (routing_table g ! r) = rrep_responder cmd"
  using rt.find_used [of "routing_table g" "\<lambda>e. rt_dest_addr e = rrep_responder cmd" r]
  by (simp add: rrep_route_def routes_def table_map_def)

lemma rrep_absent_map: "rrep_disc cmd g = None \<longleftrightarrow> requests g (rrep_rreq_id cmd, rrep_originator cmd) = None"
    "rrep_route cmd g = None \<longleftrightarrow> routes g (rrep_responder cmd) = None"
  by (simp_all add: rrep_route_def routes_def rrep_disc_def requests_def table_map_def disc_key_rd_key)

lemma rrep_absent_drops:
  assumes ok: "mesh_ok g" and a: "rrep_disc cmd g = None \<or> rrep_route cmd g = None"
    and p: "put_route_disc (rrep_disc cmd g) g = Some g1" "put_routing (rrep_route cmd g) g1 = Some g2"
  shows "requests g2 = (requests g)((rrep_rreq_id cmd, rrep_originator cmd) := None)
    \<and> routes g2 = (routes g)(rrep_responder cmd := None)"
proof (cases "rrep_disc cmd g")
  case None
  then have q: "(requests g)((rrep_rreq_id cmd, rrep_originator cmd) := None) = requests g" "g1 = g"
    using rrep_absent_map(1) [of cmd g] p(1) by (simp_all add: fun_upd_idem)
  show ?thesis
  proof (cases "rrep_route cmd g")
    case None
    then have "(routes g)(rrep_responder cmd := None) = routes g" "g2 = g1"
      using rrep_absent_map(2) [of cmd g] p(2) by (simp_all add: fun_upd_idem)
    with q show ?thesis by simp
  next
    case (Some r)
    note u = rrep_route_used [OF ok Some]
    have g2: "g2 = g\<lparr>routing_table := (routing_table g)[r := set_rt_used False (routing_table g ! r)],
        routing_table_cnt := routing_table_cnt g - 1\<rparr>"
      using put_routing_ok(1) [OF ok, of r] u p(2) Some q by simp
    have "routes g2 = (routes g)(rt_dest_addr (routing_table g ! r) := None)"
      using rt.map_drop [OF mesh_okD(4) [OF ok], of r] u mesh_okD(6) [OF ok] by (simp add: routes_def g2)
    with q rrep_route_map [OF Some] show ?thesis by (simp add: requests_def g2)
  qed
next
  case (Some k)
  with a have r: "rrep_route cmd g = None" by simp
  note u = rrep_disc_used [OF ok Some]
  have g2: "g2 = g\<lparr>route_disc_table := (route_disc_table g)[k := set_rd_used False (route_disc_table g ! k)],
      route_disc_table_cnt := route_disc_table_cnt g - 1\<rparr>"
    using put_route_disc_ok(1) [OF ok, of k] u p Some r by simp
  have "requests g2 = (requests g)(rd_key (route_disc_table g ! k) := None)"
    using rd.map_drop [OF mesh_okD(5) [OF ok], of k] u mesh_okD(7) [OF ok] by (simp add: requests_def g2)
  moreover have "(routes g)(rrep_responder cmd := None) = routes g"
    using rrep_absent_map(2) [of cmd g] r by (simp add: fun_upd_idem)
  ultimately show ?thesis using rrep_disc_map [OF Some] by (simp add: routes_def g2)
qed

lemma rrep_handler_maps:
  assumes ok: "mesh_ok g" and run: "zb_nwk_mesh_rrep_handler cbs i h cmd g = Some g'"
  shows "\<exists>c g1. NWK_CALC_PATH_COST (nh_src_addr h) g = Some (c, g1) \<and>
    (case (requests g (rrep_rreq_id cmd, rrep_originator cmd), routes g (rrep_responder cmd)) of
       (Some d, Some e) \<Rightarrow>
         if c + rrep_path_cost cmd \<le> rd_residual_cost d
         then (\<exists>b s. arr_get (pool (bpool g)) i = Some b \<and> nwk_get_mac_source_addr b g = Some s
           \<and> requests g' = (requests g)((rrep_rreq_id cmd, rrep_originator cmd) \<mapsto> rrep_disc_ent (c + rrep_path_cost cmd) d)
           \<and> routes g' = (routes g)(rrep_responder cmd \<mapsto> rrep_route_ent s e))
         else requests g' = requests g \<and> routes g' = routes g
     | _ \<Rightarrow> requests g' = (requests g)((rrep_rreq_id cmd, rrep_originator cmd) := None)
           \<and> routes g' = (routes g)(rrep_responder cmd := None))"
  using run
proof (cases rule: rrep_handler_run)
  case (absent c g1 g2 g3)
  note t = path_cost_tables [OF absent(1)] and f = maps_frame [OF free_buf_tables [OF absent(5)]]
  have ok1: "mesh_ok g1" using ok t by (rule mesh_ok_frame)
  note d = rrep_absent_drops [OF ok1 absent(2-4)]
  have "requests g (rrep_rreq_id cmd, rrep_originator cmd) = None \<or> routes g (rrep_responder cmd) = None"
    using absent(2) rrep_absent_map [of cmd g1] maps_frame [OF t] by simp
  with absent(1) d f maps_frame [OF t] show ?thesis
    by (intro exI [of _ c] exI [of _ g1]) (auto split: option.split)
next
  case (longer c g1 k r d)
  note t = path_cost_tables [OF longer(1)] and f = maps_frame [OF free_buf_tables [OF longer(6)]]
  have "requests g (rrep_rreq_id cmd, rrep_originator cmd) = Some d" "routes g (rrep_responder cmd) = Some (routing_table g1 ! r)"
    using rrep_disc_map [OF longer(2)] rrep_route_map [OF longer(3)] longer(4) maps_frame [OF t]
    by (simp_all add: arr_get_Some)
  moreover have "\<not> c + rrep_path_cost cmd \<le> rd_residual_cost d" using longer(5) by simp
  ultimately show ?thesis
    using longer(1) f maps_frame [OF t] by (intro exI [of _ c] exI [of _ g1]) simp
next
  case (accepted b s c g1 k r d g2)
  note t = path_cost_tables [OF accepted(3)]
  have ok1: "mesh_ok g1" using ok t by (rule mesh_ok_frame)
  note u = rrep_disc_used [OF ok1 accepted(4)] rrep_route_used [OF ok1 accepted(5)]
  have ok2: "mesh_ok g2" using rrep_update_ok [OF ok1 _ _ _ _ accepted(8)] u by simp
  note m = rrep_update_maps [OF ok1 conjunct1 [OF u(1)] conjunct2 [OF u(1)] conjunct1 [OF u(2)] conjunct2 [OF u(2)] accepted(8)]
  note f = rrep_deliver_maps [OF ok2 accepted(9)]
  have e: "requests g (rrep_rreq_id cmd, rrep_originator cmd) = Some d" "routes g (rrep_responder cmd) = Some (routing_table g1 ! r)"
      "d = route_disc_table g1 ! k"
    using rrep_disc_map [OF accepted(4)] rrep_route_map [OF accepted(5)] accepted(6) maps_frame [OF t]
    by (simp_all add: arr_get_Some)
  show ?thesis
    using accepted(1,2,3,7) e f m maps_frame [OF t] rrep_disc_map [OF accepted(4)] rrep_route_map [OF accepted(5)]
    by (intro exI [of _ c] exI [of _ g1]) simp
qed

section \<open>The cost of a link\<close>

lemma quality_div:
  fixes x q :: int
  shows "32 * (x + 1) < q \<Longrightarrow> x + 1 \<le> (q - 1) div 32" and "\<not> 32 * (x + 1) < q \<Longrightarrow> (q - 1) div 32 \<le> x"
    and "q < 256 \<Longrightarrow> (q - 1) div 32 \<le> 7"
proof -
  show "x + 1 \<le> (q - 1) div 32" if "32 * (x + 1) < q"
    using zdiv_mono1 [of "(x + 1) * 32" "q - 1" 32] that by simp
  show "(q - 1) div 32 \<le> x" if "\<not> 32 * (x + 1) < q"
    using zdiv_mono1 [of "q - 1" "31 + x * 32" 32] that by simp
  show "(q - 1) div 32 \<le> 7" if "q < 256"
    using zdiv_mono1 [of "q - 1" 255 32] that by simp
qed

lemma lqi_loop_closed: "uint (lqi_loop i q) = max (uint i) ((uint q - 1) div 32)"
proof (induction i q rule: lqi_loop.induct)
  case (1 i q)
  show ?case
  proof (cases "32 * (uint i + 1) < uint q")
    case True
    then have "lqi_loop i q = lqi_loop (i + 1) q" by (subst lqi_loop.simps) simp
    moreover have "uint i + 1 \<le> (uint q - 1) div 32" by (rule quality_div(1) [OF True])
    ultimately show ?thesis using 1 [OF True] lqi_loop_step [OF True] by simp
  next
    case False
    then have "lqi_loop i q = i" by (subst lqi_loop.simps) simp
    moreover have "(uint q - 1) div 32 \<le> uint i" by (rule quality_div(2) [OF False])
    ultimately show ?thesis by simp
  qed
qed

text \<open>
  The cost the loop of \<^verbatim>\<open>NWK_CALC_PATH_COST\<close> finds for a link quality is the eighth of the range
  the quality lies in, counted from the best and kept between 1 and 7: 7 up to a quality of 32, one
  less for each 32 more, and 1 both from 193 and from 225 on.
\<close>

theorem link_cost_closed: "uint (link_cost q) = min 7 (max 1 (7 - (uint q - 1) div 32))"
proof -
  let ?i = "lqi_loop 0 q"
  have i: "uint ?i = max 0 ((uint q - 1) div 32)" using lqi_loop_closed [of 0 q] by simp
  have "uint q < 256" using unsigned_less [of q] by simp
  then have le: "uint ?i \<le> 7" using i quality_div(3) [of "uint q"] by simp
  have "uint (link_cost q) = max 1 (7 - uint ?i)"
  proof (cases "uint ?i = 7")
    case True
    then show ?thesis by (simp add: link_cost_def Let_def)
  next
    case False
    have "0 \<le> uint ?i" by simp
    then have "(7 - uint ?i) mod 256 = 7 - uint ?i" using le \<open>0 \<le> uint ?i\<close> by (intro mod_pos_pos_trivial) linarith+
    then have "uint (word_of_int (7 - uint ?i) :: u8) = 7 - uint ?i" by (subst uint_word_of_int) simp
    then have "uint (of_int (7 - uint ?i) :: u8) = 7 - uint ?i" by simp
    with False le show ?thesis by (simp add: link_cost_def Let_def)
  qed
  with i show ?thesis by (simp add: max_def min_def)
qed

section \<open>The properties of the tables\<close>

lemma disc_key_find:
  assumes "mesh_ok g" and "k < 5" and "rd_used (route_disc_table g ! k)"
  shows "NWK_ARRAY_FIND_ENT rd_used (route_disc_table g)
      (disc_key (rd_request_id (route_disc_table g ! k)) (rd_source_addr (route_disc_table g ! k))) = Some k"
  using rd.find_key [OF mesh_okD(5) [OF assms(1)], of k] mesh_okD(7) [OF assms(1)] assms(2,3)
  by (simp add: disc_key_rd_key rd_key_def)

lemma mesh_ok_tables:
  assumes ok: "mesh_ok g"
  shows "unat (routing_table_cnt g) = length (filter rt_used (routing_table g))"
    and "unat (route_disc_table_cnt g) = length (filter rd_used (route_disc_table g))"
    and "unat (pending_table_cnt g) = length (filter pd_used (pending_table g))"
    and "k < 5 \<Longrightarrow> rt_used (routing_table g ! k) \<Longrightarrow> zb_nwk_mesh_find_route (rt_dest_addr (routing_table g ! k)) g = Some k"
    and "k < 5 \<Longrightarrow> pd_used (pending_table g ! k) \<Longrightarrow> pd_buf (pending_table g ! k) \<noteq> None"
  using mesh_okD [OF ok] rt.find_key [OF mesh_okD(4) [OF ok], of k]
  by (simp_all add: table_ok_def zb_nwk_mesh_find_route_def)

text \<open>
  C11. In every state reached from cleared tables by the functions of mesh routing and warm resets, in any order and
  with anything else of the stack between them, the three counters are the numbers of used entries,
  every used route is the one found for its destination, every used discovery entry is the one found
  for its request, and every packet that waits for a route has its buffer.
\<close>

theorem mesh_tables_invariant:
  assumes "mesh_reach cbs g"
  shows "unat (routing_table_cnt g) = length (filter rt_used (routing_table g))
    \<and> unat (route_disc_table_cnt g) = length (filter rd_used (route_disc_table g))
    \<and> unat (pending_table_cnt g) = length (filter pd_used (pending_table g))
    \<and> (\<forall>k < 5. rt_used (routing_table g ! k) \<longrightarrow> zb_nwk_mesh_find_route (rt_dest_addr (routing_table g ! k)) g = Some k)
    \<and> (\<forall>k < 5. rd_used (route_disc_table g ! k) \<longrightarrow> NWK_ARRAY_FIND_ENT rd_used (route_disc_table g)
          (disc_key (rd_request_id (route_disc_table g ! k)) (rd_source_addr (route_disc_table g ! k))) = Some k)
    \<and> (\<forall>k < 5. pd_used (pending_table g ! k) \<longrightarrow> pd_buf (pending_table g ! k) \<noteq> None)"
proof -
  note ok = mesh_reach_ok [OF assms]
  show ?thesis by (intro conjI allI impI disc_key_find [OF ok] mesh_ok_tables [OF ok])
qed

text \<open>
  C8. A route request refines the step of a cheapest-path computation: abstracting the discovery table
  to the cheapest cost known for each request, the handler replaces the cost of the request by the
  minimum of itself and of the cost of the path the request has come over, a request seen for the first
  time counting as unbounded. The table is left as it is only when a route or a discovery entry is
  needed and its table is full. Routes to other destinations stay.
\<close>

theorem rreq_refines_cheapest:
  assumes "mesh_ok g" and "zb_nwk_mesh_rreq_handler cbs i h cmd g = Some g'"
  shows "\<exists>c g1. NWK_CALC_PATH_COST (nh_src_addr h) g = Some (c, g1)
      \<and> disc_costs g' =
          (if (routes g (rreq_dest_addr cmd) \<noteq> None \<or> unat (routing_table_cnt g) < 5)
              \<and> (disc_costs g (rreq_id cmd, nh_src_addr h) \<noteq> None \<or> unat (route_disc_table_cnt g) < 5)
           then (disc_costs g)((rreq_id cmd, nh_src_addr h) \<mapsto>
                  cheaper (c + rreq_path_cost cmd) (disc_costs g (rreq_id cmd, nh_src_addr h)))
           else disc_costs g)
      \<and> (\<forall>d. d \<noteq> rreq_dest_addr cmd \<longrightarrow> routes g' d = routes g d)"
  using rreq_handler_maps [OF assms] by blast

text \<open>
  A full discovery table costs the device a route it has: a request that is not recorded, arriving
  when all five discovery entries are used, removes the route to its destination, whatever the state of
  that route, and records nothing. A neighbor that asks for a new discovery so takes an active route away.
\<close>

theorem full_discovery_drops_route:
  assumes "mesh_ok g" and "zb_nwk_mesh_rreq_handler cbs i h cmd g = Some g'"
    and "requests g (rreq_id cmd, nh_src_addr h) = None" and "route_disc_table_cnt g = 5"
  shows "routes g' (rreq_dest_addr cmd) = None \<and> disc_costs g' = disc_costs g
    \<and> (\<forall>d. d \<noteq> rreq_dest_addr cmd \<longrightarrow> routes g' d = routes g d)"
proof -
  have "disc_costs g (rreq_id cmd, nh_src_addr h) = None" using assms(3) by (simp add: disc_costs_def)
  moreover have "unat (route_disc_table_cnt g) = 5" using assms(4) by simp
  ultimately show ?thesis using rreq_handler_maps [OF assms(1,2)] by auto
qed

text \<open>
  C9. What a route reply does to the tables. When its request or the route to its responder is unknown,
  the one that is known is given up. When both are known the reply is accepted iff the path it has come
  over is at most as long as the best one recorded: then the cost and a new life are recorded for the
  request, the route goes through the device the frame has come from, and a route whose discovery was
  under way now waits for validation. A longer path changes nothing.
\<close>

theorem rrep_handler_decides:
  assumes "mesh_ok g" and "zb_nwk_mesh_rrep_handler cbs i h cmd g = Some g'"
  shows "\<exists>c g1. NWK_CALC_PATH_COST (nh_src_addr h) g = Some (c, g1) \<and>
    (case (requests g (rrep_rreq_id cmd, rrep_originator cmd), routes g (rrep_responder cmd)) of
       (Some d, Some e) \<Rightarrow>
         if c + rrep_path_cost cmd \<le> rd_residual_cost d
         then (\<exists>b s. arr_get (pool (bpool g)) i = Some b \<and> nwk_get_mac_source_addr b g = Some s
           \<and> requests g' = (requests g)((rrep_rreq_id cmd, rrep_originator cmd) \<mapsto> rrep_disc_ent (c + rrep_path_cost cmd) d)
           \<and> routes g' = (routes g)(rrep_responder cmd \<mapsto> rrep_route_ent s e))
         else requests g' = requests g \<and> routes g' = routes g
     | _ \<Rightarrow> requests g' = (requests g)((rrep_rreq_id cmd, rrep_originator cmd) := None)
           \<and> routes g' = (routes g)(rrep_responder cmd := None))"
  using assms by (rule rrep_handler_maps)

section \<open>The properties on concrete states\<close>

lemma keyed_distinct: "distinct (map key (filter used a)) \<Longrightarrow> keyed used key a"
proof (induction a)
  case (Cons x a)
  then have k: "keyed used key a" and d: "used x \<Longrightarrow> j < length a \<Longrightarrow> used (a ! j) \<Longrightarrow> key x \<noteq> key (a ! j)" for j
    by (auto split: if_split_asm)
  show ?case unfolding keyed_def
  proof (intro allI impI)
    fix i j
    assume a: "i < length (x # a)" "used ((x # a) ! i)" "j < length (x # a)" "used ((x # a) ! j)" "key ((x # a) ! i) = key ((x # a) ! j)"
    show "i = j"
      using a d keyedD [OF k] by (cases i; cases j) fastforce+
  qed
qed (simp add: keyed_def)

lemma replicate_5: "replicate 5 x = [x, x, x, x, x]"
  by (simp add: numeral_eq_Suc)

definition example_disc :: "u8 \<Rightarrow> u16 \<Rightarrow> zb_nwk_route_discovery" where
  "example_disc i s = \<lparr>rd_used = True, rd_request_id = i, rd_source_addr = s, rd_sender_addr = 0, rd_dest_addr = 0x20,
     rd_forward_cost = 9, rd_residual_cost = 0xff, rd_expiration_time = 10\<rparr>"

definition example_route :: zb_nwk_routing where
  "example_route = \<lparr>rt_used = True, rt_status = ZB_NWK_ROUTE_STATE_ACTIVE, rt_no_route_cache = False, rt_many_to_one = False,
     rt_route_record_required = False, rt_group_id_flag = False, rt_dest_addr = 0x20, rt_next_hop_addr = 0x21\<rparr>"

text \<open>An active route to \<open>0x20\<close> and five recorded requests for it.\<close>

definition mesh_example_full :: "nat mesh_g" where
  "mesh_example_full = mesh_example\<lparr>routing_table := (routing_table mesh_example)[0 := example_route], routing_table_cnt := 1,
     route_disc_table := map (\<lambda>k. example_disc k 0x77) [1, 2, 3, 4, 5], route_disc_table_cnt := 5\<rparr>"

lemma mesh_example_full_ok: "mesh_ok mesh_example_full"
proof -
  let ?g = mesh_example_full
  have "keyed rt_used rt_dest_addr (routing_table ?g)" "keyed rd_used rd_key (route_disc_table ?g)"
    by (intro keyed_distinct; simp add: mesh_example_full_def mesh_example_def replicate_5 example_disc_def example_route_def rd_key_def)+
  moreover have "table_ok rt_used 5 (routing_table ?g) (routing_table_cnt ?g)" "table_ok rd_used 5 (route_disc_table ?g) (route_disc_table_cnt ?g)"
    "table_ok pd_used 5 (pending_table ?g) (pending_table_cnt ?g)"
    by (simp_all add: mesh_example_full_def mesh_example_def replicate_5 table_ok_def example_disc_def example_route_def)
  moreover have "pending_table ?g = pending_table mesh_example" by (simp add: mesh_example_full_def)
  ultimately show ?thesis by (simp add: mesh_ok_def zb_config mesh_example_def)
qed

definition example_hdr :: zb_nwk_hdr where
  "example_hdr = \<lparr>nh_dst_addr = 0xfffc, nh_src_addr = 0x77, nh_radius = 5, nh_seq_num = 9\<rparr>"

definition example_rreq :: "u8 \<Rightarrow> zb_nwk_cmd_rreq" where
  "example_rreq i = \<lparr>rreq_id = i, rreq_dest_addr = 0x20, rreq_path_cost = 1\<rparr>"

definition example_rrep :: zb_nwk_cmd_rrep where
  "example_rrep = \<lparr>rrep_rreq_id = 2, rrep_originator = 0x77, rrep_responder = 0x20, rrep_path_cost = 1\<rparr>"

lemma example_run:
  "zb_nwk_mesh_rreq_handler mesh_example_cbs 0 example_hdr (example_rreq 7) mesh_example \<noteq> None"
  "zb_nwk_mesh_rreq_handler mesh_example_cbs 0 example_hdr (example_rreq 2) mesh_example_full \<noteq> None"
  "zb_nwk_mesh_rreq_handler mesh_example_cbs 0 example_hdr (example_rreq 7) mesh_example_full \<noteq> None"
  "zb_nwk_mesh_rrep_handler mesh_example_cbs 0 example_hdr example_rrep mesh_example_full \<noteq> None"
proof -
  have r: "(case x of None \<Rightarrow> False | Some _ \<Rightarrow> True) \<Longrightarrow> x \<noteq> None" for x :: "nat mesh_g option" by (cases x) simp_all
  show "zb_nwk_mesh_rreq_handler mesh_example_cbs 0 example_hdr (example_rreq 7) mesh_example \<noteq> None"
    by (rule r) code_simp
  show "zb_nwk_mesh_rreq_handler mesh_example_cbs 0 example_hdr (example_rreq 2) mesh_example_full \<noteq> None"
    by (rule r) code_simp
  show "zb_nwk_mesh_rreq_handler mesh_example_cbs 0 example_hdr (example_rreq 7) mesh_example_full \<noteq> None"
    by (rule r) code_simp
  show "zb_nwk_mesh_rrep_handler mesh_example_cbs 0 example_hdr example_rrep mesh_example_full \<noteq> None"
    by (rule r) code_simp
qed

lemma example_cost: "\<exists>g1. NWK_CALC_PATH_COST (nh_src_addr example_hdr) mesh_example_full = Some (7, g1)"
  "NWK_CALC_PATH_COST a mesh_example_full = Some (c, g1) \<Longrightarrow> c = 7"
  by (simp_all add: NWK_CALC_PATH_COST_def mesh_example_full_def mesh_example_def zb_config)

lemma example_full_maps:
  "requests mesh_example_full (2, 0x77) = Some (example_disc 2 0x77)" "requests mesh_example_full (7, 0x77) = None"
  "routes mesh_example_full 0x20 = Some example_route" "unat (routing_table_cnt mesh_example_full) = 1"
  "route_disc_table_cnt mesh_example_full = 5"
  by (simp_all add: requests_def routes_def table_map_def NWK_ARRAY_FIND_ENT_def mesh_example_full_def mesh_example_def
      replicate_5 example_disc_def example_route_def rd_key_def)

theorem mesh_tables_invariant_witness:
  "\<exists>g. zb_nwk_mesh_rreq_handler mesh_example_cbs 0 example_hdr (example_rreq 7) mesh_example = Some g
    \<and> unat (route_disc_table_cnt g) = length (filter rd_used (route_disc_table g))"
proof -
  obtain g where g: "zb_nwk_mesh_rreq_handler mesh_example_cbs 0 example_hdr (example_rreq 7) mesh_example = Some g"
    using example_run(1) by blast
  have "mesh_reach mesh_example_cbs g"
    using mesh_reach.step [OF mesh_reach.cleared [OF mesh_example_cleared] mesh_step.rreq [OF g]] .
  with g mesh_tables_invariant [of mesh_example_cbs g] show ?thesis by blast
qed

theorem rreq_refines_cheapest_witness:
  "\<exists>g'. zb_nwk_mesh_rreq_handler mesh_example_cbs 0 example_hdr (example_rreq 2) mesh_example_full = Some g'
    \<and> disc_costs mesh_example_full (2, 0x77) = Some 9 \<and> disc_costs g' (2, 0x77) = Some 8"
proof -
  obtain g' where g': "zb_nwk_mesh_rreq_handler mesh_example_cbs 0 example_hdr (example_rreq 2) mesh_example_full = Some g'"
    using example_run(2) by blast
  have "disc_costs mesh_example_full (2, 0x77) = Some 9"
    by (simp add: disc_costs_def example_full_maps) (simp add: example_disc_def)
  with rreq_refines_cheapest [OF mesh_example_full_ok g'] g' example_full_maps show ?thesis
    by (auto dest!: example_cost(2) simp: example_rreq_def example_hdr_def cheaper_def)
qed

theorem full_discovery_drops_route_witness:
  "\<exists>g'. zb_nwk_mesh_rreq_handler mesh_example_cbs 0 example_hdr (example_rreq 7) mesh_example_full = Some g'
    \<and> routes mesh_example_full 0x20 = Some example_route \<and> routes g' 0x20 = None"
proof -
  obtain g' where g': "zb_nwk_mesh_rreq_handler mesh_example_cbs 0 example_hdr (example_rreq 7) mesh_example_full = Some g'"
    using example_run(3) by blast
  have "routes g' 0x20 = None"
    using full_discovery_drops_route [OF mesh_example_full_ok g'] example_full_maps
    by (simp add: example_rreq_def example_hdr_def)
  with g' example_full_maps show ?thesis by blast
qed

theorem rrep_handler_decides_witness:
  "\<exists>g'. zb_nwk_mesh_rrep_handler mesh_example_cbs 0 example_hdr example_rrep mesh_example_full = Some g'
    \<and> requests g' (2, 0x77) = Some ((example_disc 2 0x77)\<lparr>rd_residual_cost := 8\<rparr>)"
proof -
  obtain g' where g': "zb_nwk_mesh_rrep_handler mesh_example_cbs 0 example_hdr example_rrep mesh_example_full = Some g'"
    using example_run(4) by blast
  have m: "requests mesh_example_full (rrep_rreq_id example_rrep, rrep_originator example_rrep) = Some (example_disc 2 0x77)"
    "routes mesh_example_full (rrep_responder example_rrep) = Some example_route" "rrep_path_cost example_rrep = 1"
    "(rrep_rreq_id example_rrep, rrep_originator example_rrep) = (2, 0x77)"
    using example_full_maps by (simp_all add: example_rrep_def)
  from rrep_handler_decides [OF mesh_example_full_ok g'] obtain c g1 where
    c: "NWK_CALC_PATH_COST (nh_src_addr example_hdr) mesh_example_full = Some (c, g1)"
    and d: "c + rrep_path_cost example_rrep \<le> rd_residual_cost (example_disc 2 0x77) \<Longrightarrow>
      requests g' = (requests mesh_example_full)((2, 0x77) \<mapsto> rrep_disc_ent (c + rrep_path_cost example_rrep) (example_disc 2 0x77))"
    unfolding m(2,4) example_full_maps(1) by (auto split: if_split_asm)
  show ?thesis
    using d g' example_cost(2) [OF c] m(3) by (simp add: rrep_disc_ent_def example_disc_def zb_config)
qed

end
