(* ===== verification/Nwk_Mesh_Expiry.thy ===== *)
theory Nwk_Mesh_Expiry
  imports Nwk_Mesh_Props Aps_Dups
begin

text \<open>
  The periodic run over the discovery table: it always returns, every run brings the table nearer to
  being empty, and the route it gives up need not be the one whose discovery has expired.
\<close>

section \<open>The environment of a run\<close>

text \<open>The scheduler, the callbacks that wait for a buffer and the buffers are well formed.\<close>

definition sys_ok :: "('cb, 'w) bp_g_scheme \<Rightarrow> bool" where
  "sys_ok g \<longleftrightarrow> (\<exists>F xs ys. tm_rep (sched g) F xs ys) \<and> (\<exists>fs. bp_inv (bpool g) fs)
     \<and> (\<exists>ws vs fr. dq_rep (sched g) ws vs fr) \<and> rb_inv (cb_q (sched g))"

lemma sys_okI:
  "tm_rep (sched g) F xs ys \<Longrightarrow> bp_inv (bpool g) fs \<Longrightarrow> dq_rep (sched g) ws vs fr \<Longrightarrow> rb_inv (cb_q (sched g)) \<Longrightarrow> sys_ok g"
  by (auto simp: sys_ok_def)

lemma sys_ok_frame: "sys_ok g \<Longrightarrow> sched g' = sched g \<Longrightarrow> bpool g' = bpool g \<Longrightarrow> sys_ok g'"
  by (simp add: sys_ok_def)

lemma dq_rep_cong:
  "dq_rep s ws vs fr \<Longrightarrow> buf_next s' = buf_next s \<Longrightarrow> inbuf_head s' = inbuf_head s \<Longrightarrow> inbuf_tail s' = inbuf_tail s \<Longrightarrow>
   outbuf_head s' = outbuf_head s \<Longrightarrow> outbuf_tail s' = outbuf_tail s \<Longrightarrow> buf_freelist s' = buf_freelist s \<Longrightarrow>
   delayed_buf s' = delayed_buf s \<Longrightarrow> dq_rep s' ws vs fr"
  by (simp add: dq_rep_def)

lemma tm_rep_cong:
  "tm_rep s F xs ys \<Longrightarrow> tm_buffer s' = tm_buffer s \<Longrightarrow> tm_links s' = tm_links s \<Longrightarrow> tm_queue s' = tm_queue s \<Longrightarrow>
   tm_freelist s' = tm_freelist s \<Longrightarrow> tm_rep s' F xs ys"
  by (simp add: tm_rep_def)

definition bufs_eq :: "'cb zb_sched \<Rightarrow> 'cb zb_sched \<Rightarrow> bool" where
  "bufs_eq s s' \<longleftrightarrow> buf_next s' = buf_next s \<and> inbuf_head s' = inbuf_head s \<and> inbuf_tail s' = inbuf_tail s
     \<and> outbuf_head s' = outbuf_head s \<and> outbuf_tail s' = outbuf_tail s \<and> buf_freelist s' = buf_freelist s
     \<and> delayed_buf s' = delayed_buf s \<and> cb_q s' = cb_q s"

lemma insert_head_bufs: "insert_tmq_head n s = Some s' \<Longrightarrow> bufs_eq s s'"
  by (auto simp: insert_tmq_head_def bufs_eq_def bind_eq_Some_conv)

lemma tmq_insert_bufs:
  assumes "tmq_insert n rt s = Some s'"
  shows "bufs_eq s s'"
proof (cases "tm_queue s")
  case None
  with assms show ?thesis by (simp add: tmq_insert_def insert_head_bufs)
next
  case (Some e)
  with assms obtain th where th: "arr_get (tm_buffer s) e = Some th" by (auto simp: tmq_insert_def bind_eq_Some_conv)
  show ?thesis
  proof (cases "ZB_TIME_GE (run_time th) rt")
    case True
    with assms Some th show ?thesis by (simp add: tmq_insert_def insert_head_bufs)
  next
    case False
    with assms Some th obtain q where q: "tmq_find (tm_buffer s) (tm_links s) rt (Some e) = Some q"
      by (auto simp: tmq_insert_def bind_eq_Some_conv)
    show ?thesis
    proof (cases q)
      case None
      with assms Some th False q show ?thesis by (auto simp: tmq_insert_def bufs_eq_def bind_eq_Some_conv)
    next
      case Some2: (Some f)
      with assms Some th False q show ?thesis
        by (cases "lprev (tm_links s) f") (auto simp: tmq_insert_def bufs_eq_def bind_eq_Some_conv insert_head_bufs [unfolded bufs_eq_def])
    qed
  qed
qed

lemma schedule_alarm_bufs:
  assumes run: "zb_schedule_alarm f p d g = Some (ret, g')"
  shows "bufs_eq (sched g) (sched g')"
proof -
  obtain fl n where pop: "ZB_STK_POP (lnext (tm_links (sched g))) (tm_freelist (sched g)) = (fl, n)" by fastforce
  show ?thesis
  proof (cases n)
    case None
    with run pop show ?thesis by (auto simp: zb_schedule_alarm_def bufs_eq_def)
  next
    case (Some k)
    with run pop obtain rt buf s1 where
      i: "tmq_insert k rt ((sched g)\<lparr>tm_freelist := fl, tm_buffer := buf\<rparr>) = Some s1" and s: "sched g' = s1"
      by (auto simp: zb_schedule_alarm_def Let_def bind_eq_Some_conv)
    from tmq_insert_bufs [OF i] s show ?thesis by (simp add: bufs_eq_def)
  qed
qed

lemma schedule_alarm_sys:
  assumes "sys_ok g"
  shows "\<exists>r g'. zb_schedule_alarm f p d g = Some (r, g') \<and> sys_ok g'"
proof -
  from assms obtain F xs ys where "tm_rep (sched g) F xs ys" by (auto simp: sys_ok_def)
  from schedule_alarm_total [OF this, of f p d] obtain r g' xs' ys' s t where
    run: "zb_schedule_alarm f p d g = Some (r, g')" and tm: "tm_rep (sched g') F xs' ys'"
    and g': "g' = g\<lparr>sched := s, time := t\<rparr>" by blast
  note b = schedule_alarm_bufs [OF run, unfolded bufs_eq_def]
  from assms obtain ws vs fr where "dq_rep (sched g) ws vs fr" by (auto simp: sys_ok_def)
  then have "dq_rep (sched g') ws vs fr" by (rule dq_rep_cong) (use b in simp_all)
  moreover have "bpool g' = bpool g" by (simp add: g')
  ultimately have "sys_ok g'" using tm assms b unfolding sys_ok_def by metis
  with run show ?thesis by blast
qed

lemma schedule_callback_sys:
  assumes "sys_ok g" and "unat p \<le> ZB_IOBUF_POOL_SIZE"
  shows "\<exists>r g'. zb_schedule_callback f p g = Some (r, g') \<and> sys_ok g'"
proof (cases "ZB_RING_BUFFER_IS_FULL (cb_q (sched g))")
  case True
  with schedule_callback_full [OF True] assms(1) show ?thesis by blast
next
  case False
  from assms(1) have "rb_inv (cb_q (sched g))" by (simp add: sys_ok_def)
  from schedule_callback_ok [OF this False assms(2), of f] obtain q where
    q: "zb_schedule_callback f p g = Some (RET_OK, g\<lparr>sched := (sched g)\<lparr>cb_q := q\<rparr>\<rparr>)" "rb_inv q" by blast
  have "sys_ok (g\<lparr>sched := (sched g)\<lparr>cb_q := q\<rparr>\<rparr>)"
    using assms(1) q(2) by (simp add: sys_ok_def tm_rep_def dq_rep_def)
  with q(1) show ?thesis by blast
qed

text \<open>Asking for an output buffer returns in every such state.\<close>

lemma out_waits:
  assumes lim: "zb_get_buf 0 g = Some (None, g)" and dq: "dq_rep (sched g) ws vs fr" and ok: "sys_ok g"
  shows "\<exists>r g'. zb_get_out_buf_delayed cb g = Some (r, g') \<and> sys_ok g'"
proof -
  let ?s = "sched g"
  obtain fl p where pop: "ZB_STK_POP (buf_next ?s) (buf_freelist ?s) = (fl, p)" by fastforce
  show ?thesis
  proof (cases fr)
    case Nil
    with dq have "buf_freelist ?s = None" by (simp add: dq_rep_def stk_rep_def)
    then have p: "p = None" "fl = None" using pop by (simp_all add: ZB_STK_POP_def)
    have e: "?s\<lparr>buf_freelist := None\<rparr> = ?s" using \<open>buf_freelist ?s = None\<close> by (cases ?s) simp
    have "zb_get_out_buf_delayed cb g = Some (RET_ERROR, g)"
      using lim pop p e by (simp add: zb_get_out_buf_delayed_def zb_get_buf_delayed_def Let_def)
    with ok show ?thesis by blast
  next
    case (Cons e fr')
    have d: "e \<notin> set ws" "e \<notin> set vs" "e \<notin> set fr'" and l: "e < length (delayed_buf ?s)"
      using dq Cons by (auto simp: dq_rep_def stk_rep_def)
    have fl: "p = Some e" "stk_rep (buf_next ?s) fl fr'"
      using dq Cons stk.pop_rep [OF _ pop, of e fr'] by (auto simp: dq_rep_def)
    obtain nx h t where ins: "ZB_SL_LIST_INSERT_TAIL (buf_next ?s) (outbuf_head ?s) (outbuf_tail ?s) e = (nx, h, t)"
      by (metis prod_cases3)
    have w: "sl_rep nx h t (vs @ [e])" and fr: "\<forall>p. p \<noteq> e \<longrightarrow> p \<notin> set vs \<longrightarrow> nx p = buf_next ?s p"
      using sl_insert_tail [of "buf_next ?s" "outbuf_head ?s" "outbuf_tail ?s" vs e] dq d ins by (auto simp: dq_rep_def)
    let ?s' = "?s\<lparr>buf_freelist := fl, delayed_buf := (delayed_buf ?s)[e := cb], buf_next := nx,
        outbuf_head := h, outbuf_tail := t\<rparr>"
    have run: "zb_get_out_buf_delayed cb g = Some (RET_OK, g\<lparr>sched := ?s'\<rparr>)"
      using lim pop fl l ins by (simp add: zb_get_out_buf_delayed_def zb_get_buf_delayed_def Let_def)
    have "sl_rep nx (inbuf_head ?s) (inbuf_tail ?s) ws"
      by (rule sl_rep_cong [of "buf_next ?s"]) (use dq fr d in \<open>auto simp: dq_rep_def\<close>)
    moreover have "stk_rep nx fl fr'"
      by (rule stk_rep_cong [OF fl(2)]) (use dq fr d Cons in \<open>auto simp: dq_rep_def\<close>)
    ultimately have "dq_rep ?s' ws (vs @ [e]) fr'"
      using w dq d Cons by (auto simp: dq_rep_def)
    moreover have "tm_rep ?s F xs ys \<Longrightarrow> tm_rep ?s' F xs ys" for F xs ys by (simp add: tm_rep_def)
    moreover obtain F xs ys fs where "tm_rep ?s F xs ys" "bp_inv (bpool g) fs" "rb_inv (cb_q ?s)"
      using ok by (auto simp: sys_ok_def)
    ultimately have "sys_ok (g\<lparr>sched := ?s'\<rparr>)" by (intro sys_okI [of _ F xs ys fs]) simp_all
    with run show ?thesis by blast
  qed
qed

lemma get_out_delayed_sys:
  assumes ok: "sys_ok g"
  shows "\<exists>r g'. zb_get_out_buf_delayed cb g = Some (r, g') \<and> sys_ok g'"
proof -
  from ok obtain fs ws vs fr where inv: "bp_inv (bpool g) fs" and dq: "dq_rep (sched g) ws vs fr"
    by (auto simp: sys_ok_def)
  show ?thesis
  proof (cases "card (Bufpool.taken (bpool g) fs 0) < 8")
    case True
    then obtain b fs' where fs: "fs = b # fs'" using free_nonempty [OF inv, of 0] by (cases fs) auto
    obtain bp where g1: "zb_get_buf 0 g = Some (Some b, g\<lparr>bpool := bp\<rparr>)" "bp_inv bp fs'"
      using get_buf_ok [of g b fs' 0] inv True fs by auto
    have "b < 16" using bp_invD(4) [OF inv] fs by simp
    then have u: "unat (of_nat b :: u8) \<le> ZB_IOBUF_POOL_SIZE" by (simp add: ZB_IOBUF_POOL_SIZE_def)
    have "sys_ok (g\<lparr>bpool := bp\<rparr>)" using ok g1(2) by (auto simp: sys_ok_def)
    from schedule_callback_sys [OF this u, of cb] obtain r g' where
      "zb_schedule_callback cb (of_nat b) (g\<lparr>bpool := bp\<rparr>) = Some (r, g')" "sys_ok g'" by blast
    with g1(1) show ?thesis by (simp add: zb_get_out_buf_delayed_def zb_get_buf_delayed_def)
  next
    case False
    then have "card (Bufpool.taken (bpool g) fs 0) = 8" using bp_invD(7) [OF inv, of 0] by simp
    from out_waits [OF get_buf_limit [OF inv _ this] dq ok] show ?thesis by simp
  qed
qed

section \<open>Progress\<close>

definition disc_time :: "zb_nwk_route_discovery \<Rightarrow> nat" where
  "disc_time d = (if rd_used d then unat (rd_expiration_time d) + 1 else 0)"

definition table_time :: "('cb, 'w) mesh_g_scheme \<Rightarrow> nat" where
  "table_time g = sum_list (map disc_time (route_disc_table g))"

lemma table_time_update:
  assumes "k < length (route_disc_table g)" and "disc_time d < disc_time (route_disc_table g ! k)"
    and "route_disc_table g' = (route_disc_table g)[k := d]"
  shows "table_time g' < table_time g"
proof -
  have "map disc_time (route_disc_table g') = (map disc_time (route_disc_table g))[k := disc_time d]"
    by (simp add: assms(3) map_update)
  then have "table_time g' = table_time g + disc_time d - disc_time (route_disc_table g ! k)"
    using assms(1) by (simp add: table_time_def sum_list_update)
  moreover have "disc_time (route_disc_table g ! k) \<le> table_time g"
    using assms(1) elem_le_sum_list [of k "map disc_time (route_disc_table g)"] by (simp add: table_time_def)
  ultimately show ?thesis using assms(2) by linarith
qed

lemma table_time_frame: "tables g' = tables g \<Longrightarrow> table_time g' = table_time g"
  by (simp add: tables_def table_time_def)

lemma table_time_used: "k < length (route_disc_table g) \<Longrightarrow> rd_used (route_disc_table g ! k) \<Longrightarrow> 0 < table_time g"
  using elem_le_sum_list [of k "map disc_time (route_disc_table g)"]
  by (simp add: table_time_def disc_time_def del: sum_list_eq_0_iff)

lemma table_time_zero:
  assumes "mesh_ok g"
  shows "table_time g = 0 \<longleftrightarrow> route_disc_table_cnt g = 0"
    and "table_time g = 0 \<Longrightarrow> requests g = Map.empty"
proof -
  have u: "table_time g = 0 \<longleftrightarrow> (\<forall>e \<in> set (route_disc_table g). \<not> rd_used e)"
    by (auto simp: table_time_def disc_time_def)
  moreover have "unat (route_disc_table_cnt g) = length (filter rd_used (route_disc_table g))"
    using mesh_okD(2) [OF assms] by (simp add: table_ok_def)
  ultimately show "table_time g = 0 \<longleftrightarrow> route_disc_table_cnt g = 0"
    by (simp add: unat_eq_zero [symmetric] filter_empty_conv)
  show "requests g = Map.empty" if "table_time g = 0"
    using that u by (intro ext) (simp add: requests_def rd.map_None)
qed

text \<open>One pass over the entries returns, and brings the table nearer to being empty when it meets a used entry.\<close>

lemma expiry_loop_runs:
  "mesh_ok g \<Longrightarrow> sys_ok g \<Longrightarrow> set ks \<subseteq> {..<5} \<Longrightarrow>
   \<exists>st g'. expiry_route_disc_loop cbs ks g = Some (st, g') \<and> sys_ok g' \<and> table_time g' \<le> table_time g
     \<and> ((\<exists>k \<in> set ks. rd_used (route_disc_table g ! k)) \<longrightarrow> table_time g' < table_time g)"
proof (induction ks arbitrary: g)
  case (Cons k ks)
  note ok = Cons.prems(1) and sys = Cons.prems(2)
  let ?d = "route_disc_table g ! k"
  have k: "k < 5" "k < length (route_disc_table g)" and ks: "set ks \<subseteq> {..<5}" using Cons.prems(3) mesh_okD(7) [OF ok] by simp_all
  consider "\<not> rd_used ?d" | "rd_used ?d" "rd_expiration_time ?d \<noteq> 0" | "rd_used ?d" "rd_expiration_time ?d = 0"
    by blast
  then show ?case
  proof cases
    case 1
    with Cons.IH [OF ok sys ks] k show ?thesis by simp
  next
    case 2
    define d where "d = ?d\<lparr>rd_expiration_time := rd_expiration_time ?d - 1\<rparr>"
    define g1 where "g1 = g\<lparr>route_disc_table := (route_disc_table g)[k := d]\<rparr>"
    have "mesh_ok g1" using disc_update_ok [OF ok k(1) 2(1)] 2(1) by (simp add: g1_def d_def rd_key_def)
    moreover have "sys_ok g1" using sys by (simp add: g1_def sys_ok_def)
    ultimately obtain st g' where "expiry_route_disc_loop cbs ks g1 = Some (st, g')" "sys_ok g'" "table_time g' \<le> table_time g1"
      using Cons.IH ks by blast
    moreover have "unat (rd_expiration_time ?d - 1) < unat (rd_expiration_time ?d)"
      using 2(2) by (simp add: unat_minus_one unat_gt_0)
    then have "table_time g1 < table_time g"
      using 2 by (intro table_time_update [OF k(2), of d]) (simp_all add: g1_def d_def disc_time_def)
    ultimately show ?thesis using 2 k by (simp add: g1_def d_def)
  next
    case 3
    define g1 where "g1 = g\<lparr>route_disc_table := (route_disc_table g)[k := set_rd_used False ?d],
        route_disc_table_cnt := route_disc_table_cnt g - 1\<rparr>"
    have g1: "put_route_disc (Some k) g = Some g1" "mesh_ok g1" "routing_table g1 = routing_table g"
      using put_route_disc_ok [OF ok k(1) 3(1)] by (simp_all add: g1_def)
    have s1: "sys_ok g1" using sys by (simp add: g1_def sys_ok_def)
    have less: "table_time g1 < table_time g"
      using 3 by (intro table_time_update [OF k(2), of "set_rd_used False ?d"]) (simp_all add: g1_def set_rd_used_def disc_time_def)
    show ?thesis
    proof (cases "expired_route g")
      case None
      obtain st g' where "expiry_route_disc_loop cbs ks g1 = Some (st, g')" "sys_ok g'" "table_time g' \<le> table_time g1"
        using Cons.IH [OF g1(2) s1 ks] by blast
      with 3 k(2) g1(1) None less show ?thesis by simp
    next
      case (Some r)
      note u = expired_route_used [OF Some]
      define g2 where "g2 = g1\<lparr>status_ind_addr := rt_dest_addr (routing_table g ! r)\<rparr>"
      have "sys_ok g2" using s1 by (simp add: g2_def sys_ok_def)
      from get_out_delayed_sys [OF this] obtain q g3 where
        g3: "zb_get_out_buf_delayed (cb_route_disc_failed cbs) g2 = Some (q, g3)" "sys_ok g3" by blast
      have t: "tables g3 = tables g1" using get_delayed_tables [OF g3(1)] by (simp add: g2_def)
      have r: "r < 5" "rt_used (routing_table g3 ! r)"
        using u t g1(3) mesh_okD(6) [OF ok] by (simp_all add: tables_def)
      note p = put_routing_ok [OF mesh_ok_frame [OF g1(2) t] r]
      obtain g4 where g4: "put_routing (Some r) g3 = Some g4" "sched g4 = sched g3" "bpool g4 = bpool g3"
          "route_disc_table g4 = route_disc_table g3"
        using p by simp
      have "sys_ok g4" using g3(2) g4(2,3) by (rule sys_ok_frame)
      moreover have "table_time g4 = table_time g1" using g4(4) table_time_frame [OF t] by (simp add: table_time_def)
      moreover have "arr_get (routing_table g1) r = Some (routing_table g ! r)" using u g1(3) by simp
      ultimately show ?thesis
        using 3 k(2) g1(1,3) Some less g3(1) g4(1) u by (intro exI [of _ True] exI [of _ g4]) (simp add: g2_def)
    qed
  qed
qed (simp add: ex_bool_eq)

lemma expiry_run:
  assumes ok: "mesh_ok g" and sys: "sys_ok g"
  shows "\<exists>g'. zb_nwk_mesh_expiry_route_disc cbs g = Some g' \<and> mesh_ok g' \<and> sys_ok g' \<and> table_time g' \<le> table_time g - 1"
proof -
  have "\<exists>st g1. (if route_disc_table_cnt g \<noteq> 0 then expiry_route_disc_loop cbs [0..<ZB_NWK_ROUTE_DISCOVERY_TABLE_SIZE] g
      else Some (False, g)) = Some (st, g1) \<and> sys_ok g1 \<and> table_time g1 \<le> table_time g - 1"
  proof (cases "route_disc_table_cnt g = 0")
    case True
    with sys show ?thesis using table_time_zero(1) [OF ok] by (simp add: ex_bool_eq)
  next
    case False
    then have "\<not> (\<forall>e \<in> set (route_disc_table g). \<not> rd_used e)"
      using table_time_zero(1) [OF ok] by (auto simp: table_time_def disc_time_def)
    then obtain k where "k < length (route_disc_table g)" "rd_used (route_disc_table g ! k)" by (auto simp: in_set_conv_nth)
    then have "\<exists>k \<in> set [0..<ZB_NWK_ROUTE_DISCOVERY_TABLE_SIZE]. rd_used (route_disc_table g ! k)"
      using mesh_okD(7) [OF ok] by (auto simp: zb_config)
    moreover have "set [0..<ZB_NWK_ROUTE_DISCOVERY_TABLE_SIZE] \<subseteq> {..<5}" by (auto simp: zb_config)
    ultimately obtain st g1 where "expiry_route_disc_loop cbs [0..<ZB_NWK_ROUTE_DISCOVERY_TABLE_SIZE] g = Some (st, g1)"
        "sys_ok g1" "table_time g1 < table_time g"
      using expiry_loop_runs [OF ok sys] by blast
    with False show ?thesis by auto
  qed
  then obtain st g1 where g1: "(if route_disc_table_cnt g \<noteq> 0
      then expiry_route_disc_loop cbs [0..<ZB_NWK_ROUTE_DISCOVERY_TABLE_SIZE] g else Some (False, g)) = Some (st, g1)"
      "sys_ok g1" "table_time g1 \<le> table_time g - 1" by blast
  from schedule_alarm_sys [OF g1(2)] obtain q g2 where
    g2: "zb_schedule_alarm (cb_expiry_route_disc cbs) 0 ZB_NWK_EXPIRY_ROUTE_DISCOVERY g1 = Some (q, g2)" "sys_ok g2" by blast
  have run: "zb_nwk_mesh_expiry_route_disc cbs g = Some (if st then g1 else g2)"
    unfolding zb_nwk_mesh_expiry_route_disc_def g1(1) using g2(1) by simp
  have "table_time g2 = table_time g1" using schedule_alarm_tables [OF g2(1)] by (rule table_time_frame)
  with run g1 g2(2) expiry_route_disc_ok [OF ok run] show ?thesis by auto
qed

text \<open>The periodic function run \<open>n\<close> times, with nothing else of the stack between the runs.\<close>

fun expiry_runs :: "'cb mesh_cbs \<Rightarrow> nat \<Rightarrow> ('cb, 'w) mesh_g_scheme \<Rightarrow> ('cb, 'w) mesh_g_scheme option" where
  "expiry_runs cbs 0 g = Some g"
| "expiry_runs cbs (Suc n) g = Option.bind (zb_nwk_mesh_expiry_route_disc cbs g) (expiry_runs cbs n)"

lemma expiry_runs_empty:
  "mesh_ok g \<Longrightarrow> sys_ok g \<Longrightarrow> table_time g \<le> n \<Longrightarrow>
   \<exists>g'. expiry_runs cbs n g = Some g' \<and> route_disc_table_cnt g' = 0 \<and> requests g' = Map.empty"
proof (induction n arbitrary: g)
  case 0
  with table_time_zero [of g] show ?case by simp
next
  case (Suc n)
  from expiry_run [OF Suc.prems(1,2)] obtain g1 where
    "zb_nwk_mesh_expiry_route_disc cbs g = Some g1" "mesh_ok g1" "sys_ok g1" "table_time g1 \<le> n"
    using Suc.prems(3) by fastforce
  with Suc.IH [of g1] show ?case by simp
qed

text \<open>
  C10. Run over and over, \<^verbatim>\<open>zb_nwk_mesh_expiry_route_disc\<close> empties the route discovery table: after as many
  runs as the used entries have ticks left, each of them counted once more, every run has returned
  (asking for an output buffer and starting the alarm included) and no request is recorded any longer.
\<close>

theorem discovery_drains:
  assumes "mesh_ok g" and "sys_ok g" and "table_time g \<le> n"
  shows "\<exists>g'. expiry_runs cbs n g = Some g' \<and> route_disc_table_cnt g' = 0 \<and> requests g' = Map.empty"
  using assms by (rule expiry_runs_empty)

section \<open>Which route is given up\<close>

lemma expiry_skip:
  "\<forall>k \<in> set ks. k < length (route_disc_table g) \<and> \<not> rd_used (route_disc_table g ! k) \<Longrightarrow>
   expiry_route_disc_loop cbs (ks @ js) g = expiry_route_disc_loop cbs js g"
  by (induction ks) auto

lemma expiry_gives_up:
  assumes ok: "mesh_ok g" and sys: "sys_ok g"
    and k: "k < 5" "rd_used (route_disc_table g ! k)" "rd_expiration_time (route_disc_table g ! k) = 0"
    and first: "\<And>j. j < k \<Longrightarrow> \<not> rd_used (route_disc_table g ! j)"
    and r: "expired_route g = Some r"
  shows "\<exists>g'. zb_nwk_mesh_expiry_route_disc cbs g = Some g'
     \<and> requests g' = (requests g)(rd_key (route_disc_table g ! k) := None)
     \<and> routes g' = (routes g)(rt_dest_addr (routing_table g ! r) := None)"
proof -
  note D = mesh_okD [OF ok]
  let ?d = "route_disc_table g ! k"
  define g1 where "g1 = g\<lparr>route_disc_table := (route_disc_table g)[k := set_rd_used False ?d],
      route_disc_table_cnt := route_disc_table_cnt g - 1\<rparr>"
  have g1: "put_route_disc (Some k) g = Some g1" "mesh_ok g1" "routing_table g1 = routing_table g"
    using put_route_disc_ok [OF ok k(1,2)] by (simp_all add: g1_def)
  define g2 where "g2 = g1\<lparr>status_ind_addr := rt_dest_addr (routing_table g ! r)\<rparr>"
  have "sys_ok g2" using sys by (simp add: g2_def g1_def sys_ok_def)
  from get_out_delayed_sys [OF this] obtain q g3 where
    g3: "zb_get_out_buf_delayed (cb_route_disc_failed cbs) g2 = Some (q, g3)" "sys_ok g3" by blast
  have t: "tables g3 = tables g1" using get_delayed_tables [OF g3(1)] by (simp add: g2_def)
  have u: "r < 5" "rt_used (routing_table g ! r)" using expired_route_used [OF r] D(6) by simp_all
  have rt3: "routing_table g3 = routing_table g" using t g1(3) by (simp add: tables_def)
  define g4 where "g4 = g3\<lparr>routing_table := (routing_table g3)[r := set_rt_used False (routing_table g3 ! r)],
      routing_table_cnt := routing_table_cnt g3 - 1\<rparr>"
  have g4: "put_routing (Some r) g3 = Some g4"
    using put_routing_ok(1) [OF mesh_ok_frame [OF g1(2) t] u(1)] u(2) rt3 by (simp add: g4_def)
  have split: "[0..<ZB_NWK_ROUTE_DISCOVERY_TABLE_SIZE] = [0..<k] @ k # [Suc k..<5]"
    using k(1) upt_add_eq_append [of 0 k "5 - k"] upt_conv_Cons [of k 5] by (simp add: zb_config)
  have "expiry_route_disc_loop cbs ([0..<k] @ k # [Suc k..<5]) g = expiry_route_disc_loop cbs (k # [Suc k..<5]) g"
    by (rule expiry_skip) (use first k(1) D(7) in auto)
  also have "\<dots> = Some (True, g4)"
    using k D(6,7) r g1(1,3) g3(1) g4 u by (simp add: g2_def)
  finally have "expiry_route_disc_loop cbs [0..<ZB_NWK_ROUTE_DISCOVERY_TABLE_SIZE] g = Some (True, g4)"
    by (simp only: split)
  moreover have "route_disc_table_cnt g \<noteq> 0"
    using table_time_used [of k g] table_time_zero(1) [OF ok] k D(7) by auto
  ultimately have "zb_nwk_mesh_expiry_route_disc cbs g = Some g4"
    by (simp add: zb_nwk_mesh_expiry_route_disc_def)
  moreover have "requests g1 = (requests g)(rd_key ?d := None)"
    using rd.map_drop [OF D(5), of k] k D(7) by (simp add: requests_def g1_def)
  then have "requests g4 = (requests g)(rd_key ?d := None)"
    using maps_frame [OF t] by (simp add: requests_def g4_def)
  moreover have "routes g4 = (routes g)(rt_dest_addr (routing_table g ! r) := None)"
    using rt.map_drop [OF D(4), of r] u D(6) by (simp add: routes_def g4_def rt3)
  ultimately show ?thesis by blast
qed

text \<open>
  C12. The route given up for an expired discovery can be that of another discovery, one still under
  way. When the first used discovery entry has expired and the first route that stands at the place of
  a discovery entry for its own destination is that of a live discovery, that route is given up: the
  request of the live discovery stays recorded without its route, and the route of the expired one is
  kept. The condition of the search names the expired entry by the loop variable \<^verbatim>\<open>i\<close>, which the
  macro captures.
\<close>

theorem expiry_kills_live_discovery:
  assumes "mesh_ok g" and "sys_ok g"
    and "k < 5" and "rd_used (route_disc_table g ! k)" and "rd_expiration_time (route_disc_table g ! k) = 0"
    and "\<forall>j < k. \<not> rd_used (route_disc_table g ! j)"
    and "expired_route g = Some r" and "rd_used (route_disc_table g ! r)" and "rd_expiration_time (route_disc_table g ! r) \<noteq> 0"
    and "rd_dest_addr (route_disc_table g ! k) \<noteq> rd_dest_addr (route_disc_table g ! r)"
  shows "\<exists>g'. zb_nwk_mesh_expiry_route_disc cbs g = Some g'
     \<and> requests g' (rd_key (route_disc_table g ! r)) = Some (route_disc_table g ! r)
     \<and> routes g' (rd_dest_addr (route_disc_table g ! r)) = None
     \<and> routes g' (rd_dest_addr (route_disc_table g ! k)) = routes g (rd_dest_addr (route_disc_table g ! k))"
proof -
  note D = mesh_okD [OF assms(1)]
  have r: "r < 5" "rt_dest_addr (routing_table g ! r) = rd_dest_addr (route_disc_table g ! r)"
    using assms(7) D(6,7) by (auto simp: expired_route_def find_index_0)
  have "r \<noteq> k" using assms(10) by auto
  then have "rd_key (route_disc_table g ! r) \<noteq> rd_key (route_disc_table g ! k)"
    using keyedD [OF D(5), of r k] D(7) r(1) assms(3,4,8) by auto
  moreover have "requests g (rd_key (route_disc_table g ! r)) = Some (route_disc_table g ! r)"
    using r(1) D(7) assms(8) by (auto simp: requests_def rd.map_iff [OF D(5)])
  ultimately show ?thesis
    using expiry_gives_up [OF assms(1-5) _ assms(7), of cbs] assms(6,10) r(2) by auto
qed

section \<open>A state with an expired and a live discovery\<close>

definition mesh_example_expired :: "nat mesh_g" where
  "mesh_example_expired = mesh_example\<lparr>
     routing_table := (routing_table mesh_example)
       [0 := (routing_table mesh_example ! 0)\<lparr>rt_used := True, rt_dest_addr := 0x30, rt_next_hop_addr := 0x31\<rparr>,
        1 := (routing_table mesh_example ! 1)\<lparr>rt_used := True, rt_dest_addr := 0x20, rt_status := ZB_NWK_ROUTE_STATE_DISCOVERY_UNDERWAY\<rparr>,
        2 := (routing_table mesh_example ! 2)\<lparr>rt_used := True, rt_dest_addr := 0x10, rt_status := ZB_NWK_ROUTE_STATE_DISCOVERY_UNDERWAY\<rparr>],
     routing_table_cnt := 3,
     route_disc_table := (route_disc_table mesh_example)
       [0 := (route_disc_table mesh_example ! 0)\<lparr>rd_used := True, rd_request_id := 1, rd_dest_addr := 0x10\<rparr>,
        1 := (route_disc_table mesh_example ! 1)\<lparr>rd_used := True, rd_request_id := 2, rd_dest_addr := 0x20, rd_expiration_time := 9\<rparr>],
     route_disc_table_cnt := 2\<rparr>"

lemma cleared_dq: "dq_rep (sched (zb_sched_init sched_cleared)) [] [] (rev [0..<ZB_BUF_Q_SIZE])"
proof -
  obtain nx fl bx bl where
    "stk.push_all (lnext (tm_links (sched sched_cleared))) (tm_freelist (sched sched_cleared)) [0..<ZB_SCHEDULER_Q_SIZE] = (nx, fl)"
    "stk.push_all (buf_next (sched sched_cleared)) (buf_freelist (sched sched_cleared)) [0..<ZB_BUF_Q_SIZE] = (bx, bl)"
    by fastforce
  then have init: "zb_sched_init sched_cleared = sched_cleared\<lparr>sched := (sched sched_cleared)\<lparr>
      tm_links := (tm_links (sched sched_cleared))\<lparr>lnext := nx\<rparr>, tm_freelist := fl, buf_next := bx, buf_freelist := bl\<rparr>\<rparr>"
    by (simp add: zb_sched_init_def fold_push Let_def)
  have "stk_rep (buf_next (sched (zb_sched_init sched_cleared))) (buf_freelist (sched (zb_sched_init sched_cleared)))
      (rev [0..<ZB_BUF_Q_SIZE])"
    by (rule sched_init_spec(2)) (simp_all add: sched_cleared_def)
  with init show ?thesis by (auto simp: dq_rep_def sched_cleared_def sl_rep_def ZB_BUF_Q_SIZE_def)
qed

lemma mesh_example_sys: "sys_ok mesh_example"
proof -
  have "[0..<ZB_IOBUF_POOL_SIZE] = 0 # [1..<ZB_IOBUF_POOL_SIZE]" by (simp add: ZB_IOBUF_POOL_SIZE_def upt_conv_Cons)
  with bufs_init_inv have i: "bp_inv (bpool bufs_init) (0 # [1..<ZB_IOBUF_POOL_SIZE])" by simp
  have "Bufpool.taken (bpool bufs_init) (0 # [1..<ZB_IOBUF_POOL_SIZE]) 1 = {}"
    by (auto simp: Bufpool.taken_def ZB_IOBUF_POOL_SIZE_def)
  with get_buf_ok [OF i, of 1] obtain bp where "zb_get_buf 1 bufs_init = Some (Some 0, bufs_init\<lparr>bpool := bp\<rparr>)"
      "bp_inv bp [1..<ZB_IOBUF_POOL_SIZE]" by auto
  then have "bp_inv (bpool mesh_example) [1..<ZB_IOBUF_POOL_SIZE]" by (simp add: mesh_example_def)
  moreover have "sched mesh_example = sched (zb_sched_init sched_cleared)" by (simp add: mesh_example_def)
  ultimately show ?thesis using cleared_init cleared_dq cleared_cb_q(1) by (intro sys_okI) simp_all
qed

lemmas mesh_example_simps = mesh_example_expired_def mesh_example_def replicate_5

lemma mesh_example_expired_ok: "mesh_ok mesh_example_expired" "sys_ok mesh_example_expired"
proof -
  let ?g = mesh_example_expired
  have "keyed rt_used rt_dest_addr (routing_table ?g)" "keyed rd_used rd_key (route_disc_table ?g)"
    by (intro keyed_distinct; simp add: mesh_example_simps rd_key_def)+
  moreover have "pending_table ?g = pending_table mesh_example" by (simp add: mesh_example_expired_def)
  moreover have "table_ok rt_used 5 (routing_table ?g) (routing_table_cnt ?g)" "table_ok rd_used 5 (route_disc_table ?g) (route_disc_table_cnt ?g)"
    "table_ok pd_used 5 (pending_table ?g) (pending_table_cnt ?g)"
    by (simp_all add: mesh_example_simps table_ok_def)
  ultimately show "mesh_ok ?g"
    by (simp add: mesh_ok_def zb_config mesh_example_def)
  show "sys_ok ?g"
    by (rule sys_ok_frame [OF mesh_example_sys]) (simp_all add: mesh_example_expired_def)
qed

theorem discovery_drains_witness:
  "\<exists>g'. expiry_runs mesh_example_cbs 11 mesh_example_expired = Some g' \<and> route_disc_table_cnt g' = 0 \<and> requests g' = Map.empty"
  by (rule discovery_drains [OF mesh_example_expired_ok])
    (simp add: table_time_def disc_time_def mesh_example_simps)

theorem expiry_kills_live_discovery_witness:
  "\<exists>g'. zb_nwk_mesh_expiry_route_disc mesh_example_cbs mesh_example_expired = Some g'
     \<and> requests g' (2, 0) \<noteq> None \<and> routes g' 0x20 = None \<and> routes g' 0x10 \<noteq> None"
proof -
  let ?g = mesh_example_expired
  have r: "expired_route ?g = Some 1"
    by (simp add: expired_route_def mesh_example_simps zb_config)
  have d: "rd_used (route_disc_table ?g ! 0)" "rd_expiration_time (route_disc_table ?g ! 0) = 0" "rd_used (route_disc_table ?g ! 1)"
    "rd_expiration_time (route_disc_table ?g ! 1) \<noteq> 0" "rd_dest_addr (route_disc_table ?g ! 0) = 0x10"
    "rd_dest_addr (route_disc_table ?g ! 1) = 0x20" "rd_key (route_disc_table ?g ! 1) = (2, 0)"
    by (simp_all add: mesh_example_simps rd_key_def)
  have "routes ?g 0x10 \<noteq> None"
    by (simp add: routes_def table_map_def NWK_ARRAY_FIND_ENT_def mesh_example_simps)
  with expiry_kills_live_discovery [OF mesh_example_expired_ok _ d(1,2) _ r d(3,4), of mesh_example_cbs] d show ?thesis by auto
qed

end
