(* ===== verification/Nwk_Data.thy ===== *)
theory Nwk_Data
  imports Nwk_Mesh
begin

text \<open>
  The data path of the network layer, \<^verbatim>\<open>nwk/nwk_main.c\<close>: sending a packet of the higher layer, forwarding,
  the repetition of broadcasts, the reception of a frame from the MAC and leaving the network. The state
  is \<^verbatim>\<open>ZG->nwk.handle\<close>: the broadcast transaction table with the broadcasts handled lately, the table of the
  broadcasts that are sent again, and the list of the packets that wait for a second buffer.

  The build is the one for the simulator, little-endian, so that the conversions of addresses in a
  header between the orders of bytes do nothing, and the link quality of a received frame is made from its
  source address. The parameter 0 of a callback means that it has no buffer, although it is
  also the reference of the first buffer of the pool.
\<close>

section \<open>State\<close>

definition ZB_ADDR_16BIT_MULTICAST :: u8 where "ZB_ADDR_16BIT_MULTICAST = 1"
definition MAC_CHANNEL_ACCESS_FAILURE :: u8 where "MAC_CHANNEL_ACCESS_FAILURE = 0xe1"
definition MAC_NO_ACK :: u8 where "MAC_NO_ACK = 0xe9"
definition MAC_TRANSACTION_EXPIRED :: u8 where "MAC_TRANSACTION_EXPIRED = 0xf0"
definition ZB_NWK_COMMAND_STATUS_INDIRECT_TRANSACTION_EXPIRY :: u8 where "ZB_NWK_COMMAND_STATUS_INDIRECT_TRANSACTION_EXPIRY = 6"
definition ZB_NWK_COMMAND_STATUS_PARENT_LINK_FAILURE :: u8 where "ZB_NWK_COMMAND_STATUS_PARENT_LINK_FAILURE = 9"
definition ZB_NLME_REJOIN_METHOD_REJOIN :: u8 where "ZB_NLME_REJOIN_METHOD_REJOIN = 2"
definition ZB_DEFAULT_SCAN_DURATION :: u8 where "ZB_DEFAULT_SCAN_DURATION = 3"
definition ZB_NWK_BTR_TABLE_SIZE :: nat where [zb_config]: "ZB_NWK_BTR_TABLE_SIZE = 16"
definition ZB_NWK_BRR_TABLE_SIZE :: nat where [zb_config]: "ZB_NWK_BRR_TABLE_SIZE = 8"
definition ZB_NWK_WAIT_ALLOC_TABLE_SIZE :: nat where [zb_config]: "ZB_NWK_WAIT_ALLOC_TABLE_SIZE = 5"
definition ZB_NWK_BROADCAST_DELIVERY_TIME :: "7 word" where [zb_config]: "ZB_NWK_BROADCAST_DELIVERY_TIME = 9"
definition ZB_NWK_MAX_BROADCAST_RETRIES :: "6 word" where [zb_config]: "ZB_NWK_MAX_BROADCAST_RETRIES = 2"
definition ZB_NWK_RREQ_RETRY_INTERVAL :: zb_time where
  "ZB_NWK_RREQ_RETRY_INTERVAL = of_int (ZB_MILLISECONDS_TO_BEACON_INTERVAL 0xFE)"
definition ZB_NWK_MAX_BROADCAST_JITTER_INTERVAL :: zb_time where
  "ZB_NWK_MAX_BROADCAST_JITTER_INTERVAL = of_int (ZB_MILLISECONDS_TO_BEACON_INTERVAL 0x40)"
definition ZB_NWK_BROADCAST_LOW_POWER_ROUTER :: u16 where [zb_config]: "ZB_NWK_BROADCAST_LOW_POWER_ROUTER = 0xfffb"
definition ZB_TAIL_SIZE_FOR_RECEIVED_MAC_FRAME :: u8 where [zb_config]: "ZB_TAIL_SIZE_FOR_RECEIVED_MAC_FRAME = 2 + 9"
definition ZB_NWK_CMD_NETWORK_STATUS :: u8 where "ZB_NWK_CMD_NETWORK_STATUS = 3"
definition ZB_NWK_CMD_NETWORK_REPORT :: u8 where "ZB_NWK_CMD_NETWORK_REPORT = 9"
definition ZB_NWK_CMD_NETWORK_UPDATE :: u8 where "ZB_NWK_CMD_NETWORK_UPDATE = 10"
definition MAC_TX_OPTION_ACKNOWLEDGED_BIT :: u8 where "MAC_TX_OPTION_ACKNOWLEDGED_BIT = 1"
definition MAC_TX_OPTION_INDIRECT_TRANSMISSION_BIT :: u8 where "MAC_TX_OPTION_INDIRECT_TRANSMISSION_BIT = 4"
definition ZB_NWK_NEIGHBOR_NONE :: u32 where [zb_config]: "ZB_NWK_NEIGHBOR_NONE = 0xffffffff"

text \<open>The conditional of the C expression takes in the whole sum.\<close>

definition ZB_NWK_BRCST_PASSIVE_ACK_ARRAY_SIZE :: nat where
  "ZB_NWK_BRCST_PASSIVE_ACK_ARRAY_SIZE =
     (if ZB_NEIGHBOR_TABLE_SIZE div 8 + ZB_NEIGHBOR_TABLE_SIZE mod 8 \<noteq> 0 then 1 else 0)"

record zb_nwk_btr =
  bt_used :: bool
  bt_expiration_time :: "7 word"
  bt_source_addr :: u16
  bt_sequence_number :: u8

record zb_nwk_broadcast_retransmit =
  br_used :: bool
  br_retries :: "6 word"
  br_buf :: u8
  br_iterator :: u32
  br_next_retransmit :: zb_time
  br_src_addr :: u16
  br_dst_addr :: u16
  br_seq_num :: u8
  br_passive_ack :: "u8 list"

record zb_nwk_buf_alloc_wait =
  wa_used :: bool
  wa_wait :: "7 word"
  wa_buf :: u8

record 'cb data_g = "'cb mesh_g" +
  btt :: "zb_nwk_btr list"
  btt_cnt :: u8
  brrt :: "zb_nwk_broadcast_retransmit list"
  brrt_cnt :: u8
  wait_alloc :: "zb_nwk_buf_alloc_wait list"
  wait_alloc_cnt :: u8
  nwk_status_ind :: u8
  nwk_status_addr :: u16
  nwk_joined :: bool
  router_started :: bool
  joined_pro :: bool
  mac_rx_on_when_idle :: bool
  rejoin_req_table_cnt :: u8
  leave_after_mgmt :: bool
  pending_list_size :: u8
  zdo_started :: bool
  zdo_rejoin :: bool
  nib_pan_id :: u16
  aps_channel_mask :: u32

record 'cb data_cbs =
  cb_mesh :: "'cb mesh_cbs"
  cb_mcps_data_request :: 'cb
  cb_nlde_data_confirm :: 'cb
  cb_broadcast_transmition :: 'cb
  cb_frame_indication :: 'cb
  cb_new_buffer_allocated :: 'cb
  cb_call_br_confirm :: 'cb
  cb_btr_expiry :: 'cb
  cb_nlme_join_request :: 'cb

definition set_bt_used :: "bool \<Rightarrow> zb_nwk_btr \<Rightarrow> zb_nwk_btr" where "set_bt_used u e = e\<lparr>bt_used := u\<rparr>"
definition set_br_used :: "bool \<Rightarrow> zb_nwk_broadcast_retransmit \<Rightarrow> zb_nwk_broadcast_retransmit" where
  "set_br_used u e = e\<lparr>br_used := u\<rparr>"
definition set_wa_used :: "bool \<Rightarrow> zb_nwk_buf_alloc_wait \<Rightarrow> zb_nwk_buf_alloc_wait" where "set_wa_used u e = e\<lparr>wa_used := u\<rparr>"

definition put_btt :: "nat \<Rightarrow> ('cb, 'w) data_g_scheme \<Rightarrow> ('cb, 'w) data_g_scheme option" where
  "put_btt k g = do {
     (a, n) \<leftarrow> NWK_ARRAY_PUT_ENT set_bt_used (Some k) (btt g, btt_cnt g);
     Some (g\<lparr>btt := a, btt_cnt := n\<rparr>) }"

definition put_brrt :: "nat \<Rightarrow> ('cb, 'w) data_g_scheme \<Rightarrow> ('cb, 'w) data_g_scheme option" where
  "put_brrt k g = do {
     (a, n) \<leftarrow> NWK_ARRAY_PUT_ENT set_br_used (Some k) (brrt g, brrt_cnt g);
     Some (g\<lparr>brrt := a, brrt_cnt := n\<rparr>) }"

definition put_wait_alloc :: "nat \<Rightarrow> ('cb, 'w) data_g_scheme \<Rightarrow> ('cb, 'w) data_g_scheme option" where
  "put_wait_alloc k g = do {
     (a, n) \<leftarrow> NWK_ARRAY_PUT_ENT set_wa_used (Some k) (wait_alloc g, wait_alloc_cnt g);
     Some (g\<lparr>wait_alloc := a, wait_alloc_cnt := n\<rparr>) }"

section \<open>Bit vectors\<close>

definition ZB_SET_BIT_IN_BIT_VECTOR :: "u8 list \<Rightarrow> nat \<Rightarrow> u8 list option" where
  "ZB_SET_BIT_IN_BIT_VECTOR v n = do {
     b \<leftarrow> arr_get v (n div 8); arr_set v (n div 8) (b OR push_bit (n mod 8) 1) }"

definition ZB_CALC_NONE_ZERO_BITS_IN_BIT_VECTOR :: "u8 list \<Rightarrow> nat" where
  "ZB_CALC_NONE_ZERO_BITS_IN_BIT_VECTOR v = sum_list (map (\<lambda>b. unat (magic_bitcount8 b)) v)"

section \<open>The broadcast transaction table\<close>

definition btt_find :: "u16 \<Rightarrow> u8 \<Rightarrow> ('cb, 'w) data_g_scheme \<Rightarrow> nat option" where
  "btt_find src seq g = NWK_ARRAY_FIND_ENT bt_used (btt g) (\<lambda>e. bt_source_addr e = src \<and> bt_sequence_number e = seq)"

definition ZB_NWK_START_BTR_EXPIRY :: "'cb data_cbs \<Rightarrow> ('cb, 'w) data_g_scheme \<Rightarrow> ('cb, 'w) data_g_scheme option" where
  "ZB_NWK_START_BTR_EXPIRY cbs g =
     (if btt_cnt g = 1 then do {
        (_, g) \<leftarrow> zb_schedule_alarm_cancel (cb_btr_expiry cbs) ZB_ALARM_ANY_PARAM g;
        (_, g) \<leftarrow> zb_schedule_alarm (cb_btr_expiry cbs) 0 (of_int ZB_TIME_ONE_SECOND) g;
        Some g }
      else Some g)"

text \<open>A new record, or \<open>False\<close> when the table is full.\<close>

definition btt_add :: "'cb data_cbs \<Rightarrow> u16 \<Rightarrow> u8 \<Rightarrow> ('cb, 'w) data_g_scheme \<Rightarrow> (bool \<times> ('cb, 'w) data_g_scheme) option" where
  "btt_add cbs src seq g =
     (case NWK_ARRAY_GET_ENT bt_used set_bt_used (btt g, btt_cnt g) of
        (None, _, _) \<Rightarrow> Some (False, g)
      | (Some k, a, n) \<Rightarrow> do {
          e \<leftarrow> arr_get a k;
          a \<leftarrow> arr_set a k (e\<lparr>bt_source_addr := src, bt_sequence_number := seq,
                             bt_expiration_time := ZB_NWK_BROADCAST_DELIVERY_TIME\<rparr>);
          g \<leftarrow> ZB_NWK_START_BTR_EXPIRY cbs (g\<lparr>btt := a, btt_cnt := n\<rparr>);
          Some (True, g) })"

fun btr_expiry_loop :: "nat list \<Rightarrow> ('cb, 'w) data_g_scheme \<Rightarrow> ('cb, 'w) data_g_scheme option" where
  "btr_expiry_loop [] g = Some g"
| "btr_expiry_loop (k # ks) g = do {
     e \<leftarrow> arr_get (btt g) k;
     g \<leftarrow> (if bt_used e then
             if bt_expiration_time e \<noteq> 0 then do {
               a \<leftarrow> arr_set (btt g) k (e\<lparr>bt_expiration_time := bt_expiration_time e - 1\<rparr>);
               Some (g\<lparr>btt := a\<rparr>) }
             else put_btt k g
           else Some g);
     btr_expiry_loop ks g }"

definition zb_nwk_btr_expiry :: "'cb data_cbs \<Rightarrow> ('cb, 'w) data_g_scheme \<Rightarrow> ('cb, 'w) data_g_scheme option" where
  "zb_nwk_btr_expiry cbs g =
     (if btt_cnt g \<noteq> 0 then do {
        g \<leftarrow> btr_expiry_loop [0..<ZB_NWK_BTR_TABLE_SIZE] g;
        (_, g) \<leftarrow> zb_schedule_alarm (cb_btr_expiry cbs) 0 (of_int ZB_TIME_ONE_SECOND) g;
        Some g }
      else Some g)"

section \<open>Parameters of the MAC\<close>

text \<open>The parameters of a data request are the last eight bytes of a buffer.\<close>

definition ZB_MCPS_BUILD_DATA_REQUEST :: "zb_buf_t \<Rightarrow> u16 \<Rightarrow> u16 \<Rightarrow> u8 \<Rightarrow> u8 \<Rightarrow> zb_buf_t option" where
  "ZB_MCPS_BUILD_DATA_REQUEST b src dst tx h = do {
     t \<leftarrow> zb_get_buf_tail b 8;
     d \<leftarrow> arr_copy (data_buf b) t (ZB_HTOLE16 src @ ZB_HTOLE16 dst @ [tx]);
     d \<leftarrow> arr_set d (t + 6) h;
     Some (b\<lparr>data_buf := d\<rparr>) }"

definition set_msdu_handle :: "zb_buf_t \<Rightarrow> u8 \<Rightarrow> zb_buf_t option" where
  "set_msdu_handle b h = do {
     t \<leftarrow> zb_get_buf_tail b 8;
     d \<leftarrow> arr_set (data_buf b) (t + 6) h;
     Some (b\<lparr>data_buf := d\<rparr>) }"

definition make_unicast :: "zb_buf_t \<Rightarrow> u16 \<Rightarrow> zb_buf_t option" where
  "make_unicast b dst = do {
     t \<leftarrow> zb_get_buf_tail b 8;
     d \<leftarrow> arr_copy (data_buf b) (t + 2) (ZB_HTOLE16 dst);
     tx \<leftarrow> arr_get d (t + 4);
     d \<leftarrow> arr_set d (t + 4) (tx OR (MAC_TX_OPTION_INDIRECT_TRANSMISSION_BIT OR MAC_TX_OPTION_ACKNOWLEDGED_BIT));
     Some (b\<lparr>data_buf := d\<rparr>) }"

definition status_indication ::
  "'cb data_cbs \<Rightarrow> nat \<Rightarrow> u8 \<Rightarrow> u16 \<Rightarrow> ('cb, 'w) data_g_scheme \<Rightarrow> ('cb, 'w) data_g_scheme option" where
  "status_indication cbs i st a g = zb_secur_nwk_status (cb_status_indication (cb_mesh cbs)) i a st g"

section \<open>Sending\<close>

text \<open>
  The request of the higher layer: its parameters are the last bytes of the buffer, the destination,
  the radius, the addressing mode, the radius for members, whether to discover a route, whether to
  secure and the handle. They lie where the header may be written and are read before.
\<close>

definition zb_nlde_data_request :: "'cb data_cbs \<Rightarrow> nat \<Rightarrow> ('cb, 'w) data_g_scheme \<Rightarrow> ('cb, 'w) data_g_scheme option" where
  "zb_nlde_data_request cbs i g = do {
     b \<leftarrow> arr_get (pool (bpool g)) i;
     t \<leftarrow> zb_get_buf_tail b 8;
     ps \<leftarrow> buf_read (data_buf b) t 8;
     if \<not> nwk_joined g then do {
       g \<leftarrow> put_buf i (b\<lparr>hdr := (hdr b)\<lparr>hdr_status := ucast ZB_NWK_STATUS_INVALID_REQUEST\<rparr>\<rparr>) g;
       (_, g) \<leftarrow> zb_schedule_callback (cb_nlde_data_confirm cbs) (of_nat i) g;
       Some g }
     else do {
       let secure = ps ! 6 \<noteq> 0 \<and> secure_cmd g;
       (b, p, g) \<leftarrow> nwk_alloc_and_fill_hdr b (ZB_LETOH16 (take 2 ps)) None None (ps ! 3 = ZB_ADDR_16BIT_MULTICAST) secure False g;
       ps \<leftarrow> buf_read (data_buf b) t 8;
       d \<leftarrow> arr_set (data_buf b) (p + 6) (if ps ! 2 \<noteq> 0 then ps ! 2 else max_depth (snwk g) * 2);
       ps \<leftarrow> buf_read d t 8;
       fc \<leftarrow> arr_get d p;
       d \<leftarrow> (if ps ! 5 \<noteq> 0 then arr_set d p (fc OR push_bit 6 1) else Some d);
       h \<leftarrow> arr_get d (t + 7);
       forward_buf (cb_mesh cbs) i (b\<lparr>data_buf := d\<rparr>) h g } }"


text \<open>The packet \<open>i\<close> with the contents \<open>b\<close> becomes an entry of the table of repeated broadcasts.\<close>

definition brrt_add ::
  "'cb data_cbs \<Rightarrow> nat \<Rightarrow> zb_nwk_hdr \<Rightarrow> ('cb, 'w) data_g_scheme \<Rightarrow> (bool \<times> ('cb, 'w) data_g_scheme) option" where
  "brrt_add cbs i nh g =
     (if brrt_cnt g < of_nat ZB_NWK_BRR_TABLE_SIZE then do {
        let (k, a, n) = NWK_ARRAY_GET_ENT br_used set_br_used (brrt g, brrt_cnt g);
        k \<leftarrow> k;
        e \<leftarrow> arr_get a k;
        it \<leftarrow> zb_nwk_neighbor_next_ze_children_i (nh_dst_addr nh) 0 (neighbor (snwk g));
        a \<leftarrow> arr_set a k (e\<lparr>br_buf := of_nat i, br_retries := 0, br_src_addr := nh_src_addr nh, br_dst_addr := nh_dst_addr nh,
                           br_seq_num := nh_seq_num nh, br_iterator := it,
                           br_passive_ack := replicate ZB_NWK_BRCST_PASSIVE_ACK_ARRAY_SIZE 0\<rparr>);
        (_, g) \<leftarrow> zb_schedule_alarm_cancel (cb_broadcast_transmition cbs) 0 (g\<lparr>brrt := a, brrt_cnt := n\<rparr>);
        (_, g) \<leftarrow> zb_get_out_buf_delayed (cb_broadcast_transmition cbs) g;
        Some (True, g) }
      else Some (False, g))"

text \<open>A packet whose next hop is known; the result says whether it was taken.\<close>

definition forward_known ::
  "'cb data_cbs \<Rightarrow> nat \<Rightarrow> zb_nwk_hdr \<Rightarrow> u16 \<Rightarrow> bool \<Rightarrow> u8 \<Rightarrow> ('cb, 'w) data_g_scheme \<Rightarrow> (bool \<times> ('cb, 'w) data_g_scheme) option" where
  "forward_known cbs i nh mac_dst indirect h g = do {
     let broadcast = ZB_NWK_IS_ADDRESS_BROADCAST (nh_dst_addr nh);
     (ok, g) \<leftarrow> (if broadcast \<and> btt_find (nh_src_addr nh) (nh_seq_num nh) g = None
                 then btt_add cbs (nh_src_addr nh) (nh_seq_num nh) g else Some (True, g));
     if \<not> ok then Some (False, g)
     else do {
       b \<leftarrow> arr_get (pool (bpool g)) i;
       b \<leftarrow> ZB_MCPS_BUILD_DATA_REQUEST b (network_address g) mac_dst
              ((if indirect then MAC_TX_OPTION_INDIRECT_TRANSMISSION_BIT else 0)
               OR (if mac_dst \<noteq> 0xffff then MAC_TX_OPTION_ACKNOWLEDGED_BIT else 0)) h;
       g \<leftarrow> put_buf i b g;
       if broadcast \<and> mesh_device_type g \<noteq> ZB_NWK_DEVICE_TYPE_ED then brrt_add cbs i nh g
       else do {
         (_, g) \<leftarrow> zb_schedule_callback (cb_mcps_data_request cbs) (of_nat i) g;
         Some (True, g) } } }"

text \<open>A packet that cannot be sent is freed, or becomes a status indication when the next hop is a child.\<close>

definition forward_failed ::
  "'cb data_cbs \<Rightarrow> nat \<Rightarrow> u16 \<Rightarrow> u8 \<Rightarrow> ('cb, 'w) data_g_scheme \<Rightarrow> ('cb, 'w) data_g_scheme option" where
  "forward_failed cbs i mac_dst st g = do {
     (n, g) \<leftarrow> neighbor_by_short mac_dst g;
     child \<leftarrow> (case n of
                 None \<Rightarrow> Some False
               | Some k \<Rightarrow> do { e \<leftarrow> arr_get (base_neighbor (neighbor (snwk g))) k; Some (is_child e) });
     if child then status_indication cbs i st mac_dst g else zb_free_buf i g }"

definition zb_nwk_forward :: "'cb data_cbs \<Rightarrow> nat \<Rightarrow> ('cb, 'w) data_g_scheme \<Rightarrow> ('cb, 'w) data_g_scheme option" where
  "zb_nwk_forward cbs i g = do {
     b \<leftarrow> arr_get (pool (bpool g)) i;
     nh \<leftarrow> nwk_hdr_at (data_buf b) (ZB_BUF_BEGIN b);
     t \<leftarrow> zb_get_buf_tail b 1;
     h \<leftarrow> arr_get (data_buf b) t;
     (ret, mac_dst, indirect, st, g) \<leftarrow> nwk_calc_destination (cb_mesh cbs) i h g;
     let st = (case st of None \<Rightarrow> ZB_NWK_COMMAND_STATUS_NO_ROUTE_AVAILABLE | Some st \<Rightarrow> st);
     if ret = RET_OK then do {
       (ok, g) \<leftarrow> forward_known cbs i nh mac_dst indirect h g;
       if ok then Some g else forward_failed cbs i mac_dst st g }
     else if ret = RET_BUSY then Some g
     else forward_failed cbs i mac_dst st g }"

section \<open>Repeating broadcasts\<close>

text \<open>
  The entry to work on next: one not sent yet, then one with a child to send to, then one whose time has
  come. The search for a child skips the child the broadcast has come from.
\<close>

fun br_unicast_loop :: "nat list \<Rightarrow> ('cb, 'w) data_g_scheme \<Rightarrow> ((nat \<times> nat) option \<times> ('cb, 'w) data_g_scheme) option" where
  "br_unicast_loop [] g = Some (None, g)"
| "br_unicast_loop (k # ks) g = do {
     e \<leftarrow> arr_get (brrt g) k;
     if br_used e \<and> br_iterator e \<noteq> ZB_NWK_NEIGHBOR_NONE then do {
       n \<leftarrow> arr_get (base_neighbor (neighbor (snwk g))) (unat (br_iterator e));
       a \<leftarrow> zb_address_short_by_ref (addr_ref n) (addr_tbl (snwk g));
       b \<leftarrow> arr_get (pool (bpool g)) (unat (br_buf e));
       nh \<leftarrow> nwk_hdr_at (data_buf b) (ZB_BUF_BEGIN b);
       if a = nh_src_addr nh then do {
         it \<leftarrow> zb_nwk_neighbor_next_ze_children_i (br_dst_addr e) (unat (br_iterator e) + 1) (neighbor (snwk g));
         t \<leftarrow> arr_set (brrt g) k (e\<lparr>br_iterator := it\<rparr>);
         br_unicast_loop ks (g\<lparr>brrt := t\<rparr>) }
       else Some (Some (k, unat (br_iterator e)), g) }
     else br_unicast_loop ks g }"

definition br_next ::
  "('cb, 'w) data_g_scheme \<Rightarrow> ((nat \<times> nat option) option \<times> ('cb, 'w) data_g_scheme) option" where
  "br_next g =
     (case NWK_ARRAY_FIND_ENT br_used (brrt g) (\<lambda>e. br_retries e = 0) of
        Some k \<Rightarrow> Some (Some (k, None), g)
      | None \<Rightarrow> do {
          (u, g) \<leftarrow> br_unicast_loop [0..<ZB_NWK_BRR_TABLE_SIZE] g;
          (case u of
             Some (k, n) \<Rightarrow> Some (Some (k, Some n), g)
           | None \<Rightarrow>
               Some (map_option (\<lambda>k. (k, None))
                 (NWK_ARRAY_FIND_ENT br_used (brrt g) (\<lambda>e. ZB_TIME_GE (timer (time g)) (br_next_retransmit e))), g)) })"

text \<open>The entry after this transmission.\<close>

definition br_advance :: "nat option \<Rightarrow> zb_nwk_broadcast_retransmit \<Rightarrow> ('cb, 'w) data_g_scheme \<Rightarrow> zb_nwk_broadcast_retransmit option" where
  "br_advance n e g =
     (case n of
        Some _ \<Rightarrow> do {
          v \<leftarrow> ZB_SET_BIT_IN_BIT_VECTOR (br_passive_ack e) (unat (br_iterator e));
          it \<leftarrow> zb_nwk_neighbor_next_ze_children_i (br_dst_addr e) (unat (br_iterator e) + 1) (neighbor (snwk g));
          Some (e\<lparr>br_passive_ack := v, br_iterator := it\<rparr>) }
      | None \<Rightarrow> Some (e\<lparr>br_next_retransmit := timer (time g) + ZB_NWK_RREQ_RETRY_INTERVAL, br_retries := br_retries e + 1\<rparr>))"

definition br_last :: "zb_nwk_broadcast_retransmit \<Rightarrow> ('cb, 'w) data_g_scheme \<Rightarrow> bool" where
  "br_last e g \<longleftrightarrow>
     (let d = ZB_NWK_GET_PASSIVE_ACK_DEV_NUM (neighbor (snwk g));
          n = ZB_CALC_NONE_ZERO_BITS_IN_BIT_VECTOR (br_passive_ack e)
      in br_iterator e = ZB_NWK_NEIGHBOR_NONE
         \<and> (ZB_NWK_MAX_BROADCAST_RETRIES \<le> br_retries e \<or> n = d \<and> br_src_addr e = network_address g
            \<or> d \<noteq> 0 \<and> n = d - 1 \<and> br_src_addr e \<noteq> network_address g))"

text \<open>
  One transmission of the entry \<open>k\<close> from the buffer \<open>prm\<close>. The last one uses the buffer of the
  broadcast itself, so that the higher layer gets its confirm.
\<close>

definition br_transmit ::
  "'cb data_cbs \<Rightarrow> nat \<Rightarrow> nat \<Rightarrow> nat option \<Rightarrow> ('cb, 'w) data_g_scheme \<Rightarrow> ('cb, 'w) data_g_scheme option" where
  "br_transmit cbs prm k n g = do {
     e \<leftarrow> arr_get (brrt g) k;
     e \<leftarrow> br_advance n e g;
     a \<leftarrow> arr_set (brrt g) k e;
     let g = g\<lparr>brrt := a\<rparr>;
     (prm, g) \<leftarrow> (if br_last e g then do {
                      g \<leftarrow> zb_free_buf prm g;
                      g \<leftarrow> put_brrt k g;
                      Some (unat (br_buf e), g) }
                    else Some (prm, g));
     b \<leftarrow> arr_get (pool (bpool g)) prm;
     b \<leftarrow> (if prm \<noteq> unat (br_buf e) then do {
              src \<leftarrow> arr_get (pool (bpool g)) (unat (br_buf e));
              set_msdu_handle (ZB_BUF_COPY b src) ZB_NWK_INTERNAL_NSDU_HANDLE }
            else Some b);
     b \<leftarrow> (case n of
              None \<Rightarrow> Some b
            | Some n \<Rightarrow> do {
                nb \<leftarrow> arr_get (base_neighbor (neighbor (snwk g))) n;
                a \<leftarrow> zb_address_short_by_ref (addr_ref nb) (addr_tbl (snwk g));
                make_unicast b a });
     g \<leftarrow> put_buf prm b g;
     (_, g) \<leftarrow> zb_schedule_callback (cb_mcps_data_request cbs) (of_nat prm) g;
     Some g }"

text \<open>The time of the next run: the earliest repetition, compared without regard to the wrap of the clock.\<close>

definition br_next_execution :: "('cb, 'w) data_g_scheme \<Rightarrow> zb_time" where
  "br_next_execution g =
     fold (\<lambda>e t. if br_used e \<and> br_retries e < ZB_NWK_MAX_BROADCAST_RETRIES \<and> br_next_retransmit e < t
                 then br_next_retransmit e else t)
       (brrt g) (timer (time g) + ZB_NWK_MAX_BROADCAST_JITTER_INTERVAL)"

definition nwk_broadcast_transmition :: "'cb data_cbs \<Rightarrow> nat \<Rightarrow> ('cb, 'w) data_g_scheme \<Rightarrow> ('cb, 'w) data_g_scheme option" where
  "nwk_broadcast_transmition cbs prm g = do {
     (ent, g) \<leftarrow> br_next g;
     (case ent of
        Some (k, n) \<Rightarrow>
          if prm = 0 then do {
            (_, g) \<leftarrow> zb_get_out_buf_delayed (cb_broadcast_transmition cbs) g; Some g }
          else do {
            g \<leftarrow> br_transmit cbs prm k n g;
            if brrt_cnt g \<noteq> 0 then do {
              (_, g) \<leftarrow> zb_schedule_callback (cb_broadcast_transmition cbs) 0 g; Some g }
            else Some g }
      | None \<Rightarrow> do {
          g \<leftarrow> (if prm \<noteq> 0 then zb_free_buf prm g else Some g);
          if brrt_cnt g \<noteq> 0 then do {
            let t = br_next_execution g;
            (_, g) \<leftarrow> zb_schedule_alarm_cancel (cb_broadcast_transmition cbs) 0 g;
            (_, g) \<leftarrow> zb_schedule_alarm (cb_broadcast_transmition cbs) 0 (t - timer (time g)) g;
            Some g }
          else Some g }) }"


section \<open>A second buffer\<close>

text \<open>A status indication for the result of a transmission.\<close>

definition MAC_STATUS_2_NWK_COMMAND_STATUS :: "u8 \<Rightarrow> u8" where
  "MAC_STATUS_2_NWK_COMMAND_STATUS s =
     (if s = MAC_NO_ACK \<or> s = MAC_CHANNEL_ACCESS_FAILURE then ZB_NWK_COMMAND_STATUS_PARENT_LINK_FAILURE
      else if s = MAC_TRANSACTION_EXPIRED then ZB_NWK_COMMAND_STATUS_INDIRECT_TRANSACTION_EXPIRY else s)"

definition call_status_indication :: "'cb data_cbs \<Rightarrow> nat \<Rightarrow> ('cb, 'w) data_g_scheme \<Rightarrow> ('cb, 'w) data_g_scheme option" where
  "call_status_indication cbs i g =
     status_indication cbs i (MAC_STATUS_2_NWK_COMMAND_STATUS (nwk_status_ind g)) (nwk_status_addr g) g"

text \<open>
  A buffer has come for a packet that is both for this device and to be passed on: the copy goes up and
  the packet itself is sent, secured with the key it came with. Packets are served from the end of the list.
\<close>

definition new_buffer_allocated :: "'cb data_cbs \<Rightarrow> nat \<Rightarrow> ('cb, 'w) data_g_scheme \<Rightarrow> ('cb, 'w) data_g_scheme option" where
  "new_buffer_allocated cbs prm g =
     (if prm \<noteq> 0 \<and> wait_alloc_cnt g \<noteq> 0 then do {
        let k = unat (wait_alloc_cnt g) - 1;
        e \<leftarrow> arr_get (wait_alloc g) k;
        ZB_ASSERT (wa_wait e = 0);
        dst \<leftarrow> arr_get (pool (bpool g)) prm;
        src \<leftarrow> arr_get (pool (bpool g)) (unat (wa_buf e));
        g \<leftarrow> put_buf prm (ZB_BUF_COPY dst src) g;
        src \<leftarrow> arr_get (pool (bpool g)) (unat (wa_buf e));
        let src = src\<lparr>hdr := (hdr src)\<lparr>use_same_key := 1\<rparr>\<rparr>;
        (_, g) \<leftarrow> zb_schedule_callback (cb_frame_indication cbs) (of_nat prm) g;
        g \<leftarrow> forward_buf (cb_mesh cbs) (unat (wa_buf e)) src ZB_NWK_INTERNAL_NSDU_HANDLE g;
        g \<leftarrow> put_wait_alloc k g;
        if wait_alloc_cnt g \<noteq> 0 then do {
          (_, g) \<leftarrow> zb_get_in_buf_delayed (cb_new_buffer_allocated cbs) g; Some g }
        else Some g }
      else Some g)"

section \<open>Receiving\<close>

text \<open>The MAC header and what follows the frame are cut off; the place of the MAC header is kept.\<close>

definition ZB_MAC_CUT_HDR :: "zb_buf_t \<Rightarrow> u8 \<Rightarrow> (zb_buf_t \<times> nat) option" where
  "ZB_MAC_CUT_HDR b n = do {
     b \<leftarrow> zb_buf_cut_right (b\<lparr>hdr := (hdr b)\<lparr>mac_hdr_offset := data_offset (hdr b)\<rparr>\<rparr>) ZB_TAIL_SIZE_FOR_RECEIVED_MAC_FRAME;
     zb_buf_cut_left b n }"

text \<open>Which broadcasts the device listens to.\<close>

definition broadcast_wanted :: "u16 \<Rightarrow> ('cb, 'w) data_g_scheme \<Rightarrow> bool" where
  "broadcast_wanted dst g \<longleftrightarrow>
     dst = ZB_NWK_BROADCAST_ALL_DEVICES \<or> (dst = ZB_NWK_BROADCAST_RX_ON_WHEN_IDLE \<and> mac_rx_on_when_idle g)
     \<or> (dst = ZB_NWK_BROADCAST_ROUTER_COORDINATOR \<and> \<not> joined_pro g)
     \<or> (dst = ZB_NWK_BROADCAST_LOW_POWER_ROUTER \<and> \<not> joined_pro g)"

text \<open>
  A neighbor that sends a broadcast this device repeats has got it. With the last such acknowledgement
  the repetition ends.
\<close>

definition note_passive_ack ::
  "'cb data_cbs \<Rightarrow> zb_mac_mhr \<Rightarrow> u16 \<Rightarrow> u8 \<Rightarrow> ('cb, 'w) data_g_scheme \<Rightarrow> ('cb, 'w) data_g_scheme option" where
  "note_passive_ack cbs mhr src seq g =
     (case NWK_ARRAY_FIND_ENT br_used (brrt g) (\<lambda>e. br_src_addr e = src \<and> br_seq_num e = seq) of
        None \<Rightarrow> Some g
      | Some k \<Rightarrow>
          if ZB_FCF_GET_SRC_ADDRESSING_MODE (frame_control mhr) = ZB_ADDR_16BIT_DEV_OR_BROADCAST then do {
            (n, g) \<leftarrow> neighbor_by_short (addr_short (src_addr mhr)) g;
            (case n of
               None \<Rightarrow> Some g
             | Some n \<Rightarrow> do {
                 e \<leftarrow> arr_get (brrt g) k;
                 v \<leftarrow> ZB_SET_BIT_IN_BIT_VECTOR (br_passive_ack e) n;
                 a \<leftarrow> arr_set (brrt g) k (e\<lparr>br_passive_ack := v\<rparr>);
                 let g = g\<lparr>brrt := a\<rparr>;
                 let d = int (ZB_NWK_GET_PASSIVE_ACK_DEV_NUM (neighbor (snwk g)));
                 let c = int (ZB_CALC_NONE_ZERO_BITS_IN_BIT_VECTOR v);
                 if c = d \<and> br_src_addr e = network_address g \<or> c = d - 1 \<and> br_src_addr e \<noteq> network_address g then do {
                   (_, g) \<leftarrow> zb_schedule_callback (cb_call_br_confirm cbs) (br_buf e) g;
                   put_brrt k g }
                 else Some g }) }
          else Some g)"

text \<open>A broadcast is taken when it is wanted, has not been handled lately and can be recorded.\<close>

definition broadcast_taken ::
  "'cb data_cbs \<Rightarrow> zb_mac_mhr \<Rightarrow> zb_nwk_hdr \<Rightarrow> ('cb, 'w) data_g_scheme \<Rightarrow> (bool \<times> ('cb, 'w) data_g_scheme) option" where
  "broadcast_taken cbs mhr nh g =
     (if \<not> broadcast_wanted (nh_dst_addr nh) g then Some (False, g)
      else do {
        g \<leftarrow> (if \<not> joined_pro g then note_passive_ack cbs mhr (nh_src_addr nh) (nh_seq_num nh) g else Some g);
        if btt_find (nh_src_addr nh) (nh_seq_num nh) g \<noteq> None then Some (False, g)
        else btt_add cbs (nh_src_addr nh) (nh_seq_num nh) g })"

text \<open>Whether a frame is for this device and whether it is to be passed on.\<close>

definition frame_decision ::
  "u8 \<Rightarrow> u8 \<Rightarrow> u16 \<Rightarrow> u8 \<Rightarrow> ('cb, 'w) data_g_scheme \<Rightarrow> bool \<times> bool" where
  "frame_decision frame_type command_id dst radius g =
     (if mesh_device_type g = ZB_NWK_DEVICE_TYPE_COORDINATOR \<or> mesh_device_type g = ZB_NWK_DEVICE_TYPE_ROUTER then
        if ZB_NWK_IS_ADDRESS_BROADCAST dst then
          (True, radius \<noteq> 0 \<and> (frame_type = ZB_NWK_FRAME_TYPE_DATA
             \<or> (frame_type = ZB_NWK_FRAME_TYPE_COMMAND
                \<and> (command_id = ZB_NWK_CMD_NETWORK_REPORT \<or> command_id = ZB_NWK_CMD_NETWORK_STATUS
                   \<or> command_id = ZB_NWK_CMD_NETWORK_UPDATE))))
        else if dst = network_address g then (True, False)
        else (False, radius \<noteq> 0)
      else (dst = network_address g \<or> ZB_NWK_IS_ADDRESS_BROADCAST dst, False))"

definition update_lqi :: "u16 \<Rightarrow> ('cb, 'w) data_g_scheme \<Rightarrow> ('cb, 'w) data_g_scheme option" where
  "update_lqi src g = do {
     (n, g) \<leftarrow> neighbor_by_short src g;
     (case n of
        None \<Rightarrow> Some g
      | Some k \<Rightarrow> do {
          e \<leftarrow> arr_get (base_neighbor (neighbor (snwk g))) k;
          w \<leftarrow> set_neighbor k (e\<lparr>lqi := (if 255 < unat src * 10 then 255 else of_nat (unat src * 10))\<rparr>) (snwk g);
          Some (g\<lparr>snwk := w\<rparr>) }) }"

definition frame_dispatch :: "'cb data_cbs \<Rightarrow> nat \<Rightarrow> bool \<times> bool \<Rightarrow> ('cb, 'w) data_g_scheme \<Rightarrow> ('cb, 'w) data_g_scheme option" where
  "frame_dispatch cbs i dec g =
     (case dec of
        (True, True) \<Rightarrow>
          (case NWK_ARRAY_GET_ENT wa_used set_wa_used (wait_alloc g, wait_alloc_cnt g) of
             (None, _, _) \<Rightarrow> do { (_, g) \<leftarrow> zb_schedule_callback (cb_frame_indication cbs) (of_nat i) g; Some g }
           | (Some k, a, n) \<Rightarrow> do {
               e \<leftarrow> arr_get a k;
               a \<leftarrow> arr_set a k (e\<lparr>wa_buf := of_nat i, wa_wait := 0\<rparr>);
               (_, g) \<leftarrow> zb_get_in_buf_delayed (cb_new_buffer_allocated cbs) (g\<lparr>wait_alloc := a, wait_alloc_cnt := n\<rparr>);
               Some g })
      | (False, True) \<Rightarrow> do {
          b \<leftarrow> arr_get (pool (bpool g)) i;
          forward_buf (cb_mesh cbs) i b ZB_NWK_INTERNAL_NSDU_HANDLE g }
      | (True, False) \<Rightarrow> do { (_, g) \<leftarrow> zb_schedule_callback (cb_frame_indication cbs) (of_nat i) g; Some g }
      | (False, False) \<Rightarrow> zb_free_buf i g)"

text \<open>
  What follows the broadcast test: \<open>p\<close> is the place of the header, \<open>fc\<close> its frame control. Unsecuring can
  move the frame. The byte of a command is read of every broadcast.
\<close>

definition frame_accepted ::
  "'cb data_cbs \<Rightarrow> u8 list \<Rightarrow> nat \<Rightarrow> zb_mac_mhr \<Rightarrow> u8 \<Rightarrow> u8 list \<Rightarrow> zb_nwk_hdr \<Rightarrow> ('cb, 'w) data_g_scheme
     \<Rightarrow> ('cb, 'w) data_g_scheme option" where
  "frame_accepted cbs rnd i mhr n fc nh g = do {
     (ok, g) \<leftarrow> (if ZB_NWK_FRAMECTL_GET_SECURITY fc \<noteq> 0 then do {
                  (ret, g) \<leftarrow> zb_nwk_unsecure_frame (cb_status_indication (cb_mesh cbs)) rnd i mhr n g;
                  Some (ret = RET_OK, g) }
                else Some (True, g));
     if \<not> ok then Some g
     else do {
       b \<leftarrow> arr_get (pool (bpool g)) i;
       let b = (if ZB_NWK_FRAMECTL_GET_SECURITY fc \<noteq> 0 then b\<lparr>hdr := (hdr b)\<lparr>encrypt_type := ZB_SECUR_NWK_ENCR\<rparr>\<rparr> else b);
       let p = ZB_BUF_BEGIN b;
       r \<leftarrow> arr_get (data_buf b) (p + 6);
       d \<leftarrow> arr_set (data_buf b) (p + 6) (r - 1);
       g \<leftarrow> put_buf i (b\<lparr>data_buf := d\<rparr>) g;
       command_id \<leftarrow> (if ZB_NWK_IS_ADDRESS_BROADCAST (nh_dst_addr nh) then arr_get d (p + zb_nwk_hdr_size fc) else Some 0);
       let dec = frame_decision (ZB_NWK_FRAMECTL_GET_FRAME_TYPE fc) command_id (nh_dst_addr nh) (r - 1) g;
       g \<leftarrow> update_lqi (nh_src_addr nh) g;
       frame_dispatch cbs i dec g } }"

definition zb_mcps_data_indication ::
  "'cb data_cbs \<Rightarrow> u8 list \<Rightarrow> nat \<Rightarrow> ('cb, 'w) data_g_scheme \<Rightarrow> ('cb, 'w) data_g_scheme option" where
  "zb_mcps_data_indication cbs rnd i g = do {
     b \<leftarrow> arr_get (pool (bpool g)) i;
     (mhr, n) \<leftarrow> zb_parse_mhr (data_buf b) (ZB_BUF_BEGIN b);
     (b, p) \<leftarrow> ZB_MAC_CUT_HDR b n;
     g \<leftarrow> put_buf i b g;
     fc \<leftarrow> buf_read (data_buf b) p 2;
     nh \<leftarrow> nwk_hdr_at (data_buf b) p;
     if nh_radius nh = 0 \<or> ZB_NWK_FRAMECTL_GET_FRAME_TYPE fc \<noteq> ZB_NWK_FRAME_TYPE_COMMAND
          \<and> ZB_NWK_FRAMECTL_GET_FRAME_TYPE fc \<noteq> ZB_NWK_FRAME_TYPE_DATA then zb_free_buf i g
     else do {
       (taken, g) \<leftarrow> (if ZB_NWK_IS_ADDRESS_BROADCAST (nh_dst_addr nh) then broadcast_taken cbs mhr nh g else Some (True, g));
       if taken then frame_accepted cbs rnd i mhr n fc nh g else zb_free_buf i g } }"

section \<open>Leaving\<close>

definition zb_nwk_forget_device :: "nat \<Rightarrow> zb_nwk \<Rightarrow> zb_nwk option" where
  "zb_nwk_forget_device ref w = do {
     (_, nb) \<leftarrow> zb_nwk_neighbor_delete ref (neighbor w);
     z \<leftarrow> zb_address_delete ref (addr_tbl w);
     Some (w\<lparr>neighbor := nb, addr_tbl := z\<rparr>) }"

text \<open>
  The counters are cleared, the entries of the tables are left as they are. The parameters of the request to join
  again are the extended PAN identifier, the channels, the capabilities, the method, the duration of
  the scan and whether the request is secured, at the end of the buffer.
\<close>

definition zb_nwk_do_leave :: "'cb data_cbs \<Rightarrow> nat \<Rightarrow> bool \<Rightarrow> ('cb, 'w) data_g_scheme \<Rightarrow> ('cb, 'w) data_g_scheme option" where
  "zb_nwk_do_leave cbs i rejoin g = do {
     let g = g\<lparr>leave_after_mgmt := False, zdo_started := False, nwk_joined := False, router_started := False,
               pending_list_size := 0, btt_cnt := 0, snwk := (snwk g)\<lparr>nwk_parent := 0xffffffff\<rparr>, brrt_cnt := 0,
               rejoin_req_table_cnt := 0\<rparr>;
     b \<leftarrow> arr_get (pool (bpool g)) i;
     let b = zb_buf_reuse b;
     g \<leftarrow> put_buf i b g;
     if rejoin then do {
       t \<leftarrow> zb_get_buf_tail b 16;
       let cap = (if mesh_device_type g = ZB_NWK_DEVICE_TYPE_ROUTER then 0x0e else 0)
                 OR (if mac_rx_on_when_idle g then 8 else 0) OR 0x80;
       d \<leftarrow> arr_copy (data_buf b) t
              (take 8 (extended_pan_id (snwk g)) @ ZB_HTOLE32 (aps_channel_mask g)
               @ [cap, ZB_NLME_REJOIN_METHOD_REJOIN, ZB_DEFAULT_SCAN_DURATION, 0]);
       g \<leftarrow> put_buf i (b\<lparr>data_buf := d\<rparr>) (g\<lparr>zdo_rejoin := True\<rparr>);
       (_, g) \<leftarrow> zb_schedule_callback (cb_nlme_join_request cbs) (of_nat i) g;
       Some g }
     else do {
       (ret, ref, z) \<leftarrow> zb_address_by_short (network_address g) False False (addr_tbl (snwk g));
       w \<leftarrow> (if ret = RET_OK then do { ref \<leftarrow> ref; zb_nwk_forget_device ref ((snwk g)\<lparr>addr_tbl := z\<rparr>) }
            else Some ((snwk g)\<lparr>addr_tbl := z\<rparr>));
       zb_free_buf i (g\<lparr>snwk := w\<lparr>extended_pan_id := replicate 8 0, mac_short_address := - 1\<rparr>, nib_pan_id := - 1\<rparr>) } }"


end
