(* ===== verification/Zb_Random.thy ===== *)
theory Zb_Random
  imports Nwk_Secur_Lemmas
begin

text \<open>
  The random numbers of the stack, \<^verbatim>\<open>common/zb_random.c\<close>, and what they make of the network keys. Every call
  starts again from the address of a global variable, which is the parameter \<open>base\<close>.
\<close>

definition zb_random :: "u32 \<Rightarrow> u16" where
  "zb_random base = ucast ((1103515245 * base + 12345) AND 0xffff)"

text \<open>The bytes \<^verbatim>\<open>secur_generate_key\<close> writes.\<close>

definition secur_key_bytes :: "u32 \<Rightarrow> u8 list" where
  "secur_key_bytes base = map (\<lambda>_. ucast (drop_bit 4 (zb_random base) AND 0xff)) [0..<ZB_CCM_KEY_SIZE]"

lemma secur_key_bytes_eq: "secur_key_bytes base = replicate 16 (ucast (drop_bit 4 (zb_random base)))"
proof -
  have "(ucast (drop_bit 4 (zb_random base) AND 0xff) :: u8) = ucast (drop_bit 4 (zb_random base))"
  proof -
    have m: "(0xff :: u16) = mask 8" by (simp add: mask_eq_exp_minus_1)
    show ?thesis unfolding m by (rule bit_word_eqI) (auto simp: bit_simps)
  qed
  then show ?thesis by (simp add: secur_key_bytes_def map_replicate_trivial zb_config)
qed

lemma arr_set_len: "arr_set xs i v = Some ys \<Longrightarrow> length ys = length xs"
  by (auto simp: arr_set_def split: if_split_asm)

lemma generate_keys_sets:
  assumes "secur_generate_keys r0 r1 r2 g = Some g'"
  shows "\<exists>s. secur_material_set g' = [\<lparr>ms_key = take 16 r0, ms_key_seq_number = 0\<rparr>,
    \<lparr>ms_key = take 16 r1, ms_key_seq_number = 1\<rparr>, \<lparr>ms_key = take 16 r2, ms_key_seq_number = 2\<rparr>] @ s"
proof -
  obtain a b c s where s: "secur_material_set g = a # b # c # s"
    using assms by (cases "secur_material_set g"; cases "tl (secur_material_set g)"; cases "tl (tl (secur_material_set g))")
      (auto simp: secur_generate_keys_def secur_generate_key_def arr_set_def bind_eq_Some_conv split: if_split_asm)
  with assms show ?thesis
    by (auto simp: secur_generate_keys_def secur_generate_key_def arr_set_def zb_config)
qed

text \<open>
  C26. The network keys a trust center generates are no secrets: all three have the same 16 bytes, each of them the
  same byte, the key a later switch generates is that one again, and there are at most 256 keys the
  code can generate at all.
\<close>

theorem generated_keys_are_one_byte:
  assumes "secur_generate_keys (secur_key_bytes base) (secur_key_bytes base) (secur_key_bytes base) g = Some g'"
  shows "(\<forall>i < 3. ms_key (secur_material_set g' ! i) = replicate 16 (ucast (drop_bit 4 (zb_random base))))
    \<and> (\<forall>i sn g2. secur_generate_key (secur_key_bytes base) i sn g' = Some g2 \<longrightarrow>
         ms_key (secur_material_set g2 ! i) = ms_key (secur_material_set g' ! 0))
    \<and> card (range secur_key_bytes) \<le> 256"
proof -
  have k: "take 16 (secur_key_bytes base) = replicate 16 (ucast (drop_bit 4 (zb_random base)))"
    by (simp add: secur_key_bytes_eq)
  from generate_keys_sets [OF assms] obtain s where
    s: "secur_material_set g' = map (\<lambda>n. \<lparr>ms_key = take 16 (secur_key_bytes base), ms_key_seq_number = n\<rparr>) [0, 1, 2] @ s"
    by auto
  have "ms_key (secur_material_set g' ! i) = take 16 (secur_key_bytes base)" if "i < 3" for i
  proof -
    from that have "i = 0 \<or> i = 1 \<or> i = 2" by linarith
    then show ?thesis by (auto simp: s)
  qed
  moreover have "ms_key (secur_material_set g2 ! i) = take 16 (secur_key_bytes base)"
    if "secur_generate_key (secur_key_bytes base) i sn g' = Some g2" for i sn g2
    using that by (auto simp: secur_generate_key_def arr_set_def bind_eq_Some_conv zb_config split: if_split_asm)
  moreover have "card (range secur_key_bytes) \<le> 256"
  proof -
    have "range secur_key_bytes \<subseteq> range (replicate 16 :: u8 \<Rightarrow> u8 list)" by (auto simp: secur_key_bytes_eq)
    then have "card (range secur_key_bytes) \<le> card (range (replicate 16 :: u8 \<Rightarrow> u8 list))" by (intro card_mono) simp_all
    also have "\<dots> \<le> card (UNIV :: u8 set)" by (rule card_image_le) simp
    finally show ?thesis by (simp add: card_word)
  qed
  ultimately show ?thesis using k by simp
qed

theorem generated_keys_are_one_byte_witness:
  "\<exists>g'. secur_generate_keys (secur_key_bytes 0x1000) (secur_key_bytes 0x1000) (secur_key_bytes 0x1000) sec_default = Some g'
    \<and> (\<forall>i < 3. ms_key (secur_material_set g' ! i) = replicate 16 3)"
proof -
  have l: "length (secur_material_set sec_default) = 3" "active_secur_material_i sec_default = 0" "active_key_seq_number sec_default = 0"
    by (simp_all add: sec_default_def)
  obtain g' where g': "secur_generate_keys (secur_key_bytes 0x1000) (secur_key_bytes 0x1000) (secur_key_bytes 0x1000) sec_default
      = Some g'"
    using generated_keys [OF l] by blast
  have "(ucast (drop_bit 4 (zb_random 0x1000)) :: u8) = 3" by (simp add: zb_random_def)
  with generated_keys_are_one_byte [OF g'] g' show ?thesis by auto
qed

end
