(* ===== verification/Nwk_Panid.thy ===== *)
theory Nwk_Panid
  imports Nwk_Data Zb_Random
begin

text \<open>
  The resolution of a conflict of PAN identifiers, \<^verbatim>\<open>nwk/nwk_panid_conflict.c\<close>: the identifiers that are in use are
  remembered and reported to the manager of the network, which chooses a new one and
  announces it; after a delay every device restarts its MAC with it.
\<close>

section \<open>State\<close>

definition ZB_NWK_COMMAND_STATUS_PAN_IDENTIFIER_UPDATE :: u8 where "ZB_NWK_COMMAND_STATUS_PAN_IDENTIFIER_UPDATE = 0x0f"
definition ZB_TURN_OFF_ORDER :: u8 where "ZB_TURN_OFF_ORDER = 15"

record 'cb panid_g = "'cb data_g" +
  known_panids :: "u16 list"
  new_panid :: u16
  panid_conflict :: bool
  nwk_manager_addr :: u16
  current_channel :: u8

record 'cb panid_cbs =
  cb_data :: "'cb data_cbs"
  cb_send_network_report :: 'cb
  cb_send_nwk_update :: 'cb
  cb_send_status_ind :: 'cb
  cb_set_panid_alarm :: 'cb
  cb_set_panid :: 'cb
  cb_mlme_start_request :: 'cb

record zb_nwk_update_cmd =
  upd_command_options :: u8
  upd_epid :: "u8 list"
  upd_update_id :: u8
  upd_new_panid :: u16

section \<open>Known identifiers\<close>

fun remember_loop :: "u16 \<Rightarrow> u16 list \<Rightarrow> u16 list" where
  "remember_loop panid [] = []"
| "remember_loop panid (k # ks) =
     (if k = panid then k # ks else if k = 0 then panid # ks else k # remember_loop panid ks)"

definition zb_panid_conflict_remember_panid :: "u16 \<Rightarrow> ('cb, 'w) panid_g_scheme \<Rightarrow> ('cb, 'w) panid_g_scheme" where
  "zb_panid_conflict_remember_panid panid g = g\<lparr>known_panids := remember_loop panid (known_panids g)\<rparr>"

definition known_count :: "u16 list \<Rightarrow> nat" where "known_count known = length (takeWhile (\<lambda>k. k \<noteq> 0) known)"

section \<open>A new identifier\<close>

text \<open>The loop ends when the number is not 0 or is a known one.\<close>

partial_function (option) choose_panid :: "u32 \<Rightarrow> u16 list \<Rightarrow> u16 option" where
  "choose_panid base known =
     (let p = zb_random base; i = length (takeWhile (\<lambda>k. p \<noteq> k) known)
      in if p = 0 \<and> i = length known then choose_panid base known else Some p)"

definition zb_panid_conflict_network_update ::
  "'cb panid_cbs \<Rightarrow> u32 \<Rightarrow> nat \<Rightarrow> ('cb, 'w) panid_g_scheme \<Rightarrow> ('cb, 'w) panid_g_scheme option" where
  "zb_panid_conflict_network_update cbs base i g = do {
     p \<leftarrow> choose_panid base (known_panids g);
     let g = g\<lparr>new_panid := p, snwk := zb_nwk_update_beacon_payload (snwk g)\<rparr>;
     (_, g) \<leftarrow> zb_schedule_callback (cb_send_nwk_update cbs) (of_nat i) g;
     (_, g) \<leftarrow> zb_schedule_alarm (cb_set_panid_alarm cbs) 0 (ucast ZB_NWK_BROADCAST_DELIVERY_TIME) g;
     Some g }"

text \<open>The report of another device: \<open>n\<close> identifiers at the place \<open>q\<close> of the packet.\<close>

definition zb_panid_conflict_got_network_report ::
  "'cb panid_cbs \<Rightarrow> u32 \<Rightarrow> nat \<Rightarrow> nat \<Rightarrow> u8 \<Rightarrow> ('cb, 'w) panid_g_scheme \<Rightarrow> ('cb, 'w) panid_g_scheme option" where
  "zb_panid_conflict_got_network_report cbs base i q n_panids g =
     (if nlme_state g = ZB_NLME_STATE_PANID_CONFLICT_RESOLUTION \<or> panid_conflict g then zb_free_buf i g
      else do {
        b \<leftarrow> arr_get (pool (bpool g)) i;
        let n = min (unat n_panids) ZB_PANID_TABLE_SIZE;
        bs \<leftarrow> buf_read (data_buf b) q (2 * n);
        let ks = map (\<lambda>k. ZB_LETOH16 (take 2 (drop (2 * k) bs))) [0..<n];
        zb_panid_conflict_network_update cbs base i
          (g\<lparr>known_panids := ks @ replicate (ZB_PANID_TABLE_SIZE - n) 0, nlme_state := ZB_NLME_STATE_IDLE\<rparr>) })"

section \<open>Commands\<close>

text \<open>
  The header of a command with the place of its parameters. The address of the sender is always written to the
  second place for a long address, also when the header has only one.
\<close>

definition zb_nwk_fill_out_command ::
  "zb_buf_t \<Rightarrow> u16 \<Rightarrow> u8 \<Rightarrow> u8 \<Rightarrow> ('cb, 'w) panid_g_scheme \<Rightarrow> (zb_buf_t \<times> nat \<times> ('cb, 'w) panid_g_scheme) option" where
  "zb_nwk_fill_out_command b dest command_id sz g = do {
     (ret, ieee, z) \<leftarrow> zb_address_ieee_by_short dest (addr_tbl (snwk g));
     let g = g\<lparr>snwk := (snwk g)\<lparr>addr_tbl := z\<rparr>\<rparr>;
     let have_long_dst = (ret = RET_OK);
     let secure = secure_all_frames g \<and> security_level (snwk g) \<noteq> 0;
     let hdr_size = (if have_long_dst then 24 else 16) + (if secure then sizeof_aux_hdr else 0);
     (b, p) \<leftarrow> zb_buf_initial_alloc b (of_nat hdr_size + sz + 1);
     d \<leftarrow> arr_copy (data_buf b) p
            ([ZB_NWK_FRAME_TYPE_COMMAND OR push_bit 2 (ucast ZB_PROTOCOL_VERSION) OR push_bit 6 1,
              push_bit 3 (if have_long_dst then 1 else 0) OR push_bit 4 1 OR push_bit 1 (if secure then 1 else 0)]
             @ ZB_HTOLE16 dest @ ZB_HTOLE16 (network_address g) @ [push_bit 1 (max_depth (snwk g)), nib_sequence_number g]);
     d \<leftarrow> arr_copy d (p + 16) (take 8 (mac_extended_address g));
     d \<leftarrow> (case ieee of Some a \<Rightarrow> arr_copy d (p + 8) (take 8 a) | None \<Rightarrow> Some d);
     d \<leftarrow> arr_set d (p + hdr_size) command_id;
     let b = b\<lparr>data_buf := d\<rparr>;
     Some (if secure then b\<lparr>hdr := (hdr b)\<lparr>encrypt_type := ZB_SECUR_NWK_ENCR\<rparr>\<rparr> else b,
           p + hdr_size + 1, g\<lparr>nib_sequence_number := nib_sequence_number g + 1\<rparr>) }"

definition zb_panid_conflict_send_network_report ::
  "'cb panid_cbs \<Rightarrow> nat \<Rightarrow> ('cb, 'w) panid_g_scheme \<Rightarrow> ('cb, 'w) panid_g_scheme option" where
  "zb_panid_conflict_send_network_report cbs i g =
     (if panid_conflict g \<and> new_panid g \<noteq> 0 then zb_free_buf i g
      else do {
        b \<leftarrow> arr_get (pool (bpool g)) i;
        let n = known_count (known_panids g);
        (b, c, g) \<leftarrow> zb_nwk_fill_out_command b (nwk_manager_addr g) ZB_NWK_CMD_NETWORK_REPORT (11 + (of_nat n - 1) * 2) g;
        d \<leftarrow> arr_copy (data_buf b) c
               (of_nat n # take 8 (extended_pan_id (snwk g)) @ concat (map ZB_HTOLE16 (take n (known_panids g))));
        forward_buf (cb_mesh (cb_data cbs)) i (b\<lparr>data_buf := d\<rparr>) ZB_NWK_INTERNAL_NSDU_HANDLE g })"

definition zb_panid_conflict_schedule_network_report ::
  "'cb panid_cbs \<Rightarrow> nat \<Rightarrow> u16 \<Rightarrow> ('cb, 'w) panid_g_scheme \<Rightarrow> ('cb, 'w) panid_g_scheme option" where
  "zb_panid_conflict_schedule_network_report cbs i panid g =
     (if panid_conflict g \<and> new_panid g \<noteq> 0 \<and> new_panid g \<noteq> panid then zb_free_buf i g
      else do {
        let g = (if \<not> panid_conflict g then g\<lparr>known_panids := replicate ZB_PANID_TABLE_SIZE 0\<rparr> else g);
        let g = zb_panid_conflict_remember_panid panid g;
        if \<not> panid_conflict g then do {
          (_, g) \<leftarrow> zb_schedule_alarm (cb_send_network_report cbs) (of_nat i) (ucast ZB_DEFAULT_SCAN_DURATION) g;
          Some (g\<lparr>panid_conflict := True, new_panid := 0\<rparr>) }
        else zb_free_buf i g })"

definition zb_panid_conflict_send_nwk_update ::
  "'cb panid_cbs \<Rightarrow> nat \<Rightarrow> ('cb, 'w) panid_g_scheme \<Rightarrow> ('cb, 'w) panid_g_scheme option" where
  "zb_panid_conflict_send_nwk_update cbs i g = do {
     b \<leftarrow> arr_get (pool (bpool g)) i;
     (b, c, g) \<leftarrow> zb_nwk_fill_out_command b ZB_NWK_BROADCAST_ALL_DEVICES ZB_NWK_CMD_NETWORK_UPDATE 12 g;
     d \<leftarrow> arr_copy (data_buf b) c
            (1 # take 8 (extended_pan_id (snwk g)) @ [update_id (snwk g)] @ ZB_HTOLE16 (new_panid g));
     g \<leftarrow> forward_buf (cb_mesh (cb_data cbs)) i (b\<lparr>data_buf := d\<rparr>) ZB_NWK_INTERNAL_NSDU_HANDLE g;
     (_, g) \<leftarrow> zb_get_out_buf_delayed (cb_send_status_ind cbs) g;
     Some g }"

section \<open>Changing the identifier\<close>

definition zb_panid_conflict_send_status_ind ::
  "'cb panid_cbs \<Rightarrow> nat \<Rightarrow> ('cb, 'w) panid_g_scheme \<Rightarrow> ('cb, 'w) panid_g_scheme option" where
  "zb_panid_conflict_send_status_ind cbs i g = do {
     g \<leftarrow> status_indication (cb_data cbs) i ZB_NWK_COMMAND_STATUS_PAN_IDENTIFIER_UPDATE (new_panid g) g;
     Some (g\<lparr>panid_conflict := False\<rparr>) }"

definition zb_panid_conflict_network_update_recv ::
  "'cb panid_cbs \<Rightarrow> zb_nwk_update_cmd \<Rightarrow> ('cb, 'w) panid_g_scheme \<Rightarrow> ('cb, 'w) panid_g_scheme option" where
  "zb_panid_conflict_network_update_recv cbs upd g = do {
     let w = (snwk g)\<lparr>update_id := upd_update_id upd\<rparr>;
     let w = zb_nwk_update_beacon_payload (w\<lparr>update_id := update_id w - 1\<rparr>);
     let g = g\<lparr>snwk := w, new_panid := upd_new_panid upd\<rparr>;
     (_, g) \<leftarrow> zb_schedule_alarm (cb_set_panid_alarm cbs) 0 (ucast ZB_NWK_BROADCAST_DELIVERY_TIME) g;
     (_, g) \<leftarrow> zb_get_out_buf_delayed (cb_send_status_ind cbs) g;
     Some g }"

definition zb_panid_conflict_set_panid_alarm :: "'cb panid_cbs \<Rightarrow> ('cb, 'w) panid_g_scheme \<Rightarrow> ('cb, 'w) panid_g_scheme option" where
  "zb_panid_conflict_set_panid_alarm cbs g = do { (_, g) \<leftarrow> zb_get_out_buf_delayed (cb_set_panid cbs) g; Some g }"

text \<open>
  The request to start the MAC anew is the last seven bytes of the buffer: the identifier, the channel, its
  page, the two orders and whether the device is the coordinator.
\<close>

definition zb_panid_conflict_set_panid ::
  "'cb panid_cbs \<Rightarrow> nat \<Rightarrow> ('cb, 'w) panid_g_scheme \<Rightarrow> ('cb, 'w) panid_g_scheme option" where
  "zb_panid_conflict_set_panid cbs i g = do {
     b \<leftarrow> arr_get (pool (bpool g)) i;
     t \<leftarrow> zb_get_buf_tail b 7;
     d \<leftarrow> arr_copy (data_buf b) t
            (ZB_HTOLE16 (new_panid g) @ [current_channel g, 0, ZB_TURN_OFF_ORDER, ZB_TURN_OFF_ORDER,
               if mesh_device_type g = ZB_NWK_DEVICE_TYPE_COORDINATOR then 1 else 0]);
     g \<leftarrow> put_buf i (b\<lparr>data_buf := d\<rparr>) (g\<lparr>panid_conflict := False, nlme_state := ZB_NLME_STATE_PANID_CONFLICT_RESOLUTION\<rparr>);
     (_, g) \<leftarrow> zb_schedule_callback (cb_mlme_start_request cbs) (of_nat i) g;
     Some g }"

end
