(* ===== verification/Nwk_Join.thy ===== *)
theory Nwk_Join
  imports Nwk_Panid
begin

text \<open>
  Joining a network, \<^verbatim>\<open>nwk/nwk_join.c\<close>, and the answer of a router to devices that join or join again,
  \<^verbatim>\<open>nwk/nwk_cr_join.c\<close>. The device chooses a parent among the neighbors it has heard, associates with it
  through the MAC or sends it a rejoin command, and on success takes up its place in the tree. The state is
  \<^verbatim>\<open>saved_req.join\<close>, \<^verbatim>\<open>tmp.join\<close>, \<^verbatim>\<open>tmp.rejoin\<close> and \<^verbatim>\<open>rejoin_req_table\<close> of \<^verbatim>\<open>ZG->nwk.handle\<close>; the members of the two
  unions are fields of their own, so each is read only as what it was last written.

  A pointer to an extended neighbor is its index. After \<^verbatim>\<open>zb_nwk_exneighbor_stop\<close> it points to memory the base table
  has got back; what the code still reads there is the argument \<open>stale_ch\<close>. The build is that of the
  simulator, where every link is good enough to join, with \<^verbatim>\<open>ZB_PRO_COMPATIBLE\<close> as in \<^verbatim>\<open>zb_config.h\<close>.
\<close>

section \<open>State\<close>

definition ZB_NWK_STATUS_NOT_PERMITTED :: u8 where "ZB_NWK_STATUS_NOT_PERMITTED = 0xc3"
definition ZB_NWK_STATUS_NO_NETWORKS :: u8 where "ZB_NWK_STATUS_NO_NETWORKS = 0xca"
definition ZB_NLME_REJOIN_METHOD_ASSOCIATION :: u8 where "ZB_NLME_REJOIN_METHOD_ASSOCIATION = 0"
definition ZB_NLME_REJOIN_METHOD_DIRECT :: u8 where "ZB_NLME_REJOIN_METHOD_DIRECT = 1"
definition ZB_NWK_INTERNAL_REJOIN_CMD_HANDLE :: u8 where "ZB_NWK_INTERNAL_REJOIN_CMD_HANDLE = 0xfe"
definition ZB_NWK_INTERNAL_REJOIN_CMD_RESPONSE :: u8 where "ZB_NWK_INTERNAL_REJOIN_CMD_RESPONSE = 0xfd"
definition ZB_NWK_CMD_REJOIN_REQUEST :: u8 where "ZB_NWK_CMD_REJOIN_REQUEST = 6"
definition ZB_NWK_CMD_REJOIN_RESPONSE :: u8 where "ZB_NWK_CMD_REJOIN_RESPONSE = 7"
definition ZB_NWK_REJOIN_REQUEST_TABLE_SIZE :: nat where [zb_config]: "ZB_NWK_REJOIN_REQUEST_TABLE_SIZE = 3"
definition ZB_MAC_EXTRA_DATA_SIZE :: nat where "ZB_MAC_EXTRA_DATA_SIZE = 9"
definition ZB_TAIL_SIZE_FOR_SENDER_MAC_FRAME :: u8 where "ZB_TAIL_SIZE_FOR_SENDER_MAC_FRAME = 2"
definition ACTIVE_SCAN :: u8 where "ACTIVE_SCAN = 1"
definition ORPHAN_SCAN :: u8 where "ORPHAN_SCAN = 3"

datatype mac_dev = MAC_DEV_UNDEFINED | MAC_DEV_FFD | MAC_DEV_RFD

record zb_nlme_join_request =
  jr_extended_pan_id :: "u8 list"
  jr_scan_channels :: u32
  jr_capability :: u8
  jr_rejoin_network :: u8
  jr_scan_duration :: u8
  jr_security_enabled :: u8

record 'cb join_g = "'cb panid_g" +
  saved_join :: zb_nlme_join_request
  join_parent :: "nat option"
  rejoin_extended_pan_id :: "u8 list"
  rejoin_capability :: u8
  rejoin_parent :: "nat option"
  rejoin_req_table :: "u16 list"
  mac_dev_type :: mac_dev

record 'cb join_cbs =
  cb_panid :: "'cb panid_cbs"
  cb_nlme_join_confirm :: 'cb
  cb_nlme_join_indication :: 'cb
  cb_mlme_associate_request :: 'cb
  cb_mlme_associate_response :: 'cb
  cb_mlme_scan_request :: 'cb
  cb_rejoin_scan_confirm :: 'cb
  cb_handle_poll_request :: 'cb
  cb_handle_orphan_response :: 'cb
  cb_rejoin_response_timeout :: 'cb

section \<open>Parameters at the end of a buffer\<close>

definition get_param :: "zb_buf_t \<Rightarrow> u8 \<Rightarrow> u8 list option" where
  "get_param b sz = do { t \<leftarrow> zb_get_buf_tail b sz; buf_read (data_buf b) t (unat sz) }"

text \<open>The bytes \<open>bs\<close> at the place \<open>off\<close> of parameters of \<open>sz\<close> bytes.\<close>

definition set_param :: "zb_buf_t \<Rightarrow> u8 \<Rightarrow> nat \<Rightarrow> u8 list \<Rightarrow> zb_buf_t option" where
  "set_param b sz off bs = do {
     t \<leftarrow> zb_get_buf_tail b sz; d \<leftarrow> arr_copy (data_buf b) (t + off) bs; Some (b\<lparr>data_buf := d\<rparr>) }"

definition schedule_buf :: "'cb \<Rightarrow> nat \<Rightarrow> zb_buf_t \<Rightarrow> ('cb, 'w) bp_g_scheme \<Rightarrow> ('cb, 'w) bp_g_scheme option" where
  "schedule_buf f i b g = do {
     g \<leftarrow> put_buf i b g;
     (_, g) \<leftarrow> zb_schedule_callback f (of_nat i) g;
     Some g }"

definition join_request_at :: "u8 list \<Rightarrow> zb_nlme_join_request" where
  "join_request_at bs = \<lparr>jr_extended_pan_id = take 8 bs, jr_scan_channels = ZB_LETOH32 (take 4 (drop 8 bs)),
     jr_capability = bs ! 12, jr_rejoin_network = bs ! 13, jr_scan_duration = bs ! 14, jr_security_enabled = bs ! 15\<rparr>"

text \<open>The first byte of a scan request has the type and the duration and two bits that are left as they are.\<close>

definition ZB_MLME_BUILD_SCAN_REQUEST :: "zb_buf_t \<Rightarrow> u32 \<Rightarrow> u8 \<Rightarrow> u8 \<Rightarrow> zb_buf_t option" where
  "ZB_MLME_BUILD_SCAN_REQUEST b channels scan_type duration = do {
     ps \<leftarrow> get_param b 8;
     b \<leftarrow> set_param b 8 4 (ZB_HTOLE32 channels);
     set_param b 8 0 [(ps ! 0 AND 0xc0) OR (scan_type AND 3) OR push_bit 2 (duration AND 15)] }"

definition ZB_MLME_BUILD_ASSOCIATE_REQUEST :: "zb_buf_t \<Rightarrow> u8 \<Rightarrow> u16 \<Rightarrow> u8 \<Rightarrow> u8 list \<Rightarrow> u8 \<Rightarrow> zb_buf_t option" where
  "ZB_MLME_BUILD_ASSOCIATE_REQUEST b channel pan mode addr cap = do {
     b \<leftarrow> set_param b 14 0 (ZB_HTOLE16 pan @ addr);
     set_param b 14 10 [mode, channel, cap] }"

section \<open>The choice of a parent\<close>

text \<open>The difference of the two bytes is taken in integers, where it can be negative.\<close>

definition ZB_NWK_UPDATE_ID1_GE_ID2 :: "u8 \<Rightarrow> u8 \<Rightarrow> bool" where
  "ZB_NWK_UPDATE_ID1_GE_ID2 id1 id2 \<longleftrightarrow> uint id1 - uint id2 < 127"

definition ZB_LINK_QUALITY_1_IS_BETTER :: "u8 \<Rightarrow> u8 \<Rightarrow> bool" where "ZB_LINK_QUALITY_1_IS_BETTER lqi1 lqi2 \<longleftrightarrow> lqi2 < lqi1"

definition suitable_parent :: "nat \<Rightarrow> u8 \<Rightarrow> u8 \<Rightarrow> zb_ext_neighbor_tbl_ent \<Rightarrow> bool" where
  "suitable_parent panid_ref cap upd ne \<longleftrightarrow>
     unat (x_panid_ref ne) = panid_ref \<and> x_potential_parent ne \<and> x_permit_joining ne
     \<and> (if ZB_MAC_CAP_GET_DEVICE_TYPE cap \<and> x_stack_profile ne = 1 then x_router_capacity ne else x_end_device_capacity ne)
     \<and> ZB_NWK_UPDATE_ID1_GE_ID2 (x_update_id ne) upd"

fun choose_loop ::
  "(zb_ext_neighbor_tbl_ent \<Rightarrow> bool) \<Rightarrow> zb_ext_neighbor_tbl_ent list \<Rightarrow> nat \<Rightarrow> (nat \<times> zb_ext_neighbor_tbl_ent) option
     \<Rightarrow> (nat \<times> zb_ext_neighbor_tbl_ent) option" where
  "choose_loop P [] i best = best"
| "choose_loop P (ne # xs) i best =
     choose_loop P xs (i + 1)
       (if P ne then
          case best of
            Some (_, r) \<Rightarrow> if x_depth r \<le> x_depth ne \<or> ZB_LINK_QUALITY_1_IS_BETTER (x_lqi r) (x_lqi ne) then best else Some (i, ne)
          | None \<Rightarrow> Some (i, ne)
        else best)"

text \<open>The chosen entry is looked at also when there is none.\<close>

definition nwk_choose_parent :: "nat \<Rightarrow> u8 \<Rightarrow> ('cb, 'w) join_g_scheme \<Rightarrow> (nat \<times> ('cb, 'w) join_g_scheme) option" where
  "nwk_choose_parent panid_ref cap g = do {
     (i, r) \<leftarrow> choose_loop (suitable_parent panid_ref cap (update_id (snwk g))) (ext_neighbor (neighbor (snwk g))) 0 None;
     Some (i, if x_stack_profile r \<noteq> 1
              then g\<lparr>joined_pro := True, mesh_device_type := ZB_NWK_DEVICE_TYPE_ED, mac_dev_type := MAC_DEV_RFD\<rparr> else g) }"

definition upd_ext :: "nat \<Rightarrow> (zb_ext_neighbor_tbl_ent \<Rightarrow> zb_ext_neighbor_tbl_ent) \<Rightarrow> ('cb, 'w) sec_g_scheme \<Rightarrow> ('cb, 'w) sec_g_scheme option" where
  "upd_ext k f g = do {
     x \<leftarrow> arr_get (ext_neighbor (neighbor (snwk g))) k;
     xs \<leftarrow> arr_set (ext_neighbor (neighbor (snwk g))) k (f x);
     Some (g\<lparr>snwk := (snwk g)\<lparr>neighbor := (neighbor (snwk g))\<lparr>ext_neighbor := xs\<rparr>\<rparr>\<rparr>) }"

definition not_potential :: "zb_ext_neighbor_tbl_ent \<Rightarrow> zb_ext_neighbor_tbl_ent" where "not_potential x = x\<lparr>x_potential_parent := False\<rparr>"

section \<open>Association\<close>

text \<open>The result of joining for the higher layer; the channel, the last byte, is not written.\<close>

definition nwk_join_failure_confirm :: "'cb join_cbs \<Rightarrow> nat \<Rightarrow> u8 \<Rightarrow> ('cb, 'w) join_g_scheme \<Rightarrow> ('cb, 'w) join_g_scheme option" where
  "nwk_join_failure_confirm cbs i s g = do {
     b \<leftarrow> arr_get (pool (bpool g)) i;
     b \<leftarrow> set_param b 12 0
            (s # ZB_HTOLE16 (if s = MAC_SUCCESS then network_address g else 0xffff) @ take 8 (extended_pan_id (snwk g)));
     schedule_buf (cb_nlme_join_confirm cbs) i (b\<lparr>hdr := (hdr b)\<lparr>hdr_status := ucast s\<rparr>\<rparr>) g }"

definition nwk_association_join ::
  "'cb join_cbs \<Rightarrow> nat \<Rightarrow> zb_nlme_join_request \<Rightarrow> ('cb, 'w) join_g_scheme \<Rightarrow> (u8 \<times> ('cb, 'w) join_g_scheme) option" where
  "nwk_association_join cbs i req g =
     (if nwk_joined g then Some (ZB_NWK_STATUS_INVALID_REQUEST, g)
      else do {
        (ret, ref) \<leftarrow> zb_address_get_pan_id_ref (jr_extended_pan_id req) (addr_tbl (snwk g));
        if ret \<noteq> RET_OK then Some (ZB_NWK_STATUS_NOT_PERMITTED, g)
        else do {
          ref \<leftarrow> ref;
          (k, g) \<leftarrow> nwk_choose_parent ref (jr_capability req) g;
          panid \<leftarrow> zb_address_get_short_pan_id ref (addr_tbl (snwk g));
          x \<leftarrow> arr_get (ext_neighbor (neighbor (snwk g))) k;
          b \<leftarrow> arr_get (pool (bpool g)) i;
          b \<leftarrow> (if x_long_addr x \<noteq> ieee_zero then do {
                  long \<leftarrow> ZB_ADDRESS_DECOMPRESS (x_long_addr x) (addr_tbl (snwk g));
                  ZB_MLME_BUILD_ASSOCIATE_REQUEST b (ucast (x_logical_channel x)) panid ZB_ADDR_64BIT_DEV (take 8 long) (jr_capability req) }
                else ZB_MLME_BUILD_ASSOCIATE_REQUEST b (ucast (x_logical_channel x)) panid ZB_ADDR_16BIT_DEV_OR_BROADCAST
                       (ZB_HTOLE16 (x_short_addr x)) (jr_capability req));
          g \<leftarrow> schedule_buf (cb_mlme_associate_request cbs) i b
                 (g\<lparr>nib_pan_id := panid, saved_join := req, join_parent := Some k\<rparr>);
          Some (ZB_NWK_STATUS_SUCCESS, g) } })"

definition zb_nwk_set_device_type :: "2 word \<Rightarrow> ('cb, 'w) join_g_scheme \<Rightarrow> ('cb, 'w) join_g_scheme" where
  "zb_nwk_set_device_type t g =
     g\<lparr>mesh_device_type := t,
       mac_dev_type := (if t = ZB_NWK_DEVICE_TYPE_ROUTER \<or> t = ZB_NWK_DEVICE_TYPE_COORDINATOR then MAC_DEV_FFD
                        else if t = ZB_NWK_DEVICE_TYPE_NONE then MAC_DEV_UNDEFINED else MAC_DEV_RFD)\<rparr>"

definition ieee_is_zero :: "zb_ieee_addr \<Rightarrow> bool" where "ieee_is_zero a \<longleftrightarrow> take 8 a = replicate 8 0"

definition exneighbor_stop :: "(nat \<Rightarrow> zb_neighbor_tbl_ent) \<Rightarrow> ('cb, 'w) join_g_scheme \<Rightarrow> ('cb, 'w) join_g_scheme option" where
  "exneighbor_stop stale g = do {
     (nb, z) \<leftarrow> zb_nwk_exneighbor_stop stale (nwk_joined g) (extended_pan_id (snwk g)) (neighbor (snwk g)) (addr_tbl (snwk g));
     Some (g\<lparr>snwk := (snwk g)\<lparr>neighbor := nb, addr_tbl := z\<rparr>\<rparr>) }"

text \<open>The neighbor with a reference becomes the parent of the device, when there is one.\<close>

definition mark_parent :: "nat \<Rightarrow> ('cb, 'w) join_g_scheme \<Rightarrow> (bool \<times> ('cb, 'w) join_g_scheme) option" where
  "mark_parent ref g = do {
     (ret, n, nb, z) \<leftarrow> zb_nwk_neighbor_get (ucast (nib_depth (snwk g))) ref False (neighbor (snwk g)) (addr_tbl (snwk g));
     if ret = RET_OK then do {
       n \<leftarrow> n;
       e \<leftarrow> arr_get (base_neighbor nb) n;
       w \<leftarrow> set_neighbor n (e\<lparr>relationship := ZB_NWK_RELATIONSHIP_PARENT\<rparr>) ((snwk g)\<lparr>neighbor := nb, addr_tbl := z\<rparr>);
       Some (True, g\<lparr>snwk := w\<rparr>) }
     else Some (False, g) }"

text \<open>The parent after an association, by the address it was asked under; without an entry the code asserts.\<close>

definition associated_parent ::
  "u16 \<Rightarrow> zb_ieee_addr \<Rightarrow> zb_ieee_addr \<Rightarrow> ('cb, 'w) join_g_scheme \<Rightarrow> ('cb, 'w) join_g_scheme option" where
  "associated_parent short long parent g = do {
     (ret, ref, z) \<leftarrow> (if short = 0xffff then zb_address_by_ieee long False False (addr_tbl (snwk g))
                      else zb_address_by_short short False False (addr_tbl (snwk g)));
     ZB_ASSERT (ret = RET_OK);
     ref \<leftarrow> ref;
     (ref, z) \<leftarrow> (if \<not> ieee_is_zero long \<and> short \<noteq> 0xffff then do {
                   (_, r, z) \<leftarrow> zb_address_update parent short False z;
                   Some (case r of Some r \<Rightarrow> r | None \<Rightarrow> ref, z) }
                 else Some (ref, z));
     (ok, g) \<leftarrow> mark_parent ref (g\<lparr>snwk := (snwk g)\<lparr>addr_tbl := z\<rparr>\<rparr>);
     Some (if ok then g\<lparr>snwk := (snwk g)\<lparr>nwk_parent := ref\<rparr>\<rparr> else g) }"

definition associate_ok ::
  "'cb join_cbs \<Rightarrow> (nat \<Rightarrow> zb_neighbor_tbl_ent) \<Rightarrow> u8 \<Rightarrow> nat \<Rightarrow> u8 list \<Rightarrow> ('cb, 'w) join_g_scheme \<Rightarrow> ('cb, 'w) join_g_scheme option" where
  "associate_ok cbs stale stale_ch i ps g = do {
     let addr = ZB_LETOH16 (take 2 ps);
     let parent = drop 3 ps;
     let g = zb_nwk_set_device_type
               (if ZB_MAC_CAP_GET_DEVICE_TYPE (jr_capability (saved_join g)) then ZB_NWK_DEVICE_TYPE_ROUTER else ZB_NWK_DEVICE_TYPE_ED) g;
     k \<leftarrow> join_parent g;
     x \<leftarrow> arr_get (ext_neighbor (neighbor (snwk g))) k;
     let w = (snwk g)\<lparr>extended_pan_id := jr_extended_pan_id (saved_join g), mac_short_address := addr, update_id := x_update_id x\<rparr>;
     (_, _, z) \<leftarrow> zb_address_update (mac_extended_address g) addr True (addr_tbl w);
     long \<leftarrow> (if x_short_addr x = 0xffff then ZB_ADDRESS_DECOMPRESS (x_long_addr x) z else Some parent);
     g \<leftarrow> exneighbor_stop stale (g\<lparr>nwk_joined := True, snwk := join_position (x_depth x) (w\<lparr>addr_tbl := z\<rparr>)\<rparr>);
     g \<leftarrow> associated_parent (x_short_addr x) long parent g;
     b \<leftarrow> arr_get (pool (bpool g)) i;
     b \<leftarrow> set_param b 12 0 (ps ! 2 # ZB_HTOLE16 (network_address g) @ take 8 (jr_extended_pan_id (saved_join g)) @ [stale_ch]);
     schedule_buf (cb_nlme_join_confirm cbs) i b g }"

text \<open>A refusal: another parent is asked, and as an end device all of them once more.\<close>

definition associate_failed :: "'cb join_cbs \<Rightarrow> nat \<Rightarrow> u8 \<Rightarrow> ('cb, 'w) join_g_scheme \<Rightarrow> ('cb, 'w) join_g_scheme option" where
  "associate_failed cbs i status g = do {
     k \<leftarrow> join_parent g;
     g \<leftarrow> upd_ext k not_potential g;
     (ret, g) \<leftarrow> nwk_association_join cbs i (saved_join g) g;
     (ret, g) \<leftarrow> (if ret = ZB_NWK_STATUS_NOT_PERMITTED \<and> ZB_MAC_CAP_GET_DEVICE_TYPE (jr_capability (saved_join g)) then do {
          let req = (saved_join g)\<lparr>jr_capability := jr_capability (saved_join g) AND 0xfd\<rparr>;
          let xs = map (\<lambda>x. x\<lparr>x_potential_parent := True\<rparr>) (ext_neighbor (neighbor (snwk g)));
          nwk_association_join cbs i req
            (g\<lparr>saved_join := req, snwk := (snwk g)\<lparr>neighbor := (neighbor (snwk g))\<lparr>ext_neighbor := xs\<rparr>\<rparr>\<rparr>) }
        else Some (ret, g));
     if ret \<noteq> 0 then nwk_join_failure_confirm cbs i status g else Some g }"

definition zb_mlme_associate_confirm ::
  "'cb join_cbs \<Rightarrow> (nat \<Rightarrow> zb_neighbor_tbl_ent) \<Rightarrow> u8 \<Rightarrow> nat \<Rightarrow> ('cb, 'w) join_g_scheme \<Rightarrow> ('cb, 'w) join_g_scheme option" where
  "zb_mlme_associate_confirm cbs stale stale_ch i g = do {
     b \<leftarrow> arr_get (pool (bpool g)) i;
     ps \<leftarrow> get_param b 11;
     if ps ! 2 = MAC_SUCCESS then associate_ok cbs stale stale_ch i ps g else associate_failed cbs i (ps ! 2) g }"

section \<open>Rejoining\<close>

definition zb_nlme_rejoin :: "'cb join_cbs \<Rightarrow> nat \<Rightarrow> zb_nlme_join_request \<Rightarrow> ('cb, 'w) join_g_scheme \<Rightarrow> ('cb, 'w) join_g_scheme option" where
  "zb_nlme_rejoin cbs i req g =
     (if nlme_state g = ZB_NLME_STATE_IDLE then do {
        nb \<leftarrow> zb_nwk_exneighbor_start (neighbor (snwk g));
        b \<leftarrow> arr_get (pool (bpool g)) i;
        b \<leftarrow> ZB_MLME_BUILD_SCAN_REQUEST b (jr_scan_channels req) ACTIVE_SCAN (jr_scan_duration req);
        g \<leftarrow> schedule_buf (cb_mlme_scan_request cbs) i b
               (g\<lparr>rejoin_extended_pan_id := take 8 (jr_extended_pan_id req), rejoin_capability := jr_capability req,
                 snwk := (snwk g)\<lparr>neighbor := nb\<rparr>\<rparr>);
        Some (g\<lparr>nlme_state := ZB_NLME_STATE_REJOIN, router_started := False\<rparr>) }
      else nwk_join_failure_confirm cbs i ZB_NWK_STATUS_NOT_PERMITTED g)"

text \<open>A device without an address draws one until it is neither 0 nor \<open>0xffff\<close>.\<close>

partial_function (option) random_address :: "u32 \<Rightarrow> u16 \<Rightarrow> u16 option" where
  "random_address base a = (if a = 0 \<or> a = 0xffff then random_address base (zb_random base) else Some a)"

text \<open>The long address of the parent, from the address tables when the scan has not given it.\<close>

definition parent_long :: "nat \<Rightarrow> ('cb, 'w) join_g_scheme \<Rightarrow> (zb_ieee_addr \<times> ('cb, 'w) join_g_scheme) option" where
  "parent_long k g = do {
     x \<leftarrow> arr_get (ext_neighbor (neighbor (snwk g))) k;
     long \<leftarrow> ZB_ADDRESS_DECOMPRESS (x_long_addr x) (addr_tbl (snwk g));
     if ieee_is_zero long then do {
       (ret, a, z) \<leftarrow> zb_address_ieee_by_short (x_short_addr x) (addr_tbl (snwk g));
       if ret = RET_OK then do {
         a \<leftarrow> a;
         (c, z) \<leftarrow> zb_ieee_addr_compress a z;
         g \<leftarrow> upd_ext k (\<lambda>x. x\<lparr>x_long_addr := c\<rparr>) (g\<lparr>snwk := (snwk g)\<lparr>addr_tbl := z\<rparr>\<rparr>);
         Some (a, g) }
       else Some (long, g\<lparr>snwk := (snwk g)\<lparr>addr_tbl := z\<rparr>\<rparr>) }
     else Some (long, g) }"

definition send_rejoin_request ::
  "'cb join_cbs \<Rightarrow> u32 \<Rightarrow> nat \<Rightarrow> nat \<Rightarrow> nat \<Rightarrow> ('cb, 'w) join_g_scheme \<Rightarrow> ('cb, 'w) join_g_scheme option" where
  "send_rejoin_request cbs base i ref k g = do {
     has_key \<leftarrow> (if secure_all_frames g \<and> security_level (snwk g) \<noteq> 0 then secur_has_preconfigured_key g else Some False);
     panid \<leftarrow> zb_address_get_short_pan_id ref (addr_tbl (snwk g));
     (long, g) \<leftarrow> parent_long k (g\<lparr>nib_pan_id := panid\<rparr>);
     x \<leftarrow> arr_get (ext_neighbor (neighbor (snwk g))) k;
     a \<leftarrow> random_address base (network_address g);
     let g = g\<lparr>snwk := (snwk g)\<lparr>mac_short_address := a\<rparr>\<rparr>;
     b \<leftarrow> arr_get (pool (bpool g)) i;
     (b, p, g) \<leftarrow> nwk_alloc_and_fill_hdr b (x_short_addr x) (Some (mac_extended_address g))
                   (if ieee_is_zero long then None else Some long) False has_key True g;
     d \<leftarrow> arr_set (data_buf b) (p + 6) (push_bit 1 (max_depth (snwk g)));
     (b, c) \<leftarrow> nwk_alloc_and_fill_cmd (b\<lparr>data_buf := d\<rparr>) ZB_NWK_CMD_REJOIN_REQUEST 1;
     d \<leftarrow> arr_set (data_buf b) c (rejoin_capability g);
     g \<leftarrow> forward_buf (cb_mesh (cb_data (cb_panid cbs))) i (b\<lparr>data_buf := d\<rparr>) ZB_NWK_INTERNAL_REJOIN_CMD_HANDLE g;
     (_, _, z) \<leftarrow> zb_address_update long (x_short_addr x) True (addr_tbl (snwk g));
     (_, nb, z) \<leftarrow> zb_nwk_neighbor_ext_to_base_tmp x (neighbor (snwk g)) z;
     Some (g\<lparr>rejoin_parent := Some k, snwk := (snwk g)\<lparr>neighbor := nb, addr_tbl := z\<rparr>\<rparr>) }"

definition zb_nlme_rejoin_scan_confirm ::
  "'cb join_cbs \<Rightarrow> (nat \<Rightarrow> zb_neighbor_tbl_ent) \<Rightarrow> u32 \<Rightarrow> nat \<Rightarrow> ('cb, 'w) join_g_scheme \<Rightarrow> ('cb, 'w) join_g_scheme option" where
  "zb_nlme_rejoin_scan_confirm cbs stale base i g = do {
     (ret, ref) \<leftarrow> zb_address_get_pan_id_ref (rejoin_extended_pan_id g) (addr_tbl (snwk g));
     if ret \<noteq> RET_OK then do {
       g \<leftarrow> exneighbor_stop stale (g\<lparr>nlme_state := ZB_NLME_STATE_IDLE\<rparr>);
       nwk_join_failure_confirm cbs i ZB_NWK_STATUS_NOT_PERMITTED g }
     else do {
       ref \<leftarrow> ref;
       (k, g) \<leftarrow> nwk_choose_parent ref (rejoin_capability g) g;
       send_rejoin_request cbs base i ref k g } }"

text \<open>A parent that did not answer is not asked again and forgotten as a neighbor.\<close>

definition remove_parent_from_potential_parents :: "nat option \<Rightarrow> ('cb, 'w) join_g_scheme \<Rightarrow> ('cb, 'w) join_g_scheme option" where
  "remove_parent_from_potential_parents parent g =
     (case parent of
        None \<Rightarrow> Some g
      | Some k \<Rightarrow> do {
          g \<leftarrow> upd_ext k not_potential g;
          x \<leftarrow> arr_get (ext_neighbor (neighbor (snwk g))) k;
          long \<leftarrow> ZB_ADDRESS_DECOMPRESS (x_long_addr x) (addr_tbl (snwk g));
          (ret, ref, z) \<leftarrow> zb_address_update long (x_short_addr x) False (addr_tbl (snwk g));
          nb \<leftarrow> (if ret = RET_OK then do { ref \<leftarrow> ref; (_, nb) \<leftarrow> zb_nwk_neighbor_delete ref (neighbor (snwk g)); Some nb }
                else Some (neighbor (snwk g)));
          Some (g\<lparr>snwk := (snwk g)\<lparr>neighbor := nb, addr_tbl := z\<rparr>\<rparr>) })"

text \<open>The parameters of a poll of the device with a short address, twelve bytes with one of padding.\<close>

definition poll_param :: "u16 \<Rightarrow> zb_buf_t \<Rightarrow> ('cb, 'w) join_g_scheme \<Rightarrow> zb_buf_t option" where
  "poll_param a b g = do {
     b \<leftarrow> set_param b 12 0 [ZB_ADDR_16BIT_DEV_OR_BROADCAST];
     b \<leftarrow> set_param b 12 2 (ZB_HTOLE16 a);
     set_param b 12 10 (ZB_HTOLE16 (nib_pan_id g)) }"

definition zb_nlme_rejoin_response_timeout :: "'cb join_cbs \<Rightarrow> nat \<Rightarrow> ('cb, 'w) join_g_scheme \<Rightarrow> ('cb, 'w) join_g_scheme option" where
  "zb_nlme_rejoin_response_timeout cbs i g =
     (case rejoin_parent g of
        None \<Rightarrow> Some g
      | Some k \<Rightarrow>
          if \<not> mac_rx_on_when_idle g then do {
            x \<leftarrow> arr_get (ext_neighbor (neighbor (snwk g))) k;
            b \<leftarrow> arr_get (pool (bpool g)) i;
            b \<leftarrow> poll_param (x_short_addr x) b g;
            g \<leftarrow> put_buf i b g;
            (_, g) \<leftarrow> zb_schedule_tx_cb (cb_handle_poll_request cbs) (of_nat i) g;
            Some g }
          else do {
            g \<leftarrow> remove_parent_from_potential_parents (Some k) g;
            (_, g) \<leftarrow> zb_schedule_callback (cb_rejoin_scan_confirm cbs) (of_nat i) g;
            Some g })"

text \<open>
  Is the answer a valid one: it assigns an address, has the address of its sender, and is for this device and
  from the parent that was asked, where these are known. The places of the two addresses are those
  of a header with both.
\<close>

definition rejoin_response_ok ::
  "u8 list \<Rightarrow> nat \<Rightarrow> u8 list \<Rightarrow> u8 \<Rightarrow> u16 \<Rightarrow> zb_ieee_addr \<Rightarrow> ('cb, 'w) join_g_scheme \<Rightarrow> bool option" where
  "rejoin_response_ok d p fc status addr parent g =
     (if status \<noteq> MAC_SUCCESS \<or> ZB_NWK_IS_ADDRESS_BROADCAST addr \<or> ZB_NWK_FRAMECTL_GET_SOURCE_IEEE fc = 0 then Some False
      else do {
        mine \<leftarrow> (if ZB_NWK_FRAMECTL_GET_DESTINATION_IEEE fc = 0 then Some True
                else do { a \<leftarrow> buf_read d (p + 8) 8; Some (a = take 8 (mac_extended_address g)) });
        if \<not> mine then Some False
        else if ieee_is_zero parent then Some True
        else do { a \<leftarrow> buf_read d (p + 16) 8; Some (a = take 8 parent) } })"

definition rejoin_done ::
  "'cb join_cbs \<Rightarrow> (nat \<Rightarrow> zb_neighbor_tbl_ent) \<Rightarrow> nat \<Rightarrow> u8 list \<Rightarrow> nat \<Rightarrow> u8 list \<Rightarrow> u16 \<Rightarrow> zb_ext_neighbor_tbl_ent
     \<Rightarrow> ('cb, 'w) join_g_scheme \<Rightarrow> ('cb, 'w) join_g_scheme option" where
  "rejoin_done cbs stale i d p fc addr x g = do {
     (_, _, z) \<leftarrow> zb_address_update (mac_extended_address g) addr True (addr_tbl (snwk g));
     from \<leftarrow> buf_read d (if ZB_NWK_FRAMECTL_GET_DESTINATION_IEEE fc \<noteq> 0 then p + 16 else p + 8) 8;
     (_, ref, z) \<leftarrow> zb_address_update from (x_short_addr x) True z;
     let w = (snwk g)\<lparr>addr_tbl := z, nwk_parent := (case ref of Some r \<Rightarrow> r | None \<Rightarrow> nwk_parent (snwk g)), mac_short_address := addr,
                       nib_depth := ucast (x_depth x) + (if nib_depth (snwk g) \<noteq> 0xf then 1 else 0)\<rparr>;
     let w = w\<lparr>cskip := zb_nwk_daa_calc_cskip (nib_depth w) w, extended_pan_id := rejoin_extended_pan_id g\<rparr>;
     g \<leftarrow> exneighbor_stop stale (g\<lparr>nwk_joined := True, snwk := w\<rparr>);
     (_, g) \<leftarrow> mark_parent (nwk_parent (snwk g)) (g\<lparr>nlme_state := ZB_NLME_STATE_IDLE\<rparr>);
     nwk_join_failure_confirm cbs i MAC_SUCCESS g }"

definition zb_nlme_rejoin_response ::
  "'cb join_cbs \<Rightarrow> (nat \<Rightarrow> zb_neighbor_tbl_ent) \<Rightarrow> nat \<Rightarrow> ('cb, 'w) join_g_scheme \<Rightarrow> ('cb, 'w) join_g_scheme option" where
  "zb_nlme_rejoin_response cbs stale i g =
     (if nlme_state g = ZB_NLME_STATE_REJOIN then do {
        b \<leftarrow> arr_get (pool (bpool g)) i;
        let p = ZB_BUF_BEGIN b;
        fc \<leftarrow> buf_read (data_buf b) p 2;
        resp \<leftarrow> buf_read (data_buf b) (p + zb_nwk_hdr_size fc + 1) 3;
        let addr = ZB_LETOH16 (take 2 resp);
        k \<leftarrow> rejoin_parent g;
        x \<leftarrow> arr_get (ext_neighbor (neighbor (snwk g))) k;
        parent \<leftarrow> ZB_ADDRESS_DECOMPRESS (x_long_addr x) (addr_tbl (snwk g));
        ok \<leftarrow> rejoin_response_ok (data_buf b) p fc (resp ! 2) addr parent g;
        g \<leftarrow> (if ok then rejoin_done cbs stale i (data_buf b) p fc addr x g
             else do {
               g \<leftarrow> upd_ext k not_potential g;
               (_, g) \<leftarrow> zb_schedule_callback (cb_rejoin_scan_confirm cbs) (of_nat i) g;
               Some g });
        (_, g) \<leftarrow> zb_schedule_alarm_cancel (cb_rejoin_response_timeout cbs) ZB_ALARM_ANY_PARAM g;
        Some g }
      else zb_free_buf i g)"

section \<open>Orphans\<close>

text \<open>
  The parameters of the scan lie over those of the request, and its channels are written before the duration is
  read: the duration is the third byte of the channels.
\<close>

definition zb_nlme_orphan_scan :: "'cb join_cbs \<Rightarrow> nat \<Rightarrow> zb_nlme_join_request \<Rightarrow> ('cb, 'w) join_g_scheme \<Rightarrow> ('cb, 'w) join_g_scheme option" where
  "zb_nlme_orphan_scan cbs i req g =
     (if nlme_state g = ZB_NLME_STATE_IDLE then do {
        b \<leftarrow> arr_get (pool (bpool g)) i;
        b \<leftarrow> ZB_MLME_BUILD_SCAN_REQUEST b (jr_scan_channels req) ORPHAN_SCAN (ucast (drop_bit 16 (jr_scan_channels req)));
        g \<leftarrow> schedule_buf (cb_mlme_scan_request cbs) i b g;
        Some (g\<lparr>nlme_state := ZB_NLME_STATE_ORPHAN_SCAN\<rparr>) }
      else nwk_join_failure_confirm cbs i ZB_NWK_STATUS_NOT_PERMITTED g)"

definition zb_nlme_orphan_scan_confirm :: "'cb join_cbs \<Rightarrow> nat \<Rightarrow> ('cb, 'w) join_g_scheme \<Rightarrow> ('cb, 'w) join_g_scheme option" where
  "zb_nlme_orphan_scan_confirm cbs i g = do {
     b \<leftarrow> arr_get (pool (bpool g)) i;
     ps \<leftarrow> get_param b 23;
     g \<leftarrow> nwk_join_failure_confirm cbs i (if ps ! 0 = MAC_SUCCESS then ZB_NWK_STATUS_SUCCESS else ZB_NWK_STATUS_NO_NETWORKS) g;
     Some (g\<lparr>nlme_state := ZB_NLME_STATE_IDLE\<rparr>) }"

text \<open>The child with a long address: its reference, when it is a neighbor and a child.\<close>

definition child_by_ieee :: "zb_ieee_addr \<Rightarrow> ('cb, 'w) join_g_scheme \<Rightarrow> (nat option \<times> ('cb, 'w) join_g_scheme) option" where
  "child_by_ieee a g = do {
     (ret, ref, z) \<leftarrow> zb_address_by_ieee a False False (addr_tbl (snwk g));
     let g = g\<lparr>snwk := (snwk g)\<lparr>addr_tbl := z\<rparr>\<rparr>;
     if ret = RET_OK then do {
       ref \<leftarrow> ref;
       (ret, n, _, _) \<leftarrow> zb_nwk_neighbor_get (ucast (nib_depth (snwk g))) ref False (neighbor (snwk g)) z;
       if ret = RET_OK then do {
         n \<leftarrow> n;
         e \<leftarrow> arr_get (base_neighbor (neighbor (snwk g))) n;
         Some (if relationship e = ZB_NWK_RELATIONSHIP_CHILD then Some ref else None, g) }
       else Some (None, g) }
     else Some (None, g) }"

definition zb_mlme_orphan_indication :: "'cb join_cbs \<Rightarrow> nat \<Rightarrow> ('cb, 'w) join_g_scheme \<Rightarrow> ('cb, 'w) join_g_scheme option" where
  "zb_mlme_orphan_indication cbs i g = do {
     b \<leftarrow> arr_get (pool (bpool g)) i;
     a \<leftarrow> get_param b 8;
     (child, g) \<leftarrow> child_by_ieee a g;
     (case child of
        Some ref \<Rightarrow> do {
          (long, short) \<leftarrow> zb_address_by_ref ref (addr_tbl (snwk g));
          b \<leftarrow> set_param b 16 0 (take 8 long @ ZB_HTOLE16 short);
          b \<leftarrow> set_param b 16 12 [1, 0, 0, 0];
          g \<leftarrow> put_buf i b g;
          (_, g) \<leftarrow> zb_schedule_tx_cb (cb_handle_orphan_response cbs) (of_nat i) g;
          Some g }
      | None \<Rightarrow> zb_free_buf i g) }"

section \<open>The request of the higher layer\<close>

text \<open>A request for a change of the channel, or of an unknown method, is dropped with its buffer.\<close>

definition zb_nlme_join_request :: "'cb join_cbs \<Rightarrow> nat \<Rightarrow> ('cb, 'w) join_g_scheme \<Rightarrow> ('cb, 'w) join_g_scheme option" where
  "zb_nlme_join_request cbs i g = do {
     b \<leftarrow> arr_get (pool (bpool g)) i;
     ps \<leftarrow> get_param b 16;
     let req = join_request_at ps;
     let g = g\<lparr>router_started := False\<rparr>;
     if jr_rejoin_network req = ZB_NLME_REJOIN_METHOD_ASSOCIATION then do {
       (ret, g) \<leftarrow> nwk_association_join cbs i req g;
       if ret \<noteq> 0 then nwk_join_failure_confirm cbs i ret g else Some g }
     else if jr_rejoin_network req = ZB_NLME_REJOIN_METHOD_DIRECT then zb_nlme_orphan_scan cbs i req g
     else if jr_rejoin_network req = ZB_NLME_REJOIN_METHOD_REJOIN then zb_nlme_rejoin cbs i req g
     else Some g }"

section \<open>Answering devices that join\<close>

text \<open>What the higher layer is told of a device that has joined: its addresses, what it is, and how it joined.\<close>

definition join_indication_param :: "nat \<Rightarrow> u8 \<Rightarrow> u8 \<Rightarrow> zb_buf_t \<Rightarrow> zb_neighbor_tbl_ent \<Rightarrow> ('cb, 'w) join_g_scheme \<Rightarrow> zb_buf_t option" where
  "join_indication_param ref rejoin secure b e g = do {
     (long, short) \<leftarrow> zb_address_by_ref ref (addr_tbl (snwk g));
     set_param b 13 0 (ZB_HTOLE16 short @ take 8 long
       @ [(if device_type e = ZB_NWK_DEVICE_TYPE_ROUTER then 2 else 0) OR (if rx_on_when_idle e then 8 else 0), rejoin, secure]) }"

definition indicate_join ::
  "'cb join_cbs \<Rightarrow> nat \<Rightarrow> zb_buf_t \<Rightarrow> ('cb, 'w) join_g_scheme \<Rightarrow> ('cb, 'w) join_g_scheme option" where
  "indicate_join cbs i b g =
     schedule_buf (cb_nlme_join_indication cbs) i (b\<lparr>hdr := (hdr b)\<lparr>hdr_status := ucast ZB_NWK_STATUS_SUCCESS\<rparr>\<rparr>)
       (g\<lparr>snwk := zb_nwk_update_beacon_payload (snwk g)\<rparr>)"

text \<open>
  The quality of the link is read where the MAC leaves it behind a frame, although that part is cut off when
  a command is handled.
\<close>

definition ZB_MAC_GET_LQI :: "zb_buf_t \<Rightarrow> u8 option" where
  "ZB_MAC_GET_LQI b = do {
     ZB_ASSERT (ZB_MAC_EXTRA_DATA_SIZE \<le> ZB_BUF_BEGIN b + ZB_BUF_LEN b);
     arr_get (data_buf b) (ZB_BUF_BEGIN b + ZB_BUF_LEN b - ZB_MAC_EXTRA_DATA_SIZE) }"

definition zb_nlme_rejoin_request :: "'cb join_cbs \<Rightarrow> nat \<Rightarrow> ('cb, 'w) join_g_scheme \<Rightarrow> ('cb, 'w) join_g_scheme option" where
  "zb_nlme_rejoin_request cbs i g = do {
     b \<leftarrow> arr_get (pool (bpool g)) i;
     let p = ZB_BUF_BEGIN b;
     fc \<leftarrow> buf_read (data_buf b) p 2;
     if unat (rejoin_req_table_cnt g) < ZB_NWK_REJOIN_REQUEST_TABLE_SIZE \<and> ZB_NWK_FRAMECTL_GET_SOURCE_IEEE fc \<noteq> 0 then do {
       cap \<leftarrow> arr_get (data_buf b) (p + zb_nwk_hdr_size fc + 1);
       nh \<leftarrow> nwk_hdr_at (data_buf b) p;
       dev \<leftarrow> buf_read (data_buf b) (if ZB_NWK_FRAMECTL_GET_DESTINATION_IEEE fc \<noteq> 0 then p + 16 else p + 8) 8;
       q \<leftarrow> ZB_MAC_GET_LQI b;
       (status, a, w) \<leftarrow> zb_nwk_accept_child dev cap q (snwk g);
       let a = (case a of Some a \<Rightarrow> a | None \<Rightarrow> 0xffff);
       (b, _, g) \<leftarrow> nwk_alloc_and_fill_hdr b (nh_src_addr nh) (Some (mac_extended_address g)) (Some dev) False
                     (ZB_NWK_FRAMECTL_GET_SECURITY fc \<noteq> 0) True (g\<lparr>snwk := w\<rparr>);
       (b, c) \<leftarrow> nwk_alloc_and_fill_cmd b ZB_NWK_CMD_REJOIN_RESPONSE 3;
       d \<leftarrow> arr_copy (data_buf b) c (ZB_HTOLE16 a @ [status]);
       g \<leftarrow> forward_buf (cb_mesh (cb_data (cb_panid cbs))) i (b\<lparr>data_buf := d\<rparr>)
              (if status = MAC_SUCCESS then ZB_NWK_INTERNAL_REJOIN_CMD_RESPONSE else ZB_NWK_INTERNAL_NSDU_HANDLE) g;
       if status = MAC_SUCCESS then do {
         t \<leftarrow> arr_set (rejoin_req_table g) (unat (rejoin_req_table_cnt g)) a;
         Some (g\<lparr>rejoin_req_table := t, rejoin_req_table_cnt := rejoin_req_table_cnt g + 1\<rparr>) }
       else Some g }
     else zb_free_buf i g }"

text \<open>The MAC header and the checksum are cut off a frame that was sent; the place of the MAC header is kept.\<close>

definition ZB_MAC_CUT_HDR_WITHOUT_TRAILER :: "zb_buf_t \<Rightarrow> (zb_buf_t \<times> nat) option" where
  "ZB_MAC_CUT_HDR_WITHOUT_TRAILER b = do {
     fc \<leftarrow> buf_read (data_buf b) (ZB_BUF_BEGIN b) 2;
     b \<leftarrow> zb_buf_cut_right (b\<lparr>hdr := (hdr b)\<lparr>mac_hdr_offset := data_offset (hdr b)\<rparr>\<rparr>) ZB_TAIL_SIZE_FOR_SENDER_MAC_FRAME;
     n \<leftarrow> zb_mac_calculate_mhr_length (ZB_FCF_GET_SRC_ADDRESSING_MODE fc) (ZB_FCF_GET_DST_ADDRESSING_MODE fc)
            (ZB_FCF_GET_PANID_COMPRESSION_BIT fc);
     zb_buf_cut_left b n }"

text \<open>
  The last device of the table has been answered. The parameters are written before the header is cut off, the
  bytes of a security bit that is 0 stand for an insecure rejoin.
\<close>

definition zb_nlme_rejoin_resp_sent :: "'cb join_cbs \<Rightarrow> nat \<Rightarrow> ('cb, 'w) join_g_scheme \<Rightarrow> ('cb, 'w) join_g_scheme option" where
  "zb_nlme_rejoin_resp_sent cbs i g = do {
     ZB_ASSERT (rejoin_req_table_cnt g \<noteq> 0);
     a \<leftarrow> arr_get (rejoin_req_table g) (unat (rejoin_req_table_cnt g) - 1);
     (ret, ref, z) \<leftarrow> zb_address_by_short a False False (addr_tbl (snwk g));
     ZB_ASSERT (ret = RET_OK);
     ref \<leftarrow> ref;
     let g = g\<lparr>rejoin_req_table_cnt := rejoin_req_table_cnt g - 1, snwk := (snwk g)\<lparr>addr_tbl := z\<rparr>\<rparr>;
     (_, n, _, _) \<leftarrow> zb_nwk_neighbor_get (ucast (nib_depth (snwk g))) ref False (neighbor (snwk g)) z;
     n \<leftarrow> n;
     e \<leftarrow> arr_get (base_neighbor (neighbor (snwk g))) n;
     b \<leftarrow> arr_get (pool (bpool g)) i;
     b \<leftarrow> join_indication_param ref ZB_NLME_REJOIN_METHOD_REJOIN 0 b e g;
     t \<leftarrow> zb_get_buf_tail b 13;
     (b, p) \<leftarrow> ZB_MAC_CUT_HDR_WITHOUT_TRAILER b;
     fc \<leftarrow> buf_read (data_buf b) p 2;
     d \<leftarrow> arr_set (data_buf b) (t + 12) (if ZB_NWK_FRAMECTL_GET_SECURITY fc = 0 then 1 else 0);
     indicate_join cbs i (b\<lparr>data_buf := d\<rparr>) g }"

definition zb_mlme_associate_indication :: "'cb join_cbs \<Rightarrow> nat \<Rightarrow> ('cb, 'w) join_g_scheme \<Rightarrow> ('cb, 'w) join_g_scheme option" where
  "zb_mlme_associate_indication cbs i g = do {
     b \<leftarrow> arr_get (pool (bpool g)) i;
     ps \<leftarrow> get_param b 10;
     (status, a, w) \<leftarrow> zb_nwk_accept_child (take 8 ps) (ps ! 8) (ps ! 9) (snwk g);
     b \<leftarrow> set_param b 11 0 (take 8 ps @ ZB_HTOLE16 (case a of Some a \<Rightarrow> a | None \<Rightarrow> 0xffff) @ [status]);
     schedule_buf (cb_mlme_associate_response cbs) i b (g\<lparr>snwk := w\<rparr>) }"

text \<open>
  The answer to an association has been sent or not. A device that did not get it is forgotten; the buffer
  is then neither used nor freed.
\<close>

definition zb_mlme_comm_status_indication :: "'cb join_cbs \<Rightarrow> nat \<Rightarrow> ('cb, 'w) join_g_scheme \<Rightarrow> ('cb, 'w) join_g_scheme option" where
  "zb_mlme_comm_status_indication cbs i g = do {
     b \<leftarrow> arr_get (pool (bpool g)) i;
     ps \<leftarrow> get_param b 19;
     (ret, ref, z) \<leftarrow> (if ps ! 17 = ZB_ADDR_64BIT_DEV then zb_address_by_ieee (take 8 (drop 9 ps)) False False (addr_tbl (snwk g))
                      else zb_address_by_short (ZB_LETOH16 (take 2 (drop 9 ps))) False False (addr_tbl (snwk g)));
     let g = g\<lparr>snwk := (snwk g)\<lparr>addr_tbl := z\<rparr>\<rparr>;
     if ret \<noteq> RET_OK then Some g
     else do {
       ref \<leftarrow> ref;
       (ret, n, _, _) \<leftarrow> zb_nwk_neighbor_get (ucast (nib_depth (snwk g))) ref False (neighbor (snwk g)) z;
       if ret \<noteq> RET_OK then Some g
       else if ps ! 18 = MAC_SUCCESS then do {
         n \<leftarrow> n;
         e \<leftarrow> arr_get (base_neighbor (neighbor (snwk g))) n;
         b \<leftarrow> join_indication_param ref ZB_NLME_REJOIN_METHOD_ASSOCIATION 0 b e g;
         indicate_join cbs i b g }
       else do {
         w \<leftarrow> zb_nwk_forget_device ref (snwk g);
         Some (g\<lparr>snwk := w\<rparr>) } } }"

end
