(* ===== verification/Nwk_Cmd.thy ===== *)
theory Nwk_Cmd
  imports Nwk_Join
begin

text \<open>
  What becomes of a frame after the data path: the dispatch of data and commands, the confirmation of a frame the MAC has
  sent, and the command to leave, from \<^verbatim>\<open>nwk/nwk_main.c\<close>. With them every handler of the layer is
  reached: the commands lead to the routing, the rejoin and the PAN identifier handlers.

  A reference to an address is an unsigned integer of 32 bits here, and the value that stands for none is its largest.
\<close>

section \<open>State\<close>

definition ZB_NWK_CMD_LEAVE :: u8 where "ZB_NWK_CMD_LEAVE = 4"
definition ZB_NWK_INTERNAL_LEAVE_IND_AT_DATA_CONFIRM_HANDLE :: u8 where "ZB_NWK_INTERNAL_LEAVE_IND_AT_DATA_CONFIRM_HANDLE = 0xfc"
definition ZB_NWK_INTERNAL_LEAVE_CONFIRM_AT_DATA_CONFIRM_HANDLE :: u8 where
  "ZB_NWK_INTERNAL_LEAVE_CONFIRM_AT_DATA_CONFIRM_HANDLE = 0xfb"
definition ZB_NWK_REJOIN_TIMEOUT :: zb_time where "ZB_NWK_REJOIN_TIMEOUT = 64 * 1 * 5"

record 'cb cmd_g = "'cb join_g" +
  rejoin_after_leave :: u8
  leave_ind_ref :: u32
  leave_ind_rejoin :: u8

record 'cb cmd_cbs =
  cb_join :: "'cb join_cbs"
  cb_leave_ind_prnt :: 'cb
  cb_nlme_leave_indication :: 'cb
  cb_nlme_leave_confirm :: 'cb
  cb_nlde_data_indication :: 'cb
  cb_call_status_ind :: 'cb

definition cmd_data :: "'cb cmd_cbs \<Rightarrow> 'cb data_cbs" where "cmd_data cbs = cb_data (cb_panid (cb_join cbs))"

section \<open>Leaving\<close>

definition ZB_LEAVE_PL_GET_REQUEST :: "u8 \<Rightarrow> bool" where "ZB_LEAVE_PL_GET_REQUEST pl \<longleftrightarrow> bit pl 6"
definition ZB_LEAVE_PL_GET_REJOIN :: "u8 \<Rightarrow> u8" where "ZB_LEAVE_PL_GET_REJOIN pl = drop_bit 5 pl AND 1"
definition ZB_LEAVE_PL_GET_REMOVE_CHILDREN :: "u8 \<Rightarrow> bool" where "ZB_LEAVE_PL_GET_REMOVE_CHILDREN pl \<longleftrightarrow> bit pl 7"

text \<open>The payload with the two options, and the request bit.\<close>

definition leave_payload :: "bool \<Rightarrow> bool \<Rightarrow> bool \<Rightarrow> u8" where
  "leave_payload request rejoin remove_children =
     push_bit 5 (if rejoin then 1 else 0) OR push_bit 7 (if remove_children then 1 else 0) OR push_bit 6 (if request then 1 else 0)"

definition zb_nwk_call_leave_ind ::
  "'cb cmd_cbs \<Rightarrow> nat \<Rightarrow> u8 \<Rightarrow> u32 \<Rightarrow> ('cb, 'w) cmd_g_scheme \<Rightarrow> ('cb, 'w) cmd_g_scheme option" where
  "zb_nwk_call_leave_ind cbs i rejoin ref g = do {
     a \<leftarrow> (if ref = - 1 then Some (replicate 8 0) else zb_address_ieee_by_ref (unat ref) (addr_tbl (snwk g)));
     b \<leftarrow> arr_get (pool (bpool g)) i;
     b \<leftarrow> set_param b 9 0 (take 8 a @ [rejoin]);
     schedule_buf (cb_nlme_leave_indication cbs) i b g }"

definition zb_nwk_leave_ind_prnt :: "'cb cmd_cbs \<Rightarrow> nat \<Rightarrow> ('cb, 'w) cmd_g_scheme \<Rightarrow> ('cb, 'w) cmd_g_scheme option" where
  "zb_nwk_leave_ind_prnt cbs i g = zb_nwk_call_leave_ind cbs i (leave_ind_rejoin g) (leave_ind_ref g) g"

definition secure_leave :: "('cb, 'w) mesh_g_scheme \<Rightarrow> bool option" where
  "secure_leave g =
     (if secure_all_frames g \<and> security_level (snwk g) \<noteq> 0 then secur_has_preconfigured_key g else Some False)"

text \<open>
  The sender of the command, as a reference and the place of its neighbor entry, when the command is one this
  device obeys. The address of a device that is no neighbor and says it leaves is deleted.
\<close>

definition leave_sender ::
  "u16 \<Rightarrow> u8 \<Rightarrow> ('cb, 'w) cmd_g_scheme \<Rightarrow> ((nat \<times> zb_neighbor_tbl_ent) option \<times> ('cb, 'w) cmd_g_scheme) option" where
  "leave_sender src lp g = do {
     (ret, ref, z) \<leftarrow> zb_address_by_short src False False (addr_tbl (snwk g));
     let g = g\<lparr>snwk := (snwk g)\<lparr>addr_tbl := z\<rparr>\<rparr>;
     if ret \<noteq> RET_OK then Some (None, g)
     else do {
       ref \<leftarrow> ref;
       (ret, n, _, _) \<leftarrow> zb_nwk_neighbor_get (ucast (nib_depth (snwk g))) ref False (neighbor (snwk g)) z;
       if ret \<noteq> RET_OK then do {
         z \<leftarrow> (if \<not> ZB_LEAVE_PL_GET_REQUEST lp then zb_address_delete ref z else Some z);
         Some (None, g\<lparr>snwk := (snwk g)\<lparr>addr_tbl := z\<rparr>\<rparr>) }
       else do {
         n \<leftarrow> n;
         e \<leftarrow> arr_get (base_neighbor (neighbor (snwk g))) n;
         Some (if relationship e \<noteq> ZB_NWK_RELATIONSHIP_PARENT
                  \<and> (ZB_LEAVE_PL_GET_REQUEST lp \<or> mesh_device_type g = ZB_NWK_DEVICE_TYPE_ED)
               then None else Some (ref, e), g) } } }"

definition announce_leave :: "'cb cmd_cbs \<Rightarrow> nat \<Rightarrow> u8 \<Rightarrow> ('cb, 'w) cmd_g_scheme \<Rightarrow> ('cb, 'w) cmd_g_scheme option" where
  "announce_leave cbs i lp g = do {
     secure \<leftarrow> secure_leave g;
     b \<leftarrow> arr_get (pool (bpool g)) i;
     (b, p, g) \<leftarrow> nwk_alloc_and_fill_hdr b ZB_NWK_BROADCAST_RX_ON_WHEN_IDLE (Some (mac_extended_address g)) None False secure True g;
     d \<leftarrow> arr_set (data_buf b) (p + 6) 1;
     (b, c) \<leftarrow> nwk_alloc_and_fill_cmd (b\<lparr>data_buf := d\<rparr>) ZB_NWK_CMD_LEAVE 1;
     d \<leftarrow> arr_set (data_buf b) c
            (leave_payload False (ZB_LEAVE_PL_GET_REJOIN lp \<noteq> 0) (ZB_LEAVE_PL_GET_REMOVE_CHILDREN lp));
     forward_buf (cb_mesh (cmd_data cbs)) i (b\<lparr>data_buf := d\<rparr>) ZB_NWK_INTERNAL_LEAVE_IND_AT_DATA_CONFIRM_HANDLE
       (g\<lparr>rejoin_after_leave := ZB_LEAVE_PL_GET_REJOIN lp\<rparr>) }"

definition zb_nwk_leave_handler ::
  "'cb cmd_cbs \<Rightarrow> nat \<Rightarrow> u16 \<Rightarrow> u8 \<Rightarrow> ('cb, 'w) cmd_g_scheme \<Rightarrow> ('cb, 'w) cmd_g_scheme option" where
  "zb_nwk_leave_handler cbs i src lp g = do {
     (sender, g) \<leftarrow> leave_sender src lp g;
     (case sender of
        None \<Rightarrow> zb_free_buf i g
      | Some (ref, e) \<Rightarrow>
          if relationship e = ZB_NWK_RELATIONSHIP_PARENT then do {
            g \<leftarrow> (if \<not> ZB_LEAVE_PL_GET_REQUEST lp then do {
                    (_, g) \<leftarrow> zb_get_in_buf_delayed (cb_leave_ind_prnt cbs)
                              (g\<lparr>leave_ind_ref := of_nat ref, leave_ind_rejoin := ZB_LEAVE_PL_GET_REJOIN lp\<rparr>);
                    Some g }
                  else Some g);
            if (ZB_LEAVE_PL_GET_REQUEST lp \<or> ZB_LEAVE_PL_GET_REMOVE_CHILDREN lp) \<and> mesh_device_type g \<noteq> ZB_NWK_DEVICE_TYPE_ED
            then announce_leave cbs i lp g
            else zb_nwk_call_leave_ind cbs i (ZB_LEAVE_PL_GET_REJOIN lp)
                   (if mesh_device_type g = ZB_NWK_DEVICE_TYPE_ED then - 1 else of_nat ref) g }
          else zb_nwk_call_leave_ind cbs i (ZB_LEAVE_PL_GET_REJOIN lp) (of_nat ref) g) }"

section \<open>The MAC has sent a frame\<close>

text \<open>
  The status is kept for a status indication. The confirmation of a leave is made after the
  header of the buffer, and with it the status, is cleared.
\<close>

definition leave_confirm :: "'cb cmd_cbs \<Rightarrow> nat \<Rightarrow> u16 \<Rightarrow> ('cb, 'w) cmd_g_scheme \<Rightarrow> ('cb, 'w) cmd_g_scheme option" where
  "leave_confirm cbs i dest g = do {
     b \<leftarrow> arr_get (pool (bpool g)) i;
     let b = zb_buf_reuse b;
     b \<leftarrow> set_param b 12 0 (ZB_HTOLE16 (hdr_status (hdr b)) @ [0, 0]);
     (b, g) \<leftarrow> (if dest \<noteq> 0xffff then do {
                  (_, a, z) \<leftarrow> zb_address_ieee_by_short dest (addr_tbl (snwk g));
                  b \<leftarrow> (case a of Some a \<Rightarrow> set_param b 12 4 (take 8 a) | None \<Rightarrow> Some b);
                  Some (b, g\<lparr>snwk := (snwk g)\<lparr>addr_tbl := z\<rparr>\<rparr>) }
                else do { b \<leftarrow> set_param b 12 4 (replicate 8 0); Some (b, g) });
     schedule_buf (cb_nlme_leave_confirm cbs) i b g }"

definition note_status :: "zb_buf_t \<Rightarrow> u16 \<Rightarrow> ('cb, 'w) data_g_scheme \<Rightarrow> ('cb, 'w) data_g_scheme" where
  "note_status b dest g = g\<lparr>nwk_status_ind := ucast (hdr_status (hdr b)), nwk_status_addr := dest\<rparr>"

definition frame_confirm :: "'cb cmd_cbs \<Rightarrow> nat \<Rightarrow> u8 \<Rightarrow> ('cb, 'w) cmd_g_scheme \<Rightarrow> ('cb, 'w) cmd_g_scheme option" where
  "frame_confirm cbs i h g = do {
     b \<leftarrow> arr_get (pool (bpool g)) i;
     (mhr, _) \<leftarrow> zb_parse_mhr (data_buf b) (ZB_BUF_BEGIN b);
     let dest = addr_short (dst_addr mhr);
     if h = ZB_NWK_INTERNAL_LEAVE_CONFIRM_AT_DATA_CONFIRM_HANDLE then leave_confirm cbs i dest g
     else if h = ZB_NWK_INTERNAL_NSDU_HANDLE then
       if hdr_status (hdr b) \<noteq> 0 then call_status_indication (cmd_data cbs) i (note_status b dest g)
       else zb_free_buf i g
     else do {
       (_, g) \<leftarrow> zb_schedule_callback (cb_nlde_data_confirm (cmd_data cbs)) (of_nat i) g;
       if hdr_status (hdr b) \<noteq> 0 then do {
         (_, g) \<leftarrow> zb_get_in_buf_delayed (cb_call_status_ind cbs) (note_status b dest g);
         Some g }
       else Some g } }"

definition zb_mcps_data_confirm :: "'cb cmd_cbs \<Rightarrow> nat \<Rightarrow> ('cb, 'w) cmd_g_scheme \<Rightarrow> ('cb, 'w) cmd_g_scheme option" where
  "zb_mcps_data_confirm cbs i g = do {
     b \<leftarrow> arr_get (pool (bpool g)) i;
     ps \<leftarrow> get_param b 1;
     let h = ps ! 0;
     if h = ZB_NWK_INTERNAL_REJOIN_CMD_HANDLE \<and> nlme_state g = ZB_NLME_STATE_REJOIN then do {
       (_, g) \<leftarrow> zb_schedule_alarm_cancel (cb_rejoin_response_timeout (cb_join cbs)) ZB_ALARM_ANY_PARAM g;
       (_, g) \<leftarrow> zb_schedule_alarm (cb_rejoin_response_timeout (cb_join cbs)) (of_nat i) ZB_NWK_REJOIN_TIMEOUT g;
       Some g }
     else if h = ZB_NWK_INTERNAL_REJOIN_CMD_RESPONSE then zb_nlme_rejoin_resp_sent (cb_join cbs) i g
     else if h = ZB_NWK_INTERNAL_LEAVE_IND_AT_DATA_CONFIRM_HANDLE then
       zb_nwk_call_leave_ind cbs i (rejoin_after_leave g) 0xff g
     else frame_confirm cbs i h g }"

text \<open>
  A broadcast that all neighbors have acknowledged is confirmed as if the MAC had sent it last: a header from this
  device to everyone is put in front of it.
\<close>

definition zb_nwk_call_br_confirm :: "'cb cmd_cbs \<Rightarrow> nat \<Rightarrow> ('cb, 'w) cmd_g_scheme \<Rightarrow> ('cb, 'w) cmd_g_scheme option" where
  "zb_nwk_call_br_confirm cbs i g = do {
     b \<leftarrow> arr_get (pool (bpool g)) i;
     (b, _) \<leftarrow> zb_buf_smart_alloc_right b ZB_TAIL_SIZE_FOR_SENDER_MAC_FRAME;
     n \<leftarrow> zb_mac_calculate_mhr_length ZB_ADDR_16BIT_DEV_OR_BROADCAST ZB_ADDR_16BIT_DEV_OR_BROADCAST 1;
     (b, p) \<leftarrow> zb_buf_smart_alloc_left b n;
     d \<leftarrow> zb_mac_fill_mhr (data_buf b) p
            (mhr_zero\<lparr>frame_control := [0x40, 0x88], dst_addr := set_addr_short ZB_NWK_BROADCAST_ALL_DEVICES addr_zero,
                      src_addr := set_addr_short (network_address g) addr_zero\<rparr>);
     g \<leftarrow> put_buf i (b\<lparr>data_buf := d\<rparr>) g;
     zb_mcps_data_confirm cbs i g }"

section \<open>The dispatch of a frame\<close>

definition ZB_NWK_REPORT_INFO_COUNT :: "u8 \<Rightarrow> u8" where "ZB_NWK_REPORT_INFO_COUNT options = options AND 0xf"
definition ZB_NWK_REPORT_COMMAND_ID :: "u8 \<Rightarrow> u8" where "ZB_NWK_REPORT_COMMAND_ID options = drop_bit 4 options AND 0xf"
definition ZB_NWK_REPORT_IS_PANID_CONFLICT :: "u8 \<Rightarrow> bool" where
  "ZB_NWK_REPORT_IS_PANID_CONFLICT options \<longleftrightarrow> ZB_NWK_REPORT_COMMAND_ID options = 0"

definition cmd_rrep_at :: "u8 list \<Rightarrow> nat \<Rightarrow> zb_nwk_cmd_rrep option" where
  "cmd_rrep_at d p = do {
     bs \<leftarrow> buf_read d p 7;
     Some \<lparr>rrep_rreq_id = bs ! 1, rrep_originator = ZB_LETOH16 (take 2 (drop 2 bs)),
           rrep_responder = ZB_LETOH16 (take 2 (drop 4 bs)), rrep_path_cost = bs ! 6\<rparr> }"

definition nwk_update_at :: "u8 list \<Rightarrow> nat \<Rightarrow> zb_nwk_update_cmd option" where
  "nwk_update_at d p = do {
     bs \<leftarrow> buf_read d p 12;
     Some \<lparr>upd_command_options = bs ! 0, upd_epid = take 8 (drop 1 bs), upd_update_id = bs ! 9,
           upd_new_panid = ZB_LETOH16 (take 2 (drop 10 bs))\<rparr> }"

text \<open>A report or an update is for a conflict, and for this network.\<close>

definition conflict_here :: "u8 \<Rightarrow> u8 list \<Rightarrow> ('cb, 'w) sec_g_scheme \<Rightarrow> bool" where
  "conflict_here options epid g \<longleftrightarrow> ZB_NWK_REPORT_IS_PANID_CONFLICT options \<and> epid = take 8 (extended_pan_id (snwk g))"

text \<open>
  A command \<open>c\<close> with its payload at the place \<open>q\<close>. The packet of an update for this network is not freed.
\<close>

definition nwk_command ::
  "'cb cmd_cbs \<Rightarrow> (nat \<Rightarrow> zb_neighbor_tbl_ent) \<Rightarrow> u32 \<Rightarrow> nat \<Rightarrow> u8 list \<Rightarrow> zb_nwk_hdr \<Rightarrow> u8 \<Rightarrow> nat
     \<Rightarrow> ('cb, 'w) cmd_g_scheme \<Rightarrow> ('cb, 'w) cmd_g_scheme option" where
  "nwk_command cbs stale base i d nh c q g =
     (let mesh = cb_mesh (cmd_data cbs); panid = cb_panid (cb_join cbs) in
      if c = ZB_NWK_CMD_LEAVE then do { lp \<leftarrow> arr_get d q; zb_nwk_leave_handler cbs i (nh_src_addr nh) lp g }
      else if c = ZB_NWK_CMD_ROUTE_REQUEST \<and> \<not> joined_pro g then do {
        cmd \<leftarrow> cmd_rreq_at d q; zb_nwk_mesh_rreq_handler mesh i nh cmd g }
      else if c = ZB_NWK_CMD_ROUTE_REPLY \<and> \<not> joined_pro g then do {
        cmd \<leftarrow> cmd_rrep_at d q; zb_nwk_mesh_rrep_handler mesh i nh cmd g }
      else if c = ZB_NWK_CMD_REJOIN_REQUEST \<and> \<not> joined_pro g then zb_nlme_rejoin_request (cb_join cbs) i g
      else if c = ZB_NWK_CMD_NETWORK_REPORT then do {
        r \<leftarrow> buf_read d q 9;
        if conflict_here (r ! 0) (drop 1 r) g
        then zb_panid_conflict_got_network_report panid base i (q + 9) (ZB_NWK_REPORT_INFO_COUNT (r ! 0)) g
        else zb_free_buf i g }
      else if c = ZB_NWK_CMD_NETWORK_STATUS then do {
        ps \<leftarrow> buf_read d q 6;
        b \<leftarrow> arr_get (pool (bpool g)) i;
        b \<leftarrow> set_param b 6 0 ps;
        schedule_buf (cb_status_indication mesh) i b g }
      else if c = ZB_NWK_CMD_REJOIN_RESPONSE then zb_nlme_rejoin_response (cb_join cbs) stale i g
      else if c = ZB_NWK_CMD_NETWORK_UPDATE then do {
        upd \<leftarrow> nwk_update_at d q;
        if conflict_here (upd_command_options upd) (upd_epid upd) g
        then zb_panid_conflict_network_update_recv panid upd g
        else zb_free_buf i g }
      else zb_free_buf i g)"

definition nwk_frame_indication ::
  "'cb cmd_cbs \<Rightarrow> (nat \<Rightarrow> zb_neighbor_tbl_ent) \<Rightarrow> u32 \<Rightarrow> nat \<Rightarrow> ('cb, 'w) cmd_g_scheme \<Rightarrow> ('cb, 'w) cmd_g_scheme option" where
  "nwk_frame_indication cbs stale base i g = do {
     b \<leftarrow> arr_get (pool (bpool g)) i;
     let p = ZB_BUF_BEGIN b;
     fc \<leftarrow> buf_read (data_buf b) p 2;
     if ZB_NWK_FRAMECTL_GET_FRAME_TYPE fc = ZB_NWK_FRAME_TYPE_DATA then do {
       (_, g) \<leftarrow> zb_schedule_callback (cb_nlde_data_indication cbs) (of_nat i) g;
       Some g }
     else if ZB_NWK_FRAMECTL_GET_FRAME_TYPE fc = ZB_NWK_FRAME_TYPE_COMMAND then do {
       nh \<leftarrow> nwk_hdr_at (data_buf b) p;
       c \<leftarrow> arr_get (data_buf b) (p + zb_nwk_hdr_size fc);
       nwk_command cbs stale base i (data_buf b) nh c (p + zb_nwk_hdr_size fc + 1) g }
     else Some g }"

end
