(* ===== verification/Nwk_Nlme.thy ===== *)
theory Nwk_Nlme
  imports Nwk_Cmd
begin

text \<open>
  The requests of the higher layer to manage the network layer, \<^verbatim>\<open>nwk/nwk_nlme.c\<close>: leaving and making a child leave, the
  reset, the poll of a sleeping device, reading and writing the attributes of the information base, and a
  network status command. Enumerations that are not packed have four bytes in the parameters.
\<close>

section \<open>State\<close>

definition ZB_NWK_STATUS_INVALID_PARAMETER :: u8 where "ZB_NWK_STATUS_INVALID_PARAMETER = 0xc1"
definition ZB_NWK_STATUS_UNKNOWN_DEVICE :: u8 where "ZB_NWK_STATUS_UNKNOWN_DEVICE = 0xc8"
definition ZB_NWK_STATUS_UNSUPPORTED_ATTRIBUTE :: u8 where "ZB_NWK_STATUS_UNSUPPORTED_ATTRIBUTE = 0xc9"
definition ZB_NWK_PASSIVE_ACK_TIMEOUT :: u16 where "ZB_NWK_PASSIVE_ACK_TIMEOUT = 100"
definition ZB_SYNC_LOSS_REASON_BEACON_LOST :: u32 where "ZB_SYNC_LOSS_REASON_BEACON_LOST = 2"

definition ZB_NIB_ATTRIBUTE_SEQUENCE_NUMBER :: u32 where "ZB_NIB_ATTRIBUTE_SEQUENCE_NUMBER = 0x81"
definition ZB_NIB_ATTRIBUTE_PASSIVE_ASK_TIMEOUT :: u32 where "ZB_NIB_ATTRIBUTE_PASSIVE_ASK_TIMEOUT = 0x82"
definition ZB_NIB_ATTRIBUTE_MAX_BROADCAST_RETRIES :: u32 where "ZB_NIB_ATTRIBUTE_MAX_BROADCAST_RETRIES = 0x83"
definition ZB_NIB_ATTRIBUTE_MAX_CHILDREN :: u32 where "ZB_NIB_ATTRIBUTE_MAX_CHILDREN = 0x84"
definition ZB_NIB_ATTRIBUTE_MAX_DEPTH :: u32 where "ZB_NIB_ATTRIBUTE_MAX_DEPTH = 0x85"
definition ZB_NIB_ATTRIBUTE_MAX_ROUTERS :: u32 where "ZB_NIB_ATTRIBUTE_MAX_ROUTERS = 0x86"
definition ZB_NIB_ATTRIBUTE_ADDR_ALLOC :: u32 where "ZB_NIB_ATTRIBUTE_ADDR_ALLOC = 0x90"
definition ZB_NIB_ATTRIBUTE_USE_TREE_ROUTING :: u32 where "ZB_NIB_ATTRIBUTE_USE_TREE_ROUTING = 0x91"
definition ZB_NIB_ATTRIBUTE_MANAGER_ADDR :: u32 where "ZB_NIB_ATTRIBUTE_MANAGER_ADDR = 0x92"
definition ZB_NIB_ATTRIBUTE_UPDATE_ID :: u32 where "ZB_NIB_ATTRIBUTE_UPDATE_ID = 0x94"
definition ZB_NIB_ATTRIBUTE_EXTENDED_PANID :: u32 where "ZB_NIB_ATTRIBUTE_EXTENDED_PANID = 0x9a"
definition ZB_NIB_ATTRIBUTE_SECURITY_LEVEL :: u32 where "ZB_NIB_ATTRIBUTE_SECURITY_LEVEL = 0xa0"
definition ZB_NIB_ATTRIBUTE_SECURITY_MATERIAL_SET :: u32 where "ZB_NIB_ATTRIBUTE_SECURITY_MATERIAL_SET = 0xa1"
definition ZB_NIB_ATTRIBUTE_ACTIVE_KEY_SEQ_NUMBER :: u32 where "ZB_NIB_ATTRIBUTE_ACTIVE_KEY_SEQ_NUMBER = 0xa2"
definition ZB_NIB_ATTRIBUTE_SECURE_ALL_FRAMES :: u32 where "ZB_NIB_ATTRIBUTE_SECURE_ALL_FRAMES = 0xa5"

record 'cb nlme_g = "'cb cmd_g" +
  passive_ack_timeout :: u16
  max_broadcast_retries :: u8
  addr_alloc :: "3 word"

record 'cb nlme_cbs =
  cb_cmd :: "'cb cmd_cbs"
  cb_nlme_reset_confirm :: 'cb
  cb_mlme_reset_request :: 'cb
  cb_nlme_sync_confirm :: 'cb
  cb_mlme_sync_loss_indication :: 'cb
  cb_nlme_get_confirm :: 'cb
  cb_nlme_set_confirm :: 'cb

definition nlme_data :: "'cb nlme_cbs \<Rightarrow> 'cb data_cbs" where "nlme_data cbs = cmd_data (cb_cmd cbs)"

text \<open>A status for the higher layer, in the header of the buffer.\<close>

definition NWK_CONFIRM_STATUS :: "'cb \<Rightarrow> nat \<Rightarrow> u8 \<Rightarrow> ('cb, 'w) bp_g_scheme \<Rightarrow> ('cb, 'w) bp_g_scheme option" where
  "NWK_CONFIRM_STATUS f i s g = do {
     b \<leftarrow> arr_get (pool (bpool g)) i;
     schedule_buf f i (b\<lparr>hdr := (hdr b)\<lparr>hdr_status := ucast s\<rparr>\<rparr>) g }"

section \<open>Leaving\<close>

text \<open>
  May the device with a long address be made to leave? The status of a refusal, or the neighbor entry, which is none when
  the device itself is to leave.
\<close>

definition leave_target ::
  "zb_ieee_addr \<Rightarrow> ('cb, 'w) nlme_g_scheme \<Rightarrow> ((u8 + zb_neighbor_tbl_ent option) \<times> ('cb, 'w) nlme_g_scheme) option" where
  "leave_target dev g =
     (if \<not> nwk_joined g then Some (Inl ZB_NWK_STATUS_INVALID_REQUEST, g)
      else if \<not> ieee_is_zero dev \<and> (mesh_device_type g = ZB_NWK_DEVICE_TYPE_COORDINATOR \<or> mesh_device_type g = ZB_NWK_DEVICE_TYPE_ROUTER) then do {
        (ret, n, z) \<leftarrow> zb_nwk_neighbor_get_by_ieee (ucast (nib_depth (snwk g))) dev (neighbor (snwk g)) (addr_tbl (snwk g));
        let g = g\<lparr>snwk := (snwk g)\<lparr>addr_tbl := z\<rparr>\<rparr>;
        if ret \<noteq> RET_OK then Some (Inl ZB_NWK_STATUS_UNKNOWN_DEVICE, g)
        else do {
          n \<leftarrow> n;
          e \<leftarrow> arr_get (base_neighbor (neighbor (snwk g))) n;
          Some (if relationship e = ZB_NWK_RELATIONSHIP_UNAUTHENTICATED_CHILD then Inl ZB_NWK_STATUS_SUCCESS
                else if relationship e \<noteq> ZB_NWK_RELATIONSHIP_CHILD then Inl ZB_NWK_STATUS_UNKNOWN_DEVICE
                else Inr (Some e), g) } }
      else Some (Inr None, g))"

text \<open>The last address that was assigned to an end device, as the integer the code computes.\<close>

definition last_ed_address :: "zb_nwk \<Rightarrow> int" where
  "last_ed_address w = uint (mac_short_address w) + uint (max_routers w) * uint (cskip w) + uint (ed_child_num w) + 1 - 1"

text \<open>The command is built; then the entry of the child is looked at, also when there is none.\<close>

definition send_leave ::
  "'cb nlme_cbs \<Rightarrow> nat \<Rightarrow> zb_neighbor_tbl_ent option \<Rightarrow> bool \<Rightarrow> u8 \<Rightarrow> ('cb, 'w) nlme_g_scheme \<Rightarrow> ('cb, 'w) nlme_g_scheme option" where
  "send_leave cbs i nbt remove_children rejoin g = do {
     secure \<leftarrow> secure_leave g;
     b \<leftarrow> arr_get (pool (bpool g)) i;
     (b, p, g) \<leftarrow> (case nbt of
         None \<Rightarrow> nwk_alloc_and_fill_hdr b ZB_NWK_BROADCAST_RX_ON_WHEN_IDLE (Some (mac_extended_address g)) None False secure True
                   (g\<lparr>rejoin_after_leave := rejoin\<rparr>)
       | Some e \<Rightarrow> do {
           child \<leftarrow> zb_address_short_by_ref (addr_ref e) (addr_tbl (snwk g));
           long \<leftarrow> zb_address_ieee_by_ref (addr_ref e) (addr_tbl (snwk g));
           nwk_alloc_and_fill_hdr b child (Some (mac_extended_address g)) (Some long) False secure True g });
     d \<leftarrow> arr_set (data_buf b) (p + 6) 1;
     (b, c) \<leftarrow> nwk_alloc_and_fill_cmd (b\<lparr>data_buf := d\<rparr>) ZB_NWK_CMD_LEAVE 1;
     d \<leftarrow> arr_set (data_buf b) c (leave_payload (nbt \<noteq> None) (rejoin \<noteq> 0) remove_children);
     e \<leftarrow> nbt;
     child \<leftarrow> zb_address_short_by_ref (addr_ref e) (addr_tbl (snwk g));
     let w = (if uint child = last_ed_address (snwk g) then (snwk g)\<lparr>ed_child_num := ed_child_num (snwk g) - 1\<rparr> else snwk g);
     forward_buf (cb_mesh (nlme_data cbs)) i (b\<lparr>data_buf := d\<rparr>) ZB_NWK_INTERNAL_LEAVE_CONFIRM_AT_DATA_CONFIRM_HANDLE
       (g\<lparr>snwk := w\<rparr>) }"

definition zb_nlme_leave_request :: "'cb nlme_cbs \<Rightarrow> nat \<Rightarrow> ('cb, 'w) nlme_g_scheme \<Rightarrow> ('cb, 'w) nlme_g_scheme option" where
  "zb_nlme_leave_request cbs i g = do {
     b \<leftarrow> arr_get (pool (bpool g)) i;
     r \<leftarrow> get_param b 10;
     (target, g) \<leftarrow> leave_target (take 8 r) g;
     (case target of
        Inr nbt \<Rightarrow> send_leave cbs i nbt (r ! 8 \<noteq> 0) (r ! 9) g
      | Inl status \<Rightarrow> do {
          (b, p) \<leftarrow> zb_buf_initial_alloc b 12;
          d \<leftarrow> arr_copy (data_buf b) p ([status, 0, 0, 0] @ take 8 r);
          schedule_buf (cb_nlme_leave_confirm (cb_cmd cbs)) i (b\<lparr>data_buf := d\<rparr>) g }) }"

section \<open>Reset\<close>

definition zb_nwk_nib_init :: "('cb, 'w) nlme_g_scheme \<Rightarrow> ('cb, 'w) nlme_g_scheme" where
  "zb_nwk_nib_init g =
     g\<lparr>passive_ack_timeout := ZB_NWK_PASSIVE_ACK_TIMEOUT, max_broadcast_retries := ucast ZB_NWK_MAX_BROADCAST_RETRIES,
       snwk := (snwk g)\<lparr>max_routers := ZB_NWK_MAX_ROUTERS, max_depth := ZB_NWK_MAX_DEPTH\<rparr>,
       use_tree_routing := True, aps_rreq_addr := - 1\<rparr>"

text \<open>
  \<^verbatim>\<open>ZB_BZERO\<close> of the whole handle: the state machine, the saved request, the tables of broadcasts and rejoins,
  the known PAN identifiers and the flags. The pointers become \<^verbatim>\<open>NULL\<close> and the reference to the parent 0.
\<close>

definition btr_zero :: zb_nwk_btr where
  "btr_zero = \<lparr>bt_used = False, bt_expiration_time = 0, bt_source_addr = 0, bt_sequence_number = 0\<rparr>"

definition br_zero :: "nat \<Rightarrow> zb_nwk_broadcast_retransmit" where
  "br_zero n = \<lparr>br_used = False, br_retries = 0, br_buf = 0, br_iterator = 0, br_next_retransmit = 0, br_src_addr = 0,
     br_dst_addr = 0, br_seq_num = 0, br_passive_ack = replicate n 0\<rparr>"

definition wa_zero :: zb_nwk_buf_alloc_wait where "wa_zero = \<lparr>wa_used = False, wa_wait = 0, wa_buf = 0\<rparr>"

definition handle_zero :: "('cb, 'w) nlme_g_scheme \<Rightarrow> ('cb, 'w) nlme_g_scheme" where
  "handle_zero g =
     g\<lparr>nlme_state := ZB_NLME_STATE_IDLE, snwk := (snwk g)\<lparr>nwk_parent := 0\<rparr>,
       saved_join := join_request_at (replicate 16 0), join_parent := None,
       rejoin_extended_pan_id := replicate 8 0, rejoin_capability := 0, rejoin_parent := None,
       nwk_status_ind := 0, nwk_status_addr := 0, status_ind_addr := 0,
       nwk_joined := False, router_started := False, is_tc := False,
       btt := map (\<lambda>_. btr_zero) (btt g), btt_cnt := 0,
       brrt := map (\<lambda>e. br_zero (length (br_passive_ack e))) (brrt g), brrt_cnt := 0,
       wait_alloc := map (\<lambda>_. wa_zero) (wait_alloc g), wait_alloc_cnt := 0,
       rejoin_req_table := map (\<lambda>_. 0) (rejoin_req_table g), rejoin_req_table_cnt := 0,
       known_panids := map (\<lambda>_. 0) (known_panids g), new_panid := 0, panid_conflict := False, joined_pro := False\<rparr>"

definition neighbor_clear :: "('cb, 'w) sec_g_scheme \<Rightarrow> ('cb, 'w) sec_g_scheme" where
  "neighbor_clear g = g\<lparr>snwk := (snwk g)\<lparr>neighbor := zb_nwk_neighbor_clear\<rparr>\<rparr>"

definition zb_nlme_reset_request :: "'cb nlme_cbs \<Rightarrow> nat \<Rightarrow> ('cb, 'w) nlme_g_scheme \<Rightarrow> ('cb, 'w) nlme_g_scheme option" where
  "zb_nlme_reset_request cbs i g =
     (if nlme_state g = ZB_NLME_STATE_IDLE \<and> \<not> nwk_joined g then do {
        b \<leftarrow> arr_get (pool (bpool g)) i;
        ps \<leftarrow> get_param b 1;
        if ps ! 0 \<noteq> 0 then
          NWK_CONFIRM_STATUS (cb_nlme_reset_confirm cbs) i ZB_NWK_STATUS_SUCCESS
            (clear_routes (neighbor_clear g))
        else do {
          b \<leftarrow> set_param b 1 0 [1];
          g \<leftarrow> schedule_buf (cb_mlme_reset_request cbs) i b g;
          Some (g\<lparr>nlme_state := ZB_NLME_STATE_RESET\<rparr>) } }
      else NWK_CONFIRM_STATUS (cb_nlme_reset_confirm cbs) i ZB_NWK_STATUS_INVALID_REQUEST g)"

definition zb_mlme_reset_confirm :: "'cb nlme_cbs \<Rightarrow> nat \<Rightarrow> ('cb, 'w) nlme_g_scheme \<Rightarrow> ('cb, 'w) nlme_g_scheme option" where
  "zb_mlme_reset_confirm cbs i g =
     NWK_CONFIRM_STATUS (cb_nlme_reset_confirm cbs) i ZB_NWK_STATUS_SUCCESS (neighbor_clear (handle_zero (zb_nwk_nib_init g)))"

section \<open>Polling the parent\<close>

definition zb_nlme_sync_request :: "'cb nlme_cbs \<Rightarrow> nat \<Rightarrow> ('cb, 'w) nlme_g_scheme \<Rightarrow> ('cb, 'w) nlme_g_scheme option" where
  "zb_nlme_sync_request cbs i g = do {
     b \<leftarrow> arr_get (pool (bpool g)) i;
     ps \<leftarrow> get_param b 1;
     if ps ! 0 \<noteq> 0 then NWK_CONFIRM_STATUS (cb_nlme_sync_confirm cbs) i ZB_NWK_STATUS_INVALID_PARAMETER g
     else do {
       a \<leftarrow> zb_address_short_by_ref (nwk_parent (snwk g)) (addr_tbl (snwk g));
       b \<leftarrow> poll_param a b g;
       g \<leftarrow> put_buf i b g;
       (_, g) \<leftarrow> zb_schedule_tx_cb (cb_handle_poll_request (cb_join (cb_cmd cbs))) (of_nat i) g;
       Some g } }"

text \<open>While a device rejoins, a poll that has worked leaves the buffer to the timeout.\<close>

definition zb_mlme_poll_confirm :: "'cb nlme_cbs \<Rightarrow> nat \<Rightarrow> ('cb, 'w) nlme_g_scheme \<Rightarrow> ('cb, 'w) nlme_g_scheme option" where
  "zb_mlme_poll_confirm cbs i g =
     (if nlme_state g = ZB_NLME_STATE_REJOIN then do {
        b \<leftarrow> arr_get (pool (bpool g)) i;
        if hdr_status (hdr b) \<noteq> ucast MAC_SUCCESS then do {
          g \<leftarrow> remove_parent_from_potential_parents (rejoin_parent g) g;
          (_, g) \<leftarrow> zb_schedule_callback (cb_rejoin_scan_confirm (cb_join (cb_cmd cbs))) (of_nat i) g;
          Some g }
        else Some g }
      else do {
        (_, g) \<leftarrow> zb_schedule_callback (cb_nlme_sync_confirm cbs) (of_nat i) g;
        Some g })"

text \<open>A lost beacon makes the handler schedule itself once more.\<close>

definition zb_mlme_sync_loss_indication :: "'cb nlme_cbs \<Rightarrow> nat \<Rightarrow> ('cb, 'w) nlme_g_scheme \<Rightarrow> ('cb, 'w) nlme_g_scheme option" where
  "zb_mlme_sync_loss_indication cbs i g = do {
     b \<leftarrow> arr_get (pool (bpool g)) i;
     ps \<leftarrow> get_param b 8;
     if ZB_LETOH32 (take 4 ps) = ZB_SYNC_LOSS_REASON_BEACON_LOST then do {
       (_, g) \<leftarrow> zb_schedule_callback (cb_mlme_sync_loss_indication cbs) (of_nat i) g;
       Some g }
     else zb_free_buf i g }"

section \<open>The attributes of the information base\<close>

text \<open>
  An attribute: its length and the bytes that are written as its value. The code stores the value of all attributes
  but the extended PAN identifier through a pointer to bytes, so of two bytes only the low one is written.
\<close>

definition nib_get :: "u32 \<Rightarrow> ('cb, 'w) nlme_g_scheme \<Rightarrow> (nat \<times> u8 list) option" where
  "nib_get a g =
     (if a = ZB_NIB_ATTRIBUTE_SEQUENCE_NUMBER then Some (1, [nib_sequence_number g])
      else if a = ZB_NIB_ATTRIBUTE_PASSIVE_ASK_TIMEOUT then Some (2, [ucast (passive_ack_timeout g)])
      else if a = ZB_NIB_ATTRIBUTE_MAX_BROADCAST_RETRIES then Some (1, [max_broadcast_retries g])
      else if a = ZB_NIB_ATTRIBUTE_MAX_CHILDREN then Some (1, [max_children (snwk g)])
      else if a = ZB_NIB_ATTRIBUTE_MAX_DEPTH then Some (1, [max_depth (snwk g)])
      else if a = ZB_NIB_ATTRIBUTE_MAX_ROUTERS then Some (1, [max_routers (snwk g)])
      else if a = ZB_NIB_ATTRIBUTE_ADDR_ALLOC then Some (1, [ucast (addr_alloc g)])
      else if a = ZB_NIB_ATTRIBUTE_USE_TREE_ROUTING then Some (1, [if use_tree_routing g then 1 else 0])
      else if a = ZB_NIB_ATTRIBUTE_MANAGER_ADDR then Some (2, [ucast (nwk_manager_addr g)])
      else if a = ZB_NIB_ATTRIBUTE_UPDATE_ID then Some (1, [update_id (snwk g)])
      else if a = ZB_NIB_ATTRIBUTE_EXTENDED_PANID then Some (8, take 8 (extended_pan_id (snwk g)))
      else if a = ZB_NIB_ATTRIBUTE_SECURITY_LEVEL then Some (1, [ucast (security_level (snwk g))])
      else if a = ZB_NIB_ATTRIBUTE_SECURITY_MATERIAL_SET then Some (1, [ucast (active_secur_material_i g)])
      else if a = ZB_NIB_ATTRIBUTE_ACTIVE_KEY_SEQ_NUMBER then Some (1, [active_key_seq_number g])
      else if a = ZB_NIB_ATTRIBUTE_SECURE_ALL_FRAMES then Some (1, [if secure_all_frames g then 1 else 0])
      else None)"

definition zb_nlme_get_request :: "'cb nlme_cbs \<Rightarrow> nat \<Rightarrow> ('cb, 'w) nlme_g_scheme \<Rightarrow> ('cb, 'w) nlme_g_scheme option" where
  "zb_nlme_get_request cbs i g = do {
     b \<leftarrow> arr_get (pool (bpool g)) i;
     req \<leftarrow> buf_read (data_buf b) (ZB_BUF_BEGIN b) 4;
     let (n, v) = (case nib_get (ZB_LETOH32 req) g of Some r \<Rightarrow> r | None \<Rightarrow> (0, []));
     (b, p) \<leftarrow> zb_buf_initial_alloc b (10 + of_nat n);
     let status = (if nib_get (ZB_LETOH32 req) g = None then ZB_NWK_STATUS_UNSUPPORTED_ATTRIBUTE else ZB_NWK_STATUS_SUCCESS);
     d \<leftarrow> arr_copy (data_buf b) p ([status, 0, 0, 0] @ req @ ZB_HTOLE16 (of_nat n) @ v);
     schedule_buf (cb_nlme_get_confirm cbs) i (b\<lparr>data_buf := d\<rparr>) g }"

definition zb_nlme_get_confirm :: "nat \<Rightarrow> ('cb, 'w) nlme_g_scheme \<Rightarrow> ('cb, 'w) nlme_g_scheme option" where
  "zb_nlme_get_confirm i g = zb_free_buf i g"

text \<open>Setting an attribute reads one byte at \<open>q\<close>, of the extended PAN identifier eight; the attributes are those that can be read.\<close>

definition nib_set :: "u32 \<Rightarrow> u8 list \<Rightarrow> nat \<Rightarrow> ('cb, 'w) nlme_g_scheme \<Rightarrow> ('cb, 'w) nlme_g_scheme option option" where
  "nib_set a d q g =
     (if nib_get a g = None then Some None
      else if a = ZB_NIB_ATTRIBUTE_EXTENDED_PANID then do {
        bs \<leftarrow> buf_read d q 8;
        Some (Some (g\<lparr>snwk := (snwk g)\<lparr>extended_pan_id := bs\<rparr>\<rparr>)) }
      else do {
        v \<leftarrow> arr_get d q;
        Some
         (if a = ZB_NIB_ATTRIBUTE_SEQUENCE_NUMBER then Some (g\<lparr>nib_sequence_number := v\<rparr>)
          else if a = ZB_NIB_ATTRIBUTE_PASSIVE_ASK_TIMEOUT then Some (g\<lparr>passive_ack_timeout := ucast v\<rparr>)
          else if a = ZB_NIB_ATTRIBUTE_MAX_BROADCAST_RETRIES then Some (g\<lparr>max_broadcast_retries := v\<rparr>)
          else if a = ZB_NIB_ATTRIBUTE_MAX_CHILDREN then Some (g\<lparr>snwk := (snwk g)\<lparr>max_children := v\<rparr>\<rparr>)
          else if a = ZB_NIB_ATTRIBUTE_MAX_DEPTH then Some (g\<lparr>snwk := (snwk g)\<lparr>max_depth := v\<rparr>\<rparr>)
          else if a = ZB_NIB_ATTRIBUTE_MAX_ROUTERS then Some (g\<lparr>snwk := (snwk g)\<lparr>max_routers := v\<rparr>\<rparr>)
          else if a = ZB_NIB_ATTRIBUTE_ADDR_ALLOC then Some (g\<lparr>addr_alloc := ucast v\<rparr>)
          else if a = ZB_NIB_ATTRIBUTE_USE_TREE_ROUTING then Some (g\<lparr>use_tree_routing := bit v 0\<rparr>)
          else if a = ZB_NIB_ATTRIBUTE_MANAGER_ADDR then Some (g\<lparr>nwk_manager_addr := ucast v\<rparr>)
          else if a = ZB_NIB_ATTRIBUTE_UPDATE_ID then Some (g\<lparr>snwk := (snwk g)\<lparr>update_id := v\<rparr>\<rparr>)
          else if a = ZB_NIB_ATTRIBUTE_SECURITY_LEVEL then Some (g\<lparr>snwk := (snwk g)\<lparr>security_level := ucast v\<rparr>\<rparr>)
          else if a = ZB_NIB_ATTRIBUTE_SECURITY_MATERIAL_SET then Some (g\<lparr>active_secur_material_i := ucast v\<rparr>)
          else if a = ZB_NIB_ATTRIBUTE_ACTIVE_KEY_SEQ_NUMBER then Some (g\<lparr>active_key_seq_number := v\<rparr>)
          else Some (g\<lparr>secure_all_frames := bit v 0\<rparr>)) })"

definition zb_nlme_set_request :: "'cb nlme_cbs \<Rightarrow> nat \<Rightarrow> ('cb, 'w) nlme_g_scheme \<Rightarrow> ('cb, 'w) nlme_g_scheme option" where
  "zb_nlme_set_request cbs i g = do {
     b \<leftarrow> arr_get (pool (bpool g)) i;
     req \<leftarrow> buf_read (data_buf b) (ZB_BUF_BEGIN b) 4;
     r \<leftarrow> nib_set (ZB_LETOH32 req) (data_buf b) (ZB_BUF_BEGIN b + 6) g;
     (b, p) \<leftarrow> zb_buf_initial_alloc b 8;
     d \<leftarrow> arr_copy (data_buf b) p ([if r = None then ZB_NWK_STATUS_UNSUPPORTED_ATTRIBUTE else ZB_NWK_STATUS_SUCCESS, 0, 0, 0] @ req);
     schedule_buf (cb_nlme_set_confirm cbs) i (b\<lparr>data_buf := d\<rparr>) (case r of Some g \<Rightarrow> g | None \<Rightarrow> g) }"

definition zb_nlme_set_confirm :: "nat \<Rightarrow> ('cb, 'w) nlme_g_scheme \<Rightarrow> ('cb, 'w) nlme_g_scheme option" where
  "zb_nlme_set_confirm i g = zb_free_buf i g"

section \<open>A network status command\<close>

text \<open>The parameters are read while the packet in front of them is written.\<close>

definition zb_nlme_send_status :: "'cb nlme_cbs \<Rightarrow> nat \<Rightarrow> ('cb, 'w) nlme_g_scheme \<Rightarrow> ('cb, 'w) nlme_g_scheme option" where
  "zb_nlme_send_status cbs i g = do {
     b \<leftarrow> arr_get (pool (bpool g)) i;
     t \<leftarrow> zb_get_buf_tail b 9;
     dest \<leftarrow> buf_read (data_buf b) t 2;
     (b, _, g) \<leftarrow> nwk_alloc_and_fill_hdr b (ZB_LETOH16 dest) None None False False True g;
     (b, c) \<leftarrow> nwk_alloc_and_fill_cmd b ZB_NWK_CMD_NETWORK_STATUS 6;
     status \<leftarrow> buf_read (data_buf b) (t + 2) 4;
     d \<leftarrow> arr_copy (data_buf b) c status;
     a \<leftarrow> buf_read d (t + 6) 2;
     d \<leftarrow> arr_copy d (c + 4) a;
     h \<leftarrow> arr_get d (t + 8);
     forward_buf (cb_mesh (nlme_data cbs)) i (b\<lparr>data_buf := d\<rparr>) h g }"

end
