(* ===== verification/Nwk_Data_Lemmas.thy ===== *)
theory Nwk_Data_Lemmas
  imports Nwk_Data Nwk_Mesh_Expiry
begin

text \<open>
  The tables of the data path: their invariant, kept by every operation, as three more interpretations of the
  table interface. Leaving the network resets two counters and not the entries they count: what it keeps is the
  invariant without the claim that the counters are right.
\<close>

section \<open>Tables whose count may be wrong\<close>

text \<open>
  Leaving the network sets two counters to 0 and leaves the entries used, so the invariant of a table has a
  flag: the count is claimed to be right only when \<open>cn\<close> holds.
\<close>

definition table_inv :: "bool \<Rightarrow> ('e \<Rightarrow> bool) \<Rightarrow> nat \<Rightarrow> 'e list \<Rightarrow> u8 \<Rightarrow> bool" where
  "table_inv cn used cap a n \<longleftrightarrow> length a = cap \<and> cap < 256 \<and> (cn \<longrightarrow> unat n = length (filter used a))"

lemma table_inv_True: "table_inv True = table_ok"
  by (simp add: table_inv_def table_ok_def fun_eq_iff)

lemma table_inv_mono: "table_inv cn used cap a n \<Longrightarrow> (d \<Longrightarrow> cn) \<Longrightarrow> table_inv d used cap a n"
  by (simp add: table_inv_def)

lemma table_inv_update:
  "table_inv cn used cap a n \<Longrightarrow> i < length a \<Longrightarrow> used e = used (a ! i) \<Longrightarrow> table_inv cn used cap (a[i := e]) n"
  using filter_update_count [of i a used e] by (auto simp: table_inv_def split: if_splits)

context used_table
begin

lemma inv_get_taken:
  assumes ok: "table_inv cn used cap a n" and get: "NWK_ARRAY_GET_ENT used set_used (a, n) = (Some i, a', n')"
  shows "i < length a \<and> \<not> used (a ! i) \<and> a' = a[i := set_used True (a ! i)] \<and> table_inv cn used cap a' n'
    \<and> length a' = length a"
proof (cases cn)
  case True
  with get_taken [OF _ get] ok show ?thesis by (auto simp: table_inv_True)
next
  case False
  with ok get show ?thesis by (auto simp: NWK_ARRAY_GET_ENT_def find_index_0 table_inv_def split: option.splits)
qed

lemma inv_put_back:
  assumes ok: "table_inv cn used cap a n" and i: "i < length a" "used (a ! i)"
  shows "NWK_ARRAY_PUT_ENT set_used (Some i) (a, n) = Some (a[i := set_used False (a ! i)], n - 1)
    \<and> table_inv cn used cap (a[i := set_used False (a ! i)]) (n - 1)"
proof (cases cn)
  case True
  with put_back [OF _ i] ok show ?thesis by (auto simp: table_inv_True)
next
  case False
  with ok i show ?thesis by (simp add: NWK_ARRAY_PUT_ENT_def table_inv_def)
qed

end

interpretation bt: used_table bt_used set_bt_used
  by unfold_locales (simp add: set_bt_used_def)

interpretation br: used_table br_used set_br_used
  by unfold_locales (simp add: set_br_used_def)

interpretation wa: used_table wa_used set_wa_used
  by unfold_locales (simp add: set_wa_used_def)

section \<open>What leaves the tables alone\<close>

definition data_tables ::
  "('cb, 'w) data_g_scheme \<Rightarrow> (zb_nwk_btr list \<times> u8) \<times> (zb_nwk_broadcast_retransmit list \<times> u8) \<times> zb_nwk_buf_alloc_wait list \<times> u8"
where
  "data_tables g = ((btt g, btt_cnt g), (brrt g, brrt_cnt g), wait_alloc g, wait_alloc_cnt g)"

lemma data_tables_update [simp]:
  "data_tables (g\<lparr>sched := s\<rparr>) = data_tables g" "data_tables (g\<lparr>time := t\<rparr>) = data_tables g"
  "data_tables (g\<lparr>bpool := p\<rparr>) = data_tables g" "data_tables (g\<lparr>snwk := w\<rparr>) = data_tables g"
  "data_tables (g\<lparr>nib_rreq_id := i\<rparr>) = data_tables g" "data_tables (g\<lparr>nib_sequence_number := i\<rparr>) = data_tables g"
  "data_tables (g\<lparr>routing_table := rt\<rparr>) = data_tables g"
  "data_tables (g\<lparr>pending_table := pt, pending_table_cnt := n\<rparr>) = data_tables g"
  by (simp_all add: data_tables_def)

named_theorems data_frame \<open>operations that leave the tables of the data path alone\<close>

lemma schedule_callback_data [data_frame]: "zb_schedule_callback f p g = Some (r, g') \<Longrightarrow> data_tables g' = data_tables g"
  by (auto simp: zb_schedule_callback_def bind_eq_Some_conv split: option.splits)

lemma schedule_alarm_data [data_frame]: "zb_schedule_alarm f p d g = Some (r, g') \<Longrightarrow> data_tables g' = data_tables g"
  by (auto simp: zb_schedule_alarm_def Let_def bind_eq_Some_conv split: prod.splits option.splits)

lemma alarm_cancel_data [data_frame]: "zb_schedule_alarm_cancel f p g = Some (r, g') \<Longrightarrow> data_tables g' = data_tables g"
  by (auto simp: zb_schedule_alarm_cancel_def bind_eq_Some_conv)

lemma get_buf_data [data_frame]: "zb_get_buf d g = Some (r, g') \<Longrightarrow> data_tables g' = data_tables g"
  by (auto simp: zb_get_buf_def Let_def bind_eq_Some_conv split: if_splits option.splits)

lemma put_buf_data [data_frame]: "put_buf i b g = Some g' \<Longrightarrow> data_tables g' = data_tables g"
  by (auto simp: put_buf_def bind_eq_Some_conv)

lemma get_delayed_data:
  assumes "zb_get_buf_delayed cb d g = Some (r, g')"
  shows "data_tables g' = data_tables g"
proof -
  obtain b g1 where g1: "zb_get_buf d g = Some (b, g1)"
    using assms by (cases "zb_get_buf d g") (auto simp: zb_get_buf_delayed_def)
  have "data_tables g' = data_tables g1"
  proof (cases b)
    case (Some i)
    then show ?thesis using assms g1 schedule_callback_data
      by (fastforce simp: zb_get_buf_delayed_def)
  next
    case None
    then show ?thesis using assms g1
      by (auto simp: zb_get_buf_delayed_def Let_def bind_eq_Some_conv case_prod_unfold split: option.split_asm if_split_asm)
  qed
  with get_buf_data [OF g1] show ?thesis by simp
qed

lemma get_in_data [data_frame]: "zb_get_in_buf_delayed cb g = Some (r, g') \<Longrightarrow> data_tables g' = data_tables g"
  by (simp add: zb_get_in_buf_delayed_def get_delayed_data)

lemma get_out_data [data_frame]: "zb_get_out_buf_delayed cb g = Some (r, g') \<Longrightarrow> data_tables g' = data_tables g"
  by (simp add: zb_get_out_buf_delayed_def get_delayed_data)

lemma free_to_pool_data: "free_to_pool b g = Some g' \<Longrightarrow> data_tables g' = data_tables g"
  by (auto simp: free_to_pool_def Let_def bind_eq_Some_conv)

lemma hand_over_data: "hand_over s q d g = Some g' \<Longrightarrow> data_tables g' = data_tables g"
  by (auto simp: hand_over_def Let_def bind_eq_Some_conv ZB_STK_PUSH_def dest!: get_buf_data schedule_callback_data)

lemma free_buf_data [data_frame]: "zb_free_buf b g = Some g' \<Longrightarrow> data_tables g' = data_tables g"
proof -
  assume f: "zb_free_buf b g = Some g'"
  then obtain g1 where g1: "free_to_pool b g = Some g1" by (auto simp: zb_free_buf_def bind_eq_Some_conv)
  have "data_tables g' = data_tables g1"
    using f g1 by (auto simp: zb_free_buf_def Let_def bind_eq_Some_conv case_prod_unfold
        dest!: hand_over_data split: option.split_asm)
  with free_to_pool_data [OF g1] show ?thesis by simp
qed

lemma neighbor_by_short_data [data_frame]: "neighbor_by_short a g = Some (n, g') \<Longrightarrow> data_tables g' = data_tables g"
  by (auto simp: neighbor_by_short_def bind_eq_Some_conv)

lemma alloc_hdr_data [data_frame]: "nwk_alloc_and_fill_hdr b a s d m e c g = Some (b', p, g') \<Longrightarrow> data_tables g' = data_tables g"
  by (auto simp: nwk_alloc_and_fill_hdr_def Let_def bind_eq_Some_conv)

lemma forward_buf_data [data_frame]: "forward_buf cbs i b h g = Some g' \<Longrightarrow> data_tables g' = data_tables g"
  by (auto simp: forward_buf_def bind_eq_Some_conv dest!: data_frame)

lemma secur_status_data [data_frame]: "zb_secur_nwk_status cb i s st g = Some g' \<Longrightarrow> data_tables g' = data_tables g"
  by (auto simp: zb_secur_nwk_status_def bind_eq_Some_conv dest!: data_frame)

lemma status_indication_data [data_frame]: "status_indication cbs i st a g = Some g' \<Longrightarrow> data_tables g' = data_tables g"
  by (auto simp: status_indication_def dest!: data_frame)

section \<open>The invariant\<close>

text \<open>The waiting packets are a stack: the used entries are the first ones.\<close>

definition stacked :: "('e \<Rightarrow> bool) \<Rightarrow> 'e list \<Rightarrow> u8 \<Rightarrow> bool" where
  "stacked used a n \<longleftrightarrow> (\<forall>j < length a. used (a ! j) \<longleftrightarrow> j < unat n)"

definition bt_key :: "zb_nwk_btr \<Rightarrow> u16 \<times> u8" where "bt_key e = (bt_source_addr e, bt_sequence_number e)"

definition acks_ok :: "zb_nwk_broadcast_retransmit list \<Rightarrow> bool" where
  "acks_ok a \<longleftrightarrow> (\<forall>e \<in> set a. br_used e \<longrightarrow> length (br_passive_ack e) = ZB_NWK_BRCST_PASSIVE_ACK_ARRAY_SIZE)"

definition btt_ok :: "bool \<Rightarrow> zb_nwk_btr list \<times> u8 \<Rightarrow> bool" where
  "btt_ok cn = (\<lambda>(a, n). table_inv cn bt_used ZB_NWK_BTR_TABLE_SIZE a n \<and> keyed bt_used bt_key a)"

definition brrt_ok :: "bool \<Rightarrow> zb_nwk_broadcast_retransmit list \<times> u8 \<Rightarrow> bool" where
  "brrt_ok cn = (\<lambda>(a, n). table_inv cn br_used ZB_NWK_BRR_TABLE_SIZE a n \<and> acks_ok a)"

definition wait_ok :: "zb_nwk_buf_alloc_wait list \<times> u8 \<Rightarrow> bool" where
  "wait_ok = (\<lambda>(a, n). table_ok wa_used ZB_NWK_WAIT_ALLOC_TABLE_SIZE a n \<and> stacked wa_used a n)"

definition data_inv :: "bool \<Rightarrow> ('cb, 'w) data_g_scheme \<Rightarrow> bool" where
  "data_inv cn g \<longleftrightarrow> (case data_tables g of (bt, br, wa) \<Rightarrow> btt_ok cn bt \<and> brrt_ok cn br \<and> wait_ok wa)"

abbreviation data_ok :: "('cb, 'w) data_g_scheme \<Rightarrow> bool" where
  "data_ok \<equiv> data_inv True"

lemma data_ok_frame: "data_inv cn g \<Longrightarrow> data_tables g' = data_tables g \<Longrightarrow> data_inv cn g'"
  by (simp add: data_inv_def)

lemma data_okD:
  "data_inv cn g \<Longrightarrow> btt_ok cn (btt g, btt_cnt g)" "data_inv cn g \<Longrightarrow> brrt_ok cn (brrt g, brrt_cnt g)"
  "data_inv cn g \<Longrightarrow> wait_ok (wait_alloc g, wait_alloc_cnt g)"
  by (simp_all add: data_inv_def data_tables_def)

lemma data_ok_btt: "data_inv cn g \<Longrightarrow> btt_ok cn (a, n) \<Longrightarrow> data_inv cn (g\<lparr>btt := a, btt_cnt := n\<rparr>)"
  and data_ok_brrt: "data_inv cn g \<Longrightarrow> brrt_ok cn (b, n) \<Longrightarrow> data_inv cn (g\<lparr>brrt := b, brrt_cnt := n\<rparr>)"
  and data_ok_wait: "data_inv cn g \<Longrightarrow> wait_ok (w, n) \<Longrightarrow> data_inv cn (g\<lparr>wait_alloc := w, wait_alloc_cnt := n\<rparr>)"
  by (simp_all add: data_inv_def data_tables_def)

subsection \<open>One entry\<close>

lemma acks_ok_update: "acks_ok a \<Longrightarrow> (br_used e \<Longrightarrow> length (br_passive_ack e) = ZB_NWK_BRCST_PASSIVE_ACK_ARRAY_SIZE) \<Longrightarrow>
  acks_ok (a[i := e])"
  unfolding acks_ok_def by (auto dest: set_update_subset_insert [THEN subsetD])

lemma put_btt_ok:
  assumes ok: "data_inv cn g" and k: "k < length (btt g)" "bt_used (btt g ! k)" and put: "put_btt k g = Some g'"
  shows "data_inv cn g'"
proof -
  have t: "table_inv cn bt_used ZB_NWK_BTR_TABLE_SIZE (btt g) (btt_cnt g)" "keyed bt_used bt_key (btt g)"
    using data_okD(1) [OF ok] by (simp_all add: btt_ok_def)
  have "btt_ok cn ((btt g)[k := set_bt_used False (btt g ! k)], btt_cnt g - 1)"
    using bt.inv_put_back [OF t(1) k] keyed_drop [OF t(2)] by (simp add: btt_ok_def set_bt_used_def)
  with put bt.inv_put_back [OF t(1) k] data_ok_btt [OF ok] show ?thesis by (auto simp: put_btt_def)
qed

lemma put_brrt_ok:
  assumes ok: "data_inv cn g" and k: "k < length (brrt g)" "br_used (brrt g ! k)" and put: "put_brrt k g = Some g'"
  shows "data_inv cn g'"
proof -
  have t: "table_inv cn br_used ZB_NWK_BRR_TABLE_SIZE (brrt g) (brrt_cnt g)" "acks_ok (brrt g)"
    using data_okD(2) [OF ok] by (simp_all add: brrt_ok_def)
  have "brrt_ok cn ((brrt g)[k := set_br_used False (brrt g ! k)], brrt_cnt g - 1)"
    using br.inv_put_back [OF t(1) k] acks_ok_update [OF t(2), of "set_br_used False (brrt g ! k)" k]
    by (simp add: brrt_ok_def set_br_used_def)
  with put br.inv_put_back [OF t(1) k] data_ok_brrt [OF ok] show ?thesis by (auto simp: put_brrt_def)
qed

lemma wait_top:
  assumes "wait_ok (a, n)" and "n \<noteq> 0"
  shows "unat n - 1 < length a" "wa_used (a ! (unat n - 1))"
proof -
  have l: "unat n \<le> length a"
    using assms(1) length_filter_le [of wa_used a] by (simp add: wait_ok_def table_ok_def)
  have "unat n \<noteq> 0" using assms(2) by (simp add: unat_eq_zero)
  with l show "unat n - 1 < length a" by linarith
  with assms(1) \<open>unat n \<noteq> 0\<close> show "wa_used (a ! (unat n - 1))" by (simp add: wait_ok_def stacked_def)
qed

lemma put_wait_ok:
  assumes ok: "data_inv cn g" and n: "wait_alloc_cnt g \<noteq> 0" and put: "put_wait_alloc (unat (wait_alloc_cnt g) - 1) g = Some g'"
  shows "data_inv cn g'"
proof -
  let ?k = "unat (wait_alloc_cnt g) - 1" and ?a = "wait_alloc g" and ?n = "wait_alloc_cnt g"
  note w = data_okD(3) [OF ok] and k = wait_top [OF data_okD(3) [OF ok] n]
  have t: "table_ok wa_used ZB_NWK_WAIT_ALLOC_TABLE_SIZE ?a ?n" using w by (simp add: wait_ok_def)
  have u: "unat (?n - 1) = unat ?n - 1" using n unat_minus_one by blast
  have "stacked wa_used (?a[?k := set_wa_used False (?a ! ?k)]) (?n - 1)"
    using w k(1) by (auto simp: stacked_def wait_ok_def u nth_list_update set_wa_used_def)
  with wa.put_back [OF t k] have "wait_ok (?a[?k := set_wa_used False (?a ! ?k)], ?n - 1)" by (simp add: wait_ok_def)
  with put wa.put_back [OF t k] data_ok_wait [OF ok] show ?thesis by (auto simp: put_wait_alloc_def)
qed

section \<open>Records of broadcasts\<close>

definition seen :: "u16 \<Rightarrow> u8 \<Rightarrow> ('cb, 'w) data_g_scheme \<Rightarrow> bool" where
  "seen src seq g \<longleftrightarrow> (\<exists>e \<in> set (btt g). bt_used e \<and> bt_key e = (src, seq))"

lemma seen_frame: "data_tables g' = data_tables g \<Longrightarrow> seen src seq g' = seen src seq g"
  by (simp add: seen_def data_tables_def)

lemma bex_set_nth: "(\<exists>e \<in> set xs. P e) \<longleftrightarrow> (\<exists>j < length xs. P (xs ! j))"
  by (metis in_set_conv_nth)

lemma btt_find_none: "btt_find src seq g = None \<longleftrightarrow> \<not> seen src seq g"
  by (auto simp: btt_find_def bt.find_none seen_def bt_key_def bex_set_nth)

definition bt_record :: "u16 \<Rightarrow> u8 \<Rightarrow> zb_nwk_btr \<Rightarrow> zb_nwk_btr" where
  "bt_record src seq e = e\<lparr>bt_used := True, bt_source_addr := src, bt_sequence_number := seq,
     bt_expiration_time := ZB_NWK_BROADCAST_DELIVERY_TIME\<rparr>"

lemma bt_record_simps [simp]:
  "bt_used (bt_record src seq e)" "bt_key (bt_record src seq e) = (src, seq)"
  "bt_expiration_time (bt_record src seq e) = ZB_NWK_BROADCAST_DELIVERY_TIME"
  by (simp_all add: bt_record_def bt_key_def)

lemma start_expiry_data [data_frame]: "ZB_NWK_START_BTR_EXPIRY cbs g = Some g' \<Longrightarrow> data_tables g' = data_tables g"
  by (auto simp: ZB_NWK_START_BTR_EXPIRY_def bind_eq_Some_conv dest!: data_frame split: if_split_asm)

lemma btt_add_cases:
  assumes "btt_add cbs src seq g = Some (ok, g')"
  obtains (full) "\<not> ok" "g' = g" "\<forall>e \<in> set (btt g). bt_used e"
  | (added) k where "ok" "k < length (btt g)" "\<not> bt_used (btt g ! k)"
      "NWK_ARRAY_GET_ENT bt_used set_bt_used (btt g, btt_cnt g) = (Some k, (btt g)[k := set_bt_used True (btt g ! k)], btt_cnt g + 1)"
      "data_tables g' = (((btt g)[k := bt_record src seq (btt g ! k)], btt_cnt g + 1), (brrt g, brrt_cnt g), wait_alloc g, wait_alloc_cnt g)"
proof (cases "find_index (\<lambda>e. \<not> bt_used e) 0 (btt g)")
  case None
  with assms have "\<not> ok" "g' = g" by (simp_all add: btt_add_def NWK_ARRAY_GET_ENT_def)
  moreover have "\<forall>e \<in> set (btt g). bt_used e" using None by (simp add: find_index_None)
  ultimately show thesis by (rule full)
next
  case (Some k)
  then have k: "k < length (btt g)" "\<not> bt_used (btt g ! k)" by (simp_all add: find_index_0)
  have n: "NWK_ARRAY_GET_ENT bt_used set_bt_used (btt g, btt_cnt g) =
      (Some k, (btt g)[k := set_bt_used True (btt g ! k)], btt_cnt g + 1)"
    using Some by (simp add: NWK_ARRAY_GET_ENT_def)
  with assms k have "ok" and s: "ZB_NWK_START_BTR_EXPIRY cbs
      (g\<lparr>btt := (btt g)[k := bt_record src seq (btt g ! k)], btt_cnt := btt_cnt g + 1\<rparr>) = Some g'"
    by (auto simp: btt_add_def bind_eq_Some_conv set_bt_used_def bt_record_def)
  from start_expiry_data [OF s] have "data_tables g' = (((btt g)[k := bt_record src seq (btt g ! k)], btt_cnt g + 1),
      (brrt g, brrt_cnt g), wait_alloc g, wait_alloc_cnt g)"
    by (simp add: data_tables_def)
  with \<open>ok\<close> k n show thesis by (rule added)
qed

lemma btt_add_ok:
  assumes ok: "data_inv cn g" and new: "\<not> seen src seq g" and run: "btt_add cbs src seq g = Some (r, g')"
  shows "data_inv cn g'"
  using run
proof (cases rule: btt_add_cases)
  case full
  with ok show ?thesis by simp
next
  case (added k)
  let ?e = "bt_record src seq (btt g ! k)"
  have t: "table_inv cn bt_used ZB_NWK_BTR_TABLE_SIZE (btt g) (btt_cnt g)" "keyed bt_used bt_key (btt g)"
    using data_okD(1) [OF ok] by (simp_all add: btt_ok_def)
  have "table_inv cn bt_used ZB_NWK_BTR_TABLE_SIZE ((btt g)[k := ?e]) (btt_cnt g + 1)"
    using bt.inv_get_taken [OF t(1) added(4)] table_inv_update [of cn bt_used _ "(btt g)[k := set_bt_used True (btt g ! k)]" _ k ?e]
      added(2) by (simp add: set_bt_used_def)
  moreover have "keyed bt_used bt_key ((btt g)[k := ?e])"
    by (rule keyed_insert [OF t(2)]) (use new in \<open>auto simp: seen_def\<close>)
  ultimately have "data_inv cn (g\<lparr>btt := (btt g)[k := ?e], btt_cnt := btt_cnt g + 1\<rparr>)"
    using data_ok_btt [OF ok] by (simp add: btt_ok_def)
  then show ?thesis by (rule data_ok_frame) (use added(5) in \<open>simp add: data_tables_def\<close>)
qed

lemma btt_add_seen:
  assumes run: "btt_add cbs src seq g = Some (r, g')"
  shows "r \<longleftrightarrow> (\<exists>e \<in> set (btt g). \<not> bt_used e)" "seen s q g' \<longleftrightarrow> seen s q g \<or> r \<and> s = src \<and> q = seq"
proof -
  show "r \<longleftrightarrow> (\<exists>e \<in> set (btt g). \<not> bt_used e)"
    using run by (cases rule: btt_add_cases) auto
  show "seen s q g' \<longleftrightarrow> seen s q g \<or> r \<and> s = src \<and> q = seq"
    using run
  proof (cases rule: btt_add_cases)
    case (added k)
    have b: "btt g' = (btt g)[k := bt_record src seq (btt g ! k)]" using added(5) by (simp add: data_tables_def)
    have "(\<exists>e \<in> set (btt g'). bt_used e \<and> bt_key e = (s, q)) \<longleftrightarrow>
        (\<exists>j < length (btt g). bt_used (btt g' ! j) \<and> bt_key (btt g' ! j) = (s, q))"
      unfolding b by (simp add: bex_set_nth)
    also have "\<dots> \<longleftrightarrow> (s = src \<and> q = seq) \<or> (\<exists>j < length (btt g). bt_used (btt g ! j) \<and> bt_key (btt g ! j) = (s, q))"
      using added(2,3) unfolding b by (auto simp: nth_list_update split: if_split_asm)
    finally show ?thesis using added(1) by (auto simp: seen_def bex_set_nth)
  qed auto
qed

section \<open>Where a packet is sent to\<close>

lemma add_pending_data [data_frame]: "zb_nwk_mesh_add_buf_to_pending i h g = Some (r, g') \<Longrightarrow> data_tables g' = data_tables g"
  by (cases "NWK_ARRAY_GET_ENT pd_used set_pd_used (pending_table g, pending_table_cnt g)")
    (auto simp: zb_nwk_mesh_add_buf_to_pending_def bind_eq_Some_conv split: option.split_asm)

lemma ask_discovery_data [data_frame]: "zb_nwk_mesh_route_discovery cbs None d r g = Some g' \<Longrightarrow> data_tables g' = data_tables g"
  by (auto simp: zb_nwk_mesh_route_discovery_def bind_eq_Some_conv dest!: data_frame)

lemma wait_for_route_data [data_frame]: "wait_for_route cbs b i h d g = Some (r, st, g') \<Longrightarrow> data_tables g' = data_tables g"
  by (auto simp: wait_for_route_def bind_eq_Some_conv dest!: data_frame split: if_split_asm)

lemma route_destination_data [data_frame]:
  "route_destination cbs i h fc d g = Some (r, a, st, g') \<Longrightarrow> data_tables g' = data_tables g"
  by (auto simp: route_destination_def Let_def bind_eq_Some_conv dest!: data_frame split: if_split_asm option.split_asm)

lemma dest_neighbor_data [data_frame]:
  assumes n: "dest_neighbor d p fc a g = Some (n, g')"
  shows "data_tables g' = data_tables g"
proof -
  define m where "m = (if ZB_NWK_FRAMECTL_GET_DESTINATION_IEEE fc = 0
    then zb_address_by_short a False False (addr_tbl (snwk g))
    else do { ieee \<leftarrow> buf_read d (p + 8) 8; zb_address_by_ieee ieee False False (addr_tbl (snwk g)) })"
  note n = n [unfolded dest_neighbor_def m_def [symmetric]]
  then obtain ret ref z where m: "m = Some (ret, ref, z)" by (cases m) auto
  define q where "q r = zb_nwk_neighbor_get (ucast (nib_depth ((snwk g)\<lparr>addr_tbl := z\<rparr>))) r False (neighbor (snwk g)) z" for r
  show ?thesis
  proof (cases "ret = RET_OK")
    case True
    with n m obtain r u where "ref = Some r" "q r = Some u"
      by (cases ref; cases "q (the ref)") (auto simp: q_def)
    with n m True show ?thesis by (cases u) (auto simp: q_def)
  next
    case False
    with n m show ?thesis by auto
  qed
qed

lemma calc_destination_data [data_frame]:
  "nwk_calc_destination cbs i h g = Some (r, a, ind, st, g') \<Longrightarrow> data_tables g' = data_tables g"
  by (auto simp: nwk_calc_destination_def Let_def bind_eq_Some_conv dest!: data_frame split: if_split_asm option.split_asm)

section \<open>Operations keep the invariant\<close>

lemma brrt_replace:
  assumes ok: "data_inv cn g" and k: "k < length (brrt g)" and u: "br_used e = br_used (brrt g ! k)"
    and l: "length (br_passive_ack e) = length (br_passive_ack (brrt g ! k))"
  shows "data_inv cn (g\<lparr>brrt := (brrt g)[k := e]\<rparr>)"
proof -
  have b: "table_inv cn br_used ZB_NWK_BRR_TABLE_SIZE (brrt g) (brrt_cnt g)" "acks_ok (brrt g)"
    using data_okD(2) [OF ok] by (simp_all add: brrt_ok_def)
  have "brrt_ok cn ((brrt g)[k := e], brrt_cnt g)"
    using table_inv_update [OF b(1) k u] acks_ok_update [OF b(2), of e k] b(2) k u l
    by (auto simp: brrt_ok_def acks_ok_def)
  from data_ok_brrt [OF ok this] show ?thesis by simp
qed

lemma btt_tick:
  assumes ok: "data_inv cn g" and k: "k < length (btt g)" "bt_used (btt g ! k)"
  shows "data_inv cn (g\<lparr>btt := (btt g)[k := (btt g ! k)\<lparr>bt_expiration_time := t\<rparr>]\<rparr>)"
proof -
  let ?e = "(btt g ! k)\<lparr>bt_expiration_time := t\<rparr>"
  have b: "table_inv cn bt_used ZB_NWK_BTR_TABLE_SIZE (btt g) (btt_cnt g)" "keyed bt_used bt_key (btt g)"
    using data_okD(1) [OF ok] by (simp_all add: btt_ok_def)
  have "btt_ok cn ((btt g)[k := ?e], btt_cnt g)"
    using table_inv_update [OF b(1) k(1), of ?e] keyed_update [OF b(2) k(2), of ?e] k(2)
    by (simp add: btt_ok_def bt_key_def)
  from data_ok_btt [OF ok this] show ?thesis by simp
qed

lemma btr_expiry_loop_ok: "data_inv cn g \<Longrightarrow> btr_expiry_loop ks g = Some g' \<Longrightarrow> data_inv cn g'"
proof (induction ks arbitrary: g)
  case (Cons k ks)
  have k: "k < length (btt g)" using Cons.prems(2) by (auto simp: arr_get_def bind_eq_Some_conv split: if_split_asm)
  consider "\<not> bt_used (btt g ! k)" "btr_expiry_loop ks g = Some g'"
    | t where "bt_used (btt g ! k)" "btr_expiry_loop ks (g\<lparr>btt := (btt g)[k := (btt g ! k)\<lparr>bt_expiration_time := t\<rparr>]\<rparr>) = Some g'"
    | g1 where "bt_used (btt g ! k)" "put_btt k g = Some g1" "btr_expiry_loop ks g1 = Some g'"
    using Cons.prems(2) k by (auto simp: bind_eq_Some_conv split: if_split_asm)
  then show ?case
  proof cases
    case 2
    from Cons.IH [OF btt_tick [OF Cons.prems(1) k 2(1)] 2(2)] show ?thesis .
  qed (use Cons.IH put_btt_ok [OF Cons.prems(1) k] Cons.prems(1) in blast)+
qed simp

lemma btr_expiry_ok:
  assumes ok: "data_inv cn g" and run: "zb_nwk_btr_expiry cbs g = Some g'"
  shows "data_inv cn g'"
proof (cases "btt_cnt g = 0")
  case False
  with run obtain g1 r where g1: "btr_expiry_loop [0..<ZB_NWK_BTR_TABLE_SIZE] g = Some g1"
      and a: "zb_schedule_alarm (cb_btr_expiry cbs) 0 (of_int ZB_TIME_ONE_SECOND) g1 = Some (r, g')"
    by (auto simp: zb_nwk_btr_expiry_def bind_eq_Some_conv)
  from data_ok_frame [OF btr_expiry_loop_ok [OF ok g1] schedule_alarm_data [OF a]] show ?thesis .
qed (use run ok in \<open>simp add: zb_nwk_btr_expiry_def\<close>)

lemma set_bit_length: "ZB_SET_BIT_IN_BIT_VECTOR v n = Some v' \<Longrightarrow> length v' = length v"
  by (auto simp: ZB_SET_BIT_IN_BIT_VECTOR_def bind_eq_Some_conv arr_set_def split: if_split_asm)

lemma note_passive_ack_cases:
  assumes "note_passive_ack cbs mhr src seq g = Some g'"
  obtains (same) "data_tables g' = data_tables g"
  | (marked) k v g2 where "k < length (brrt g)" "br_used (brrt g ! k)" "length v = length (br_passive_ack (brrt g ! k))"
      "data_tables g2 = ((btt g, btt_cnt g), ((brrt g)[k := (brrt g ! k)\<lparr>br_passive_ack := v\<rparr>], brrt_cnt g),
         wait_alloc g, wait_alloc_cnt g)"
      "g' = g2 \<or> put_brrt k g2 = Some g'"
proof (cases "NWK_ARRAY_FIND_ENT br_used (brrt g) (\<lambda>e. br_src_addr e = src \<and> br_seq_num e = seq)")
  case None
  with assms same show thesis by (simp add: note_passive_ack_def)
next
  case (Some k)
  note f = Some and k = br.find_used [OF Some]
  show thesis
  proof (cases "ZB_FCF_GET_SRC_ADDRESSING_MODE (frame_control mhr) = ZB_ADDR_16BIT_DEV_OR_BROADCAST")
    case True
    with f assms obtain n g1 where g1: "neighbor_by_short (addr_short (src_addr mhr)) g = Some (n, g1)"
      by (auto simp: note_passive_ack_def bind_eq_Some_conv)
    note t = neighbor_by_short_data [OF g1]
    have b: "brrt g1 = brrt g" using t by (simp add: data_tables_def)
    show thesis
    proof (cases n)
      case None
      with f True assms g1 t same show thesis by (simp add: note_passive_ack_def)
    next
      case (Some j)
      with f True assms g1 k b obtain v where
        v: "ZB_SET_BIT_IN_BIT_VECTOR (br_passive_ack (brrt g1 ! k)) j = Some v"
        by (auto simp: note_passive_ack_def bind_eq_Some_conv arr_get_def)
      define g2 where "g2 = g1\<lparr>brrt := (brrt g1)[k := (brrt g1 ! k)\<lparr>br_passive_ack := v\<rparr>]\<rparr>"
      have g2: "data_tables g2 = ((btt g, btt_cnt g), ((brrt g)[k := (brrt g ! k)\<lparr>br_passive_ack := v\<rparr>], brrt_cnt g),
          wait_alloc g, wait_alloc_cnt g)"
        using t by (simp add: g2_def data_tables_def)
      have l: "length v = length (br_passive_ack (brrt g ! k))" using set_bit_length [OF v] b by simp
      consider "g' = g2" | r g3 where "zb_schedule_callback (cb_call_br_confirm cbs) (br_buf (brrt g1 ! k)) g2 = Some (r, g3)"
          "put_brrt k g3 = Some g'"
        using Some f True assms g1 k b v
        by (auto simp: note_passive_ack_def Let_def bind_eq_Some_conv g2_def split: if_split_asm)
      then show thesis
      proof cases
        case 1
        with marked [OF _ _ l g2] k show thesis by simp
      next
        case 2
        with marked [OF _ _ l, of g3] g2 schedule_callback_data [OF 2(1)] k show thesis by simp
      qed
    qed
  next
    case False
    with f assms same show thesis by (simp add: note_passive_ack_def)
  qed
qed

lemma note_passive_ack_btt:
  assumes "note_passive_ack cbs mhr src seq g = Some g'"
  shows "btt g' = btt g"
  using assms
proof (cases rule: note_passive_ack_cases)
  case (marked k v g2)
  then show ?thesis by (auto simp: data_tables_def put_brrt_def bind_eq_Some_conv)
qed (simp add: data_tables_def)

lemma note_passive_ack_ok:
  assumes ok: "data_inv cn g" and run: "note_passive_ack cbs mhr src seq g = Some g'"
  shows "data_inv cn g'"
  using run
proof (cases rule: note_passive_ack_cases)
  case same
  with ok show ?thesis by (rule data_ok_frame)
next
  case (marked k v g2)
  let ?e = "(brrt g ! k)\<lparr>br_passive_ack := v\<rparr>"
  have "data_inv cn (g\<lparr>brrt := (brrt g)[k := ?e]\<rparr>)"
    by (rule brrt_replace [OF ok]) (use marked in simp_all)
  then have "data_inv cn g2" by (rule data_ok_frame) (use marked(4) in \<open>simp add: data_tables_def\<close>)
  moreover have "brrt g2 = (brrt g)[k := ?e]" using marked(4) by (simp add: data_tables_def)
  ultimately show ?thesis using marked(1,2,5) put_brrt_ok [of cn g2 k g'] by auto
qed

lemma broadcast_taken_ok:
  assumes ok: "data_inv cn g" and run: "broadcast_taken cbs mhr nh g = Some (r, g')"
  shows "data_inv cn g'"
proof (cases "broadcast_wanted (nh_dst_addr nh) g")
  case True
  with run obtain g1 where g1: "(if \<not> joined_pro g then note_passive_ack cbs mhr (nh_src_addr nh) (nh_seq_num nh) g
        else Some g) = Some g1"
      and r: "(if btt_find (nh_src_addr nh) (nh_seq_num nh) g1 \<noteq> None then Some (False, g1)
        else btt_add cbs (nh_src_addr nh) (nh_seq_num nh) g1) = Some (r, g')"
    by (auto simp: broadcast_taken_def bind_eq_Some_conv)
  have "data_inv cn g1" using g1 note_passive_ack_ok [OF ok] ok by (auto split: if_split_asm)
  with r btt_add_ok show ?thesis by (fastforce simp: btt_find_none split: if_split_asm)
qed (use run ok in \<open>simp add: broadcast_taken_def\<close>)

subsection \<open>Forwarding\<close>

lemma brrt_add_ok:
  assumes ok: "data_inv cn g" and run: "brrt_add cbs i nh g = Some (r, g')"
  shows "data_inv cn g'"
proof (cases "brrt_cnt g < of_nat ZB_NWK_BRR_TABLE_SIZE")
  case True
  obtain k a n where get: "NWK_ARRAY_GET_ENT br_used set_br_used (brrt g, brrt_cnt g) = (k, a, n)" by (rule prod_cases3)
  with True run obtain k' where k: "k = Some k'" by (cases k) (auto simp: brrt_add_def)
  have b: "table_inv cn br_used ZB_NWK_BRR_TABLE_SIZE (brrt g) (brrt_cnt g)" "acks_ok (brrt g)"
    using data_okD(2) [OF ok] by (simp_all add: brrt_ok_def)
  note t = br.inv_get_taken [OF b(1) get [unfolded k]]
  from True run get k t obtain it g1 g2 r1 r2 where
    g1: "zb_schedule_alarm_cancel (cb_broadcast_transmition cbs) 0 (g\<lparr>brrt := a[k' := (a ! k')\<lparr>br_buf := of_nat i, br_retries := 0,
        br_src_addr := nh_src_addr nh, br_dst_addr := nh_dst_addr nh, br_seq_num := nh_seq_num nh, br_iterator := it,
        br_passive_ack := replicate ZB_NWK_BRCST_PASSIVE_ACK_ARRAY_SIZE 0\<rparr>], brrt_cnt := n\<rparr>) = Some (r1, g1)"
    and g2: "zb_get_out_buf_delayed (cb_broadcast_transmition cbs) g1 = Some (r2, g')"
    by (auto simp: brrt_add_def bind_eq_Some_conv)
  let ?e = "(a ! k')\<lparr>br_buf := of_nat i, br_retries := 0,
        br_src_addr := nh_src_addr nh, br_dst_addr := nh_dst_addr nh, br_seq_num := nh_seq_num nh, br_iterator := it,
        br_passive_ack := replicate ZB_NWK_BRCST_PASSIVE_ACK_ARRAY_SIZE 0\<rparr>"
  have "table_inv cn br_used ZB_NWK_BRR_TABLE_SIZE (a[k' := ?e]) n"
    by (rule table_inv_update; (use t in blast)?) (use t in simp_all)
  moreover have "acks_ok (a[k' := ?e])"
    using t acks_ok_update [OF b(2), of ?e k'] by simp
  ultimately have "data_inv cn (g\<lparr>brrt := a[k' := ?e], brrt_cnt := n\<rparr>)"
    using data_ok_brrt [OF ok] by (simp add: brrt_ok_def)
  from data_ok_frame [OF data_ok_frame [OF this alarm_cancel_data [OF g1]] get_out_data [OF g2]] show ?thesis .
qed (use run ok in \<open>simp add: brrt_add_def\<close>)

text \<open>The assertion on the entry holds: a place is free whenever the count says so.\<close>

lemma brrt_room:
  assumes "data_ok g" and "brrt_cnt g < of_nat ZB_NWK_BRR_TABLE_SIZE"
  shows "fst (NWK_ARRAY_GET_ENT br_used set_br_used (brrt g, brrt_cnt g)) \<noteq> None"
  using br.get_full [of ZB_NWK_BRR_TABLE_SIZE "brrt g" "brrt_cnt g"] data_okD(2) [OF assms(1)] assms(2)
  by (auto simp: brrt_ok_def table_inv_True zb_config word_less_nat_alt)

lemma forward_known_ok:
  assumes ok: "data_inv cn g" and run: "forward_known cbs i nh a ind h g = Some (r, g')"
  shows "data_inv cn g'"
proof -
  let ?bc = "ZB_NWK_IS_ADDRESS_BROADCAST (nh_dst_addr nh)"
  from run obtain c g1 where g1: "(if ?bc \<and> btt_find (nh_src_addr nh) (nh_seq_num nh) g = None
      then btt_add cbs (nh_src_addr nh) (nh_seq_num nh) g else Some (True, g)) = Some (c, g1)"
    by (auto simp: forward_known_def Let_def bind_eq_Some_conv)
  have ok1: "data_inv cn g1" using g1 btt_add_ok [OF ok] ok by (auto simp: btt_find_none split: if_split_asm)
  show ?thesis
  proof (cases c)
    case True
    with run g1 obtain b g2 where g2: "put_buf i b g1 = Some g2"
        and r: "(if ?bc \<and> mesh_device_type g2 \<noteq> ZB_NWK_DEVICE_TYPE_ED then brrt_add cbs i nh g2
          else do { (_, g) \<leftarrow> zb_schedule_callback (cb_mcps_data_request cbs) (of_nat i) g2; Some (True, g) }) = Some (r, g')"
      by (auto simp: forward_known_def Let_def bind_eq_Some_conv)
    have ok2: "data_inv cn g2" using data_ok_frame [OF ok1 put_buf_data [OF g2]] .
    from r brrt_add_ok [OF ok2] data_ok_frame [OF ok2 schedule_callback_data] show ?thesis
      by (auto simp: bind_eq_Some_conv split: if_split_asm)
  next
    case False
    with run g1 ok1 show ?thesis by (simp add: forward_known_def Let_def)
  qed
qed

lemma forward_failed_data [data_frame]: "forward_failed cbs i a st g = Some g' \<Longrightarrow> data_tables g' = data_tables g"
  by (auto simp: forward_failed_def bind_eq_Some_conv dest!: data_frame split: option.split_asm if_split_asm)

lemma forward_ok:
  assumes ok: "data_inv cn g" and run: "zb_nwk_forward cbs i g = Some g'"
  shows "data_inv cn g'"
proof -
  from run obtain nh h ret a ind st g1 where g1: "nwk_calc_destination (cb_mesh cbs) i h g = Some (ret, a, ind, st, g1)"
    and r: "(if ret = RET_OK then do {
       (ok, g2) \<leftarrow> forward_known cbs i nh a ind h g1;
       if ok then Some g2 else forward_failed cbs i a (case st of None \<Rightarrow> ZB_NWK_COMMAND_STATUS_NO_ROUTE_AVAILABLE | Some st \<Rightarrow> st) g2 }
     else if ret = RET_BUSY then Some g1
     else forward_failed cbs i a (case st of None \<Rightarrow> ZB_NWK_COMMAND_STATUS_NO_ROUTE_AVAILABLE | Some st \<Rightarrow> st) g1) = Some g'"
    by (auto simp: zb_nwk_forward_def Let_def bind_eq_Some_conv)
  note ok1 = data_ok_frame [OF ok calc_destination_data [OF g1]]
  show ?thesis
  proof (cases "ret = RET_OK")
    case True
    with r obtain k g2 where g2: "forward_known cbs i nh a ind h g1 = Some (k, g2)" by (auto simp: bind_eq_Some_conv)
    with r True have "data_tables g' = data_tables g2" by (cases k) (auto dest: forward_failed_data)
    with forward_known_ok [OF ok1 g2] show ?thesis by (rule data_ok_frame)
  next
    case False
    with r have "data_tables g' = data_tables g1" by (auto dest: forward_failed_data split: if_split_asm)
    with ok1 show ?thesis by (rule data_ok_frame)
  qed
qed

subsection \<open>Repeating broadcasts\<close>

lemma br_unicast_loop_ok:
  "data_inv cn g \<Longrightarrow> br_unicast_loop ks g = Some (u, g') \<Longrightarrow>
   data_inv cn g' \<and> (case u of None \<Rightarrow> True | Some (k, n) \<Rightarrow> k < length (brrt g') \<and> br_used (brrt g' ! k)
     \<and> n = unat (br_iterator (brrt g' ! k)))"
proof (induction ks arbitrary: g)
  case (Cons k ks)
  let ?e = "brrt g ! k"
  have k: "k < length (brrt g)" using Cons.prems(2) by (auto simp: arr_get_def bind_eq_Some_conv split: if_split_asm)
  consider (go_on) "br_unicast_loop ks g = Some (u, g')"
    | (skip) it where "br_unicast_loop ks (g\<lparr>brrt := (brrt g)[k := ?e\<lparr>br_iterator := it\<rparr>]\<rparr>) = Some (u, g')"
    | (found) "br_used ?e" "u = Some (k, unat (br_iterator ?e))" "g' = g"
    using Cons.prems(2) k by (auto simp: bind_eq_Some_conv split: if_split_asm)
  then show ?case
  proof cases
    case go_on
    then show ?thesis by (rule Cons.IH [OF Cons.prems(1)])
  next
    case skip
    have "data_inv cn (g\<lparr>brrt := (brrt g)[k := ?e\<lparr>br_iterator := it\<rparr>]\<rparr>)"
      by (rule brrt_replace [OF Cons.prems(1) k]) simp_all
    from Cons.IH [OF this skip] show ?thesis .
  next
    case found
    with k Cons.prems(1) show ?thesis by simp
  qed
qed simp

lemma br_next_ok:
  assumes ok: "data_inv cn g" and run: "br_next g = Some (u, g')"
  shows "data_inv cn g' \<and> (case u of None \<Rightarrow> True | Some (k, n) \<Rightarrow> k < length (brrt g') \<and> br_used (brrt g' ! k)
    \<and> (\<forall>m. n = Some m \<longrightarrow> m = unat (br_iterator (brrt g' ! k))))"
proof (cases "NWK_ARRAY_FIND_ENT br_used (brrt g) (\<lambda>e. br_retries e = 0)")
  case (Some k)
  with run br.find_used [OF Some] ok show ?thesis by (auto simp: br_next_def)
next
  case None
  with run obtain v g1 where l: "br_unicast_loop [0..<ZB_NWK_BRR_TABLE_SIZE] g = Some (v, g1)"
    and r: "(case v of
           Some (k, n) \<Rightarrow> Some (Some (k, Some n), g1)
         | None \<Rightarrow> Some (map_option (\<lambda>k. (k, None))
             (NWK_ARRAY_FIND_ENT br_used (brrt g1) (\<lambda>e. ZB_TIME_GE (timer (time g1)) (br_next_retransmit e))), g1)) = Some (u, g')"
    by (auto simp: br_next_def bind_eq_Some_conv)
  note g1 = br_unicast_loop_ok [OF ok l]
  show ?thesis
  proof (cases v)
    case None
    with r g1 show ?thesis by (auto dest!: br.find_used split: option.split)
  next
    case (Some kn)
    with r g1 show ?thesis by (cases kn) auto
  qed
qed

lemma br_advance_keeps: "br_advance n e g = Some e' \<Longrightarrow>
  br_used e' = br_used e \<and> length (br_passive_ack e') = length (br_passive_ack e) \<and> br_buf e' = br_buf e"
  by (auto simp: br_advance_def bind_eq_Some_conv set_bit_length split: option.split_asm)

lemma br_transmit_ok:
  assumes ok: "data_inv cn g" and k: "k < length (brrt g)" "br_used (brrt g ! k)"
    and run: "br_transmit cbs prm k n g = Some g'"
  shows "data_inv cn g'"
proof -
  from run k obtain e where e: "br_advance n (brrt g ! k) g = Some e" by (auto simp: br_transmit_def bind_eq_Some_conv)
  define g1 where "g1 = g\<lparr>brrt := (brrt g)[k := e]\<rparr>"
  have ok1: "data_inv cn g1" unfolding g1_def
    by (rule brrt_replace [OF ok k(1)]) (use br_advance_keeps [OF e] in simp_all)
  have k1: "k < length (brrt g1)" "br_used (brrt g1 ! k)" using k br_advance_keeps [OF e] by (simp_all add: g1_def)
  from run k e obtain p g2 b g3 r where
    g2: "(if br_last e g1 then do { g \<leftarrow> zb_free_buf prm g1; g \<leftarrow> put_brrt k g; Some (unat (br_buf e), g) }
          else Some (prm, g1)) = Some (p, g2)"
    and g3: "put_buf p b g2 = Some g3" and g4: "zb_schedule_callback (cb_mcps_data_request cbs) (of_nat p) g3 = Some (r, g')"
    by (auto simp: br_transmit_def Let_def bind_eq_Some_conv g1_def cong: if_cong)
  have "data_inv cn g2"
  proof (cases "br_last e g1")
    case True
    with g2 obtain g5 where g5: "zb_free_buf prm g1 = Some g5" "put_brrt k g5 = Some g2" by (auto simp: bind_eq_Some_conv)
    have "brrt g5 = brrt g1" using free_buf_data [OF g5(1)] by (simp add: data_tables_def)
    with put_brrt_ok [OF data_ok_frame [OF ok1 free_buf_data [OF g5(1)]] _ _ g5(2)] k1 show ?thesis by simp
  next
    case False
    with g2 ok1 show ?thesis by simp
  qed
  from data_ok_frame [OF data_ok_frame [OF this put_buf_data [OF g3]] schedule_callback_data [OF g4]] show ?thesis .
qed

lemma broadcast_transmition_ok:
  assumes ok: "data_inv cn g" and run: "nwk_broadcast_transmition cbs prm g = Some g'"
  shows "data_inv cn g'"
proof -
  from run obtain u g1 where g1: "br_next g = Some (u, g1)" by (auto simp: nwk_broadcast_transmition_def bind_eq_Some_conv)
  note n = br_next_ok [OF ok g1]
  show ?thesis
  proof (cases u)
    case None
    with run g1 have "data_tables g' = data_tables g1"
      by (auto simp: nwk_broadcast_transmition_def Let_def bind_eq_Some_conv dest!: data_frame split: if_split_asm)
    with n show ?thesis by (blast intro: data_ok_frame)
  next
    case (Some e)
    obtain k m where e: "e = (k, m)" by (cases e)
    show ?thesis
    proof (cases "prm = 0")
      case True
      with run g1 Some e have "data_tables g' = data_tables g1"
        by (auto simp: nwk_broadcast_transmition_def bind_eq_Some_conv dest!: data_frame)
      with n show ?thesis by (blast intro: data_ok_frame)
    next
      case False
      with run g1 Some e obtain g2 where g2: "br_transmit cbs prm k m g1 = Some g2"
        by (auto simp: nwk_broadcast_transmition_def bind_eq_Some_conv)
      with run g1 Some e False have "data_tables g' = data_tables g2"
        by (auto simp: nwk_broadcast_transmition_def bind_eq_Some_conv dest!: data_frame split: if_split_asm)
      moreover have "data_inv cn g2" using br_transmit_ok [OF _ _ _ g2] n Some e by simp
      ultimately show ?thesis by (blast intro: data_ok_frame)
    qed
  qed
qed

subsection \<open>The other operations\<close>

lemma call_status_data [data_frame]: "call_status_indication cbs i g = Some g' \<Longrightarrow> data_tables g' = data_tables g"
  by (auto simp: call_status_indication_def dest!: data_frame)

lemma data_request_data [data_frame]: "zb_nlde_data_request cbs i g = Some g' \<Longrightarrow> data_tables g' = data_tables g"
  by (auto simp: zb_nlde_data_request_def Let_def bind_eq_Some_conv dest!: put_buf_data schedule_callback_data alloc_hdr_data
      forward_buf_data split: if_split_asm)

lemma update_lqi_data [data_frame]: "update_lqi a g = Some g' \<Longrightarrow> data_tables g' = data_tables g"
  by (auto simp: update_lqi_def bind_eq_Some_conv dest!: data_frame split: option.split_asm)

lemma new_buffer_ok:
  assumes ok: "data_inv cn g" and run: "new_buffer_allocated cbs prm g = Some g'"
  shows "data_inv cn g'"
proof (cases "prm \<noteq> 0 \<and> wait_alloc_cnt g \<noteq> 0")
  case True
  with run obtain b g1 r g2 i c g3 g4 where "put_buf prm b g = Some g1"
    "zb_schedule_callback (cb_frame_indication cbs) (of_nat prm) g1 = Some (r, g2)"
    "forward_buf (cb_mesh cbs) i c ZB_NWK_INTERNAL_NSDU_HANDLE g2 = Some g3"
    and g4: "put_wait_alloc (unat (wait_alloc_cnt g) - 1) g3 = Some g4"
      "(if wait_alloc_cnt g4 \<noteq> 0 then do { (_, g) \<leftarrow> zb_get_in_buf_delayed (cb_new_buffer_allocated cbs) g4; Some g }
       else Some g4) = Some g'"
    by (auto simp: new_buffer_allocated_def Let_def bind_eq_Some_conv)
  then have t: "data_tables g3 = data_tables g" by (auto dest!: data_frame)
  then have n: "wait_alloc_cnt g3 = wait_alloc_cnt g" by (simp add: data_tables_def)
  have "data_inv cn g4"
    by (rule put_wait_ok [OF data_ok_frame [OF ok t]]) (use True n g4(1) in simp_all)
  with g4(2) show ?thesis by (auto simp: bind_eq_Some_conv dest: get_in_data intro: data_ok_frame split: if_split_asm)
qed (use run ok in \<open>auto simp: new_buffer_allocated_def\<close>)

section \<open>Receiving\<close>

lemma data_tables_secur [simp]:
  "data_tables (g\<lparr>secur_material_set := k\<rparr>) = data_tables g" "data_tables (g\<lparr>active_secur_material_i := i\<rparr>) = data_tables g"
  "data_tables (g\<lparr>active_key_seq_number := n\<rparr>) = data_tables g" "data_tables (g\<lparr>outgoing_frame_counter := c\<rparr>) = data_tables g"
  "data_tables (g\<lparr>prev_outgoing_frame_counter := c\<rparr>) = data_tables g"
  by (simp_all add: data_tables_def)

lemma key_switch_data: "secur_nwk_key_switch rnd sn g = Some g' \<Longrightarrow> data_tables g' = data_tables g"
  by (auto simp: secur_nwk_key_switch_def secur_generate_key_def Let_def bind_eq_Some_conv split: if_split_asm)

lemma implicit_switch_data [data_frame]: "implicit_switch rnd sn g = Some g' \<Longrightarrow> data_tables g' = data_tables g"
  by (auto simp: implicit_switch_def dest: key_switch_data split: if_split_asm)

lemma unsecure_frame_data [data_frame]:
  assumes run: "zb_nwk_unsecure_frame cb rnd i mhr n g = Some (r, g')"
  shows "data_tables g' = data_tables g"
proof (cases "authenticated g")
  case True
  note run = run [unfolded zb_nwk_unsecure_frame_def Let_def]
  from run True obtain b fc aux ret nbe w where
    b: "arr_get (pool (bpool g)) i = Some b" "buf_read (data_buf b) (ZB_BUF_BEGIN b) 2 = Some fc"
      "aux_place (ZB_BUF_BEGIN b) (zb_nwk_hdr_size fc) = Some aux"
      "unsecure_sender (data_buf b) (ZB_BUF_BEGIN b) aux mhr (snwk g) = Some (ret, nbe, w)"
    by (auto simp: bind_eq_Some_conv)
  show ?thesis
  proof (cases "ret = RET_OK")
    case False
    with run True b show ?thesis by (auto simp: bind_eq_Some_conv dest!: data_frame)
  next
    case ret: True
    with run True b obtain k sn key e f where
      k: "nbe = Some k" "arr_get (data_buf b) (aux + 13) = Some sn" "secur_nwk_key_by_seq sn (g\<lparr>snwk := w\<rparr>) = Some key"
        "arr_get (base_neighbor (neighbor w)) k = Some e" "buf_read (data_buf b) (aux + 1) 4 = Some f"
      by (auto simp: bind_eq_Some_conv)
    obtain refused e' where c: "check_frame_counter (key \<noteq> None) sn (ZB_LETOH32 f) e = (refused, e')" by fastforce
    show ?thesis
    proof (cases refused)
      case (Some st)
      with run True b ret k c show ?thesis by (auto simp: bind_eq_Some_conv dest!: data_frame)
    next
      case None
      show ?thesis
      proof (cases key)
        case None
        with run True b ret k c \<open>refused = None\<close> show ?thesis by (simp add: bind_eq_Some_conv)
      next
        case (Some m)
        have c': "check_frame_counter True sn (ZB_LETOH32 f) e = (None, e')" using c Some None by simp
        from run True b ret k c' Some obtain w2 ms where w2: "set_neighbor k e' w = Some w2"
            "arr_get (secur_material_set g) m = Some ms"
          by (auto simp: bind_eq_Some_conv)
        show ?thesis
        proof (cases "payload_size b (zb_nwk_hdr_size fc) < of_nat ZB_CCM_M")
          case True
          with run \<open>authenticated g\<close> b ret k c' Some w2 show ?thesis by (auto simp: bind_eq_Some_conv dest!: data_frame)
        next
          case False
          with run \<open>authenticated g\<close> b ret k c' Some w2 obtain r1 b1 g1 where
            "unsecure_decrypt (zb_nwk_hdr_size fc) aux (ms_key ms) mhr n b = Some (r1, b1)"
            "put_buf i b1 (g\<lparr>snwk := w2\<rparr>) = Some g1"
            by (auto simp: bind_eq_Some_conv)
          with run False \<open>authenticated g\<close> b ret k c' Some w2 show ?thesis
            by (auto simp: bind_eq_Some_conv dest!: data_frame split: if_split_asm)
        qed
      qed
    qed
  qed
qed (use run in \<open>auto simp: zb_nwk_unsecure_frame_def bind_eq_Some_conv dest!: data_frame\<close>)

lemma wait_push:
  assumes w: "wait_ok (a, n)" and get: "NWK_ARRAY_GET_ENT wa_used set_wa_used (a, n) = (Some k, a', n')"
    and e: "e = (a' ! k)\<lparr>wa_buf := i, wa_wait := 0\<rparr>"
  shows "k < length a' \<and> wait_ok (a'[k := e], n')"
proof -
  have t: "table_ok wa_used ZB_NWK_WAIT_ALLOC_TABLE_SIZE a n" and s: "\<And>j. j < length a \<Longrightarrow> wa_used (a ! j) \<longleftrightarrow> j < unat n"
    using w by (simp_all add: wait_ok_def stacked_def)
  note k = wa.get_taken [OF t get]
  have f: "find_index (\<lambda>e. \<not> wa_used e) 0 a = Some k" "n' = n + 1"
    using get by (auto simp: NWK_ARRAY_GET_ENT_def split: option.splits)
  have kn: "k = unat n"
  proof (rule ccontr)
    assume "k \<noteq> unat n"
    moreover have "\<not> k < unat n" using s [of k] k by blast
    ultimately have "unat n < k" by linarith
    with f(1) have "wa_used (a ! unat n)" by (simp add: find_index_0)
    with s [of "unat n"] \<open>unat n < k\<close> k show False by simp
  qed
  have "unat n + 1 < 256" using k kn t by (simp add: table_ok_def)
  then have u: "unat n' = unat n + 1" by (simp add: f(2) unat_word_ariths(1))
  have "table_ok wa_used ZB_NWK_WAIT_ALLOC_TABLE_SIZE (a'[k := e]) n'"
    by (rule table_ok_update) (use k e in auto)
  moreover have "stacked wa_used (a'[k := e]) n'"
    unfolding stacked_def using k s u kn by (auto simp: nth_list_update e set_wa_used_def less_Suc_eq)
  ultimately show ?thesis using k by (simp add: wait_ok_def)
qed

lemma frame_dispatch_ok:
  assumes ok: "data_inv cn g" and run: "frame_dispatch cbs i dec g = Some g'"
  shows "data_inv cn g'"
proof (cases "dec = (True, True)")
  case True
  obtain k a n where get: "NWK_ARRAY_GET_ENT wa_used set_wa_used (wait_alloc g, wait_alloc_cnt g) = (k, a, n)"
    by (rule prod_cases3)
  show ?thesis
  proof (cases k)
    case None
    with run True get have "data_tables g' = data_tables g"
      by (auto simp: frame_dispatch_def bind_eq_Some_conv dest!: data_frame)
    with ok show ?thesis by (rule data_ok_frame)
  next
    case (Some j)
    let ?g = "g\<lparr>wait_alloc := a[j := (a ! j)\<lparr>wa_buf := of_nat i, wa_wait := 0\<rparr>], wait_alloc_cnt := n\<rparr>"
    note w = wait_push [OF data_okD(3) [OF ok] get [unfolded Some] refl, of "of_nat i"]
    with run True get Some obtain r where "zb_get_in_buf_delayed (cb_new_buffer_allocated cbs) ?g = Some (r, g')"
      by (auto simp: frame_dispatch_def bind_eq_Some_conv)
    from data_ok_frame [OF data_ok_wait [OF ok conjunct2 [OF w]] get_in_data [OF this]] show ?thesis .
  qed
next
  case False
  with run have "data_tables g' = data_tables g"
    by (auto simp: frame_dispatch_def bind_eq_Some_conv dest!: data_frame split: prod.split_asm bool.split_asm)
  with ok show ?thesis by (rule data_ok_frame)
qed

lemma frame_accepted_run:
  assumes "frame_accepted cbs rnd i mhr n fc nh g = Some g'"
  shows "data_tables g' = data_tables g \<or> (\<exists>dec (g1 :: ('a, 'b) data_g_scheme). data_tables g1 = data_tables g \<and> frame_dispatch cbs i dec g1 = Some (g' :: ('a, 'b) data_g_scheme))"
proof -
  from assms obtain ok g1 where g1: "(if ZB_NWK_FRAMECTL_GET_SECURITY fc \<noteq> 0 then do {
        (ret, g) \<leftarrow> zb_nwk_unsecure_frame (cb_status_indication (cb_mesh cbs)) rnd i mhr n g;
        Some (ret = RET_OK, g) } else Some (True, g)) = Some (ok, g1)"
    by (auto simp: frame_accepted_def bind_eq_Some_conv)
  then have t: "data_tables g1 = data_tables g" by (auto simp: bind_eq_Some_conv dest!: data_frame split: if_split_asm)
  show ?thesis
  proof (cases ok)
    case True
    with assms g1 obtain i' b g2 a g3 t c d r where "put_buf i' b g1 = Some g2" "update_lqi a g2 = Some g3"
        and d: "frame_dispatch cbs i (frame_decision t c d r g2) g3 = Some g'"
      by (auto simp: frame_accepted_def Let_def bind_eq_Some_conv)
    then have "data_tables g3 = data_tables g" using t by (auto dest!: data_frame)
    with d show ?thesis by blast
  next
    case False
    with assms g1 t show ?thesis by (auto simp: frame_accepted_def)
  qed
qed

lemma data_indication_run:
  assumes "zb_mcps_data_indication cbs rnd i g = Some g'"
  obtains b n fc mhr nh g1 taken g2 where "put_buf i b g = Some g1"
    "taken \<longrightarrow> frame_accepted cbs rnd i mhr n fc nh g2 = Some g'" "\<not> taken \<longrightarrow> zb_free_buf i g2 = Some g'"
    "g2 = g1 \<or> broadcast_taken cbs mhr nh g1 = Some (taken, g2)"
proof -
  from assms obtain b0 mhr n b p g1 fc nh where
    g1: "arr_get (pool (bpool g)) i = Some b0" "zb_parse_mhr (data_buf b0) (ZB_BUF_BEGIN b0) = Some (mhr, n)"
      "ZB_MAC_CUT_HDR b0 n = Some (b, p)" "put_buf i b g = Some g1" "buf_read (data_buf b) p 2 = Some fc"
      "nwk_hdr_at (data_buf b) p = Some nh"
    by (auto simp: zb_mcps_data_indication_def bind_eq_Some_conv)
  show thesis
  proof (cases "nh_radius nh = 0 \<or> ZB_NWK_FRAMECTL_GET_FRAME_TYPE fc \<noteq> ZB_NWK_FRAME_TYPE_COMMAND
       \<and> ZB_NWK_FRAMECTL_GET_FRAME_TYPE fc \<noteq> ZB_NWK_FRAME_TYPE_DATA")
    case True
    with assms g1 that [of b g1 False mhr n fc nh g1] show thesis by (simp add: zb_mcps_data_indication_def)
  next
    case False
    with assms g1 obtain taken g2 where g2: "(if ZB_NWK_IS_ADDRESS_BROADCAST (nh_dst_addr nh) then broadcast_taken cbs mhr nh g1
          else Some (True, g1)) = Some (taken, g2)"
        "(if taken then frame_accepted cbs rnd i mhr n fc nh g2 else zb_free_buf i g2) = Some g'"
      by (auto simp: zb_mcps_data_indication_def bind_eq_Some_conv)
    with g1 that [of b g1 taken mhr n fc nh g2] show thesis by (auto split: if_split_asm)
  qed
qed

lemma data_indication_ok:
  assumes ok: "data_inv cn g" and run: "zb_mcps_data_indication cbs rnd i g = Some g'"
  shows "data_inv cn g'"
  using run
proof (rule data_indication_run)
  fix b n fc mhr nh g1 taken g2
  assume r: "put_buf i b g = Some g1" "taken \<longrightarrow> frame_accepted cbs rnd i mhr n fc nh g2 = Some g'"
    "\<not> taken \<longrightarrow> zb_free_buf i g2 = Some g'" "g2 = g1 \<or> broadcast_taken cbs mhr nh g1 = Some (taken, g2)"
  have ok1: "data_inv cn g1" using data_ok_frame [OF ok put_buf_data [OF r(1)]] .
  have ok2: "data_inv cn g2" using r(4) broadcast_taken_ok [OF ok1] ok1 by blast
  show ?thesis
  proof (cases taken)
    case True
    with r(2) frame_accepted_run show ?thesis using frame_dispatch_ok data_ok_frame [OF ok2] by blast
  next
    case False
    with r(3) data_ok_frame [OF ok2 free_buf_data] show ?thesis by blast
  qed
qed

end
