(* ===== verification/Nwk_Data_Props.thy ===== *)
theory Nwk_Data_Props
  imports Nwk_Data_Lemmas Nwk_Unsecure_Lemmas
begin

text \<open>
  The properties of the data path: which broadcasts are taken, how their records expire, and where
  the code fails.
\<close>

section \<open>Reachable states\<close>

definition data_cleared :: "('cb, 'w) data_g_scheme \<Rightarrow> bool" where
  "data_cleared g \<longleftrightarrow> length (btt g) = ZB_NWK_BTR_TABLE_SIZE \<and> length (brrt g) = ZB_NWK_BRR_TABLE_SIZE
     \<and> length (wait_alloc g) = ZB_NWK_WAIT_ALLOC_TABLE_SIZE \<and> (\<forall>e \<in> set (btt g). \<not> bt_used e)
     \<and> (\<forall>e \<in> set (brrt g). \<not> br_used e) \<and> (\<forall>e \<in> set (wait_alloc g). \<not> wa_used e)
     \<and> btt_cnt g = 0 \<and> brrt_cnt g = 0 \<and> wait_alloc_cnt g = 0"

definition no_broadcasts :: "('cb, 'w) data_g_scheme \<Rightarrow> bool" where
  "no_broadcasts g \<longleftrightarrow> (\<forall>e \<in> set (btt g). \<not> bt_used e) \<and> (\<forall>e \<in> set (brrt g). \<not> br_used e)"

text \<open>
  A step is a run of one of the functions of the data path, leaving the network, a reset, which clears the whole
  handle, or anything else in the stack, which leaves the three tables alone. \<open>data_step cbs cn g cn' g'\<close> carries the
  flag of the invariant along: leaving is what makes the counters wrong, when broadcasts are recorded or repeated at that
  moment; a reset, or leaving when there are none, makes them right.
\<close>

inductive data_step :: "'cb data_cbs \<Rightarrow> bool \<Rightarrow> ('cb, 'w) data_g_scheme \<Rightarrow> bool \<Rightarrow> ('cb, 'w) data_g_scheme \<Rightarrow> bool" for cbs where
  request: "zb_nlde_data_request cbs i g = Some g' \<Longrightarrow> data_step cbs cn g cn g'"
| forward: "zb_nwk_forward cbs i g = Some g' \<Longrightarrow> data_step cbs cn g cn g'"
| transmition: "nwk_broadcast_transmition cbs i g = Some g' \<Longrightarrow> data_step cbs cn g cn g'"
| status: "call_status_indication cbs i g = Some g' \<Longrightarrow> data_step cbs cn g cn g'"
| new_buffer: "new_buffer_allocated cbs i g = Some g' \<Longrightarrow> data_step cbs cn g cn g'"
| indication: "zb_mcps_data_indication cbs rnd i g = Some g' \<Longrightarrow> data_step cbs cn g cn g'"
| expiry: "zb_nwk_btr_expiry cbs g = Some g' \<Longrightarrow> data_step cbs cn g cn g'"
| leave: "zb_nwk_do_leave cbs i rejoin g = Some g' \<Longrightarrow> data_step cbs cn g (no_broadcasts g) g'"
| reset: "data_cleared g' \<Longrightarrow> data_step cbs cn g True g'"
| other: "data_tables g' = data_tables g \<Longrightarrow> data_step cbs cn g cn g'"

inductive data_reach :: "'cb data_cbs \<Rightarrow> bool \<Rightarrow> ('cb, 'w) data_g_scheme \<Rightarrow> bool" for cbs where
  cleared: "data_cleared g \<Longrightarrow> data_reach cbs True g"
| step: "data_reach cbs cn g \<Longrightarrow> data_step cbs cn g cn' g' \<Longrightarrow> data_reach cbs cn' g'"

lemma data_cleared_ok: "data_cleared g \<Longrightarrow> data_ok g"
  by (simp add: data_cleared_def data_inv_def data_tables_def btt_ok_def brrt_ok_def wait_ok_def table_ok_def table_inv_def
      keyed_def acks_ok_def stacked_def zb_config filter_empty_conv)

lemma do_leave_data: "zb_nwk_do_leave cbs i rejoin g = Some g' \<Longrightarrow>
  data_tables g' = ((btt g, 0), (brrt g, 0), wait_alloc g, wait_alloc_cnt g)"
  by (auto simp: zb_nwk_do_leave_def Let_def bind_eq_Some_conv case_prod_unfold data_tables_def
      dest!: put_buf_data schedule_callback_data free_buf_data split: if_split_asm)

lemma do_leave_ok:
  assumes ok: "data_inv cn g" and run: "zb_nwk_do_leave cbs i rejoin g = Some g'"
  shows "data_inv (no_broadcasts g) g'"
  using data_okD [OF ok]
  by (auto simp: data_inv_def do_leave_data [OF run] btt_ok_def brrt_ok_def table_inv_def no_broadcasts_def filter_empty_conv)

lemma data_step_ok:
  assumes ok: "data_inv cn g" and step: "data_step cbs cn g cn' g'"
  shows "data_inv cn' g'"
  using step
proof cases
  case request
  with data_ok_frame [OF ok data_request_data] show ?thesis by simp
next
  case status
  with data_ok_frame [OF ok call_status_data] show ?thesis by simp
next
  case other
  with data_ok_frame [OF ok] show ?thesis by simp
next
  case leave
  with do_leave_ok [OF ok] show ?thesis by simp
next
  case reset
  with data_cleared_ok show ?thesis by simp
qed (use ok in \<open>auto intro: forward_ok broadcast_transmition_ok new_buffer_ok data_indication_ok btr_expiry_ok\<close>)

lemma data_reach_inv: "data_reach cbs cn g \<Longrightarrow> data_inv cn g"
  by (induction rule: data_reach.induct) (auto intro: data_cleared_ok data_step_ok)

lemma data_inv_tables:
  assumes ok: "data_inv cn g"
  shows "length (btt g) = 16" "length (brrt g) = 8" "length (wait_alloc g) = 5"
    "k < 16 \<Longrightarrow> bt_used (btt g ! k) \<Longrightarrow> btt_find (bt_source_addr (btt g ! k)) (bt_sequence_number (btt g ! k)) g = Some k"
    "j < 5 \<Longrightarrow> wa_used (wait_alloc g ! j) \<longleftrightarrow> j < unat (wait_alloc_cnt g)"
    "unat (wait_alloc_cnt g) = length (filter wa_used (wait_alloc g))"
  using data_okD [OF ok] bt.find_key [of bt_key "btt g" k]
  by (simp_all add: btt_ok_def brrt_ok_def wait_ok_def table_inv_def table_ok_def stacked_def btt_find_def bt_key_def zb_config)

lemma data_ok_tables:
  assumes ok: "data_ok g"
  shows "unat (btt_cnt g) = length (filter bt_used (btt g))"
    and "unat (brrt_cnt g) = length (filter br_used (brrt g))"
  using data_okD [OF ok] by (simp_all add: btt_ok_def brrt_ok_def table_inv_def)

text \<open>
  C14. In every state reached from cleared tables by the functions of the data path, by leaving networks and by resets, in
  any order and with anything else of the stack between them: every recorded broadcast is the one found for its
  source and number, so none is recorded twice; the packets that wait for a second buffer are a stack, counted
  exactly. And unless the device last left a network while a broadcast was recorded or being repeated (\<open>cn\<close>), the
  other two counters are the numbers of used entries as well, and a place for a repeated broadcast is found
  whenever the count says so, as \<^verbatim>\<open>zb_nwk_forward\<close> asserts. (After such a leave both can fail, as the section on leaving shows.)
\<close>

theorem data_tables_invariant:
  assumes "data_reach cbs cn g"
  shows "length (btt g) = 16 \<and> length (brrt g) = 8 \<and> length (wait_alloc g) = 5
    \<and> (\<forall>k < 16. bt_used (btt g ! k) \<longrightarrow>
          btt_find (bt_source_addr (btt g ! k)) (bt_sequence_number (btt g ! k)) g = Some k)
    \<and> (\<forall>j < 5. wa_used (wait_alloc g ! j) \<longleftrightarrow> j < unat (wait_alloc_cnt g))
    \<and> unat (wait_alloc_cnt g) = length (filter wa_used (wait_alloc g))
    \<and> (cn \<longrightarrow> unat (btt_cnt g) = length (filter bt_used (btt g))
        \<and> unat (brrt_cnt g) = length (filter br_used (brrt g))
        \<and> (brrt_cnt g < 8 \<longrightarrow> fst (NWK_ARRAY_GET_ENT br_used set_br_used (brrt g, brrt_cnt g)) \<noteq> None))"
proof -
  note ok = data_reach_inv [OF assms]
  have "data_ok g" if cn using ok that by simp
  then show ?thesis
    by (intro conjI allI impI data_inv_tables [OF ok] data_ok_tables brrt_room) (simp_all add: zb_config)
qed

section \<open>Taking a broadcast\<close>

lemma broadcast_taken_spec:
  assumes run: "broadcast_taken cbs mhr nh g = Some (ok, g')"
  shows "(ok \<longleftrightarrow> broadcast_wanted (nh_dst_addr nh) g \<and> \<not> seen (nh_src_addr nh) (nh_seq_num nh) g
      \<and> (\<exists>e \<in> set (btt g). \<not> bt_used e))
    \<and> (\<forall>s q. seen s q g' \<longleftrightarrow> seen s q g \<or> ok \<and> s = nh_src_addr nh \<and> q = nh_seq_num nh)"
proof (cases "broadcast_wanted (nh_dst_addr nh) g")
  case True
  with run obtain g1 where g1: "(if \<not> joined_pro g then note_passive_ack cbs mhr (nh_src_addr nh) (nh_seq_num nh) g
        else Some g) = Some g1"
      and r: "(if btt_find (nh_src_addr nh) (nh_seq_num nh) g1 \<noteq> None then Some (False, g1)
        else btt_add cbs (nh_src_addr nh) (nh_seq_num nh) g1) = Some (ok, g')"
    by (auto simp: broadcast_taken_def bind_eq_Some_conv)
  have b: "btt g1 = btt g" using g1 note_passive_ack_btt by (auto split: if_split_asm)
  then have s: "seen a q g1 = seen a q g" for a q by (simp add: seen_def)
  show ?thesis
  proof (cases "seen (nh_src_addr nh) (nh_seq_num nh) g")
    case True
    with r s show ?thesis by (auto simp: btt_find_none)
  next
    case False
    then have "btt_find (nh_src_addr nh) (nh_seq_num nh) g1 = None" by (simp add: btt_find_none s)
    with r have "btt_add cbs (nh_src_addr nh) (nh_seq_num nh) g1 = Some (ok, g')" by simp
    from btt_add_seen [OF this] s b False True show ?thesis by simp
  qed
qed (use run in \<open>auto simp: broadcast_taken_def\<close>)

text \<open>
  C13. Duplicate suppression. A received broadcast is taken iff the device listens to its address, its source
  and number are not recorded and the table has room; afterwards the recorded broadcasts are those
  recorded before and, when it was taken, this one. So a broadcast is taken at most once
  while its record lives.
\<close>

theorem broadcast_taken_once:
  assumes run: "broadcast_taken cbs mhr nh g = Some (ok, g')"
  shows "(ok \<longleftrightarrow> broadcast_wanted (nh_dst_addr nh) g \<and> \<not> seen (nh_src_addr nh) (nh_seq_num nh) g
      \<and> (\<exists>e \<in> set (btt g). \<not> bt_used e))
    \<and> (\<forall>s q. seen s q g' \<longleftrightarrow> seen s q g \<or> ok \<and> s = nh_src_addr nh \<and> q = nh_seq_num nh)"
  using assms by (rule broadcast_taken_spec)

section \<open>Expiry\<close>

definition bt_tick :: "zb_nwk_btr \<Rightarrow> zb_nwk_btr" where
  "bt_tick e = (if bt_used e then
     if bt_expiration_time e \<noteq> 0 then e\<lparr>bt_expiration_time := bt_expiration_time e - 1\<rparr> else set_bt_used False e
   else e)"

lemma btr_expiry_loop_ticks:
  "\<forall>k \<in> set ks. k < length (btt g) \<Longrightarrow> distinct ks \<Longrightarrow>
   \<exists>n a. btr_expiry_loop ks g = Some (g\<lparr>btt := a, btt_cnt := n\<rparr>) \<and> length a = length (btt g)
     \<and> (\<forall>j < length (btt g). a ! j = (if j \<in> set ks then bt_tick (btt g ! j) else btt g ! j))"
proof (induction ks arbitrary: g)
  case Nil
  have "g\<lparr>btt := btt g, btt_cnt := btt_cnt g\<rparr> = g" by (cases g) simp
  then show ?case by (intro exI [of _ "btt_cnt g"] exI [of _ "btt g"]) simp
next
  case (Cons k ks)
  have k: "k < length (btt g)" using Cons.prems(1) by simp
  obtain n where run: "btr_expiry_loop (k # ks) g = btr_expiry_loop ks (g\<lparr>btt := (btt g)[k := bt_tick (btt g ! k)], btt_cnt := n\<rparr>)"
  proof -
    have u: "g\<lparr>btt := x, btt_cnt := btt_cnt g\<rparr> = g\<lparr>btt := x\<rparr>" "g\<lparr>btt := btt g\<rparr> = g" for x
      by (cases g; simp)+
    show thesis
    proof (cases "bt_used (btt g ! k)")
      case True
      with that [of "if bt_expiration_time (btt g ! k) = 0 then btt_cnt g - 1 else btt_cnt g"] k u show thesis
        by (auto simp: bt_tick_def put_btt_def NWK_ARRAY_PUT_ENT_def)
    next
      case False
      with that [of "btt_cnt g"] k u show thesis by (simp add: bt_tick_def)
    qed
  qed
  from Cons.IH [of "g\<lparr>btt := (btt g)[k := bt_tick (btt g ! k)], btt_cnt := n\<rparr>"] Cons.prems k obtain n' a where
    "btr_expiry_loop ks (g\<lparr>btt := (btt g)[k := bt_tick (btt g ! k)], btt_cnt := n\<rparr>) = Some (g\<lparr>btt := a, btt_cnt := n'\<rparr>)"
    "length a = length (btt g)" "\<forall>j < length (btt g). a ! j = (if j \<in> set ks then bt_tick ((btt g)[k := bt_tick (btt g ! k)] ! j)
        else (btt g)[k := bt_tick (btt g ! k)] ! j)"
    by auto
  with run Cons.prems(2) k show ?case by (intro exI [of _ n'] exI [of _ a]) (auto simp: nth_list_update)
qed

text \<open>\<open>live n\<close>: every record is gone after \<open>n\<close> runs.\<close>

definition live :: "nat \<Rightarrow> ('cb, 'w) data_g_scheme \<Rightarrow> bool" where
  "live n g \<longleftrightarrow> (\<forall>e \<in> set (btt g). bt_used e \<longrightarrow> unat (bt_expiration_time e) < n)"

lemma btr_expiry_runs:
  assumes ok: "data_ok g" and sys: "sys_ok g" and n: "live (Suc n) g"
  shows "\<exists>g'. zb_nwk_btr_expiry cbs g = Some g' \<and> data_ok g' \<and> sys_ok g' \<and> live n g'"
proof (cases "btt_cnt g = 0")
  case True
  with data_ok_tables(1) [OF ok] have "\<forall>e \<in> set (btt g). \<not> bt_used e" by (simp add: filter_empty_conv)
  with True ok sys show ?thesis by (simp add: zb_nwk_btr_expiry_def live_def)
next
  case False
  have l: "length (btt g) = 16" using data_inv_tables(1) [OF ok] .
  with btr_expiry_loop_ticks [of "[0..<ZB_NWK_BTR_TABLE_SIZE]" g] obtain m a where
    run: "btr_expiry_loop [0..<ZB_NWK_BTR_TABLE_SIZE] g = Some (g\<lparr>btt := a, btt_cnt := m\<rparr>)"
    and a: "length a = 16" "\<forall>j < 16. a ! j = bt_tick (btt g ! j)"
    by (auto simp: zb_config)
  let ?g = "g\<lparr>btt := a, btt_cnt := m\<rparr>"
  have ok1: "data_ok ?g" by (rule btr_expiry_loop_ok [OF ok run])
  have "sys_ok ?g" by (rule sys_ok_frame [OF sys]) simp_all
  from schedule_alarm_sys [OF this, of "cb_btr_expiry cbs" 0 "of_int ZB_TIME_ONE_SECOND"] obtain r g' where
    g': "zb_schedule_alarm (cb_btr_expiry cbs) 0 (of_int ZB_TIME_ONE_SECOND) ?g = Some (r, g')" "sys_ok g'" by blast
  note t = schedule_alarm_data [OF g'(1)]
  have "bt_used (bt_tick e) \<Longrightarrow> bt_used e \<and> unat (bt_expiration_time (bt_tick e)) + 1 = unat (bt_expiration_time e)" for e
    by (auto simp: bt_tick_def set_bt_used_def unat_minus_one split: if_split_asm)
      (metis Suc_pred bot_nat_0.not_eq_extremum unat_eq_zero)
  with n l a have "live n ?g" by (fastforce simp: live_def all_set_conv_all_nth)
  then have "live n g'" using t by (simp add: live_def data_tables_def)
  with run g' False data_ok_frame [OF ok1 t] show ?thesis by (auto simp: zb_nwk_btr_expiry_def)
qed

primrec btr_runs :: "'cb data_cbs \<Rightarrow> nat \<Rightarrow> ('cb, 'w) data_g_scheme \<Rightarrow> ('cb, 'w) data_g_scheme option" where
  "btr_runs cbs 0 g = Some g"
| "btr_runs cbs (Suc n) g = do { g \<leftarrow> zb_nwk_btr_expiry cbs g; btr_runs cbs n g }"

lemma btr_runs_empty:
  "data_ok g \<Longrightarrow> sys_ok g \<Longrightarrow> live n g \<Longrightarrow> \<exists>g'. btr_runs cbs n g = Some g' \<and> btt_cnt g' = 0 \<and> (\<forall>s q. \<not> seen s q g')"
proof (induction n arbitrary: g)
  case 0
  then have e: "\<forall>e \<in> set (btt g). \<not> bt_used e" by (simp add: live_def)
  then have "filter bt_used (btt g) = []" by (simp add: filter_empty_conv)
  with data_ok_tables(1) [OF 0(1)] e show ?case by (simp add: seen_def unat_eq_zero)
next
  case (Suc n)
  from btr_expiry_runs [OF Suc.prems] obtain g1 where "zb_nwk_btr_expiry cbs g = Some g1" "data_ok g1" "sys_ok g1" "live n g1"
    by blast
  with Suc.IH [of g1] show ?case by simp
qed

text \<open>
  C15. Run over and over, \<^verbatim>\<open>zb_nwk_btr_expiry\<close> forgets every broadcast: when no record has as many ticks left
  as there are runs, every run returns (starting the alarm again included), and afterwards nothing is
  recorded. A new record has nine ticks, so ten runs are enough.
\<close>

theorem broadcast_records_expire:
  assumes "data_ok g" and "sys_ok g" and "live n g"
  shows "\<exists>g'. btr_runs cbs n g = Some g' \<and> btt_cnt g' = 0 \<and> (\<forall>s q. \<not> seen s q g')"
  using assms by (rule btr_runs_empty)

section \<open>Leaving the network\<close>

lemma do_leave_tables: "zb_nwk_do_leave cbs i rejoin g = Some g' \<Longrightarrow>
  btt g' = btt g \<and> btt_cnt g' = 0 \<and> brrt g' = brrt g \<and> brrt_cnt g' = 0"
  using do_leave_data [of cbs i rejoin g g'] by (simp add: data_tables_def)

lemma refused_when_full:
  "\<forall>e \<in> set (btt g). bt_used e \<Longrightarrow> broadcast_taken cbs mhr nh g = Some (ok, g') \<Longrightarrow> \<not> ok"
  using broadcast_taken_spec [of cbs mhr nh g ok g'] by blast

lemma brrt_add_full:
  assumes "\<forall>e \<in> set (brrt g). br_used e" and "brrt_cnt g < 8"
  shows "brrt_add cbs i nh g = None"
proof -
  have "find_index (\<lambda>e. \<not> br_used e) 0 (brrt g) = None" using assms(1) by (simp add: find_index_None)
  with assms(2) show ?thesis by (simp add: brrt_add_def NWK_ARRAY_GET_ENT_def zb_config)
qed

text \<open>
  C16. Leaving the network sets the counters of the broadcast tables to 0 and leaves the entries used. If the
  table of records was full, their expiry never runs again and from then on every broadcast is
  dropped, also in the network the device joins next; if the table of repeated broadcasts was full, the
  next broadcast that is sent fails the assertion that a place is found.
\<close>

theorem leave_blocks_broadcasts:
  assumes run: "zb_nwk_do_leave cbs i rejoin g = Some g'"
  shows "((\<forall>e \<in> set (btt g). bt_used e) \<longrightarrow> (\<forall>e \<in> set (btt g'). bt_used e) \<and> zb_nwk_btr_expiry cbs g' = Some g'
      \<and> (\<forall>mhr nh ok g2. broadcast_taken cbs mhr nh g' = Some (ok, g2) \<longrightarrow> \<not> ok))
    \<and> ((\<forall>e \<in> set (brrt g). br_used e) \<longrightarrow> (\<forall>j nh. brrt_add cbs j nh g' = None))"
  using do_leave_tables [OF run] refused_when_full [of g' cbs] brrt_add_full [of g' cbs]
  by (auto simp: zb_nwk_btr_expiry_def)

section \<open>Acknowledgements of neighbors\<close>

lemma ack_array: "ZB_NWK_BRCST_PASSIVE_ACK_ARRAY_SIZE = 1"
  by (simp add: ZB_NWK_BRCST_PASSIVE_ACK_ARRAY_SIZE_def zb_config)

text \<open>
  C18. The bits of the neighbors that have a broadcast are kept in an array that has one byte, as the
  conditional of its size takes in the sum: when the next child to send to is the ninth neighbor or
  a later one, the run of \<^verbatim>\<open>nwk_broadcast_transmition\<close> writes behind the array: with the usual
  alignment into the padding of the entry, and from the index 24 on into the entry that follows.
\<close>

theorem ninth_neighbor_overruns:
  assumes "data_ok g" and "prm \<noteq> 0" and nxt: "br_next g = Some (Some (k, Some n), g1)" and "8 \<le> n"
  shows "nwk_broadcast_transmition cbs prm g = None"
proof -
  from br_next_ok [OF assms(1) nxt] have ok: "data_ok g1" and k: "k < length (brrt g1)" "br_used (brrt g1 ! k)"
    "n = unat (br_iterator (brrt g1 ! k))" by simp_all
  have "length (br_passive_ack (brrt g1 ! k)) = 1"
    using data_okD(2) [OF ok] k by (simp add: brrt_ok_def acks_ok_def ack_array)
  moreover have "unat (br_iterator (brrt g1 ! k)) div 8 \<noteq> 0" using assms(4) k(3) by (simp add: div_eq_0_iff)
  ultimately have "br_advance (Some n) (brrt g1 ! k) g1 = None"
    by (simp add: br_advance_def ZB_SET_BIT_IN_BIT_VECTOR_def arr_get_def)
  with assms(2) nxt k show ?thesis by (simp add: nwk_broadcast_transmition_def br_transmit_def)
qed

section \<open>Forged broadcasts\<close>

lemma frame_dispatch_btt: "frame_dispatch cbs i dec g = Some g' \<Longrightarrow> btt g' = btt g"
proof (cases "dec = (True, True)")
  case True
  assume run: "frame_dispatch cbs i dec g = Some g'"
  obtain k a n where get: "NWK_ARRAY_GET_ENT wa_used set_wa_used (wait_alloc g, wait_alloc_cnt g) = (k, a, n)"
    by (rule prod_cases3)
  with run True show ?thesis
    by (cases k) (auto simp: frame_dispatch_def bind_eq_Some_conv data_tables_def dest!: schedule_callback_data get_in_data)
next
  case False
  assume run: "frame_dispatch cbs i dec g = Some g'"
  with False have "data_tables g' = data_tables g"
    by (auto simp: frame_dispatch_def bind_eq_Some_conv dest!: data_frame split: prod.split_asm bool.split_asm)
  then show ?thesis by (simp add: data_tables_def)
qed

lemma frame_accepted_btt: "frame_accepted cbs rnd i mhr n fc nh g = Some g' \<Longrightarrow> btt g' = btt g"
  using frame_accepted_run [of cbs rnd i mhr n fc nh g g'] frame_dispatch_btt by (fastforce simp: data_tables_def)

text \<open>
  C17. A broadcast is recorded before it is authenticated: when a frame with a broadcast destination the device
  listens to comes in and there is room, its source and number are recorded, whatever
  \<^verbatim>\<open>zb_nwk_unsecure_frame\<close> says of it. So a frame with a forged tag, or none at all, suppresses the genuine
  broadcast with that source and number for as long as the record lives.
\<close>

theorem broadcast_recorded_unauthenticated:
  assumes run: "zb_mcps_data_indication cbs rnd i g = Some g'"
    and b: "arr_get (pool (bpool g)) i = Some b" "zb_parse_mhr (data_buf b) (ZB_BUF_BEGIN b) = Some (mhr, n)"
      "ZB_MAC_CUT_HDR b n = Some (c, p)" "nwk_hdr_at (data_buf c) p = Some nh" "buf_read (data_buf c) p 2 = Some fc"
    and nh: "nh_radius nh \<noteq> 0" "ZB_NWK_FRAMECTL_GET_FRAME_TYPE fc = ZB_NWK_FRAME_TYPE_DATA"
      "ZB_NWK_IS_ADDRESS_BROADCAST (nh_dst_addr nh)" "broadcast_wanted (nh_dst_addr nh) g"
    and room: "\<exists>e \<in> set (btt g). \<not> bt_used e"
  shows "seen (nh_src_addr nh) (nh_seq_num nh) g'
    \<and> (\<forall>mhr2 nh2 ok g2. broadcast_taken cbs mhr2 nh2 g' = Some (ok, g2) \<longrightarrow> nh_src_addr nh2 = nh_src_addr nh
         \<longrightarrow> nh_seq_num nh2 = nh_seq_num nh \<longrightarrow> \<not> ok)"
proof -
  from run b nh obtain g1 taken g2 where g1: "put_buf i c g = Some g1"
    and t: "broadcast_taken cbs mhr nh g1 = Some (taken, g2)"
    and r: "(if taken then frame_accepted cbs rnd i mhr n fc nh g2 else zb_free_buf i g2) = Some g'"
    by (auto simp: zb_mcps_data_indication_def bind_eq_Some_conv)
  have e: "btt g1 = btt g" "broadcast_wanted (nh_dst_addr nh) g1"
    using g1 nh(4) by (auto simp: put_buf_def bind_eq_Some_conv broadcast_wanted_def)
  have "seen (nh_src_addr nh) (nh_seq_num nh) g1 \<or> taken"
    using broadcast_taken_spec [OF t] e room by simp
  then have "seen (nh_src_addr nh) (nh_seq_num nh) g2"
    using broadcast_taken_spec [OF t] by blast
  moreover have "btt g' = btt g2"
  proof (cases taken)
    case True
    with r frame_accepted_btt show ?thesis by auto
  next
    case False
    with r have "zb_free_buf i g2 = Some g'" by simp
    from free_buf_data [OF this] show ?thesis by (simp add: data_tables_def)
  qed
  ultimately have s: "seen (nh_src_addr nh) (nh_seq_num nh) g'" by (simp add: seen_def)
  have "\<not> ok" if "broadcast_taken cbs mhr2 nh2 g' = Some (ok, g3)" "nh_src_addr nh2 = nh_src_addr nh"
      "nh_seq_num nh2 = nh_seq_num nh" for mhr2 nh2 ok g3
    using broadcast_taken_spec [OF that(1)] s that(2,3) by simp
  with s show ?thesis by (intro conjI allI impI)
qed

section \<open>The properties on concrete states\<close>

definition data_example :: "zb_nwk_btr list \<Rightarrow> u8 \<Rightarrow> zb_nwk_broadcast_retransmit list \<Rightarrow> u8 \<Rightarrow> nat data_g" where
  "data_example bt n br m = \<lparr>sched = sched mesh_example, time = time mesh_example, bpool = bpool mesh_example, rx_need_buf = 0,
     snwk = nwk_default, secur_material_set = [], active_secur_material_i = 0, active_key_seq_number = 0,
     outgoing_frame_counter = 0, prev_outgoing_frame_counter = 0, is_tc = False, authenticated = False,
     mac_extended_address = [8, 7, 6, 5, 4, 3, 2, 1], nib_sequence_number = 0, mesh_device_type = ZB_NWK_DEVICE_TYPE_ROUTER,
     routing_table = routing_table mesh_example, routing_table_cnt = 0, route_disc_table = route_disc_table mesh_example,
     route_disc_table_cnt = 0, nib_rreq_id = 0, pending_table = pending_table mesh_example, pending_table_cnt = 0,
     aps_rreq_addr = - 1, use_tree_routing = True, secure_all_frames = True, nwk_report_constant_cost = True,
     status_ind_addr = 0, nlme_state = ZB_NLME_STATE_IDLE,
     btt = bt, btt_cnt = n, brrt = br, brrt_cnt = m,
     wait_alloc = replicate 5 \<lparr>wa_used = False, wa_wait = 0, wa_buf = 0\<rparr>, wait_alloc_cnt = 0,
     nwk_status_ind = 0, nwk_status_addr = 0, nwk_joined = True, router_started = True, joined_pro = False,
     mac_rx_on_when_idle = True, rejoin_req_table_cnt = 0, leave_after_mgmt = False, pending_list_size = 0,
     zdo_started = True, zdo_rejoin = False, nib_pan_id = 0x1234, aps_channel_mask = 0x800\<rparr>"

definition data_example_cbs :: "nat data_cbs" where
  "data_example_cbs = \<lparr>cb_mesh = mesh_example_cbs, cb_mcps_data_request = 8, cb_nlde_data_confirm = 9,
     cb_broadcast_transmition = 10, cb_frame_indication = 11, cb_new_buffer_allocated = 12, cb_call_br_confirm = 13,
     cb_btr_expiry = 14, cb_nlme_join_request = 15\<rparr>"

definition bt_free :: zb_nwk_btr where
  "bt_free = \<lparr>bt_used = False, bt_expiration_time = 0, bt_source_addr = 0, bt_sequence_number = 0\<rparr>"

definition br_free :: zb_nwk_broadcast_retransmit where
  "br_free = \<lparr>br_used = False, br_retries = 0, br_buf = 0, br_iterator = 0, br_next_retransmit = 0, br_src_addr = 0,
     br_dst_addr = 0, br_seq_num = 0, br_passive_ack = [0]\<rparr>"

text \<open>
  The frame in the buffer: a MAC header from \<open>0x0001\<close> to everyone, a network header with the security bit
  and the number 9, an auxiliary header and a tag that are zero, and the bytes of the receiver.
\<close>

definition forged_frame :: "u8 list" where
  "forged_frame = [0x41, 0x88, 5, 0x34, 0x12, 0xff, 0xff, 1, 0] @ [0x08, 0x02, 0xff, 0xff, 1, 0, 5, 9]
     @ replicate 14 0 @ [1, 2, 3] @ replicate 4 0 @ replicate 11 0"

definition with_frame :: "u8 list \<Rightarrow> nat data_g \<Rightarrow> nat data_g" where
  "with_frame f g = g\<lparr>bpool := (bpool g)\<lparr>pool := (pool (bpool g))[0 := (pool (bpool g) ! 0)\<lparr>
     hdr := (hdr (pool (bpool g) ! 0))\<lparr>hdr_len := of_nat (length f), data_offset := 0\<rparr>,
     data_buf := f @ drop (length f) (data_buf (pool (bpool g) ! 0))\<rparr>]\<rparr>\<rparr>"

lemma replicate_16: "replicate 16 x = [x, x, x, x, x, x, x, x, x, x, x, x, x, x, x, x]"
  and replicate_8: "replicate 8 x = [x, x, x, x, x, x, x, x]"
  by (simp_all add: numeral_eq_Suc)

lemma is_some: "(case x of None \<Rightarrow> False | Some _ \<Rightarrow> True) \<Longrightarrow> \<exists>y. x = Some y"
  by (cases x) simp_all

definition idle :: "nat data_g" where "idle = data_example (replicate 16 bt_free) 0 (replicate 8 br_free) 0"

lemma idle_cleared: "data_cleared (with_frame f idle)"
  by (simp add: data_cleared_def idle_def with_frame_def data_example_def bt_free_def br_free_def zb_config)

lemmas [code] = alarm_cancel_loop.simps ZB_LIST_CHECK_ENT.simps tmq_find.simps ring_walk.simps

lemma forged_run: "\<exists>g'. zb_mcps_data_indication data_example_cbs [] 0 (with_frame forged_frame idle) = Some g'"
  by (rule is_some) code_simp

lemma forged_reads:
  "\<exists>b mhr n c p nh fc. arr_get (pool (bpool (with_frame forged_frame idle))) 0 = Some b
    \<and> zb_parse_mhr (data_buf b) (ZB_BUF_BEGIN b) = Some (mhr, n) \<and> ZB_MAC_CUT_HDR b n = Some (c, p)
    \<and> nwk_hdr_at (data_buf c) p = Some nh \<and> buf_read (data_buf c) p 2 = Some fc
    \<and> nh_radius nh \<noteq> 0 \<and> ZB_NWK_FRAMECTL_GET_FRAME_TYPE fc = ZB_NWK_FRAME_TYPE_DATA
    \<and> ZB_NWK_IS_ADDRESS_BROADCAST (nh_dst_addr nh) \<and> broadcast_wanted (nh_dst_addr nh) (with_frame forged_frame idle)
    \<and> nh_src_addr nh = 1 \<and> nh_seq_num nh = 9"
proof -
  have "(case do {
        b \<leftarrow> arr_get (pool (bpool (with_frame forged_frame idle))) 0;
        (mhr, n) \<leftarrow> zb_parse_mhr (data_buf b) (ZB_BUF_BEGIN b);
        (c, p) \<leftarrow> ZB_MAC_CUT_HDR b n;
        nh \<leftarrow> nwk_hdr_at (data_buf c) p;
        fc \<leftarrow> buf_read (data_buf c) p 2;
        Some (nh, fc) } of
      None \<Rightarrow> False
    | Some (nh, fc) \<Rightarrow> nh_radius nh \<noteq> 0 \<and> ZB_NWK_FRAMECTL_GET_FRAME_TYPE fc = ZB_NWK_FRAME_TYPE_DATA
        \<and> ZB_NWK_IS_ADDRESS_BROADCAST (nh_dst_addr nh) \<and> broadcast_wanted (nh_dst_addr nh) (with_frame forged_frame idle)
        \<and> nh_src_addr nh = 1 \<and> nh_seq_num nh = 9)"
    by code_simp
  then show ?thesis by (auto split: option.split_asm prod.split_asm simp: bind_eq_Some_conv bind_eq_None_conv)
qed

lemma do_leave_runs:
  assumes b: "arr_get (pool (bpool g)) i = Some b" "length (data_buf b) = ZB_IO_BUF_SIZE"
    and q: "rb_inv (cb_q (sched g))" and i: "i \<le> ZB_IOBUF_POOL_SIZE" and e: "8 \<le> length (extended_pan_id (snwk g))"
  shows "\<exists>g'. zb_nwk_do_leave cbs i True g = Some g'"
proof -
  have u: "unat (of_nat i :: u8) \<le> ZB_IOBUF_POOL_SIZE" using i by (simp add: unat_of_nat zb_config)
  have l: "i < length (pool (bpool g))" "b = pool (bpool g) ! i" using b(1) by (auto simp: arr_get_def split: if_split_asm)
  have c: "arr_copy (data_buf b) 132 (take 8 (extended_pan_id (snwk g)) @ ZB_HTOLE32 m @ [x, y, z, w])
      = Some (take 132 (data_buf b) @ (take 8 (extended_pan_id (snwk g)) @ ZB_HTOLE32 m @ [x, y, z, w]) @ drop 148 (data_buf b))"
    for m x y z w using b(2) e by (simp add: arr_copy_def zb_config ZB_HTOLE32_def)
  have r: "\<exists>g' r. zb_schedule_callback f (of_nat i) g1 = Some (r, g')" if "rb_inv (cb_q (sched g1))"
    for f :: 'a and g1 :: "('a, 'b) data_g_scheme"
    using schedule_callback_total [OF that u, of f] by blast
  show ?thesis
    using l c q by (auto simp: zb_nwk_do_leave_def Let_def put_buf_def zb_buf_reuse_def hdr_zero_def zb_get_buf_tail_def
        ZB_BUF_LEN_def ZB_BUF_BEGIN_def zb_config bind_eq_Some_conv intro!: r)
qed

lemma forged_leave_run: "\<exists>g' g''. zb_mcps_data_indication data_example_cbs [] 0 (with_frame forged_frame idle) = Some g'
    \<and> zb_nwk_do_leave data_example_cbs 0 True g' = Some g''"
proof -
  have "case zb_mcps_data_indication data_example_cbs [] 0 (with_frame forged_frame idle) of None \<Rightarrow> False
      | Some g' \<Rightarrow> (case arr_get (pool (bpool g')) 0 of None \<Rightarrow> False | Some b \<Rightarrow> length (data_buf b) = ZB_IO_BUF_SIZE)
         \<and> length (ring_buf (cb_q (sched g'))) = 16 \<and> read_i (cb_q (sched g')) = 0
         \<and> written (cb_q (sched g')) = write_i (cb_q (sched g')) \<and> write_i (cb_q (sched g')) < 16
         \<and> length (extended_pan_id (snwk g')) = 8"
    by code_simp
  then obtain g' where g': "zb_mcps_data_indication data_example_cbs [] 0 (with_frame forged_frame idle) = Some g'"
    "case arr_get (pool (bpool g')) 0 of None \<Rightarrow> False | Some b \<Rightarrow> length (data_buf b) = ZB_IO_BUF_SIZE"
    and q: "length (ring_buf (cb_q (sched g'))) = 16" "read_i (cb_q (sched g')) = 0" "written (cb_q (sched g')) = write_i (cb_q (sched g'))"
    "write_i (cb_q (sched g')) < 16" and e: "8 \<le> length (extended_pan_id (snwk g'))"
    by (auto split: option.split_asm)
  have "rb_inv (cb_q (sched g'))" using q by (simp add: rb_inv_def word_less_nat_alt)
  with g' e have "\<exists>g''. zb_nwk_do_leave data_example_cbs 0 True g' = Some g''"
    using do_leave_runs [of g' 0 _ data_example_cbs] by (auto split: option.split_asm)
  with g'(1) show ?thesis by blast
qed

text \<open>A broadcast is recorded, and then the device leaves: the counter is right before, and the record is found after it.\<close>

theorem data_tables_invariant_witness:
  "\<exists>g' g''. zb_mcps_data_indication data_example_cbs [] 0 (with_frame forged_frame idle) = Some g'
    \<and> unat (btt_cnt g') = length (filter bt_used (btt g'))
    \<and> zb_nwk_do_leave data_example_cbs 0 True g' = Some g''
    \<and> (\<forall>k < 16. bt_used (btt g'' ! k) \<longrightarrow>
          btt_find (bt_source_addr (btt g'' ! k)) (bt_sequence_number (btt g'' ! k)) g'' = Some k)"
proof -
  obtain g' g'' where g': "zb_mcps_data_indication data_example_cbs [] 0 (with_frame forged_frame idle) = Some g'"
    and g'': "zb_nwk_do_leave data_example_cbs 0 True g' = Some g''"
    using forged_leave_run by blast
  have r: "data_reach data_example_cbs True g'"
    by (rule data_reach.step [OF data_reach.cleared [OF idle_cleared] data_step.indication [OF g']])
  have l: "data_reach data_example_cbs (no_broadcasts g') g''"
    by (rule data_reach.step [OF r data_step.leave [OF g'']])
  from data_tables_invariant [OF r] data_tables_invariant [OF l] g' g'' show ?thesis by blast
qed

theorem broadcast_recorded_unauthenticated_witness:
  "\<exists>g'. zb_mcps_data_indication data_example_cbs [] 0 (with_frame forged_frame idle) = Some g' \<and> seen 1 9 g'"
proof -
  obtain g' where g': "zb_mcps_data_indication data_example_cbs [] 0 (with_frame forged_frame idle) = Some g'"
    using forged_run by blast
  have "bt_free \<in> set (btt (with_frame forged_frame idle))" "\<not> bt_used bt_free"
    by (simp_all add: with_frame_def idle_def data_example_def bt_free_def)
  then have room: "\<exists>e \<in> set (btt (with_frame forged_frame idle)). \<not> bt_used e" by blast
  from forged_reads obtain b mhr n c p nh fc where
    r: "arr_get (pool (bpool (with_frame forged_frame idle))) 0 = Some b"
      "zb_parse_mhr (data_buf b) (ZB_BUF_BEGIN b) = Some (mhr, n)" "ZB_MAC_CUT_HDR b n = Some (c, p)"
      "nwk_hdr_at (data_buf c) p = Some nh" "buf_read (data_buf c) p 2 = Some fc"
      "nh_radius nh \<noteq> 0" "ZB_NWK_FRAMECTL_GET_FRAME_TYPE fc = ZB_NWK_FRAME_TYPE_DATA"
      "ZB_NWK_IS_ADDRESS_BROADCAST (nh_dst_addr nh)" "broadcast_wanted (nh_dst_addr nh) (with_frame forged_frame idle)"
    and "nh_src_addr nh = 1" "nh_seq_num nh = 9" by blast
  with broadcast_recorded_unauthenticated [OF g' r room] g' show ?thesis by auto
qed

definition data_hdr :: zb_nwk_hdr where
  "data_hdr = \<lparr>nh_dst_addr = 0xffff, nh_src_addr = 1, nh_radius = 5, nh_seq_num = 9\<rparr>"

theorem broadcast_taken_once_witness:
  "\<exists>g'. broadcast_taken data_example_cbs mhr_zero data_hdr idle = Some (True, g') \<and> seen 1 9 g' \<and> \<not> seen 1 8 g'"
proof -
  have "\<exists>y. broadcast_taken data_example_cbs mhr_zero data_hdr idle = Some y" by (rule is_some) code_simp
  then obtain ok g' where g': "broadcast_taken data_example_cbs mhr_zero data_hdr idle = Some (ok, g')" by auto
  have b: "btt idle = replicate 16 bt_free" by (simp add: idle_def data_example_def)
  have "\<not> seen s q idle" for s q by (simp add: seen_def b bt_free_def)
  moreover have "\<exists>e \<in> set (btt idle). \<not> bt_used e" by (simp add: b bt_free_def)
  moreover have "broadcast_wanted (nh_dst_addr data_hdr) idle"
    by (simp add: broadcast_wanted_def data_hdr_def ZB_NWK_BROADCAST_ALL_DEVICES_def)
  ultimately show ?thesis using broadcast_taken_once [OF g'] g' by (simp add: data_hdr_def)
qed

definition bt_live :: "u8 \<Rightarrow> zb_nwk_btr" where
  "bt_live n = \<lparr>bt_used = True, bt_expiration_time = ZB_NWK_BROADCAST_DELIVERY_TIME, bt_source_addr = 1, bt_sequence_number = n\<rparr>"

theorem broadcast_records_expire_witness:
  "\<exists>g'. btr_runs data_example_cbs 10 (data_example (bt_live 9 # replicate 15 bt_free) 1 (replicate 8 br_free) 0) = Some g'
     \<and> btt_cnt g' = 0 \<and> (\<forall>s q. \<not> seen s q g')"
proof (rule broadcast_records_expire)
  let ?g = "data_example (bt_live 9 # replicate 15 bt_free) 1 (replicate 8 br_free) 0"
  show "data_ok ?g"
    by (simp add: data_inv_def data_tables_def btt_ok_def brrt_ok_def wait_ok_def table_ok_def table_inv_def acks_ok_def stacked_def
        keyed_distinct data_example_def bt_live_def bt_free_def br_free_def zb_config)
  show "sys_ok ?g" by (rule sys_ok_frame [OF mesh_example_sys]) (simp_all add: data_example_def)
  show "live 10 ?g" by (simp add: live_def data_example_def bt_live_def bt_free_def zb_config)
qed

definition br_sent :: "u8 \<Rightarrow> u32 \<Rightarrow> zb_nwk_broadcast_retransmit" where
  "br_sent n it = br_free\<lparr>br_used := True, br_retries := 1, br_iterator := it, br_seq_num := n, br_src_addr := 1,
     br_dst_addr := 0xffff\<rparr>"

definition crowded :: "nat data_g" where
  "crowded = data_example (map bt_live [0, 1, 2, 3, 4, 5, 6, 7, 8, 9, 10, 11, 12, 13, 14, 15]) 16
     (map (\<lambda>n. br_sent n 0xffffffff) [0, 1, 2, 3, 4, 5, 6, 7]) 8"

theorem leave_blocks_broadcasts_witness:
  "\<exists>g'. zb_nwk_do_leave data_example_cbs 0 True crowded = Some g' \<and> zb_nwk_btr_expiry data_example_cbs g' = Some g'
    \<and> (\<forall>ok g2. broadcast_taken data_example_cbs mhr_zero data_hdr g' = Some (ok, g2) \<longrightarrow> \<not> ok)
    \<and> brrt_add data_example_cbs 0 data_hdr g' = None"
proof -
  have "case arr_get (pool (bpool crowded)) 0 of None \<Rightarrow> False | Some b \<Rightarrow> length (data_buf b) = ZB_IO_BUF_SIZE"
    by code_simp
  then have "\<exists>g'. zb_nwk_do_leave data_example_cbs 0 True crowded = Some g'"
    using do_leave_runs [of crowded 0 _ data_example_cbs] cleared_cb_q(1)
    by (auto simp: crowded_def data_example_def mesh_example_def nwk_default_def split: option.split_asm)
  then obtain g' where g': "zb_nwk_do_leave data_example_cbs 0 True crowded = Some g'" by blast
  have "\<forall>e \<in> set (btt crowded). bt_used e" "\<forall>e \<in> set (brrt crowded). br_used e"
    by (simp_all add: crowded_def data_example_def bt_live_def br_sent_def)
  with leave_blocks_broadcasts [OF g'] g' show ?thesis by blast
qed

definition ninth :: "nat data_g" where
  "ninth = with_frame forged_frame (data_example (replicate 16 bt_free) 0 (br_sent 9 8 # replicate 7 br_free) 1)"

theorem ninth_neighbor_overruns_witness:
  "\<exists>g1. br_next ninth = Some (Some (0, Some 8), g1) \<and> nwk_broadcast_transmition data_example_cbs 1 ninth = None"
proof -
  have "data_ok (data_example (replicate 16 bt_free) 0 (br_sent 9 8 # replicate 7 br_free) 1)"
    by (simp add: data_inv_def data_tables_def btt_ok_def brrt_ok_def wait_ok_def table_ok_def table_inv_def
        acks_ok_def stacked_def keyed_def ack_array data_example_def bt_free_def br_free_def br_sent_def zb_config)
  then have "data_ok ninth" by (rule data_ok_frame) (simp add: ninth_def with_frame_def)
  moreover have "case br_next ninth of None \<Rightarrow> False | Some (x, g1) \<Rightarrow> x = Some (0, Some 8)" by code_simp
  then obtain g1 where g1: "br_next ninth = Some (Some (0, Some 8), g1)" by (auto split: option.split_asm)
  ultimately show ?thesis using ninth_neighbor_overruns [of ninth 1 0 8 g1 data_example_cbs] by simp
qed

end
