(* ===== verification/Nwk_Panid_Props.thy ===== *)
theory Nwk_Panid_Props
  imports Nwk_Panid Nwk_Data_Props
begin

text \<open>
  The conflict of PAN identifiers: the array of known identifiers refines a set, and what the choice of a
  new one, the update command and its reception do.
\<close>

section \<open>The set of known identifiers\<close>

definition known_set :: "u16 list \<Rightarrow> u16 set" where "known_set known = {k \<in> set known. k \<noteq> 0}"

text \<open>Different identifiers first, then zeros.\<close>

definition known_ok :: "u16 list \<Rightarrow> bool" where
  "known_ok known \<longleftrightarrow> (\<exists>ks n. known = ks @ replicate n 0 \<and> distinct ks \<and> 0 \<notin> set ks)"

lemma remember_loop_new: "p \<notin> set ks \<Longrightarrow> 0 \<notin> set ks \<Longrightarrow> remember_loop p (ks @ xs) = ks @ remember_loop p xs"
  by (induction ks) auto

lemma remember_loop_known: "p \<in> set ks \<Longrightarrow> 0 \<notin> set ks \<Longrightarrow> remember_loop p (ks @ xs) = ks @ xs"
  by (induction ks) auto

lemma remember_loop_ok:
  assumes "known_ok known" and p: "p \<noteq> 0"
  shows "known_ok (remember_loop p known)" "length (remember_loop p known) = length known"
    and "known_set (remember_loop p known) =
      (if card (known_set known) < length known then insert p (known_set known) else known_set known)"
proof -
  from assms(1) obtain ks n where k: "known = ks @ replicate n 0" "distinct ks" "0 \<notin> set ks" by (auto simp: known_ok_def)
  have s: "known_set known = set ks" using k(1,3) by (auto simp: known_set_def)
  then have c: "card (known_set known) = length ks" using k(2) by (simp add: distinct_card)
  have "known_ok (remember_loop p known) \<and> length (remember_loop p known) = length known \<and>
      known_set (remember_loop p known) =
        (if card (known_set known) < length known then insert p (known_set known) else known_set known)"
  proof (cases "p \<in> set ks")
    case True
    with k have "remember_loop p known = known" by (simp add: remember_loop_known)
    with assms(1) s True show ?thesis by auto
  next
    case new: False
    show ?thesis
    proof (cases n)
      case 0
      with new k have r: "remember_loop p known = known" by (simp add: remember_loop_new [of p ks "[]", simplified])
      have "length known = length ks" using k(1) 0 by simp
      with assms(1) c show ?thesis unfolding r by simp
    next
      case (Suc m)
      have r: "remember_loop p known = (ks @ [p]) @ replicate m 0"
        using new k p Suc by (simp add: remember_loop_new)
      have "known_ok (remember_loop p known)"
        unfolding known_ok_def by (rule exI [of _ "ks @ [p]"], rule exI [of _ m]) (use r k new p in auto)
      moreover have "known_set (remember_loop p known) = insert p (set ks)"
        using k(3) p by (auto simp: r known_set_def)
      moreover have "length (remember_loop p known) = length known" unfolding r using k(1) Suc by simp
      moreover have "length ks < length known" using k(1) Suc by simp
      ultimately show ?thesis using s c by simp
    qed
  qed
  then show "known_ok (remember_loop p known)" "length (remember_loop p known) = length known"
    "known_set (remember_loop p known) =
      (if card (known_set known) < length known then insert p (known_set known) else known_set known)"
    by simp_all
qed

text \<open>
  C24. Remembering an identifier refines insertion into a set of at most eight: abstracting the array to the set of
  its identifiers, the identifier is inserted while there is room, a full array is left
  as it is, and the array keeps its form.
\<close>

theorem remember_refines_insert:
  assumes "known_ok (known_panids g)" and "length (known_panids g) = ZB_PANID_TABLE_SIZE" and "panid \<noteq> 0"
  shows "known_ok (known_panids (zb_panid_conflict_remember_panid panid g))
    \<and> length (known_panids (zb_panid_conflict_remember_panid panid g)) = ZB_PANID_TABLE_SIZE
    \<and> known_set (known_panids (zb_panid_conflict_remember_panid panid g)) =
        (if card (known_set (known_panids g)) < 8 then insert panid (known_set (known_panids g)) else known_set (known_panids g))"
  using remember_loop_ok [OF assms(1,3)] assms(2) by (simp add: zb_panid_conflict_remember_panid_def zb_config)

section \<open>Choosing an identifier\<close>

lemma takeWhile_all: "length (takeWhile P xs) = length xs \<longleftrightarrow> (\<forall>x \<in> set xs. P x)"
  using length_takeWhile_le [of P] by (induction xs) (auto simp: not_less_eq_eq [symmetric])

lemma choose_panid_runs:
  "zb_random base \<noteq> 0 \<or> 0 \<in> set known \<Longrightarrow> choose_panid base known = Some (zb_random base)"
  by (subst choose_panid.simps) (auto simp: Let_def takeWhile_all)

lemma choose_panid_some:
  assumes "choose_panid base known = Some p"
  shows "zb_random base \<noteq> 0 \<or> 0 \<in> set known"
  using _ assms
proof (rule choose_panid.raw_induct)
  fix f base known p
  assume "\<And>b k q. f b k = Some q \<Longrightarrow> zb_random b \<noteq> 0 \<or> 0 \<in> set k"
    and "(let p = zb_random base; i = length (takeWhile (\<lambda>k. p \<noteq> k) known)
      in if p = 0 \<and> i = length known then f base known else Some p) = Some p"
  then show "zb_random base \<noteq> 0 \<or> 0 \<in> set known"
    by (auto simp: Let_def takeWhile_all split: if_split_asm)
qed

text \<open>
  C25. The choice of a new identifier looks at the known ones in vain: \<^verbatim>\<open>zb_random\<close> returns the same number whenever it
  is called. If that number is not 0 it is the new identifier, also when it is a known one and the
  very identifier of the conflict; and if it is 0 and no entry of the table is free, the loop never ends.
\<close>

theorem choice_ignores_known:
  "choose_panid base known =
     (if zb_random base = 0 \<and> 0 \<notin> set known then None else Some (zb_random base))"
  using choose_panid_runs [of base known] choose_panid_some [of base known]
  by (cases "choose_panid base known") auto

section \<open>The update command\<close>

lemma get_buf_panid: "zb_get_buf d g = Some (r, g') \<Longrightarrow> snwk g' = snwk g \<and> new_panid g' = new_panid g"
  by (auto simp: zb_get_buf_def Let_def bind_eq_Some_conv split: if_splits option.splits)

lemma get_delayed_panid:
  assumes "zb_get_out_buf_delayed cb g = Some (r, g')"
  shows "snwk g' = snwk g \<and> new_panid g' = new_panid g"
proof -
  obtain b g1 where g1: "zb_get_buf 0 g = Some (b, g1)"
    using assms by (cases "zb_get_buf 0 g") (auto simp: zb_get_out_buf_delayed_def zb_get_buf_delayed_def)
  have "snwk g' = snwk g1 \<and> new_panid g' = new_panid g1"
    using assms g1 by (cases b) (auto simp: zb_get_out_buf_delayed_def zb_get_buf_delayed_def Let_def bind_eq_Some_conv
        zb_schedule_callback_def case_prod_unfold split: option.split_asm if_split_asm)
  with get_buf_panid [OF g1] show ?thesis by simp
qed

text \<open>
  C27. A device that receives an update command ends up with an update identifier that is one less than the
  one of the command, in its own state and in the beacons it sends: the code takes one off because
  \<^verbatim>\<open>zb_nwk_update_beacon_payload\<close> used to add one, which it does no longer.
\<close>

theorem update_id_one_behind:
  assumes "zb_panid_conflict_network_update_recv cbs upd g = Some g'"
  shows "update_id (snwk g') = upd_update_id upd - 1
    \<and> nwk_update_id (mac_beacon_payload (snwk g')) = upd_update_id upd - 1 \<and> new_panid g' = upd_new_panid upd"
proof -
  from assms obtain w g1 r1 r2 where w: "w = zb_nwk_update_beacon_payload ((snwk g)\<lparr>update_id := upd_update_id upd - 1\<rparr>)"
    and g1: "zb_schedule_alarm (cb_set_panid_alarm cbs) 0 (ucast ZB_NWK_BROADCAST_DELIVERY_TIME)
        (g\<lparr>snwk := w, new_panid := upd_new_panid upd\<rparr>) = Some (r1, g1)"
    and g': "zb_get_out_buf_delayed (cb_send_status_ind cbs) g1 = Some (r2, g')"
    by (auto simp: zb_panid_conflict_network_update_recv_def Let_def bind_eq_Some_conv)
  have "snwk g1 = w \<and> new_panid g1 = upd_new_panid upd"
    using g1 by (auto simp: zb_schedule_alarm_def Let_def bind_eq_Some_conv split: prod.splits option.splits)
  moreover have "snwk g' = snwk g1 \<and> new_panid g' = new_panid g1"
    using g' by (rule get_delayed_panid)
  ultimately show ?thesis by (simp add: w zb_nwk_update_beacon_payload_def Let_def)
qed

section \<open>Commands to an unknown address\<close>

lemma arr_copy_outside: "arr_copy xs i bs = Some ys \<Longrightarrow> j < length xs \<Longrightarrow> j < i \<or> i + length bs \<le> j \<Longrightarrow>
  length ys = length xs \<and> ys ! j = xs ! j"
  by (auto simp: arr_copy_def nth_append split: if_split_asm)

lemma arr_copy_inside: "arr_copy xs i bs = Some ys \<Longrightarrow> j < length bs \<Longrightarrow> length ys = length xs \<and> i + j < length ys \<and> ys ! (i + j) = bs ! j"
  by (auto simp: arr_copy_def nth_append split: if_split_asm)

text \<open>
  A command whose destination has no known long address, such as the broadcast of a new PAN identifier,
  is sent with a wrong address of its sender: the header announces the long address of the sender
  and no other, so it belongs at offset 8, but it is written at offset 16, and at offset 8 the
  frame has the eight bytes the buffer held there before.
\<close>

theorem command_sends_stale_bytes:
  assumes run: "zb_nwk_fill_out_command b dest cmd sz g = Some (b', c, g')"
    and unknown: "zb_address_ieee_by_short dest (addr_tbl (snwk g)) = Some (ret, None, z)" "ret \<noteq> RET_OK"
    and len: "length (data_buf b) = ZB_IO_BUF_SIZE"
  shows "\<exists>p fc. p = ZB_BUF_BEGIN b' \<and> buf_read (data_buf b') p 2 = Some fc
    \<and> ZB_NWK_FRAMECTL_GET_SOURCE_IEEE fc \<noteq> 0 \<and> ZB_NWK_FRAMECTL_GET_DESTINATION_IEEE fc = 0
    \<and> (\<forall>j < 8. data_buf b' ! (p + 8 + j) = data_buf b ! (p + 8 + j))"
proof -
  define secure where "secure \<longleftrightarrow> secure_all_frames g \<and> security_level (snwk g) \<noteq> 0"
  define hs where "hs = 16 + (if secure then sizeof_aux_hdr else 0)"
  let ?fc = "[ZB_NWK_FRAME_TYPE_COMMAND OR push_bit 2 (ucast ZB_PROTOCOL_VERSION) OR push_bit 6 1,
      push_bit 3 0 OR push_bit 4 1 OR push_bit 1 (if secure then 1 else 0)] :: u8 list"
  from run unknown obtain b1 p d1 d2 d3 where
    b1: "zb_buf_initial_alloc b (of_nat hs + sz + 1) = Some (b1, p)"
    and d1: "arr_copy (data_buf b1) p (?fc @ ZB_HTOLE16 dest @ ZB_HTOLE16 (network_address g)
        @ [push_bit 1 (max_depth (snwk g)), nib_sequence_number g]) = Some d1"
    and d2: "arr_copy d1 (p + 16) (take 8 (mac_extended_address g)) = Some d2"
    and d3: "arr_set d2 (p + hs) cmd = Some d3"
    and b': "data_buf b' = d3" "ZB_BUF_BEGIN b' = ZB_BUF_BEGIN b1"
    by (auto simp: zb_nwk_fill_out_command_def Let_def bind_eq_Some_conv secure_def hs_def network_address_def
        ZB_BUF_BEGIN_def)
  have p: "p = ZB_BUF_BEGIN b1" "data_buf b1 = data_buf b"
    using b1 by (auto simp: zb_buf_initial_alloc_def Let_def bind_eq_Some_conv)
  have h: "length (?fc @ ZB_HTOLE16 dest @ ZB_HTOLE16 (network_address g)
        @ [push_bit 1 (max_depth (snwk g)), nib_sequence_number g]) = 8" by (simp add: ZB_HTOLE16_def)
  have i: "p + 8 + j < length (data_buf b)" if "j < 8" for j
    using d2 d1 that p(2) by (auto simp: arr_copy_def split: if_split_asm) 
  have "d3 ! (p + 8 + j) = data_buf b ! (p + 8 + j)" if "j < 8" for j
  proof -
    have "d1 ! (p + 8 + j) = data_buf b ! (p + 8 + j)" "length d1 = length (data_buf b)"
      using arr_copy_outside [OF d1, of "p + 8 + j"] i [OF that] p(2) h by simp_all
    moreover have "d2 ! (p + 8 + j) = d1 ! (p + 8 + j)"
      using arr_copy_outside [OF d2, of "p + 8 + j"] i [OF that] that calculation by simp
    moreover have "d3 ! (p + 8 + j) = d2 ! (p + 8 + j)"
      using d3 that by (auto simp: arr_set_def hs_def nth_list_update split: if_split_asm)
    ultimately show ?thesis by simp
  qed
  moreover have "buf_read d3 p 2 = Some ?fc"
  proof -
    have l: "length d1 = length (data_buf b)" "length d2 = length d1" "length d3 = length d2" "p + 8 \<le> length d3"
      using d1 d2 d3 p(2) h by (auto simp: arr_copy_def arr_set_def split: if_split_asm)
    have at: "d3 ! (p + j) = ?fc ! j" if "j < 2" for j
    proof -
      have "d1 ! (p + j) = ?fc ! j" using arr_copy_inside [OF d1, of j] that h by (cases j) (auto simp: less_Suc_eq)
      moreover have "d2 ! (p + j) = d1 ! (p + j)" using arr_copy_outside [OF d2, of "p + j"] l that by simp
      moreover have "d3 ! (p + j) = d2 ! (p + j)"
        using d3 that by (auto simp: arr_set_def hs_def nth_list_update split: if_split_asm)
      ultimately show ?thesis by simp
    qed
    have "take 2 (drop p d3) = [d3 ! p, d3 ! (p + 1)]"
      using l(4) by (intro nth_equalityI) (auto simp: less_Suc_eq numeral_2_eq_2)
    with at [of 0] at [of 1] l(4) show ?thesis by (simp add: buf_read_def)
  qed
  ultimately show ?thesis
    using b' p(1) by (intro exI [of _ p] exI [of _ ?fc]) (simp add: ZB_NWK_FRAMECTL_GET_SOURCE_IEEE_def
        ZB_NWK_FRAMECTL_GET_DESTINATION_IEEE_def ZB_BUF_BEGIN_def)
qed

section \<open>The properties on concrete states\<close>

definition panid_example :: "u16 list \<Rightarrow> nat panid_g" where
  "panid_example known = data_g.extend idle \<lparr>known_panids = known, new_panid = 0,
     panid_conflict = False, nwk_manager_addr = 0, current_channel = 11\<rparr>"

definition panid_example_cbs :: "nat panid_cbs" where
  "panid_example_cbs = \<lparr>cb_data = data_example_cbs, cb_send_network_report = 20, cb_send_nwk_update = 21,
     cb_send_status_ind = 22, cb_set_panid_alarm = 23, cb_set_panid = 24, cb_mlme_start_request = 25\<rparr>"

theorem remember_refines_insert_witness:
  "known_set (known_panids (zb_panid_conflict_remember_panid 7 (panid_example (5 # replicate 7 0)))) = {5, 7}"
proof -
  have k: "known_panids (panid_example (5 # replicate 7 0)) = [5] @ replicate 7 0"
    by (simp add: panid_example_def data_g.defs)
  have ok: "known_ok ([5] @ replicate 7 0)" unfolding known_ok_def by (intro exI conjI) (rule refl, simp_all)
  have s: "known_set ([5] @ replicate 7 0) = {5}" by (auto simp: known_set_def)
  from remember_refines_insert [of "panid_example (5 # replicate 7 0)" 7, unfolded k, OF ok] s
  show ?thesis by (auto simp: zb_config)
qed

theorem update_id_one_behind_witness:
  "\<exists>g'. zb_panid_conflict_network_update_recv panid_example_cbs \<lparr>upd_command_options = 1, upd_epid = replicate 8 1,
       upd_update_id = 4, upd_new_panid = 0x77\<rparr> (panid_example (replicate 8 0)) = Some g' \<and> update_id (snwk g') = 3"
proof -
  let ?u = "\<lparr>upd_command_options = 1, upd_epid = replicate 8 1, upd_update_id = 4, upd_new_panid = 0x77\<rparr>"
  have "\<exists>y. zb_panid_conflict_network_update_recv panid_example_cbs ?u (panid_example (replicate 8 0)) = Some y"
    by (rule is_some) code_simp
  then obtain g' where g': "zb_panid_conflict_network_update_recv panid_example_cbs ?u (panid_example (replicate 8 0)) = Some g'" ..
  from update_id_one_behind [OF g'] g' show ?thesis by simp
qed

theorem command_sends_stale_bytes_witness:
  "\<exists>b' c g' p. zb_nwk_fill_out_command (pool (bpool idle) ! 0) ZB_NWK_BROADCAST_ALL_DEVICES ZB_NWK_CMD_NETWORK_UPDATE 12
      (panid_example (replicate 8 0)) = Some (b', c, g')
    \<and> (\<forall>j < 8. data_buf b' ! (p + 8 + j) = data_buf (pool (bpool idle) ! 0) ! (p + 8 + j))"
proof -
  let ?b = "pool (bpool idle) ! 0" and ?g = "panid_example (replicate 8 0)"
  have "\<exists>y. zb_nwk_fill_out_command ?b ZB_NWK_BROADCAST_ALL_DEVICES ZB_NWK_CMD_NETWORK_UPDATE 12 ?g = Some y"
    by (rule is_some) code_simp
  then obtain b' c g' where
    r: "zb_nwk_fill_out_command ?b ZB_NWK_BROADCAST_ALL_DEVICES ZB_NWK_CMD_NETWORK_UPDATE 12 ?g = Some (b', c, g')" by auto
  have "(case zb_address_ieee_by_short ZB_NWK_BROADCAST_ALL_DEVICES (addr_tbl (snwk ?g)) of
      Some (ret, None, z) \<Rightarrow> ret \<noteq> RET_OK | _ \<Rightarrow> False)" by code_simp
  then obtain ret z where u: "zb_address_ieee_by_short ZB_NWK_BROADCAST_ALL_DEVICES (addr_tbl (snwk ?g)) = Some (ret, None, z)"
    "ret \<noteq> RET_OK" by (auto split: option.splits)
  have l: "length (data_buf ?b) = ZB_IO_BUF_SIZE" by code_simp
  from command_sends_stale_bytes [OF r u l] r show ?thesis by blast
qed

end
