(* ===== verification/Nwk_Join_Props.thy ===== *)
theory Nwk_Join_Props
  imports Nwk_Nlme Nwk_Panid_Props
begin

text \<open>
  What joining and the management requests guarantee: the chosen parent is suitable and none is better both
  in depth and in link quality, an accepted association gives the device its place in the tree, an attribute that
  was set is read back as far as its width and the byte access allow, and two requests that fail on
  a null pointer.
\<close>

section \<open>The choice of a parent\<close>

text \<open>One candidate is better than another when it is nearer to the coordinator and its link is at least as good.\<close>

definition better_parent :: "zb_ext_neighbor_tbl_ent \<Rightarrow> zb_ext_neighbor_tbl_ent \<Rightarrow> bool" where
  "better_parent e r \<longleftrightarrow> x_depth e < x_depth r \<and> x_lqi r \<le> x_lqi e"

lemma better_parent_trans: "better_parent a b \<Longrightarrow> better_parent b c \<Longrightarrow> better_parent a c"
  by (auto simp: better_parent_def)

lemma better_parent_asym: "better_parent a b \<Longrightarrow> \<not> better_parent b a"
  by (auto simp: better_parent_def)

lemma choose_loop_step:
  "choose_loop P (ne # xs) i best =
     choose_loop P xs (i + 1)
       (if P ne \<and> (case best of Some (_, r) \<Rightarrow> better_parent ne r | None \<Rightarrow> True) then Some (i, ne) else best)"
  by (auto simp: better_parent_def ZB_LINK_QUALITY_1_IS_BETTER_def not_le not_less split: option.splits)

text \<open>
  The loop over the rest \<open>xs\<close> of the table after the entries \<open>ys\<close>: the candidate so far is undominated
  among \<open>ys\<close>, and so is the result among all.
\<close>

definition undominated :: "(zb_ext_neighbor_tbl_ent \<Rightarrow> bool) \<Rightarrow> zb_ext_neighbor_tbl_ent list \<Rightarrow> (nat \<times> zb_ext_neighbor_tbl_ent) option \<Rightarrow> bool" where
  "undominated P ys best \<longleftrightarrow>
     (case best of
        None \<Rightarrow> \<forall>e \<in> set ys. \<not> P e
      | Some (i, r) \<Rightarrow> i < length ys \<and> ys ! i = r \<and> P r \<and> (\<forall>e \<in> set ys. P e \<longrightarrow> \<not> better_parent e r))"

lemma undominated_snoc:
  assumes "undominated P ys best"
  shows "undominated P (ys @ [ne])
           (if P ne \<and> (case best of Some (_, r) \<Rightarrow> better_parent ne r | None \<Rightarrow> True) then Some (length ys, ne) else best)"
proof (cases best)
  case None
  with assms show ?thesis by (auto simp: undominated_def nth_append better_parent_def)
next
  case (Some ir)
  obtain i r where best: "best = Some (i, r)" using Some by (cases ir) auto
  with assms have ys: "i < length ys" "ys ! i = r" "P r" "\<And>e. e \<in> set ys \<Longrightarrow> P e \<Longrightarrow> \<not> better_parent e r"
    by (auto simp: undominated_def)
  show ?thesis
  proof (cases "P ne \<and> better_parent ne r")
    case True
    have "\<not> better_parent e ne" if "e \<in> set ys" "P e" for e
      using ys(4) [OF that] better_parent_trans True by blast
    moreover have "\<not> better_parent ne ne" by (simp add: better_parent_def)
    ultimately show ?thesis using True by (simp add: undominated_def best)
  next
    case False
    then show ?thesis using ys by (auto simp: undominated_def best nth_append)
  qed
qed

lemma choose_loop_undominated: "undominated P ys best \<Longrightarrow> undominated P (ys @ xs) (choose_loop P xs (length ys) best)"
proof (induction xs arbitrary: ys best)
  case (Cons ne xs)
  from Cons.IH [OF undominated_snoc [OF Cons.prems, of ne]] show ?case
    unfolding choose_loop_step by simp
qed simp

definition parents :: "nat \<Rightarrow> u8 \<Rightarrow> ('cb, 'w) sec_g_scheme \<Rightarrow> zb_ext_neighbor_tbl_ent list" where
  "parents ref cap g = filter (suitable_parent ref cap (update_id (snwk g))) (ext_neighbor (neighbor (snwk g)))"

lemma choose_parent_cases:
  "undominated (suitable_parent ref cap (update_id (snwk g))) (ext_neighbor (neighbor (snwk g)))
     (choose_loop (suitable_parent ref cap (update_id (snwk g))) (ext_neighbor (neighbor (snwk g))) 0 None)"
  using choose_loop_undominated [of _ "[]" None] by (simp add: undominated_def)

lemma choose_parent_spec:
  "case nwk_choose_parent ref cap g of
     None \<Rightarrow> parents ref cap g = []
   | Some (k, _) \<Rightarrow> k < length (ext_neighbor (neighbor (snwk g))) \<and> ext_neighbor (neighbor (snwk g)) ! k \<in> set (parents ref cap g)
       \<and> (\<forall>e \<in> set (parents ref cap g). \<not> better_parent e (ext_neighbor (neighbor (snwk g)) ! k))"
  using choose_parent_cases [of ref cap g]
  by (auto simp: nwk_choose_parent_def parents_def undominated_def filter_empty_conv split: option.splits)

section \<open>Association\<close>

text \<open>The place of the device in the network, apart from the reference to its parent.\<close>

definition nwk_place ::
  "('cb, 'w) mesh_g_scheme \<Rightarrow> (u16 \<times> u8 list \<times> u8) \<times> (u8 \<times> u16) \<times> 2 word" where
  "nwk_place g = ((network_address g, extended_pan_id (snwk g), update_id (snwk g)), (nib_depth (snwk g), cskip (snwk g)), mesh_device_type g)"

lemma schedule_buf_place:
  "schedule_buf f i b (g :: ('cb, 'w) join_g_scheme) = Some g' \<Longrightarrow>
     nwk_place g' = nwk_place g \<and> nwk_joined g' = nwk_joined g \<and> mac_dev_type g' = mac_dev_type g"
  by (auto simp: schedule_buf_def put_buf_def zb_schedule_callback_def bind_eq_Some_conv nwk_place_def network_address_def
      split: option.splits)

lemma exneighbor_stop_place:
  "exneighbor_stop stale g = Some g' \<Longrightarrow> nwk_place g' = nwk_place g \<and> nwk_joined g' = nwk_joined g \<and> mac_dev_type g' = mac_dev_type g"
  by (auto simp: exneighbor_stop_def bind_eq_Some_conv nwk_place_def network_address_def)

lemma mark_parent_place:
  "mark_parent ref g = Some (ok, g') \<Longrightarrow> nwk_place g' = nwk_place g \<and> nwk_joined g' = nwk_joined g \<and> mac_dev_type g' = mac_dev_type g"
  by (auto simp: mark_parent_def set_neighbor_def bind_eq_Some_conv nwk_place_def network_address_def split: if_split_asm)

lemma associated_parent_place:
  assumes "associated_parent short long parent g = Some g'"
  shows "nwk_place g' = nwk_place g \<and> nwk_joined g' = nwk_joined g \<and> mac_dev_type g' = mac_dev_type g"
proof -
  from assms obtain ref z ok h where m: "mark_parent ref (g\<lparr>snwk := (snwk g)\<lparr>addr_tbl := z\<rparr>\<rparr>) = Some (ok, h)"
    and g': "g' = (if ok then h\<lparr>snwk := (snwk h)\<lparr>nwk_parent := ref\<rparr>\<rparr> else h)"
    unfolding associated_parent_def bind_eq_Some_conv by (auto simp: bind_eq_Some_conv)
  from mark_parent_place [OF m] g' show ?thesis by (auto simp: nwk_place_def network_address_def)
qed

lemma depth_15: "(ucast x :: u8) = 15 \<longleftrightarrow> x = 15" for x :: u4
proof -
  have "unat (ucast x :: u8) = unat x" using unsigned_less [of x, where 'a = nat]
    by (simp add: unsigned_ucast_eq take_bit_nat_eq_self)
  then show ?thesis by (auto simp: word_unat_eq_iff)
qed

lemma associate_ok_spec:
  assumes run: "associate_ok cbs stale ch i ps g = Some g'" and k: "join_parent g = Some k"
  defines "x \<equiv> ext_neighbor (neighbor (snwk g)) ! k"
    and "d \<equiv> (if x_depth (ext_neighbor (neighbor (snwk g)) ! k) = 15 then 15 else ucast (x_depth (ext_neighbor (neighbor (snwk g)) ! k)) + 1)"
  shows "nwk_joined g'" "nwk_place g' = ((ZB_LETOH16 (take 2 ps), jr_extended_pan_id (saved_join g), x_update_id x),
      (d, zb_nwk_daa_calc_cskip d (snwk g)),
      if ZB_MAC_CAP_GET_DEVICE_TYPE (jr_capability (saved_join g)) then ZB_NWK_DEVICE_TYPE_ROUTER else ZB_NWK_DEVICE_TYPE_ED)"
    "mac_dev_type g' = (if ZB_MAC_CAP_GET_DEVICE_TYPE (jr_capability (saved_join g)) then MAC_DEV_FFD else MAC_DEV_RFD)"
proof -
  let ?t = "if ZB_MAC_CAP_GET_DEVICE_TYPE (jr_capability (saved_join g)) then ZB_NWK_DEVICE_TYPE_ROUTER else ZB_NWK_DEVICE_TYPE_ED"
  let ?w = "\<lambda>z. (snwk g)\<lparr>extended_pan_id := jr_extended_pan_id (saved_join g), mac_short_address := ZB_LETOH16 (take 2 ps),
     update_id := x_update_id x, addr_tbl := z\<rparr>"
  have sd: "snwk (zb_nwk_set_device_type t h) = snwk h" "join_parent (zb_nwk_set_device_type t h) = join_parent h"
    "saved_join (zb_nwk_set_device_type t h) = saved_join h" for t and h :: "('a, 'b) join_g_scheme"
    by (simp_all add: zb_nwk_set_device_type_def)
  from run obtain z long g1 g2 b b2 where
    g1: "exneighbor_stop stale ((zb_nwk_set_device_type ?t g)\<lparr>nwk_joined := True, snwk := join_position (x_depth x) (?w z)\<rparr>) = Some g1"
    and g2: "associated_parent (x_short_addr x) long (drop 3 ps) g1 = Some g2"
    and g': "schedule_buf (cb_nlme_join_confirm cbs) i b2 g2 = Some g'"
    unfolding associate_ok_def Let_def bind_eq_Some_conv sd
    by (auto simp: k arr_get_def x_def bind_eq_Some_conv split: if_split_asm)
  from exneighbor_stop_place [OF g1] associated_parent_place [OF g2] schedule_buf_place [OF g']
  have e: "nwk_place g' = nwk_place ((zb_nwk_set_device_type ?t g)\<lparr>nwk_joined := True, snwk := join_position (x_depth x) (?w z)\<rparr>)"
    "nwk_joined g'" "mac_dev_type g' = mac_dev_type (zb_nwk_set_device_type ?t g)"
    by simp_all
  show "nwk_joined g'" by (rule e)
  show "nwk_place g' = ((ZB_LETOH16 (take 2 ps), jr_extended_pan_id (saved_join g), x_update_id x),
      (d, zb_nwk_daa_calc_cskip d (snwk g)), ?t)"
    unfolding e by (simp add: nwk_place_def network_address_def join_position_def Let_def zb_nwk_set_device_type_def
        depth_15 d_def x_def zb_nwk_daa_calc_cskip_def)
  show "mac_dev_type g' = (if ZB_MAC_CAP_GET_DEVICE_TYPE (jr_capability (saved_join g)) then MAC_DEV_FFD else MAC_DEV_RFD)"
    unfolding e by (simp add: zb_nwk_set_device_type_def ZB_NWK_DEVICE_TYPE_ROUTER_def ZB_NWK_DEVICE_TYPE_ED_def
        ZB_NWK_DEVICE_TYPE_COORDINATOR_def ZB_NWK_DEVICE_TYPE_NONE_def)
qed

section \<open>Leaving\<close>

lemma send_leave_alone: "send_leave cbs i None rc rj g = None"
  by (cases "send_leave cbs i None rc rj g") (auto simp: send_leave_def bind_eq_Some_conv)

section \<open>Attributes\<close>

lemmas nib_attributes = ZB_NIB_ATTRIBUTE_SEQUENCE_NUMBER_def ZB_NIB_ATTRIBUTE_PASSIVE_ASK_TIMEOUT_def
  ZB_NIB_ATTRIBUTE_MAX_BROADCAST_RETRIES_def ZB_NIB_ATTRIBUTE_MAX_CHILDREN_def ZB_NIB_ATTRIBUTE_MAX_DEPTH_def
  ZB_NIB_ATTRIBUTE_MAX_ROUTERS_def ZB_NIB_ATTRIBUTE_ADDR_ALLOC_def ZB_NIB_ATTRIBUTE_USE_TREE_ROUTING_def
  ZB_NIB_ATTRIBUTE_MANAGER_ADDR_def ZB_NIB_ATTRIBUTE_UPDATE_ID_def ZB_NIB_ATTRIBUTE_EXTENDED_PANID_def
  ZB_NIB_ATTRIBUTE_SECURITY_LEVEL_def ZB_NIB_ATTRIBUTE_SECURITY_MATERIAL_SET_def
  ZB_NIB_ATTRIBUTE_ACTIVE_KEY_SEQ_NUMBER_def ZB_NIB_ATTRIBUTE_SECURE_ALL_FRAMES_def

lemma nib_get_known: "nib_get a g \<noteq> None \<longleftrightarrow>
    a \<in> {0x81, 0x82, 0x83, 0x84, 0x85, 0x86, 0x90, 0x91, 0x92, 0x94, 0x9a, 0xa0, 0xa1, 0xa2, 0xa5}"
  by (simp add: nib_get_def nib_attributes)

text \<open>The bits of the byte that an attribute keeps.\<close>

definition nib_mask :: "u32 \<Rightarrow> u8" where
  "nib_mask a =
     (if a = ZB_NIB_ATTRIBUTE_ADDR_ALLOC then 7
      else if a = ZB_NIB_ATTRIBUTE_USE_TREE_ROUTING \<or> a = ZB_NIB_ATTRIBUTE_SECURE_ALL_FRAMES then 1
      else if a = ZB_NIB_ATTRIBUTE_SECURITY_LEVEL then 15
      else if a = ZB_NIB_ATTRIBUTE_SECURITY_MATERIAL_SET then 3
      else 0xff)"

lemma ucast_and_mask: "ucast (ucast (v :: u8) :: 'n::len word) = v AND mask (LENGTH('n))" if "LENGTH('n) \<le> 8"
  using that by (auto intro!: bit_word_eqI simp: bit_simps)

lemma byte_width [simp]: "ucast (ucast (v :: u8) :: 3 word) = v AND 7" "ucast (ucast v :: u4) = v AND 15"
  "ucast (ucast v :: 2 word) = v AND 3" "ucast (ucast v :: u16) = v"
  using ucast_and_mask [where v = v and 'n = 3] ucast_and_mask [where v = v and 'n = 4] ucast_and_mask [where v = v and 'n = 2]
  by (auto intro!: bit_word_eqI simp: mask_eq_exp_minus_1 bit_simps)

lemma byte_all [simp]: "v AND 255 = v" for v :: u8
proof -
  have "(255 :: u8) = - 1" by simp
  then show ?thesis by (metis and.right_neutral)
qed

lemma byte_bit_0 [simp]: "bit v 0 \<Longrightarrow> v AND 1 = 1" "\<not> bit v 0 \<Longrightarrow> v AND 1 = 0" for v :: u8
  by (auto intro!: bit_word_eqI simp: bit_simps)

lemma nib_set_get:
  assumes "nib_set a d q g = Some (Some g')"
  shows "\<exists>n. nib_get a g' = Some (n, if a = ZB_NIB_ATTRIBUTE_EXTENDED_PANID then take 8 (drop q d) else [d ! q AND nib_mask a])"
    "a' \<noteq> a \<Longrightarrow> nib_get a' g' = nib_get a' g"
proof -
  have k: "nib_get a g \<noteq> None"
    using assms by (cases "nib_get a g = None") (simp_all add: nib_set_def)
  then have a: "a \<in> {0x81, 0x82, 0x83, 0x84, 0x85, 0x86, 0x90, 0x91, 0x92, 0x94, 0x9a, 0xa0, 0xa1, 0xa2, 0xa5}"
    unfolding nib_get_known .
  show "\<exists>n. nib_get a g' = Some (n, if a = ZB_NIB_ATTRIBUTE_EXTENDED_PANID then take 8 (drop q d) else [d ! q AND nib_mask a])"
    using a assms k unfolding insert_iff empty_iff
    by (elim disjE FalseE) (auto simp: nib_set_def nib_get_def nib_mask_def nib_attributes arr_get_def buf_read_def bind_eq_Some_conv
        split: if_split_asm)
  assume "a' \<noteq> a"
  then show "nib_get a' g' = nib_get a' g"
    using a assms k unfolding insert_iff empty_iff
    by (elim disjE FalseE)
      (simp_all add: nib_set_def nib_attributes arr_get_def buf_read_def bind_eq_Some_conv split: if_split_asm split del: if_split,
        auto simp: nib_get_def nib_attributes cong: if_cong split del: if_split)
qed

lemma schedule_buf_nib: "schedule_buf f i b (g :: ('cb, 'w) nlme_g_scheme) = Some g' \<Longrightarrow> nib_get a g' = nib_get a g"
  by (auto simp: schedule_buf_def put_buf_def zb_schedule_callback_def bind_eq_Some_conv nib_get_def cong: if_cong
      split: option.splits split del: if_split)

section \<open>The resets are steps\<close>

text \<open>
  A warm reset is the step \<open>warm_reset\<close> of mesh routing, and what ends a full reset is the step \<open>reset\<close> of the data path, so the
  invariants of the tables of routes and of broadcasts hold across both.
\<close>

lemma confirm_status_tables:
  "NWK_CONFIRM_STATUS f i s (g :: ('cb, 'w) mesh_g_scheme) = Some g' \<Longrightarrow> tables g' = tables g"
  by (auto simp: NWK_CONFIRM_STATUS_def schedule_buf_def bind_eq_Some_conv dest!: put_buf_tables schedule_callback_tables)

lemma confirm_status_data:
  "NWK_CONFIRM_STATUS f i s (g :: ('cb, 'w) data_g_scheme) = Some g' \<Longrightarrow> data_tables g' = data_tables g"
  by (auto simp: NWK_CONFIRM_STATUS_def schedule_buf_def bind_eq_Some_conv dest!: put_buf_data schedule_callback_data)

lemma reset_request_step:
  assumes "zb_nlme_reset_request cbs i g = Some g'"
  shows "mesh_step mcbs g g'"
proof -
  have n: "tables (clear_routes (neighbor_clear g)) = tables (clear_routes g)"
    by (simp add: clear_routes_def NWK_ARRAY_CLEAR_def neighbor_clear_def tables_def)
  have st: "tables (h\<lparr>nlme_state := v\<rparr>) = tables h" for h :: "('a, 'b) nlme_g_scheme" and v by (simp add: tables_def)
  from assms have "tables g' = tables (clear_routes g) \<or> tables g' = tables g"
    by (auto simp: zb_nlme_reset_request_def schedule_buf_def bind_eq_Some_conv n st
        dest!: confirm_status_tables put_buf_tables schedule_callback_tables split: if_split_asm)
  then show ?thesis by (blast intro: mesh_step.intros)
qed

lemma reset_confirm_step:
  assumes run: "zb_mlme_reset_confirm cbs i g = Some g'" and l: "length (btt g) = ZB_NWK_BTR_TABLE_SIZE"
    "length (brrt g) = ZB_NWK_BRR_TABLE_SIZE" "length (wait_alloc g) = ZB_NWK_WAIT_ALLOC_TABLE_SIZE"
  shows "data_step dcbs cn g True g'"
proof (rule data_step.reset)
  let ?h = "neighbor_clear (handle_zero (zb_nwk_nib_init g))"
  have t: "data_tables g' = data_tables ?h"
    using confirm_status_data [OF run [unfolded zb_mlme_reset_confirm_def]] .
  have "data_cleared ?h"
    using l by (simp add: data_cleared_def neighbor_clear_def handle_zero_def zb_nwk_nib_init_def btr_zero_def br_zero_def wa_zero_def)
  then show "data_cleared g'" using t by (simp add: data_cleared_def data_tables_def)
qed

section \<open>The properties\<close>

text \<open>
  C19. The parent that is chosen is a suitable neighbor, and no suitable neighbor is nearer to the coordinator over a link
  that is at least as good. There is no parent, which the code takes for a pointer to one, exactly when no neighbor is suitable.
\<close>

theorem chosen_parent_is_best:
  "case nwk_choose_parent ref cap g of
     None \<Rightarrow> parents ref cap g = []
   | Some (k, _) \<Rightarrow> k < length (ext_neighbor (neighbor (snwk g))) \<and> ext_neighbor (neighbor (snwk g)) ! k \<in> set (parents ref cap g)
       \<and> (\<forall>e \<in> set (parents ref cap g). \<not> better_parent e (ext_neighbor (neighbor (snwk g)) ! k))"
  by (rule choose_parent_spec)

text \<open>
  C20. After an accepted association the device is joined, has the assigned address, the network and the update identifier
  of its parent, is one level below the parent with the address block of that level, and has the type it asked for.
\<close>

theorem association_takes_place:
  assumes run: "zb_mlme_associate_confirm cbs stale ch i g = Some g'" and b: "arr_get (pool (bpool g)) i = Some b"
    and ps: "get_param b 11 = Some ps" "ps ! 2 = MAC_SUCCESS" and k: "join_parent g = Some k"
  shows "let x = ext_neighbor (neighbor (snwk g)) ! k; d = (if x_depth x = 15 then 15 else ucast (x_depth x) + 1);
             router = ZB_MAC_CAP_GET_DEVICE_TYPE (jr_capability (saved_join g))
         in nwk_joined g' \<and> mac_dev_type g' = (if router then MAC_DEV_FFD else MAC_DEV_RFD)
            \<and> nwk_place g' = ((ZB_LETOH16 (take 2 ps), jr_extended_pan_id (saved_join g), x_update_id x),
                (d, zb_nwk_daa_calc_cskip d (snwk g)), if router then ZB_NWK_DEVICE_TYPE_ROUTER else ZB_NWK_DEVICE_TYPE_ED)"
proof -
  from run b ps have "associate_ok cbs stale ch i ps g = Some g'" by (simp add: zb_mlme_associate_confirm_def)
  from associate_ok_spec [OF this k] show ?thesis by (simp add: Let_def)
qed

text \<open>
  C21. A request to associate with a known network of which no neighbor is a suitable parent does not fail with a status: it
  uses the null pointer of the choice.
\<close>

theorem association_without_parent:
  assumes "arr_get (pool (bpool g)) i = Some b" "get_param b 16 = Some ps"
    and "jr_rejoin_network (join_request_at ps) = ZB_NLME_REJOIN_METHOD_ASSOCIATION" "\<not> nwk_joined g"
    and "zb_address_get_pan_id_ref (jr_extended_pan_id (join_request_at ps)) (addr_tbl (snwk g)) = Some (RET_OK, Some ref)"
    and none: "parents ref (jr_capability (join_request_at ps)) g = []"
  shows "zb_nlme_join_request cbs i g = None"
proof -
  have "parents ref cap (g\<lparr>router_started := False\<rparr>) = parents ref cap g" for cap by (simp add: parents_def)
  then have "nwk_choose_parent ref (jr_capability (join_request_at ps)) (g\<lparr>router_started := False\<rparr>) = None"
    using choose_parent_spec [of ref "jr_capability (join_request_at ps)" "g\<lparr>router_started := False\<rparr>"] none
    by (auto split: option.splits)
  with assms show ?thesis by (simp add: zb_nlme_join_request_def nwk_association_join_def)
qed

text \<open>
  C23. A device that is to leave by itself, the request for which has the zero address, uses the neighbor entry it has not looked up.
\<close>

theorem own_leave_fails:
  assumes "arr_get (pool (bpool g)) i = Some b" "get_param b 10 = Some r" "nwk_joined g" "ieee_is_zero (take 8 r)"
  shows "zb_nlme_leave_request cbs i g = None"
  using assms by (simp add: zb_nlme_leave_request_def leave_target_def send_leave_alone)

text \<open>
  C22. An attribute that was set is read back as the byte that was given, cut to the width of the attribute, and the extended
  PAN identifier as its eight bytes; no other attribute changes. The high byte of an attribute of two bytes is not stored.
\<close>

theorem set_attribute_is_read_back:
  assumes run: "zb_nlme_set_request cbs i g = Some g'" and b: "arr_get (pool (bpool g)) i = Some b"
    and req: "buf_read (data_buf b) (ZB_BUF_BEGIN b) 4 = Some req" and known: "nib_get (ZB_LETOH32 req) g \<noteq> None"
  defines "a \<equiv> ZB_LETOH32 req" and "q \<equiv> ZB_BUF_BEGIN b + 6"
  shows "(\<exists>n. nib_get a g' = Some (n, if a = ZB_NIB_ATTRIBUTE_EXTENDED_PANID then take 8 (drop q (data_buf b))
                                    else [data_buf b ! q AND nib_mask a]))
    \<and> (\<forall>a'. a' \<noteq> a \<longrightarrow> nib_get a' g' = nib_get a' g)"
proof -
  from run b req obtain r c d where r: "nib_set a (data_buf b) q g = Some r"
    and s: "schedule_buf (cb_nlme_set_confirm cbs) i (c\<lparr>data_buf := d\<rparr>) (case r of Some g \<Rightarrow> g | None \<Rightarrow> g) = Some g'"
    by (auto simp: zb_nlme_set_request_def bind_eq_Some_conv a_def q_def)
  obtain h where h: "r = Some h" using r known by (auto simp: nib_set_def a_def bind_eq_Some_conv split: if_split_asm)
  from s have "nib_get a' g' = nib_get a' h" for a' by (simp add: h schedule_buf_nib)
  with nib_set_get [OF r [unfolded h]] show ?thesis by auto
qed

section \<open>The properties on concrete states\<close>

text \<open>
  A device that has heard the neighbors \<open>ext\<close> in the network with the identifier \<open>[1, 1, 1, 1, 1, 1, 1, 1]\<close>; the parameters of its
  first buffer are \<open>ps\<close>, and \<open>f\<close> is the packet in it.
\<close>

definition parent_entry :: "u16 \<Rightarrow> u4 \<Rightarrow> u8 \<Rightarrow> zb_ext_neighbor_tbl_ent" where
  "parent_entry a d q = ext_neighbor_ent_zero\<lparr>x_short_addr := a, x_panid_ref := 1, x_depth := d, x_lqi := q, x_stack_profile := 1,
     x_permit_joining := True, x_router_capacity := True, x_end_device_capacity := True, x_potential_parent := True\<rparr>"

definition with_param :: "u8 list \<Rightarrow> nat data_g \<Rightarrow> nat data_g" where
  "with_param ps g = g\<lparr>bpool := (bpool g)\<lparr>pool := (pool (bpool g))[0 := (pool (bpool g) ! 0)\<lparr>
     data_buf := take (ZB_IO_BUF_SIZE - length ps) (data_buf (pool (bpool g) ! 0)) @ ps\<rparr>]\<rparr>\<rparr>"

definition joining :: "zb_ext_neighbor_tbl_ent list \<Rightarrow> nat data_g \<Rightarrow> nat data_g" where
  "joining ext g =
     (let z = addr_tbl (snwk g);
          z = z\<lparr>pan_map := replicate 8 (replicate 8 1, 0x1234), used_pan_addr := [0xff, 0],
                addr_map := (addr_map z)[0 := (addr_map z ! 0)\<lparr>am_addr := 1, am_used := True\<rparr>], n_elements := 1, n_sorted_elements := 1\<rparr>
      in g\<lparr>nwk_joined := False, snwk := (snwk g)\<lparr>addr_tbl := z, neighbor := (neighbor (snwk g))\<lparr>
             ext_neighbor := ext, ext_neighbor_size := of_nat (length ext), base_neighbor_size := 32 - of_nat (length ext)\<rparr>\<rparr>\<rparr>)"

definition nlme_example :: "nat data_g \<Rightarrow> nat nlme_g" where
  "nlme_example g = data_g.extend g \<lparr>known_panids = replicate 8 0, new_panid = 0, panid_conflict = False,
     nwk_manager_addr = 0x1234, current_channel = 11, saved_join = (join_request_at (replicate 16 1)), join_parent = Some 0,
     rejoin_extended_pan_id = replicate 8 0, rejoin_capability = 0, rejoin_parent = None, rejoin_req_table = replicate 3 0,
     mac_dev_type = MAC_DEV_UNDEFINED, rejoin_after_leave = 0, leave_ind_ref = 0, leave_ind_rejoin = 0,
     passive_ack_timeout = 100, max_broadcast_retries = 2, addr_alloc = 0\<rparr>"

definition join_example_cbs :: "nat join_cbs" where
  "join_example_cbs = \<lparr>cb_panid = panid_example_cbs, cb_nlme_join_confirm = 30, cb_nlme_join_indication = 31,
     cb_mlme_associate_request = 32, cb_mlme_associate_response = 33, cb_mlme_scan_request = 34, cb_rejoin_scan_confirm = 35,
     cb_handle_poll_request = 36, cb_handle_orphan_response = 37, cb_rejoin_response_timeout = 38\<rparr>"

definition nlme_example_cbs :: "nat nlme_cbs" where
  "nlme_example_cbs = \<lparr>cb_cmd = \<lparr>cb_join = join_example_cbs, cb_leave_ind_prnt = 40, cb_nlme_leave_indication = 41,
     cb_nlme_leave_confirm = 42, cb_nlde_data_indication = 43, cb_call_status_ind = 44\<rparr>, cb_nlme_reset_confirm = 45,
     cb_mlme_reset_request = 46, cb_nlme_sync_confirm = 47, cb_mlme_sync_loss_indication = 48, cb_nlme_get_confirm = 49,
     cb_nlme_set_confirm = 50\<rparr>"

lemma hash_code [code]:
  "ZB_ADDRESS_PAN_ID_HASH p = unat (ZB_4INT_HASH_FUNC (ucast (p ! 0)) (ucast (p ! 2)) (ucast (p ! 4)) (ucast (p ! 6)) mod 8)"
  "zb_address_compressed_ieee_hash c =
     (let d = c_device_id c in unat (ZB_4INT_HASH_FUNC (ucast (d ! 0)) (ucast (d ! 2)) (ucast (d ! 3)) (ucast (d ! 4)) mod 101))"
  by (simp_all add: ZB_ADDRESS_PAN_ID_HASH_def ZB_PANID_TABLE_SIZE_def zb_address_compressed_ieee_hash_def zb_config unat_mod)

theorem chosen_parent_is_best_witness:
  "\<exists>g'. nwk_choose_parent 1 0x8e (nlme_example (joining [parent_entry 1 2 50, parent_entry 2 1 200, parent_entry 3 1 100] idle))
      = Some (1, g')
    \<and> (\<forall>e \<in> set (parents 1 0x8e (nlme_example (joining [parent_entry 1 2 50, parent_entry 2 1 200, parent_entry 3 1 100] idle))).
          \<not> better_parent e (parent_entry 2 1 200))"
proof -
  let ?xs = "[parent_entry 1 2 50, parent_entry 2 1 200, parent_entry 3 1 100]"
  let ?g = "nlme_example (joining ?xs idle)"
  have "map_option fst (nwk_choose_parent 1 0x8e ?g) = Some 1" by code_simp
  then obtain g' where g': "nwk_choose_parent 1 0x8e ?g = Some (1, g')" by auto
  have "ext_neighbor (neighbor (snwk ?g)) = ?xs" by (simp add: nlme_example_def joining_def Let_def data_g.defs)
  with chosen_parent_is_best [of 1 "0x8e" ?g] g' show ?thesis by auto
qed

theorem association_takes_place_witness:
  "\<exists>g'. zb_mlme_associate_confirm join_example_cbs (\<lambda>_. neighbor_ent_zero) 11 0
      (nlme_example (joining [parent_entry 1 2 50] (with_param ([0x43, 0x01, 0] @ replicate 8 9) idle))) = Some g'
    \<and> nwk_joined g' \<and> fst (fst (nwk_place g')) = 0x143 \<and> fst (fst (snd (nwk_place g'))) = 3"
proof -
  let ?g = "nlme_example (joining [parent_entry 1 2 50] (with_param ([0x43, 0x01, 0] @ replicate 8 9) idle))"
  have "\<exists>y. zb_mlme_associate_confirm join_example_cbs (\<lambda>_. neighbor_ent_zero) 11 0 ?g = Some y" by (rule is_some) code_simp
  then obtain g' where g': "zb_mlme_associate_confirm join_example_cbs (\<lambda>_. neighbor_ent_zero) 11 0 ?g = Some g'" ..
  have "Option.bind (arr_get (pool (bpool ?g)) 0) (\<lambda>b. get_param b 11) = Some ([0x43, 0x01, 0] @ replicate 8 9)" by code_simp
  then obtain b where b: "arr_get (pool (bpool ?g)) 0 = Some b" "get_param b 11 = Some ([0x43, 0x01, 0] @ replicate 8 9)"
    by (auto simp: bind_eq_Some_conv)
  have k: "join_parent ?g = Some 0" "ext_neighbor (neighbor (snwk ?g)) = [parent_entry 1 2 50]"
    by (simp_all add: nlme_example_def joining_def Let_def data_g.defs)
  have s: "ZB_LETOH16 [0x43, 0x01] = 0x143" by code_simp
  from association_takes_place [OF g' b _ k(1)] show ?thesis
    using g' k(2) s by (simp add: parent_entry_def Let_def MAC_SUCCESS_def)
qed

theorem association_without_parent_witness:
  "zb_nlme_join_request join_example_cbs 0 (nlme_example (joining [] (with_param (replicate 8 1 @ [0, 8, 0, 0, 0x8e, 0, 3, 0]) idle)))
     = None"
proof -
  let ?g = "nlme_example (joining [] (with_param (replicate 8 1 @ [0, 8, 0, 0, 0x8e, 0, 3, 0]) idle))"
  have "Option.bind (arr_get (pool (bpool ?g)) 0) (\<lambda>b. get_param b 16) = Some (replicate 8 1 @ [0, 8, 0, 0, 0x8e, 0, 3, 0])" by code_simp
  then obtain b where b: "arr_get (pool (bpool ?g)) 0 = Some b"
    "get_param b 16 = Some (replicate 8 1 @ [0, 8, 0, 0, 0x8e, 0, 3, 0])"
    by (auto simp: bind_eq_Some_conv)
  have "zb_address_get_pan_id_ref (replicate 8 1) (addr_tbl (snwk ?g)) = Some (RET_OK, Some 1)" by code_simp
  then show ?thesis
    by (intro association_without_parent [OF b])
      (simp_all add: join_request_at_def ZB_NLME_REJOIN_METHOD_ASSOCIATION_def nlme_example_def joining_def Let_def data_g.defs
        parents_def nth_append)
qed

text \<open>A device with its three keys, whose first buffer asks it to leave. The command for its own leave can be built.\<close>

definition leaving :: "nat nlme_g" where
  "leaving = nlme_example (with_param (replicate 10 0)
     (idle\<lparr>secur_material_set := replicate 3 \<lparr>ms_key = replicate 16 1, ms_key_seq_number = 0\<rparr>\<rparr>))"

theorem own_leave_fails_witness:
  "(do { secure \<leftarrow> secure_leave leaving;
         b \<leftarrow> arr_get (pool (bpool leaving)) 0;
         (b, p, g) \<leftarrow> nwk_alloc_and_fill_hdr b ZB_NWK_BROADCAST_RX_ON_WHEN_IDLE (Some (mac_extended_address leaving)) None False secure True
                       (leaving\<lparr>rejoin_after_leave := 0\<rparr>);
         d \<leftarrow> arr_set (data_buf b) (p + 6) 1;
         (b, c) \<leftarrow> nwk_alloc_and_fill_cmd (b\<lparr>data_buf := d\<rparr>) ZB_NWK_CMD_LEAVE 1;
         arr_set (data_buf b) c (leave_payload False False False) }) \<noteq> None
   \<and> zb_nlme_leave_request nlme_example_cbs 0 leaving = None"
proof -
  have "(case do { secure \<leftarrow> secure_leave leaving;
         b \<leftarrow> arr_get (pool (bpool leaving)) 0;
         (b, p, g) \<leftarrow> nwk_alloc_and_fill_hdr b ZB_NWK_BROADCAST_RX_ON_WHEN_IDLE (Some (mac_extended_address leaving)) None False secure True
                       (leaving\<lparr>rejoin_after_leave := 0\<rparr>);
         d \<leftarrow> arr_set (data_buf b) (p + 6) 1;
         (b, c) \<leftarrow> nwk_alloc_and_fill_cmd (b\<lparr>data_buf := d\<rparr>) ZB_NWK_CMD_LEAVE 1;
         arr_set (data_buf b) c (leave_payload False False False) } of None \<Rightarrow> False | Some _ \<Rightarrow> True)" by code_simp
  moreover have "Option.bind (arr_get (pool (bpool leaving)) 0) (\<lambda>b. get_param b 10) = Some (replicate 10 0)" by code_simp
  then obtain b where b: "arr_get (pool (bpool leaving)) 0 = Some b" "get_param b 10 = Some (replicate 10 0)"
    by (auto simp: bind_eq_Some_conv)
  have "nwk_joined leaving" by code_simp
  then have "zb_nlme_leave_request nlme_example_cbs 0 leaving = None"
    by (rule own_leave_fails [OF b]) (simp add: ieee_is_zero_def)
  ultimately show ?thesis by (auto split: option.split_asm)
qed

theorem set_attribute_is_read_back_witness:
  "\<exists>g'. zb_nlme_set_request nlme_example_cbs 0 (nlme_example (with_frame [0x92, 0, 0, 0, 2, 0, 0x78, 0x56] idle)) = Some g'
    \<and> (\<exists>n. nib_get ZB_NIB_ATTRIBUTE_MANAGER_ADDR g' = Some (n, [0x78]))"
proof -
  let ?f = "[0x92, 0, 0, 0, 2, 0, 0x78, 0x56]"
  let ?g = "nlme_example (with_frame ?f idle)"
  have "\<exists>y. zb_nlme_set_request nlme_example_cbs 0 ?g = Some y" by (rule is_some) code_simp
  then obtain g' where g': "zb_nlme_set_request nlme_example_cbs 0 ?g = Some g'" ..
  have "(case arr_get (pool (bpool ?g)) 0 of None \<Rightarrow> False | Some b \<Rightarrow>
      buf_read (data_buf b) (ZB_BUF_BEGIN b) 4 = Some [0x92, 0, 0, 0] \<and> data_buf b ! (ZB_BUF_BEGIN b + 6) = 0x78)" by code_simp
  then obtain b where b: "arr_get (pool (bpool ?g)) 0 = Some b"
    "buf_read (data_buf b) (ZB_BUF_BEGIN b) 4 = Some [0x92, 0, 0, 0]" "data_buf b ! (ZB_BUF_BEGIN b + 6) = 0x78"
    by (auto split: option.splits)
  have a: "ZB_LETOH32 [0x92, 0, 0, 0] = ZB_NIB_ATTRIBUTE_MANAGER_ADDR" by code_simp
  have "nib_get (ZB_LETOH32 [0x92, 0, 0, 0]) ?g \<noteq> None" unfolding a nib_get_known by (simp add: nib_attributes)
  from set_attribute_is_read_back [OF g' b(1,2) this] show ?thesis
    using g' unfolding a b(3) by (simp add: nib_attributes nib_mask_def)
qed

end
