(* ===== verification/Spec2Isabelle.thy ===== *)
theory Spec2Isabelle
  imports Main_Loop Bufpool Address_Ieee Neighbor_Lemmas Fcs Ccm Aps_Dups Aps_Bind_Lemmas Tree_Join Nwk_Unsecure_Lemmas Nwk_Mesh_Expiry Nwk_Join_Props
begin

text \<open>
  A verification development for ZBOSS 1.0, a ZigBee PRO 2007 protocol stack in C. File names are relative to
  \<^verbatim>\<open>src/ZBOSS_v1.0_src/\<close>.

  \<^bold>\<open>The program.\<close> The stack is one thread of control. All state is in the global structure \<^verbatim>\<open>ZG\<close>; every layer
  is a set of callbacks of one byte, the number of a packet buffer, that run to their end and hand the buffer to
  the next callback through the scheduler (\<^verbatim>\<open>common/zb_scheduler.c\<close>) or a timer alarm. A received frame comes from
  the MAC (\<^verbatim>\<open>mac/\<close>) to \<^verbatim>\<open>zb_mcps_data_indication\<close> of the network layer (\<^verbatim>\<open>nwk/nwk_main.c\<close>), which rejects repeated
  broadcasts, removes the network security (\<^verbatim>\<open>secur/\<close>), and forwards the frame, gives it to the higher layers or
  dispatches a command: routing (\<^verbatim>\<open>nwk/nwk_cr_mesh_routing.c\<close>), leaving, rejoining (\<^verbatim>\<open>nwk/nwk_join.c\<close>), or a
  conflict of PAN identifiers (\<^verbatim>\<open>nwk/nwk_panid_conflict.c\<close>). All of them name devices by references into
  the address tables (\<^verbatim>\<open>common/zb_address.c\<close>) and keep what they know of devices in radio range in the neighbor
  tables (\<^verbatim>\<open>nwk/nwk_neighbor.c\<close>).

  \<^bold>\<open>The build that is modelled.\<close> The simulator build for a 32-bit little-endian Unix (\<^verbatim>\<open>UNIX\<close>, \<^verbatim>\<open>ZB_NS_BUILD\<close>) with
  the router role, \<^verbatim>\<open>ZB_SECURITY\<close> without \<^verbatim>\<open>ZB_MAC_SECURITY\<close>, \<^verbatim>\<open>ZB_PRO_COMPATIBLE\<close>, assertions on and trace off. Integers
  have their width as words; \<^verbatim>\<open>zb_ushort_t\<close> and references have 32 bits; structures are packed except where the source leaves
  the attribute out, and an enumeration without it has four bytes. The constants of \<^verbatim>\<open>include/zb_config.h\<close> are in the
  collection \<open>zb_config\<close>.

  \<^bold>\<open>Failing runs.\<close> An operation is a function into an option. \<open>None\<close> stands for a failed assertion, a null pointer that is
  used, or an access outside an array; error codes of the source are values. Reads of memory that the code has not
  initialised or has given back are the arguments \<open>stale\<close> and \<open>stale_ch\<close>; the random number generator, a function of
  the time, is the argument \<open>base\<close> or \<open>rnd\<close>. Callbacks are elements of a type \<open>'cb\<close> that the operations only store and
  compare, gathered in records such as \<open>mesh_cbs\<close> and \<open>join_cbs\<close>; the main loop takes what they do as a parameter,
  and \<open>loop_client\<close> states what it relies on: they return, only add to the queues or cancel, and there is a bound on what they add.

  \<^bold>\<open>State.\<close> \<^verbatim>\<open>ZG\<close> is a chain of records, each of which extends the one before: \<open>zb_g\<close> (scheduler and timer), \<open>bp_g\<close>
  (buffers), \<open>sec_g\<close> (keys, counters, and in \<open>snwk\<close> the addresses, neighbors and the place in the tree), \<open>mesh_g\<close>
  (routing tables and the state of the layer), \<open>data_g\<close> (broadcast tables), \<open>panid_g\<close>, \<open>join_g\<close>, \<open>cmd_g\<close> and \<open>nlme_g\<close>. An
  operation is stated on the first record that has its fields and so applies to all later ones.

  \<^bold>\<open>The theories.\<close>

  \<^item> \<open>ZB_Prelude\<close>: words, error codes, array access with bounds, the lemmas and collections the others share.
  \<^item> \<open>Ring_Buffer\<close>, \<open>List_Macros\<close>: the macros of \<^verbatim>\<open>include/zb_ringbuffer.h\<close> and \<^verbatim>\<open>include/zb_list_macros.h\<close>, with the
    interfaces \<open>bounded_fifo\<close> and \<open>free_pool\<close> and their interpretations.
  \<^item> \<open>ZB_Time\<close>, \<open>Scheduler\<close>, \<open>Main_Loop\<close>: time that wraps around, the callback and alarm queues, the main loop: alarms stay
    sorted across a wrap; under that contract one call of the loop runs all that is queued and due, once.
  \<^item> \<open>Bufpool\<close>: packet buffers, their pool with its two limits, space inside a buffer, callbacks that wait. \<open>free_buf_in_loop\<close>:
    freeing a buffer is within the contract of the loop.
  \<^item> \<open>Address\<close>, \<open>Address_Lemmas\<close>, \<open>Address_Ieee\<close>: the address tables and their invariant.
  \<^item> \<open>Neighbor\<close>, \<open>Neighbor_Lemmas\<close>: the base and the extended neighbor table in one array; the base table refines a map.
  \<^item> \<open>Fcs\<close>, \<open>Ccm\<close>: the checksum against the bitwise CRC; AES-128 and CCM*.
  \<^item> \<open>Aps_Dups\<close>, \<open>Aps_Bind\<close>, \<open>Aps_Bind_Lemmas\<close>: duplicate rejection, bindings as a list of pairs, groups.
  \<^item> \<open>Tree_Addr\<close>, \<open>Tree_Addr_Lemmas\<close>, \<open>Tree_Join\<close>: distributed addresses, which are unique in every tree that grows within the
    limits, tree routing, the acceptance of a child.
  \<^item> \<open>Mac_Hdr\<close>, \<open>Mac_Hdr_Lemmas\<close>: MAC headers and the two filters of received frames.
  \<^item> \<open>Nwk_Secur\<close>, \<open>Nwk_Secur_Lemmas\<close>, \<open>Nwk_Unsecure_Lemmas\<close>, \<open>Zb_Random\<close>: keys, nonces, which frames are accepted, random keys.
  \<^item> \<open>Nwk_Mesh\<close> with \<open>_Lemmas\<close>, \<open>_Inv\<close>, \<open>_Props\<close>, \<open>_Expiry\<close>: mesh routing. The macros \<^verbatim>\<open>NWK_ARRAY_*\<close> on tables with a count are
    the interface \<open>used_table\<close>, interpreted for routes, discoveries and waiting packets, and in \<open>Nwk_Data_Lemmas\<close> for the
    three tables of broadcasts.
  \<^item> \<open>Nwk_Data\<close> with \<open>_Lemmas\<close>, \<open>_Props\<close>: sending, forwarding, broadcasts, reception and leaving.
  \<^item> \<open>Nwk_Panid\<close> with \<open>_Props\<close>: the conflict of PAN identifiers.
  \<^item> \<open>Nwk_Join\<close>, \<open>Nwk_Cmd\<close>, \<open>Nwk_Nlme\<close>, \<open>Nwk_Join_Props\<close>: joining and rejoining, the dispatch of commands and the confirmations of the
    MAC, the management requests, and their properties.

  \<^bold>\<open>What is shown.\<close> For each table an invariant that its operations keep, most often with an abstraction to a set, map or list on
  which they are the obvious operation; for routing and the data path, that the invariants hold in all reachable
  states, resets included, where the counters of broadcasts are right as long as the device does not leave a network while
  broadcasts are recorded; that periodic runs empty their tables; round trips of headers, addresses, encryption and attributes; for security, that
  nonces differ and which frames are accepted. Where the code does something other than it means to, a theorem states
  what it does, such as \<open>own_leave_fails\<close>; the neighbouring comments say what was meant.

  \<^bold>\<open>Bounds.\<close> Tables have the sizes of \<^verbatim>\<open>include/zb_config.h\<close>. Loops over an array recurse on the array or on the distance to its end. Loops
  over pointers and loops that need not end (\<open>ring_walk\<close>, \<open>choose_panid\<close>, \<open>random_address\<close>, the walks over queues) are
  partial functions into an option, with theorems for when they return. No definition takes fuel.

  \<^bold>\<open>Not modelled.\<close>

  \<^item> The formation and discovery of networks (\<^verbatim>\<open>nwk/nwk_cr_formation.c\<close>, \<^verbatim>\<open>nwk/nwk_formation.c\<close>, \<^verbatim>\<open>nwk/nwk_discovery.c\<close>): scans whose
    results the MAC delivers; of formation only the place of the coordinator in the tree is modelled.
  \<^item> The MAC apart from headers, filters and checksum: its dispatcher is a state machine around the interrupts
    and registers of particular radio chips. The radio drivers and transports (\<^verbatim>\<open>osif/\<close>, \<^verbatim>\<open>mac/zb_uz*.c\<close>) are input and output.
  \<^item> The APS data service, the security of the APS layer, the ZDO and the AF (\<^verbatim>\<open>aps/aps_main.c\<close>, \<^verbatim>\<open>secur/aps*_secur.c\<close>, \<^verbatim>\<open>zdo/\<close>), clients
    of the layers modelled here.
  \<^item> Trace, loading of settings, tests and tools.
\<close>

end
